(* ===== verification/Mirror_Prelude.thy ===== *)
theory Mirror_Prelude
  imports Main "HOL-Library.Word"
begin

unbundle bit_operations_syntax

text \<open>
  Vocabulary shared by the component theories: the fixed-width Go integers the
  sources use, slices of byte sequences, and the two's-complement reading of the
  \<^verbatim>\<open>int64\<close> and \<^verbatim>\<open>int16\<close> arithmetic that the timestamp and sequence-number code
  relies on.  Lemmas that several components need are collected here, either as
  simplification rules or in one of the named collections.
\<close>

named_theorems go_defs \<open>definitions of the Go run-time vocabulary\<close>
named_theorems slice_simps \<open>rules that normalise slices of lists\<close>

section \<open>Machine integers\<close>

type_synonym byte = "8 word"
type_synonym u16 = "16 word"
type_synonym u32 = "32 word"
type_synonym u64 = "64 word"

text \<open>The limits of \<^verbatim>\<open>security/limits.go\<close> that several components share.\<close>

definition MaxFrameSize :: nat where
  "MaxFrameSize = 50 * 1024 * 1024"

definition MaxNALUnitsPerFrame :: nat where
  "MaxNALUnitsPerFrame = 1000"

lemma or_push_bit_nat: "(a::nat) OR push_bit s b = a + 2 ^ s * b" if "a < 2 ^ s"
proof -
  have "take_bit s a = a" using that by (simp add: take_bit_nat_eq_self)
  then have low: "\<And>i. bit a i \<Longrightarrow> i < s" by (metis bit_take_bit_iff)
  have "a AND push_bit s b = 0"
    by (rule bit_eqI) (auto simp: bit_simps dest: low)
  then have "a + push_bit s b = a OR push_bit s b"
    by (rule disjunctive_add_eq_or)
  then show ?thesis by (simp add: push_bit_eq_mult mult.commute)
qed

lemma unat_or_push_bit:
  fixes v w :: "'a::len word"
  assumes "unat v < 2 ^ s" and "2 ^ s * unat w < 2 ^ LENGTH('a)"
  shows "unat (v OR push_bit s w) = unat v + 2 ^ s * unat w"
proof -
  have "unat (v OR push_bit s w) = unat v OR take_bit LENGTH('a) (push_bit s (unat w))"
    by (simp only: unsigned_or_eq unsigned_push_bit_eq)
  also have "take_bit LENGTH('a) (push_bit s (unat w)) = push_bit s (unat w)"
    using assms(2) by (simp add: take_bit_nat_eq_self push_bit_eq_mult mult.commute)
  also have "unat v OR push_bit s (unat w) = unat v + 2 ^ s * unat w"
    using assms(1) by (rule or_push_bit_nat)
  finally show ?thesis .
qed

text \<open>A wrapping 16-bit number in terms of its distance from another.\<close>

lemma unat_offset: "unat (s::u16) = (unat b + unat (s - b)) mod 65536"
proof -
  have "unat (b + (s - b)) = (unat b + unat (s - b)) mod 2 ^ LENGTH(16)" by (rule unat_word_ariths)
  then show ?thesis by simp
qed

text \<open>The signed reading of a 16-bit number.\<close>

lemma sint16: "sint (w::u16) = (if uint w < 32768 then uint w else uint w - 65536)"
proof -
  have r: "0 \<le> uint w" "uint w < 65536" using unsigned_less [of w, where ?'a = int] by simp_all
  have s: "sint w = signed_take_bit 15 (uint w)" using sint_uint [of w] by simp
  show ?thesis
  proof (cases "uint w < 32768")
    case True
    then have "signed_take_bit 15 (uint w) = uint w"
      by (intro signed_take_bit_int_eq_self order_trans [OF _ r(1)]) simp_all
    then show ?thesis using True by (simp add: s)
  next
    case False
    define u where "u = uint w - 32768"
    have "0 \<le> u" "u < 65536" using r False by (simp_all add: u_def)
    moreover have "uint w + 32768 = u + 65536" by (simp add: u_def)
    ultimately have "(uint w + 32768) mod 65536 = u" by (simp only: mod_add_self2 mod_pos_pos_trivial)
    then show ?thesis using False
      by (simp add: s signed_take_bit_eq_take_bit_shift take_bit_eq_mod u_def)
  qed
qed

section \<open>Outcomes of a Go call\<close>

text \<open>
  A call returns, fails at run time (a panic, or a loop that never makes progress),
  or waits on a condition variable until another goroutine changes the state.
\<close>

datatype 'a outcome = Ret 'a | Panic | Block

primrec outcome_bind :: "'a outcome \<Rightarrow> ('a \<Rightarrow> 'b outcome) \<Rightarrow> 'b outcome" where
  "outcome_bind (Ret x) f = f x"
| "outcome_bind Panic f = Panic"
| "outcome_bind Block f = Block"

lemma outcome_bind_Ret [elim]:
  assumes "outcome_bind m f = Ret r"
  obtains x where "m = Ret x" "f x = Ret r"
  using assms by (cases m) auto

text \<open>Points in time are nanoseconds; the zero \<^verbatim>\<open>time.Time\<close> is \<^const>\<open>None\<close>.\<close>

type_synonym nanos = int
type_synonym gotime = "nanos option"

definition second :: nanos where
  "second = 1000000000"

section \<open>Slices\<close>

text \<open>\<^verbatim>\<open>xs[i:j]\<close>, and \<^verbatim>\<open>copy(dst[pos:], xs)\<close> for a source that fits.\<close>

definition gslice :: "'a list \<Rightarrow> nat \<Rightarrow> nat \<Rightarrow> 'a list" where
  "gslice xs i j = take (j - i) (drop i xs)"

definition copy_at :: "'a list \<Rightarrow> nat \<Rightarrow> 'a list \<Rightarrow> 'a list" where
  "copy_at dst pos xs = take pos dst @ xs @ drop (pos + length xs) dst"

lemma length_gslice [simp]: "j \<le> length xs \<Longrightarrow> length (gslice xs i j) = j - i"
  by (simp add: gslice_def)

lemma nth_gslice [simp]: "i + k < j \<Longrightarrow> j \<le> length xs \<Longrightarrow> gslice xs i j ! k = xs ! (i + k)"
  by (simp add: gslice_def)

lemma slice_same [slice_simps]: "gslice xs i i = []"
  by (simp add: gslice_def)

lemma slice_zero [slice_simps]: "gslice xs 0 j = take j xs"
  by (simp add: gslice_def)

lemma slice_to_end [slice_simps]: "length xs \<le> j \<Longrightarrow> gslice xs i j = drop i xs"
  by (simp add: gslice_def)

lemma length_copy_at [simp]: "pos + length xs \<le> length dst \<Longrightarrow> length (copy_at dst pos xs) = length dst"
  by (simp add: copy_at_def)

lemma nth_copy_at:
  "pos + length xs \<le> length dst \<Longrightarrow> j < length dst \<Longrightarrow>
   copy_at dst pos xs ! j = (if pos \<le> j \<and> j < pos + length xs then xs ! (j - pos) else dst ! j)"
  by (auto simp: copy_at_def nth_append min_def)

text \<open>An index expression, and a slice expression, with the run-time check.\<close>

definition go_at :: "'a list \<Rightarrow> nat \<Rightarrow> ('a \<Rightarrow> 'b outcome) \<Rightarrow> 'b outcome" where
  "go_at xs i f = (if i < length xs then f (xs ! i) else Panic)"

definition go_slice :: "'a list \<Rightarrow> nat \<Rightarrow> nat \<Rightarrow> ('a list \<Rightarrow> 'b outcome) \<Rightarrow> 'b outcome" where
  "go_slice xs i j f = (if i \<le> j \<and> j \<le> length xs then f (gslice xs i j) else Panic)"

lemma go_at_in [simp]: "i < length xs \<Longrightarrow> go_at xs i f = f (xs ! i)"
  by (simp add: go_at_def)

lemma go_slice_in [simp]: "i \<le> j \<Longrightarrow> j \<le> length xs \<Longrightarrow> go_slice xs i j f = f (gslice xs i j)"
  by (simp add: go_slice_def)

text \<open>A call that returns, as a predicate with one rule per construct.\<close>

definition returns :: "'a outcome \<Rightarrow> bool" where
  "returns m \<longleftrightarrow> (\<exists>r. m = Ret r)"

named_theorems returns_rules \<open>rules that show that a call returns\<close>

lemma returns_Ret [returns_rules]: "returns (Ret r)"
  by (simp add: returns_def)

lemma returns_at [returns_rules]: "i < length xs \<Longrightarrow> returns (f (xs ! i)) \<Longrightarrow> returns (go_at xs i f)"
  by simp

lemma returns_slice [returns_rules]:
  "i \<le> j \<Longrightarrow> j \<le> length xs \<Longrightarrow> returns (f (gslice xs i j)) \<Longrightarrow> returns (go_slice xs i j f)"
  by simp

lemma returns_if [returns_rules]: "(b \<Longrightarrow> returns x) \<Longrightarrow> (\<not> b \<Longrightarrow> returns y) \<Longrightarrow> returns (if b then x else y)"
  by simp

lemma returns_bind [returns_rules]:
  "returns m \<Longrightarrow> (\<And>r. m = Ret r \<Longrightarrow> returns (f r)) \<Longrightarrow> returns (outcome_bind m f)"
  by (auto simp: returns_def)

lemma returns_option [returns_rules]:
  "(x = None \<Longrightarrow> returns a) \<Longrightarrow> (\<And>y. x = Some y \<Longrightarrow> returns (f y)) \<Longrightarrow>
   returns (case x of None \<Rightarrow> a | Some y \<Rightarrow> f y)"
  by (cases x) auto

lemma returns_sum [returns_rules]:
  "(\<And>e. x = Inl e \<Longrightarrow> returns (f e)) \<Longrightarrow> (\<And>y. x = Inr y \<Longrightarrow> returns (g y)) \<Longrightarrow>
   returns (case x of Inl e \<Rightarrow> f e | Inr y \<Rightarrow> g y)"
  by (cases x) auto

lemma returns_prod [returns_rules]:
  "(\<And>a b. x = (a, b) \<Longrightarrow> returns (f a b)) \<Longrightarrow> returns (case x of (a, b) \<Rightarrow> f a b)"
  by (cases x) auto

section \<open>Signed 64-bit arithmetic\<close>

text \<open>\<^verbatim>\<open>int64\<close> values are integers; \<open>i64\<close> is the wrap-around of an arithmetic result.\<close>

definition i64 :: "int \<Rightarrow> int" where
  "i64 x = signed_take_bit 63 x"

lemma i64_id [simp]: "- (2 ^ 63) \<le> x \<Longrightarrow> x < 2 ^ 63 \<Longrightarrow> i64 x = x"
  by (simp add: i64_def signed_take_bit_int_eq_self)

lemma i64_range: "- (2 ^ 63) \<le> i64 x \<and> i64 x < 2 ^ 63"
  using signed_take_bit_int_greater_eq_minus_exp [of 63 x] signed_take_bit_int_less_exp [of 63 x]
  by (simp add: i64_def)

lemma i64_add_sub: "i64 (i64 (x + y) + - y) = i64 x"
proof -
  have "take_bit 64 (i64 (x + y) + - y) = take_bit 64 (take_bit 64 (i64 (x + y)) + take_bit 64 (- y))"
    by (simp only: take_bit_add)
  also have "take_bit 64 (i64 (x + y)) = take_bit 64 (x + y)"
    by (simp add: i64_def take_bit_signed_take_bit)
  also have "take_bit 64 (take_bit 64 (x + y) + take_bit 64 (- y)) = take_bit 64 x"
    by (simp only: take_bit_add) simp
  finally have "take_bit (Suc 63) (i64 (x + y) + - y) = take_bit (Suc 63) x" by simp
  then show ?thesis unfolding i64_def by (simp only: signed_take_bit_eq_iff_take_bit_eq)
qed

end
