(* ===== verification/LEB128.thy ===== *)
theory LEB128
  imports Mirror_Prelude
begin

unbundle bit_operations_syntax

text \<open>
  The variable-length integers of \<^verbatim>\<open>internal/ingestion/security/leb128.go\<close>:
  the slice reader, the reader over an \<^verbatim>\<open>io.Reader\<close>, the writer and the size
  function.  The readers return Go's triple (value, bytes read, error).
\<close>

section \<open>Definitions\<close>

datatype leb_error = ErrLEB128Overflow | ErrLEB128TooManyBytes | ErrLEB128Incomplete

definition MaxLEB128Bytes :: nat where
  "MaxLEB128Bytes = 10"

text \<open>The body of the reading loop of \<^verbatim>\<open>ReadLEB128\<close>.\<close>

function ReadLEB128_loop ::
  "byte list \<Rightarrow> u64 \<Rightarrow> nat \<Rightarrow> nat \<Rightarrow> u64 \<times> nat \<times> leb_error option" where
  "ReadLEB128_loop data value shift bytesRead =
     (if bytesRead < length data \<and> bytesRead < MaxLEB128Bytes then
        (let b = data ! bytesRead; n = bytesRead + 1 in
         if shift \<ge> 64 then (0, n, Some ErrLEB128Overflow)
         else
           (let lowBits = (ucast (b AND 0x7F) :: u64) in
            if shift = 63 \<and> lowBits > 1 then (0, n, Some ErrLEB128Overflow)
            else if shift > 63 \<and> lowBits \<noteq> 0 then (0, n, Some ErrLEB128Overflow)
            else
              (let value' = value OR push_bit shift lowBits in
               if b AND 0x80 = 0 then (value', n, None)
               else ReadLEB128_loop data value' (shift + 7) n)))
      else if bytesRead \<ge> MaxLEB128Bytes then (0, bytesRead, Some ErrLEB128TooManyBytes)
      else (0, bytesRead, Some ErrLEB128Incomplete))"
  by pat_completeness auto
termination
  by (relation "measure (\<lambda>(data, value, shift, n). length data - n)") auto

declare ReadLEB128_loop.simps [simp del]

definition ReadLEB128 :: "byte list \<Rightarrow> u64 \<times> nat \<times> leb_error option" where
  "ReadLEB128 data =
     (if length data = 0 then (0, 0, Some ErrLEB128Incomplete)
      else ReadLEB128_loop data 0 0 0)"

function WriteLEB128 :: "u64 \<Rightarrow> byte list" where
  "WriteLEB128 value =
     (let b = (ucast (value AND 0x7F) :: byte); value' = drop_bit 7 value in
      if value' \<noteq> 0 then (b OR 0x80) # WriteLEB128 value' else [b])"
  by pat_completeness auto
termination
proof (relation "measure unat")
  show "wf (measure (unat :: u64 \<Rightarrow> nat))" by simp
next
  fix v b v' :: u64
  fix b8 :: byte
  assume "v' = drop_bit 7 v" and "v' \<noteq> 0"
  then have "unat v' = unat v div 128"
    by (simp only: unat_drop_bit_eq) (simp add: drop_bit_eq_div)
  moreover have "unat v \<noteq> 0"
    using \<open>v' \<noteq> 0\<close> \<open>v' = drop_bit 7 v\<close> by (auto simp: unat_eq_zero)
  ultimately show "(v', v) \<in> measure unat"
    by simp
qed

declare WriteLEB128.simps [simp del]


function LEB128Size_loop :: "u64 \<Rightarrow> nat \<Rightarrow> nat" where
  "LEB128Size_loop v sz = (if v \<noteq> 0 then LEB128Size_loop (drop_bit 7 v) (sz + 1) else sz)"
  by pat_completeness auto
termination
proof (relation "measure (\<lambda>(v, sz). unat v)")
  fix v :: u64 and sz :: nat
  assume "v \<noteq> 0"
  then have "unat v \<noteq> 0" by (simp add: unat_eq_zero)
  moreover have "unat (drop_bit 7 v) = unat v div 128"
    by (simp only: unat_drop_bit_eq) (simp add: drop_bit_eq_div)
  ultimately show "((drop_bit 7 v, sz + 1), (v, sz)) \<in> measure (\<lambda>(v, sz). unat v)"
    by simp
qed simp

declare LEB128Size_loop.simps [simp del]

definition LEB128Size :: "u64 \<Rightarrow> nat" where
  "LEB128Size v = LEB128Size_loop (drop_bit 7 v) 1"

text \<open>
  The reader over an \<^verbatim>\<open>io.Reader\<close>.  The reader itself is a parameter: one call
  of its \<^verbatim>\<open>Read\<close> on a one-byte buffer returns the count, the byte left in the
  buffer, an error (if any) and the next reader state.
\<close>

datatype io_error = EOF | OtherIO

datatype reader_error = LebErr leb_error | IoErr io_error

function ReadLEB128FromReader_loop ::
  "('r \<Rightarrow> (nat \<times> byte \<times> io_error option) \<times> 'r) \<Rightarrow> 'r \<Rightarrow> u64 \<Rightarrow> nat \<Rightarrow> nat
     \<Rightarrow> u64 \<times> nat \<times> reader_error option" where
  "ReadLEB128FromReader_loop rd r v shift bytesRead =
     (if bytesRead < MaxLEB128Bytes then
        (case rd r of ((n, b, err), r') \<Rightarrow>
          (case err of
             Some e \<Rightarrow>
               (if e = EOF \<and> bytesRead > 0
                then (0, bytesRead, Some (LebErr ErrLEB128Incomplete))
                else (0, bytesRead, Some (IoErr e)))
           | None \<Rightarrow>
               if n = 0 then (0, bytesRead, Some (LebErr ErrLEB128Incomplete))
               else
                 (let n' = bytesRead + 1 in
                  if shift \<ge> 64 then (0, n', Some (LebErr ErrLEB128Overflow))
                  else
                    (let lowBits = (ucast (b AND 0x7F) :: u64) in
                     if shift = 63 \<and> lowBits > 1 then (0, n', Some (LebErr ErrLEB128Overflow))
                     else if shift > 63 \<and> lowBits \<noteq> 0
                     then (0, n', Some (LebErr ErrLEB128Overflow))
                     else
                       (let v' = v OR push_bit shift lowBits in
                        if b AND 0x80 = 0 then (v', n', None)
                        else ReadLEB128FromReader_loop rd r' v' (shift + 7) n')))))
      else (0, bytesRead, Some (LebErr ErrLEB128TooManyBytes)))"
  by pat_completeness auto
termination
  by (relation "measure (\<lambda>(rd, r, v, shift, n). MaxLEB128Bytes - n)") auto

declare ReadLEB128FromReader_loop.simps [simp del]

definition ReadLEB128FromReader ::
  "('r \<Rightarrow> (nat \<times> byte \<times> io_error option) \<times> 'r) \<Rightarrow> 'r \<Rightarrow> u64 \<times> nat \<times> reader_error option" where
  "ReadLEB128FromReader rd r = ReadLEB128FromReader_loop rd r 0 0 0"


section \<open>Encoding then decoding\<close>

text \<open>
  Bits of a value below position \<open>7 * k\<close> are what the reader has accumulated after
  \<open>k\<close> bytes; the bytes still to be read encode the bits from \<open>7 * k\<close> on.
\<close>

lemma low7_split:
  fixes v :: u64
  shows "take_bit n v OR push_bit n (drop_bit n v AND 0x7F) = take_bit (n + 7) v"
proof (rule bit_word_eqI)
  fix i assume i: "i < LENGTH(64)"
  have m: "(0x7F :: u64) = mask 7" by (simp add: mask_eq_exp_minus_1)
  show "bit (take_bit n v OR push_bit n (drop_bit n v AND 0x7F)) i = bit (take_bit (n + 7) v) i"
    unfolding m using i by (auto simp: bit_simps)
qed

lemma ucast_low7: "(ucast ((ucast (w AND 0x7F) :: byte) AND 0x7F) :: u64) = w AND 0x7F"
  for w :: u64
proof (rule bit_word_eqI)
  fix i assume "i < LENGTH(64)"
  have m: "(0x7F :: u64) = mask 7" and m8: "(0x7F :: byte) = mask 7"
    by (simp_all add: mask_eq_exp_minus_1)
  show "bit (ucast ((ucast (w AND 0x7F) :: byte) AND 0x7F) :: u64) i = bit (w AND 0x7F) i"
    unfolding m m8 by (auto simp: bit_simps)
qed

lemma low7_with_flag:
  "((b OR 0x80) AND 0x7F) = b AND (0x7F :: byte)" "(b OR 0x80) AND 0x80 \<noteq> (0 :: byte)"
proof -
  show "((b OR 0x80) AND 0x7F) = b AND (0x7F :: byte)"
    by (simp add: bit.conj_disj_distrib2)
  have "(b OR 0x80) AND 0x80 = (0x80 :: byte)"
    by (simp add: bit.conj_disj_distrib2)
  then show "(b OR 0x80) AND 0x80 \<noteq> (0 :: byte)" by simp
qed

lemma low7_no_flag: "(ucast (w AND 0x7F) :: byte) AND 0x80 = 0" for w :: u64
proof (rule bit_word_eqI)
  fix i assume i: "i < LENGTH(8)"
  have m: "(0x7F :: u64) = mask 7" by (simp add: mask_eq_exp_minus_1)
  have "bit (0x80 :: byte) i \<longleftrightarrow> i = 7"
    using i bit_exp_iff [where 'a = byte, of 7 i] by auto
  then show "bit ((ucast (w AND 0x7F) :: byte) AND 0x80) i = bit (0 :: byte) i"
    unfolding m by (auto simp: bit_simps)
qed


lemma shifted_out: "64 \<le> n \<Longrightarrow> drop_bit n v = 0" for v :: u64
  by (rule bit_word_eqI) (auto simp: bit_simps dest: bit_imp_le_length)

lemma drop_bit_63_le_1: "drop_bit 63 v \<le> 1" for v :: u64
proof -
  have "unat v < 2 ^ LENGTH(64)" by (rule unsigned_less)
  then have "unat v div 2 ^ 63 < 2" by simp
  then have "unat (drop_bit 63 v) < 2"
    by (simp only: unat_drop_bit_eq) (simp add: drop_bit_eq_div)
  then show ?thesis by (simp add: word_le_nat_alt)
qed

lemma low7_le: "w AND 0x7F \<le> w" for w :: u64
  by (simp add: word_and_le2)

lemma ReadLEB128_loop_step:
  assumes "k < length data" and "k < MaxLEB128Bytes" and "shift < 64"
    and "\<not> (shift = 63 \<and> (ucast (data ! k AND 0x7F) :: u64) > 1)"
  shows "ReadLEB128_loop data v shift k =
     (let v' = v OR push_bit shift (ucast (data ! k AND 0x7F)) in
      if data ! k AND 0x80 = 0 then (v', Suc k, None)
      else ReadLEB128_loop data v' (shift + 7) (Suc k))"
  using assms by (subst ReadLEB128_loop.simps) (auto simp: Let_def)

lemma ReadLEB128_loop_Write:
  assumes "drop k data = WriteLEB128 (drop_bit (7 * k) v) @ rest"
    and "k \<le> length data" and "k = 0 \<or> drop_bit (7 * k) v \<noteq> 0"
  shows "ReadLEB128_loop data (take_bit (7 * k) v) (7 * k) k =
           (v, k + length (WriteLEB128 (drop_bit (7 * k) v)), None)"
  using assms
proof (induction "10 - k" arbitrary: k rule: less_induct)
  case less
  let ?w = "drop_bit (7 * k) v"
  have k9: "k \<le> 9"
  proof (rule ccontr)
    assume "\<not> k \<le> 9"
    then have "?w = 0" by (intro shifted_out) simp
    with less.prems(3) \<open>\<not> k \<le> 9\<close> show False by simp
  qed
  define b where "b = data ! k"
  have ne: "WriteLEB128 ?w \<noteq> []" by (subst WriteLEB128.simps) (simp add: Let_def)
  then have kl: "k < length data" using less.prems(1,2)
    by (cases "k = length data") auto
  have bhd: "b = hd (WriteLEB128 ?w)"
    using less.prems(1) kl ne by (simp add: b_def hd_drop_conv_nth [symmetric])
  have low: "(ucast (b AND 0x7F) :: u64) = ?w AND 0x7F"
    unfolding bhd by (subst WriteLEB128.simps) (simp add: Let_def low7_with_flag ucast_low7)
  have flag: "b AND 0x80 = 0 \<longleftrightarrow> drop_bit 7 ?w = 0"
    unfolding bhd
    by (subst WriteLEB128.simps) (auto simp: Let_def low7_with_flag low7_no_flag)
  have guard: "\<not> (7 * k = 63 \<and> (?w AND 0x7F) > 1)"
  proof
    assume "7 * k = 63 \<and> (?w AND 0x7F) > 1"
    then show False using low7_le [of ?w] drop_bit_63_le_1 [of v] by auto
  qed
  have acc: "take_bit (7 * k) v OR push_bit (7 * k) (?w AND 0x7F) = take_bit (7 * Suc k) v"
    using low7_split [of "7 * k" v] by (simp add: add.commute)
  have step: "drop_bit 7 ?w = drop_bit (7 * Suc k) v"
    by (simp add: add.commute)
  have unf: "ReadLEB128_loop data (take_bit (7 * k) v) (7 * k) k =
     (if b AND 0x80 = 0 then (take_bit (7 * Suc k) v, Suc k, None)
      else ReadLEB128_loop data (take_bit (7 * Suc k) v) (7 * Suc k) (Suc k))"
    using ReadLEB128_loop_step [of k data "7 * k" "take_bit (7 * k) v"] kl k9 guard
    unfolding b_def [symmetric] low Let_def acc
    by (simp add: MaxLEB128Bytes_def add.commute)
  show ?case
  proof (cases "drop_bit 7 ?w = 0")
    case True
    have "take_bit (7 * Suc k) v = v"
    proof (rule bit_word_eqI)
      fix i assume "i < LENGTH(64)"
      have "bit (drop_bit (7 * Suc k) v) (i - 7 * Suc k) = False"
        using True by (simp only: step) simp
      then show "bit (take_bit (7 * Suc k) v) i = bit v i"
        by (cases "i < 7 * Suc k") (auto simp: bit_simps)
    qed
    moreover have "length (WriteLEB128 ?w) = 1"
      using True by (subst WriteLEB128.simps) (simp add: Let_def)
    ultimately show ?thesis using unf flag True by simp
  next
    case False
    have W: "WriteLEB128 ?w = b # WriteLEB128 (drop_bit (7 * Suc k) v)"
      unfolding bhd using False
      by (subst (1 2) WriteLEB128.simps) (simp add: Let_def step del: drop_bit_drop_bit)
    then have "drop (Suc k) data = WriteLEB128 (drop_bit (7 * Suc k) v) @ rest"
      using less.prems(1) by (metis append_Cons drop_Suc list.sel(3) tl_drop)
    then have "ReadLEB128_loop data (take_bit (7 * Suc k) v) (7 * Suc k) (Suc k) =
        (v, Suc k + length (WriteLEB128 (drop_bit (7 * Suc k) v)), None)"
      using k9 kl False step by (intro less.hyps) auto
    then show ?thesis using unf flag False W by simp
  qed
qed

section \<open>The size function\<close>

lemma WriteLEB128_Cons:
  "WriteLEB128 v = (let b = ucast (v AND 0x7F) in
     if drop_bit 7 v \<noteq> 0 then (b OR 0x80) # WriteLEB128 (drop_bit 7 v) else [b])"
  by (subst WriteLEB128.simps) (simp add: Let_def)

lemma LEB128Size_loop_Write:
  "LEB128Size_loop v n = (if v = 0 then n else n + length (WriteLEB128 v))"
proof (induction v n rule: LEB128Size_loop.induct)
  case (1 v n)
  then show ?case
    by (subst LEB128Size_loop.simps, subst WriteLEB128_Cons) (auto simp: Let_def)
qed

lemma LEB128Size_eq: "LEB128Size v = length (WriteLEB128 v)"
  by (subst WriteLEB128_Cons) (auto simp: LEB128Size_def LEB128Size_loop_Write Let_def)

lemma WriteLEB128_length_le: "v = 0 \<or> unat v < 128 ^ k \<Longrightarrow> 0 < k \<Longrightarrow> length (WriteLEB128 v) \<le> k"
proof (induction k arbitrary: v)
  case 0
  then show ?case by simp
next
  case (Suc k)
  have d: "unat (drop_bit 7 v) = unat v div 128"
    by (simp only: unat_drop_bit_eq) (simp add: drop_bit_eq_div)
  show ?case
  proof (cases "drop_bit 7 v = 0")
    case True
    then show ?thesis by (subst WriteLEB128_Cons) (simp add: Let_def)
  next
    case False
    then have v0: "v \<noteq> 0" by auto
    have "unat v div 128 \<noteq> 0" using False d by (metis unat_eq_zero)
    moreover have "unat v < 128 * 128 ^ k" using Suc.prems v0 by simp
    ultimately have "unat (drop_bit 7 v) < 128 ^ k" and "0 < k"
      unfolding d by (auto simp: less_mult_imp_div_less mult.commute intro!: gr0I)
    then have "length (WriteLEB128 (drop_bit 7 v)) \<le> k" by (intro Suc.IH) auto
    then show ?thesis using False by (subst WriteLEB128_Cons) (simp add: Let_def)
  qed
qed

lemma WriteLEB128_length_bound: "length (WriteLEB128 v) \<le> MaxLEB128Bytes"
proof -
  have "unat v < 2 ^ LENGTH(64)" by (rule unsigned_less)
  then have "unat v < 128 ^ 10" by simp
  then show ?thesis unfolding MaxLEB128Bytes_def by (intro WriteLEB128_length_le) auto
qed

section \<open>What a successful read means\<close>

text \<open>The number a group of LEB128 bytes denotes, without any width limit.\<close>

fun leb_value :: "byte list \<Rightarrow> nat" where
  "leb_value [] = 0"
| "leb_value (b # bs) = unat (b AND 0x7F) + 128 * leb_value bs"

lemma unat_ucast_low7: "unat (ucast (b AND 0x7F) :: u64) = unat (b AND 0x7F)" for b :: byte
  by (simp add: unsigned_ucast_eq take_bit_nat_eq_self_iff less_trans [OF unsigned_less])

lemma unat_low7_less: "unat (b AND 0x7F) < 128" for b :: byte
proof -
  have "b AND 0x7F \<le> 0x7F" by (simp add: word_and_le1)
  then show ?thesis by (simp add: word_le_nat_alt)
qed


text \<open>\<open>leb_group k n data\<close>: bytes \<open>k\<close> to \<open>n - 1\<close> of \<open>data\<close> form one group, every byte
  but the last with its continuation bit set.\<close>

definition leb_group :: "nat \<Rightarrow> nat \<Rightarrow> byte list \<Rightarrow> bool" where
  "leb_group k n data \<longleftrightarrow> k < n \<and> n \<le> length data \<and> n \<le> MaxLEB128Bytes \<and>
     (\<forall>i\<in>{k..<n - 1}. data ! i AND 0x80 \<noteq> 0) \<and> data ! (n - 1) AND 0x80 = 0"

lemma leb_group_last: "data ! k AND 0x80 = 0 \<Longrightarrow> leb_group k n data \<longleftrightarrow>
   n = Suc k \<and> k < length data \<and> k < MaxLEB128Bytes"
  by (cases "n = Suc k") (auto simp: leb_group_def)

lemma leb_group_cont: "data ! k AND 0x80 \<noteq> 0 \<Longrightarrow> leb_group k n data \<longleftrightarrow> leb_group (Suc k) n data"
proof -
  assume c: "data ! k AND 0x80 \<noteq> 0"
  show ?thesis
  proof (cases "Suc k < n")
    case True
    then have "{k..<n - 1} = insert k {Suc k..<n - 1}" by auto
    with True c show ?thesis by (simp add: leb_group_def)
  next
    case False
    with c show ?thesis by (cases "n = Suc k") (auto simp: leb_group_def)
  qed
qed

lemma leb_value_take:
  assumes "k < n" and "n \<le> length data"
  shows "leb_value (take (n - k) (drop k data)) =
    unat (data ! k AND 0x7F) + 128 * leb_value (take (n - Suc k) (drop (Suc k) data))"
proof -
  have "drop k data = data ! k # drop (Suc k) data" and "n - k = Suc (n - Suc k)"
    using assms by (simp_all add: Cons_nth_drop_Suc)
  then show ?thesis by simp
qed

lemma ReadLEB128_loop_iff:
  assumes "unat w < 2 ^ (7 * k)"
  shows "ReadLEB128_loop data w (7 * k) k = (v, n, None) \<longleftrightarrow>
    leb_group k n data \<and> unat v = unat w + 2 ^ (7 * k) * leb_value (take (n - k) (drop k data))"
  using assms
proof (induction "10 - k" arbitrary: k w rule: less_induct)
  case less
  define low where "low = (ucast (data ! k AND 0x7F) :: u64)"
  have ulow: "unat low = unat (data ! k AND 0x7F)" by (simp add: low_def unat_ucast_low7)
  then have low128: "unat low < 128" by (simp add: unat_low7_less)
  have v64: "unat v < 2 ^ 64" using unsigned_less [of v, where 'a = nat] by simp
  show ?case
  proof (cases "k < length data \<and> k < MaxLEB128Bytes")
    case False
    then show ?thesis
      by (subst ReadLEB128_loop.simps) (auto simp: leb_group_def)
  next
    case True
    then have k9: "k \<le> 9" by (simp add: MaxLEB128Bytes_def)
    show ?thesis
    proof (cases "7 * k = 63 \<and> low > 1")
      case ovf: True
      then have "2 \<le> unat low" by (auto simp: word_less_nat_alt)
      then have "leb_group k n data \<Longrightarrow> 2 \<le> leb_value (take (n - k) (drop k data))"
        by (subst leb_value_take) (auto simp: leb_group_def ulow)
      then have "leb_group k n data \<Longrightarrow>
          2 ^ 64 \<le> unat w + 2 ^ (7 * k) * leb_value (take (n - k) (drop k data))"
        using ovf by simp
      then show ?thesis using ovf True v64
        by (subst ReadLEB128_loop.simps) (auto simp: Let_def low_def)
    next
      case ok: False
      have fits: "2 ^ (7 * k) * unat low < 2 ^ LENGTH(64)"
      proof (cases "k = 9")
        case True
        then have "unat low \<le> 1" using ok by (auto simp: word_less_nat_alt not_less)
        then show ?thesis using True by simp
      next
        case False
        then have "7 * k \<le> 56" using k9 by simp
        then have "(2::nat) ^ (7 * k) \<le> 2 ^ 56" by (rule power_increasing) simp
        then have "2 ^ (7 * k) * unat low \<le> 2 ^ 56 * 127" using low128 by (intro mult_mono) auto
        then show ?thesis by simp
      qed
      define w' where "w' = w OR push_bit (7 * k) low"
      have uw': "unat w' = unat w + 2 ^ (7 * k) * unat low"
        unfolding w'_def using less.prems fits by (rule unat_or_push_bit)
      have w'_bound: "unat w' < 2 ^ (7 * Suc k)"
      proof -
        have "2 ^ (7 * k) * unat low \<le> 2 ^ (7 * k) * 127" using low128 by simp
        moreover have "(2::nat) ^ (7 * Suc k) = 2 ^ (7 * k) * 128" by (simp add: power_add)
        ultimately show ?thesis using less.prems unfolding uw' by linarith
      qed
      have unf: "ReadLEB128_loop data w (7 * k) k =
          (if data ! k AND 0x80 = 0 then (w', Suc k, None)
           else ReadLEB128_loop data w' (7 * Suc k) (Suc k))"
        using ReadLEB128_loop_step [of k data "7 * k" w] True k9 ok
        by (simp add: low_def w'_def Let_def add.commute)
      show ?thesis
      proof (cases "data ! k AND 0x80 = 0")
        case True
        then show ?thesis
          using \<open>k < length data \<and> k < MaxLEB128Bytes\<close> leb_value_take [of k "Suc k" data]
          by (auto simp: unf leb_group_last uw' ulow word_unat_eq_iff)
      next
        case False
        have "leb_group (Suc k) n data \<Longrightarrow>
            unat w' + 2 ^ (7 * Suc k) * leb_value (take (n - Suc k) (drop (Suc k) data)) =
            unat w + 2 ^ (7 * k) * leb_value (take (n - k) (drop k data))"
          by (subst leb_value_take [of k])
            (auto simp: leb_group_def uw' ulow power_add algebra_simps)
        moreover have "ReadLEB128_loop data w' (7 * Suc k) (Suc k) = (v, n, None) \<longleftrightarrow>
            leb_group (Suc k) n data \<and>
            unat v = unat w' + 2 ^ (7 * Suc k) * leb_value (take (n - Suc k) (drop (Suc k) data))"
          using k9 w'_bound by (intro less.hyps) auto
        ultimately show ?thesis using False by (auto simp: unf leb_group_cont)
      qed
    qed
  qed
qed

section \<open>Slice reader and stream reader\<close>

text \<open>\<open>delivers rd r data\<close>: successive one-byte reads from state \<open>r\<close> return the bytes of
  \<open>data\<close> one by one and then \<^verbatim>\<open>io.EOF\<close>, as the documented contract of \<^verbatim>\<open>io.Reader\<close>
  allows for an in-memory source.\<close>

fun delivers ::
  "('r \<Rightarrow> (nat \<times> byte \<times> io_error option) \<times> 'r) \<Rightarrow> 'r \<Rightarrow> byte list \<Rightarrow> bool" where
  "delivers rd r [] \<longleftrightarrow> snd (snd (fst (rd r))) = Some EOF"
| "delivers rd r (b # bs) \<longleftrightarrow> fst (rd r) = (1, b, None) \<and> delivers rd (snd (rd r)) bs"

definition leb_result :: "u64 \<times> nat \<times> leb_error option \<Rightarrow> u64 \<times> nat \<times> reader_error option" where
  "leb_result = (\<lambda>(v, n, e). (v, n, map_option LebErr e))"

lemma ReadLEB128FromReader_loop_eq:
  assumes "delivers rd r (drop k data)" and "0 < length data" and "k \<le> length data"
  shows "ReadLEB128FromReader_loop rd r v shift k = leb_result (ReadLEB128_loop data v shift k)"
  using assms
proof (induction "10 - k" arbitrary: k r v shift rule: less_induct)
  case less
  show ?case
  proof (cases "k < length data")
    case False
    then have "k = length data" using less.prems by simp
    then have "snd (snd (fst (rd r))) = Some EOF" using less.prems(1) by simp
    then obtain n b r' where "rd r = ((n, b, Some EOF), r')"
      by (metis prod.collapse)
    with \<open>k = length data\<close> less.prems(2) show ?thesis
      by (subst ReadLEB128FromReader_loop.simps, subst ReadLEB128_loop.simps)
        (simp add: leb_result_def)
  next
    case True
    then have d: "drop k data = data ! k # drop (Suc k) data"
      by (simp add: Cons_nth_drop_Suc)
    define r' where "r' = snd (rd r)"
    have rdr: "rd r = ((1, data ! k, None), r')" and rest: "delivers rd r' (drop (Suc k) data)"
      using less.prems(1) unfolding d r'_def by (auto simp: prod_eq_iff)
    have IH: "k < 10 \<Longrightarrow> ReadLEB128FromReader_loop rd r' w s (Suc k) =
        leb_result (ReadLEB128_loop data w s (Suc k))" for w s
      using rest less.prems(2) True by (intro less.hyps) auto
    show ?thesis using True
      by (subst ReadLEB128FromReader_loop.simps, subst ReadLEB128_loop.simps)
        (auto simp: rdr IH Let_def leb_result_def MaxLEB128Bytes_def)
  qed
qed

lemma ReadLEB128_Write: "ReadLEB128 (WriteLEB128 v @ rest) = (v, length (WriteLEB128 v), None)"
proof -
  have "WriteLEB128 v \<noteq> []" by (subst WriteLEB128.simps) (simp add: Let_def)
  then show ?thesis
    using ReadLEB128_loop_Write [of 0 "WriteLEB128 v @ rest" v rest]
    by (simp add: ReadLEB128_def)
qed

lemma ReadLEB128_loop_progress:
  "ReadLEB128_loop data v s k = (w, n, None) \<Longrightarrow> k < n \<and> n \<le> length data"
proof (induction data v s k rule: ReadLEB128_loop.induct)
  case (1 data v s k)
  have "k < length data \<and> k < MaxLEB128Bytes" and
    "n = Suc k \<or> (\<exists>v'. ReadLEB128_loop data v' (s + 7) (k + 1) = (w, n, None) \<and>
      v' = v OR push_bit s (ucast (data ! k AND 0x7F)) \<and> \<not> s \<ge> 64 \<and> data ! k AND 0x80 \<noteq> 0 \<and>
      \<not> (s = 63 \<and> (ucast (data ! k AND 0x7F) :: u64) > 1) \<and> \<not> (s > 63 \<and> (ucast (data ! k AND 0x7F) :: u64) \<noteq> 0))"
    using "1.prems" by (subst (asm) ReadLEB128_loop.simps, auto simp: Let_def split: if_splits)+
  then show ?case
    using "1.IH" [OF _ refl refl _ refl _ _ refl] by fastforce
qed

lemma ReadLEB128_progress: "ReadLEB128 data = (v, n, None) \<Longrightarrow> 0 < n \<and> n \<le> length data"
  using ReadLEB128_loop_progress [of data 0 0 0] by (simp add: ReadLEB128_def split: if_splits)

section \<open>Properties\<close>

text \<open>C24: a value written by \<^verbatim>\<open>WriteLEB128\<close> is read back, whatever follows it.\<close>

theorem leb128_roundtrip:
  "ReadLEB128 (WriteLEB128 v @ rest) = (v, length (WriteLEB128 v), None)"
  by (rule ReadLEB128_Write)

text \<open>\<^verbatim>\<open>LEB128Size\<close> announces exactly the length \<^verbatim>\<open>WriteLEB128\<close> produces, and
  that length never passes the reader's limit of ten bytes.\<close>

theorem leb128_size_exact:
  "LEB128Size v = length (WriteLEB128 v) \<and> length (WriteLEB128 v) \<le> MaxLEB128Bytes"
  by (simp add: LEB128Size_eq WriteLEB128_length_bound)

text \<open>\<^verbatim>\<open>ReadLEB128\<close> succeeds exactly on input whose first \<open>n\<close> bytes form one group of
  at most ten bytes that denotes a number below \<open>2 ^ 64\<close>, and returns that number with no bit
  lost: the overflow tests of the loop are exact.\<close>

theorem leb128_read_success_iff:
  "ReadLEB128 data = (v, n, None) \<longleftrightarrow> leb_group 0 n data \<and> unat v = leb_value (take n data)"
  using ReadLEB128_loop_iff [of 0 0 data v n] by (auto simp: ReadLEB128_def leb_group_def)


text \<open>the reader over an \<^verbatim>\<open>io.Reader\<close> that delivers a non-empty byte sequence gives the
  same value, count and error as the slice reader on that sequence.\<close>

theorem leb128_reader_equiv:
  assumes "delivers rd r data" and "data \<noteq> []"
  shows "ReadLEB128FromReader rd r = leb_result (ReadLEB128 data)"
  using ReadLEB128FromReader_loop_eq [of rd r 0 data] assms
  by (simp add: ReadLEB128FromReader_def ReadLEB128_def)

fun list_reader :: "byte list \<Rightarrow> (nat \<times> byte \<times> io_error option) \<times> byte list" where
  "list_reader [] = ((0, 0, Some EOF), [])"
| "list_reader (b # bs) = ((1, b, None), bs)"

theorem leb128_reader_equiv_witness:
  "delivers list_reader [0xE5, 0x8E, 0x26] [0xE5, 0x8E, 0x26] \<and>
   ReadLEB128FromReader list_reader [0xE5, 0x8E, 0x26] = leb_result (ReadLEB128 [0xE5, 0x8E, 0x26])"
proof -
  have d: "delivers list_reader [0xE5, 0x8E, 0x26] [0xE5, 0x8E, 0x26]" by simp
  then show ?thesis using leb128_reader_equiv [OF d] by simp
qed

end
