(* ===== verification/Circular_Buffer.thy ===== *)
theory Circular_Buffer
  imports Mirror_Prelude
begin

text \<open>
  Circular storage as both byte buffers of \<^verbatim>\<open>internal/ingestion/buffer\<close> use it: a
  write or a read at a position runs to the end of the array and continues at its
  start.  \<open>circ_put\<close> and \<open>circ_get\<close> state the intended effect cell by cell; the
  component theories show that the chunked \<^verbatim>\<open>copy\<close> calls of the code compute it.
\<close>

section \<open>Writing and reading around the end of the array\<close>

definition ring_off :: "nat \<Rightarrow> nat \<Rightarrow> nat \<Rightarrow> nat" where
  "ring_off n p j = (if p \<le> j then j - p else j + n - p)"

definition ring_idx :: "nat \<Rightarrow> nat \<Rightarrow> nat \<Rightarrow> nat" where
  "ring_idx n p i = (if p + i < n then p + i else p + i - n)"

definition circ_put :: "'a list \<Rightarrow> nat \<Rightarrow> 'a list \<Rightarrow> 'a list" where
  "circ_put d p xs = map (\<lambda>j. if ring_off (length d) p j < length xs
     then xs ! ring_off (length d) p j else d ! j) [0..<length d]"

definition circ_get :: "'a list \<Rightarrow> nat \<Rightarrow> nat \<Rightarrow> 'a list" where
  "circ_get d p k = map (\<lambda>i. d ! ring_idx (length d) p i) [0..<k]"

lemmas ring_arith = ring_off_def ring_idx_def

lemma length_circ_put [simp]: "length (circ_put d p xs) = length d"
  by (simp add: circ_put_def)

lemma length_circ_get [simp]: "length (circ_get d p k) = k"
  by (simp add: circ_get_def)

lemma nth_circ_put: "j < length d \<Longrightarrow> circ_put d p xs ! j =
   (if ring_off (length d) p j < length xs then xs ! ring_off (length d) p j else d ! j)"
  by (simp add: circ_put_def)

lemma nth_circ_get [simp]: "i < k \<Longrightarrow> circ_get d p k ! i = d ! ring_idx (length d) p i"
  by (simp add: circ_get_def)

lemma ring_idx_less: "p < n \<Longrightarrow> i \<le> n \<Longrightarrow> ring_idx n p i < n"
  by (auto simp: ring_arith)

lemma ring_idx_mod: "p < n \<Longrightarrow> i \<le> n \<Longrightarrow> ring_idx n p i = (p + i) mod n"
  by (auto simp: ring_arith mod_if)

lemma circ_put_Nil [simp]: "circ_put d p [] = d"
  by (rule nth_equalityI) (simp_all add: nth_circ_put)

lemma circ_get_0 [simp]: "circ_get d p 0 = []"
  by (simp add: circ_get_def)

text \<open>A piece that does not reach past the end is a plain copy.\<close>

lemma copy_at_circ_put:
  "p + length xs \<le> length d \<Longrightarrow> copy_at d p xs = circ_put d p xs"
  by (rule nth_equalityI) (auto simp: nth_circ_put nth_copy_at ring_arith)

lemma slice_circ_get:
  "p + k \<le> length d \<Longrightarrow> gslice d p (p + k) = circ_get d p k"
  by (rule nth_equalityI) (auto simp: ring_arith)

lemma circ_put_append:
  assumes "p < length d" and "p + length xs \<le> length d" and "length xs + length ys \<le> length d"
  shows "circ_put (circ_put d p xs) ((p + length xs) mod length d) ys = circ_put d p (xs @ ys)"
proof (rule nth_equalityI)
  fix j assume "j < length (circ_put (circ_put d p xs) ((p + length xs) mod length d) ys)"
  then have j: "j < length d" by simp
  show "circ_put (circ_put d p xs) ((p + length xs) mod length d) ys ! j = circ_put d p (xs @ ys) ! j"
  proof (cases "p + length xs = length d")
    case True
    then show ?thesis using j assms by (auto simp: nth_circ_put nth_append ring_arith)
  next
    case False
    then have "(p + length xs) mod length d = p + length xs" using assms by simp
    then show ?thesis using j assms by (auto simp: nth_circ_put nth_append ring_arith)
  qed
qed simp

lemma circ_get_append:
  assumes "p < length d" and "p + k \<le> length d" and "k + m \<le> length d"
  shows "circ_get d p k @ circ_get d ((p + k) mod length d) m = circ_get d p (k + m)"
proof (rule nth_equalityI)
  fix i assume "i < length (circ_get d p k @ circ_get d ((p + k) mod length d) m)"
  then have i: "i < k + m" by simp
  show "(circ_get d p k @ circ_get d ((p + k) mod length d) m) ! i = circ_get d p (k + m) ! i"
  proof (cases "p + k = length d")
    case True
    then show ?thesis using i assms
      by (auto simp: nth_append ring_arith intro!: arg_cong [where f = "nth d"])
  next
    case False
    then have "(p + k) mod length d = p + k" using assms by simp
    then show ?thesis using i assms by (auto simp: nth_append ring_arith)
  qed
qed simp

section \<open>Queue view\<close>

text \<open>Bytes put after the \<open>k\<close> stored ones come after them and leave them as they were.\<close>

lemma circ_get_put:
  assumes "r < length d" and "k + length xs \<le> length d"
  shows "circ_get (circ_put d ((r + k) mod length d) xs) r (k + length xs) = circ_get d r k @ xs"
proof (rule nth_equalityI)
  fix i assume "i < length (circ_get (circ_put d ((r + k) mod length d) xs) r (k + length xs))"
  then have i: "i < k + length xs" by simp
  have w: "(r + k) mod length d = ring_idx (length d) r k"
    using assms by (simp add: ring_idx_mod)
  have idx: "ring_idx (length d) r i < length d"
    using i assms by (intro ring_idx_less) auto
  have off: "ring_off (length d) (ring_idx (length d) r k) (ring_idx (length d) r i) =
      (if k \<le> i then i - k else length d + i - k)" if "k < length d"
    using that i assms by (auto simp: ring_arith)
  show "circ_get (circ_put d ((r + k) mod length d) xs) r (k + length xs) ! i = (circ_get d r k @ xs) ! i"
  proof (cases "k < length d")
    case True
    then show ?thesis unfolding w using i idx assms
      by (auto simp: nth_circ_put off nth_append)
  next
    case False
    then have "xs = []" using assms by (cases xs) auto
    then show ?thesis using i by simp
  qed
qed simp

lemma circ_get_drop:
  assumes "r < length d" and "m \<le> k" and "k \<le> length d"
  shows "circ_get d ((r + m) mod length d) (k - m) = drop m (circ_get d r k)"
proof (rule nth_equalityI)
  fix i assume "i < length (circ_get d ((r + m) mod length d) (k - m))"
  then have i: "i < k - m" by simp
  have "(r + m) mod length d = ring_idx (length d) r m"
    using assms by (simp add: ring_idx_mod)
  then show "circ_get d ((r + m) mod length d) (k - m) ! i = drop m (circ_get d r k) ! i"
    using i assms by (auto simp: ring_arith add.assoc intro!: arg_cong [where f = "nth d"])
qed simp

lemma circ_get_last:
  "r < length d \<Longrightarrow> m \<le> k \<Longrightarrow> k \<le> length d \<Longrightarrow>
   circ_get d ((r + (k - m)) mod length d) m = drop (k - m) (circ_get d r k)"
  using circ_get_drop [of r d "k - m" k] by simp

lemma circ_get_take: "m \<le> k \<Longrightarrow> circ_get d r m = take m (circ_get d r k)"
  by (rule nth_equalityI) auto

end
