(* ===== verification/Byte_Fifo.thy ===== *)
theory Byte_Fifo
  imports Mirror_Prelude
begin

text \<open>
  The contract the stream handlers rely on when they use a byte buffer: a write is
  refused or appended whole, a read takes bytes from the front, and no byte is
  reordered, duplicated or lost in between.  The contract is the locale
  \<open>byte_fifo\<close>; both buffers of \<^verbatim>\<open>internal/ingestion/buffer\<close> are instances of it.
\<close>

section \<open>Sequences of buffer operations\<close>

text \<open>One operation of a client: a write at a given clock reading, or a read into a slice
  of a given length.  A read that blocks leaves its caller waiting and changes nothing.\<close>

datatype 't fifo_op = Wr 't "byte list" | Rd nat

type_synonym ('t, 'q, 'e) fifo_write = "'t \<Rightarrow> byte list \<Rightarrow> 'q \<Rightarrow> ('q \<times> ('e + nat)) outcome"
type_synonym ('q, 'e) fifo_read = "nat \<Rightarrow> 'q \<Rightarrow> ('q \<times> ('e + byte list)) outcome"

text \<open>Running a sequence of operations collects the bytes accepted by writes and the bytes
  delivered by reads.\<close>

fun fifo_run :: "('t, 'q, 'e) fifo_write \<Rightarrow> ('q, 'e) fifo_read \<Rightarrow> 't fifo_op list \<Rightarrow> 'q \<Rightarrow>
    ('q \<times> byte list \<times> byte list) outcome" where
  "fifo_run wr rd [] q = Ret (q, [], [])"
| "fifo_run wr rd (Wr t xs # ops) q =
     (case wr t xs q of
        Ret (q', r) \<Rightarrow>
          outcome_bind (fifo_run wr rd ops q')
            (\<lambda>(q'', acc, del). Ret (q'', (case r of Inr _ \<Rightarrow> xs | Inl _ \<Rightarrow> []) @ acc, del))
      | Panic \<Rightarrow> Panic
      | Block \<Rightarrow> fifo_run wr rd ops q)"
| "fifo_run wr rd (Rd n # ops) q =
     (case rd n q of
        Ret (q', r) \<Rightarrow>
          outcome_bind (fifo_run wr rd ops q')
            (\<lambda>(q'', acc, del). Ret (q'', acc, (case r of Inr ys \<Rightarrow> ys | Inl _ \<Rightarrow> []) @ del))
      | Panic \<Rightarrow> Panic
      | Block \<Rightarrow> fifo_run wr rd ops q)"

section \<open>The contract\<close>

locale byte_fifo =
  fixes invar :: "'q \<Rightarrow> bool"
    and contents :: "'q \<Rightarrow> byte list"
    and capacity :: "'q \<Rightarrow> nat"
    and wr :: "('t, 'q, 'e) fifo_write"
    and rd :: "('q, 'e) fifo_read"
  assumes wr_returns: "invar q \<Longrightarrow> \<exists>q' r. wr t xs q = Ret (q', r)"
    and wr_invar: "invar q \<Longrightarrow> wr t xs q = Ret (q', r) \<Longrightarrow> invar q' \<and> capacity q' = capacity q"
    and wr_accept: "invar q \<Longrightarrow> wr t xs q = Ret (q', Inr n) \<Longrightarrow>
          n = length xs \<and> contents q' = contents q @ xs"
    and wr_refuse: "invar q \<Longrightarrow> wr t xs q = Ret (q', Inl e) \<Longrightarrow> contents q' = contents q"
    and rd_no_panic: "invar q \<Longrightarrow> rd m q \<noteq> Panic"
    and rd_invar: "invar q \<Longrightarrow> rd m q = Ret (q', r') \<Longrightarrow> invar q' \<and> capacity q' = capacity q"
    and rd_deliver: "invar q \<Longrightarrow> rd m q = Ret (q', Inr ys) \<Longrightarrow>
          ys = take m (contents q) \<and> contents q' = drop m (contents q)"
    and rd_error: "invar q \<Longrightarrow> rd m q = Ret (q', Inl e) \<Longrightarrow> contents q' = contents q"
    and bounded: "invar q \<Longrightarrow> length (contents q) \<le> capacity q"
begin

lemma run_Wr:
  assumes "invar q"
  obtains q' ys where "invar q'" and "capacity q' = capacity q" and "contents q' = contents q @ ys"
    and "fifo_run wr rd (Wr t xs # ops) q =
      outcome_bind (fifo_run wr rd ops q') (\<lambda>(q'', acc, del). Ret (q'', ys @ acc, del))"
proof -
  obtain q' r where w: "wr t xs q = Ret (q', r)" using wr_returns [OF assms] by blast
  note inv = wr_invar [OF assms w]
  show ?thesis
  proof (cases r)
    case (Inl e)
    then have "contents q' = contents q @ []" using wr_refuse [OF assms] w by simp
    with inv w Inl show ?thesis by (intro that [of q' "[]"]) simp_all
  next
    case (Inr n)
    then have "contents q' = contents q @ xs" using wr_accept [OF assms] w by blast
    with inv w Inr show ?thesis by (intro that [of q' xs]) simp_all
  qed
qed

lemma run_Rd:
  assumes "invar q"
  obtains q' ys where "invar q'" and "capacity q' = capacity q" and "contents q = ys @ contents q'"
    and "fifo_run wr rd (Rd m # ops) q =
      outcome_bind (fifo_run wr rd ops q') (\<lambda>(q'', acc, del). Ret (q'', acc, ys @ del))"
proof (cases "rd m q")
  case (Ret p)
  obtain q' r where p: "p = (q', r)" by (cases p)
  note r = Ret [unfolded p]
  note inv = rd_invar [OF assms r]
  show ?thesis
  proof (cases r)
    case (Inl e)
    then have "contents q = [] @ contents q'" using rd_error [OF assms] r by simp
    with inv r Inl show ?thesis by (intro that [of q' "[]"]) simp_all
  next
    case (Inr ys)
    then have "contents q = ys @ contents q'"
      using rd_deliver [OF assms, of m q' ys] r by (metis append_take_drop_id)
    with inv r Inr show ?thesis by (intro that [of q' ys]) simp_all
  qed
next
  case Panic
  then show ?thesis using rd_no_panic [OF assms] by simp
next
  case Block
  have "fifo_run wr rd ops q =
      outcome_bind (fifo_run wr rd ops q) (\<lambda>(q'', acc, del). Ret (q'', acc, [] @ del))"
    by (cases "fifo_run wr rd ops q") auto
  with Block assms show ?thesis by (intro that [of q "[]"]) simp_all
qed

text \<open>No sequence of operations panics, and what was delivered followed by what is stored is
  what was stored at the start followed by what was accepted.\<close>

lemma run_fifo:
  assumes "invar q"
  shows "\<exists>q' acc del. fifo_run wr rd ops q = Ret (q', acc, del) \<and> invar q' \<and>
     contents q @ acc = del @ contents q' \<and> length (contents q') \<le> capacity q"
  using assms
proof (induction ops arbitrary: q)
  case Nil
  then show ?case using bounded by simp
next
  case (Cons op ops)
  show ?case
  proof (cases op)
    case (Wr t xs)
    obtain q1 ys where 1: "invar q1" "capacity q1 = capacity q" "contents q1 = contents q @ ys"
      and run: "fifo_run wr rd (Wr t xs # ops) q =
        outcome_bind (fifo_run wr rd ops q1) (\<lambda>(q'', acc, del). Ret (q'', ys @ acc, del))"
      by (rule run_Wr [OF Cons.prems])
    from Cons.IH [OF 1(1)] 1 run Wr show ?thesis by auto
  next
    case (Rd m)
    obtain q1 ys where 1: "invar q1" "capacity q1 = capacity q" "contents q = ys @ contents q1"
      and run: "fifo_run wr rd (Rd m # ops) q =
        outcome_bind (fifo_run wr rd ops q1) (\<lambda>(q'', acc, del). Ret (q'', acc, ys @ del))"
      by (rule run_Rd [OF Cons.prems])
    from Cons.IH [OF 1(1)] 1 run Rd show ?thesis by auto
  qed
qed

end

end
