(* ===== verification/Ring_Buffer.thy ===== *)
theory Ring_Buffer
  imports Circular_Buffer Byte_Fifo
begin

text \<open>
  The ring buffer of \<^verbatim>\<open>internal/ingestion/buffer/ring.go\<close>.  Every operation runs
  under the buffer's mutex, so one call is one step on the state.  Clock readings
  are arguments (the clock does not move within one call); counters are unbounded;
  the floating-point quotient of the bitrate estimate is kept as its two operands,
  and the diagnostic \<^verbatim>\<open>Pressure\<close>, \<^verbatim>\<open>Hint\<close> and \<^verbatim>\<open>StreamID\<close> fields of error values
  and the Prometheus counters are left out.
\<close>

section \<open>State\<close>

datatype buffer_error =
    ErrBufferClosed
  | ErrTimeout
  | ErrAlreadyClosed
  | ErrPacketTooLarge nat int
  | ErrBufferFullDetailed nat int

record RingBuffer =
  rb_data :: "byte list"
  rb_size :: nat
  rb_maxPacketSize :: int
  rb_writePos :: nat
  rb_readPos :: nat
  rb_written :: nat
  rb_read :: nat
  rb_closed :: bool
  rb_drops :: nat
  rb_consecutiveDrops :: nat
  rb_lastDropTime :: gotime
  rb_bitrateWindow :: "(gotime \<times> nat) list"
  rb_bitrateIndex :: nat
  rb_avgBytesPerSec :: "nat \<times> nanos"
  rb_lastBitrateCalc :: gotime

definition NewRingBuffer :: "int \<Rightarrow> RingBuffer outcome" where
  "NewRingBuffer n =
     (if n < 0 then Panic
      else Ret \<lparr>rb_data = replicate (nat n) 0, rb_size = nat n, rb_maxPacketSize = 65536,
        rb_writePos = 0, rb_readPos = 0, rb_written = 0, rb_read = 0, rb_closed = False,
        rb_drops = 0, rb_consecutiveDrops = 0, rb_lastDropTime = None,
        rb_bitrateWindow = replicate 100 (None, 0), rb_bitrateIndex = 0,
        rb_avgBytesPerSec = (0, 1), rb_lastBitrateCalc = None\<rparr>)"

definition rb_SetMaxPacketSize :: "int \<Rightarrow> RingBuffer \<Rightarrow> RingBuffer" where
  "rb_SetMaxPacketSize n rb = rb\<lparr>rb_maxPacketSize := n\<rparr>"

section \<open>Bitrate tracking\<close>

text \<open>The scan of \<^verbatim>\<open>calculateAverageBitrate\<close>: total bytes, oldest and newest time stamp
  among the entries younger than the cutoff.\<close>

fun rb_window_scan :: "nanos \<Rightarrow> (gotime \<times> nat) list \<Rightarrow> nat \<times> nanos \<times> nanos \<Rightarrow> nat \<times> nanos \<times> nanos" where
  "rb_window_scan cutoff [] acc = acc"
| "rb_window_scan cutoff ((None, n) # es) acc = rb_window_scan cutoff es acc"
| "rb_window_scan cutoff ((Some t, n) # es) (tot, oldest, newest) =
     rb_window_scan cutoff es
       (if t > cutoff then (tot + n, min t oldest, max t newest) else (tot, oldest, newest))"

definition rb_calculateAverageBitrate :: "nanos \<Rightarrow> RingBuffer \<Rightarrow> RingBuffer" where
  "rb_calculateAverageBitrate now rb =
     (let cutoff = now - 10 * second;
          (tot, oldest, newest) = rb_window_scan cutoff (rb_bitrateWindow rb) (0, now, cutoff);
          duration = newest - oldest
      in if duration > 0 then rb\<lparr>rb_avgBytesPerSec := (tot, duration)\<rparr> else rb)"

definition rb_trackBitrate :: "nanos \<Rightarrow> nat \<Rightarrow> RingBuffer \<Rightarrow> RingBuffer" where
  "rb_trackBitrate now n rb =
     (let rb = rb\<lparr>rb_bitrateWindow := (rb_bitrateWindow rb)[rb_bitrateIndex rb := (Some now, n)],
                  rb_bitrateIndex := (rb_bitrateIndex rb + 1) mod length (rb_bitrateWindow rb)\<rparr>
      in if (case rb_lastBitrateCalc rb of None \<Rightarrow> True | Some t \<Rightarrow> now - t \<ge> second)
         then (rb_calculateAverageBitrate now rb)\<lparr>rb_lastBitrateCalc := Some now\<rparr>
         else rb)"

definition rb_GetBitrate :: "RingBuffer \<Rightarrow> nat \<times> nanos" where
  "rb_GetBitrate rb = rb_avgBytesPerSec rb"

section \<open>Writing\<close>

text \<open>The copying loop of \<^verbatim>\<open>Write\<close>.  With the write position outside the array the source
  would panic on the slice expression or make no progress.\<close>

function rb_write_loop :: "byte list \<Rightarrow> nat \<Rightarrow> nat \<Rightarrow> byte list \<Rightarrow> nat \<Rightarrow> (byte list \<times> nat) outcome" where
  "rb_write_loop data sz done dst pos =
     (if done < length data then
        if pos < sz then
          (let writeSize = min (length data - done) (sz - pos) in
           rb_write_loop data sz (done + writeSize)
             (copy_at dst pos (gslice data done (done + writeSize))) ((pos + writeSize) mod sz))
        else Panic
      else Ret (dst, pos))"
  by pat_completeness auto
termination
  by (relation "measure (\<lambda>(data, sz, done, dst, pos). length data - done)") auto

declare rb_write_loop.simps [simp del]

definition rb_Write :: "nanos \<Rightarrow> byte list \<Rightarrow> RingBuffer \<Rightarrow> (RingBuffer \<times> (buffer_error + nat)) outcome" where
  "rb_Write now data rb =
     (if rb_closed rb then Ret (rb, Inl ErrBufferClosed)
      else
        (let dataLen = length data in
         if int dataLen > rb_maxPacketSize rb
         then Ret (rb, Inl (ErrPacketTooLarge dataLen (rb_maxPacketSize rb)))
         else if dataLen > rb_size rb
         then Ret (rb, Inl (ErrPacketTooLarge dataLen (int (rb_size rb))))
         else
           (let available = int (rb_size rb) - (int (rb_written rb) - int (rb_read rb)) in
            if available < int dataLen then
              (let drops = (case rb_lastDropTime rb of
                       Some t \<Rightarrow> if now - t < second then rb_consecutiveDrops rb + 1 else 1
                     | None \<Rightarrow> 1)
               in Ret (rb\<lparr>rb_consecutiveDrops := drops, rb_lastDropTime := Some now,
                         rb_drops := rb_drops rb + dataLen\<rparr>,
                       Inl (ErrBufferFullDetailed dataLen available)))
            else
              outcome_bind (rb_write_loop data (rb_size rb) 0 (rb_data rb) (rb_writePos rb))
                (\<lambda>(dst, pos). Ret (rb_trackBitrate now dataLen
                    (rb\<lparr>rb_data := dst, rb_writePos := pos, rb_written := rb_written rb + dataLen\<rparr>),
                  Inr dataLen)))))"

section \<open>Reading\<close>

function rb_read_loop :: "byte list \<Rightarrow> nat \<Rightarrow> nat \<Rightarrow> nat \<Rightarrow> byte list \<Rightarrow> nat \<Rightarrow> (byte list \<times> nat) outcome" where
  "rb_read_loop d sz toRead done acc pos =
     (if done < toRead then
        if pos < sz then
          (let readSize = min (toRead - done) (sz - pos) in
           rb_read_loop d sz toRead (done + readSize)
             (acc @ gslice d pos (pos + readSize)) ((pos + readSize) mod sz))
        else Panic
      else Ret (acc, pos))"
  by pat_completeness auto
termination
  by (relation "measure (\<lambda>(d, sz, toRead, done, acc, pos). toRead - done)") auto

declare rb_read_loop.simps [simp del]

text \<open>The common tail of \<^verbatim>\<open>Read\<close> and \<^verbatim>\<open>ReadTimeout\<close>, once there is something to read or the
  buffer is closed.\<close>

definition rb_read_available :: "nat \<Rightarrow> RingBuffer \<Rightarrow> (RingBuffer \<times> (buffer_error + byte list)) outcome" where
  "rb_read_available want rb =
     (if rb_written rb = rb_read rb then Ret (rb, Inl ErrBufferClosed)
      else
        (let available = rb_written rb - rb_read rb;
             toRead = min want available
         in outcome_bind (rb_read_loop (rb_data rb) (rb_size rb) toRead 0 [] (rb_readPos rb))
              (\<lambda>(ys, pos). Ret (rb\<lparr>rb_readPos := pos, rb_read := rb_read rb + toRead\<rparr>, Inr ys))))"

definition rb_Read :: "nat \<Rightarrow> RingBuffer \<Rightarrow> (RingBuffer \<times> (buffer_error + byte list)) outcome" where
  "rb_Read want rb =
     (if rb_closed rb \<and> rb_written rb = rb_read rb then Ret (rb, Inl ErrBufferClosed)
      else if rb_written rb = rb_read rb \<and> \<not> rb_closed rb then Block
      else rb_read_available want rb)"

text \<open>\<^verbatim>\<open>ReadTimeout\<close> in segments: the test of the waiting loop at a clock reading, the entry,
  and what happens after a wake-up of the condition variable.\<close>

definition rb_ReadTimeout_check ::
  "nanos \<Rightarrow> nanos \<Rightarrow> nat \<Rightarrow> RingBuffer \<Rightarrow> (RingBuffer \<times> (buffer_error + byte list)) outcome" where
  "rb_ReadTimeout_check deadline now want rb =
     (if rb_written rb = rb_read rb \<and> \<not> rb_closed rb then
        if deadline - now \<le> 0 then Ret (rb, Inl ErrTimeout) else Block
      else rb_read_available want rb)"

definition rb_ReadTimeout ::
  "nanos \<Rightarrow> nanos \<Rightarrow> nat \<Rightarrow> RingBuffer \<Rightarrow> (RingBuffer \<times> (buffer_error + byte list)) outcome" where
  "rb_ReadTimeout timeout now want rb =
     (if timeout \<le> 0 then rb_Read want rb
      else if rb_closed rb \<and> rb_written rb = rb_read rb then Ret (rb, Inl ErrBufferClosed)
      else rb_ReadTimeout_check (now + timeout) now want rb)"

definition rb_ReadTimeout_wake ::
  "nanos \<Rightarrow> nanos \<Rightarrow> nat \<Rightarrow> RingBuffer \<Rightarrow> (RingBuffer \<times> (buffer_error + byte list)) outcome" where
  "rb_ReadTimeout_wake deadline now want rb =
     (if now > deadline then Ret (rb, Inl ErrTimeout)
      else rb_ReadTimeout_check deadline now want rb)"

section \<open>Closing, statistics, preview\<close>

definition rb_Close :: "RingBuffer \<Rightarrow> RingBuffer \<times> buffer_error option" where
  "rb_Close rb = (if rb_closed rb then (rb, Some ErrAlreadyClosed) else (rb\<lparr>rb_closed := True\<rparr>, None))"

record BufferStats =
  bs_Size :: nat
  bs_Written :: nat
  bs_Read :: nat
  bs_Available :: int
  bs_Drops :: nat

definition rb_Stats :: "RingBuffer \<Rightarrow> BufferStats" where
  "rb_Stats rb = \<lparr>bs_Size = rb_size rb, bs_Written = rb_written rb, bs_Read = rb_read rb,
     bs_Available = int (rb_written rb) - int (rb_read rb), bs_Drops = rb_drops rb\<rparr>"

definition rb_Reset :: "RingBuffer \<Rightarrow> RingBuffer" where
  "rb_Reset rb = rb\<lparr>rb_writePos := 0, rb_readPos := 0, rb_written := 0, rb_read := 0, rb_drops := 0\<rparr>"

definition rb_Reopen :: "RingBuffer \<Rightarrow> RingBuffer" where
  "rb_Reopen rb = rb\<lparr>rb_closed := False\<rparr>"

text \<open>\<^verbatim>\<open>GetPreview\<close>.  The argument \<open>preview\<close> stands for the floating-point expression
  \<^verbatim>\<open>int64(seconds * bytesPerSecond)\<close> as a function of the bitrate estimate; a negative
  value makes the allocation panic, a buffer of size 0 the remainder operation.\<close>

definition rb_GetPreview :: "(nat \<times> nanos \<Rightarrow> int) \<Rightarrow> RingBuffer \<Rightarrow> (byte list \<times> int) outcome" where
  "rb_GetPreview preview rb =
     (let available = int (rb_written rb) - int (rb_read rb);
          previewBytes = min (preview (rb_avgBytesPerSec rb)) available;
          previewBytes = min previewBytes (int (rb_size rb))
      in if previewBytes < 0 \<or> rb_size rb = 0 then Panic
         else
           (let previewReadPos = int (rb_written rb) - previewBytes;
                (previewReadPos, previewBytes) =
                  (if previewReadPos < int (rb_read rb)
                   then (int (rb_read rb), available) else (previewReadPos, previewBytes));
                actualReadPos = (rb_readPos rb + nat (previewReadPos - int (rb_read rb))) mod rb_size rb
            in outcome_bind (rb_read_loop (rb_data rb) (rb_size rb) (nat previewBytes) 0 [] actualReadPos)
                 (\<lambda>(ys, pos). Ret (ys, previewBytes div 4096))))"


section \<open>Invariant and contents\<close>

definition rb_inv :: "RingBuffer \<Rightarrow> bool" where
  "rb_inv rb \<longleftrightarrow> 0 < rb_size rb \<and> length (rb_data rb) = rb_size rb \<and>
     rb_readPos rb < rb_size rb \<and> rb_read rb \<le> rb_written rb \<and>
     rb_written rb - rb_read rb \<le> rb_size rb \<and>
     rb_writePos rb = (rb_readPos rb + (rb_written rb - rb_read rb)) mod rb_size rb"

definition rb_contents :: "RingBuffer \<Rightarrow> byte list" where
  "rb_contents rb = circ_get (rb_data rb) (rb_readPos rb) (rb_written rb - rb_read rb)"

lemma length_rb_contents: "length (rb_contents rb) = rb_written rb - rb_read rb"
  by (simp add: rb_contents_def)

lemma rb_trackBitrate_frame [simp]:
  "rb_data (rb_trackBitrate now n rb) = rb_data rb" "rb_size (rb_trackBitrate now n rb) = rb_size rb"
  "rb_writePos (rb_trackBitrate now n rb) = rb_writePos rb"
  "rb_readPos (rb_trackBitrate now n rb) = rb_readPos rb"
  "rb_written (rb_trackBitrate now n rb) = rb_written rb"
  "rb_read (rb_trackBitrate now n rb) = rb_read rb"
  "rb_closed (rb_trackBitrate now n rb) = rb_closed rb"
  by (simp_all add: rb_trackBitrate_def rb_calculateAverageBitrate_def Let_def split: prod.splits)

lemma rb_inv_trackBitrate [simp]: "rb_inv (rb_trackBitrate now n rb) = rb_inv rb"
  by (simp add: rb_inv_def)

lemma rb_contents_trackBitrate [simp]: "rb_contents (rb_trackBitrate now n rb) = rb_contents rb"
  by (simp add: rb_contents_def)

text \<open>The chunked loops compute the cell-by-cell specification.\<close>

lemma rb_write_loop_eq:
  assumes "length dst = sz" and "0 < sz" and "pos < sz"
    and "done \<le> length data" and "length data - done \<le> sz"
  shows "rb_write_loop data sz done dst pos =
     Ret (circ_put dst pos (drop done data), (pos + (length data - done)) mod sz)"
  using assms
proof (induction data sz "done" dst pos rule: rb_write_loop.induct)
  case (1 data sz don dst pos)
  show ?case
  proof (cases "don < length data")
    case False
    then show ?thesis using "1.prems" by (subst rb_write_loop.simps) simp
  next
    case True
    define ws where "ws = min (length data - don) (sz - pos)"
    let ?piece = "gslice data don (don + ws)"
    have piece: "length ?piece = ws" "pos + ws \<le> length dst" "0 < ws" "don + ws \<le> length data"
      using "1.prems" True by (auto simp: ws_def)
    have "rb_write_loop data sz don dst pos =
        rb_write_loop data sz (don + ws) (copy_at dst pos ?piece) ((pos + ws) mod sz)"
      using True "1.prems" by (subst rb_write_loop.simps) (simp add: ws_def Let_def)
    also have "\<dots> = Ret (circ_put (copy_at dst pos ?piece) ((pos + ws) mod sz) (drop (don + ws) data),
        ((pos + ws) mod sz + (length data - (don + ws))) mod sz)"
      using "1.prems" True piece by (intro "1.IH") (auto simp: ws_def min_def)
    also have "circ_put (copy_at dst pos ?piece) ((pos + ws) mod sz) (drop (don + ws) data) =
        circ_put dst pos (?piece @ drop (don + ws) data)"
      using circ_put_append [of pos dst ?piece "drop (don + ws) data"] piece "1.prems"
      by (simp add: copy_at_circ_put)
    also have "?piece @ drop (don + ws) data = drop don data"
    proof -
      have "take ws (drop don data) @ drop ws (drop don data) = drop don data"
        by (rule append_take_drop_id)
      then show ?thesis by (simp add: gslice_def add.commute)
    qed
    also have "((pos + ws) mod sz + (length data - (don + ws))) mod sz = (pos + (length data - don)) mod sz"
    proof -
      have "pos + ws + (length data - (don + ws)) = pos + (length data - don)" using piece by simp
      then show ?thesis by (simp only: mod_add_left_eq)
    qed
    finally show ?thesis .
  qed
qed

lemma rb_read_loop_eq:
  assumes "length d = sz" and "0 < sz" and "pos < sz" and "done \<le> toRead" and "toRead - done \<le> sz"
  shows "rb_read_loop d sz toRead done acc pos =
     Ret (acc @ circ_get d pos (toRead - done), (pos + (toRead - done)) mod sz)"
  using assms
proof (induction d sz toRead "done" acc pos rule: rb_read_loop.induct)
  case (1 d sz toRead don acc pos)
  show ?case
  proof (cases "don < toRead")
    case False
    then show ?thesis using "1.prems" by (subst rb_read_loop.simps) simp
  next
    case True
    define rs where "rs = min (toRead - don) (sz - pos)"
    have rs: "pos + rs \<le> length d" "0 < rs" "don + rs \<le> toRead"
      using "1.prems" True by (auto simp: rs_def)
    have "rb_read_loop d sz toRead don acc pos =
        rb_read_loop d sz toRead (don + rs) (acc @ gslice d pos (pos + rs)) ((pos + rs) mod sz)"
      using True "1.prems" by (subst rb_read_loop.simps) (simp add: rs_def Let_def)
    also have "\<dots> = Ret ((acc @ gslice d pos (pos + rs)) @ circ_get d ((pos + rs) mod sz) (toRead - (don + rs)),
        ((pos + rs) mod sz + (toRead - (don + rs))) mod sz)"
      using "1.prems" True rs by (intro "1.IH") (auto simp: rs_def min_def)
    also have "(acc @ gslice d pos (pos + rs)) @ circ_get d ((pos + rs) mod sz) (toRead - (don + rs)) =
        acc @ circ_get d pos (toRead - don)"
      using circ_get_append [of pos d rs "toRead - (don + rs)"] rs "1.prems"
      by (simp add: slice_circ_get)
    also have "((pos + rs) mod sz + (toRead - (don + rs))) mod sz = (pos + (toRead - don)) mod sz"
    proof -
      have "pos + rs + (toRead - (don + rs)) = pos + (toRead - don)" using rs by simp
      then show ?thesis by (simp only: mod_add_left_eq)
    qed
    finally show ?thesis .
  qed
qed


section \<open>The operations keep the invariant and act on the contents\<close>

lemma rb_inv_New: "0 < n \<Longrightarrow> NewRingBuffer n = Ret rb \<Longrightarrow> rb_inv rb \<and> rb_contents rb = []"
  by (auto simp: NewRingBuffer_def rb_inv_def rb_contents_def split: if_splits)

lemma rb_Write_accept:
  assumes "rb_inv rb" and "rb_Write now data rb = Ret (rb', Inr n)"
  shows "n = length data" "rb_inv rb'" "rb_size rb' = rb_size rb"
    and "rb_contents rb' = rb_contents rb @ data"
proof -
  let ?k = "rb_written rb - rb_read rb"
  have open_guard: "\<not> rb_closed rb" "int (length data) \<le> rb_maxPacketSize rb"
    "length data \<le> rb_size rb" "int (rb_size rb) - (int (rb_written rb) - int (rb_read rb)) \<ge> int (length data)"
    using assms(2) by (auto simp: rb_Write_def Let_def split: if_splits)
  have k: "?k + length data \<le> rb_size rb"
    using open_guard(4) assms(1) by (auto simp: rb_inv_def)
  have pos: "rb_writePos rb < rb_size rb"
    using assms(1) by (auto simp: rb_inv_def)
  have loop: "rb_write_loop data (rb_size rb) 0 (rb_data rb) (rb_writePos rb) =
      Ret (circ_put (rb_data rb) (rb_writePos rb) data, (rb_writePos rb + length data) mod rb_size rb)"
    using rb_write_loop_eq [of "rb_data rb" "rb_size rb" "rb_writePos rb" 0 data] assms(1) pos open_guard(3)
    by (simp add: rb_inv_def)
  let ?rb = "rb\<lparr>rb_data := circ_put (rb_data rb) (rb_writePos rb) data,
      rb_writePos := (rb_writePos rb + length data) mod rb_size rb,
      rb_written := rb_written rb + length data\<rparr>"
  have rb': "rb' = rb_trackBitrate now (length data) ?rb" and n: "n = length data"
    using assms(2) open_guard by (auto simp: rb_Write_def Let_def loop)
  from n show "n = length data" .
  have "rb_written rb + length data - rb_read rb = ?k + length data"
    using assms(1) by (simp add: rb_inv_def)
  with k assms(1) show "rb_inv rb'"
    by (auto simp: rb' rb_inv_def mod_simps add.assoc)
  show "rb_size rb' = rb_size rb" by (simp add: rb')
  show "rb_contents rb' = rb_contents rb @ data"
    using circ_get_put [of "rb_readPos rb" "rb_data rb" ?k data] k assms(1)
      \<open>rb_written rb + length data - rb_read rb = ?k + length data\<close>
    by (simp add: rb' rb_contents_def rb_inv_def)
qed

lemma rb_Write_refuse:
  assumes "rb_Write now data rb = Ret (rb', Inl e)"
  shows "rb_contents rb' = rb_contents rb" "rb_inv rb' = rb_inv rb" "rb_size rb' = rb_size rb"
proof -
  have "rb_data rb' = rb_data rb \<and> rb_size rb' = rb_size rb \<and> rb_writePos rb' = rb_writePos rb \<and>
      rb_readPos rb' = rb_readPos rb \<and> rb_written rb' = rb_written rb \<and> rb_read rb' = rb_read rb"
    using assms
    by (cases "rb_write_loop data (rb_size rb) 0 (rb_data rb) (rb_writePos rb)")
      (auto simp: rb_Write_def Let_def split: if_splits)
  then show "rb_contents rb' = rb_contents rb" "rb_inv rb' = rb_inv rb" "rb_size rb' = rb_size rb"
    by (simp_all add: rb_contents_def rb_inv_def)
qed

lemma rb_Write_returns: "rb_inv rb \<Longrightarrow> \<exists>rb' r. rb_Write now data rb = Ret (rb', r)"
  using rb_write_loop_eq [of "rb_data rb" "rb_size rb" "rb_writePos rb" 0 data]
  by (auto simp: rb_Write_def Let_def rb_inv_def)

lemma rb_read_available_eq:
  assumes "rb_inv rb" and "rb_written rb \<noteq> rb_read rb"
  shows "rb_read_available want rb =
     Ret (rb\<lparr>rb_readPos := (rb_readPos rb + min want (rb_written rb - rb_read rb)) mod rb_size rb,
             rb_read := rb_read rb + min want (rb_written rb - rb_read rb)\<rparr>,
          Inr (take want (rb_contents rb)))"
proof -
  let ?k = "rb_written rb - rb_read rb"
  have "circ_get (rb_data rb) (rb_readPos rb) (min want ?k) = take want (rb_contents rb)"
    by (auto simp: rb_contents_def min_def circ_get_take [symmetric])
  moreover have "min want ?k \<le> rb_size rb" using assms(1) by (auto simp: rb_inv_def)
  ultimately show ?thesis
    using rb_read_loop_eq [of "rb_data rb" "rb_size rb" "rb_readPos rb" 0 "min want ?k" "[]"] assms
    by (simp add: rb_read_available_def rb_inv_def Let_def)
qed

lemma rb_advance:
  assumes "rb_inv rb" and "m \<le> rb_written rb - rb_read rb"
  defines "rb' \<equiv> rb\<lparr>rb_readPos := (rb_readPos rb + m) mod rb_size rb, rb_read := rb_read rb + m\<rparr>"
  shows "rb_inv rb'" and "rb_contents rb' = drop m (rb_contents rb)"
proof -
  let ?k = "rb_written rb - rb_read rb"
  have k: "rb_written rb - (rb_read rb + m) = ?k - m" and mk: "rb_readPos rb + m + (?k - m) = rb_readPos rb + ?k"
    using assms(2) by auto
  have "circ_get (rb_data rb) ((rb_readPos rb + m) mod rb_size rb) (?k - m) = drop m (rb_contents rb)"
    using circ_get_drop [of "rb_readPos rb" "rb_data rb" m ?k] assms(1,2)
    unfolding rb_contents_def rb_inv_def by auto
  then show "rb_contents rb' = drop m (rb_contents rb)"
    by (simp add: rb'_def rb_contents_def)
  have "((rb_readPos rb + m) mod rb_size rb + (?k - m)) mod rb_size rb = (rb_readPos rb + ?k) mod rb_size rb"
    by (simp only: mod_add_left_eq mk)
  moreover have "rb_read rb + m \<le> rb_written rb" "?k - m \<le> rb_size rb"
    using assms(1,2) by (auto simp: rb_inv_def)
  moreover have "rb_written rb' - rb_read rb' = ?k - m" by (simp add: rb'_def)
  ultimately show "rb_inv rb'"
    using assms(1) unfolding rb_inv_def by (intro conjI) (simp_all add: rb'_def)
qed

lemma rb_read_available_deliver:
  assumes "rb_inv rb" and "rb_read_available want rb = Ret (rb', Inr ys)"
  shows "ys = take want (rb_contents rb)" "rb_contents rb' = drop want (rb_contents rb)"
    and "rb_inv rb'" "rb_size rb' = rb_size rb"
proof -
  let ?m = "min want (rb_written rb - rb_read rb)"
  have ne: "rb_written rb \<noteq> rb_read rb" using assms(2) by (auto simp: rb_read_available_def)
  have rb': "rb' = rb\<lparr>rb_readPos := (rb_readPos rb + ?m) mod rb_size rb, rb_read := rb_read rb + ?m\<rparr>"
    and "ys = take want (rb_contents rb)"
    using assms(2) unfolding rb_read_available_eq [OF assms(1) ne, of want] by auto
  then show "ys = take want (rb_contents rb)" by simp
  have "drop ?m (rb_contents rb) = drop want (rb_contents rb)"
    by (auto simp: min_def length_rb_contents)
  then show "rb_contents rb' = drop want (rb_contents rb)" "rb_inv rb'"
    using rb_advance [OF assms(1), of ?m] by (auto simp: rb')
  show "rb_size rb' = rb_size rb" by (simp add: rb')
qed

lemma rb_Read_cases:
  "rb_Read want rb = (if rb_written rb = rb_read rb
     then if rb_closed rb then Ret (rb, Inl ErrBufferClosed) else Block
     else rb_read_available want rb)"
  by (simp add: rb_Read_def)

lemma rb_Read_error: "rb_inv rb \<Longrightarrow> rb_Read want rb = Ret (rb', Inl e) \<Longrightarrow> rb' = rb"
  by (auto simp: rb_Read_cases rb_read_available_eq split: if_splits)

interpretation ring: byte_fifo rb_inv rb_contents rb_size rb_Write rb_Read
proof
  fix rb rb' t xs r assume inv: "rb_inv rb"
  show "\<exists>q' r. rb_Write t xs rb = Ret (q', r)" using inv by (rule rb_Write_returns)
  assume w: "rb_Write t xs rb = Ret (rb', r)"
  then show "rb_inv rb' \<and> rb_size rb' = rb_size rb"
    using inv by (cases r) (simp_all add: rb_Write_accept rb_Write_refuse)
next
  fix rb rb' t xs n assume "rb_inv rb" "rb_Write t xs rb = Ret (rb', Inr n)"
  then show "n = length xs \<and> rb_contents rb' = rb_contents rb @ xs"
    by (simp add: rb_Write_accept)
next
  fix rb rb' t xs e assume "rb_Write t xs rb = Ret (rb', Inl e)"
  then show "rb_contents rb' = rb_contents rb" by (rule rb_Write_refuse)
next
  fix rb m assume "rb_inv rb"
  then show "rb_Read m rb \<noteq> Panic" by (simp add: rb_Read_cases rb_read_available_eq)
next
  fix rb rb' m r assume inv: "rb_inv rb" and r: "rb_Read m rb = Ret (rb', r)"
  show "rb_inv rb' \<and> rb_size rb' = rb_size rb"
  proof (cases r)
    case (Inl e)
    then show ?thesis using inv r rb_Read_error by blast
  next
    case (Inr ys)
    then have "rb_read_available m rb = Ret (rb', Inr ys)"
      using r by (auto simp: rb_Read_cases split: if_splits)
    then show ?thesis using inv by (simp add: rb_read_available_deliver)
  qed
next
  fix rb rb' m ys assume inv: "rb_inv rb" and "rb_Read m rb = Ret (rb', Inr ys)"
  then have "rb_read_available m rb = Ret (rb', Inr ys)"
    by (auto simp: rb_Read_cases split: if_splits)
  then show "ys = take m (rb_contents rb) \<and> rb_contents rb' = drop m (rb_contents rb)"
    using inv by (simp add: rb_read_available_deliver)
next
  fix rb rb' m e assume "rb_inv rb" "rb_Read m rb = Ret (rb', Inl e)"
  then show "rb_contents rb' = rb_contents rb" using rb_Read_error by blast
next
  fix rb assume "rb_inv rb"
  then show "length (rb_contents rb) \<le> rb_size rb"
    by (simp add: length_rb_contents rb_inv_def)
qed


section \<open>Properties\<close>

text \<open>C1: on a buffer made by \<^verbatim>\<open>NewRingBuffer\<close> with a positive size, any interleaving of
  writes (accepted or refused) and reads (served, blocked or refused) returns, and the bytes
  delivered, followed by the bytes still stored, are exactly the bytes accepted, in order;
  at most \<^verbatim>\<open>size\<close> bytes are ever stored.\<close>

theorem ring_buffer_fifo:
  assumes "NewRingBuffer n = Ret rb" and "0 < n"
  shows "\<exists>rb' accepted delivered. fifo_run rb_Write rb_Read ops rb = Ret (rb', accepted, delivered) \<and>
     accepted = delivered @ rb_contents rb' \<and> length (rb_contents rb') \<le> nat n"
proof -
  have inv: "rb_inv rb" and empty: "rb_contents rb = []" using assms rb_inv_New by auto
  have "rb_size rb = nat n" using assms by (auto simp: NewRingBuffer_def split: if_splits)
  then show ?thesis using ring.run_fifo [OF inv, of ops] empty by auto
qed

theorem ring_buffer_fifo_witness:
  "\<exists>rb rb' accepted delivered. NewRingBuffer 3 = Ret rb \<and>
     fifo_run rb_Write rb_Read [Wr 5 [1, 2], Rd 1, Wr 6 [3, 4], Wr 7 [5], Rd 2] rb =
       Ret (rb', accepted, delivered) \<and>
     accepted = delivered @ rb_contents rb' \<and> length (rb_contents rb') \<le> nat 3"
proof -
  obtain rb where rb: "NewRingBuffer 3 = Ret rb" by (simp add: NewRingBuffer_def)
  show ?thesis
    using rb ring_buffer_fifo [OF rb, of "[Wr 5 [1, 2], Rd 1, Wr 6 [3, 4], Wr 7 [5], Rd 2]"] by auto
qed

text \<open>the full behaviour of one \<^verbatim>\<open>Write\<close> on every branch: a closed buffer, a packet over
  the packet limit, a packet over the buffer size, too little free space (the dropped bytes are
  counted), or acceptance of the whole packet.\<close>

theorem ring_write_outcomes:
  assumes "rb_inv rb"
  shows "\<exists>rb' r. rb_Write now data rb = Ret (rb', r) \<and> rb_inv rb' \<and>
    (if rb_closed rb then r = Inl ErrBufferClosed \<and> rb' = rb
     else if int (length data) > rb_maxPacketSize rb
     then r = Inl (ErrPacketTooLarge (length data) (rb_maxPacketSize rb)) \<and> rb' = rb
     else if length data > rb_size rb
     then r = Inl (ErrPacketTooLarge (length data) (int (rb_size rb))) \<and> rb' = rb
     else if length (rb_contents rb) + length data > rb_size rb
     then r = Inl (ErrBufferFullDetailed (length data) (int (rb_size rb) - int (length (rb_contents rb)))) \<and>
          rb_contents rb' = rb_contents rb \<and> rb_drops rb' = rb_drops rb + length data
     else r = Inr (length data) \<and> rb_contents rb' = rb_contents rb @ data)"
proof -
  obtain rb' r where w: "rb_Write now data rb = Ret (rb', r)" using rb_Write_returns [OF assms] by blast
  have inv: "rb_inv rb'" using ring.wr_invar [OF assms w] by simp
  have avail: "int (rb_size rb) - (int (rb_written rb) - int (rb_read rb)) =
      int (rb_size rb) - int (length (rb_contents rb))"
    using assms by (simp add: rb_inv_def length_rb_contents)
  show ?thesis
  proof (cases r)
    case (Inl e)
    then have "rb_contents rb' = rb_contents rb" using w rb_Write_refuse by blast
    with Inl w inv show ?thesis
      by (cases "rb_write_loop data (rb_size rb) 0 (rb_data rb) (rb_writePos rb)")
        (auto simp: rb_Write_def Let_def avail split: if_splits)
  next
    case (Inr m)
    then have "m = length data" "rb_contents rb' = rb_contents rb @ data"
      using rb_Write_accept [OF assms] w by blast+
    with Inr w inv show ?thesis
      by (auto simp: rb_Write_def Let_def avail split: if_splits)
  qed
qed

theorem ring_write_outcomes_witness:
  "\<exists>rb. NewRingBuffer 2 = Ret rb \<and> rb_inv rb \<and>
     (\<exists>rb'. rb_Write 0 [7, 8, 9] rb = Ret (rb', Inl (ErrPacketTooLarge 3 2)))"
proof -
  obtain rb where rb: "NewRingBuffer 2 = Ret rb" and f: "rb_closed rb = False"
    "rb_maxPacketSize rb = 65536" "rb_size rb = 2"
    by (simp add: NewRingBuffer_def)
  then have inv: "rb_inv rb" using rb_inv_New [of 2] by simp
  show ?thesis using rb inv ring_write_outcomes [OF inv, of 0 "[7, 8, 9]"] f by auto
qed

text \<open>a preview leaves the buffer alone and returns the most recently written bytes: the
  last \<open>k\<close> of the stored ones, where \<open>k\<close> is the requested number capped by what is stored.\<close>

theorem ring_preview_is_suffix:
  assumes "rb_inv rb" and "0 \<le> preview (rb_avgBytesPerSec rb)"
  shows "\<exists>samples. rb_GetPreview preview rb =
     Ret (drop (length (rb_contents rb) - nat (preview (rb_avgBytesPerSec rb))) (rb_contents rb), samples)"
proof -
  let ?k = "rb_written rb - rb_read rb" and ?p = "nat (preview (rb_avgBytesPerSec rb))"
  define m where "m = min ?p ?k"
  have m: "m \<le> ?k" "m \<le> rb_size rb" using assms(1) by (auto simp: m_def rb_inv_def)
  have cap: "min (min (preview (rb_avgBytesPerSec rb)) (int (rb_written rb) - int (rb_read rb)))
      (int (rb_size rb)) = int m"
    using assms by (auto simp: m_def rb_inv_def min_def)
  define start where "start = (rb_readPos rb + (?k - m)) mod rb_size rb"
  have "rb_read_loop (rb_data rb) (rb_size rb) m 0 [] start =
      Ret (circ_get (rb_data rb) start m, (start + m) mod rb_size rb)"
    using rb_read_loop_eq [of "rb_data rb" "rb_size rb" start 0 m "[]"]
      assms(1) m by (simp add: rb_inv_def start_def)
  also have "circ_get (rb_data rb) start m = drop (?k - m) (rb_contents rb)"
    using circ_get_last [of "rb_readPos rb" "rb_data rb" m ?k] assms(1) m(1)
    unfolding rb_inv_def rb_contents_def start_def by auto
  also have "?k - m = length (rb_contents rb) - ?p" by (simp add: m_def length_rb_contents)
  finally have loop: "rb_read_loop (rb_data rb) (rb_size rb) m 0 [] start =
      Ret (drop (length (rb_contents rb) - ?p) (rb_contents rb), (start + m) mod rb_size rb)" .
  have "nat (int (rb_written rb) - int m - int (rb_read rb)) = ?k - m"
    and ge: "\<not> int (rb_written rb) - int m < int (rb_read rb)" and "0 < rb_size rb"
    using assms(1) m by (auto simp: rb_inv_def)
  then have "rb_GetPreview preview rb =
      Ret (drop (length (rb_contents rb) - ?p) (rb_contents rb), int m div 4096)"
    unfolding rb_GetPreview_def Let_def cap
    by (simp only: ge start_def [symmetric] loop if_False prod.case nat_int outcome_bind.simps) simp
  then show ?thesis by blast
qed

theorem ring_preview_is_suffix_witness:
  "\<exists>rb samples. rb_GetPreview (\<lambda>_. 1) rb = Ret ([9], samples) \<and> rb_contents rb = [7, 9]"
proof -
  define rb where "rb = \<lparr>rb_data = [9, 0, 7], rb_size = 3, rb_maxPacketSize = 65536,
    rb_writePos = 1, rb_readPos = 2, rb_written = 4, rb_read = 2, rb_closed = False, rb_drops = 0,
    rb_consecutiveDrops = 0, rb_lastDropTime = None, rb_bitrateWindow = [], rb_bitrateIndex = 0,
    rb_avgBytesPerSec = (0, 1), rb_lastBitrateCalc = None\<rparr>"
  have inv: "rb_inv rb" by (simp add: rb_inv_def rb_def)
  have c: "rb_contents rb = [7, 9]"
    by (simp add: rb_contents_def rb_def circ_get_def ring_idx_def upt_rec)
  show ?thesis
    using ring_preview_is_suffix [OF inv, of "\<lambda>_. 1"] c by auto
qed

text \<open>\<^verbatim>\<open>ReadTimeout\<close> never takes a byte out of the buffer without handing it to its caller:
  whether it is served on entry, after a wake-up, times out or finds the buffer closed, what it
  returns followed by what is stored afterwards is what was stored before.\<close>

theorem ring_read_timeout_no_loss:
  assumes "rb_inv rb"
    and "rb_ReadTimeout timeout now want rb = Ret (rb', r) \<or>
         rb_ReadTimeout_wake deadline now want rb = Ret (rb', r)"
  shows "rb_inv rb' \<and> rb_contents rb = (case r of Inl _ \<Rightarrow> [] | Inr ys \<Rightarrow> ys) @ rb_contents rb'"
proof -
  consider "rb_read_available want rb = Ret (rb', r)" | "rb' = rb" "\<exists>e. r = Inl e"
    using assms(2)
    by (auto simp: rb_ReadTimeout_def rb_ReadTimeout_wake_def rb_ReadTimeout_check_def rb_Read_def
        split: if_splits)
  then show ?thesis
  proof cases
    case 1
    show ?thesis
    proof (cases r)
      case (Inl e)
      then have "rb' = rb" using 1 rb_read_available_eq [OF assms(1), of want]
        by (auto simp: rb_read_available_def split: if_splits)
      then show ?thesis using Inl assms(1) by simp
    next
      case (Inr ys)
      then have "ys = take want (rb_contents rb)" "rb_contents rb' = drop want (rb_contents rb)" "rb_inv rb'"
        using rb_read_available_deliver [OF assms(1)] 1 by blast+
      then show ?thesis using Inr by simp
    qed
  next
    case 2
    then show ?thesis using assms(1) by auto
  qed
qed

theorem ring_read_timeout_no_loss_witness:
  "\<exists>rb rb'. rb_contents rb = [7, 9] \<and> rb_ReadTimeout 5 100 1 rb = Ret (rb', Inr [7]) \<and>
     rb_contents rb = [7] @ rb_contents rb'"
proof -
  define rb where "rb = \<lparr>rb_data = [9, 0, 7], rb_size = 3, rb_maxPacketSize = 65536,
    rb_writePos = 1, rb_readPos = 2, rb_written = 4, rb_read = 2, rb_closed = False, rb_drops = 0,
    rb_consecutiveDrops = 0, rb_lastDropTime = None, rb_bitrateWindow = [], rb_bitrateIndex = 0,
    rb_avgBytesPerSec = (0, 1), rb_lastBitrateCalc = None\<rparr>"
  have inv: "rb_inv rb" by (simp add: rb_inv_def rb_def)
  have c: "rb_contents rb = [7, 9]"
    by (simp add: rb_contents_def rb_def circ_get_def ring_idx_def upt_rec)
  obtain rb' where r: "rb_ReadTimeout 5 100 1 rb = Ret (rb', Inr [7])"
    using rb_read_available_eq [OF inv, of 1] c
    by (simp add: rb_ReadTimeout_def rb_ReadTimeout_check_def rb_def)
  show ?thesis
    using ring_read_timeout_no_loss [OF inv, of 5 100 1 rb' "Inr [7]"] r c by auto
qed

end
