(* ===== verification/Eviction.thy ===== *)
theory Eviction
  imports Complex_Main Mirror_Prelude "HOL-Library.Multiset"
begin

text \<open>
  The stream tracker and the four eviction strategies of
  \<^verbatim>\<open>internal/ingestion/memory/eviction.go\<close>.  \<^verbatim>\<open>sort.Slice\<close> is a parameter \<open>srt\<close> that is
  given the comparison; what the strategies need of it is the predicate \<open>sort_slice_spec\<close>
  (the result is a permutation and, for a strict weak order, no later element is
  less than an earlier one).  The locale \<open>eviction_strategy\<close> is the contract the
  memory controller relies on; every strategy of the source satisfies it.
\<close>

section \<open>Streams\<close>

record trackedStream =
  ts_streamID :: string
  ts_lastAccess :: nanos
  ts_createdAt :: nanos
  ts_priority :: int
  ts_isActive :: bool

type_synonym StreamTracker = "string \<rightharpoonup> trackedStream"

record StreamInfo =
  si_StreamID :: string
  si_MemoryUsage :: int
  si_LastAccess :: nanos
  si_Priority :: int
  si_IsActive :: bool
  si_CreatedAt :: nanos

definition NewStreamTracker :: StreamTracker where
  "NewStreamTracker = Map.empty"

definition st_TrackStream :: "nanos \<Rightarrow> string \<Rightarrow> int \<Rightarrow> StreamTracker \<Rightarrow> StreamTracker" where
  "st_TrackStream now streamID priority t =
     t(streamID \<mapsto> \<lparr>ts_streamID = streamID, ts_lastAccess = now, ts_createdAt = now,
                     ts_priority = priority, ts_isActive = True\<rparr>)"

definition st_UpdateAccess :: "nanos \<Rightarrow> string \<Rightarrow> StreamTracker \<Rightarrow> StreamTracker" where
  "st_UpdateAccess now streamID t =
     (case t streamID of Some s \<Rightarrow> t(streamID \<mapsto> s\<lparr>ts_lastAccess := now\<rparr>) | None \<Rightarrow> t)"

definition st_SetActive :: "string \<Rightarrow> bool \<Rightarrow> StreamTracker \<Rightarrow> StreamTracker" where
  "st_SetActive streamID active t =
     (case t streamID of Some s \<Rightarrow> t(streamID \<mapsto> s\<lparr>ts_isActive := active\<rparr>) | None \<Rightarrow> t)"

definition st_RemoveStream :: "string \<Rightarrow> StreamTracker \<Rightarrow> StreamTracker" where
  "st_RemoveStream streamID t = t(streamID := None)"

definition st_GetStreamInfo :: "nanos \<Rightarrow> StreamTracker \<Rightarrow> string \<Rightarrow> int \<Rightarrow> StreamInfo" where
  "st_GetStreamInfo now t streamID memoryUsage =
     (case t streamID of
        Some s \<Rightarrow> \<lparr>si_StreamID = ts_streamID s, si_MemoryUsage = memoryUsage,
          si_LastAccess = ts_lastAccess s, si_Priority = ts_priority s,
          si_IsActive = ts_isActive s, si_CreatedAt = ts_createdAt s\<rparr>
      | None \<Rightarrow> \<lparr>si_StreamID = streamID, si_MemoryUsage = memoryUsage, si_LastAccess = now,
          si_Priority = 5, si_IsActive = True, si_CreatedAt = now\<rparr>)"

text \<open>Entries are filed under their own identifier.\<close>

definition st_wf :: "StreamTracker \<Rightarrow> bool" where
  "st_wf t \<longleftrightarrow> (\<forall>k s. t k = Some s \<longrightarrow> ts_streamID s = k)"

section \<open>Sorting\<close>

type_synonym 'a sorter = "('a \<Rightarrow> 'a \<Rightarrow> bool) \<Rightarrow> 'a list \<Rightarrow> 'a list"

definition weak_order :: "('a \<Rightarrow> 'a \<Rightarrow> bool) \<Rightarrow> bool" where
  "weak_order lt \<longleftrightarrow> (\<forall>a. \<not> lt a a) \<and> (\<forall>a b c. lt a b \<longrightarrow> lt b c \<longrightarrow> lt a c) \<and>
     (\<forall>a b c. \<not> lt a b \<longrightarrow> \<not> lt b c \<longrightarrow> \<not> lt a c)"

definition sort_slice_spec :: "'a sorter \<Rightarrow> bool" where
  "sort_slice_spec srt \<longleftrightarrow> (\<forall>lt xs. mset (srt lt xs) = mset xs \<and>
     (weak_order lt \<longrightarrow> sorted_wrt (\<lambda>a b. \<not> lt b a) (srt lt xs)))"

text \<open>Insertion sort, which is what \<^verbatim>\<open>sort.Slice\<close> runs on at most twelve elements.\<close>

fun insert_less :: "('a \<Rightarrow> 'a \<Rightarrow> bool) \<Rightarrow> 'a \<Rightarrow> 'a list \<Rightarrow> 'a list" where
  "insert_less lt x [] = [x]"
| "insert_less lt x (y # ys) = (if lt y x \<or> \<not> lt x y then y # insert_less lt x ys else x # y # ys)"

definition insertion_sort :: "'a sorter" where
  "insertion_sort lt xs = foldl (\<lambda>acc x. insert_less lt x acc) [] xs"

section \<open>Strategies\<close>

text \<open>The selection loop shared by the first three strategies.\<close>

fun select_loop :: "StreamInfo list \<Rightarrow> int \<Rightarrow> int \<Rightarrow> string list \<Rightarrow> string list" where
  "select_loop [] targetBytes totalBytes selected = selected"
| "select_loop (s # ss) targetBytes totalBytes selected =
     (if totalBytes \<ge> targetBytes then selected
      else select_loop ss targetBytes (i64 (totalBytes + si_MemoryUsage s)) (selected @ [si_StreamID s]))"

definition lru_less :: "StreamInfo \<Rightarrow> StreamInfo \<Rightarrow> bool" where
  "lru_less a b = (if si_IsActive a \<noteq> si_IsActive b then \<not> si_IsActive a
                   else si_LastAccess a < si_LastAccess b)"

definition LRU_SelectStreamsForEviction :: "StreamInfo sorter \<Rightarrow> StreamInfo list \<Rightarrow> int \<Rightarrow> string list" where
  "LRU_SelectStreamsForEviction srt streams targetBytes =
     select_loop (srt lru_less streams) targetBytes 0 []"

definition priority_less :: "StreamInfo \<Rightarrow> StreamInfo \<Rightarrow> bool" where
  "priority_less a b = (if si_Priority a \<noteq> si_Priority b then si_Priority a > si_Priority b
                        else si_LastAccess a < si_LastAccess b)"

definition Priority_SelectStreamsForEviction :: "StreamInfo sorter \<Rightarrow> StreamInfo list \<Rightarrow> int \<Rightarrow> string list" where
  "Priority_SelectStreamsForEviction srt streams targetBytes =
     select_loop (srt priority_less streams) targetBytes 0 []"

definition size_less :: "StreamInfo \<Rightarrow> StreamInfo \<Rightarrow> bool" where
  "size_less a b = (si_MemoryUsage a > si_MemoryUsage b)"

definition SizeBased_SelectStreamsForEviction :: "StreamInfo sorter \<Rightarrow> StreamInfo list \<Rightarrow> int \<Rightarrow> string list" where
  "SizeBased_SelectStreamsForEviction srt streams targetBytes =
     select_loop (srt size_less streams) targetBytes 0 []"

text \<open>The hybrid strategy.  The floating-point combination of the three weighted factors is the
  parameter \<open>score\<close>, a function of the largest age, the largest usage, the clock and the
  stream; its values are the rational numbers the floats denote.\<close>

type_synonym scoredStream = "StreamInfo \<times> rat"

fun hybrid_maxima :: "nanos \<Rightarrow> StreamInfo list \<Rightarrow> nanos \<times> int \<Rightarrow> nanos \<times> int" where
  "hybrid_maxima now [] acc = acc"
| "hybrid_maxima now (s # ss) (maxAge, maxSize) =
     hybrid_maxima now ss
       (if now - si_LastAccess s > maxAge then now - si_LastAccess s else maxAge,
        if si_MemoryUsage s > maxSize then si_MemoryUsage s else maxSize)"

fun hybrid_pass1 :: "scoredStream list \<Rightarrow> int \<Rightarrow> int \<Rightarrow> string list \<Rightarrow> string list \<times> int" where
  "hybrid_pass1 [] target tot sel = (sel, tot)"
| "hybrid_pass1 ((s, sc) # ss) target tot sel =
     (if tot \<ge> target then (sel, tot)
      else if sc < 0 then hybrid_pass1 ss target tot sel
      else hybrid_pass1 ss target (i64 (tot + si_MemoryUsage s)) (sel @ [si_StreamID s]))"

fun hybrid_pass2 :: "scoredStream list \<Rightarrow> int \<Rightarrow> int \<Rightarrow> string list \<Rightarrow> string list \<times> int" where
  "hybrid_pass2 [] target tot sel = (sel, tot)"
| "hybrid_pass2 ((s, sc) # ss) target tot sel =
     (if tot \<ge> target then (sel, tot)
      else if sc < 0 \<and> si_StreamID s \<notin> set sel
      then hybrid_pass2 ss target (i64 (tot + si_MemoryUsage s)) (sel @ [si_StreamID s])
      else hybrid_pass2 ss target tot sel)"

definition score_less :: "scoredStream \<Rightarrow> scoredStream \<Rightarrow> bool" where
  "score_less a b = (snd a > snd b)"

type_synonym score_fn = "nanos \<Rightarrow> int \<Rightarrow> nanos \<Rightarrow> StreamInfo \<Rightarrow> rat"

definition hybrid_scores :: "score_fn \<Rightarrow> nanos \<Rightarrow> StreamInfo list \<Rightarrow> scoredStream list" where
  "hybrid_scores score now streams =
     (let (maxAge, maxSize) = hybrid_maxima now streams (0, 0)
      in map (\<lambda>s. (s, if si_IsActive s then -1 else score maxAge maxSize now s)) streams)"

definition Hybrid_SelectStreamsForEviction ::
  "scoredStream sorter \<Rightarrow> score_fn \<Rightarrow> nanos \<Rightarrow> StreamInfo list \<Rightarrow> int \<Rightarrow> string list" where
  "Hybrid_SelectStreamsForEviction srt score now streams targetBytes =
     (let scored = srt score_less (hybrid_scores score now streams);
          (selected, totalBytes) = hybrid_pass1 scored targetBytes 0 []
      in if totalBytes < targetBytes
         then fst (hybrid_pass2 scored targetBytes totalBytes selected)
         else selected)"

section \<open>What the controller needs of a strategy\<close>

abbreviation usages :: "StreamInfo list \<Rightarrow> int" where
  "usages ss \<equiv> sum_list (map si_MemoryUsage ss)"

definition si_wf :: "StreamInfo list \<Rightarrow> bool" where
  "si_wf ss \<longleftrightarrow> distinct (map si_StreamID ss) \<and> (\<forall>s \<in> set ss. 0 \<le> si_MemoryUsage s) \<and> usages ss < 2 ^ 63"

definition usage_of :: "StreamInfo list \<Rightarrow> string list \<Rightarrow> int" where
  "usage_of ss ids = usages (filter (\<lambda>s. si_StreamID s \<in> set ids) ss)"

locale eviction_strategy =
  fixes select :: "StreamInfo list \<Rightarrow> int \<Rightarrow> string list"
  assumes select_known: "si_wf ss \<Longrightarrow> set (select ss t) \<subseteq> si_StreamID ` set ss"
    and select_distinct: "si_wf ss \<Longrightarrow> distinct (select ss t)"
    and select_enough: "si_wf ss \<Longrightarrow> min t (usages ss) \<le> usage_of ss (select ss t)"

text \<open>A list of streams that fulfils the contract: some of the given ones, enough or all of them.\<close>

definition picks :: "StreamInfo list \<Rightarrow> int \<Rightarrow> StreamInfo list \<Rightarrow> bool" where
  "picks ss t L \<longleftrightarrow> (\<exists>R. mset ss = mset L + mset R \<and> (t \<le> usages L \<or> R = []))"

lemma usages_mset: "mset xs = mset ys \<Longrightarrow> usages xs = usages ys"
  by (metis mset_map sum_mset_sum_list)

lemma distinct_map_mset: "mset xs = mset ys \<Longrightarrow> distinct (map f xs) = distinct (map f ys)"
  by (metis distinct_count_atmost_1 mset_map set_mset_mset)

lemma usages_nonneg: "\<forall>s \<in> set ss. 0 \<le> si_MemoryUsage s \<Longrightarrow> 0 \<le> usages ss"
  by (induction ss) auto

lemma usage_of_picked:
  assumes "mset ss = mset (L @ R)" and "distinct (map si_StreamID ss)"
  shows "usage_of ss (map si_StreamID L) = usages L"
proof -
  let ?P = "\<lambda>s. si_StreamID s \<in> set (map si_StreamID L)"
  have d: "distinct (map si_StreamID (L @ R))" using assms distinct_map_mset by blast
  have "mset (filter ?P ss) = mset (filter ?P (L @ R))"
    using assms(1) by (simp only: mset_filter)
  moreover have "filter ?P (L @ R) = L"
    using d by (auto simp: filter_empty_conv filter_id_conv)
  ultimately have "mset (filter ?P ss) = mset L" by metis
  then show ?thesis unfolding usage_of_def by (rule usages_mset)
qed

lemma picks_contract:
  assumes "si_wf ss" and "picks ss t L"
  shows "set (map si_StreamID L) \<subseteq> si_StreamID ` set ss"
    and "distinct (map si_StreamID L)"
    and "min t (usages ss) \<le> usage_of ss (map si_StreamID L)"
proof -
  obtain R where R: "mset ss = mset (L @ R)" "t \<le> usages L \<or> R = []"
    using assms(2) by (auto simp: picks_def)
  then have "set ss = set (L @ R)" by (metis set_mset_mset)
  then show "set (map si_StreamID L) \<subseteq> si_StreamID ` set ss" by auto
  have "distinct (map si_StreamID (L @ R))"
    using assms(1) R(1) distinct_map_mset unfolding si_wf_def by blast
  then show "distinct (map si_StreamID L)" by simp
  have "usage_of ss (map si_StreamID L) = usages L"
    using R(1) assms(1) by (intro usage_of_picked) (simp_all add: si_wf_def)
  moreover have "R = [] \<Longrightarrow> usages ss = usages L" using R(1) by (intro usages_mset) simp
  ultimately show "min t (usages ss) \<le> usage_of ss (map si_StreamID L)" using R(2) by auto
qed

section \<open>The strategies fulfil the contract\<close>

lemma select_loop_prefix:
  assumes "\<forall>s \<in> set ss. 0 \<le> si_MemoryUsage s" and "0 \<le> tot" and "tot + usages ss < 2 ^ 63"
  shows "\<exists>L R. ss = L @ R \<and> select_loop ss t tot sel = sel @ map si_StreamID L \<and>
    (t \<le> tot + usages L \<or> R = [])"
  using assms
proof (induction ss arbitrary: tot sel)
  case Nil
  then show ?case by simp
next
  case (Cons s ss)
  show ?case
  proof (cases "tot \<ge> t")
    case True
    then show ?thesis by (intro exI [of _ "[]"] exI [of _ "s # ss"]) simp
  next
    case False
    have u: "0 \<le> usages ss" using Cons.prems(1) by (intro usages_nonneg) simp
    then have "i64 (tot + si_MemoryUsage s) = tot + si_MemoryUsage s" using Cons.prems by simp
    moreover obtain L R where "ss = L @ R"
      "select_loop ss t (tot + si_MemoryUsage s) (sel @ [si_StreamID s]) = (sel @ [si_StreamID s]) @ map si_StreamID L"
      "t \<le> tot + si_MemoryUsage s + usages L \<or> R = []"
      using Cons.IH [of "tot + si_MemoryUsage s" "sel @ [si_StreamID s]"] Cons.prems by auto
    ultimately show ?thesis using False
      by (intro exI [of _ "s # L"] exI [of _ R]) (simp add: add.assoc)
  qed
qed

lemma sort_slice_mset: "sort_slice_spec srt \<Longrightarrow> mset (srt lt xs) = mset xs"
  by (simp add: sort_slice_spec_def)

lemma sort_slice_sorted: "sort_slice_spec srt \<Longrightarrow> weak_order lt \<Longrightarrow> sorted_wrt (\<lambda>a b. \<not> lt b a) (srt lt xs)"
  by (simp add: sort_slice_spec_def)

lemma sort_slice_set: "sort_slice_spec srt \<Longrightarrow> set (srt lt xs) = set xs"
  by (metis set_mset_mset sort_slice_mset)

lemma sorted_select_split:
  assumes "sort_slice_spec srt" and "si_wf ss"
  obtains L R where "srt lt ss = L @ R" and "select_loop (srt lt ss) t 0 [] = map si_StreamID L"
    and "t \<le> usages L \<or> R = []"
proof -
  have "usages (srt lt ss) = usages ss" using assms(1) by (intro usages_mset sort_slice_mset)
  then have "\<exists>L R. srt lt ss = L @ R \<and> select_loop (srt lt ss) t 0 [] = [] @ map si_StreamID L \<and>
      (t \<le> 0 + usages L \<or> R = [])"
    using assms sort_slice_set [OF assms(1)] by (intro select_loop_prefix) (auto simp: si_wf_def)
  then show ?thesis by (elim exE conjE) (rule that, simp_all)
qed

lemma sorted_select_picks:
  assumes "sort_slice_spec srt" and "si_wf ss"
  shows "\<exists>L. select_loop (srt lt ss) t 0 [] = map si_StreamID L \<and> picks ss t L"
proof -
  obtain L R where 1: "srt lt ss = L @ R" "select_loop (srt lt ss) t 0 [] = map si_StreamID L"
    "t \<le> usages L \<or> R = []" by (rule sorted_select_split [OF assms])
  moreover have "mset ss = mset L + mset R"
    using sort_slice_mset [OF assms(1), of lt ss] 1(1) by simp
  ultimately show ?thesis by (auto simp: picks_def)
qed

lemma eviction_strategyI:
  assumes "\<And>ss t. si_wf ss \<Longrightarrow> \<exists>L. select ss t = map si_StreamID L \<and> picks ss t L"
  shows "eviction_strategy select"
proof
  fix ss t assume wf: "si_wf ss"
  then obtain L where "select ss t = map si_StreamID L" "picks ss t L" using assms by blast
  then show "set (select ss t) \<subseteq> si_StreamID ` set ss" "distinct (select ss t)"
    "min t (usages ss) \<le> usage_of ss (select ss t)"
    using picks_contract [OF wf] by auto
qed

lemma hybrid_pass1_prefix:
  assumes "\<forall>(s, sc) \<in> set xs. 0 \<le> si_MemoryUsage s" and "0 \<le> tot"
    and "tot + usages (map fst xs) < 2 ^ 63"
  shows "\<exists>L R. map fst (filter (\<lambda>(s, sc). \<not> sc < 0) xs) = L @ R \<and>
    hybrid_pass1 xs t tot sel = (sel @ map si_StreamID L, tot + usages L) \<and> (t \<le> tot + usages L \<or> R = [])"
  using assms
proof (induction xs arbitrary: tot sel)
  case Nil
  then show ?case by simp
next
  case (Cons x xs)
  obtain s sc where x: "x = (s, sc)" by (cases x)
  have u: "0 \<le> usages (map fst xs)" using Cons.prems(1) by (intro usages_nonneg) auto
  consider "tot \<ge> t" | "\<not> tot \<ge> t" "sc < 0" | "\<not> tot \<ge> t" "\<not> sc < 0" by blast
  then show ?case
  proof cases
    case 1
    then show ?thesis by (intro exI [of _ "[]"] exI) (simp add: x)
  next
    case 2
    then show ?thesis using Cons.IH [of tot sel] Cons.prems by (auto simp: x)
  next
    case 3
    have "i64 (tot + si_MemoryUsage s) = tot + si_MemoryUsage s" using u Cons.prems by (simp add: x)
    moreover obtain L R where "map fst (filter (\<lambda>(s, sc). \<not> sc < 0) xs) = L @ R"
      "hybrid_pass1 xs t (tot + si_MemoryUsage s) (sel @ [si_StreamID s]) =
        ((sel @ [si_StreamID s]) @ map si_StreamID L, tot + si_MemoryUsage s + usages L)"
      "t \<le> tot + si_MemoryUsage s + usages L \<or> R = []"
      using Cons.IH [of "tot + si_MemoryUsage s" "sel @ [si_StreamID s]"] Cons.prems by (auto simp: x)
    ultimately show ?thesis using 3
      by (intro exI [of _ "s # L"] exI [of _ R]) (simp add: x add.assoc)
  qed
qed

lemma hybrid_pass2_prefix:
  assumes "\<forall>(s, sc) \<in> set xs. 0 \<le> si_MemoryUsage s" and "0 \<le> tot"
    and "tot + usages (map fst (filter (\<lambda>(s, sc). sc < 0) xs)) < 2 ^ 63"
    and "distinct (map (si_StreamID \<circ> fst) (filter (\<lambda>(s, sc). sc < 0) xs))"
    and "set sel \<inter> (si_StreamID \<circ> fst) ` set (filter (\<lambda>(s, sc). sc < 0) xs) = {}"
  shows "\<exists>L R. map fst (filter (\<lambda>(s, sc). sc < 0) xs) = L @ R \<and>
    fst (hybrid_pass2 xs t tot sel) = sel @ map si_StreamID L \<and> (t \<le> tot + usages L \<or> R = [])"
  using assms
proof (induction xs arbitrary: tot sel)
  case Nil
  then show ?case by simp
next
  case (Cons x xs)
  obtain s sc where x: "x = (s, sc)" by (cases x)
  have u: "0 \<le> usages (map fst (filter (\<lambda>(s, sc). sc < 0) xs))" using Cons.prems(1) by (intro usages_nonneg) auto
  consider "tot \<ge> t" | "\<not> tot \<ge> t" "sc < 0" | "\<not> tot \<ge> t" "\<not> sc < 0" by blast
  then show ?case
  proof cases
    case 1
    then show ?thesis by (intro exI [of _ "[]"] exI) (simp add: x)
  next
    case 2
    then have new: "si_StreamID s \<notin> set sel" using Cons.prems(5) by (auto simp: x)
    have "i64 (tot + si_MemoryUsage s) = tot + si_MemoryUsage s" using u Cons.prems 2 by (simp add: x)
    moreover obtain L R where "map fst (filter (\<lambda>(s, sc). sc < 0) xs) = L @ R"
      "fst (hybrid_pass2 xs t (tot + si_MemoryUsage s) (sel @ [si_StreamID s])) =
        (sel @ [si_StreamID s]) @ map si_StreamID L"
      "t \<le> tot + si_MemoryUsage s + usages L \<or> R = []"
      using Cons.IH [of "tot + si_MemoryUsage s" "sel @ [si_StreamID s]"] Cons.prems 2
      by (auto simp: x)
    ultimately show ?thesis using 2 new
      by (intro exI [of _ "s # L"] exI [of _ R]) (simp add: x add.assoc)
  next
    case 3
    then show ?thesis using Cons.IH [of tot sel] Cons.prems by (auto simp: x)
  qed
qed

lemma map_fst_hybrid_scores: "map fst (hybrid_scores score now ss) = ss"
  by (simp add: hybrid_scores_def comp_def split: prod.split)

lemma hybrid_select_picks:
  assumes srt: "sort_slice_spec srt" and wf: "si_wf ss"
  shows "\<exists>L. Hybrid_SelectStreamsForEviction srt score now ss t = map si_StreamID L \<and> picks ss t L"
proof -
  define xs where "xs = srt score_less (hybrid_scores score now ss)"
  define N where "N = map fst (filter (\<lambda>(s, sc). \<not> sc < 0) xs)"
  define A where "A = map fst (filter (\<lambda>(s, sc). sc < 0) xs)"
  have "mset xs = mset (hybrid_scores score now ss)" unfolding xs_def using srt by (rule sort_slice_mset)
  then have ms: "mset (map fst xs) = mset ss" by (metis map_fst_hybrid_scores mset_map)
  have split: "mset ss = mset N + mset A"
    unfolding ms [symmetric] N_def A_def by (induction xs) auto
  have nonneg: "\<forall>(s, sc) \<in> set xs. 0 \<le> si_MemoryUsage s"
    using wf ms [THEN mset_eq_setD] by (force simp: si_wf_def)
  have small: "usages (map fst xs) < 2 ^ 63" using wf usages_mset [OF ms] by (simp add: si_wf_def)
  obtain L1 R1 where 1: "N = L1 @ R1" "hybrid_pass1 xs t 0 [] = (map si_StreamID L1, usages L1)"
    "t \<le> usages L1 \<or> R1 = []"
    using hybrid_pass1_prefix [of xs 0 t "[]"] nonneg small unfolding N_def by auto
  have sel: "Hybrid_SelectStreamsForEviction srt score now ss t =
      (if usages L1 < t then fst (hybrid_pass2 xs t (usages L1) (map si_StreamID L1)) else map si_StreamID L1)"
    by (simp add: Hybrid_SelectStreamsForEviction_def xs_def [symmetric] 1 Let_def)
  show ?thesis
  proof (cases "usages L1 < t")
    case False
    then show ?thesis unfolding sel using 1(1) split
      by (intro exI [of _ L1]) (auto simp: picks_def intro!: exI [of _ "R1 @ A"])
  next
    case True
    then have N: "N = L1" using 1 by simp
    have d: "distinct (map si_StreamID (N @ A))"
      using wf split distinct_map_mset [of ss "N @ A" si_StreamID] by (simp add: si_wf_def)
    have u: "usages L1 + usages A = usages ss" using usages_mset [of ss "N @ A"] split N by simp
    have "0 \<le> usages L1"
      using wf mset_eq_setD [of ss "N @ A"] split N by (intro usages_nonneg) (simp add: si_wf_def)
    moreover have "distinct (map (si_StreamID \<circ> fst) (filter (\<lambda>(s, sc). sc < 0) xs))"
      "set (map si_StreamID L1) \<inter> (si_StreamID \<circ> fst) ` set (filter (\<lambda>(s, sc). sc < 0) xs) = {}"
      using d unfolding A_def N by (auto simp: image_comp [symmetric])
    ultimately have "\<exists>L R. A = L @ R \<and> fst (hybrid_pass2 xs t (usages L1) (map si_StreamID L1)) =
        map si_StreamID L1 @ map si_StreamID L \<and> (t \<le> usages L1 + usages L \<or> R = [])"
      using nonneg u wf unfolding A_def by (intro hybrid_pass2_prefix) (simp_all add: si_wf_def)
    then obtain L2 R2 where "A = L2 @ R2"
      "fst (hybrid_pass2 xs t (usages L1) (map si_StreamID L1)) = map si_StreamID (L1 @ L2)"
      "t \<le> usages (L1 @ L2) \<or> R2 = []" by auto
    then show ?thesis unfolding sel using True split N
      by (intro exI [of _ "L1 @ L2"]) (auto simp: picks_def intro!: exI [of _ R2])
  qed
qed

text \<open>Any sorting function with the documented behaviour turns each strategy into an instance
  of the contract; insertion sort is one.\<close>

locale go_sort =
  fixes srt :: "StreamInfo sorter" and srt' :: "scoredStream sorter"
  assumes sorts: "sort_slice_spec srt" and sorts': "sort_slice_spec srt'"

sublocale go_sort \<subseteq> lru: eviction_strategy "LRU_SelectStreamsForEviction srt"
  unfolding LRU_SelectStreamsForEviction_def by (rule eviction_strategyI sorted_select_picks sorts)+

sublocale go_sort \<subseteq> prio: eviction_strategy "Priority_SelectStreamsForEviction srt"
  unfolding Priority_SelectStreamsForEviction_def by (rule eviction_strategyI sorted_select_picks sorts)+

sublocale go_sort \<subseteq> sized: eviction_strategy "SizeBased_SelectStreamsForEviction srt"
  unfolding SizeBased_SelectStreamsForEviction_def by (rule eviction_strategyI sorted_select_picks sorts)+

sublocale go_sort \<subseteq> hybrid: eviction_strategy "Hybrid_SelectStreamsForEviction srt' score now" for score now
  by (rule eviction_strategyI hybrid_select_picks sorts')+

context go_sort
begin

lemma all_strategies:
  "select \<in> {LRU_SelectStreamsForEviction srt, Priority_SelectStreamsForEviction srt,
     SizeBased_SelectStreamsForEviction srt, Hybrid_SelectStreamsForEviction srt' score now} \<Longrightarrow>
   eviction_strategy select"
  using lru.eviction_strategy_axioms prio.eviction_strategy_axioms
    sized.eviction_strategy_axioms hybrid.eviction_strategy_axioms by blast

end

lemma mset_insert_less: "mset (insert_less lt x xs) = add_mset x (mset xs)"
  by (induction xs) auto

lemma set_insert_less: "set (insert_less lt x xs) = insert x (set xs)"
  by (induction xs) auto

lemma weak_orderD:
  assumes "weak_order lt"
  shows "\<not> lt a a" "lt a b \<Longrightarrow> lt b c \<Longrightarrow> lt a c" "\<not> lt a b \<Longrightarrow> \<not> lt b c \<Longrightarrow> \<not> lt a c"
  using assms unfolding weak_order_def by blast+

lemma sorted_insert_less:
  "weak_order lt \<Longrightarrow> sorted_wrt (\<lambda>a b. \<not> lt b a) xs \<Longrightarrow> sorted_wrt (\<lambda>a b. \<not> lt b a) (insert_less lt x xs)"
proof (induction xs)
  case (Cons y ys)
  then have IH: "sorted_wrt (\<lambda>a b. \<not> lt b a) (insert_less lt x ys)" and ys: "\<forall>z \<in> set ys. \<not> lt z y" by auto
  show ?case
  proof (cases "lt y x \<or> \<not> lt x y")
    case True
    then have "\<not> lt x y" using weak_orderD(1,2) [OF Cons.prems(1)] by blast
    then show ?thesis using True IH ys by (simp add: set_insert_less)
  next
    case False
    then have "\<forall>z \<in> set ys. \<not> lt z x" using ys weak_orderD(3) [OF Cons.prems(1)] by blast
    then show ?thesis using False Cons.prems(2) by simp
  qed
qed simp

lemma sort_slice_spec_insertion: "sort_slice_spec insertion_sort"
proof -
  have "mset (foldl (\<lambda>acc x. insert_less lt x acc) acc xs) = mset acc + mset xs" for lt acc and xs :: "'a list"
    by (induction xs arbitrary: acc) (auto simp: mset_insert_less)
  moreover have "weak_order lt \<Longrightarrow> sorted_wrt (\<lambda>a b. \<not> lt b a) acc \<Longrightarrow>
      sorted_wrt (\<lambda>a b. \<not> lt b a) (foldl (\<lambda>acc x. insert_less lt x acc) acc xs)" for lt acc and xs :: "'a list"
    by (induction xs arbitrary: acc) (auto simp: sorted_insert_less)
  ultimately show ?thesis by (simp add: sort_slice_spec_def insertion_sort_def)
qed

interpretation insertion: go_sort insertion_sort insertion_sort
  by unfold_locales (rule sort_slice_spec_insertion)+

section \<open>Properties\<close>

lemma weak_order_lru: "weak_order lru_less"
  by (auto simp: weak_order_def lru_less_def)

text \<open>the LRU strategy never picks an active stream while it leaves an inactive one in memory.\<close>

theorem lru_evicts_active_last:
  assumes "sort_slice_spec srt" and "si_wf ss" and "a \<in> set ss" and "b \<in> set ss"
    and "si_IsActive a" and "\<not> si_IsActive b"
    and "si_StreamID a \<in> set (LRU_SelectStreamsForEviction srt ss targetBytes)"
  shows "si_StreamID b \<in> set (LRU_SelectStreamsForEviction srt ss targetBytes)"
proof -
  obtain L R where 1: "srt lru_less ss = L @ R"
    "LRU_SelectStreamsForEviction srt ss targetBytes = map si_StreamID L"
    unfolding LRU_SelectStreamsForEviction_def by (rule sorted_select_split [OF assms(1,2)])
  have sets: "set ss = set (L @ R)" using sort_slice_set [OF assms(1), of lru_less ss] 1(1) by simp
  have "inj_on si_StreamID (set ss)" using assms(2) by (simp add: si_wf_def distinct_map)
  then have "a \<in> set L" using assms(3,7) sets 1(2) by (auto simp: inj_on_def)
  moreover have "sorted_wrt (\<lambda>a b. \<not> lru_less b a) (L @ R)"
    using sort_slice_sorted [OF assms(1) weak_order_lru, of ss] 1(1) by simp
  moreover have "lru_less b a" using assms(5,6) by (simp add: lru_less_def)
  ultimately have "b \<notin> set R" by (auto simp: sorted_wrt_append)
  then show ?thesis using assms(4) sets 1(2) by auto
qed

text \<open>each of the four strategies returns distinct identifiers of the given streams whose
  memory adds up to the target, or to everything there is.\<close>

theorem strategies_cover_target:
  assumes "sort_slice_spec srt" and "sort_slice_spec srt'" and "si_wf ss"
    and "select \<in> {LRU_SelectStreamsForEviction srt, Priority_SelectStreamsForEviction srt,
           SizeBased_SelectStreamsForEviction srt, Hybrid_SelectStreamsForEviction srt' score now}"
  shows "distinct (select ss targetBytes) \<and> set (select ss targetBytes) \<subseteq> si_StreamID ` set ss \<and>
     min targetBytes (usages ss) \<le> usage_of ss (select ss targetBytes)"
proof -
  have "go_sort srt srt'" using assms(1,2) by unfold_locales
  then have "eviction_strategy select" using assms(4) by (rule go_sort.all_strategies)
  then show ?thesis
    using assms(3) eviction_strategy.select_distinct eviction_strategy.select_known
      eviction_strategy.select_enough by blast
qed

definition example_streams :: "StreamInfo list" where
  "example_streams =
     [\<lparr>si_StreamID = ''a'', si_MemoryUsage = 10, si_LastAccess = 1, si_Priority = 5,
       si_IsActive = True, si_CreatedAt = 0\<rparr>,
      \<lparr>si_StreamID = ''b'', si_MemoryUsage = 20, si_LastAccess = 2, si_Priority = 5,
       si_IsActive = False, si_CreatedAt = 0\<rparr>]"

lemma example_streams_wf: "si_wf example_streams"
  by (simp add: si_wf_def example_streams_def)

theorem lru_evicts_active_last_witness:
  "''b'' \<in> set (LRU_SelectStreamsForEviction insertion_sort example_streams 25)"
proof -
  have "''a'' \<in> set (LRU_SelectStreamsForEviction insertion_sort example_streams 25)" by code_simp
  then show ?thesis
    using lru_evicts_active_last [OF sort_slice_spec_insertion example_streams_wf,
        of "example_streams ! 0" "example_streams ! 1" 25]
    by (simp add: example_streams_def)
qed

theorem strategies_cover_target_witness:
  "distinct (SizeBased_SelectStreamsForEviction insertion_sort example_streams 15) \<and>
   min 15 (usages example_streams) \<le>
     usage_of example_streams (SizeBased_SelectStreamsForEviction insertion_sort example_streams 15)"
  using strategies_cover_target [OF sort_slice_spec_insertion sort_slice_spec_insertion example_streams_wf,
      of "SizeBased_SelectStreamsForEviction insertion_sort" "\<lambda>_ _ _ _. 0" 0 15] by blast

end
