(* ===== verification/Account_Maps.thy ===== *)
theory Account_Maps
  imports Mirror_Prelude "HOL-Library.AList"
begin

text \<open>
  Accounts kept per stream in a Go map, as association lists: the booked total and how updates and
  deletions move it.  The memory controller and the rate limiters share these lemmas.
\<close>

definition sum_usage :: "(string \<times> int) list \<Rightarrow> int" where
  "sum_usage al = sum_list (map snd al)"

lemma sum_usage_update_None:
  "map_of al k = None \<Longrightarrow> sum_usage (AList.update k v al) = sum_usage al + v"
  by (induction al) (auto simp: sum_usage_def split: if_splits)

lemma sum_usage_update_Some:
  "map_of al k = Some u \<Longrightarrow> sum_usage (AList.update k v al) = sum_usage al - u + v"
  by (induction al) (auto simp: sum_usage_def split: if_splits)

lemma delete_missing: "k \<notin> fst ` set al \<Longrightarrow> AList.delete k al = al"
  by (induction al) auto

lemma sum_usage_delete:
  "distinct (map fst al) \<Longrightarrow> map_of al k = Some u \<Longrightarrow> sum_usage (AList.delete k al) = sum_usage al - u"
proof (induction al)
  case (Cons a al)
  then show ?case using delete_missing [of k al] by (auto simp: sum_usage_def split: if_splits)
qed simp

lemma set_AList_update: "distinct (map fst al) \<Longrightarrow>
   set (AList.update k v al) = insert (k, v) {x \<in> set al. fst x \<noteq> k}"
  by (induction al) (force split: if_splits)+

lemma sum_usage_Nil [simp]: "sum_usage [] = 0"
  by (simp add: sum_usage_def)

lemma set_AList_delete: "set (AList.delete k al) = {x \<in> set al. fst x \<noteq> k}"
  by (auto simp: AList.delete_eq)

text \<open>A Go map read: a missing key reads as zero.\<close>

definition account :: "string \<Rightarrow> (string \<times> int) list \<Rightarrow> int" where
  "account k al = (case map_of al k of None \<Rightarrow> 0 | Some v \<Rightarrow> v)"

lemma sum_usage_update: "sum_usage (AList.update k v al) = sum_usage al - account k al + v"
  by (cases "map_of al k") (simp_all add: account_def sum_usage_update_None sum_usage_update_Some)

end
