(* ===== verification/Memory_Controller.thy ===== *)
theory Memory_Controller
  imports Eviction Account_Maps
begin

text \<open>
  The memory controller of \<^verbatim>\<open>internal/ingestion/memory/controller.go\<close>, one call at a time.
  The concurrent map of stream counters is an association list: \<^verbatim>\<open>Range\<close> visits it in
  list order, and since the theorems hold for every list they hold for every visiting
  order.  The comparison of the floating-point pressure with the threshold is the
  parameter \<open>over\<close> of the current usage and the budget, and the eviction strategy is a
  function stored in the state, as the interface value is.  The eviction callback only
  notifies; the notifications are part of the result.  Counters are \<^verbatim>\<open>int64\<close> and wrap.
\<close>

section \<open>State and operations\<close>

datatype mem_error = ErrGlobalMemoryLimit | ErrStreamMemoryLimit

type_synonym EvictionStrategy = "nanos \<Rightarrow> StreamInfo list \<Rightarrow> int \<Rightarrow> string list"

record Controller =
  mc_maxMemory :: int
  mc_perStreamLimit :: int
  mc_usage :: int
  mc_streamUsage :: "(string \<times> int) list"
  mc_evictionCallback :: bool
  mc_evictionStrategy :: EvictionStrategy
  mc_streamTracker :: StreamTracker
  mc_allocationCount :: nat
  mc_releaseCount :: nat
  mc_evictionCount :: nat
  mc_lastGCTime :: nanos

definition NewController :: "EvictionStrategy \<Rightarrow> nanos \<Rightarrow> int \<Rightarrow> int \<Rightarrow> Controller" where
  "NewController hybrid now maxMemory perStreamLimit =
     \<lparr>mc_maxMemory = maxMemory, mc_perStreamLimit = perStreamLimit, mc_usage = 0,
      mc_streamUsage = [], mc_evictionCallback = False, mc_evictionStrategy = hybrid,
      mc_streamTracker = NewStreamTracker, mc_allocationCount = 0, mc_releaseCount = 0,
      mc_evictionCount = 0, mc_lastGCTime = now\<rparr>"

definition mc_SetEvictionCallback :: "bool \<Rightarrow> Controller \<Rightarrow> Controller" where
  "mc_SetEvictionCallback callback c = c\<lparr>mc_evictionCallback := callback\<rparr>"

definition mc_SetEvictionStrategy :: "EvictionStrategy \<Rightarrow> Controller \<Rightarrow> Controller" where
  "mc_SetEvictionStrategy strategy c = c\<lparr>mc_evictionStrategy := strategy\<rparr>"

text \<open>The counter of a stream, created with value 0 when it is missing.\<close>

definition mc_getOrCreateStreamUsage :: "string \<Rightarrow> Controller \<Rightarrow> Controller \<times> int" where
  "mc_getOrCreateStreamUsage streamID c =
     (case map_of (mc_streamUsage c) streamID of
        Some u \<Rightarrow> (c, u)
      | None \<Rightarrow> (c\<lparr>mc_streamUsage := AList.update streamID 0 (mc_streamUsage c)\<rparr>, 0))"

text \<open>The label \<^verbatim>\<open>checkStreamLimit\<close>, reached with the global reservation made.\<close>

definition mc_checkStreamLimit :: "string \<Rightarrow> int \<Rightarrow> Controller \<Rightarrow> Controller \<times> mem_error option" where
  "mc_checkStreamLimit streamID n c =
     (let (c, u) = mc_getOrCreateStreamUsage streamID c;
          newU = i64 (u + n)
      in if newU > mc_perStreamLimit c
         then (c\<lparr>mc_streamUsage := AList.update streamID (i64 (newU + - n)) (mc_streamUsage c),
                 mc_usage := i64 (mc_usage c + - n)\<rparr>, Some ErrStreamMemoryLimit)
         else (c\<lparr>mc_streamUsage := AList.update streamID newU (mc_streamUsage c),
                 mc_allocationCount := mc_allocationCount c + 1\<rparr>, None))"

type_synonym notice = "string \<times> int"

fun mc_evict_loop :: "string list \<Rightarrow> int \<Rightarrow> notice list \<Rightarrow> Controller \<Rightarrow> Controller \<times> int \<times> notice list" where
  "mc_evict_loop [] totalEvicted ns c = (c, totalEvicted, ns)"
| "mc_evict_loop (streamID # ids) totalEvicted ns c =
     (case map_of (mc_streamUsage c) streamID of
        None \<Rightarrow> mc_evict_loop ids totalEvicted ns c
      | Some before \<Rightarrow>
          (let c = c\<lparr>mc_streamUsage := AList.update streamID 0 (mc_streamUsage c)\<rparr>;
               (c, totalEvicted) =
                 (if before > 0
                  then (c\<lparr>mc_usage := i64 (mc_usage c + - before)\<rparr>, i64 (totalEvicted + before))
                  else (c, totalEvicted))
           in mc_evict_loop ids totalEvicted (ns @ [(streamID, before)])
                (c\<lparr>mc_evictionCount := mc_evictionCount c + 1\<rparr>)))"

definition mc_stream_infos :: "nanos \<Rightarrow> Controller \<Rightarrow> StreamInfo list" where
  "mc_stream_infos now c =
     map (\<lambda>(k, u). st_GetStreamInfo now (mc_streamTracker c) k u)
       (filter (\<lambda>(k, u). u > 0) (mc_streamUsage c))"

definition mc_evictMemory :: "nanos \<Rightarrow> int \<Rightarrow> Controller \<Rightarrow> Controller \<times> int \<times> notice list" where
  "mc_evictMemory now targetSize c =
     (if \<not> mc_evictionCallback c then (c, 0, [])
      else
        (let streams = mc_stream_infos now c in
         if streams = [] then (c, 0, [])
         else mc_evict_loop (mc_evictionStrategy c now streams targetSize) 0 [] c))"

definition mc_RequestMemory ::
  "(int \<Rightarrow> int \<Rightarrow> bool) \<Rightarrow> nanos \<Rightarrow> string \<Rightarrow> int \<Rightarrow> Controller \<Rightarrow> Controller \<times> mem_error option \<times> notice list" where
  "mc_RequestMemory over now streamID n c =
     (let checkStreamLimit = (\<lambda>ns c. let (c, e) = mc_checkStreamLimit streamID n c in (c, e, ns));
          newUsage = i64 (mc_usage c + n)
      in if newUsage > mc_maxMemory c then
           (let c = c\<lparr>mc_usage := i64 (newUsage + - n)\<rparr>;
                gc = now - mc_lastGCTime c > 10 * second;
                c = (if gc then c\<lparr>mc_lastGCTime := now\<rparr> else c);
                retry = i64 (mc_usage c + n)
            in if gc \<and> retry \<le> mc_maxMemory c
               then checkStreamLimit [] (c\<lparr>mc_usage := retry\<rparr>)
               else
                 (let c = (if gc then c\<lparr>mc_usage := i64 (retry + - n)\<rparr> else c) in
                  if over (mc_usage c) (mc_maxMemory c) then
                    (let (c, evicted, ns) = mc_evictMemory now n c;
                         retry = i64 (mc_usage c + n)
                     in if evicted > 0 then
                          if retry \<le> mc_maxMemory c
                          then checkStreamLimit ns (c\<lparr>mc_usage := retry\<rparr>)
                          else (c\<lparr>mc_usage := i64 (retry + - n)\<rparr>, Some ErrGlobalMemoryLimit, ns)
                        else (c, Some ErrGlobalMemoryLimit, ns))
                  else (c, Some ErrGlobalMemoryLimit, [])))
         else checkStreamLimit [] (c\<lparr>mc_usage := newUsage\<rparr>))"

definition mc_ReleaseMemory :: "string \<Rightarrow> int \<Rightarrow> Controller \<Rightarrow> Controller" where
  "mc_ReleaseMemory streamID n c =
     (case map_of (mc_streamUsage c) streamID of
        None \<Rightarrow> c
      | Some old \<Rightarrow>
          (let c = (if old \<le> 0 then c
                    else if old \<ge> n
                    then c\<lparr>mc_streamUsage := AList.update streamID (i64 (old - n)) (mc_streamUsage c),
                           mc_usage := i64 (mc_usage c + - n)\<rparr>
                    else c\<lparr>mc_streamUsage := AList.update streamID 0 (mc_streamUsage c),
                           mc_usage := i64 (mc_usage c + - old)\<rparr>)
           in c\<lparr>mc_releaseCount := mc_releaseCount c + 1\<rparr>))"

definition mc_GetStreamUsage :: "string \<Rightarrow> Controller \<Rightarrow> int" where
  "mc_GetStreamUsage streamID c =
     (case map_of (mc_streamUsage c) streamID of Some u \<Rightarrow> u | None \<Rightarrow> 0)"

definition mc_ResetStreamUsage :: "string \<Rightarrow> Controller \<Rightarrow> Controller" where
  "mc_ResetStreamUsage streamID c =
     (let c = (case map_of (mc_streamUsage c) streamID of
                 None \<Rightarrow> c
               | Some remaining \<Rightarrow>
                   (let c = c\<lparr>mc_streamUsage := AList.delete streamID (mc_streamUsage c)\<rparr>
                    in if remaining > 0 then c\<lparr>mc_usage := i64 (mc_usage c + - remaining)\<rparr> else c))
      in c\<lparr>mc_streamTracker := st_RemoveStream streamID (mc_streamTracker c)\<rparr>)"

definition mc_TrackStream :: "nanos \<Rightarrow> string \<Rightarrow> int \<Rightarrow> Controller \<Rightarrow> Controller" where
  "mc_TrackStream now streamID priority c =
     c\<lparr>mc_streamTracker := st_TrackStream now streamID priority (mc_streamTracker c)\<rparr>"

definition mc_UpdateStreamAccess :: "nanos \<Rightarrow> string \<Rightarrow> Controller \<Rightarrow> Controller" where
  "mc_UpdateStreamAccess now streamID c =
     c\<lparr>mc_streamTracker := st_UpdateAccess now streamID (mc_streamTracker c)\<rparr>"

definition mc_SetStreamActive :: "string \<Rightarrow> bool \<Rightarrow> Controller \<Rightarrow> Controller" where
  "mc_SetStreamActive streamID active c =
     c\<lparr>mc_streamTracker := st_SetActive streamID active (mc_streamTracker c)\<rparr>"

text \<open>\<^verbatim>\<open>Stats\<close> without the two floating-point ratios.\<close>

record MemoryStats =
  ms_GlobalUsage :: int
  ms_GlobalLimit :: int
  ms_PerStreamLimit :: int
  ms_ActiveStreams :: nat
  ms_StreamStats :: "(string \<times> int) list"
  ms_AllocationCount :: nat
  ms_ReleaseCount :: nat
  ms_EvictionCount :: nat

definition mc_Stats :: "Controller \<Rightarrow> MemoryStats" where
  "mc_Stats c =
     (let act = filter (\<lambda>(k, u). u > 0) (mc_streamUsage c)
      in \<lparr>ms_GlobalUsage = mc_usage c, ms_GlobalLimit = mc_maxMemory c,
          ms_PerStreamLimit = mc_perStreamLimit c, ms_ActiveStreams = length act,
          ms_StreamStats = act, ms_AllocationCount = mc_allocationCount c,
          ms_ReleaseCount = mc_releaseCount c, ms_EvictionCount = mc_evictionCount c\<rparr>)"

section \<open>Sequences of calls\<close>

datatype mc_call =
    Request nanos string int
  | Release string int
  | ResetUsage string
  | Track nanos string int
  | Access nanos string
  | SetAct string bool
  | SetCallback bool
  | SetStrategy EvictionStrategy

primrec mc_step :: "(int \<Rightarrow> int \<Rightarrow> bool) \<Rightarrow> mc_call \<Rightarrow> Controller \<Rightarrow> Controller" where
  "mc_step over (Request now k n) c = fst (mc_RequestMemory over now k n c)"
| "mc_step over (Release k n) c = mc_ReleaseMemory k n c"
| "mc_step over (ResetUsage k) c = mc_ResetStreamUsage k c"
| "mc_step over (Track now k p) c = mc_TrackStream now k p c"
| "mc_step over (Access now k) c = mc_UpdateStreamAccess now k c"
| "mc_step over (SetAct k b) c = mc_SetStreamActive k b c"
| "mc_step over (SetCallback b) c = mc_SetEvictionCallback b c"
| "mc_step over (SetStrategy f) c = mc_SetEvictionStrategy f c"

definition mc_run :: "(int \<Rightarrow> int \<Rightarrow> bool) \<Rightarrow> mc_call list \<Rightarrow> Controller \<Rightarrow> Controller" where
  "mc_run over calls c = fold (mc_step over) calls c"

section \<open>The accounting invariant\<close>

definition mc_acct :: "Controller \<Rightarrow> bool" where
  "mc_acct c \<longleftrightarrow> distinct (map fst (mc_streamUsage c)) \<and>
     (\<forall>(k, u) \<in> set (mc_streamUsage c). 0 \<le> u \<and> u \<le> mc_perStreamLimit c) \<and>
     0 \<le> mc_perStreamLimit c \<and> mc_perStreamLimit c < 2 ^ 62 \<and> mc_maxMemory c < 2 ^ 62 \<and>
     st_wf (mc_streamTracker c)"

text \<open>Between the global reservation and the stream check the global counter is ahead by the
  reserved amount \<open>d\<close>.\<close>

definition mc_inv_ahead :: "int \<Rightarrow> Controller \<Rightarrow> bool" where
  "mc_inv_ahead d c \<longleftrightarrow> mc_acct c \<and> mc_usage c = sum_usage (mc_streamUsage c) + d \<and>
     mc_usage c \<le> mc_maxMemory c"

abbreviation mc_inv :: "Controller \<Rightarrow> bool" where
  "mc_inv c \<equiv> mc_inv_ahead 0 c"

definition call_ok :: "mc_call \<Rightarrow> bool" where
  "call_ok call = (case call of Request now k n \<Rightarrow> 0 \<le> n \<and> n < 2 ^ 62
     | Release k n \<Rightarrow> 0 \<le> n \<and> n < 2 ^ 62 | _ \<Rightarrow> True)"

lemma mc_acct_update:
  "mc_acct c \<Longrightarrow> 0 \<le> v \<Longrightarrow> v \<le> mc_perStreamLimit c \<Longrightarrow> mc_streamUsage c' = AList.update k v (mc_streamUsage c) \<Longrightarrow>
   mc_perStreamLimit c' = mc_perStreamLimit c \<Longrightarrow> mc_maxMemory c' = mc_maxMemory c \<Longrightarrow>
   mc_streamTracker c' = mc_streamTracker c \<Longrightarrow> mc_acct c'"
  by (auto simp: mc_acct_def set_AList_update distinct_update)

lemma mc_acct_lookup:
  assumes "mc_acct c" and "map_of (mc_streamUsage c) k = Some u"
  shows "0 \<le> u" and "u \<le> mc_perStreamLimit c" and "u < 2 ^ 62"
proof -
  have "(k, u) \<in> set (mc_streamUsage c)" using assms(2) by (rule map_of_SomeD)
  then show "0 \<le> u" "u \<le> mc_perStreamLimit c" "u < 2 ^ 62" using assms(1) by (auto simp: mc_acct_def)
qed

lemma sum_usage_nonneg: "mc_acct c \<Longrightarrow> 0 \<le> sum_usage (mc_streamUsage c)"
  unfolding sum_usage_def mc_acct_def by (intro sum_list_nonneg) auto

lemma sum_usage_ge:
  "mc_acct c \<Longrightarrow> map_of (mc_streamUsage c) k = Some u \<Longrightarrow> u \<le> sum_usage (mc_streamUsage c)"
proof -
  assume a: "mc_acct c" and k: "map_of (mc_streamUsage c) k = Some u"
  have "u \<in> set (map snd (mc_streamUsage c))" using map_of_SomeD [OF k] by force
  moreover have "\<forall>x \<in> set (map snd (mc_streamUsage c)). 0 \<le> x" using a by (auto simp: mc_acct_def)
  ultimately show ?thesis unfolding sum_usage_def by (metis member_le_sum_list)
qed


section \<open>Every call keeps the accounts\<close>

lemma i64_small: "\<bar>x\<bar> < 2 ^ 63 \<Longrightarrow> i64 x = x"
  by (rule i64_id) auto

lemma mc_getOrCreate:
  assumes "mc_inv_ahead d c"
  obtains c' u where "mc_getOrCreateStreamUsage k c = (c', u)" and "mc_inv_ahead d c'"
    and "map_of (mc_streamUsage c') k = Some u" and "u = mc_GetStreamUsage k c"
    and "mc_maxMemory c' = mc_maxMemory c" and "mc_perStreamLimit c' = mc_perStreamLimit c"
    and "sum_usage (mc_streamUsage c') = sum_usage (mc_streamUsage c)" and "mc_usage c' = mc_usage c"
proof (cases "map_of (mc_streamUsage c) k")
  case (Some u)
  then show ?thesis using assms
    by (intro that [of c u]) (simp_all add: mc_getOrCreateStreamUsage_def mc_GetStreamUsage_def)
next
  case None
  let ?c = "c\<lparr>mc_streamUsage := AList.update k 0 (mc_streamUsage c)\<rparr>"
  have "mc_acct ?c" using assms
    by (intro mc_acct_update [of c 0 ?c k]) (simp_all add: mc_inv_ahead_def mc_acct_def)
  then show ?thesis using assms None
    by (intro that [of ?c 0])
      (simp_all add: mc_getOrCreateStreamUsage_def mc_GetStreamUsage_def mc_inv_ahead_def
        sum_usage_update_None update_conv')
qed

text \<open>The stream check either books the reservation on the stream or takes it back.\<close>

lemma mc_checkStreamLimit_cases:
  assumes "mc_inv_ahead n c" and "0 \<le> n" and "n < 2 ^ 62"
  obtains c' where "mc_checkStreamLimit k n c = (c', None)" and "mc_inv c'"
      and "mc_GetStreamUsage k c + n \<le> mc_perStreamLimit c"
      and "mc_GetStreamUsage k c' = mc_GetStreamUsage k c + n" and "mc_usage c' = mc_usage c"
  | c' where "mc_checkStreamLimit k n c = (c', Some ErrStreamMemoryLimit)" and "mc_inv c'"
      and "mc_GetStreamUsage k c + n > mc_perStreamLimit c"
      and "mc_GetStreamUsage k c' = mc_GetStreamUsage k c" and "mc_usage c' = mc_usage c - n"
proof -
  obtain c1 u where 1: "mc_getOrCreateStreamUsage k c = (c1, u)" "mc_inv_ahead n c1"
    "map_of (mc_streamUsage c1) k = Some u" "u = mc_GetStreamUsage k c"
    "mc_perStreamLimit c1 = mc_perStreamLimit c" "mc_usage c1 = mc_usage c"
    by (rule mc_getOrCreate [OF assms(1)])
  have acct: "mc_acct c1" using 1(2) by (simp add: mc_inv_ahead_def)
  note u = mc_acct_lookup [OF acct 1(3)]
  have s: "sum_usage (mc_streamUsage c1) \<ge> 0" using acct by (rule sum_usage_nonneg)
  have arith: "i64 (u + n) = u + n" "i64 (u + n + - n) = u" "i64 (mc_usage c1 + - n) = mc_usage c1 - n"
    using u assms(2,3) s 1(2) acct by (auto simp: mc_inv_ahead_def mc_acct_def intro!: i64_small)
  show ?thesis
  proof (cases "u + n > mc_perStreamLimit c1")
    case True
    let ?c = "c1\<lparr>mc_streamUsage := AList.update k u (mc_streamUsage c1), mc_usage := mc_usage c1 - n\<rparr>"
    have "mc_acct ?c" using u by (intro mc_acct_update [OF acct, of u ?c k]) simp_all
    then have "mc_inv ?c" using 1(2,3) assms(2) by (simp add: mc_inv_ahead_def sum_usage_update_Some)
    then show ?thesis using True 1 arith
      by (intro that(2) [of ?c]) (simp_all add: mc_checkStreamLimit_def mc_GetStreamUsage_def update_conv')
  next
    case False
    let ?c = "c1\<lparr>mc_streamUsage := AList.update k (u + n) (mc_streamUsage c1),
        mc_allocationCount := mc_allocationCount c1 + 1\<rparr>"
    have "mc_acct ?c" using u assms(2) False by (intro mc_acct_update [OF acct, of "u + n" ?c k]) simp_all
    then have "mc_inv ?c" using 1(2,3) by (simp add: mc_inv_ahead_def sum_usage_update_Some)
    then show ?thesis using False 1 arith
      by (intro that(1) [of ?c]) (simp_all add: mc_checkStreamLimit_def mc_GetStreamUsage_def update_conv')
  qed
qed

definition freed :: "string list \<Rightarrow> Controller \<Rightarrow> int" where
  "freed ids c = sum_list (map (\<lambda>k. mc_GetStreamUsage k c) ids)"

text \<open>The eviction loop moves what it evicts from the accounts to the total it reports.\<close>

lemma mc_evict_loop_inv:
  assumes "mc_inv c" and "0 \<le> tot" and "tot + sum_usage (mc_streamUsage c) < 2 ^ 63"
  shows "\<exists>c' ns' ev. mc_evict_loop ids tot ns c = (c', tot + ev, ns') \<and> mc_inv c' \<and> 0 \<le> ev \<and>
     mc_usage c' = mc_usage c - ev \<and> mc_maxMemory c' = mc_maxMemory c \<and>
     mc_perStreamLimit c' = mc_perStreamLimit c \<and> (distinct ids \<longrightarrow> ev = freed ids c)"
  using assms
proof (induction ids arbitrary: c tot ns)
  case Nil
  then show ?case by (auto simp: freed_def)
next
  case (Cons k ids)
  show ?case
  proof (cases "map_of (mc_streamUsage c) k")
    case None
    then show ?thesis using Cons.IH [OF Cons.prems, of ns]
      by (auto simp: freed_def mc_GetStreamUsage_def)
  next
    case (Some b)
    have acct: "mc_acct c" and us: "mc_usage c = sum_usage (mc_streamUsage c)" "mc_usage c \<le> mc_maxMemory c"
      using Cons.prems(1) by (auto simp: mc_inv_ahead_def)
    note b = mc_acct_lookup [OF acct Some] sum_usage_ge [OF acct Some]
    let ?c = "c\<lparr>mc_streamUsage := AList.update k 0 (mc_streamUsage c), mc_usage := mc_usage c - b,
        mc_evictionCount := mc_evictionCount c + 1\<rparr>"
    have step: "mc_evict_loop (k # ids) tot ns c = mc_evict_loop ids (tot + b) (ns @ [(k, b)]) ?c"
    proof -
      have "i64 (mc_usage c + - b) = mc_usage c - b" "i64 (tot + b) = tot + b"
        using b Cons.prems us acct by (auto simp: mc_acct_def intro!: i64_small)
      then show ?thesis using Some b(1) by (cases c) (auto simp: Let_def)
    qed
    have "mc_acct ?c" using acct by (intro mc_acct_update [OF acct, of 0 ?c k]) (simp_all add: mc_acct_def)
    then have inv: "mc_inv ?c" using us Some b by (simp add: mc_inv_ahead_def sum_usage_update_Some)
    have sum: "sum_usage (mc_streamUsage ?c) = sum_usage (mc_streamUsage c) - b"
      using Some by (simp add: sum_usage_update_Some)
    have same: "k \<notin> set ids \<Longrightarrow> freed ids ?c = freed ids c"
      unfolding freed_def by (rule arg_cong [where f = sum_list], rule map_cong)
        (auto simp: mc_GetStreamUsage_def update_conv')
    have "b + freed ids c = freed (k # ids) c" using Some by (simp add: freed_def mc_GetStreamUsage_def)
    moreover obtain c' ns' ev where "mc_evict_loop ids (tot + b) (ns @ [(k, b)]) ?c = (c', tot + b + ev, ns')"
      "mc_inv c'" "0 \<le> ev" "mc_usage c' = mc_usage c - b - ev" "mc_maxMemory c' = mc_maxMemory c"
      "mc_perStreamLimit c' = mc_perStreamLimit c" "distinct ids \<longrightarrow> ev = freed ids ?c"
      using Cons.IH [OF inv, of "tot + b" "ns @ [(k, b)]"] Cons.prems b sum by auto
    ultimately show ?thesis unfolding step using b same
      by (intro exI [of _ c'] exI [of _ ns'] exI [of _ "b + ev"]) auto
  qed
qed

text \<open>Collected stream infos meet the strategies' precondition, and their usages are the sum.\<close>

lemma st_GetStreamInfo_simps:
  assumes "st_wf t"
  shows "si_StreamID (st_GetStreamInfo now t k u) = k" "si_MemoryUsage (st_GetStreamInfo now t k u) = u"
  using assms by (auto simp: st_GetStreamInfo_def st_wf_def split: option.split)

lemma distinct_fst_filter: "distinct (map fst xs) \<Longrightarrow> distinct (map fst (filter P xs))"
  by (induction xs) auto

lemma sum_usage_pos: "\<forall>(k, u) \<in> set al. 0 \<le> u \<Longrightarrow> sum_usage (filter (\<lambda>(k, u). u > 0) al) = sum_usage al"
  by (induction al) (auto simp: sum_usage_def)

lemma mc_stream_infos_maps:
  assumes "st_wf (mc_streamTracker c)"
  shows "map si_StreamID (mc_stream_infos now c) = map fst (filter (\<lambda>(k, u). u > 0) (mc_streamUsage c))"
    and "map si_MemoryUsage (mc_stream_infos now c) = map snd (filter (\<lambda>(k, u). u > 0) (mc_streamUsage c))"
  using st_GetStreamInfo_simps [OF assms]
  by (auto simp: mc_stream_infos_def)

lemma mc_stream_infos_ok:
  assumes "mc_inv c"
  shows "si_wf (mc_stream_infos now c)" and "usages (mc_stream_infos now c) = mc_usage c"
proof -
  have acct: "mc_acct c" and us: "mc_usage c = sum_usage (mc_streamUsage c)" "mc_usage c \<le> mc_maxMemory c"
    using assms by (auto simp: mc_inv_ahead_def)
  have "st_wf (mc_streamTracker c)" using acct by (simp add: mc_acct_def)
  note maps = mc_stream_infos_maps [OF this, of now]
  have "usages (mc_stream_infos now c) = sum_usage (filter (\<lambda>(k, u). u > 0) (mc_streamUsage c))"
    by (simp add: maps sum_usage_def)
  also have "\<dots> = sum_usage (mc_streamUsage c)"
    using acct by (intro sum_usage_pos) (auto simp: mc_acct_def)
  finally show sum: "usages (mc_stream_infos now c) = mc_usage c" using us by simp
  have "distinct (map si_StreamID (mc_stream_infos now c))"
    using acct by (simp add: maps distinct_fst_filter mc_acct_def)
  moreover have "\<forall>u \<in> set (map si_MemoryUsage (mc_stream_infos now c)). 0 \<le> u" by (auto simp: maps)
  moreover have "mc_maxMemory c < 2 ^ 62" using acct by (simp add: mc_acct_def)
  ultimately show "si_wf (mc_stream_infos now c)" using sum us by (auto simp: si_wf_def)
qed

lemma usage_of_freed:
  assumes "mc_inv c" and "distinct ids" and "set ids \<subseteq> si_StreamID ` set (mc_stream_infos now c)"
  shows "usage_of (mc_stream_infos now c) ids = freed ids c"
proof -
  let ?ss = "mc_stream_infos now c"
  have acct: "mc_acct c" using assms(1) by (simp add: mc_inv_ahead_def)
  have wf: "distinct (map si_StreamID ?ss)" using mc_stream_infos_ok(1) [OF assms(1)] by (simp add: si_wf_def)
  have look: "mc_GetStreamUsage (si_StreamID s) c = si_MemoryUsage s" if s: "s \<in> set ?ss" for s
  proof -
    obtain k u where ku: "(k, u) \<in> set (mc_streamUsage c)" "s = st_GetStreamInfo now (mc_streamTracker c) k u"
      using s by (auto simp: mc_stream_infos_def)
    then have "map_of (mc_streamUsage c) k = Some u" using acct by (simp add: mc_acct_def)
    then show ?thesis using ku(2) acct
      by (simp add: mc_GetStreamUsage_def st_GetStreamInfo_simps mc_acct_def)
  qed
  have "usage_of ?ss ids = sum si_MemoryUsage (set (filter (\<lambda>s. si_StreamID s \<in> set ids) ?ss))"
    unfolding usage_of_def using wf by (intro sum_list_distinct_conv_sum_set distinct_filter) (simp add: distinct_map)
  also have "\<dots> = sum (\<lambda>s. mc_GetStreamUsage (si_StreamID s) c) {s \<in> set ?ss. si_StreamID s \<in> set ids}"
    by (rule sum.cong) (auto simp: look)
  also have "\<dots> = sum (\<lambda>k. mc_GetStreamUsage k c) (set ids)"
  proof -
    let ?S = "{s \<in> set ?ss. si_StreamID s \<in> set ids}"
    have "inj_on si_StreamID ?S" using wf by (auto simp: distinct_map inj_on_def)
    then have "sum (\<lambda>k. mc_GetStreamUsage k c) (si_StreamID ` ?S) =
        sum (\<lambda>s. mc_GetStreamUsage (si_StreamID s) c) ?S" by (simp add: sum.reindex)
    moreover have "si_StreamID ` ?S = set ids" using assms(3) by auto
    ultimately show ?thesis by simp
  qed
  also have "\<dots> = freed ids c"
    unfolding freed_def using assms(2) by (simp add: sum_list_distinct_conv_sum_set)
  finally show ?thesis .
qed

lemma mc_evictMemory_inv:
  assumes "mc_inv c"
  obtains c' ns ev where "mc_evictMemory now n c = (c', ev, ns)" and "mc_inv c'" and "0 \<le> ev"
    and "mc_usage c' = mc_usage c - ev" and "mc_maxMemory c' = mc_maxMemory c"
    and "mc_perStreamLimit c' = mc_perStreamLimit c"
    and "mc_evictionCallback c \<Longrightarrow> eviction_strategy (mc_evictionStrategy c now) \<Longrightarrow> min n (mc_usage c) \<le> ev"
proof -
  let ?ss = "mc_stream_infos now c" and ?ids = "mc_evictionStrategy c now (mc_stream_infos now c) n"
  note ok = mc_stream_infos_ok [OF assms, of now]
  have small: "0 + sum_usage (mc_streamUsage c) < 2 ^ 63"
    using assms by (auto simp: mc_inv_ahead_def mc_acct_def)
  obtain c1 n1 ev where 1: "mc_evict_loop ?ids 0 [] c = (c1, ev, n1)" "mc_inv c1" "0 \<le> ev"
    "mc_usage c1 = mc_usage c - ev" "mc_maxMemory c1 = mc_maxMemory c"
    "mc_perStreamLimit c1 = mc_perStreamLimit c" "distinct ?ids \<longrightarrow> ev = freed ?ids c"
    using mc_evict_loop_inv [OF assms order.refl small, of ?ids "[]"] by auto
  show ?thesis
  proof (cases "mc_evictionCallback c \<and> ?ss \<noteq> []")
    case True
    have "min n (mc_usage c) \<le> ev" if s: "eviction_strategy (mc_evictionStrategy c now)"
      using eviction_strategy.select_distinct [OF s ok(1), of n] eviction_strategy.select_known [OF s ok(1), of n]
        eviction_strategy.select_enough [OF s ok(1), of n] usage_of_freed [OF assms] 1(7) ok(2) by simp
    then show ?thesis using True 1 by (intro that [of c1 ev n1]) (simp_all add: mc_evictMemory_def Let_def)
  next
    case False
    then have "mc_evictionCallback c \<Longrightarrow> mc_usage c = 0" using ok(2) by auto
    then show ?thesis using False assms by (intro that [of c 0 "[]"]) (auto simp: mc_evictMemory_def Let_def)
  qed
qed

text \<open>A request ends in one of three ways.  Up to eviction, which only lowers the usage, the
  global check is exact.\<close>

lemma mc_RequestMemory_cases:
  assumes inv: "mc_inv c" and n: "0 \<le> n" "n < 2 ^ 62"
  obtains c1 ns where "mc_inv_ahead n c1" and "mc_maxMemory c1 = mc_maxMemory c"
      and "mc_perStreamLimit c1 = mc_perStreamLimit c"
      and "mc_usage c + n \<le> mc_maxMemory c \<Longrightarrow> c1 = c\<lparr>mc_usage := mc_usage c + n\<rparr>"
      and "mc_RequestMemory over now k n c =
        (let (c', e) = mc_checkStreamLimit k n c1 in (c', e, ns))"
  | c1 ns where "mc_inv c1" and "mc_usage c + n > mc_maxMemory c" and "mc_maxMemory c1 = mc_maxMemory c"
      and "mc_RequestMemory over now k n c = (c1, Some ErrGlobalMemoryLimit, ns)"
      and "over (mc_usage c) (mc_maxMemory c) \<Longrightarrow> mc_evictionCallback c \<Longrightarrow>
        eviction_strategy (mc_evictionStrategy c now) \<Longrightarrow> n > mc_maxMemory c"
proof -
  have us: "mc_usage c = sum_usage (mc_streamUsage c)" "mc_usage c \<le> mc_maxMemory c" "0 \<le> mc_usage c"
    "mc_maxMemory c < 2 ^ 62"
    using inv sum_usage_nonneg by (auto simp: mc_inv_ahead_def mc_acct_def)
  then have ar: "i64 (mc_usage c + n) = mc_usage c + n" using n by (intro i64_small) auto
  show ?thesis
  proof (cases "mc_usage c + n > mc_maxMemory c")
    case False
    have "mc_inv_ahead n (c\<lparr>mc_usage := mc_usage c + n\<rparr>)"
      using inv False by (simp add: mc_inv_ahead_def mc_acct_def)
    then show ?thesis using False ar
      by (intro that(1) [of "c\<lparr>mc_usage := mc_usage c + n\<rparr>" "[]"]) (simp_all add: mc_RequestMemory_def Let_def)
  next
    case True
    define c0 where "c0 = (if now - mc_lastGCTime c > 10 * second then c\<lparr>mc_lastGCTime := now\<rparr> else c)"
    have c0: "mc_inv c0" "mc_usage c0 = mc_usage c" "mc_maxMemory c0 = mc_maxMemory c"
      "mc_perStreamLimit c0 = mc_perStreamLimit c" "mc_evictionCallback c0 = mc_evictionCallback c"
      "mc_evictionStrategy c0 = mc_evictionStrategy c"
      using inv by (auto simp: c0_def mc_inv_ahead_def mc_acct_def)
    obtain c2 ns ev where 2: "mc_evictMemory now n c0 = (c2, ev, ns)" "mc_inv c2" "0 \<le> ev"
      "mc_usage c2 = mc_usage c - ev" "mc_maxMemory c2 = mc_maxMemory c"
      "mc_perStreamLimit c2 = mc_perStreamLimit c"
      "mc_evictionCallback c \<Longrightarrow> eviction_strategy (mc_evictionStrategy c now) \<Longrightarrow> min n (mc_usage c) \<le> ev"
      using mc_evictMemory_inv [OF c0(1), of now n] c0 by metis
    have ar2: "i64 (mc_usage c2 + n) = mc_usage c2 + n" "i64 (mc_usage c) = mc_usage c"
      "i64 (mc_usage c2) = mc_usage c2"
      using us n 2(2-5) sum_usage_nonneg [of c2]
      by (auto simp: mc_inv_ahead_def intro!: i64_small)
    have c0_eq: "c\<lparr>mc_usage := mc_usage c\<rparr> = c" "c0\<lparr>mc_usage := mc_usage c\<rparr> = c0"
      "c2\<lparr>mc_usage := mc_usage c2\<rparr> = c2" using c0(2) by (cases c; cases c0; cases c2; simp)+
    have run: "mc_RequestMemory over now k n c =
        (if over (mc_usage c) (mc_maxMemory c)
         then if ev > 0 then if mc_usage c2 + n \<le> mc_maxMemory c
           then (let (c', e) = mc_checkStreamLimit k n (c2\<lparr>mc_usage := mc_usage c2 + n\<rparr>) in (c', e, ns))
           else (c2, Some ErrGlobalMemoryLimit, ns) else (c2, Some ErrGlobalMemoryLimit, ns)
         else (c0, Some ErrGlobalMemoryLimit, []))"
      using True ar ar2 2(1,5) c0_eq c0(2,3) unfolding mc_RequestMemory_def Let_def c0_def
      by (simp split: if_splits)
    have ahead: "mc_inv_ahead n (c2\<lparr>mc_usage := mc_usage c2 + n\<rparr>)" if "mc_usage c2 + n \<le> mc_maxMemory c"
      using that 2 by (simp add: mc_inv_ahead_def mc_acct_def)
    show ?thesis
    proof (cases "over (mc_usage c) (mc_maxMemory c) \<and> ev > 0 \<and> mc_usage c2 + n \<le> mc_maxMemory c")
      case acc: True
      then show ?thesis using run ahead 2 True
        by (intro that(1) [of "c2\<lparr>mc_usage := mc_usage c2 + n\<rparr>" ns]) simp_all
    next
      case rej: False
      define c3 where "c3 = (if over (mc_usage c) (mc_maxMemory c) then c2 else c0)"
      define n3 where "n3 = (if over (mc_usage c) (mc_maxMemory c) then ns else [])"
      have "mc_RequestMemory over now k n c = (c3, Some ErrGlobalMemoryLimit, n3)"
        using run rej by (auto simp: c3_def n3_def)
      moreover have "n > mc_maxMemory c" if "over (mc_usage c) (mc_maxMemory c)" "mc_evictionCallback c"
        "eviction_strategy (mc_evictionStrategy c now)"
        using 2(7) [OF that(2,3)] rej that(1) 2(3,4) True us by (auto simp: min_def split: if_splits)
      ultimately show ?thesis using 2 c0 True
        by (intro that(2) [of c3 n3]) (auto simp: c3_def)
    qed
  qed
qed

lemma mc_RequestMemory_inv:
  assumes "mc_inv c" and "0 \<le> n" "n < 2 ^ 62"
  shows "mc_inv (fst (mc_RequestMemory over now k n c))"
  using assms
proof (rule mc_RequestMemory_cases [where over = over and now = now and k = k])
  fix c1 ns assume "mc_inv_ahead n c1"
    "mc_RequestMemory over now k n c = (let (c', e) = mc_checkStreamLimit k n c1 in (c', e, ns))"
  then show ?thesis
    by (cases rule: mc_checkStreamLimit_cases [OF \<open>mc_inv_ahead n c1\<close> assms(2,3), of k]) auto
qed simp

lemma mc_ReleaseMemory_inv:
  assumes "mc_inv c" and "0 \<le> n" "n < 2 ^ 62"
  shows "mc_inv (mc_ReleaseMemory k n c)"
    and "mc_GetStreamUsage k (mc_ReleaseMemory k n c) = max 0 (mc_GetStreamUsage k c - n)"
    and "mc_usage (mc_ReleaseMemory k n c) = mc_usage c - min n (mc_GetStreamUsage k c)"
proof -
  have acct: "mc_acct c" and us: "mc_usage c = sum_usage (mc_streamUsage c)" "mc_usage c \<le> mc_maxMemory c"
    and mx: "mc_maxMemory c < 2 ^ 62"
    using assms by (auto simp: mc_inv_ahead_def mc_acct_def)
  have "mc_inv (mc_ReleaseMemory k n c) \<and>
    mc_GetStreamUsage k (mc_ReleaseMemory k n c) = max 0 (mc_GetStreamUsage k c - n) \<and>
    mc_usage (mc_ReleaseMemory k n c) = mc_usage c - min n (mc_GetStreamUsage k c)"
  proof (cases "map_of (mc_streamUsage c) k")
    case None
    then show ?thesis using assms by (simp add: mc_ReleaseMemory_def mc_GetStreamUsage_def)
  next
    case (Some old)
    note old = mc_acct_lookup [OF acct Some] sum_usage_ge [OF acct Some]
    let ?v = "if old \<ge> n then old - n else 0"
    let ?c = "c\<lparr>mc_streamUsage := AList.update k ?v (mc_streamUsage c), mc_usage := mc_usage c - min n old,
        mc_releaseCount := mc_releaseCount c + 1\<rparr>"
    show ?thesis
    proof (cases "old = 0")
      case True
      then show ?thesis using Some assms(1,2)
        by (auto simp: mc_ReleaseMemory_def mc_GetStreamUsage_def mc_inv_ahead_def mc_acct_def)
    next
      case False
      have "i64 (old - n) = old - n" "i64 (mc_usage c + - n) = mc_usage c - n" "i64 (mc_usage c + - old) = mc_usage c - old"
        using old assms(2,3) us mx by (auto intro!: i64_small)
      then have eq: "mc_ReleaseMemory k n c = ?c"
        using False Some old by (auto simp: mc_ReleaseMemory_def min_def)
      have "mc_acct ?c" using old assms(2) by (intro mc_acct_update [OF acct, of ?v ?c k]) auto
      moreover have "sum_usage (mc_streamUsage ?c) = sum_usage (mc_streamUsage c) - min n old"
        using Some by (auto simp: sum_usage_update_Some)
      ultimately have "mc_inv ?c" using us assms(2) old by (simp add: mc_inv_ahead_def)
      then show ?thesis unfolding eq using Some old assms(2)
        by (auto simp: mc_GetStreamUsage_def update_conv')
    qed
  qed
  then show "mc_inv (mc_ReleaseMemory k n c)"
    "mc_GetStreamUsage k (mc_ReleaseMemory k n c) = max 0 (mc_GetStreamUsage k c - n)"
    "mc_usage (mc_ReleaseMemory k n c) = mc_usage c - min n (mc_GetStreamUsage k c)" by auto
qed

lemma st_wf_ops:
  "st_wf t \<Longrightarrow> st_wf (st_TrackStream now k p t)" "st_wf t \<Longrightarrow> st_wf (st_UpdateAccess now k t)"
  "st_wf t \<Longrightarrow> st_wf (st_SetActive k b t)" "st_wf t \<Longrightarrow> st_wf (st_RemoveStream k t)"
  by (auto simp: st_wf_def st_TrackStream_def st_UpdateAccess_def st_SetActive_def st_RemoveStream_def
      split: option.split)

lemma mc_ResetStreamUsage_inv:
  assumes "mc_inv c"
  shows "mc_inv (mc_ResetStreamUsage k c)"
proof (cases "map_of (mc_streamUsage c) k")
  case None
  then show ?thesis using assms
    by (simp add: mc_ResetStreamUsage_def mc_inv_ahead_def mc_acct_def st_wf_ops)
next
  case (Some r)
  have acct: "mc_acct c" and us: "mc_usage c = sum_usage (mc_streamUsage c)" "mc_usage c \<le> mc_maxMemory c"
    and mx: "mc_maxMemory c < 2 ^ 62"
    using assms by (auto simp: mc_inv_ahead_def mc_acct_def)
  note r = mc_acct_lookup [OF acct Some] sum_usage_ge [OF acct Some]
  have "i64 (mc_usage c + - r) = mc_usage c - r" using r us mx by (auto intro!: i64_small)
  then have eq: "mc_ResetStreamUsage k c = c\<lparr>mc_streamUsage := AList.delete k (mc_streamUsage c),
      mc_usage := mc_usage c - r, mc_streamTracker := st_RemoveStream k (mc_streamTracker c)\<rparr>"
    using Some r(1) by (cases c) (auto simp: mc_ResetStreamUsage_def Let_def)
  have "set (AList.delete k (mc_streamUsage c)) \<subseteq> set (mc_streamUsage c)"
    by (auto simp: AList.delete_eq)
  moreover have "sum_usage (AList.delete k (mc_streamUsage c)) = sum_usage (mc_streamUsage c) - r"
    using acct Some by (intro sum_usage_delete) (simp_all add: mc_acct_def)
  ultimately show ?thesis unfolding eq using acct us r
    by (auto simp: mc_inv_ahead_def mc_acct_def distinct_delete st_wf_ops)
qed

lemma mc_step_inv:
  assumes "mc_inv c" and "call_ok call"
  shows "mc_inv (mc_step over call c)"
proof (cases call)
  case (ResetUsage k)
  then show ?thesis using assms by (simp add: mc_ResetStreamUsage_inv)
next
  case (Request now k n)
  then show ?thesis using assms by (simp add: call_ok_def mc_RequestMemory_inv)
next
  case (Release k n)
  then show ?thesis using assms by (simp add: call_ok_def mc_ReleaseMemory_inv)
qed (use assms in \<open>simp_all add: mc_inv_ahead_def mc_acct_def st_wf_ops mc_TrackStream_def mc_UpdateStreamAccess_def mc_SetStreamActive_def
    mc_SetEvictionCallback_def mc_SetEvictionStrategy_def\<close>)

text \<open>No call changes the two limits.\<close>

abbreviation limits :: "Controller \<Rightarrow> int \<times> int" where
  "limits c \<equiv> (mc_maxMemory c, mc_perStreamLimit c)"

lemma limits_checkStreamLimit: "mc_checkStreamLimit k n c = (c', e) \<Longrightarrow> limits c' = limits c"
  by (auto simp: mc_checkStreamLimit_def mc_getOrCreateStreamUsage_def Let_def split: option.splits if_splits)

lemma limits_evict_loop: "mc_evict_loop ids tot ns c = (c', ev, ns') \<Longrightarrow> limits c' = limits c"
  by (induction ids tot ns c rule: mc_evict_loop.induct) (auto simp: Let_def split: option.splits if_splits)

lemma limits_evictMemory: "mc_evictMemory now n c = (c', ev, ns) \<Longrightarrow> limits c' = limits c"
  by (auto simp: mc_evictMemory_def Let_def dest: limits_evict_loop split: if_splits)

lemma limits_RequestMemory: "limits (fst (mc_RequestMemory over now k n c)) = limits c"
proof -
  have "limits (fst (mc_checkStreamLimit k n c)) = limits c" for c
    using limits_checkStreamLimit [of k n c] by (metis prod.collapse)
  moreover have "limits (fst (mc_evictMemory now n c)) = limits c" for c
    using limits_evictMemory [of now n c] by (metis prod.collapse)
  ultimately show ?thesis by (simp add: mc_RequestMemory_def Let_def case_prod_beta)
qed

lemma limits_step: "limits (mc_step over call c) = limits c"
proof (cases call)
  case (Request now k n)
  then show ?thesis using limits_RequestMemory by simp
qed (auto simp: mc_ReleaseMemory_def mc_ResetStreamUsage_def mc_TrackStream_def mc_UpdateStreamAccess_def
    mc_SetStreamActive_def mc_SetEvictionCallback_def mc_SetEvictionStrategy_def Let_def split: option.splits)

lemma mc_run_inv:
  "mc_inv c \<Longrightarrow> list_all call_ok calls \<Longrightarrow> mc_inv (mc_run over calls c) \<and> limits (mc_run over calls c) = limits c"
proof (induction calls arbitrary: c)
  case (Cons call calls)
  then show ?case using limits_step [of over call c] mc_step_inv [of c call over] by (simp add: mc_run_def)
qed (simp add: mc_run_def)

lemma mc_inv_New:
  "0 \<le> maxMemory \<Longrightarrow> maxMemory < 2 ^ 62 \<Longrightarrow> 0 \<le> perStreamLimit \<Longrightarrow> perStreamLimit < 2 ^ 62 \<Longrightarrow>
   mc_inv (NewController hybrid now maxMemory perStreamLimit)"
  by (simp add: mc_inv_ahead_def mc_acct_def NewController_def sum_usage_def st_wf_def NewStreamTracker_def)

lemma mc_GetStreamUsage_nonneg: "mc_inv c \<Longrightarrow> 0 \<le> mc_GetStreamUsage k c"
  using mc_acct_lookup(1) [of c k]
  by (auto simp: mc_GetStreamUsage_def mc_inv_ahead_def split: option.split)

text \<open>A granted request that fits the budget is booked on the stream and globally.\<close>

lemma request_booked:
  assumes "mc_inv c" and "0 \<le> n" "n < 2 ^ 62" and "mc_usage c + n \<le> mc_maxMemory c"
    and "mc_RequestMemory over now k n c = (c', None, ns)"
  shows "mc_GetStreamUsage k c' = mc_GetStreamUsage k c + n \<and> mc_usage c' = mc_usage c + n"
  using assms(1-3)
proof (rule mc_RequestMemory_cases [where over = over and now = now and k = k])
  fix c1 ns assume *: "mc_inv_ahead n c1"
    "mc_RequestMemory over now k n c = (let (c', e) = mc_checkStreamLimit k n c1 in (c', e, ns))"
    "mc_usage c + n \<le> mc_maxMemory c \<Longrightarrow> c1 = c\<lparr>mc_usage := mc_usage c + n\<rparr>"
  have "mc_GetStreamUsage k c1 = mc_GetStreamUsage k c" "mc_usage c1 = mc_usage c + n"
    using *(3) assms(4) by (simp_all add: mc_GetStreamUsage_def)
  then show ?thesis using *(2) assms(5)
    by (cases rule: mc_checkStreamLimit_cases [OF *(1) assms(2,3), of k]) auto
qed (use assms(5) in simp)

section \<open>Properties\<close>

text \<open>C2: after any sequence of calls on a new controller, with non-negative request and release
  sizes below 2 to the 62, the global counter is the sum of the stream counters, it never exceeds
  the budget, and no stream exceeds the per-stream limit; whatever the eviction strategy is.\<close>

theorem memory_accounts_balance:
  assumes "0 \<le> maxMemory" "maxMemory < 2 ^ 62" "0 \<le> perStreamLimit" "perStreamLimit < 2 ^ 62"
    and "list_all call_ok calls"
  shows "mc_usage (mc_run over calls (NewController hybrid now maxMemory perStreamLimit)) =
      sum_usage (mc_streamUsage (mc_run over calls (NewController hybrid now maxMemory perStreamLimit))) \<and>
    mc_usage (mc_run over calls (NewController hybrid now maxMemory perStreamLimit)) \<le> maxMemory \<and>
    mc_GetStreamUsage k (mc_run over calls (NewController hybrid now maxMemory perStreamLimit)) \<in> {0..perStreamLimit}"
proof -
  let ?c = "mc_run over calls (NewController hybrid now maxMemory perStreamLimit)"
  have inv: "mc_inv ?c" and lim: "limits ?c = (maxMemory, perStreamLimit)"
    using mc_run_inv [OF mc_inv_New assms(5)] assms(1-4) by (auto simp: NewController_def)
  have "mc_GetStreamUsage k ?c \<in> {0..perStreamLimit}"
    using mc_acct_lookup [of ?c k] inv lim assms(3)
    by (auto simp: mc_GetStreamUsage_def mc_inv_ahead_def split: option.split)
  then show ?thesis using inv lim by (auto simp: mc_inv_ahead_def)
qed

theorem memory_accounts_balance_witness:
  "mc_usage (mc_run (\<lambda>u m. 5 * u > 4 * m) [Request 1 ''a'' 60, Release ''a'' 20, Request 2 ''b'' 30, ResetUsage ''a'']
     (NewController (\<lambda>_. LRU_SelectStreamsForEviction insertion_sort) 0 100 70)) \<le> 100"
  using memory_accounts_balance [of 100 70
      "[Request 1 ''a'' 60, Release ''a'' 20, Request 2 ''b'' 30, ResetUsage ''a'']"
      "\<lambda>u m. 5 * u > 4 * m" "\<lambda>_. LRU_SelectStreamsForEviction insertion_sort" 0 "''a''"]
  by (simp add: call_ok_def)

text \<open>C39: when the usage is over the pressure threshold, an eviction callback is installed and the
  strategy fulfils its contract, a request of at most the whole budget is never refused for the
  global limit: eviction makes enough room.\<close>

theorem eviction_makes_room:
  assumes "mc_inv c" and "0 \<le> n" "n < 2 ^ 62" and "n \<le> mc_maxMemory c"
    and "over (mc_usage c) (mc_maxMemory c)" and "mc_evictionCallback c"
    and "eviction_strategy (mc_evictionStrategy c now)"
  shows "fst (snd (mc_RequestMemory over now k n c)) \<noteq> Some ErrGlobalMemoryLimit"
  using assms(1-3)
proof (rule mc_RequestMemory_cases [where over = over and now = now and k = k])
  fix c1 ns assume *: "mc_inv_ahead n c1"
    "mc_RequestMemory over now k n c = (let (c', e) = mc_checkStreamLimit k n c1 in (c', e, ns))"
  then show ?thesis
    by (cases rule: mc_checkStreamLimit_cases [OF *(1) assms(2,3), of k]) auto
qed (use assms in auto)

definition example_controller :: Controller where
  "example_controller = (NewController (\<lambda>_. LRU_SelectStreamsForEviction insertion_sort) 0 100 70)
     \<lparr>mc_usage := 90, mc_streamUsage := [(''a'', 60), (''b'', 30)], mc_evictionCallback := True\<rparr>"

lemma example_controller_inv: "mc_inv example_controller"
  by (simp add: example_controller_def NewController_def mc_inv_ahead_def mc_acct_def sum_usage_def
      st_wf_def NewStreamTracker_def)

theorem eviction_makes_room_witness:
  "fst (snd (mc_RequestMemory (\<lambda>u m. 5 * u > 4 * m) 7 ''c'' 50 example_controller)) \<noteq> Some ErrGlobalMemoryLimit"
  using eviction_makes_room [OF example_controller_inv, of 50 "\<lambda>u m. 5 * u > 4 * m" 7 "''c''"]
    insertion.lru.eviction_strategy_axioms
  by (simp add: example_controller_def NewController_def)

text \<open>a request that fits the budget is decided by the stream limit alone: it is granted and
  booked on both counters, or refused with both counters as they were.\<close>

theorem request_within_budget:
  assumes "mc_inv c" and "0 \<le> n" "n < 2 ^ 62" and "mc_usage c + n \<le> mc_maxMemory c"
  shows "\<exists>c' e ns. mc_RequestMemory over now k n c = (c', e, ns) \<and>
    (if mc_GetStreamUsage k c + n \<le> mc_perStreamLimit c
     then e = None \<and> mc_GetStreamUsage k c' = mc_GetStreamUsage k c + n \<and> mc_usage c' = mc_usage c + n
     else e = Some ErrStreamMemoryLimit \<and> mc_GetStreamUsage k c' = mc_GetStreamUsage k c \<and>
       mc_usage c' = mc_usage c)"
  using assms(1-3)
proof (rule mc_RequestMemory_cases [where over = over and now = now and k = k])
  fix c1 ns assume *: "mc_inv_ahead n c1"
    "mc_RequestMemory over now k n c = (let (c', e) = mc_checkStreamLimit k n c1 in (c', e, ns))"
    "mc_usage c + n \<le> mc_maxMemory c \<Longrightarrow> c1 = c\<lparr>mc_usage := mc_usage c + n\<rparr>"
  have "mc_GetStreamUsage k c1 = mc_GetStreamUsage k c" "mc_usage c1 = mc_usage c + n"
    "mc_perStreamLimit c1 = mc_perStreamLimit c"
    using *(3) assms(4) by (simp_all add: mc_GetStreamUsage_def)
  then show ?thesis using *(2)
    by (cases rule: mc_checkStreamLimit_cases [OF *(1) assms(2,3), of k]) auto
qed (use assms(4) in simp)

theorem request_within_budget_witness:
  "\<exists>c' ns. mc_RequestMemory (\<lambda>u m. 5 * u > 4 * m) 7 ''b'' 10 example_controller = (c', None, ns) \<and>
     mc_GetStreamUsage ''b'' c' = 40"
  using request_within_budget [OF example_controller_inv, of 10 "\<lambda>u m. 5 * u > 4 * m" 7 "''b''"]
  by (force simp add: example_controller_def NewController_def mc_GetStreamUsage_def)

end
