(* ===== verification/Sized_Buffer.thy ===== *)
theory Sized_Buffer
  imports Ring_Buffer Memory_Controller
begin

text \<open>
  The bitrate-sized buffer of \<^verbatim>\<open>internal/ingestion/buffer/sized.go\<close>.  It takes its storage
  from the memory controller when it is made and gives it back when it is closed; it
  keeps one byte free to tell a full buffer from an empty one.  Positions and counters
  are unbounded: the bitrate is capped at one gigabit per second, so no product of the
  source leaves the range of \<^verbatim>\<open>int64\<close>.
\<close>

section \<open>State and operations\<close>

record ProperSizedBuffer =
  sb_streamID :: string
  sb_bitrate :: int
  sb_data :: "byte list"
  sb_size :: nat
  sb_hotStart :: nat
  sb_warmStart :: int
  sb_coldStart :: int
  sb_writePos :: nat
  sb_readPos :: nat
  sb_allocated :: int
  sb_closed :: bool
  sb_totalWritten :: nat
  sb_totalRead :: nat
  sb_drops :: nat

definition minBitrate :: int where
  "minBitrate = 1000"

definition maxBitrate :: int where
  "maxBitrate = 1000000000"

datatype sized_error = ErrInvalidBitrate int | ErrBitrateBelowMinimum int | ErrAllocate mem_error

definition NewProperSizedBuffer ::
  "(int \<Rightarrow> int \<Rightarrow> bool) \<Rightarrow> nanos \<Rightarrow> string \<Rightarrow> int \<Rightarrow> Controller \<Rightarrow> Controller \<times> (sized_error + ProperSizedBuffer)" where
  "NewProperSizedBuffer over now streamID bitrate memCtrl =
     (if bitrate \<le> 0 then (memCtrl, Inl (ErrInvalidBitrate bitrate))
      else if bitrate < minBitrate then (memCtrl, Inl (ErrBitrateBelowMinimum bitrate))
      else
        (let bitrate = (if bitrate > maxBitrate then maxBitrate else bitrate);
             bytesPerSecond = bitrate div 8;
             totalSize = bytesPerSecond * 30;
             (memCtrl, err, ns) = mc_RequestMemory over now streamID totalSize memCtrl
         in case err of
              Some e \<Rightarrow> (memCtrl, Inl (ErrAllocate e))
            | None \<Rightarrow> (memCtrl, Inr
                \<lparr>sb_streamID = streamID, sb_bitrate = bitrate, sb_data = replicate (nat totalSize) 0,
                 sb_size = nat totalSize, sb_hotStart = 0, sb_warmStart = bytesPerSecond * 2,
                 sb_coldStart = bytesPerSecond * 10, sb_writePos = 0, sb_readPos = 0,
                 sb_allocated = totalSize, sb_closed = False, sb_totalWritten = 0,
                 sb_totalRead = 0, sb_drops = 0\<rparr>)))"

definition sb_Write :: "byte list \<Rightarrow> ProperSizedBuffer \<Rightarrow> (ProperSizedBuffer \<times> (buffer_error + nat)) outcome" where
  "sb_Write data sb =
     (if sb_closed sb then Ret (sb, Inl ErrBufferClosed)
      else
        (let dataLen = length data;
             writePos = sb_writePos sb;
             readPos = sb_readPos sb;
             available = (if writePos \<ge> readPos
               then int (sb_size sb) - int writePos + int readPos - 1
               else int readPos - int writePos - 1)
         in if int dataLen > available
            then Ret (sb\<lparr>sb_drops := sb_drops sb + dataLen\<rparr>, Inl (ErrBufferFullDetailed dataLen available))
            else
              (let d = (if writePos + dataLen \<le> sb_size sb then copy_at (sb_data sb) writePos data
                 else (let firstPart = sb_size sb - writePos
                       in copy_at (copy_at (sb_data sb) writePos (take firstPart data)) 0 (drop firstPart data)))
               in if sb_size sb = 0 then Panic
                  else Ret (sb\<lparr>sb_data := d, sb_writePos := (writePos + dataLen) mod sb_size sb,
                             sb_totalWritten := sb_totalWritten sb + dataLen\<rparr>, Inr dataLen))))"

text \<open>The bytes of \<^verbatim>\<open>k\<close> consecutive cells from a position, copied in one or two pieces.\<close>

definition sb_extract :: "byte list \<Rightarrow> nat \<Rightarrow> nat \<Rightarrow> nat \<Rightarrow> byte list" where
  "sb_extract d sz start k =
     (if start + k \<le> sz then gslice d start (start + k)
      else (let firstPart = sz - start in drop start d @ take (k - firstPart) d))"

definition sb_Read :: "nat \<Rightarrow> ProperSizedBuffer \<Rightarrow> (ProperSizedBuffer \<times> (buffer_error + byte list)) outcome" where
  "sb_Read want sb =
     (if sb_closed sb \<and> sb_writePos sb = sb_readPos sb then Ret (sb, Inl ErrBufferClosed)
      else if sb_writePos sb = sb_readPos sb \<and> \<not> sb_closed sb then Block
      else
        (let readPos = sb_readPos sb;
             writePos = sb_writePos sb;
             available = (if writePos > readPos then writePos - readPos
               else sb_size sb - readPos + writePos);
             toRead = (if want > available then available else want)
         in if sb_size sb = 0 then Panic
            else Ret (sb\<lparr>sb_readPos := (readPos + toRead) mod sb_size sb,
                        sb_totalRead := sb_totalRead sb + toRead\<rparr>,
                      Inr (sb_extract (sb_data sb) (sb_size sb) readPos toRead))))"

definition sb_GetHotData :: "ProperSizedBuffer \<Rightarrow> byte list outcome" where
  "sb_GetHotData sb =
     (let bytesPerSecond = sb_bitrate sb div 8;
          hotBytes = 2 * bytesPerSecond;
          startPos = int (sb_writePos sb) - hotBytes;
          startPos = (if startPos < 0 then startPos + int (sb_size sb) else startPos);
          totalData = int (sb_totalWritten sb) - int (sb_totalRead sb);
          (hotBytes, startPos) =
            (if totalData < hotBytes then (totalData, int (sb_readPos sb)) else (hotBytes, startPos))
      in if hotBytes < 0 \<or> startPos < 0 then Panic
         else Ret (sb_extract (sb_data sb) (sb_size sb) (nat startPos) (nat hotBytes)))"

definition sb_Close :: "ProperSizedBuffer \<Rightarrow> Controller \<Rightarrow> ProperSizedBuffer \<times> Controller \<times> buffer_error option" where
  "sb_Close sb memCtrl =
     (if sb_closed sb then (sb, memCtrl, Some ErrAlreadyClosed)
      else (sb\<lparr>sb_closed := True\<rparr>, mc_ReleaseMemory (sb_streamID sb) (sb_allocated sb) memCtrl, None))"

record ProperBufferStats =
  ps_StreamID :: string
  ps_Size :: nat
  ps_Used :: nat
  ps_Available :: int
  ps_TotalWritten :: nat
  ps_TotalRead :: nat
  ps_Drops :: nat
  ps_Bitrate :: int

definition sb_used :: "ProperSizedBuffer \<Rightarrow> nat" where
  "sb_used sb = (if sb_writePos sb \<ge> sb_readPos sb then sb_writePos sb - sb_readPos sb
                 else sb_size sb - sb_readPos sb + sb_writePos sb)"

definition sb_Stats :: "ProperSizedBuffer \<Rightarrow> ProperBufferStats" where
  "sb_Stats sb = \<lparr>ps_StreamID = sb_streamID sb, ps_Size = sb_size sb, ps_Used = sb_used sb,
     ps_Available = int (sb_size sb) - int (sb_used sb), ps_TotalWritten = sb_totalWritten sb,
     ps_TotalRead = sb_totalRead sb, ps_Drops = sb_drops sb, ps_Bitrate = sb_bitrate sb\<rparr>"

text \<open>\<^verbatim>\<open>GetPreview\<close>; as for the ring buffer the argument stands for the floating-point product.\<close>

fun sb_preview_loop :: "byte list \<Rightarrow> nat \<Rightarrow> nat \<Rightarrow> nat \<Rightarrow> byte list outcome" where
  "sb_preview_loop d sz 0 pos = Ret []"
| "sb_preview_loop d sz (Suc n) pos =
     (if pos < length d \<and> 0 < sz
      then outcome_bind (sb_preview_loop d sz n ((pos + 1) mod sz)) (\<lambda>ys. Ret (d ! pos # ys))
      else Panic)"

definition sb_GetPreview :: "(int \<Rightarrow> int) \<Rightarrow> ProperSizedBuffer \<Rightarrow> (byte list \<times> int) outcome" where
  "sb_GetPreview preview sb =
     (let previewBytes = preview (sb_bitrate sb div 8);
          writePos = int (sb_writePos sb);
          readPos = int (sb_readPos sb);
          sz = int (sb_size sb);
          available = (if writePos \<ge> readPos then writePos - readPos else sz - readPos + writePos);
          previewBytes = (if previewBytes > available then available else previewBytes);
          previewStartPos = writePos - previewBytes;
          previewStartPos = (if previewStartPos < 0 then previewStartPos + sz else previewStartPos);
          (previewStartPos, previewBytes) =
            (if writePos \<ge> readPos \<and> previewStartPos < readPos then (readPos, writePos - readPos)
             else if writePos < readPos \<and> previewStartPos < readPos \<and> previewStartPos \<ge> writePos
             then (readPos, sz - readPos + writePos)
             else (previewStartPos, previewBytes))
      in if previewBytes < 0 then Panic
         else outcome_bind (sb_preview_loop (sb_data sb) (sb_size sb) (nat previewBytes) (nat previewStartPos))
                (\<lambda>ys. Ret (ys, previewBytes div 4096)))"

section \<open>Invariant and contents\<close>

definition sb_inv :: "ProperSizedBuffer \<Rightarrow> bool" where
  "sb_inv sb \<longleftrightarrow> 0 < sb_size sb \<and> length (sb_data sb) = sb_size sb \<and>
     sb_writePos sb < sb_size sb \<and> sb_readPos sb < sb_size sb \<and>
     sb_totalWritten sb = sb_totalRead sb + sb_used sb"

definition sb_contents :: "ProperSizedBuffer \<Rightarrow> byte list" where
  "sb_contents sb = circ_get (sb_data sb) (sb_readPos sb) (sb_used sb)"

lemma length_sb_contents: "length (sb_contents sb) = sb_used sb"
  by (simp add: sb_contents_def)

lemma sb_used_less: "sb_inv sb \<Longrightarrow> sb_used sb < sb_size sb"
  by (auto simp: sb_inv_def sb_used_def)

lemma sb_write_pos: "sb_inv sb \<Longrightarrow> sb_writePos sb = (sb_readPos sb + sb_used sb) mod sb_size sb"
  by (auto simp: sb_inv_def sb_used_def mod_if)

text \<open>One or two plain copies are the circular write and read.\<close>

lemma sb_two_part_put:
  assumes "p < length d" and "length xs \<le> length d"
  shows "(if p + length xs \<le> length d then copy_at d p xs
     else copy_at (copy_at d p (take (length d - p) xs)) 0 (drop (length d - p) xs)) = circ_put d p xs"
proof (cases "p + length xs \<le> length d")
  case True
  then show ?thesis by (simp add: copy_at_circ_put)
next
  case False
  let ?a = "take (length d - p) xs" and ?b = "drop (length d - p) xs"
  have "copy_at (copy_at d p ?a) 0 ?b = circ_put (circ_put d p ?a) 0 ?b"
    using False assms by (simp add: copy_at_circ_put)
  also have "\<dots> = circ_put d p (?a @ ?b)"
    using circ_put_append [of p d ?a ?b] False assms by simp
  finally show ?thesis using False by simp
qed

lemma sb_extract_circ_get:
  assumes "p < length d" and "k \<le> length d"
  shows "sb_extract d (length d) p k = circ_get d p k"
proof (cases "p + k \<le> length d")
  case True
  then show ?thesis by (simp add: sb_extract_def slice_circ_get)
next
  case False
  let ?a = "length d - p"
  have "drop p d = circ_get d p ?a"
    using slice_circ_get [of p ?a d] assms by (simp add: slice_simps)
  moreover have "take (k - ?a) d = circ_get d 0 (k - ?a)"
    using slice_circ_get [of 0 "k - ?a" d] assms by (simp add: slice_simps)
  ultimately show ?thesis
    using circ_get_append [of p d ?a "k - ?a"] False assms by (simp add: sb_extract_def)
qed

section \<open>The operations act on the contents\<close>

definition used_between :: "nat \<Rightarrow> nat \<Rightarrow> nat \<Rightarrow> nat" where
  "used_between n r w = (if w \<ge> r then w - r else n - r + w)"

lemma used_between_mod: "r < n \<Longrightarrow> u < n \<Longrightarrow> used_between n r ((r + u) mod n) = u"
  by (auto simp: used_between_def mod_if)

lemma sb_used_between: "sb_used sb = used_between (sb_size sb) (sb_readPos sb) (sb_writePos sb)"
  by (simp add: sb_used_def used_between_def)

lemma sb_drops_frame [simp]:
  "sb_inv (sb\<lparr>sb_drops := n\<rparr>) = sb_inv sb" "sb_contents (sb\<lparr>sb_drops := n\<rparr>) = sb_contents sb"
  by (simp_all add: sb_inv_def sb_contents_def sb_used_def)

lemma sb_available:
  assumes "sb_inv sb"
  shows "(if sb_writePos sb \<ge> sb_readPos sb
       then int (sb_size sb) - int (sb_writePos sb) + int (sb_readPos sb) - 1
       else int (sb_readPos sb) - int (sb_writePos sb) - 1) = int (sb_size sb) - int (sb_used sb) - 1"
  using assms by (auto simp: sb_inv_def sb_used_def)

lemma sb_Write_eq:
  assumes "sb_inv sb"
  shows "sb_Write xs sb =
    (if sb_closed sb then Ret (sb, Inl ErrBufferClosed)
     else if sb_used sb + length xs + 1 > sb_size sb
     then Ret (sb\<lparr>sb_drops := sb_drops sb + length xs\<rparr>,
       Inl (ErrBufferFullDetailed (length xs) (int (sb_size sb) - int (sb_used sb) - 1)))
     else Ret (sb\<lparr>sb_data := circ_put (sb_data sb) (sb_writePos sb) xs,
         sb_writePos := (sb_writePos sb + length xs) mod sb_size sb,
         sb_totalWritten := sb_totalWritten sb + length xs\<rparr>, Inr (length xs)))"
proof -
  have full: "int (length xs) > int (sb_size sb) - int (sb_used sb) - 1 \<longleftrightarrow>
      sb_used sb + length xs + 1 > sb_size sb" by linarith
  have put: "\<not> sb_used sb + length xs + 1 > sb_size sb \<Longrightarrow>
      (if sb_writePos sb + length xs \<le> sb_size sb then copy_at (sb_data sb) (sb_writePos sb) xs
       else copy_at (copy_at (sb_data sb) (sb_writePos sb) (take (sb_size sb - sb_writePos sb) xs)) 0
         (drop (sb_size sb - sb_writePos sb) xs)) = circ_put (sb_data sb) (sb_writePos sb) xs"
  proof -
    assume "\<not> sb_used sb + length xs + 1 > sb_size sb"
    moreover have "length (sb_data sb) = sb_size sb" "sb_writePos sb < sb_size sb"
      using assms by (simp_all add: sb_inv_def)
    ultimately show ?thesis using sb_two_part_put [of "sb_writePos sb" "sb_data sb" xs]
      by (simp split: if_splits)
  qed
  have "sb_size sb \<noteq> 0" using assms by (simp add: sb_inv_def)
  then show ?thesis unfolding sb_Write_def Let_def sb_available [OF assms] full by (simp add: put)
qed

lemma sb_put_state:
  assumes "sb_inv sb" and "sb_used sb + length xs < sb_size sb"
  defines "sb' \<equiv> sb\<lparr>sb_data := circ_put (sb_data sb) (sb_writePos sb) xs,
         sb_writePos := (sb_writePos sb + length xs) mod sb_size sb,
         sb_totalWritten := sb_totalWritten sb + length xs\<rparr>"
  shows "sb_inv sb'" and "sb_contents sb' = sb_contents sb @ xs"
proof -
  have "(sb_writePos sb + length xs) mod sb_size sb = (sb_readPos sb + (sb_used sb + length xs)) mod sb_size sb"
    by (simp add: sb_write_pos [OF assms(1)] mod_add_left_eq add.assoc)
  then have used: "sb_used sb' = sb_used sb + length xs"
    using used_between_mod [of "sb_readPos sb" "sb_size sb" "sb_used sb + length xs"] assms(1,2)
    unfolding sb_used_between [of sb'] by (simp add: sb'_def sb_inv_def)
  then show "sb_inv sb'" using assms(1) by (simp add: sb_inv_def sb'_def)
  show "sb_contents sb' = sb_contents sb @ xs"
    using circ_get_put [of "sb_readPos sb" "sb_data sb" "sb_used sb" xs] assms(1,2) used
      sb_write_pos [OF assms(1)]
    by (simp add: sb_contents_def sb_inv_def sb'_def)
qed

lemma sb_Read_eq:
  assumes "sb_inv sb"
  shows "sb_Read want sb =
    (if sb_used sb = 0 then if sb_closed sb then Ret (sb, Inl ErrBufferClosed) else Block
     else Ret (sb\<lparr>sb_readPos := (sb_readPos sb + min want (sb_used sb)) mod sb_size sb,
                 sb_totalRead := sb_totalRead sb + min want (sb_used sb)\<rparr>,
               Inr (take want (sb_contents sb))))"
proof -
  have empty: "sb_used sb = 0 \<longleftrightarrow> sb_writePos sb = sb_readPos sb"
    using assms by (auto simp: sb_used_def sb_inv_def)
  have avail: "sb_writePos sb \<noteq> sb_readPos sb \<Longrightarrow>
      (if sb_writePos sb > sb_readPos sb then sb_writePos sb - sb_readPos sb
       else sb_size sb - sb_readPos sb + sb_writePos sb) = sb_used sb"
    by (auto simp: sb_used_def)
  have "min want (sb_used sb) \<le> sb_size sb" using sb_used_less [OF assms] by simp
  then have get: "sb_extract (sb_data sb) (sb_size sb) (sb_readPos sb) (min want (sb_used sb)) = take want (sb_contents sb)"
    using sb_extract_circ_get [of "sb_readPos sb" "sb_data sb" "min want (sb_used sb)"] assms
      circ_get_take [of "min want (sb_used sb)" "sb_used sb" "sb_data sb" "sb_readPos sb"]
    by (auto simp: sb_inv_def sb_contents_def min_def)
  have "sb_size sb \<noteq> 0" using assms by (simp add: sb_inv_def)
  then show ?thesis unfolding sb_Read_def Let_def empty
    using get by (cases "sb_writePos sb = sb_readPos sb") (auto simp: avail min_def split: if_splits)
qed

lemma sb_advance:
  assumes "sb_inv sb" and "m \<le> sb_used sb"
  defines "sb' \<equiv> sb\<lparr>sb_readPos := (sb_readPos sb + m) mod sb_size sb, sb_totalRead := sb_totalRead sb + m\<rparr>"
  shows "sb_inv sb'" and "sb_contents sb' = drop m (sb_contents sb)"
proof -
  let ?r = "(sb_readPos sb + m) mod sb_size sb"
  have pos: "0 < sb_size sb" and u: "sb_used sb < sb_size sb"
    using assms(1) sb_used_less by (auto simp: sb_inv_def)
  have "(?r + (sb_used sb - m)) mod sb_size sb = (sb_readPos sb + m + (sb_used sb - m)) mod sb_size sb"
    by (simp only: mod_add_left_eq)
  also have "\<dots> = sb_writePos sb" using assms(2) sb_write_pos [OF assms(1)] by simp
  finally have w: "sb_writePos sb = (?r + (sb_used sb - m)) mod sb_size sb" by simp
  have used: "sb_used sb' = sb_used sb - m"
    using used_between_mod [of ?r "sb_size sb" "sb_used sb - m"] pos u w
    unfolding sb_used_between [of sb'] by (simp add: sb'_def)
  show "sb_inv sb'" using assms(1,2) used pos by (simp add: sb_inv_def sb'_def)
  show "sb_contents sb' = drop m (sb_contents sb)"
    using circ_get_drop [of "sb_readPos sb" "sb_data sb" m "sb_used sb"] assms(1,2) used u
    by (simp add: sb_contents_def sb_inv_def sb'_def)
qed

interpretation sized: byte_fifo sb_inv sb_contents sb_size "\<lambda>(_::unit). sb_Write" sb_Read
proof
  fix sb xs assume inv: "sb_inv sb"
  show "\<exists>q' r. sb_Write xs sb = Ret (q', r)" by (simp add: sb_Write_eq [OF inv])
next
  fix sb sb' xs r assume inv: "sb_inv sb" and w: "sb_Write xs sb = Ret (sb', r)"
  then show "sb_inv sb' \<and> sb_size sb' = sb_size sb"
    using sb_put_state(1) [OF inv, of xs]
    by (auto simp: sb_Write_eq [OF inv] split: if_splits)
next
  fix sb sb' xs n assume inv: "sb_inv sb" and w: "sb_Write xs sb = Ret (sb', Inr n)"
  then show "n = length xs \<and> sb_contents sb' = sb_contents sb @ xs"
    using sb_put_state(2) [OF inv, of xs] by (auto simp: sb_Write_eq [OF inv] split: if_splits)
next
  fix sb sb' xs e assume inv: "sb_inv sb" and w: "sb_Write xs sb = Ret (sb', Inl e)"
  then show "sb_contents sb' = sb_contents sb"
    by (auto simp: sb_Write_eq [OF inv] split: if_splits)
next
  fix sb m assume inv: "sb_inv sb"
  show "sb_Read m sb \<noteq> Panic" by (simp add: sb_Read_eq [OF inv])
next
  fix sb sb' m r assume inv: "sb_inv sb" and r: "sb_Read m sb = Ret (sb', r)"
  then show "sb_inv sb' \<and> sb_size sb' = sb_size sb"
    using sb_advance(1) [OF inv, of "min m (sb_used sb)"] by (auto simp: sb_Read_eq [OF inv] split: if_splits)
next
  fix sb sb' m ys assume inv: "sb_inv sb" and r: "sb_Read m sb = Ret (sb', Inr ys)"
  have "drop (min m (sb_used sb)) (sb_contents sb) = drop m (sb_contents sb)"
    by (auto simp: min_def length_sb_contents)
  then show "ys = take m (sb_contents sb) \<and> sb_contents sb' = drop m (sb_contents sb)"
    using sb_advance(2) [OF inv, of "min m (sb_used sb)"] r by (auto simp: sb_Read_eq [OF inv] split: if_splits)
next
  fix sb sb' m e assume inv: "sb_inv sb" and r: "sb_Read m sb = Ret (sb', Inl e)"
  then show "sb_contents sb' = sb_contents sb" by (auto simp: sb_Read_eq [OF inv] split: if_splits)
next
  fix sb assume inv: "sb_inv sb"
  then show "length (sb_contents sb) \<le> sb_size sb" using sb_used_less by (simp add: length_sb_contents less_imp_le)
qed

section \<open>Making and closing a buffer\<close>

lemma NewProperSizedBuffer_Inr:
  assumes "NewProperSizedBuffer over now k bitrate c = (c', Inr sb)"
  obtains ns where "mc_RequestMemory over now k (sb_allocated sb) c = (c', None, ns)"
    and "sb_allocated sb = min bitrate maxBitrate div 8 * 30" and "sb_bitrate sb = min bitrate maxBitrate"
    and "sb_size sb = nat (sb_allocated sb)" and "sb_streamID sb = k" and "\<not> sb_closed sb"
    and "minBitrate \<le> bitrate" and "sb_inv sb" and "sb_contents sb = []"
proof -
  have min: "(if bitrate > maxBitrate then maxBitrate else bitrate) = min bitrate maxBitrate" by auto
  have guard: "minBitrate \<le> bitrate" "0 < bitrate"
    using assms by (auto simp: NewProperSizedBuffer_def split: if_splits)
  then have "0 < min bitrate maxBitrate div 8 * 30" by (auto simp: minBitrate_def maxBitrate_def min_def)
  then show ?thesis using assms guard
    by (auto simp: NewProperSizedBuffer_def Let_def min sb_inv_def sb_used_def sb_contents_def
        intro!: that split: prod.splits option.splits)
qed

lemma sb_allocated_range:
  "minBitrate \<le> b \<Longrightarrow> 0 \<le> min b maxBitrate div 8 * 30 \<and> min b maxBitrate div 8 * 30 < 2 ^ 62"
  by (auto simp: minBitrate_def maxBitrate_def min_def)

lemma sb_preview_loop_eq:
  "length d = n \<Longrightarrow> pos < n \<Longrightarrow> k \<le> n \<Longrightarrow> sb_preview_loop d n k pos = Ret (circ_get d pos k)"
proof (induction k arbitrary: pos)
  case (Suc k)
  have "circ_get d pos 1 = [d ! pos]" using Suc.prems by (simp add: circ_get_def ring_idx_def)
  then have "circ_get d pos (Suc k) = d ! pos # circ_get d ((pos + 1) mod n) k"
    using circ_get_append [of pos d 1 k] Suc.prems by simp
  then show ?case using Suc by simp
qed simp

text \<open>The cells of the last \<open>m\<close> stored bytes.\<close>

lemma sb_last:
  assumes "sb_inv sb" and "m \<le> sb_used sb"
  defines "start \<equiv> (if m \<le> sb_writePos sb then sb_writePos sb - m else sb_writePos sb + sb_size sb - m)"
  shows "circ_get (sb_data sb) (start mod sb_size sb) m = drop (sb_used sb - m) (sb_contents sb)"
proof -
  have "start mod sb_size sb = (sb_readPos sb + (sb_used sb - m)) mod sb_size sb"
    using assms(1,2) by (auto simp: start_def sb_inv_def sb_used_def mod_if)
  then show ?thesis
    using circ_get_last [of "sb_readPos sb" "sb_data sb" m "sb_used sb"] assms(1,2) sb_used_less [OF assms(1)]
    by (simp add: sb_inv_def sb_contents_def)
qed

section \<open>Properties\<close>

text \<open>C32: on a buffer that \<^verbatim>\<open>NewProperSizedBuffer\<close> returned, any interleaving of writes and reads
  delivers the accepted bytes in order, none lost, none duplicated, and at most the 30 seconds of
  data the buffer is sized for are stored.\<close>

theorem sized_buffer_fifo:
  assumes "NewProperSizedBuffer over now k bitrate c = (c', Inr sb)"
  shows "\<exists>sb' accepted delivered.
     fifo_run (\<lambda>(_::unit). sb_Write) sb_Read ops sb = Ret (sb', accepted, delivered) \<and>
     accepted = delivered @ sb_contents sb' \<and>
     int (length (sb_contents sb')) \<le> min bitrate maxBitrate div 8 * 30"
proof -
  obtain ns where inv: "sb_inv sb" and sb: "sb_contents sb = []" "sb_size sb = nat (sb_allocated sb)"
    and al: "sb_allocated sb = min bitrate maxBitrate div 8 * 30" "minBitrate \<le> bitrate"
    by (rule NewProperSizedBuffer_Inr [OF assms])
  obtain sb' acc del where "fifo_run (\<lambda>(_::unit). sb_Write) sb_Read ops sb = Ret (sb', acc, del)"
    "sb_contents sb @ acc = del @ sb_contents sb'" "length (sb_contents sb') \<le> sb_size sb"
    using sized.run_fifo [OF inv, of ops] by (elim exE conjE)
  moreover from this(3) have "int (length (sb_contents sb')) \<le> sb_allocated sb"
    using sb_allocated_range [OF al(2)] al(1) unfolding sb(2) by linarith
  ultimately show ?thesis unfolding sb(1) al(1) by (intro exI conjI) auto
qed

text \<open>the memory a buffer takes is the memory it gives back: on a controller with balanced
  accounts, making a buffer books 30 seconds of its bitrate on the stream and closing it restores
  the stream's usage, and closing it again changes nothing.\<close>

theorem sized_buffer_returns_memory:
  assumes "mc_inv c" and "NewProperSizedBuffer over now k bitrate c = (c1, Inr sb)"
    and "mc_usage c + min bitrate maxBitrate div 8 * 30 \<le> mc_maxMemory c"
  shows "\<exists>sb' c2. sb_Close sb c1 = (sb', c2, None) \<and> mc_inv c2 \<and>
     mc_GetStreamUsage k c1 = mc_GetStreamUsage k c + min bitrate maxBitrate div 8 * 30 \<and>
     mc_GetStreamUsage k c2 = mc_GetStreamUsage k c \<and> mc_usage c2 = mc_usage c \<and>
     sb_Close sb' c2 = (sb', c2, Some ErrAlreadyClosed)"
proof -
  obtain ns where 1: "mc_RequestMemory over now k (sb_allocated sb) c = (c1, None, ns)"
    and al: "sb_allocated sb = min bitrate maxBitrate div 8 * 30" "minBitrate \<le> bitrate"
    and sb: "sb_streamID sb = k" "\<not> sb_closed sb"
    by (rule NewProperSizedBuffer_Inr [OF assms(2)])
  note rng = sb_allocated_range [OF al(2), folded al(1)]
  have inv: "mc_inv c1"
    using mc_RequestMemory_inv [OF assms(1), of "sb_allocated sb" over now k] rng 1 by simp
  have use: "mc_GetStreamUsage k c1 = mc_GetStreamUsage k c + sb_allocated sb" "mc_usage c1 = mc_usage c + sb_allocated sb"
    using request_booked [OF assms(1) _ _ _ 1] rng assms(3) al(1) by auto
  have "0 \<le> mc_GetStreamUsage k c" using assms(1) by (rule mc_GetStreamUsage_nonneg)
  then show ?thesis
    using mc_ReleaseMemory_inv [OF inv, of "sb_allocated sb" k] rng use al(1) sb
    by (auto simp: sb_Close_def)
qed

text \<open>the hot section is the last two seconds of stored data, or everything stored when there is
  less.\<close>

theorem sized_hot_data_is_suffix:
  assumes "sb_inv sb" and "0 < sb_bitrate sb" and "2 * (sb_bitrate sb div 8) \<le> int (sb_size sb)"
  shows "sb_GetHotData sb =
     Ret (drop (length (sb_contents sb) - nat (2 * (sb_bitrate sb div 8))) (sb_contents sb))"
proof -
  let ?h = "2 * (sb_bitrate sb div 8)" and ?u = "sb_used sb"
  have h: "0 \<le> ?h" using assms(2) by simp
  have tot: "int (sb_totalWritten sb) - int (sb_totalRead sb) = int ?u"
    using assms(1) by (simp add: sb_inv_def)
  have len: "length (sb_data sb) = sb_size sb" "sb_readPos sb < sb_size sb" "sb_writePos sb < sb_size sb"
    using assms(1) by (simp_all add: sb_inv_def)
  have u: "?u < sb_size sb" by (rule sb_used_less [OF assms(1)])
  show ?thesis
  proof (cases "int ?u < ?h")
    case True
    have "sb_extract (sb_data sb) (sb_size sb) (sb_readPos sb) ?u = sb_contents sb"
      using sb_extract_circ_get [of "sb_readPos sb" "sb_data sb" ?u] len u by (simp add: sb_contents_def)
    then show ?thesis using True h
      unfolding sb_GetHotData_def Let_def tot by (simp add: length_sb_contents)
  next
    case False
    define m where "m = nat ?h"
    define start where "start = (if m \<le> sb_writePos sb then sb_writePos sb - m else sb_writePos sb + sb_size sb - m)"
    have m: "?h = int m" "m \<le> ?u" using False h by (auto simp: m_def)
    have start: "(if int (sb_writePos sb) - int m < 0 then int (sb_writePos sb) - int m + int (sb_size sb)
        else int (sb_writePos sb) - int m) = int start" "start < sb_size sb \<or> m = 0 \<and> start = sb_writePos sb"
      using m(2) u len by (auto simp: start_def)
    have "sb_extract (sb_data sb) (sb_size sb) start m = drop (?u - m) (sb_contents sb)"
      using sb_extract_circ_get [of start "sb_data sb" m] sb_last [OF assms(1) m(2), folded start_def]
        start(2) len u m(2) by auto
    then show ?thesis using False
      unfolding sb_GetHotData_def Let_def tot m(1) start(1) by (simp add: length_sb_contents)
  qed
qed

text \<open>a preview of a positive number of bytes returns the most recently written ones, capped by
  what is stored.\<close>

theorem sized_preview_is_suffix:
  assumes "sb_inv sb" and "0 < preview (sb_bitrate sb div 8)"
  shows "\<exists>samples. sb_GetPreview preview sb =
     Ret (drop (length (sb_contents sb) - nat (preview (sb_bitrate sb div 8))) (sb_contents sb), samples)"
proof -
  let ?p = "preview (sb_bitrate sb div 8)" and ?u = "sb_used sb"
  define m where "m = min (nat ?p) ?u"
  define start where "start = (if m \<le> sb_writePos sb then sb_writePos sb - m else sb_writePos sb + sb_size sb - m)"
  have len: "length (sb_data sb) = sb_size sb" "sb_readPos sb < sb_size sb" "sb_writePos sb < sb_size sb"
    using assms(1) by (simp_all add: sb_inv_def)
  have u: "?u < sb_size sb" by (rule sb_used_less [OF assms(1)])
  have m: "m \<le> ?u" "0 < m \<or> ?u = 0" using assms(2) by (auto simp: m_def)
  have avail: "(if int (sb_writePos sb) \<ge> int (sb_readPos sb) then int (sb_writePos sb) - int (sb_readPos sb)
      else int (sb_size sb) - int (sb_readPos sb) + int (sb_writePos sb)) = int ?u"
    using len by (auto simp: sb_used_def)
  have cap: "(if ?p > int ?u then int ?u else ?p) = int m" using assms(2) by (auto simp: m_def)
  have start: "(if int (sb_writePos sb) - int m < 0 then int (sb_writePos sb) - int m + int (sb_size sb)
      else int (sb_writePos sb) - int m) = int start" "start < sb_size sb"
    using m u len by (auto simp: start_def)
  have keep: "\<not> (int (sb_writePos sb) \<ge> int (sb_readPos sb) \<and> int start < int (sb_readPos sb))"
    "\<not> (int (sb_writePos sb) < int (sb_readPos sb) \<and> int start < int (sb_readPos sb) \<and> int start \<ge> int (sb_writePos sb))"
    using m u len by (auto simp: start_def sb_used_def split: if_splits)
  have "sb_preview_loop (sb_data sb) (sb_size sb) m start = Ret (drop (?u - m) (sb_contents sb))"
    using sb_preview_loop_eq [of "sb_data sb" "sb_size sb" start m] sb_last [OF assms(1) m(1), folded start_def]
      start(2) len u m(1) by simp
  moreover have "drop (?u - m) (sb_contents sb) = drop (length (sb_contents sb) - nat ?p) (sb_contents sb)"
    by (auto simp: m_def min_def length_sb_contents)
  ultimately have "sb_GetPreview preview sb =
      Ret (drop (length (sb_contents sb) - nat ?p) (sb_contents sb), int m div 4096)"
    unfolding sb_GetPreview_def Let_def avail cap start(1) if_not_P [OF keep(1)] if_not_P [OF keep(2)]
    by simp
  then show ?thesis by blast
qed

text \<open>a preview of zero bytes of a buffer whose data wraps around returns everything that is
  stored, where no byte was asked for.\<close>

theorem sized_preview_zero_returns_all:
  assumes "sb_inv sb" and "sb_writePos sb < sb_readPos sb" and "preview (sb_bitrate sb div 8) = 0"
  shows "\<exists>samples. sb_GetPreview preview sb = Ret (sb_contents sb, samples) \<and> sb_contents sb \<noteq> []"
proof -
  have used: "sb_used sb = sb_size sb - sb_readPos sb + sb_writePos sb" "0 < sb_used sb"
    using assms(1,2) by (auto simp: sb_used_def sb_inv_def)
  have "sb_preview_loop (sb_data sb) (sb_size sb) (sb_used sb) (sb_readPos sb) = Ret (sb_contents sb)"
    using assms(1) sb_used_less [OF assms(1)] by (simp add: sb_preview_loop_eq sb_inv_def sb_contents_def)
  moreover have "nat (int (sb_size sb) - int (sb_readPos sb) + int (sb_writePos sb)) = sb_used sb"
    using used assms(1) by (simp add: sb_inv_def)
  moreover have "\<not> int (sb_size sb) - int (sb_readPos sb) + int (sb_writePos sb) < 0"
    using assms(1) by (simp add: sb_inv_def)
  moreover have "sb_contents sb \<noteq> []" using used(2) length_sb_contents [of sb] by auto
  ultimately show ?thesis using assms(2,3) by (simp add: sb_GetPreview_def Let_def)
qed

section \<open>Concrete instances\<close>

definition wrapped_buffer :: ProperSizedBuffer where
  "wrapped_buffer = \<lparr>sb_streamID = ''a'', sb_bitrate = 8, sb_data = [9, 0, 7], sb_size = 3,
     sb_hotStart = 0, sb_warmStart = 2, sb_coldStart = 10, sb_writePos = 1, sb_readPos = 2,
     sb_allocated = 3, sb_closed = False, sb_totalWritten = 4, sb_totalRead = 2, sb_drops = 0\<rparr>"

lemma wrapped_buffer_facts: "sb_inv wrapped_buffer" "sb_contents wrapped_buffer = [7, 9]"
  by (simp_all add: wrapped_buffer_def sb_inv_def sb_used_def sb_contents_def circ_get_def ring_idx_def upt_rec)

theorem sized_hot_data_is_suffix_witness: "sb_GetHotData wrapped_buffer = Ret [7, 9]"
  using sized_hot_data_is_suffix [OF wrapped_buffer_facts(1)] wrapped_buffer_facts(2)
  by (simp add: wrapped_buffer_def)

theorem sized_preview_is_suffix_witness: "\<exists>samples. sb_GetPreview (\<lambda>_. 1) wrapped_buffer = Ret ([9], samples)"
  using sized_preview_is_suffix [OF wrapped_buffer_facts(1), of "\<lambda>_. 1"] wrapped_buffer_facts(2) by simp

theorem sized_preview_zero_returns_all_witness:
  "\<exists>samples. sb_GetPreview (\<lambda>_. 0) wrapped_buffer = Ret ([7, 9], samples)"
proof -
  have "sb_writePos wrapped_buffer < sb_readPos wrapped_buffer" by (simp add: wrapped_buffer_def)
  then show ?thesis
    using sized_preview_zero_returns_all [OF wrapped_buffer_facts(1), of "\<lambda>_. 0"] wrapped_buffer_facts(2) by auto
qed

definition empty_controller :: Controller where
  "empty_controller = NewController (\<lambda>_. LRU_SelectStreamsForEviction insertion_sort) 0 10000 10000"

lemma empty_controller_inv: "mc_inv empty_controller"
  unfolding empty_controller_def by (rule mc_inv_New) simp_all

lemma example_new_buffer:
  obtains c1 sb where "NewProperSizedBuffer (\<lambda>_ _. False) 1 ''a'' 1000 empty_controller = (c1, Inr sb)"
  by (simp add: NewProperSizedBuffer_def minBitrate_def maxBitrate_def empty_controller_def NewController_def
      mc_RequestMemory_def mc_checkStreamLimit_def mc_getOrCreateStreamUsage_def Let_def)

theorem sized_buffer_fifo_witness:
  "\<exists>c1 sb sb' accepted delivered.
     NewProperSizedBuffer (\<lambda>_ _. False) 1 ''a'' 1000 empty_controller = (c1, Inr sb) \<and>
     fifo_run (\<lambda>(_::unit). sb_Write) sb_Read [Wr () [1, 2], Rd 1, Wr () [3]] sb = Ret (sb', accepted, delivered) \<and>
     accepted = delivered @ sb_contents sb'"
proof -
  obtain c1 sb where new: "NewProperSizedBuffer (\<lambda>_ _. False) 1 ''a'' 1000 empty_controller = (c1, Inr sb)"
    by (rule example_new_buffer)
  show ?thesis using sized_buffer_fifo [OF new, of "[Wr () [1, 2], Rd 1, Wr () [3]]"] new by blast
qed

theorem sized_buffer_returns_memory_witness:
  "\<exists>c1 c2 sb sb'. NewProperSizedBuffer (\<lambda>_ _. False) 1 ''a'' 1000 empty_controller = (c1, Inr sb) \<and>
     sb_Close sb c1 = (sb', c2, None) \<and> mc_GetStreamUsage ''a'' c1 = 3750 \<and> mc_GetStreamUsage ''a'' c2 = 0"
proof -
  obtain c1 sb where new: "NewProperSizedBuffer (\<lambda>_ _. False) 1 ''a'' 1000 empty_controller = (c1, Inr sb)"
    by (rule example_new_buffer)
  have "mc_usage empty_controller + min 1000 maxBitrate div 8 * 30 \<le> mc_maxMemory empty_controller"
    "mc_GetStreamUsage ''a'' empty_controller = 0" "min 1000 maxBitrate div 8 * 30 = 3750"
    by (simp_all add: empty_controller_def NewController_def maxBitrate_def mc_GetStreamUsage_def)
  then show ?thesis
    using sized_buffer_returns_memory [OF empty_controller_inv new] new by auto
qed

end
