(* ===== verification/Bit_Reader.thy ===== *)
theory Bit_Reader
  imports Mirror_Prelude
begin

unbundle bit_operations_syntax

text \<open>
  The bit reader of \<^verbatim>\<open>internal/ingestion/resolution/golomb.go\<close> with its Exp-Golomb readers.
  The abstract view of a reader is the list of bits it has not read yet; the lemmas
  relate every operation to that list, and the properties say that the Golomb readers
  invert the codes of the H.264 and HEVC specifications.
\<close>

section \<open>State and operations\<close>

record BitReader =
  br_data :: "byte list"
  br_bitPos :: nat
  br_bytePos :: nat

datatype br_error = EndOfData | InvalidBitCount int | NotEnoughBits int int | TooManyLeadingZeros

definition NewBitReader :: "byte list \<Rightarrow> BitReader" where
  "NewBitReader data = \<lparr>br_data = data, br_bitPos = 0, br_bytePos = 0\<rparr>"

definition br_ReadBit :: "BitReader \<Rightarrow> BitReader \<times> (br_error + u32)" where
  "br_ReadBit br =
     (if br_bytePos br \<ge> length (br_data br) then (br, Inl EndOfData)
      else
        (let b = drop_bit (7 - br_bitPos br) (br_data br ! br_bytePos br) AND 1;
             br = br\<lparr>br_bitPos := br_bitPos br + 1\<rparr>;
             br = (if br_bitPos br = 8 then br\<lparr>br_bitPos := 0, br_bytePos := br_bytePos br + 1\<rparr> else br)
         in (br, Inr (ucast b))))"

fun br_ReadBits_loop :: "nat \<Rightarrow> u32 \<Rightarrow> BitReader \<Rightarrow> BitReader \<times> (br_error + u32)" where
  "br_ReadBits_loop 0 result br = (br, Inr result)"
| "br_ReadBits_loop (Suc n) result br =
     (case br_ReadBit br of
        (br, Inl e) \<Rightarrow> (br, Inl e)
      | (br, Inr b) \<Rightarrow> br_ReadBits_loop n (push_bit 1 result OR b) br)"

definition br_ReadBits :: "int \<Rightarrow> BitReader \<Rightarrow> BitReader \<times> (br_error + u32)" where
  "br_ReadBits n br =
     (if n > 32 \<or> n < 0 then (br, Inl (InvalidBitCount n))
      else
        (let avail = (int (length (br_data br)) - int (br_bytePos br)) * 8 - int (br_bitPos br)
         in if avail < n then (br, Inl (NotEnoughBits n avail))
            else br_ReadBits_loop (nat n) 0 br))"

function br_leadingZeros :: "nat \<Rightarrow> BitReader \<Rightarrow> BitReader \<times> (br_error + nat)" where
  "br_leadingZeros zeros br =
     (case br_ReadBit br of
        (br, Inl e) \<Rightarrow> (br, Inl e)
      | (br, Inr b) \<Rightarrow>
          if b = 1 then (br, Inr zeros)
          else if zeros + 1 > 31 then (br, Inl TooManyLeadingZeros)
          else br_leadingZeros (zeros + 1) br)"
  by pat_completeness auto
termination
  by (relation "measure (\<lambda>(zeros, br). 32 - zeros)") auto

declare br_leadingZeros.simps [simp del]

definition br_ReadUE :: "BitReader \<Rightarrow> BitReader \<times> (br_error + u32)" where
  "br_ReadUE br =
     (case br_leadingZeros 0 br of
        (br, Inl e) \<Rightarrow> (br, Inl e)
      | (br, Inr leadingZeros) \<Rightarrow>
          if leadingZeros = 0 then (br, Inr 0)
          else (case br_ReadBits (int leadingZeros) br of
                  (br, Inl e) \<Rightarrow> (br, Inl e)
                | (br, Inr suffix) \<Rightarrow> (br, Inr (push_bit leadingZeros 1 - 1 + suffix))))"

text \<open>The result is \<^verbatim>\<open>int32\<close>: the conversion and the negation wrap around at that width.\<close>

definition br_ReadSE :: "BitReader \<Rightarrow> BitReader \<times> (br_error + int)" where
  "br_ReadSE br =
     (case br_ReadUE br of
        (br, Inl e) \<Rightarrow> (br, Inl e)
      | (br, Inr ue) \<Rightarrow>
          if ue mod 2 = 0 then (br, Inr (sint (- (ue div 2) :: 32 word)))
          else (br, Inr (sint ((ue + 1) div 2 :: 32 word))))"

fun br_SkipBits_loop :: "nat \<Rightarrow> BitReader \<Rightarrow> BitReader \<times> br_error option" where
  "br_SkipBits_loop 0 br = (br, None)"
| "br_SkipBits_loop (Suc n) br =
     (case br_ReadBit br of
        (br, Inl e) \<Rightarrow> (br, Some e)
      | (br, Inr _) \<Rightarrow> br_SkipBits_loop n br)"

definition br_SkipBits :: "int \<Rightarrow> BitReader \<Rightarrow> BitReader \<times> br_error option" where
  "br_SkipBits n br = br_SkipBits_loop (nat n) br"

definition br_BytesRemaining :: "BitReader \<Rightarrow> int" where
  "br_BytesRemaining br =
     (let remaining = int (length (br_data br)) - int (br_bytePos br)
      in if br_bitPos br > 0 then remaining - 1 else remaining)"

definition br_IsAligned :: "BitReader \<Rightarrow> bool" where
  "br_IsAligned br = (br_bitPos br = 0)"

definition br_AlignToByte :: "BitReader \<Rightarrow> BitReader" where
  "br_AlignToByte br =
     (if br_bitPos br \<noteq> 0 then br\<lparr>br_bitPos := 0, br_bytePos := br_bytePos br + 1\<rparr> else br)"

section \<open>The unread bits\<close>

definition byte_bits :: "byte \<Rightarrow> bool list" where
  "byte_bits b = map (\<lambda>i. bit b (7 - i)) [0..<8]"

definition bits_of :: "byte list \<Rightarrow> bool list" where
  "bits_of data = concat (map byte_bits data)"

definition br_inv :: "BitReader \<Rightarrow> bool" where
  "br_inv br \<longleftrightarrow> br_bitPos br < 8 \<and> (br_bytePos br < length (br_data br) \<or> br_bytePos br = length (br_data br) \<and> br_bitPos br = 0)"

definition br_rest :: "BitReader \<Rightarrow> bool list" where
  "br_rest br = drop (8 * br_bytePos br + br_bitPos br) (bits_of (br_data br))"

lemma length_byte_bits [simp]: "length (byte_bits b) = 8"
  by (simp add: byte_bits_def)

lemma length_bits_of [simp]: "length (bits_of data) = 8 * length data"
  by (induction data) (simp_all add: bits_of_def)

lemma nth_bits_of: "p < 8 * length data \<Longrightarrow> bits_of data ! p = bit (data ! (p div 8)) (7 - p mod 8)"
proof (induction data arbitrary: p)
  case (Cons b data)
  show ?case
  proof (cases "p < 8")
    case True
    then show ?thesis by (simp add: bits_of_def nth_append byte_bits_def)
  next
    case False
    then obtain q where q: "p = q + 8" by (metis le_add_diff_inverse2 not_less)
    have "bits_of (b # data) ! p = bits_of data ! q" by (simp add: bits_of_def nth_append q)
    also have "\<dots> = bit (data ! (q div 8)) (7 - q mod 8)" using Cons.prems q by (intro Cons.IH) simp
    moreover have "(q + 8) div 8 = Suc (q div 8)" by simp
    ultimately show ?thesis by (simp add: q)
  qed
qed simp

lemma low_bit: "(w AND 1) = of_bool (bit w 0)" for w :: "'a::len word"
  by (rule bit_word_eqI) (auto simp: bit_simps)

lemma length_br_rest: "length (br_rest br) = 8 * length (br_data br) - (8 * br_bytePos br + br_bitPos br)"
  by (simp add: br_rest_def)

text \<open>Reading a bit takes the first unread one.\<close>

lemma br_ReadBit_rest:
  assumes "br_inv br"
  shows "case br_rest br of
      [] \<Rightarrow> br_ReadBit br = (br, Inl EndOfData)
    | b # bs \<Rightarrow> (\<exists>br'. br_ReadBit br = (br', Inr (of_bool b)) \<and> br_inv br' \<and> br_rest br' = bs)"
proof (cases "br_bytePos br < length (br_data br)")
  case False
  then show ?thesis using assms by (simp add: br_inv_def br_rest_def br_ReadBit_def)
next
  case True
  let ?p = "8 * br_bytePos br + br_bitPos br"
  have p: "?p < 8 * length (br_data br)" "?p div 8 = br_bytePos br" "?p mod 8 = br_bitPos br"
    using True assms by (auto simp: br_inv_def)
  have rest: "br_rest br = bits_of (br_data br) ! ?p # drop (Suc ?p) (bits_of (br_data br))"
    unfolding br_rest_def using p(1) by (simp add: Cons_nth_drop_Suc)
  define br' where "br' = fst (br_ReadBit br)"
  have "br_ReadBit br = (br', Inr (of_bool (bits_of (br_data br) ! ?p)))"
    using True nth_bits_of [OF p(1)] p
    by (simp add: br'_def br_ReadBit_def Let_def low_bit bit_drop_bit_eq split: if_splits)
  moreover have "br_inv br'" "br_rest br' = drop (Suc ?p) (bits_of (br_data br))"
    using True assms by (auto simp: br'_def br_ReadBit_def Let_def br_inv_def br_rest_def)
  ultimately show ?thesis by (simp add: rest)
qed

lemma br_ReadBit_Nil: "br_inv br \<Longrightarrow> br_rest br = [] \<Longrightarrow> br_ReadBit br = (br, Inl EndOfData)"
  using br_ReadBit_rest [of br] by simp

lemma br_ReadBit_Cons:
  assumes "br_inv br" and "br_rest br = b # bs"
  obtains br' where "br_ReadBit br = (br', Inr (of_bool b))" and "br_inv br'" and "br_rest br' = bs"
  using br_ReadBit_rest [OF assms(1)] assms(2) by auto

section \<open>Binary numbers and Golomb codes\<close>

fun bits_val :: "bool list \<Rightarrow> nat" where
  "bits_val [] = 0"
| "bits_val (b # bs) = of_bool b * 2 ^ length bs + bits_val bs"

fun to_bits :: "nat \<Rightarrow> nat \<Rightarrow> bool list" where
  "to_bits 0 v = []"
| "to_bits (Suc n) v = (v \<ge> 2 ^ n) # to_bits n (v mod 2 ^ n)"

function log2 :: "nat \<Rightarrow> nat" where
  "log2 n = (if n < 2 then 0 else Suc (log2 (n div 2)))"
  by pat_completeness auto
termination
  by (relation "measure id") auto

declare log2.simps [simp del]

text \<open>The unsigned code of \<open>v\<close>: as many zeros as \<open>v + 1\<close> has bits after its first, then \<open>v + 1\<close>
  in binary.  The signed code interleaves positive and non-positive numbers.\<close>

definition ue_code :: "nat \<Rightarrow> bool list" where
  "ue_code v = (let k = log2 (v + 1) in replicate k False @ True # to_bits k (v + 1 - 2 ^ k))"

definition se_number :: "int \<Rightarrow> nat" where
  "se_number i = (if i \<le> 0 then nat (2 * - i) else nat (2 * i - 1))"

lemma bits_val_less: "bits_val bs < 2 ^ length bs"
  by (induction bs) auto

lemma length_to_bits [simp]: "length (to_bits n v) = n"
  by (induction n arbitrary: v) auto

lemma bits_val_to_bits: "v < 2 ^ n \<Longrightarrow> bits_val (to_bits n v) = v"
proof (induction n arbitrary: v)
  case (Suc n)
  have "v < 2 ^ n \<or> v mod 2 ^ n = v - 2 ^ n"
    using Suc.prems by (metis le_mod_geq mod_less not_less mult_2 power_Suc less_diff_conv2 linorder_not_less)
  then show ?case using Suc.IH [of "v mod 2 ^ n"] by auto
qed simp

lemma to_bits_bits_val: "to_bits (length bs) (bits_val bs) = bs"
proof (induction bs)
  case (Cons b bs)
  then show ?case using bits_val_less [of bs] by auto
qed simp

lemma log2_bounds: "0 < n \<Longrightarrow> 2 ^ log2 n \<le> n \<and> n < 2 * 2 ^ log2 n"
proof (induction n rule: log2.induct)
  case (1 n)
  then show ?case by (subst (1 2) log2.simps) auto
qed

lemma log2_eq: "2 ^ k \<le> n \<Longrightarrow> n < 2 * 2 ^ k \<Longrightarrow> log2 n = k"
proof -
  assume k: "2 ^ k \<le> n" "n < 2 * 2 ^ k"
  then have "0 < n" by (metis gr_zeroI le_zero_eq power_not_zero zero_neq_numeral)
  then have l: "2 ^ log2 n \<le> n" "n < 2 * 2 ^ log2 n" using log2_bounds by auto
  have p: "(2::nat) ^ log2 n < 2 ^ Suc k" "(2::nat) ^ k < 2 ^ Suc (log2 n)" using k l by simp_all
  from power_less_imp_less_exp [OF _ p(1)] power_less_imp_less_exp [OF _ p(2)] show "log2 n = k" by simp
qed

lemma ue_code_split: "s < 2 ^ k \<Longrightarrow> ue_code (2 ^ k - 1 + s) = replicate k False @ True # to_bits k s"
proof -
  assume s: "s < 2 ^ k"
  have "2 ^ k - 1 + s + 1 = 2 ^ k + s" by simp
  moreover have "log2 (2 ^ k + s) = k" using s by (intro log2_eq) auto
  ultimately show ?thesis by (simp add: ue_code_def Let_def)
qed

lemma ue_number_split:
  obtains k s where "v = 2 ^ k - 1 + s" and "s < (2::nat) ^ k"
  using log2_bounds [of "v + 1"] that [of "log2 (v + 1)" "v + 1 - 2 ^ log2 (v + 1)"] by auto

section \<open>The readers on the unread bits\<close>

lemma shift_in_bit:
  fixes r :: u32
  assumes "2 * unat r < 2 ^ 32"
  shows "unat (push_bit 1 r OR of_bool b) = 2 * unat r + of_bool b"
  using unat_or_push_bit [of "of_bool b :: u32" 1 r] assms
  by (cases b) (simp_all add: or.commute)

lemma br_ReadBits_loop_rest:
  assumes "br_inv br" and "br_rest br = bs @ rest" and "(unat r + 1) * 2 ^ length bs \<le> 2 ^ 32"
  shows "\<exists>br' w. br_ReadBits_loop (length bs) r br = (br', Inr w) \<and> br_inv br' \<and> br_rest br' = rest \<and>
     unat w = unat r * 2 ^ length bs + bits_val bs"
  using assms
proof (induction bs arbitrary: br r)
  case (Cons b bs)
  obtain br1 where 1: "br_ReadBit br = (br1, Inr (of_bool b))" "br_inv br1" "br_rest br1 = bs @ rest"
    using Cons.prems by (auto elim: br_ReadBit_Cons)
  let ?r = "push_bit 1 r OR of_bool b :: u32"
  have "(unat r + 1) * 1 * 2 \<le> (unat r + 1) * 2 ^ length bs * 2" by (intro mult_right_mono mult_left_mono) auto
  moreover have "(unat r + 1) * 2 ^ length bs * 2 \<le> 2 ^ 32"
    using Cons.prems(3) by (simp add: mult.commute mult.left_commute)
  ultimately have "(unat r + 1) * 1 * 2 \<le> 2 ^ 32" by (rule order_trans)
  then have small: "2 * unat r < 2 ^ 32" by simp
  note r = shift_in_bit [OF small, of b]
  have "(unat ?r + 1) * 2 ^ length bs \<le> ((unat r + 1) * 2) * 2 ^ length bs"
    unfolding r by (intro mult_right_mono) auto
  then have "(unat ?r + 1) * 2 ^ length bs \<le> 2 ^ 32" using Cons.prems(3) by (simp add: mult.commute mult.left_commute)
  from Cons.IH [OF 1(2,3) this] 1(1) r show ?case by (auto simp: algebra_simps)
qed simp

lemma br_ReadBits_rest:
  assumes "br_inv br" and "br_rest br = bs @ rest" and "length bs \<le> 32"
  shows "\<exists>br' w. br_ReadBits (int (length bs)) br = (br', Inr w) \<and> br_inv br' \<and> br_rest br' = rest \<and>
     unat w = bits_val bs"
proof -
  have "length bs + length rest = 8 * length (br_data br) - (8 * br_bytePos br + br_bitPos br)"
    using length_br_rest [of br] assms(2) by simp
  then have "\<not> (int (length (br_data br)) - int (br_bytePos br)) * 8 - int (br_bitPos br) < int (length bs)"
    using assms(1) by (auto simp: br_inv_def)
  moreover have "(2::nat) ^ length bs \<le> 2 ^ 32" using assms(3) by (intro power_increasing) auto
  ultimately show ?thesis
    using br_ReadBits_loop_rest [OF assms(1,2), of 0] assms(3) by (simp add: br_ReadBits_def Let_def)
qed

lemma br_ReadBits_short:
  assumes "br_inv br" and "length (br_rest br) < n"
  shows "\<exists>e. br_ReadBits (int n) br = (br, Inl e)"
  using assms length_br_rest [of br] by (auto simp: br_ReadBits_def Let_def br_inv_def)

lemma br_leadingZeros_rest:
  "br_inv br \<Longrightarrow> br_rest br = replicate k False @ True # rest \<Longrightarrow> z + k \<le> 31 \<Longrightarrow>
   \<exists>br'. br_leadingZeros z br = (br', Inr (z + k)) \<and> br_inv br' \<and> br_rest br' = rest"
proof (induction k arbitrary: z br)
  case 0
  then have "br_rest br = True # rest" by simp
  then obtain br1 where "br_ReadBit br = (br1, Inr 1)" "br_inv br1" "br_rest br1 = rest"
    using br_ReadBit_Cons [OF 0(1)] by (metis of_bool_eq(2))
  then show ?case by (subst br_leadingZeros.simps) simp
next
  case (Suc k)
  obtain br1 where 1: "br_ReadBit br = (br1, Inr 0)" "br_inv br1" "br_rest br1 = replicate k False @ True # rest"
    using br_ReadBit_Cons [OF Suc.prems(1), of False "replicate k False @ True # rest"] Suc.prems(2)
    by (metis append_Cons of_bool_eq(1) replicate_Suc)
  have "br_leadingZeros z br = br_leadingZeros (z + 1) br1"
    using 1(1) Suc.prems(3) by (subst br_leadingZeros.simps) simp
  then show ?case using Suc.IH [OF 1(2,3), of "z + 1"] Suc.prems(3) by simp
qed

lemma br_leadingZeros_result:
  "br_inv br \<Longrightarrow> br_leadingZeros z br = (br', Inr m) \<Longrightarrow> z \<le> 31 \<Longrightarrow>
   z \<le> m \<and> m \<le> 31 \<and> br_inv br' \<and> br_rest br = replicate (m - z) False @ True # br_rest br'"
proof (induction z br rule: br_leadingZeros.induct)
  case (1 z br)
  show ?case
  proof (cases "br_rest br")
    case Nil
    then show ?thesis using "1.prems" by (subst (asm) br_leadingZeros.simps) (simp add: br_ReadBit_Nil)
  next
    case (Cons b bs)
    obtain br1 where r: "br_ReadBit br = (br1, Inr (of_bool b))" "br_inv br1" "br_rest br1 = bs"
      by (rule br_ReadBit_Cons [OF "1.prems"(1) Cons])
    show ?thesis
    proof (cases b)
      case True
      then show ?thesis using "1.prems" r Cons by (subst (asm) br_leadingZeros.simps) auto
    next
      case False
      then have lt: "\<not> z + 1 > 31" and next_eq: "br_leadingZeros (z + 1) br1 = (br', Inr m)"
        using "1.prems"(2) r(1) by (subst (asm) br_leadingZeros.simps, auto split: if_splits)+
      have "z + 1 \<le> m \<and> m \<le> 31 \<and> br_inv br' \<and> br_rest br1 = replicate (m - (z + 1)) False @ True # br_rest br'"
        using "1.IH" [OF r(1) [symmetric] refl _ lt r(2) next_eq] False lt by simp
      then show ?thesis using Cons r(3) False by (auto simp: Suc_diff_Suc [symmetric] simp flip: replicate_Suc)
    qed
  qed
qed

lemma unat_ue_value:
  assumes "k \<le> 31" and "unat w < 2 ^ k"
  shows "unat (push_bit k 1 - 1 + w :: u32) = 2 ^ k - 1 + unat w"
proof -
  have p: "(2::nat) ^ k \<le> 2 ^ 31" using assms(1) by (intro power_increasing) auto
  then have one: "unat (push_bit k 1 :: u32) = 2 ^ k"
    using assms(1) by (simp only: unsigned_push_bit_eq) (simp add: take_bit_nat_eq_self)
  then have "(1::u32) \<le> push_bit k 1" by (simp add: word_le_nat_alt)
  then have "unat (push_bit k 1 - 1 :: u32) = 2 ^ k - 1" using one by (simp add: unat_sub)
  moreover have "2 ^ k - 1 + unat w < 2 ^ 32" using p assms(2) by simp
  ultimately show ?thesis by (simp add: unat_word_ariths)
qed

text \<open>Reading a code from the unread bits, and the converse: whatever is read had that code.\<close>

lemma br_ReadUE_code:
  assumes "br_inv br" and "br_rest br = ue_code v @ rest" and "v < 2 ^ 32 - 1"
  shows "\<exists>br' w. br_ReadUE br = (br', Inr w) \<and> unat w = v \<and> br_inv br' \<and> br_rest br' = rest"
proof -
  obtain k s where v: "v = 2 ^ k - 1 + s" "s < 2 ^ k" by (rule ue_number_split)
  have "(2::nat) ^ k < 2 ^ 32" using assms(3) v(1) by linarith
  then have k: "k \<le> 31" using power_less_imp_less_exp [of "2::nat" k 32] by simp
  have rest: "br_rest br = replicate k False @ True # to_bits k s @ rest"
    using assms(2) ue_code_split [OF v(2)] by (simp add: v(1))
  obtain br1 where 1: "br_leadingZeros 0 br = (br1, Inr k)" "br_inv br1" "br_rest br1 = to_bits k s @ rest"
    using br_leadingZeros_rest [OF assms(1) rest, of 0] k by auto
  show ?thesis
  proof (cases "k = 0")
    case True
    then show ?thesis using 1 v by (simp add: br_ReadUE_def)
  next
    case False
    obtain br2 w where "br_ReadBits (int k) br1 = (br2, Inr w)" "br_inv br2" "br_rest br2 = rest" "unat w = s"
      using br_ReadBits_rest [OF 1(2,3)] k bits_val_to_bits [OF v(2)] by auto
    then show ?thesis using 1(1) False unat_ue_value [OF k, of w] v by (simp add: br_ReadUE_def)
  qed
qed

lemma br_ReadUE_result:
  assumes "br_inv br" and "br_ReadUE br = (br', Inr w)"
  shows "br_rest br = ue_code (unat w) @ br_rest br'" and "br_inv br'" and "unat w < 2 ^ 32 - 1"
proof -
  obtain br1 k where 1: "br_leadingZeros 0 br = (br1, Inr k)"
    using assms(2) by (auto simp: br_ReadUE_def split: prod.splits sum.splits)
  have k: "k \<le> 31" "br_inv br1" "br_rest br = replicate k False @ True # br_rest br1"
    using br_leadingZeros_result [OF assms(1) 1] by auto
  obtain bs where bs: "br_rest br1 = bs @ br_rest br'" "length bs = k" "unat w = 2 ^ k - 1 + bits_val bs" "br_inv br'"
  proof (cases "k = 0")
    case True
    then show ?thesis using assms(2) 1 k that [of "[]"] by (simp add: br_ReadUE_def)
  next
    case False
    then obtain v where v: "br_ReadBits (int k) br1 = (br', Inr v)" "w = push_bit k 1 - 1 + v"
      using assms(2) 1 by (auto simp: br_ReadUE_def split: prod.splits sum.splits)
    then have "k \<le> length (br_rest br1)" using br_ReadBits_short [OF k(2), of k] by fastforce
    then have take: "br_rest br1 = take k (br_rest br1) @ drop k (br_rest br1)" "length (take k (br_rest br1)) = k" by auto
    have "br_inv br'" "br_rest br' = drop k (br_rest br1)" "unat v = bits_val (take k (br_rest br1))"
      using br_ReadBits_rest [OF k(2) take(1)] take(2) k(1) v(1) by auto
    moreover have "bits_val (take k (br_rest br1)) < 2 ^ k" using bits_val_less take(2) by metis
    ultimately show ?thesis using that [of "take k (br_rest br1)"] take unat_ue_value [OF k(1), of v] v(2) by simp
  qed
  have s: "bits_val bs < 2 ^ k" using bits_val_less bs(2) by metis
  have "ue_code (unat w) = replicate k False @ True # bs"
    using ue_code_split [OF s] to_bits_bits_val [of bs] bs(2,3) by simp
  then show "br_rest br = ue_code (unat w) @ br_rest br'" using k(3) bs(1) by simp
  show "br_inv br'" by (rule bs(4))
  have "(2::nat) ^ k \<le> 2 ^ 31" using k(1) by (intro power_increasing) auto
  then show "unat w < 2 ^ 32 - 1" using s bs(3) by simp
qed

lemma br_SkipBits_loop_rest:
  assumes "br_inv br"
  shows "\<exists>br'. br_SkipBits_loop n br = (br', if n \<le> length (br_rest br) then None else Some EndOfData) \<and>
     br_inv br' \<and> br_rest br' = drop n (br_rest br)"
  using assms
proof (induction n arbitrary: br)
  case (Suc n)
  show ?case
  proof (cases "br_rest br")
    case Nil
    then show ?thesis using br_ReadBit_Nil [OF Suc.prems] Suc.prems by simp
  next
    case (Cons b bs)
    obtain br1 where "br_ReadBit br = (br1, Inr (of_bool b))" "br_inv br1" "br_rest br1 = bs"
      by (rule br_ReadBit_Cons [OF Suc.prems Cons])
    then show ?thesis using Suc.IH [of br1] Cons by simp
  qed
qed simp

section \<open>Properties\<close>

lemma br_inv_New: "br_inv (NewBitReader data)" "br_rest (NewBitReader data) = bits_of data"
  by (simp_all add: br_inv_def br_rest_def NewBitReader_def)

text \<open>\<^verbatim>\<open>ReadUE\<close> is the inverse of the unsigned Exp-Golomb code: it returns \<open>w\<close> and leaves
  \<open>rest\<close> unread exactly when the unread bits are the code of \<open>w\<close> followed by \<open>rest\<close>, for every
  32-bit value but the largest, whose code has 32 leading zeros and is refused.\<close>

theorem read_ue_iff_code:
  assumes "br_inv br"
  shows "(\<exists>br'. br_ReadUE br = (br', Inr w) \<and> br_rest br' = rest) \<longleftrightarrow>
     unat w < 2 ^ 32 - 1 \<and> br_rest br = ue_code (unat w) @ rest"
proof
  assume "\<exists>br'. br_ReadUE br = (br', Inr w) \<and> br_rest br' = rest"
  then show "unat w < 2 ^ 32 - 1 \<and> br_rest br = ue_code (unat w) @ rest"
    using br_ReadUE_result [OF assms] by blast
next
  assume "unat w < 2 ^ 32 - 1 \<and> br_rest br = ue_code (unat w) @ rest"
  then obtain br' v where "br_ReadUE br = (br', Inr v)" "unat v = unat w" "br_rest br' = rest"
    using br_ReadUE_code [OF assms] by blast
  then show "\<exists>br'. br_ReadUE br = (br', Inr w) \<and> br_rest br' = rest" by (simp add: word_unat_eq_iff)
qed

theorem read_ue_iff_code_witness:
  "\<exists>br'. br_ReadUE (NewBitReader [0xA6]) = (br', Inr 0)"
proof -
  have "ue_code 0 = [True]" by (simp add: ue_code_def log2.simps)
  moreover have "bits_of [0xA6] = [True] @ [False, True, False, False, True, True, False]"
    by (simp add: bits_of_def byte_bits_def upt_rec bit_simps)
  ultimately show ?thesis
    using read_ue_iff_code [OF br_inv_New(1), of "[0xA6]" 0 "[False, True, False, False, True, True, False]"]
    by (auto simp: br_inv_New(2))
qed

lemma se_decode:
  fixes w :: u32
  assumes "\<bar>i\<bar> < 2 ^ 31" and "unat w = se_number i"
  shows "(if w mod 2 = 0 then sint (- (w div 2)) else sint ((w + 1) div 2)) = i"
proof (cases "i \<le> 0")
  case True
  then have "unat w = 2 * nat (- i)" using assms(2) by (simp add: se_number_def)
  then have z: "unat (w mod 2) = 0" and h: "unat (w div 2) = nat (- i)" by (simp_all add: unat_mod unat_div)
  have "w mod 2 = 0" using z by (rule unat_eq_zero [THEN iffD1])
  have "uint (w div 2) = int (unat (w div 2))" by (rule uint_nat)
  then have u: "uint (w div 2) = - i" unfolding h using True by simp
  have "w div 2 = word_of_int (uint (w div 2))" by simp
  then have "- (w div 2) = word_of_int i" by (simp only: u) simp
  moreover have "sint (word_of_int i :: u32) = i"
    using assms(1) by (simp add: signed_of_int signed_take_bit_int_eq_self)
  ultimately show ?thesis using \<open>w mod 2 = 0\<close> by simp
next
  case False
  then have u: "unat w = 2 * nat i - 1" "1 \<le> nat i" "nat i < 2 ^ 31" using assms by (auto simp: se_number_def)
  then have "unat (w + 1) = 2 * nat i" by (simp add: unat_word_ariths)
  then have "unat ((w + 1) div 2) = nat i" by (simp add: unat_div)
  moreover have "unat (w mod 2) = 1"
  proof -
    have "\<exists>j. unat w = 2 * j + 1" using u(1,2) by (intro exI [of _ "nat i - 1"]) simp
    then show ?thesis by (auto simp: unat_mod)
  qed
  ultimately have "w mod 2 \<noteq> 0" and "uint ((w + 1) div 2) = i"
    using False uint_nat [of "(w + 1) div 2"] by (metis unat_0 zero_neq_one, simp)
  then show ?thesis using assms(1) by (simp add: sint_uint signed_take_bit_int_eq_self)
qed

lemma read_se_code_ex:
  assumes "br_inv br" and "\<bar>i\<bar> < 2 ^ 31" and "br_rest br = ue_code (se_number i) @ rest"
  shows "\<exists>br'. br_ReadSE br = (br', Inr i) \<and> br_inv br' \<and> br_rest br' = rest"
proof -
  have "se_number i < 2 ^ 32 - 1" using assms(2) by (auto simp: se_number_def)
  then obtain br' w where "br_ReadUE br = (br', Inr w)" "unat w = se_number i" "br_inv br'" "br_rest br' = rest"
    using br_ReadUE_code [OF assms(1,3)] by blast
  then show ?thesis using se_decode [OF assms(2), of w] by (auto simp: br_ReadSE_def split: if_splits)
qed

text \<open>\<^verbatim>\<open>ReadSE\<close> decodes the signed Exp-Golomb code of every number of absolute value below
  2 to the 31.\<close>

theorem read_se_code:
  assumes "br_inv br" and "\<bar>i\<bar> < 2 ^ 31" and "br_rest br = ue_code (se_number i) @ rest"
  shows "\<exists>br'. br_ReadSE br = (br', Inr i) \<and> br_inv br' \<and> br_rest br' = rest"
  using assms by (rule read_se_code_ex)

theorem read_se_code_witness: "\<exists>br'. br_ReadSE (NewBitReader [0x68]) = (br', Inr (- 1))"
proof -
  have "ue_code (se_number (- 1)) = [False, True, True]" by code_simp
  moreover have "bits_of [0x68] = [False, True, True] @ [False, True, False, False, False]"
    by (simp add: bits_of_def byte_bits_def upt_rec bit_simps)
  ultimately show ?thesis
    using read_se_code [OF br_inv_New(1), of "- 1" "[0x68]" "[False, True, False, False, False]"]
    by (auto simp: br_inv_New(2))
qed

text \<open>\<^verbatim>\<open>ReadBits\<close> of up to 32 bits returns the number the next bits denote, most significant
  first, and consumes exactly them; it reports an error, and consumes nothing, when fewer are left.\<close>

theorem read_bits_value:
  assumes "br_inv br" and "n \<le> 32"
  shows "if n \<le> length (br_rest br)
     then \<exists>br' w. br_ReadBits (int n) br = (br', Inr w) \<and> unat w = bits_val (take n (br_rest br)) \<and>
       br_rest br' = drop n (br_rest br)
     else \<exists>e. br_ReadBits (int n) br = (br, Inl e)"
proof (cases "n \<le> length (br_rest br)")
  case True
  then have "length (take n (br_rest br)) = n" by simp
  then show ?thesis
    using True assms(2) br_ReadBits_rest [OF assms(1), of "take n (br_rest br)" "drop n (br_rest br)"] by auto
qed (use br_ReadBits_short [OF assms(1), of n] in simp)

theorem read_bits_value_witness:
  "\<exists>br' w. br_ReadBits (int 4) (NewBitReader [0x68]) = (br', Inr w) \<and> unat w = 6"
proof -
  have "bits_of [0x68] = [False, True, True, False, True, False, False, False]"
    by (simp add: bits_of_def byte_bits_def upt_rec bit_simps)
  then show ?thesis
    using read_bits_value [OF br_inv_New(1), of 4 "[0x68]"] by (auto simp: br_inv_New(2))
qed

end
