(* ===== verification/RBSP.thy ===== *)
theory RBSP
  imports Mirror_Prelude
begin

text \<open>
  Emulation prevention for NAL unit payloads,
  \<^verbatim>\<open>internal/ingestion/types/rbsp.go\<close>: the removal and the insertion of the byte 0x03 that
  keeps start codes out of a payload, their validity check and the extraction of the
  raw payload of a NAL unit.
\<close>

section \<open>Operations\<close>

datatype rbsp_error = EmptyNALUnit | NALUnitTooShort | InvalidRBSP byte int

text \<open>The loop of \<^verbatim>\<open>RemoveEmulationPreventionBytes\<close>; the list is what remains of the input.\<close>

fun remove_epb_loop :: "nat \<Rightarrow> byte list \<Rightarrow> byte list" where
  "remove_epb_loop zeroCount [] = []"
| "remove_epb_loop zeroCount (b # rest) =
     (if zeroCount \<ge> 2 \<and> b = 0x03 \<and> (case rest of next # _ \<Rightarrow> next \<le> 0x03 | [] \<Rightarrow> True)
      then remove_epb_loop 0 rest
      else b # remove_epb_loop (if b = 0x00 then zeroCount + 1 else 0) rest)"

definition RemoveEmulationPreventionBytes :: "byte list \<Rightarrow> rbsp_error + byte list" where
  "RemoveEmulationPreventionBytes data =
     (if length data < 1 then Inl EmptyNALUnit else Inr (remove_epb_loop 0 data))"

fun add_epb_loop :: "nat \<Rightarrow> byte list \<Rightarrow> byte list" where
  "add_epb_loop zeroCount [] = []"
| "add_epb_loop zeroCount (b # rest) =
     (if zeroCount \<ge> 2 \<and> b \<le> 0x03
      then 0x03 # b # add_epb_loop (if b = 0x00 then 1 else 0) rest
      else b # add_epb_loop (if b = 0x00 then zeroCount + 1 else 0) rest)"

definition AddEmulationPreventionBytes :: "byte list \<Rightarrow> byte list" where
  "AddEmulationPreventionBytes data = (if length data < 1 then data else add_epb_loop 0 data)"

fun validate_rbsp_loop :: "nat \<Rightarrow> int \<Rightarrow> byte list \<Rightarrow> rbsp_error option" where
  "validate_rbsp_loop zeroCount i [] = None"
| "validate_rbsp_loop zeroCount i (b # rest) =
     (if zeroCount \<ge> 2 \<and> b \<le> 0x03 then Some (InvalidRBSP b (i - 2))
      else validate_rbsp_loop (if b = 0x00 then zeroCount + 1 else 0) (i + 1) rest)"

definition ValidateRBSP :: "byte list \<Rightarrow> rbsp_error option" where
  "ValidateRBSP data = validate_rbsp_loop 0 0 data"

definition ExtractRBSPFromNALUnit :: "byte list \<Rightarrow> rbsp_error + byte list" where
  "ExtractRBSPFromNALUnit nalUnit =
     (if length nalUnit < 1 then Inl NALUnitTooShort
      else
        (let rbspData = drop 1 nalUnit
         in if length rbspData = 0 then Inr [] else RemoveEmulationPreventionBytes rbspData))"

definition ExtractRBSPFromPayload :: "byte list \<Rightarrow> rbsp_error + byte list" where
  "ExtractRBSPFromPayload payload =
     (if length payload = 0 then Inr [] else RemoveEmulationPreventionBytes payload)"

text \<open>The scans of \<^verbatim>\<open>removeTrailingBytes\<close>, downwards from a position; \<open>None\<close> is a position below 0.\<close>

fun last_nonzero :: "byte list \<Rightarrow> nat \<Rightarrow> nat option" where
  "last_nonzero data n =
     (if data ! n = 0x00 then case n of 0 \<Rightarrow> None | Suc m \<Rightarrow> last_nonzero data m else Some n)"

declare last_nonzero.simps [simp del]

fun stop_bit_pos :: "byte \<Rightarrow> nat \<Rightarrow> nat option" where
  "stop_bit_pos b n = (if \<not> bit b n then case n of 0 \<Rightarrow> None | Suc m \<Rightarrow> stop_bit_pos b m else Some n)"

declare stop_bit_pos.simps [simp del]

definition removeTrailingBytes :: "byte list \<Rightarrow> byte list" where
  "removeTrailingBytes data =
     (if length data = 0 then data
      else case last_nonzero data (length data - 1) of
          None \<Rightarrow> []
        | Some lastNonZero \<Rightarrow>
            (case stop_bit_pos (data ! lastNonZero) 7 of
               None \<Rightarrow> take (lastNonZero + 1) data
             | Some stopBitPos \<Rightarrow>
                 if stopBitPos = 7 then take lastNonZero data else take (lastNonZero + 1) data))"

definition CompareRBSP :: "byte list \<Rightarrow> byte list \<Rightarrow> bool" where
  "CompareRBSP a b =
     (if length a = 0 \<and> length b = 0 then True
      else if length a = 0 \<or> length b = 0 then False
      else case RemoveEmulationPreventionBytes a of
          Inl _ \<Rightarrow> False
        | Inr aClean \<Rightarrow>
            (case RemoveEmulationPreventionBytes b of Inl _ \<Rightarrow> False | Inr bClean \<Rightarrow> aClean = bClean))"

section \<open>Lemmas on the loops\<close>

lemma remove_add_loop: "remove_epb_loop z (add_epb_loop z data) = data"
proof (induction z data rule: add_epb_loop.induct)
  case (2 z b rest)
  show ?case
  proof (cases "z \<ge> 2 \<and> b \<le> 3")
    case True
    then have "remove_epb_loop 0 (b # add_epb_loop (if b = 0 then 1 else 0) rest) = b # rest"
      using "2.IH"(1) by (simp split: if_splits)
    then show ?thesis using True by simp
  next
    case False
    then have "\<not> (2 \<le> z \<and> b = 3)" by auto
    then show ?thesis using False "2.IH"(2) by auto
  qed
qed simp

lemma validate_add_loop: "validate_rbsp_loop z i data = None \<longleftrightarrow> add_epb_loop z data = data"
proof (induction z i data rule: validate_rbsp_loop.induct)
  case (2 z i b rest)
  have "length (add_epb_loop z' xs) \<ge> length xs" for z' and xs :: "byte list"
    by (induction z' xs rule: add_epb_loop.induct) auto
  then have "0x03 # b # add_epb_loop z' rest \<noteq> b # rest" for z'
    by (metis impossible_Cons length_Cons list.inject not_less_eq_eq order_trans)
  then show ?case using "2.IH" by auto
qed simp

text \<open>A start-code prefix: two zero bytes and a byte of at most 2.\<close>

fun has_start_code :: "byte list \<Rightarrow> bool" where
  "has_start_code (a # b # c # rest) = (a = 0 \<and> b = 0 \<and> c \<le> 2 \<or> has_start_code (b # c # rest))"
| "has_start_code xs = False"

lemma start_code_nonzero1: "a \<noteq> 0 \<Longrightarrow> has_start_code (a # xs) = has_start_code xs"
  by (cases "(xs, tl xs)" rule: prod.exhaust; cases xs; cases "tl xs") auto

lemma start_code_nonzero2: "b \<noteq> 0 \<Longrightarrow> has_start_code (a # b # xs) = has_start_code xs"
  by (cases xs) (auto simp: start_code_nonzero1)

lemma start_code_zeros_large: "2 < c \<Longrightarrow> has_start_code (replicate (min z 2) 0 @ c # xs) = has_start_code xs"
proof -
  assume c: "2 < c"
  then have nz: "c \<noteq> 0" and "\<not> c \<le> 2" by auto
  consider "min z 2 = 0" | "min z 2 = Suc 0" | "min z 2 = Suc (Suc 0)" by linarith
  then show ?thesis
    using nz \<open>\<not> c \<le> 2\<close> by cases (simp_all add: start_code_nonzero1 start_code_nonzero2)
qed

lemma add_epb_no_start_code: "\<not> has_start_code (replicate (min z 2) 0 @ add_epb_loop z data)"
proof (induction z data rule: add_epb_loop.induct)
  case (1 z)
  consider "min z 2 = 0" | "min z 2 = Suc 0" | "min z 2 = Suc (Suc 0)" by linarith
  then show ?case by cases simp_all
next
  case (2 z b rest)
  show ?case
  proof (cases "z \<ge> 2 \<and> b \<le> 3")
    case True
    have "\<not> has_start_code (b # add_epb_loop (if b = 0 then 1 else 0) rest)"
      using "2.IH"(1) [OF True] by (simp add: start_code_nonzero1 split: if_splits)
    then show ?thesis using True start_code_zeros_large [of 3 z] by simp
  next
    case False
    note IH = "2.IH"(2) [OF False]
    show ?thesis
    proof (cases "b = 0")
      case True
      then have "z < 2" using False by simp
      then have "z = 0 \<or> z = Suc 0" by linarith
      then show ?thesis using IH True by auto
    next
      case nz: False
      then have "\<not> has_start_code (add_epb_loop 0 rest)" using IH by simp
      moreover have "has_start_code (replicate (min z 2) 0 @ b # xs) = has_start_code xs" for xs
      proof (cases "z \<ge> 2")
        case True
        then have "2 < b" using False by (simp add: not_le order.strict_trans [of 2 3])
        then show ?thesis by (rule start_code_zeros_large)
      next
        case False
        then have "z = 0 \<or> z = Suc 0" by linarith
        then show ?thesis using nz by (auto simp: start_code_nonzero1 start_code_nonzero2)
      qed
      ultimately show ?thesis using nz False by auto
    qed
  qed
qed

section \<open>Properties\<close>

text \<open>C9: removing the emulation prevention bytes undoes adding them, for every non-empty payload.\<close>

theorem rbsp_roundtrip:
  assumes "data \<noteq> []"
  shows "RemoveEmulationPreventionBytes (AddEmulationPreventionBytes data) = Inr data"
proof -
  have "AddEmulationPreventionBytes data \<noteq> []"
    using assms by (cases data) (auto simp: AddEmulationPreventionBytes_def)
  then show ?thesis
    using assms by (simp add: RemoveEmulationPreventionBytes_def AddEmulationPreventionBytes_def remove_add_loop Suc_le_eq)
qed

theorem rbsp_roundtrip_witness:
  "RemoveEmulationPreventionBytes (AddEmulationPreventionBytes [0, 0, 0, 0, 1]) = Inr [0, 0, 0, 0, 1]"
  by (rule rbsp_roundtrip) simp

text \<open>a payload with emulation prevention bytes added holds no start-code prefix, nor any other
  pair of zero bytes followed by a byte of at most 2, so a scan for start codes never cuts it.\<close>

theorem added_epb_hides_start_codes: "\<not> has_start_code (AddEmulationPreventionBytes data)"
  using add_epb_no_start_code [of 0 data] by (simp add: AddEmulationPreventionBytes_def)

text \<open>\<^verbatim>\<open>ValidateRBSP\<close> accepts exactly the payloads that need no emulation prevention byte.\<close>

theorem validate_rbsp_exact: "ValidateRBSP data = None \<longleftrightarrow> AddEmulationPreventionBytes data = data"
  by (simp add: ValidateRBSP_def AddEmulationPreventionBytes_def validate_add_loop)

end
