(* ===== verification/Depacketizer.thy ===== *)
theory Depacketizer
  imports Mirror_Prelude "HOL-Library.Sublist"
begin

unbundle bit_operations_syntax

text \<open>
  What the depacketizers of \<^verbatim>\<open>internal/ingestion/codec\<close> share: the fields of an RTP packet
  they read, the size limits of \<^verbatim>\<open>internal/ingestion/security/limits.go\<close>, and the
  contracts of a depacketizer that emits Annex B units (locale \<open>annexb_depacketizer\<close>) and
  of one that reassembles fragmented units (locale \<open>fu_reassembler\<close>).
\<close>

section \<open>Packets and limits\<close>

record rtp_packet =
  pk_Version :: byte
  pk_PayloadType :: byte
  pk_SequenceNumber :: u16
  pk_Timestamp :: u32
  pk_SSRC :: u32
  pk_Payload :: "byte list"

definition MaxNALUnitSize :: nat where
  "MaxNALUnitSize = 10 * 1024 * 1024"

definition MaxFragmentSize :: nat where
  "MaxFragmentSize = 10 * 1024 * 1024"

abbreviation start_code :: "byte list" where
  "start_code \<equiv> [0x00, 0x00, 0x00, 0x01]"

datatype depack_error =
    PayloadTooShort
  | ForbiddenZeroBit
  | ReservedNALType nat
  | UnsupportedNALType nat
  | AggTruncated nat
  | AggZeroSize nat
  | NALUnitTooLarge nat nat
  | AggOutOfBounds nat nat
  | AggTooMany nat
  | BadTemporalId
  | BadNestedNALType nat
  | FragmentTooLarge
  | BadOBULength
  | OBUTooLong

definition prependStartCode :: "byte list \<Rightarrow> byte list" where
  "prependStartCode nalUnit = start_code @ nalUnit"

text \<open>The signed distance of 16-bit sequence numbers.\<close>

definition sequenceDistance :: "u16 \<Rightarrow> u16 \<Rightarrow> int" where
  "sequenceDistance s1 s2 = sint (s1 - s2)"

definition total_size :: "byte list list \<Rightarrow> nat" where
  "total_size fs = sum_list (map length fs)"

lemma total_size_simps [simp]:
  "total_size [] = 0" "total_size (f # fs) = length f + total_size fs"
  "total_size (fs @ gs) = total_size fs + total_size gs"
  by (simp_all add: total_size_def)

lemma length_concat_total: "length (concat fs) = total_size fs"
  by (simp add: total_size_def length_concat)

lemma sequenceDistance_0: "sequenceDistance a b = 0 \<longleftrightarrow> a = b"
proof
  assume "sequenceDistance a b = 0"
  then have "sint (a - b) = sint (0 :: u16)" by (simp add: sequenceDistance_def)
  then have "a - b = 0" by (rule signed_word_eqI)
  then show "a = b" by simp
qed (simp add: sequenceDistance_def)

lemma sequenceDistance_1: "sequenceDistance a b = 1 \<longleftrightarrow> a = b + 1"
proof
  assume "sequenceDistance a b = 1"
  then have "sint (a - b) = sint (1 :: u16)" by (simp add: sequenceDistance_def)
  then have "a - b = 1" by (rule signed_word_eqI)
  then show "a = b + 1" by (simp add: algebra_simps)
qed (simp add: sequenceDistance_def)

lemma MaxNALUnitSize_ge: "5 \<le> MaxNALUnitSize"
  by (simp add: MaxNALUnitSize_def)

section \<open>Aggregation packets\<close>

text \<open>Both codecs put a 16-bit big-endian size before every aggregated unit.\<close>

definition be16 :: "byte \<Rightarrow> byte \<Rightarrow> nat" where
  "be16 hi lo = 256 * unat hi + unat lo"

definition agg_element :: "byte list \<Rightarrow> byte list" where
  "agg_element u = [word_of_nat (length u div 256), word_of_nat (length u mod 256)] @ u"

definition agg_body :: "byte list list \<Rightarrow> byte list" where
  "agg_body us = concat (map agg_element us)"

lemma be16_length: "n < 65536 \<Longrightarrow> be16 (word_of_nat (n div 256)) (word_of_nat (n mod 256)) = n"
  by (simp add: be16_def unsigned_of_nat take_bit_nat_eq_self)

lemma agg_element_at:
  assumes "length u < 65536"
  shows "be16 ((pre @ agg_element u @ post) ! length pre) ((pre @ agg_element u @ post) ! (length pre + 1)) = length u"
    and "gslice (pre @ agg_element u @ post) (length pre + 2) (length pre + 2 + length u) = u"
  using be16_length [OF assms] by (simp_all add: agg_element_def nth_append gslice_def)

section \<open>The contract of a depacketizer\<close>

type_synonym 'd depack = "nanos \<Rightarrow> rtp_packet \<Rightarrow> 'd \<Rightarrow> 'd \<times> (depack_error + byte list list)"

text \<open>Feeding timed packets to a depacketizer and collecting all units it emits.\<close>

fun depack_run :: "'d depack \<Rightarrow> (nanos \<times> rtp_packet) list \<Rightarrow> 'd \<Rightarrow> 'd \<times> byte list list" where
  "depack_run dp [] d = (d, [])"
| "depack_run dp ((now, p) # ps) d =
     (let (d, r) = dp now p d;
          (d, units) = depack_run dp ps d
      in (d, (case r of Inl _ \<Rightarrow> [] | Inr us \<Rightarrow> us) @ units))"

locale annexb_depacketizer =
  fixes invar :: "'d \<Rightarrow> bool"
    and held :: "'d \<Rightarrow> nat"
    and dp :: "'d depack"
  assumes step_invar: "invar d \<Longrightarrow> dp now p d = (d', r) \<Longrightarrow> invar d'"
    and step_units: "invar d \<Longrightarrow> dp now p d = (d', Inr us) \<Longrightarrow> u \<in> set us \<Longrightarrow> \<exists>nal. u = start_code @ nal \<and> nal \<noteq> []"
    and held_bounded: "invar d \<Longrightarrow> held d \<le> MaxNALUnitSize"
begin

lemma run_invar_units:
  "invar d \<Longrightarrow> depack_run dp ps d = (d', us) \<Longrightarrow>
   invar d' \<and> (\<forall>u \<in> set us. \<exists>nal. u = start_code @ nal \<and> nal \<noteq> [])"
proof (induction ps arbitrary: d us)
  case (Cons q ps)
  obtain now p where q: "q = (now, p)" by (cases q)
  obtain d1 r where 1: "dp now p d = (d1, r)" by (cases "dp now p d")
  obtain us1 where 2: "depack_run dp ps d1 = (d', us1)" and us: "us = (case r of Inl _ \<Rightarrow> [] | Inr us \<Rightarrow> us) @ us1"
    using Cons.prems(2) 1 by (auto simp: q split: prod.splits)
  have "invar d1" using step_invar [OF Cons.prems(1) 1] .
  from Cons.IH [OF this 2] step_units [OF Cons.prems(1)] 1 us show ?case by (auto split: sum.splits)
qed simp

lemma run_memory_bounded: "invar d \<Longrightarrow> held (fst (depack_run dp ps d)) \<le> MaxNALUnitSize"
  using run_invar_units [of d ps] held_bounded by (metis prod.collapse)

end

section \<open>Reassembly of fragmented units\<close>

fun consecutive :: "rtp_packet list \<Rightarrow> bool" where
  "consecutive (p # q # ps) = (pk_SequenceNumber q = pk_SequenceNumber p + 1 \<and> consecutive (q # ps))"
| "consecutive ps = True"

text \<open>Packets that make up one unit: a start fragment, further fragments, consecutive numbers.\<close>

definition fu_chain :: "(rtp_packet \<Rightarrow> bool) \<Rightarrow> rtp_packet list \<Rightarrow> bool" where
  "fu_chain is_start qs \<longleftrightarrow> qs \<noteq> [] \<and> is_start (hd qs) \<and> (\<forall>q \<in> set (tl qs). \<not> is_start q) \<and> consecutive qs"

definition fu_parts :: "(rtp_packet \<Rightarrow> byte list) \<Rightarrow> (rtp_packet \<Rightarrow> byte list) \<Rightarrow> rtp_packet list \<Rightarrow> byte list list" where
  "fu_parts head body qs = head (hd qs) # map body qs"

lemma consecutive_snoc:
  "qs \<noteq> [] \<Longrightarrow> consecutive (qs @ [p]) \<longleftrightarrow> consecutive qs \<and> pk_SequenceNumber p = pk_SequenceNumber (last qs) + 1"
  by (induction qs rule: consecutive.induct) auto

lemma fu_chain_snoc:
  "fu_chain is_start qs \<Longrightarrow> \<not> is_start p \<Longrightarrow> pk_SequenceNumber p = pk_SequenceNumber (last qs) + 1 \<Longrightarrow>
   fu_chain is_start (qs @ [p])"
  by (auto simp: fu_chain_def consecutive_snoc)

lemma fu_parts_snoc: "qs \<noteq> [] \<Longrightarrow> fu_parts head body (qs @ [p]) = fu_parts head body qs @ [body p]"
  by (simp add: fu_parts_def)

locale fu_reassembler =
  fixes invar :: "'d \<Rightarrow> bool"
    and frags :: "'d \<Rightarrow> byte list list"
    and lastSeq :: "'d \<Rightarrow> u16"
    and fragment :: "rtp_packet \<Rightarrow> bool"
    and is_start :: "rtp_packet \<Rightarrow> bool"
    and is_end :: "rtp_packet \<Rightarrow> bool"
    and head :: "rtp_packet \<Rightarrow> byte list"
    and body :: "rtp_packet \<Rightarrow> byte list"
    and dp :: "'d depack"
  assumes frag_invar: "invar d \<Longrightarrow> fragment p \<Longrightarrow> dp now p d = (d', r) \<Longrightarrow> invar d'"
    and frag_seq: "invar d \<Longrightarrow> fragment p \<Longrightarrow> dp now p d = (d', r) \<Longrightarrow> lastSeq d' = pk_SequenceNumber p"
    and frag_cases: "invar d \<Longrightarrow> fragment p \<Longrightarrow> dp now p d = (d', r) \<Longrightarrow>
      frags d' = [] \<and> r = Inr [] \<or>
      frags d' = frags d \<and> r = Inr [] \<and> pk_SequenceNumber p = lastSeq d \<or>
      (is_start p \<or> frags d \<noteq> [] \<and> pk_SequenceNumber p = lastSeq d + 1) \<and>
      (if is_end p
       then frags d' = [] \<and> r = Inr [concat ((if is_start p then [head p] else frags d) @ [body p])]
       else frags d' = (if is_start p then [head p] else frags d) @ [body p] \<and> r = Inr [])"
begin

text \<open>The fragments held are those of a chain among the packets received so far.\<close>

lemma tracks_step:
  assumes tr: "frags d \<noteq> [] \<longrightarrow> (\<exists>qs. subseq qs ps \<and> fu_chain is_start qs \<and> frags d = fu_parts head body qs \<and>
      lastSeq d = pk_SequenceNumber (last qs))"
    and inv: "invar d" and frag: "fragment p" and run: "dp now p d = (d', r)"
  shows "frags d' \<noteq> [] \<longrightarrow> (\<exists>qs. subseq qs (ps @ [p]) \<and> fu_chain is_start qs \<and> frags d' = fu_parts head body qs \<and>
      lastSeq d' = pk_SequenceNumber (last qs))"
    and "r = Inr us \<Longrightarrow> u \<in> set us \<Longrightarrow> \<exists>qs. subseq qs (ps @ [p]) \<and> fu_chain is_start qs \<and> last qs = p \<and>
      is_end p \<and> u = concat (fu_parts head body qs)"
proof -
  note sq = frag_seq [OF inv frag run]
  have new: "\<exists>qs. subseq qs (ps @ [p]) \<and> fu_chain is_start qs \<and> last qs = p \<and>
      (if is_start p then [head p] else frags d) @ [body p] = fu_parts head body qs"
    if ok: "is_start p \<or> frags d \<noteq> [] \<and> pk_SequenceNumber p = lastSeq d + 1"
  proof (cases "is_start p")
    case True
    then show ?thesis by (intro exI [of _ "[p]"]) (simp add: fu_chain_def fu_parts_def list_emb_append2)
  next
    case False
    then obtain qs where qs: "subseq qs ps" "fu_chain is_start qs" "frags d = fu_parts head body qs"
      "pk_SequenceNumber p = pk_SequenceNumber (last qs) + 1" using ok tr by auto
    then have "fu_parts head body (qs @ [p]) = fu_parts head body qs @ [body p]"
      by (intro fu_parts_snoc) (simp add: fu_chain_def)
    with qs False show ?thesis by (intro exI [of _ "qs @ [p]"]) (simp add: fu_chain_snoc)
  qed
  consider "frags d' = []" "r = Inr []" | "frags d' = frags d" "r = Inr []" "pk_SequenceNumber p = lastSeq d"
    | qs where "subseq qs (ps @ [p])" "fu_chain is_start qs" "last qs = p"
        "if is_end p then frags d' = [] \<and> r = Inr [concat (fu_parts head body qs)]
         else frags d' = fu_parts head body qs \<and> r = Inr []"
    using frag_cases [OF inv frag run] new by metis
  then have "(frags d' \<noteq> [] \<longrightarrow> (\<exists>qs. subseq qs (ps @ [p]) \<and> fu_chain is_start qs \<and> frags d' = fu_parts head body qs \<and>
      lastSeq d' = pk_SequenceNumber (last qs))) \<and>
    (r = Inr us \<longrightarrow> u \<in> set us \<longrightarrow> (\<exists>qs. subseq qs (ps @ [p]) \<and> fu_chain is_start qs \<and> last qs = p \<and>
      is_end p \<and> u = concat (fu_parts head body qs)))"
  proof cases
    case 2
    then show ?thesis using tr sq by auto
  next
    case 3
    then show ?thesis using sq by (cases "is_end p") auto
  qed simp
  then show "frags d' \<noteq> [] \<longrightarrow> (\<exists>qs. subseq qs (ps @ [p]) \<and> fu_chain is_start qs \<and> frags d' = fu_parts head body qs \<and>
      lastSeq d' = pk_SequenceNumber (last qs))"
    "r = Inr us \<Longrightarrow> u \<in> set us \<Longrightarrow> \<exists>qs. subseq qs (ps @ [p]) \<and> fu_chain is_start qs \<and> last qs = p \<and>
      is_end p \<and> u = concat (fu_parts head body qs)" by auto
qed

text \<open>Every unit emitted in a run over fragments is a complete chain of received packets.\<close>

lemma run_no_holes:
  assumes "invar d"
    and "frags d \<noteq> [] \<longrightarrow> (\<exists>qs. subseq qs pre \<and> fu_chain is_start qs \<and> frags d = fu_parts head body qs \<and>
      lastSeq d = pk_SequenceNumber (last qs))"
    and "\<forall>(now, p) \<in> set ps. fragment p" and "depack_run dp ps d = (d', us)" and "u \<in> set us"
  shows "\<exists>qs. subseq qs (pre @ map snd ps) \<and> fu_chain is_start qs \<and> is_end (last qs) \<and> u = concat (fu_parts head body qs)"
  using assms
proof (induction ps arbitrary: d pre us)
  case (Cons q ps)
  obtain now p where q: "q = (now, p)" by (cases q)
  obtain d1 r where 1: "dp now p d = (d1, r)" by (cases "dp now p d")
  obtain us1 where 2: "depack_run dp ps d1 = (d', us1)"
    and us: "us = (case r of Inl _ \<Rightarrow> [] | Inr us \<Rightarrow> us) @ us1"
    using Cons.prems(4) 1 by (auto simp: q split: prod.splits)
  have frag: "fragment p" using Cons.prems(3) by (simp add: q)
  note step = tracks_step [OF Cons.prems(2,1) frag 1]
  show ?case
  proof (cases "u \<in> set us1")
    case True
    then show ?thesis using Cons.IH [OF frag_invar [OF Cons.prems(1) frag 1] step(1) _ 2] Cons.prems(3) by (simp add: q)
  next
    case False
    then obtain us0 where "r = Inr us0" "u \<in> set us0" using Cons.prems(5) us by (cases r) auto
    then obtain qs where "subseq qs (pre @ [p])" "fu_chain is_start qs" "is_end (last qs)" "u = concat (fu_parts head body qs)"
      using step(2) by blast
    moreover from this(1) have "subseq qs (pre @ map snd (q # ps))"
      using list_emb_append_mono [of "(=)" qs "pre @ [p]" "[]" "map snd ps"] by (simp add: q)
    ultimately show ?thesis by blast
  qed
qed simp

end

end
