(* ===== verification/H264_Depacketizer.thy ===== *)
theory H264_Depacketizer
  imports Depacketizer
begin

unbundle bit_operations_syntax

text \<open>
  The H.264 depacketizer of \<^verbatim>\<open>internal/ingestion/codec/h264_depacketizer.go\<close>: single NAL unit
  packets, STAP-A aggregation and FU-A fragmentation.  The clock reading of a call is
  an argument.
\<close>

section \<open>State and operations\<close>

record H264Depacketizer =
  h4_fragments :: "byte list list"
  h4_lastSeq :: u16
  h4_fuInProgress :: bool
  h4_fragmentStartTime :: gotime
  h4_fragmentTimeout :: nanos

function h4_stapa_loop :: "byte list \<Rightarrow> nat \<Rightarrow> byte list list \<Rightarrow> byte list list \<times> depack_error option" where
  "h4_stapa_loop payload offset nalUnits =
     (if offset < length payload \<and> length nalUnits < 100 then
        if offset + 2 > length payload then (nalUnits, Some (AggTruncated offset))
        else
          (let nalSize = be16 (payload ! offset) (payload ! (offset + 1));
               offset = offset + 2
           in if nalSize = 0 then (nalUnits, Some (AggZeroSize (offset - 2)))
              else if nalSize > MaxNALUnitSize then (nalUnits, Some (NALUnitTooLarge nalSize MaxNALUnitSize))
              else if offset + nalSize > length payload then (nalUnits, Some (AggOutOfBounds offset nalSize))
              else h4_stapa_loop payload (offset + nalSize)
                     (nalUnits @ [prependStartCode (gslice payload offset (offset + nalSize))]))
      else if length nalUnits \<ge> 100 then (nalUnits, Some (AggTooMany (length nalUnits)))
      else (nalUnits, None))"
  by pat_completeness auto
termination
  by (relation "measure (\<lambda>(payload, offset, nalUnits). length payload - offset)") auto

declare h4_stapa_loop.simps [simp del]

definition h4_handleSTAPA :: "byte list \<Rightarrow> byte list list \<times> depack_error option" where
  "h4_handleSTAPA payload = h4_stapa_loop payload 1 []"

text \<open>The resets of \<^verbatim>\<open>handleFUA\<close>.\<close>

definition h4_drop :: "H264Depacketizer \<Rightarrow> H264Depacketizer" where
  "h4_drop d = d\<lparr>h4_fragments := [], h4_fuInProgress := False, h4_fragmentStartTime := None\<rparr>"

definition h4_timed_out :: "nanos \<Rightarrow> H264Depacketizer \<Rightarrow> bool" where
  "h4_timed_out now d =
     (h4_fragmentTimeout d > 0 \<and>
      (case h4_fragmentStartTime d of None \<Rightarrow> False | Some t \<Rightarrow> now - t > h4_fragmentTimeout d))"

definition fu_start :: "byte list \<Rightarrow> bool" where
  "fu_start payload = (payload ! 1 AND 0x80 \<noteq> 0)"

definition fu_end :: "byte list \<Rightarrow> bool" where
  "fu_end payload = (payload ! 1 AND 0x40 \<noteq> 0)"

definition fu_header :: "byte list \<Rightarrow> byte" where
  "fu_header payload = (payload ! 0 AND 0xE0) OR (payload ! 1 AND 0x1F)"

text \<open>\<^verbatim>\<open>handleFUA\<close> in three parts: the timeout and the start bit, the loss check with the
  accumulation of the fragment, and the guards around them.\<close>

definition h4_prepared :: "nanos \<Rightarrow> byte list \<Rightarrow> H264Depacketizer \<Rightarrow> H264Depacketizer" where
  "h4_prepared now payload d =
     (let d = (if h4_timed_out now d then h4_drop d else d)
      in if fu_start payload
         then d\<lparr>h4_fragments := [start_code @ [fu_header payload]], h4_fragmentStartTime := Some now,
                h4_fuInProgress := True\<rparr>
         else d)"

definition h4_accumulate ::
  "bool \<Rightarrow> bool \<Rightarrow> byte list \<Rightarrow> u16 \<Rightarrow> H264Depacketizer \<Rightarrow> H264Depacketizer \<times> byte list option" where
  "h4_accumulate startBit endBit fuPayload sequenceNumber d =
     (let checked = (h4_fuInProgress d \<and> \<not> startBit \<and> h4_fragments d \<noteq> []);
          gap = sequenceDistance sequenceNumber (h4_lastSeq d)
      in if checked \<and> gap = 0 then (d, None)
         else if checked \<and> gap \<noteq> 1 then (h4_drop d, None)
         else if h4_fragments d \<noteq> [] \<and> total_size (h4_fragments d) + length fuPayload > MaxNALUnitSize
         then (h4_drop d, None)
         else
           (let d = (if h4_fragments d \<noteq> []
                     then d\<lparr>h4_fragments := h4_fragments d @ [fuPayload]\<rparr> else d)
            in if h4_fragments d \<noteq> [] \<and> length (h4_fragments d) > 1000 then (h4_drop d, None)
               else if endBit \<and> h4_fragments d \<noteq> [] then
                 if total_size (h4_fragments d) > MaxNALUnitSize
                 then (d\<lparr>h4_fragments := [], h4_fragmentStartTime := None\<rparr>, None)
                 else ((h4_drop d)\<lparr>h4_lastSeq := sequenceNumber\<rparr>, Some (concat (h4_fragments d)))
               else (d\<lparr>h4_lastSeq := sequenceNumber\<rparr>, None)))"

definition h4_handleFUA ::
  "nanos \<Rightarrow> byte list \<Rightarrow> u16 \<Rightarrow> H264Depacketizer \<Rightarrow> H264Depacketizer \<times> byte list option" where
  "h4_handleFUA now payload sequenceNumber d =
     (if length payload < 2 then (d, None)
      else if fu_start payload \<and> fu_end payload
      then (d\<lparr>h4_lastSeq := sequenceNumber\<rparr>, Some (start_code @ [fu_header payload] @ drop 2 payload))
      else if length payload \<le> 2 then (d, None)
      else if length (drop 2 payload) > MaxFragmentSize then (h4_drop d, None)
      else h4_accumulate (fu_start payload) (fu_end payload) (drop 2 payload) sequenceNumber
             (h4_prepared now payload d))"

definition h4_Depacketize :: "H264Depacketizer depack" where
  "h4_Depacketize now packet d =
     (let payload = pk_Payload packet;
          sequenceNumber = pk_SequenceNumber packet
      in if length payload < 1 then (d, Inl PayloadTooShort)
         else
           (let nalHeader = payload ! 0
            in if nalHeader AND 0x80 \<noteq> 0 then (d, Inl ForbiddenZeroBit)
               else
                 (let nalType = unat (nalHeader AND 0x1F)
                  in if nalType \<in> {0, 30, 31} then (d, Inl (ReservedNALType nalType))
                     else if nalType \<in> {1..23}
                     then (d\<lparr>h4_lastSeq := sequenceNumber\<rparr>, Inr [prependStartCode payload])
                     else if nalType = 24 then
                       (case h4_handleSTAPA payload of
                          (_, Some e) \<Rightarrow> (d, Inl e)
                        | (nalUnits, None) \<Rightarrow> (d\<lparr>h4_lastSeq := sequenceNumber\<rparr>, Inr nalUnits))
                     else if nalType = 28 then
                       (let (d, nalUnit) = h4_handleFUA now payload sequenceNumber d
                        in (d\<lparr>h4_lastSeq := sequenceNumber\<rparr>,
                            Inr (case nalUnit of None \<Rightarrow> [] | Some u \<Rightarrow> [u])))
                     else (d, Inl (UnsupportedNALType nalType)))))"

definition h4_Reset :: "H264Depacketizer \<Rightarrow> H264Depacketizer" where
  "h4_Reset d = d\<lparr>h4_fragments := [], h4_fuInProgress := False, h4_fragmentStartTime := None\<rparr>"

definition GetNALType :: "byte \<Rightarrow> byte" where
  "GetNALType nalHeader = nalHeader AND 0x1F"

definition IsKeyFrame :: "byte \<Rightarrow> bool" where
  "IsKeyFrame nalType = (nalType = 5)"

section \<open>Invariant: bounded memory and Annex B units\<close>

definition h4_frags_ok :: "byte list list \<Rightarrow> bool" where
  "h4_frags_ok fs \<longleftrightarrow> total_size fs \<le> MaxNALUnitSize \<and> length fs \<le> 1000 \<and>
     (fs = [] \<or> (\<exists>h tl. fs = (start_code @ [h]) # tl))"

definition h4_inv :: "H264Depacketizer \<Rightarrow> bool" where
  "h4_inv d \<longleftrightarrow> h4_frags_ok (h4_fragments d) \<and> (h4_fragments d \<noteq> [] \<longrightarrow> h4_fuInProgress d)"

lemma h4_drop_simps [simp]:
  "h4_fragments (h4_drop d) = []" "h4_lastSeq (h4_drop d) = h4_lastSeq d" "h4_inv (h4_drop d)"
  by (simp_all add: h4_drop_def h4_inv_def h4_frags_ok_def)

lemma h4_prepared_inv: "h4_inv d \<Longrightarrow> h4_inv (h4_prepared now payload d)"
  using MaxNALUnitSize_ge by (auto simp: h4_prepared_def h4_inv_def h4_frags_ok_def h4_drop_def)

lemma h4_prepared_lastSeq [simp]: "h4_lastSeq (h4_prepared now payload d) = h4_lastSeq d"
  by (simp add: h4_prepared_def Let_def)

text \<open>A proper fragment is ignored, discards the assembly, extends it or completes it.\<close>

lemma h4_accumulate_cases:
  assumes "h4_fragments d \<noteq> [] \<longrightarrow> h4_fuInProgress d" and "h4_accumulate st en pl sq d = (d', r)"
  obtains (drop) "h4_fragments d' = []" and "r = None"
  | (dup) "d' = d" and "r = None" and "\<not> st" and "sq = h4_lastSeq d"
  | (extend) "h4_fragments d \<noteq> []" and "st \<or> sq = h4_lastSeq d + 1"
      and "total_size (h4_fragments d) + length pl \<le> MaxNALUnitSize" and "length (h4_fragments d) < 1000"
      and "if en then r = Some (concat (h4_fragments d @ [pl])) \<and> h4_fragments d' = []
           else r = None \<and> d' = d\<lparr>h4_fragments := h4_fragments d @ [pl], h4_lastSeq := sq\<rparr>"
proof (cases "h4_fragments d = []")
  case True
  then show ?thesis using assms(2) by (intro drop) (auto simp: h4_accumulate_def split: if_splits)
next
  case False
  then have [simp]: "h4_fuInProgress d" using assms(1) by simp
  consider "\<not> st" "sq = h4_lastSeq d" | "\<not> st" "sq \<noteq> h4_lastSeq d" "sq \<noteq> h4_lastSeq d + 1"
    | "st \<or> sq = h4_lastSeq d + 1" by blast
  then show ?thesis
  proof cases
    case 1
    then show ?thesis using assms(2) False
      by (intro dup) (auto simp: h4_accumulate_def sequenceDistance_0)
  next
    case 2
    then show ?thesis using assms(2) False
      by (intro drop) (auto simp: h4_accumulate_def sequenceDistance_0 sequenceDistance_1)
  next
    case 3
    have "\<not> (\<not> st \<and> sequenceDistance sq (h4_lastSeq d) = 0)" "\<not> (\<not> st \<and> sequenceDistance sq (h4_lastSeq d) \<noteq> 1)"
      using 3 by (auto simp: sequenceDistance_0 sequenceDistance_1)
    then have run: "(d', r) =
       (if total_size (h4_fragments d) + length pl > MaxNALUnitSize then (h4_drop d, None)
        else if length (h4_fragments d) \<ge> 1000
        then (h4_drop (d\<lparr>h4_fragments := h4_fragments d @ [pl]\<rparr>), None)
        else if en then ((h4_drop (d\<lparr>h4_fragments := h4_fragments d @ [pl]\<rparr>))\<lparr>h4_lastSeq := sq\<rparr>,
          Some (concat (h4_fragments d @ [pl])))
        else (d\<lparr>h4_fragments := h4_fragments d @ [pl], h4_lastSeq := sq\<rparr>, None))"
      using assms(2) False by (auto simp: h4_accumulate_def Let_def)
    show ?thesis
    proof (cases "total_size (h4_fragments d) + length pl > MaxNALUnitSize \<or> length (h4_fragments d) \<ge> 1000")
      case True
      then show ?thesis using run by (intro drop) (auto split: if_splits)
    next
      case ok: False
      then show ?thesis using run False 3 by (intro extend) (auto split: if_splits)
    qed
  qed
qed

lemma h4_inv_lastSeq [simp]: "h4_inv (d\<lparr>h4_lastSeq := sq\<rparr>) = h4_inv d"
  by (simp add: h4_inv_def)

lemma h4_inv_empty: "h4_fragments d = [] \<Longrightarrow> h4_inv d"
  by (simp add: h4_inv_def h4_frags_ok_def)

lemma h4_inv_progress: "h4_inv d \<Longrightarrow> h4_fragments d \<noteq> [] \<longrightarrow> h4_fuInProgress d"
  by (simp add: h4_inv_def)

lemma h4_accumulate_inv:
  assumes "h4_inv d" and "h4_accumulate st en pl sq d = (d', r)"
  shows "h4_inv d'" and "r = Some u \<Longrightarrow> \<exists>nal. u = start_code @ nal \<and> nal \<noteq> []"
proof -
  note c = h4_accumulate_cases [OF h4_inv_progress [OF assms(1)] assms(2)]
  show "h4_inv d'"
  proof (cases rule: c)
    case 3
    then show ?thesis using assms(1)
      by (cases en) (auto simp: h4_inv_empty h4_inv_def h4_frags_ok_def)
  qed (use assms(1) in \<open>simp_all add: h4_inv_empty\<close>)
  show "\<exists>nal. u = start_code @ nal \<and> nal \<noteq> []" if "r = Some u"
  proof (cases rule: c)
    case 3
    moreover obtain h tl where "h4_fragments d = (start_code @ [h]) # tl"
      using assms(1) 3(1) by (auto simp: h4_inv_def h4_frags_ok_def)
    ultimately show ?thesis using that by (cases en) auto
  qed (use that in simp_all)
qed

lemma h4_handleFUA_inv:
  assumes "h4_inv d" and "h4_handleFUA now pl sq d = (d', r)"
  shows "h4_inv d'" and "r = Some u \<Longrightarrow> \<exists>nal. u = start_code @ nal \<and> nal \<noteq> []"
  using assms h4_accumulate_inv [OF h4_prepared_inv [OF assms(1)]]
  by (auto simp: h4_handleFUA_def split: if_splits)

lemma h4_stapa_loop_units:
  assumes "h4_stapa_loop payload off us = (us', e)" and "\<forall>u \<in> set us. \<exists>nal. u = start_code @ nal \<and> nal \<noteq> []"
  shows "\<forall>u \<in> set us'. \<exists>nal. u = start_code @ nal \<and> nal \<noteq> []"
  using assms
proof (induction payload off us rule: h4_stapa_loop.induct)
  case (1 payload off us)
  let ?n = "be16 (payload ! off) (payload ! (off + 1))"
  show ?case
  proof (cases "off < length payload \<and> length us < 100 \<and> off + 2 \<le> length payload \<and> ?n \<noteq> 0 \<and>
      ?n \<le> MaxNALUnitSize \<and> off + 2 + ?n \<le> length payload")
    case True
    let ?u = "prependStartCode (gslice payload (off + 2) (off + 2 + ?n))"
    have "length (gslice payload (off + 2) (off + 2 + ?n)) = ?n" using True by simp
    then have "gslice payload (off + 2) (off + 2 + ?n) \<noteq> []" using True by (metis list.size(3))
    then have u: "\<exists>nal. ?u = start_code @ nal \<and> nal \<noteq> []" by (simp add: prependStartCode_def)
    have "h4_stapa_loop payload (off + 2 + ?n) (us @ [?u]) = (us', e)"
      using True "1.prems"(1) by (subst (asm) h4_stapa_loop.simps) (simp add: Let_def)
    then show ?thesis using True u "1.prems"(2) by (intro "1.IH" [of ?n "off + 2"]) auto
  next
    case False
    then have "us' = us"
      using "1.prems"(1) by (subst (asm) h4_stapa_loop.simps) (auto simp: Let_def split: if_splits)
    then show ?thesis using "1.prems"(2) by simp
  qed
qed

lemma h4_Depacketize_step:
  assumes "h4_inv d" and "h4_Depacketize now p d = (d', r)"
  shows "h4_inv d'" and "r = Inr us \<Longrightarrow> u \<in> set us \<Longrightarrow> \<exists>nal. u = start_code @ nal \<and> nal \<noteq> []"
proof -
  have "h4_inv d' \<and> (\<forall>us. r = Inr us \<longrightarrow> (\<forall>u \<in> set us. \<exists>nal. u = start_code @ nal \<and> nal \<noteq> []))"
    using assms h4_handleFUA_inv [OF assms(1)] h4_stapa_loop_units [of "pk_Payload p" 1 "[]"]
    unfolding h4_Depacketize_def Let_def h4_handleSTAPA_def
    by (auto simp: prependStartCode_def split: if_splits prod.splits option.splits)
  then show "h4_inv d'" "r = Inr us \<Longrightarrow> u \<in> set us \<Longrightarrow> \<exists>nal. u = start_code @ nal \<and> nal \<noteq> []" by blast+
qed

interpretation h264: annexb_depacketizer h4_inv "\<lambda>d. total_size (h4_fragments d)" h4_Depacketize
proof
  fix d now p d' r assume "h4_inv d" "h4_Depacketize now p d = (d', r)"
  then show "h4_inv d'" by (rule h4_Depacketize_step)
next
  fix d now p d' us u assume "h4_inv d" "h4_Depacketize now p d = (d', Inr us)" "u \<in> set us"
  then show "\<exists>nal. u = start_code @ nal \<and> nal \<noteq> []" by (metis h4_Depacketize_step(2))
next
  fix d assume "h4_inv d"
  then show "total_size (h4_fragments d) \<le> MaxNALUnitSize" by (simp add: h4_inv_def h4_frags_ok_def)
qed

section \<open>Reassembled units have no holes\<close>

text \<open>A FU-A packet that is a proper fragment.\<close>

definition fua_fragment :: "rtp_packet \<Rightarrow> bool" where
  "fua_fragment p \<longleftrightarrow> 2 < length (pk_Payload p) \<and> pk_Payload p ! 0 AND 0x80 = 0 \<and>
     unat (pk_Payload p ! 0 AND 0x1F) = 28 \<and> \<not> (fu_start (pk_Payload p) \<and> fu_end (pk_Payload p))"

lemma h4_Depacketize_fragment:
  assumes "fua_fragment p"
  shows "h4_Depacketize now p d =
    (let (d, u) = h4_handleFUA now (pk_Payload p) (pk_SequenceNumber p) d
     in (d\<lparr>h4_lastSeq := pk_SequenceNumber p\<rparr>, Inr (case u of None \<Rightarrow> [] | Some u \<Rightarrow> [u])))"
  using assms by (auto simp: h4_Depacketize_def fua_fragment_def Let_def)

lemma h4_prepared_frags:
  "h4_fragments (h4_prepared now pl d) =
     (if fu_start pl then [start_code @ [fu_header pl]]
      else if h4_timed_out now d then [] else h4_fragments d)"
  by (simp add: h4_prepared_def Let_def)

lemma h4_fragment_cases:
  assumes inv: "h4_inv d" and frag: "fua_fragment p" and run: "h4_Depacketize now p d = (d', r)"
  shows "h4_fragments d' = [] \<and> r = Inr [] \<or>
    h4_fragments d' = h4_fragments d \<and> r = Inr [] \<and> pk_SequenceNumber p = h4_lastSeq d \<or>
    (fu_start (pk_Payload p) \<or> h4_fragments d \<noteq> [] \<and> pk_SequenceNumber p = h4_lastSeq d + 1) \<and>
    (if fu_end (pk_Payload p)
     then h4_fragments d' = [] \<and> r = Inr [concat ((if fu_start (pk_Payload p)
       then [start_code @ [fu_header (pk_Payload p)]] else h4_fragments d) @ [drop 2 (pk_Payload p)])]
     else h4_fragments d' = (if fu_start (pk_Payload p)
       then [start_code @ [fu_header (pk_Payload p)]] else h4_fragments d) @ [drop 2 (pk_Payload p)] \<and> r = Inr [])"
proof -
  let ?pl = "pk_Payload p" and ?sq = "pk_SequenceNumber p"
  let ?d1 = "h4_prepared now ?pl d"
  obtain d2 w where h: "h4_handleFUA now ?pl ?sq d = (d2, w)" by (cases "h4_handleFUA now ?pl ?sq d")
  have d': "d' = d2\<lparr>h4_lastSeq := ?sq\<rparr>" and r: "r = Inr (case w of None \<Rightarrow> [] | Some u \<Rightarrow> [u])"
    using run h by (simp_all add: h4_Depacketize_fragment [OF frag])
  show ?thesis
  proof (cases "length (drop 2 ?pl) > MaxFragmentSize")
    case True
    then have "d2 = h4_drop d" "w = None" using h frag by (auto simp: h4_handleFUA_def fua_fragment_def)
    then show ?thesis by (simp add: d' r)
  next
    case False
    then have acc: "h4_accumulate (fu_start ?pl) (fu_end ?pl) (drop 2 ?pl) ?sq ?d1 = (d2, w)"
      using h frag by (auto simp: h4_handleFUA_def fua_fragment_def)
    show ?thesis
    proof (cases rule: h4_accumulate_cases [OF h4_inv_progress [OF h4_prepared_inv [OF inv]] acc])
      case 1
      then show ?thesis by (simp add: d' r)
    next
      case 2
      then show ?thesis by (auto simp: d' r h4_prepared_frags)
    next
      case 3
      then have "h4_fragments ?d1 = (if fu_start ?pl then [start_code @ [fu_header ?pl]] else h4_fragments d)"
        by (auto simp: h4_prepared_frags split: if_splits)
      with 3 show ?thesis by (cases "fu_end ?pl"; cases "fu_start ?pl") (simp_all add: d' r)
    qed
  qed
qed

lemma h4_fragment_seq:
  "fua_fragment p \<Longrightarrow> h4_Depacketize now p d = (d', r) \<Longrightarrow> h4_lastSeq d' = pk_SequenceNumber p"
  by (auto simp: h4_Depacketize_fragment Let_def split: prod.splits)

interpretation fu264: fu_reassembler h4_inv h4_fragments h4_lastSeq fua_fragment
  "\<lambda>p. fu_start (pk_Payload p)" "\<lambda>p. fu_end (pk_Payload p)"
  "\<lambda>p. start_code @ [fu_header (pk_Payload p)]" "\<lambda>p. drop 2 (pk_Payload p)" h4_Depacketize
proof
  fix d p now d' r assume "h4_inv d" "fua_fragment p" "h4_Depacketize now p d = (d', r)"
  then show "h4_inv d'" by (metis h4_Depacketize_step(1))
next
  fix d p now d' r assume "h4_inv d" "fua_fragment p" "h4_Depacketize now p d = (d', r)"
  then show "h4_lastSeq d' = pk_SequenceNumber p" by (metis h4_fragment_seq)
qed (rule h4_fragment_cases)

section \<open>Packetization as RFC 6184 describes it\<close>

definition fua_packet :: "rtp_packet \<Rightarrow> u16 \<Rightarrow> byte \<Rightarrow> bool \<Rightarrow> bool \<Rightarrow> byte list \<Rightarrow> rtp_packet" where
  "fua_packet p0 sq hdr s e chunk = p0\<lparr>pk_SequenceNumber := sq,
     pk_Payload := [(hdr AND 0xE0) OR 28,
       (hdr AND 0x1F) OR (if s then 0x80 else 0) OR (if e then 0x40 else 0)] @ chunk\<rparr>"

fun fua_tail :: "rtp_packet \<Rightarrow> u16 \<Rightarrow> byte \<Rightarrow> byte list list \<Rightarrow> rtp_packet list" where
  "fua_tail p0 sq hdr [] = []"
| "fua_tail p0 sq hdr [c] = [fua_packet p0 sq hdr False True c]"
| "fua_tail p0 sq hdr (c # cs) = fua_packet p0 sq hdr False False c # fua_tail p0 (sq + 1) hdr cs"

definition fua_split :: "rtp_packet \<Rightarrow> u16 \<Rightarrow> byte \<Rightarrow> byte list \<Rightarrow> byte list list \<Rightarrow> rtp_packet list" where
  "fua_split p0 sq hdr c cs = fua_packet p0 sq hdr True False c # fua_tail p0 (sq + 1) hdr cs"

lemma and_or_numeral:
  "(x OR y) AND z = (x AND z) OR (y AND (z::byte))" "(x AND y) AND z = x AND (y AND (z::byte))"
  by (simp_all add: bit.conj_disj_distrib2 and.assoc)

lemma fua_packet_facts:
  assumes "hdr AND 0x80 = 0"
  shows "pk_Payload (fua_packet p0 sq hdr s e c) ! 0 AND 0x80 = 0"
    and "unat (pk_Payload (fua_packet p0 sq hdr s e c) ! 0 AND 0x1F) = 28"
    and "fu_start (pk_Payload (fua_packet p0 sq hdr s e c)) = s"
    and "fu_end (pk_Payload (fua_packet p0 sq hdr s e c)) = e"
    and "fu_header (pk_Payload (fua_packet p0 sq hdr s e c)) = hdr"
    and "pk_SequenceNumber (fua_packet p0 sq hdr s e c) = sq"
    and "drop 2 (pk_Payload (fua_packet p0 sq hdr s e c)) = c"
    and "length (pk_Payload (fua_packet p0 sq hdr s e c)) = 2 + length c"
proof -
  have "(hdr AND 0xE0) OR (hdr AND 0x1F) = hdr AND (0xE0 OR 0x1F)" by (simp only: bit.conj_disj_distrib)
  moreover have "(0xFF :: byte) = - 1" by simp
  ultimately show "fu_header (pk_Payload (fua_packet p0 sq hdr s e c)) = hdr"
    by (cases s; cases e; simp add: fua_packet_def fu_header_def and_or_numeral)
qed (use assms in \<open>cases s; cases e; simp add: fua_packet_def fu_start_def fu_end_def and_or_numeral\<close>)+

lemma fua_packet_fragment:
  "hdr AND 0x80 = 0 \<Longrightarrow> c \<noteq> [] \<Longrightarrow> \<not> (s \<and> e) \<Longrightarrow> fua_fragment (fua_packet p0 sq hdr s e c)"
  by (simp add: fua_fragment_def fua_packet_facts)

lemma MaxFragmentSize_eq: "MaxFragmentSize = MaxNALUnitSize"
  by (simp add: MaxFragmentSize_def MaxNALUnitSize_def)

text \<open>The first packet starts an assembly, whatever the state was.\<close>

lemma h4_start_packet:
  assumes "hdr AND 0x80 = 0" and "c \<noteq> []" and "5 + length c \<le> MaxNALUnitSize"
  shows "\<exists>d'. h4_Depacketize now (fua_packet p0 sq hdr True False c) d = (d', Inr []) \<and>
     h4_fragments d' = [start_code @ [hdr], c] \<and> h4_lastSeq d' = sq \<and> h4_fuInProgress d' \<and>
     h4_fragmentStartTime d' = Some now \<and> h4_fragmentTimeout d' = h4_fragmentTimeout d"
  using assms fua_packet_facts [OF assms(1), of p0 sq True False c]
  by (simp add: h4_Depacketize_fragment [OF fua_packet_fragment] h4_handleFUA_def h4_prepared_def h4_drop_def
      h4_accumulate_def Let_def MaxFragmentSize_eq)

text \<open>Each further packet with the next sequence number extends or completes it.\<close>

lemma h4_next_packet:
  assumes "hdr AND 0x80 = 0" and "c \<noteq> []" and "total_size (h4_fragments d) + length c \<le> MaxNALUnitSize"
    and "h4_fragments d \<noteq> []" and "length (h4_fragments d) < 1000" and "h4_fuInProgress d" and "\<not> h4_timed_out now d"
  shows "\<exists>d'. h4_Depacketize now (fua_packet p0 (h4_lastSeq d + 1) hdr False e c) d =
      (d', Inr (if e then [concat (h4_fragments d @ [c])] else [])) \<and>
     (\<not> e \<longrightarrow> h4_fragments d' = h4_fragments d @ [c] \<and> h4_lastSeq d' = h4_lastSeq d + 1 \<and> h4_fuInProgress d' \<and>
       h4_fragmentStartTime d' = h4_fragmentStartTime d \<and> h4_fragmentTimeout d' = h4_fragmentTimeout d)"
proof -
  have "sequenceDistance (h4_lastSeq d + 1) (h4_lastSeq d) = 1" by (simp add: sequenceDistance_1)
  then show ?thesis
    using assms fua_packet_facts [OF assms(1), of p0 "h4_lastSeq d + 1" False e c]
    by (simp add: h4_Depacketize_fragment [OF fua_packet_fragment] h4_handleFUA_def h4_prepared_def
        h4_accumulate_def Let_def MaxFragmentSize_eq)
qed

lemma h4_timed_out_eq:
  "h4_fragmentStartTime d = Some t0 \<Longrightarrow>
   h4_timed_out now d \<longleftrightarrow> h4_fragmentTimeout d > 0 \<and> now - t0 > h4_fragmentTimeout d"
  by (simp add: h4_timed_out_def)

lemma h4_tail_run:
  assumes "hdr AND 0x80 = 0" and "cs \<noteq> []" and "\<forall>c \<in> set cs. c \<noteq> []"
    and "h4_fragments d \<noteq> []" and "h4_fuInProgress d" and "h4_fragmentStartTime d = Some t0"
    and "total_size (h4_fragments d) + total_size cs \<le> MaxNALUnitSize" and "length (h4_fragments d) + length cs \<le> 1000"
    and "length ts = length cs" and "\<forall>t \<in> set ts. \<not> (h4_fragmentTimeout d > 0 \<and> t - t0 > h4_fragmentTimeout d)"
  shows "\<exists>d'. depack_run h4_Depacketize (zip ts (fua_tail p0 (h4_lastSeq d + 1) hdr cs)) d =
     (d', [concat (h4_fragments d @ cs)])"
  using assms(2-)
proof (induction cs arbitrary: d ts)
  case (Cons c cs)
  obtain t ts' where ts: "ts = t # ts'" using Cons.prems(8) by (cases ts) auto
  have to: "\<not> h4_timed_out t d" using Cons.prems(5,9) by (simp add: h4_timed_out_eq ts)
  have pre: "c \<noteq> []" "total_size (h4_fragments d) + length c \<le> MaxNALUnitSize" "length (h4_fragments d) < 1000"
    using Cons.prems by auto
  note step = h4_next_packet [OF assms(1) pre(1,2) Cons.prems(3) pre(3) Cons.prems(4) to, of p0]
  show ?case
  proof (cases cs)
    case Nil
    then show ?thesis using step [of True] by (auto simp: ts)
  next
    case (Cons c2 cs2)
    obtain d1 where d1: "h4_Depacketize t (fua_packet p0 (h4_lastSeq d + 1) hdr False False c) d = (d1, Inr [])"
      "h4_fragments d1 = h4_fragments d @ [c]" "h4_lastSeq d1 = h4_lastSeq d + 1" "h4_fuInProgress d1"
      "h4_fragmentStartTime d1 = Some t0" "h4_fragmentTimeout d1 = h4_fragmentTimeout d"
      using step [of False] Cons.prems(5) by auto
    have "\<exists>d'. depack_run h4_Depacketize (zip ts' (fua_tail p0 (h4_lastSeq d1 + 1) hdr cs)) d1 =
        (d', [concat (h4_fragments d1 @ cs)])"
      using Cons.prems d1 by (intro Cons.IH) (auto simp: ts Cons)
    then show ?thesis using d1 Cons by (auto simp: ts add.assoc)
  qed
qed simp

lemma h4_stapa_step:
  assumes "off + 2 + length u \<le> length payload" and "length us < 100" and "u \<noteq> []" and "length u < 65536"
    and "be16 (payload ! off) (payload ! (off + 1)) = length u" and "gslice payload (off + 2) (off + 2 + length u) = u"
  shows "h4_stapa_loop payload off us = h4_stapa_loop payload (off + 2 + length u) (us @ [start_code @ u])"
  using assms by (subst h4_stapa_loop.simps) (simp add: Let_def MaxNALUnitSize_def prependStartCode_def)

lemma h4_stapa_loop_body:
  "length us + length vs < 100 \<Longrightarrow> \<forall>v \<in> set vs. v \<noteq> [] \<and> length v < 65536 \<Longrightarrow>
   h4_stapa_loop (pre @ agg_body vs) (length pre) us = (us @ map (\<lambda>v. start_code @ v) vs, None)"
proof (induction vs arbitrary: pre us)
  case Nil
  then show ?case by (subst h4_stapa_loop.simps) (simp add: agg_body_def)
next
  case (Cons v vs)
  have body: "pre @ agg_body (v # vs) = pre @ agg_element v @ agg_body vs" by (simp add: agg_body_def)
  have v: "v \<noteq> []" "length v < 65536" using Cons.prems(2) by auto
  have "h4_stapa_loop (pre @ agg_body (v # vs)) (length pre) us =
      h4_stapa_loop (pre @ agg_body (v # vs)) (length pre + 2 + length v) (us @ [start_code @ v])"
    unfolding body using Cons.prems(1) agg_element_at [OF v(2), of pre "agg_body vs"] v
    by (intro h4_stapa_step) (simp_all add: agg_element_def)
  also have "pre @ agg_body (v # vs) = (pre @ agg_element v) @ agg_body vs" by (simp add: body)
  also have "length pre + 2 + length v = length (pre @ agg_element v)" by (simp add: agg_element_def)
  also have "h4_stapa_loop ((pre @ agg_element v) @ agg_body vs) (length (pre @ agg_element v)) (us @ [start_code @ v]) =
      ((us @ [start_code @ v]) @ map (\<lambda>v. start_code @ v) vs, None)"
    using Cons.prems by (intro Cons.IH) auto
  finally show ?case by (simp add: body)
qed

lemma h4_fua_run:
  assumes "hdr AND 0x80 = 0" and "c \<noteq> []" and "cs \<noteq> []" and "\<forall>c \<in> set cs. c \<noteq> []"
    and "5 + length c + total_size cs \<le> MaxNALUnitSize" and "length cs \<le> 998" and "length ts = length cs"
    and "\<forall>t \<in> set ts. \<not> (h4_fragmentTimeout d > 0 \<and> t - t0 > h4_fragmentTimeout d)"
  shows "\<exists>d'. depack_run h4_Depacketize (zip (t0 # ts) (fua_split p0 sq hdr c cs)) d =
     (d', [start_code @ [hdr] @ c @ concat cs])"
proof -
  obtain d1 where d1: "h4_Depacketize t0 (fua_packet p0 sq hdr True False c) d = (d1, Inr [])"
    "h4_fragments d1 = [start_code @ [hdr], c]" "h4_lastSeq d1 = sq" "h4_fuInProgress d1"
    "h4_fragmentStartTime d1 = Some t0" "h4_fragmentTimeout d1 = h4_fragmentTimeout d"
    using h4_start_packet [OF assms(1,2), of t0 p0 sq d] assms(5) by auto
  have "\<exists>d'. depack_run h4_Depacketize (zip ts (fua_tail p0 (h4_lastSeq d1 + 1) hdr cs)) d1 =
      (d', [concat (h4_fragments d1 @ cs)])"
    using assms d1 by (intro h4_tail_run) simp_all
  then show ?thesis using d1 by (auto simp: fua_split_def)
qed

section \<open>Properties\<close>


text \<open>fragmenting a NAL unit into FU-A packets with consecutive sequence numbers and feeding
  them in order, in whatever state the depacketizer is and wherever the 16-bit numbers wrap, gives
  back exactly the NAL unit behind a start code, within the limits of the code (total size, 998
  further fragments, assembly timeout).\<close>

theorem h264_fua_roundtrip:
  assumes "hdr AND 0x80 = 0" and "c \<noteq> []" and "cs \<noteq> []" and "\<forall>c \<in> set cs. c \<noteq> []"
    and "5 + length c + total_size cs \<le> MaxNALUnitSize" and "length cs \<le> 998" and "length ts = length cs"
    and "\<forall>t \<in> set ts. \<not> (h4_fragmentTimeout d > 0 \<and> t - t0 > h4_fragmentTimeout d)"
  shows "\<exists>d'. depack_run h4_Depacketize (zip (t0 # ts) (fua_split p0 sq hdr c cs)) d =
     (d', [start_code @ [hdr] @ c @ concat cs])"
  using assms by (rule h4_fua_run)

text \<open>a STAP-A packet made of up to 99 non-empty NAL units of at most 65535 bytes each is taken
  apart into exactly these units, each behind a start code.\<close>

theorem h264_stapa_roundtrip:
  assumes "hdr AND 0x80 = 0" and "unat (hdr AND 0x1F) = 24" and "length us \<le> 99"
    and "\<forall>u \<in> set us. u \<noteq> [] \<and> length u < 65536" and "pk_Payload p = hdr # agg_body us"
  shows "h4_Depacketize now p d = (d\<lparr>h4_lastSeq := pk_SequenceNumber p\<rparr>, Inr (map (\<lambda>u. start_code @ u) us))"
proof -
  have "h4_stapa_loop ([hdr] @ agg_body us) (length [hdr]) [] = ([] @ map (\<lambda>u. start_code @ u) us, None)"
    using assms(3,4) by (intro h4_stapa_loop_body) simp_all
  then show ?thesis using assms(1,2,5) by (simp add: h4_Depacketize_def h4_handleSTAPA_def Let_def)
qed

text \<open>whatever packets arrive, malformed ones included, the fragments held for reassembly never
  exceed the limit for one NAL unit, and every emitted unit is an Annex B unit with a payload.\<close>

theorem h264_bounded_annexb:
  assumes "h4_inv d" and "depack_run h4_Depacketize ps d = (d', us)"
  shows "total_size (h4_fragments d') \<le> MaxNALUnitSize \<and> (\<forall>u \<in> set us. \<exists>nal. u = start_code @ nal \<and> nal \<noteq> [])"
  using h264.run_invar_units [OF assms] h264.held_bounded by blast

section \<open>Concrete instances\<close>

definition packet0 :: rtp_packet where
  "packet0 = \<lparr>pk_Version = 2, pk_PayloadType = 96, pk_SequenceNumber = 0, pk_Timestamp = 0, pk_SSRC = 0,
     pk_Payload = []\<rparr>"

definition h264_new :: H264Depacketizer where
  "h264_new = \<lparr>h4_fragments = [], h4_lastSeq = 0, h4_fuInProgress = False, h4_fragmentStartTime = None,
     h4_fragmentTimeout = 5 * second\<rparr>"

theorem h264_fua_roundtrip_witness:
  "\<exists>d'. depack_run h4_Depacketize (zip [0, 1, 2] (fua_split packet0 0xFFFF 0x65 [1, 2] [[3], [4, 5]])) h264_new =
     (d', [start_code @ [0x65, 1, 2, 3, 4, 5]])"
  using h264_fua_roundtrip [of "0x65" "[1, 2]" "[[3], [4, 5]]" "[1, 2]" h264_new 0 packet0 "0xFFFF"]
  by (simp add: h264_new_def MaxNALUnitSize_def second_def)


theorem h264_stapa_roundtrip_witness:
  "h4_Depacketize 0 (packet0\<lparr>pk_Payload := 0x78 # agg_body [[0x67, 1], [0x68]]\<rparr>) h264_new =
     (h264_new\<lparr>h4_lastSeq := 0\<rparr>, Inr [start_code @ [0x67, 1], start_code @ [0x68]])"
  using h264_stapa_roundtrip [of "0x78" "[[0x67, 1], [0x68]]" "packet0\<lparr>pk_Payload := 0x78 # agg_body [[0x67, 1], [0x68]]\<rparr>" 0 h264_new]
  by (simp add: packet0_def)

theorem h264_bounded_annexb_witness:
  "total_size (h4_fragments (fst (depack_run h4_Depacketize
      [(0, fua_packet packet0 7 0x65 True False [1, 2])] h264_new))) \<le> MaxNALUnitSize"
proof -
  have inv: "h4_inv h264_new" by (simp add: h264_new_def h4_inv_empty)
  show ?thesis
    using h264_bounded_annexb [OF inv, of "[(0, fua_packet packet0 7 0x65 True False [1, 2])]"] by (metis prod.collapse)
qed

end
