(* ===== verification/HEVC_Depacketizer.thy ===== *)
theory HEVC_Depacketizer
  imports Depacketizer
begin

unbundle bit_operations_syntax

text \<open>
  The HEVC depacketizer of \<^verbatim>\<open>internal/ingestion/codec/hevc_depacketizer.go\<close>: single NAL unit
  packets, aggregation packets and fragmentation units of RFC 7798.
\<close>

section \<open>State and operations\<close>

record HEVCDepacketizer =
  h5_fragments :: "byte list list"
  h5_lastSeq :: u16
  h5_fuInProgress :: bool

function h5_ap_loop :: "byte list \<Rightarrow> nat \<Rightarrow> byte list list \<Rightarrow> byte list list \<times> depack_error option" where
  "h5_ap_loop payload offset nalUnits =
     (if offset < length payload then
        if offset + 2 > length payload then (nalUnits, Some (AggTruncated offset))
        else
          (let nalSize = be16 (payload ! offset) (payload ! (offset + 1));
               offset = offset + 2
           in if nalSize = 0 then (nalUnits, Some (AggZeroSize (offset - 2)))
              else if nalSize > MaxNALUnitSize then (nalUnits, Some (NALUnitTooLarge nalSize MaxNALUnitSize))
              else if offset + nalSize > length payload then (nalUnits, Some (AggOutOfBounds offset nalSize))
              else
                (let nestedNALType = unat (drop_bit 1 (payload ! offset) AND 0x3F)
                 in if nalSize \<ge> 2 \<and> nestedNALType \<ge> 48 then (nalUnits, Some (BadNestedNALType nestedNALType))
                    else h5_ap_loop payload (offset + nalSize)
                           (nalUnits @ [start_code @ gslice payload offset (offset + nalSize)])))
      else (nalUnits, None))"
  by pat_completeness auto
termination
  by (relation "measure (\<lambda>(payload, offset, nalUnits). length payload - offset)") auto

declare h5_ap_loop.simps [simp del]

definition h5_handleAggregationPacket :: "byte list \<Rightarrow> byte list list \<times> depack_error option" where
  "h5_handleAggregationPacket payload = h5_ap_loop payload 0 []"

definition h5_drop :: "HEVCDepacketizer \<Rightarrow> HEVCDepacketizer" where
  "h5_drop d = d\<lparr>h5_fragments := [], h5_fuInProgress := False\<rparr>"

definition h5_start :: "byte list \<Rightarrow> bool" where
  "h5_start payload = (payload ! 2 AND 0x80 \<noteq> 0)"

definition h5_end :: "byte list \<Rightarrow> bool" where
  "h5_end payload = (payload ! 2 AND 0x40 \<noteq> 0)"

text \<open>The start code and the NAL unit header rebuilt from the payload and FU headers.\<close>

definition h5_head :: "byte list \<Rightarrow> byte list" where
  "h5_head payload =
     start_code @ [(payload ! 0 AND 0x81) OR push_bit 1 (payload ! 2 AND 0x3F), payload ! 1]"

definition h5_handleFragmentationUnit ::
  "byte list \<Rightarrow> u16 \<Rightarrow> HEVCDepacketizer \<Rightarrow> HEVCDepacketizer \<times> byte list option" where
  "h5_handleFragmentationUnit payload sequenceNumber d =
     (if length payload < 3 then (d, None)
      else if h5_start payload \<and> h5_end payload then (d, None)
      else
        (let fuPayload = drop 3 payload;
             d = (if h5_start payload
                  then d\<lparr>h5_fragments := [h5_head payload], h5_fuInProgress := True\<rparr> else d);
             checked = (h5_fuInProgress d \<and> \<not> h5_start payload \<and> h5_fragments d \<noteq> []);
             gap = sequenceDistance sequenceNumber (h5_lastSeq d)
         in if checked \<and> gap = 0 then (d, None)
            else if checked \<and> gap \<noteq> 1 then (h5_drop d, None)
            else if h5_fragments d \<noteq> [] \<and> total_size (h5_fragments d) + length fuPayload > MaxNALUnitSize
            then (h5_drop d, None)
            else
              (let d = (if h5_fragments d \<noteq> [] then d\<lparr>h5_fragments := h5_fragments d @ [fuPayload]\<rparr> else d)
               in if h5_end payload \<and> h5_fragments d \<noteq> [] then
                    if total_size (h5_fragments d) > MaxNALUnitSize then (h5_drop d, None)
                    else (h5_drop d, Some (concat (h5_fragments d)))
                  else (d, None))))"

definition h5_Depacketize :: "HEVCDepacketizer depack" where
  "h5_Depacketize now packet d =
     (let payload = pk_Payload packet;
          sequenceNumber = pk_SequenceNumber packet
      in if length payload < 2 then (d, Inl PayloadTooShort)
         else
           (let nalHeader = push_bit 8 (ucast (payload ! 0) :: u16) OR ucast (payload ! 1)
            in if payload ! 0 AND 0x80 \<noteq> 0 then (d, Inl ForbiddenZeroBit)
               else if payload ! 1 AND 0x07 = 0 then (d, Inl BadTemporalId)
               else
                 (let nalType = unat (drop_bit 9 nalHeader AND 0x3F)
                  in if nalType < 48
                     then (d\<lparr>h5_lastSeq := sequenceNumber\<rparr>, Inr [prependStartCode payload])
                     else if nalType = 48 then
                       (case h5_handleAggregationPacket (drop 2 payload) of
                          (_, Some e) \<Rightarrow> (d, Inl e)
                        | (nalUnits, None) \<Rightarrow> (d\<lparr>h5_lastSeq := sequenceNumber\<rparr>, Inr nalUnits))
                     else if nalType = 49 then
                       (let (d, nalUnit) = h5_handleFragmentationUnit payload sequenceNumber d
                        in (d\<lparr>h5_lastSeq := sequenceNumber\<rparr>,
                            Inr (case nalUnit of None \<Rightarrow> [] | Some u \<Rightarrow> [u])))
                     else if nalType = 50 then (d, Inr [])
                     else (d, Inl (UnsupportedNALType nalType)))))"

definition h5_Reset :: "HEVCDepacketizer \<Rightarrow> HEVCDepacketizer" where
  "h5_Reset d = d\<lparr>h5_fragments := [], h5_lastSeq := 0, h5_fuInProgress := False\<rparr>"

section \<open>Invariant\<close>

definition h5_inv :: "HEVCDepacketizer \<Rightarrow> bool" where
  "h5_inv d \<longleftrightarrow> total_size (h5_fragments d) \<le> MaxNALUnitSize \<and>
     (h5_fragments d = [] \<or> (\<exists>h tl. h5_fragments d = (start_code @ h) # tl \<and> h \<noteq> [])) \<and>
     (h5_fragments d \<noteq> [] \<longrightarrow> h5_fuInProgress d)"

lemma h5_drop_simps [simp]: "h5_fragments (h5_drop d) = []" "h5_inv (h5_drop d)"
  by (simp_all add: h5_drop_def h5_inv_def)

lemma h5_inv_lastSeq [simp]: "h5_inv (d\<lparr>h5_lastSeq := sq\<rparr>) = h5_inv d"
  by (simp add: h5_inv_def)

lemma h5_inv_empty: "h5_fragments d = [] \<Longrightarrow> h5_inv d"
  by (simp add: h5_inv_def)

lemma six_le_Max: "6 \<le> MaxNALUnitSize"
  by (simp add: MaxNALUnitSize_def)

text \<open>The fragments a fragment is added to.\<close>

definition h5_base :: "byte list \<Rightarrow> HEVCDepacketizer \<Rightarrow> byte list list" where
  "h5_base payload d = (if h5_start payload then [h5_head payload] else h5_fragments d)"

lemma h5_fu_cases:
  assumes inv: "h5_inv d" and fu: "\<not> (h5_start pl \<and> h5_end pl)" "3 \<le> length pl"
    and run: "h5_handleFragmentationUnit pl sq d = (d', w)"
  obtains (drop) "h5_fragments d' = []" and "w = None"
  | (dup) "d' = d" and "w = None" and "sq = h5_lastSeq d" and "\<not> h5_start pl"
  | (extend) "h5_start pl \<or> h5_fragments d \<noteq> [] \<and> sq = h5_lastSeq d + 1"
      and "total_size (h5_base pl d) + length (drop 3 pl) \<le> MaxNALUnitSize"
      and "if h5_end pl then w = Some (concat (h5_base pl d @ [drop 3 pl])) \<and> h5_fragments d' = []
           else w = None \<and> h5_fragments d' = h5_base pl d @ [drop 3 pl] \<and> h5_fuInProgress d'"
proof -
  have prog: "h5_fragments d \<noteq> [] \<Longrightarrow> h5_fuInProgress d" using inv by (simp add: h5_inv_def)
  consider "\<not> h5_start pl" "h5_fragments d = []" | "\<not> h5_start pl" "h5_fragments d \<noteq> []" "sq = h5_lastSeq d"
    | "\<not> h5_start pl" "h5_fragments d \<noteq> []" "sq \<noteq> h5_lastSeq d" "sq \<noteq> h5_lastSeq d + 1"
    | "h5_start pl \<or> h5_fragments d \<noteq> [] \<and> sq = h5_lastSeq d + 1" by blast
  then show ?thesis
  proof cases
    case 1
    then show ?thesis using run fu by (intro drop) (auto simp: h5_handleFragmentationUnit_def split: if_splits)
  next
    case 2
    then show ?thesis using run fu prog
      by (intro dup) (auto simp: h5_handleFragmentationUnit_def sequenceDistance_0)
  next
    case 3
    then show ?thesis using run fu prog
      by (intro drop) (auto simp: h5_handleFragmentationUnit_def sequenceDistance_0 sequenceDistance_1)
  next
    case 4
    show ?thesis
    proof (cases "total_size (h5_base pl d) + length (drop 3 pl) > MaxNALUnitSize")
      case True
      then show ?thesis using run fu prog 4
        by (intro drop) (auto simp: h5_handleFragmentationUnit_def h5_base_def sequenceDistance_0 sequenceDistance_1
            split: if_splits)
    next
      case False
      then show ?thesis using run fu prog 4
        by (intro extend) (auto simp: h5_handleFragmentationUnit_def h5_base_def sequenceDistance_0 sequenceDistance_1
            Let_def split: if_splits)
    qed
  qed
qed

lemma h5_handle_inv:
  assumes "h5_inv d" and "h5_handleFragmentationUnit pl sq d = (d', w)"
  shows "h5_inv d' \<and> (\<forall>u. w = Some u \<longrightarrow> (\<exists>nal. u = start_code @ nal \<and> nal \<noteq> []))"
proof (cases "3 \<le> length pl \<and> \<not> (h5_start pl \<and> h5_end pl)")
  case False
  then show ?thesis using assms by (auto simp: h5_handleFragmentationUnit_def split: if_splits)
next
  case True
  have base: "h5_base pl d \<noteq> [] \<Longrightarrow> \<exists>h tl. h5_base pl d = (start_code @ h) # tl \<and> h \<noteq> []"
    using assms(1) by (auto simp: h5_base_def h5_head_def h5_inv_def)
  show ?thesis
  proof (cases rule: h5_fu_cases [OF assms(1) _ _ assms(2)])
    case 3
    then show ?thesis using assms(1) by (simp add: h5_inv_empty)
  next
    case 4
    then show ?thesis using assms(1) by simp
  next
    case 5
    moreover have "h5_base pl d \<noteq> []" using 5(1) by (auto simp: h5_base_def)
    ultimately show ?thesis using base by (cases "h5_end pl") (auto simp: h5_inv_def)
  qed (use True in auto)
qed

lemma h5_ap_step:
  assumes "be16 (payload ! off) (payload ! (off + 1)) = n" and "n \<noteq> 0" and "n \<le> MaxNALUnitSize"
    and "off + 2 + n \<le> length payload" and "n < 2 \<or> unat (drop_bit 1 (payload ! (off + 2)) AND 0x3F) < 48"
  shows "h5_ap_loop payload off us =
     h5_ap_loop payload (off + 2 + n) (us @ [start_code @ gslice payload (off + 2) (off + 2 + n)])"
proof -
  have "off < length payload" "\<not> off + 2 > length payload" "\<not> n > MaxNALUnitSize" "\<not> off + 2 + n > length payload"
    "\<not> (n \<ge> 2 \<and> unat (drop_bit 1 (payload ! (off + 2)) AND 0x3F) \<ge> 48)"
    using assms by auto
  then show ?thesis
    by (subst h5_ap_loop.simps) (simp only: Let_def assms(1,2) if_True if_False simp_thms)
qed

lemma h5_ap_loop_units:
  assumes "h5_ap_loop payload off us = (us', e)" and "\<forall>u \<in> set us. \<exists>nal. u = start_code @ nal \<and> nal \<noteq> []"
  shows "\<forall>u \<in> set us'. \<exists>nal. u = start_code @ nal \<and> nal \<noteq> []"
  using assms
proof (induction payload off us rule: h5_ap_loop.induct)
  case (1 payload off us)
  let ?n = "be16 (payload ! off) (payload ! (off + 1))"
  let ?ok = "off < length payload \<and> off + 2 \<le> length payload \<and> ?n \<noteq> 0 \<and> ?n \<le> MaxNALUnitSize \<and>
      off + 2 + ?n \<le> length payload \<and> \<not> (?n \<ge> 2 \<and> unat (drop_bit 1 (payload ! (off + 2)) AND 0x3F) \<ge> 48)"
  show ?case
  proof (cases ?ok)
    case True
    let ?u = "start_code @ gslice payload (off + 2) (off + 2 + ?n)"
    have "length (gslice payload (off + 2) (off + 2 + ?n)) = ?n" using True by simp
    then have "gslice payload (off + 2) (off + 2 + ?n) \<noteq> []" using True by (metis list.size(3))
    then have u: "\<exists>nal. ?u = start_code @ nal \<and> nal \<noteq> []" by simp
    have "h5_ap_loop payload (off + 2 + ?n) (us @ [?u]) = (us', e)"
      using True "1.prems"(1) h5_ap_step [OF refl, of payload off us] by auto
    then show ?thesis using True u "1.prems"(2) by (intro "1.IH" [of ?n "off + 2" "unat (drop_bit 1 (payload ! (off + 2)) AND 0x3F)"]) auto
  next
    case False
    then have "us' = us"
      using "1.prems"(1) by (subst (asm) h5_ap_loop.simps) (auto simp: Let_def split: if_splits)
    then show ?thesis using "1.prems"(2) by simp
  qed
qed

lemma h5_Depacketize_step:
  assumes "h5_inv d" and "h5_Depacketize now p d = (d', r)"
  shows "h5_inv d'" and "r = Inr us \<Longrightarrow> u \<in> set us \<Longrightarrow> \<exists>nal. u = start_code @ nal \<and> nal \<noteq> []"
proof -
  have "h5_inv d' \<and> (\<forall>us. r = Inr us \<longrightarrow> (\<forall>u \<in> set us. \<exists>nal. u = start_code @ nal \<and> nal \<noteq> []))"
    using assms h5_handle_inv [OF assms(1)] h5_ap_loop_units [of "drop 2 (pk_Payload p)" 0 "[]"]
    unfolding h5_Depacketize_def Let_def h5_handleAggregationPacket_def
    by (auto simp: prependStartCode_def split: if_splits prod.splits option.splits)
  then show "h5_inv d'" "r = Inr us \<Longrightarrow> u \<in> set us \<Longrightarrow> \<exists>nal. u = start_code @ nal \<and> nal \<noteq> []" by blast+
qed

interpretation hevc: annexb_depacketizer h5_inv "\<lambda>d. total_size (h5_fragments d)" h5_Depacketize
proof
  fix d now p d' r assume "h5_inv d" "h5_Depacketize now p d = (d', r)"
  then show "h5_inv d'" by (rule h5_Depacketize_step)
next
  fix d now p d' us u assume "h5_inv d" "h5_Depacketize now p d = (d', Inr us)" "u \<in> set us"
  then show "\<exists>nal. u = start_code @ nal \<and> nal \<noteq> []" by (metis h5_Depacketize_step(2))
next
  fix d assume "h5_inv d"
  then show "total_size (h5_fragments d) \<le> MaxNALUnitSize" by (simp add: h5_inv_def)
qed

section \<open>Fragments\<close>

definition h5_nal_type :: "byte list \<Rightarrow> nat" where
  "h5_nal_type payload = unat (drop_bit 9 (push_bit 8 (ucast (payload ! 0) :: u16) OR ucast (payload ! 1)) AND 0x3F)"

definition hevc_fragment :: "rtp_packet \<Rightarrow> bool" where
  "hevc_fragment p \<longleftrightarrow> 3 \<le> length (pk_Payload p) \<and> pk_Payload p ! 0 AND 0x80 = 0 \<and>
     pk_Payload p ! 1 AND 0x07 \<noteq> 0 \<and> h5_nal_type (pk_Payload p) = 49 \<and>
     \<not> (h5_start (pk_Payload p) \<and> h5_end (pk_Payload p))"

lemma h5_Depacketize_fragment:
  assumes "hevc_fragment p"
  shows "h5_Depacketize now p d =
    (let (d, u) = h5_handleFragmentationUnit (pk_Payload p) (pk_SequenceNumber p) d
     in (d\<lparr>h5_lastSeq := pk_SequenceNumber p\<rparr>, Inr (case u of None \<Rightarrow> [] | Some u \<Rightarrow> [u])))"
  using assms unfolding hevc_fragment_def h5_nal_type_def by (auto simp: h5_Depacketize_def Let_def)

interpretation fu265: fu_reassembler h5_inv h5_fragments h5_lastSeq hevc_fragment
  "\<lambda>p. h5_start (pk_Payload p)" "\<lambda>p. h5_end (pk_Payload p)"
  "\<lambda>p. h5_head (pk_Payload p)" "\<lambda>p. drop 3 (pk_Payload p)" h5_Depacketize
proof
  fix d p now d' r assume inv: "h5_inv d" and frag: "hevc_fragment p" and run: "h5_Depacketize now p d = (d', r)"
  show "h5_inv d'" by (rule h5_Depacketize_step(1) [OF inv run])
  show "h5_lastSeq d' = pk_SequenceNumber p"
    using run by (auto simp: h5_Depacketize_fragment [OF frag] Let_def split: prod.splits)
  let ?pl = "pk_Payload p" and ?sq = "pk_SequenceNumber p"
  obtain d2 w where h: "h5_handleFragmentationUnit ?pl ?sq d = (d2, w)" by (cases "h5_handleFragmentationUnit ?pl ?sq d")
  have d': "d' = d2\<lparr>h5_lastSeq := ?sq\<rparr>" and r: "r = Inr (case w of None \<Rightarrow> [] | Some u \<Rightarrow> [u])"
    using run h by (simp_all add: h5_Depacketize_fragment [OF frag])
  show "h5_fragments d' = [] \<and> r = Inr [] \<or>
      h5_fragments d' = h5_fragments d \<and> r = Inr [] \<and> ?sq = h5_lastSeq d \<or>
      (h5_start ?pl \<or> h5_fragments d \<noteq> [] \<and> ?sq = h5_lastSeq d + 1) \<and>
      (if h5_end ?pl
       then h5_fragments d' = [] \<and> r = Inr [concat ((if h5_start ?pl then [h5_head ?pl] else h5_fragments d) @ [drop 3 ?pl])]
       else h5_fragments d' = (if h5_start ?pl then [h5_head ?pl] else h5_fragments d) @ [drop 3 ?pl] \<and> r = Inr [])"
  proof (cases rule: h5_fu_cases [OF inv _ _ h])
    case 5
    then show ?thesis by (cases "h5_end ?pl") (simp_all add: d' r h5_base_def)
  qed (use frag in \<open>auto simp: d' r hevc_fragment_def\<close>)
qed

lemma h5_ap_loop_body:
  "\<forall>v \<in> set vs. v \<noteq> [] \<and> length v < 65536 \<and> (2 \<le> length v \<longrightarrow> unat (drop_bit 1 (v ! 0) AND 0x3F) < 48) \<Longrightarrow>
   h5_ap_loop (pre @ agg_body vs) (length pre) us = (us @ map (\<lambda>v. start_code @ v) vs, None)"
proof (induction vs arbitrary: pre us)
  case Nil
  then show ?case by (subst h5_ap_loop.simps) (simp add: agg_body_def)
next
  case (Cons v vs)
  have body: "pre @ agg_body (v # vs) = pre @ agg_element v @ agg_body vs" by (simp add: agg_body_def)
  have v: "v \<noteq> []" "length v < 65536" "2 \<le> length v \<longrightarrow> unat (drop_bit 1 (v ! 0) AND 0x3F) < 48"
    using Cons.prems by auto
  have hd: "(pre @ agg_element v @ agg_body vs) ! (length pre + 2) = v ! 0"
    using v(1) by (simp add: agg_element_def nth_append)
  have "h5_ap_loop (pre @ agg_element v @ agg_body vs) (length pre) us =
      h5_ap_loop (pre @ agg_element v @ agg_body vs) (length pre + 2 + length v) (us @ [start_code @ v])"
    using h5_ap_step [OF agg_element_at(1) [OF v(2), of pre "agg_body vs"], of us]
      agg_element_at(2) [OF v(2), of pre "agg_body vs"] v hd
    by (simp add: MaxNALUnitSize_def agg_element_def not_le disj_commute imp_conv_disj)
  also have "pre @ agg_element v @ agg_body vs = (pre @ agg_element v) @ agg_body vs" by simp
  also have "length pre + 2 + length v = length (pre @ agg_element v)" by (simp add: agg_element_def)
  also have "h5_ap_loop ((pre @ agg_element v) @ agg_body vs) (length (pre @ agg_element v)) (us @ [start_code @ v]) =
      ((us @ [start_code @ v]) @ map (\<lambda>v. start_code @ v) vs, None)"
    using Cons.prems by (intro Cons.IH) auto
  finally show ?case by (simp add: body)
qed

section \<open>Properties\<close>

text \<open>a unit reassembled from HEVC fragmentation units has no hole: it is the rebuilt header of a
  received start fragment followed by the bodies of received fragments with consecutive sequence
  numbers, up to an end fragment.\<close>

theorem hevc_fu_no_holes:
  assumes "h5_fragments d = []" and "\<forall>(now, p) \<in> set ps. hevc_fragment p"
    and "depack_run h5_Depacketize ps d = (d', us)" and "u \<in> set us"
  shows "\<exists>qs. subseq qs (map snd ps) \<and> fu_chain (\<lambda>p. h5_start (pk_Payload p)) qs \<and>
     h5_end (pk_Payload (last qs)) \<and>
     u = h5_head (pk_Payload (hd qs)) @ concat (map (\<lambda>q. drop 3 (pk_Payload q)) qs)"
  using fu265.run_no_holes [OF h5_inv_empty [OF assms(1)] _ assms(2-4), of "[]"] assms(1)
  by (simp add: fu_parts_def)

text \<open>an HEVC aggregation packet of non-empty units of at most 65535 bytes, none of them itself
  an aggregation, fragmentation or PACI packet, is taken apart into exactly these units.\<close>

theorem hevc_ap_roundtrip:
  assumes "b0 AND 0x80 = 0" and "b1 AND 0x07 \<noteq> 0" and "h5_nal_type (b0 # b1 # agg_body us) = 48"
    and "\<forall>u \<in> set us. u \<noteq> [] \<and> length u < 65536 \<and> (2 \<le> length u \<longrightarrow> unat (drop_bit 1 (u ! 0) AND 0x3F) < 48)"
    and "pk_Payload p = b0 # b1 # agg_body us"
  shows "h5_Depacketize now p d = (d\<lparr>h5_lastSeq := pk_SequenceNumber p\<rparr>, Inr (map (\<lambda>u. start_code @ u) us))"
proof -
  have "h5_ap_loop ([] @ agg_body us) (length ([] :: byte list)) [] = ([] @ map (\<lambda>u. start_code @ u) us, None)"
    using assms(4) by (intro h5_ap_loop_body)
  then show ?thesis using assms(1-3,5)
    by (simp add: h5_Depacketize_def h5_handleAggregationPacket_def h5_nal_type_def Let_def)
qed

text \<open>whatever packets arrive, the HEVC fragments held for reassembly never exceed the limit for
  one NAL unit, and every emitted unit is an Annex B unit with a payload.\<close>

theorem hevc_bounded_annexb:
  assumes "h5_inv d" and "depack_run h5_Depacketize ps d = (d', us)"
  shows "total_size (h5_fragments d') \<le> MaxNALUnitSize \<and> (\<forall>u \<in> set us. \<exists>nal. u = start_code @ nal \<and> nal \<noteq> [])"
  using hevc.run_invar_units [OF assms] hevc.held_bounded by blast

section \<open>Concrete instances\<close>

definition hevc_packet :: "u16 \<Rightarrow> byte list \<Rightarrow> rtp_packet" where
  "hevc_packet sq payload = \<lparr>pk_Version = 2, pk_PayloadType = 96, pk_SequenceNumber = sq, pk_Timestamp = 0,
     pk_SSRC = 0, pk_Payload = payload\<rparr>"

definition hevc_new :: HEVCDepacketizer where
  "hevc_new = \<lparr>h5_fragments = [], h5_lastSeq = 0, h5_fuInProgress = False\<rparr>"

abbreviation hevc_two_fragments :: "(nanos \<times> rtp_packet) list" where
  "hevc_two_fragments \<equiv> [(0, hevc_packet 0xFFFF [0x62, 0x01, 0x93, 7]), (1, hevc_packet 0 [0x62, 0x01, 0x53, 8])]"

lemma hevc_two_fragments_ok: "\<forall>(now, p) \<in> set hevc_two_fragments. hevc_fragment p"
  by (simp add: hevc_fragment_def hevc_packet_def h5_nal_type_def h5_start_def h5_end_def)

theorem hevc_fu_no_holes_witness:
  "\<exists>qs. subseq qs (map snd hevc_two_fragments) \<and> fu_chain (\<lambda>p. h5_start (pk_Payload p)) qs \<and>
     start_code @ [0x26, 0x01, 7, 8] = h5_head (pk_Payload (hd qs)) @ concat (map (\<lambda>q. drop 3 (pk_Payload q)) qs)"
proof -
  have frag: "hevc_fragment (hevc_packet 0xFFFF [0x62, 0x01, 0x93, 7])" "hevc_fragment (hevc_packet 0 [0x62, 0x01, 0x53, 8])"
    using hevc_two_fragments_ok by simp_all
  have run: "depack_run h5_Depacketize hevc_two_fragments hevc_new =
      (hevc_new\<lparr>h5_lastSeq := 0\<rparr>, [start_code @ [0x26, 0x01, 7, 8]])"
    by (simp add: h5_Depacketize_fragment [OF frag(1)] h5_Depacketize_fragment [OF frag(2)] hevc_new_def)
      (simp add: hevc_packet_def h5_handleFragmentationUnit_def h5_start_def h5_end_def h5_head_def h5_drop_def
        sequenceDistance_def MaxNALUnitSize_def)
  show ?thesis
    using hevc_fu_no_holes [OF _ hevc_two_fragments_ok run, of "start_code @ [0x26, 0x01, 7, 8]"]
    by (auto simp: hevc_new_def)
qed

theorem hevc_ap_roundtrip_witness:
  "h5_Depacketize 0 (hevc_packet 5 (0x60 # 0x01 # agg_body [[0x40, 1, 2], [0x42, 1]])) hevc_new =
     (hevc_new\<lparr>h5_lastSeq := 5\<rparr>, Inr [start_code @ [0x40, 1, 2], start_code @ [0x42, 1]])"
  using hevc_ap_roundtrip [of "0x60" "0x01" "[[0x40, 1, 2], [0x42, 1]]"
      "hevc_packet 5 (0x60 # 0x01 # agg_body [[0x40, 1, 2], [0x42, 1]])" 0 hevc_new]
  by (simp add: hevc_packet_def h5_nal_type_def)

theorem hevc_bounded_annexb_witness:
  "total_size (h5_fragments (fst (depack_run h5_Depacketize hevc_two_fragments hevc_new))) \<le> MaxNALUnitSize"
proof -
  have inv: "h5_inv hevc_new" by (simp add: hevc_new_def h5_inv_empty)
  show ?thesis using hevc_bounded_annexb [OF inv, of hevc_two_fragments] by (metis prod.collapse)
qed

end
