(* ===== verification/AV1_Depacketizer.thy ===== *)
theory AV1_Depacketizer
  imports Depacketizer LEB128
begin

unbundle bit_operations_syntax

text \<open>
  The AV1 depacketizer of \<^verbatim>\<open>internal/ingestion/codec/av1_depacketizer.go\<close>.  It collects OBUs
  in a temporal-unit buffer, reassembles fragmented OBUs and reads length-prefixed
  elements with the LEB128 reader.  A call returns the units it flushes together with
  an optional error, as the code does.
\<close>

section \<open>State and operations\<close>

record AV1Depacketizer =
  a1_fragments :: "byte list list"
  a1_lastSeq :: u16
  a1_fragmentedOBU :: bool
  a1_obuType :: byte
  a1_temporalUnitBuf :: "byte list list"

definition obuTemporalDelimiter :: byte where
  "obuTemporalDelimiter = 2"

definition a1_parseOBUHeader :: "byte list \<Rightarrow> byte \<times> bool" where
  "a1_parseOBUHeader data =
     (if length data < 1 then (0, False)
      else if data ! 0 AND 0x80 \<noteq> 0 then (0, False)
      else (drop_bit 3 (data ! 0) AND 0x0F, True))"

function a1_leb_loop :: "byte list \<Rightarrow> nat \<Rightarrow> byte list list \<Rightarrow> depack_error + byte list list" where
  "a1_leb_loop payload offset obus =
     (if offset < length payload then
        (case ReadLEB128 (drop offset payload) of
           (len, bytesRead, Some e) \<Rightarrow> Inl BadOBULength
         | (len, bytesRead, None) \<Rightarrow>
             (let offset = offset + bytesRead
              in if unat len > length payload - offset then Inl OBUTooLong
                 else if unat len > 0
                 then a1_leb_loop payload (offset + unat len) (obus @ [gslice payload offset (offset + unat len)])
                 else a1_leb_loop payload offset obus))
      else Inr obus)"
  by pat_completeness auto
termination
  by (relation "measure (\<lambda>(payload, offset, obus). length payload - offset)")
    (auto dest!: ReadLEB128_progress [OF sym])

declare a1_leb_loop.simps [simp del]

definition a1_processLEB128PrefixedOBUs :: "byte list \<Rightarrow> depack_error + byte list list" where
  "a1_processLEB128PrefixedOBUs payload = a1_leb_loop payload 0 []"

text \<open>The loop over the first \<open>W - 1\<close> elements, then the last element without a length.\<close>

fun a1_multi_loop :: "byte list \<Rightarrow> nat \<Rightarrow> nat \<Rightarrow> byte list list \<Rightarrow> depack_error + nat \<times> byte list list" where
  "a1_multi_loop payload 0 offset obus = Inr (offset, obus)"
| "a1_multi_loop payload (Suc n) offset obus =
     (if offset < length payload then
        (case ReadLEB128 (drop offset payload) of
           (len, bytesRead, Some e) \<Rightarrow> Inl BadOBULength
         | (len, bytesRead, None) \<Rightarrow>
             (let offset = offset + bytesRead
              in if unat len > length payload - offset then Inl OBUTooLong
                 else a1_multi_loop payload n (offset + unat len)
                        (obus @ [gslice payload offset (offset + unat len)])))
      else Inr (offset, obus))"

definition a1_processMultipleOBUs :: "byte list \<Rightarrow> nat \<Rightarrow> depack_error + byte list list" where
  "a1_processMultipleOBUs payload count =
     (case a1_multi_loop payload (count - 1) 0 [] of
        Inl e \<Rightarrow> Inl e
      | Inr (offset, obus) \<Rightarrow>
          Inr (if offset < length payload then obus @ [drop offset payload] else obus))"

text \<open>The position of the first temporal delimiter after the front of the buffer.\<close>

fun a1_find_delimiter :: "nat \<Rightarrow> byte list list \<Rightarrow> nat option" where
  "a1_find_delimiter i [] = None"
| "a1_find_delimiter i (obu # obus) =
     (if length obu > 0 \<and> fst (a1_parseOBUHeader obu) = obuTemporalDelimiter \<and> i > 0 then Some i
      else a1_find_delimiter (i + 1) obus)"

text \<open>The final part of \<^verbatim>\<open>Depacketize\<close>: flush what precedes a temporal delimiter.\<close>

definition a1_flush :: "byte list list \<Rightarrow> AV1Depacketizer \<Rightarrow> AV1Depacketizer \<times> byte list list \<times> depack_error option" where
  "a1_flush obus d =
     (if \<not> a1_fragmentedOBU d \<and> length (a1_temporalUnitBuf d) > 0 then
        (case a1_find_delimiter 0 (a1_temporalUnitBuf d) of
           None \<Rightarrow> (d, obus, None)
         | Some i \<Rightarrow> (d\<lparr>a1_temporalUnitBuf := drop i (a1_temporalUnitBuf d)\<rparr>,
                      obus @ take i (a1_temporalUnitBuf d), None))
      else (d, obus, None))"

text \<open>The part that depends on the fragmentation bits.\<close>

definition a1_process ::
  "bool \<Rightarrow> bool \<Rightarrow> nat \<Rightarrow> byte list \<Rightarrow> byte list list \<Rightarrow> AV1Depacketizer \<Rightarrow>
   AV1Depacketizer \<times> byte list list \<times> depack_error option" where
  "a1_process zBit yBit wField payload obus d =
     (if zBit then
        if \<not> a1_fragmentedOBU d \<or> length (a1_fragments d) = 0 then (d, obus, None)
        else if total_size (a1_fragments d) + length payload > MaxNALUnitSize
        then (d\<lparr>a1_fragments := [], a1_fragmentedOBU := False\<rparr>, obus, Some FragmentTooLarge)
        else
          (let d = d\<lparr>a1_fragments := a1_fragments d @ [payload]\<rparr>;
               d = (if \<not> yBit
                    then d\<lparr>a1_fragments := [], a1_fragmentedOBU := False,
                           a1_temporalUnitBuf := a1_temporalUnitBuf d @ [concat (a1_fragments d)]\<rparr>
                    else d)
           in a1_flush obus d)
      else if yBit then
        a1_flush obus (d\<lparr>a1_fragments := [payload], a1_fragmentedOBU := True,
                         a1_obuType := fst (a1_parseOBUHeader payload)\<rparr>)
      else
        (case (if wField = 0 then a1_processLEB128PrefixedOBUs payload
               else a1_processMultipleOBUs payload wField) of
           Inl e \<Rightarrow> (d, obus, Some e)
         | Inr obuList \<Rightarrow>
             a1_flush obus (d\<lparr>a1_temporalUnitBuf := a1_temporalUnitBuf d @ obuList\<rparr>)))"

definition a1_Depacketize ::
  "rtp_packet \<Rightarrow> AV1Depacketizer \<Rightarrow> AV1Depacketizer \<times> byte list list \<times> depack_error option" where
  "a1_Depacketize packet d =
     (let payload = pk_Payload packet;
          sequenceNumber = pk_SequenceNumber packet
      in if length payload < 1 then (d, [], Some PayloadTooShort)
         else
           (let aggHeader = payload ! 0;
                zBit = (aggHeader AND 0x80 \<noteq> 0);
                yBit = (aggHeader AND 0x40 \<noteq> 0);
                wField = unat (drop_bit 4 (aggHeader AND 0x30));
                nBit = (aggHeader AND 0x08 \<noteq> 0);
                payload = drop 1 payload;
                lost = (a1_fragmentedOBU d \<and> sequenceNumber \<noteq> a1_lastSeq d + 1);
                d = (if lost then d\<lparr>a1_fragments := [], a1_fragmentedOBU := False\<rparr> else d);
                d = d\<lparr>a1_lastSeq := sequenceNumber\<rparr>
            in if lost \<and> zBit then (d, [], None)
               else
                 (let (d, obus) = (if nBit \<and> length (a1_temporalUnitBuf d) > 0
                                   then (d\<lparr>a1_temporalUnitBuf := []\<rparr>, a1_temporalUnitBuf d) else (d, []))
                  in a1_process zBit yBit wField payload obus d)))"

definition a1_Reset :: "AV1Depacketizer \<Rightarrow> AV1Depacketizer" where
  "a1_Reset d = d\<lparr>a1_fragments := [], a1_temporalUnitBuf := [], a1_lastSeq := 0,
     a1_fragmentedOBU := False, a1_obuType := 0\<rparr>"

section \<open>Elements and conservation of units\<close>

text \<open>The encoding of elements with length prefixes.\<close>

definition a1_element :: "byte list \<Rightarrow> byte list" where
  "a1_element obu = WriteLEB128 (word_of_nat (length obu)) @ obu"

lemma a1_leb_loop_elements:
  "\<forall>o' \<in> set os. o' \<noteq> [] \<and> length o' < 2 ^ 64 \<Longrightarrow>
   a1_leb_loop (pre @ concat (map a1_element os)) (length pre) obus = Inr (obus @ os)"
proof (induction os arbitrary: pre obus)
  case Nil
  then show ?case by (subst a1_leb_loop.simps) simp
next
  case (Cons u os)
  let ?len = "word_of_nat (length u) :: u64"
  let ?rest = "concat (map a1_element os)"
  have len: "unat ?len = length u" and ne: "u \<noteq> []"
    using Cons.prems by (simp_all add: unsigned_of_nat take_bit_nat_eq_self)
  have drop: "drop (length pre) (pre @ concat (map a1_element (u # os))) = WriteLEB128 ?len @ (u @ ?rest)"
    by (simp add: a1_element_def)
  have ne2: "0 < length (WriteLEB128 ?len)" by (subst WriteLEB128.simps) (simp add: Let_def)
  have "a1_leb_loop (pre @ concat (map a1_element (u # os))) (length pre) obus =
      a1_leb_loop (pre @ concat (map a1_element (u # os))) (length pre + length (WriteLEB128 ?len) + length u) (obus @ [u])"
    using ne ne2 by (subst a1_leb_loop.simps)
      (simp only: drop ReadLEB128_Write, simp add: Let_def len a1_element_def gslice_def)
  also have "\<dots> = a1_leb_loop ((pre @ a1_element u) @ ?rest) (length (pre @ a1_element u)) (obus @ [u])"
    by (simp add: a1_element_def add.assoc)
  also have "\<dots> = Inr ((obus @ [u]) @ os)" using Cons.prems by (intro Cons.IH) simp
  finally show ?case by simp
qed

lemma a1_flush_conserves: "a1_flush obus d = (d', out, e) \<Longrightarrow>
   e = None \<and> out @ a1_temporalUnitBuf d' = obus @ a1_temporalUnitBuf d"
  by (auto simp: a1_flush_def split: if_splits option.splits)

text \<open>The units a packet contributes: a completed fragmented unit or its own elements.\<close>

definition a1_contributes :: "rtp_packet \<Rightarrow> AV1Depacketizer \<Rightarrow> byte list list \<Rightarrow> bool" where
  "a1_contributes p d new \<longleftrightarrow> new = [] \<or>
     new = [concat (a1_fragments d @ [drop 1 (pk_Payload p)])] \<and> pk_SequenceNumber p = a1_lastSeq d + 1 \<or>
     a1_processLEB128PrefixedOBUs (drop 1 (pk_Payload p)) = Inr new \<or>
     (\<exists>w. a1_processMultipleOBUs (drop 1 (pk_Payload p)) w = Inr new)"

lemma a1_process_conserves:
  assumes "a1_process z y w payload obus d = (d', out, None)"
  shows "\<exists>new. out @ a1_temporalUnitBuf d' = obus @ a1_temporalUnitBuf d @ new \<and>
    (new = [] \<or> new = [concat (a1_fragments d @ [payload])] \<and> z \<and> a1_fragmentedOBU d \<or>
     a1_processLEB128PrefixedOBUs payload = Inr new \<or> a1_processMultipleOBUs payload w = Inr new)"
proof -
  consider "z" "\<not> a1_fragmentedOBU d \<or> length (a1_fragments d) = 0"
    | "z" "a1_fragmentedOBU d" "length (a1_fragments d) \<noteq> 0" "total_size (a1_fragments d) + length payload \<le> MaxNALUnitSize"
    | "\<not> z" "y" | "\<not> z" "\<not> y"
    using assms by (fastforce simp: a1_process_def split: if_splits)
  then show ?thesis
  proof cases
    case 1
    then show ?thesis using assms by (auto simp: a1_process_def)
  next
    case 2
    then show ?thesis using assms
      by (cases y) (auto simp: a1_process_def Let_def dest!: a1_flush_conserves)
  next
    case 3
    then show ?thesis using assms by (auto simp: a1_process_def dest!: a1_flush_conserves)
  next
    case 4
    then show ?thesis using assms
      by (auto simp: a1_process_def split: sum.splits if_splits dest!: a1_flush_conserves)
  qed
qed

section \<open>Properties\<close>

text \<open>OBU elements written with LEB128 length prefixes are read back unchanged, in order.\<close>

theorem av1_obu_elements_roundtrip:
  assumes "\<forall>obu \<in> set obus. obu \<noteq> [] \<and> length obu < 2 ^ 64"
  shows "a1_processLEB128PrefixedOBUs (concat (map a1_element obus)) = Inr obus"
  using a1_leb_loop_elements [OF assms, of "[]" "[]"] by (simp add: a1_processLEB128PrefixedOBUs_def)

theorem av1_obu_elements_roundtrip_witness:
  "a1_processLEB128PrefixedOBUs (concat (map a1_element [[0x12, 0], [0x32, 1, 2]])) = Inr [[0x12, 0], [0x32, 1, 2]]"
  by (rule av1_obu_elements_roundtrip) simp

text \<open>a packet that is processed without an error loses and reorders no unit: what it returns,
  followed by what stays in the temporal-unit buffer, is what was buffered before followed by what
  the packet contributes; a fragmented unit is completed only by the packet with the next
  sequence number.\<close>

theorem av1_conserves_units:
  assumes "a1_Depacketize p d = (d', out, None)"
  shows "\<exists>new. out @ a1_temporalUnitBuf d' = a1_temporalUnitBuf d @ new \<and> a1_contributes p d new"
proof -
  let ?lost = "a1_fragmentedOBU d \<and> pk_SequenceNumber p \<noteq> a1_lastSeq d + 1"
  let ?d1 = "(if ?lost then d\<lparr>a1_fragments := [], a1_fragmentedOBU := False\<rparr> else d)\<lparr>a1_lastSeq := pk_SequenceNumber p\<rparr>"
  have len: "pk_Payload p \<noteq> []" using assms by (auto simp: a1_Depacketize_def Let_def split: if_splits)
  define h where "h = pk_Payload p ! 0"
  show ?thesis
  proof (cases "?lost \<and> h AND 0x80 \<noteq> 0")
    case True
    then show ?thesis using assms len by (auto simp: a1_Depacketize_def Let_def h_def a1_contributes_def)
  next
    case False
    define flushed where "flushed = (h AND 0x08 \<noteq> 0 \<and> length (a1_temporalUnitBuf ?d1) > 0)"
    define d2 where "d2 = (if flushed then ?d1\<lparr>a1_temporalUnitBuf := []\<rparr> else ?d1)"
    define obus where "obus = (if flushed then a1_temporalUnitBuf d else [])"
    have run: "a1_process (h AND 0x80 \<noteq> 0) (h AND 0x40 \<noteq> 0) (unat (drop_bit 4 (h AND 0x30)))
        (drop 1 (pk_Payload p)) obus d2 = (d', out, None)"
      using assms len False unfolding a1_Depacketize_def Let_def h_def obus_def d2_def flushed_def
      by (auto split: if_splits)
    have "obus @ a1_temporalUnitBuf d2 = a1_temporalUnitBuf d" by (simp add: obus_def d2_def)
    moreover have "a1_fragmentedOBU d2 \<Longrightarrow> a1_fragments d2 = a1_fragments d \<and> pk_SequenceNumber p = a1_lastSeq d + 1"
      by (auto simp: d2_def split: if_splits)
    ultimately show ?thesis using a1_process_conserves [OF run] unfolding a1_contributes_def
      by (metis append_assoc)
  qed
qed

definition av1_packet :: "byte list \<Rightarrow> rtp_packet" where
  "av1_packet payload = \<lparr>pk_Version = 2, pk_PayloadType = 96, pk_SequenceNumber = 8, pk_Timestamp = 0,
     pk_SSRC = 0, pk_Payload = payload\<rparr>"

definition av1_state :: AV1Depacketizer where
  "av1_state = \<lparr>a1_fragments = [[0x32, 1]], a1_lastSeq = 7, a1_fragmentedOBU = True, a1_obuType = 6,
     a1_temporalUnitBuf = [[0x12, 0]]\<rparr>"

theorem av1_conserves_units_witness:
  "\<exists>d' out new. a1_Depacketize (av1_packet [0x80, 2, 3]) av1_state = (d', out, None) \<and>
     out @ a1_temporalUnitBuf d' = [[0x12, 0]] @ new \<and> a1_contributes (av1_packet [0x80, 2, 3]) av1_state new"
proof -
  obtain d' out where run: "a1_Depacketize (av1_packet [0x80, 2, 3]) av1_state = (d', out, None)"
    by (simp add: a1_Depacketize_def av1_packet_def av1_state_def a1_process_def a1_flush_def a1_parseOBUHeader_def
        obuTemporalDelimiter_def MaxNALUnitSize_def Let_def)
  then show ?thesis using av1_conserves_units [OF run] by (auto simp: av1_state_def)
qed

end
