(* ===== verification/Memory_Depacketizer.thy ===== *)
theory Memory_Depacketizer
  imports H264_Depacketizer HEVC_Depacketizer AV1_Depacketizer Memory_Controller
begin

text \<open>
  The memory-accounting wrappers around the depacketizers
  (\<^verbatim>\<open>H264DepacketizerWithMemory\<close>, \<^verbatim>\<open>HEVCDepacketizerWithMemory\<close> and
  \<^verbatim>\<open>AV1DepacketizerWithMemory\<close> in \<^verbatim>\<open>internal/ingestion/codec\<close>).  The H.264 and HEVC wrappers
  have the same body; it is defined once, over the inner depacketizer.
\<close>

section \<open>State and operations\<close>

record 'd DepacketizerWithMemory =
  dm_inner :: 'd
  dm_streamID :: string
  dm_memoryLimit :: int
  dm_currentUsage :: int

datatype dm_error =
    InnerError depack_error
  | FrameExceedsMemoryLimit int int int
  | MemoryAllocationFailed mem_error

definition NewDepacketizerWithMemory :: "'d \<Rightarrow> string \<Rightarrow> int \<Rightarrow> 'd DepacketizerWithMemory" where
  "NewDepacketizerWithMemory inner streamID limit =
     \<lparr>dm_inner = inner, dm_streamID = streamID, dm_memoryLimit = limit, dm_currentUsage = 0\<rparr>"

definition NewH264DepacketizerWithMemory :: "string \<Rightarrow> int \<Rightarrow> H264Depacketizer DepacketizerWithMemory" where
  "NewH264DepacketizerWithMemory = NewDepacketizerWithMemory
     \<lparr>h4_fragments = [], h4_lastSeq = 0, h4_fuInProgress = False, h4_fragmentStartTime = None,
      h4_fragmentTimeout = 5 * second\<rparr>"

definition NewHEVCDepacketizerWithMemory :: "string \<Rightarrow> int \<Rightarrow> HEVCDepacketizer DepacketizerWithMemory" where
  "NewHEVCDepacketizerWithMemory = NewDepacketizerWithMemory
     \<lparr>h5_fragments = [], h5_lastSeq = 0, h5_fuInProgress = False\<rparr>"

definition NewAV1DepacketizerWithMemory :: "string \<Rightarrow> int \<Rightarrow> AV1Depacketizer DepacketizerWithMemory" where
  "NewAV1DepacketizerWithMemory = NewDepacketizerWithMemory
     \<lparr>a1_fragments = [], a1_lastSeq = 0, a1_fragmentedOBU = False, a1_obuType = 0, a1_temporalUnitBuf = []\<rparr>"

text \<open>The common prologue: the packet is refused, or memory for it has been requested.\<close>

definition dm_reserve ::
  "(int \<Rightarrow> int \<Rightarrow> bool) \<Rightarrow> nanos \<Rightarrow> int \<Rightarrow> 'd DepacketizerWithMemory \<Rightarrow> Controller \<Rightarrow>
   'd DepacketizerWithMemory \<times> Controller \<times> dm_error option" where
  "dm_reserve over now estimatedSize d c =
     (if dm_currentUsage d + estimatedSize > dm_memoryLimit d
      then (d, c, Some (FrameExceedsMemoryLimit (dm_currentUsage d) estimatedSize (dm_memoryLimit d)))
      else
        (case mc_RequestMemory over now (dm_streamID d) estimatedSize c of
           (c, Some e, _) \<Rightarrow> (d, c, Some (MemoryAllocationFailed e))
         | (c, None, _) \<Rightarrow> (d\<lparr>dm_currentUsage := dm_currentUsage d + estimatedSize\<rparr>, c, None)))"

definition nal_Depacketize ::
  "'d depack \<Rightarrow> (int \<Rightarrow> int \<Rightarrow> bool) \<Rightarrow> nanos \<Rightarrow> rtp_packet \<Rightarrow> 'd DepacketizerWithMemory \<Rightarrow> Controller \<Rightarrow>
   'd DepacketizerWithMemory \<times> Controller \<times> (dm_error + byte list list)" where
  "nal_Depacketize dp over now packet d c =
     (let estimatedSize = int (length (pk_Payload packet) * 2) in
      case dm_reserve over now estimatedSize d c of
        (d, c, Some e) \<Rightarrow> (d, c, Inl e)
      | (d, c, None) \<Rightarrow>
          (case dp now packet (dm_inner d) of
             (inner, Inl e) \<Rightarrow>
               (d\<lparr>dm_inner := inner, dm_currentUsage := dm_currentUsage d - estimatedSize\<rparr>,
                mc_ReleaseMemory (dm_streamID d) estimatedSize c, Inl (InnerError e))
           | (inner, Inr nalUnits) \<Rightarrow>
               (let d = d\<lparr>dm_inner := inner\<rparr>
                in if length nalUnits > 0 then
                     (let actualSize = int (total_size nalUnits);
                          c = (if estimatedSize > actualSize
                               then mc_ReleaseMemory (dm_streamID d) (estimatedSize - actualSize) c else c)
                      in (d\<lparr>dm_currentUsage := 0\<rparr>, c, Inr nalUnits))
                   else (d, c, Inr nalUnits))))"

definition h4m_Depacketize where
  "h4m_Depacketize = nal_Depacketize h4_Depacketize"

definition h5m_Depacketize where
  "h5m_Depacketize = nal_Depacketize h5_Depacketize"

definition dm_Reset :: "('d \<Rightarrow> 'd) \<Rightarrow> 'd DepacketizerWithMemory \<Rightarrow> Controller \<Rightarrow> 'd DepacketizerWithMemory \<times> Controller" where
  "dm_Reset reset d c =
     (let (d, c) = (if dm_currentUsage d > 0
                    then (d\<lparr>dm_currentUsage := 0\<rparr>, mc_ReleaseMemory (dm_streamID d) (dm_currentUsage d) c)
                    else (d, c))
      in (d\<lparr>dm_inner := reset (dm_inner d)\<rparr>, c))"

definition h4m_Reset where
  "h4m_Reset = dm_Reset h4_Reset"

definition h5m_Reset where
  "h5m_Reset = dm_Reset h5_Reset"

definition a1m_Depacketize ::
  "(int \<Rightarrow> int \<Rightarrow> bool) \<Rightarrow> nanos \<Rightarrow> rtp_packet \<Rightarrow> AV1Depacketizer DepacketizerWithMemory \<Rightarrow> Controller \<Rightarrow>
   AV1Depacketizer DepacketizerWithMemory \<times> Controller \<times> (dm_error + byte list list)" where
  "a1m_Depacketize over now packet d c =
     (let estimatedSize = int (length (pk_Payload packet) * 2) in
      case dm_reserve over now estimatedSize d c of
        (d, c, Some e) \<Rightarrow> (d, c, Inl e)
      | (d, c, None) \<Rightarrow>
          (case a1_Depacketize packet (dm_inner d) of
             (inner, _, Some e) \<Rightarrow>
               (d\<lparr>dm_inner := inner, dm_currentUsage := dm_currentUsage d - estimatedSize\<rparr>,
                mc_ReleaseMemory (dm_streamID d) estimatedSize c, Inl (InnerError e))
           | (inner, obus, None) \<Rightarrow>
               (let d = d\<lparr>dm_inner := inner\<rparr>
                in if length obus > 0 then
                     (let actualSize = int (total_size obus);
                          c = (if dm_currentUsage d > actualSize
                               then mc_ReleaseMemory (dm_streamID d) (dm_currentUsage d - actualSize) c else c)
                      in (d\<lparr>dm_currentUsage := 0\<rparr>, c, Inr obus))
                   else (d, c, Inr obus))))"

definition a1m_Reset where
  "a1m_Reset = dm_Reset a1_Reset"

section \<open>Accounting lemmas\<close>

abbreviation est :: "rtp_packet \<Rightarrow> int" where
  "est p \<equiv> int (length (pk_Payload p) * 2)"

lemma dm_reserve_ok:
  assumes "dm_reserve over now n d c = (d1, c1, None)" and "mc_inv c" and "0 \<le> n" "n < 2 ^ 62"
    and "mc_usage c + n \<le> mc_maxMemory c"
  shows "d1 = d\<lparr>dm_currentUsage := dm_currentUsage d + n\<rparr>" and "mc_inv c1"
    and "mc_GetStreamUsage (dm_streamID d) c1 = mc_GetStreamUsage (dm_streamID d) c + n"
proof -
  obtain ns where r: "mc_RequestMemory over now (dm_streamID d) n c = (c1, None, ns)"
    and d1: "d1 = d\<lparr>dm_currentUsage := dm_currentUsage d + n\<rparr>"
    using assms(1) by (auto simp: dm_reserve_def split: if_splits prod.splits option.splits)
  show "d1 = d\<lparr>dm_currentUsage := dm_currentUsage d + n\<rparr>" by (rule d1)
  show "mc_inv c1" using mc_RequestMemory_inv [OF assms(2-4), of over now "dm_streamID d"] r by simp
  show "mc_GetStreamUsage (dm_streamID d) c1 = mc_GetStreamUsage (dm_streamID d) c + n"
    using request_booked [OF assms(2-5) r] by simp
qed

section \<open>Properties\<close>

text \<open>a packet the H.264 or HEVC depacketizer rejects costs no memory: the amount requested for it
  is given back, both to the controller and in the wrapper's own count.\<close>

theorem rejected_packet_costs_nothing:
  assumes "mc_inv c" and "mc_usage c + est p \<le> mc_maxMemory c" and "est p < 2 ^ 62"
    and "nal_Depacketize dp over now p d c = (d', c', Inl (InnerError e))"
  shows "mc_inv c' \<and> mc_GetStreamUsage (dm_streamID d) c' = mc_GetStreamUsage (dm_streamID d) c \<and>
    dm_currentUsage d' = dm_currentUsage d"
proof -
  obtain d1 c1 where r: "dm_reserve over now (est p) d c = (d1, c1, None)"
    using assms(4) by (auto simp: nal_Depacketize_def dm_reserve_def Let_def split: prod.splits option.splits if_splits)
  note ok = dm_reserve_ok [OF r assms(1) _ assms(3,2)]
  have "0 \<le> mc_GetStreamUsage (dm_streamID d) c" using assms(1) by (rule mc_GetStreamUsage_nonneg)
  then show ?thesis
    using assms(3,4) r ok mc_ReleaseMemory_inv [OF ok(2), of "est p" "dm_streamID d"]
    by (auto simp: nal_Depacketize_def Let_def split: prod.splits sum.splits if_splits)
qed

text \<open>when a packet completes NAL units, the memory of these units stays booked on the stream (the
  smaller of the estimate and their size), while the wrapper forgets it: its count is zero and a
  \<^verbatim>\<open>Reset\<close> gives nothing back.\<close>

theorem delivered_units_stay_booked:
  assumes "mc_inv c" and "mc_usage c + est p \<le> mc_maxMemory c" and "est p < 2 ^ 62"
    and "nal_Depacketize dp over now p d c = (d', c', Inr units)" and "units \<noteq> []"
  shows "mc_GetStreamUsage (dm_streamID d) c' =
       mc_GetStreamUsage (dm_streamID d) c + min (est p) (int (total_size units)) \<and>
     dm_currentUsage d' = 0 \<and> snd (dm_Reset reset d' c') = c'"
proof -
  obtain d1 c1 where r: "dm_reserve over now (est p) d c = (d1, c1, None)"
    using assms(4) by (auto simp: nal_Depacketize_def Let_def split: prod.splits option.splits)
  note ok = dm_reserve_ok [OF r assms(1) _ assms(3,2)]
  have nn: "0 \<le> mc_GetStreamUsage (dm_streamID d) c" using assms(1) by (rule mc_GetStreamUsage_nonneg)
  have "d' = d1\<lparr>dm_inner := dm_inner d', dm_currentUsage := 0\<rparr>" and
    c': "c' = (if est p > int (total_size units)
      then mc_ReleaseMemory (dm_streamID d1) (est p - int (total_size units)) c1 else c1)"
    using assms(4,5) r by (auto simp: nal_Depacketize_def Let_def split: prod.splits sum.splits if_splits)
  then have z: "dm_currentUsage d' = 0" by (metis DepacketizerWithMemory.select_convs(4) DepacketizerWithMemory.surjective DepacketizerWithMemory.update_convs(1,4))
  have "mc_GetStreamUsage (dm_streamID d) c' = mc_GetStreamUsage (dm_streamID d) c + min (est p) (int (total_size units))"
  proof (cases "est p > int (total_size units)")
    case True
    then show ?thesis
      using mc_ReleaseMemory_inv(2) [OF ok(2), of "est p - int (total_size units)" "dm_streamID d"] ok assms(3) nn
      by (simp add: c')
  next
    case False
    then show ?thesis using ok by (simp add: c')
  qed
  then show ?thesis using z by (simp add: dm_Reset_def)
qed

section \<open>Concrete instances\<close>

definition dm_controller :: Controller where
  "dm_controller = NewController (\<lambda>_. LRU_SelectStreamsForEviction insertion_sort) 0 1000 1000"

lemma dm_controller_inv: "mc_inv dm_controller"
  unfolding dm_controller_def by (rule mc_inv_New) simp_all

definition dm_packet :: "byte list \<Rightarrow> rtp_packet" where
  "dm_packet payload = packet0\<lparr>pk_Payload := payload\<rparr>"

lemmas dm_run = h4_Depacketize_def dm_packet_def packet0_def NewH264DepacketizerWithMemory_def
  NewDepacketizerWithMemory_def nal_Depacketize_def dm_reserve_def dm_controller_def NewController_def
  mc_RequestMemory_def mc_checkStreamLimit_def mc_getOrCreateStreamUsage_def prependStartCode_def Let_def

theorem rejected_packet_costs_nothing_witness:
  "\<exists>d' c'. nal_Depacketize h4_Depacketize (\<lambda>_ _. False) 0 (dm_packet [0x80, 1])
       (NewH264DepacketizerWithMemory ''s'' 500) dm_controller = (d', c', Inl (InnerError ForbiddenZeroBit)) \<and>
     mc_GetStreamUsage ''s'' c' = 0 \<and> dm_currentUsage d' = 0"
proof -
  obtain d' c' where run: "nal_Depacketize h4_Depacketize (\<lambda>_ _. False) 0 (dm_packet [0x80, 1])
       (NewH264DepacketizerWithMemory ''s'' 500) dm_controller = (d', c', Inl (InnerError ForbiddenZeroBit))"
    by (simp add: dm_run)
  have "mc_usage dm_controller = 0" "mc_maxMemory dm_controller = 1000"
    "mc_GetStreamUsage ''s'' dm_controller = 0" "dm_streamID (NewH264DepacketizerWithMemory ''s'' 500) = ''s''"
    "dm_currentUsage (NewH264DepacketizerWithMemory ''s'' 500) = 0" "est (dm_packet [0x80, 1]) = 4"
    by (simp_all add: dm_run mc_GetStreamUsage_def)
  then show ?thesis using rejected_packet_costs_nothing [OF dm_controller_inv _ _ run] run by simp
qed

theorem delivered_units_stay_booked_witness:
  "\<exists>d' c' units. nal_Depacketize h4_Depacketize (\<lambda>_ _. False) 0 (dm_packet [0x65, 1, 2])
       (NewH264DepacketizerWithMemory ''s'' 500) dm_controller = (d', c', Inr units) \<and>
     mc_GetStreamUsage ''s'' c' = 6 \<and> snd (dm_Reset h4_Reset d' c') = c'"
proof -
  obtain d' c' where run: "nal_Depacketize h4_Depacketize (\<lambda>_ _. False) 0 (dm_packet [0x65, 1, 2])
       (NewH264DepacketizerWithMemory ''s'' 500) dm_controller = (d', c', Inr [[0, 0, 0, 1, 0x65, 1, 2]])"
    by (simp add: dm_run)
  have "mc_usage dm_controller = 0" "mc_maxMemory dm_controller = 1000"
    "mc_GetStreamUsage ''s'' dm_controller = 0" "dm_streamID (NewH264DepacketizerWithMemory ''s'' 500) = ''s''"
    "est (dm_packet [0x65, 1, 2]) = 6"
    by (simp_all add: dm_run mc_GetStreamUsage_def)
  then show ?thesis using delivered_units_stay_booked [OF dm_controller_inv _ _ run, of h4_Reset] run by simp
qed

end
