(* ===== verification/Go_Heap.thy ===== *)
theory Go_Heap
  imports Main "HOL-Library.Multiset"
begin

text \<open>
  \<^verbatim>\<open>container/heap\<close> of the Go library as the jitter buffer and the frame reorderer use it: a
  binary heap in a slice, with \<^verbatim>\<open>up\<close> and \<^verbatim>\<open>down\<close> written as the library has them.  The locale
  \<open>heap_order\<close> states what the comparison has to satisfy on the elements in use (the
  comparison of wrapping sequence numbers is an order only within half of the number
  space) and proves what the heap then guarantees.
\<close>

section \<open>Sifting\<close>

text \<open>\<^verbatim>\<open>h[i], h[j] = h[j], h[i]\<close> on the slice.\<close>

definition heap_Swap :: "'a list \<Rightarrow> nat \<Rightarrow> nat \<Rightarrow> 'a list" where
  "heap_Swap h i j = (h[i := h ! j])[j := h ! i]"

definition parent :: "nat \<Rightarrow> nat" where
  "parent k = (k - 1) div 2"

lemma parent_less: "0 < j \<Longrightarrow> parent j < j"
  by (auto simp: parent_def)

lemma parent_fixed: "parent j = j \<longleftrightarrow> j = 0"
  by (auto simp: parent_def)

function heap_up :: "('a \<Rightarrow> 'a \<Rightarrow> bool) \<Rightarrow> 'a list \<Rightarrow> nat \<Rightarrow> 'a list" where
  "heap_up lt xs j =
     (let i = parent j
      in if i = j \<or> \<not> lt (xs ! j) (xs ! i) then xs else heap_up lt (heap_Swap xs i j) i)"
  by pat_completeness auto
termination
  by (relation "measure (\<lambda>(lt, xs, j). j)") (auto simp: parent_fixed intro: parent_less)

declare heap_up.simps [simp del]

text \<open>The smaller of the two children, the left one when there is no right one.\<close>

definition heap_child :: "('a \<Rightarrow> 'a \<Rightarrow> bool) \<Rightarrow> 'a list \<Rightarrow> nat \<Rightarrow> nat \<Rightarrow> nat" where
  "heap_child lt xs i n =
     (let j1 = 2 * i + 1; j2 = j1 + 1 in if j2 < n \<and> lt (xs ! j2) (xs ! j1) then j2 else j1)"

lemma heap_child_gt: "i < heap_child lt xs i n"
  by (simp add: heap_child_def Let_def)

lemma heap_child_less: "2 * i + 1 < n \<Longrightarrow> heap_child lt xs i n < n"
  by (simp add: heap_child_def Let_def)

lemma parent_heap_child: "parent (heap_child lt xs i n) = i"
  by (simp add: heap_child_def Let_def parent_def)

function heap_down :: "('a \<Rightarrow> 'a \<Rightarrow> bool) \<Rightarrow> 'a list \<Rightarrow> nat \<Rightarrow> nat \<Rightarrow> 'a list" where
  "heap_down lt xs i n =
     (if 2 * i + 1 \<ge> n then xs
      else
        (let j = heap_child lt xs i n
         in if \<not> lt (xs ! j) (xs ! i) then xs else heap_down lt (heap_Swap xs i j) j n))"
  by pat_completeness auto
termination
proof (relation "measure (\<lambda>(lt, xs, i, n). n - i)", goal_cases)
  case (2 lt xs i n j)
  then show ?case using heap_child_gt [of i lt xs n] heap_child_less [of i n lt xs] by simp
qed simp

declare heap_down.simps [simp del]

definition heap_Push :: "('a \<Rightarrow> 'a \<Rightarrow> bool) \<Rightarrow> 'a \<Rightarrow> 'a list \<Rightarrow> 'a list" where
  "heap_Push lt x xs = heap_up lt (xs @ [x]) (length xs)"

text \<open>\<^verbatim>\<open>Pop\<close> of a non-empty heap: the removed element and the rest.\<close>

definition heap_Pop :: "('a \<Rightarrow> 'a \<Rightarrow> bool) \<Rightarrow> 'a list \<Rightarrow> 'a \<times> 'a list" where
  "heap_Pop lt xs =
     (let n = length xs - 1;
          ys = heap_down lt (heap_Swap xs 0 n) 0 n
      in (ys ! n, take n ys))"

section \<open>Elements are only moved\<close>

lemma nth_heap_Swap: "i < length h \<Longrightarrow> j < length h \<Longrightarrow>
   heap_Swap h i j ! k = (if k = i then h ! j else if k = j then h ! i else h ! k)"
  by (auto simp: heap_Swap_def nth_list_update)

lemma mset_heap_Swap [simp]: "j < length h \<Longrightarrow> i < length h \<Longrightarrow> mset (heap_Swap h i j) = mset h"
  by (simp add: heap_Swap_def Multiset.mset_swap)

lemma length_heap_Swap [simp]: "length (heap_Swap h i j) = length h"
  unfolding heap_Swap_def length_list_update ..

lemma heap_up_mset: "j < length xs \<Longrightarrow> mset (heap_up lt xs j) = mset xs \<and> length (heap_up lt xs j) = length xs"
proof (induction lt xs j rule: heap_up.induct)
  case (1 lt xs j)
  show ?case
  proof (cases "parent j = j \<or> \<not> lt (xs ! j) (xs ! (parent j))")
    case True
    then show ?thesis by (subst (1 2) heap_up.simps) (simp add: Let_def)
  next
    case False
    then have "parent j < length xs" using "1.prems" parent_less [of j] parent_fixed [of j] by auto
    then show ?thesis using False "1.IH" [OF refl] "1.prems"
      by (subst (1 2) heap_up.simps) (simp add: Let_def)
  qed
qed

lemma heap_down_frame:
  "i < n \<Longrightarrow> n \<le> length xs \<Longrightarrow>
   mset (heap_down lt xs i n) = mset xs \<and> length (heap_down lt xs i n) = length xs \<and>
   drop n (heap_down lt xs i n) = drop n xs"
proof (induction lt xs i n rule: heap_down.induct)
  case (1 lt xs i n)
  let ?j = "heap_child lt xs i n"
  show ?case
  proof (cases "2 * i + 1 \<ge> n \<or> \<not> lt (xs ! ?j) (xs ! i)")
    case True
    then have "heap_down lt xs i n = xs" by (subst heap_down.simps) (auto simp: Let_def)
    then show ?thesis by simp
  next
    case False
    then have jn: "?j < n" using heap_child_less [of i n lt xs] by auto
    have step: "heap_down lt xs i n = heap_down lt (heap_Swap xs i ?j) ?j n"
      using False by (subst heap_down.simps) (simp add: Let_def)
    have "drop n (heap_Swap xs i ?j) = drop n xs" using jn "1.prems" by (simp add: heap_Swap_def drop_update_cancel)
    moreover have "mset (heap_down lt (heap_Swap xs i ?j) ?j n) = mset (heap_Swap xs i ?j) \<and>
        length (heap_down lt (heap_Swap xs i ?j) ?j n) = length (heap_Swap xs i ?j) \<and>
        drop n (heap_down lt (heap_Swap xs i ?j) ?j n) = drop n (heap_Swap xs i ?j)"
      using False jn "1.prems" by (intro "1.IH") simp_all
    ultimately show ?thesis using step jn "1.prems" by simp
  qed
qed

lemma heap_Push_mset: "mset (heap_Push lt x xs) = add_mset x (mset xs)"
  unfolding heap_Push_def using heap_up_mset [of "length xs" "xs @ [x]" lt] by simp

lemma heap_Pop_frame:
  assumes "xs \<noteq> []"
  shows "heap_Pop lt xs = (x, ys) \<Longrightarrow> x = xs ! 0"
    and "heap_Pop lt xs = (x, ys) \<Longrightarrow> mset xs = add_mset x (mset ys)"
    and "length (heap_down lt (heap_Swap xs 0 (length xs - 1)) 0 (length xs - 1)) = length xs"
proof -
  let ?n = "length xs - 1"
  let ?sw = "heap_Swap xs 0 ?n" and ?zs = "heap_down lt (heap_Swap xs 0 ?n) 0 ?n"
  have n: "?n < length xs" "0 < length xs" using assms by auto
  have frame: "mset ?zs = mset xs \<and> length ?zs = length xs \<and> drop ?n ?zs = drop ?n ?sw"
  proof (cases "?n = 0")
    case True
    then have "?zs = ?sw" by (subst heap_down.simps) simp
    then show ?thesis using n by simp
  next
    case False
    then show ?thesis using heap_down_frame [of 0 ?n ?sw lt] n by simp
  qed
  then show "length ?zs = length xs" by simp
  have last: "?zs ! ?n = xs ! 0"
    using frame n nth_heap_Swap [OF n(2,1), of ?n] by (metis length_heap_Swap hd_drop_conv_nth)
  assume pop: "heap_Pop lt xs = (x, ys)"
  show x: "x = xs ! 0" using pop last by (simp add: heap_Pop_def Let_def)
  have ys: "ys = take ?n ?zs" using pop by (simp add: heap_Pop_def Let_def)
  have "?n < length ?zs" "length ?zs \<le> Suc ?n" using frame n by auto
  then have "?zs = take ?n ?zs @ [?zs ! ?n]"
    using take_Suc_conv_app_nth [of ?n ?zs] take_all [of ?zs "Suc ?n"] by (rule_tac sym) (simp only:)
  then have "mset ?zs = mset (take ?n ?zs @ [?zs ! ?n])" by (rule arg_cong)
  then show "mset xs = add_mset x (mset ys)" using frame last x ys by simp
qed

section \<open>The heap order\<close>

definition heap_on :: "('a \<Rightarrow> 'a \<Rightarrow> bool) \<Rightarrow> nat \<Rightarrow> 'a list \<Rightarrow> bool" where
  "heap_on lt n xs \<longleftrightarrow> (\<forall>k. 0 < k \<longrightarrow> k < n \<longrightarrow> \<not> lt (xs ! k) (xs ! (parent k)))"

abbreviation is_heap :: "('a \<Rightarrow> 'a \<Rightarrow> bool) \<Rightarrow> 'a list \<Rightarrow> bool" where
  "is_heap lt xs \<equiv> heap_on lt (length xs) xs"

lemma child_parent: "0 < k \<Longrightarrow> parent k = i \<longleftrightarrow> k = 2 * i + 1 \<or> k = 2 * i + 2"
  unfolding parent_def by arith

locale heap_order =
  fixes lt :: "'a \<Rightarrow> 'a \<Rightarrow> bool" and D :: "'a set"
  assumes asym: "a \<in> D \<Longrightarrow> b \<in> D \<Longrightarrow> lt a b \<Longrightarrow> \<not> lt b a"
    and le_trans: "a \<in> D \<Longrightarrow> b \<in> D \<Longrightarrow> c \<in> D \<Longrightarrow> \<not> lt b a \<Longrightarrow> \<not> lt c b \<Longrightarrow> \<not> lt c a"
begin

lemma up_heap:
  assumes "set xs \<subseteq> D" and "j < length xs"
    and "\<forall>k. 0 < k \<longrightarrow> k < length xs \<longrightarrow> k \<noteq> j \<longrightarrow> \<not> lt (xs ! k) (xs ! (parent k))"
    and "\<forall>k. 0 < k \<longrightarrow> k < length xs \<longrightarrow> parent k = j \<longrightarrow> 0 < j \<longrightarrow> \<not> lt (xs ! k) (xs ! (parent j))"
  shows "is_heap lt (heap_up lt xs j)"
  using assms
proof (induction j arbitrary: xs rule: less_induct)
  case (less j)
  let ?i = "parent j"
  show ?case
  proof (cases "?i = j \<or> \<not> lt (xs ! j) (xs ! ?i)")
    case True
    then have "heap_up lt xs j = xs" by (subst heap_up.simps) (simp add: Let_def)
    moreover have "\<not> lt (xs ! j) (xs ! ?i)" if "0 < j" using True parent_less [OF that] by simp
    ultimately show ?thesis using less.prems(3) by (auto simp: heap_on_def)
  next
    case False
    then have "0 < j" using parent_fixed [of j] by auto
    then have j: "0 < j" "?i < j" "?i < length xs" using less.prems(2) parent_less [of j] by auto
    have step: "heap_up lt xs j = heap_up lt (heap_Swap xs ?i j) ?i"
      using False by (subst heap_up.simps) (simp add: Let_def)
    let ?ys = "heap_Swap xs ?i j"
    note nth = nth_heap_Swap [OF j(3) less.prems(2)]
    have D: "xs ! k \<in> D" if "k < length xs" for k using less.prems(1) that by auto
    have "is_heap lt (heap_up lt ?ys ?i)"
    proof (rule less.IH)
      show "?i < j" by (rule j(2))
      show "set ?ys \<subseteq> D" using less.prems(1) j(3) less.prems(2) by (metis mset_eq_setD mset_heap_Swap)
      show "?i < length ?ys" using j(3) by simp
      show "\<forall>k. 0 < k \<longrightarrow> k < length ?ys \<longrightarrow> k \<noteq> ?i \<longrightarrow> \<not> lt (?ys ! k) (?ys ! (parent k))"
      proof (intro allI impI)
        fix k assume k: "0 < k" "k < length ?ys" "k \<noteq> ?i"
        have pk: "parent k \<noteq> k" using parent_less [OF k(1)] by simp
        show "\<not> lt (?ys ! k) (?ys ! (parent k))"
        proof (cases "k = j")
          case True
          then show ?thesis using False asym [of "xs ! j" "xs ! ?i"] D j less.prems(2) by (simp add: nth)
        next
          case kj: False
          consider "parent k = j" | "parent k = ?i" "parent k \<noteq> j" | "parent k \<noteq> ?i" "parent k \<noteq> j" by blast
          then show ?thesis
          proof cases
            case 1
            then show ?thesis using less.prems(4) k kj j by (simp add: nth)
          next
            case 2
            have "\<not> lt (xs ! k) (xs ! ?i)" using less.prems(3) [rule_format, of k] k kj 2 by simp
            then have "\<not> lt (xs ! k) (xs ! j)"
              using le_trans [of "xs ! j" "xs ! ?i" "xs ! k"] asym [of "xs ! j" "xs ! ?i"] False D k j less.prems(2) by auto
            then show ?thesis using 2 k kj by (simp add: nth)
          next
            case 3
            then show ?thesis using less.prems(3) k kj by (simp add: nth)
          qed
        qed
      qed
      show "\<forall>k. 0 < k \<longrightarrow> k < length ?ys \<longrightarrow> parent k = ?i \<longrightarrow> 0 < ?i \<longrightarrow> \<not> lt (?ys ! k) (?ys ! (parent ?i))"
      proof (intro allI impI)
        fix k assume k: "0 < k" "k < length ?ys" "parent k = ?i" "0 < ?i"
        let ?p = "parent ?i"
        have p: "?p < ?i" using parent_less [OF k(4)] .
        have top: "\<not> lt (xs ! ?i) (xs ! ?p)" using less.prems(3) k(4) j by auto
        have ki: "k \<noteq> ?i" using parent_less [OF k(1)] k(3) by simp
        show "\<not> lt (?ys ! k) (?ys ! ?p)"
        proof (cases "k = j")
          case True
          then show ?thesis using top p j by (simp add: nth)
        next
          case kj: False
          have "\<not> lt (xs ! k) (xs ! ?i)" using less.prems(3) [rule_format, of k] k kj by simp
          then have "\<not> lt (xs ! k) (xs ! ?p)"
            using le_trans [of "xs ! ?p" "xs ! ?i" "xs ! k"] top D k p j by auto
          then show ?thesis using kj ki p j by (simp add: nth)
        qed
      qed
    qed
    then show ?thesis by (simp add: step)
  qed
qed

lemma down_heap:
  assumes "set xs \<subseteq> D" and "n \<le> length xs" and "i < n"
    and "\<forall>k. 0 < k \<longrightarrow> k < n \<longrightarrow> parent k \<noteq> i \<longrightarrow> \<not> lt (xs ! k) (xs ! parent k)"
    and "\<forall>k. 0 < k \<longrightarrow> k < n \<longrightarrow> parent k = i \<longrightarrow> 0 < i \<longrightarrow> \<not> lt (xs ! k) (xs ! parent i)"
  shows "heap_on lt n (heap_down lt xs i n)"
  using assms
proof (induction "n - i" arbitrary: i xs rule: less_induct)
  case less
  let ?j = "heap_child lt xs i n"
  have D: "xs ! k \<in> D" if "k < n" for k using less.prems(1,2) that by auto
  have smallest: "\<not> lt (xs ! k) (xs ! ?j)" if "0 < k" "k < n" "parent k = i" for k
    using that D [of k] asym [of "xs ! (2 * i + 2)" "xs ! (2 * i + 1)"] D [of "2 * i + 1"] D [of "2 * i + 2"]
      asym [of "xs ! k" "xs ! k"]
    by (auto simp: heap_child_def Let_def child_parent)
  show ?case
  proof (cases "2 * i + 1 \<ge> n \<or> \<not> lt (xs ! ?j) (xs ! i)")
    case True
    then have eq: "heap_down lt xs i n = xs" by (subst heap_down.simps) (auto simp: Let_def)
    have "\<not> lt (xs ! k) (xs ! parent k)" if k: "0 < k" "k < n" for k
    proof (cases "parent k = i")
      case pk: True
      then have "\<not> 2 * i + 1 \<ge> n" using k child_parent [of k i] by auto
      then have "?j < n" "\<not> lt (xs ! ?j) (xs ! i)" using True heap_child_less [of i n lt xs] by auto
      then show ?thesis using smallest [OF k pk] le_trans [of "xs ! i" "xs ! ?j" "xs ! k"] D k less.prems(3) pk by auto
    next
      case False
      then show ?thesis using less.prems(4) k by auto
    qed
    then show ?thesis by (simp add: eq heap_on_def)
  next
    case False
    then have j: "?j < n" "i < ?j" "lt (xs ! ?j) (xs ! i)" using heap_child_less [of i n lt xs] heap_child_gt by auto
    have step: "heap_down lt xs i n = heap_down lt (heap_Swap xs i ?j) ?j n"
      using False by (subst heap_down.simps) (simp add: Let_def)
    let ?ys = "heap_Swap xs i ?j"
    have len: "i < length xs" "?j < length xs" using less.prems(2,3) j by auto
    note nth = nth_heap_Swap [OF len]
    have "heap_on lt n (heap_down lt ?ys ?j n)"
    proof (rule less.hyps)
      show "n - ?j < n - i" using j by auto
      show "set ?ys \<subseteq> D" using less.prems(1) len by (metis mset_eq_setD mset_heap_Swap)
      show "n \<le> length ?ys" using less.prems(2) by simp
      show "?j < n" by (rule j(1))
      show "\<forall>k. 0 < k \<longrightarrow> k < n \<longrightarrow> parent k \<noteq> ?j \<longrightarrow> \<not> lt (?ys ! k) (?ys ! parent k)"
      proof (intro allI impI)
        fix k assume k: "0 < k" "k < n" "parent k \<noteq> ?j"
        have pk: "parent k < k" by (rule parent_less [OF k(1)])
        show "\<not> lt (?ys ! k) (?ys ! parent k)"
        proof (cases "parent k = i")
          case True
          then have "k \<noteq> i" using pk by simp
          then show ?thesis
            using True smallest [OF k(1,2) True] asym [of "xs ! ?j" "xs ! i"] j D less.prems(3) by (auto simp: nth)
        next
          case pi: False
          have kj: "k \<noteq> ?j" using pi parent_heap_child [of lt xs i n] by auto
          show ?thesis
          proof (cases "k = i")
            case True
            have "\<not> lt (xs ! ?j) (xs ! parent i)"
              using less.prems(5) j(1,2) parent_heap_child [of lt xs i n] True k(1) by auto
            then show ?thesis using True pi k pk by (simp add: nth)
          next
            case False
            then show ?thesis using less.prems(4) k pi kj by (simp add: nth)
          qed
        qed
      qed
      show "\<forall>k. 0 < k \<longrightarrow> k < n \<longrightarrow> parent k = ?j \<longrightarrow> 0 < ?j \<longrightarrow> \<not> lt (?ys ! k) (?ys ! parent ?j)"
      proof (intro allI impI)
        fix k assume k: "0 < k" "k < n" "parent k = ?j"
        have "\<not> lt (xs ! k) (xs ! ?j)" "k \<noteq> ?j" "k \<noteq> i"
          using less.prems(4) [rule_format, of k] k j(2) parent_less [OF k(1)] by simp_all
        then show "\<not> lt (?ys ! k) (?ys ! parent ?j)" by (simp add: nth parent_heap_child)
      qed
    qed
    then show ?thesis by (simp add: step)
  qed
qed

lemma heap_min:
  assumes "set xs \<subseteq> D" and "heap_on lt n xs" and "n \<le> length xs" and "k < n"
  shows "\<not> lt (xs ! k) (xs ! 0)"
  using assms(4)
proof (induction k rule: less_induct)
  case (less k)
  have D: "xs ! k \<in> D" if "k < n" for k using assms(1,3) that by auto
  show ?case
  proof (cases "k = 0")
    case True
    then show ?thesis using asym [of "xs ! 0" "xs ! 0"] D [of 0] less.prems by auto
  next
    case False
    then have p: "parent k < k" using parent_less by simp
    then have "\<not> lt (xs ! parent k) (xs ! 0)" "\<not> lt (xs ! k) (xs ! parent k)"
      using less assms(2) False by (auto simp: heap_on_def)
    then show ?thesis using le_trans [of "xs ! 0" "xs ! parent k" "xs ! k"] D p less.prems by auto
  qed
qed

lemma Push_heap:
  assumes "set xs \<subseteq> D" and "x \<in> D" and "is_heap lt xs"
  shows "is_heap lt (heap_Push lt x xs)"
proof -
  show "is_heap lt (heap_Push lt x xs)"
    unfolding heap_Push_def
  proof (rule up_heap)
    show "\<forall>k. 0 < k \<longrightarrow> k < length (xs @ [x]) \<longrightarrow> k \<noteq> length xs \<longrightarrow> \<not> lt ((xs @ [x]) ! k) ((xs @ [x]) ! parent k)"
    proof (intro allI impI)
      fix k assume k: "0 < k" "k < length (xs @ [x])" "k \<noteq> length xs"
      then show "\<not> lt ((xs @ [x]) ! k) ((xs @ [x]) ! parent k)"
        using assms(3) parent_less [OF k(1)] by (simp add: heap_on_def nth_append)
    qed
    show "\<forall>k. 0 < k \<longrightarrow> k < length (xs @ [x]) \<longrightarrow> parent k = length xs \<longrightarrow> 0 < length xs \<longrightarrow>
        \<not> lt ((xs @ [x]) ! k) ((xs @ [x]) ! parent (length xs))"
    proof (intro allI impI)
      fix k assume k: "0 < k" "k < length (xs @ [x])" "parent k = length xs"
      then show "\<not> lt ((xs @ [x]) ! k) ((xs @ [x]) ! parent (length xs))"
        using parent_less [OF k(1)] by simp
    qed
  qed (use assms in auto)
qed

text \<open>\<^verbatim>\<open>Pop\<close> removes the first element of the slice, which is a least one.\<close>

lemma Pop_heap:
  assumes "set xs \<subseteq> D" and "is_heap lt xs" and "xs \<noteq> []" and "heap_Pop lt xs = (x, ys)"
  shows "is_heap lt ys" and "\<forall>y \<in> set xs. \<not> lt y x"
proof -
  let ?n = "length xs - 1"
  let ?sw = "heap_Swap xs 0 ?n" and ?zs = "heap_down lt (heap_Swap xs 0 ?n) 0 ?n"
  have n: "?n < length xs" "0 < length xs" using assms(3) by auto
  have frame: "length ?zs = length xs" by (rule heap_Pop_frame(3) [OF assms(3)])
  have x: "x = xs ! 0" using heap_Pop_frame(1) [OF assms(3,4)] .
  have ys: "ys = take ?n ?zs" using assms(4) by (simp add: heap_Pop_def Let_def)
  show "\<forall>y \<in> set xs. \<not> lt y x"
    unfolding x using heap_min [OF assms(1,2) order.refl] by (auto simp: in_set_conv_nth)
  have "heap_on lt ?n ?zs"
  proof (cases "?n = 0")
    case False
    show ?thesis
    proof (rule down_heap)
      show "set ?sw \<subseteq> D" using assms(1) n by (metis mset_eq_setD mset_heap_Swap)
      show "\<forall>k. 0 < k \<longrightarrow> k < ?n \<longrightarrow> parent k \<noteq> 0 \<longrightarrow> \<not> lt (?sw ! k) (?sw ! parent k)"
      proof (intro allI impI)
        fix k assume k: "0 < k" "k < ?n" "parent k \<noteq> 0"
        then show "\<not> lt (?sw ! k) (?sw ! parent k)"
          using assms(2) parent_less [OF k(1)] n by (auto simp: nth_heap_Swap heap_on_def)
      qed
    qed (use False n in auto)
  qed (simp add: heap_on_def)
  moreover have "length ys = ?n" using frame n unfolding ys by simp
  moreover have "\<not> lt (ys ! k) (ys ! parent k)" if "0 < k" "k < ?n" "heap_on lt ?n ?zs" for k
    using that parent_less [of k] unfolding ys heap_on_def by simp
  ultimately show "is_heap lt ys" by (simp add: heap_on_def)
qed

end

end
