(* ===== verification/Jitter_Buffer.thy ===== *)
theory Jitter_Buffer
  imports Depacketizer Go_Heap "HOL-Library.Signed_Division"
begin

text \<open>
  The jitter buffer of \<^verbatim>\<open>internal/ingestion/rtp/jitter_buffer.go\<close>: a bounded heap of packets in
  sequence-number order with a duplicate filter, released by their playout time.  Points
  in time are nanoseconds since the zero \<^verbatim>\<open>time.Time\<close>; the clock readings of an operation
  are its arguments.  The heap index that an entry carries is left out: it is written by
  the heap and never read.  The counters keep their 64 bits.
\<close>

section \<open>State\<close>

record packetEntry =
  pe_packet :: rtp_packet
  pe_arrivalTime :: nanos

record JitterBufferStats =
  js_PacketsBuffered :: u64
  js_PacketsDelivered :: u64
  js_PacketsDropped :: u64
  js_PacketsLate :: u64
  js_CurrentDepth :: nat
  js_MaxDepth :: nat
  js_UnderrunCount :: u64
  js_OverrunCount :: u64

record JitterBuffer =
  jb_packets :: "packetEntry list"
  jb_seqSeen :: "u16 \<rightharpoonup> bool"
  jb_maxSize :: int
  jb_targetDelay :: nanos
  jb_clockRate :: u32
  jb_baseTime :: nanos
  jb_baseTS :: u32
  jb_hasBaseTime :: bool
  jb_lastGetWasEmpty :: bool
  jb_stats :: JitterBufferStats

abbreviation pe_seq :: "packetEntry \<Rightarrow> u16" where
  "pe_seq e \<equiv> pk_SequenceNumber (pe_packet e)"

abbreviation jb_seqs :: "JitterBuffer \<Rightarrow> u16 list" where
  "jb_seqs jb \<equiv> map pe_seq (jb_packets jb)"

text \<open>\<^verbatim>\<open>make\<close> with a negative capacity panics.\<close>

definition NewJitterBuffer :: "int \<Rightarrow> nanos \<Rightarrow> u32 \<Rightarrow> JitterBuffer outcome" where
  "NewJitterBuffer maxSize targetDelay clockRate =
     (if maxSize < 0 then Panic
      else Ret \<lparr>jb_packets = [], jb_seqSeen = Map.empty, jb_maxSize = maxSize,
        jb_targetDelay = targetDelay, jb_clockRate = clockRate, jb_baseTime = 0, jb_baseTS = 0,
        jb_hasBaseTime = False, jb_lastGetWasEmpty = False,
        jb_stats = \<lparr>js_PacketsBuffered = 0, js_PacketsDelivered = 0, js_PacketsDropped = 0,
          js_PacketsLate = 0, js_CurrentDepth = 0, js_MaxDepth = 0, js_UnderrunCount = 0,
          js_OverrunCount = 0\<rparr>\<rparr>)"

section \<open>Order of packets\<close>

definition packetHeap_Less :: "packetEntry \<Rightarrow> packetEntry \<Rightarrow> bool" where
  "packetHeap_Less a b =
     (let diff = uint (pe_seq a) - uint (pe_seq b);
          diff = (if diff > 32768 then diff - 65536
                  else if diff < -32768 then diff + 65536 else diff)
      in diff < 0)"

section \<open>Operations\<close>

text \<open>The drop of the first entry of the heap when the buffer is full; \<^verbatim>\<open>heap.Pop\<close> on an empty
  slice panics.\<close>

definition jb_make_room :: "JitterBuffer \<Rightarrow> JitterBuffer outcome" where
  "jb_make_room jb =
     (if int (length (jb_packets jb)) \<ge> jb_maxSize jb then
        (if jb_packets jb = [] then Panic
         else
           (let (oldest, rest) = heap_Pop packetHeap_Less (jb_packets jb)
            in Ret (jb\<lparr>jb_packets := rest,
                  jb_seqSeen := (jb_seqSeen jb)(pe_seq oldest := None),
                  jb_stats := (jb_stats jb)\<lparr>
                    js_PacketsDropped := js_PacketsDropped (jb_stats jb) + 1,
                    js_OverrunCount := js_OverrunCount (jb_stats jb) + 1\<rparr>\<rparr>)))
      else Ret jb)"

definition jb_insert :: "nanos \<Rightarrow> rtp_packet \<Rightarrow> JitterBuffer \<Rightarrow> JitterBuffer" where
  "jb_insert arrival p jb =
     (let h = heap_Push packetHeap_Less \<lparr>pe_packet = p, pe_arrivalTime = arrival\<rparr> (jb_packets jb);
          d = length h
      in jb\<lparr>jb_packets := h,
            jb_stats := (jb_stats jb)\<lparr>
              js_PacketsBuffered := js_PacketsBuffered (jb_stats jb) + 1,
              js_CurrentDepth := d,
              js_MaxDepth := (if d > js_MaxDepth (jb_stats jb) then d else js_MaxDepth (jb_stats jb))\<rparr>\<rparr>)"

text \<open>\<^verbatim>\<open>Add\<close>, with its two clock readings.\<close>

definition jb_Add :: "nanos \<Rightarrow> nanos \<Rightarrow> rtp_packet \<Rightarrow> JitterBuffer \<Rightarrow> JitterBuffer outcome" where
  "jb_Add now arrival p jb =
     (let jb = (if \<not> jb_hasBaseTime jb
                then jb\<lparr>jb_baseTime := now, jb_baseTS := pk_Timestamp p, jb_hasBaseTime := True\<rparr>
                else jb)
      in if jb_seqSeen jb (pk_SequenceNumber p) = Some True then Ret jb
         else
           outcome_bind
             (jb_make_room (jb\<lparr>jb_seqSeen := (jb_seqSeen jb)(pk_SequenceNumber p \<mapsto> True)\<rparr>))
             (\<lambda>jb. Ret (jb_insert arrival p jb)))"

text \<open>The playout time of a packet: \<^verbatim>\<open>int32\<close> difference of the time stamps, truncating
  division by the clock rate (the 64-bit product of an \<^verbatim>\<open>int32\<close> and \<open>10\<^sup>9\<close> does not wrap).\<close>

definition jb_playoutTime :: "JitterBuffer \<Rightarrow> rtp_packet \<Rightarrow> nanos" where
  "jb_playoutTime jb p =
     (let tsDiff = sint (pk_Timestamp p - jb_baseTS jb);
          expectedTime = jb_baseTime jb + (tsDiff * 1000000000) sdiv uint (jb_clockRate jb)
      in expectedTime + jb_targetDelay jb)"

text \<open>\<^verbatim>\<open>Time.Sub\<close> saturates at the bounds of \<^verbatim>\<open>Duration\<close>.\<close>

definition time_Sub :: "nanos \<Rightarrow> nanos \<Rightarrow> nanos" where
  "time_Sub t u = max (- (2 ^ 63)) (min (2 ^ 63 - 1) (t - u))"

text \<open>One removal from the heap, of a late packet or of one that is delivered.\<close>

definition jb_discard_late :: "packetEntry \<Rightarrow> packetEntry list \<Rightarrow> JitterBuffer \<Rightarrow> JitterBuffer" where
  "jb_discard_late e rest jb =
     jb\<lparr>jb_packets := rest, jb_seqSeen := (jb_seqSeen jb)(pe_seq e := None),
        jb_stats := (jb_stats jb)\<lparr>js_PacketsLate := js_PacketsLate (jb_stats jb) + 1\<rparr>\<rparr>"

definition jb_deliver :: "packetEntry \<Rightarrow> packetEntry list \<Rightarrow> JitterBuffer \<Rightarrow> JitterBuffer" where
  "jb_deliver e rest jb =
     jb\<lparr>jb_packets := rest, jb_seqSeen := (jb_seqSeen jb)(pe_seq e := None),
        jb_stats := (jb_stats jb)\<lparr>js_PacketsDelivered := js_PacketsDelivered (jb_stats jb) + 1\<rparr>\<rparr>"

lemma jb_packets_removed [simp]:
  "jb_packets (jb_discard_late e rest jb) = rest"
  "jb_packets (jb_deliver e rest jb) = rest"
  by (simp_all add: jb_discard_late_def jb_deliver_def)

lemma length_heap_Pop: "xs \<noteq> [] \<Longrightarrow> length (snd (heap_Pop lt xs)) < length xs"
  by (cases xs) (auto simp: heap_Pop_def Let_def)

text \<open>The loop of \<^verbatim>\<open>Get\<close>; a zero clock rate is a division by zero.\<close>

function jb_get_loop :: "nanos \<Rightarrow> JitterBuffer \<Rightarrow> rtp_packet list \<Rightarrow> (JitterBuffer \<times> rtp_packet list) outcome" where
  "jb_get_loop now jb ready =
     (if jb_packets jb = [] then Ret (jb, ready)
      else if jb_clockRate jb = 0 then Panic
      else
        (let entry = jb_packets jb ! 0;
             playoutTime = jb_playoutTime jb (pe_packet entry)
         in if now < playoutTime then Ret (jb, ready)
            else
              (let rest = snd (heap_Pop packetHeap_Less (jb_packets jb))
               in if time_Sub now playoutTime > jb_targetDelay jb
                  then jb_get_loop now (jb_discard_late entry rest jb) ready
                  else jb_get_loop now (jb_deliver entry rest jb) (ready @ [pe_packet entry]))))"
  by pat_completeness auto
termination
  by (relation "measure (\<lambda>(now, jb, ready). length (jb_packets jb))") (auto simp: length_heap_Pop)

declare jb_get_loop.simps [simp del]

definition jb_Get :: "nanos \<Rightarrow> JitterBuffer \<Rightarrow> (JitterBuffer \<times> rtp_packet list) outcome" where
  "jb_Get now jb =
     (if jb_packets jb = [] then
        Ret (jb\<lparr>jb_stats := (if \<not> jb_lastGetWasEmpty jb \<and> js_PacketsDelivered (jb_stats jb) > 0
                  then (jb_stats jb)\<lparr>js_UnderrunCount := js_UnderrunCount (jb_stats jb) + 1\<rparr>
                  else jb_stats jb),
                jb_lastGetWasEmpty := True\<rparr>, [])
      else
        outcome_bind (jb_get_loop now jb [])
          (\<lambda>(jb, ready).
             let jb = jb\<lparr>jb_stats := (jb_stats jb)\<lparr>js_CurrentDepth := length (jb_packets jb)\<rparr>\<rparr>
             in Ret (if ready \<noteq> [] then jb\<lparr>jb_lastGetWasEmpty := False\<rparr> else jb, ready)))"

definition jb_Flush :: "JitterBuffer \<Rightarrow> JitterBuffer" where
  "jb_Flush jb =
     jb\<lparr>jb_packets := [], jb_seqSeen := Map.empty,
        jb_stats := (jb_stats jb)\<lparr>js_CurrentDepth := 0\<rparr>, jb_hasBaseTime := False\<rparr>"

definition jb_GetStats :: "JitterBuffer \<Rightarrow> JitterBufferStats" where
  "jb_GetStats jb = jb_stats jb"

definition jb_SetTargetDelay :: "nanos \<Rightarrow> JitterBuffer \<Rightarrow> JitterBuffer" where
  "jb_SetTargetDelay delay jb = jb\<lparr>jb_targetDelay := delay\<rparr>"

definition jb_GetCurrentDepth :: "JitterBuffer \<Rightarrow> nat" where
  "jb_GetCurrentDepth jb = length (jb_packets jb)"

section \<open>Sequences of calls\<close>

datatype jb_op =
    OpAdd nanos nanos rtp_packet
  | OpGet nanos
  | OpFlush
  | OpSetTargetDelay nanos

fun jb_apply :: "jb_op \<Rightarrow> JitterBuffer \<Rightarrow> (JitterBuffer \<times> rtp_packet list) outcome" where
  "jb_apply (OpAdd now arrival p) jb = outcome_bind (jb_Add now arrival p jb) (\<lambda>jb. Ret (jb, []))"
| "jb_apply (OpGet now) jb = jb_Get now jb"
| "jb_apply OpFlush jb = Ret (jb_Flush jb, [])"
| "jb_apply (OpSetTargetDelay d) jb = Ret (jb_SetTargetDelay d jb, [])"

text \<open>The final state and every packet handed out on the way.\<close>

fun jb_run :: "jb_op list \<Rightarrow> JitterBuffer \<Rightarrow> (JitterBuffer \<times> rtp_packet list) outcome" where
  "jb_run [] jb = Ret (jb, [])"
| "jb_run (op # ops) jb =
     outcome_bind (jb_apply op jb)
       (\<lambda>(jb, out). outcome_bind (jb_run ops jb) (\<lambda>(jb, out'). Ret (jb, out @ out')))"

section \<open>The comparison within half of the number space\<close>

definition in_window :: "u16 \<Rightarrow> u16 \<Rightarrow> bool" where
  "in_window b s \<longleftrightarrow> unat (s - b) < 32768"

definition window_entries :: "u16 \<Rightarrow> packetEntry set" where
  "window_entries b = {e. in_window b (pe_seq e)}"

lemma packetHeap_Less_window:
  assumes "in_window b (pe_seq x)" and "in_window b (pe_seq y)"
  shows "packetHeap_Less x y \<longleftrightarrow> unat (pe_seq x - b) < unat (pe_seq y - b)"
proof -
  define u v c where "u = unat (pe_seq x - b)" and "v = unat (pe_seq y - b)" and "c = unat b"
  have lt: "u < 32768" "v < 32768" using assms by (simp_all add: in_window_def u_def v_def)
  have c: "c < 65536" using unsigned_less [of b, where ?'a = nat] by (simp add: c_def)
  have xy: "uint (pe_seq x) = int ((c + u) mod 65536)" "uint (pe_seq y) = int ((c + v) mod 65536)"
    using unat_offset [of "pe_seq x" b] unat_offset [of "pe_seq y" b]
    by (simp_all only: u_def v_def c_def uint_nat)
  have m: "(c + w) mod 65536 = (if c + w < 65536 then c + w else c + w - 65536)" if "w < 32768" for w
    using c that by (simp add: mod_if)
  show ?thesis
    unfolding packetHeap_Less_def Let_def xy m [OF lt(1)] m [OF lt(2)] u_def [symmetric] v_def [symmetric]
    using lt c by (auto split: if_splits)
qed

interpretation jitter: heap_order packetHeap_Less "window_entries b" for b
  by unfold_locales (auto simp: window_entries_def packetHeap_Less_window)

section \<open>The duplicate filter mirrors the heap\<close>

definition jb_held :: "JitterBuffer \<Rightarrow> bool" where
  "jb_held jb \<longleftrightarrow> distinct (jb_seqs jb) \<and>
     jb_seqSeen jb = (\<lambda>s. if s \<in> set (jb_seqs jb) then Some True else None)"

definition jb_inv :: "JitterBuffer \<Rightarrow> bool" where
  "jb_inv jb \<longleftrightarrow> 0 < jb_maxSize jb \<and> jb_clockRate jb \<noteq> 0 \<and> jb_held jb \<and>
     int (length (jb_packets jb)) \<le> jb_maxSize jb \<and>
     js_CurrentDepth (jb_stats jb) = length (jb_packets jb) \<and>
     js_CurrentDepth (jb_stats jb) \<le> js_MaxDepth (jb_stats jb) \<and>
     int (js_MaxDepth (jb_stats jb)) \<le> jb_maxSize jb"

lemma mset_seqs_cong: "mset xs = mset ys \<Longrightarrow> distinct (map pe_seq xs) = distinct (map pe_seq ys)"
  by (metis mset_eq_imp_distinct_iff mset_map)

lemma pop_step:
  assumes "jb_packets jb \<noteq> []"
  obtains rest where "heap_Pop packetHeap_Less (jb_packets jb) = (jb_packets jb ! 0, rest)"
    and "mset (jb_packets jb) = add_mset (jb_packets jb ! 0) (mset rest)"
  using assms heap_Pop_frame(1,2) [of "jb_packets jb" packetHeap_Less] by (metis surj_pair)

text \<open>Removing an entry from the heap and its number from the filter.\<close>

lemma held_remove:
  assumes "jb_held jb" and "mset (jb_packets jb) = add_mset e (mset rest)"
    and "jb_packets jb' = rest" and "jb_seqSeen jb' = (jb_seqSeen jb)(pe_seq e := None)"
  shows "jb_held jb'"
proof -
  have "mset (jb_packets jb) = mset (e # rest)" using assms(2) by simp
  then have "distinct (map pe_seq (e # rest))" "set (jb_packets jb) = set (e # rest)"
    using assms(1) mset_seqs_cong mset_eq_setD unfolding jb_held_def by blast+
  then show ?thesis using assms(1,3,4) by (auto simp: jb_held_def fun_eq_iff)
qed

text \<open>What the loop of \<^verbatim>\<open>Get\<close> does to a state, with the entries it delivers and discards.\<close>

definition jb_drained ::
  "nanos \<Rightarrow> JitterBuffer \<Rightarrow> JitterBuffer \<Rightarrow> packetEntry list \<Rightarrow> packetEntry list \<Rightarrow> bool" where
  "jb_drained now jb jb' dl late \<longleftrightarrow>
     mset (jb_packets jb) = mset dl + mset late + mset (jb_packets jb') \<and>
     jb' = jb\<lparr>jb_packets := jb_packets jb', jb_seqSeen := jb_seqSeen jb',
       jb_stats := (jb_stats jb)\<lparr>
         js_PacketsDelivered := js_PacketsDelivered (jb_stats jb) + of_nat (length dl),
         js_PacketsLate := js_PacketsLate (jb_stats jb) + of_nat (length late)\<rparr>\<rparr> \<and>
     (\<forall>e \<in> set dl. jb_playoutTime jb (pe_packet e) \<le> now \<and>
        time_Sub now (jb_playoutTime jb (pe_packet e)) \<le> jb_targetDelay jb) \<and>
     (\<forall>e \<in> set late. jb_playoutTime jb (pe_packet e) \<le> now \<and>
        jb_targetDelay jb < time_Sub now (jb_playoutTime jb (pe_packet e))) \<and>
     (jb_packets jb' \<noteq> [] \<longrightarrow> now < jb_playoutTime jb (pe_packet (jb_packets jb' ! 0)))"

lemma removed_frame [simp]:
  "jb_playoutTime (jb_discard_late e rest jb) = jb_playoutTime jb"
  "jb_playoutTime (jb_deliver e rest jb) = jb_playoutTime jb"
  "jb_targetDelay (jb_discard_late e rest jb) = jb_targetDelay jb"
  "jb_targetDelay (jb_deliver e rest jb) = jb_targetDelay jb"
  "jb_clockRate (jb_discard_late e rest jb) = jb_clockRate jb"
  "jb_clockRate (jb_deliver e rest jb) = jb_clockRate jb"
  by (simp_all add: jb_discard_late_def jb_deliver_def jb_playoutTime_def fun_eq_iff)

lemma drained_late:
  assumes "jb_drained now (jb_discard_late e rest jb) jb' dl late"
    and "mset (jb_packets jb) = add_mset e (mset rest)"
    and "jb_playoutTime jb (pe_packet e) \<le> now"
    and "jb_targetDelay jb < time_Sub now (jb_playoutTime jb (pe_packet e))"
  shows "jb_drained now jb jb' dl (e # late)"
proof -
  have "jb' = (jb_discard_late e rest jb)\<lparr>jb_packets := jb_packets jb', jb_seqSeen := jb_seqSeen jb',
       jb_stats := (jb_stats (jb_discard_late e rest jb))\<lparr>
         js_PacketsDelivered := js_PacketsDelivered (jb_stats (jb_discard_late e rest jb)) + of_nat (length dl),
         js_PacketsLate := js_PacketsLate (jb_stats (jb_discard_late e rest jb)) + of_nat (length late)\<rparr>\<rparr>"
    using assms(1) unfolding jb_drained_def by (elim conjE)
  then have "jb' = jb\<lparr>jb_packets := jb_packets jb', jb_seqSeen := jb_seqSeen jb',
       jb_stats := (jb_stats jb)\<lparr>
         js_PacketsDelivered := js_PacketsDelivered (jb_stats jb) + of_nat (length dl),
         js_PacketsLate := js_PacketsLate (jb_stats jb) + of_nat (length (e # late))\<rparr>\<rparr>"
    by (simp add: jb_discard_late_def add.commute add.left_commute)
  then show ?thesis using assms unfolding jb_drained_def by (intro conjI) simp_all
qed

lemma drained_deliver:
  assumes "jb_drained now (jb_deliver e rest jb) jb' dl late"
    and "mset (jb_packets jb) = add_mset e (mset rest)"
    and "jb_playoutTime jb (pe_packet e) \<le> now"
    and "time_Sub now (jb_playoutTime jb (pe_packet e)) \<le> jb_targetDelay jb"
  shows "jb_drained now jb jb' (e # dl) late"
proof -
  have "jb' = (jb_deliver e rest jb)\<lparr>jb_packets := jb_packets jb', jb_seqSeen := jb_seqSeen jb',
       jb_stats := (jb_stats (jb_deliver e rest jb))\<lparr>
         js_PacketsDelivered := js_PacketsDelivered (jb_stats (jb_deliver e rest jb)) + of_nat (length dl),
         js_PacketsLate := js_PacketsLate (jb_stats (jb_deliver e rest jb)) + of_nat (length late)\<rparr>\<rparr>"
    using assms(1) unfolding jb_drained_def by (elim conjE)
  then have "jb' = jb\<lparr>jb_packets := jb_packets jb', jb_seqSeen := jb_seqSeen jb',
       jb_stats := (jb_stats jb)\<lparr>
         js_PacketsDelivered := js_PacketsDelivered (jb_stats jb) + of_nat (length (e # dl)),
         js_PacketsLate := js_PacketsLate (jb_stats jb) + of_nat (length late)\<rparr>\<rparr>"
    by (simp add: jb_deliver_def add.commute add.left_commute)
  then show ?thesis using assms unfolding jb_drained_def by (intro conjI) simp_all
qed

lemma get_loop_spec:
  assumes "jb_held jb" and "jb_clockRate jb \<noteq> 0"
  shows "\<exists>jb' dl late. jb_get_loop now jb ready = Ret (jb', ready @ map pe_packet dl) \<and>
     jb_held jb' \<and> jb_drained now jb jb' dl late"
  using assms
proof (induction now jb ready rule: jb_get_loop.induct)
  case (1 now jb ready)
  let ?e = "jb_packets jb ! 0"
  let ?t = "jb_playoutTime jb (pe_packet ?e)"
  show ?case
  proof (cases "jb_packets jb = [] \<or> now < ?t")
    case True
    then have "jb_get_loop now jb ready = Ret (jb, ready @ map pe_packet [])"
      using "1.prems" by (subst jb_get_loop.simps) (auto simp: Let_def)
    moreover have "jb_drained now jb jb [] []" using True by (auto simp: jb_drained_def)
    ultimately show ?thesis using "1.prems"(1) by blast
  next
    case False
    then have ne: "jb_packets jb \<noteq> []" and due: "\<not> now < ?t" by auto
    obtain rest where rest: "heap_Pop packetHeap_Less (jb_packets jb) = (?e, rest)"
      and m: "mset (jb_packets jb) = add_mset ?e (mset rest)"
      by (rule pop_step [OF ne])
    note IH = "1.IH" [OF ne "1.prems"(2) refl refl due refl, unfolded rest snd_conv removed_frame]
    show ?thesis
    proof (cases "time_Sub now ?t > jb_targetDelay jb")
      case True
      let ?jb = "jb_discard_late ?e rest jb"
      have step: "jb_get_loop now jb ready = jb_get_loop now ?jb ready"
        using "1.prems" ne due True rest by (subst jb_get_loop.simps) (simp add: Let_def)
      have "jb_held ?jb" by (rule held_remove [OF "1.prems"(1) m]) (simp_all add: jb_discard_late_def)
      with IH(1) [OF True] "1.prems"(2) show ?thesis
        unfolding step using drained_late [OF _ m _ True] due by (metis not_less)
    next
      case False
      let ?jb = "jb_deliver ?e rest jb"
      have step: "jb_get_loop now jb ready = jb_get_loop now ?jb (ready @ [pe_packet ?e])"
        using "1.prems" ne due False rest by (subst jb_get_loop.simps) (simp add: Let_def)
      have "jb_held ?jb" by (rule held_remove [OF "1.prems"(1) m]) (simp_all add: jb_deliver_def)
      with IH(2) [OF False] "1.prems"(2) obtain jb' dl late
        where "jb_get_loop now ?jb (ready @ [pe_packet ?e]) = Ret (jb', (ready @ [pe_packet ?e]) @ map pe_packet dl)"
          "jb_held jb'" "jb_drained now ?jb jb' dl late" by auto
      moreover have "jb_drained now jb jb' (?e # dl) late"
        using calculation(3) m due False by (intro drained_deliver) simp_all
      ultimately show ?thesis unfolding step
        by (rule_tac exI [of _ jb'], rule_tac exI [of _ "?e # dl"], rule_tac exI [of _ late]) simp
    qed
  qed
qed

section \<open>Every operation keeps the invariant\<close>

lemma new_inv:
  "0 < n \<Longrightarrow> c \<noteq> 0 \<Longrightarrow> NewJitterBuffer n d c = Ret jb \<Longrightarrow> jb_inv jb"
  by (auto simp: NewJitterBuffer_def jb_inv_def jb_held_def)

lemma set_Push: "set (heap_Push lt x xs) = insert x (set xs)"
  by (metis heap_Push_mset set_mset_add_mset_insert set_mset_mset)

lemma length_Push [simp]: "length (heap_Push lt x xs) = Suc (length xs)"
  by (metis heap_Push_mset size_add_mset size_mset)

lemma distinct_Push:
  "distinct (map pe_seq (heap_Push lt e xs)) \<longleftrightarrow> pe_seq e \<notin> pe_seq ` set xs \<and> distinct (map pe_seq xs)"
  using mset_seqs_cong [of "heap_Push lt e xs" "e # xs"] by (simp add: heap_Push_mset)

text \<open>The state in which \<^verbatim>\<open>Add\<close> makes room: the number of the new packet is in the filter, the
  packet not yet in the heap.\<close>

definition jb_pending :: "u16 \<Rightarrow> JitterBuffer \<Rightarrow> bool" where
  "jb_pending s jb \<longleftrightarrow> distinct (jb_seqs jb) \<and> s \<notin> set (jb_seqs jb) \<and>
     jb_seqSeen jb = (\<lambda>t. if t = s \<or> t \<in> set (jb_seqs jb) then Some True else None)"

lemma make_room_spec:
  assumes "jb_pending s jb" and "0 < jb_maxSize jb" and "int (length (jb_packets jb)) \<le> jb_maxSize jb"
  obtains jb' k where "jb_make_room jb = Ret jb'" "jb_pending s jb'"
    "jb' = jb\<lparr>jb_packets := jb_packets jb', jb_seqSeen := jb_seqSeen jb',
       jb_stats := (jb_stats jb)\<lparr>js_PacketsDropped := js_PacketsDropped (jb_stats jb) + of_nat k,
         js_OverrunCount := js_OverrunCount (jb_stats jb) + of_nat k\<rparr>\<rparr>"
    "length (jb_packets jb) = length (jb_packets jb') + k" "int (length (jb_packets jb')) < jb_maxSize jb"
    "set (jb_packets jb') \<subseteq> set (jb_packets jb)"
proof (cases "int (length (jb_packets jb)) \<ge> jb_maxSize jb")
  case True
  then have ne: "jb_packets jb \<noteq> []" using assms(2) by auto
  obtain rest where rest: "heap_Pop packetHeap_Less (jb_packets jb) = (jb_packets jb ! 0, rest)"
    and m: "mset (jb_packets jb) = add_mset (jb_packets jb ! 0) (mset rest)"
    by (rule pop_step [OF ne])
  let ?e = "jb_packets jb ! 0"
  have "mset (jb_packets jb) = mset (?e # rest)" using m by simp
  then have d: "distinct (map pe_seq (?e # rest))" "set (jb_packets jb) = set (?e # rest)"
    "length (jb_packets jb) = Suc (length rest)"
    using assms(1) mset_seqs_cong mset_eq_setD mset_eq_length unfolding jb_pending_def
    by (blast, blast, fastforce)
  show thesis
    by (rule that [of "jb\<lparr>jb_packets := rest, jb_seqSeen := (jb_seqSeen jb)(pe_seq ?e := None),
          jb_stats := (jb_stats jb)\<lparr>js_PacketsDropped := js_PacketsDropped (jb_stats jb) + 1,
            js_OverrunCount := js_OverrunCount (jb_stats jb) + 1\<rparr>\<rparr>" 1])
       (use True ne rest d assms in \<open>auto simp: jb_make_room_def jb_pending_def fun_eq_iff\<close>)
next
  case False
  show thesis
    by (rule that [of jb 0]) (use False assms in \<open>simp_all add: jb_make_room_def\<close>)
qed

lemma Add_spec:
  assumes "jb_inv jb"
  shows "\<exists>jb' k n. jb_Add now arrival p jb = Ret jb' \<and> jb_inv jb' \<and>
     js_PacketsBuffered (jb_stats jb') = js_PacketsBuffered (jb_stats jb) + of_nat n \<and>
     js_PacketsDropped (jb_stats jb') = js_PacketsDropped (jb_stats jb) + of_nat k \<and>
     js_PacketsDelivered (jb_stats jb') = js_PacketsDelivered (jb_stats jb) \<and>
     js_PacketsLate (jb_stats jb') = js_PacketsLate (jb_stats jb) \<and>
     length (jb_packets jb') + k = length (jb_packets jb) + n \<and>
     jb_maxSize jb' = jb_maxSize jb \<and> pk_SequenceNumber p \<in> set (jb_seqs jb')"
proof -
  define jb1 where "jb1 = (if \<not> jb_hasBaseTime jb
     then jb\<lparr>jb_baseTime := now, jb_baseTS := pk_Timestamp p, jb_hasBaseTime := True\<rparr> else jb)"
  have j1: "jb_packets jb1 = jb_packets jb" "jb_seqSeen jb1 = jb_seqSeen jb" "jb_maxSize jb1 = jb_maxSize jb"
    "jb_stats jb1 = jb_stats jb" "jb_clockRate jb1 = jb_clockRate jb" "jb_inv jb1"
    using assms by (auto simp: jb1_def jb_inv_def jb_held_def)
  let ?s = "pk_SequenceNumber p"
  show ?thesis
  proof (cases "jb_seqSeen jb ?s = Some True")
    case True
    then have "jb_Add now arrival p jb = Ret jb1" by (simp add: jb_Add_def Let_def jb1_def)
    moreover have "?s \<in> set (jb_seqs jb)" using True assms by (simp add: jb_inv_def jb_held_def split: if_splits)
    ultimately show ?thesis using j1 by (intro exI [of _ jb1] exI [of _ 0]) simp
  next
    case False
    let ?jb2 = "jb1\<lparr>jb_seqSeen := (jb_seqSeen jb1)(?s \<mapsto> True)\<rparr>"
    have "jb_pending ?s ?jb2" using False assms j1
      by (auto simp: jb_pending_def jb_inv_def jb_held_def fun_eq_iff)
    then obtain jb3 k where r: "jb_make_room ?jb2 = Ret jb3" "jb_pending ?s jb3"
      "jb3 = ?jb2\<lparr>jb_packets := jb_packets jb3, jb_seqSeen := jb_seqSeen jb3,
       jb_stats := (jb_stats ?jb2)\<lparr>js_PacketsDropped := js_PacketsDropped (jb_stats ?jb2) + of_nat k,
         js_OverrunCount := js_OverrunCount (jb_stats ?jb2) + of_nat k\<rparr>\<rparr>"
      "length (jb_packets ?jb2) = length (jb_packets jb3) + k"
      "int (length (jb_packets jb3)) < jb_maxSize ?jb2"
      by (rule make_room_spec) (use assms j1 in \<open>simp_all add: jb_inv_def\<close>)
    have f: "jb_stats jb3 = (jb_stats jb)\<lparr>js_PacketsDropped := js_PacketsDropped (jb_stats jb) + of_nat k,
         js_OverrunCount := js_OverrunCount (jb_stats jb) + of_nat k\<rparr>"
      "jb_maxSize jb3 = jb_maxSize jb" "jb_clockRate jb3 = jb_clockRate jb"
      using arg_cong [OF r(3), of jb_stats] arg_cong [OF r(3), of jb_maxSize]
        arg_cong [OF r(3), of jb_clockRate] j1 by simp_all
    have add: "jb_Add now arrival p jb = Ret (jb_insert arrival p jb3)"
      using False r(1) by (simp add: jb_Add_def Let_def jb1_def [symmetric] j1)
    have "jb_inv (jb_insert arrival p jb3)"
      using assms r(2,5) j1 f
      by (auto simp: jb_inv_def jb_insert_def Let_def jb_held_def jb_pending_def set_Push distinct_Push fun_eq_iff)
    then show ?thesis using add r(4) j1 f
      by (rule_tac exI [of _ "jb_insert arrival p jb3"], rule_tac exI [of _ k], rule_tac exI [of _ 1])
         (simp add: jb_insert_def Let_def set_Push)
  qed
qed

lemma Get_spec:
  assumes "jb_inv jb"
  shows "\<exists>jb' dl late. jb_Get now jb = Ret (jb', map pe_packet dl) \<and> jb_inv jb' \<and>
     mset (jb_packets jb) = mset dl + mset late + mset (jb_packets jb') \<and>
     js_PacketsBuffered (jb_stats jb') = js_PacketsBuffered (jb_stats jb) \<and>
     js_PacketsDropped (jb_stats jb') = js_PacketsDropped (jb_stats jb) \<and>
     js_PacketsDelivered (jb_stats jb') = js_PacketsDelivered (jb_stats jb) + of_nat (length dl) \<and>
     js_PacketsLate (jb_stats jb') = js_PacketsLate (jb_stats jb) + of_nat (length late) \<and>
     (\<forall>e \<in> set dl. jb_playoutTime jb (pe_packet e) \<le> now \<and>
        time_Sub now (jb_playoutTime jb (pe_packet e)) \<le> jb_targetDelay jb) \<and>
     (\<forall>e \<in> set late. jb_targetDelay jb < time_Sub now (jb_playoutTime jb (pe_packet e))) \<and>
     (jb_packets jb' \<noteq> [] \<longrightarrow> now < jb_playoutTime jb (pe_packet (jb_packets jb' ! 0))) \<and>
     jb_maxSize jb' = jb_maxSize jb"
proof (cases "jb_packets jb = []")
  case True
  let ?st = "if \<not> jb_lastGetWasEmpty jb \<and> js_PacketsDelivered (jb_stats jb) > 0
     then (jb_stats jb)\<lparr>js_UnderrunCount := js_UnderrunCount (jb_stats jb) + 1\<rparr> else jb_stats jb"
  let ?jb' = "jb\<lparr>jb_stats := ?st, jb_lastGetWasEmpty := True\<rparr>"
  have get: "jb_Get now jb = Ret (?jb', map pe_packet [])" unfolding jb_Get_def if_P [OF True] by simp
  have inv: "jb_inv ?jb'" using assms by (simp add: jb_inv_def jb_held_def)
  show ?thesis
    by (rule exI [of _ ?jb'], rule exI [of _ "[]"], rule exI [of _ "[]"], intro conjI)
       (simp_all only: get inv, simp_all add: True)
next
  case False
  obtain jb1 dl late where l: "jb_get_loop now jb [] = Ret (jb1, [] @ map pe_packet dl)"
    "jb_held jb1" "jb_drained now jb jb1 dl late"
    using get_loop_spec [of jb now "[]"] assms by (auto simp: jb_inv_def)
  let ?jb2 = "jb1\<lparr>jb_stats := (jb_stats jb1)\<lparr>js_CurrentDepth := length (jb_packets jb1)\<rparr>\<rparr>"
  let ?jb' = "if map pe_packet dl \<noteq> [] then ?jb2\<lparr>jb_lastGetWasEmpty := False\<rparr> else ?jb2"
  have get: "jb_Get now jb = Ret (?jb', map pe_packet dl)"
    using False l(1) by (simp add: jb_Get_def Let_def)
  have m: "mset (jb_packets jb) = mset dl + mset late + mset (jb_packets jb1)"
    and t: "\<forall>e \<in> set dl. jb_playoutTime jb (pe_packet e) \<le> now \<and>
        time_Sub now (jb_playoutTime jb (pe_packet e)) \<le> jb_targetDelay jb"
      "\<forall>e \<in> set late. jb_targetDelay jb < time_Sub now (jb_playoutTime jb (pe_packet e))"
      "jb_packets jb1 \<noteq> [] \<longrightarrow> now < jb_playoutTime jb (pe_packet (jb_packets jb1 ! 0))"
    and eq: "jb1 = jb\<lparr>jb_packets := jb_packets jb1, jb_seqSeen := jb_seqSeen jb1,
       jb_stats := (jb_stats jb)\<lparr>
         js_PacketsDelivered := js_PacketsDelivered (jb_stats jb) + of_nat (length dl),
         js_PacketsLate := js_PacketsLate (jb_stats jb) + of_nat (length late)\<rparr>\<rparr>"
    using l(3) unfolding jb_drained_def by blast+
  have f: "jb_stats jb1 = (jb_stats jb)\<lparr>
         js_PacketsDelivered := js_PacketsDelivered (jb_stats jb) + of_nat (length dl),
         js_PacketsLate := js_PacketsLate (jb_stats jb) + of_nat (length late)\<rparr>"
    "jb_maxSize jb1 = jb_maxSize jb" "jb_clockRate jb1 = jb_clockRate jb"
    using arg_cong [OF eq, of jb_stats] arg_cong [OF eq, of jb_maxSize] arg_cong [OF eq, of jb_clockRate]
    by simp_all
  have "size (mset (jb_packets jb)) = size (mset dl + mset late + mset (jb_packets jb1))" using m by (rule arg_cong)
  then have len: "length (jb_packets jb1) \<le> length (jb_packets jb)" by simp
  have inv: "jb_inv ?jb'" using assms l(2) len f by (auto simp: jb_inv_def jb_held_def)
  have same: "jb_packets ?jb' = jb_packets jb1" "jb_maxSize ?jb' = jb_maxSize jb1"
    "jb_stats ?jb' = (jb_stats jb1)\<lparr>js_CurrentDepth := length (jb_packets jb1)\<rparr>" by simp_all
  define jb' where "jb' = ?jb'"
  have r: "jb_packets jb' = jb_packets jb1" "jb_maxSize jb' = jb_maxSize jb"
    "jb_stats jb' = (jb_stats jb1)\<lparr>js_CurrentDepth := length (jb_packets jb1)\<rparr>"
    "jb_inv jb'" "jb_Get now jb = Ret (jb', map pe_packet dl)"
    unfolding jb'_def same f(2) by (rule refl, rule refl, rule refl, rule inv, rule get)
  show ?thesis
    by (rule exI [of _ jb'], rule exI [of _ dl], rule exI [of _ late], intro conjI)
       (use m t in \<open>simp_all add: r f\<close>)
qed

lemma apply_inv:
  assumes "jb_inv jb"
  obtains jb' out where "jb_apply op jb = Ret (jb', out)" "jb_inv jb'" "jb_maxSize jb' = jb_maxSize jb"
proof (cases op)
  case (OpAdd now arrival p)
  then show thesis using that Add_spec [OF assms, of now arrival p] by auto
next
  case (OpGet now)
  then show thesis using that Get_spec [OF assms, of now] by auto
next
  case OpFlush
  then show thesis using that assms by (auto simp: jb_Flush_def jb_inv_def jb_held_def)
next
  case (OpSetTargetDelay d)
  then show thesis using that assms by (auto simp: jb_SetTargetDelay_def jb_inv_def jb_held_def)
qed

lemma run_inv:
  assumes "jb_inv jb"
  shows "\<exists>jb' out. jb_run ops jb = Ret (jb', out) \<and> jb_inv jb' \<and> jb_maxSize jb' = jb_maxSize jb"
  using assms
proof (induction ops arbitrary: jb)
  case (Cons op ops)
  obtain jb1 out where 1: "jb_apply op jb = Ret (jb1, out)" "jb_inv jb1" "jb_maxSize jb1 = jb_maxSize jb"
    by (rule apply_inv [OF Cons.prems])
  from Cons.IH [OF 1(2)] show ?case using 1 by auto
qed simp

section \<open>Packets leave in sequence order\<close>

definition seq_before :: "u16 \<Rightarrow> rtp_packet \<Rightarrow> rtp_packet \<Rightarrow> bool" where
  "seq_before b p q \<longleftrightarrow> unat (pk_SequenceNumber p - b) < unat (pk_SequenceNumber q - b)"

definition jb_ordered :: "u16 \<Rightarrow> JitterBuffer \<Rightarrow> bool" where
  "jb_ordered b jb \<longleftrightarrow> set (jb_packets jb) \<subseteq> window_entries b \<and> is_heap packetHeap_Less (jb_packets jb)"

lemma unat_offset_inj: "unat (s - b) = unat (t - b) \<Longrightarrow> s = (t::u16)"
  using unsigned_word_eqI [of "s - b" "t - b", where ?'a = nat] by simp

lemma pop_ordered:
  assumes "jb_ordered b jb" and "jb_held jb" and "jb_packets jb \<noteq> []"
    and "heap_Pop packetHeap_Less (jb_packets jb) = (e, rest)"
  shows "set rest \<subseteq> window_entries b" and "is_heap packetHeap_Less rest" and "e \<in> set (jb_packets jb)"
    and "\<forall>f \<in> set rest. seq_before b (pe_packet e) (pe_packet f)"
    and "set rest \<subseteq> set (jb_packets jb)"
proof -
  have m: "mset (jb_packets jb) = mset (e # rest)" using heap_Pop_frame(2) [OF assms(3,4)] by simp
  then have s: "set (jb_packets jb) = set (e # rest)" "distinct (map pe_seq (e # rest))"
    using assms(2) mset_seqs_cong mset_eq_setD unfolding jb_held_def by blast+
  then show "set rest \<subseteq> window_entries b" "e \<in> set (jb_packets jb)" "set rest \<subseteq> set (jb_packets jb)"
    using assms(1) by (auto simp: jb_ordered_def)
  show "is_heap packetHeap_Less rest"
    using jitter.Pop_heap(1) assms(1,3,4) unfolding jb_ordered_def by blast
  have min: "\<forall>f \<in> set (jb_packets jb). \<not> packetHeap_Less f e"
    using jitter.Pop_heap(2) assms(1,3,4) unfolding jb_ordered_def by blast
  show "\<forall>f \<in> set rest. seq_before b (pe_packet e) (pe_packet f)"
  proof
    fix f assume f: "f \<in> set rest"
    then have w: "in_window b (pe_seq e)" "in_window b (pe_seq f)"
      using assms(1) s(1) by (auto simp: jb_ordered_def window_entries_def)
    have "\<not> unat (pe_seq f - b) < unat (pe_seq e - b)"
      using min f s(1) packetHeap_Less_window [OF w(2,1)] by simp
    moreover have "pe_seq f \<noteq> pe_seq e" using s(2) f by (simp add: image_iff) metis
    then have "unat (pe_seq f - b) \<noteq> unat (pe_seq e - b)" using unat_offset_inj by blast
    ultimately show "seq_before b (pe_packet e) (pe_packet f)" by (simp add: seq_before_def)
  qed
qed

lemma get_loop_order:
  assumes "jb_ordered b jb" and "jb_held jb" and "jb_get_loop now jb ready = Ret (jb', out)"
  shows "\<exists>ps. out = ready @ ps \<and> sorted_wrt (seq_before b) ps \<and> jb_ordered b jb' \<and>
     set ps \<subseteq> pe_packet ` set (jb_packets jb) \<and> set (jb_packets jb') \<subseteq> set (jb_packets jb) \<and>
     (\<forall>p \<in> set ps. \<forall>f \<in> set (jb_packets jb'). seq_before b p (pe_packet f))"
  using assms
proof (induction now jb ready rule: jb_get_loop.induct)
  case (1 now jb ready)
  let ?e = "jb_packets jb ! 0"
  let ?t = "jb_playoutTime jb (pe_packet ?e)"
  have rate: "jb_packets jb = [] \<or> jb_clockRate jb \<noteq> 0"
    using "1.prems"(3) by (subst (asm) jb_get_loop.simps) (simp split: if_splits)
  show ?case
  proof (cases "jb_packets jb = [] \<or> now < ?t")
    case True
    then have "jb_get_loop now jb ready = Ret (jb, ready)"
      using rate by (subst jb_get_loop.simps) (auto simp: Let_def)
    then show ?thesis using "1.prems" by simp
  next
    case False
    then have ne: "jb_packets jb \<noteq> []" and due: "\<not> now < ?t" and c: "jb_clockRate jb \<noteq> 0" using rate by auto
    obtain rest where rest: "heap_Pop packetHeap_Less (jb_packets jb) = (?e, rest)"
      and m: "mset (jb_packets jb) = add_mset ?e (mset rest)"
      by (rule pop_step [OF ne])
    note pop = pop_ordered [OF "1.prems"(1,2) ne rest]
    note IH = "1.IH" [OF ne c refl refl due refl, unfolded rest snd_conv jb_packets_removed]
    show ?thesis
    proof (cases "time_Sub now ?t > jb_targetDelay jb")
      case True
      let ?jb = "jb_discard_late ?e rest jb"
      have step: "jb_get_loop now jb ready = jb_get_loop now ?jb ready"
        using ne c due True rest by (subst jb_get_loop.simps) (simp add: Let_def)
      have "jb_held ?jb" by (rule held_remove [OF "1.prems"(2) m]) (simp_all add: jb_discard_late_def)
      moreover have "jb_ordered b ?jb" using pop by (simp add: jb_ordered_def)
      ultimately obtain ps where "out = ready @ ps" "sorted_wrt (seq_before b) ps" "jb_ordered b jb'"
        "set ps \<subseteq> pe_packet ` set rest" "set (jb_packets jb') \<subseteq> set rest"
        "\<forall>p \<in> set ps. \<forall>f \<in> set (jb_packets jb'). seq_before b p (pe_packet f)"
        using IH(1) [OF True] "1.prems"(3) unfolding step by blast
      then show ?thesis using image_mono [OF pop(5), of pe_packet] pop(5)
        by (intro exI [of _ ps]) (simp, blast intro: order_trans)
    next
      case False
      let ?jb = "jb_deliver ?e rest jb"
      have step: "jb_get_loop now jb ready = jb_get_loop now ?jb (ready @ [pe_packet ?e])"
        using ne c due False rest by (subst jb_get_loop.simps) (simp add: Let_def)
      have "jb_held ?jb" by (rule held_remove [OF "1.prems"(2) m]) (simp_all add: jb_deliver_def)
      moreover have "jb_ordered b ?jb" using pop by (simp add: jb_ordered_def)
      ultimately obtain ps where ps: "out = (ready @ [pe_packet ?e]) @ ps" "sorted_wrt (seq_before b) ps"
        "jb_ordered b jb'" "set ps \<subseteq> pe_packet ` set rest" "set (jb_packets jb') \<subseteq> set rest"
        "\<forall>p \<in> set ps. \<forall>f \<in> set (jb_packets jb'). seq_before b p (pe_packet f)"
        using IH(2) [OF False] "1.prems"(3) unfolding step by blast
      have before: "\<forall>p \<in> set ps. seq_before b (pe_packet ?e) p" using ps(4) pop(4) by auto
      show ?thesis
      proof (intro exI [of _ "pe_packet ?e # ps"] conjI)
        show "out = ready @ pe_packet ?e # ps" using ps(1) by simp
        show "sorted_wrt (seq_before b) (pe_packet ?e # ps)" using ps(2) before by simp
        show "jb_ordered b jb'" by (rule ps(3))
        show "set (pe_packet ?e # ps) \<subseteq> pe_packet ` set (jb_packets jb)" using ps(4) pop(3,5) by auto
        show "set (jb_packets jb') \<subseteq> set (jb_packets jb)" using ps(5) pop(5) by blast
        show "\<forall>p \<in> set (pe_packet ?e # ps). \<forall>f \<in> set (jb_packets jb'). seq_before b p (pe_packet f)"
          using ps(5,6) pop(4) by (simp add: subset_iff)
      qed
    qed
  qed
qed

fun op_in_window :: "u16 \<Rightarrow> jb_op \<Rightarrow> bool" where
  "op_in_window b (OpAdd now arrival p) = in_window b (pk_SequenceNumber p)"
| "op_in_window b op = True"

lemma make_room_ordered:
  assumes "jb_ordered b jb" and "jb_make_room jb = Ret jb'" and "jb_held (jb\<lparr>jb_seqSeen := f\<rparr>)"
  shows "jb_ordered b jb'"
proof (cases "int (length (jb_packets jb)) \<ge> jb_maxSize jb")
  case True
  then have ne: "jb_packets jb \<noteq> []" using assms(2) by (auto simp: jb_make_room_def)
  obtain rest where rest: "heap_Pop packetHeap_Less (jb_packets jb) = (jb_packets jb ! 0, rest)"
    by (rule pop_step [OF ne])
  have "jb_ordered b (jb\<lparr>jb_seqSeen := f\<rparr>)" using assms(1) by (simp add: jb_ordered_def)
  note pop = pop_ordered [OF this assms(3), simplified, OF ne rest]
  show ?thesis using True ne rest assms(2) pop(1,2) by (auto simp: jb_make_room_def jb_ordered_def)
next
  case False
  then show ?thesis using assms by (simp add: jb_make_room_def)
qed

lemma Add_ordered:
  assumes "jb_ordered b jb" and "jb_inv jb" and "in_window b (pk_SequenceNumber p)"
    and "jb_Add now arrival p jb = Ret jb'"
  shows "jb_ordered b jb'"
proof -
  define jb1 where "jb1 = (if \<not> jb_hasBaseTime jb
     then jb\<lparr>jb_baseTime := now, jb_baseTS := pk_Timestamp p, jb_hasBaseTime := True\<rparr> else jb)"
  have o1: "jb_ordered b jb1" and h1: "jb_held jb1"
    using assms by (auto simp: jb1_def jb_ordered_def jb_inv_def jb_held_def)
  show ?thesis
  proof (cases "jb_seqSeen jb1 (pk_SequenceNumber p) = Some True")
    case True
    then have "jb' = jb1" using assms(4) by (simp add: jb_Add_def Let_def jb1_def [symmetric])
    then show ?thesis using o1 by simp
  next
    case False
    define jb2 where "jb2 = jb1\<lparr>jb_seqSeen := (jb_seqSeen jb1)(pk_SequenceNumber p \<mapsto> True)\<rparr>"
    obtain jb3 where r: "jb_make_room jb2 = Ret jb3" "jb' = jb_insert arrival p jb3"
      using assms(4) False unfolding jb_Add_def Let_def jb1_def [symmetric] jb2_def [symmetric]
      by (cases "jb_make_room jb2") auto
    have h2: "jb_held (jb2\<lparr>jb_seqSeen := jb_seqSeen jb1\<rparr>)" and o2: "jb_ordered b jb2"
      using h1 o1 by (simp_all add: jb2_def jb_held_def jb_ordered_def)
    have o3: "jb_ordered b jb3" by (rule make_room_ordered [OF o2 r(1) h2])
    then have d: "set (jb_packets jb3) \<subseteq> window_entries b" "is_heap packetHeap_Less (jb_packets jb3)"
      by (simp_all add: jb_ordered_def)
    have e: "\<lparr>pe_packet = p, pe_arrivalTime = arrival\<rparr> \<in> window_entries b"
      using assms(3) by (simp add: window_entries_def)
    show ?thesis using jitter.Push_heap [OF d(1) e d(2)] d(1) e
      by (simp add: r(2) jb_insert_def Let_def jb_ordered_def set_Push)
  qed
qed

lemma Get_order:
  assumes "jb_ordered b jb" and "jb_inv jb" and "jb_Get now jb = Ret (jb', ps)"
  shows "sorted_wrt (seq_before b) ps" and "jb_ordered b jb'"
    and "\<forall>p \<in> set ps. \<forall>f \<in> set (jb_packets jb'). seq_before b p (pe_packet f)"
proof -
  have "sorted_wrt (seq_before b) ps \<and> jb_ordered b jb' \<and>
    (\<forall>p \<in> set ps. \<forall>f \<in> set (jb_packets jb'). seq_before b p (pe_packet f))"
  proof (cases "jb_packets jb = []")
    case True
    then show ?thesis using assms by (auto simp: jb_Get_def jb_ordered_def)
  next
    case False
    then obtain jb1 where l: "jb_get_loop now jb [] = Ret (jb1, ps)" "jb_packets jb' = jb_packets jb1"
      using assms(3) by (cases "jb_get_loop now jb []") (auto simp: jb_Get_def Let_def split: if_splits)
    show ?thesis using get_loop_order [OF assms(1) _ l(1)] assms(2) l(2)
      by (auto simp: jb_inv_def jb_ordered_def)
  qed
  then show "sorted_wrt (seq_before b) ps" "jb_ordered b jb'"
    "\<forall>p \<in> set ps. \<forall>f \<in> set (jb_packets jb'). seq_before b p (pe_packet f)" by auto
qed

lemma apply_ordered:
  assumes "jb_ordered b jb" and "jb_inv jb" and "op_in_window b op" and "jb_apply op jb = Ret (jb', out)"
  shows "jb_ordered b jb'"
proof (cases op)
  case (OpAdd now arrival p)
  then show ?thesis using assms Add_ordered [OF assms(1,2)]
    by (cases "jb_Add now arrival p jb") auto
next
  case (OpGet now)
  then show ?thesis using assms Get_order(2) by auto
next
  case OpFlush
  then show ?thesis using assms by (auto simp: jb_Flush_def jb_ordered_def heap_on_def)
next
  case (OpSetTargetDelay d)
  then show ?thesis using assms by (auto simp: jb_SetTargetDelay_def jb_ordered_def)
qed

lemma run_ordered:
  assumes "jb_ordered b jb" and "jb_inv jb" and "list_all (op_in_window b) ops"
    and "jb_run ops jb = Ret (jb', out)"
  shows "jb_ordered b jb' \<and> jb_inv jb'"
  using assms
proof (induction ops arbitrary: jb out)
  case (Cons op ops)
  obtain jb1 o1 where 1: "jb_apply op jb = Ret (jb1, o1)" "jb_inv jb1" by (rule apply_inv [OF Cons.prems(2)])
  have o: "jb_ordered b jb1" using apply_ordered [OF Cons.prems(1,2) _ 1(1)] Cons.prems(3) by simp
  obtain o2 where "jb_run ops jb1 = Ret (jb', o2)"
    using Cons.prems(4) 1(1) by (cases "jb_run ops jb1") auto
  then show ?case using Cons.IH [OF o 1(2)] Cons.prems(3) by simp
qed simp

section \<open>Accounts\<close>

definition jb_balanced :: "JitterBuffer \<Rightarrow> bool" where
  "jb_balanced jb \<longleftrightarrow> (let st = jb_stats jb in
     js_PacketsBuffered st = js_PacketsDelivered st + js_PacketsDropped st + js_PacketsLate st
       + of_nat (length (jb_packets jb)))"

lemma apply_balanced:
  assumes "jb_inv jb" and "jb_balanced jb" and "op \<noteq> OpFlush" and "jb_apply op jb = Ret (jb', out)"
  shows "jb_balanced jb'"
    and "js_PacketsDelivered (jb_stats jb') = js_PacketsDelivered (jb_stats jb) + of_nat (length out)"
proof -
  have "jb_balanced jb' \<and>
    js_PacketsDelivered (jb_stats jb') = js_PacketsDelivered (jb_stats jb) + of_nat (length out)"
  proof (cases op)
    case (OpAdd now arrival p)
    then show ?thesis using assms Add_spec [OF assms(1), of now arrival p]
      by (auto simp: jb_balanced_def Let_def) (metis add.commute of_nat_add)
  next
    case (OpGet now)
    obtain jb1 dl late where g: "jb_Get now jb = Ret (jb1, map pe_packet dl)"
      "mset (jb_packets jb) = mset dl + mset late + mset (jb_packets jb1)"
      "js_PacketsBuffered (jb_stats jb1) = js_PacketsBuffered (jb_stats jb)"
      "js_PacketsDropped (jb_stats jb1) = js_PacketsDropped (jb_stats jb)"
      "js_PacketsDelivered (jb_stats jb1) = js_PacketsDelivered (jb_stats jb) + of_nat (length dl)"
      "js_PacketsLate (jb_stats jb1) = js_PacketsLate (jb_stats jb) + of_nat (length late)"
      using Get_spec [OF assms(1), of now] by blast
    have "length (jb_packets jb) = length dl + length late + length (jb_packets jb1)"
      using arg_cong [OF g(2), of size] by simp
    then show ?thesis using OpGet assms(2,4) g by (auto simp: jb_balanced_def Let_def ac_simps)
  qed (use assms in \<open>auto simp: jb_SetTargetDelay_def jb_balanced_def\<close>)
  then show "jb_balanced jb'"
    "js_PacketsDelivered (jb_stats jb') = js_PacketsDelivered (jb_stats jb) + of_nat (length out)" by auto
qed

lemma run_balanced:
  assumes "jb_inv jb" and "jb_balanced jb" and "OpFlush \<notin> set ops" and "jb_run ops jb = Ret (jb', out)"
  shows "jb_balanced jb' \<and>
    js_PacketsDelivered (jb_stats jb') = js_PacketsDelivered (jb_stats jb) + of_nat (length out)"
  using assms
proof (induction ops arbitrary: jb out)
  case (Cons op ops)
  obtain jb1 o1 where 1: "jb_apply op jb = Ret (jb1, o1)" "jb_inv jb1" by (rule apply_inv [OF Cons.prems(1)])
  have ne: "op \<noteq> OpFlush" using Cons.prems(3) by auto
  note b = apply_balanced [OF Cons.prems(1,2) ne 1(1)]
  obtain o2 where o2: "jb_run ops jb1 = Ret (jb', o2)" "out = o1 @ o2"
    using Cons.prems(4) 1(1) by (cases "jb_run ops jb1") auto
  then show ?case using Cons.IH [OF 1(2) b(1) _ o2(1)] b(2) Cons.prems(3) by simp
qed simp

section \<open>Properties\<close>

text \<open>A run across the wrap of the sequence numbers: 1 and 65535 arrive before 0, and 0 twice.\<close>

definition sample_packet :: "u16 \<Rightarrow> rtp_packet" where
  "sample_packet s = \<lparr>pk_Version = 2, pk_PayloadType = 96, pk_SequenceNumber = s,
     pk_Timestamp = 9000, pk_SSRC = 7, pk_Payload = [0x65]\<rparr>"

definition sample_ops :: "jb_op list" where
  "sample_ops = [OpAdd 0 0 (sample_packet 1), OpAdd 1 1 (sample_packet 65535),
     OpAdd 2 2 (sample_packet 0), OpAdd 3 3 (sample_packet 0)]"

definition sample_new :: "int \<Rightarrow> JitterBuffer" where
  "sample_new n = (case NewJitterBuffer n 1000 90000 of Ret jb \<Rightarrow> jb)"

definition sample_run :: "JitterBuffer \<times> rtp_packet list" where
  "sample_run = (case jb_run sample_ops (sample_new 10) of Ret r \<Rightarrow> r)"

definition sample_get :: "JitterBuffer \<times> rtp_packet list" where
  "sample_get = (case jb_Get 1500 (fst sample_run) of Ret r \<Rightarrow> r)"

lemma sample_new_eq: "NewJitterBuffer 10 1000 90000 = Ret (sample_new 10)"
  by (simp add: sample_new_def NewJitterBuffer_def)

lemma sample_run_eq: "jb_run sample_ops (sample_new 10) = Ret (fst sample_run, snd sample_run)"
  using run_inv [OF new_inv [OF _ _ sample_new_eq], of sample_ops] by (auto simp: sample_run_def)

lemma sample_get_eq: "jb_Get 1500 (fst sample_run) = Ret (fst sample_get, snd sample_get)"
proof -
  have "jb_inv (fst sample_run)"
    using run_inv [OF new_inv [OF _ _ sample_new_eq], of sample_ops] unfolding sample_run_eq
    by (simp del: prod.collapse)
  then show ?thesis using Get_spec [of "fst sample_run" 1500] by (auto simp: sample_get_def)
qed

text \<open>From a new jitter buffer with a positive capacity and clock rate, no sequence of calls panics;
  at every moment it holds at most \<^verbatim>\<open>maxSize\<close> packets, no two with the same sequence number,
  the duplicate filter \<^verbatim>\<open>seqSeen\<close> holds exactly the numbers of the buffered packets (it does
  not leak), and \<^verbatim>\<open>CurrentDepth\<close> is the number of buffered packets.\<close>

theorem jitter_bounded_no_duplicates:
  assumes "0 < n" and "c \<noteq> 0" and "NewJitterBuffer n d c = Ret jb0"
  shows "\<exists>jb out. jb_run ops jb0 = Ret (jb, out) \<and>
     int (jb_GetCurrentDepth jb) \<le> n \<and> distinct (jb_seqs jb) \<and>
     (\<forall>s. jb_seqSeen jb s = Some True \<longleftrightarrow> s \<in> set (jb_seqs jb)) \<and>
     js_CurrentDepth (jb_GetStats jb) = jb_GetCurrentDepth jb"
proof -
  have "jb_maxSize jb0 = n" using assms by (auto simp: NewJitterBuffer_def split: if_splits)
  then obtain jb out where "jb_run ops jb0 = Ret (jb, out)" "jb_inv jb" "jb_maxSize jb = n"
    using run_inv [OF new_inv [OF assms], of ops] by auto
  then show ?thesis
    by (auto simp: jb_inv_def jb_held_def jb_GetCurrentDepth_def jb_GetStats_def)
qed

theorem jitter_bounded_no_duplicates_witness:
  "\<exists>jb out. jb_run sample_ops (sample_new 10) = Ret (jb, out) \<and>
     int (jb_GetCurrentDepth jb) \<le> 10 \<and> distinct (jb_seqs jb) \<and>
     (\<forall>s. jb_seqSeen jb s = Some True \<longleftrightarrow> s \<in> set (jb_seqs jb)) \<and>
     js_CurrentDepth (jb_GetStats jb) = jb_GetCurrentDepth jb"
  using jitter_bounded_no_duplicates [OF _ _ sample_new_eq] by simp

text \<open>C5: As long as the packets added lie in one half of the sequence-number space (starting anywhere,
  so also across the wrap from 65535 to 0), every \<^verbatim>\<open>Get\<close> returns packets in strictly increasing
  sequence order, and every packet still buffered comes after the ones it returned.\<close>

theorem jitter_delivers_in_order:
  assumes "0 < n" and "c \<noteq> 0" and "NewJitterBuffer n d c = Ret jb0"
    and "list_all (op_in_window b) ops" and "jb_run ops jb0 = Ret (jb, out)"
    and "jb_Get now jb = Ret (jb', ps)"
  shows "sorted_wrt (seq_before b) ps \<and>
     (\<forall>p \<in> set ps. \<forall>f \<in> set (jb_packets jb'). seq_before b p (pe_packet f))"
proof -
  have "jb_ordered b jb0" using assms(3) by (auto simp: NewJitterBuffer_def jb_ordered_def heap_on_def split: if_splits)
  then have "jb_ordered b jb \<and> jb_inv jb" using run_ordered [OF _ new_inv [OF assms(1-3)] assms(4,5)] by simp
  then show ?thesis using Get_order [OF _ _ assms(6)] by blast
qed

theorem jitter_delivers_in_order_witness:
  "map pk_SequenceNumber (snd sample_get) = [65535, 0, 1] \<and>
   sorted_wrt (seq_before 65000) (snd sample_get)"
proof
  show "map pk_SequenceNumber (snd sample_get) = [65535, 0, 1]" by code_simp
  have "list_all (op_in_window 65000) sample_ops"
    by (simp add: sample_ops_def sample_packet_def in_window_def unat_sub_if')
  then show "sorted_wrt (seq_before 65000) (snd sample_get)"
    using jitter_delivers_in_order [OF _ _ sample_new_eq _ sample_run_eq sample_get_eq] by simp
qed

text \<open>\<^verbatim>\<open>Get\<close> conserves the buffered packets: each one is returned, discarded as late or still
  buffered.  What it returns is due and at most \<^verbatim>\<open>targetDelay\<close> past its playout time, what it
  discards is later than that, and the head of what remains is not yet due.\<close>

theorem jitter_get_is_timely:
  assumes "0 < n" and "c \<noteq> 0" and "NewJitterBuffer n d c = Ret jb0" and "jb_run ops jb0 = Ret (jb, out)"
  shows "\<exists>jb' dl late. jb_Get now jb = Ret (jb', map pe_packet dl) \<and>
     mset (jb_packets jb) = mset dl + mset late + mset (jb_packets jb') \<and>
     (\<forall>e \<in> set dl. jb_playoutTime jb (pe_packet e) \<le> now \<and>
        time_Sub now (jb_playoutTime jb (pe_packet e)) \<le> jb_targetDelay jb) \<and>
     (\<forall>e \<in> set late. jb_targetDelay jb < time_Sub now (jb_playoutTime jb (pe_packet e))) \<and>
     (jb_packets jb' \<noteq> [] \<longrightarrow> now < jb_playoutTime jb (pe_packet (jb_packets jb' ! 0)))"
proof -
  have "jb_inv jb" using run_inv [OF new_inv [OF assms(1-3)], of ops] assms(4) by auto
  then show ?thesis using Get_spec [of jb now] by blast
qed

theorem jitter_get_is_timely_witness:
  "\<exists>jb' dl late. jb_Get 1500 (fst sample_run) = Ret (jb', map pe_packet dl) \<and>
     mset (jb_packets (fst sample_run)) = mset dl + mset late + mset (jb_packets jb')"
proof -
  have "0 < (10::int)" "(90000::u32) \<noteq> 0" by simp_all
  from jitter_get_is_timely [OF this sample_new_eq sample_run_eq, of 1500] show ?thesis by blast
qed

text \<open>Without a \<^verbatim>\<open>Flush\<close>, the counters of the jitter buffer balance after any sequence of calls:
  packets buffered are packets delivered, dropped, late or still held, and the delivered
  ones are as many as \<^verbatim>\<open>Get\<close> returned (modulo the width of the counters).\<close>

theorem jitter_accounts_balance:
  assumes "0 < n" and "c \<noteq> 0" and "NewJitterBuffer n d c = Ret jb0"
    and "OpFlush \<notin> set ops" and "jb_run ops jb0 = Ret (jb, out)"
  shows "js_PacketsDelivered (jb_GetStats jb) = of_nat (length out) \<and>
     js_PacketsBuffered (jb_GetStats jb) =
       js_PacketsDelivered (jb_GetStats jb) + js_PacketsDropped (jb_GetStats jb)
       + js_PacketsLate (jb_GetStats jb) + of_nat (jb_GetCurrentDepth jb)"
proof -
  have "jb_balanced jb0" "js_PacketsDelivered (jb_stats jb0) = 0"
    using assms(3) by (auto simp: NewJitterBuffer_def jb_balanced_def split: if_splits)
  then show ?thesis using run_balanced [OF new_inv [OF assms(1-3)] _ assms(4,5)]
    by (simp add: jb_balanced_def Let_def jb_GetStats_def jb_GetCurrentDepth_def)
qed

theorem jitter_accounts_balance_witness:
  "js_PacketsBuffered (jb_GetStats (fst sample_run)) = 3 \<and>
   js_PacketsDelivered (jb_GetStats (fst sample_run)) = of_nat (length (snd sample_run))"
proof
  show "js_PacketsBuffered (jb_GetStats (fst sample_run)) = 3" by code_simp
  have "OpFlush \<notin> set sample_ops" by (simp add: sample_ops_def)
  then show "js_PacketsDelivered (jb_GetStats (fst sample_run)) = of_nat (length (snd sample_run))"
    using jitter_accounts_balance [OF _ _ sample_new_eq _ sample_run_eq] by simp
qed

text \<open>The constructor accepts a capacity of zero, and the first \<^verbatim>\<open>Add\<close> on such a buffer panics:
  it pops from an empty heap.\<close>

theorem jitter_zero_capacity_panics:
  assumes "NewJitterBuffer 0 d c = Ret jb0"
  shows "jb_Add now arrival p jb0 = Panic"
  using assms by (auto simp: NewJitterBuffer_def jb_Add_def Let_def jb_make_room_def)

theorem jitter_zero_capacity_panics_witness:
  "NewJitterBuffer 0 1000 90000 = Ret (sample_new 0) \<and> jb_Add 0 0 (sample_packet 1) (sample_new 0) = Panic"
proof -
  have "NewJitterBuffer 0 1000 90000 = Ret (sample_new 0)" by (simp add: sample_new_def NewJitterBuffer_def)
  then show ?thesis using jitter_zero_capacity_panics [of 1000 90000 "sample_new 0"] by simp
qed

end
