(* ===== verification/Packet_Loss.thy ===== *)
theory Packet_Loss
  imports Depacketizer
begin

unbundle bit_operations_syntax

text \<open>
  The packet loss tracker of \<^verbatim>\<open>internal/ingestion/rtp/packet_loss_tracker.go\<close>: extended sequence
  numbers in the manner of RFC 3550, a log of the sequence numbers found missing and
  loss statistics.  Counters keep their widths; clock readings are arguments; the two
  floating-point rates are kept as numerator and denominator.
\<close>

section \<open>State\<close>

record PacketLossTracker =
  pl_initialized :: bool
  pl_highestSeq :: u16
  pl_baseSeq :: u16
  pl_cycles :: u32
  pl_extendedSeq :: u64
  pl_expectedPackets :: u64
  pl_receivedPackets :: u64
  pl_lostPackets :: u64
  pl_lossEvents :: u64
  pl_maxConsecutiveLoss :: u16
  pl_currentLossStreak :: u16
  pl_recoveredPackets :: u64
  pl_unrecoverableLoss :: u64
  pl_recentLosses :: "u16 list"
  pl_recentLossIndex :: nat
  pl_recentLossSize :: nat
  pl_lastPacketTime :: gotime
  pl_lastLossTime :: gotime
  pl_lossWindowStart :: nanos
  pl_lossWindowPackets :: u64
  pl_lossWindowLosses :: u64
  pl_maxRecentLosses :: nat
  pl_lossWindowDuration :: nanos

record RecoveryStats =
  rs_TotalLost :: u64
  rs_TotalRecovered :: u64
  rs_UnrecoverableLoss :: u64
  rs_CurrentLossRate :: "u64 \<times> u64"
  rs_AverageLossRate :: "u64 \<times> u64"
  rs_MaxConsecutiveLoss :: u16
  rs_LossEvents :: u64

datatype plt_error =
    DuplicatePacket u16
  | SequenceReset u16 u16 int

definition NewPacketLossTracker :: "nanos \<Rightarrow> PacketLossTracker" where
  "NewPacketLossTracker now =
     \<lparr>pl_initialized = False, pl_highestSeq = 0, pl_baseSeq = 0, pl_cycles = 0, pl_extendedSeq = 0,
      pl_expectedPackets = 0, pl_receivedPackets = 0, pl_lostPackets = 0, pl_lossEvents = 0,
      pl_maxConsecutiveLoss = 0, pl_currentLossStreak = 0, pl_recoveredPackets = 0,
      pl_unrecoverableLoss = 0, pl_recentLosses = replicate 1000 0, pl_recentLossIndex = 0,
      pl_recentLossSize = 0, pl_lastPacketTime = None, pl_lastLossTime = None,
      pl_lossWindowStart = now, pl_lossWindowPackets = 0, pl_lossWindowLosses = 0,
      pl_maxRecentLosses = 1000, pl_lossWindowDuration = 10 * second\<rparr>"

section \<open>Operations\<close>

text \<open>The log of missing numbers: the loop stops at the end of the gap or when the log is full.\<close>

function plt_record_loop :: "u16 \<Rightarrow> u16 \<Rightarrow> PacketLossTracker \<Rightarrow> PacketLossTracker" where
  "plt_record_loop seq stop t =
     (if seq \<noteq> stop \<and> pl_recentLossSize t < pl_maxRecentLosses t then
        plt_record_loop (seq + 1) stop
          (t\<lparr>pl_recentLosses := (pl_recentLosses t)[pl_recentLossIndex t := seq],
             pl_recentLossIndex := (pl_recentLossIndex t + 1) mod pl_maxRecentLosses t,
             pl_recentLossSize := pl_recentLossSize t + 1\<rparr>)
      else t)"
  by pat_completeness auto
termination
  by (relation "measure (\<lambda>(seq, stop, t). pl_maxRecentLosses t - pl_recentLossSize t)") auto

declare plt_record_loop.simps [simp del]

definition plt_recordLoss :: "nanos \<Rightarrow> u16 \<Rightarrow> u16 \<Rightarrow> u64 \<Rightarrow> PacketLossTracker \<Rightarrow> PacketLossTracker" where
  "plt_recordLoss now startSeq endSeq count t =
     (let streak = pl_currentLossStreak t + ucast count;
          t = t\<lparr>pl_lostPackets := pl_lostPackets t + count, pl_lossEvents := pl_lossEvents t + 1,
            pl_lastLossTime := Some now, pl_lossWindowLosses := pl_lossWindowLosses t + count,
            pl_currentLossStreak := streak,
            pl_maxConsecutiveLoss :=
              (if streak > pl_maxConsecutiveLoss t then streak else pl_maxConsecutiveLoss t)\<rparr>
      in plt_record_loop startSeq (endSeq + 1) t)"

text \<open>The entry recorded \<open>i\<close> places before the newest one.\<close>

definition plt_recent :: "PacketLossTracker \<Rightarrow> nat \<Rightarrow> u16" where
  "plt_recent t i =
     pl_recentLosses t ! ((pl_recentLossIndex t + pl_maxRecentLosses t - 1 - i) mod pl_maxRecentLosses t)"

definition plt_wasRecentlyLost :: "u16 \<Rightarrow> PacketLossTracker \<Rightarrow> bool" where
  "plt_wasRecentlyLost seq t = list_ex (\<lambda>i. plt_recent t i = seq) [0..<pl_recentLossSize t]"

definition plt_updateLossWindow :: "nanos \<Rightarrow> PacketLossTracker \<Rightarrow> PacketLossTracker" where
  "plt_updateLossWindow now t =
     (let t = (if now - pl_lossWindowStart t > pl_lossWindowDuration t
               then t\<lparr>pl_lossWindowStart := now, pl_lossWindowPackets := 0, pl_lossWindowLosses := 0\<rparr>
               else t)
      in t\<lparr>pl_lossWindowPackets := pl_lossWindowPackets t + 1\<rparr>)"

definition plt_sequenceDistance :: "u16 \<Rightarrow> u16 \<Rightarrow> int" where
  "plt_sequenceDistance s1 s2 = sint (s1 - s2)"

definition plt_advance :: "u16 \<Rightarrow> int \<Rightarrow> PacketLossTracker \<Rightarrow> PacketLossTracker" where
  "plt_advance seq distance t =
     (let cycles = (if seq < pl_highestSeq t then pl_cycles t + 1 else pl_cycles t)
      in t\<lparr>pl_cycles := cycles, pl_highestSeq := seq,
           pl_extendedSeq := push_bit 16 (ucast cycles) OR ucast seq,
           pl_receivedPackets := pl_receivedPackets t + 1,
           pl_expectedPackets := pl_expectedPackets t + of_int distance,
           pl_currentLossStreak := 0\<rparr>)"

text \<open>\<^verbatim>\<open>ProcessSequence\<close> with its clock reading and the one of \<^verbatim>\<open>recordLoss\<close>.\<close>

definition plt_ProcessSequence ::
  "nanos \<Rightarrow> nanos \<Rightarrow> u16 \<Rightarrow> PacketLossTracker \<Rightarrow> PacketLossTracker \<times> (plt_error + unit)" where
  "plt_ProcessSequence now lossNow seq t =
     (if \<not> pl_initialized t then
        (t\<lparr>pl_initialized := True, pl_baseSeq := seq, pl_highestSeq := seq,
           pl_extendedSeq := ucast seq, pl_lastPacketTime := Some now,
           pl_receivedPackets := 1, pl_expectedPackets := 1\<rparr>, Inr ())
      else
        (let t = t\<lparr>pl_lastPacketTime := Some now\<rparr>;
             distance = plt_sequenceDistance seq (pl_highestSeq t)
         in if distance = 0 then (t, Inl (DuplicatePacket seq))
            else if distance > 0 \<and> distance < 32768 then
              (let t = (if distance > 1
                        then plt_recordLoss lossNow (pl_highestSeq t + 1) (seq - 1) (of_int (distance - 1)) t
                        else t)
               in (plt_updateLossWindow now (plt_advance seq distance t), Inr ()))
            else if distance < 0 \<and> distance > -100 then
              (let t = (if plt_wasRecentlyLost seq t
                        then t\<lparr>pl_recoveredPackets := pl_recoveredPackets t + 1\<rparr> else t);
                   t = t\<lparr>pl_receivedPackets := pl_receivedPackets t + 1\<rparr>
               in (plt_updateLossWindow now t, Inr ()))
            else (t, Inl (SequenceReset (pl_highestSeq t) seq distance))))"

definition plt_detectPacketLoss ::
  "nanos \<Rightarrow> nanos \<Rightarrow> u16 \<Rightarrow> PacketLossTracker \<Rightarrow> PacketLossTracker \<times> (plt_error + u16 list)" where
  "plt_detectPacketLoss now lossNow seq t =
     (case plt_ProcessSequence now lossNow seq t of
        (t, Inl e) \<Rightarrow> (t, Inl e)
      | (t, Inr _) \<Rightarrow>
          (t, Inr (if pl_recentLossSize t > 0 then
             (let start = int (pl_recentLossIndex t) - int (pl_recentLossSize t);
                  startIdx = nat (if start < 0 then start + int (pl_maxRecentLosses t) else start)
              in map (\<lambda>i. pl_recentLosses t ! ((startIdx + i) mod pl_maxRecentLosses t))
                   [0..<min (pl_recentLossSize t) 10])
             else [])))"

definition plt_GetStats :: "PacketLossTracker \<Rightarrow> RecoveryStats" where
  "plt_GetStats t =
     \<lparr>rs_TotalLost = pl_lostPackets t, rs_TotalRecovered = pl_recoveredPackets t,
      rs_UnrecoverableLoss = pl_lostPackets t - pl_recoveredPackets t,
      rs_CurrentLossRate = (if pl_lossWindowPackets t > 0
        then (pl_lossWindowLosses t, pl_lossWindowPackets t) else (0, 1)),
      rs_AverageLossRate = (if pl_expectedPackets t > 0
        then (pl_lostPackets t, pl_expectedPackets t) else (0, 1)),
      rs_MaxConsecutiveLoss = pl_maxConsecutiveLoss t, rs_LossEvents = pl_lossEvents t\<rparr>"

definition plt_GetLostPackets :: "int \<Rightarrow> PacketLossTracker \<Rightarrow> u16 list" where
  "plt_GetLostPackets maxCount t =
     (let count = (if int (pl_recentLossSize t) > maxCount then maxCount else int (pl_recentLossSize t))
      in map (plt_recent t) [0..<nat count])"

text \<open>\<^verbatim>\<open>Reset\<close> leaves the log's storage, the last packet and loss times and the configuration.\<close>

definition plt_Reset :: "nanos \<Rightarrow> PacketLossTracker \<Rightarrow> PacketLossTracker" where
  "plt_Reset now t =
     t\<lparr>pl_initialized := False, pl_highestSeq := 0, pl_baseSeq := 0, pl_cycles := 0,
       pl_extendedSeq := 0, pl_expectedPackets := 0, pl_receivedPackets := 0,
       pl_lostPackets := 0, pl_lossEvents := 0, pl_maxConsecutiveLoss := 0,
       pl_currentLossStreak := 0, pl_recoveredPackets := 0, pl_unrecoverableLoss := 0,
       pl_recentLossIndex := 0, pl_recentLossSize := 0, pl_lossWindowStart := now,
       pl_lossWindowPackets := 0, pl_lossWindowLosses := 0\<rparr>"

section \<open>The log as a list\<close>

definition plt_log :: "PacketLossTracker \<Rightarrow> u16 list" where
  "plt_log t = take (pl_recentLossSize t) (pl_recentLosses t)"

text \<open>The log fills from the front and is never drained.\<close>

definition plt_log_inv :: "PacketLossTracker \<Rightarrow> bool" where
  "plt_log_inv t \<longleftrightarrow> pl_maxRecentLosses t = 1000 \<and> length (pl_recentLosses t) = 1000 \<and>
     pl_recentLossSize t \<le> 1000 \<and> pl_recentLossIndex t = pl_recentLossSize t mod 1000"

text \<open>The numbers from \<open>s\<close> up to but not including \<open>e\<close>, in the order of the wrapping counter.\<close>

definition seq_range :: "u16 \<Rightarrow> u16 \<Rightarrow> u16 list" where
  "seq_range s e = map (\<lambda>i. s + of_nat i) [0..<unat (e - s)]"

lemma seq_range_empty [simp]: "seq_range s s = []"
  by (simp add: seq_range_def)

lemma seq_range_Cons: "s \<noteq> e \<Longrightarrow> seq_range s e = s # seq_range (s + 1) e"
proof -
  assume ne: "s \<noteq> e"
  define m where "m = unat (e - (s + 1))"
  have "unat (e - s) = Suc (unat (e - s - 1))"
    using unat_minus_one [of "e - s"] unat_gt_0 [of "e - s"] ne by simp
  moreover have "e - s - 1 = e - (s + 1)" by (simp add: algebra_simps)
  ultimately have n: "unat (e - s) = Suc m" unfolding m_def by (simp only:)
  have "map f [0..<Suc m] = f 0 # map (\<lambda>i. f (Suc i)) [0..<m]" for f :: "nat \<Rightarrow> u16"
    by (simp only: upt_conv_Cons [OF zero_less_Suc] list.map map_Suc_upt [symmetric] map_map o_def)
  then show "seq_range s e = s # seq_range (s + 1) e"
    unfolding seq_range_def n m_def [symmetric] by (simp add: ac_simps del: upt_Suc)
qed

lemma recent_log:
  assumes "plt_log_inv t" and "i < pl_recentLossSize t"
  shows "plt_recent t i = plt_log t ! (pl_recentLossSize t - 1 - i)"
proof -
  have "(pl_recentLossIndex t + 1000 - 1 - i) mod 1000 = pl_recentLossSize t - 1 - i"
    using assms by (cases "pl_recentLossSize t = 1000") (auto simp: plt_log_inv_def mod_if)
  then show ?thesis using assms by (simp add: plt_recent_def plt_log_def plt_log_inv_def)
qed

lemma record_loop_log:
  assumes "plt_log_inv t"
  shows "plt_log_inv (plt_record_loop seq stop t)"
    and "plt_log (plt_record_loop seq stop t) = take 1000 (plt_log t @ seq_range seq stop)"
proof -
  have "plt_log_inv (plt_record_loop seq stop t) \<and>
    plt_log (plt_record_loop seq stop t) = take 1000 (plt_log t @ seq_range seq stop)"
    using assms
  proof (induction seq stop t rule: plt_record_loop.induct)
    case (1 seq stop t)
    have len: "length (plt_log t) = pl_recentLossSize t" using "1.prems" by (simp add: plt_log_def plt_log_inv_def)
    show ?case
    proof (cases "seq \<noteq> stop \<and> pl_recentLossSize t < pl_maxRecentLosses t")
      case True
      let ?t = "t\<lparr>pl_recentLosses := (pl_recentLosses t)[pl_recentLossIndex t := seq],
             pl_recentLossIndex := (pl_recentLossIndex t + 1) mod pl_maxRecentLosses t,
             pl_recentLossSize := pl_recentLossSize t + 1\<rparr>"
      have inv: "plt_log_inv ?t" using "1.prems" True by (simp add: plt_log_inv_def mod_Suc)
      have log: "plt_log ?t = plt_log t @ [seq]"
        using "1.prems" True by (simp add: plt_log_def plt_log_inv_def take_Suc_conv_app_nth)
      have "plt_record_loop seq stop t = plt_record_loop (seq + 1) stop ?t"
        using True by (subst plt_record_loop.simps) simp
      moreover have "(plt_log t @ [seq]) @ seq_range (seq + 1) stop = plt_log t @ seq_range seq stop"
        using True by (simp add: seq_range_Cons)
      ultimately show ?thesis using "1.IH" [OF True inv] log by (simp only:)
    next
      case False
      then have "plt_record_loop seq stop t = t" by (subst plt_record_loop.simps) auto
      moreover have "plt_log t = take 1000 (plt_log t @ seq_range seq stop)"
        using False len "1.prems" by (cases "seq = stop") (auto simp: plt_log_inv_def)
      ultimately show ?thesis using "1.prems" by simp
    qed
  qed
  then show "plt_log_inv (plt_record_loop seq stop t)"
    "plt_log (plt_record_loop seq stop t) = take 1000 (plt_log t @ seq_range seq stop)" by auto
qed

text \<open>The loop writes nothing but the log.\<close>

lemma record_loop_frame:
  "plt_record_loop seq stop t =
     t\<lparr>pl_recentLosses := pl_recentLosses (plt_record_loop seq stop t),
       pl_recentLossIndex := pl_recentLossIndex (plt_record_loop seq stop t),
       pl_recentLossSize := pl_recentLossSize (plt_record_loop seq stop t)\<rparr>"
proof (induction seq stop t rule: plt_record_loop.induct)
  case (1 seq stop t)
  show ?case
  proof (cases "seq \<noteq> stop \<and> pl_recentLossSize t < pl_maxRecentLosses t")
    case True
    define t' where "t' = plt_record_loop (seq + 1) stop (t\<lparr>pl_recentLosses := (pl_recentLosses t)[pl_recentLossIndex t := seq],
             pl_recentLossIndex := (pl_recentLossIndex t + 1) mod pl_maxRecentLosses t,
             pl_recentLossSize := pl_recentLossSize t + 1\<rparr>)"
    have "plt_record_loop seq stop t = t'" using True by (subst plt_record_loop.simps) (simp add: t'_def)
    then show ?thesis using "1.IH" [OF True, folded t'_def] by simp
  next
    case False
    then have "plt_record_loop seq stop t = t" by (subst plt_record_loop.simps) auto
    then show ?thesis by simp
  qed
qed

lemma record_loop_fields [simp]:
  "pl_initialized (plt_record_loop a b t) = pl_initialized t"
  "pl_highestSeq (plt_record_loop a b t) = pl_highestSeq t"
  "pl_baseSeq (plt_record_loop a b t) = pl_baseSeq t"
  "pl_cycles (plt_record_loop a b t) = pl_cycles t"
  "pl_extendedSeq (plt_record_loop a b t) = pl_extendedSeq t"
  "pl_expectedPackets (plt_record_loop a b t) = pl_expectedPackets t"
  "pl_receivedPackets (plt_record_loop a b t) = pl_receivedPackets t"
  "pl_lostPackets (plt_record_loop a b t) = pl_lostPackets t"
  "pl_recoveredPackets (plt_record_loop a b t) = pl_recoveredPackets t"
  by (subst record_loop_frame, simp)+

lemma log_frame [simp]:
  "plt_log (plt_updateLossWindow now t) = plt_log t"
  "plt_log (plt_advance seq d t) = plt_log t"
  "plt_log_inv (plt_updateLossWindow now t) = plt_log_inv t"
  "plt_log_inv (plt_advance seq d t) = plt_log_inv t"
  by (simp_all add: plt_log_def plt_log_inv_def plt_updateLossWindow_def plt_advance_def Let_def)

lemma recordLoss_log:
  assumes "plt_log_inv t"
  shows "plt_log_inv (plt_recordLoss now a b c t)"
    and "plt_log (plt_recordLoss now a b c t) = take 1000 (plt_log t @ seq_range a (b + 1))"
proof -
  define t1 where "t1 = t\<lparr>pl_lostPackets := pl_lostPackets t + c, pl_lossEvents := pl_lossEvents t + 1,
      pl_lastLossTime := Some now, pl_lossWindowLosses := pl_lossWindowLosses t + c,
      pl_currentLossStreak := pl_currentLossStreak t + ucast c,
      pl_maxConsecutiveLoss := (if pl_currentLossStreak t + ucast c > pl_maxConsecutiveLoss t
         then pl_currentLossStreak t + ucast c else pl_maxConsecutiveLoss t)\<rparr>"
  have "plt_log_inv t1" "plt_log t1 = plt_log t" using assms by (simp_all add: t1_def plt_log_inv_def plt_log_def)
  moreover have "plt_recordLoss now a b c t = plt_record_loop a (b + 1) t1"
    by (simp add: plt_recordLoss_def Let_def t1_def)
  ultimately show "plt_log_inv (plt_recordLoss now a b c t)"
    "plt_log (plt_recordLoss now a b c t) = take 1000 (plt_log t @ seq_range a (b + 1))"
    using record_loop_log [of t1 a "b + 1"] by simp_all
qed

lemma wasRecentlyLost_iff:
  assumes "plt_log_inv t"
  shows "plt_wasRecentlyLost seq t \<longleftrightarrow> seq \<in> set (plt_log t)"
proof -
  have len: "length (plt_log t) = pl_recentLossSize t" using assms by (simp add: plt_log_def plt_log_inv_def)
  have "(\<exists>i < pl_recentLossSize t. plt_recent t i = seq) \<longleftrightarrow> (\<exists>j < pl_recentLossSize t. plt_log t ! j = seq)"
  proof
    assume "\<exists>i < pl_recentLossSize t. plt_recent t i = seq"
    then obtain i where "i < pl_recentLossSize t" "plt_recent t i = seq" by blast
    then show "\<exists>j < pl_recentLossSize t. plt_log t ! j = seq"
      using recent_log [OF assms] by (intro exI [of _ "pl_recentLossSize t - 1 - i"]) auto
  next
    assume "\<exists>j < pl_recentLossSize t. plt_log t ! j = seq"
    then obtain j where "j < pl_recentLossSize t" "plt_log t ! j = seq" by blast
    then show "\<exists>i < pl_recentLossSize t. plt_recent t i = seq"
      using recent_log [OF assms, of "pl_recentLossSize t - 1 - j"]
      by (intro exI [of _ "pl_recentLossSize t - 1 - j"]) auto
  qed
  then show ?thesis by (auto simp: plt_wasRecentlyLost_def list_ex_iff in_set_conv_nth len)
qed

section \<open>Extended sequence numbers\<close>

lemma ext_value: "unat (push_bit 16 (ucast (c::u32) :: u64) OR ucast (h::u16)) = 65536 * unat c + unat h"
proof -
  have b: "unat h < 65536" "unat c < 4294967296"
    using unsigned_less [of h, where ?'a = nat] unsigned_less [of c, where ?'a = nat] by simp_all
  then have c: "unat (ucast c :: u64) = unat c" and h: "unat (ucast h :: u64) = unat h"
    by (simp_all add: unsigned_ucast_eq take_bit_nat_eq_self)
  have "unat ((ucast h :: u64) OR push_bit 16 (ucast c)) = unat (ucast h :: u64) + 2 ^ 16 * unat (ucast c :: u64)"
    by (rule unat_or_push_bit) (use b in \<open>simp_all add: c h\<close>)
  then show ?thesis by (simp add: c h or.commute)
qed

lemma wrap_iff:
  assumes "unat (seq - h) < 32768"
  shows "seq < h \<longleftrightarrow> 65536 \<le> unat h + unat (seq - h :: u16)"
    and "unat seq = (if seq < h then unat h + unat (seq - h) - 65536 else unat h + unat (seq - h))"
proof -
  have h: "unat h < 65536" using unsigned_less [of h, where ?'a = nat] by simp
  have "unat seq = (unat h + unat (seq - h)) mod 65536" by (rule unat_offset)
  then have s: "unat seq = (if unat h + unat (seq - h) < 65536 then unat h + unat (seq - h)
    else unat h + unat (seq - h) - 65536)" using h assms by (simp add: mod_if)
  then show *: "seq < h \<longleftrightarrow> 65536 \<le> unat h + unat (seq - h)"
    unfolding word_less_nat_alt using h assms by (auto split: if_splits)
  show "unat seq = (if seq < h then unat h + unat (seq - h) - 65536 else unat h + unat (seq - h))"
    using s unfolding * by (simp split: if_splits)
qed

abbreviation ext_modulus :: nat where
  "ext_modulus \<equiv> 281474976710656"

lemma ext_step:
  assumes "unat (seq - h :: u16) < 32768"
  shows "(65536 * unat (if seq < h then c + 1 else (c::u32)) + unat seq) mod ext_modulus =
     (65536 * unat c + unat h + unat (seq - h)) mod ext_modulus"
proof (cases "seq < h")
  case True
  have le: "65536 \<le> unat h + unat (seq - h)" using wrap_iff(1) [OF assms] True by simp
  have "unat (c + 1) = (unat c + 1) mod 4294967296" using unat_word_ariths(1) [of c 1] by simp
  then have "(65536 * unat (c + 1)) mod ext_modulus = (65536 * (unat c + 1)) mod ext_modulus"
    using mult_mod_right [of 65536 "unat c + 1" 4294967296] by simp
  then have "(65536 * unat (c + 1) + unat seq) mod ext_modulus = (65536 * (unat c + 1) + unat seq) mod ext_modulus"
    by (rule mod_add_cong) simp
  also have "65536 * (unat c + 1) + unat seq = 65536 * unat c + unat h + unat (seq - h)"
    using wrap_iff(2) [OF assms] True le by simp
  finally show ?thesis using True by simp
next
  case False
  then show ?thesis using wrap_iff(2) [OF assms] by (simp add: add.assoc)
qed

definition plt_seq_inv :: "PacketLossTracker \<Rightarrow> bool" where
  "plt_seq_inv t \<longleftrightarrow> (pl_initialized t \<longrightarrow>
       unat (pl_extendedSeq t) = 65536 * unat (pl_cycles t) + unat (pl_highestSeq t) \<and>
       (unat (pl_baseSeq t) + unat (pl_expectedPackets t)) mod ext_modulus =
         (unat (pl_extendedSeq t) + 1) mod ext_modulus) \<and>
     (\<not> pl_initialized t \<longrightarrow> pl_cycles t = 0)"

lemma window_frame [simp]:
  "pl_initialized (plt_updateLossWindow now t) = pl_initialized t"
  "pl_highestSeq (plt_updateLossWindow now t) = pl_highestSeq t"
  "pl_baseSeq (plt_updateLossWindow now t) = pl_baseSeq t"
  "pl_cycles (plt_updateLossWindow now t) = pl_cycles t"
  "pl_extendedSeq (plt_updateLossWindow now t) = pl_extendedSeq t"
  "pl_expectedPackets (plt_updateLossWindow now t) = pl_expectedPackets t"
  "pl_receivedPackets (plt_updateLossWindow now t) = pl_receivedPackets t"
  "pl_lostPackets (plt_updateLossWindow now t) = pl_lostPackets t"
  "pl_recoveredPackets (plt_updateLossWindow now t) = pl_recoveredPackets t"
  by (simp_all add: plt_updateLossWindow_def Let_def)

lemma recordLoss_fields [simp]:
  "pl_initialized (plt_recordLoss now a b c t) = pl_initialized t"
  "pl_highestSeq (plt_recordLoss now a b c t) = pl_highestSeq t"
  "pl_baseSeq (plt_recordLoss now a b c t) = pl_baseSeq t"
  "pl_cycles (plt_recordLoss now a b c t) = pl_cycles t"
  "pl_extendedSeq (plt_recordLoss now a b c t) = pl_extendedSeq t"
  "pl_expectedPackets (plt_recordLoss now a b c t) = pl_expectedPackets t"
  "pl_receivedPackets (plt_recordLoss now a b c t) = pl_receivedPackets t"
  "pl_lostPackets (plt_recordLoss now a b c t) = pl_lostPackets t + c"
  by (simp_all add: plt_recordLoss_def Let_def)

lemma forward_distance:
  assumes "0 < plt_sequenceDistance seq h"
  shows "plt_sequenceDistance seq h = int (unat (seq - h))" and "unat (seq - h) < 32768"
    and "plt_sequenceDistance seq h < 32768"
proof -
  have "uint (seq - h) < 32768"
    using assms sint16 [of "seq - h"] unsigned_less [of "seq - h", where ?'a = int]
    by (simp add: plt_sequenceDistance_def split: if_splits)
  then show "plt_sequenceDistance seq h = int (unat (seq - h))" "unat (seq - h) < 32768"
    "plt_sequenceDistance seq h < 32768"
    using sint16 [of "seq - h"] nat_less_iff [of "uint (seq - h)" 32768]
    unfolding plt_sequenceDistance_def unat_eq_nat_uint by simp_all
qed

lemma advance_fields:
  "pl_initialized (plt_advance seq d t) = pl_initialized t"
  "pl_receivedPackets (plt_advance seq d t) = pl_receivedPackets t + 1"
  "pl_expectedPackets (plt_advance seq d t) = pl_expectedPackets t + of_int d"
  "pl_lostPackets (plt_advance seq d t) = pl_lostPackets t"
  by (simp_all add: plt_advance_def Let_def)

lemma advance_seq_inv:
  assumes "plt_seq_inv t" and "pl_initialized t" and "0 < plt_sequenceDistance seq (pl_highestSeq t)"
  shows "plt_seq_inv (plt_advance seq (plt_sequenceDistance seq (pl_highestSeq t)) t)"
proof -
  let ?h = "pl_highestSeq t"
  define d where "d = unat (seq - ?h)"
  note fd = forward_distance [OF assms(3)]
  define c where "c = (if seq < ?h then pl_cycles t + 1 else pl_cycles t)"
  have ext: "unat (push_bit 16 (ucast c) OR ucast seq :: u64) = 65536 * unat c + unat seq" by (rule ext_value)
  have e: "unat (pl_expectedPackets t + of_nat d) mod ext_modulus = (unat (pl_expectedPackets t) + d) mod ext_modulus"
  proof -
    have "d < 2 ^ 64" using fd(2) by (simp add: d_def)
    then have "unat (of_nat d :: u64) = d" by (simp add: unat_of_nat take_bit_nat_eq_self)
    then have "unat (pl_expectedPackets t + of_nat d) = (unat (pl_expectedPackets t) + d) mod 2 ^ 64"
      using unat_word_ariths(1) [of "pl_expectedPackets t" "of_nat d"] by simp
    then show ?thesis by (simp add: mod_mod_cancel)
  qed
  have "(65536 * unat c + unat seq) mod ext_modulus = (unat (pl_extendedSeq t) + d) mod ext_modulus"
    using ext_step [OF fd(2), of "pl_cycles t"] assms(1,2) unfolding c_def d_def plt_seq_inv_def by simp
  then have "(65536 * unat c + unat seq + 1) mod ext_modulus = (unat (pl_extendedSeq t) + d + 1) mod ext_modulus"
    by (rule mod_add_cong) simp
  also have "\<dots> = (unat (pl_extendedSeq t) + 1 + d) mod ext_modulus" by (simp add: ac_simps)
  also have "\<dots> = (unat (pl_baseSeq t) + unat (pl_expectedPackets t) + d) mod ext_modulus"
    by (rule mod_add_cong [OF _ refl]) (use assms(1,2) in \<open>simp add: plt_seq_inv_def\<close>)
  also have "\<dots> = (unat (pl_baseSeq t) + unat (pl_expectedPackets t + of_nat d)) mod ext_modulus"
    using mod_add_cong [OF refl e, of "unat (pl_baseSeq t)"] by (simp add: add.assoc)
  finally have x: "(65536 * unat c + unat seq + 1) mod ext_modulus =
    (unat (pl_baseSeq t) + unat (pl_expectedPackets t + of_nat d)) mod ext_modulus" .
  have "plt_advance seq (plt_sequenceDistance seq ?h) t = t\<lparr>pl_cycles := c, pl_highestSeq := seq,
       pl_extendedSeq := push_bit 16 (ucast c) OR ucast seq, pl_receivedPackets := pl_receivedPackets t + 1,
       pl_expectedPackets := pl_expectedPackets t + of_nat d, pl_currentLossStreak := 0\<rparr>"
    by (simp add: plt_advance_def Let_def c_def fd(1) d_def)
  then show ?thesis using assms(2) x by (simp add: plt_seq_inv_def ext)
qed

section \<open>Calls and sequences of calls\<close>

text \<open>A packet that arrives after a later one, within the window in which it may recover a loss.\<close>

definition plt_reordered :: "u16 \<Rightarrow> PacketLossTracker \<Rightarrow> bool" where
  "plt_reordered seq t \<longleftrightarrow> pl_initialized t \<and>
     plt_sequenceDistance seq (pl_highestSeq t) < 0 \<and> plt_sequenceDistance seq (pl_highestSeq t) > -100"

definition plt_forward :: "u16 \<Rightarrow> PacketLossTracker \<Rightarrow> bool" where
  "plt_forward seq t \<longleftrightarrow> pl_initialized t \<and> 0 < plt_sequenceDistance seq (pl_highestSeq t)"

text \<open>The state of \<^verbatim>\<open>ProcessSequence\<close> after the gap before a packet is recorded.\<close>

definition plt_gap :: "nanos \<Rightarrow> nanos \<Rightarrow> u16 \<Rightarrow> PacketLossTracker \<Rightarrow> PacketLossTracker" where
  "plt_gap now lossNow seq t =
     (let t = t\<lparr>pl_lastPacketTime := Some now\<rparr>;
          distance = plt_sequenceDistance seq (pl_highestSeq t)
      in if distance > 1
         then plt_recordLoss lossNow (pl_highestSeq t + 1) (seq - 1) (of_int (distance - 1)) t else t)"

lemma process_forward:
  assumes "plt_forward seq t"
  shows "plt_ProcessSequence now lossNow seq t =
     (plt_updateLossWindow now
        (plt_advance seq (plt_sequenceDistance seq (pl_highestSeq t)) (plt_gap now lossNow seq t)), Inr ())"
  using assms forward_distance(3) [of seq "pl_highestSeq t"]
  by (simp add: plt_ProcessSequence_def plt_forward_def plt_gap_def Let_def)

lemma gap_fields [simp]:
  "pl_initialized (plt_gap now ln seq t) = pl_initialized t"
  "pl_highestSeq (plt_gap now ln seq t) = pl_highestSeq t"
  "pl_baseSeq (plt_gap now ln seq t) = pl_baseSeq t"
  "pl_cycles (plt_gap now ln seq t) = pl_cycles t"
  "pl_extendedSeq (plt_gap now ln seq t) = pl_extendedSeq t"
  "pl_expectedPackets (plt_gap now ln seq t) = pl_expectedPackets t"
  "pl_receivedPackets (plt_gap now ln seq t) = pl_receivedPackets t"
  by (simp_all add: plt_gap_def Let_def)

lemma distance_one:
  "plt_forward seq t \<Longrightarrow> \<not> 1 < plt_sequenceDistance seq (pl_highestSeq t) \<Longrightarrow>
   plt_sequenceDistance seq (pl_highestSeq t) = 1"
  by (simp add: plt_forward_def)

lemma gap_lost:
  assumes "plt_forward seq t"
  shows "pl_lostPackets (plt_gap now ln seq t) =
     pl_lostPackets t + of_int (plt_sequenceDistance seq (pl_highestSeq t)) - 1"
proof (cases "1 < plt_sequenceDistance seq (pl_highestSeq t)")
  case False
  then show ?thesis using distance_one [OF assms False] by (simp add: plt_gap_def Let_def)
qed (simp add: plt_gap_def Let_def)

lemma log_inv_time [simp]:
  "plt_log_inv (t\<lparr>pl_lastPacketTime := x\<rparr>) = plt_log_inv t" "plt_log (t\<lparr>pl_lastPacketTime := x\<rparr>) = plt_log t"
  by (simp_all add: plt_log_inv_def plt_log_def)

lemma gap_log:
  assumes "plt_log_inv t" and "plt_forward seq t"
  shows "plt_log_inv (plt_gap now ln seq t)"
    and "plt_log (plt_gap now ln seq t) = take 1000 (plt_log t @ seq_range (pl_highestSeq t + 1) seq)"
proof -
  let ?h = "pl_highestSeq t"
  have len: "length (plt_log t) \<le> 1000" using assms(1) by (simp add: plt_log_def plt_log_inv_def)
  show "plt_log_inv (plt_gap now ln seq t)"
    using assms(1) recordLoss_log(1) by (simp add: plt_gap_def Let_def)
  show "plt_log (plt_gap now ln seq t) = take 1000 (plt_log t @ seq_range (?h + 1) seq)"
  proof (cases "plt_sequenceDistance seq ?h > 1")
    case True
    then show ?thesis
      using assms(1) recordLoss_log(2) [of "t\<lparr>pl_lastPacketTime := Some now\<rparr>"] by (simp add: plt_gap_def Let_def)
  next
    case False
    then have "unat (seq - ?h) = 1"
      using distance_one [OF assms(2) False] forward_distance(1) [of seq ?h] assms(2)
      unfolding plt_forward_def by linarith
    then have "unat (seq - ?h) = unat (1 :: u16)" by simp
    then have "seq - ?h = 1" by (rule unsigned_word_eqI)
    then have "seq = ?h + 1" by (simp add: diff_eq_eq add.commute)
    then show ?thesis using False len by (simp add: plt_gap_def Let_def)
  qed
qed

lemma process_other:
  assumes "\<not> plt_forward seq t" and "pl_initialized t"
  shows "\<exists>k. fst (plt_ProcessSequence now ln seq t) =
      (if plt_reordered seq t then plt_updateLossWindow now
         (t\<lparr>pl_lastPacketTime := Some now, pl_recoveredPackets := pl_recoveredPackets t + k,
            pl_receivedPackets := pl_receivedPackets t + 1\<rparr>)
       else t\<lparr>pl_lastPacketTime := Some now\<rparr>)"
proof -
  have "fst (plt_ProcessSequence now ln seq t) =
      (if plt_reordered seq t then plt_updateLossWindow now
         (t\<lparr>pl_lastPacketTime := Some now,
            pl_recoveredPackets := pl_recoveredPackets t +
              (if plt_wasRecentlyLost seq (t\<lparr>pl_lastPacketTime := Some now\<rparr>) then 1 else 0),
            pl_receivedPackets := pl_receivedPackets t + 1\<rparr>)
       else t\<lparr>pl_lastPacketTime := Some now\<rparr>)"
    using assms by (auto simp: plt_ProcessSequence_def plt_forward_def plt_reordered_def Let_def)
  then show ?thesis by blast
qed

definition plt_inv :: "PacketLossTracker \<Rightarrow> nat \<Rightarrow> bool" where
  "plt_inv t reordered \<longleftrightarrow> plt_seq_inv t \<and> plt_log_inv t \<and>
     pl_receivedPackets t + pl_lostPackets t = pl_expectedPackets t + of_nat reordered \<and>
     (\<not> pl_initialized t \<longrightarrow> pl_lostPackets t = 0 \<and> reordered = 0)"

lemma process_inv:
  assumes "plt_inv t n"
  shows "plt_inv (fst (plt_ProcessSequence now ln seq t)) (n + (if plt_reordered seq t then 1 else 0))"
proof -
  consider (first) "\<not> pl_initialized t" | (forward) "plt_forward seq t"
    | (other) "pl_initialized t" "\<not> plt_forward seq t" by blast
  then show ?thesis
  proof cases
    case first
    moreover have "unat (ucast seq :: u64) = unat seq"
      using ext_value [of 0 seq] by simp
    ultimately show ?thesis using assms
      by (simp add: plt_inv_def plt_seq_inv_def plt_log_inv_def plt_ProcessSequence_def plt_reordered_def)
  next
    case forward
    let ?d = "plt_sequenceDistance seq (pl_highestSeq t)" and ?g = "plt_gap now ln seq t"
    have "plt_seq_inv ?g" using assms by (simp add: plt_inv_def plt_seq_inv_def)
    then have "plt_seq_inv (plt_advance seq ?d ?g)"
      using advance_seq_inv [of ?g seq] forward by (simp add: plt_forward_def)
    then have "plt_seq_inv (plt_updateLossWindow now (plt_advance seq ?d ?g))" by (simp add: plt_seq_inv_def)
    moreover have "\<not> plt_reordered seq t" using forward by (simp add: plt_forward_def plt_reordered_def)
    moreover have "pl_receivedPackets t + 1 + (pl_lostPackets t + of_int ?d - 1) =
        pl_expectedPackets t + of_int ?d + of_nat n"
    proof -
      have "pl_receivedPackets t + 1 + (pl_lostPackets t + of_int ?d - 1) =
          pl_receivedPackets t + pl_lostPackets t + of_int ?d" by (simp add: algebra_simps)
      also have "pl_receivedPackets t + pl_lostPackets t = pl_expectedPackets t + of_nat n"
        using assms by (simp add: plt_inv_def)
      finally show ?thesis by (simp add: ac_simps)
    qed
    ultimately show ?thesis using assms forward gap_log(1) [OF _ forward, of now ln]
      unfolding process_forward [OF forward] fst_conv plt_inv_def
      by (simp add: advance_fields gap_lost plt_forward_def)
  next
    case other
    obtain k where k: "fst (plt_ProcessSequence now ln seq t) =
      (if plt_reordered seq t then plt_updateLossWindow now
         (t\<lparr>pl_lastPacketTime := Some now, pl_recoveredPackets := pl_recoveredPackets t + k,
            pl_receivedPackets := pl_receivedPackets t + 1\<rparr>)
       else t\<lparr>pl_lastPacketTime := Some now\<rparr>)" using process_other [OF other(2,1)] by blast
    show ?thesis unfolding k using assms other(1)
      by (simp add: plt_inv_def plt_seq_inv_def plt_log_inv_def plt_updateLossWindow_def Let_def ac_simps)
  qed
qed

text \<open>A sequence of packets, each with the two clock readings of its call; the second component
  counts the reordered packets.\<close>

fun plt_run :: "(nanos \<times> nanos \<times> u16) list \<Rightarrow> PacketLossTracker \<times> nat \<Rightarrow> PacketLossTracker \<times> nat" where
  "plt_run [] (t, n) = (t, n)"
| "plt_run ((now, ln, seq) # ps) (t, n) =
     plt_run ps (fst (plt_ProcessSequence now ln seq t), n + (if plt_reordered seq t then 1 else 0))"

lemma run_plt_inv: "plt_inv t n \<Longrightarrow> plt_run ps (t, n) = (t', n') \<Longrightarrow> plt_inv t' n'"
proof (induction ps arbitrary: t n)
  case (Cons p ps)
  obtain now ln seq where p: "p = (now, ln, seq)" by (cases p)
  show ?case using Cons.IH [OF process_inv [OF Cons.prems(1), of now ln seq]] Cons.prems(2) by (simp add: p)
qed simp

lemma new_plt_inv: "plt_inv (NewPacketLossTracker now) 0"
  by (simp add: plt_inv_def plt_seq_inv_def plt_log_inv_def NewPacketLossTracker_def)

lemma reset_plt_inv: "plt_inv t n \<Longrightarrow> plt_inv (plt_Reset now t) 0"
  by (simp add: plt_inv_def plt_seq_inv_def plt_log_inv_def plt_Reset_def)

section \<open>Properties\<close>

text \<open>After any sequence of packets the tracker's extended sequence number is the number of
  wraps times 65536 plus the highest sequence number, the expected packets are the distance of
  the extended number from the first one plus one (as in RFC 3550, modulo the 48 bits of the extended
  number), and received plus lost packets are the expected plus the reordered ones.\<close>

theorem loss_tracker_accounts:
  assumes "plt_run ps (NewPacketLossTracker now, 0) = (t, reordered)" and "pl_initialized t"
  shows "unat (pl_extendedSeq t) = 65536 * unat (pl_cycles t) + unat (pl_highestSeq t) \<and>
     (unat (pl_baseSeq t) + unat (pl_expectedPackets t)) mod 2 ^ 48 = (unat (pl_extendedSeq t) + 1) mod 2 ^ 48 \<and>
     pl_receivedPackets t + pl_lostPackets t = pl_expectedPackets t + of_nat reordered"
  using run_plt_inv [OF new_plt_inv assms(1)] assms(2) by (simp add: plt_inv_def plt_seq_inv_def)

text \<open>Sequence numbers 65534, 1 and 0: one wrap, packets 65535 and 0 missing, 0 arrives late.\<close>

definition sample_arrivals :: "(nanos \<times> nanos \<times> u16) list" where
  "sample_arrivals = [(0, 0, 65534), (1, 1, 1), (2, 2, 0)]"

lemma sample_arrivals_state:
  "pl_initialized (fst (plt_run sample_arrivals (NewPacketLossTracker 0, 0)))"
  "pl_lostPackets (fst (plt_run sample_arrivals (NewPacketLossTracker 0, 0))) = 2"
  by (simp_all add: sample_arrivals_def NewPacketLossTracker_def plt_ProcessSequence_def Let_def
      plt_sequenceDistance_def plt_updateLossWindow_def plt_advance_def)

theorem loss_tracker_accounts_witness:
  "\<exists>t n. plt_run sample_arrivals (NewPacketLossTracker 0, 0) = (t, n) \<and> pl_lostPackets t = 2 \<and>
     pl_receivedPackets t + 2 = pl_expectedPackets t + of_nat n"
proof -
  obtain t n where r: "plt_run sample_arrivals (NewPacketLossTracker 0, 0) = (t, n)" by (metis surj_pair)
  then have "pl_initialized t" "pl_lostPackets t = 2" using sample_arrivals_state by simp_all
  then show ?thesis using loss_tracker_accounts [OF r] r by auto
qed

text \<open>C0: When a packet advances the stream, the tracker appends exactly the skipped sequence numbers, in
  order and across the wrap, to its log, up to the capacity of 1000 entries; \<^verbatim>\<open>wasRecentlyLost\<close>
  then recognises exactly the logged numbers.\<close>

theorem loss_log_records_gap:
  assumes "plt_run ps (NewPacketLossTracker now0, 0) = (t, n)" and "plt_forward seq t"
  shows "let t' = fst (plt_ProcessSequence now lossNow seq t) in
     plt_log t' = take 1000 (plt_log t @ seq_range (pl_highestSeq t + 1) seq) \<and>
     (\<forall>s. plt_wasRecentlyLost s t' \<longleftrightarrow> s \<in> set (plt_log t'))"
proof -
  have inv: "plt_log_inv t" using run_plt_inv [OF new_plt_inv assms(1)] by (simp add: plt_inv_def)
  note g = gap_log [OF inv assms(2), of now lossNow]
  show ?thesis
    unfolding process_forward [OF assms(2)] Let_def fst_conv log_frame g(2)
    by (simp add: wasRecentlyLost_iff g)
qed

theorem loss_log_records_gap_witness:
  "plt_log (fst (plt_ProcessSequence 1 1 1 (fst (plt_ProcessSequence 0 0 65534 (NewPacketLossTracker 0))))) = [65535, 0]"
proof -
  define t where "t = fst (plt_ProcessSequence 0 0 65534 (NewPacketLossTracker 0))"
  have t: "pl_initialized t" "pl_highestSeq t = 65534" "pl_recentLossSize t = 0"
    by (simp_all add: t_def plt_ProcessSequence_def NewPacketLossTracker_def)
  have r: "plt_run [(0, 0, 65534)] (NewPacketLossTracker 0, 0) = (t, 0)"
    by (simp add: t_def plt_reordered_def NewPacketLossTracker_def)
  have f: "plt_forward 1 t" using t by (simp add: plt_forward_def plt_sequenceDistance_def)
  have "seq_range 65535 1 = 65535 # seq_range (65535 + 1) 1" by (rule seq_range_Cons) simp
  also have "65535 + 1 = (0 :: u16)" by simp
  also have "seq_range 0 1 = 0 # seq_range (0 + 1) 1" by (rule seq_range_Cons) simp
  finally have "seq_range 65535 1 = [65535, 0]" by simp
  then show ?thesis
    using loss_log_records_gap [OF r f, of 1 1] t by (simp add: Let_def plt_log_def t_def [symmetric])
qed

text \<open>The log of recent losses is never drained: once it holds 1000 numbers, no later loss is
  recorded, so no packet lost after that is recognised when it arrives late.\<close>

theorem full_loss_log_is_frozen:
  assumes "plt_log_inv t" and "pl_recentLossSize t = 1000"
  shows "plt_log (fst (plt_ProcessSequence now lossNow seq t)) = plt_log t"
proof -
  have len: "length (plt_log t) = 1000" using assms by (simp add: plt_log_def plt_log_inv_def)
  consider "\<not> pl_initialized t" | "plt_forward seq t" | "pl_initialized t" "\<not> plt_forward seq t" by blast
  then show ?thesis
  proof cases
    case 1
    then show ?thesis by (simp add: plt_ProcessSequence_def plt_log_def)
  next
    case 2
    then show ?thesis using gap_log(2) [OF assms(1) 2, of now lossNow] len by (simp add: process_forward)
  next
    case 3
    then show ?thesis using process_other [OF 3(2,1), of now lossNow]
      by (auto simp: plt_log_def plt_updateLossWindow_def Let_def)
  qed
qed

theorem full_loss_log_is_frozen_witness:
  "plt_log (fst (plt_ProcessSequence 0 0 9 ((NewPacketLossTracker 0)\<lparr>pl_recentLossSize := 1000\<rparr>))) = replicate 1000 0"
proof -
  let ?t = "(NewPacketLossTracker 0)\<lparr>pl_recentLossSize := 1000\<rparr>"
  have "plt_log_inv ?t" "pl_recentLossSize ?t = 1000" by (simp_all add: plt_log_inv_def NewPacketLossTracker_def)
  from full_loss_log_is_frozen [OF this, of 0 0 9] show ?thesis
    by (simp add: plt_log_def NewPacketLossTracker_def)
qed

text \<open>A lost packet that arrives late twice is counted as recovered twice: after 1, 3, 2, 2 one packet
  was lost, two are recovered, and \<^verbatim>\<open>UnrecoverableLoss\<close> wraps around to the largest 64-bit number.\<close>

theorem duplicate_recovery_wraps:
  "let st = plt_GetStats (fst (plt_run [(0, 0, 1), (1, 1, 3), (2, 2, 2), (3, 3, 2)] (NewPacketLossTracker 0, 0)))
   in rs_TotalLost st = 1 \<and> rs_TotalRecovered st = 2 \<and> rs_UnrecoverableLoss st = - 1"
  by (simp add: NewPacketLossTracker_def plt_ProcessSequence_def Let_def plt_sequenceDistance_def
      plt_updateLossWindow_def plt_advance_def plt_recordLoss_def plt_record_loop.simps
      plt_wasRecentlyLost_def plt_recent_def plt_GetStats_def second_def)

text \<open>\<^verbatim>\<open>detectPacketLoss\<close> returns the ten oldest entries of the log, where its comment announces the ten
  most recent ones and only newly detected losses.\<close>

theorem detect_returns_oldest:
  assumes "plt_inv t n" and "plt_detectPacketLoss now lossNow seq t = (t', Inr xs)"
  shows "xs = take 10 (plt_log t')"
proof -
  have t': "t' = fst (plt_ProcessSequence now lossNow seq t)"
    using assms(2) by (auto simp: plt_detectPacketLoss_def split: prod.splits sum.splits)
  have inv: "plt_log_inv t'" using process_inv [OF assms(1), of now lossNow seq] by (simp add: plt_inv_def t')
  let ?n = "pl_recentLossSize t'"
  define start where "start = int (pl_recentLossIndex t') - int ?n"
  have st: "nat (if start < 0 then start + int (pl_maxRecentLosses t') else start) = 0"
    using inv by (cases "?n = 1000") (auto simp: start_def plt_log_inv_def)
  have p: "plt_ProcessSequence now lossNow seq t = (t', Inr ())"
    using assms(2) by (auto simp: plt_detectPacketLoss_def split: prod.splits sum.splits)
  have "xs = (if ?n > 0 then map (\<lambda>i. pl_recentLosses t' !
      ((nat (if start < 0 then start + int (pl_maxRecentLosses t') else start) + i) mod pl_maxRecentLosses t'))
      [0..<min ?n 10] else [])"
    using assms(2) unfolding plt_detectPacketLoss_def p start_def Let_def by (simp split: if_splits)
  then have xs: "xs = (if ?n > 0 then map (\<lambda>i. pl_recentLosses t' ! (i mod pl_maxRecentLosses t')) [0..<min ?n 10] else [])"
    unfolding st by simp
  show ?thesis using inv unfolding xs
    by (intro nth_equalityI) (auto simp: plt_log_def plt_log_inv_def)
qed

theorem detect_returns_oldest_witness:
  "snd (plt_detectPacketLoss 1 1 3 (fst (plt_ProcessSequence 0 0 1 (NewPacketLossTracker 0)))) = Inr [2]"
proof -
  define t where "t = fst (plt_ProcessSequence 0 0 1 (NewPacketLossTracker 0))"
  have t: "plt_inv t 0"
    using process_inv [OF new_plt_inv, of 0 0 1 0] by (simp add: t_def plt_reordered_def NewPacketLossTracker_def)
  have f: "plt_forward 3 t"
    by (simp add: t_def plt_forward_def plt_ProcessSequence_def NewPacketLossTracker_def plt_sequenceDistance_def)
  obtain t' where p: "plt_ProcessSequence 1 1 3 t = (t', Inr ())" using process_forward [OF f] by blast
  then obtain xs where d: "plt_detectPacketLoss 1 1 3 t = (t', Inr xs)" by (simp add: plt_detectPacketLoss_def)
  have e: "pl_highestSeq t = 1" "plt_log t = []"
    by (simp_all add: t_def plt_ProcessSequence_def NewPacketLossTracker_def plt_log_def)
  have "t' = plt_updateLossWindow 1 (plt_advance 3 (plt_sequenceDistance 3 1) (plt_gap 1 1 3 t))"
    using process_forward [OF f, of 1 1] p by (simp add: e)
  then have "plt_log t' = take 1000 (seq_range (1 + 1) 3)"
    using gap_log(2) [OF _ f, of 1 1] t by (simp add: e plt_inv_def)
  also have "seq_range (1 + 1) 3 = [2]" by (simp add: seq_range_Cons)
  finally have "plt_log t' = [2]" by simp
  then show ?thesis using detect_returns_oldest [OF t d] d by (simp add: t_def)
qed

end
