(* ===== verification/TS_Validation.thy ===== *)
theory TS_Validation
  imports Depacketizer
begin

unbundle bit_operations_syntax

text \<open>
  The validators of \<^verbatim>\<open>internal/ingestion/validation\<close> that the MPEG-TS parser runs: packet,
  boundary, size and timestamp checks (\<^verbatim>\<open>validation.go\<close>), continuity counters
  (\<^verbatim>\<open>continuity.go\<close>), PES assembly (\<^verbatim>\<open>pes.go\<close>) and PTS/DTS checks (\<^verbatim>\<open>pts_dts_validator.go\<close>).
  \<^verbatim>\<open>nil\<close> errors are \<^const>\<open>None\<close>; error values keep the numbers they print.  Counters
  (\<^verbatim>\<open>int64\<close> numbers of events) are unbounded.
\<close>

section \<open>Packet, boundary, size and timestamp checks\<close>

definition MaxPacketSize :: nat where
  "MaxPacketSize = 65536"

datatype val_error =
    InvalidSize nat
  | InvalidSyncByte byte
  | PacketTooSmall nat
  | PacketTooLarge nat
  | InvalidVersion byte
  | EmptyUnit
  | UnitTooLarge nat
  | ForbiddenBit
  | TooManyUnits int
  | NegativeOffset int
  | NegativeLength int
  | OffsetBeyond int
  | AccessBeyond int int
  | UnknownSizeType string
  | NegativeSize string int
  | SizeOverLimit string int
  | NegativePTS int
  | PTSRange int
  | NegativeDTS int
  | DTSRange int
  | PTSBeforeDTS int int
  | DTSBackward int int

record PacketValidator =
  pv_maxPacketSize :: nat
  pv_maxPayloadSize :: nat
  pv_syncByteEnabled :: bool

definition NewPacketValidator :: PacketValidator where
  "NewPacketValidator =
     \<lparr>pv_maxPacketSize = 65536, pv_maxPayloadSize = 65536, pv_syncByteEnabled = True\<rparr>"

definition ValidateMPEGTSPacket :: "PacketValidator \<Rightarrow> byte list \<Rightarrow> val_error option" where
  "ValidateMPEGTSPacket v data =
     (if length data \<noteq> 188 then Some (InvalidSize (length data))
      else if pv_syncByteEnabled v \<and> data ! 0 \<noteq> 0x47 then Some (InvalidSyncByte (data ! 0))
      else None)"

definition PV_ValidateRTPPacket :: "PacketValidator \<Rightarrow> byte list \<Rightarrow> val_error option" where
  "PV_ValidateRTPPacket v data =
     (if length data < 12 then Some (PacketTooSmall (length data))
      else if length data > pv_maxPacketSize v then Some (PacketTooLarge (length data))
      else
        (let version = drop_bit 6 (data ! 0) AND 0x03
         in if version \<noteq> 2 then Some (InvalidVersion version) else None))"

definition ValidateNALUnit :: "byte list \<Rightarrow> val_error option" where
  "ValidateNALUnit data =
     (if length data = 0 then Some EmptyUnit
      else if length data > MaxNALUnitSize then Some (UnitTooLarge (length data))
      else if (data ! 0) AND 0x80 \<noteq> 0 then Some ForbiddenBit
      else None)"

definition ValidateFrame :: "byte list \<Rightarrow> int \<Rightarrow> val_error option" where
  "ValidateFrame data nalUnits =
     (if length data = 0 then Some EmptyUnit
      else if length data > MaxFrameSize then Some (UnitTooLarge (length data))
      else if nalUnits > int MaxNALUnitsPerFrame then Some (TooManyUnits nalUnits)
      else None)"

definition ValidateBufferAccess :: "byte list \<Rightarrow> int \<Rightarrow> int \<Rightarrow> val_error option" where
  "ValidateBufferAccess buffer off len =
     (if off < 0 then Some (NegativeOffset off)
      else if len < 0 then Some (NegativeLength len)
      else if off > int (length buffer) then Some (OffsetBeyond off)
      else if off + len > int (length buffer) then Some (AccessBeyond off len)
      else None)"

text \<open>A negative position reaches the index expression and panics.\<close>

definition ValidateStartCode :: "byte list \<Rightarrow> int \<Rightarrow> (nat option) outcome" where
  "ValidateStartCode data pos =
     (if pos + 3 > int (length data) then Ret None
      else if pos < 0 then Panic
      else
        (let p = nat pos
         in if data ! p = 0 \<and> data ! (p + 1) = 0 \<and> data ! (p + 2) = 1 then Ret (Some 3)
            else if p + 4 \<le> length data \<and> data ! p = 0 \<and> data ! (p + 1) = 0 \<and>
                    data ! (p + 2) = 0 \<and> data ! (p + 3) = 1 then Ret (Some 4)
            else Ret None))"

definition NewSizeValidator :: "string \<rightharpoonup> int" where
  "NewSizeValidator =
     [''packet'' \<mapsto> 65536, ''frame'' \<mapsto> int MaxFrameSize, ''nalunit'' \<mapsto> int MaxNALUnitSize,
      ''buffer'' \<mapsto> 104857600, ''gop'' \<mapsto> 209715200]"

definition SetLimit :: "string \<Rightarrow> int \<Rightarrow> (string \<rightharpoonup> int) \<Rightarrow> (string \<rightharpoonup> int)" where
  "SetLimit limitType n limits = limits(limitType \<mapsto> n)"

definition ValidateSize :: "(string \<rightharpoonup> int) \<Rightarrow> string \<Rightarrow> int \<Rightarrow> val_error option" where
  "ValidateSize limits sizeType n =
     (case limits sizeType of
        None \<Rightarrow> Some (UnknownSizeType sizeType)
      | Some limit \<Rightarrow>
          if n < 0 then Some (NegativeSize sizeType n)
          else if n > limit then Some (SizeOverLimit sizeType n)
          else None)"

definition TV_ValidatePTS :: "int \<Rightarrow> val_error option" where
  "TV_ValidatePTS pts =
     (if pts < 0 then Some (NegativePTS pts) else if pts \<ge> 2 ^ 33 then Some (PTSRange pts) else None)"

definition TV_ValidateDTS :: "int \<Rightarrow> val_error option" where
  "TV_ValidateDTS dts =
     (if dts < 0 then Some (NegativeDTS dts) else if dts \<ge> 2 ^ 33 then Some (DTSRange dts) else None)"

definition TV_ValidatePTSDTSOrder :: "int \<Rightarrow> int \<Rightarrow> val_error option" where
  "TV_ValidatePTSDTSOrder pts dts =
     (case TV_ValidatePTS pts of
        Some e \<Rightarrow> Some e
      | None \<Rightarrow>
          (case TV_ValidateDTS dts of
             Some e \<Rightarrow> Some e
           | None \<Rightarrow> if pts < dts then Some (PTSBeforeDTS pts dts) else None))"

section \<open>Continuity counters\<close>

record continuityState =
  cs_lastCounter :: byte
  cs_expectedNext :: byte
  cs_initialized :: bool
  cs_discontinuities :: nat

record ContinuityStats =
  ct_TotalDiscontinuities :: nat
  ct_PIDs :: nat
  ct_PacketsValidated :: nat

record ContinuityValidator =
  cv_counters :: "u16 \<rightharpoonup> continuityState"
  cv_stats :: ContinuityStats

definition NewContinuityValidator :: ContinuityValidator where
  "NewContinuityValidator =
     \<lparr>cv_counters = Map.empty,
      cv_stats = \<lparr>ct_TotalDiscontinuities = 0, ct_PIDs = 0, ct_PacketsValidated = 0\<rparr>\<rparr>"

datatype cc_error = ContinuityError u16 byte byte

text \<open>The next value of the 4-bit counter.\<close>

definition cc_next :: "byte \<Rightarrow> byte" where
  "cc_next counter = (counter + 1) AND 0x0F"

text \<open>The verdict on one packet for the state of its PID.\<close>

definition cc_step ::
  "u16 \<Rightarrow> byte \<Rightarrow> bool \<Rightarrow> bool \<Rightarrow> continuityState \<Rightarrow> continuityState \<times> cc_error option" where
  "cc_step pid counter hasPayload hasAdaptation state =
     (if \<not> cs_initialized state then
        (state\<lparr>cs_lastCounter := counter, cs_expectedNext := cc_next counter, cs_initialized := True\<rparr>, None)
      else if \<not> hasPayload \<and> hasAdaptation then
        (if counter \<noteq> cs_lastCounter state then
           (state\<lparr>cs_discontinuities := cs_discontinuities state + 1\<rparr>,
            Some (ContinuityError pid (cs_lastCounter state) counter))
         else (state, None))
      else if counter \<noteq> cs_expectedNext state then
        (if counter = cs_lastCounter state then (state, None)
         else
           (state\<lparr>cs_discontinuities := cs_discontinuities state + 1, cs_lastCounter := counter,
                  cs_expectedNext := cc_next counter\<rparr>,
            Some (ContinuityError pid (cs_expectedNext state) counter)))
      else (state\<lparr>cs_lastCounter := counter, cs_expectedNext := cc_next counter\<rparr>, None))"

definition ValidateContinuity ::
  "u16 \<Rightarrow> byte \<Rightarrow> bool \<Rightarrow> bool \<Rightarrow> ContinuityValidator \<Rightarrow> ContinuityValidator \<times> cc_error option" where
  "ValidateContinuity pid counter hasPayload hasAdaptation v =
     (let state = (case cv_counters v pid of
            Some st \<Rightarrow> st
          | None \<Rightarrow> \<lparr>cs_lastCounter = 0, cs_expectedNext = 0, cs_initialized = False, cs_discontinuities = 0\<rparr>);
          (state', err) = cc_step pid counter hasPayload hasAdaptation state;
          st = cv_stats v
      in (v\<lparr>cv_counters := (cv_counters v)(pid \<mapsto> state'),
            cv_stats := st\<lparr>ct_PacketsValidated := ct_PacketsValidated st + 1,
              ct_TotalDiscontinuities := ct_TotalDiscontinuities st + (if err = None then 0 else 1)\<rparr>\<rparr>, err))"

definition cv_GetStats :: "ContinuityValidator \<Rightarrow> ContinuityStats" where
  "cv_GetStats v = (cv_stats v)\<lparr>ct_PIDs := card (dom (cv_counters v))\<rparr>"

definition cv_GetPIDStats :: "u16 \<Rightarrow> ContinuityValidator \<Rightarrow> nat \<times> bool" where
  "cv_GetPIDStats pid v =
     (case cv_counters v pid of None \<Rightarrow> (0, False) | Some st \<Rightarrow> (cs_discontinuities st, True))"

definition cv_Reset :: "ContinuityValidator \<Rightarrow> ContinuityValidator" where
  "cv_Reset v = NewContinuityValidator"

definition cv_ResetPID :: "u16 \<Rightarrow> ContinuityValidator \<Rightarrow> ContinuityValidator" where
  "cv_ResetPID pid v = v\<lparr>cv_counters := (cv_counters v)(pid := None)\<rparr>"

section \<open>PES assembly\<close>

record pesStreamState =
  ps_inProgress :: bool
  ps_startTime :: nanos
  ps_bytesAccumulated :: nat
  ps_expectedLength :: nat
  ps_hasLength :: bool
  ps_packetsReceived :: nat
  ps_lastActivity :: nanos

record PESValidator =
  pes_streams :: "u16 \<rightharpoonup> pesStreamState"
  pes_timeout :: nanos
  pes_maxPESSize :: nat

datatype pes_error =
    PESHeaderTooShort nat
  | InvalidPESStartCode byte byte byte
  | IncompletePES u16 nat
  | PESTooLarge nat nat
  | ContinuationWithoutStart u16
  | PESExceedsMaximum u16 nat
  | PESOverrun u16 nat nat

definition NewPESValidator :: "nanos \<Rightarrow> PESValidator" where
  "NewPESValidator timeout = \<lparr>pes_streams = Map.empty, pes_timeout = timeout, pes_maxPESSize = 65536 * 3\<rparr>"

text \<open>\<^verbatim>\<open>int(uint16(hi)<<8 | uint16(lo))\<close>.\<close>

definition be16 :: "byte \<Rightarrow> byte \<Rightarrow> nat" where
  "be16 hi lo = unat (push_bit 8 (ucast hi :: u16) OR ucast lo)"

text \<open>The state of a new PES packet, refused when its announced length is over the limit.\<close>

definition pes_begin ::
  "nanos \<Rightarrow> nanos \<Rightarrow> u16 \<Rightarrow> nat \<Rightarrow> nat \<Rightarrow> PESValidator \<Rightarrow> PESValidator \<times> pes_error option" where
  "pes_begin now1 now2 pid dataLen pesLength v =
     (let state = \<lparr>ps_inProgress = True, ps_startTime = now1, ps_bytesAccumulated = dataLen,
            ps_expectedLength = pesLength + 6, ps_hasLength = pesLength > 0, ps_packetsReceived = 1,
            ps_lastActivity = now2\<rparr>
      in if ps_hasLength state \<and> ps_expectedLength state > pes_maxPESSize v
         then (v, Some (PESTooLarge (ps_expectedLength state) (pes_maxPESSize v)))
         else (v\<lparr>pes_streams := (pes_streams v)(pid \<mapsto> state)\<rparr>, None))"

text \<open>\<^verbatim>\<open>ValidatePESStart\<close>, with its two clock readings.\<close>

definition ValidatePESStart ::
  "nanos \<Rightarrow> nanos \<Rightarrow> u16 \<Rightarrow> byte list \<Rightarrow> PESValidator \<Rightarrow> PESValidator \<times> pes_error option" where
  "ValidatePESStart now1 now2 pid data v =
     (if length data < 6 then (v, Some (PESHeaderTooShort (length data)))
      else if data ! 0 \<noteq> 0x00 \<or> data ! 1 \<noteq> 0x00 \<or> data ! 2 \<noteq> 0x01
      then (v, Some (InvalidPESStartCode (data ! 0) (data ! 1) (data ! 2)))
      else
        (let pesLength = be16 (data ! 4) (data ! 5)
         in case pes_streams v pid of
              Some st \<Rightarrow>
                if ps_inProgress st then (v, Some (IncompletePES pid (ps_bytesAccumulated st)))
                else pes_begin now1 now2 pid (length data) pesLength v
            | None \<Rightarrow> pes_begin now1 now2 pid (length data) pesLength v))"

definition ValidatePESContinuation ::
  "nanos \<Rightarrow> u16 \<Rightarrow> nat \<Rightarrow> PESValidator \<Rightarrow> PESValidator \<times> pes_error option" where
  "ValidatePESContinuation now pid dataLen v =
     (case pes_streams v pid of
        None \<Rightarrow> (v, Some (ContinuationWithoutStart pid))
      | Some st \<Rightarrow>
          if \<not> ps_inProgress st then (v, Some (ContinuationWithoutStart pid))
          else
            (let n = ps_bytesAccumulated st + dataLen;
                 st = st\<lparr>ps_bytesAccumulated := n, ps_packetsReceived := ps_packetsReceived st + 1,
                         ps_lastActivity := now\<rparr>;
                 put = (\<lambda>st. v\<lparr>pes_streams := (pes_streams v)(pid \<mapsto> st)\<rparr>)
             in if n > pes_maxPESSize v
                then (put (st\<lparr>ps_inProgress := False\<rparr>), Some (PESExceedsMaximum pid n))
                else if ps_hasLength st \<and> n \<ge> ps_expectedLength st
                then (put (st\<lparr>ps_inProgress := False\<rparr>),
                      if n > ps_expectedLength st then Some (PESOverrun pid (ps_expectedLength st) n) else None)
                else (put st, None)))"

definition CompletePES :: "u16 \<Rightarrow> PESValidator \<Rightarrow> PESValidator" where
  "CompletePES pid v =
     (case pes_streams v pid of
        None \<Rightarrow> v
      | Some st \<Rightarrow> v\<lparr>pes_streams := (pes_streams v)(pid \<mapsto> st\<lparr>ps_inProgress := False\<rparr>)\<rparr>)"

text \<open>The map is traversed in no particular order: the result is a set.\<close>

definition pes_timed_out :: "nanos \<Rightarrow> PESValidator \<Rightarrow> pesStreamState \<Rightarrow> bool" where
  "pes_timed_out now v st \<longleftrightarrow> ps_inProgress st \<and> now - ps_lastActivity st > pes_timeout v"

definition CheckTimeouts :: "nanos \<Rightarrow> PESValidator \<Rightarrow> PESValidator \<times> u16 set" where
  "CheckTimeouts now v =
     (v\<lparr>pes_streams := (\<lambda>pid. map_option
           (\<lambda>st. if pes_timed_out now v st then st\<lparr>ps_inProgress := False\<rparr> else st) (pes_streams v pid))\<rparr>,
      {pid. \<exists>st. pes_streams v pid = Some st \<and> pes_timed_out now v st})"

definition GetStreamState :: "u16 \<Rightarrow> PESValidator \<Rightarrow> bool \<times> nat \<times> nat" where
  "GetStreamState pid v =
     (case pes_streams v pid of
        Some st \<Rightarrow> (ps_inProgress st, ps_bytesAccumulated st, ps_packetsReceived st)
      | None \<Rightarrow> (False, 0, 0))"

definition pes_Reset :: "PESValidator \<Rightarrow> PESValidator" where
  "pes_Reset v = v\<lparr>pes_streams := Map.empty\<rparr>"

definition pes_ResetPID :: "u16 \<Rightarrow> PESValidator \<Rightarrow> PESValidator" where
  "pes_ResetPID pid v = v\<lparr>pes_streams := (pes_streams v)(pid := None)\<rparr>"

text \<open>\<^verbatim>\<open>GetStats\<close> fills \<^verbatim>\<open>ActiveStreams\<close> only.\<close>

definition pes_ActiveStreams :: "PESValidator \<Rightarrow> nat" where
  "pes_ActiveStreams v = card {pid. \<exists>st. pes_streams v pid = Some st \<and> ps_inProgress st}"

section \<open>PTS and DTS\<close>

definition MaxPTSValue :: int where
  "MaxPTSValue = 2 ^ 33 - 1"

definition PTSWrapThreshold :: int where
  "PTSWrapThreshold = MaxPTSValue div 2"

definition MaxTimestampJump :: int where
  "MaxTimestampJump = 10 * 90000"

record PTSDTSValidator =
  pd_streamID :: string
  pd_lastPTS :: int
  pd_lastDTS :: int
  pd_ptsWrapCount :: nat
  pd_dtsWrapCount :: nat
  pd_initialized :: bool
  pd_errorCount :: nat

datatype pts_warning =
    LargePTSDTSDifference int
  | PTSWraparound int int nat
  | LargePTSJump int int
  | PTSBackward int int
  | DTSWraparound int int nat

record ValidationResult =
  vr_Valid :: bool
  vr_Error :: "val_error option"
  vr_Warnings :: "pts_warning list"
  vr_CorrectedPTS :: int
  vr_CorrectedDTS :: int
  vr_PTSWrapped :: bool
  vr_DTSWrapped :: bool

definition NewPTSDTSValidator :: "string \<Rightarrow> PTSDTSValidator" where
  "NewPTSDTSValidator streamID =
     \<lparr>pd_streamID = streamID, pd_lastPTS = 0, pd_lastDTS = 0, pd_ptsWrapCount = 0, pd_dtsWrapCount = 0,
      pd_initialized = False, pd_errorCount = 0\<rparr>"

text \<open>The range and order checks at the head of \<^verbatim>\<open>ValidateTimestamps\<close>; a DTS of 0 counts as absent.\<close>

definition pd_check :: "int \<Rightarrow> int \<Rightarrow> val_error option" where
  "pd_check pts dts =
     (if pts < 0 then Some (NegativePTS pts)
      else if pts > MaxPTSValue then Some (PTSRange pts)
      else if dts \<noteq> 0 then
        (if dts < 0 then Some (NegativeDTS dts)
         else if dts > MaxPTSValue then Some (DTSRange dts)
         else if pts < dts then Some (PTSBeforeDTS pts dts)
         else None)
      else None)"

text \<open>The PTS comparison with the previous packet.\<close>

definition pd_pts_step ::
  "int \<Rightarrow> PTSDTSValidator \<times> ValidationResult \<Rightarrow> PTSDTSValidator \<times> ValidationResult" where
  "pd_pts_step pts = (\<lambda>(v, r).
     let ptsDiff = pts - pd_lastPTS v
     in if ptsDiff < - PTSWrapThreshold then
          (let n = pd_ptsWrapCount v + 1
           in (v\<lparr>pd_ptsWrapCount := n\<rparr>,
               r\<lparr>vr_PTSWrapped := True,
                 vr_Warnings := vr_Warnings r @ [PTSWraparound (pd_lastPTS v) pts n],
                 vr_CorrectedPTS := pts + int n * (MaxPTSValue + 1)\<rparr>))
        else if ptsDiff > MaxTimestampJump then
          (v, r\<lparr>vr_Warnings := vr_Warnings r @ [LargePTSJump (pd_lastPTS v) pts]\<rparr>)
        else if ptsDiff < 0 \<and> ptsDiff > - MaxTimestampJump then
          (v, r\<lparr>vr_Warnings := vr_Warnings r @ [PTSBackward (pd_lastPTS v) pts]\<rparr>)
        else (v, r))"

text \<open>The DTS comparison, \<^const>\<open>True\<close> when it ends the call.\<close>

definition pd_dts_step ::
  "int \<Rightarrow> PTSDTSValidator \<times> ValidationResult \<Rightarrow> (PTSDTSValidator \<times> ValidationResult) \<times> bool" where
  "pd_dts_step dts = (\<lambda>(v, r).
     if dts \<noteq> 0 \<and> pd_lastDTS v \<noteq> 0 then
       (let dtsDiff = dts - pd_lastDTS v
        in if dtsDiff < - PTSWrapThreshold then
             (let n = pd_dtsWrapCount v + 1
              in ((v\<lparr>pd_dtsWrapCount := n\<rparr>,
                   r\<lparr>vr_DTSWrapped := True,
                     vr_Warnings := vr_Warnings r @ [DTSWraparound (pd_lastDTS v) dts n],
                     vr_CorrectedDTS := dts + int n * (MaxPTSValue + 1)\<rparr>), False))
           else if dtsDiff < 0 \<and> dtsDiff > - MaxTimestampJump then
             ((v\<lparr>pd_errorCount := pd_errorCount v + 1\<rparr>,
               r\<lparr>vr_Valid := False, vr_Error := Some (DTSBackward (pd_lastDTS v) dts)\<rparr>), True)
           else ((v, r), False))
     else ((v, r), False))"

definition ValidateTimestamps ::
  "int \<Rightarrow> int \<Rightarrow> PTSDTSValidator \<Rightarrow> PTSDTSValidator \<times> ValidationResult" where
  "ValidateTimestamps pts dts v =
     (let r = \<lparr>vr_Valid = True, vr_Error = None, vr_Warnings = [], vr_CorrectedPTS = pts,
               vr_CorrectedDTS = dts, vr_PTSWrapped = False, vr_DTSWrapped = False\<rparr>
      in case pd_check pts dts of
           Some e \<Rightarrow> (v\<lparr>pd_errorCount := pd_errorCount v + 1\<rparr>, r\<lparr>vr_Valid := False, vr_Error := Some e\<rparr>)
         | None \<Rightarrow>
             (let r = (if dts \<noteq> 0 \<and> pts - dts > 90000
                       then r\<lparr>vr_Warnings := [LargePTSDTSDifference (pts - dts)]\<rparr> else r)
              in if \<not> pd_initialized v
                 then (v\<lparr>pd_lastPTS := pts, pd_lastDTS := dts, pd_initialized := True\<rparr>, r)
                 else
                   (case pd_dts_step dts (pd_pts_step pts (v, r)) of
                      ((v, r), True) \<Rightarrow> (v, r)
                    | ((v, r), False) \<Rightarrow> (v\<lparr>pd_lastPTS := pts, pd_lastDTS := dts\<rparr>, r))))"

definition pd_Reset :: "PTSDTSValidator \<Rightarrow> PTSDTSValidator" where
  "pd_Reset v = (NewPTSDTSValidator (pd_streamID v))"

text \<open>The validation service keeps one validator per stream.\<close>

type_synonym PTSDTSValidationService = "string \<rightharpoonup> PTSDTSValidator"

definition GetValidator :: "string \<Rightarrow> PTSDTSValidationService \<Rightarrow> PTSDTSValidationService \<times> PTSDTSValidator" where
  "GetValidator streamID s =
     (case s streamID of
        Some v \<Rightarrow> (s, v)
      | None \<Rightarrow> (s(streamID \<mapsto> NewPTSDTSValidator streamID), NewPTSDTSValidator streamID))"

definition RemoveValidator :: "string \<Rightarrow> PTSDTSValidationService \<Rightarrow> PTSDTSValidationService" where
  "RemoveValidator streamID s = s(streamID := None)"

definition ValidatePTSRange :: "int \<Rightarrow> val_error option" where
  "ValidatePTSRange pts =
     (if pts < 0 then Some (NegativePTS pts) else if pts > MaxPTSValue then Some (PTSRange pts) else None)"

definition ValidateDTSRange :: "int \<Rightarrow> val_error option" where
  "ValidateDTSRange dts =
     (if dts < 0 then Some (NegativeDTS dts) else if dts > MaxPTSValue then Some (DTSRange dts) else None)"

definition ValidatePTSDTSOrder :: "int \<Rightarrow> int \<Rightarrow> val_error option" where
  "ValidatePTSDTSOrder pts dts = (if dts \<noteq> 0 \<and> pts < dts then Some (PTSBeforeDTS pts dts) else None)"

definition IsLikelyWraparound :: "int \<Rightarrow> int \<Rightarrow> bool" where
  "IsLikelyWraparound oldTS newTS \<longleftrightarrow> i64 (newTS - oldTS) < - PTSWrapThreshold"

definition HandleWraparound :: "int \<Rightarrow> int \<Rightarrow> int" where
  "HandleWraparound timestamp wrapCount = i64 (timestamp + i64 (wrapCount * (MaxPTSValue + 1)))"

end
