(* ===== verification/TS_Validation_Props.thy ===== *)
theory TS_Validation_Props
  imports TS_Validation
begin

unbundle bit_operations_syntax

text \<open>
  What the MPEG-TS validators guarantee: the continuity check accepts exactly the lossless
  streams (up to the period of the 4-bit counter), the PTS wrap count unwraps forward running
  time stamps, and the PES assembly closes a packet exactly when its announced length is
  reached.
\<close>

section \<open>Continuity\<close>

lemma cc_next_unat: "unat (cc_next c) = (unat c + 1) mod 16"
proof -
  have "cc_next c = take_bit 4 (c + 1)" by (simp add: cc_next_def take_bit_eq_mask mask_eq_exp_minus_1)
  then have "unat (cc_next c) = take_bit 4 (unat (c + 1))" by (simp add: unsigned_take_bit_eq)
  also have "\<dots> = ((unat c + 1) mod 256) mod 16"
    using unat_word_ariths(1) [of c 1] by (simp add: take_bit_eq_mod)
  also have "\<dots> = (unat c + 1) mod 16" by (rule mod_mod_cancel) simp
  finally show ?thesis .
qed

definition cc_wf :: "continuityState \<Rightarrow> bool" where
  "cc_wf st \<longleftrightarrow> cs_initialized st \<and> unat (cs_lastCounter st) < 16 \<and>
     cs_expectedNext st = cc_next (cs_lastCounter st)"

definition cv_wf :: "ContinuityValidator \<Rightarrow> bool" where
  "cv_wf v \<longleftrightarrow> (\<forall>pid st. cv_counters v pid = Some st \<longrightarrow> cc_wf st)"

type_synonym ts_header = "u16 \<times> byte \<times> bool \<times> bool"

fun cv_run :: "ts_header list \<Rightarrow> ContinuityValidator \<Rightarrow> ContinuityValidator \<times> cc_error list" where
  "cv_run [] v = (v, [])"
| "cv_run ((pid, counter, pay, af) # ps) v =
     (let (v1, e) = ValidateContinuity pid counter pay af v;
          (v2, es) = cv_run ps v1
      in (v2, (case e of None \<Rightarrow> es | Some x \<Rightarrow> x # es)))"

lemma cc_step_wf:
  "unat counter < 16 \<Longrightarrow> cs_initialized st \<longrightarrow> cc_wf st \<Longrightarrow> cc_wf (fst (cc_step pid counter pay af st))"
  by (auto simp: cc_step_def cc_wf_def)

lemma ValidateContinuity_wf:
  assumes "cv_wf v" and "unat counter < 16"
  shows "cv_wf (fst (ValidateContinuity pid counter pay af v))"
proof -
  define st where "st = (case cv_counters v pid of Some st \<Rightarrow> st
     | None \<Rightarrow> \<lparr>cs_lastCounter = 0, cs_expectedNext = 0, cs_initialized = False, cs_discontinuities = 0\<rparr>)"
  have "cs_initialized st \<longrightarrow> cc_wf st" using assms(1) by (auto simp: st_def cv_wf_def split: option.splits)
  from cc_step_wf [OF assms(2) this, of pid pay af] show ?thesis
    using assms(1) by (auto simp: ValidateContinuity_def Let_def st_def [symmetric] cv_wf_def split: prod.splits)
qed

lemma cv_run_wf:
  assumes "cv_wf v" and "list_all (\<lambda>(pid, c, pay, af). unat c < 16) ps"
  shows "cv_wf (fst (cv_run ps v))"
  using assms
proof (induction ps arbitrary: v)
  case (Cons p ps)
  obtain pid c pay af where p: "p = (pid, c, pay, af)" by (cases p)
  have "cv_wf (fst (ValidateContinuity pid c pay af v))"
    by (rule ValidateContinuity_wf) (use Cons.prems p in auto)
  from Cons.IH [OF this] Cons.prems(2) show ?case by (auto simp: p Let_def split: prod.splits)
qed simp

lemma cv_wf_New: "cv_wf NewContinuityValidator"
  by (simp add: cv_wf_def NewContinuityValidator_def)

lemma ValidateContinuity_known:
  assumes "cv_counters v pid = Some st" and "cc_wf st"
  shows "snd (ValidateContinuity pid counter True af v) = None \<longleftrightarrow>
    counter = cc_next (cs_lastCounter st) \<or> counter = cs_lastCounter st"
  using assms by (auto simp: ValidateContinuity_def Let_def cc_step_def cc_wf_def)

lemma of_nat_counter: "m < 16 \<Longrightarrow> (of_nat m :: byte) = c \<longleftrightarrow> m = unat c"
proof -
  assume m: "m < 16"
  then have "unat (of_nat m :: byte) = m" by (simp add: unat_of_nat take_bit_nat_eq_self)
  then show ?thesis by auto
qed

lemma gap_mod_16:
  fixes l k :: nat
  assumes "l < 16"
  shows "(l + 1 + k) mod 16 = (l + 1) mod 16 \<longleftrightarrow> k mod 16 = 0"
    and "(l + 1 + k) mod 16 = l \<longleftrightarrow> k mod 16 = 15"
proof -
  have r: "k mod 16 < 16" by simp
  have m: "x mod 16 = (if x < 16 then x else x - 16)" if "x < 32" for x :: nat
    using that by (simp add: mod_if)
  have "(l + 1 + k) mod 16 = (l + 1 + k mod 16) mod 16" by (rule mod_add_right_eq [symmetric])
  also have "\<dots> = (if l + 1 + k mod 16 < 16 then l + 1 + k mod 16 else l + 1 + k mod 16 - 16)"
    by (rule m) (use assms r in linarith)
  finally have e: "(l + 1 + k) mod 16 = (if l + 1 + k mod 16 < 16 then l + 1 + k mod 16 else l + 1 + k mod 16 - 16)" .
  have l: "(l + 1) mod 16 = (if l = 15 then 0 else l + 1)" using assms m [of "l + 1"] by auto
  show "(l + 1 + k) mod 16 = (l + 1) mod 16 \<longleftrightarrow> k mod 16 = 0" unfolding e l using assms r by auto
  show "(l + 1 + k) mod 16 = l \<longleftrightarrow> k mod 16 = 15" unfolding e using assms r by auto
qed

text \<open>The continuity check sees every loss of payload packets on a PID except those of a multiple of
  16, or one less than a multiple of 16, packets: after any sequence of packets, the next payload packet of a
  known PID that follows \<open>k\<close> lost ones is accepted exactly for \<open>k mod 16\<close> in 0 and 15 (the latter passes as a
  retransmission).\<close>

theorem continuity_detects_loss:
  assumes "list_all (\<lambda>(pid, c, pay, af). unat c < 16) ps"
    and "cv_counters (fst (cv_run ps NewContinuityValidator)) pid = Some st"
    and "counter = of_nat ((unat (cs_lastCounter st) + 1 + k) mod 16)"
  shows "snd (ValidateContinuity pid counter True af (fst (cv_run ps NewContinuityValidator))) = None \<longleftrightarrow>
    k mod 16 = 0 \<or> k mod 16 = 15"
proof -
  have wf: "cc_wf st" using cv_run_wf [OF cv_wf_New assms(1)] assms(2) by (simp add: cv_wf_def)
  then have l: "unat (cs_lastCounter st) < 16" by (simp add: cc_wf_def)
  show ?thesis
    unfolding ValidateContinuity_known [OF assms(2) wf] assms(3)
    using gap_mod_16 [OF l, of k] by (simp add: of_nat_counter cc_next_unat)
qed

theorem continuity_detects_loss_witness:
  "snd (ValidateContinuity 256 9 True False
     (fst (cv_run [(256, 4, True, False), (17, 0, True, False), (256, 5, True, False)] NewContinuityValidator))) \<noteq> None"
proof -
  let ?ps = "[(256, 4, True, False), (17, 0, True, False), (256, 5, True, False)] :: ts_header list"
  let ?v = "fst (cv_run ?ps NewContinuityValidator)"
  have ps: "list_all (\<lambda>(pid, c, pay, af). unat c < 16) ?ps" by simp
  have st: "cv_counters ?v 256 = Some \<lparr>cs_lastCounter = 5, cs_expectedNext = 6, cs_initialized = True, cs_discontinuities = 0\<rparr>"
    by (simp add: ValidateContinuity_def NewContinuityValidator_def Let_def cc_step_def cc_next_def)
  have "(9 :: byte) = of_nat ((unat (5 :: byte) + 1 + 3) mod 16)" by simp
  then show ?thesis
    using continuity_detects_loss [OF ps st, of 9 3 False] by simp
qed

section \<open>A lossless multiplex\<close>

text \<open>A sender numbers the packets of each PID: a packet with payload takes the next counter value, one
  with only an adaptation field repeats the last one.\<close>

fun ts_number :: "(u16 \<Rightarrow> byte) \<Rightarrow> (u16 \<times> bool) list \<Rightarrow> ts_header list" where
  "ts_number l [] = []"
| "ts_number l ((pid, pay) # ps) =
     (let c = (if pay then cc_next (l pid) else l pid)
      in (pid, c, pay, \<not> pay) # ts_number (l(pid := c)) ps)"

definition cv_agrees :: "(u16 \<Rightarrow> byte) \<Rightarrow> ContinuityValidator \<Rightarrow> bool" where
  "cv_agrees l v \<longleftrightarrow> (\<forall>pid st. cv_counters v pid = Some st \<longrightarrow>
     cs_initialized st \<and> cs_lastCounter st = l pid \<and> cs_expectedNext st = cc_next (l pid))"

lemma agrees_step:
  assumes "cv_agrees l v" and "c = (if pay then cc_next (l pid) else l pid)"
  shows "snd (ValidateContinuity pid c pay (\<not> pay) v) = None"
    and "cv_agrees (l(pid := c)) (fst (ValidateContinuity pid c pay (\<not> pay) v))"
  using assms
  by (cases "cv_counters v pid"; auto simp: ValidateContinuity_def Let_def cc_step_def cv_agrees_def)+

lemma agrees_run:
  "cv_agrees l v \<Longrightarrow> snd (cv_run (ts_number l ps) v) = []"
proof (induction ps arbitrary: l v)
  case (Cons p ps)
  obtain pid pay where p: "p = (pid, pay)" by (cases p)
  define c where "c = (if pay then cc_next (l pid) else l pid)"
  note a = agrees_step [OF Cons.prems c_def]
  have "snd (cv_run (ts_number l (p # ps)) v) =
      (case snd (ValidateContinuity pid c pay (\<not> pay) v) of
         None \<Rightarrow> snd (cv_run (ts_number (l(pid := c)) ps) (fst (ValidateContinuity pid c pay (\<not> pay) v)))
       | Some x \<Rightarrow> x # snd (cv_run (ts_number (l(pid := c)) ps) (fst (ValidateContinuity pid c pay (\<not> pay) v))))"
    unfolding p ts_number.simps Let_def c_def [symmetric] by (simp add: Let_def case_prod_beta)
  then show ?case using Cons.IH [OF a(2)] a(1) by (simp only: option.case)
qed simp

text \<open>On a multiplex of any number of PIDs in which nothing was lost, the continuity check reports
  nothing.\<close>

theorem continuity_accepts_lossless:
  "snd (cv_run (ts_number first ps) NewContinuityValidator) = []"
  by (rule agrees_run) (simp add: cv_agrees_def NewContinuityValidator_def)

section \<open>Time stamps\<close>

text \<open>True time stamps are unbounded; the stream carries them modulo \<open>2\<^sup>3\<^sup>3\<close>.  The parser passes the PTS as
  DTS when there is none, other callers 0: the flag says which.\<close>

abbreviation wrap33 :: "int \<Rightarrow> int" where
  "wrap33 t \<equiv> t mod 8589934592"

definition pd_feed :: "bool \<Rightarrow> int \<Rightarrow> PTSDTSValidator \<Rightarrow> PTSDTSValidator" where
  "pd_feed same t v = fst (ValidateTimestamps (wrap33 t) (if same then wrap33 t else 0) v)"

fun forward_steps :: "int \<Rightarrow> int list \<Rightarrow> bool" where
  "forward_steps t [] \<longleftrightarrow> True"
| "forward_steps t (u # us) \<longleftrightarrow> t \<le> u \<and> u - t \<le> 4294967296 \<and> forward_steps u us"

definition pd_tracks :: "bool \<Rightarrow> int \<Rightarrow> int \<Rightarrow> PTSDTSValidator \<Rightarrow> bool" where
  "pd_tracks same base t v \<longleftrightarrow> pd_initialized v \<and> pd_lastPTS v = wrap33 t \<and>
     pd_lastDTS v = (if same then wrap33 t else 0) \<and>
     int (pd_ptsWrapCount v) = t div 8589934592 - base"

lemma wrap33_check: "pd_check (wrap33 t) (if same then wrap33 t else 0) = None"
proof -
  define p where "p = wrap33 t"
  have "0 \<le> p" "p < 8589934592" by (simp_all add: p_def)
  then show ?thesis unfolding p_def [symmetric] by (simp add: pd_check_def MaxPTSValue_def)
qed

lemma forward_quotient:
  fixes t u :: int
  assumes "t \<le> u" and "u - t \<le> 4294967296"
  shows "wrap33 u - wrap33 t < - 4294967295 \<and> u div 8589934592 = t div 8589934592 + 1 \<or>
    0 \<le> wrap33 u - wrap33 t \<and> u div 8589934592 = t div 8589934592"
proof -
  define q r where "q = t div 8589934592" and "r = wrap33 t"
  have t: "t = q * 8589934592 + r" by (simp add: q_def r_def)
  have r: "0 \<le> r" "r < 8589934592" by (simp_all add: r_def)
  define e where "e = u - t"
  have e: "0 \<le> e" "e \<le> 4294967296" using assms by (simp_all add: e_def)
  have u: "u = r + e + q * 8589934592" using t e_def by simp
  show ?thesis
  proof (cases "r + e < 8589934592")
    case True
    then have "u div 8589934592 = q" "wrap33 u = r + e"
      using r e u int_div_pos_eq [of u 8589934592 q "r + e"] int_mod_pos_eq [of u 8589934592 q "r + e"] by simp_all
    then show ?thesis using e by (simp add: q_def [symmetric] r_def [symmetric])
  next
    case False
    define w where "w = r + e - 8589934592"
    have w: "0 \<le> w" "w < 8589934592" using False r e by (simp_all add: w_def)
    have "u = 8589934592 * (q + 1) + w" unfolding u by (simp add: w_def algebra_simps)
    then have "u div 8589934592 = q + 1" "wrap33 u = w"
      using w int_div_pos_eq [of u 8589934592 "q + 1" w] int_mod_pos_eq [of u 8589934592 "q + 1" w] by simp_all
    then show ?thesis using r e by (simp add: q_def [symmetric] r_def [symmetric] w_def)
  qed
qed

lemma feed_tracks:
  assumes "pd_tracks same base t v" and "t \<le> u" and "u - t \<le> 4294967296"
  shows "pd_tracks same base u (pd_feed same u v)"
proof -
  have thr: "PTSWrapThreshold = 4294967295" by (simp add: PTSWrapThreshold_def MaxPTSValue_def)
  define p where "p = wrap33 u"
  define l where "l = wrap33 t"
  have q: "p - l < - 4294967295 \<and> u div 8589934592 = t div 8589934592 + 1 \<or>
    0 \<le> p - l \<and> u div 8589934592 = t div 8589934592"
    using forward_quotient [OF assms(2,3)] by (simp add: p_def l_def)
  have v: "pd_initialized v" "pd_lastPTS v = l" "pd_lastDTS v = (if same then l else 0)"
    "int (pd_ptsWrapCount v) = t div 8589934592 - base"
    using assms(1) by (simp_all add: pd_tracks_def l_def)
  have c: "pd_check p (if same then p else 0) = None" unfolding p_def by (rule wrap33_check)
  from q show ?thesis
  proof
    assume "p - l < - 4294967295 \<and> u div 8589934592 = t div 8589934592 + 1"
    then show ?thesis unfolding pd_feed_def p_def [symmetric] using v c
      by (cases same) (simp_all add: pd_tracks_def ValidateTimestamps_def Let_def pd_pts_step_def pd_dts_step_def thr p_def [symmetric])
  next
    assume "0 \<le> p - l \<and> u div 8589934592 = t div 8589934592"
    then show ?thesis unfolding pd_feed_def p_def [symmetric] using v c
      by (cases same) (simp_all add: pd_tracks_def ValidateTimestamps_def Let_def pd_pts_step_def pd_dts_step_def thr p_def [symmetric])
  qed
qed

lemma fold_tracks:
  "pd_tracks same base t v \<Longrightarrow> forward_steps t us \<Longrightarrow>
   pd_tracks same base (last (t # us)) (fold (pd_feed same) us v)"
  by (induction us arbitrary: t v) (use feed_tracks in \<open>auto split: if_splits\<close>)

lemma first_tracks:
  "pd_tracks same (t div 8589934592) t (pd_feed same t (NewPTSDTSValidator streamID))"
  using wrap33_check [of t same]
  by (simp add: pd_tracks_def pd_feed_def ValidateTimestamps_def NewPTSDTSValidator_def Let_def)

text \<open>The wrap count of the PTS validator unwraps time stamps that run forward by at most half the 33-bit
  range per packet: with it, \<^verbatim>\<open>HandleWraparound\<close> turns the last PTS seen into the true time
  stamp, counted from the start of the range the stream began in, however often the 33 bits wrapped.\<close>

theorem pts_wraps_tracked:
  assumes "forward_steps t us" and "0 \<le> t" and "last (t # us) < 2 ^ 62"
  shows "let v = fold (pd_feed same) (t # us) (NewPTSDTSValidator streamID) in
    HandleWraparound (pd_lastPTS v) (int (pd_ptsWrapCount v)) = last (t # us) - t div 2 ^ 33 * 2 ^ 33"
proof -
  define v where "v = fold (pd_feed same) (t # us) (NewPTSDTSValidator streamID)"
  define l where "l = last (t # us)"
  have mono: "x \<le> last (x # ys)" if "forward_steps x ys" for x ys
    using that by (induction ys arbitrary: x) (auto intro: order_trans)
  have tr: "pd_tracks same (t div 8589934592) l v"
    using fold_tracks [OF first_tracks assms(1)] by (simp add: v_def l_def)
  define a b r where "a = l div 8589934592" and "b = t div 8589934592" and "r = wrap33 l"
  have n: "int (pd_ptsWrapCount v) = a - b" "pd_lastPTS v = r"
    using tr by (simp_all add: pd_tracks_def a_def b_def r_def)
  have l: "l = a * 8589934592 + r" by (simp add: a_def r_def)
  have ab: "0 \<le> b" "b \<le> a"
    using mono [OF assms(1)] assms(2) by (simp_all add: a_def b_def l_def zdiv_mono1)
  have r: "0 \<le> r" "r < 8589934592" by (simp_all add: r_def)
  have bound: "l < 4611686018427387904" using assms(3) by (simp add: l_def)
  define d where "d = (a - b) * 8589934592"
  have d: "0 \<le> d" "r + d = l - b * 8589934592" "r + d \<le> l" using ab l by (simp_all add: d_def algebra_simps)
  have i: "i64 d = d" "i64 (r + d) = r + d" using d r bound by simp_all
  have "(a - b) * (2 ^ 33 - 1 + 1) = d" "b * 8589934592 = t div 2 ^ 33 * 2 ^ 33" by (simp_all add: d_def b_def)
  then show ?thesis
    unfolding Let_def v_def [symmetric] l_def [symmetric] HandleWraparound_def n MaxPTSValue_def
    using d(2) i by (simp only:)
qed

theorem pts_wraps_tracked_witness:
  "let v = fold (pd_feed True) [8589934000, 8589934600, 8589938200] (NewPTSDTSValidator ''cam'') in
    HandleWraparound (pd_lastPTS v) (int (pd_ptsWrapCount v)) = 8589938200"
  using pts_wraps_tracked [of 8589934000 "[8589934600, 8589938200]" True "''cam''"] by simp

text \<open>The corrected PTS the validator returns is unwrapped only in the very call that detects the wrap: the
  next packet's is raw again, so the corrected time line jumps back by \<open>2\<^sup>3\<^sup>3\<close>.\<close>

theorem corrected_pts_falls_back:
  "let (v1, r1) = ValidateTimestamps 8589934500 0 (NewPTSDTSValidator ''cam'');
       (v2, r2) = ValidateTimestamps 100 0 v1;
       (v3, r3) = ValidateTimestamps 3100 0 v2
   in map vr_CorrectedPTS [r1, r2, r3] = [8589934500, 8589934592 + 100, 3100] \<and> pd_ptsWrapCount v3 = 1"
  by (simp add: ValidateTimestamps_def pd_check_def MaxPTSValue_def NewPTSDTSValidator_def pd_pts_step_def
      pd_dts_step_def PTSWrapThreshold_def MaxTimestampJump_def)

section \<open>PES packets\<close>

fun pes_continue :: "u16 \<Rightarrow> (nanos \<times> nat) list \<Rightarrow> PESValidator \<Rightarrow> PESValidator \<times> pes_error option list" where
  "pes_continue pid [] v = (v, [])"
| "pes_continue pid ((now, n) # ns) v =
     (let (v1, e) = ValidatePESContinuation now pid n v; (v2, es) = pes_continue pid ns v1 in (v2, e # es))"

definition pes_open :: "u16 \<Rightarrow> nat \<Rightarrow> nat \<Rightarrow> PESValidator \<Rightarrow> bool" where
  "pes_open pid got want v \<longleftrightarrow> (\<exists>st. pes_streams v pid = Some st \<and> ps_inProgress st \<and> ps_hasLength st \<and>
     ps_bytesAccumulated st = got \<and> ps_expectedLength st = want) \<and> want \<le> pes_maxPESSize v"

lemma continue_open:
  assumes "pes_open pid got want v" and "got + n < want"
  shows "snd (ValidatePESContinuation now pid n v) = None"
    and "pes_open pid (got + n) want (fst (ValidatePESContinuation now pid n v))"
  using assms by (auto simp: pes_open_def ValidatePESContinuation_def Let_def)

lemma continue_last:
  assumes "pes_open pid got want v" and "got + n = want"
  shows "snd (ValidatePESContinuation now pid n v) = None"
    and "fst (GetStreamState pid (fst (ValidatePESContinuation now pid n v))) = False"
  using assms by (auto simp: pes_open_def ValidatePESContinuation_def Let_def GetStreamState_def)

lemma continue_all:
  assumes "pes_open pid got want v" and "got + sum_list (map snd ns) = want"
    and "list_all (\<lambda>(now, n). 0 < n) ns" and "ns \<noteq> []"
  shows "list_all (\<lambda>e. e = None) (snd (pes_continue pid ns v)) \<and>
    fst (GetStreamState pid (fst (pes_continue pid ns v))) = False"
  using assms
proof (induction ns arbitrary: got v)
  case (Cons x ns)
  obtain now n where x: "x = (now, n)" by (cases x)
  show ?case
  proof (cases "ns = []")
    case True
    then show ?thesis using continue_last [OF Cons.prems(1), of n now] Cons.prems(2)
      by (simp add: x case_prod_beta Let_def)
  next
    case False
    then have pos: "0 < sum_list (map snd ns)" using Cons.prems(3) by (cases ns) auto
    have lt: "got + n < want" using Cons.prems(2) pos by (simp add: x)
    note c = continue_open [OF Cons.prems(1) lt, of now]
    have "list_all (\<lambda>e. e = None) (snd (pes_continue pid ns (fst (ValidatePESContinuation now pid n v)))) \<and>
      fst (GetStreamState pid (fst (pes_continue pid ns (fst (ValidatePESContinuation now pid n v))))) = False"
      by (rule Cons.IH [OF c(2)]) (use Cons.prems False in \<open>auto simp: x\<close>)
    then show ?thesis using c(1) by (simp add: x case_prod_beta Let_def)
  qed
qed simp

text \<open>A PES packet that announces its length and is cut into several pieces is accepted piece by piece, and
  with the piece that completes the announced length its state is closed.\<close>

theorem pes_assembly_closes:
  assumes "ValidatePESStart t1 t2 pid data v = (v1, None)" and "0 < be16 (data ! 4) (data ! 5)"
    and "length data + sum_list (map snd ns) = be16 (data ! 4) (data ! 5) + 6"
    and "list_all (\<lambda>(now, n). 0 < n) ns" and "ns \<noteq> []"
  shows "list_all (\<lambda>e. e = None) (snd (pes_continue pid ns v1)) \<and>
    fst (GetStreamState pid (fst (pes_continue pid ns v1))) = False"
proof -
  have "pes_open pid (length data) (be16 (data ! 4) (data ! 5) + 6) v1"
    using assms(1,2)
    by (auto simp: ValidatePESStart_def Let_def pes_begin_def pes_open_def split: if_splits option.splits)
  then show ?thesis using assms(3-5) by (rule continue_all)
qed

theorem pes_assembly_closes_witness:
  "fst (GetStreamState 256 (fst (pes_continue 256 [(1, 4), (2, 4)]
     (fst (ValidatePESStart 0 0 256 [0, 0, 1, 0xE0, 0, 10, 0x80, 0x80] (NewPESValidator 5)))))) = False"
proof -
  let ?data = "[0, 0, 1, 0xE0, 0, 10, 0x80, 0x80] :: byte list"
  have b: "be16 0 10 = 10" by (simp add: be16_def)
  obtain v1 where v1: "ValidatePESStart 0 0 256 ?data (NewPESValidator 5) = (v1, None)"
    by (simp add: ValidatePESStart_def NewPESValidator_def pes_begin_def b)
  then show ?thesis using pes_assembly_closes [OF v1, of "[(1, 4), (2, 4)]"] b by simp
qed

text \<open>The start check never closes a packet: a PES packet that lies entirely in its first transport packet
  stays open, and the next PES start on the PID is refused as following an incomplete one.\<close>

theorem single_packet_pes_stays_open:
  assumes "ValidatePESStart t1 t2 pid data v = (v1, None)" and "6 \<le> length data'" and "take 3 data' = [0, 0, 1]"
  shows "ValidatePESStart t3 t4 pid data' v1 = (v1, Some (IncompletePES pid (length data)))"
proof -
  obtain st where st: "pes_streams v1 pid = Some st" "ps_inProgress st" "ps_bytesAccumulated st = length data"
    using assms(1) by (auto simp: ValidatePESStart_def Let_def pes_begin_def split: if_splits option.splits)
  have "data' ! 0 = take 3 data' ! 0" "data' ! 1 = take 3 data' ! 1" "data' ! 2 = take 3 data' ! 2" by simp_all
  then have "data' ! 0 = 0" "data' ! 1 = 0" "data' ! 2 = 1" unfolding assms(3) by simp_all
  then show ?thesis using assms(2) st by (simp add: ValidatePESStart_def Let_def)
qed

theorem single_packet_pes_stays_open_witness:
  "\<exists>v1. ValidatePESStart 0 0 256 [0, 0, 1, 0xE0, 0, 2, 7, 7] (NewPESValidator 5) = (v1, None) \<and>
     ValidatePESStart 1 1 256 [0, 0, 1, 0xE0, 0, 2, 8, 8] v1 = (v1, Some (IncompletePES 256 8))"
proof -
  have b: "be16 0 2 = 2" by (simp add: be16_def)
  obtain v1 where v1: "ValidatePESStart 0 0 256 [0, 0, 1, 0xE0, 0, 2, 7, 7] (NewPESValidator 5) = (v1, None)"
    by (simp add: ValidatePESStart_def NewPESValidator_def pes_begin_def b)
  then show ?thesis using single_packet_pes_stays_open [OF v1, of "[0, 0, 1, 0xE0, 0, 2, 8, 8]" 1 1] by simp
qed

end
