(* ===== verification/TS_Alignment.thy ===== *)
theory TS_Alignment
  imports Mirror_Prelude
begin

text \<open>
  The alignment validator of \<^verbatim>\<open>internal/ingestion/validation/alignment.go\<close>: it cuts a byte stream that
  arrives in arbitrary messages back into whole MPEG-TS packets, keeping the partial packet
  between calls.
\<close>

section \<open>State and operations\<close>

definition tsPacketSize :: nat where
  "tsPacketSize = 188"

record AlignmentValidator =
  al_partialPacketBuffer :: "byte list"
  al_hasPartialPacket :: bool
  al_alignmentErrors :: nat
  al_packetsProcessed :: nat
  al_partialPackets :: nat

definition NewAlignmentValidator :: AlignmentValidator where
  "NewAlignmentValidator = \<lparr>al_partialPacketBuffer = [], al_hasPartialPacket = False,
     al_alignmentErrors = 0, al_packetsProcessed = 0, al_partialPackets = 0\<rparr>"

datatype align_error =
    SyncByteMissing nat nat byte
  | NoSyncByte nat

text \<open>The loop over the first bytes of the complete packets: the first one that is not the sync byte.\<close>

fun align_scan :: "byte list \<Rightarrow> nat \<Rightarrow> nat \<Rightarrow> nat option" where
  "align_scan data i 0 = None"
| "align_scan data i (Suc k) =
     (if data ! (i * tsPacketSize) \<noteq> 0x47 then Some i else align_scan data (i + 1) k)"

definition ValidateMPEGTSAlignment ::
  "byte list \<Rightarrow> AlignmentValidator \<Rightarrow> AlignmentValidator \<times> nat \<times> byte list \<times> align_error option" where
  "ValidateMPEGTSAlignment data v =
     (if length data = 0 then (v, 0, [], None)
      else
        (let completePackets = length data div tsPacketSize;
             remainder = length data mod tsPacketSize
         in case align_scan data 0 completePackets of
              Some i \<Rightarrow>
                (v\<lparr>al_alignmentErrors := al_alignmentErrors v + 1\<rparr>, i, drop (i * tsPacketSize) data,
                 Some (SyncByteMissing i (i * tsPacketSize) (data ! (i * tsPacketSize))))
            | None \<Rightarrow>
                (let v = v\<lparr>al_packetsProcessed := al_packetsProcessed v + completePackets\<rparr>
                 in if remainder > 0
                    then (v\<lparr>al_partialPackets := al_partialPackets v + 1\<rparr>, completePackets,
                          drop (length data - remainder) data, None)
                    else (v, completePackets, [], None))))"

text \<open>The first sync byte that is followed by another one a packet later, or is too close to the end to tell.\<close>

fun findSyncByte_from :: "byte list \<Rightarrow> nat \<Rightarrow> nat \<Rightarrow> nat option" where
  "findSyncByte_from data i 0 = None"
| "findSyncByte_from data i (Suc k) =
     (if data ! i = 0x47 \<and> (i + 188 < length data \<and> data ! (i + 188) = 0x47 \<or> i + 188 \<ge> length data)
      then Some i else findSyncByte_from data (i + 1) k)"

definition findSyncByte :: "byte list \<Rightarrow> nat option" where
  "findSyncByte data = findSyncByte_from data 0 (length data)"

text \<open>The tail of \<^verbatim>\<open>ProcessWithAlignment\<close>: cut off the complete packets and keep the rest.\<close>

definition align_cut :: "byte list \<Rightarrow> AlignmentValidator \<Rightarrow> AlignmentValidator \<times> byte list" where
  "align_cut processData v =
     (let completeLength = (length processData div tsPacketSize) * tsPacketSize;
          v = (if completeLength < length processData
               then v\<lparr>al_partialPacketBuffer := drop completeLength processData, al_hasPartialPacket := True\<rparr>
               else v)
      in (v, take completeLength processData))"

definition ProcessWithAlignment ::
  "byte list \<Rightarrow> AlignmentValidator \<Rightarrow> AlignmentValidator \<times> (align_error + byte list)" where
  "ProcessWithAlignment data v =
     (let (v, processData) =
            (if al_hasPartialPacket v \<and> al_partialPacketBuffer v \<noteq> []
             then (v\<lparr>al_partialPacketBuffer := [], al_hasPartialPacket := False\<rparr>, al_partialPacketBuffer v @ data)
             else (v, data))
      in if processData \<noteq> [] \<and> processData ! 0 \<noteq> 0x47 then
           (case findSyncByte processData of
              None \<Rightarrow>
                (v\<lparr>al_partialPacketBuffer := al_partialPacketBuffer v @ processData,
                   al_hasPartialPacket := True, al_alignmentErrors := al_alignmentErrors v + 1\<rparr>,
                 Inl (NoSyncByte (length processData)))
            | Some syncOffset \<Rightarrow>
                (let (v, out) = align_cut (drop syncOffset processData) v in (v, Inr out)))
         else (let (v, out) = align_cut processData v in (v, Inr out)))"

definition GetPartialPacket :: "AlignmentValidator \<Rightarrow> byte list" where
  "GetPartialPacket v = (if al_hasPartialPacket v then al_partialPacketBuffer v else [])"

definition HasPartialPacket :: "AlignmentValidator \<Rightarrow> bool" where
  "HasPartialPacket v = al_hasPartialPacket v"

definition al_GetStats :: "AlignmentValidator \<Rightarrow> nat \<times> nat \<times> nat" where
  "al_GetStats v = (al_alignmentErrors v, al_packetsProcessed v, al_partialPackets v)"

definition al_Reset :: "AlignmentValidator \<Rightarrow> AlignmentValidator" where
  "al_Reset v = v\<lparr>al_partialPacketBuffer := [], al_hasPartialPacket := False, al_alignmentErrors := 0,
     al_packetsProcessed := 0, al_partialPackets := 0\<rparr>"

section \<open>Aligned streams\<close>

definition ts_aligned :: "byte list \<Rightarrow> bool" where
  "ts_aligned s \<longleftrightarrow> (\<forall>i. i * 188 < length s \<longrightarrow> s ! (i * 188) = 0x47)"

lemma ts_aligned_take: "ts_aligned s \<Longrightarrow> ts_aligned (take n s)"
  by (simp add: ts_aligned_def)

lemma ts_aligned_drop:
  assumes "ts_aligned s"
  shows "ts_aligned (drop (k * 188) s)"
  unfolding ts_aligned_def
proof (intro allI impI)
  fix i assume "i * 188 < length (drop (k * 188) s)"
  then have "(k + i) * 188 < length s" by simp
  then have "s ! ((k + i) * 188) = 0x47" using assms unfolding ts_aligned_def by blast
  then show "drop (k * 188) s ! (i * 188) = 0x47"
    using \<open>(k + i) * 188 < length s\<close> by (simp add: add_mult_distrib)
qed

definition al_inv :: "AlignmentValidator \<Rightarrow> bool" where
  "al_inv v \<longleftrightarrow> (al_hasPartialPacket v \<longleftrightarrow> al_partialPacketBuffer v \<noteq> [])"

lemma partial_eq: "al_inv v \<Longrightarrow> GetPartialPacket v = al_partialPacketBuffer v"
  by (auto simp: al_inv_def GetPartialPacket_def)

abbreviation al_cleared :: "AlignmentValidator \<Rightarrow> AlignmentValidator" where
  "al_cleared v \<equiv> v\<lparr>al_partialPacketBuffer := [], al_hasPartialPacket := False\<rparr>"

lemma align_cut_eq:
  "align_cut d (al_cleared v) =
     (v\<lparr>al_partialPacketBuffer := drop (length d div 188 * 188) d,
        al_hasPartialPacket := (length d div 188 * 188 < length d)\<rparr>, take (length d div 188 * 188) d)"
proof -
  define n where "n = length d div 188 * 188"
  have "n \<le> length d" by (simp add: n_def)
  then show ?thesis unfolding align_cut_def tsPacketSize_def n_def [symmetric] Let_def by simp
qed

lemma process_unfold:
  assumes "al_inv v"
  shows "ProcessWithAlignment data v =
     (let d = GetPartialPacket v @ data
      in if d \<noteq> [] \<and> d ! 0 \<noteq> 0x47 then
           (case findSyncByte d of
              None \<Rightarrow> (v\<lparr>al_partialPacketBuffer := d, al_hasPartialPacket := True,
                        al_alignmentErrors := al_alignmentErrors v + 1\<rparr>, Inl (NoSyncByte (length d)))
            | Some k \<Rightarrow> (fst (align_cut (drop k d) (al_cleared v)), Inr (snd (align_cut (drop k d) (al_cleared v)))))
         else (fst (align_cut d (al_cleared v)), Inr (snd (align_cut d (al_cleared v)))))"
proof (cases "al_hasPartialPacket v")
  case True
  then show ?thesis using assms
    by (simp add: ProcessWithAlignment_def Let_def GetPartialPacket_def al_inv_def case_prod_beta split: option.split)
next
  case False
  then have e: "al_cleared v = v" "al_partialPacketBuffer v = []" using assms by (simp_all add: al_inv_def)
  show ?thesis unfolding e(1) using e(2) False
    by (simp add: ProcessWithAlignment_def Let_def GetPartialPacket_def case_prod_beta split: option.split)
qed

text \<open>A call on data that continues an aligned stream.\<close>

lemma process_aligned:
  assumes "al_inv v" and "ts_aligned (GetPartialPacket v @ data)"
  shows "\<exists>v' out. ProcessWithAlignment data v = (v', Inr out) \<and> al_inv v' \<and>
    out @ GetPartialPacket v' = GetPartialPacket v @ data \<and> length out mod 188 = 0 \<and>
    length (GetPartialPacket v') < 188 \<and> al_alignmentErrors v' = al_alignmentErrors v"
proof -
  define d where "d = GetPartialPacket v @ data"
  have a: "\<not> (d \<noteq> [] \<and> d ! 0 \<noteq> 0x47)"
    using assms(2) unfolding d_def ts_aligned_def by (metis mult_is_0 length_greater_0_conv)
  define n where "n = length d div 188 * 188"
  have n: "n \<le> length d" "length d - n < 188" "n mod 188 = 0"
    unfolding n_def by (simp_all add: minus_div_mult_eq_mod)
  let ?v = "v\<lparr>al_partialPacketBuffer := drop n d, al_hasPartialPacket := (n < length d)\<rparr>"
  have "ProcessWithAlignment data v = (?v, Inr (take n d))"
    unfolding process_unfold [OF assms(1)] Let_def d_def [symmetric] if_not_P [OF a] align_cut_eq n_def [symmetric] by simp
  moreover have "al_inv ?v" using n(1) by (auto simp: al_inv_def)
  moreover have "GetPartialPacket ?v = drop n d" using n by (simp add: GetPartialPacket_def)
  ultimately show ?thesis
    unfolding d_def [symmetric] using n by (intro exI [of _ ?v] exI [of _ "take n d"]) simp
qed

fun align_run :: "byte list list \<Rightarrow> AlignmentValidator \<Rightarrow> AlignmentValidator \<times> (align_error + byte list) list" where
  "align_run [] v = (v, [])"
| "align_run (c # cs) v =
     (let (v1, r) = ProcessWithAlignment c v; (v2, rs) = align_run cs v1 in (v2, r # rs))"

fun align_output :: "(align_error + byte list) list \<Rightarrow> byte list" where
  "align_output [] = []"
| "align_output (Inl e # rs) = align_output rs"
| "align_output (Inr out # rs) = out @ align_output rs"

lemma run_aligned:
  assumes "al_inv v" and "ts_aligned (GetPartialPacket v @ concat cs)" and "length (GetPartialPacket v) < 188"
  shows "list_all (\<lambda>r. \<not> isl r \<and> length (projr r) mod 188 = 0) (snd (align_run cs v)) \<and>
    align_output (snd (align_run cs v)) @ GetPartialPacket (fst (align_run cs v)) = GetPartialPacket v @ concat cs \<and>
    length (GetPartialPacket (fst (align_run cs v))) < 188"
  using assms
proof (induction cs arbitrary: v)
  case (Cons c cs)
  have "ts_aligned (take (length (GetPartialPacket v @ c)) (GetPartialPacket v @ concat (c # cs)))"
    by (rule ts_aligned_take [OF Cons.prems(2)])
  then have "ts_aligned (GetPartialPacket v @ c)" by simp
  from process_aligned [OF Cons.prems(1) this]
  obtain v1 out where 1: "ProcessWithAlignment c v = (v1, Inr out)" "al_inv v1"
    "out @ GetPartialPacket v1 = GetPartialPacket v @ c" "length out mod 188 = 0"
    "length (GetPartialPacket v1) < 188"
    by (elim exE conjE) (rule that)
  obtain k where k: "length out = k * 188" using 1(4) by (metis mult.commute mod_0_imp_dvd dvd_def)
  have "ts_aligned (drop (k * 188) ((out @ GetPartialPacket v1) @ concat cs))"
    unfolding 1(3) using Cons.prems(2) by (intro ts_aligned_drop) simp
  then have al: "ts_aligned (GetPartialPacket v1 @ concat cs)" using k by simp
  have run: "align_run (c # cs) v = (fst (align_run cs v1), Inr out # snd (align_run cs v1))"
    by (simp add: 1(1) case_prod_beta Let_def)
  have "out @ GetPartialPacket v1 @ concat cs = GetPartialPacket v @ concat (c # cs)"
    using 1(3) by (simp flip: append_assoc)
  then show ?case using Cons.IH [OF 1(2) al 1(5)] 1(4) unfolding run by simp
qed simp

section \<open>Properties\<close>

text \<open>C36: However an aligned transport stream is cut into messages, the alignment validator hands out the
  same bytes: no call fails, every output is a whole number of 188-byte packets, and the outputs followed by the
  partial packet it keeps are the stream.\<close>

theorem alignment_rechunks:
  assumes "ts_aligned (concat chunks)"
  shows "let (v, rs) = align_run chunks NewAlignmentValidator in
    list_all (\<lambda>r. \<not> isl r \<and> length (projr r) mod 188 = 0) rs \<and>
    align_output rs @ GetPartialPacket v = concat chunks \<and> length (GetPartialPacket v) < 188"
proof -
  have "al_inv NewAlignmentValidator" "GetPartialPacket NewAlignmentValidator = []"
    by (simp_all add: al_inv_def NewAlignmentValidator_def GetPartialPacket_def)
  then show ?thesis using run_aligned [of NewAlignmentValidator chunks] assms by (simp add: case_prod_beta Let_def)
qed

theorem alignment_rechunks_witness:
  "align_output (snd (align_run [0x47 # replicate 99 0, replicate 88 1 @ [0x47, 5]] NewAlignmentValidator)) =
     0x47 # replicate 99 0 @ replicate 88 1"
proof -
  let ?cs = "[0x47 # replicate 99 0, replicate 88 1 @ [0x47, 5]] :: byte list list"
  have "ts_aligned (concat ?cs)"
    unfolding ts_aligned_def
  proof (intro allI impI)
    fix i assume "i * 188 < length (concat ?cs)"
    then have "i = 0 \<or> i = 1" by auto
    then show "concat ?cs ! (i * 188) = 0x47" by (auto simp: nth_append nth_Cons')
  qed
  from alignment_rechunks [OF this] obtain v rs where
    r: "align_run ?cs NewAlignmentValidator = (v, rs)"
      "align_output rs @ GetPartialPacket v = concat ?cs" "length (GetPartialPacket v) < 188"
      "list_all (\<lambda>r. \<not> isl r \<and> length (projr r) mod 188 = 0) rs"
    by (auto simp: case_prod_beta)
  have outs: "length (align_output rs) mod 188 = 0" using r(4)
    by (induction rs rule: align_output.induct) (auto simp: mod_add_eq [symmetric] isl_def)
  have "length (align_output rs) + length (GetPartialPacket v) = 190"
    using arg_cong [OF r(2), of length] by simp
  then obtain k where k: "length (align_output rs) = 188 * k" "188 * k \<le> 190" "190 < 188 * k + 188"
    using outs r(3) by (metis mod_0_imp_dvd dvd_def le_add1 nat_add_left_cancel_less)
  then have "k = 1" by linarith
  then have "length (align_output rs) = 188" using k(1) by simp
  then have "align_output rs = take 188 (concat ?cs)" using r(2) by (metis append_eq_conv_conj)
  then show ?thesis unfolding r(1) by simp
qed

lemma findSyncByte_from_none: "i + k \<le> length d \<Longrightarrow> 0x47 \<notin> set d \<Longrightarrow> findSyncByte_from d i k = None"
proof (induction d i k rule: findSyncByte_from.induct)
  case (2 data i k)
  have "data ! i \<in> set data" using 2(2) by (intro nth_mem) simp
  then have "data ! i \<noteq> 0x47" using 2(3) by metis
  then show ?case using 2 by simp
qed simp

lemma process_garbage:
  assumes "al_inv v" and "0x47 \<notin> set (GetPartialPacket v @ c)" and "c \<noteq> []"
  shows "al_inv (fst (ProcessWithAlignment c v)) \<and>
    GetPartialPacket (fst (ProcessWithAlignment c v)) = GetPartialPacket v @ c"
proof -
  define d where "d = GetPartialPacket v @ c"
  have "d ! 0 \<noteq> 0x47" using assms(2,3) unfolding d_def by (metis append_is_Nil_conv length_greater_0_conv nth_mem)
  moreover have "findSyncByte d = None"
    unfolding findSyncByte_def by (rule findSyncByte_from_none) (use assms(2) d_def in auto)
  ultimately show ?thesis
    unfolding process_unfold [OF assms(1)] Let_def d_def [symmetric] using assms(3)
    by (simp add: d_def al_inv_def GetPartialPacket_def)
qed

text \<open>Input without a sync byte is kept whole: the partial-packet buffer, sized for one packet,
  grows with every such message without bound.\<close>

theorem garbage_grows_partial_buffer:
  assumes "\<forall>c \<in> set chunks. c \<noteq> [] \<and> 0x47 \<notin> set c"
  shows "GetPartialPacket (fst (align_run chunks NewAlignmentValidator)) = concat chunks"
proof -
  have "al_inv v \<Longrightarrow> 0x47 \<notin> set (GetPartialPacket v) \<Longrightarrow>
    GetPartialPacket (fst (align_run chunks v)) = GetPartialPacket v @ concat chunks" for v
    using assms
  proof (induction chunks arbitrary: v)
    case (Cons c cs)
    have "al_inv (fst (ProcessWithAlignment c v)) \<and>
      GetPartialPacket (fst (ProcessWithAlignment c v)) = GetPartialPacket v @ c"
      by (rule process_garbage) (use Cons.prems in auto)
    then show ?case using Cons.IH [of "fst (ProcessWithAlignment c v)"] Cons.prems by (simp add: case_prod_beta Let_def)
  qed simp
  from this [of NewAlignmentValidator] show ?thesis
    by (simp add: al_inv_def NewAlignmentValidator_def GetPartialPacket_def)
qed

theorem garbage_grows_partial_buffer_witness:
  "length (GetPartialPacket (fst (align_run (replicate 3 (replicate 1316 0)) NewAlignmentValidator))) = 3948"
  using garbage_grows_partial_buffer [of "replicate 3 (replicate 1316 0)"] by (simp add: numeral_3_eq_3)

end
