(* ===== verification/MPEGTS_Parser.thy ===== *)
theory MPEGTS_Parser
  imports TS_Validation
begin

unbundle bit_operations_syntax

text \<open>
  The MPEG-TS parser of \<^verbatim>\<open>internal/ingestion/mpegts/parser.go\<close>: packet headers, adaptation fields
  with PCR, PAT and PMT sections, PES headers with time stamps, and the extraction of parameter
  sets from descriptors and from the elementary stream.  Index and slice expressions carry their
  run-time checks where no loop guard covers them.  The extractor callback is a flag (is it
  \<^verbatim>\<open>nil\<close>?) and the list of calls it receives.
\<close>

section \<open>Packets and parser state\<close>

definition PIDProgramAssociation :: u16 where
  "PIDProgramAssociation = 0x0000"

definition PIDNull :: u16 where
  "PIDNull = 0x1FFF"

definition MaxPID :: u16 where
  "MaxPID = 8191"

record TSPacket =
  tk_PID :: u16
  tk_PayloadStart :: bool
  tk_AdaptationFieldExists :: bool
  tk_PayloadExists :: bool
  tk_ContinuityCounter :: byte
  tk_DiscontinuityIndicator :: bool
  tk_Payload :: "byte list"
  tk_HasPTS :: bool
  tk_HasDTS :: bool
  tk_PTS :: int
  tk_DTS :: int
  tk_HasPCR :: bool
  tk_PCR :: int

record Parser =
  tp_pmtPID :: u16
  tp_videoPID :: u16
  tp_audioPID :: u16
  tp_pcrPID :: u16
  tp_pesBuffer :: "u16 \<rightharpoonup> byte list"
  tp_pesStarted :: "u16 \<rightharpoonup> bool"
  tp_patParsed :: bool
  tp_pmtParsed :: bool
  tp_programNum :: u16
  tp_videoStreamType :: byte
  tp_audioStreamType :: byte
  tp_continuityErrors :: nat
  tp_packetValidator :: PacketValidator
  tp_ptsValidator :: PTSDTSValidator
  tp_continuityValidator :: ContinuityValidator
  tp_pesValidator :: PESValidator

datatype ts_error =
    PacketInvalid val_error
  | InvalidPID u16
  | TransportError
  | ReservedAdaptationControl
  | DataTooSmall
  | PESHeaderShort
  | PESStartCode
  | PESShortForPTS
  | PESShortForDTS
  | TimestampBounds val_error
  | TimestampPrefix byte
  | TimestampMarker nat
  | TimestampValue val_error
  | PTSDTSInvalid "val_error option"
  | PTSDTSOrder val_error

definition NewParser :: Parser where
  "NewParser = \<lparr>tp_pmtPID = 0, tp_videoPID = 0, tp_audioPID = 0, tp_pcrPID = 0,
     tp_pesBuffer = Map.empty, tp_pesStarted = Map.empty, tp_patParsed = False, tp_pmtParsed = False,
     tp_programNum = 0, tp_videoStreamType = 0, tp_audioStreamType = 0, tp_continuityErrors = 0,
     tp_packetValidator = NewPacketValidator, tp_ptsValidator = NewPTSDTSValidator ''mpegts-parser'',
     tp_continuityValidator = NewContinuityValidator, tp_pesValidator = NewPESValidator (5 * second)\<rparr>"

section \<open>Transport packets\<close>

definition pid13 :: "byte \<Rightarrow> byte \<Rightarrow> u16" where
  "pid13 hi lo = push_bit 8 (ucast (hi AND 0x1F)) OR ucast lo"

text \<open>The 33-bit base and 9-bit extension of a program clock reference.\<close>

definition pcr_value :: "byte \<Rightarrow> byte \<Rightarrow> byte \<Rightarrow> byte \<Rightarrow> byte \<Rightarrow> byte \<Rightarrow> int" where
  "pcr_value b1 b2 b3 b4 b5 b6 =
     uint (push_bit 25 (ucast b1 :: u64) OR push_bit 17 (ucast b2) OR push_bit 9 (ucast b3) OR
           push_bit 1 (ucast b4) OR ucast (drop_bit 7 b5)) * 300 +
     uint (push_bit 8 (ucast (b5 AND 0x01) :: u64) OR ucast b6)"

text \<open>The adaptation field: the packet with its flags and the offset of the payload.\<close>

definition parse_adaptation :: "byte list \<Rightarrow> TSPacket \<Rightarrow> (TSPacket \<times> nat) outcome" where
  "parse_adaptation data pkt =
     (if \<not> tk_AdaptationFieldExists pkt then Ret (pkt, 4)
      else
        go_at data 4 (\<lambda>len.
          if unat len > 0 then
            go_at data 5 (\<lambda>flags.
              let pkt = pkt\<lparr>tk_DiscontinuityIndicator := (flags AND 0x80 \<noteq> 0)\<rparr>
              in if flags AND 0x10 \<noteq> 0 \<and> unat len \<ge> 7 \<and> 5 + 7 \<le> length data then
                   go_at data 6 (\<lambda>b1. go_at data 7 (\<lambda>b2. go_at data 8 (\<lambda>b3. go_at data 9 (\<lambda>b4.
                   go_at data 10 (\<lambda>b5. go_at data 11 (\<lambda>b6.
                     Ret (pkt\<lparr>tk_PCR := pcr_value b1 b2 b3 b4 b5 b6, tk_HasPCR := True\<rparr>, 5 + unat len)))))))
                 else Ret (pkt, 5 + unat len))
          else Ret (pkt, 5)))"

definition check_continuity :: "TSPacket \<Rightarrow> Parser \<Rightarrow> Parser" where
  "check_continuity pkt p =
     (if tk_PID pkt \<noteq> PIDNull then
        (let (cv, e) = ValidateContinuity (tk_PID pkt) (tk_ContinuityCounter pkt) (tk_PayloadExists pkt)
               (tk_AdaptationFieldExists pkt) (tp_continuityValidator p)
         in p\<lparr>tp_continuityValidator := cv,
              tp_continuityErrors := tp_continuityErrors p + (if e = None then 0 else 1)\<rparr>)
      else p)"

definition parsePacket :: "byte list \<Rightarrow> Parser \<Rightarrow> (Parser \<times> (ts_error + TSPacket)) outcome" where
  "parsePacket data p =
     (case ValidateMPEGTSPacket (tp_packetValidator p) data of
        Some e \<Rightarrow> Ret (p, Inl (PacketInvalid e))
      | None \<Rightarrow>
          go_at data 1 (\<lambda>b1. go_at data 2 (\<lambda>b2.
            let pid = pid13 b1 b2
            in if pid > MaxPID then Ret (p, Inl (InvalidPID pid))
               else if b1 AND 0x80 \<noteq> 0 then Ret (p, Inl TransportError)
               else
                 go_at data 3 (\<lambda>b3.
                   let afc = drop_bit 4 b3 AND 0x03
                   in if afc = 0 then Ret (p, Inl ReservedAdaptationControl)
                      else
                        (let pkt = \<lparr>tk_PID = pid, tk_PayloadStart = (b1 AND 0x40 \<noteq> 0),
                               tk_AdaptationFieldExists = (afc AND 0x02 \<noteq> 0), tk_PayloadExists = (afc AND 0x01 \<noteq> 0),
                               tk_ContinuityCounter = b3 AND 0x0F, tk_DiscontinuityIndicator = False,
                               tk_Payload = [], tk_HasPTS = False, tk_HasDTS = False, tk_PTS = 0, tk_DTS = 0,
                               tk_HasPCR = False, tk_PCR = 0\<rparr>;
                             p = check_continuity pkt p
                         in outcome_bind (parse_adaptation data pkt)
                              (\<lambda>(pkt, off).
                                 if tk_PayloadExists pkt \<and> off < 188
                                 then go_slice data off (length data) (\<lambda>pl. Ret (p, Inr (pkt\<lparr>tk_Payload := pl\<rparr>)))
                                 else Ret (p, Inr pkt)))))))"

section \<open>PES headers\<close>

definition extractTimestamp :: "byte list \<Rightarrow> (ts_error + int) outcome" where
  "extractTimestamp data =
     (case ValidateBufferAccess data 0 5 of
        Some e \<Rightarrow> Ret (Inl (TimestampBounds e))
      | None \<Rightarrow>
          go_at data 0 (\<lambda>d0. go_at data 1 (\<lambda>d1. go_at data 2 (\<lambda>d2. go_at data 3 (\<lambda>d3. go_at data 4 (\<lambda>d4.
            let prefix = d0 AND 0xF1
            in if prefix \<noteq> 0x21 \<and> prefix \<noteq> 0x31 \<and> prefix \<noteq> 0x11 then Ret (Inl (TimestampPrefix d0))
               else if d2 AND 0x01 \<noteq> 0x01 then Ret (Inl (TimestampMarker 2))
               else if d4 AND 0x01 \<noteq> 0x01 then Ret (Inl (TimestampMarker 4))
               else
                 (let timestamp = uint (push_bit 29 (ucast (d0 AND 0x0E) :: u64) OR push_bit 22 (ucast d1) OR
                        push_bit 14 (ucast (d2 AND 0xFE)) OR push_bit 7 (ucast d3) OR drop_bit 1 (ucast d4))
                  in case TV_ValidatePTS timestamp of
                       Some e \<Rightarrow> Ret (Inl (TimestampValue e))
                     | None \<Rightarrow> Ret (Inr timestamp))))))))"

text \<open>The two validators that see the time stamps of a packet.\<close>

definition pes_validate_times :: "TSPacket \<Rightarrow> Parser \<Rightarrow> Parser \<times> TSPacket \<times> ts_error option" where
  "pes_validate_times pkt p =
     (let (pv, r) = ValidateTimestamps (tk_PTS pkt) (tk_DTS pkt) (tp_ptsValidator p);
          p = p\<lparr>tp_ptsValidator := pv\<rparr>
      in if \<not> vr_Valid r then (p, pkt, Some (PTSDTSInvalid (vr_Error r)))
         else (p, pkt, map_option PTSDTSOrder (TV_ValidatePTSDTSOrder (tk_PTS pkt) (tk_DTS pkt))))"

text \<open>PTS and, when the flags announce it, DTS, from offset 9 on.\<close>

definition pes_times :: "byte \<Rightarrow> TSPacket \<Rightarrow> Parser \<Rightarrow> (Parser \<times> TSPacket \<times> ts_error option) outcome" where
  "pes_times ptsDtsFlags pkt p =
     (if ptsDtsFlags AND 0x02 \<noteq> 0 then
        (if length (tk_Payload pkt) < 9 + 5 then Ret (p, pkt, Some PESShortForPTS)
         else
           outcome_bind (extractTimestamp (drop 9 (tk_Payload pkt))) (\<lambda>pts. case pts of
             Inl e \<Rightarrow> Ret (p, pkt, Some e)
           | Inr pts \<Rightarrow>
               (let pkt = pkt\<lparr>tk_PTS := pts, tk_HasPTS := True\<rparr>
                in if ptsDtsFlags AND 0x01 \<noteq> 0 then
                     (if length (tk_Payload pkt) < 14 + 5 then Ret (p, pkt, Some PESShortForDTS)
                      else
                        outcome_bind (extractTimestamp (drop 14 (tk_Payload pkt))) (\<lambda>dts. case dts of
                          Inl e \<Rightarrow> Ret (p, pkt, Some e)
                        | Inr dts \<Rightarrow> Ret (pes_validate_times (pkt\<lparr>tk_DTS := dts, tk_HasDTS := True\<rparr>) p)))
                   else Ret (pes_validate_times (pkt\<lparr>tk_DTS := pts\<rparr>) p))))
      else Ret (p, pkt, None))"

text \<open>\<^verbatim>\<open>parsePESHeader\<close>, with the clock readings of the PES validator.\<close>

definition parsePESHeader ::
  "nanos \<Rightarrow> nanos \<Rightarrow> TSPacket \<Rightarrow> Parser \<Rightarrow> (Parser \<times> TSPacket \<times> ts_error option) outcome" where
  "parsePESHeader now1 now2 pkt p =
     (if length (tk_Payload pkt) < 9 then Ret (p, pkt, Some PESHeaderShort)
      else
        (let p = (if tk_PayloadStart pkt
                  then p\<lparr>tp_pesValidator := fst (ValidatePESStart now1 now2 (tk_PID pkt) (tk_Payload pkt) (tp_pesValidator p)),
                         tp_pesStarted := (tp_pesStarted p)(tk_PID pkt \<mapsto> True)\<rparr>
                  else p)
         in go_at (tk_Payload pkt) 0 (\<lambda>b0. go_at (tk_Payload pkt) 1 (\<lambda>b1. go_at (tk_Payload pkt) 2 (\<lambda>b2.
              if b0 \<noteq> 0x00 \<or> b1 \<noteq> 0x00 \<or> b2 \<noteq> 0x01 then Ret (p, pkt, Some PESStartCode)
              else
                go_at (tk_Payload pkt) 3 (\<lambda>streamID.
                  if streamID \<notin> {0xBC, 0xBE, 0xBF, 0xF0, 0xF1, 0xFF} then
                    go_at (tk_Payload pkt) 7 (\<lambda>b7. pes_times (drop_bit 6 b7 AND 0x03) pkt p)
                  else Ret (p, pkt, None)))))))"

section \<open>Program association table\<close>

text \<open>The loop over the programs: the first one with a non-zero number.\<close>

function pat_loop :: "byte list \<Rightarrow> nat \<Rightarrow> nat \<Rightarrow> (u16 \<times> u16) option" where
  "pat_loop data programListEnd i =
     (if i < programListEnd \<and> i + 3 < length data then
        (let programNum = push_bit 8 (ucast (data ! i) :: u16) OR ucast (data ! (i + 1));
             pmtPID = pid13 (data ! (i + 2)) (data ! (i + 3))
         in if programNum \<noteq> 0 then Some (programNum, pmtPID) else pat_loop data programListEnd (i + 4))
      else None)"
  by pat_completeness auto
termination by (relation "measure (\<lambda>(data, e, i). length data - i)") auto

declare pat_loop.simps [simp del]

definition parsePAT :: "byte list \<Rightarrow> Parser \<Rightarrow> Parser outcome" where
  "parsePAT payload p =
     (if tp_patParsed p \<or> length payload < 8 then Ret p
      else if ValidateBufferAccess payload 0 1 \<noteq> None then Ret p
      else
        go_at payload 0 (\<lambda>b0.
          let pointerField = unat b0; off = pointerField + 1
          in if ValidateBufferAccess payload 0 (int pointerField + 1) \<noteq> None then Ret p
             else if ValidateBufferAccess payload (int off) 8 \<noteq> None then Ret p
             else
               go_slice payload off (length payload) (\<lambda>data.
                 go_at data 0 (\<lambda>tableID. go_at data 1 (\<lambda>d1. go_at data 2 (\<lambda>d2.
                   let sectionLength = be16 (d1 AND 0x0F) d2
                   in if tableID \<noteq> 0x00 then Ret p
                      else if sectionLength < 5 \<or> length data < sectionLength + 3 then Ret p
                      else
                        (case pat_loop data (3 + sectionLength - 4) 8 of
                           None \<Rightarrow> Ret p
                         | Some (programNum, pmtPID) \<Rightarrow>
                             Ret (p\<lparr>tp_programNum := programNum, tp_pmtPID := pmtPID, tp_patParsed := True\<rparr>))))))))"

section \<open>Parameter sets in descriptors\<close>

type_synonym extractor_call = "byte list list \<times> byte"

definition looksLikeAVCDescriptor :: "byte list \<Rightarrow> bool" where
  "looksLikeAVCDescriptor data \<longleftrightarrow>
     length data \<ge> 6 \<and> data ! 0 \<noteq> 0x00 \<and> (data ! 4) AND 0xE0 = 0xE0"

text \<open>The SPS loop (limit 512) and the PPS loop (limit 256) of an AVC configuration record.\<close>

fun avc_sets :: "nat \<Rightarrow> byte list \<Rightarrow> nat \<Rightarrow> nat \<Rightarrow> byte list list \<Rightarrow> byte list list \<times> nat" where
  "avc_sets limit data 0 off sets = (sets, off)"
| "avc_sets limit data (Suc k) off sets =
     (if off + 2 \<le> length data then
        (let len = be16 (data ! off) (data ! (off + 1))
         in if len = 0 then avc_sets limit data k (off + 2) sets
            else if len > limit \<or> len > length data - off - 2 then (sets, off)
            else avc_sets limit data k (off + 2 + len)
                   (sets @ [[0x00, 0x00, 0x00, 0x01] @ gslice data (off + 2) (off + 2 + len)]))
      else (sets, off))"

definition extractH264ParameterSetsFromDescriptor :: "byte list \<Rightarrow> byte list list" where
  "extractH264ParameterSetsFromDescriptor data =
     (if length data < 6 then []
      else if length data > 1024 then []
      else if \<not> looksLikeAVCDescriptor data then []
      else
        (let numSPS = unat ((data ! 4) AND 0x1F);
             (sets, off) = avc_sets 512 data numSPS 5 []
         in if off \<ge> length data then sets
            else
              (let numPPS = min (unat (data ! off)) 8
               in fst (avc_sets 256 data numPPS (off + 1) sets))))"

definition MaxHEVCParamArrays :: nat where
  "MaxHEVCParamArrays = 16"

text \<open>The units of one array; the flag says that the overall limit ended the extraction.\<close>

fun hevc_nals :: "byte list \<Rightarrow> nat \<Rightarrow> nat \<Rightarrow> nat \<Rightarrow> byte list list \<Rightarrow> byte list list \<times> nat \<times> nat \<times> bool" where
  "hevc_nals data 0 off tot sets = (sets, off, tot, False)"
| "hevc_nals data (Suc k) off tot sets =
     (if off + 2 \<le> length data then
        (if tot \<ge> MaxNALUnitsPerFrame then (sets, off, tot, True)
         else
           (let nalLength = be16 (data ! off) (data ! (off + 1)); off = off + 2
            in if off + nalLength \<le> length data
               then hevc_nals data k (off + nalLength) (tot + 1)
                      (sets @ [[0x00, 0x00, 0x00, 0x01] @ gslice data off (off + nalLength)])
               else hevc_nals data k off tot sets))
      else (sets, off, tot, False))"

fun hevc_arrays :: "byte list \<Rightarrow> nat \<Rightarrow> nat \<Rightarrow> nat \<Rightarrow> byte list list \<Rightarrow> byte list list" where
  "hevc_arrays data 0 off tot sets = sets"
| "hevc_arrays data (Suc k) off tot sets =
     (if off + 3 \<le> length data then
        (let numNalUnits = be16 (data ! (off + 1)) (data ! (off + 2));
             (sets, off, tot, stop) = hevc_nals data numNalUnits (off + 3) tot sets
         in if stop then sets else hevc_arrays data k off tot sets)
      else sets)"

definition extractHEVCParameterSetsFromDescriptor :: "byte list \<Rightarrow> byte list list" where
  "extractHEVCParameterSetsFromDescriptor data =
     (if length data < 22 then []
      else if 22 \<ge> length data then []
      else hevc_arrays data (min (unat (data ! 22)) MaxHEVCParamArrays) 23 0 [])"

definition extractAV1ParameterSetsFromDescriptor :: "byte list \<Rightarrow> byte list list" where
  "extractAV1ParameterSetsFromDescriptor data = []"

definition descriptor_sets :: "byte \<Rightarrow> byte \<Rightarrow> byte list \<Rightarrow> byte list list" where
  "descriptor_sets tag streamType data =
     (if tag = 0x28 \<and> (streamType = 0x1B \<or> streamType = 0) then extractH264ParameterSetsFromDescriptor data
      else if tag = 0x38 \<and> streamType = 0x24 then extractHEVCParameterSetsFromDescriptor data
      else if tag = 0x42 \<and> streamType = 0x51 then extractAV1ParameterSetsFromDescriptor data
      else [])"

function descriptor_loop :: "byte list \<Rightarrow> byte \<Rightarrow> nat \<Rightarrow> byte list list \<Rightarrow> byte list list" where
  "descriptor_loop ds streamType off sets =
     (if off < length ds \<and> off + 2 \<le> length ds then
        (let n = unat (ds ! (off + 1))
         in if off + 2 + n > length ds then sets
            else descriptor_loop ds streamType (off + 2 + n)
                   (sets @ descriptor_sets (ds ! off) streamType (gslice ds (off + 2) (off + 2 + n))))
      else sets)"
  by pat_completeness auto
termination by (relation "measure (\<lambda>(ds, st, off, sets). length ds - off)") auto

declare descriptor_loop.simps [simp del]

definition extractParameterSetsFromDescriptors :: "byte list \<Rightarrow> byte \<Rightarrow> bool \<Rightarrow> extractor_call list" where
  "extractParameterSetsFromDescriptors descriptors streamType extractor =
     (let sets = descriptor_loop descriptors streamType 0 []
      in if sets \<noteq> [] \<and> extractor then [(sets, streamType)] else [])"

section \<open>Program map table\<close>

definition pmt_assign :: "byte \<Rightarrow> u16 \<Rightarrow> Parser \<Rightarrow> Parser" where
  "pmt_assign streamType elementaryPID p =
     (if streamType \<in> {0x01, 0x02, 0x1B, 0x24, 0x51} then
        (if tp_videoPID p = 0 then p\<lparr>tp_videoPID := elementaryPID, tp_videoStreamType := streamType\<rparr> else p)
      else if streamType \<in> {0x03, 0x04, 0x0F, 0x11, 0x81} then
        (if tp_audioPID p = 0 then p\<lparr>tp_audioPID := elementaryPID, tp_audioStreamType := streamType\<rparr> else p)
      else p)"

function pmt_loop :: "byte list \<Rightarrow> bool \<Rightarrow> nat \<Rightarrow> nat \<Rightarrow> Parser \<times> extractor_call list \<Rightarrow> Parser \<times> extractor_call list" where
  "pmt_loop data extractor streamListEnd i (p, calls) =
     (if i < streamListEnd \<and> i + 4 < length data then
        (let streamType = data ! i;
             elementaryPID = pid13 (data ! (i + 1)) (data ! (i + 2));
             esInfoLength = be16 ((data ! (i + 3)) AND 0x0F) (data ! (i + 4));
             new = (if esInfoLength > 0 \<and> extractor \<and> i + 5 + esInfoLength \<le> length data
                    then extractParameterSetsFromDescriptors (gslice data (i + 5) (i + 5 + esInfoLength)) streamType extractor
                    else [])
         in pmt_loop data extractor streamListEnd (i + 5 + esInfoLength)
              (pmt_assign streamType elementaryPID p, calls @ new))
      else (p, calls))"
  by pat_completeness auto
termination by (relation "measure (\<lambda>(data, x, e, i, s). length data - i)") auto

declare pmt_loop.simps [simp del]

text \<open>The section after the pointer field.\<close>

definition parse_pmt_section :: "byte list \<Rightarrow> bool \<Rightarrow> Parser \<Rightarrow> (Parser \<times> extractor_call list) outcome" where
  "parse_pmt_section data extractor p =
     go_at data 0 (\<lambda>tableID. go_at data 1 (\<lambda>d1. go_at data 2 (\<lambda>d2.
       let sectionLength = be16 (d1 AND 0x0F) d2
       in if tableID \<noteq> 0x02 then Ret (p, [])
          else if sectionLength < 9 \<or> length data < sectionLength + 3 then Ret (p, [])
          else
            go_at data 8 (\<lambda>d8. go_at data 9 (\<lambda>d9. go_at data 10 (\<lambda>d10. go_at data 11 (\<lambda>d11.
              let p = p\<lparr>tp_pcrPID := pid13 d8 d9\<rparr>;
                  programInfoLength = be16 (d10 AND 0x0F) d11;
                  streams = (\<lambda>calls.
                    if 12 + programInfoLength > length data then Ret (p, calls)
                    else
                      (let (p, calls) = pmt_loop data extractor (3 + sectionLength - 4) (12 + programInfoLength) (p, calls)
                       in Ret (p\<lparr>tp_pmtParsed := True\<rparr>, calls)))
              in if programInfoLength > 0 \<and> extractor then
                   (if 12 + programInfoLength > length data then Ret (p, [])
                    else
                      go_slice data 12 (12 + programInfoLength) (\<lambda>ds.
                        streams (extractParameterSetsFromDescriptors ds 0 extractor)))
                 else streams [])))))))"

definition parsePMTWithExtractor :: "byte list \<Rightarrow> bool \<Rightarrow> Parser \<Rightarrow> (Parser \<times> extractor_call list) outcome" where
  "parsePMTWithExtractor payload extractor p =
     (if tp_pmtParsed p \<or> length payload < 12 then Ret (p, [])
      else
        go_at payload 0 (\<lambda>b0.
          let off = unat b0 + 1
          in if off \<ge> length payload \<or> length payload - off < 12 then Ret (p, [])
             else go_slice payload off (length payload) (\<lambda>data. parse_pmt_section data extractor p)))"

section \<open>Parameter sets in the elementary stream\<close>

text \<open>The end of a unit: the next start code from \<open>j\<close> on, or the end of the data.\<close>

function nal_end :: "byte list \<Rightarrow> nat \<Rightarrow> nat" where
  "nal_end data j =
     (if j + 3 < length data then
        (if data ! j = 0x00 \<and> data ! (j + 1) = 0x00 \<and> data ! (j + 2) = 0x01 then j
         else if j + 4 < length data \<and> data ! j = 0x00 \<and> data ! (j + 1) = 0x00 \<and> data ! (j + 2) = 0x00 \<and>
                 data ! (j + 3) = 0x01 then j
         else nal_end data (j + 1))
      else length data)"
  by pat_completeness auto
termination by (relation "measure (\<lambda>(data, j). length data - j)") auto

declare nal_end.simps [simp del]

definition is_parameter_set :: "byte \<Rightarrow> byte \<Rightarrow> bool" where
  "is_parameter_set streamType b =
     (if streamType = 0x1B then b AND 0x1F = 7 \<or> b AND 0x1F = 8
      else if streamType = 0x24 then drop_bit 1 b AND 0x3F \<in> {32, 33, 34}
      else False)"

text \<open>The start code at position \<open>i\<close>: where the unit begins and where the scan goes on after it.\<close>

definition start_code_at :: "byte list \<Rightarrow> nat \<Rightarrow> (nat \<times> nat) option" where
  "start_code_at data i =
     (if data ! i = 0x00 \<and> data ! (i + 1) = 0x00 \<and> data ! (i + 2) = 0x01 then Some (i + 3, i + 1)
      else if data ! i = 0x00 \<and> data ! (i + 1) = 0x00 \<and> data ! (i + 2) = 0x00 \<and> data ! (i + 3) = 0x01
      then Some (i + 4, i + 2)
      else None)"

text \<open>The position the unit is copied from.\<close>

definition nal_copy_start :: "byte list \<Rightarrow> nat \<Rightarrow> nat" where
  "nal_copy_start data nalStart =
     (let pos = int nalStart - 4;
          pos = (if pos < 0 \<or> (pos + 2 < int (length data) \<and> data ! nat (pos + 2) = 0x01)
                 then int nalStart - 3 else pos)
      in if pos < 0 then 0 else nat pos)"

lemma nal_end_bounds: "j \<le> length data \<Longrightarrow> j \<le> nal_end data j \<and> nal_end data j \<le> length data"
proof (induction data j rule: nal_end.induct)
  case (1 data j)
  then show ?case by (subst (1 2) nal_end.simps) auto
qed

function bitstream_loop :: "byte \<Rightarrow> byte list \<Rightarrow> nat \<Rightarrow> byte list list \<Rightarrow> byte list list" where
  "bitstream_loop streamType data i sets =
     (if i + 4 < length data then
        (case start_code_at data i of
           None \<Rightarrow> bitstream_loop streamType data (i + 1) sets
         | Some (nalStart, nxt) \<Rightarrow>
             if nalStart \<ge> length data then sets
             else if \<not> is_parameter_set streamType (data ! nalStart)
             then bitstream_loop streamType data nxt sets
             else
               (let nalEnd = nal_end data (nalStart + 1)
                in bitstream_loop streamType data nalEnd
                     (sets @ [gslice data (nal_copy_start data nalStart) nalEnd])))
      else sets)"
  by pat_completeness auto
termination
proof (relation "measure (\<lambda>(st, data, i, sets). length data - i)", goal_cases)
  case (4 streamType data i sets x2 nalStart nxt nalEnd)
  have "i < nalStart" using 4(2,3) by (auto simp: start_code_at_def split: if_splits)
  then have "i < nalEnd" using 4(4,6) nal_end_bounds [of "nalStart + 1" data] by simp
  then show ?case using 4(1) by simp
qed (auto simp: start_code_at_def split: if_splits)

declare bitstream_loop.simps [simp del]

definition extractParameterSetsFromBitstream :: "byte list \<Rightarrow> byte \<Rightarrow> byte list list" where
  "extractParameterSetsFromBitstream data streamType = bitstream_loop streamType data 0 []"

definition extractParameterSetsFromPES :: "TSPacket \<Rightarrow> Parser \<Rightarrow> extractor_call list outcome" where
  "extractParameterSetsFromPES pkt p =
     (if length (tk_Payload pkt) < 9 then Ret []
      else if tk_PID pkt \<noteq> tp_videoPID p \<or> tp_videoPID p = 0 then Ret []
      else
        go_at (tk_Payload pkt) 8 (\<lambda>b8.
          let pesPayloadStart = 9 + unat b8
          in if pesPayloadStart \<ge> length (tk_Payload pkt) then Ret []
             else
               go_slice (tk_Payload pkt) pesPayloadStart (length (tk_Payload pkt)) (\<lambda>pesPayload.
                 let sets = extractParameterSetsFromBitstream pesPayload (tp_videoStreamType p)
                 in Ret (if sets \<noteq> [] then [(sets, tp_videoStreamType p)] else []))))"

definition assemblePESPacket :: "nanos \<Rightarrow> TSPacket \<Rightarrow> Parser \<Rightarrow> Parser \<times> extractor_call list" where
  "assemblePESPacket now pkt p =
     (let pid = tk_PID pkt
      in if pid \<noteq> tp_videoPID p \<or> tp_videoPID p = 0 then (p, [])
         else if tp_pesStarted p pid \<noteq> Some True then (p, [])
         else
           (case ValidatePESContinuation now pid (length (tk_Payload pkt)) (tp_pesValidator p) of
              (pv, Some e) \<Rightarrow>
                (p\<lparr>tp_pesValidator := pv, tp_pesBuffer := (tp_pesBuffer p)(pid := None),
                   tp_pesStarted := (tp_pesStarted p)(pid \<mapsto> False)\<rparr>, [])
            | (pv, None) \<Rightarrow>
                (let buf = (case tp_pesBuffer p pid of Some b \<Rightarrow> b @ tk_Payload pkt | None \<Rightarrow> tk_Payload pkt);
                     p = p\<lparr>tp_pesValidator := pv, tp_pesBuffer := (tp_pesBuffer p)(pid \<mapsto> buf)\<rparr>;
                     sets = (if length buf > 1024 then extractParameterSetsFromBitstream buf (tp_videoStreamType p) else []);
                     calls = (if sets \<noteq> [] then [(sets, tp_videoStreamType p)] else [])
                 in if \<not> fst (GetStreamState pid pv)
                    then (p\<lparr>tp_pesBuffer := (tp_pesBuffer p)(pid := None),
                            tp_pesStarted := (tp_pesStarted p)(pid := None)\<rparr>, calls)
                    else (p, calls))))"

section \<open>Parsing\<close>

text \<open>The tables: PAT, the PMT announced by it, or a PMT guessed on a common PID.\<close>

definition parse_tables :: "TSPacket \<Rightarrow> bool \<Rightarrow> Parser \<Rightarrow> (Parser \<times> extractor_call list) outcome" where
  "parse_tables pkt extractor p =
     (if tk_PID pkt = PIDProgramAssociation \<and> tk_PayloadStart pkt \<and> tk_PayloadExists pkt
      then outcome_bind (parsePAT (tk_Payload pkt) p) (\<lambda>p. Ret (p, []))
      else if tk_PID pkt = tp_pmtPID p \<and> tk_PayloadStart pkt \<and> tk_PayloadExists pkt
      then parsePMTWithExtractor (tk_Payload pkt) extractor p
      else if \<not> tp_pmtParsed p \<and> tk_PayloadStart pkt \<and> tk_PayloadExists pkt \<and>
              tk_PID pkt \<in> {0x0010, 0x0011, 0x1000, 0x1001}
      then
        (if length (tk_Payload pkt) > 1 then
           go_at (tk_Payload pkt) 0 (\<lambda>b0.
             if unat b0 + 1 < length (tk_Payload pkt) \<and> tk_Payload pkt ! (unat b0 + 1) = 0x02
             then parsePMTWithExtractor (tk_Payload pkt) extractor (p\<lparr>tp_pmtPID := tk_PID pkt\<rparr>)
             else Ret (p, []))
         else Ret (p, []))
      else Ret (p, []))"

text \<open>One transport packet: the new state, the packet handed out, if any, and the extractor's calls.\<close>

definition parse_one ::
  "nanos \<Rightarrow> bool \<Rightarrow> byte list \<Rightarrow> Parser \<Rightarrow> (Parser \<times> TSPacket option \<times> extractor_call list) outcome" where
  "parse_one now extractor data p =
     outcome_bind (parsePacket data p) (\<lambda>(p, r). case r of
       Inl e \<Rightarrow> Ret (p, None, [])
     | Inr pkt \<Rightarrow>
         outcome_bind (parse_tables pkt extractor p) (\<lambda>(p, calls).
           if tk_PayloadStart pkt \<and> tk_PayloadExists pkt then
             outcome_bind (parsePESHeader now now pkt p) (\<lambda>(p, pkt, e).
               outcome_bind (if extractor \<and> tk_PID pkt = tp_videoPID p
                             then extractParameterSetsFromPES pkt p else Ret [])
                 (\<lambda>more. Ret (p, Some pkt, calls @ more)))
           else if tk_PayloadExists pkt then
             (let (p, more) = (if extractor \<and> tk_PID pkt = tp_videoPID p
                               then assemblePESPacket now pkt p else (p, []))
              in Ret (p, Some pkt, calls @ more))
           else Ret (p, None, calls)))"

function parse_loop ::
  "nanos \<Rightarrow> bool \<Rightarrow> byte list \<Rightarrow> Parser \<Rightarrow> (Parser \<times> TSPacket list \<times> extractor_call list) outcome" where
  "parse_loop now extractor data p =
     (if length data < 188 then Ret (p, [], [])
      else
        (case parse_one now extractor (take 188 data) p of
           Ret (p, pkt, calls) \<Rightarrow>
             outcome_bind (parse_loop now extractor (drop 188 data) p)
               (\<lambda>(p, pkts, more). Ret (p, (case pkt of None \<Rightarrow> pkts | Some k \<Rightarrow> k # pkts), calls @ more))
         | Panic \<Rightarrow> Panic
         | Block \<Rightarrow> Block))"
  by pat_completeness auto
termination by (relation "measure (\<lambda>(now, x, data, p). length data)") auto

declare parse_loop.simps [simp del]

text \<open>The clock does not move within one call.\<close>

definition ParseWithExtractor ::
  "nanos \<Rightarrow> bool \<Rightarrow> byte list \<Rightarrow> Parser \<Rightarrow> (Parser \<times> (ts_error + TSPacket list) \<times> extractor_call list) outcome" where
  "ParseWithExtractor now extractor data p =
     (if length data < 188 then Ret (p, Inl DataTooSmall, [])
      else outcome_bind (parse_loop now extractor data p) (\<lambda>(p, pkts, calls). Ret (p, Inr pkts, calls)))"

definition Parse :: "nanos \<Rightarrow> byte list \<Rightarrow> Parser \<Rightarrow> (Parser \<times> (ts_error + TSPacket list) \<times> extractor_call list) outcome" where
  "Parse now data p = ParseWithExtractor now False data p"

section \<open>Accessors and maintenance\<close>

definition SetVideoPID :: "u16 \<Rightarrow> Parser \<Rightarrow> Parser" where
  "SetVideoPID pid p = p\<lparr>tp_videoPID := pid\<rparr>"

definition SetAudioPID :: "u16 \<Rightarrow> Parser \<Rightarrow> Parser" where
  "SetAudioPID pid p = p\<lparr>tp_audioPID := pid\<rparr>"

definition SetPCRPID :: "u16 \<Rightarrow> Parser \<Rightarrow> Parser" where
  "SetPCRPID pid p = p\<lparr>tp_pcrPID := pid\<rparr>"

definition IsVideoPID :: "u16 \<Rightarrow> Parser \<Rightarrow> bool" where
  "IsVideoPID pid p \<longleftrightarrow> pid = tp_videoPID p"

definition IsAudioPID :: "u16 \<Rightarrow> Parser \<Rightarrow> bool" where
  "IsAudioPID pid p \<longleftrightarrow> pid = tp_audioPID p"

definition IsPCRPID :: "u16 \<Rightarrow> Parser \<Rightarrow> bool" where
  "IsPCRPID pid p \<longleftrightarrow> pid = tp_pcrPID p"

definition AddParameterSetsFromPMT :: "Parser \<Rightarrow> Parser" where
  "AddParameterSetsFromPMT p = (if tp_pmtParsed p then p\<lparr>tp_pmtParsed := False\<rparr> else p)"

definition ResetPTSValidator :: "Parser \<Rightarrow> Parser" where
  "ResetPTSValidator p = p\<lparr>tp_ptsValidator := pd_Reset (tp_ptsValidator p)\<rparr>"

definition ResetContinuityValidator :: "Parser \<Rightarrow> Parser" where
  "ResetContinuityValidator p = p\<lparr>tp_continuityValidator := cv_Reset (tp_continuityValidator p)\<rparr>"

definition CheckPESTimeouts :: "nanos \<Rightarrow> Parser \<Rightarrow> Parser \<times> u16 set" where
  "CheckPESTimeouts now p =
     (let (pv, pids) = CheckTimeouts now (tp_pesValidator p)
      in (p\<lparr>tp_pesValidator := pv, tp_pesBuffer := tp_pesBuffer p |` (- pids),
            tp_pesStarted := tp_pesStarted p |` (- pids)\<rparr>, pids))"

end
