(* ===== verification/MPEGTS_Props.thy ===== *)
theory MPEGTS_Props
  imports MPEGTS_Parser
begin

unbundle bit_operations_syntax

text \<open>
  What the MPEG-TS parser guarantees: no input makes it panic, time stamps and transport packets
  survive an encoding, a multiplex is handed out packet by packet, and the PMT selects the first
  video and audio stream.
\<close>

section \<open>No input panics\<close>

lemma buffer_access_iff:
  "ValidateBufferAccess b off len = None \<longleftrightarrow> 0 \<le> off \<and> 0 \<le> len \<and> off + len \<le> int (length b)"
  by (auto simp: ValidateBufferAccess_def)

lemma mpegts_packet_length: "ValidateMPEGTSPacket v data = None \<Longrightarrow> length data = 188"
  by (simp add: ValidateMPEGTSPacket_def split: if_splits)

lemma parse_adaptation_returns: "length data = 188 \<Longrightarrow> returns (parse_adaptation data pkt)"
  unfolding parse_adaptation_def Let_def by (intro returns_rules) simp_all

lemma parsePacket_returns: "returns (parsePacket data p)"
  unfolding parsePacket_def Let_def
  by (intro returns_rules parse_adaptation_returns) (auto dest: mpegts_packet_length)

lemma extractTimestamp_returns: "returns (extractTimestamp data)"
  unfolding extractTimestamp_def Let_def
  by (intro returns_rules) (simp_all add: buffer_access_iff less_eq_Suc_le)

lemma pes_times_returns: "returns (pes_times fl pkt p)"
  unfolding pes_times_def Let_def by (intro returns_rules extractTimestamp_returns)

lemma parsePESHeader_returns: "returns (parsePESHeader t1 t2 pkt p)"
  unfolding parsePESHeader_def Let_def by (intro returns_rules pes_times_returns) linarith+

lemma parsePAT_returns: "returns (parsePAT payload p)"
  unfolding parsePAT_def Let_def
  by (intro returns_rules) (auto simp: buffer_access_iff simp del: of_nat_unat)

lemma parse_pmt_section_returns: "12 \<le> length data \<Longrightarrow> returns (parse_pmt_section data ex p)"
  unfolding parse_pmt_section_def Let_def by (intro returns_rules) linarith+

lemma parsePMT_returns: "returns (parsePMTWithExtractor payload ex p)"
  unfolding parsePMTWithExtractor_def Let_def
  by (intro returns_rules parse_pmt_section_returns) auto

lemma parse_tables_returns: "returns (parse_tables pkt ex p)"
  unfolding parse_tables_def by (intro returns_rules parsePAT_returns parsePMT_returns) auto

lemma extractPES_returns: "returns (extractParameterSetsFromPES pkt p)"
  unfolding extractParameterSetsFromPES_def Let_def by (intro returns_rules) auto

lemma parse_one_returns: "returns (parse_one now ex data p)"
  unfolding parse_one_def Let_def
  by (intro returns_rules parsePacket_returns parse_tables_returns parsePESHeader_returns extractPES_returns)

lemma parse_loop_returns: "returns (parse_loop now ex data p)"
proof (induction now ex data p rule: parse_loop.induct)
  case (1 now ex data p)
  show ?case
  proof (cases "length data < 188")
    case True
    then show ?thesis by (subst parse_loop.simps) (simp add: returns_rules)
  next
    case False
    obtain p1 k calls where 2: "parse_one now ex (take 188 data) p = Ret (p1, k, calls)"
      using parse_one_returns unfolding returns_def by (metis surj_pair)
    from "1.IH" [OF False 2 refl] have "returns (parse_loop now ex (drop 188 data) p1)" by simp
    then show ?thesis using False by (subst parse_loop.simps) (auto simp: 2 intro!: returns_rules)
  qed
qed


section \<open>Time stamps\<close>

text \<open>The five-byte field of ISO 13818-1 with its marker bits, for a 33-bit time stamp.\<close>

definition pts_field :: "byte \<Rightarrow> u64 \<Rightarrow> byte list" where
  "pts_field code t =
     [push_bit 4 code OR push_bit 1 (take_bit 3 (ucast (drop_bit 30 t))) OR 1, ucast (drop_bit 22 t),
      push_bit 1 (ucast (drop_bit 15 t)) OR 1, ucast (drop_bit 7 t), push_bit 1 (ucast t) OR 1]"

lemma mask_0E: "(0x0E :: byte) = push_bit 1 (mask 3)"
  by (simp add: mask_eq_exp_minus_1)

lemma mask_FE: "(0xFE :: byte) = push_bit 1 (mask 7)"
  by (simp add: mask_eq_exp_minus_1)

lemmas bit_iffs = bit_push_bit_iff bit_ucast_iff bit_drop_bit_eq bit_and_iff bit_or_iff bit_take_bit_iff bit_mask_iff bit_1_iff

lemma bit_high:
  "bit (push_bit 29 (ucast ((push_bit 4 m OR push_bit 1 (take_bit 3 (ucast (drop_bit 30 t))) OR 1) AND (0x0E::byte))) :: u64) n
   \<longleftrightarrow> 30 \<le> n \<and> n < 33 \<and> bit (t::u64) n"
  unfolding mask_0E by (simp only: bit_iffs) auto

lemma bit_byte:
  "bit (push_bit k (ucast (ucast (drop_bit k t) :: byte)) :: u64) n \<longleftrightarrow> k \<le> n \<and> n < k + 8 \<and> n < 64 \<and> bit (t::u64) n"
  by (simp only: bit_iffs) auto

lemma bit_middle:
  "bit (push_bit 14 (ucast ((push_bit 1 (ucast (drop_bit 15 t)) OR 1) AND (0xFE::byte))) :: u64) n
   \<longleftrightarrow> 15 \<le> n \<and> n < 22 \<and> bit (t::u64) n"
  unfolding mask_FE by (simp only: bit_iffs) auto

lemma bit_low:
  "bit (drop_bit 1 (ucast (push_bit 1 (ucast t) OR 1 :: byte)) :: u64) n \<longleftrightarrow> n < 7 \<and> bit (t::u64) n"
  by (simp only: bit_iffs o_apply) auto

lemma pts_field_value:
  assumes "take_bit 33 t = t"
  shows "push_bit 29 (ucast ((pts_field m t ! 0) AND 0x0E) :: u64) OR push_bit 22 (ucast (pts_field m t ! 1)) OR
     push_bit 14 (ucast ((pts_field m t ! 2) AND 0xFE)) OR push_bit 7 (ucast (pts_field m t ! 3)) OR
     drop_bit 1 (ucast (pts_field m t ! 4)) = t"
proof (rule bit_word_eqI)
  fix n
  have "bit t n \<Longrightarrow> n < 33" using assms by (metis bit_take_bit_iff)
  moreover have "pts_field m t ! 0 = push_bit 4 m OR push_bit 1 (take_bit 3 (ucast (drop_bit 30 t))) OR 1"
    "pts_field m t ! 1 = ucast (drop_bit 22 t)" "pts_field m t ! 2 = push_bit 1 (ucast (drop_bit 15 t)) OR 1"
    "pts_field m t ! 3 = ucast (drop_bit 7 t)" "pts_field m t ! 4 = push_bit 1 (ucast t) OR 1"
    by (simp_all add: pts_field_def)
  ultimately show "bit (push_bit 29 (ucast ((pts_field m t ! 0) AND 0x0E) :: u64) OR push_bit 22 (ucast (pts_field m t ! 1)) OR
     push_bit 14 (ucast ((pts_field m t ! 2) AND 0xFE)) OR push_bit 7 (ucast (pts_field m t ! 3)) OR
     drop_bit 1 (ucast (pts_field m t ! 4))) n = bit t n"
    unfolding bit_or_iff by (simp only: bit_high bit_byte bit_middle bit_low) auto
qed

lemma marker_bit: "(push_bit 1 x OR 1) AND (1 :: byte) = 1"
  by (rule bit_word_eqI) (auto simp: bit_iffs)

lemma prefix_bits:
  assumes "m \<in> {1, 2, 3}"
  shows "(push_bit 4 m OR push_bit 1 (take_bit 3 x) OR 1) AND (0xF1 :: byte) \<in> {0x11, 0x21, 0x31}"
proof -
  have "push_bit 1 (take_bit 3 x) AND (0xF1 :: byte) = 0"
  proof (rule bit_word_eqI)
    fix n assume "n < LENGTH(8)"
    then have "n \<in> {0, 1, 2, 3, 4, 5, 6, 7}" by auto
    then show "bit (push_bit 1 (take_bit 3 x) AND (0xF1 :: byte)) n = bit (0 :: byte) n"
      by (simp only: bit_iffs) auto
  qed
  then have "(push_bit 4 m OR push_bit 1 (take_bit 3 x) OR 1) AND (0xF1 :: byte) = (push_bit 4 m OR 1) AND 0xF1"
    by (simp add: word_ao_dist)
  moreover have "(push_bit 4 m OR 1) AND (0xF1 :: byte) \<in> {0x11, 0x21, 0x31}" using assms by auto
  ultimately show ?thesis by simp
qed

text \<open>The parser's time-stamp extraction inverts the encoding of ISO 13818-1: for each of the three prefixes
  and every 33-bit time stamp, the five-byte field is read back, whatever follows it.\<close>

theorem pts_field_roundtrip:
  assumes "unat t < 2 ^ 33" and "code \<in> {1, 2, 3}"
  shows "extractTimestamp (pts_field code t @ rest) = Ret (Inr (uint t))"
proof -
  have "uint t = int (unat t)" by simp
  then have t: "uint t < 2 ^ 33" using assms(1) by (simp del: of_nat_unat)
  have "take_bit 33 t = t"
    by (rule unsigned_word_eqI [where ?'a = nat])
       (use assms(1) in \<open>simp add: unsigned_take_bit_eq take_bit_nat_eq_self\<close>)
  note v = pts_field_value [OF this, of code]
  have five: "length (pts_field code t) = 5" by (simp add: pts_field_def)
  have n: "(pts_field code t @ rest) ! k = pts_field code t ! k" if "k < 5" for k
    using that five by (simp add: nth_append)
  have l: "5 \<le> length (pts_field code t @ rest)" using five by simp
  have p: "(pts_field code t ! 0) AND 0xF1 \<in> {0x11, 0x21, 0x31}"
    using prefix_bits [OF assms(2)] by (simp add: pts_field_def)
  have m: "(pts_field code t ! 2) AND 0x01 = 0x01" "(pts_field code t ! 4) AND 0x01 = 0x01"
    by (simp_all add: pts_field_def marker_bit del: push_bit_Suc One_nat_def)
  have b: "ValidateBufferAccess (pts_field code t @ rest) 0 5 = None" using l by (simp add: buffer_access_iff)
  have ok: "TV_ValidatePTS (uint t) = None" using t by (simp add: TV_ValidatePTS_def)
  have at: "go_at (pts_field code t @ rest) k f = f (pts_field code t ! k)" if "k < 5" for k f
    using that l n by simp
  show ?thesis
    unfolding extractTimestamp_def b Let_def
    using p m v ok by (auto simp: at)
qed

theorem pts_field_roundtrip_witness:
  "extractTimestamp (pts_field 2 8589934591 @ [0xFF]) = Ret (Inr 8589934591)"
  using pts_field_roundtrip [of 8589934591 2 "[0xFF]"] by simp

section \<open>Transport packets\<close>

text \<open>A sender's packet: PID, payload start, counter and payload; a short payload is padded with a stuffed
  adaptation field.\<close>

type_synonym ts_unit = "u16 \<times> bool \<times> byte \<times> byte list"

definition ts_unit_ok :: "ts_unit \<Rightarrow> bool" where
  "ts_unit_ok = (\<lambda>(pid, start, cc, payload).
     unat pid < 8192 \<and> unat cc < 16 \<and> 0 < length payload \<and> length payload \<le> 184)"

definition ts_header_bytes :: "u16 \<Rightarrow> bool \<Rightarrow> byte \<Rightarrow> byte \<Rightarrow> byte list" where
  "ts_header_bytes pid start afc cc =
     [0x47, (if start then push_bit 6 1 else 0) OR ucast (drop_bit 8 pid), ucast pid, push_bit 4 afc OR cc]"

definition ts_stuffing :: "nat \<Rightarrow> byte list" where
  "ts_stuffing n = of_nat n # (if n = 0 then [] else 0x00 # replicate (n - 1) 0xFF)"

definition ts_encode :: "ts_unit \<Rightarrow> byte list" where
  "ts_encode = (\<lambda>(pid, start, cc, payload).
     if length payload = 184 then ts_header_bytes pid start 1 cc @ payload
     else ts_header_bytes pid start 3 cc @ ts_stuffing (183 - length payload) @ payload)"

definition ts_fields :: "TSPacket \<Rightarrow> ts_unit" where
  "ts_fields k = (tk_PID k, tk_PayloadStart k, tk_ContinuityCounter k, tk_Payload k)"

lemma masks: "(0x1F :: byte) = mask 5" "(0x0F :: byte) = mask 4" "(0x03 :: byte) = mask 2"
  "(0x80 :: byte) = push_bit 7 1" "(0x40 :: byte) = push_bit 6 1"
  by (simp_all add: mask_eq_exp_minus_1)

lemma take_bit_small: "unat (w :: 'a::len word) < 2 ^ k \<Longrightarrow> take_bit k w = w"
  by (rule unsigned_word_eqI [where ?'a = nat]) (simp add: unsigned_take_bit_eq take_bit_nat_eq_self)

lemma header_pid:
  assumes "unat pid < 8192"
  shows "pid13 ((if start then push_bit 6 1 else 0) OR ucast (drop_bit 8 pid)) (ucast pid) = pid"
    and "((if start then push_bit 6 1 else 0) OR ucast (drop_bit 8 pid)) AND (0x80 :: byte) = 0"
    and "((if start then push_bit 6 1 else 0) OR ucast (drop_bit 8 pid)) AND (0x40 :: byte) \<noteq> 0 \<longleftrightarrow> start"
proof -
  have "take_bit 13 pid = pid" by (rule take_bit_small) (use assms in simp)
  then have b: "bit pid n \<Longrightarrow> n < 13" for n by (metis bit_take_bit_iff)
  show "pid13 ((if start then push_bit 6 1 else 0) OR ucast (drop_bit 8 pid)) (ucast pid) = pid"
    unfolding pid13_def masks
  proof (rule bit_word_eqI)
    fix n
    show "bit (push_bit 8 (ucast (((if start then push_bit 6 1 else 0) OR ucast (drop_bit 8 pid)) AND (mask 5 :: byte))) OR
      ucast (ucast pid :: byte) :: u16) n = bit pid n"
      by (cases start; simp only: bit_iffs if_True if_False) (use b [of n] in auto)
  qed
  show "((if start then push_bit 6 1 else 0) OR ucast (drop_bit 8 pid)) AND (0x80 :: byte) = 0"
    unfolding masks
  proof (rule bit_word_eqI)
    fix n
    show "bit (((if start then push_bit 6 1 else 0) OR ucast (drop_bit 8 pid)) AND (push_bit 7 1 :: byte)) n = bit 0 n"
      by (cases start; simp only: bit_iffs if_True if_False) (use b [of "8 + n"] in auto)
  qed
  have "bit (((if start then push_bit 6 1 else 0) OR ucast (drop_bit 8 pid)) AND (push_bit 6 1 :: byte)) n \<longleftrightarrow> start \<and> n = 6" for n
    by (cases start; simp only: bit_iffs if_True if_False) (use b [of "8 + n"] in auto)
  then show "((if start then push_bit 6 1 else 0) OR ucast (drop_bit 8 pid)) AND (0x40 :: byte) \<noteq> 0 \<longleftrightarrow> start"
    unfolding masks by (metis bit_0_eq bot_apply bot_bool_def bit_word_eqI)
qed

lemma header_control:
  assumes "unat cc < 16" and "afc = 1 \<or> afc = 3"
  shows "drop_bit 4 (push_bit 4 afc OR cc) AND (0x03 :: byte) = afc"
    and "(push_bit 4 afc OR cc) AND (0x0F :: byte) = cc"
proof -
  have "take_bit 4 cc = cc" by (rule take_bit_small) (use assms in simp)
  then have b: "bit cc n \<Longrightarrow> n < 4" for n by (metis bit_take_bit_iff)
  have "take_bit 2 afc = afc" by (rule take_bit_small) (use assms(2) in auto)
  then have a: "bit afc n \<Longrightarrow> n < 2" for n by (metis bit_take_bit_iff)
  show "drop_bit 4 (push_bit 4 afc OR cc) AND (0x03 :: byte) = afc"
    unfolding masks
  proof (rule bit_word_eqI)
    fix n
    show "bit (drop_bit 4 (push_bit 4 afc OR cc) AND (mask 2 :: byte)) n = bit afc n"
      by (simp only: bit_iffs o_apply) (use a [of n] b [of "4 + n"] in auto)
  qed
  show "(push_bit 4 afc OR cc) AND (0x0F :: byte) = cc"
    unfolding masks
  proof (rule bit_word_eqI)
    fix n
    show "bit ((push_bit 4 afc OR cc) AND (mask 4 :: byte)) n = bit cc n"
      by (simp only: bit_iffs) (use a [of "n - 4"] b [of n] in auto)
  qed
qed

lemma length_ts_encode: "ts_unit_ok x \<Longrightarrow> length (ts_encode x) = 188"
  by (cases x) (auto simp: ts_encode_def ts_unit_ok_def ts_header_bytes_def ts_stuffing_def)

text \<open>The packet the parser makes of the four header bytes.\<close>

definition ts_header_packet :: "u16 \<Rightarrow> bool \<Rightarrow> byte \<Rightarrow> byte \<Rightarrow> TSPacket" where
  "ts_header_packet pid start afc cc =
     \<lparr>tk_PID = pid, tk_PayloadStart = start, tk_AdaptationFieldExists = (afc AND 0x02 \<noteq> 0),
      tk_PayloadExists = (afc AND 0x01 \<noteq> 0), tk_ContinuityCounter = cc, tk_DiscontinuityIndicator = False,
      tk_Payload = [], tk_HasPTS = False, tk_HasDTS = False, tk_PTS = 0, tk_DTS = 0, tk_HasPCR = False, tk_PCR = 0\<rparr>"

lemma parsePacket_header:
  assumes "length (ts_header_bytes pid start afc cc @ rest) = 188" and "unat pid < 8192" and "unat cc < 16"
    and "afc = 1 \<or> afc = 3"
  shows "parsePacket (ts_header_bytes pid start afc cc @ rest) p =
    outcome_bind (parse_adaptation (ts_header_bytes pid start afc cc @ rest) (ts_header_packet pid start afc cc))
      (\<lambda>(pkt, off). let p' = check_continuity (ts_header_packet pid start afc cc) p in
         if tk_PayloadExists pkt \<and> off < 188
         then go_slice (ts_header_bytes pid start afc cc @ rest) off 188 (\<lambda>pl. Ret (p', Inr (pkt\<lparr>tk_Payload := pl\<rparr>)))
         else Ret (p', Inr pkt))"
proof -
  define data where "data = ts_header_bytes pid start afc cc @ rest"
  define b1 :: byte where "b1 = (if start then push_bit 6 1 else 0) OR ucast (drop_bit 8 pid)"
  define b3 :: byte where "b3 = push_bit 4 afc OR cc"
  have len: "length data = 188" using assms(1) by (simp only: data_def)
  have b: "data ! 0 = 0x47" "data ! 1 = b1" "data ! 2 = ucast pid" "data ! 3 = b3"
    by (simp_all add: data_def ts_header_bytes_def b1_def b3_def nth_append del: push_bit_Suc)
  have at: "go_at data 1 f = f b1" "go_at data 2 f = f (ucast pid)" "go_at data 3 f = f b3" for f :: "byte \<Rightarrow> 'z outcome"
    using len b by simp_all
  have h: "pid13 b1 (ucast pid) = pid" "b1 AND 0x80 = 0" "b1 AND 0x40 \<noteq> 0 \<longleftrightarrow> start"
    using header_pid [OF assms(2), of start] unfolding b1_def [symmetric] by blast+
  have c: "drop_bit 4 b3 AND 0x03 = afc" "b3 AND 0x0F = cc"
    using header_control [OF assms(3,4)] unfolding b3_def [symmetric] by blast+
  have le: "\<not> pid > MaxPID" using assms(2) by (simp add: MaxPID_def word_less_nat_alt)
  have nz: "afc \<noteq> 0" using assms(4) by auto
  have v: "ValidateMPEGTSPacket (tp_packetValidator p) data = None" using len b by (simp add: ValidateMPEGTSPacket_def)
  show ?thesis
    unfolding data_def [symmetric] parsePacket_def v option.case at h c Let_def ts_header_packet_def len
    using le nz h(2) by simp
qed

lemma adaptation_stuffing:
  assumes "n \<le> 182" and "length pl = 183 - n"
  shows "parse_adaptation (ts_header_bytes pid start 3 cc @ ts_stuffing n @ pl) (ts_header_packet pid start 3 cc) =
    Ret (ts_header_packet pid start 3 cc, 5 + n)"
proof -
  let ?data = "ts_header_bytes pid start 3 cc @ ts_stuffing n @ pl"
  have u: "unat (of_nat n :: byte) = n" using assms(1) by (simp add: unat_of_nat take_bit_nat_eq_self)
  have len: "length ?data = 188" using assms by (auto simp: ts_header_bytes_def ts_stuffing_def)
  have 4: "?data ! 4 = of_nat n" by (simp add: ts_header_bytes_def ts_stuffing_def nth_append del: push_bit_Suc)
  have 5: "?data ! 5 = 0" if "n > 0" using that by (simp add: ts_header_bytes_def ts_stuffing_def nth_append del: push_bit_Suc)
  have at: "go_at ?data 4 f = f (of_nat n)" for f :: "byte \<Rightarrow> (TSPacket \<times> nat) outcome" using len 4 by simp
  have at5: "go_at ?data 5 f = f 0" if "n > 0" for f :: "byte \<Rightarrow> (TSPacket \<times> nat) outcome" using len 5 [OF that] by simp
  have e: "tk_AdaptationFieldExists (ts_header_packet pid start 3 cc)" by (simp add: ts_header_packet_def)
  show ?thesis
  proof (cases "n = 0")
    case True
    then show ?thesis unfolding parse_adaptation_def at u using e by simp
  next
    case False
    then show ?thesis unfolding parse_adaptation_def at u using e by (simp add: at5) (simp add: ts_header_packet_def)
  qed
qed

lemma parsePacket_encode:
  assumes "ts_unit_ok x"
  shows "\<exists>p' k. parsePacket (ts_encode x) p = Ret (p', Inr k) \<and> ts_fields k = x \<and> tk_PayloadExists k"
proof -
  obtain pid start cc pl where x: "x = (pid, start, cc, pl)" by (cases x)
  have ok: "unat pid < 8192" "unat cc < 16" "0 < length pl" "length pl \<le> 184" using assms by (simp_all add: x ts_unit_ok_def)
  have h4: "length (ts_header_bytes pid start afc cc) = 4" for afc by (simp add: ts_header_bytes_def)
  show ?thesis
  proof (cases "length pl = 184")
    case True
    have e: "ts_encode x = ts_header_bytes pid start 1 cc @ pl" by (simp add: x ts_encode_def True)
    have "parse_adaptation (ts_header_bytes pid start 1 cc @ pl) (ts_header_packet pid start 1 cc) =
      Ret (ts_header_packet pid start 1 cc, 4)" by (simp add: parse_adaptation_def ts_header_packet_def)
    then show ?thesis unfolding e using True ok h4
      by (subst parsePacket_header) (simp_all add: Let_def ts_header_packet_def ts_fields_def x gslice_def)
  next
    case False
    let ?n = "183 - length pl"
    have e: "ts_encode x = ts_header_bytes pid start 3 cc @ ts_stuffing ?n @ pl" using False by (simp add: x ts_encode_def)
    have n: "?n \<le> 182" "length pl = 183 - ?n" using ok False by linarith+
    have s: "length (ts_stuffing m) = Suc m" for m by (cases m) (simp_all add: ts_stuffing_def)
    show ?thesis unfolding e using ok n h4 s adaptation_stuffing [OF n, of pid start cc]
      by (subst parsePacket_header) (simp_all add: Let_def ts_header_packet_def ts_fields_def x gslice_def)
  qed
qed

section \<open>The demultiplexer keeps every packet\<close>

lemma pes_times_fields: "pes_times fl pkt p = Ret (p', k, e) \<Longrightarrow> ts_fields k = ts_fields pkt"
  by (auto simp: pes_times_def pes_validate_times_def Let_def ts_fields_def case_prod_beta
      split: if_splits sum.splits elim!: outcome_bind_Ret)

lemma parsePESHeader_fields:
  assumes "parsePESHeader t1 t2 pkt p = Ret (p', k, e)"
  shows "ts_fields k = ts_fields pkt"
proof (cases "length (tk_Payload pkt) < 9")
  case True
  then show ?thesis using assms by (simp add: parsePESHeader_def)
next
  case False
  then show ?thesis using assms pes_times_fields [of _ pkt _ p' k e]
    by (auto simp: parsePESHeader_def Let_def go_at_def split: if_splits)
qed

lemma parse_one_encode:
  assumes "ts_unit_ok x"
  shows "\<exists>p' k calls. parse_one now ex (ts_encode x) p = Ret (p', Some k, calls) \<and> ts_fields k = x"
proof -
  obtain p1 pkt where 1: "parsePacket (ts_encode x) p = Ret (p1, Inr pkt)" "ts_fields pkt = x" "tk_PayloadExists pkt"
    using parsePacket_encode [OF assms] by blast
  obtain p2 calls where 2: "parse_tables pkt ex p1 = Ret (p2, calls)"
    using parse_tables_returns [of pkt ex p1] unfolding returns_def by auto
  obtain p3 k e where 3: "parsePESHeader now now pkt p2 = Ret (p3, k, e)"
    using parsePESHeader_returns [of now now pkt p2] unfolding returns_def by auto
  obtain more where 4: "extractParameterSetsFromPES k p3 = Ret more"
    using extractPES_returns [of k p3] unfolding returns_def by auto
  show ?thesis using parsePESHeader_fields [OF 3] 1(2,3)
    by (simp add: parse_one_def 1(1) 2 3 4 case_prod_beta)
qed

lemma parse_loop_encode:
  assumes "list_all ts_unit_ok xs"
  shows "\<exists>p' ks calls. parse_loop now ex (concat (map ts_encode xs)) p = Ret (p', ks, calls) \<and> map ts_fields ks = xs"
  using assms
proof (induction xs arbitrary: p)
  case Nil
  show ?case by (subst parse_loop.simps) simp
next
  case (Cons x xs)
  have x: "length (ts_encode x) = 188" using Cons.prems by (simp add: length_ts_encode)
  obtain p1 k calls where 1: "parse_one now ex (ts_encode x) p = Ret (p1, Some k, calls)" "ts_fields k = x"
    using parse_one_encode [of x now ex p] Cons.prems by auto
  obtain p2 ks more where 2: "parse_loop now ex (concat (map ts_encode xs)) p1 = Ret (p2, ks, more)" "map ts_fields ks = xs"
    using Cons.IH [of p1] Cons.prems by auto
  show ?case using x 1 2 by (subst parse_loop.simps) simp
qed

text \<open>C6: Whatever state the parser is in, a sequence of transport packets with payload, of any mixture of
  PIDs and with or without stuffing, is handed out packet by packet: as many packets as were sent, in order,
  with their PID, payload-start flag, counter and exact payload bytes.\<close>

theorem ts_demux_roundtrip:
  assumes "list_all ts_unit_ok xs" and "xs \<noteq> []"
  shows "\<exists>p' ks calls. ParseWithExtractor now extractor (concat (map ts_encode xs)) p = Ret (p', Inr ks, calls) \<and>
    map ts_fields ks = xs"
proof -
  obtain x ys where xs: "xs = x # ys" using assms(2) by (cases xs) auto
  have "length (ts_encode x) = 188" using assms(1) by (simp add: xs length_ts_encode)
  then have "188 \<le> length (concat (map ts_encode xs))" by (simp add: xs)
  then show ?thesis using parse_loop_encode [OF assms(1), of now extractor p] by (auto simp: ParseWithExtractor_def)
qed

theorem ts_demux_roundtrip_witness:
  "\<exists>p' ks calls. ParseWithExtractor 0 True
     (ts_encode (256, True, 15, [1, 2, 3]) @ ts_encode (17, False, 0, replicate 184 7)) NewParser = Ret (p', Inr ks, calls) \<and>
     map ts_fields ks = [(256, True, 15, [1, 2, 3]), (17, False, 0, replicate 184 7)]"
  using ts_demux_roundtrip [of "[(256, True, 15, [1, 2, 3]), (17, False, 0, replicate 184 7)]" 0 True NewParser]
  by (simp add: ts_unit_ok_def)

section \<open>The program map table\<close>

text \<open>Elementary streams as a sender lists them: type, PID and descriptor bytes.\<close>

type_synonym es_entry = "byte \<times> u16 \<times> byte list"

definition es_ok :: "es_entry \<Rightarrow> bool" where
  "es_ok = (\<lambda>(st, pid, info). 0 < unat pid \<and> unat pid < 8192 \<and> length info < 1024)"

definition es_bytes :: "es_entry \<Rightarrow> byte list" where
  "es_bytes = (\<lambda>(st, pid, info).
     [st, ucast (drop_bit 8 pid), ucast pid, of_nat (length info div 256), of_nat (length info mod 256)] @ info)"

definition is_video :: "byte \<Rightarrow> bool" where
  "is_video st \<longleftrightarrow> st \<in> {0x01, 0x02, 0x1B, 0x24, 0x51}"

definition is_audio :: "byte \<Rightarrow> bool" where
  "is_audio st \<longleftrightarrow> st \<in> {0x03, 0x04, 0x0F, 0x11, 0x81}"

fun first_pid :: "(byte \<Rightarrow> bool) \<Rightarrow> es_entry list \<Rightarrow> (u16 \<times> byte) option" where
  "first_pid P [] = None"
| "first_pid P ((st, pid, info) # es) = (if P st then Some (pid, st) else first_pid P es)"

lemma be16_value: "be16 hi lo = 256 * unat hi + unat lo"
proof -
  have lo: "unat lo < 256" "unat hi < 256"
    using unsigned_less [of lo, where ?'a = nat] unsigned_less [of hi, where ?'a = nat] by simp_all
  then have u: "unat (ucast hi :: u16) = unat hi" "unat (ucast lo :: u16) = unat lo"
    by (simp_all add: unsigned_ucast_eq take_bit_nat_eq_self)
  have "unat ((ucast lo :: u16) OR push_bit 8 (ucast hi)) = unat (ucast lo :: u16) + 2 ^ 8 * unat (ucast hi :: u16)"
    by (rule unat_or_push_bit) (use lo in \<open>simp_all add: u\<close>)
  then show ?thesis by (simp add: be16_def u or.commute)
qed

lemma es_pid: "unat pid < 8192 \<Longrightarrow> pid13 (ucast (drop_bit 8 pid)) (ucast pid) = pid"
  using header_pid(1) [of pid False] by simp

lemma es_length:
  assumes "n < 1024"
  shows "be16 ((of_nat (n div 256)) AND 0x0F) (of_nat (n mod 256)) = n"
proof -
  have d: "n div 256 < 16" using assms by simp
  then have "unat (of_nat (n div 256) :: byte) = n div 256" by (simp add: unat_of_nat take_bit_nat_eq_self)
  then have "take_bit 4 (of_nat (n div 256) :: byte) = of_nat (n div 256)"
    by (intro take_bit_small) (use d in simp)
  then have "(of_nat (n div 256) :: byte) AND 0x0F = of_nat (n div 256)" unfolding masks by (simp add: take_bit_eq_mask)
  then show ?thesis using d by (simp add: be16_value unat_of_nat take_bit_nat_eq_self)
qed

lemma pmt_loop_es:
  assumes "list_all es_ok es" and "data = pre @ concat (map es_bytes es) @ crc" and "length crc = 4"
    and "e = length pre + length (concat (map es_bytes es))"
  shows "fst (pmt_loop data False e (length pre) (p, calls)) =
    fold (\<lambda>(st, pid, info). pmt_assign st pid) es p"
  using assms
proof (induction es arbitrary: pre p calls)
  case Nil
  then show ?case by (subst pmt_loop.simps) simp
next
  case (Cons x es)
  obtain st pid info where x: "x = (st, pid, info)" by (cases x)
  have ok: "unat pid < 8192" "length info < 1024" using Cons.prems(1) by (simp_all add: x es_ok_def)
  define i where "i = length pre"
  have bytes: "es_bytes x = [st, ucast (drop_bit 8 pid), ucast pid, of_nat (length info div 256), of_nat (length info mod 256)] @ info"
    by (simp add: es_bytes_def x)
  have d: "data ! i = st" "data ! (i + 1) = ucast (drop_bit 8 pid)" "data ! (i + 2) = ucast pid"
    "data ! (i + 3) = of_nat (length info div 256)" "data ! (i + 4) = of_nat (length info mod 256)"
    unfolding Cons.prems(2) by (simp_all add: bytes i_def nth_append)
  have len: "i < e" "i + 4 < length data" using Cons.prems(2,3,4) by (simp_all add: bytes i_def)
  have n: "be16 ((data ! (i + 3)) AND 0x0F) (data ! (i + 4)) = length info"
    unfolding d using es_length [OF ok(2)] .
  have pid: "pid13 (data ! (i + 1)) (data ! (i + 2)) = pid" unfolding d by (rule es_pid [OF ok(1)])
  have nxt: "i + 5 + length info = length (pre @ es_bytes x)" by (simp add: i_def bytes)
  have "fst (pmt_loop data False e i (p, calls)) =
      fst (pmt_loop data False e (length (pre @ es_bytes x)) (pmt_assign st pid p, calls @ []))"
    unfolding nxt [symmetric] by (subst pmt_loop.simps) (use len in \<open>simp add: Let_def n [simplified] pid [simplified] d(1)\<close>)
  also have "\<dots> = fold (\<lambda>(st, pid, info). pmt_assign st pid) es (pmt_assign st pid p)"
    by (rule Cons.IH) (use Cons.prems in \<open>simp_all\<close>)
  finally show ?case by (simp add: i_def x)
qed

lemma pmt_loop_calls: "snd (pmt_loop data False e i (p, calls)) = calls"
proof (induction data "False" e i "(p, calls)" arbitrary: p calls rule: pmt_loop.induct)
  case (1 data e i p calls)
  show ?case by (subst pmt_loop.simps) (use 1 in \<open>simp add: Let_def\<close>)
qed

text \<open>A PMT section without program descriptors, with its program number, version bytes and checksum.\<close>

definition pmt_section :: "u16 \<Rightarrow> byte list \<Rightarrow> es_entry list \<Rightarrow> byte list \<Rightarrow> byte list" where
  "pmt_section pcr hdr es crc =
     (let streams = concat (map es_bytes es); n = 13 + length streams
      in [0x02, of_nat (n div 256), of_nat (n mod 256)] @ hdr @
         [ucast (drop_bit 8 pcr), ucast pcr, 0, 0] @ streams @ crc)"

lemma pmt_assign_fields:
  "tp_videoPID (pmt_assign st pid p) = (if is_video st \<and> tp_videoPID p = 0 then pid else tp_videoPID p)"
  "tp_audioPID (pmt_assign st pid p) = (if is_audio st \<and> tp_audioPID p = 0 then pid else tp_audioPID p)"
  "tp_videoStreamType (pmt_assign st pid p) = (if is_video st \<and> tp_videoPID p = 0 then st else tp_videoStreamType p)"
  "tp_pcrPID (pmt_assign st pid p) = tp_pcrPID p"
  by (auto simp: pmt_assign_def is_video_def is_audio_def)

lemma fold_pmt_assign:
  assumes "list_all es_ok es"
  shows "tp_videoPID (fold (\<lambda>(st, pid, info). pmt_assign st pid) es p) =
      (if tp_videoPID p = 0 then (case first_pid is_video es of None \<Rightarrow> 0 | Some (pid, st) \<Rightarrow> pid) else tp_videoPID p)"
    and "tp_audioPID (fold (\<lambda>(st, pid, info). pmt_assign st pid) es p) =
      (if tp_audioPID p = 0 then (case first_pid is_audio es of None \<Rightarrow> 0 | Some (pid, st) \<Rightarrow> pid) else tp_audioPID p)"
    and "tp_pcrPID (fold (\<lambda>(st, pid, info). pmt_assign st pid) es p) = tp_pcrPID p"
    and "tp_videoPID p = 0 \<Longrightarrow> first_pid is_video es = Some (v, st) \<Longrightarrow>
      tp_videoStreamType (fold (\<lambda>(st, pid, info). pmt_assign st pid) es p) = st"
    and "tp_videoPID p \<noteq> 0 \<Longrightarrow>
      tp_videoStreamType (fold (\<lambda>(st, pid, info). pmt_assign st pid) es p) = tp_videoStreamType p"
  using assms
proof (induction es arbitrary: p)
  case Nil
  { case 1 show ?case by simp next case 2 show ?case by simp next case 3 show ?case by simp
    next case 4 then show ?case by simp next case 5 then show ?case by simp }
next
  case (Cons x es)
  obtain s pid info where x: "x = (s, pid, info)" by (cases x)
  have ok: "pid \<noteq> 0 \<and> list_all es_ok es" if "list_all es_ok (x # es)" using that by (auto simp: x es_ok_def)
  note q = pmt_assign_fields
  { case (1 p) then show ?case using Cons.IH(1) [of "pmt_assign s pid p"] ok by (auto simp: x q split: if_splits)
    next case (2 p) then show ?case using Cons.IH(2) [of "pmt_assign s pid p"] ok by (auto simp: x q split: if_splits)
    next case (3 p) then show ?case using Cons.IH(3) [of "pmt_assign s pid p"] ok by (auto simp: x q split: if_splits)
    next case (4 p) then show ?case using Cons.IH(4,5) [of "pmt_assign s pid p"] ok by (auto simp: x q split: if_splits)
    next case (5 p) then show ?case using Cons.IH(5) [of "pmt_assign s pid p"] ok by (auto simp: x q split: if_splits) }
qed

text \<open>A program map table sent in one section selects, in a parser that has no PIDs yet, the first
  listed video stream with its type and the first listed audio stream, whatever other streams and
  descriptors the table lists and in whatever order; the clock reference PID is taken over and the table
  counts as parsed.\<close>

theorem pmt_selects_first_streams:
  assumes "list_all es_ok es" and "length hdr = 5" and "length crc = 4" and "unat pcr < 8192"
    and "13 + length (concat (map es_bytes es)) < 1024"
    and "\<not> tp_pmtParsed p" and "tp_videoPID p = 0" and "tp_audioPID p = 0"
  shows "\<exists>p'. parsePMTWithExtractor (0 # pmt_section pcr hdr es crc) False p = Ret (p', []) \<and>
    tp_pmtParsed p' \<and> tp_pcrPID p' = pcr \<and>
    tp_videoPID p' = (case first_pid is_video es of None \<Rightarrow> 0 | Some (pid, st) \<Rightarrow> pid) \<and>
    (\<forall>pid st. first_pid is_video es = Some (pid, st) \<longrightarrow> tp_videoStreamType p' = st) \<and>
    tp_audioPID p' = (case first_pid is_audio es of None \<Rightarrow> 0 | Some (pid, st) \<Rightarrow> pid)"
proof -
  define streams where "streams = concat (map es_bytes es)"
  define n where "n = 13 + length streams"
  define data where "data = pmt_section pcr hdr es crc"
  define pre where "pre = [0x02, of_nat (n div 256), of_nat (n mod 256)] @ hdr @ [ucast (drop_bit 8 pcr), ucast pcr, 0, 0]"
  have data: "data = pre @ streams @ crc" by (simp add: data_def pmt_section_def pre_def streams_def n_def Let_def)
  have pre: "length pre = 12" by (simp add: pre_def assms(2))
  have len: "length data = n + 3" using assms(3) by (simp add: data pre n_def)
  obtain h0 h1 h2 h3 h4 where hdr: "hdr = [h0, h1, h2, h3, h4]" using assms(2) by (auto simp: length_Suc_conv eval_nat_numeral)
  have d: "data ! 0 = 0x02" "data ! 1 = of_nat (n div 256)" "data ! 2 = of_nat (n mod 256)"
    "data ! 8 = ucast (drop_bit 8 pcr)" "data ! 9 = ucast pcr" "data ! 10 = 0" "data ! 11 = 0"
    by (simp_all add: data pre_def hdr)
  have sl: "be16 ((data ! 1) AND 0x0F) (data ! 2) = n" unfolding d by (rule es_length) (use assms(5) in \<open>simp add: n_def streams_def\<close>)
  let ?p = "p\<lparr>tp_pcrPID := pcr\<rparr>"
  obtain q calls where q: "pmt_loop data False (n - 1) 12 (?p, []) = (q, calls)" by fastforce
  have "q = fold (\<lambda>(st, pid, info). pmt_assign st pid) es ?p"
    using pmt_loop_es [OF assms(1) data [unfolded streams_def] assms(3), of "n - 1" ?p "[]"] q
    by (simp add: pre n_def streams_def)
  moreover have "calls = []" using pmt_loop_calls [of data "n - 1" 12 ?p "[]"] q by simp
  moreover have "parse_pmt_section data False p = Ret (q\<lparr>tp_pmtParsed := True\<rparr>, calls)"
  proof -
    have "pid13 (data ! 8) (data ! 9) = pcr" unfolding d by (rule es_pid [OF assms(4)])
    moreover have "be16 ((data ! 10) AND 0x0F) (data ! 11) = 0" by (simp add: d be16_value)
    moreover have "n \<ge> 13" by (simp add: n_def)
    ultimately show ?thesis using sl q by (simp add: parse_pmt_section_def len d(1) Let_def)
  qed
  moreover have "parsePMTWithExtractor (0 # data) False p = parse_pmt_section data False p"
    using assms(6) by (simp add: parsePMTWithExtractor_def len n_def Let_def gslice_def)
  ultimately show ?thesis using fold_pmt_assign [OF assms(1), of ?p] assms(7,8) unfolding data_def by auto
qed

theorem pmt_selects_first_streams_witness:
  "\<exists>p'. parsePMTWithExtractor (0 # pmt_section 256 [0, 1, 193, 0, 0]
       [(0x06, 300, []), (0x0F, 257, [1, 2]), (0x1B, 256, []), (0x24, 258, [])] [0, 0, 0, 0]) False NewParser = Ret (p', []) \<and>
     tp_pmtParsed p' \<and> tp_pcrPID p' = 256 \<and> tp_videoPID p' = 256 \<and> tp_videoStreamType p' = 0x1B \<and> tp_audioPID p' = 257"
  using pmt_selects_first_streams [of "[(0x06, 300, []), (0x0F, 257, [1, 2]), (0x1B, 256, []), (0x24, 258, [])]"
      "[0, 1, 193, 0, 0]" "[0, 0, 0, 0]" 256 NewParser]
  by (auto simp: es_ok_def es_bytes_def NewParser_def is_video_def is_audio_def)

section \<open>Where the extraction departs from its intent\<close>

lemma nal_end_no_zero: "\<forall>k. j \<le> k \<and> k < length data \<longrightarrow> data ! k \<noteq> 0 \<Longrightarrow> nal_end data j = length data"
proof (induction data j rule: nal_end.induct)
  case (1 data j)
  have "nal_end data (j + 1) = length data" if "j + 3 < length data"
    using that "1.prems" by (intro "1.IH") auto
  then show ?case using "1.prems" by (subst nal_end.simps) auto
qed

text \<open>A parameter set that follows other data behind a three-byte start code is not extracted from its
  start code on: the byte in front of the start code, which belongs to the preceding unit, is copied too.\<close>

theorem three_byte_code_takes_neighbour:
  assumes "b \<noteq> 0" and "is_parameter_set st h" and "rest \<noteq> []" and "list_all (\<lambda>x. x \<noteq> 0) rest"
  shows "extractParameterSetsFromBitstream ([b, 0, 0, 1, h] @ rest) st = [[b, 0, 0, 1, h] @ rest]"
proof -
  let ?d = "[b, 0, 0, 1, h] @ rest"
  have len: "5 < length ?d" using assms(3) by simp
  have z: "?d ! k \<noteq> 0" if "5 \<le> k" "k < length ?d" for k
    using that assms(4) by (auto simp: nth_append list_all_length)
  have e: "nal_end ?d 5 = length ?d" by (rule nal_end_no_zero) (use z in blast)
  have c: "start_code_at ?d 0 = None" "start_code_at ?d 1 = Some (4, 2)" using assms(1) by (simp_all add: start_code_at_def)
  have "nal_copy_start ?d 4 = 0" by (simp add: nal_copy_start_def)
  then have "bitstream_loop st ?d 1 [] = bitstream_loop st ?d (length ?d) [?d]"
    using len c(2) e assms(2) by (subst bitstream_loop.simps) (simp add: gslice_def)
  also have "\<dots> = [?d]" by (subst bitstream_loop.simps) simp
  finally have "bitstream_loop st ?d 1 [] = [?d]" .
  then show ?thesis unfolding extractParameterSetsFromBitstream_def
    using len c(1) by (subst bitstream_loop.simps) simp
qed

theorem three_byte_code_takes_neighbour_witness:
  "extractParameterSetsFromBitstream ([0xFF, 0, 0, 1, 0x67] @ [0x42, 0x1E]) 0x1B = [[0xFF, 0, 0, 1, 0x67] @ [0x42, 0x1E]]"
  using three_byte_code_takes_neighbour [of "0xFF" "0x1B" "0x67" "[0x42, 0x1E]"] by (simp add: is_parameter_set_def)

end
