(* ===== verification/Hybrid_Queue.thy ===== *)
theory Hybrid_Queue
  imports Mirror_Prelude "HOL-Library.Multiset"
begin

unbundle bit_operations_syntax

text \<open>
  The hybrid queue of \<^verbatim>\<open>internal/queue/hybrid_queue.go\<close>: a bounded Go channel that overflows into a file,
  and a background goroutine, the pump, that reads the file back into the channel.

  The calls of the clients and the steps of the pump interleave; each step is one definition, and the
  relation \<open>hq_step\<close> puts them together.  Between reading a record and sending it the pump holds the
  message; that program point is part of the state.  The channel has at least one slot.  The rate limiter is the
  one of \<^verbatim>\<open>golang.org/x/time/rate\<close>, whose answer is an argument, and so is the choice a \<^verbatim>\<open>select\<close> makes
  between its ready cases.  Reads and writes of the overflow file succeed.
\<close>

section \<open>State\<close>

datatype pump = Pump_idle | Pump_holding "byte list" | Pump_stopped

record HybridQueue =
  hq_memQueue :: "byte list list"
  hq_memSize :: nat
  hq_file :: "byte list"
  hq_readOffset :: nat
  hq_depth :: int
  hq_diskBytes :: int
  hq_memCount :: int
  hq_closed :: bool
  hq_pump :: pump

datatype hq_error =
    ErrRateLimited
  | ErrQueueClosed
  | ErrCorruptedData
  | ErrEOF
  | ErrUnexpectedEOF
  | DequeueTimedOut
  | QueueClosing
  | QueueEmpty
  | NoDataInMemory
  | AlreadyClosed

text \<open>A new queue on an overflow file that may hold data already: the file is opened for appending.\<close>

definition NewHybridQueue :: "nat \<Rightarrow> byte list \<Rightarrow> HybridQueue" where
  "NewHybridQueue memSize file =
     \<lparr>hq_memQueue = [], hq_memSize = memSize, hq_file = file, hq_readOffset = 0, hq_depth = 0,
      hq_diskBytes = 0, hq_memCount = 0, hq_closed = False, hq_pump = Pump_idle\<rparr>"

section \<open>Records\<close>

definition be32_bytes :: "u32 \<Rightarrow> byte list" where
  "be32_bytes w = [ucast (drop_bit 24 w), ucast (drop_bit 16 w), ucast (drop_bit 8 w), ucast w]"

definition be32_word :: "byte \<Rightarrow> byte \<Rightarrow> byte \<Rightarrow> byte \<Rightarrow> u32" where
  "be32_word a b c d =
     push_bit 24 (ucast a) OR push_bit 16 (ucast b) OR push_bit 8 (ucast c) OR ucast d"

definition hq_record :: "byte list \<Rightarrow> byte list" where
  "hq_record data = be32_bytes (of_nat (length data)) @ data"

section \<open>Operations\<close>

definition writeToDisk :: "byte list \<Rightarrow> HybridQueue \<Rightarrow> HybridQueue" where
  "writeToDisk data q =
     q\<lparr>hq_file := hq_file q @ hq_record data, hq_depth := hq_depth q + 1,
       hq_diskBytes := hq_diskBytes q + int (length (hq_record data))\<rparr>"

definition hq_Enqueue :: "bool \<Rightarrow> byte list \<Rightarrow> HybridQueue \<Rightarrow> HybridQueue \<times> hq_error option" where
  "hq_Enqueue allow data q =
     (if hq_closed q then (q, Some ErrQueueClosed)
      else if \<not> allow then (q, Some ErrRateLimited)
      else if length (hq_memQueue q) < hq_memSize q
      then (q\<lparr>hq_memQueue := hq_memQueue q @ [data], hq_depth := hq_depth q + 1, hq_memCount := hq_memCount q + 1\<rparr>, None)
      else (writeToDisk data q, None))"

text \<open>A successful receive from the channel.\<close>

definition hq_receive :: "HybridQueue \<Rightarrow> HybridQueue \<times> (hq_error + byte list)" where
  "hq_receive q =
     (q\<lparr>hq_memQueue := tl (hq_memQueue q), hq_depth := hq_depth q - 1, hq_memCount := hq_memCount q - 1\<rparr>,
      Inr (hd (hq_memQueue q)))"

text \<open>The case a \<^verbatim>\<open>select\<close> takes; a case that is not ready cannot be taken.\<close>

datatype hq_select = Sel_data | Sel_timeout | Sel_closed

definition DequeueTimeout :: "hq_select \<Rightarrow> HybridQueue \<Rightarrow> (HybridQueue \<times> (hq_error + byte list)) outcome" where
  "DequeueTimeout sel q =
     (if hq_closed q \<and> hq_depth q = 0 then Ret (q, Inl ErrQueueClosed)
      else
        (case sel of
           Sel_data \<Rightarrow> if hq_memQueue q = [] then Block else Ret (hq_receive q)
         | Sel_timeout \<Rightarrow> Ret (q, Inl DequeueTimedOut)
         | Sel_closed \<Rightarrow>
             if \<not> hq_closed q then Block
             else if hq_memQueue q \<noteq> [] then Ret (hq_receive q)
             else if hq_depth q = 0 then Ret (q, Inl ErrQueueClosed)
             else Ret (q, Inl QueueClosing)))"

text \<open>\<^verbatim>\<open>Dequeue\<close> along a sequence of choices; \<^const>\<open>Block\<close> when it has not returned at its end.\<close>

fun Dequeue :: "hq_select list \<Rightarrow> HybridQueue \<Rightarrow> (HybridQueue \<times> (hq_error + byte list)) outcome" where
  "Dequeue [] q = (if hq_closed q \<and> hq_depth q = 0 then Ret (q, Inl ErrQueueClosed) else Block)"
| "Dequeue (s # ss) q =
     (if hq_closed q \<and> hq_depth q = 0 then Ret (q, Inl ErrQueueClosed)
      else
        (case DequeueTimeout s q of
           Ret (q, Inr data) \<Rightarrow> Ret (q, Inr data)
         | Ret (q, Inl e) \<Rightarrow> Dequeue ss q
         | Panic \<Rightarrow> Panic
         | Block \<Rightarrow> Block))"

definition TryDequeue :: "HybridQueue \<Rightarrow> HybridQueue \<times> (hq_error + byte list)" where
  "TryDequeue q =
     (if hq_closed q \<and> hq_depth q = 0 then (q, Inl ErrQueueClosed)
      else if hq_memQueue q \<noteq> [] then hq_receive q
      else if hq_depth q = 0 then (q, Inl QueueEmpty)
      else (q, Inl NoDataInMemory))"

definition HasDiskData :: "HybridQueue \<Rightarrow> bool" where
  "HasDiskData q \<longleftrightarrow> hq_diskBytes q > 0"

definition maxRecord :: nat where
  "maxRecord = 10 * 1024 * 1024"

definition readFromDisk :: "HybridQueue \<Rightarrow> HybridQueue \<times> (hq_error + byte list)" where
  "readFromDisk q =
     (let off = hq_readOffset q; f = hq_file q
      in if off \<ge> length f then (q, Inl ErrEOF)
         else if off + 4 > length f then (q, Inl ErrUnexpectedEOF)
         else
           (let len = unat (be32_word (f ! off) (f ! (off + 1)) (f ! (off + 2)) (f ! (off + 3)))
            in if len > maxRecord then (q\<lparr>hq_readOffset := off + 4\<rparr>, Inl ErrCorruptedData)
               else if off + 4 + len > length f then (q, Inl ErrEOF)
               else
                 (q\<lparr>hq_readOffset := off + 4 + len, hq_diskBytes := hq_diskBytes q - int (4 + len)\<rparr>,
                  Inr (gslice f (off + 4) (off + 4 + len)))))"

text \<open>The pump: one turn of its loop up to the send, and the send.\<close>

definition pump_fetch :: "HybridQueue \<Rightarrow> HybridQueue" where
  "pump_fetch q =
     (if hq_memCount q \<ge> int (hq_memSize q) \<or> \<not> HasDiskData q then q
      else
        (case readFromDisk q of
           (q, Inl e) \<Rightarrow> q
         | (q, Inr data) \<Rightarrow> q\<lparr>hq_pump := Pump_holding data\<rparr>))"

definition pump_send :: "byte list \<Rightarrow> HybridQueue \<Rightarrow> HybridQueue" where
  "pump_send data q =
     q\<lparr>hq_memQueue := hq_memQueue q @ [data], hq_memCount := hq_memCount q + 1, hq_pump := Pump_idle\<rparr>"

text \<open>\<^verbatim>\<open>Close\<close>: the flag and the close of the channel \<^verbatim>\<open>closeCh\<close>; then, after the pump has stopped, the file
  is removed.\<close>

definition Close_begin :: "HybridQueue \<Rightarrow> HybridQueue \<times> hq_error option" where
  "Close_begin q = (if hq_closed q then (q, Some AlreadyClosed) else (q\<lparr>hq_closed := True\<rparr>, None))"

definition Close_end :: "HybridQueue \<Rightarrow> HybridQueue" where
  "Close_end q = q\<lparr>hq_file := []\<rparr>"

definition hq_GetDepth :: "HybridQueue \<Rightarrow> int" where
  "hq_GetDepth q = hq_depth q"

text \<open>The operands of \<^verbatim>\<open>GetPressure\<close>: messages in memory over its size and, with data on disk, bytes over
  100 MB.\<close>

definition hq_GetPressure :: "HybridQueue \<Rightarrow> (int \<times> nat) \<times> (int \<times> int) option" where
  "hq_GetPressure q =
     ((hq_memCount q, hq_memSize q), if HasDiskData q then Some (hq_diskBytes q, 1024 * 1024 * 100) else None)"

section \<open>Interleavings\<close>

datatype hq_event = Enqueued "byte list" | Dequeued "byte list" | Internal

inductive hq_step :: "HybridQueue \<Rightarrow> hq_event \<Rightarrow> HybridQueue \<Rightarrow> bool" where
  enqueue: "hq_Enqueue True data q = (q', None) \<Longrightarrow> hq_step q (Enqueued data) q'"
| refuse: "hq_Enqueue allow data q = (q', Some e) \<Longrightarrow> hq_step q Internal q'"
| try_dequeue: "TryDequeue q = (q', Inr data) \<Longrightarrow> hq_step q (Dequeued data) q'"
| dequeue: "DequeueTimeout sel q = Ret (q', Inr data) \<Longrightarrow> hq_step q (Dequeued data) q'"
| dequeue_error: "DequeueTimeout sel q = Ret (q', Inl e) \<Longrightarrow> hq_step q Internal q'"
| fetch: "hq_pump q = Pump_idle \<Longrightarrow> hq_step q Internal (pump_fetch q)"
| send: "hq_pump q = Pump_holding data \<Longrightarrow> length (hq_memQueue q) < hq_memSize q \<Longrightarrow>
    hq_step q Internal (pump_send data q)"
| stop: "hq_closed q \<Longrightarrow> hq_step q Internal (q\<lparr>hq_pump := Pump_stopped\<rparr>)"
| close_begin: "Close_begin q = (q', None) \<Longrightarrow> hq_step q Internal q'"
| close_end: "hq_closed q \<Longrightarrow> hq_pump q = Pump_stopped \<Longrightarrow> hq_step q Internal (Close_end q)"

inductive hq_run :: "HybridQueue \<Rightarrow> hq_event list \<Rightarrow> HybridQueue \<Rightarrow> bool" where
  hq_nil: "hq_run q [] q"
| hq_snoc: "hq_run q evs q' \<Longrightarrow> hq_step q' ev q'' \<Longrightarrow> hq_run q (evs @ [ev]) q''"

inductive_cases hq_step_cases: "hq_step q ev q'"
inductive_cases hq_run_nilE: "hq_run q [] q'"
inductive_cases hq_run_snocE: "hq_run q (evs @ [ev]) q'"


section \<open>Reading back what was written\<close>

lemma be32_roundtrip: "be32_word (ucast (drop_bit 24 w)) (ucast (drop_bit 16 w)) (ucast (drop_bit 8 w)) (ucast w) = w"
proof (rule bit_word_eqI)
  fix i assume "i < LENGTH(32)"
  then have "i < 8 \<or> 8 \<le> i \<and> i < 16 \<or> 16 \<le> i \<and> i < 24 \<or> 24 \<le> i \<and> i < 32" by auto
  then show "bit (be32_word (ucast (drop_bit 24 w)) (ucast (drop_bit 16 w)) (ucast (drop_bit 8 w)) (ucast w)) i = bit w i"
    unfolding be32_word_def by (elim disjE) (auto simp: bit_simps)
qed

lemma length_hq_record [simp]: "length (hq_record m) = 4 + length m"
  by (simp add: hq_record_def be32_bytes_def)

text \<open>The messages on disk that have not been read, and the one the pump holds.\<close>

definition hq_held :: "HybridQueue \<Rightarrow> byte list list" where
  "hq_held q = (case hq_pump q of Pump_holding data \<Rightarrow> [data] | _ \<Rightarrow> [])"

definition hq_stored :: "byte list list \<Rightarrow> HybridQueue \<Rightarrow> byte list list" where
  "hq_stored pend q = hq_memQueue q @ hq_held q @ pend"

definition hq_disk :: "byte list list \<Rightarrow> HybridQueue \<Rightarrow> bool" where
  "hq_disk pend q \<longleftrightarrow>
     hq_readOffset q \<le> length (hq_file q) \<and> drop (hq_readOffset q) (hq_file q) = concat (map hq_record pend) \<and>
     hq_diskBytes q = int (length (concat (map hq_record pend))) \<and> list_all (\<lambda>m. length m \<le> maxRecord) pend"

definition hq_inv :: "byte list list \<Rightarrow> HybridQueue \<Rightarrow> bool" where
  "hq_inv pend q \<longleftrightarrow>
     hq_disk pend q \<and> hq_memCount q = int (length (hq_memQueue q)) \<and> length (hq_memQueue q) \<le> hq_memSize q \<and>
     hq_depth q = int (length (hq_stored pend q))"

lemma readFromDisk_next:
  assumes "hq_disk (m # ms) q"
  shows "readFromDisk q =
     (q\<lparr>hq_readOffset := hq_readOffset q + 4 + length m, hq_diskBytes := hq_diskBytes q - int (4 + length m)\<rparr>, Inr m)"
proof -
  let ?o = "hq_readOffset q"
  let ?f = "hq_file q"
  let ?w = "of_nat (length m) :: u32"
  have d: "drop ?o ?f = be32_bytes ?w @ m @ concat (map hq_record ms)"
    using assms by (simp add: hq_disk_def hq_record_def)
  have len: "length ?f = ?o + 4 + length m + length (concat (map hq_record ms))"
    using arg_cong [OF d, of length] assms by (simp add: hq_disk_def be32_bytes_def)
  have n: "?f ! (?o + k) = (be32_bytes ?w @ m @ concat (map hq_record ms)) ! k" for k
    using d assms by (metis (no_types) hq_disk_def nth_drop)
  have b: "?f ! ?o = ucast (drop_bit 24 ?w)" "?f ! (?o + 1) = ucast (drop_bit 16 ?w)"
    "?f ! (?o + 2) = ucast (drop_bit 8 ?w)" "?f ! (?o + 3) = ucast ?w"
    using n [of 0] n [of 1] n [of 2] n [of 3] by (simp_all add: be32_bytes_def)
  have m: "length m \<le> maxRecord" using assms by (simp add: hq_disk_def)
  then have u: "unat (be32_word (?f ! ?o) (?f ! (?o + 1)) (?f ! (?o + 2)) (?f ! (?o + 3))) = length m"
    unfolding b be32_roundtrip by (simp add: unat_of_nat take_bit_nat_eq_self maxRecord_def)
  have "gslice ?f (?o + 4) (?o + 4 + length m) = take (length m) (drop 4 (drop ?o ?f))"
    by (simp add: gslice_def add.commute)
  also have "\<dots> = m" unfolding d by (simp add: be32_bytes_def)
  finally show ?thesis using len m u by (simp add: readFromDisk_def Let_def)
qed

lemma readFromDisk_none: "hq_disk [] q \<Longrightarrow> \<not> HasDiskData q"
  by (simp add: hq_disk_def HasDiskData_def)

lemma hq_disk_write:
  assumes "hq_disk pend q" and "length m \<le> maxRecord"
  shows "hq_disk (pend @ [m]) (writeToDisk m q)"
  using assms by (simp add: hq_disk_def writeToDisk_def)

lemma hq_disk_read:
  assumes "hq_disk (m # ms) q"
  shows "hq_disk ms (fst (readFromDisk q))"
proof -
  have d: "drop (hq_readOffset q) (hq_file q) = hq_record m @ concat (map hq_record ms)"
    using assms by (simp add: hq_disk_def)
  have "drop (hq_readOffset q + 4 + length m) (hq_file q) = drop (4 + length m) (drop (hq_readOffset q) (hq_file q))"
    by (simp add: add.commute add.left_commute)
  also have "\<dots> = concat (map hq_record ms)" unfolding d by simp
  finally have e: "drop (hq_readOffset q + 4 + length m) (hq_file q) = concat (map hq_record ms)" .
  have "hq_readOffset q + 4 + length m \<le> length (hq_file q)"
    using arg_cong [OF d, of length] assms by (simp add: hq_disk_def)
  then show ?thesis using assms e by (simp add: readFromDisk_next [OF assms] hq_disk_def)
qed

section \<open>The accounts of the queue\<close>

fun hq_enqueued :: "hq_event list \<Rightarrow> byte list list" where
  "hq_enqueued [] = []"
| "hq_enqueued (Enqueued m # evs) = m # hq_enqueued evs"
| "hq_enqueued (_ # evs) = hq_enqueued evs"

fun hq_dequeued :: "hq_event list \<Rightarrow> byte list list" where
  "hq_dequeued [] = []"
| "hq_dequeued (Dequeued m # evs) = m # hq_dequeued evs"
| "hq_dequeued (_ # evs) = hq_dequeued evs"

lemma hq_enqueued_append [simp]: "hq_enqueued (xs @ ys) = hq_enqueued xs @ hq_enqueued ys"
  by (induction xs rule: hq_enqueued.induct) simp_all

lemma hq_dequeued_append [simp]: "hq_dequeued (xs @ ys) = hq_dequeued xs @ hq_dequeued ys"
  by (induction xs rule: hq_dequeued.induct) simp_all

lemma hq_inv_receive:
  assumes "hq_inv pend q" and "hq_memQueue q \<noteq> []" and "hq_receive q = (q', Inr m)"
  shows "hq_inv pend q' \<and> hq_stored pend q = m # hq_stored pend q'"
  using assms by (cases "hq_memQueue q") (auto simp: hq_inv_def hq_disk_def hq_receive_def hq_stored_def hq_held_def)

lemma hq_inv_fetch:
  assumes "hq_inv pend q" and "hq_pump q = Pump_idle"
  shows "\<exists>pend'. hq_inv pend' (pump_fetch q) \<and> hq_stored pend' (pump_fetch q) = hq_stored pend q"
proof (cases "hq_memCount q \<ge> int (hq_memSize q) \<or> \<not> HasDiskData q")
  case True
  then have "pump_fetch q = q" by (auto simp: pump_fetch_def)
  then show ?thesis using assms(1) by auto
next
  case False
  then obtain m ms where pend: "pend = m # ms"
    using assms(1) by (cases pend) (auto simp: hq_inv_def dest: readFromDisk_none)
  have d: "hq_disk (m # ms) q" using assms(1) by (simp add: hq_inv_def pend)
  have "hq_inv ms (pump_fetch q)" and "hq_stored ms (pump_fetch q) = hq_stored pend q"
    using False assms hq_disk_read [OF d]
    by (simp_all add: pump_fetch_def readFromDisk_next [OF d] hq_inv_def hq_disk_def hq_stored_def hq_held_def pend)
  then show ?thesis by blast
qed

lemma hq_inv_send:
  assumes "hq_inv pend q" and "hq_pump q = Pump_holding m" and "length (hq_memQueue q) < hq_memSize q"
  shows "hq_inv pend (pump_send m q) \<and> hq_stored pend (pump_send m q) = hq_stored pend q"
  using assms by (simp add: hq_inv_def hq_disk_def pump_send_def hq_stored_def hq_held_def)

lemma hq_inv_enqueue:
  assumes "hq_inv pend q" and "hq_Enqueue True m q = (q', None)" and "length m \<le> maxRecord"
  shows "\<exists>pend'. hq_inv pend' q' \<and> mset (hq_stored pend' q') = mset (hq_stored pend q) + {#m#}"
proof (cases "length (hq_memQueue q) < hq_memSize q")
  case True
  then have "hq_inv pend q'" "mset (hq_stored pend q') = mset (hq_stored pend q) + {#m#}"
    using assms by (auto simp: hq_Enqueue_def hq_inv_def hq_disk_def hq_stored_def hq_held_def split: if_splits)
  then show ?thesis by blast
next
  case False
  then have q': "q' = writeToDisk m q" using assms(2) by (auto simp: hq_Enqueue_def split: if_splits)
  have "hq_inv (pend @ [m]) q'"
    using hq_disk_write [of pend q m] assms(1,3) unfolding q'
    by (simp add: hq_inv_def writeToDisk_def hq_stored_def hq_held_def)
  moreover have "mset (hq_stored (pend @ [m]) q') = mset (hq_stored pend q) + {#m#}"
    unfolding q' by (simp add: writeToDisk_def hq_stored_def hq_held_def)
  ultimately show ?thesis by blast
qed

lemma hq_step_closed: "hq_step q ev q' \<Longrightarrow> hq_closed q \<Longrightarrow> hq_closed q'"
  by (erule hq_step_cases)
    (auto simp: hq_Enqueue_def TryDequeue_def DequeueTimeout_def hq_receive_def pump_fetch_def readFromDisk_def Let_def
      pump_send_def Close_begin_def Close_end_def split: if_splits hq_select.splits sum.splits)

lemma hq_step_inv:
  assumes "hq_step q ev q'" and "hq_inv pend q" and "\<not> hq_closed q'"
    and "list_all (\<lambda>m. length m \<le> maxRecord) (hq_enqueued [ev])"
  shows "\<exists>pend'. hq_inv pend' q' \<and>
    mset (hq_stored pend' q') + mset (hq_dequeued [ev]) = mset (hq_stored pend q) + mset (hq_enqueued [ev])"
proof -
  have open_q: "\<not> hq_closed q" using hq_step_closed [OF assms(1)] assms(3) by blast
  from assms(1) show ?thesis
  proof cases
    case (enqueue data)
    then show ?thesis using hq_inv_enqueue [OF assms(2), of data q'] assms(4) by auto
  next
    case (refuse allow data e)
    then have "q' = q" by (auto simp: hq_Enqueue_def split: if_splits)
    then show ?thesis using assms(2) refuse by auto
  next
    case (try_dequeue data)
    then have "hq_memQueue q \<noteq> []" "hq_receive q = (q', Inr data)" by (auto simp: TryDequeue_def split: if_splits)
    then show ?thesis using hq_inv_receive [OF assms(2), of q' data] try_dequeue(1) by auto
  next
    case (dequeue sel data)
    then have "hq_memQueue q \<noteq> []" "hq_receive q = (q', Inr data)"
      by (auto simp: DequeueTimeout_def split: if_splits hq_select.splits)
    then show ?thesis using hq_inv_receive [OF assms(2), of q' data] dequeue(1) by auto
  next
    case (dequeue_error sel e)
    then have "q' = q" by (auto simp: DequeueTimeout_def hq_receive_def split: if_splits hq_select.splits)
    then show ?thesis using assms(2) dequeue_error by auto
  next
    case fetch
    then show ?thesis using hq_inv_fetch [OF assms(2)] by auto
  next
    case (send data)
    then show ?thesis using hq_inv_send [OF assms(2)] by auto
  next
    case stop
    then show ?thesis using open_q by simp
  next
    case close_begin
    then show ?thesis using assms(3) open_q by (auto simp: Close_begin_def)
  next
    case close_end
    then show ?thesis using open_q by simp
  qed
qed

lemma hq_run_inv:
  assumes "hq_run q evs q'" and "hq_inv pend q" and "\<not> hq_closed q'"
    and "list_all (\<lambda>m. length m \<le> maxRecord) (hq_enqueued evs)"
  shows "\<exists>pend'. hq_inv pend' q' \<and>
    mset (hq_stored pend' q') + mset (hq_dequeued evs) = mset (hq_stored pend q) + mset (hq_enqueued evs)"
  using assms
proof (induction rule: hq_run.induct)
  case (hq_nil q)
  then show ?case by auto
next
  case (hq_snoc q evs q' ev q'')
  have "\<not> hq_closed q'" using hq_step_closed [OF hq_snoc.hyps(2)] hq_snoc.prems(2) by blast
  then obtain p1 where 1: "hq_inv p1 q'"
    "mset (hq_stored p1 q') + mset (hq_dequeued evs) = mset (hq_stored pend q) + mset (hq_enqueued evs)"
    using hq_snoc.IH hq_snoc.prems by auto
  obtain p2 where 2: "hq_inv p2 q''"
    "mset (hq_stored p2 q'') + mset (hq_dequeued [ev]) = mset (hq_stored p1 q') + mset (hq_enqueued [ev])"
    using hq_step_inv [OF hq_snoc.hyps(2) 1(1)] hq_snoc.prems by auto
  have "mset (hq_stored p2 q'') + mset (hq_dequeued (evs @ [ev])) =
      (mset (hq_stored p2 q'') + mset (hq_dequeued [ev])) + mset (hq_dequeued evs)" by (simp add: ac_simps)
  also have "\<dots> = (mset (hq_stored p1 q') + mset (hq_dequeued evs)) + mset (hq_enqueued [ev])"
    unfolding 2(2) by (simp only: ac_simps)
  also have "\<dots> = mset (hq_stored pend q) + mset (hq_enqueued evs) + mset (hq_enqueued [ev])"
    by (simp only: 1(2))
  finally show ?case using 2(1) by (auto simp: ac_simps)
qed

lemma hq_inv_New: "hq_inv [] (NewHybridQueue n [])"
  by (simp add: hq_inv_def hq_disk_def NewHybridQueue_def hq_stored_def hq_held_def)

lemma hq_run_single: "hq_step q ev q' \<Longrightarrow> hq_run q [ev] q'"
  using hq_snoc [OF hq_nil, of q ev q'] by simp

lemma hq_run_trans: "hq_run q' evs' q'' \<Longrightarrow> hq_run q evs q' \<Longrightarrow> hq_run q (evs @ evs') q''"
  by (induction rule: hq_run.induct) (auto simp flip: append_assoc intro: hq_snoc)

text \<open>Draining: how far a message is from the consumer.\<close>

definition hq_distance :: "byte list list \<Rightarrow> HybridQueue \<Rightarrow> nat" where
  "hq_distance pend q = length (hq_memQueue q) + 2 * length (hq_held q) + 3 * length pend"

lemma hq_drain_step:
  assumes "hq_inv pend q" and "hq_stored pend q \<noteq> []" and "0 < hq_memSize q" and "\<not> hq_closed q"
    and "hq_pump q \<noteq> Pump_stopped"
  shows "\<exists>ev q' pend'. hq_step q ev q' \<and> hq_inv pend' q' \<and> hq_enqueued [ev] = [] \<and>
    hq_dequeued [ev] @ hq_stored pend' q' = hq_stored pend q \<and> hq_distance pend' q' < hq_distance pend q \<and>
    0 < hq_memSize q' \<and> \<not> hq_closed q' \<and> hq_pump q' \<noteq> Pump_stopped"
proof -
  consider (mem) "hq_memQueue q \<noteq> []" | (held) m where "hq_memQueue q = []" "hq_pump q = Pump_holding m"
    | (disk) m ms where "hq_memQueue q = []" "hq_pump q = Pump_idle" "pend = m # ms"
    using assms(2,5) by (cases "hq_pump q"; cases pend) (auto simp: hq_stored_def hq_held_def)
  then show ?thesis
  proof cases
    case mem
    obtain m where r: "hq_receive q = (fst (hq_receive q), Inr m)" by (simp add: hq_receive_def)
    have "TryDequeue q = (fst (hq_receive q), Inr m)" using mem assms(4) r by (simp add: TryDequeue_def)
    then have "hq_step q (Dequeued m) (fst (hq_receive q))" by (rule hq_step.try_dequeue)
    moreover have "hq_distance pend (fst (hq_receive q)) < hq_distance pend q"
      using mem by (simp add: hq_distance_def hq_receive_def hq_held_def)
    ultimately show ?thesis using hq_inv_receive [OF assms(1) mem r] assms(3-5)
      by (intro exI [of _ "Dequeued m"] exI [of _ "fst (hq_receive q)"] exI [of _ pend]) (simp add: hq_receive_def)
  next
    case (held m)
    then have "hq_step q Internal (pump_send m q)" using assms(3) by (intro hq_step.send) simp_all
    moreover have "hq_distance pend (pump_send m q) < hq_distance pend q"
      using held by (simp add: hq_distance_def pump_send_def hq_held_def)
    ultimately show ?thesis using hq_inv_send [OF assms(1) held(2)] held assms(3-5)
      by (intro exI [of _ Internal] exI [of _ "pump_send m q"] exI [of _ pend]) (simp add: pump_send_def)
  next
    case (disk m ms)
    have d: "hq_disk (m # ms) q" using assms(1) disk(3) by (simp add: hq_inv_def)
    then have more: "HasDiskData q" by (simp add: hq_disk_def HasDiskData_def)
    have f: "pump_fetch q = fst (readFromDisk q)\<lparr>hq_pump := Pump_holding m\<rparr>"
      using more assms(1,3) disk(1) by (simp add: pump_fetch_def readFromDisk_next [OF d] hq_inv_def)
    have "hq_inv ms (pump_fetch q)" "hq_stored ms (pump_fetch q) = hq_stored pend q"
      using assms(1) disk hq_disk_read [OF d] unfolding f
      by (simp_all add: readFromDisk_next [OF d] hq_inv_def hq_disk_def hq_stored_def hq_held_def)
    moreover have "hq_distance ms (pump_fetch q) < hq_distance pend q"
      unfolding f using disk by (simp add: hq_distance_def hq_held_def readFromDisk_next [OF d])
    moreover have "hq_step q Internal (pump_fetch q)" by (rule hq_step.fetch [OF disk(2)])
    ultimately show ?thesis using assms(3-5)
      by (intro exI [of _ Internal] exI [of _ "pump_fetch q"] exI [of _ ms])
        (simp add: f readFromDisk_next [OF d])
  qed
qed

lemma hq_drain:
  assumes "hq_inv pend q" and "0 < hq_memSize q" and "\<not> hq_closed q" and "hq_pump q \<noteq> Pump_stopped"
  shows "\<exists>evs q'. hq_run q evs q' \<and> hq_enqueued evs = [] \<and> hq_dequeued evs = hq_stored pend q \<and> hq_GetDepth q' = 0"
  using assms
proof (induction "hq_distance pend q" arbitrary: pend q rule: less_induct)
  case less
  show ?case
  proof (cases "hq_stored pend q = []")
    case True
    then show ?thesis using less.prems(1) hq_nil [of q]
      by (intro exI [of _ "[]"] exI [of _ q]) (simp add: hq_inv_def hq_GetDepth_def)
  next
    case False
    obtain ev q1 pend1 where 1: "hq_step q ev q1" "hq_inv pend1 q1" "hq_enqueued [ev] = []"
      "hq_dequeued [ev] @ hq_stored pend1 q1 = hq_stored pend q" "hq_distance pend1 q1 < hq_distance pend q"
      "0 < hq_memSize q1" "\<not> hq_closed q1" "hq_pump q1 \<noteq> Pump_stopped"
      using hq_drain_step [OF less.prems(1) False less.prems(2-4)] by blast
    obtain evs q2 where 2: "hq_run q1 evs q2" "hq_enqueued evs = []" "hq_dequeued evs = hq_stored pend1 q1" "hq_GetDepth q2 = 0"
      using less.hyps [OF 1(5,2,6,7,8)] by blast
    have "hq_run q ([ev] @ evs) q2" by (rule hq_run_trans [OF 2(1) hq_run_single [OF 1(1)]])
    moreover have "hq_enqueued ([ev] @ evs) = []" unfolding hq_enqueued_append by (simp only: 1(3) 2(2) append_Nil)
    moreover have "hq_dequeued ([ev] @ evs) = hq_stored pend q" unfolding hq_dequeued_append by (simp only: 1(4) 2(3))
    ultimately show ?thesis using 2(4) by blast
  qed
qed

lemma hq_step_frame:
  "hq_step q ev q' \<Longrightarrow> \<not> hq_closed q' \<Longrightarrow>
   hq_memSize q' = hq_memSize q \<and> (hq_pump q' = Pump_stopped \<longrightarrow> hq_pump q = Pump_stopped)"
  by (erule hq_step_cases)
    (auto simp: hq_Enqueue_def writeToDisk_def TryDequeue_def DequeueTimeout_def hq_receive_def pump_fetch_def
      readFromDisk_def Let_def pump_send_def Close_begin_def Close_end_def
      split: if_splits hq_select.splits sum.splits)

lemma hq_run_frame:
  assumes "hq_run q evs q'" and "\<not> hq_closed q'"
  shows "hq_memSize q' = hq_memSize q \<and> (hq_pump q' = Pump_stopped \<longrightarrow> hq_pump q = Pump_stopped)"
  using assms
proof (induction rule: hq_run.induct)
  case (hq_snoc q evs q' ev q'')
  then show ?case using hq_step_frame [OF hq_snoc.hyps(2)] hq_step_closed [OF hq_snoc.hyps(2)] by auto
qed simp

section \<open>Properties\<close>



text \<open>Two slots of work for a queue of one: the second message overflows into the file.\<close>

definition sample_queue :: HybridQueue where
  "sample_queue = fst (hq_Enqueue True [2] (fst (hq_Enqueue True [1] (NewHybridQueue 1 []))))"

lemma sample_queue_run: "hq_run (NewHybridQueue 1 []) ([Enqueued [1]] @ [Enqueued [2]]) sample_queue"
proof -
  let ?q = "fst (hq_Enqueue True [1] (NewHybridQueue 1 []))"
  have "hq_step (NewHybridQueue 1 []) (Enqueued [1]) ?q"
    by (rule hq_step.enqueue) (simp add: NewHybridQueue_def hq_Enqueue_def)
  moreover have "hq_step ?q (Enqueued [2]) sample_queue"
    by (rule hq_step.enqueue) (simp add: sample_queue_def NewHybridQueue_def hq_Enqueue_def)
  ultimately show ?thesis by (intro hq_run_trans [OF hq_run_single hq_run_single])
qed

lemma sample_queue_open: "\<not> hq_closed sample_queue"
  by (simp add: sample_queue_def NewHybridQueue_def hq_Enqueue_def writeToDisk_def)



text \<open>After \<^verbatim>\<open>Close\<close> a consumer in \<^verbatim>\<open>Dequeue\<close> is not released when messages were left behind in the file: with
  an empty channel and a depth that is not zero no sequence of choices lets the call return.\<close>

theorem dequeue_spins_after_close:
  assumes "hq_closed q" and "hq_memQueue q = []" and "hq_depth q \<noteq> 0"
  shows "Dequeue sels q = Block"
  using assms(1-3)
proof (induction sels)
  case (Cons s ss)
  then show ?case by (cases s) (simp_all add: DequeueTimeout_def)
qed simp

theorem dequeue_spins_after_close_witness:
  "let q = fst (TryDequeue (Close_end (fst (Close_begin sample_queue))\<lparr>hq_pump := Pump_stopped\<rparr>))
   in hq_closed q \<and> Dequeue [Sel_timeout, Sel_closed, Sel_closed] q = Block"
proof -
  let ?q = "fst (TryDequeue (Close_end (fst (Close_begin sample_queue))\<lparr>hq_pump := Pump_stopped\<rparr>))"
  have "hq_closed ?q" "hq_memQueue ?q = []" "hq_depth ?q \<noteq> 0"
    by (simp_all add: TryDequeue_def Close_end_def Close_begin_def sample_queue_def NewHybridQueue_def hq_Enqueue_def
        writeToDisk_def hq_receive_def)
  then show ?thesis using dequeue_spins_after_close [of ?q "[Sel_timeout, Sel_closed, Sel_closed]"] by (simp add: Let_def)
qed

text \<open>The queue is not first-in first-out once it overflows: with one slot, a message accepted after the
  channel was emptied overtakes the one that waits in the file.\<close>

theorem overflow_overtaken:
  "\<exists>q. hq_run (NewHybridQueue 1 []) [Enqueued [1], Enqueued [2], Dequeued [1], Enqueued [3], Dequeued [3]] q \<and>
     hq_GetDepth q = 1 \<and> HasDiskData q"
proof -
  define q1 where "q1 = fst (TryDequeue sample_queue)"
  define q2 where "q2 = fst (hq_Enqueue True [3] q1)"
  define q3 where "q3 = fst (TryDequeue q2)"
  note defs = q1_def q2_def q3_def sample_queue_def NewHybridQueue_def hq_Enqueue_def writeToDisk_def TryDequeue_def hq_receive_def
  have "hq_run sample_queue [Dequeued [1]] q1"
    by (intro hq_run_single hq_step.try_dequeue) (simp add: defs)
  moreover have "hq_run q1 [Enqueued [3]] q2"
    by (intro hq_run_single hq_step.enqueue) (simp add: defs)
  moreover have "hq_run q2 [Dequeued [3]] q3"
    by (intro hq_run_single hq_step.try_dequeue) (simp add: defs)
  ultimately have "hq_run (NewHybridQueue 1 [])
      ((([Enqueued [1]] @ [Enqueued [2]]) @ [Dequeued [1]]) @ [Enqueued [3]] @ [Dequeued [3]]) q3"
    by (intro hq_run_trans [OF hq_run_trans] hq_run_trans [OF _ sample_queue_run]) auto
  moreover have "hq_GetDepth q3 = 1" "HasDiskData q3" by (simp_all add: defs hq_GetDepth_def HasDiskData_def)
  ultimately show ?thesis by (intro exI [of _ q3]) simp
qed

text \<open>An overflow file left by an earlier process is not discarded: the first message that overflows makes
  the pump fetch the old record, which then is handed out, while the new message stays unread.\<close>

theorem stale_overflow_file_is_replayed:
  assumes "length old \<le> maxRecord" and "length m \<le> maxRecord" and "0 < n"
  shows "pump_fetch (writeToDisk m (NewHybridQueue n (hq_record old))) =
    (writeToDisk m (NewHybridQueue n (hq_record old)))\<lparr>hq_readOffset := 4 + length old,
      hq_diskBytes := int (length m) - int (length old), hq_pump := Pump_holding old\<rparr>"
proof -
  let ?q = "writeToDisk m (NewHybridQueue n (hq_record old))"
  let ?q' = "?q\<lparr>hq_diskBytes := int (length (concat (map hq_record [old, m])))\<rparr>"
  have d: "hq_disk [old, m] ?q'" using assms(1,2) by (simp add: hq_disk_def writeToDisk_def NewHybridQueue_def)
  have "readFromDisk ?q = (?q\<lparr>hq_readOffset := 4 + length old, hq_diskBytes := int (length m) - int (length old)\<rparr>, Inr old)"
    using readFromDisk_next [OF d] by (auto simp: readFromDisk_def Let_def writeToDisk_def NewHybridQueue_def split: if_splits)
  then show ?thesis using assms(3) by (simp add: pump_fetch_def HasDiskData_def writeToDisk_def NewHybridQueue_def)
qed

theorem stale_overflow_file_is_replayed_witness:
  "hq_pump (pump_fetch (writeToDisk [9] (NewHybridQueue 1 (hq_record [1, 2, 3])))) = Pump_holding [1, 2, 3]"
  using stale_overflow_file_is_replayed [of "[1, 2, 3]" "[9]" 1] by (simp add: maxRecord_def)

end
