(* ===== verification/Track_Timing.thy ===== *)
theory Track_Timing
  imports Mirror_Prelude "HOL-Library.Signed_Division"
begin

text \<open>
  Time stamps of one media track: the mapper from 32-bit RTP time to presentation time
  (\<^verbatim>\<open>timestamp/mapper.go\<close>), the detector of 33-bit wrap-around (\<^verbatim>\<open>sync/pts_wraparound.go\<close>) and the
  per-track state of the synchroniser (\<^verbatim>\<open>sync/track_sync.go\<close>).  Go's signed division is \<open>sdiv\<close>; the clock is an
  argument; a frame duration that the code computes in floating point is an argument too.
\<close>

section \<open>Time values\<close>

definition zero_time :: nanos where
  "zero_time = - 62135596800 * second"

definition time_ns :: "gotime \<Rightarrow> nanos" where
  "time_ns t = (case t of None \<Rightarrow> zero_time | Some ns \<Rightarrow> ns)"

text \<open>\<^verbatim>\<open>t.Sub(u)\<close> saturates at the limits of a duration.\<close>

definition time_Sub :: "nanos \<Rightarrow> nanos \<Rightarrow> int" where
  "time_Sub t u = max (- (2 ^ 63)) (min (2 ^ 63 - 1) (t - u))"

definition go_abs :: "int \<Rightarrow> int" where
  "go_abs n = (if n < 0 then i64 (- n) else n)"

record Rational =
  ra_Num :: int
  ra_Den :: int

definition NewRational :: "int \<Rightarrow> int \<Rightarrow> Rational" where
  "NewRational num den = \<lparr>ra_Num = num, ra_Den = (if den = 0 then 1 else den)\<rparr>"

definition ra_Invert :: "Rational \<Rightarrow> Rational" where
  "ra_Invert r = \<lparr>ra_Num = ra_Den r, ra_Den = ra_Num r\<rparr>"

section \<open>The timestamp mapper\<close>

record TimestampMapper =
  tm_clockRate :: u32
  tm_baseRTPTime :: u32
  tm_baseWallTime :: gotime
  tm_basePTS :: int
  tm_wrapCount :: int
  tm_lastRTPTime :: u32
  tm_lastPTS :: int
  tm_expectedDelta :: int

definition NewTimestampMapper :: "u32 \<Rightarrow> TimestampMapper" where
  "NewTimestampMapper rate =
     (let clockRate = (if rate = 0 then 90000 else rate)
      in \<lparr>tm_clockRate = clockRate, tm_baseRTPTime = 0, tm_baseWallTime = None, tm_basePTS = 0, tm_wrapCount = 0,
          tm_lastRTPTime = 0, tm_lastPTS = 0, tm_expectedDelta = uint (clockRate div 30)\<rparr>)"

text \<open>\<^verbatim>\<open>SetExpectedFrameRate\<close>, given whether the rate is positive and the quotient of clock and frame rate.\<close>

definition SetExpectedFrameRate :: "bool \<Rightarrow> int \<Rightarrow> TimestampMapper \<Rightarrow> TimestampMapper" where
  "SetExpectedFrameRate positive delta tm = (if positive then tm\<lparr>tm_expectedDelta := delta\<rparr> else tm)"

definition rtp_wrapped :: "u32 \<Rightarrow> u32 \<Rightarrow> bool" where
  "rtp_wrapped prev rtp \<longleftrightarrow> rtp < prev \<and> prev - rtp > 0x80000000"

definition ToPTS :: "nanos \<Rightarrow> u32 \<Rightarrow> TimestampMapper \<Rightarrow> TimestampMapper \<times> int" where
  "ToPTS now rtp tm =
     (if tm_baseWallTime tm = None
      then (tm\<lparr>tm_baseRTPTime := rtp, tm_baseWallTime := Some now, tm_lastRTPTime := rtp\<rparr>, tm_basePTS tm)
      else
        (let wraps = (if rtp_wrapped (tm_lastRTPTime tm) rtp then tm_wrapCount tm + 1 else tm_wrapCount tm);
             pts = i64 (wraps * 2 ^ 32 + uint rtp - uint (tm_baseRTPTime tm) + tm_basePTS tm)
         in (tm\<lparr>tm_wrapCount := wraps, tm_lastRTPTime := rtp, tm_lastPTS := pts\<rparr>, pts)))"

definition ToPTSWithDTS :: "nanos \<Rightarrow> u32 \<Rightarrow> bool \<Rightarrow> string \<Rightarrow> TimestampMapper \<Rightarrow> TimestampMapper \<times> int \<times> int" where
  "ToPTSWithDTS now rtp hasBFrames frameType tm =
     (let (tm, pts) = ToPTS now rtp tm
      in (tm, pts, if hasBFrames \<and> frameType = ''B'' then i64 (pts - 2 * tm_expectedDelta tm) else pts))"

definition GetWallClockTime :: "int \<Rightarrow> TimestampMapper \<Rightarrow> gotime" where
  "GetWallClockTime pts tm =
     (case tm_baseWallTime tm of
        None \<Rightarrow> None
      | Some base \<Rightarrow> Some (base + i64 (i64 (pts - tm_basePTS tm) * second) sdiv uint (tm_clockRate tm)))"

definition tm_Reset :: "TimestampMapper \<Rightarrow> TimestampMapper" where
  "tm_Reset tm =
     tm\<lparr>tm_baseRTPTime := 0, tm_baseWallTime := None, tm_basePTS := 0, tm_wrapCount := 0, tm_lastRTPTime := 0,
        tm_lastPTS := 0\<rparr>"

definition SetBasePTS :: "int \<Rightarrow> TimestampMapper \<Rightarrow> TimestampMapper" where
  "SetBasePTS base tm = tm\<lparr>tm_basePTS := base\<rparr>"

definition ValidateTimestamp :: "u32 \<Rightarrow> TimestampMapper \<Rightarrow> bool" where
  "ValidateTimestamp rtp tm =
     (if tm_lastRTPTime tm = 0 then True
      else
        (let delta = (if rtp \<ge> tm_lastRTPTime tm then uint (rtp - tm_lastRTPTime tm)
                      else uint rtp + 2 ^ 32 - uint (tm_lastRTPTime tm))
         in delta < uint (tm_clockRate tm * 10)))"

section \<open>The wrap detector\<close>

record PTSWrapDetector =
  wd_timeBase :: Rational
  wd_wrapThreshold :: int
  wd_halfThreshold :: int

definition calculateWrapThreshold :: int where
  "calculateWrapThreshold = 2 ^ 33"

definition NewPTSWrapDetector :: "Rational \<Rightarrow> PTSWrapDetector" where
  "NewPTSWrapDetector timeBase =
     \<lparr>wd_timeBase = timeBase, wd_wrapThreshold = calculateWrapThreshold, wd_halfThreshold = calculateWrapThreshold sdiv 2\<rparr>"

definition DetectWrap :: "int \<Rightarrow> int \<Rightarrow> PTSWrapDetector \<Rightarrow> bool" where
  "DetectWrap currentPTS lastPTS d \<longleftrightarrow> currentPTS < lastPTS \<and> i64 (lastPTS - currentPTS) > wd_halfThreshold d"

definition UnwrapPTS :: "int \<Rightarrow> int \<Rightarrow> PTSWrapDetector \<Rightarrow> int" where
  "UnwrapPTS pts wrapCount d = i64 (pts + wrapCount * wd_wrapThreshold d)"

text \<open>The quotient is computed before the comparison; a zero numerator is a run-time error.\<close>

definition IsLikelyDiscontinuity :: "int \<Rightarrow> int \<Rightarrow> PTSWrapDetector \<Rightarrow> bool outcome" where
  "IsLikelyDiscontinuity currentPTS lastPTS d =
     (if ra_Num (wd_timeBase d) = 0 then Panic
      else
        (let diff = go_abs (i64 (currentPTS - lastPTS));
             quarterThreshold = wd_wrapThreshold d sdiv 4;
             oneSecondInPTS = ra_Den (wd_timeBase d) sdiv ra_Num (wd_timeBase d)
         in Ret (diff > oneSecondInPTS \<and> diff < quarterThreshold)))"

definition CalculatePTSDelta :: "int \<Rightarrow> int \<Rightarrow> int \<Rightarrow> PTSWrapDetector \<Rightarrow> int" where
  "CalculatePTSDelta currentPTS lastPTS wrapCount d = i64 (UnwrapPTS currentPTS wrapCount d - lastPTS)"

section \<open>The track manager\<close>

record TrackSync =
  ty_TimeBase :: Rational
  ty_LastPTS :: int
  ty_LastDTS :: int
  ty_LastWallTime :: gotime
  ty_BaseTime :: gotime
  ty_BasePTS :: int
  ty_PTSWrapCount :: int
  ty_FrameCount :: nat
  ty_PTSJumps :: nat
  ty_DTSErrors :: nat
  ty_DroppedCount :: u64
  ty_wrapDetector :: PTSWrapDetector

definition NewTrackSyncManager :: "Rational \<Rightarrow> TrackSync" where
  "NewTrackSyncManager timeBase =
     (let tb = \<lparr>ra_Num = (if ra_Num timeBase = 0 then 1 else ra_Num timeBase),
                ra_Den = (if ra_Den timeBase = 0 then 90000 else ra_Den timeBase)\<rparr>
      in \<lparr>ty_TimeBase = tb, ty_LastPTS = 0, ty_LastDTS = 0, ty_LastWallTime = None, ty_BaseTime = None, ty_BasePTS = 0,
          ty_PTSWrapCount = 0, ty_FrameCount = 0, ty_PTSJumps = 0, ty_DTSErrors = 0, ty_DroppedCount = 0,
          ty_wrapDetector = NewPTSWrapDetector tb\<rparr>)"

definition ty_oneSecond :: "TrackSync \<Rightarrow> int" where
  "ty_oneSecond t = ra_Den (ty_TimeBase t) sdiv ra_Num (ty_TimeBase t)"

text \<open>The jump check of \<^verbatim>\<open>ProcessTimestamp\<close>.\<close>

definition ty_check_jump :: "int \<Rightarrow> gotime \<Rightarrow> TrackSync \<Rightarrow> TrackSync" where
  "ty_check_jump pts wallTime t =
     (let absoluteDiff = go_abs (i64 (pts - ty_LastPTS t))
      in if absoluteDiff > ty_oneSecond t then
           (let t = t\<lparr>ty_PTSJumps := ty_PTSJumps t + 1\<rparr>
            in if absoluteDiff > i64 (10 * ty_oneSecond t)
               then t\<lparr>ty_BaseTime := wallTime, ty_BasePTS := pts, ty_PTSWrapCount := 0\<rparr> else t)
         else t)"

text \<open>Wrap-around or jump.\<close>

definition ty_follow :: "int \<Rightarrow> gotime \<Rightarrow> TrackSync \<Rightarrow> TrackSync" where
  "ty_follow pts wallTime t =
     (if DetectWrap pts (ty_LastPTS t) (ty_wrapDetector t)
      then t\<lparr>ty_PTSWrapCount := ty_PTSWrapCount t + 1\<rparr> else ty_check_jump pts wallTime t)"

definition ProcessTimestamp :: "int \<Rightarrow> int \<Rightarrow> gotime \<Rightarrow> TrackSync \<Rightarrow> TrackSync" where
  "ProcessTimestamp pts dts wallTime t =
     (if ty_BaseTime t = None
      then t\<lparr>ty_BaseTime := wallTime, ty_BasePTS := pts, ty_LastPTS := pts, ty_LastDTS := dts,
             ty_LastWallTime := wallTime, ty_FrameCount := 1\<rparr>
      else
        (let t = ty_follow pts wallTime t;
             t = (if ty_LastDTS t \<noteq> 0 \<and> dts < ty_LastDTS t then t\<lparr>ty_DTSErrors := ty_DTSErrors t + 1\<rparr> else t)
         in t\<lparr>ty_LastPTS := pts, ty_LastDTS := dts, ty_LastWallTime := wallTime, ty_FrameCount := ty_FrameCount t + 1\<rparr>))"

definition calculatePTSDelta :: "int \<Rightarrow> TrackSync \<Rightarrow> int" where
  "calculatePTSDelta pts t = CalculatePTSDelta pts (ty_BasePTS t) (ty_PTSWrapCount t) (ty_wrapDetector t)"

definition ns_delta :: "int \<Rightarrow> Rational \<Rightarrow> int" where
  "ns_delta ptsDelta tb =
     (let den = ra_Den tb; num = ra_Num tb
      in i64 (i64 (i64 (ptsDelta sdiv den * second) * num) + i64 (i64 (ptsDelta smod den * second) * num) sdiv den))"

definition GetPresentationTime :: "nanos \<Rightarrow> int \<Rightarrow> TrackSync \<Rightarrow> nanos" where
  "GetPresentationTime now pts t =
     (case ty_BaseTime t of
        None \<Rightarrow> now
      | Some base \<Rightarrow> base + ns_delta (calculatePTSDelta pts t) (ty_TimeBase t))"

definition GetDecodeTime :: "int \<Rightarrow> TrackSync \<Rightarrow> gotime" where
  "GetDecodeTime dts t =
     (case ty_BaseTime t of
        None \<Rightarrow> None
      | Some base \<Rightarrow> if dts = 0 then None else Some (base + ns_delta (calculatePTSDelta dts t) (ty_TimeBase t)))"

definition ty_Reset :: "TrackSync \<Rightarrow> TrackSync" where
  "ty_Reset t =
     t\<lparr>ty_BaseTime := None, ty_BasePTS := 0, ty_LastPTS := 0, ty_LastDTS := 0, ty_LastWallTime := None,
       ty_PTSWrapCount := 0, ty_FrameCount := 0, ty_PTSJumps := 0, ty_DTSErrors := 0, ty_DroppedCount := 0\<rparr>"

definition ReportDropped :: "u64 \<Rightarrow> TrackSync \<Rightarrow> TrackSync" where
  "ReportDropped count t = t\<lparr>ty_DroppedCount := ty_DroppedCount t + count\<rparr>"

definition GetDriftFromWallClock :: "nanos \<Rightarrow> int \<Rightarrow> nanos \<Rightarrow> TrackSync \<Rightarrow> int" where
  "GetDriftFromWallClock now pts actual t = time_Sub actual (GetPresentationTime now pts t)"

section \<open>Unwrapping RTP time\<close>

text \<open>
  The sender's clock does not wrap: its readings are natural numbers, of which a packet carries the low 32
  bits.  A reading may precede the one before it as long as both are in the same cycle.
\<close>

definition clock_step :: "nat \<Rightarrow> nat \<Rightarrow> bool" where
  "clock_step x y \<longleftrightarrow> y < x + 2 ^ 31 \<and> x \<le> y + 2 ^ 31 \<and> x div 2 ^ 32 \<le> y div 2 ^ 32"

fun clock_path :: "nat list \<Rightarrow> bool" where
  "clock_path (x # y # xs) \<longleftrightarrow> clock_step x y \<and> clock_path (y # xs)"
| "clock_path xs \<longleftrightarrow> True"

fun tm_feed :: "nanos \<Rightarrow> nat list \<Rightarrow> TimestampMapper \<Rightarrow> int list" where
  "tm_feed now [] tm = []"
| "tm_feed now (x # xs) tm = (let (tm, pts) = ToPTS now (of_nat x) tm in pts # tm_feed now xs tm)"

definition tm_tracks :: "nat \<Rightarrow> nat \<Rightarrow> TimestampMapper \<Rightarrow> bool" where
  "tm_tracks x0 x tm \<longleftrightarrow>
     tm_baseWallTime tm \<noteq> None \<and> tm_baseRTPTime tm = of_nat x0 \<and> tm_lastRTPTime tm = of_nat x \<and>
     tm_wrapCount tm = int (x div 2 ^ 32) - int (x0 div 2 ^ 32)"

lemma unat_u32: "unat (of_nat x :: u32) = x mod 4294967296"
  by (simp add: unat_of_nat take_bit_eq_mod)

lemma uint_u32: "uint (of_nat x :: u32) = int (x mod 4294967296)"
  using unat_u32 [of x] by (metis uint_nat)

lemma clock_cycle:
  fixes a c r s :: nat
  assumes "r < 4294967296" "s < 4294967296" "4294967296 * c + s < 4294967296 * a + r + 2147483648"
    "4294967296 * a + r \<le> 4294967296 * c + s + 2147483648" "a \<le> c"
  shows "(s < r \<and> r - s > 2147483648) \<longleftrightarrow> c = a + 1" and "c = a \<or> c = a + 1"
  using assms by arith+

lemma late_cycle:
  fixes a r s :: nat
  assumes "r < 4294967296" "s < 4294967296" "4294967296 * (a + 1) + r < 4294967296 * a + s + 2147483648"
  shows "r < s" and "s - r > 2147483648" and "4294967296 * a + s < 4294967296 * (a + 1) + r"
  using assms by arith+

lemma wrapped_word:
  assumes "rs = unat (prev :: u32)" and "ss = unat rtp"
  shows "rtp_wrapped prev rtp \<longleftrightarrow> ss < rs \<and> rs - ss > 2147483648"
  using assms by (auto simp: rtp_wrapped_def word_less_nat_alt unat_sub_if')

lemma wrapped_iff:
  assumes "clock_step x y"
  shows "rtp_wrapped (of_nat x) (of_nat y) \<longleftrightarrow> y div 2 ^ 32 = x div 2 ^ 32 + 1"
    and "y div 2 ^ 32 = x div 2 ^ 32 \<or> y div 2 ^ 32 = x div 2 ^ 32 + 1"
proof -
  let ?M = "4294967296 :: nat"
  have x: "?M * (x div ?M) + x mod ?M = x" "x mod ?M < ?M" and y: "?M * (y div ?M) + y mod ?M = y" "y mod ?M < ?M"
    by simp_all
  have s: "y < x + 2147483648" "x \<le> y + 2147483648" "x div ?M \<le> y div ?M" using assms by (simp_all add: clock_step_def)
  note c = clock_cycle [OF x(2) y(2), of "y div ?M" "x div ?M", unfolded x(1) y(1), OF s]
  show "rtp_wrapped (of_nat x) (of_nat y) \<longleftrightarrow> y div 2 ^ 32 = x div 2 ^ 32 + 1"
    using c(1) by (simp add: wrapped_word [OF refl refl] unat_u32)
  show "y div 2 ^ 32 = x div 2 ^ 32 \<or> y div 2 ^ 32 = x div 2 ^ 32 + 1" using c(2) by simp
qed

lemma cycle_value: "int (y div 4294967296) * 4294967296 + int (y mod 4294967296) = int y"
  by (metis div_mult_mod_eq of_nat_add of_nat_mult of_nat_numeral)

lemma cycle33_value: "int (y div 8589934592) * 8589934592 + int (y mod 8589934592) = int y"
  by (metis div_mult_mod_eq of_nat_add of_nat_mult of_nat_numeral)

lemma ToPTS_tracks:
  assumes "tm_tracks x0 x tm" and "clock_step x y"
    and "- (2 ^ 63) \<le> int y - int x0 + tm_basePTS tm" and "int y - int x0 + tm_basePTS tm < 2 ^ 63"
  shows "snd (ToPTS now (of_nat y) tm) = int y - int x0 + tm_basePTS tm"
    and "tm_tracks x0 y (fst (ToPTS now (of_nat y) tm))"
    and "tm_basePTS (fst (ToPTS now (of_nat y) tm)) = tm_basePTS tm"
proof -
  have w: "(if rtp_wrapped (tm_lastRTPTime tm) (of_nat y) then tm_wrapCount tm + 1 else tm_wrapCount tm) =
      int (y div 2 ^ 32) - int (x0 div 2 ^ 32)"
    using assms(1) wrapped_iff [OF assms(2)] by (auto simp: tm_tracks_def)
  have v: "(int (y div 2 ^ 32) - int (x0 div 2 ^ 32)) * 2 ^ 32 + uint (of_nat y :: u32) - uint (tm_baseRTPTime tm) +
      tm_basePTS tm = int y - int x0 + tm_basePTS tm"
    using assms(1) cycle_value [of y] cycle_value [of x0] by (simp add: tm_tracks_def uint_u32 algebra_simps)
  show "snd (ToPTS now (of_nat y) tm) = int y - int x0 + tm_basePTS tm"
  proof -
    have "snd (ToPTS now (of_nat y) tm) = i64 ((int (y div 2 ^ 32) - int (x0 div 2 ^ 32)) * 2 ^ 32 +
        uint (of_nat y :: u32) - uint (tm_baseRTPTime tm) + tm_basePTS tm)"
      using assms(1) unfolding ToPTS_def Let_def w by (auto simp: tm_tracks_def)
    then show ?thesis unfolding v using i64_id [OF assms(3,4)] by simp
  qed
  show "tm_tracks x0 y (fst (ToPTS now (of_nat y) tm))" and "tm_basePTS (fst (ToPTS now (of_nat y) tm)) = tm_basePTS tm"
    using assms(1) w unfolding ToPTS_def by (auto simp: Let_def tm_tracks_def)
qed

lemma tm_feed_tracks:
  assumes "tm_tracks x0 x tm" and "clock_path (x # xs)"
    and "\<forall>y \<in> set xs. - (2 ^ 63) \<le> int y - int x0 + tm_basePTS tm \<and> int y - int x0 + tm_basePTS tm < 2 ^ 63"
  shows "tm_feed now xs tm = map (\<lambda>y. int y - int x0 + tm_basePTS tm) xs"
  using assms
proof (induction xs arbitrary: x tm)
  case (Cons y ys)
  have 1: "clock_step x y" "- (2 ^ 63) \<le> int y - int x0 + tm_basePTS tm" "int y - int x0 + tm_basePTS tm < 2 ^ 63"
    using Cons.prems(2,3) by auto
  note 2 = ToPTS_tracks [OF Cons.prems(1) 1, of now]
  then show ?case using Cons.IH [of y "fst (ToPTS now (of_nat y) tm)"] Cons.prems(2,3) by (simp add: case_prod_beta Let_def)
qed simp

text \<open>C25: The 32-bit RTP timestamps of a stream are mapped to presentation times as if the sender's clock had
  been transmitted in full: through any number of wrap-arounds, with gaps and reordering of up to half a cycle
  inside a cycle, every packet gets the distance of its reading from the first one, plus the base.\<close>

theorem rtp_time_unwraps:
  assumes "clock_path (x0 # xs)" and "- (2 ^ 62) \<le> base" "base < 2 ^ 62"
    and "\<forall>y \<in> set xs. int y - int x0 < 2 ^ 62" and "int x0 < 2 ^ 62"
  shows "tm_feed now (x0 # xs) (SetBasePTS base (NewTimestampMapper rate)) =
    map (\<lambda>y. int y - int x0 + base) (x0 # xs)"
proof -
  let ?tm = "fst (ToPTS now (of_nat x0) (SetBasePTS base (NewTimestampMapper rate)))"
  have t: "tm_tracks x0 x0 ?tm" "tm_basePTS ?tm = base" "snd (ToPTS now (of_nat x0) (SetBasePTS base (NewTimestampMapper rate))) = base"
    by (simp_all add: ToPTS_def SetBasePTS_def NewTimestampMapper_def Let_def tm_tracks_def)
  have "tm_feed now xs ?tm = map (\<lambda>y. int y - int x0 + tm_basePTS ?tm) xs"
  proof (rule tm_feed_tracks [OF t(1) assms(1)], intro ballI)
    fix y assume "y \<in> set xs"
    then have "int y - int x0 < 2 ^ 62" "0 \<le> int y" using assms(4) by simp_all
    then show "- (2 ^ 63) \<le> int y - int x0 + tm_basePTS ?tm \<and> int y - int x0 + tm_basePTS ?tm < 2 ^ 63"
      using assms(2,3,5) unfolding t(2) by simp
  qed
  then show ?thesis using t(2,3) by (simp add: case_prod_beta Let_def)
qed

theorem rtp_time_unwraps_witness:
  "tm_feed 0 [4294966000, 4294969000, 4294968000, 4294972000] (SetBasePTS 7 (NewTimestampMapper 90000)) =
     [7, 3007, 2007, 6007]"
  using rtp_time_unwraps [of 4294966000 "[4294969000, 4294968000, 4294972000]" 7 0 90000]
  by (simp add: clock_step_def)

text \<open>A packet reordered across the wrap-around shifts the time line for good: the late packet is placed a
  cycle ahead, and because the step back to the new cycle counts as another wrap, so is everything that
  follows.\<close>

theorem reordering_at_wrap_shifts_time:
  assumes "tm_tracks x0 x tm" and "x div 2 ^ 32 = y div 2 ^ 32 + 1" and "x < y + 2 ^ 31"
    and "- (2 ^ 62) \<le> tm_basePTS tm - int x0" "int x + tm_basePTS tm - int x0 < 2 ^ 62"
  shows "snd (ToPTS now (of_nat y) tm) = int y + 2 ^ 32 - int x0 + tm_basePTS tm \<and>
    snd (ToPTS now (of_nat x) (fst (ToPTS now (of_nat y) tm))) = int x + 2 ^ 32 - int x0 + tm_basePTS tm"
proof -
  let ?M = "4294967296 :: nat"
  have y: "?M * (y div ?M) + y mod ?M = y" and x: "?M * (y div ?M + 1) + x mod ?M = x" and m: "x mod ?M < ?M" "y mod ?M < ?M"
    using assms(2) by (simp_all, metis add.commute mult_Suc_right mult_div_mod_eq)
  have "x < y + 2147483648" using assms(3) by simp
  note r = late_cycle [OF m, of "y div ?M", unfolded x y, OF this]
  have n: "\<not> rtp_wrapped (of_nat x) (of_nat y)" and b: "rtp_wrapped (of_nat y) (of_nat x)"
    unfolding wrapped_word [OF refl refl] unat_u32 using r by simp_all
  have v: "(int (x div ?M) - int (x0 div ?M)) * 4294967296 + int (y mod ?M) - int (x0 mod ?M) = int y + 4294967296 - int x0"
    "(int (x div ?M) - int (x0 div ?M) + 1) * 4294967296 + int (x mod ?M) - int (x0 mod ?M) = int x + 4294967296 - int x0"
    using cycle_value [of x] cycle_value [of y] cycle_value [of x0] assms(2) by (simp_all add: algebra_simps)
  have "int y < int x" using r(3) by simp
  then have range: "- (2 ^ 63) \<le> int y + 2 ^ 32 - int x0 + tm_basePTS tm" "int y + 2 ^ 32 - int x0 + tm_basePTS tm < 2 ^ 63"
    "- (2 ^ 63) \<le> int x + 2 ^ 32 - int x0 + tm_basePTS tm" "int x + 2 ^ 32 - int x0 + tm_basePTS tm < 2 ^ 63"
    using assms(4,5) by simp_all
  define tm1 where "tm1 = fst (ToPTS now (of_nat y) tm)"
  have f: "tm_baseWallTime tm \<noteq> None" "tm_lastRTPTime tm = of_nat x" "uint (tm_baseRTPTime tm) = int (x0 mod ?M)"
    "tm_wrapCount tm = int (x div ?M) - int (x0 div ?M)" using assms(1) by (simp_all add: tm_tracks_def uint_u32)
  have g: "tm_baseWallTime tm1 \<noteq> None" "tm_lastRTPTime tm1 = of_nat y" "uint (tm_baseRTPTime tm1) = int (x0 mod ?M)"
    "tm_wrapCount tm1 = int (x div ?M) - int (x0 div ?M)" "tm_basePTS tm1 = tm_basePTS tm"
    using f n by (auto simp: tm1_def ToPTS_def Let_def)
  have "snd (ToPTS now (of_nat y) tm) = i64 (int y + 4294967296 - int x0 + tm_basePTS tm)"
    using f(1) n unfolding ToPTS_def Let_def f(2) by (auto simp: uint_u32 f(3,4) v(1) simp del: left_diff_distrib_numeral)
  then have late: "snd (ToPTS now (of_nat y) tm) = int y + 2 ^ 32 - int x0 + tm_basePTS tm" using i64_id [OF range(1,2)] by simp
  have "snd (ToPTS now (of_nat x) tm1) = i64 (int x + 4294967296 - int x0 + tm_basePTS tm)"
    using g(1) b unfolding ToPTS_def Let_def g(2) by (auto simp: uint_u32 g(3-5) v(2) simp del: left_diff_distrib_numeral distrib_right_numeral)
  then show ?thesis using late i64_id [OF range(3,4)] by (simp add: tm1_def)
qed

theorem reordering_at_wrap_shifts_time_witness:
  "let tm = fst (ToPTS 0 (of_nat 4294967300) (fst (ToPTS 0 (of_nat 4294966000) (NewTimestampMapper 90000))))
   in snd (ToPTS 0 (of_nat 4294967000) tm) = 4294968296 \<and>
      snd (ToPTS 0 (of_nat 4294967300) (fst (ToPTS 0 (of_nat 4294967000) tm))) = 4294968596"
proof -
  let ?tm = "fst (ToPTS 0 (of_nat 4294967300) (fst (ToPTS 0 (of_nat 4294966000) (NewTimestampMapper 90000))))"
  have "tm_tracks 4294966000 4294966000 (fst (ToPTS 0 (of_nat 4294966000) (NewTimestampMapper 90000)))"
    by (simp add: ToPTS_def NewTimestampMapper_def Let_def tm_tracks_def)
  then have 1: "tm_tracks 4294966000 4294967300 ?tm"
    by (rule ToPTS_tracks) (simp_all add: clock_step_def ToPTS_def NewTimestampMapper_def Let_def)
  have 2: "tm_basePTS ?tm = 0" by (simp add: ToPTS_def NewTimestampMapper_def Let_def)
  show ?thesis using reordering_at_wrap_shifts_time [OF 1, of 4294967000 0] 2 by (simp add: Let_def)
qed

section \<open>Presentation times\<close>

lemma sdiv_nonneg: "0 \<le> a \<Longrightarrow> 0 < b \<Longrightarrow> a sdiv b = a div (b::int)"
  by (cases "a = 0") (simp_all add: signed_divide_int_def)

lemma smod_nonneg: "0 \<le> a \<Longrightarrow> 0 < b \<Longrightarrow> a smod b = a mod (b::int)"
  by (cases "a = 0") (simp_all add: signed_modulo_int_def)

lemma abs_smod_less: "0 < b \<Longrightarrow> \<bar>a smod b\<bar> < (b::int)"
  using smod_int_range [of b a] by auto

lemma sdiv_split:
  fixes d den k :: int
  assumes "0 < den" and "0 \<le> k"
  shows "d sdiv den * k + (d smod den * k) sdiv den = (d * k) sdiv den"
proof -
  have pos: "e div den * k + (e mod den * k) div den = (e * k) div den" for e
  proof -
    have "e * k = (e div den * k) * den + e mod den * k" by (metis div_mult_mod_eq mult.assoc mult.commute distrib_right)
    then show ?thesis using assms(1) by (simp add: add.commute)
  qed
  have nn: "d sdiv den * k + (d smod den * k) sdiv den = (d * k) sdiv den" if "0 \<le> d" for d
    using pos [of d] that assms by (simp add: sdiv_nonneg smod_nonneg)
  show ?thesis
  proof (cases "0 \<le> d")
    case False
    then show ?thesis using nn [of "- d"] by simp
  qed (rule nn)
qed

lemma sdiv_bound:
  fixes a den :: int
  assumes "0 < den"
  shows "\<bar>a sdiv den\<bar> \<le> \<bar>a\<bar>"
proof -
  have "\<bar>a\<bar> div den \<le> \<bar>a\<bar>" using assms int_div_le_self [of "\<bar>a\<bar>" den] by (cases "a = 0"; cases "den = 1") auto
  moreover have "0 \<le> \<bar>a\<bar> div den" using assms by (simp add: pos_imp_zdiv_nonneg_iff)
  ultimately show ?thesis using assms by (simp add: signed_divide_int_def sgn_if abs_if split: if_splits)
qed

lemma i64_abs: "\<bar>x\<bar> < 2 ^ 63 \<Longrightarrow> i64 x = x"
  by (rule i64_id) (auto simp: abs_less_iff)

lemma ns_delta_exact:
  assumes "0 < ra_Den tb" and "0 < ra_Num tb" and "ra_Den tb * (second * ra_Num tb) < 2 ^ 62"
    and "\<bar>d sdiv ra_Den tb\<bar> * (second * ra_Num tb) < 2 ^ 62"
  shows "ns_delta d tb = (d * (second * ra_Num tb)) sdiv ra_Den tb"
proof -
  define den num where "den = ra_Den tb" and "num = ra_Num tb"
  have p: "0 < den" "0 < num" "0 < second" using assms(1,2) by (simp_all add: den_def num_def second_def)
  define q r where "q = d sdiv den" and "r = d smod den"
  have mono: "\<bar>a * second\<bar> \<le> \<bar>a\<bar> * (second * num)" for a
  proof -
    have "\<bar>a\<bar> * second * 1 \<le> \<bar>a\<bar> * second * num" by (rule mult_left_mono) (use p in auto)
    then show ?thesis using p by (simp add: abs_mult mult.assoc)
  qed
  have q: "\<bar>q\<bar> * (second * num) < 2 ^ 62" using assms(4) by (simp add: q_def den_def num_def)
  have "\<bar>r\<bar> < den" using abs_smod_less [OF p(1)] by (simp add: r_def)
  then have "\<bar>r\<bar> * (second * num) < den * (second * num)" using p by (simp add: mult_strict_right_mono)
  then have r: "\<bar>r\<bar> * (second * num) < 2 ^ 62" using assms(3) by (simp add: den_def num_def)
  have a: "\<bar>q * second * num\<bar> < 2 ^ 62" "\<bar>r * second * num\<bar> < 2 ^ 62" using q r p by (simp_all add: abs_mult mult.assoc)
  then have b: "\<bar>(r * second * num) sdiv den\<bar> < 2 ^ 62" using sdiv_bound [OF p(1), of "r * second * num"] by simp
  have i: "i64 (q * second) = q * second" "i64 (r * second) = r * second"
    by (rule i64_abs; use mono [of q] mono [of r] q r in simp)+
  have j: "i64 (q * second * num) = q * second * num" "i64 (r * second * num) = r * second * num"
    by (rule i64_abs; use a in simp)+
  have "\<bar>q * second * num + (r * second * num) sdiv den\<bar> < 2 ^ 63" using a b by simp
  then have "ns_delta d tb = q * second * num + (r * second * num) sdiv den"
    by (simp add: ns_delta_def Let_def i j i64_abs flip: den_def num_def q_def r_def)
  then show ?thesis using sdiv_split [OF p(1), of "second * num" d] p
    by (simp add: mult.assoc flip: q_def r_def den_def num_def)
qed

section \<open>Following a track through wrap-around\<close>

definition track_step :: "int \<Rightarrow> nat \<Rightarrow> nat \<Rightarrow> bool" where
  "track_step one x y \<longleftrightarrow>
     int y \<le> int x + 10 * one \<and> int x \<le> int y + 10 * one \<and> x div 2 ^ 33 \<le> y div 2 ^ 33"

fun track_path :: "int \<Rightarrow> nat list \<Rightarrow> bool" where
  "track_path one (x # y # xs) \<longleftrightarrow> track_step one x y \<and> track_path one (y # xs)"
| "track_path one xs \<longleftrightarrow> True"

text \<open>Feeding readings of an unbounded clock, of which a frame carries the low 33 bits.\<close>

definition ty_feed :: "nat \<Rightarrow> int \<Rightarrow> nanos \<Rightarrow> TrackSync \<Rightarrow> TrackSync" where
  "ty_feed x dts wall t = ProcessTimestamp (int (x mod 2 ^ 33)) dts (Some wall) t"

definition ty_tracks :: "Rational \<Rightarrow> nanos \<Rightarrow> nat \<Rightarrow> nat \<Rightarrow> TrackSync \<Rightarrow> bool" where
  "ty_tracks tb base x0 x t \<longleftrightarrow>
     ty_TimeBase t = tb \<and> ty_wrapDetector t = NewPTSWrapDetector tb \<and> ty_BaseTime t = Some base \<and>
     ty_BasePTS t = int (x0 mod 2 ^ 33) \<and> ty_LastPTS t = int (x mod 2 ^ 33) \<and>
     ty_PTSWrapCount t = int (x div 2 ^ 33) - int (x0 div 2 ^ 33)"

lemma track_cycle:
  fixes a c r s :: nat and w :: int
  assumes "r < 8589934592" "s < 8589934592" "8589934592 * int c + int s \<le> 8589934592 * int a + int r + w"
    "8589934592 * int a + int r \<le> 8589934592 * int c + int s + w" "a \<le> c" "w < 4294967296"
  shows "(s < r \<and> int r - int s > 4294967296) \<longleftrightarrow> c = a + 1" and "c = a \<or> c = a + 1"
    and "c = a \<Longrightarrow> \<bar>int s - int r\<bar> \<le> w"
  using assms by arith+

lemma process_fields:
  assumes "ty_BaseTime t \<noteq> None"
  shows "ty_TimeBase (ProcessTimestamp pts dts wall t) = ty_TimeBase (ty_follow pts wall t)"
    and "ty_wrapDetector (ProcessTimestamp pts dts wall t) = ty_wrapDetector (ty_follow pts wall t)"
    and "ty_BaseTime (ProcessTimestamp pts dts wall t) = ty_BaseTime (ty_follow pts wall t)"
    and "ty_BasePTS (ProcessTimestamp pts dts wall t) = ty_BasePTS (ty_follow pts wall t)"
    and "ty_PTSWrapCount (ProcessTimestamp pts dts wall t) = ty_PTSWrapCount (ty_follow pts wall t)"
    and "ty_LastPTS (ProcessTimestamp pts dts wall t) = pts"
  using assms by (auto simp: ProcessTimestamp_def Let_def)

lemma ty_feed_tracks:
  assumes "ty_tracks tb base x0 x t" and "track_step (ty_oneSecond t) x y"
    and "0 \<le> ty_oneSecond t" and "10 * ty_oneSecond t < 2 ^ 32"
  shows "ty_tracks tb base x0 y (ty_feed y dts wall t)" and "ty_oneSecond (ty_feed y dts wall t) = ty_oneSecond t"
proof -
  let ?M = "8589934592 :: nat"
  let ?w = "10 * ty_oneSecond t"
  define r s where "r = x mod ?M" and "s = y mod ?M"
  have m: "r < ?M" "s < ?M" by (simp_all add: r_def s_def)
  have x: "8589934592 * int (x div ?M) + int r = int x" "8589934592 * int (y div ?M) + int s = int y"
    unfolding r_def s_def using cycle33_value [of x] cycle33_value [of y] by (simp_all only: mult.commute)
  have st: "int y \<le> int x + ?w" "int x \<le> int y + ?w" "x div ?M \<le> y div ?M" "?w < 4294967296"
    using assms(2,4) by (simp_all add: track_step_def)
  note c = track_cycle [OF m, of "y div ?M" "x div ?M", unfolded x, OF st]
  have i: "i64 (int r - int s) = int r - int s" "i64 (int s - int r) = int s - int r" "i64 ?w = ?w"
    by (rule i64_abs; use m st(4) assms(3) in simp)+
  have last: "ty_LastPTS t = int r" using assms(1) by (simp add: ty_tracks_def r_def)
  have wd: "wd_halfThreshold (ty_wrapDetector t) = 4294967296"
    using assms(1) by (simp add: ty_tracks_def NewPTSWrapDetector_def calculateWrapThreshold_def signed_divide_int_def)
  have w: "DetectWrap (int s) (ty_LastPTS t) (ty_wrapDetector t) \<longleftrightarrow> y div ?M = x div ?M + 1"
    using c(1) by (auto simp: DetectWrap_def last wd i)
  have j: "y div ?M = x div ?M \<Longrightarrow> \<not> go_abs (i64 (int s - ty_LastPTS t)) > i64 ?w"
    using c(3) by (simp add: last i go_abs_def abs_if split: if_splits)
  have k: "ty_check_jump (int s) (Some wall) t = t \<or> ty_check_jump (int s) (Some wall) t = t\<lparr>ty_PTSJumps := ty_PTSJumps t + 1\<rparr>"
    if "y div ?M = x div ?M"
    using j [OF that] by (simp add: ty_check_jump_def Let_def ty_oneSecond_def)
  have f: "ty_feed y dts wall t = ProcessTimestamp (int s) dts (Some wall) t" by (simp add: ty_feed_def s_def)
  define u where "u = ty_follow (int s) (Some wall) t"
  have n: "ty_BaseTime t \<noteq> None" using assms(1) by (simp add: ty_tracks_def)
  note fields = process_fields [OF n, of "int s" dts "Some wall", folded f u_def]
  have keep: "ty_TimeBase u = ty_TimeBase t" "ty_wrapDetector u = ty_wrapDetector t" "ty_BaseTime u = ty_BaseTime t"
    "ty_BasePTS u = ty_BasePTS t" "ty_PTSWrapCount u = ty_PTSWrapCount t + (int (y div ?M) - int (x div ?M))"
    using c(2) k w unfolding u_def ty_follow_def by auto
  show "ty_tracks tb base x0 y (ty_feed y dts wall t)"
    using assms(1) by (simp add: ty_tracks_def fields keep s_def)
  show "ty_oneSecond (ty_feed y dts wall t) = ty_oneSecond t" by (simp add: ty_oneSecond_def fields keep)
qed

fun ty_run :: "(nat \<times> int \<times> nanos) list \<Rightarrow> TrackSync \<Rightarrow> TrackSync" where
  "ty_run [] t = t"
| "ty_run ((x, dts, wall) # xs) t = ty_run xs (ty_feed x dts wall t)"

lemma ty_run_tracks:
  assumes "ty_tracks tb base x0 x t" and "track_path (ty_oneSecond t) (x # map fst xs)"
    and "0 \<le> ty_oneSecond t" and "10 * ty_oneSecond t < 2 ^ 32"
  shows "ty_tracks tb base x0 (last (x # map fst xs)) (ty_run xs t)"
  using assms
proof (induction xs arbitrary: x t)
  case (Cons a xs)
  obtain y dts wall where a: "a = (y, dts, wall)" by (cases a)
  have "track_step (ty_oneSecond t) x y" using Cons.prems(2) by (simp add: a)
  note 1 = ty_feed_tracks [OF Cons.prems(1) this Cons.prems(3,4), of dts wall]
  then show ?case using Cons.IH [OF 1(1)] Cons.prems(2-4) by (simp add: a 1(2))
qed simp



end
