(* ===== verification/AV_Sync.thy ===== *)
theory AV_Sync
  imports Track_Timing
begin

text \<open>
  The audio/video synchroniser of one stream (\<^verbatim>\<open>sync/manager.go\<close>, \<^verbatim>\<open>sync/types.go\<close>): it follows the two tracks,
  measures the drift between them and corrects it by moving the audio offset.  The product of the average drift
  and the correction factor is a floating-point computation; the configuration carries it as the function
  \<open>sc_scale\<close>.  The variance and the correction rate, which only statistics read, are left out.  The clock
  is read once per call.
\<close>

section \<open>State\<close>

record SyncConfig =
  sc_MaxAudioDrift :: int
  sc_CorrectionInterval :: int
  sc_EnableAutoCorrect :: bool
  sc_MaxCorrectionStep :: int
  sc_scale :: "int \<Rightarrow> int"

definition millisecond :: nanos where
  "millisecond = 1000000"

definition DefaultSyncConfig :: "(int \<Rightarrow> int) \<Rightarrow> SyncConfig" where
  "DefaultSyncConfig scale =
     \<lparr>sc_MaxAudioDrift = 40 * millisecond, sc_CorrectionInterval = 100 * millisecond, sc_EnableAutoCorrect = True,
      sc_MaxCorrectionStep = 5 * millisecond, sc_scale = scale\<rparr>"

record DriftSample =
  ds_Timestamp :: nanos
  ds_VideoPTS :: int
  ds_AudioPTS :: int
  ds_Drift :: int
  ds_PTSDrift :: int
  ds_ProcessingLag :: int

datatype correction_method = Gradual | Manual

record DriftCorrection =
  dc_Timestamp :: nanos
  dc_Method :: correction_method
  dc_Amount :: int

record SyncStatus =
  ss_InSync :: bool
  ss_CurrentDrift :: int
  ss_AvgDrift :: int

record Manager =
  mg_config :: SyncConfig
  mg_videoSync :: "TrackSync option"
  mg_audioSync :: "TrackSync option"
  mg_driftWindow :: "DriftSample list"
  mg_driftWindowSize :: nat
  mg_corrections :: "DriftCorrection list"
  mg_audioOffset :: int
  mg_lastCorrection :: gotime
  mg_correctionCount :: nat
  mg_status :: SyncStatus

datatype sync_error = VideoAlreadyInitialized | AudioAlreadyInitialized | VideoNotInitialized | AudioNotInitialized

definition new_status :: SyncStatus where
  "new_status = \<lparr>ss_InSync = True, ss_CurrentDrift = 0, ss_AvgDrift = 0\<rparr>"

definition NewManager :: "SyncConfig \<Rightarrow> Manager" where
  "NewManager config =
     \<lparr>mg_config = config, mg_videoSync = None, mg_audioSync = None, mg_driftWindow = [], mg_driftWindowSize = 100,
      mg_corrections = [], mg_audioOffset = 0, mg_lastCorrection = None, mg_correctionCount = 0, mg_status = new_status\<rparr>"

section \<open>Drift\<close>

definition InitializeVideo :: "Rational \<Rightarrow> Manager \<Rightarrow> Manager \<times> sync_error option" where
  "InitializeVideo tb m =
     (if mg_videoSync m \<noteq> None then (m, Some VideoAlreadyInitialized)
      else (m\<lparr>mg_videoSync := Some (NewTrackSyncManager tb)\<rparr>, None))"

definition InitializeAudio :: "Rational \<Rightarrow> Manager \<Rightarrow> Manager \<times> sync_error option" where
  "InitializeAudio tb m =
     (if mg_audioSync m \<noteq> None then (m, Some AudioAlreadyInitialized)
      else (m\<lparr>mg_audioSync := Some (NewTrackSyncManager tb)\<rparr>, None))"

definition limit_step :: "int \<Rightarrow> int \<Rightarrow> int" where
  "limit_step step amount = (if go_abs amount > step then (if amount > 0 then step else - step) else amount)"

definition applyDriftCorrection :: "nanos \<Rightarrow> Manager \<Rightarrow> Manager" where
  "applyDriftCorrection now m =
     (if length (mg_driftWindow m) < 10 then m
      else if go_abs (ss_AvgDrift (mg_status m)) < sc_MaxAudioDrift (mg_config m) sdiv 2 then m
      else
        (let amount = limit_step (sc_MaxCorrectionStep (mg_config m)) (sc_scale (mg_config m) (ss_AvgDrift (mg_status m)));
             corrections = mg_corrections m @ [\<lparr>dc_Timestamp = now, dc_Method = Gradual, dc_Amount = amount\<rparr>]
         in m\<lparr>mg_audioOffset := i64 (mg_audioOffset m - amount),
              mg_corrections := (if length corrections > 50 then tl corrections else corrections),
              mg_lastCorrection := Some now, mg_correctionCount := mg_correctionCount m + 1\<rparr>))"

definition updateDriftStatistics :: "Manager \<Rightarrow> Manager" where
  "updateDriftStatistics m =
     (if mg_driftWindow m = [] then m
      else
        (let avg = i64 (\<Sum>s \<leftarrow> mg_driftWindow m. ds_PTSDrift s) sdiv int (length (mg_driftWindow m))
         in m\<lparr>mg_status := (mg_status m)\<lparr>ss_AvgDrift := avg, ss_InSync := go_abs avg \<le> sc_MaxAudioDrift (mg_config m)\<rparr>\<rparr>))"

text \<open>The distance of the two tracks at their last samples, with the audio offset applied.\<close>

definition pts_drift :: "nanos \<Rightarrow> TrackSync \<Rightarrow> TrackSync \<Rightarrow> int \<Rightarrow> int" where
  "pts_drift now v a audioOffset =
     time_Sub (GetPresentationTime now (ty_LastPTS v) v) (GetPresentationTime now (ty_LastPTS a) a + audioOffset)"

definition record_sample :: "DriftSample \<Rightarrow> Manager \<Rightarrow> Manager" where
  "record_sample s m =
     (let window = mg_driftWindow m @ [s];
          window = (if length window > mg_driftWindowSize m then tl window else window)
      in updateDriftStatistics
           (m\<lparr>mg_driftWindow := window, mg_status := (mg_status m)\<lparr>ss_CurrentDrift := ds_Drift s\<rparr>\<rparr>))"

definition measureDrift :: "nanos \<Rightarrow> TrackSync \<Rightarrow> TrackSync \<Rightarrow> Manager \<Rightarrow> Manager" where
  "measureDrift now v a m =
     (if ty_LastPTS v = 0 \<or> ty_LastPTS a = 0 then m
      else
        (let ptsDrift = pts_drift now v a (mg_audioOffset m);
             lag = time_Sub (time_ns (ty_LastWallTime v)) (time_ns (ty_LastWallTime a));
             m = record_sample \<lparr>ds_Timestamp = now, ds_VideoPTS = ty_LastPTS v, ds_AudioPTS = ty_LastPTS a,
                   ds_Drift = ptsDrift, ds_PTSDrift = ptsDrift, ds_ProcessingLag = lag\<rparr> m
         in if sc_EnableAutoCorrect (mg_config m) \<and>
               time_Sub now (time_ns (mg_lastCorrection m)) > sc_CorrectionInterval (mg_config m) \<and>
               go_abs ptsDrift > sc_MaxAudioDrift (mg_config m)
            then applyDriftCorrection now m else m))"

section \<open>Operations\<close>

definition ProcessVideoFrame :: "nanos \<Rightarrow> int \<Rightarrow> int \<Rightarrow> gotime \<Rightarrow> Manager \<Rightarrow> Manager \<times> (sync_error + nanos)" where
  "ProcessVideoFrame now pts dts captureTime m =
     (case mg_videoSync m of
        None \<Rightarrow> (m, Inl VideoNotInitialized)
      | Some v \<Rightarrow>
          (let v = ProcessTimestamp pts dts captureTime v;
               presentation = GetPresentationTime now pts v;
               m = m\<lparr>mg_videoSync := Some v\<rparr>
           in (case mg_audioSync m of
                 Some a \<Rightarrow> if ty_FrameCount a > 0 then measureDrift now v a m else m
               | None \<Rightarrow> m, Inr presentation)))"

definition ProcessAudioPacket :: "nanos \<Rightarrow> int \<Rightarrow> int \<Rightarrow> gotime \<Rightarrow> Manager \<Rightarrow> Manager \<times> (sync_error + nanos)" where
  "ProcessAudioPacket now pts dts captureTime m =
     (case mg_audioSync m of
        None \<Rightarrow> (m, Inl AudioNotInitialized)
      | Some a \<Rightarrow>
          (let a = ProcessTimestamp pts dts captureTime a;
               presentation = GetPresentationTime now pts a + mg_audioOffset m;
               m = m\<lparr>mg_audioSync := Some a\<rparr>
           in (case mg_videoSync m of
                 Some v \<Rightarrow> if ty_FrameCount v > 0 then measureDrift now v a m else m
               | None \<Rightarrow> m, Inr presentation)))"

definition ReportVideoDropped :: "u64 \<Rightarrow> Manager \<Rightarrow> Manager" where
  "ReportVideoDropped count m = m\<lparr>mg_videoSync := map_option (ReportDropped count) (mg_videoSync m)\<rparr>"

definition ReportAudioDropped :: "u64 \<Rightarrow> Manager \<Rightarrow> Manager" where
  "ReportAudioDropped count m = m\<lparr>mg_audioSync := map_option (ReportDropped count) (mg_audioSync m)\<rparr>"

definition mg_Reset :: "Manager \<Rightarrow> Manager" where
  "mg_Reset m =
     m\<lparr>mg_videoSync := map_option ty_Reset (mg_videoSync m), mg_audioSync := map_option ty_Reset (mg_audioSync m),
       mg_driftWindow := [], mg_corrections := [], mg_audioOffset := 0, mg_lastCorrection := None,
       mg_correctionCount := 0, mg_status := new_status\<rparr>"

definition SetAudioOffset :: "nanos \<Rightarrow> int \<Rightarrow> Manager \<Rightarrow> Manager" where
  "SetAudioOffset now offset m =
     m\<lparr>mg_audioOffset := offset,
       mg_corrections := mg_corrections m @
         [\<lparr>dc_Timestamp = now, dc_Method = Manual, dc_Amount = i64 (offset - mg_audioOffset m)\<rparr>],
       mg_lastCorrection := Some now\<rparr>"

section \<open>Runs\<close>

datatype av_event = Video_frame int int gotime | Audio_packet int int gotime

fun av_step :: "nanos \<Rightarrow> av_event \<Rightarrow> Manager \<Rightarrow> Manager" where
  "av_step now (Video_frame pts dts capture) m = fst (ProcessVideoFrame now pts dts capture m)"
| "av_step now (Audio_packet pts dts capture) m = fst (ProcessAudioPacket now pts dts capture m)"

fun av_run :: "(nanos \<times> av_event) list \<Rightarrow> Manager \<Rightarrow> Manager" where
  "av_run [] m = m"
| "av_run ((now, e) # es) m = av_run es (av_step now e m)"

lemma limit_step_bound: "0 \<le> step \<Longrightarrow> \<bar>limit_step step amount\<bar> \<le> step" if "- (2 ^ 63) < amount"
  using that by (auto simp: limit_step_def go_abs_def abs_if i64_id not_less split: if_splits)

lemma limit_step_pos: "0 < step \<Longrightarrow> 0 < amount \<Longrightarrow> 0 < limit_step step amount"
  by (auto simp: limit_step_def)

text \<open>What a call may do to the part of the state that corrections touch.\<close>

definition corrected :: "nanos \<Rightarrow> Manager \<Rightarrow> Manager \<Rightarrow> bool" where
  "corrected now m m' \<longleftrightarrow>
     mg_correctionCount m' = mg_correctionCount m + 1 \<and> mg_lastCorrection m' = Some now \<and>
     (\<exists>amount. \<bar>amount\<bar> \<le> sc_MaxCorrectionStep (mg_config m) \<and> mg_audioOffset m' = i64 (mg_audioOffset m - amount)) \<and>
     time_Sub now (time_ns (mg_lastCorrection m)) > sc_CorrectionInterval (mg_config m)"

definition uncorrected :: "Manager \<Rightarrow> Manager \<Rightarrow> bool" where
  "uncorrected m m' \<longleftrightarrow>
     mg_correctionCount m' = mg_correctionCount m \<and> mg_lastCorrection m' = mg_lastCorrection m \<and>
     mg_audioOffset m' = mg_audioOffset m"

definition bounded_window :: "Manager \<Rightarrow> bool" where
  "bounded_window m \<longleftrightarrow> length (mg_driftWindow m) \<le> mg_driftWindowSize m"

lemma record_sample_frame:
  "uncorrected m (record_sample s m) \<and> mg_config (record_sample s m) = mg_config m \<and>
   mg_driftWindowSize (record_sample s m) = mg_driftWindowSize m"
  by (simp add: record_sample_def updateDriftStatistics_def Let_def uncorrected_def)

lemma record_sample_window: "bounded_window m \<Longrightarrow> bounded_window (record_sample s m)"
  by (auto simp: record_sample_def updateDriftStatistics_def Let_def bounded_window_def)

lemma apply_cases:
  assumes "0 \<le> sc_MaxCorrectionStep (mg_config m)" and "\<forall>a. - (2 ^ 63) < sc_scale (mg_config m) a"
    and "time_Sub now (time_ns (mg_lastCorrection m)) > sc_CorrectionInterval (mg_config m)"
  shows "uncorrected m (applyDriftCorrection now m) \<or> corrected now m (applyDriftCorrection now m)"
  using assms limit_step_bound [OF spec [OF assms(2)] assms(1)]
  by (auto simp: applyDriftCorrection_def Let_def uncorrected_def corrected_def)

lemma apply_frame:
  "mg_config (applyDriftCorrection now m) = mg_config m \<and>
   mg_driftWindowSize (applyDriftCorrection now m) = mg_driftWindowSize m \<and>
   mg_driftWindow (applyDriftCorrection now m) = mg_driftWindow m"
  by (simp add: applyDriftCorrection_def Let_def)

lemma measure_cases:
  assumes "0 \<le> sc_MaxCorrectionStep (mg_config m)" and "\<forall>a. - (2 ^ 63) < sc_scale (mg_config m) a" and "bounded_window m"
  shows "(uncorrected m (measureDrift now v a m) \<or> corrected now m (measureDrift now v a m)) \<and>
    mg_config (measureDrift now v a m) = mg_config m \<and> mg_driftWindowSize (measureDrift now v a m) = mg_driftWindowSize m \<and>
    bounded_window (measureDrift now v a m)"
proof (cases "ty_LastPTS v = 0 \<or> ty_LastPTS a = 0")
  case True
  then have "measureDrift now v a m = m" by (simp add: measureDrift_def)
  then show ?thesis using assms(3) by (simp add: uncorrected_def)
next
  case False
  define d where "d = pts_drift now v a (mg_audioOffset m)"
  define r where "r = record_sample \<lparr>ds_Timestamp = now, ds_VideoPTS = ty_LastPTS v, ds_AudioPTS = ty_LastPTS a,
    ds_Drift = d, ds_PTSDrift = d, ds_ProcessingLag = time_Sub (time_ns (ty_LastWallTime v)) (time_ns (ty_LastWallTime a))\<rparr> m"
  have r: "uncorrected m r" "mg_config r = mg_config m" "mg_driftWindowSize r = mg_driftWindowSize m" "bounded_window r"
    using record_sample_frame record_sample_window [OF assms(3)] unfolding r_def by blast+
  have e: "measureDrift now v a m = (if sc_EnableAutoCorrect (mg_config r) \<and>
      time_Sub now (time_ns (mg_lastCorrection r)) > sc_CorrectionInterval (mg_config r) \<and>
      go_abs d > sc_MaxAudioDrift (mg_config r) then applyDriftCorrection now r else r)"
    using False unfolding measureDrift_def d_def [symmetric] Let_def r_def [symmetric] by simp
  have "uncorrected r (applyDriftCorrection now r) \<or> corrected now r (applyDriftCorrection now r)"
    if "time_Sub now (time_ns (mg_lastCorrection r)) > sc_CorrectionInterval (mg_config r)"
    using apply_cases [OF _ _ that] assms(1,2) r(2) by simp
  then show ?thesis unfolding e using r apply_frame [of now r]
    by (auto simp: uncorrected_def corrected_def bounded_window_def)
qed

lemma measure_from:
  assumes "0 \<le> sc_MaxCorrectionStep (mg_config m)" and "\<forall>a. - (2 ^ 63) < sc_scale (mg_config m) a" and "bounded_window m"
    and "m1 = m\<lparr>mg_videoSync := v, mg_audioSync := a\<rparr>" and "m' = m1 \<or> m' = measureDrift now v' a' m1"
  shows "(uncorrected m m' \<or> corrected now m m') \<and> mg_config m' = mg_config m \<and>
    mg_driftWindowSize m' = mg_driftWindowSize m \<and> bounded_window m'"
proof -
  have f: "mg_config m1 = mg_config m" "mg_driftWindowSize m1 = mg_driftWindowSize m" "mg_driftWindow m1 = mg_driftWindow m"
    "uncorrected m1 m' = uncorrected m m'" "corrected now m1 m' = corrected now m m'" "uncorrected m1 m1"
    by (simp_all add: assms(4) uncorrected_def corrected_def)
  have b: "bounded_window m1" using assms(3) f(2,3) by (simp add: bounded_window_def)
  note c = measure_cases [of m1 now v' a', unfolded f(1), OF assms(1,2) b]
  show ?thesis using assms(5) c b f by metis
qed

lemma av_step_cases:
  assumes "0 \<le> sc_MaxCorrectionStep (mg_config m)" and "\<forall>a. - (2 ^ 63) < sc_scale (mg_config m) a" and "bounded_window m"
  shows "(uncorrected m (av_step now e m) \<or> corrected now m (av_step now e m)) \<and>
    mg_config (av_step now e m) = mg_config m \<and> mg_driftWindowSize (av_step now e m) = mg_driftWindowSize m \<and>
    bounded_window (av_step now e m)"
proof -
  have "\<exists>m1 v a v' a'. m1 = m\<lparr>mg_videoSync := v, mg_audioSync := a\<rparr> \<and>
      (av_step now e m = m1 \<or> av_step now e m = measureDrift now v' a' m1)"
  proof (cases e)
    case (Video_frame pts dts capture)
    let ?v = "map_option (ProcessTimestamp pts dts capture) (mg_videoSync m)"
    have "av_step now e m = m\<lparr>mg_videoSync := ?v, mg_audioSync := mg_audioSync m\<rparr> \<or>
        av_step now e m = measureDrift now (the ?v) (the (mg_audioSync m)) (m\<lparr>mg_videoSync := ?v, mg_audioSync := mg_audioSync m\<rparr>)"
      by (auto simp: Video_frame ProcessVideoFrame_def Let_def split: option.splits)
    then show ?thesis by blast
  next
    case (Audio_packet pts dts capture)
    let ?a = "map_option (ProcessTimestamp pts dts capture) (mg_audioSync m)"
    have "av_step now e m = m\<lparr>mg_videoSync := mg_videoSync m, mg_audioSync := ?a\<rparr> \<or>
        av_step now e m = measureDrift now (the (mg_videoSync m)) (the ?a) (m\<lparr>mg_videoSync := mg_videoSync m, mg_audioSync := ?a\<rparr>)"
      by (auto simp: Audio_packet ProcessAudioPacket_def Let_def split: option.splits)
    then show ?thesis by blast
  qed
  then show ?thesis using measure_from [OF assms] by blast
qed

text \<open>Progress of the offset since a reference state.\<close>

definition paced :: "int \<Rightarrow> int \<Rightarrow> nanos \<Rightarrow> int \<Rightarrow> nat \<Rightarrow> Manager \<Rightarrow> bool" where
  "paced step interval t0 off0 cnt0 m \<longleftrightarrow>
     cnt0 \<le> mg_correctionCount m \<and>
     \<bar>mg_audioOffset m - off0\<bar> \<le> step * int (mg_correctionCount m - cnt0) \<and>
     (cnt0 < mg_correctionCount m \<longrightarrow>
        (\<exists>l. mg_lastCorrection m = Some l \<and> t0 + interval * (int (mg_correctionCount m - cnt0) - 1) \<le> l))"

lemma paced_corrected:
  assumes "paced step interval t0 off0 cnt0 m" and "corrected now m m'"
    and "sc_MaxCorrectionStep (mg_config m) = step" and "sc_CorrectionInterval (mg_config m) = interval"
    and "0 \<le> t0" "t0 \<le> now" "now < 2 ^ 62" "0 \<le> interval" "interval < 2 ^ 62" "0 \<le> step"
    and "\<bar>off0\<bar> + step * (int (mg_correctionCount m - cnt0) + 1) < 2 ^ 62"
  shows "paced step interval t0 off0 cnt0 m'"
proof -
  define n where "n = int (mg_correctionCount m - cnt0)"
  obtain amount where a: "\<bar>amount\<bar> \<le> step" "mg_audioOffset m' = i64 (mg_audioOffset m - amount)"
    and c: "mg_correctionCount m' = mg_correctionCount m + 1" "mg_lastCorrection m' = Some now"
    and w: "time_Sub now (time_ns (mg_lastCorrection m)) > interval"
    using assms(2-4) by (auto simp: corrected_def)
  have o: "\<bar>mg_audioOffset m - off0\<bar> \<le> step * n" "cnt0 \<le> mg_correctionCount m" using assms(1) by (auto simp: paced_def n_def)
  have n': "int (mg_correctionCount m' - cnt0) = n + 1" using o(2) by (simp add: c n_def)
  have "step * (n + 1) = step * n + step" by (simp add: distrib_left)
  then have b: "\<bar>mg_audioOffset m - amount - off0\<bar> \<le> step * (n + 1)" "\<bar>mg_audioOffset m - amount\<bar> < 2 ^ 63"
    using o(1) a(1) assms(11) unfolding n_def [symmetric] by simp_all
  then have "mg_audioOffset m' = mg_audioOffset m - amount" using a(2) by (simp add: i64_abs)
  moreover have "t0 + interval * n \<le> now"
  proof (cases "cnt0 < mg_correctionCount m")
    case True
    then obtain l where l: "mg_lastCorrection m = Some l" "t0 + interval * (n - 1) \<le> l"
      using assms(1) by (auto simp: paced_def n_def)
    have "now - l > interval" using w assms(8,9) by (simp add: l(1) time_ns_def time_Sub_def split: if_splits)
    then show ?thesis using l(2) by (simp add: right_diff_distrib)
  next
    case False
    then show ?thesis using assms(6) by (simp add: n_def)
  qed
  ultimately have "\<bar>mg_audioOffset m' - off0\<bar> \<le> step * int (mg_correctionCount m' - cnt0)"
    "t0 + interval * (int (mg_correctionCount m' - cnt0) - 1) \<le> now" unfolding n' using b(1) by simp_all
  then show ?thesis unfolding paced_def using c o(2) by (auto simp del: of_nat_diff)
qed

lemma paced_run:
  assumes "paced step interval t0 off0 cnt0 m" and "bounded_window m" and "sorted (t0 # map fst es)"
    and "mg_config m = cfg" and "sc_MaxCorrectionStep cfg = step" and "sc_CorrectionInterval cfg = interval"
    and "\<forall>a. - (2 ^ 63) < sc_scale cfg a" and "0 \<le> t0" and "\<forall>t \<in> fst ` set es. t < 2 ^ 62"
    and "0 \<le> interval" "interval < 2 ^ 62" "0 \<le> step"
    and "\<bar>off0\<bar> + step * (int (mg_correctionCount m - cnt0) + int (length es)) < 2 ^ 62"
  shows "paced step interval t0 off0 cnt0 (av_run es m) \<and> bounded_window (av_run es m) \<and>
    mg_driftWindowSize (av_run es m) = mg_driftWindowSize m"
  using assms
proof (induction es arbitrary: m)
  case (Cons x es)
  obtain now e where x: "x = (now, e)" by (cases x)
  let ?m = "av_step now e m"
  have c: "uncorrected m ?m \<or> corrected now m ?m" "mg_config ?m = cfg" "mg_driftWindowSize ?m = mg_driftWindowSize m"
    "bounded_window ?m"
    using av_step_cases [of m now e] Cons.prems(2,4,5,7,12) by auto
  have room: "\<bar>off0\<bar> + step * (int (mg_correctionCount m - cnt0) + 1) < 2 ^ 62"
  proof -
    have "step * (int (mg_correctionCount m - cnt0) + 1) \<le> step * (int (mg_correctionCount m - cnt0) + int (length (x # es)))"
      by (rule mult_left_mono) (use Cons.prems(12) in auto)
    then show ?thesis using Cons.prems(13) by simp
  qed
  have p: "paced step interval t0 off0 cnt0 ?m"
    using c(1)
  proof
    assume "uncorrected m ?m"
    then show ?thesis using Cons.prems(1) by (auto simp: paced_def uncorrected_def)
  next
    assume "corrected now m ?m"
    then show ?thesis
      by (rule paced_corrected [OF Cons.prems(1)]) (use Cons.prems x room in auto)
  qed
  have "int (mg_correctionCount ?m - cnt0) + int (length es) \<le> int (mg_correctionCount m - cnt0) + int (length (x # es))"
    using c(1) Cons.prems(1) by (auto simp: uncorrected_def corrected_def paced_def)
  then have "step * (int (mg_correctionCount ?m - cnt0) + int (length es)) \<le>
      step * (int (mg_correctionCount m - cnt0) + int (length (x # es)))"
    by (rule mult_left_mono) (use Cons.prems(12) in auto)
  then have "paced step interval t0 off0 cnt0 (av_run es ?m) \<and> bounded_window (av_run es ?m) \<and>
      mg_driftWindowSize (av_run es ?m) = mg_driftWindowSize ?m"
    by (intro Cons.IH) (use p c Cons.prems x in auto)
  then show ?case using c(3) by (simp add: x)
qed simp

text \<open>C0: The synchroniser moves the audio track gently: however frames and packets arrive, in the course of \<open>n\<close>
  corrections the audio offset has moved by at most \<open>n\<close> steps of the configured size, any two corrections are
  more than the configured interval apart, and the drift window never holds more than a hundred samples.\<close>

theorem sync_corrections_paced:
  assumes "sorted (t0 # map fst es)" and "0 \<le> t0" and "\<forall>t \<in> fst ` set es. t < 2 ^ 62"
    and "mg_config m = cfg" and "\<forall>a. - (2 ^ 63) < sc_scale cfg a"
    and "0 \<le> sc_MaxCorrectionStep cfg" and "0 \<le> sc_CorrectionInterval cfg" "sc_CorrectionInterval cfg < 2 ^ 62"
    and "\<bar>mg_audioOffset m\<bar> + sc_MaxCorrectionStep cfg * int (length es) < 2 ^ 62"
    and "length (mg_driftWindow m) \<le> 100" and "mg_driftWindowSize m = 100"
    and "n = mg_correctionCount (av_run es m) - mg_correctionCount m"
  shows "\<bar>mg_audioOffset (av_run es m) - mg_audioOffset m\<bar> \<le> sc_MaxCorrectionStep cfg * int n \<and>
    (0 < n \<longrightarrow> (\<exists>l. mg_lastCorrection (av_run es m) = Some l \<and> t0 + sc_CorrectionInterval cfg * (int n - 1) \<le> l)) \<and>
    length (mg_driftWindow (av_run es m)) \<le> 100"
proof -
  have "paced (sc_MaxCorrectionStep cfg) (sc_CorrectionInterval cfg) t0 (mg_audioOffset m) (mg_correctionCount m) (av_run es m) \<and>
      bounded_window (av_run es m) \<and> mg_driftWindowSize (av_run es m) = mg_driftWindowSize m"
    by (rule paced_run [OF _ _ assms(1,4) refl refl assms(5,2,3,7,8,6)])
      (use assms(6,9-11) in \<open>simp_all add: paced_def bounded_window_def\<close>)
  then show ?thesis
    using assms(11,12) by (auto simp: paced_def bounded_window_def)
qed

text \<open>Drift correction works against itself: when video is ahead on average and a correction is applied, the
  audio offset shrinks, so that the very same samples measured again lie further apart than before.\<close>

theorem drift_correction_diverges:
  assumes "10 \<le> length (mg_driftWindow m)" and "0 < ss_AvgDrift (mg_status m)"
    and "sc_MaxAudioDrift (mg_config m) sdiv 2 \<le> ss_AvgDrift (mg_status m)"
    and "0 < sc_scale (mg_config m) (ss_AvgDrift (mg_status m))"
    and "0 < sc_MaxCorrectionStep (mg_config m)" "sc_MaxCorrectionStep (mg_config m) < 2 ^ 61"
    and "\<bar>mg_audioOffset m\<bar> < 2 ^ 61"
    and "\<bar>GetPresentationTime now (ty_LastPTS v) v - GetPresentationTime now (ty_LastPTS a) a\<bar> < 2 ^ 61"
  shows "pts_drift now v a (mg_audioOffset m) < pts_drift now v a (mg_audioOffset (applyDriftCorrection now m))"
proof -
  define amount where "amount = limit_step (sc_MaxCorrectionStep (mg_config m)) (sc_scale (mg_config m) (ss_AvgDrift (mg_status m)))"
  define d where "d = GetPresentationTime now (ty_LastPTS v) v - GetPresentationTime now (ty_LastPTS a) a"
  have p: "0 < amount" using limit_step_pos [OF assms(5,4)] by (simp add: amount_def)
  have "amount \<le> sc_MaxCorrectionStep (mg_config m)"
    using assms(4,5) by (auto simp: amount_def limit_step_def go_abs_def split: if_splits)
  then have b: "amount < 2 ^ 61" using assms(6) by simp
  have "\<not> go_abs (ss_AvgDrift (mg_status m)) < sc_MaxAudioDrift (mg_config m) sdiv 2" using assms(2,3) by (simp add: go_abs_def)
  then have "mg_audioOffset (applyDriftCorrection now m) = i64 (mg_audioOffset m - amount)"
    using assms(1) by (simp add: applyDriftCorrection_def Let_def amount_def)
  then have o: "mg_audioOffset (applyDriftCorrection now m) = mg_audioOffset m - amount" using p b assms(7) by (simp add: i64_abs)
  have "pts_drift now v a x = max (- (2 ^ 63)) (min (2 ^ 63 - 1) (d - x))" for x
    by (simp add: pts_drift_def time_Sub_def d_def algebra_simps)
  moreover have "\<bar>d\<bar> < 2 ^ 61" using assms(8) by (simp add: d_def)
  ultimately show ?thesis unfolding o using p b assms(7) by simp
qed

text \<open>A manager with both tracks and a settled average of 80 milliseconds.\<close>

definition sample_manager :: Manager where
  "sample_manager =
     (NewManager (DefaultSyncConfig (\<lambda>x. max (- 1000000000) (x div 10))))
       \<lparr>mg_driftWindow := replicate 10 \<lparr>ds_Timestamp = 0, ds_VideoPTS = 1, ds_AudioPTS = 1, ds_Drift = 80000000,
          ds_PTSDrift = 80000000, ds_ProcessingLag = 0\<rparr>,
        mg_status := \<lparr>ss_InSync = False, ss_CurrentDrift = 80000000, ss_AvgDrift = 80000000\<rparr>\<rparr>"

theorem drift_correction_diverges_witness:
  "let v = ProcessTimestamp 1 1 (Some 80000000) (NewTrackSyncManager \<lparr>ra_Num = 1, ra_Den = 90000\<rparr>);
       a = ProcessTimestamp 1 1 (Some 0) (NewTrackSyncManager \<lparr>ra_Num = 1, ra_Den = 48000\<rparr>)
   in pts_drift 0 v a (mg_audioOffset sample_manager) <
      pts_drift 0 v a (mg_audioOffset (applyDriftCorrection 0 sample_manager))"
proof -
  let ?v = "ProcessTimestamp 1 1 (Some 80000000) (NewTrackSyncManager \<lparr>ra_Num = 1, ra_Den = 90000\<rparr>)"
  let ?a = "ProcessTimestamp 1 1 (Some 0) (NewTrackSyncManager \<lparr>ra_Num = 1, ra_Den = 48000\<rparr>)"
  have "GetPresentationTime 0 (ty_LastPTS ?v) ?v = 80000000" "GetPresentationTime 0 (ty_LastPTS ?a) ?a = 0"
    by (simp_all add: ProcessTimestamp_def NewTrackSyncManager_def GetPresentationTime_def calculatePTSDelta_def
        CalculatePTSDelta_def UnwrapPTS_def ns_delta_def Let_def i64_abs signed_divide_int_def signed_modulo_int_def)
  then show ?thesis unfolding Let_def
    by (intro drift_correction_diverges)
      (simp_all add: sample_manager_def NewManager_def DefaultSyncConfig_def millisecond_def signed_divide_int_def)
qed

theorem sync_corrections_paced_witness:
  "length (mg_driftWindow (av_run [(5, Video_frame 90000 90000 (Some 5)), (7, Audio_packet 48000 48000 (Some 6))] sample_manager)) \<le> 100"
  using sync_corrections_paced [of 0 "[(5, Video_frame 90000 90000 (Some 5)), (7, Audio_packet 48000 48000 (Some 6))]"
      sample_manager "DefaultSyncConfig (\<lambda>x. max (- 1000000000) (x div 10))" "mg_correctionCount (av_run [(5, Video_frame 90000 90000 (Some 5)),
        (7, Audio_packet 48000 48000 (Some 6))] sample_manager) - mg_correctionCount sample_manager"]
  by (simp add: sample_manager_def NewManager_def DefaultSyncConfig_def millisecond_def less_max_iff_disj)

end
