(* ===== verification/Media_Types.thy ===== *)
theory Media_Types
  imports Mirror_Prelude
begin

text \<open>
  The frame types and frames of \<^verbatim>\<open>types/frame.go\<close>, with the fields the modelled components read.
\<close>

datatype FrameType =
    FrameTypeI | FrameTypeP | FrameTypeB | FrameTypeIDR | FrameTypeSPS | FrameTypePPS | FrameTypeVPS
  | FrameTypeSEI | FrameTypeAUD | FrameTypeCRA | FrameTypeBLA

definition FrameType_IsKeyframe :: "FrameType \<Rightarrow> bool" where
  "FrameType_IsKeyframe f \<longleftrightarrow> f \<in> {FrameTypeI, FrameTypeIDR, FrameTypeCRA, FrameTypeBLA}"

definition FrameType_IsReference :: "FrameType \<Rightarrow> bool" where
  "FrameType_IsReference f \<longleftrightarrow> f \<in> {FrameTypeI, FrameTypeP, FrameTypeIDR, FrameTypeCRA, FrameTypeBLA}"

definition FrameType_IsDiscardable :: "FrameType \<Rightarrow> bool" where
  "FrameType_IsDiscardable f \<longleftrightarrow> f \<in> {FrameTypeB, FrameTypeSEI}"

record VideoFrame =
  vf_ID :: nat
  vf_TotalSize :: nat
  vf_PTS :: int
  vf_DTS :: int
  vf_CaptureTime :: gotime
  vf_Type :: FrameType

end
