(* ===== verification/BFrame_Reorderer.thy ===== *)
theory BFrame_Reorderer
  imports Go_Heap Media_Types Track_Timing
begin

text \<open>
  The reordering of frames with B-frames into decode order (\<^verbatim>\<open>frame/bframe_reorderer.go\<close>): a heap ordered by
  DTS, the conditions under which its first frame is let out, and the check that rejects a frame whose time
  stamp would go back.  The clock is an argument; the frame duration of the DTS calculator, a quotient of
  floating-point numbers fixed at construction, is a field.
\<close>

section \<open>State\<close>

record BFrameReorderer =
  bf_maxReorderDepth :: int
  bf_maxDelay :: int
  bf_buffer :: "VideoFrame list"
  bf_lastOutputPTS :: int
  bf_lastOutputDTS :: int
  bf_baseTime :: gotime
  bf_framesReordered :: nat
  bf_framesDropped :: nat
  bf_maxBufferSize :: nat

definition NewBFrameReorderer :: "int \<Rightarrow> int \<Rightarrow> BFrameReorderer" where
  "NewBFrameReorderer maxReorderDepth maxDelay =
     \<lparr>bf_maxReorderDepth = (if maxReorderDepth \<le> 0 then 3 else maxReorderDepth),
      bf_maxDelay = (if maxDelay \<le> 0 then 200 * 1000000 else maxDelay),
      bf_buffer = [], bf_lastOutputPTS = -1, bf_lastOutputDTS = -1, bf_baseTime = None,
      bf_framesReordered = 0, bf_framesDropped = 0, bf_maxBufferSize = 0\<rparr>"

definition frameHeap_Less :: "VideoFrame \<Rightarrow> VideoFrame \<Rightarrow> bool" where
  "frameHeap_Less a b \<longleftrightarrow> vf_DTS a < vf_DTS b"

section \<open>Output\<close>

definition maxDTS33Wrap :: int where
  "maxDTS33Wrap = 2 ^ 33"

definition maxReasonableJump :: int where
  "maxReasonableJump = 90000 * 10"

text \<open>A step back that is a wrap-around, a reset of the stream, or an error; a reset forgets the last output.\<close>

definition backward_step :: "int \<Rightarrow> BFrameReorderer \<Rightarrow> BFrameReorderer \<times> bool" where
  "backward_step diff r =
     (if diff > maxDTS33Wrap div 2 then (r, True)
      else if diff > maxReasonableJump then (r\<lparr>bf_lastOutputDTS := -1, bf_lastOutputPTS := -1\<rparr>, True)
      else (r, False))"

definition isValidOutput :: "VideoFrame \<Rightarrow> BFrameReorderer \<Rightarrow> BFrameReorderer \<times> bool" where
  "isValidOutput f r =
     (if bf_lastOutputPTS r < 0 then (r, True)
      else if vf_DTS f < bf_lastOutputDTS r then backward_step (i64 (bf_lastOutputDTS r - vf_DTS f)) r
      else if vf_Type f \<noteq> FrameTypeB \<and> vf_PTS f < bf_lastOutputPTS r
      then backward_step (i64 (bf_lastOutputPTS r - vf_PTS f)) r
      else (r, True))"

definition updateOutputState :: "VideoFrame \<Rightarrow> BFrameReorderer \<Rightarrow> BFrameReorderer" where
  "updateOutputState f r =
     r\<lparr>bf_lastOutputPTS := (if vf_Type f \<noteq> FrameTypeB then vf_PTS f else bf_lastOutputPTS r),
       bf_lastOutputDTS := vf_DTS f\<rparr>"

definition bf_estimateFrameDuration :: "VideoFrame \<Rightarrow> VideoFrame \<Rightarrow> int" where
  "bf_estimateFrameDuration f1 f2 =
     (let dtsDiff = i64 (vf_DTS f2 - vf_DTS f1) in if dtsDiff \<le> 0 \<or> dtsDiff > 10000 then 3000 else dtsDiff)"

text \<open>The early output of a P-frame.\<close>

definition p_frame_ready :: "BFrameReorderer \<Rightarrow> bool" where
  "p_frame_ready r =
     (let h = bf_buffer r;
          nextFrame = h ! 0;
          secondFrame = (if length h > 2 \<and> vf_DTS (h ! 2) < vf_DTS (h ! 1) then h ! 2 else h ! 1)
      in (vf_Type secondFrame \<in> {FrameTypeI, FrameTypeP} \<and>
          i64 (vf_DTS secondFrame - vf_DTS nextFrame) > i64 (2 * bf_estimateFrameDuration nextFrame secondFrame)) \<or>
         int (length h) \<ge> (bf_maxReorderDepth r + 1) div 2)"

definition shouldOutput :: "nanos \<Rightarrow> BFrameReorderer \<Rightarrow> bool" where
  "shouldOutput now r =
     (let h = bf_buffer r; nextFrame = h ! 0
      in int (length h) > bf_maxReorderDepth r \<or>
         (bf_baseTime r \<noteq> None \<and> time_Sub now (time_ns (vf_CaptureTime nextFrame)) > bf_maxDelay r) \<or>
         int (length h) \<ge> bf_maxReorderDepth r \<or>
         vf_Type nextFrame = FrameTypeIDR \<or>
         (vf_Type nextFrame = FrameTypeI \<and> length h > 1) \<or>
         (vf_Type nextFrame = FrameTypeP \<and> length h > 1 \<and> p_frame_ready r))"

lemma length_popped: "xs \<noteq> [] \<Longrightarrow> length (snd (heap_Pop lt xs)) < length xs"
  using heap_Pop_frame(2) [of xs lt "fst (heap_Pop lt xs)" "snd (heap_Pop lt xs)"]
  by (metis size_mset size_add_mset lessI prod.collapse)

text \<open>Let out one frame, or drop it.\<close>

definition emit :: "VideoFrame \<Rightarrow> BFrameReorderer \<Rightarrow> BFrameReorderer \<times> VideoFrame list" where
  "emit f r =
     (case isValidOutput f r of
        (r, True) \<Rightarrow> ((updateOutputState f r)\<lparr>bf_framesReordered := bf_framesReordered r + 1\<rparr>, [f])
      | (r, False) \<Rightarrow> (r\<lparr>bf_framesDropped := bf_framesDropped r + 1\<rparr>, []))"

lemma isValidOutput_buffer: "bf_buffer (fst (isValidOutput f r)) = bf_buffer r"
  by (simp add: isValidOutput_def backward_step_def)

lemma emit_buffer: "bf_buffer (fst (emit f r)) = bf_buffer r"
  using isValidOutput_buffer [of f r] by (auto simp: emit_def updateOutputState_def split: prod.splits bool.splits)

lemma emit_keeps: "emit f (r\<lparr>bf_buffer := b\<rparr>) = (r1, out) \<Longrightarrow> bf_buffer r1 = b"
  using emit_buffer [of f "r\<lparr>bf_buffer := b\<rparr>"] by simp

lemma valid_keeps: "isValidOutput f (r\<lparr>bf_buffer := b\<rparr>) = (r1, ok) \<Longrightarrow> bf_buffer r1 = b"
  using isValidOutput_buffer [of f "r\<lparr>bf_buffer := b\<rparr>"] by simp

function checkOutput :: "nanos \<Rightarrow> BFrameReorderer \<Rightarrow> BFrameReorderer \<times> VideoFrame list" where
  "checkOutput now r =
     (if bf_buffer r = [] \<or> \<not> shouldOutput now r then (r, [])
      else
        (let (r1, out) = emit (fst (heap_Pop frameHeap_Less (bf_buffer r)))
                           (r\<lparr>bf_buffer := snd (heap_Pop frameHeap_Less (bf_buffer r))\<rparr>);
             (r2, outs) = checkOutput now r1
         in (r2, out @ outs)))"
  by pat_completeness auto
termination
proof (relation "measure (\<lambda>(now, r). length (bf_buffer r))", goal_cases)
  case (2 now r x r1 out)
  then have "bf_buffer r1 = snd (heap_Pop frameHeap_Less (bf_buffer r))" 
    using emit_keeps [of "fst (heap_Pop frameHeap_Less (bf_buffer r))" _ r r1 out] by simp
  then show ?case using 2(1) length_popped [of "bf_buffer r" frameHeap_Less] by simp
qed simp

declare checkOutput.simps [simp del]

section \<open>Operations\<close>

datatype bf_error = NilFrame

text \<open>The frame as \<^verbatim>\<open>validateFrame\<close> leaves it: without a DTS it takes its PTS.\<close>

definition with_DTS :: "VideoFrame \<Rightarrow> VideoFrame" where
  "with_DTS f = (if vf_DTS f = 0 \<and> vf_PTS f \<noteq> 0 then f\<lparr>vf_DTS := vf_PTS f\<rparr> else f)"

definition AddFrame ::
  "nanos \<Rightarrow> VideoFrame option \<Rightarrow> BFrameReorderer \<Rightarrow> BFrameReorderer \<times> (bf_error + VideoFrame list)" where
  "AddFrame now frame r =
     (case frame of
        None \<Rightarrow> (r\<lparr>bf_framesDropped := bf_framesDropped r + 1\<rparr>, Inl NilFrame)
      | Some f \<Rightarrow>
          (let f = with_DTS f;
               r = r\<lparr>bf_baseTime := (if bf_baseTime r = None then vf_CaptureTime f else bf_baseTime r),
                     bf_buffer := heap_Push frameHeap_Less f (bf_buffer r)\<rparr>;
               r = r\<lparr>bf_maxBufferSize := max (bf_maxBufferSize r) (length (bf_buffer r))\<rparr>;
               (r, outs) = checkOutput now r
           in (r, Inr outs)))"

text \<open>\<^verbatim>\<open>Flush\<close> empties the buffer; a frame it rejects is not counted.\<close>

function bf_Flush :: "BFrameReorderer \<Rightarrow> BFrameReorderer \<times> VideoFrame list" where
  "bf_Flush r =
     (if bf_buffer r = [] then (r, [])
      else
        (let f = fst (heap_Pop frameHeap_Less (bf_buffer r));
             (r1, ok) = isValidOutput f (r\<lparr>bf_buffer := snd (heap_Pop frameHeap_Less (bf_buffer r))\<rparr>);
             (r2, outs) = bf_Flush (if ok then updateOutputState f r1 else r1)
         in (r2, if ok then f # outs else outs)))"
  by pat_completeness auto
termination
proof (relation "measure (\<lambda>r. length (bf_buffer r))", goal_cases)
  case (2 r f x r1 ok)
  then have "bf_buffer r1 = snd (heap_Pop frameHeap_Less (bf_buffer r))" 
    using valid_keeps [of f _ r r1 ok] by simp
  then show ?case using 2(1) length_popped [of "bf_buffer r" frameHeap_Less] by (simp add: updateOutputState_def)
qed simp

declare bf_Flush.simps [simp del]

definition bf_GetStats :: "BFrameReorderer \<Rightarrow> nat \<times> nat \<times> nat \<times> nat" where
  "bf_GetStats r = (bf_framesReordered r, bf_framesDropped r, length (bf_buffer r), bf_maxBufferSize r)"

section \<open>The DTS calculator\<close>

record DTSCalculator =
  dt_frameDuration :: int
  dt_maxBFrames :: int
  dt_lastDTS :: int
  dt_frameBuffer :: "(int \<times> FrameType) list"

definition NewDTSCalculator :: "int \<Rightarrow> int \<Rightarrow> DTSCalculator" where
  "NewDTSCalculator frameDuration maxBFrames =
     \<lparr>dt_frameDuration = frameDuration, dt_maxBFrames = maxBFrames, dt_lastDTS = -1, dt_frameBuffer = []\<rparr>"

definition CalculateDTS :: "int \<Rightarrow> FrameType \<Rightarrow> DTSCalculator \<Rightarrow> DTSCalculator \<times> int" where
  "CalculateDTS pts frameType c =
     (if dt_maxBFrames c = 0 then (c\<lparr>dt_lastDTS := pts\<rparr>, pts)
      else
        (let c = c\<lparr>dt_frameBuffer := dt_frameBuffer c @ [(pts, frameType)]\<rparr>
         in if int (length (dt_frameBuffer c)) < dt_maxBFrames c + 1 then
              (let dts = (if frameType \<noteq> FrameTypeB then max 0 (i64 (pts - dt_maxBFrames c * dt_frameDuration c))
                          else i64 (dt_lastDTS c + dt_frameDuration c))
               in (c\<lparr>dt_lastDTS := dts\<rparr>, dts))
            else
              (let bFrameCount = length (takeWhile (\<lambda>(p, ft). ft = FrameTypeB) (rev (butlast (dt_frameBuffer c))));
                   dts = (if frameType = FrameTypeB then i64 (dt_lastDTS c + dt_frameDuration c)
                          else i64 (pts - int bFrameCount * dt_frameDuration c));
                   buf = (if int (length (dt_frameBuffer c)) > dt_maxBFrames c * 2 then tl (dt_frameBuffer c)
                          else dt_frameBuffer c)
               in (c\<lparr>dt_lastDTS := dts, dt_frameBuffer := buf\<rparr>, dts))))"

section \<open>The buffer is a heap by decode time\<close>

interpretation frames: heap_order frameHeap_Less UNIV
  by unfold_locales (auto simp: frameHeap_Less_def)

lemma emit_cases:
  obtains (out) r1 where "emit f r = (r1, [f])" "bf_framesReordered r1 = bf_framesReordered r + 1" "bf_framesDropped r1 = bf_framesDropped r"
  | (drop) r1 where "emit f r = (r1, [])" "bf_framesReordered r1 = bf_framesReordered r" "bf_framesDropped r1 = bf_framesDropped r + 1"
  by (cases "isValidOutput f r")
    (auto simp: emit_def isValidOutput_def backward_step_def updateOutputState_def split: if_splits bool.splits)

lemma emit_frame:
  "bf_maxReorderDepth (fst (emit f r)) = bf_maxReorderDepth r \<and> bf_maxDelay (fst (emit f r)) = bf_maxDelay r \<and>
   bf_baseTime (fst (emit f r)) = bf_baseTime r"
  by (auto simp: emit_def isValidOutput_def backward_step_def updateOutputState_def split: prod.splits bool.splits if_splits)

text \<open>One call of \<^verbatim>\<open>checkOutput\<close>: what leaves the heap, and when it stops.\<close>

lemma checkOutput_spec:
  assumes "is_heap frameHeap_Less (bf_buffer r)" and "checkOutput now r = (r', outs)"
  shows "is_heap frameHeap_Less (bf_buffer r') \<and> bf_maxReorderDepth r' = bf_maxReorderDepth r \<and>
    (bf_buffer r' = [] \<or> \<not> shouldOutput now r') \<and>
    (\<exists>dropped. mset (bf_buffer r) = mset (bf_buffer r') + mset outs + mset dropped \<and>
       bf_framesReordered r' = bf_framesReordered r + length outs \<and> bf_framesDropped r' = bf_framesDropped r + length dropped)"
  using assms
proof (induction now r arbitrary: r' outs rule: checkOutput.induct)
  case (1 now r)
  show ?case
  proof (cases "bf_buffer r = [] \<or> \<not> shouldOutput now r")
    case True
    then have "r' = r" "outs = []" using "1.prems"(2) by (auto simp: checkOutput.simps [of now r])
    then show ?thesis using True "1.prems"(1) by auto
  next
    case False
    obtain f b where p: "heap_Pop frameHeap_Less (bf_buffer r) = (f, b)" by fastforce
    have ne: "bf_buffer r \<noteq> []" using False by simp
    have h: "is_heap frameHeap_Less b" using frames.Pop_heap(1) [OF _ "1.prems"(1) ne p] by simp
    have m: "mset (bf_buffer r) = add_mset f (mset b)" by (rule heap_Pop_frame(2) [OF ne p])
    obtain r1 out where e: "emit f (r\<lparr>bf_buffer := b\<rparr>) = (r1, out)" by fastforce
    obtain r2 outs2 where c: "checkOutput now r1 = (r2, outs2)" by fastforce
    have res: "r' = r2" "outs = out @ outs2" using "1.prems"(2) False by (simp_all add: checkOutput.simps [of now r] p e c)
    have b: "bf_buffer r1 = b" by (rule emit_keeps [OF e])
    have frame: "bf_maxReorderDepth r1 = bf_maxReorderDepth r" using emit_frame [of f "r\<lparr>bf_buffer := b\<rparr>"] by (simp add: e)
    have IH: "is_heap frameHeap_Less (bf_buffer r2) \<and> bf_maxReorderDepth r2 = bf_maxReorderDepth r1 \<and>
      (bf_buffer r2 = [] \<or> \<not> shouldOutput now r2) \<and>
      (\<exists>dropped. mset b = mset (bf_buffer r2) + mset outs2 + mset dropped \<and>
        bf_framesReordered r2 = bf_framesReordered r1 + length outs2 \<and> bf_framesDropped r2 = bf_framesDropped r1 + length dropped)"
      using "1.IH" [OF False, of "(r1, out)" r1 out r2 outs2] h b c by (simp add: p e)
    then obtain dropped where d: "mset b = mset (bf_buffer r2) + mset outs2 + mset dropped"
      "bf_framesReordered r2 = bf_framesReordered r1 + length outs2" "bf_framesDropped r2 = bf_framesDropped r1 + length dropped"
      by blast
    have "\<exists>dropped. mset (bf_buffer r) = mset (bf_buffer r') + mset outs + mset dropped \<and>
      bf_framesReordered r' = bf_framesReordered r + length outs \<and> bf_framesDropped r' = bf_framesDropped r + length dropped"
    proof (cases rule: emit_cases [of f "r\<lparr>bf_buffer := b\<rparr>"])
      case (out r3)
      then show ?thesis using d m e by (intro exI [of _ dropped]) (simp add: res)
    next
      case (drop r3)
      then show ?thesis using d m e by (intro exI [of _ "f # dropped"]) (simp add: res)
    qed
    then show ?thesis using IH frame by (simp add: res)
  qed
qed

section \<open>Streams of frames\<close>

fun bf_run :: "(nanos \<times> VideoFrame) list \<Rightarrow> BFrameReorderer \<Rightarrow> BFrameReorderer \<times> VideoFrame list" where
  "bf_run [] r = (r, [])"
| "bf_run ((now, f) # xs) r =
     (let (r1, res) = AddFrame now (Some f) r; (r2, outs) = bf_run xs r1
      in (r2, (case res of Inl e \<Rightarrow> outs | Inr out \<Rightarrow> out @ outs)))"

text \<open>The state in which \<^verbatim>\<open>AddFrame\<close> calls \<^verbatim>\<open>checkOutput\<close>.\<close>

definition bf_pushed :: "VideoFrame \<Rightarrow> BFrameReorderer \<Rightarrow> BFrameReorderer" where
  "bf_pushed f r =
     r\<lparr>bf_baseTime := (if bf_baseTime r = None then vf_CaptureTime (with_DTS f) else bf_baseTime r),
       bf_buffer := heap_Push frameHeap_Less (with_DTS f) (bf_buffer r),
       bf_maxBufferSize := max (bf_maxBufferSize r) (length (heap_Push frameHeap_Less (with_DTS f) (bf_buffer r)))\<rparr>"

lemma AddFrame_pushed: "AddFrame now (Some f) r = (let (r, outs) = checkOutput now (bf_pushed f r) in (r, Inr outs))"
  by (simp add: AddFrame_def bf_pushed_def Let_def)

lemma bf_pushed_simps [simp]:
  "bf_buffer (bf_pushed f r) = heap_Push frameHeap_Less (with_DTS f) (bf_buffer r)"
  "bf_maxReorderDepth (bf_pushed f r) = bf_maxReorderDepth r"
  "bf_framesReordered (bf_pushed f r) = bf_framesReordered r"
  "bf_framesDropped (bf_pushed f r) = bf_framesDropped r"
  "bf_lastOutputPTS (bf_pushed f r) = bf_lastOutputPTS r"
  "bf_lastOutputDTS (bf_pushed f r) = bf_lastOutputDTS r"
  by (simp_all add: bf_pushed_def)

lemma bf_run_spec:
  assumes "is_heap frameHeap_Less (bf_buffer r)" and "bf_run xs r = (r', outs)"
    and "int (length (bf_buffer r)) < bf_maxReorderDepth r"
  shows "\<exists>dropped. mset (map (\<lambda>(t, f). with_DTS f) xs) + mset (bf_buffer r) = mset outs + mset (bf_buffer r') + mset dropped \<and>
    bf_framesReordered r' = bf_framesReordered r + length outs \<and> bf_framesDropped r' = bf_framesDropped r + length dropped \<and>
    int (length (bf_buffer r')) < bf_maxReorderDepth r'"
  using assms
proof (induction xs arbitrary: r outs)
  case (Cons x xs)
  obtain now f where x: "x = (now, f)" by (cases x)
  obtain r1 out where c: "checkOutput now (bf_pushed f r) = (r1, out)" by fastforce
  obtain r2 outs2 where run: "bf_run xs r1 = (r2, outs2)" by fastforce
  have res: "r' = r2" "outs = out @ outs2" using Cons.prems(2) by (simp_all add: x AddFrame_pushed c run)
  have "is_heap frameHeap_Less (bf_buffer (bf_pushed f r))"
    using frames.Push_heap [OF _ _ Cons.prems(1), of "with_DTS f"] by simp
  note s = checkOutput_spec [OF this c]
  then have "bf_buffer r1 = [] \<or> \<not> shouldOutput now r1" "bf_maxReorderDepth r1 = bf_maxReorderDepth r" by simp_all
  then have small: "int (length (bf_buffer r1)) < bf_maxReorderDepth r1"
    using Cons.prems(3) by (auto simp: shouldOutput_def Let_def)
  obtain d1 where 1: "add_mset (with_DTS f) (mset (bf_buffer r)) = mset (bf_buffer r1) + mset out + mset d1"
    "bf_framesReordered r1 = bf_framesReordered r + length out" "bf_framesDropped r1 = bf_framesDropped r + length d1"
    using s by (auto simp: heap_Push_mset)
  obtain d2 where 2: "mset (map (\<lambda>(t, f). with_DTS f) xs) + mset (bf_buffer r1) = mset outs2 + mset (bf_buffer r2) + mset d2"
    "bf_framesReordered r2 = bf_framesReordered r1 + length outs2" "bf_framesDropped r2 = bf_framesDropped r1 + length d2"
    "int (length (bf_buffer r2)) < bf_maxReorderDepth r2"
    using Cons.IH [of r1 outs2, OF _ _ small] s run unfolding res(1) by blast
  have "mset (map (\<lambda>(t, f). with_DTS f) (x # xs)) + mset (bf_buffer r) =
      mset (map (\<lambda>(t, f). with_DTS f) xs) + add_mset (with_DTS f) (mset (bf_buffer r))" by (simp add: x)
  also have "\<dots> = (mset (map (\<lambda>(t, f). with_DTS f) xs) + mset (bf_buffer r1)) + mset out + mset d1"
    unfolding 1(1) by (simp only: ac_simps)
  also have "\<dots> = mset outs + mset (bf_buffer r') + mset (d1 @ d2)"
    unfolding 2(1) res mset_append by (simp only: ac_simps)
  finally show ?case using 1 2 by (intro exI [of _ "d1 @ d2"]) (simp add: res)
qed (auto intro: exI [of _ "[]"])


section \<open>Decode order\<close>

definition stamped :: "VideoFrame \<Rightarrow> bool" where
  "stamped f \<longleftrightarrow> 0 \<le> vf_PTS f \<and> vf_PTS f < 2 ^ 62 \<and> \<bar>vf_DTS f\<bar> < 2 ^ 62"

definition decode_pair :: "VideoFrame \<Rightarrow> VideoFrame \<Rightarrow> bool" where
  "decode_pair f g \<longleftrightarrow>
     vf_Type f \<noteq> FrameTypeB \<longrightarrow> vf_DTS f \<le> vf_DTS g \<or> vf_DTS f - vf_DTS g > maxReasonableJump"

definition after_output :: "VideoFrame list \<Rightarrow> BFrameReorderer \<Rightarrow> bool" where
  "after_output outs r \<longleftrightarrow> (outs \<noteq> [] \<and> vf_Type (last outs) \<noteq> FrameTypeB \<longrightarrow>
     bf_lastOutputPTS r = vf_PTS (last outs) \<and> bf_lastOutputDTS r = vf_DTS (last outs))"

lemma valid_pair:
  assumes "after_output outs r" and "outs \<noteq> []" and "list_all stamped outs" and "stamped g"
    and "isValidOutput g r = (r1, True)"
  shows "decode_pair (last outs) g"
proof (cases "vf_Type (last outs) = FrameTypeB \<or> vf_DTS (last outs) \<le> vf_DTS g")
  case True
  then show ?thesis by (auto simp: decode_pair_def)
next
  case False
  have l: "stamped (last outs)" using assms(2,3) by (simp add: list_all_iff)
  then have i: "i64 (vf_DTS (last outs) - vf_DTS g) = vf_DTS (last outs) - vf_DTS g"
    by (intro i64_abs) (use assms(4) in \<open>auto simp: stamped_def\<close>)
  have "bf_lastOutputPTS r = vf_PTS (last outs)" "bf_lastOutputDTS r = vf_DTS (last outs)"
    using assms(1,2) False by (auto simp: after_output_def)
  then show ?thesis using assms(5) False l i
    by (auto simp: isValidOutput_def backward_step_def decode_pair_def stamped_def maxDTS33Wrap_def maxReasonableJump_def split: if_splits)
qed

lemma emit_order:
  assumes "after_output outs r" and "list_all stamped outs" and "successively decode_pair outs" and "stamped g"
    and "emit g r = (r1, out)"
  shows "after_output (outs @ out) r1 \<and> successively decode_pair (outs @ out) \<and> list_all stamped (outs @ out)"
proof -
  obtain r0 ok where v: "isValidOutput g r = (r0, ok)" by fastforce
  show ?thesis
  proof (cases ok)
    case True
    then have "out = [g]" "r1 = (updateOutputState g r0)\<lparr>bf_framesReordered := bf_framesReordered r0 + 1\<rparr>"
      using assms(5) v by (simp_all add: emit_def)
    then show ?thesis using assms(2-4) valid_pair [OF assms(1) _ assms(2,4), of r0] v True
      by (auto simp: after_output_def updateOutputState_def successively_append_iff)
  next
    case False
    then have "r0 = r" using v by (auto simp: isValidOutput_def backward_step_def split: if_splits)
    then have "out = []" "r1 = r\<lparr>bf_framesDropped := bf_framesDropped r + 1\<rparr>" using assms(5) v False by (simp_all add: emit_def)
    then show ?thesis using assms(1-3) by (simp add: after_output_def)
  qed
qed

lemma checkOutput_order:
  assumes "after_output outs r" and "list_all stamped outs" and "successively decode_pair outs"
    and "list_all stamped (bf_buffer r)" and "checkOutput now r = (r', new)"
  shows "after_output (outs @ new) r' \<and> successively decode_pair (outs @ new) \<and> list_all stamped (outs @ new) \<and>
    list_all stamped (bf_buffer r')"
  using assms
proof (induction now r arbitrary: outs r' new rule: checkOutput.induct)
  case (1 now r)
  show ?case
  proof (cases "bf_buffer r = [] \<or> \<not> shouldOutput now r")
    case True
    then have "r' = r" "new = []" using "1.prems"(5) by (auto simp: checkOutput.simps [of now r])
    then show ?thesis using "1.prems"(1-4) by simp
  next
    case False
    obtain f b where p: "heap_Pop frameHeap_Less (bf_buffer r) = (f, b)" by fastforce
    have "mset (bf_buffer r) = add_mset f (mset b)" by (rule heap_Pop_frame(2) [OF _ p]) (use False in simp)
    then have "set (bf_buffer r) = insert f (set b)" by (metis set_mset_add_mset_insert set_mset_mset)
    then have s: "stamped f" "list_all stamped b" using "1.prems"(4) by (simp_all add: list_all_iff)
    obtain r1 out where e: "emit f (r\<lparr>bf_buffer := b\<rparr>) = (r1, out)" by fastforce
    obtain r2 new2 where c: "checkOutput now r1 = (r2, new2)" by fastforce
    have res: "r' = r2" "new = out @ new2" using "1.prems"(5) False by (simp_all add: checkOutput.simps [of now r] p e c)
    have "after_output outs (r\<lparr>bf_buffer := b\<rparr>)" using "1.prems"(1) by (simp add: after_output_def)
    then have o: "after_output (outs @ out) r1" "successively decode_pair (outs @ out)" "list_all stamped (outs @ out)"
      using emit_order [OF _ "1.prems"(2,3) s(1) e] by blast+
    have "list_all stamped (bf_buffer r1)" using s(2) emit_keeps [OF e] by simp
    then show ?thesis using "1.IH" [OF False _ _ o(1,3,2), of "(r1, out)" out r2 new2] c by (simp add: p e res)
  qed
qed

lemma with_DTS_stamped: "stamped f \<Longrightarrow> stamped (with_DTS f)"
  by (auto simp: with_DTS_def stamped_def)

lemma bf_run_order:
  assumes "after_output outs r" and "list_all stamped outs" and "successively decode_pair outs"
    and "list_all stamped (bf_buffer r)" and "list_all (\<lambda>(t, f). stamped f) xs" and "bf_run xs r = (r', new)"
  shows "successively decode_pair (outs @ new)"
  using assms
proof (induction xs arbitrary: outs r new)
  case (Cons x xs)
  obtain now f where x: "x = (now, f)" by (cases x)
  obtain r1 out where c: "checkOutput now (bf_pushed f r) = (r1, out)" by fastforce
  obtain r2 new2 where run: "bf_run xs r1 = (r2, new2)" by fastforce
  have new: "new = out @ new2" "r' = r2" using Cons.prems(6) by (simp_all add: x AddFrame_pushed c run)
  have "set (bf_buffer (bf_pushed f r)) = insert (with_DTS f) (set (bf_buffer r))"
    using heap_Push_mset [of frameHeap_Less "with_DTS f" "bf_buffer r"]
    by (metis bf_pushed_simps(1) set_mset_add_mset_insert set_mset_mset)
  then have "list_all stamped (bf_buffer (bf_pushed f r))"
    using Cons.prems(4,5) with_DTS_stamped [of f] by (simp add: list_all_iff x)
  moreover have "after_output outs (bf_pushed f r)" using Cons.prems(1) by (simp add: after_output_def)
  ultimately have "after_output (outs @ out) r1 \<and> successively decode_pair (outs @ out) \<and> list_all stamped (outs @ out) \<and>
      list_all stamped (bf_buffer r1)"
    using checkOutput_order [OF _ Cons.prems(2,3) _ c] by blast
  then show ?case using Cons.IH [of "outs @ out" r1 new2] Cons.prems(5) run by (simp add: new)
qed simp

text \<open>C33: Frames leave in decode order: after a frame that is not a B-frame the next frame handed out never has an
  earlier decode time, unless the time line jumps back by more than ten seconds, which the code takes for a
  wrap-around or a restart of the stream.\<close>

theorem reorderer_decode_order:
  assumes "list_all (\<lambda>(t, f). stamped f) xs"
  shows "successively
    (\<lambda>f g. vf_Type f \<noteq> FrameTypeB \<longrightarrow> vf_DTS f \<le> vf_DTS g \<or> vf_DTS f - vf_DTS g > 900000)
    (snd (bf_run xs (NewBFrameReorderer depth delay)))"
proof -
  have "successively decode_pair ([] @ snd (bf_run xs (NewBFrameReorderer depth delay)))"
    by (rule bf_run_order [OF _ _ _ _ assms, of _ "NewBFrameReorderer depth delay" "fst (bf_run xs (NewBFrameReorderer depth delay))"])
      (simp_all add: after_output_def NewBFrameReorderer_def)
  then show ?thesis unfolding decode_pair_def maxReasonableJump_def by simp
qed

definition sample_frame :: "FrameType \<Rightarrow> int \<Rightarrow> int \<Rightarrow> VideoFrame" where
  "sample_frame ft pts dts =
     \<lparr>vf_ID = 0, vf_TotalSize = 0, vf_PTS = pts, vf_DTS = dts, vf_CaptureTime = Some 0, vf_Type = ft\<rparr>"

theorem reorderer_decode_order_witness:
  "successively
    (\<lambda>f g. vf_Type f \<noteq> FrameTypeB \<longrightarrow> vf_DTS f \<le> vf_DTS g \<or> vf_DTS f - vf_DTS g > 900000)
    (snd (bf_run [(1, sample_frame FrameTypeIDR 0 0), (2, sample_frame FrameTypeP 9000 3000), (3, sample_frame FrameTypeB 3000 6000)]
       (NewBFrameReorderer 3 0)))"
  using reorderer_decode_order [of "[(1, sample_frame FrameTypeIDR 0 0), (2, sample_frame FrameTypeP 9000 3000),
      (3, sample_frame FrameTypeB 3000 6000)]" 3 0]
  by (simp add: sample_frame_def stamped_def)

end
