(* ===== verification/Rate_Limit.thy ===== *)
theory Rate_Limit
  imports Account_Maps
begin

text \<open>
  The limiters of \<^verbatim>\<open>ratelimit/ratelimit.go\<close>: the token bucket, the connection limiter and the bandwidth
  manager.  The number of tokens earned in a period, \<^verbatim>\<open>int64(elapsed.Seconds() * float64(rate))\<close>, is a
  floating-point computation and the parameter \<open>earn\<close> of the bucket operations.  The waiting loop of
  \<^verbatim>\<open>AllowN\<close> takes the times of its timer ticks as an argument.
\<close>

section \<open>Token bucket\<close>

record TokenBucket =
  tb_rate :: int
  tb_capacity :: int
  tb_tokens :: int
  tb_lastRefill :: nanos

definition min_capacity :: "int \<Rightarrow> int" where
  "min_capacity rate = (if rate < 1024 then 1024 else rate)"

definition NewTokenBucket :: "nanos \<Rightarrow> int \<Rightarrow> TokenBucket" where
  "NewTokenBucket now rate =
     \<lparr>tb_rate = rate, tb_capacity = min_capacity rate, tb_tokens = min_capacity rate, tb_lastRefill = now\<rparr>"

definition refill :: "(int \<Rightarrow> int \<Rightarrow> int) \<Rightarrow> nanos \<Rightarrow> TokenBucket \<Rightarrow> TokenBucket" where
  "refill earn now tb =
     (let elapsed = now - tb_lastRefill tb
      in if elapsed < 1000000 then tb
         else
           (let newTokens = earn elapsed (tb_rate tb)
            in if newTokens > 0
               then tb\<lparr>tb_tokens := (let t = i64 (tb_tokens tb + newTokens) in if t > tb_capacity tb then tb_capacity tb else t),
                       tb_lastRefill := now\<rparr>
               else tb))"

definition tb_Allow :: "(int \<Rightarrow> int \<Rightarrow> int) \<Rightarrow> nanos \<Rightarrow> int \<Rightarrow> TokenBucket \<Rightarrow> TokenBucket \<times> bool" where
  "tb_Allow earn now n tb =
     (let tb = refill earn now tb
      in if n \<le> tb_tokens tb then (tb\<lparr>tb_tokens := i64 (tb_tokens tb - n)\<rparr>, True) else (tb, False))"

datatype allow_error = ExceedsCapacity | ContextDone

text \<open>\<^verbatim>\<open>AllowN\<close>: the list holds the times of the ticks before the context ends.\<close>

fun allow_wait :: "(int \<Rightarrow> int \<Rightarrow> int) \<Rightarrow> nanos list \<Rightarrow> int \<Rightarrow> TokenBucket \<Rightarrow> TokenBucket \<times> allow_error option" where
  "allow_wait earn [] n tb = (tb, Some ContextDone)"
| "allow_wait earn (now # ticks) n tb =
     (let (tb, ok) = tb_Allow earn now n tb in if ok then (tb, None) else allow_wait earn ticks n tb)"

definition tb_AllowN ::
  "(int \<Rightarrow> int \<Rightarrow> int) \<Rightarrow> nanos \<Rightarrow> nanos list \<Rightarrow> int \<Rightarrow> TokenBucket \<Rightarrow> TokenBucket \<times> allow_error option" where
  "tb_AllowN earn now ticks n tb =
     (if n > tb_capacity tb then (tb, Some ExceedsCapacity)
      else (let (tb, ok) = tb_Allow earn now n tb in if ok then (tb, None) else allow_wait earn ticks n tb))"

definition tb_SetRate :: "int \<Rightarrow> TokenBucket \<Rightarrow> TokenBucket" where
  "tb_SetRate rate tb =
     tb\<lparr>tb_rate := rate, tb_capacity := min_capacity rate, tb_tokens := min (tb_tokens tb) (min_capacity rate)\<rparr>"

section \<open>Connection limiter\<close>

record ConnectionLimiter =
  cl_maxPerStream :: int
  cl_maxTotal :: int
  cl_connections :: "(string \<times> int) list"
  cl_total :: int

definition NewConnectionLimiter :: "int \<Rightarrow> int \<Rightarrow> ConnectionLimiter" where
  "NewConnectionLimiter maxPerStream maxTotal =
     \<lparr>cl_maxPerStream = maxPerStream, cl_maxTotal = maxTotal, cl_connections = [], cl_total = 0\<rparr>"

definition TryAcquire :: "string \<Rightarrow> ConnectionLimiter \<Rightarrow> ConnectionLimiter \<times> bool" where
  "TryAcquire streamID cl =
     (if cl_maxTotal cl > 0 \<and> cl_total cl \<ge> cl_maxTotal cl then (cl, False)
      else
        (let current = account streamID (cl_connections cl)
         in if cl_maxPerStream cl > 0 \<and> current \<ge> cl_maxPerStream cl then (cl, False)
            else (cl\<lparr>cl_connections := AList.update streamID (current + 1) (cl_connections cl), cl_total := cl_total cl + 1\<rparr>, True)))"

definition cl_Release :: "string \<Rightarrow> ConnectionLimiter \<Rightarrow> ConnectionLimiter" where
  "cl_Release streamID cl =
     (case map_of (cl_connections cl) streamID of
        None \<Rightarrow> cl
      | Some count \<Rightarrow>
          if count > 0
          then cl\<lparr>cl_connections := (if count = 1 then AList.delete streamID (cl_connections cl)
                                    else AList.update streamID (count - 1) (cl_connections cl)),
                  cl_total := cl_total cl - 1\<rparr>
          else cl)"

definition cl_GetCount :: "string \<Rightarrow> ConnectionLimiter \<Rightarrow> int" where
  "cl_GetCount streamID cl = account streamID (cl_connections cl)"

definition cl_GetTotal :: "ConnectionLimiter \<Rightarrow> int" where
  "cl_GetTotal cl = cl_total cl"

section \<open>Bandwidth manager\<close>

record BandwidthManager =
  bm_totalBandwidth :: int
  bm_allocations :: "(string \<times> int) list"
  bm_limiters :: "(string \<times> TokenBucket) list"

definition NewBandwidthManager :: "int \<Rightarrow> BandwidthManager" where
  "NewBandwidthManager totalBandwidth = \<lparr>bm_totalBandwidth = totalBandwidth, bm_allocations = [], bm_limiters = []\<rparr>"

definition GetAvailableBandwidth :: "BandwidthManager \<Rightarrow> int" where
  "GetAvailableBandwidth bm = i64 (bm_totalBandwidth bm - i64 (sum_usage (bm_allocations bm)))"

definition AllocateBandwidth :: "nanos \<Rightarrow> string \<Rightarrow> int \<Rightarrow> BandwidthManager \<Rightarrow> BandwidthManager \<times> TokenBucket option" where
  "AllocateBandwidth now streamID requested bm =
     (let available = i64 (bm_totalBandwidth bm - i64 (sum_usage (bm_allocations bm)))
      in if requested > available then (bm, None)
         else
           (let limiter = NewTokenBucket now requested
            in (bm\<lparr>bm_allocations := AList.update streamID requested (bm_allocations bm),
                   bm_limiters := AList.update streamID limiter (bm_limiters bm)\<rparr>, Some limiter)))"

definition ReleaseBandwidth :: "string \<Rightarrow> BandwidthManager \<Rightarrow> BandwidthManager" where
  "ReleaseBandwidth streamID bm =
     bm\<lparr>bm_allocations := AList.delete streamID (bm_allocations bm), bm_limiters := AList.delete streamID (bm_limiters bm)\<rparr>"

definition GetLimiter :: "string \<Rightarrow> BandwidthManager \<Rightarrow> TokenBucket option" where
  "GetLimiter streamID bm = map_of (bm_limiters bm) streamID"

section \<open>The bucket does not leak\<close>

text \<open>The floating-point product is never negative, exceeds the exact one by at most a token and fits.\<close>

definition earns_fairly :: "(int \<Rightarrow> int \<Rightarrow> int) \<Rightarrow> bool" where
  "earns_fairly earn \<longleftrightarrow> (\<forall>e r. 0 \<le> e \<longrightarrow> 0 \<le> r \<longrightarrow> 0 \<le> earn e r \<and> earn e r < 2 ^ 62 \<and> second * earn e r \<le> e * r + second)"

text \<open>Requests with their times; the bytes that were admitted.\<close>

fun tb_run :: "(int \<Rightarrow> int \<Rightarrow> int) \<Rightarrow> (nanos \<times> int) list \<Rightarrow> TokenBucket \<Rightarrow> TokenBucket \<times> int" where
  "tb_run earn [] tb = (tb, 0)"
| "tb_run earn ((now, n) # xs) tb =
     (let (tb, ok) = tb_Allow earn now n tb; (tb, admitted) = tb_run earn xs tb
      in (tb, if ok then n + admitted else admitted))"

definition tb_inv :: "TokenBucket \<Rightarrow> bool" where
  "tb_inv tb \<longleftrightarrow> 0 \<le> tb_tokens tb \<and> tb_tokens tb \<le> tb_capacity tb \<and> tb_capacity tb < 2 ^ 62 \<and> 0 \<le> tb_rate tb"

lemma refill_tokens:
  assumes "tb_inv tb" and "earns_fairly earn" and "tb_lastRefill tb \<le> now"
  shows "tb_inv (refill earn now tb)" and "tb_lastRefill (refill earn now tb) \<le> now"
    and "tb_rate (refill earn now tb) = tb_rate tb" and "tb_capacity (refill earn now tb) = tb_capacity tb"
    and "second * tb_tokens (refill earn now tb) \<le>
      second * (tb_tokens tb + 1) + tb_rate tb * (tb_lastRefill (refill earn now tb) - tb_lastRefill tb)"
proof -
  define e where "e = now - tb_lastRefill tb"
  define k where "k = earn e (tb_rate tb)"
  have k: "0 \<le> k" "second * k \<le> e * tb_rate tb + second" "k < 2 ^ 62"
    using assms by (auto simp: earns_fairly_def e_def k_def tb_inv_def)
  have pos: "0 \<le> second" by (simp add: second_def)
  consider (same) "refill earn now tb = tb"
    | (more) "k > 0" "refill earn now tb = tb\<lparr>tb_tokens := min (tb_capacity tb) (i64 (tb_tokens tb + k)), tb_lastRefill := now\<rparr>"
  proof (cases "e < 1000000 \<or> k \<le> 0")
    case True
    then have "refill earn now tb = tb" unfolding refill_def Let_def e_def [symmetric] k_def [symmetric] by auto
    then show ?thesis by (rule that(1))
  next
    case False
    then have "refill earn now tb = tb\<lparr>tb_tokens := min (tb_capacity tb) (i64 (tb_tokens tb + k)), tb_lastRefill := now\<rparr>"
      unfolding refill_def Let_def e_def [symmetric] k_def [symmetric] by auto
    then show ?thesis using False that(2) by simp
  qed
  then have "tb_inv (refill earn now tb) \<and> tb_lastRefill (refill earn now tb) \<le> now \<and>
    tb_rate (refill earn now tb) = tb_rate tb \<and> tb_capacity (refill earn now tb) = tb_capacity tb \<and>
    second * tb_tokens (refill earn now tb) \<le>
      second * (tb_tokens tb + 1) + tb_rate tb * (tb_lastRefill (refill earn now tb) - tb_lastRefill tb)"
  proof cases
    case same
    then show ?thesis using assms(1,3) pos by (simp add: distrib_left)
  next
    case more
    have "tb_tokens tb + k < 2 ^ 63" using assms(1) k(3) by (simp add: tb_inv_def)
    then have i: "i64 (tb_tokens tb + k) = tb_tokens tb + k" using assms(1) k(1) by (intro i64_id) (simp_all add: tb_inv_def)
    have "second * min (tb_capacity tb) (tb_tokens tb + k) \<le> second * (tb_tokens tb + k)"
      by (rule mult_left_mono) (use pos in auto)
    also have "\<dots> \<le> second * (tb_tokens tb + 1) + tb_rate tb * e" using k(2) by (simp add: distrib_left mult.commute)
    finally show ?thesis using assms(1) k(1) by (simp add: more(2) i e_def tb_inv_def)
  qed
  then show "tb_inv (refill earn now tb)" and "tb_lastRefill (refill earn now tb) \<le> now"
    and "tb_rate (refill earn now tb) = tb_rate tb" and "tb_capacity (refill earn now tb) = tb_capacity tb"
    and "second * tb_tokens (refill earn now tb) \<le>
      second * (tb_tokens tb + 1) + tb_rate tb * (tb_lastRefill (refill earn now tb) - tb_lastRefill tb)"
    by blast+
qed

lemma tb_Allow_tokens:
  assumes "tb_inv tb" and "earns_fairly earn" and "tb_lastRefill tb \<le> now" and "0 \<le> n"
    and "tb_Allow earn now n tb = (tb', ok)"
  shows "tb_inv tb' \<and> tb_lastRefill tb' \<le> now \<and> tb_rate tb' = tb_rate tb \<and>
    second * (tb_tokens tb' + (if ok then n else 0)) \<le>
      second * (tb_tokens tb + 1) + tb_rate tb * (tb_lastRefill tb' - tb_lastRefill tb)"
proof -
  let ?r = "refill earn now tb"
  note r = refill_tokens [OF assms(1-3)]
  have "i64 (tb_tokens ?r - n) = tb_tokens ?r - n" if "n \<le> tb_tokens ?r"
    using that r(1) assms(4) by (intro i64_id) (simp_all add: tb_inv_def)
  then show ?thesis using assms(4,5) r by (auto simp: tb_Allow_def Let_def tb_inv_def split: if_splits)
qed

lemma tb_run_tokens:
  assumes "tb_inv tb" and "earns_fairly earn" and "sorted (tb_lastRefill tb # map fst xs)" and "\<forall>n \<in> snd ` set xs. 0 \<le> n"
    and "tb_run earn xs tb = (tb', admitted)"
  shows "tb_inv tb' \<and> tb_lastRefill tb' \<le> last (tb_lastRefill tb # map fst xs) \<and>
    second * (tb_tokens tb' + admitted) \<le>
      second * (tb_tokens tb + int (length xs)) + tb_rate tb * (tb_lastRefill tb' - tb_lastRefill tb)"
  using assms
proof (induction xs arbitrary: tb admitted)
  case (Cons x xs)
  obtain now n where x: "x = (now, n)" by (cases x)
  obtain tb1 ok where a: "tb_Allow earn now n tb = (tb1, ok)" by fastforce
  obtain tb2 more where b: "tb_run earn xs tb1 = (tb2, more)" by fastforce
  have res: "tb' = tb2" "admitted = (if ok then n else 0) + more" using Cons.prems(5) by (simp_all add: x a b split: if_splits)
  have 1: "tb_inv tb1" "tb_lastRefill tb1 \<le> now" "tb_rate tb1 = tb_rate tb"
    "second * (tb_tokens tb1 + (if ok then n else 0)) \<le>
      second * (tb_tokens tb + 1) + tb_rate tb * (tb_lastRefill tb1 - tb_lastRefill tb)"
    using tb_Allow_tokens [OF Cons.prems(1,2) _ _ a] Cons.prems(3,4) by (simp_all add: x)
  have s: "sorted (tb_lastRefill tb1 # map fst xs)" using Cons.prems(3) 1(2) by (auto simp: x)
  have 2: "tb_inv tb2" "tb_lastRefill tb2 \<le> last (tb_lastRefill tb1 # map fst xs)"
    "second * (tb_tokens tb2 + more) \<le>
      second * (tb_tokens tb1 + int (length xs)) + tb_rate tb1 * (tb_lastRefill tb2 - tb_lastRefill tb1)"
    using Cons.IH [OF 1(1) Cons.prems(2) s _ b [folded res(1)]] Cons.prems(4) unfolding res(1) by auto
  have "last (tb_lastRefill tb1 # map fst xs) \<le> last (tb_lastRefill tb # map fst (x # xs))" using 1(2) by (auto simp: x)
  moreover have "second * (tb_tokens tb2 + admitted) \<le>
      second * (tb_tokens tb + int (length (x # xs))) + tb_rate tb * (tb_lastRefill tb2 - tb_lastRefill tb)"
    using 1(4) 2(3) unfolding res(2) 1(3) distrib_left right_diff_distrib by (simp add: distrib_left)
  ultimately show ?case using 2 by (simp add: res(1))
qed simp


definition sample_earn :: "int \<Rightarrow> int \<Rightarrow> int" where
  "sample_earn e r = min (2 ^ 61) (e * r div second)"

lemma sample_earn_fair: "earns_fairly sample_earn"
proof -
  have "second * (e * r div second) \<le> e * r" for e r
    using div_mult_mod_eq [of "e * r" second] pos_mod_sign [of second "e * r"] by (simp add: second_def)
  moreover have "second * min (2 ^ 61) x \<le> second * x" for x by (rule mult_left_mono) (simp_all add: second_def)
  ultimately have "second * sample_earn e r \<le> e * r" for e r unfolding sample_earn_def by (rule order_trans [rotated])
  then have "second * sample_earn e r \<le> e * r + second" for e r by (simp add: second_def add_increasing2)
  moreover have "sample_earn e r < 2 ^ 62" for e r by (simp add: sample_earn_def min_less_iff_disj)
  ultimately show ?thesis by (simp add: earns_fairly_def) (simp add: sample_earn_def pos_imp_zdiv_nonneg_iff second_def)
qed


section \<open>Connection slots\<close>

datatype cl_call = Acquire string | Release_slot string

fun cl_step :: "cl_call \<Rightarrow> ConnectionLimiter \<Rightarrow> ConnectionLimiter" where
  "cl_step (Acquire s) cl = fst (TryAcquire s cl)"
| "cl_step (Release_slot s) cl = cl_Release s cl"

definition cl_inv :: "ConnectionLimiter \<Rightarrow> bool" where
  "cl_inv cl \<longleftrightarrow> distinct (map fst (cl_connections cl)) \<and>
     (\<forall>(k, c) \<in> set (cl_connections cl). 0 < c \<and> (cl_maxPerStream cl > 0 \<longrightarrow> c \<le> cl_maxPerStream cl)) \<and>
     cl_total cl = sum_usage (cl_connections cl) \<and> (cl_maxTotal cl > 0 \<longrightarrow> cl_total cl \<le> cl_maxTotal cl)"

lemma cl_inv_acquire: "cl_inv cl \<Longrightarrow> cl_inv (fst (TryAcquire s cl))"
proof -
  assume inv: "cl_inv cl"
  let ?n = "account s (cl_connections cl)"
  have "0 \<le> ?n" using inv by (auto simp: account_def cl_inv_def dest!: map_of_SomeD split: option.splits)
  then show ?thesis using inv
    by (auto simp: TryAcquire_def Let_def cl_inv_def set_AList_update distinct_update sum_usage_update)
qed

lemma cl_inv_release: "cl_inv cl \<Longrightarrow> cl_inv (cl_Release s cl)"
proof (cases "map_of (cl_connections cl) s")
  case (Some c)
  moreover assume inv: "cl_inv cl"
  ultimately have "0 < c" "cl_maxPerStream cl > 0 \<longrightarrow> c \<le> cl_maxPerStream cl" by (auto simp: cl_inv_def dest!: map_of_SomeD)
  then show ?thesis using inv Some
    by (auto simp: cl_Release_def cl_inv_def set_AList_update set_AList_delete distinct_update distinct_delete
        sum_usage_update_Some sum_usage_delete)
qed (simp add: cl_Release_def)

lemma cl_step_limits: "cl_maxPerStream (cl_step c cl) = cl_maxPerStream cl \<and> cl_maxTotal (cl_step c cl) = cl_maxTotal cl"
  by (cases c) (simp_all add: TryAcquire_def cl_Release_def Let_def split: option.splits)

lemma cl_run_inv:
  "cl_inv cl \<Longrightarrow> cl_inv (fold cl_step calls cl) \<and> cl_maxPerStream (fold cl_step calls cl) = cl_maxPerStream cl \<and>
   cl_maxTotal (fold cl_step calls cl) = cl_maxTotal cl"
proof (induction calls arbitrary: cl)
  case (Cons c calls)
  have "cl_inv (cl_step c cl)" using Cons.prems cl_inv_acquire cl_inv_release by (cases c) simp_all
  then show ?case using Cons.IH [of "cl_step c cl"] cl_step_limits [of c cl] by simp
qed simp

text \<open>The connection limiter never admits more than its limits, whatever sequence of acquisitions and
  releases, matched or not, it sees: the total is the sum of the streams' counts, neither exceeds its limit,
  and no count is negative.\<close>

theorem connection_limits_hold:
  "let cl = fold cl_step calls (NewConnectionLimiter maxPerStream maxTotal)
   in cl_GetTotal cl = sum_usage (cl_connections cl) \<and> 0 \<le> cl_GetCount s cl \<and>
      (maxTotal > 0 \<longrightarrow> cl_GetTotal cl \<le> maxTotal) \<and> (maxPerStream > 0 \<longrightarrow> cl_GetCount s cl \<le> maxPerStream)"
proof -
  let ?cl = "fold cl_step calls (NewConnectionLimiter maxPerStream maxTotal)"
  have "cl_inv (NewConnectionLimiter maxPerStream maxTotal)" by (simp add: cl_inv_def NewConnectionLimiter_def)
  then have "cl_inv ?cl" "cl_maxPerStream ?cl = maxPerStream" "cl_maxTotal ?cl = maxTotal"
    using cl_run_inv [of "NewConnectionLimiter maxPerStream maxTotal" calls] by (simp_all add: NewConnectionLimiter_def)
  then show ?thesis
    by (auto simp: Let_def cl_inv_def cl_GetTotal_def cl_GetCount_def account_def dest!: map_of_SomeD split: option.splits)
qed

theorem connection_limits_hold_witness:
  "let cl = fold cl_step [Acquire ''a'', Acquire ''a'', Acquire ''a'', Release_slot ''b''] (NewConnectionLimiter 2 5)
   in cl_GetCount ''a'' cl = 2 \<and> cl_GetTotal cl \<le> 5"
  using connection_limits_hold [of "[Acquire ''a'', Acquire ''a'', Acquire ''a'', Release_slot ''b'']" 2 5 "''a''"]
  by (simp add: Let_def TryAcquire_def cl_Release_def NewConnectionLimiter_def cl_GetCount_def account_def)

section \<open>Bandwidth\<close>

datatype bm_call = Allocate nanos string int | Free string

fun bm_step :: "bm_call \<Rightarrow> BandwidthManager \<Rightarrow> BandwidthManager" where
  "bm_step (Allocate now s n) bm = fst (AllocateBandwidth now s n bm)"
| "bm_step (Free s) bm = ReleaseBandwidth s bm"

definition bm_call_ok :: "bm_call \<Rightarrow> bool" where
  "bm_call_ok c = (case c of Allocate now s n \<Rightarrow> 0 \<le> n | Free s \<Rightarrow> True)"

definition bm_inv :: "BandwidthManager \<Rightarrow> bool" where
  "bm_inv bm \<longleftrightarrow> distinct (map fst (bm_allocations bm)) \<and> (\<forall>(k, n) \<in> set (bm_allocations bm). 0 \<le> n) \<and>
     sum_usage (bm_allocations bm) \<le> bm_totalBandwidth bm \<and> 0 \<le> bm_totalBandwidth bm \<and> bm_totalBandwidth bm < 2 ^ 62 \<and>
     (\<forall>s. map_option tb_rate (map_of (bm_limiters bm) s) = map_of (bm_allocations bm) s)"

lemma sum_usage_all_nonneg: "(\<forall>(k, n) \<in> set al. 0 \<le> n) \<Longrightarrow> 0 \<le> sum_usage al"
  by (induction al) (auto simp: sum_usage_def)

lemma bm_available: "bm_inv bm \<Longrightarrow> GetAvailableBandwidth bm = bm_totalBandwidth bm - sum_usage (bm_allocations bm)"
  using sum_usage_all_nonneg [of "bm_allocations bm"] by (simp add: GetAvailableBandwidth_def bm_inv_def i64_id)

lemma bm_inv_step: "bm_inv bm \<Longrightarrow> bm_call_ok c \<Longrightarrow> bm_inv (bm_step c bm) \<and> bm_totalBandwidth (bm_step c bm) = bm_totalBandwidth bm"
proof (cases c)
  case (Allocate now s n)
  assume inv: "bm_inv bm" and ok: "bm_call_ok c"
  have a: "0 \<le> account s (bm_allocations bm)"
    using inv by (auto simp: account_def bm_inv_def dest!: map_of_SomeD split: option.splits)
  show ?thesis
  proof (cases "n > GetAvailableBandwidth bm")
    case True
    then show ?thesis using inv by (simp add: Allocate AllocateBandwidth_def GetAvailableBandwidth_def)
  next
    case False
    then have e: "bm_step c bm = bm\<lparr>bm_allocations := AList.update s n (bm_allocations bm),
        bm_limiters := AList.update s (NewTokenBucket now n) (bm_limiters bm)\<rparr>"
      by (simp add: Allocate AllocateBandwidth_def GetAvailableBandwidth_def Let_def)
    have "sum_usage (AList.update s n (bm_allocations bm)) \<le> bm_totalBandwidth bm"
      using False a by (simp add: sum_usage_update bm_available [OF inv])
    then show ?thesis using inv ok unfolding e
      by (auto simp: bm_inv_def bm_call_ok_def Allocate set_AList_update distinct_update update_conv' NewTokenBucket_def)
  qed
next
  case (Free s)
  assume inv: "bm_inv bm"
  have "sum_usage (AList.delete s (bm_allocations bm)) \<le> sum_usage (bm_allocations bm)"
  proof (cases "map_of (bm_allocations bm) s")
    case None
    then have "s \<notin> fst ` set (bm_allocations bm)" by (simp add: map_of_eq_None_iff)
    then have "AList.delete s (bm_allocations bm) = bm_allocations bm" by (rule delete_missing)
    then show ?thesis by simp
  next
    case (Some n)
    then have "0 \<le> n" using inv by (auto simp: bm_inv_def dest!: map_of_SomeD)
    then show ?thesis using inv Some by (simp add: bm_inv_def sum_usage_delete)
  qed
  then show ?thesis using inv
    by (auto simp: Free ReleaseBandwidth_def bm_inv_def set_AList_delete distinct_delete delete_conv')
qed

text \<open>The bandwidth manager never promises more than there is: after any allocations and releases the
  bandwidth handed out stays within the total, what it reports as available is exactly the rest, and each
  stream that holds an allocation has a limiter of that rate.\<close>

theorem bandwidth_not_overcommitted:
  assumes "0 \<le> tot" and "tot < 2 ^ 62" and "list_all bm_call_ok calls"
  shows "let bm = fold bm_step calls (NewBandwidthManager tot)
    in sum_usage (bm_allocations bm) \<le> tot \<and> GetAvailableBandwidth bm = tot - sum_usage (bm_allocations bm) \<and>
       map_option tb_rate (GetLimiter s bm) = map_of (bm_allocations bm) s"
proof -
  have "bm_inv bm \<Longrightarrow> bm_inv (fold bm_step calls bm) \<and> bm_totalBandwidth (fold bm_step calls bm) = bm_totalBandwidth bm" for bm
    using assms(3)
  proof (induction calls arbitrary: bm)
    case (Cons c calls)
    then show ?case using bm_inv_step [of bm c] by auto
  qed simp
  moreover have "bm_inv (NewBandwidthManager tot)" using assms(1,2) by (simp add: bm_inv_def NewBandwidthManager_def)
  ultimately have i: "bm_inv (fold bm_step calls (NewBandwidthManager tot))"
    "bm_totalBandwidth (fold bm_step calls (NewBandwidthManager tot)) = tot" by (auto simp: NewBandwidthManager_def)
  then show ?thesis using bm_available [OF i(1)] by (simp add: Let_def bm_inv_def GetLimiter_def)
qed

theorem bandwidth_not_overcommitted_witness:
  "let bm = fold bm_step [Allocate 0 ''a'' 600, Allocate 0 ''b'' 500, Free ''a'', Allocate 0 ''b'' 500] (NewBandwidthManager 1000)
   in sum_usage (bm_allocations bm) \<le> 1000"
  using bandwidth_not_overcommitted [of 1000 "[Allocate 0 ''a'' 600, Allocate 0 ''b'' 500, Free ''a'', Allocate 0 ''b'' 500]" "''b''"]
  by (simp add: bm_call_ok_def Let_def)

text \<open>A stream that asks again for what it already holds is refused when it holds more than half of the
  bandwidth, because its own allocation, which the new one would replace, counts as used.\<close>

theorem reallocation_counts_twice:
  assumes "bm_allocations bm = [(s, n)]" and "0 \<le> n" and "n \<le> bm_totalBandwidth bm" and "bm_totalBandwidth bm < 2 ^ 62"
    and "bm_totalBandwidth bm < 2 * n"
  shows "AllocateBandwidth now s n bm = (bm, None)"
  using assms by (simp add: AllocateBandwidth_def sum_usage_def i64_id)

theorem reallocation_counts_twice_witness:
  "AllocateBandwidth 1 ''a'' 600 (fst (AllocateBandwidth 0 ''a'' 600 (NewBandwidthManager 1000))) =
     (fst (AllocateBandwidth 0 ''a'' 600 (NewBandwidthManager 1000)), None)"
  by (rule reallocation_counts_twice) (simp_all add: AllocateBandwidth_def NewBandwidthManager_def Let_def)

end
