(* ===== verification/RTP_Validator.thy ===== *)
theory RTP_Validator
  imports Depacketizer
begin

text \<open>
  Validation of incoming RTP packets: the per-SSRC validator of \<^verbatim>\<open>rtp/validator.go\<close> and the fragment validator of
  \<^verbatim>\<open>validation/fragment.go\<close>.  A packet is the record of the RTP library, with the fields the validators read.
  The order in which a \<^verbatim>\<open>range\<close> visits a Go map is not defined; the function \<open>visit\<close> that
  chooses it is an argument.
\<close>

section \<open>Packets and state\<close>

record rtp_wire_packet = rtp_packet +
  pk_Padding :: bool
  pk_Raw :: "byte list"

datatype validator_error =
    ErrInvalidRTPVersion
  | ErrInvalidPayloadType
  | ErrPacketTooSmall
  | ErrInvalidPadding
  | ErrSequenceGap
  | ErrTimestampJump

record ValidatorConfig =
  vc_AllowedPayloadTypes :: "byte list"
  vc_MaxSequenceGap :: int
  vc_MaxTimestampJump :: u32

definition DefaultValidatorConfig :: ValidatorConfig where
  "DefaultValidatorConfig =
     \<lparr>vc_AllowedPayloadTypes = map (\<lambda>i. of_nat (96 + i)) [0..<32], vc_MaxSequenceGap = 100, vc_MaxTimestampJump = 90000 * 60\<rparr>"

record ssrcTracker =
  sr_lastSequence :: u16
  sr_lastTimestamp :: u32
  sr_packetsCount :: nat
  sr_timestampWindow :: "u32 list"
  sr_lastMonotonicTS :: u32
  sr_dtsEstimate :: u32
  sr_frameDuration :: u32
  sr_reorderDepth :: int

record Validator =
  va_config :: ValidatorConfig
  va_ssrcState :: "u32 \<rightharpoonup> ssrcTracker"

definition NewValidator :: "ValidatorConfig option \<Rightarrow> Validator" where
  "NewValidator config =
     \<lparr>va_config = (case config of None \<Rightarrow> DefaultValidatorConfig | Some c \<Rightarrow> c), va_ssrcState = Map.empty\<rparr>"

section \<open>Timestamps\<close>

definition isTimestampWraparound :: "u32 \<Rightarrow> u32 \<Rightarrow> bool" where
  "isTimestampWraparound currentTS lastTS \<longleftrightarrow> lastTS > 0xF0000000 \<and> currentTS < 0x10000000"

definition isPossibleBFrame :: "u32 \<Rightarrow> ssrcTracker \<Rightarrow> bool" where
  "isPossibleBFrame timestamp tr \<longleftrightarrow>
     sr_lastMonotonicTS tr > timestamp \<and> sr_lastMonotonicTS tr - timestamp \<le> sr_frameDuration tr * 5"

fun frame_diffs :: "u32 list \<Rightarrow> u32 list" where
  "frame_diffs (a # b # ts) =
     (if b > a \<and> b - a \<ge> 750 \<and> b - a \<le> 9000 then (b - a) # frame_diffs (b # ts) else frame_diffs (b # ts))"
| "frame_diffs ts = []"

definition best_diff :: "u32 list \<Rightarrow> u32 list \<Rightarrow> u32" where
  "best_diff diffs keys =
     fst (fold (\<lambda>d (best, maxCount). if count_list diffs d > maxCount then (d, count_list diffs d) else (best, maxCount))
            keys (3000, 0))"

definition va_estimateFrameDuration :: "(u32 list \<Rightarrow> u32 list) \<Rightarrow> u32 list \<Rightarrow> u32" where
  "va_estimateFrameDuration visit timestamps =
     (if length timestamps < 2 then 3000
      else (let diffs = frame_diffs timestamps in best_diff diffs (visit (remdups diffs))))"

text \<open>The bookkeeping that precedes the checks of \<^verbatim>\<open>validateTimestamp\<close>.\<close>

definition note_timestamp :: "(u32 list \<Rightarrow> u32 list) \<Rightarrow> u32 \<Rightarrow> ssrcTracker \<Rightarrow> ssrcTracker" where
  "note_timestamp visit currentTS tr =
     (let tr = (if isTimestampWraparound currentTS (sr_lastTimestamp tr) then tr\<lparr>sr_lastMonotonicTS := currentTS\<rparr> else tr);
          window = sr_timestampWindow tr @ [currentTS];
          window = (if length window > 10 then tl window else window);
          tr = tr\<lparr>sr_timestampWindow := window\<rparr>
      in if length window \<ge> 2 then tr\<lparr>sr_frameDuration := va_estimateFrameDuration visit window\<rparr> else tr)"

definition check_timestamp :: "u32 \<Rightarrow> u32 \<Rightarrow> ssrcTracker \<Rightarrow> ssrcTracker \<times> validator_error option" where
  "check_timestamp maxJump currentTS tr =
     (if sr_packetsCount tr < 3 then
        (if sr_lastTimestamp tr > 0 \<and> currentTS > sr_lastTimestamp tr \<and> currentTS - sr_lastTimestamp tr > maxJump
         then (tr, Some ErrTimestampJump)
         else (tr\<lparr>sr_lastMonotonicTS := max (sr_lastMonotonicTS tr) currentTS\<rparr>, None))
      else
        (let back = sr_frameDuration tr * 5;
             expectedMinDTS = (if sr_lastMonotonicTS tr < back then 0 else sr_lastMonotonicTS tr - back);
             expectedMaxDTS = sr_lastMonotonicTS tr + maxJump
         in if currentTS > expectedMaxDTS then (tr, Some ErrTimestampJump)
            else if currentTS < expectedMinDTS then
              (if isPossibleBFrame currentTS tr
               then (tr\<lparr>sr_reorderDepth := max (sr_reorderDepth tr)
                          (uint (sr_lastMonotonicTS tr - currentTS) div uint (sr_frameDuration tr))\<rparr>, None)
               else (tr, Some ErrTimestampJump))
            else if currentTS > sr_lastMonotonicTS tr
            then (tr\<lparr>sr_lastMonotonicTS := currentTS, sr_dtsEstimate := currentTS + sr_frameDuration tr\<rparr>, None)
            else (tr, None)))"

definition validateTimestamp ::
  "(u32 list \<Rightarrow> u32 list) \<Rightarrow> u32 \<Rightarrow> u32 \<Rightarrow> ssrcTracker \<Rightarrow> ssrcTracker \<times> validator_error option" where
  "validateTimestamp visit maxJump currentTS tr = check_timestamp maxJump currentTS (note_timestamp visit currentTS tr)"

section \<open>Packets\<close>

definition padding_ok :: "rtp_wire_packet \<Rightarrow> bool" where
  "padding_ok p \<longleftrightarrow>
     \<not> (pk_Padding p \<and> pk_Raw p \<noteq> [] \<and> (last (pk_Raw p) = 0 \<or> unat (last (pk_Raw p)) > length (pk_Raw p)))"

definition new_tracker :: "rtp_wire_packet \<Rightarrow> ssrcTracker" where
  "new_tracker p =
     \<lparr>sr_lastSequence = pk_SequenceNumber p, sr_lastTimestamp = pk_Timestamp p, sr_packetsCount = 1,
      sr_timestampWindow = [pk_Timestamp p], sr_lastMonotonicTS = pk_Timestamp p, sr_dtsEstimate = pk_Timestamp p,
      sr_frameDuration = 3000, sr_reorderDepth = 0\<rparr>"

definition seq_gap :: "u16 \<Rightarrow> u16 \<Rightarrow> int" where
  "seq_gap new old = \<bar>sint (new - old)\<bar>"

text \<open>A packet of a known source.\<close>

definition validate_known ::
  "(u32 list \<Rightarrow> u32 list) \<Rightarrow> rtp_wire_packet \<Rightarrow> ssrcTracker \<Rightarrow> Validator \<Rightarrow> Validator \<times> validator_error option" where
  "validate_known visit p tr v =
     (let absGap = seq_gap (pk_SequenceNumber p) (sr_lastSequence tr)
      in if absGap > 1 \<and> absGap > vc_MaxSequenceGap (va_config v) then (v, Some ErrSequenceGap)
         else
           (case validateTimestamp visit (vc_MaxTimestampJump (va_config v)) (pk_Timestamp p) tr of
              (tr, Some e) \<Rightarrow> (v\<lparr>va_ssrcState := (va_ssrcState v)(pk_SSRC p \<mapsto> tr)\<rparr>, Some e)
            | (tr, None) \<Rightarrow>
                (v\<lparr>va_ssrcState := (va_ssrcState v)(pk_SSRC p \<mapsto>
                   tr\<lparr>sr_lastSequence := pk_SequenceNumber p, sr_lastTimestamp := pk_Timestamp p,
                      sr_packetsCount := sr_packetsCount tr + 1\<rparr>)\<rparr>, None)))"

definition ValidatePacket ::
  "(u32 list \<Rightarrow> u32 list) \<Rightarrow> rtp_wire_packet option \<Rightarrow> Validator \<Rightarrow> Validator \<times> validator_error option" where
  "ValidatePacket visit packet v =
     (case packet of
        None \<Rightarrow> (v, Some ErrPacketTooSmall)
      | Some p \<Rightarrow>
          if pk_Version p \<noteq> 2 then (v, Some ErrInvalidRTPVersion)
          else if pk_PayloadType p \<notin> set (vc_AllowedPayloadTypes (va_config v)) then (v, Some ErrInvalidPayloadType)
          else if \<not> padding_ok p then (v, Some ErrInvalidPadding)
          else
            (case va_ssrcState v (pk_SSRC p) of
               None \<Rightarrow> (v\<lparr>va_ssrcState := (va_ssrcState v)(pk_SSRC p \<mapsto> new_tracker p)\<rparr>, None)
             | Some tr \<Rightarrow> validate_known visit p tr v))"

definition GetSSRCStats :: "u32 \<Rightarrow> Validator \<Rightarrow> nat \<times> bool" where
  "GetSSRCStats ssrc v = (case va_ssrcState v ssrc of Some tr \<Rightarrow> (sr_packetsCount tr, True) | None \<Rightarrow> (0, False))"

definition ResetSSRC :: "u32 \<Rightarrow> Validator \<Rightarrow> Validator" where
  "ResetSSRC ssrc v = v\<lparr>va_ssrcState := (va_ssrcState v)(ssrc := None)\<rparr>"

definition va_Reset :: "Validator \<Rightarrow> Validator" where
  "va_Reset v = v\<lparr>va_ssrcState := Map.empty\<rparr>"

section \<open>Fragments\<close>

datatype fragment_error =
    ErrFragmentTooLarge | ErrFragmentTimeout | ErrTooManyFragments | ErrInvalidFragmentOrder
  | ErrDuplicateFragment | ErrFragmentGapTooLarge

record FragmentValidator =
  fv_maxFragmentSize :: nat
  fv_maxFragments :: nat
  fv_maxSequenceGap :: int
  fv_fragmentTimeout :: int
  fv_maxAssemblySize :: nat
  fv_allowDuplicates :: bool
  fv_enforceStrictOrder :: bool

definition NewFragmentValidator :: FragmentValidator where
  "NewFragmentValidator =
     \<lparr>fv_maxFragmentSize = MaxFragmentSize, fv_maxFragments = 1000, fv_maxSequenceGap = 5, fv_fragmentTimeout = 5 * second,
      fv_maxAssemblySize = MaxNALUnitSize, fv_allowDuplicates = False, fv_enforceStrictOrder = True\<rparr>"

record FragmentInfo =
  fi_SequenceNumber :: u16
  fi_Timestamp :: u32
  fi_Size :: nat
  fi_IsStart :: bool
  fi_IsEnd :: bool

record FragmentState =
  fs_fragments :: "FragmentInfo list"
  fs_totalSize :: nat
  fs_startTime :: nanos
  fs_lastSequence :: u16

definition NewFragmentState :: "nanos \<Rightarrow> FragmentState" where
  "NewFragmentState now = \<lparr>fs_fragments = [], fs_totalSize = 0, fs_startTime = now, fs_lastSequence = 0\<rparr>"

definition ValidateFragment :: "FragmentInfo \<Rightarrow> FragmentValidator \<Rightarrow> fragment_error option" where
  "ValidateFragment info v = (if fi_Size info > fv_maxFragmentSize v then Some ErrFragmentTooLarge else None)"

definition fv_sequenceDistance :: "u16 \<Rightarrow> u16 \<Rightarrow> int" where
  "fv_sequenceDistance s1 s2 = sint (s1 - s2)"

definition ValidateSequence :: "FragmentState \<Rightarrow> u16 \<Rightarrow> FragmentValidator \<Rightarrow> fragment_error option" where
  "ValidateSequence st newSeq v =
     (if fs_fragments st = [] then None
      else
        (let gap = fv_sequenceDistance newSeq (fs_lastSequence st)
         in if gap = 0 \<and> \<not> fv_allowDuplicates v then Some ErrDuplicateFragment
            else if gap < 0 \<and> fv_enforceStrictOrder v then Some ErrInvalidFragmentOrder
            else if gap > fv_maxSequenceGap v then Some ErrFragmentGapTooLarge
            else None))"

definition ValidateAssembly :: "nanos \<Rightarrow> FragmentState \<Rightarrow> FragmentValidator \<Rightarrow> fragment_error option" where
  "ValidateAssembly now st v =
     (if now - fs_startTime st > fv_fragmentTimeout v then Some ErrFragmentTimeout
      else if length (fs_fragments st) > fv_maxFragments v then Some ErrTooManyFragments
      else if fs_totalSize st > fv_maxAssemblySize v then Some ErrFragmentTooLarge
      else None)"

definition AddFragment :: "nanos \<Rightarrow> FragmentInfo \<Rightarrow> FragmentValidator \<Rightarrow> FragmentState \<Rightarrow> FragmentState \<times> fragment_error option" where
  "AddFragment now info v st =
     (case ValidateFragment info v of
        Some e \<Rightarrow> (st, Some e)
      | None \<Rightarrow>
          (case ValidateSequence st (fi_SequenceNumber info) v of
             Some e \<Rightarrow> (st, Some e)
           | None \<Rightarrow>
               (let st = st\<lparr>fs_fragments := fs_fragments st @ [info], fs_totalSize := fs_totalSize st + fi_Size info,
                            fs_lastSequence := fi_SequenceNumber info\<rparr>
                in (st, ValidateAssembly now st v))))"

definition fv_IsComplete :: "FragmentState \<Rightarrow> bool" where
  "fv_IsComplete st \<longleftrightarrow>
     fs_fragments st \<noteq> [] \<and> list_ex fi_IsStart (fs_fragments st) \<and> list_ex fi_IsEnd (fs_fragments st)"

definition fv_Reset :: "nanos \<Rightarrow> FragmentState \<Rightarrow> FragmentState" where
  "fv_Reset now st = st\<lparr>fs_fragments := [], fs_totalSize := 0, fs_startTime := now, fs_lastSequence := 0\<rparr>"

section \<open>Regular streams\<close>

fun va_run :: "(u32 list \<Rightarrow> u32 list) \<Rightarrow> rtp_wire_packet list \<Rightarrow> Validator \<Rightarrow> Validator \<times> validator_error option list" where
  "va_run visit [] v = (v, [])"
| "va_run visit (p # ps) v =
     (let (v, e) = ValidatePacket visit (Some p) v; (v, es) = va_run visit ps v in (v, e # es))"

definition well_formed :: "ValidatorConfig \<Rightarrow> rtp_wire_packet \<Rightarrow> bool" where
  "well_formed cfg p \<longleftrightarrow> pk_Version p = 2 \<and> pk_PayloadType p \<in> set (vc_AllowedPayloadTypes cfg) \<and> padding_ok p"

text \<open>The next packet of a source: the next sequence number, and a time that does not go back or too far.\<close>

definition regular_step :: "u32 \<Rightarrow> rtp_wire_packet \<Rightarrow> rtp_wire_packet \<Rightarrow> bool" where
  "regular_step maxJump p q \<longleftrightarrow>
     pk_SSRC q = pk_SSRC p \<and> pk_SequenceNumber q = pk_SequenceNumber p + 1 \<and>
     unat (pk_Timestamp p) \<le> unat (pk_Timestamp q) \<and> unat (pk_Timestamp q) \<le> unat (pk_Timestamp p) + unat maxJump \<and>
     unat (pk_Timestamp p) + unat maxJump < 2 ^ 32"

definition tracked :: "rtp_wire_packet \<Rightarrow> Validator \<Rightarrow> bool" where
  "tracked p v \<longleftrightarrow> (\<exists>tr. va_ssrcState v (pk_SSRC p) = Some tr \<and> sr_lastSequence tr = pk_SequenceNumber p \<and>
     sr_lastTimestamp tr = pk_Timestamp p \<and> sr_lastMonotonicTS tr = pk_Timestamp p)"

lemma note_timestamp_frame:
  "sr_lastTimestamp (note_timestamp visit ts tr) = sr_lastTimestamp tr"
  "sr_packetsCount (note_timestamp visit ts tr) = sr_packetsCount tr"
  "\<not> isTimestampWraparound ts (sr_lastTimestamp tr) \<Longrightarrow> sr_lastMonotonicTS (note_timestamp visit ts tr) = sr_lastMonotonicTS tr"
  by (simp_all add: note_timestamp_def Let_def)

lemma check_regular:
  assumes "sr_lastTimestamp tr = t" and "sr_lastMonotonicTS tr = t" and "unat t \<le> unat ts"
    and "unat ts \<le> unat t + unat maxJump" and "unat t + unat maxJump < 2 ^ 32"
  shows "\<exists>tr'. check_timestamp maxJump ts tr = (tr', None) \<and> sr_lastMonotonicTS tr' = ts"
proof -
  have le: "t \<le> ts" using assms(3) by (simp add: word_le_nat_alt)
  have jump: "\<not> ts - t > maxJump"
    using assms(3,4) le by (simp add: word_less_nat_alt unat_sub)
  have "unat (t + maxJump) = unat t + unat maxJump" using assms(5) by (simp add: unat_word_ariths)
  then have top: "\<not> ts > t + maxJump" using assms(4) by (simp add: word_less_nat_alt)
  have bottom: "\<not> ts < (if t < w then 0 else t - w)" for w
  proof (cases "t < w")
    case False
    then have "w \<le> t" by simp
    then have "t - w \<le> t" by (simp add: word_le_nat_alt unat_sub)
    then show ?thesis using False le by simp
  qed simp
  show ?thesis
  proof (cases "sr_packetsCount tr < 3")
    case True
    then show ?thesis using assms(1,2) jump le by (simp add: check_timestamp_def max_def)
  next
    case False
    then show ?thesis using top bottom [of "sr_frameDuration tr * 5"] le
      unfolding check_timestamp_def Let_def assms(1,2) by (auto simp: assms(2))
  qed
qed

lemma seq_gap_one: "seq_gap (s + 1) s = 1"
  by (simp add: seq_gap_def)

lemma validate_regular:
  assumes "tracked p v" and "regular_step (vc_MaxTimestampJump (va_config v)) p q" and "well_formed (va_config v) q"
  shows "\<exists>v'. ValidatePacket visit (Some q) v = (v', None) \<and> tracked q v' \<and> va_config v' = va_config v"
proof -
  obtain tr where tr: "va_ssrcState v (pk_SSRC q) = Some tr" "sr_lastSequence tr = pk_SequenceNumber p"
    "sr_lastTimestamp tr = pk_Timestamp p" "sr_lastMonotonicTS tr = pk_Timestamp p"
    using assms(1,2) by (auto simp: tracked_def regular_step_def)
  note st = assms(2) [unfolded regular_step_def]
  have "pk_Timestamp p \<le> pk_Timestamp q" using st by (simp add: word_le_nat_alt)
  then have w: "\<not> isTimestampWraparound (pk_Timestamp q) (sr_lastTimestamp tr)"
    by (auto simp: isTimestampWraparound_def tr(3) word_le_nat_alt word_less_nat_alt)
  obtain tr' where c: "validateTimestamp visit (vc_MaxTimestampJump (va_config v)) (pk_Timestamp q) tr = (tr', None)"
    "sr_lastMonotonicTS tr' = pk_Timestamp q"
    using check_regular [of "note_timestamp visit (pk_Timestamp q) tr" "pk_Timestamp p" "pk_Timestamp q"
        "vc_MaxTimestampJump (va_config v)"] st tr(3,4) note_timestamp_frame w
    by (auto simp: validateTimestamp_def)
  have "seq_gap (pk_SequenceNumber q) (sr_lastSequence tr) = 1" using st tr(2) by (simp add: seq_gap_one)
  then show ?thesis using assms(3) tr(1) c
    by (simp add: ValidatePacket_def well_formed_def validate_known_def tracked_def)
qed

text \<open>A regular RTP stream passes the validator unharmed: in sequence, with times that advance by at most the
  permitted jump and stay clear of the end of the 32-bit range, every packet is accepted, whatever the frame
  rate and whatever order the frame-duration estimate visits its table in.\<close>

theorem validator_accepts_regular_stream:
  assumes "list_all (well_formed cfg) (p # ps)" and "successively (regular_step (vc_MaxTimestampJump cfg)) (p # ps)"
  shows "snd (va_run visit (p # ps) (NewValidator (Some cfg))) = replicate (length (p # ps)) None"
proof -
  have run: "snd (va_run visit qs v) = replicate (length qs) None"
    if "tracked p v" "va_config v = cfg" "list_all (well_formed cfg) qs"
      "successively (regular_step (vc_MaxTimestampJump cfg)) (p # qs)" for qs p v
    using that
  proof (induction qs arbitrary: p v)
    case (Cons q qs)
    obtain v' where "ValidatePacket visit (Some q) v = (v', None)" "tracked q v'" "va_config v' = cfg"
      using validate_regular [of p v q visit] Cons.prems by auto
    then show ?case using Cons.IH [of q v'] Cons.prems(3,4) by (simp add: case_prod_beta Let_def successively_Cons)
  qed simp
  define v where "v = fst (ValidatePacket visit (Some p) (NewValidator (Some cfg)))"
  have v: "ValidatePacket visit (Some p) (NewValidator (Some cfg)) = (v, None)" "tracked p v" "va_config v = cfg"
    using assms(1) by (simp_all add: v_def ValidatePacket_def NewValidator_def well_formed_def tracked_def new_tracker_def)
  have "snd (va_run visit ps v) = replicate (length ps) None"
    using run [OF v(2,3)] assms by simp
  then show ?thesis by (simp add: v(1) case_prod_beta Let_def)
qed

definition sample_packet :: "u16 \<Rightarrow> u32 \<Rightarrow> rtp_wire_packet" where
  "sample_packet s ts =
     \<lparr>pk_Version = 2, pk_PayloadType = 96, pk_SequenceNumber = s, pk_Timestamp = ts, pk_SSRC = 7, pk_Payload = [],
      pk_Padding = False, pk_Raw = []\<rparr>"

lemma sample_well_formed: "well_formed DefaultValidatorConfig (sample_packet s ts)"
proof -
  have "of_nat (96 + 0) \<in> set (vc_AllowedPayloadTypes DefaultValidatorConfig)"
    unfolding DefaultValidatorConfig_def by (auto intro!: image_eqI [of _ _ 0])
  then show ?thesis by (simp add: well_formed_def sample_packet_def padding_ok_def)
qed

theorem validator_accepts_regular_stream_witness:
  "snd (va_run id [sample_packet 65535 0, sample_packet 0 3000, sample_packet 1 3000, sample_packet 2 6000, sample_packet 3 9003]
     (NewValidator (Some DefaultValidatorConfig))) = [None, None, None, None, None]"
  using validator_accepts_regular_stream [of DefaultValidatorConfig "sample_packet 65535 0"
      "[sample_packet 0 3000, sample_packet 1 3000, sample_packet 2 6000, sample_packet 3 9003]" id]
  by (simp add: sample_well_formed regular_step_def) (simp add: sample_packet_def DefaultValidatorConfig_def)

section \<open>Lock-out\<close>

text \<open>C40: A loss of more than the permitted gap locks a source out: its tracker keeps the old sequence number, so
  every following packet is rejected too, and the validator does not change, until the numbers come round to
  where the stream broke off.\<close>

theorem sequence_gap_locks_out:
  assumes "va_ssrcState v ssrc = Some tr"
    and "\<forall>p \<in> set ps. pk_SSRC p = ssrc \<and> well_formed (va_config v) p \<and>
      seq_gap (pk_SequenceNumber p) (sr_lastSequence tr) > max 1 (vc_MaxSequenceGap (va_config v))"
  shows "va_run visit ps v = (v, replicate (length ps) (Some ErrSequenceGap))"
  using assms(2)
proof (induction ps)
  case (Cons p ps)
  then have "ValidatePacket visit (Some p) v = (v, Some ErrSequenceGap)"
    using assms(1) by (simp add: ValidatePacket_def well_formed_def validate_known_def Let_def)
  then show ?case using Cons by simp
qed simp

theorem sequence_gap_locks_out_witness:
  "let v = fst (ValidatePacket id (Some (sample_packet 10 0)) (NewValidator None))
   in va_run id [sample_packet 200 3000, sample_packet 201 3000, sample_packet 30000 6000] v =
        (v, replicate 3 (Some ErrSequenceGap))"
proof -
  let ?v = "fst (ValidatePacket id (Some (sample_packet 10 0)) (NewValidator None))"
  have w: "well_formed DefaultValidatorConfig (sample_packet 10 0)" by (rule sample_well_formed)
  then have v: "va_ssrcState ?v 7 = Some (new_tracker (sample_packet 10 0))" "va_config ?v = DefaultValidatorConfig"
    by (simp_all add: ValidatePacket_def NewValidator_def well_formed_def sample_packet_def)
  have "\<forall>p \<in> set [sample_packet 200 3000, sample_packet 201 3000, sample_packet 30000 6000]. pk_SSRC p = 7 \<and>
      well_formed (va_config ?v) p \<and>
      seq_gap (pk_SequenceNumber p) (sr_lastSequence (new_tracker (sample_packet 10 0))) > max 1 (vc_MaxSequenceGap (va_config ?v))"
    unfolding v(2) by (simp add: sample_well_formed)
      (simp add: sample_packet_def new_tracker_def seq_gap_def DefaultValidatorConfig_def)
  from sequence_gap_locks_out [OF v(1) this, of id] show ?thesis by (simp add: Let_def numeral_3_eq_3)
qed

text \<open>Before the 32-bit timestamp of a source wraps, the validator rejects everything: as soon as the last time
  plus the permitted jump exceeds the range, the upper bound wraps to a small number and even a packet of the
  same frame is refused.\<close>

theorem validator_rejects_before_wrap:
  assumes "va_ssrcState v (pk_SSRC p) = Some tr" and "well_formed (va_config v) p"
    and "seq_gap (pk_SequenceNumber p) (sr_lastSequence tr) \<le> 1" and "3 \<le> sr_packetsCount tr"
    and "2 ^ 32 \<le> unat (sr_lastMonotonicTS tr) + unat (vc_MaxTimestampJump (va_config v))"
    and "sr_lastMonotonicTS tr \<le> pk_Timestamp p" and "0x10000000 \<le> pk_Timestamp p"
  shows "snd (ValidatePacket visit (Some p) v) = Some ErrTimestampJump"
proof -
  let ?j = "vc_MaxTimestampJump (va_config v)" and ?m = "sr_lastMonotonicTS tr"
  have w: "\<not> isTimestampWraparound (pk_Timestamp p) (sr_lastTimestamp tr)" using assms(7) by (auto simp: isTimestampWraparound_def)
  have j: "unat ?j < 2 ^ 32" "unat ?m < 2 ^ 32" using unsigned_less [of ?j] unsigned_less [of ?m] by simp_all
  have "unat (?m + ?j) = unat ?m + unat ?j - 2 ^ 32"
    using assms(5) j by (simp add: unat_word_ariths mod_if)
  then have "pk_Timestamp p > ?m + ?j" using j(1) assms(5,6) by (simp add: word_less_nat_alt word_le_nat_alt)
  then have "snd (check_timestamp ?j (pk_Timestamp p) (note_timestamp visit (pk_Timestamp p) tr)) = Some ErrTimestampJump"
    using assms(4) note_timestamp_frame w by (simp add: check_timestamp_def Let_def)
  then have "snd (validateTimestamp visit ?j (pk_Timestamp p) tr) = Some ErrTimestampJump" by (simp add: validateTimestamp_def)
  then show ?thesis using assms(1-3)
    by (auto simp: ValidatePacket_def well_formed_def validate_known_def Let_def split: prod.splits option.splits)
qed

text \<open>A source whose last time is one minute before the wrap.\<close>

definition late_validator :: Validator where
  "late_validator = (NewValidator None)\<lparr>va_ssrcState := Map.empty(7 \<mapsto>
     (new_tracker (sample_packet 5 4294000000))\<lparr>sr_packetsCount := 3\<rparr>)\<rparr>"

theorem validator_rejects_before_wrap_witness:
  "snd (ValidatePacket id (Some (sample_packet 6 4294003000)) late_validator) = Some ErrTimestampJump"
  by (rule validator_rejects_before_wrap [of _ _ "(new_tracker (sample_packet 5 4294000000))\<lparr>sr_packetsCount := 3\<rparr>"])
    (simp_all add: late_validator_def NewValidator_def sample_well_formed,
     simp_all add: sample_packet_def new_tracker_def seq_gap_def DefaultValidatorConfig_def)

section \<open>Fragment assembly\<close>

fun fv_run :: "(nanos \<times> FragmentInfo) list \<Rightarrow> FragmentValidator \<Rightarrow> FragmentState \<Rightarrow> FragmentState \<times> fragment_error option list" where
  "fv_run [] v st = (st, [])"
| "fv_run ((now, f) # fs) v st =
     (let (st, e) = AddFragment now f v st; (st, es) = fv_run fs v st in (st, e # es))"

definition fragment_step :: "FragmentInfo \<Rightarrow> FragmentInfo \<Rightarrow> bool" where
  "fragment_step f g \<longleftrightarrow>
     0 < fv_sequenceDistance (fi_SequenceNumber g) (fi_SequenceNumber f) \<and>
     fv_sequenceDistance (fi_SequenceNumber g) (fi_SequenceNumber f) \<le> 5"

definition fs_inv :: "FragmentState \<Rightarrow> bool" where
  "fs_inv st \<longleftrightarrow> successively fragment_step (fs_fragments st) \<and> fs_totalSize st = sum_list (map fi_Size (fs_fragments st)) \<and>
     list_all (\<lambda>f. fi_Size f \<le> MaxFragmentSize) (fs_fragments st) \<and>
     (fs_fragments st \<noteq> [] \<longrightarrow> fs_lastSequence st = fi_SequenceNumber (last (fs_fragments st)))"

lemma AddFragment_inv:
  assumes "fs_inv st" and "AddFragment now f NewFragmentValidator st = (st', e)"
  shows "fs_inv st' \<and> (e = None \<longrightarrow> length (fs_fragments st') \<le> 1000 \<and> fs_totalSize st' \<le> MaxNALUnitSize)"
  using assms
  by (auto simp: AddFragment_def ValidateFragment_def ValidateSequence_def ValidateAssembly_def NewFragmentValidator_def
      fs_inv_def Let_def successively_append_iff fragment_step_def split: if_splits)

text \<open>What the fragment validator collects is an ordered fragment run: whatever fragments arrive, those it
  keeps have strictly increasing sequence numbers, modulo wrap-around, with gaps of at most five, none is
  oversized, the size is their sum, and while it reports no error they are at most a thousand and fit the
  largest unit.\<close>

theorem fragments_in_order:
  assumes "fv_run (fs @ [(now, f)]) NewFragmentValidator (NewFragmentState t0) = (st, es)"
  shows "successively (\<lambda>f g. 0 < sint (fi_SequenceNumber g - fi_SequenceNumber f) \<and>
      sint (fi_SequenceNumber g - fi_SequenceNumber f) \<le> 5) (fs_fragments st) \<and>
    fs_totalSize st = sum_list (map fi_Size (fs_fragments st)) \<and>
    list_all (\<lambda>f. fi_Size f \<le> MaxFragmentSize) (fs_fragments st) \<and>
    (last es = None \<longrightarrow> length (fs_fragments st) \<le> 1000 \<and> fs_totalSize st \<le> MaxNALUnitSize)"
proof -
  have run: "fs_inv st' \<and> (last es' = None \<longrightarrow> length (fs_fragments st') \<le> 1000 \<and> fs_totalSize st' \<le> MaxNALUnitSize)"
    if "fs_inv st" "fv_run (xs @ [(now, f)]) NewFragmentValidator st = (st', es')" for xs st st' es'
    using that
  proof (induction xs arbitrary: st es')
    case Nil
    obtain e where "AddFragment now f NewFragmentValidator st = (st', e)" "es' = [e]"
      using Nil.prems(2) by (auto simp: case_prod_beta Let_def prod_eq_iff)
    then show ?case using AddFragment_inv [OF Nil.prems(1)] by auto
  next
    case (Cons x xs)
    obtain t g where x: "x = (t, g)" by (cases x)
    obtain st1 e where a: "AddFragment t g NewFragmentValidator st = (st1, e)" by fastforce
    obtain st2 es2 where b: "fv_run (xs @ [(now, f)]) NewFragmentValidator st1 = (st2, es2)" by fastforce
    have "es2 \<noteq> []" using b by (cases xs) (auto simp: case_prod_beta Let_def)
    then show ?case using Cons.IH [of st1 es2] AddFragment_inv [OF Cons.prems(1) a] Cons.prems(2) b by (auto simp: x a)
  qed
  have "fs_inv (NewFragmentState t0)" by (simp add: fs_inv_def NewFragmentState_def)
  from run [OF this assms] show ?thesis
    by (auto simp: fs_inv_def fragment_step_def [abs_def] fv_sequenceDistance_def)
qed

theorem fragments_in_order_witness:
  "let f = (\<lambda>s. \<lparr>fi_SequenceNumber = s, fi_Timestamp = 0, fi_Size = 100, fi_IsStart = False, fi_IsEnd = False\<rparr>);
       st = fst (fv_run ([(0, f 65535), (1, f 0)] @ [(2, f 2)]) NewFragmentValidator (NewFragmentState 0))
   in fs_totalSize st = sum_list (map fi_Size (fs_fragments st)) \<and> fs_totalSize st = 300"
  unfolding Let_def
  by (rule conjI, rule fragments_in_order [THEN conjunct2, THEN conjunct1], rule prod.collapse [symmetric])
    (simp add: AddFragment_def ValidateFragment_def ValidateSequence_def ValidateAssembly_def NewFragmentValidator_def
      NewFragmentState_def fv_sequenceDistance_def MaxFragmentSize_def MaxNALUnitSize_def second_def)

end
