(* ===== verification/Bit_Writer.thy ===== *)
theory Bit_Writer
  imports Bit_Reader
begin

unbundle bit_operations_syntax

text \<open>
  The bit reader and the bit writer of \<^verbatim>\<open>internal/ingestion/types/h264_parser.go\<close>.  The reader is a second
  implementation beside the one of \<open>Bit_Reader\<close>, with the same three fields; it is shown to agree with it.  The
  writer appends bits to its abstract bit sequence, and what it writes as Exp-Golomb codes is read back.
\<close>

section \<open>The reader\<close>

datatype tb_error =
    TB_EndOfData | TB_InvalidCount int | TB_Insufficient int int | TB_TooManyZeros nat
  | TB_BaseOverflow | TB_SignedOverflow

definition tb_ReadBit :: "BitReader \<Rightarrow> BitReader \<times> (tb_error + byte)" where
  "tb_ReadBit br =
     (if br_bytePos br \<ge> length (br_data br) then (br, Inl TB_EndOfData)
      else
        (let b = drop_bit (7 - br_bitPos br) (br_data br ! br_bytePos br) AND 1;
             br = br\<lparr>br_bitPos := br_bitPos br + 1\<rparr>;
             br = (if br_bitPos br \<ge> 8 then br\<lparr>br_bitPos := 0, br_bytePos := br_bytePos br + 1\<rparr> else br)
         in (br, Inr b)))"

fun tb_ReadBits_loop :: "nat \<Rightarrow> u32 \<Rightarrow> BitReader \<Rightarrow> BitReader \<times> (tb_error + u32)" where
  "tb_ReadBits_loop 0 result br = (br, Inr result)"
| "tb_ReadBits_loop (Suc n) result br =
     (case tb_ReadBit br of
        (br, Inl e) \<Rightarrow> (br, Inl e)
      | (br, Inr b) \<Rightarrow> tb_ReadBits_loop n (push_bit 1 result OR ucast b) br)"

definition tb_ReadBits :: "int \<Rightarrow> BitReader \<Rightarrow> BitReader \<times> (tb_error + u32)" where
  "tb_ReadBits n br =
     (if n < 0 \<or> n > 32 then (br, Inl (TB_InvalidCount n))
      else if n = 0 then (br, Inr 0)
      else
        (let bitsRemaining = (int (length (br_data br)) - int (br_bytePos br)) * 8 - int (br_bitPos br)
         in if n > bitsRemaining then (br, Inl (TB_Insufficient n bitsRemaining))
            else tb_ReadBits_loop (nat n) 0 br))"

definition tb_GetBitPosition :: "BitReader \<Rightarrow> nat" where
  "tb_GetBitPosition br = br_bytePos br * 8 + br_bitPos br"

definition tb_SeekToBit :: "nat \<Rightarrow> BitReader \<Rightarrow> BitReader" where
  "tb_SeekToBit bitPos br = br\<lparr>br_bytePos := bitPos div 8, br_bitPos := bitPos mod 8\<rparr>"

definition tb_HasMoreBits :: "BitReader \<Rightarrow> bool" where
  "tb_HasMoreBits br \<longleftrightarrow> br_bytePos br < length (br_data br)"

function tb_leadingZeros :: "nat \<Rightarrow> BitReader \<Rightarrow> BitReader \<times> (tb_error + nat)" where
  "tb_leadingZeros zeros br =
     (case tb_ReadBit br of
        (br, Inl e) \<Rightarrow> (br, Inl e)
      | (br, Inr b) \<Rightarrow>
          if b = 1 then (br, Inr zeros)
          else if zeros + 1 > 31 then (br, Inl (TB_TooManyZeros (zeros + 1)))
          else tb_leadingZeros (zeros + 1) br)"
  by pat_completeness auto
termination
  by (relation "measure (\<lambda>(zeros, br). 32 - zeros)") auto

declare tb_leadingZeros.simps [simp del]

definition tb_ReadUE :: "BitReader \<Rightarrow> BitReader \<times> (tb_error + u32)" where
  "tb_ReadUE br =
     (case tb_leadingZeros 0 br of
        (br, Inl e) \<Rightarrow> (br, Inl e)
      | (br, Inr leadingZeros) \<Rightarrow>
          if leadingZeros = 0 then (br, Inr 0)
          else (case tb_ReadBits (int leadingZeros) br of
                  (br, Inl e) \<Rightarrow> (br, Inl e)
                | (br, Inr suffix) \<Rightarrow>
                    let base = push_bit leadingZeros 1
                    in if base = 0 then (br, Inl TB_BaseOverflow) else (br, Inr (base - 1 + suffix))))"

definition tb_ReadSE :: "BitReader \<Rightarrow> BitReader \<times> (tb_error + int)" where
  "tb_ReadSE br =
     (case tb_ReadUE br of
        (br, Inl e) \<Rightarrow> (br, Inl e)
      | (br, Inr ue) \<Rightarrow>
          if ue = 0 then (br, Inr 0)
          else if ue > 0xFFFFFFFE then (br, Inl TB_SignedOverflow)
          else if ue mod 2 = 1 then (br, Inr (sint ((ue + 1) div 2 :: 32 word)))
          else (br, Inr (sint (- (ue div 2) :: 32 word))))"

section \<open>The writer\<close>

record BitWriter =
  bw_data :: "byte list"
  bw_bytePos :: nat
  bw_bitPos :: nat

definition NewBitWriter :: BitWriter where
  "NewBitWriter = \<lparr>bw_data = [], bw_bytePos = 0, bw_bitPos = 0\<rparr>"

definition WriteBit :: "byte \<Rightarrow> BitWriter \<Rightarrow> BitWriter" where
  "WriteBit b bw =
     (let d = bw_data bw @ replicate (bw_bytePos bw + 1 - length (bw_data bw)) 0;
          d = (if b AND 1 = 1
               then d[bw_bytePos bw := d ! bw_bytePos bw OR push_bit (7 - bw_bitPos bw) 1] else d);
          bw = bw\<lparr>bw_data := d, bw_bitPos := bw_bitPos bw + 1\<rparr>
      in if bw_bitPos bw \<ge> 8 then bw\<lparr>bw_bitPos := 0, bw_bytePos := bw_bytePos bw + 1\<rparr> else bw)"

fun WriteBits :: "u32 \<Rightarrow> nat \<Rightarrow> BitWriter \<Rightarrow> BitWriter" where
  "WriteBits v 0 bw = bw"
| "WriteBits v (Suc i) bw = WriteBits v i (WriteBit (ucast (drop_bit i v AND 1)) bw)"

function ue_width :: "u32 \<Rightarrow> nat" where
  "ue_width temp = (if temp > 1 then ue_width (drop_bit 1 temp) + 1 else 0)"
  by pat_completeness auto
termination
proof (relation "measure unat")
  fix t :: u32 assume "1 < t"
  then have "0 < unat t" by (simp add: word_less_nat_alt)
  then show "(drop_bit 1 t, t) \<in> measure unat" by (simp add: drop_bit_eq_div unat_div)
qed simp

declare ue_width.simps [simp del]

definition WriteUE :: "u32 \<Rightarrow> BitWriter \<Rightarrow> BitWriter" where
  "WriteUE v bw =
     (if v = 0 then WriteBit 1 bw
      else
        (let leadingZeros = ue_width (v + 1);
             bw = (WriteBit 0 ^^ leadingZeros) bw
         in WriteBits (v + 1) (leadingZeros + 1) bw))"

definition WriteSE :: "32 word \<Rightarrow> BitWriter \<Rightarrow> BitWriter" where
  "WriteSE v bw = (if sint v \<le> 0 then WriteUE (- v * 2) bw else WriteUE (v * 2 - 1) bw)"

definition GetBytes :: "BitWriter \<Rightarrow> byte list" where
  "GetBytes bw =
     (if bw_bitPos bw > 0
      then take (bw_bytePos bw + 1) (bw_data bw @ replicate (bw_bytePos bw + 1 - length (bw_data bw)) 0)
      else take (bw_bytePos bw) (bw_data bw))"

section \<open>The two readers agree\<close>

definition same_answer :: "'a + 'b \<Rightarrow> 'c + 'b \<Rightarrow> bool" where
  "same_answer x y \<longleftrightarrow> (case (x, y) of (Inr a, Inr b) \<Rightarrow> a = b | (Inl _, Inl _) \<Rightarrow> True | _ \<Rightarrow> False)"

lemma same_answer_simps [simp]:
  "same_answer (Inl e) (Inl e')" "same_answer (Inr a) (Inr b) \<longleftrightarrow> a = b"
  "\<not> same_answer (Inl e) (Inr b)" "\<not> same_answer (Inr a) (Inl e')"
  by (simp_all add: same_answer_def)

lemma ucast_of_bool [simp]: "ucast (of_bool b :: byte) = (of_bool b :: u32)"
  by (cases b) simp_all

lemma ucast_of_bool_eq [simp]: "ucast (of_bool b :: byte) = (1 :: u32) \<longleftrightarrow> b" "ucast (of_bool b :: byte) = (0 :: u32) \<longleftrightarrow> \<not> b"
  by (cases b; simp)+

lemma tb_ReadBit_rest:
  assumes "br_inv br"
  shows "case br_rest br of
      [] \<Rightarrow> tb_ReadBit br = (br, Inl TB_EndOfData) \<and> br_ReadBit br = (br, Inl EndOfData)
    | b # bs \<Rightarrow> (\<exists>br'. tb_ReadBit br = (br', Inr (of_bool b)) \<and> br_ReadBit br = (br', Inr (of_bool b)) \<and>
        br_inv br' \<and> br_rest br' = bs)"
proof (cases "br_rest br")
  case Nil
  then have "br_bytePos br \<ge> length (br_data br)" using assms length_br_rest [of br] by (auto simp: br_inv_def)
  then show ?thesis using Nil by (simp add: tb_ReadBit_def br_ReadBit_def)
next
  case (Cons b bs)
  obtain br' where 1: "br_ReadBit br = (br', Inr (of_bool b))" "br_inv br'" "br_rest br' = bs"
    by (rule br_ReadBit_Cons [OF assms Cons])
  have "tb_ReadBit br = (br', Inr (of_bool b))"
    using 1(1) assms by (auto simp: tb_ReadBit_def br_ReadBit_def br_inv_def Let_def low_bit split: if_splits)
  then show ?thesis using 1 Cons by simp
qed

lemma tb_ReadBits_loop_agrees:
  assumes "br_inv br" and "n \<le> length (br_rest br)"
  shows "\<exists>br' w. tb_ReadBits_loop n r br = (br', Inr w) \<and> br_ReadBits_loop n r br = (br', Inr w)"
  using assms
proof (induction n arbitrary: r br)
  case (Suc n)
  obtain b bs where rest: "br_rest br = b # bs" using Suc.prems(2) by (cases "br_rest br") auto
  obtain br' where 1: "tb_ReadBit br = (br', Inr (of_bool b))" "br_ReadBit br = (br', Inr (of_bool b))"
      "br_inv br'" "br_rest br' = bs"
    using tb_ReadBit_rest [OF Suc.prems(1)] rest by auto
  then show ?case using 1 Suc.IH [OF 1(3)] Suc.prems(2) rest by simp
qed simp

lemma tb_ReadBits_agrees:
  assumes "br_inv br" and "0 \<le> n" and "n \<le> 32"
  shows "same_answer (snd (tb_ReadBits n br)) (snd (br_ReadBits n br)) \<and> fst (tb_ReadBits n br) = fst (br_ReadBits n br)"
proof -
  let ?avail = "(int (length (br_data br)) - int (br_bytePos br)) * 8 - int (br_bitPos br)"
  have avail: "?avail = int (length (br_rest br))"
    using assms(1) length_br_rest [of br] by (auto simp: br_inv_def)
  show ?thesis
  proof (cases "n \<le> ?avail \<and> n \<noteq> 0")
    case True
    then have "nat n \<le> length (br_rest br)" using avail assms(2) by linarith
    from tb_ReadBits_loop_agrees [OF assms(1) this, of 0] show ?thesis
      using True assms(2,3) by (auto simp: tb_ReadBits_def br_ReadBits_def Let_def)
  next
    case False
    then show ?thesis using assms(2,3) avail by (auto simp: tb_ReadBits_def br_ReadBits_def Let_def)
  qed
qed

lemma tb_leadingZeros_agrees:
  "br_inv br \<Longrightarrow> z \<le> 31 \<Longrightarrow>
   same_answer (snd (tb_leadingZeros z br)) (snd (br_leadingZeros z br)) \<and> fst (tb_leadingZeros z br) = fst (br_leadingZeros z br)"
proof (induction z br rule: br_leadingZeros.induct)
  case (1 z br)
  show ?case
  proof (cases "br_rest br")
    case Nil
    then show ?thesis using tb_ReadBit_rest [OF "1.prems"(1)]
      unfolding tb_leadingZeros.simps [of z br] br_leadingZeros.simps [of z br] by (simp add: Nil)
  next
    case (Cons b bs)
    obtain br' where r: "tb_ReadBit br = (br', Inr (of_bool b))" "br_ReadBit br = (br', Inr (of_bool b))"
      "br_inv br'" using tb_ReadBit_rest [OF "1.prems"(1)] Cons by auto
    show ?thesis
    proof (cases "b \<or> z + 1 > 31")
      case True
      then show ?thesis using r unfolding tb_leadingZeros.simps [of z br] br_leadingZeros.simps [of z br] by auto
    next
      case False
      have "same_answer (snd (tb_leadingZeros (z + 1) br')) (snd (br_leadingZeros (z + 1) br')) \<and>
         fst (tb_leadingZeros (z + 1) br') = fst (br_leadingZeros (z + 1) br')"
        using "1.IH" [OF r(2) [symmetric] refl _ _ r(3)] False by auto
      moreover have "tb_leadingZeros z br = tb_leadingZeros (z + 1) br'" "br_leadingZeros z br = br_leadingZeros (z + 1) br'"
        using False r unfolding tb_leadingZeros.simps [of z br] br_leadingZeros.simps [of z br] by auto
      ultimately show ?thesis by simp
    qed
  qed
qed


lemma push_bit_1_nonzero: "k \<le> 31 \<Longrightarrow> push_bit k (1::u32) \<noteq> 0"
proof -
  assume "k \<le> 31"
  then have "bit (push_bit k (1::u32)) k" by (simp add: bit_push_bit_iff del: push_bit_of_1)
  then show ?thesis by (metis bit_0_eq bot_apply bot_bool_def)
qed

lemma tb_ReadUE_agrees:
  assumes "br_inv br"
  shows "same_answer (snd (tb_ReadUE br)) (snd (br_ReadUE br)) \<and> fst (tb_ReadUE br) = fst (br_ReadUE br)"
proof -
  note z = tb_leadingZeros_agrees [OF assms, of 0]
  show ?thesis
  proof (cases "br_leadingZeros 0 br")
    case (Pair br1 r)
    obtain r' where r': "tb_leadingZeros 0 br = (br1, r')" "same_answer r' r" using z Pair by (cases "tb_leadingZeros 0 br") auto
    show ?thesis
    proof (cases r)
      case (Inl e)
      then show ?thesis using r' Pair by (cases r') (simp_all add: tb_ReadUE_def br_ReadUE_def)
    next
      case (Inr k)
      then have k: "k \<le> 31" "br_inv br1" and tk: "r' = Inr k"
        using br_leadingZeros_result [OF assms, of 0 br1 k] Pair r'(2) by (auto simp: same_answer_def split: sum.splits)
      have "same_answer (snd (tb_ReadBits (int k) br1)) (snd (br_ReadBits (int k) br1)) \<and>
          fst (tb_ReadBits (int k) br1) = fst (br_ReadBits (int k) br1)"
        using tb_ReadBits_agrees [OF k(2), of "int k"] k(1) by simp
      then show ?thesis using Pair Inr tk r'(1) push_bit_1_nonzero [OF k(1)]
        by (cases "k = 0") (auto simp: tb_ReadUE_def br_ReadUE_def same_answer_def Let_def split: prod.splits sum.splits)
    qed
  qed
qed

lemma tb_ReadUE_Inr_iff: "br_inv br \<Longrightarrow> tb_ReadUE br = (br', Inr w) \<longleftrightarrow> br_ReadUE br = (br', Inr w)"
  using tb_ReadUE_agrees [of br] by (cases "tb_ReadUE br"; cases "br_ReadUE br") (auto simp: same_answer_def split: sum.splits)

lemma tb_ReadUE_code:
  assumes "br_inv br" and "br_rest br = ue_code v @ rest" and "v < 2 ^ 32 - 1"
  shows "\<exists>br'. tb_ReadUE br = (br', Inr (of_nat v)) \<and> br_inv br' \<and> br_rest br' = rest"
proof -
  obtain br' w where "br_ReadUE br = (br', Inr w)" "unat w = v" "br_inv br'" "br_rest br' = rest"
    using br_ReadUE_code [OF assms] by blast
  moreover have "of_nat (unat w) = w" by simp
  ultimately show ?thesis using tb_ReadUE_Inr_iff [OF assms(1)] by metis
qed

lemma tb_ReadBits_code:
  assumes "br_inv br" and "br_rest br = bs @ rest" and "length bs \<le> 32"
  shows "\<exists>br'. tb_ReadBits (int (length bs)) br = (br', Inr (of_nat (bits_val bs))) \<and> br_inv br' \<and> br_rest br' = rest"
proof -
  obtain br' w where w: "br_ReadBits (int (length bs)) br = (br', Inr w)" "br_inv br'" "br_rest br' = rest" "unat w = bits_val bs"
    using br_ReadBits_rest [OF assms] by blast
  then have "w = of_nat (bits_val bs)" by (metis of_nat_unat ucast_id)
  moreover have "tb_ReadBits (int (length bs)) br = (br', Inr w)"
    using tb_ReadBits_agrees [OF assms(1), of "int (length bs)"] assms(3) w(1)
    by (cases "tb_ReadBits (int (length bs)) br") (auto simp: same_answer_def split: sum.splits)
  ultimately show ?thesis using w by blast
qed

section \<open>What the writer holds\<close>

definition bw_inv :: "bool list \<Rightarrow> BitWriter \<Rightarrow> bool" where
  "bw_inv bs bw \<longleftrightarrow> bw_bitPos bw < 8 \<and> length bs = 8 * bw_bytePos bw + bw_bitPos bw \<and>
     length (bw_data bw) = bw_bytePos bw + of_bool (bw_bitPos bw > 0) \<and>
     bits_of (bw_data bw) = bs @ replicate (8 * length (bw_data bw) - length bs) False"

lemma bits_of_append [simp]: "bits_of (xs @ ys) = bits_of xs @ bits_of ys"
  by (simp add: bits_of_def)

lemma bits_of_zeros: "bits_of (replicate n 0) = replicate (8 * n) False"
proof (induction n)
  case (Suc n)
  have "byte_bits 0 = replicate 8 False" by (simp add: byte_bits_def map_replicate_const)
  then show ?case using Suc by (simp add: bits_of_def replicate_add)
qed (simp add: bits_of_def)

lemma bits_of_set_bit:
  assumes "i < length data" and "j < 8"
  shows "bits_of (data[i := data ! i OR push_bit (7 - j) 1]) = (bits_of data)[8 * i + j := True]"
proof (rule nth_equalityI)
  fix p assume "p < length (bits_of (data[i := data ! i OR push_bit (7 - j) 1]))"
  then have p: "p < 8 * length data" by simp
  have "p = 8 * i + j \<longleftrightarrow> p div 8 = i \<and> p mod 8 = j" using assms(2) by auto
  moreover have "7 - p mod 8 = 7 - j \<longleftrightarrow> p mod 8 = j" using assms(2) by auto
  ultimately show "bits_of (data[i := data ! i OR push_bit (7 - j) 1]) ! p = (bits_of data)[8 * i + j := True] ! p"
    using p assms by (auto simp: nth_bits_of nth_list_update bit_simps)
qed simp

lemma bw_inv_New: "bw_inv [] NewBitWriter"
  by (simp add: bw_inv_def NewBitWriter_def bits_of_def)

lemma low_bit_byte: "(w::byte) AND 1 = 1 \<longleftrightarrow> bit w 0"
  by (simp add: low_bit)

lemma WriteBit_appends:
  assumes "bw_inv bs bw"
  shows "bw_inv (bs @ [bit b 0]) (WriteBit b bw)"
proof -
  let ?B = "bw_bytePos bw" and ?j = "bw_bitPos bw"
  define d where "d = bw_data bw @ replicate (?B + 1 - length (bw_data bw)) 0"
  have j: "?j < 8" and len: "length bs = 8 * ?B + ?j" and ld: "length d = ?B + 1"
    using assms by (auto simp: bw_inv_def d_def)
  have le: "length bs \<le> 8 * length (bw_data bw)" using assms by (auto simp: bw_inv_def)
  have eq: "8 * length (bw_data bw) - length bs + 8 * (?B + 1 - length (bw_data bw)) = 8 * (?B + 1) - length bs"
    using assms le by (auto simp: bw_inv_def)
  have bits: "bits_of d = bs @ replicate (8 * (?B + 1) - length bs) False"
    using assms by (simp add: d_def bits_of_zeros bw_inv_def flip: eq replicate_add)
  also have "8 * (?B + 1) - length bs = Suc (7 - ?j)" using len j by simp
  finally have bits: "bits_of d = bs @ False # replicate (7 - ?j) False" by simp
  have upd: "bits_of (d[?B := d ! ?B OR push_bit (7 - ?j) 1]) = bs @ True # replicate (7 - ?j) False"
    using bits_of_set_bit [of ?B d ?j] ld j bits len by (simp add: list_update_append)
  have wd: "bw_data (WriteBit b bw) = (if bit b 0 then d[?B := d ! ?B OR push_bit (7 - ?j) 1] else d)"
    by (simp add: WriteBit_def Let_def low_bit_byte d_def)
  have new: "bits_of (bw_data (WriteBit b bw)) = bs @ bit b 0 # replicate (7 - ?j) False" "length (bw_data (WriteBit b bw)) = ?B + 1"
    unfolding wd using upd bits ld by (cases "bit b 0"; simp only: if_True if_False length_list_update)+
  show ?thesis
    using j len new by (cases "?j = 7") (simp_all add: bw_inv_def, simp_all add: WriteBit_def Let_def)
qed

lemma WriteZeros_appends: "bw_inv bs bw \<Longrightarrow> bw_inv (bs @ replicate n False) ((WriteBit 0 ^^ n) bw)"
proof (induction n)
  case (Suc n)
  then show ?case using WriteBit_appends [of "bs @ replicate n False" "(WriteBit 0 ^^ n) bw" 0]
    by (simp add: replicate_append_same)
qed simp

lemma to_bits_Suc_mod: "to_bits (Suc n) (x mod 2 ^ Suc n) = bit x n # to_bits n (x mod 2 ^ n)"
proof -
  define y where "y = x mod 2 ^ Suc n"
  have "y < 2 * 2 ^ n" by (simp add: y_def)
  then have "odd (y div 2 ^ n) \<longleftrightarrow> y \<ge> 2 ^ n"
    using div_nat_eqI [of "2 ^ n" 1 y] by (cases "y \<ge> 2 ^ n") simp_all
  moreover have "bit x n \<longleftrightarrow> bit y n" unfolding y_def by (simp only: bit_take_bit_iff flip: take_bit_eq_mod) simp
  moreover have "y mod 2 ^ n = x mod 2 ^ n" unfolding y_def by (simp add: mod_mod_cancel)
  ultimately show ?thesis unfolding y_def [symmetric] by (simp add: bit_iff_odd)
qed

lemma WriteBits_appends: "bw_inv bs bw \<Longrightarrow> bw_inv (bs @ to_bits n (unat v mod 2 ^ n)) (WriteBits v n bw)"
proof (induction n arbitrary: bs bw)
  case (Suc n)
  let ?b = "ucast (drop_bit n v AND 1) :: byte"
  have b: "bit ?b 0 = bit (unat v) n" by (simp add: bit_simps bit_unsigned_iff)
  have "bw_inv ((bs @ [bit (unat v) n]) @ to_bits n (unat v mod 2 ^ n)) (WriteBits v n (WriteBit ?b bw))"
    using Suc.IH [OF WriteBit_appends [OF Suc.prems, of ?b]] unfolding b .
  then show ?case unfolding to_bits_Suc_mod by simp
qed simp

lemma ue_width_log2: "ue_width v = log2 (unat v)"
proof (induction v rule: ue_width.induct)
  case (1 v)
  have "v > 1 \<longleftrightarrow> \<not> unat v < 2" by (simp add: word_less_nat_alt not_less Suc_le_eq numeral_2_eq_2)
  moreover have "unat (drop_bit 1 v) = unat v div 2" by (simp add: drop_bit_eq_div unat_div)
  ultimately show ?case using "1.IH" unfolding ue_width.simps [of v] log2.simps [of "unat v"] by simp
qed

lemma WriteUE_appends:
  assumes "bw_inv bs bw" and "unat v < 2 ^ 32 - 1"
  shows "bw_inv (bs @ ue_code (unat v)) (WriteUE v bw)"
proof (cases "v = 0")
  case True
  have "ue_code 0 = [True]" by (simp add: ue_code_def log2.simps)
  then show ?thesis using WriteBit_appends [OF assms(1), of 1] True by (simp add: WriteUE_def)
next
  case False
  define k where "k = log2 (unat v + 1)"
  have u: "unat (v + 1) = unat v + 1" using assms(2) by (simp add: unat_word_ariths)
  have k: "2 ^ k \<le> unat v + 1" "unat v + 1 < 2 * 2 ^ k" using log2_bounds [of "unat v + 1"] by (simp_all add: k_def)
  have "bw_inv ((bs @ replicate k False) @ to_bits (k + 1) (unat (v + 1) mod 2 ^ (k + 1)))
      (WriteBits (v + 1) (k + 1) ((WriteBit 0 ^^ k) bw))"
    by (intro WriteBits_appends WriteZeros_appends assms(1))
  moreover have "to_bits (k + 1) (unat (v + 1) mod 2 ^ (k + 1)) = True # to_bits k (unat v + 1 - 2 ^ k)"
  proof -
    have "(unat v + 1) mod 2 ^ k = unat v + 1 - 2 ^ k"
      using k by (simp add: le_mod_geq)
    then show ?thesis using k u by simp
  qed
  moreover have "ue_code (unat v) = replicate k False @ True # to_bits k (unat v + 1 - 2 ^ k)"
    by (simp only: ue_code_def Let_def k_def)
  moreover have "WriteUE v bw = WriteBits (v + 1) (k + 1) ((WriteBit 0 ^^ k) bw)"
    using False by (simp only: WriteUE_def Let_def ue_width_log2 u k_def if_False)
  ultimately show ?thesis by simp
qed

lemma GetBytes_bits:
  assumes "bw_inv bs bw"
  shows "\<exists>n. n < 8 \<and> bits_of (GetBytes bw) = bs @ replicate n False"
proof (cases "bw_bitPos bw > 0")
  case True
  then have "GetBytes bw = bw_data bw" using assms by (simp add: GetBytes_def bw_inv_def)
  then show ?thesis using assms True by (intro exI [of _ "8 - bw_bitPos bw"]) (auto simp: bw_inv_def)
next
  case False
  then have "GetBytes bw = bw_data bw" using assms by (simp add: GetBytes_def bw_inv_def)
  then show ?thesis using assms False by (intro exI [of _ 0]) (auto simp: bw_inv_def)
qed


section \<open>Properties\<close>

text \<open>The two bit readers of the program, one per package, agree: on every reader state each of \<^verbatim>\<open>ReadUE\<close>
  and \<^verbatim>\<open>ReadBits\<close> leaves the same state, and either both fail or both return the same number.\<close>

theorem bit_readers_agree:
  assumes "br_inv br" and "0 \<le> n" and "n \<le> 32"
  shows "same_answer (snd (tb_ReadUE br)) (snd (br_ReadUE br)) \<and> fst (tb_ReadUE br) = fst (br_ReadUE br) \<and>
    same_answer (snd (tb_ReadBits n br)) (snd (br_ReadBits n br)) \<and> fst (tb_ReadBits n br) = fst (br_ReadBits n br)"
  using tb_ReadUE_agrees [OF assms(1)] tb_ReadBits_agrees [OF assms] by simp

theorem bit_readers_agree_witness:
  "fst (tb_ReadUE (NewBitReader [0xA6, 0x01])) = fst (br_ReadUE (NewBitReader [0xA6, 0x01]))"
  using bit_readers_agree [of "NewBitReader [0xA6, 0x01]" 0] br_inv_New(1) by simp

primrec write_ues :: "u32 list \<Rightarrow> BitWriter \<Rightarrow> BitWriter" where
  "write_ues [] bw = bw"
| "write_ues (v # vs) bw = write_ues vs (WriteUE v bw)"

primrec read_ues :: "nat \<Rightarrow> BitReader \<Rightarrow> (tb_error + u32) list" where
  "read_ues 0 br = []"
| "read_ues (Suc n) br = (case tb_ReadUE br of (br', r) \<Rightarrow> r # read_ues n br')"

lemma write_ues_appends:
  "bw_inv bs bw \<Longrightarrow> \<forall>v \<in> set vs. unat v < 2 ^ 32 - 1 \<Longrightarrow>
   bw_inv (bs @ concat (map (\<lambda>v. ue_code (unat v)) vs)) (write_ues vs bw)"
proof (induction vs arbitrary: bs bw)
  case (Cons v vs)
  have "bw_inv (bs @ ue_code (unat v)) (WriteUE v bw)" using WriteUE_appends [OF Cons.prems(1)] Cons.prems(2) by simp
  from Cons.IH [OF this] Cons.prems(2) show ?case by simp
qed simp

lemma read_ues_codes:
  "br_inv br \<Longrightarrow> br_rest br = concat (map (\<lambda>v. ue_code (unat v)) vs) @ rest \<Longrightarrow> \<forall>v \<in> set vs. unat v < 2 ^ 32 - 1 \<Longrightarrow>
   read_ues (length vs) br = map Inr vs"
proof (induction vs arbitrary: br)
  case (Cons v vs)
  obtain br' where "tb_ReadUE br = (br', Inr (of_nat (unat v)))" "br_inv br'"
      "br_rest br' = concat (map (\<lambda>v. ue_code (unat v)) vs) @ rest"
    using tb_ReadUE_code [OF Cons.prems(1), of "unat v"] Cons.prems(2,3) by auto
  then show ?case using Cons.IH [of br'] Cons.prems(3) by simp
qed simp

text \<open>C30: Everything the writer emits is read back: after any sequence of unsigned codes (of values below the
  largest, whose code the reader refuses) the reader returns them one by one, whatever was written before the
  first of them is skipped.\<close>

theorem golomb_write_read:
  assumes "\<forall>v \<in> set vs. v \<noteq> 0xFFFFFFFF" and "n \<le> 32"
  shows "read_ues (length vs) (fst (tb_ReadBits (int n) (NewBitReader (GetBytes (write_ues vs (WriteBits w n NewBitWriter)))))) =
    map Inr vs"
proof -
  have small: "\<forall>v \<in> set vs. unat v < 2 ^ 32 - 1"
  proof
    fix v assume "v \<in> set vs"
    then have "unat v \<noteq> unat (0xFFFFFFFF :: u32)" using assms(1) by (metis word_unat_eq_iff)
    then show "unat v < 2 ^ 32 - 1" using unsigned_less [of v, where ?'a = nat] by simp
  qed
  define bs where "bs = to_bits n (unat w mod 2 ^ n)"
  define data where "data = GetBytes (write_ues vs (WriteBits w n NewBitWriter))"
  have "bw_inv (bs @ concat (map (\<lambda>v. ue_code (unat v)) vs)) (write_ues vs (WriteBits w n NewBitWriter))"
    using write_ues_appends [OF WriteBits_appends [OF bw_inv_New, of n w] small] by (simp add: bs_def)
  from GetBytes_bits [OF this] obtain m where
    rest: "br_rest (NewBitReader data) = bs @ concat (map (\<lambda>v. ue_code (unat v)) vs) @ replicate m False"
    by (auto simp: data_def br_inv_New(2))
  obtain br' where "tb_ReadBits (int n) (NewBitReader data) = (br', Inr (of_nat (bits_val bs)))" "br_inv br'"
      "br_rest br' = concat (map (\<lambda>v. ue_code (unat v)) vs) @ replicate m False"
    using tb_ReadBits_code [OF br_inv_New(1) rest] assms(2) by (auto simp: bs_def)
  then show ?thesis using read_ues_codes [of br' vs "replicate m False"] small by (simp add: data_def)
qed

theorem golomb_write_read_witness:
  "read_ues 3 (fst (tb_ReadBits (int 5) (NewBitReader (GetBytes (write_ues [0, 7, 4294967294] (WriteBits 21 5 NewBitWriter)))))) =
    [Inr 0, Inr 7, Inr 4294967294]"
  using golomb_write_read [of "[0, 7, 4294967294]" 5 21] by (simp add: numeral_3_eq_3)

end
