(* ===== verification/Bit_Syntax.thy ===== *)
theory Bit_Syntax
  imports Bit_Writer RBSP "HOL-Library.Signed_Division"
begin

unbundle bit_operations_syntax

text \<open>
  Reading a sequence of syntax elements from a bit reader, as the parameter set parsers do it: every read is
  followed by an early return on an error.  \<open>on_read\<close> is that step.  A syntax is a list of elements with their
  bits; the rules \<open>reads_rules\<close> let a parser consume a syntax element by element.
\<close>

definition on_read ::
  "(BitReader \<Rightarrow> BitReader \<times> ('e + 'a)) \<Rightarrow> BitReader \<Rightarrow> ('e \<Rightarrow> 'r) \<Rightarrow> ('a \<Rightarrow> BitReader \<Rightarrow> 'r) \<Rightarrow> 'r" where
  "on_read rd br fail ok = (case rd br of (_, Inl e) \<Rightarrow> fail e | (br', Inr v) \<Rightarrow> ok v br')"

text \<open>Continue with a result unless it is an error.\<close>

definition and_then :: "'e + 'a \<Rightarrow> ('a \<Rightarrow> 'e + 'b) \<Rightarrow> 'e + 'b" where
  "and_then r f = (case r of Inl e \<Rightarrow> Inl e | Inr x \<Rightarrow> f x)"

lemma and_then_simps [simp]: "and_then (Inl e) f = Inl e" "and_then (Inr x) f = f x"
  by (simp_all add: and_then_def)

text \<open>\<^verbatim>\<open>int32\<close> arithmetic wraps at 32 bits.\<close>

definition i32 :: "int \<Rightarrow> int" where
  "i32 x = signed_take_bit 31 x"

lemma i32_id [simp]: "- (2 ^ 31) \<le> x \<Longrightarrow> x < 2 ^ 31 \<Longrightarrow> i32 x = x"
  by (simp add: i32_def signed_take_bit_int_eq_self)

section \<open>Syntax elements\<close>

text \<open>Fixed-width numbers, unsigned and signed codes, as in the syntax tables of the standards.\<close>

datatype syntax_element = U nat nat | UE nat | SE int

primrec element_bits :: "syntax_element \<Rightarrow> bool list" where
  "element_bits (U n v) = to_bits n v"
| "element_bits (UE v) = ue_code v"
| "element_bits (SE i) = ue_code (se_number i)"

primrec element_ok :: "syntax_element \<Rightarrow> bool" where
  "element_ok (U n v) \<longleftrightarrow> n \<le> 32 \<and> v < 2 ^ n"
| "element_ok (UE v) \<longleftrightarrow> v < 2 ^ 32 - 1"
| "element_ok (SE i) \<longleftrightarrow> \<bar>i\<bar> < 2 ^ 31"

definition syntax_bits :: "syntax_element list \<Rightarrow> bool list" where
  "syntax_bits es = concat (map element_bits es)"

lemma syntax_bits_simps [simp]:
  "syntax_bits [] = []" "syntax_bits (e # es) = element_bits e @ syntax_bits es"
  "syntax_bits (es @ fs) = syntax_bits es @ syntax_bits fs"
  by (simp_all add: syntax_bits_def)

text \<open>A reader that has a bit sequence ahead of it.\<close>

definition reads :: "BitReader \<Rightarrow> bool list \<Rightarrow> bool" where
  "reads br bs \<longleftrightarrow> br_inv br \<and> br_rest br = bs"

lemma reads_New: "reads (NewBitReader data) (bits_of data)"
  by (simp add: reads_def br_inv_New)

named_theorems reads_rules \<open>consume the next syntax element\<close>

lemma on_ue [reads_rules]:
  assumes "reads br (ue_code v @ r)" and "v < 2 ^ 32 - 1" and "\<And>br'. reads br' r \<Longrightarrow> ok (of_nat v) br' = res"
  shows "on_read br_ReadUE br fail ok = res" and "on_read tb_ReadUE br fail' ok = res"
proof -
  obtain br' where 1: "tb_ReadUE br = (br', Inr (of_nat v))" "reads br' r"
    using tb_ReadUE_code [of br v r] assms(1,2) by (auto simp: reads_def)
  then have "br_ReadUE br = (br', Inr (of_nat v))" using tb_ReadUE_Inr_iff assms(1) by (auto simp: reads_def)
  then show "on_read br_ReadUE br fail ok = res" "on_read tb_ReadUE br fail' ok = res"
    using 1 assms(3) by (simp_all add: on_read_def)
qed

lemma on_bits [reads_rules]:
  assumes "reads br (to_bits n v @ r)" and "n \<le> 32" and "v < 2 ^ n" and "m = int n"
    and "\<And>br'. reads br' r \<Longrightarrow> ok (of_nat v) br' = res"
  shows "on_read (br_ReadBits m) br fail ok = res" and "on_read (tb_ReadBits m) br fail' ok = res"
proof -
  have rest: "br_inv br" "br_rest br = to_bits n v @ r" using assms(1) by (simp_all add: reads_def)
  obtain br' where 1: "tb_ReadBits (int n) br = (br', Inr (of_nat v))" "reads br' r"
    using tb_ReadBits_code [OF rest] assms(2,3) by (auto simp: reads_def bits_val_to_bits)
  then have "br_ReadBits (int n) br = (br', Inr (of_nat v))"
    using tb_ReadBits_agrees [OF rest(1), of "int n"] assms(2)
    by (cases "br_ReadBits (int n) br") (auto simp: same_answer_def split: sum.splits)
  then show "on_read (br_ReadBits m) br fail ok = res" "on_read (tb_ReadBits m) br fail' ok = res"
    using 1 assms(4,5) by (simp_all add: on_read_def)
qed

lemma on_bit [reads_rules]:
  assumes "reads br (to_bits 1 v @ r)" and "\<And>br'. reads br' r \<Longrightarrow> ok (of_bool (v \<ge> 1)) br' = res"
  shows "on_read br_ReadBit br fail ok = res"
proof -
  have "br_inv br" "br_rest br = (v \<ge> 1) # r" using assms(1) by (simp_all add: reads_def)
  then obtain br' where "br_ReadBit br = (br', Inr (of_bool (v \<ge> 1)))" "reads br' r"
    by (auto simp: reads_def elim: br_ReadBit_Cons)
  then show ?thesis using assms(2) by (simp add: on_read_def)
qed

lemma on_tb_bit [reads_rules]:
  assumes "reads br (to_bits 1 v @ r)" and "\<And>br'. reads br' r \<Longrightarrow> ok (of_bool (v \<ge> 1)) br' = res"
  shows "on_read tb_ReadBit br fail ok = res"
proof -
  have "br_inv br" "br_rest br = (v \<ge> 1) # r" using assms(1) by (simp_all add: reads_def)
  then obtain br' where "tb_ReadBit br = (br', Inr (of_bool (v \<ge> 1)))" "reads br' r"
    using tb_ReadBit_rest [of br] by (auto simp: reads_def)
  then show ?thesis using assms(2) by (simp add: on_read_def)
qed

lemma tb_ReadSE_eq:
  assumes "tb_ReadUE br = (br', Inr ue)" and "br_ReadUE br = (br', Inr ue)" and "unat ue < 2 ^ 32 - 1"
  shows "tb_ReadSE br = (case br_ReadSE br of (br', Inr i) \<Rightarrow> (br', Inr i) | (br', Inl _) \<Rightarrow> (br', Inl TB_SignedOverflow))"
proof -
  have "\<not> ue > 0xFFFFFFFE" using assms(3) by (simp add: word_less_nat_alt)
  moreover have "ue mod 2 = of_bool (odd ue)" by (rule mod_2_eq_odd)
  ultimately show ?thesis using assms(1,2) by (auto simp: tb_ReadSE_def br_ReadSE_def)
qed

lemma reads_se:
  assumes "reads br (ue_code (se_number i) @ r)" and "\<bar>i\<bar> < 2 ^ 31"
  shows "\<exists>br'. br_ReadSE br = (br', Inr i) \<and> tb_ReadSE br = (br', Inr i) \<and> reads br' r"
proof -
  have small: "se_number i < 2 ^ 32 - 1" using assms(2) by (auto simp: se_number_def)
  have inv: "br_inv br" "br_rest br = ue_code (se_number i) @ r" using assms(1) by (simp_all add: reads_def)
  obtain br1 w where 1: "br_ReadUE br = (br1, Inr w)" "unat w = se_number i" "br_inv br1" "br_rest br1 = r"
    using br_ReadUE_code [OF inv small] by blast
  then have se: "br_ReadSE br = (br1, Inr i)"
    using se_decode [OF assms(2), of w] by (auto simp: br_ReadSE_def split: if_splits)
  moreover have "tb_ReadSE br = (br1, Inr i)"
    using tb_ReadSE_eq [of br br1 w] tb_ReadUE_Inr_iff [OF inv(1)] 1 small se by simp
  ultimately show ?thesis using 1 by (simp add: reads_def)
qed

lemma on_se [reads_rules]:
  assumes "reads br (ue_code (se_number i) @ r)" and "\<bar>i\<bar> < 2 ^ 31" and "\<And>br'. reads br' r \<Longrightarrow> ok i br' = res"
  shows "on_read br_ReadSE br fail ok = res" and "on_read tb_ReadSE br fail' ok = res"
  using reads_se [OF assms(1,2)] assms(3) by (auto simp: on_read_def)

text \<open>A continuation after a step moves into the step.\<close>

lemma and_then_on_read [simp]:
  "and_then (on_read rd br (\<lambda>e. Inl (fail e)) ok) k = on_read rd br (\<lambda>e. Inl (fail e)) (\<lambda>v br. and_then (ok v br) k)"
  by (simp add: on_read_def split: prod.splits sum.splits)

lemma and_then_if [simp]: "and_then (if b then x else y) k = (if b then and_then x k else and_then y k)"
  by simp

lemma and_then_assoc [simp]: "and_then (and_then r f) g = and_then r (\<lambda>x. and_then (f x) g)"
  by (cases r) simp_all

lemma and_then_split [simp]: "and_then (case p of (a, b) \<Rightarrow> f a b) g = (case p of (a, b) \<Rightarrow> and_then (f a b) g)"
  by (simp split: prod.split)

lemma u32_of_nat_eq:
  assumes "v < 2 ^ 32" and "c < 2 ^ 32"
  shows "of_nat v = (of_nat c :: u32) \<longleftrightarrow> v = c"
  using assms by (simp add: word_of_nat_eq_iff take_bit_nat_eq_self)

lemma u32_tests:
  assumes "v < 2 ^ 32"
  shows "of_nat v = (0 :: u32) \<longleftrightarrow> v = 0" "of_nat v = (1 :: u32) \<longleftrightarrow> v = 1"
    "numeral k < (2 ^ 32 :: nat) \<Longrightarrow> of_nat v = (numeral k :: u32) \<longleftrightarrow> v = numeral k"
    "unat (of_nat v :: u32) = v"
  using u32_of_nat_eq [OF assms, of 0] u32_of_nat_eq [OF assms, of 1] u32_of_nat_eq [OF assms, of "numeral k"] assms
  by (simp_all add: unsigned_of_nat take_bit_nat_eq_self)

end
