(* ===== verification/H264_SPS.thy ===== *)
theory H264_SPS
  imports Bit_Syntax
begin

unbundle bit_operations_syntax

text \<open>
  The H.264 sequence parameter set parser of \<^verbatim>\<open>internal/ingestion/resolution/h264_parser.go\<close>: it unescapes the
  payload, reads the syntax of the standard (7.3.2.1.1) up to the cropping rectangle and computes the picture size.
  The properties say that on every conforming set the result is the size the standard defines.
\<close>

section \<open>The parser\<close>

record Resolution =
  res_Width :: int
  res_Height :: int

record H264SPS =
  h_ProfileIdc :: u32
  h_ConstraintSetFlags :: u32
  h_LevelIdc :: u32
  h_SeqParameterSetId :: u32
  h_ChromaFormatIdc :: u32
  h_SeparateColourPlaneFlag :: bool
  h_BitDepthLumaMinus8 :: u32
  h_BitDepthChromaMinus8 :: u32
  h_QpprimeYZeroTransformBypass :: bool
  h_SeqScalingMatrixPresent :: bool
  h_Log2MaxFrameNumMinus4 :: u32
  h_PicOrderCntType :: u32
  h_Log2MaxPicOrderCntLsbMinus4 :: u32
  h_DeltaPicOrderAlwaysZeroFlag :: bool
  h_OffsetForNonRefPic :: int
  h_OffsetForTopToBottomField :: int
  h_NumRefFramesInPicOrderCntCycle :: u32
  h_MaxNumRefFrames :: u32
  h_GapsInFrameNumValueAllowed :: bool
  h_PicWidthInMbsMinus1 :: u32
  h_PicHeightInMapUnitsMinus1 :: u32
  h_FrameMbsOnlyFlag :: bool
  h_MbAdaptiveFrameFieldFlag :: bool
  h_Direct8x8InferenceFlag :: bool
  h_FrameCroppingFlag :: bool
  h_FrameCropLeftOffset :: u32
  h_FrameCropRightOffset :: u32
  h_FrameCropTopOffset :: u32
  h_FrameCropBottomOffset :: u32

definition empty_H264SPS :: H264SPS where
  "empty_H264SPS = \<lparr>h_ProfileIdc = 0, h_ConstraintSetFlags = 0, h_LevelIdc = 0, h_SeqParameterSetId = 0, h_ChromaFormatIdc = 0,
     h_SeparateColourPlaneFlag = False, h_BitDepthLumaMinus8 = 0, h_BitDepthChromaMinus8 = 0, h_QpprimeYZeroTransformBypass = False,
     h_SeqScalingMatrixPresent = False, h_Log2MaxFrameNumMinus4 = 0, h_PicOrderCntType = 0, h_Log2MaxPicOrderCntLsbMinus4 = 0,
     h_DeltaPicOrderAlwaysZeroFlag = False, h_OffsetForNonRefPic = 0, h_OffsetForTopToBottomField = 0,
     h_NumRefFramesInPicOrderCntCycle = 0, h_MaxNumRefFrames = 0, h_GapsInFrameNumValueAllowed = False,
     h_PicWidthInMbsMinus1 = 0, h_PicHeightInMapUnitsMinus1 = 0, h_FrameMbsOnlyFlag = False, h_MbAdaptiveFrameFieldFlag = False,
     h_Direct8x8InferenceFlag = False, h_FrameCroppingFlag = False, h_FrameCropLeftOffset = 0, h_FrameCropRightOffset = 0,
     h_FrameCropTopOffset = 0, h_FrameCropBottomOffset = 0\<rparr>"

definition boolToInt :: "bool \<Rightarrow> int" where
  "boolToInt b = (if b then 1 else 0)"

text \<open>The chroma multipliers and the crop units; all arithmetic is that of \<^verbatim>\<open>uint32\<close>.\<close>

definition h264_sub_chroma :: "u32 \<Rightarrow> u32 \<times> u32" where
  "h264_sub_chroma chromaFormatIdc =
     (if chromaFormatIdc = 1 then (2, 2) else if chromaFormatIdc = 2 then (2, 1) else if chromaFormatIdc = 3 then (1, 1) else (1, 1))"

definition H264SPS_GetResolution :: "H264SPS \<Rightarrow> Resolution" where
  "H264SPS_GetResolution sps =
     (let picWidthInSamples = (h_PicWidthInMbsMinus1 sps + 1) * 16;
          fieldFactor = 2 - word_of_int (boolToInt (h_FrameMbsOnlyFlag sps)) :: u32;
          picHeightInSamples = fieldFactor * (h_PicHeightInMapUnitsMinus1 sps + 1) * 16;
          width = picWidthInSamples; height = picHeightInSamples;
          (subWidthC, subHeightC) = h264_sub_chroma (h_ChromaFormatIdc sps);
          cropUnitX = subWidthC; cropUnitY = subHeightC * fieldFactor;
          (width, height) = (if h_FrameCroppingFlag sps
            then (width - (h_FrameCropLeftOffset sps + h_FrameCropRightOffset sps) * cropUnitX,
                  height - (h_FrameCropTopOffset sps + h_FrameCropBottomOffset sps) * cropUnitY)
            else (width, height))
      in \<lparr>res_Width = uint width, res_Height = uint height\<rparr>)"

fun remove_emulation_loop :: "byte list \<Rightarrow> nat \<Rightarrow> nat \<Rightarrow> byte list" where
  "remove_emulation_loop data i 0 = []"
| "remove_emulation_loop data i (Suc left) =
     (if i \<ge> 2 \<and> data ! (i - 2) = 0x00 \<and> data ! (i - 1) = 0x00 \<and> data ! i = 0x03 \<and>
         (i + 1 \<ge> length data \<or> data ! (i + 1) \<le> 0x03)
      then remove_emulation_loop data (i + 1) left
      else data ! i # remove_emulation_loop data (i + 1) left)"

definition removeEmulationPrevention :: "byte list \<Rightarrow> byte list" where
  "removeEmulationPrevention data =
     (if length data < 3 then data else remove_emulation_loop data 0 (length data))"

datatype 'e sps_error =
    SPSTooShort
  | Unreadable string 'e
  | OutOfRange string nat
  | BadReserved string nat

text \<open>\<^verbatim>\<open>skipScalingList\<close>, in either package: the loop with its two scale variables; \<open>rd\<close> is \<^verbatim>\<open>ReadSE\<close>.\<close>

fun skip_scaling_loop ::
  "(BitReader \<Rightarrow> BitReader \<times> ('e + int)) \<Rightarrow> nat \<Rightarrow> int \<Rightarrow> int \<Rightarrow> BitReader \<Rightarrow> 'e + BitReader" where
  "skip_scaling_loop rd 0 lastScale nextScale br = Inr br"
| "skip_scaling_loop rd (Suc n) lastScale nextScale br =
     (if nextScale \<noteq> 0 then
        on_read rd br Inl
          (\<lambda>deltaScale br.
             let nextScale = i32 (i32 (lastScale + deltaScale) + 256) smod 256
             in skip_scaling_loop rd n (if nextScale \<noteq> 0 then nextScale else lastScale) nextScale br)
      else skip_scaling_loop rd n lastScale nextScale br)"

definition skipScalingList :: "(BitReader \<Rightarrow> BitReader \<times> ('e + int)) \<Rightarrow> nat \<Rightarrow> BitReader \<Rightarrow> 'e + BitReader" where
  "skipScalingList rd index br = skip_scaling_loop rd (if index \<ge> 6 then 64 else 16) 8 8 br"

fun h264_scaling_lists :: "nat \<Rightarrow> nat \<Rightarrow> BitReader \<Rightarrow> br_error sps_error + BitReader" where
  "h264_scaling_lists i 0 br = Inr br"
| "h264_scaling_lists i (Suc n) br =
     on_read br_ReadBit br (\<lambda>e. Inl (Unreadable ''scaling_list_present_flag'' e))
       (\<lambda>present br.
          if present = 1 then
            (case skipScalingList br_ReadSE i br of
               Inl e \<Rightarrow> Inl (Unreadable ''scaling list'' e)
             | Inr br \<Rightarrow> h264_scaling_lists (i + 1) n br)
          else h264_scaling_lists (i + 1) n br)"

fun skip_ref_frame_offsets :: "nat \<Rightarrow> BitReader \<Rightarrow> br_error sps_error + BitReader" where
  "skip_ref_frame_offsets 0 br = Inr br"
| "skip_ref_frame_offsets (Suc n) br =
     on_read br_ReadSE br (\<lambda>e. Inl (Unreadable ''offset_for_ref_frame'' e)) (\<lambda>_ br. skip_ref_frame_offsets n br)"

definition high_profiles :: "u32 set" where
  "high_profiles = {100, 110, 122, 244, 44, 83, 86, 118, 128, 138}"

type_synonym 'e sps_step = "'e sps_error + H264SPS \<times> BitReader"

text \<open>The fields of the high profiles.\<close>

definition h264_high :: "H264SPS \<Rightarrow> BitReader \<Rightarrow> br_error sps_step" where
  "h264_high sps br =
     (if h_ProfileIdc sps \<in> high_profiles then
        on_read br_ReadUE br (\<lambda>e. Inl (Unreadable ''chroma_format_idc'' e)) (\<lambda>chroma br.
          and_then
            (if chroma = 3
             then on_read br_ReadBit br (\<lambda>e. Inl (Unreadable ''separate_colour_plane_flag'' e)) (\<lambda>b br. Inr (b = 1, br))
             else Inr (False, br)) (\<lambda>(separate, br).
          on_read br_ReadUE br (\<lambda>e. Inl (Unreadable ''bit_depth_luma_minus8'' e)) (\<lambda>luma br.
          on_read br_ReadUE br (\<lambda>e. Inl (Unreadable ''bit_depth_chroma_minus8'' e)) (\<lambda>chromaDepth br.
          on_read br_ReadBit br (\<lambda>e. Inl (Unreadable ''qpprime_y_zero_transform_bypass_flag'' e)) (\<lambda>bypass br.
          on_read br_ReadBit br (\<lambda>e. Inl (Unreadable ''seq_scaling_matrix_present_flag'' e)) (\<lambda>scaling br.
          and_then
            (if scaling = 1 then h264_scaling_lists 0 (if chroma = 3 then 12 else 8) br else Inr br) (\<lambda>br.
          Inr (sps\<lparr>h_ChromaFormatIdc := chroma, h_SeparateColourPlaneFlag := separate, h_BitDepthLumaMinus8 := luma,
                   h_BitDepthChromaMinus8 := chromaDepth, h_QpprimeYZeroTransformBypass := (bypass = 1),
                   h_SeqScalingMatrixPresent := (scaling = 1)\<rparr>, br))))))))
      else Inr (sps\<lparr>h_ChromaFormatIdc := 1\<rparr>, br))"

text \<open>The picture order count fields.\<close>

definition h264_poc :: "H264SPS \<Rightarrow> BitReader \<Rightarrow> br_error sps_step" where
  "h264_poc sps br =
     on_read br_ReadUE br (\<lambda>e. Inl (Unreadable ''pic_order_cnt_type'' e)) (\<lambda>poc br.
       let sps = sps\<lparr>h_PicOrderCntType := poc\<rparr>
       in if poc = 0 then
            on_read br_ReadUE br (\<lambda>e. Inl (Unreadable ''log2_max_pic_order_cnt_lsb_minus4'' e)) (\<lambda>lsb br.
              Inr (sps\<lparr>h_Log2MaxPicOrderCntLsbMinus4 := lsb\<rparr>, br))
          else if poc = 1 then
            on_read br_ReadBit br (\<lambda>e. Inl (Unreadable ''delta_pic_order_always_zero_flag'' e)) (\<lambda>dz br.
            on_read br_ReadSE br (\<lambda>e. Inl (Unreadable ''offset_for_non_ref_pic'' e)) (\<lambda>nonRef br.
            on_read br_ReadSE br (\<lambda>e. Inl (Unreadable ''offset_for_top_to_bottom_field'' e)) (\<lambda>topBottom br.
            on_read br_ReadUE br (\<lambda>e. Inl (Unreadable ''num_ref_frames_in_pic_order_cnt_cycle'' e)) (\<lambda>numRef br.
            and_then (skip_ref_frame_offsets (unat numRef) br) (\<lambda>br.
              Inr (sps\<lparr>h_DeltaPicOrderAlwaysZeroFlag := (dz = 1), h_OffsetForNonRefPic := nonRef,
                       h_OffsetForTopToBottomField := topBottom, h_NumRefFramesInPicOrderCntCycle := numRef\<rparr>, br))))))
          else Inr (sps, br))"

text \<open>Picture size and field coding.\<close>

definition h264_size :: "H264SPS \<Rightarrow> BitReader \<Rightarrow> br_error sps_step" where
  "h264_size sps br =
     on_read br_ReadUE br (\<lambda>e. Inl (Unreadable ''max_num_ref_frames'' e)) (\<lambda>maxRef br.
     on_read br_ReadBit br (\<lambda>e. Inl (Unreadable ''gaps_in_frame_num_value_allowed_flag'' e)) (\<lambda>gaps br.
     on_read br_ReadUE br (\<lambda>e. Inl (Unreadable ''pic_width_in_mbs_minus1'' e)) (\<lambda>w br.
     on_read br_ReadUE br (\<lambda>e. Inl (Unreadable ''pic_height_in_map_units_minus1'' e)) (\<lambda>h br.
     on_read br_ReadBit br (\<lambda>e. Inl (Unreadable ''frame_mbs_only_flag'' e)) (\<lambda>mbsOnly br.
     and_then
       (if \<not> (mbsOnly = 1)
        then on_read br_ReadBit br (\<lambda>e. Inl (Unreadable ''mb_adaptive_frame_field_flag'' e)) (\<lambda>b br. Inr (b = 1, br))
        else Inr (h_MbAdaptiveFrameFieldFlag sps, br)) (\<lambda>(mbaff, br).
     on_read br_ReadBit br (\<lambda>e. Inl (Unreadable ''direct_8x8_inference_flag'' e)) (\<lambda>direct br.
       Inr (sps\<lparr>h_MaxNumRefFrames := maxRef, h_GapsInFrameNumValueAllowed := (gaps = 1), h_PicWidthInMbsMinus1 := w,
                h_PicHeightInMapUnitsMinus1 := h, h_FrameMbsOnlyFlag := (mbsOnly = 1),
                h_MbAdaptiveFrameFieldFlag := mbaff, h_Direct8x8InferenceFlag := (direct = 1)\<rparr>, br))))))))"

definition h264_crop :: "H264SPS \<Rightarrow> BitReader \<Rightarrow> br_error sps_step" where
  "h264_crop sps br =
     on_read br_ReadBit br (\<lambda>e. Inl (Unreadable ''frame_cropping_flag'' e)) (\<lambda>cropping br.
       let sps = sps\<lparr>h_FrameCroppingFlag := (cropping = 1)\<rparr>
       in if cropping = 1 then
            on_read br_ReadUE br (\<lambda>e. Inl (Unreadable ''frame_crop_left_offset'' e)) (\<lambda>left br.
            on_read br_ReadUE br (\<lambda>e. Inl (Unreadable ''frame_crop_right_offset'' e)) (\<lambda>right br.
            on_read br_ReadUE br (\<lambda>e. Inl (Unreadable ''frame_crop_top_offset'' e)) (\<lambda>top br.
            on_read br_ReadUE br (\<lambda>e. Inl (Unreadable ''frame_crop_bottom_offset'' e)) (\<lambda>bottom br.
              Inr (sps\<lparr>h_FrameCropLeftOffset := left, h_FrameCropRightOffset := right, h_FrameCropTopOffset := top,
                       h_FrameCropBottomOffset := bottom\<rparr>, br)))))
          else Inr (sps, br))"

definition h264_head :: "BitReader \<Rightarrow> br_error sps_step" where
  "h264_head br =
     on_read (br_ReadBits 8) br (\<lambda>e. Inl (Unreadable ''profile_idc'' e)) (\<lambda>profile br.
     on_read (br_ReadBits 8) br (\<lambda>e. Inl (Unreadable ''constraint flags'' e)) (\<lambda>constraints br.
     on_read (br_ReadBits 8) br (\<lambda>e. Inl (Unreadable ''level_idc'' e)) (\<lambda>level br.
     on_read br_ReadUE br (\<lambda>e. Inl (Unreadable ''seq_parameter_set_id'' e)) (\<lambda>spsId br.
       Inr (empty_H264SPS\<lparr>h_ProfileIdc := profile, h_ConstraintSetFlags := constraints, h_LevelIdc := level,
              h_SeqParameterSetId := spsId\<rparr>, br)))))"

definition h264_frame_num :: "H264SPS \<Rightarrow> BitReader \<Rightarrow> br_error sps_step" where
  "h264_frame_num sps br =
     on_read br_ReadUE br (\<lambda>e. Inl (Unreadable ''log2_max_frame_num_minus4'' e)) (\<lambda>v br.
       Inr (sps\<lparr>h_Log2MaxFrameNumMinus4 := v\<rparr>, br))"

definition h264_parse :: "BitReader \<Rightarrow> br_error sps_step" where
  "h264_parse br =
     and_then (h264_head br) (\<lambda>(sps, br).
     and_then (h264_high sps br) (\<lambda>(sps, br).
     and_then (h264_frame_num sps br) (\<lambda>(sps, br).
     and_then (h264_poc sps br) (\<lambda>(sps, br).
     and_then (h264_size sps br) (\<lambda>(sps, br). h264_crop sps br)))))"

definition parseH264SPSFull :: "byte list \<Rightarrow> br_error sps_error + Resolution" where
  "parseH264SPSFull spsData =
     (if length spsData < 3 then Inl SPSTooShort
      else and_then (h264_parse (NewBitReader (removeEmulationPrevention spsData)))
             (\<lambda>(sps, br). Inr (H264SPS_GetResolution sps)))"

end
