(* ===== verification/H264_SPS_Props.thy ===== *)
theory H264_SPS_Props
  imports H264_SPS
begin

unbundle bit_operations_syntax

text \<open>
  The syntax of H.264 sequence parameter sets as the standard tabulates it (7.3.2.1.1), the picture size the
  standard derives from it, and the proof that the parser of \<open>H264_SPS\<close> computes that size.
\<close>

section \<open>Unescaping\<close>

lemma remove_loop_step:
  "remove_emulation_loop (xs @ y # zs) (length xs) (Suc (length zs)) =
     (if length xs \<ge> 2 \<and> xs ! (length xs - 2) = 0 \<and> xs ! (length xs - 1) = 0 \<and> y = 3 \<and> (zs = [] \<or> hd zs \<le> 3)
      then remove_emulation_loop ((xs @ [y]) @ zs) (length (xs @ [y])) (length zs)
      else y # remove_emulation_loop ((xs @ [y]) @ zs) (length (xs @ [y])) (length zs))"
  by (cases zs) (auto simp: nth_append)

text \<open>The number of zero bytes just seen, as far as the loop looks back.\<close>

definition seen_zeros :: "byte list \<Rightarrow> nat \<Rightarrow> bool" where
  "seen_zeros xs z \<longleftrightarrow> (z \<ge> 1 \<longleftrightarrow> xs \<noteq> [] \<and> last xs = 0) \<and>
     (z \<ge> 2 \<longleftrightarrow> length xs \<ge> 2 \<and> xs ! (length xs - 2) = 0 \<and> xs ! (length xs - 1) = 0)"

lemma seen_zeros_snoc: "seen_zeros xs z \<Longrightarrow> seen_zeros (xs @ [b]) (if b = 0 then z + 1 else 0)"
  by (cases xs rule: rev_cases) (auto simp: seen_zeros_def nth_append)

lemma remove_add_emulation:
  "seen_zeros xs z \<Longrightarrow> remove_emulation_loop (xs @ add_epb_loop z data) (length xs) (length (add_epb_loop z data)) = data"
proof (induction z data arbitrary: xs rule: add_epb_loop.induct)
  case (2 z b rest)
  show ?case
  proof (cases "z \<ge> 2 \<and> b \<le> 3")
    case True
    let ?t = "add_epb_loop (if b = 0 then 1 else 0) rest"
    have "seen_zeros (xs @ [3]) 0" using seen_zeros_snoc [OF "2.prems", of 3] by simp
    from seen_zeros_snoc [OF this, of b] have s: "seen_zeros (xs @ [3, b]) (if b = 0 then 1 else 0)" by (simp split: if_splits)
    have "remove_emulation_loop (xs @ 3 # b # ?t) (length xs) (Suc (length (b # ?t))) =
        remove_emulation_loop ((xs @ [3]) @ b # ?t) (length (xs @ [3])) (Suc (length ?t))"
      using True "2.prems" by (subst remove_loop_step) (simp add: seen_zeros_def del: remove_emulation_loop.simps)
    also have "\<dots> = b # remove_emulation_loop ((xs @ [3, b]) @ ?t) (length (xs @ [3, b])) (length ?t)"
      by (subst remove_loop_step) (simp add: nth_append del: remove_emulation_loop.simps)
    also have "\<dots> = b # rest" using "2.IH"(1) [OF _ s] True by simp
    finally show ?thesis using True by simp
  next
    case False
    then have "\<not> (length xs \<ge> 2 \<and> xs ! (length xs - 2) = 0 \<and> xs ! (length xs - 1) = 0 \<and> b = 3)"
      using "2.prems" by (auto simp: seen_zeros_def)
    then show ?thesis
      using False "2.IH"(2) [OF False seen_zeros_snoc [OF "2.prems", of b]] remove_loop_step [of xs b] by auto
  qed
qed simp

lemma remove_emulation_short: "length xs < 3 \<Longrightarrow> remove_emulation_loop xs 0 (length xs) = xs"
  by (cases xs; cases "tl xs"; cases "tl (tl xs)") (auto simp: numeral_2_eq_2)

text \<open>The unescaping of the resolution package inverts the escaping of \<^verbatim>\<open>AddEmulationPreventionBytes\<close>.\<close>

lemma removeEmulationPrevention_add: "removeEmulationPrevention (AddEmulationPreventionBytes data) = data"
proof -
  have "remove_emulation_loop (add_epb_loop 0 data) 0 (length (add_epb_loop 0 data)) = data"
    using remove_add_emulation [of "[]" 0 data] by (simp add: seen_zeros_def)
  then show ?thesis
    using remove_emulation_short [of "add_epb_loop 0 data"]
    by (cases "data = []") (auto simp: removeEmulationPrevention_def AddEmulationPreventionBytes_def Suc_le_eq)
qed

section \<open>The syntax of the standard\<close>

record h264_syntax =
  sx_profile_idc :: nat
  sx_constraint_flags :: nat
  sx_level_idc :: nat
  sx_id :: nat
  sx_chroma_format_idc :: nat
  sx_separate_colour_plane :: bool
  sx_bit_depth_luma :: nat
  sx_bit_depth_chroma :: nat
  sx_qpprime_bypass :: bool
  sx_scaling_lists :: "int list option list option"
  sx_log2_max_frame_num :: nat
  sx_poc_type :: nat
  sx_log2_max_poc_lsb :: nat
  sx_delta_always_zero :: bool
  sx_offset_non_ref :: int
  sx_offset_top_bottom :: int
  sx_ref_frame_offsets :: "int list"
  sx_max_num_ref_frames :: nat
  sx_gaps_allowed :: bool
  sx_width_in_mbs :: nat
  sx_height_in_map_units :: nat
  sx_frame_mbs_only :: bool
  sx_mb_adaptive :: bool
  sx_direct_8x8 :: bool
  sx_crop :: "(nat \<times> nat \<times> nat \<times> nat) option"

abbreviation FLAG :: "bool \<Rightarrow> syntax_element" where
  "FLAG b \<equiv> U 1 (of_bool b)"

definition sx_high :: "h264_syntax \<Rightarrow> bool" where
  "sx_high s \<longleftrightarrow> sx_profile_idc s \<in> {100, 110, 122, 244, 44, 83, 86, 118, 128, 138}"

definition head_syntax :: "h264_syntax \<Rightarrow> syntax_element list" where
  "head_syntax s = [U 8 (sx_profile_idc s), U 8 (sx_constraint_flags s), U 8 (sx_level_idc s), UE (sx_id s)]"

fun scaling_syntax :: "int list option list \<Rightarrow> syntax_element list" where
  "scaling_syntax [] = []"
| "scaling_syntax (None # ls) = FLAG False # scaling_syntax ls"
| "scaling_syntax (Some ds # ls) = FLAG True # map SE ds @ scaling_syntax ls"

definition high_syntax :: "h264_syntax \<Rightarrow> syntax_element list" where
  "high_syntax s =
     (if sx_high s then
        [UE (sx_chroma_format_idc s)] @ (if sx_chroma_format_idc s = 3 then [FLAG (sx_separate_colour_plane s)] else []) @
        [UE (sx_bit_depth_luma s), UE (sx_bit_depth_chroma s), FLAG (sx_qpprime_bypass s),
         FLAG (sx_scaling_lists s \<noteq> None)] @
        (case sx_scaling_lists s of None \<Rightarrow> [] | Some ls \<Rightarrow> scaling_syntax ls)
      else [])"

definition poc_syntax :: "h264_syntax \<Rightarrow> syntax_element list" where
  "poc_syntax s =
     [UE (sx_poc_type s)] @
     (if sx_poc_type s = 0 then [UE (sx_log2_max_poc_lsb s)]
      else if sx_poc_type s = 1 then
        [FLAG (sx_delta_always_zero s), SE (sx_offset_non_ref s), SE (sx_offset_top_bottom s),
         UE (length (sx_ref_frame_offsets s))] @ map SE (sx_ref_frame_offsets s)
      else [])"

definition size_syntax :: "h264_syntax \<Rightarrow> syntax_element list" where
  "size_syntax s =
     [UE (sx_max_num_ref_frames s), FLAG (sx_gaps_allowed s), UE (sx_width_in_mbs s - 1), UE (sx_height_in_map_units s - 1),
      FLAG (sx_frame_mbs_only s)] @ (if sx_frame_mbs_only s then [] else [FLAG (sx_mb_adaptive s)]) @ [FLAG (sx_direct_8x8 s)]"

definition crop_syntax :: "h264_syntax \<Rightarrow> syntax_element list" where
  "crop_syntax s =
     (case sx_crop s of
        None \<Rightarrow> [FLAG False]
      | Some (l, r, t, b) \<Rightarrow> [FLAG True, UE l, UE r, UE t, UE b])"

definition sps_syntax :: "h264_syntax \<Rightarrow> syntax_element list" where
  "sps_syntax s =
     head_syntax s @ high_syntax s @ [UE (sx_log2_max_frame_num s)] @ poc_syntax s @ size_syntax s @ crop_syntax s"

text \<open>A scaling list ends when the next scale becomes zero or the list is full.\<close>

fun deltas_ok :: "nat \<Rightarrow> int \<Rightarrow> int list \<Rightarrow> bool" where
  "deltas_ok 0 lastScale ds \<longleftrightarrow> ds = []"
| "deltas_ok (Suc n) lastScale ds \<longleftrightarrow>
     (case ds of
        [] \<Rightarrow> False
      | d # ds \<Rightarrow> -128 \<le> d \<and> d \<le> 127 \<and>
          (let nextScale = (lastScale + d + 256) mod 256
           in if nextScale = 0 then ds = [] else deltas_ok n nextScale ds))"

fun lists_ok :: "nat \<Rightarrow> int list option list \<Rightarrow> bool" where
  "lists_ok i [] \<longleftrightarrow> True"
| "lists_ok i (l # ls) \<longleftrightarrow>
     (case l of None \<Rightarrow> True | Some ds \<Rightarrow> deltas_ok (if i \<ge> 6 then 64 else 16) 8 ds) \<and> lists_ok (i + 1) ls"

definition scaling_ok :: "h264_syntax \<Rightarrow> bool" where
  "scaling_ok s \<longleftrightarrow>
     (case sx_scaling_lists s of
        None \<Rightarrow> True
      | Some ls \<Rightarrow> length ls = (if sx_chroma_format_idc s = 3 then 12 else 8) \<and> lists_ok 0 ls)"

text \<open>ChromaArrayType, the crop units and the picture size (7-19 to 7-22 and table 6-1 of the standard).\<close>

definition sx_chroma_array_type :: "h264_syntax \<Rightarrow> nat" where
  "sx_chroma_array_type s =
     (if sx_high s then if sx_chroma_format_idc s = 3 \<and> sx_separate_colour_plane s then 0 else sx_chroma_format_idc s else 1)"

definition sx_crop_unit_x :: "h264_syntax \<Rightarrow> nat" where
  "sx_crop_unit_x s = (if sx_chroma_array_type s \<in> {1, 2} then 2 else 1)"

definition sx_crop_unit_y :: "h264_syntax \<Rightarrow> nat" where
  "sx_crop_unit_y s =
     (if sx_chroma_array_type s = 1 then 2 else 1) * (2 - of_bool (sx_frame_mbs_only s))"

definition sx_frame_width :: "h264_syntax \<Rightarrow> nat" where
  "sx_frame_width s = 16 * sx_width_in_mbs s"

definition sx_frame_height :: "h264_syntax \<Rightarrow> nat" where
  "sx_frame_height s = 16 * ((2 - of_bool (sx_frame_mbs_only s)) * sx_height_in_map_units s)"

definition sx_crop_x :: "h264_syntax \<Rightarrow> nat" where
  "sx_crop_x s = (case sx_crop s of None \<Rightarrow> 0 | Some (l, r, t, b) \<Rightarrow> sx_crop_unit_x s * (l + r))"

definition sx_crop_y :: "h264_syntax \<Rightarrow> nat" where
  "sx_crop_y s = (case sx_crop s of None \<Rightarrow> 0 | Some (l, r, t, b) \<Rightarrow> sx_crop_unit_y s * (t + b))"

definition sx_resolution :: "h264_syntax \<Rightarrow> Resolution" where
  "sx_resolution s = \<lparr>res_Width = int (sx_frame_width s - sx_crop_x s), res_Height = int (sx_frame_height s - sx_crop_y s)\<rparr>"

text \<open>A conforming set: the value ranges of the standard (7.4.2.1.1), with pictures of at most 8192 by
  8192 samples (field height for interlaced ones), the bound of the second parser, and a crop that leaves something of the picture.\<close>

definition sps_ok :: "h264_syntax \<Rightarrow> bool" where
  "sps_ok s \<longleftrightarrow> list_all element_ok (sps_syntax s) \<and> sx_id s \<le> 31 \<and> sx_chroma_format_idc s \<le> 3 \<and>
     sx_log2_max_frame_num s \<le> 12 \<and> sx_poc_type s \<le> 2 \<and> sx_log2_max_poc_lsb s \<le> 12 \<and>
     length (sx_ref_frame_offsets s) \<le> 255 \<and> scaling_ok s \<and>
     1 \<le> sx_width_in_mbs s \<and> sx_width_in_mbs s \<le> 512 \<and> 1 \<le> sx_height_in_map_units s \<and> sx_height_in_map_units s \<le> 512 \<and>
     sx_crop_x s < sx_frame_width s \<and> sx_crop_y s < sx_frame_height s"


section \<open>The parser on a conforming set\<close>

lemma list_all_rules: "list_all P [] = True" "list_all P (x # xs) = (P x \<and> list_all P xs)"
  by simp_all

lemma deltas_bound: "deltas_ok n lastScale ds \<Longrightarrow> d \<in> set ds \<Longrightarrow> -128 \<le> d \<and> d \<le> 127"
  by (induction n lastScale ds rule: deltas_ok.induct) (auto simp: Let_def split: list.splits if_splits)

lemma next_scale_bound:
  assumes "0 \<le> l" "l < 256" "-128 \<le> d" "d \<le> 127"
  shows "i32 (i32 (l + d) + 256) smod 256 = (l + d + 256) mod 256"
  using assms by (simp add: smod_mod_positive)

lemma skip_scaling_zero: "skip_scaling_loop rd n l 0 br = Inr br"
  by (induction n) simp_all

text \<open>What a reader of signed codes does; both readers do it.\<close>

definition se_reader :: "(BitReader \<Rightarrow> BitReader \<times> ('e + int)) \<Rightarrow> bool" where
  "se_reader rd \<longleftrightarrow> (\<forall>br i r. reads br (ue_code (se_number i) @ r) \<longrightarrow> \<bar>i\<bar> < 2 ^ 31 \<longrightarrow> (\<exists>br'. rd br = (br', Inr i) \<and> reads br' r))"

lemma se_readers: "se_reader br_ReadSE" "se_reader tb_ReadSE"
  unfolding se_reader_def by (blast dest: reads_se)+

text \<open>\<^verbatim>\<open>skipScalingList\<close> consumes exactly the list.\<close>

lemma skip_scaling_consumes:
  assumes "se_reader rd"
  shows "deltas_ok n l ds \<Longrightarrow> 0 < l \<Longrightarrow> l < 256 \<Longrightarrow> reads br (syntax_bits (map SE ds) @ r) \<Longrightarrow>
     \<exists>br'. skip_scaling_loop rd n l l br = Inr br' \<and> reads br' r"
proof (induction n l ds arbitrary: br rule: deltas_ok.induct)
  case (2 n l ds)
  obtain d es where ds: "ds = d # es" "-128 \<le> d" "d \<le> 127" using "2.prems"(1) by (auto split: list.splits)
  obtain br1 where 1: "rd br = (br1, Inr d)" "reads br1 (syntax_bits (map SE es) @ r)"
    using assms "2.prems"(4) ds by (fastforce simp: se_reader_def)
  define x where "x = (l + d + 256) mod 256"
  have x: "i32 (i32 (l + d) + 256) smod 256 = x" "0 \<le> x" "x < 256"
    using next_scale_bound [of l d] "2.prems"(2,3) ds by (simp_all add: x_def)
  have step: "skip_scaling_loop rd (Suc n) l l br = skip_scaling_loop rd n (if x \<noteq> 0 then x else l) x br1"
    using "2.prems"(2) 1(1) x(1) by (simp add: on_read_def Let_def)
  show ?case
  proof (cases "x = 0")
    case True
    then have "es = []" using "2.prems"(1) ds(1) by (simp add: Let_def x_def)
    then show ?thesis using step True 1(2) by (simp add: skip_scaling_zero)
  next
    case False
    then have "deltas_ok n x es" using "2.prems"(1) ds(1) by (simp add: Let_def x_def)
    from "2.IH" [OF ds(1) x_def _ this _ x(3) 1(2)] False x(2) show ?thesis unfolding step by simp
  qed
qed simp

lemma skipScalingList_consumes:
  assumes "se_reader rd" and "deltas_ok (if i \<ge> 6 then 64 else 16) 8 ds" and "reads br (syntax_bits (map SE ds) @ r)"
  shows "\<exists>br'. skipScalingList rd i br = Inr br' \<and> reads br' r"
  unfolding skipScalingList_def using assms by (intro skip_scaling_consumes) auto

lemma flag_bits: "syntax_bits (FLAG b # es) = to_bits 1 (of_bool b) @ syntax_bits es"
  by simp

lemma h264_scaling_lists_consumes:
  "lists_ok i ls \<Longrightarrow> reads br (syntax_bits (scaling_syntax ls) @ r) \<Longrightarrow>
   \<exists>br'. h264_scaling_lists i (length ls) br = Inr br' \<and> reads br' r"
proof (induction ls arbitrary: i br)
  case (Cons l ls)
  show ?case
  proof (cases l)
    case None
    then have "reads br (to_bits 1 0 @ (syntax_bits (scaling_syntax ls) @ r))" using Cons.prems(2) by simp
    then obtain br1 where "br_ReadBit br = (br1, Inr 0)" "reads br1 (syntax_bits (scaling_syntax ls) @ r)"
      by (auto simp: reads_def elim: br_ReadBit_Cons)
    then show ?thesis using Cons by (simp add: on_read_def)
  next
    case (Some ds)
    then have "reads br (to_bits 1 1 @ (syntax_bits (map SE ds) @ syntax_bits (scaling_syntax ls) @ r))" using Cons.prems(2) by simp
    then obtain br1 where 1: "br_ReadBit br = (br1, Inr 1)" "reads br1 (syntax_bits (map SE ds) @ syntax_bits (scaling_syntax ls) @ r)"
      by (auto simp: reads_def elim: br_ReadBit_Cons)
    have "deltas_ok (if i \<ge> 6 then 64 else 16) 8 ds" using Cons.prems(1) Some by simp
    from skipScalingList_consumes [OF se_readers(1) this 1(2)] show ?thesis
      using 1(1) Cons by (auto simp: on_read_def)
  qed
qed simp

lemma head_consumes:
  assumes "reads br (syntax_bits (head_syntax s) @ r)" and "list_all element_ok (head_syntax s)"
    and "\<And>br'. reads br' r \<Longrightarrow>
      k (empty_H264SPS\<lparr>h_ProfileIdc := of_nat (sx_profile_idc s), h_ConstraintSetFlags := of_nat (sx_constraint_flags s),
           h_LevelIdc := of_nat (sx_level_idc s), h_SeqParameterSetId := of_nat (sx_id s)\<rparr>, br') = res"
  shows "and_then (h264_head br) k = res"
proof -
  have "reads br (to_bits 8 (sx_profile_idc s) @ to_bits 8 (sx_constraint_flags s) @ to_bits 8 (sx_level_idc s) @ ue_code (sx_id s) @ r)"
    using assms(1) by (simp add: head_syntax_def)
  then show ?thesis using assms(2) unfolding h264_head_def and_then_on_read
    by (elim reads_rules; simp add: head_syntax_def assms(3))
qed


lemma profile_high:
  assumes "sx_profile_idc s < 256"
  shows "(of_nat (sx_profile_idc s) :: u32) \<in> high_profiles \<longleftrightarrow> sx_high s"
proof -
  have "sx_profile_idc s < 2 ^ 32" using assms by simp
  note u = u32_tests(3) [OF this]
  show ?thesis by (simp add: high_profiles_def sx_high_def u)
qed

text \<open>The fields after the high-profile part; those the size depends on are spelt out.\<close>

lemma high_consumes:
  assumes "reads br (syntax_bits (high_syntax s) @ r)" and "list_all element_ok (high_syntax s)" and "scaling_ok s"
    and "h_ProfileIdc sps = of_nat (sx_profile_idc s)" and "sx_profile_idc s < 256"
    and "\<And>br' sps'. reads br' r \<Longrightarrow>
      h_ChromaFormatIdc sps' = (if sx_high s then of_nat (sx_chroma_format_idc s) else 1) \<Longrightarrow> k (sps', br') = res"
  shows "and_then (h264_high sps br) k = res"
proof (cases "sx_high s")
  case False
  then have "h_ProfileIdc sps \<notin> high_profiles" using assms(4,5) profile_high by simp
  then show ?thesis using assms(1,6) False by (simp add: h264_high_def high_syntax_def)
next
  case True
  then have p: "h_ProfileIdc sps \<in> high_profiles" using assms(4,5) profile_high by simp
  let ?c = "sx_chroma_format_idc s"
  have c: "?c < 2 ^ 32 - 1" using assms(2) True by (simp add: high_syntax_def)
  have c3: "of_nat ?c = (3 :: u32) \<longleftrightarrow> ?c = 3" using c by (intro u32_tests(3)) simp_all
  have lists: "\<exists>br'. (if sx_scaling_lists s \<noteq> None then h264_scaling_lists 0 (if ?c = 3 then 12 else 8) br0 else Inr br0) = Inr br' \<and> reads br' r"
    if "reads br0 (syntax_bits (case sx_scaling_lists s of None \<Rightarrow> [] | Some ls \<Rightarrow> scaling_syntax ls) @ r)" for br0
  proof (cases "sx_scaling_lists s")
    case (Some ls)
    then have n: "length ls = (if ?c = 3 then 12 else 8)" and d: "lists_ok 0 ls" using assms(3) by (simp_all add: scaling_ok_def)
    show ?thesis using h264_scaling_lists_consumes [OF d, of br0 r] that Some unfolding n by simp
  qed (use that in simp)
  have rest: "and_then (if (of_bool ((1::nat) \<le> of_bool (sx_scaling_lists s \<noteq> None)) :: u32) = 1
        then h264_scaling_lists 0 n br0 else Inr br0) (\<lambda>br. k (sps', br)) = res"
    if "reads br0 (syntax_bits (case sx_scaling_lists s of None \<Rightarrow> [] | Some ls \<Rightarrow> scaling_syntax ls) @ r)"
      "n = (if ?c = 3 then 12 else 8)" "h_ChromaFormatIdc sps' = of_nat ?c" for br0 sps' n
    using lists [OF that(1)] that(2,3) assms(6) True by (cases "sx_scaling_lists s") (auto split: if_splits)
  have ok: "sx_bit_depth_luma s < 2 ^ 32 - 1" "sx_bit_depth_chroma s < 2 ^ 32 - 1" using assms(2) True by (simp_all add: high_syntax_def)
  show ?thesis
  proof (cases "?c = 3")
    case c3': True
    then have c3'': "(of_nat ?c = (3 :: u32)) = True" by simp
    have "reads br (ue_code ?c @ to_bits 1 (of_bool (sx_separate_colour_plane s)) @ ue_code (sx_bit_depth_luma s) @
        ue_code (sx_bit_depth_chroma s) @ to_bits 1 (of_bool (sx_qpprime_bypass s)) @ to_bits 1 (of_bool (sx_scaling_lists s \<noteq> None)) @
        syntax_bits (case sx_scaling_lists s of None \<Rightarrow> [] | Some ls \<Rightarrow> scaling_syntax ls) @ r)"
      using assms(1) True c3' by (simp add: high_syntax_def del: to_bits.simps)
    then show ?thesis unfolding h264_high_def if_P [OF p] and_then_on_read
      apply (elim reads_rules)
      apply (rule c)
      apply (simp only: c3'' if_True and_then_on_read and_then_simps and_then_assoc prod.case)
      apply (elim reads_rules)
      by (rule ok | erule rest | simp add: c3')+
  next
    case c3': False
    then have c3'': "(of_nat ?c = (3 :: u32)) = False" using c3 by simp
    have "reads br (ue_code ?c @ ue_code (sx_bit_depth_luma s) @
        ue_code (sx_bit_depth_chroma s) @ to_bits 1 (of_bool (sx_qpprime_bypass s)) @ to_bits 1 (of_bool (sx_scaling_lists s \<noteq> None)) @
        syntax_bits (case sx_scaling_lists s of None \<Rightarrow> [] | Some ls \<Rightarrow> scaling_syntax ls) @ r)"
      using assms(1) True c3' by (simp add: high_syntax_def del: to_bits.simps)
    then show ?thesis unfolding h264_high_def if_P [OF p] and_then_on_read
      apply (elim reads_rules)
      apply (rule c)
      apply (simp only: c3'' if_False and_then_on_read and_then_simps and_then_assoc prod.case)
      apply (elim reads_rules)
      by (rule ok | erule rest | simp add: c3')+
  qed
qed


lemma frame_num_consumes:
  assumes "reads br (ue_code (sx_log2_max_frame_num s) @ r)" and "sx_log2_max_frame_num s \<le> 12"
    and "\<And>br'. reads br' r \<Longrightarrow> k (sps\<lparr>h_Log2MaxFrameNumMinus4 := of_nat (sx_log2_max_frame_num s)\<rparr>, br') = res"
  shows "and_then (h264_frame_num sps br) k = res"
  using assms(1) unfolding h264_frame_num_def and_then_on_read by (elim reads_rules) (use assms(2,3) in simp_all)

lemma ref_offsets_consumes:
  assumes "reads br (syntax_bits (map SE ds) @ r)" and "list_all element_ok (map SE ds)"
  shows "\<exists>br'. skip_ref_frame_offsets (length ds) br = Inr br' \<and> reads br' r"
  using assms
proof (induction ds arbitrary: br)
  case (Cons d ds)
  obtain br1 where "br_ReadSE br = (br1, Inr d)" "reads br1 (syntax_bits (map SE ds) @ r)"
    using reads_se [of br d "syntax_bits (map SE ds) @ r"] Cons.prems by auto
  then show ?case using Cons by (simp add: on_read_def)
qed simp

lemma poc_consumes:
  assumes "reads br (syntax_bits (poc_syntax s) @ r)" and "list_all element_ok (poc_syntax s)"
    and "\<And>br' sps'. reads br' r \<Longrightarrow> h_ChromaFormatIdc sps' = h_ChromaFormatIdc sps \<Longrightarrow> k (sps', br') = res"
  shows "and_then (h264_poc sps br) k = res"
proof -
  let ?p = "sx_poc_type s" and ?n = "length (sx_ref_frame_offsets s)"
  have p: "?p < 2 ^ 32 - 1" using assms(2) by (simp add: poc_syntax_def)
  have u: "of_nat ?p = (0 :: u32) \<longleftrightarrow> ?p = 0" "of_nat ?p = (1 :: u32) \<longleftrightarrow> ?p = 1" using p u32_tests(1,2) [of ?p] by auto
  consider "?p = 0" | "?p = 1" | "?p \<noteq> 0" "?p \<noteq> 1" by blast
  then show ?thesis
  proof cases
    case 1
    have "reads br (ue_code ?p @ ue_code (sx_log2_max_poc_lsb s) @ r)" using assms(1) 1 by (simp add: poc_syntax_def)
    moreover have "sx_log2_max_poc_lsb s < 2 ^ 32 - 1" using assms(2) 1 by (simp add: poc_syntax_def)
    moreover have "of_nat ?p = (0 :: u32)" using 1 by simp
    ultimately show ?thesis unfolding h264_poc_def and_then_on_read
      apply (elim reads_rules)
      apply (rule p)
      apply (simp only: Let_def simp_thms if_True and_then_on_read and_then_simps)
      apply (elim reads_rules)
      by (simp_all add: assms(3))
  next
    case 2
    then have n: "?n < 2 ^ 32 - 1" and el: "\<bar>sx_offset_non_ref s\<bar> < 2 ^ 31" "\<bar>sx_offset_top_bottom s\<bar> < 2 ^ 31"
      "list_all element_ok (map SE (sx_ref_frame_offsets s))" using assms(2) by (simp_all add: poc_syntax_def)
    have "reads br (ue_code ?p @ to_bits 1 (of_bool (sx_delta_always_zero s)) @ ue_code (se_number (sx_offset_non_ref s)) @
       ue_code (se_number (sx_offset_top_bottom s)) @ ue_code ?n @ syntax_bits (map SE (sx_ref_frame_offsets s)) @ r)"
      using assms(1) 2 by (simp add: poc_syntax_def)
    moreover have "and_then (skip_ref_frame_offsets (unat (of_nat ?n :: u32)) br0) (\<lambda>br. k (f br, br)) = res"
      if "reads br0 (syntax_bits (map SE (sx_ref_frame_offsets s)) @ r)" "\<And>br. h_ChromaFormatIdc (f br) = h_ChromaFormatIdc sps" for br0 f
      using ref_offsets_consumes [OF that(1) el(3)] that(2) assms(3) u32_tests(4) [of ?n] n by auto
    moreover have "of_nat ?p = (1 :: u32)" using 2 by simp
    ultimately show ?thesis unfolding h264_poc_def and_then_on_read
      apply (elim reads_rules)
      apply (rule p)
      apply (simp only: Let_def simp_thms if_True if_False and_then_on_read and_then_simps one_neq_zero and_then_assoc)
      apply (elim reads_rules)
      by (rule el n | simp)+
  next
    case 3
    have "reads br (ue_code ?p @ r)" using assms(1) 3 by (simp add: poc_syntax_def)
    then show ?thesis unfolding h264_poc_def and_then_on_read
      by (elim reads_rules) (use 3 u p assms(3) in simp_all)
  qed
qed


lemma size_consumes:
  assumes "reads br (syntax_bits (size_syntax s) @ r)" and "list_all element_ok (size_syntax s)"
    and "\<And>br' sps'. reads br' r \<Longrightarrow> h_ChromaFormatIdc sps' = h_ChromaFormatIdc sps \<Longrightarrow>
      h_PicWidthInMbsMinus1 sps' = of_nat (sx_width_in_mbs s - 1) \<Longrightarrow>
      h_PicHeightInMapUnitsMinus1 sps' = of_nat (sx_height_in_map_units s - 1) \<Longrightarrow>
      h_FrameMbsOnlyFlag sps' = sx_frame_mbs_only s \<Longrightarrow> k (sps', br') = res"
  shows "and_then (h264_size sps br) k = res"
proof -
  have ok: "sx_max_num_ref_frames s < 2 ^ 32 - 1" "sx_width_in_mbs s - 1 < 2 ^ 32 - 1" "sx_height_in_map_units s - 1 < 2 ^ 32 - 1"
    using assms(2) by (simp_all add: size_syntax_def)
  show ?thesis
  proof (cases "sx_frame_mbs_only s")
    case True
    have "reads br (ue_code (sx_max_num_ref_frames s) @ to_bits 1 (of_bool (sx_gaps_allowed s)) @ ue_code (sx_width_in_mbs s - 1) @
        ue_code (sx_height_in_map_units s - 1) @ to_bits 1 1 @ to_bits 1 (of_bool (sx_direct_8x8 s)) @ r)"
      using assms(1) True by (simp add: size_syntax_def)
    then show ?thesis unfolding h264_size_def and_then_on_read
      apply (elim reads_rules)
      apply (rule ok)+
      apply (simp only: of_bool_eq le_refl simp_thms if_False and_then_on_read and_then_simps and_then_assoc prod.case)
      apply (elim reads_rules)
      by (rule assms(3) | simp add: True)+
  next
    case False
    have "reads br (ue_code (sx_max_num_ref_frames s) @ to_bits 1 (of_bool (sx_gaps_allowed s)) @ ue_code (sx_width_in_mbs s - 1) @
        ue_code (sx_height_in_map_units s - 1) @ to_bits 1 0 @ to_bits 1 (of_bool (sx_mb_adaptive s)) @ to_bits 1 (of_bool (sx_direct_8x8 s)) @ r)"
      using assms(1) False by (simp add: size_syntax_def)
    then show ?thesis unfolding h264_size_def and_then_on_read
      apply (elim reads_rules)
      apply (rule ok)+
      apply (simp only: of_bool_eq not_one_le_zero zero_neq_one simp_thms not_False_eq_True if_True and_then_on_read and_then_simps and_then_assoc prod.case)
      apply (elim reads_rules)
      by (rule assms(3) | simp add: False)+
  qed
qed

lemma crop_consumes:
  assumes "reads br (syntax_bits (crop_syntax s) @ r)" and "list_all element_ok (crop_syntax s)"
    and "\<And>br' sps'. reads br' r \<Longrightarrow> h_ChromaFormatIdc sps' = h_ChromaFormatIdc sps \<Longrightarrow>
      h_PicWidthInMbsMinus1 sps' = h_PicWidthInMbsMinus1 sps \<Longrightarrow>
      h_PicHeightInMapUnitsMinus1 sps' = h_PicHeightInMapUnitsMinus1 sps \<Longrightarrow>
      h_FrameMbsOnlyFlag sps' = h_FrameMbsOnlyFlag sps \<Longrightarrow> h_FrameCroppingFlag sps' = (sx_crop s \<noteq> None) \<Longrightarrow>
      (case sx_crop s of None \<Rightarrow> True
       | Some (l, r, t, b) \<Rightarrow> h_FrameCropLeftOffset sps' = of_nat l \<and> h_FrameCropRightOffset sps' = of_nat r \<and>
           h_FrameCropTopOffset sps' = of_nat t \<and> h_FrameCropBottomOffset sps' = of_nat b) \<Longrightarrow> k (sps', br') = res"
  shows "and_then (h264_crop sps br) k = res"
proof (cases "sx_crop s")
  case None
  have "reads br (to_bits 1 0 @ r)" using assms(1) None by (simp add: crop_syntax_def)
  then show ?thesis unfolding h264_crop_def and_then_on_read
    by (elim reads_rules) (simp add: Let_def, rule assms(3), simp_all add: None)
next
  case (Some c)
  obtain l rr t b where c: "c = (l, rr, t, b)" by (cases c)
  have ok: "l < 2 ^ 32 - 1" "rr < 2 ^ 32 - 1" "t < 2 ^ 32 - 1" "b < 2 ^ 32 - 1" using assms(2) Some c by (simp_all add: crop_syntax_def)
  have "reads br (to_bits 1 1 @ ue_code l @ ue_code rr @ ue_code t @ ue_code b @ r)" using assms(1) Some c by (simp add: crop_syntax_def)
  then show ?thesis unfolding h264_crop_def and_then_on_read
    apply (elim reads_rules)
    apply (simp only: Let_def of_bool_eq le_refl simp_thms if_True and_then_on_read and_then_simps)
    apply (elim reads_rules)
    by (rule ok | rule assms(3) | simp add: Some c)+
qed

text \<open>The size computed in \<^verbatim>\<open>uint32\<close> is the size of the standard.\<close>

lemma uint_of_nat_small: "n < 2 ^ 32 \<Longrightarrow> uint (of_nat n :: u32) = int n"
  by (simp add: unsigned_of_nat take_bit_nat_eq_self)

lemma minus_one_back: "1 \<le> n \<Longrightarrow> (of_nat (n - 1) + 1 :: u32) = of_nat n"
  by (simp add: of_nat_diff)

lemma sub_chroma_units:
  assumes "sx_chroma_format_idc s \<le> 3"
  shows "h264_sub_chroma (if sx_high s then of_nat (sx_chroma_format_idc s) else 1) =
    (of_nat (sx_crop_unit_x s), of_nat (if sx_chroma_array_type s = 1 then 2 else 1))"
proof -
  have "sx_chroma_format_idc s \<in> {0, 1, 2, 3}" using assms by auto
  then show ?thesis by (auto simp: h264_sub_chroma_def sx_crop_unit_x_def sx_chroma_array_type_def)
qed

lemma GetResolution_standard:
  assumes "sps_ok s" and "h_ChromaFormatIdc sps = (if sx_high s then of_nat (sx_chroma_format_idc s) else 1)"
    and "h_PicWidthInMbsMinus1 sps = of_nat (sx_width_in_mbs s - 1)"
    and "h_PicHeightInMapUnitsMinus1 sps = of_nat (sx_height_in_map_units s - 1)"
    and "h_FrameMbsOnlyFlag sps = sx_frame_mbs_only s" and "h_FrameCroppingFlag sps = (sx_crop s \<noteq> None)"
    and "case sx_crop s of None \<Rightarrow> True
       | Some (l, r, t, b) \<Rightarrow> h_FrameCropLeftOffset sps = of_nat l \<and> h_FrameCropRightOffset sps = of_nat r \<and>
           h_FrameCropTopOffset sps = of_nat t \<and> h_FrameCropBottomOffset sps = of_nat b"
  shows "H264SPS_GetResolution sps = sx_resolution s"
proof -
  let ?f = "2 - of_bool (sx_frame_mbs_only s) :: nat"
  have w: "1 \<le> sx_width_in_mbs s" "sx_width_in_mbs s \<le> 512" "1 \<le> sx_height_in_map_units s" "sx_height_in_map_units s \<le> 512"
    and c: "sx_chroma_format_idc s \<le> 3" "sx_crop_x s < sx_frame_width s" "sx_crop_y s < sx_frame_height s"
    using assms(1) by (simp_all add: sps_ok_def)
  have f: "2 - word_of_int (boolToInt (h_FrameMbsOnlyFlag sps)) = (of_nat ?f :: u32)"
    using assms(5) by (simp add: boolToInt_def)
  have fw: "(h_PicWidthInMbsMinus1 sps + 1) * 16 = (of_nat (sx_frame_width s) :: u32)"
    using w by (simp add: assms(3) minus_one_back sx_frame_width_def)
  have fh: "of_nat ?f * (h_PicHeightInMapUnitsMinus1 sps + 1) * 16 = (of_nat (sx_frame_height s) :: u32)"
    using w by (simp add: assms(4) minus_one_back sx_frame_height_def)
  have lt: "sx_frame_width s < 2 ^ 32" "sx_frame_height s < 2 ^ 32" using w by (auto simp: sx_frame_width_def sx_frame_height_def)
  note sub = sub_chroma_units [OF c(1), folded assms(2)]
  have cy: "(of_nat (if sx_chroma_array_type s = 1 then 2 else 1) :: u32) * of_nat ?f = of_nat (sx_crop_unit_y s)"
    by (simp add: sx_crop_unit_y_def)
  show ?thesis
  proof (cases "sx_crop s")
    case None
    then show ?thesis using assms(6) lt unfolding H264SPS_GetResolution_def Let_def f fw fh sub prod.case
      by (simp add: uint_of_nat_small sx_resolution_def sx_crop_x_def sx_crop_y_def)
  next
    case (Some q)
    obtain l r t b where q: "q = (l, r, t, b)" by (cases q)
    have x: "of_nat (sx_frame_width s) - (of_nat l + of_nat r) * of_nat (sx_crop_unit_x s) = (of_nat (sx_frame_width s - sx_crop_x s) :: u32)"
      using c(2) Some q by (simp add: of_nat_diff sx_crop_x_def mult.commute)
    have y: "of_nat (sx_frame_height s) - (of_nat t + of_nat b) * of_nat (sx_crop_unit_y s) = (of_nat (sx_frame_height s - sx_crop_y s) :: u32)"
      using c(3) Some q by (simp add: of_nat_diff sx_crop_y_def mult.commute)
    have "sx_frame_width s - sx_crop_x s < 2 ^ 32" "sx_frame_height s - sx_crop_y s < 2 ^ 32" using lt by auto
    then show ?thesis using assms(6,7) Some q unfolding H264SPS_GetResolution_def Let_def f fw fh sub prod.case cy
      by (simp add: x y uint_of_nat_small sx_resolution_def)
  qed
qed

lemma h264_parse_resolution:
  assumes "sps_ok s" and "reads br (syntax_bits (sps_syntax s) @ r)"
  shows "and_then (h264_parse br) (\<lambda>(sps, br). Inr (H264SPS_GetResolution sps)) = Inr (sx_resolution s)"
proof -
  have ok: "list_all element_ok (head_syntax s)" "list_all element_ok (high_syntax s)" "list_all element_ok (poc_syntax s)"
    "list_all element_ok (size_syntax s)" "list_all element_ok (crop_syntax s)" "scaling_ok s" "sx_log2_max_frame_num s \<le> 12"
    using assms(1) by (simp_all add: sps_ok_def sps_syntax_def)
  have p: "sx_profile_idc s < 256" using ok(1) by (simp add: head_syntax_def)
  have "reads br (syntax_bits (head_syntax s) @ syntax_bits (high_syntax s) @ ue_code (sx_log2_max_frame_num s) @
      syntax_bits (poc_syntax s) @ syntax_bits (size_syntax s) @ syntax_bits (crop_syntax s) @ r)"
    using assms(2) by (simp add: sps_syntax_def)
  then show ?thesis unfolding h264_parse_def and_then_assoc and_then_split
    apply -
    apply (elim head_consumes, rule ok, unfold prod.case)
    apply (elim high_consumes, rule ok, rule ok, simp, rule p, unfold prod.case)
    apply (elim frame_num_consumes, rule ok, unfold prod.case)
    apply (elim poc_consumes, rule ok, unfold prod.case)
    apply (elim size_consumes, rule ok, unfold prod.case)
    apply (elim crop_consumes, rule ok, unfold prod.case)
    by (simp add: GetResolution_standard [OF assms(1)])
qed

lemma AddEmulation_length: "length data \<le> length (AddEmulationPreventionBytes data)"
proof -
  have "length xs \<le> length (add_epb_loop z xs)" for z and xs :: "byte list"
    by (induction z xs rule: add_epb_loop.induct) auto
  then show ?thesis by (simp add: AddEmulationPreventionBytes_def)
qed

lemma parseH264SPSFull_standard:
  assumes "sps_ok s" and "bits_of payload = syntax_bits (sps_syntax s) @ rest" and "3 \<le> length payload"
  shows "parseH264SPSFull (AddEmulationPreventionBytes payload) = Inr (sx_resolution s)"
proof -
  have "reads (NewBitReader payload) (syntax_bits (sps_syntax s) @ rest)" using reads_New [of payload] assms(2) by simp
  from h264_parse_resolution [OF assms(1) this] show ?thesis
    using assms(3) AddEmulation_length [of payload] by (simp add: parseH264SPSFull_def removeEmulationPrevention_add)
qed

section \<open>Properties\<close>

text \<open>The unescaping of the resolution detector and that of the parameter set code agree with the escaping: what
  \<^verbatim>\<open>AddEmulationPreventionBytes\<close> produced is restored by \<^verbatim>\<open>removeEmulationPrevention\<close>, for every payload.\<close>

theorem resolution_unescape_roundtrip: "removeEmulationPrevention (AddEmulationPreventionBytes data) = data"
  by (rule removeEmulationPrevention_add)

text \<open>The H.264 parameter set parser computes the picture size of the standard: for every conforming sequence
  parameter set (any profile, with or without scaling lists, any picture order count type, field or frame coding,
  any legal cropping), escaped into a NAL payload and followed by arbitrary further data, the result is the
  cropped frame size of clause 7.4.2.1.1.\<close>

theorem h264_sps_resolution:
  assumes "sps_ok s" and "bits_of payload = syntax_bits (sps_syntax s) @ rest" and "3 \<le> length payload"
  shows "parseH264SPSFull (AddEmulationPreventionBytes payload) = Inr (sx_resolution s)"
  by (rule parseH264SPSFull_standard [OF assms])

text \<open>A set for 1920 by 1080: Baseline profile, level 4.0, 120 by 68 macroblocks, eight lines cropped at the bottom.\<close>

definition sps_1080 :: h264_syntax where
  "sps_1080 = \<lparr>sx_profile_idc = 66, sx_constraint_flags = 0, sx_level_idc = 40, sx_id = 0, sx_chroma_format_idc = 1,
     sx_separate_colour_plane = False, sx_bit_depth_luma = 0, sx_bit_depth_chroma = 0, sx_qpprime_bypass = False,
     sx_scaling_lists = None, sx_log2_max_frame_num = 0, sx_poc_type = 2, sx_log2_max_poc_lsb = 0, sx_delta_always_zero = False,
     sx_offset_non_ref = 0, sx_offset_top_bottom = 0, sx_ref_frame_offsets = [], sx_max_num_ref_frames = 1,
     sx_gaps_allowed = False, sx_width_in_mbs = 120, sx_height_in_map_units = 68, sx_frame_mbs_only = True,
     sx_mb_adaptive = False, sx_direct_8x8 = True, sx_crop = Some (0, 0, 0, 4)\<rparr>"

lemmas syntax_defs = sps_syntax_def head_syntax_def high_syntax_def poc_syntax_def size_syntax_def crop_syntax_def sx_high_def

lemmas size_defs = sx_resolution_def sx_crop_x_def sx_crop_y_def sx_frame_width_def sx_frame_height_def
  sx_crop_unit_x_def sx_crop_unit_y_def sx_chroma_array_type_def sx_high_def

lemma sps_1080_ok: "sps_ok sps_1080"
  by (simp add: sps_ok_def scaling_ok_def syntax_defs size_defs sps_1080_def)

lemma sps_1080_bits:
  "bits_of [66, 0, 40, 218, 1, 224, 8, 159, 149] = syntax_bits (sps_syntax sps_1080) @ [False, True]"
  by code_simp

theorem h264_sps_resolution_witness:
  "parseH264SPSFull (AddEmulationPreventionBytes [66, 0, 40, 218, 1, 224, 8, 159, 149]) = Inr \<lparr>res_Width = 1920, res_Height = 1080\<rparr>"
proof -
  have "sx_resolution sps_1080 = \<lparr>res_Width = 1920, res_Height = 1080\<rparr>" by (simp add: size_defs sps_1080_def)
  then show ?thesis using h264_sps_resolution [OF sps_1080_ok sps_1080_bits] by simp
qed

end
