(* ===== verification/Parameter_Sets.thy ===== *)
theory Parameter_Sets
  imports H264_SPS
begin

unbundle bit_operations_syntax

text \<open>
  The H.264 parameter set and slice header parsers of \<^verbatim>\<open>internal/ingestion/types/h264_parser.go\<close>, the validation
  of \<^verbatim>\<open>parameter_validation.go\<close> and the header repair of \<^verbatim>\<open>nal_header_fix.go\<close>.  Every failing read is an early
  return.  \<^verbatim>\<open>parseResolutionFromSPS\<close> returns nothing: what it has stored in the set when it returns is its result.
\<close>

section \<open>Data\<close>

record ParameterSet =
  ps_ID :: byte
  ps_Data :: "byte list"
  ps_ParsedAt :: int
  ps_Size :: nat
  ps_Valid :: bool
  ps_ErrorReason :: string
  ps_ProfileIDC :: "byte option"
  ps_ConstraintFlags :: "byte option"
  ps_LevelIDC :: "byte option"
  ps_Log2MaxFrameNumMinus4 :: "byte option"
  ps_Width :: "int option"
  ps_Height :: "int option"

record PPSContext =
  pp_Set :: ParameterSet
  pp_ReferencedSPSID :: byte

record FrameDecodingRequirements =
  rq_PPSID :: byte
  rq_SPSID :: byte
  rq_SliceType :: byte
  rq_IsIDR :: bool
  rq_FrameNum :: u32
  rq_HasFrameNum :: bool

definition empty_set_of :: "byte \<Rightarrow> byte list \<Rightarrow> int \<Rightarrow> ParameterSet" where
  "empty_set_of i data now = \<lparr>ps_ID = i, ps_Data = data, ps_ParsedAt = now, ps_Size = length data, ps_Valid = True,
     ps_ErrorReason = [], ps_ProfileIDC = None, ps_ConstraintFlags = None, ps_LevelIDC = None,
     ps_Log2MaxFrameNumMinus4 = None, ps_Width = None, ps_Height = None\<rparr>"

datatype ps_error =
    PSTooShort string nat
  | RBSPFailed rbsp_error
  | FieldFailed string tb_error
  | PSOutOfRange string u32
  | CorruptPattern
  | InvalidNALType byte
  | EmptyNALData
  | TypeMismatch byte byte
  | UnknownPPS byte

definition nal_type :: "byte \<Rightarrow> byte" where
  "nal_type header = header AND 0x1F"

section \<open>Sequence parameter sets\<close>

text \<open>The blocks of \<^verbatim>\<open>parseResolutionFromSPS\<close>; \<open>Inl ()\<close> is its early return.\<close>

fun tp_scaling_lists :: "nat \<Rightarrow> nat \<Rightarrow> BitReader \<Rightarrow> unit + BitReader" where
  "tp_scaling_lists i 0 br = Inr br"
| "tp_scaling_lists i (Suc n) br =
     on_read tb_ReadBit br (\<lambda>_. Inl ())
       (\<lambda>present br.
          if present = 1 then
            (case skipScalingList tb_ReadSE i br of
               Inl e \<Rightarrow> Inl ()
             | Inr br \<Rightarrow> tp_scaling_lists (i + 1) n br)
          else tp_scaling_lists (i + 1) n br)"

fun tp_ref_frames :: "nat \<Rightarrow> BitReader \<Rightarrow> unit + BitReader" where
  "tp_ref_frames 0 br = Inr br"
| "tp_ref_frames (Suc n) br = on_read tb_ReadSE br (\<lambda>_. Inl ()) (\<lambda>_ br. tp_ref_frames n br)"

definition tp_high :: "byte \<Rightarrow> BitReader \<Rightarrow> unit + u32 \<times> BitReader" where
  "tp_high profileIDC br =
     (if profileIDC \<in> {100, 110, 122, 244, 44, 83, 86, 118, 128, 138} then
        on_read tb_ReadUE br (\<lambda>_. Inl ()) (\<lambda>chromaFormatIDC br.
          if chromaFormatIDC > 3 then Inl ()
          else
            and_then
              (if chromaFormatIDC = 3
               then on_read tb_ReadBit br (\<lambda>_. Inl ()) (\<lambda>separate br. Inr (if separate = 1 then 0 else chromaFormatIDC, br))
               else Inr (chromaFormatIDC, br)) (\<lambda>(chromaArrayType, br).
            on_read tb_ReadUE br (\<lambda>_. Inl ()) (\<lambda>_ br.
            on_read tb_ReadUE br (\<lambda>_. Inl ()) (\<lambda>_ br.
            on_read tb_ReadBit br (\<lambda>_. Inl ()) (\<lambda>_ br.
            on_read tb_ReadBit br (\<lambda>_. Inl ()) (\<lambda>scalingMatrixPresent br.
            and_then
              (if scalingMatrixPresent = 1 then tp_scaling_lists 0 (if chromaFormatIDC = 3 then 12 else 8) br else Inr br)
              (\<lambda>br. Inr (chromaArrayType, br))))))))
      else Inr (1, br))"

definition tp_poc :: "BitReader \<Rightarrow> unit + BitReader" where
  "tp_poc br =
     on_read tb_ReadUE br (\<lambda>_. Inl ()) (\<lambda>pocType br.
       if pocType > 2 then Inl ()
       else if pocType = 0 then
         on_read tb_ReadUE br (\<lambda>_. Inl ()) (\<lambda>lsb br. if lsb > 12 then Inl () else Inr br)
       else if pocType = 1 then
         on_read tb_ReadBit br (\<lambda>_. Inl ()) (\<lambda>_ br.
         on_read tb_ReadSE br (\<lambda>_. Inl ()) (\<lambda>_ br.
         on_read tb_ReadSE br (\<lambda>_. Inl ()) (\<lambda>_ br.
         on_read tb_ReadUE br (\<lambda>_. Inl ()) (\<lambda>numRefFrames br.
           if numRefFrames > 255 then Inl () else tp_ref_frames (unat numRefFrames) br))))
       else Inr br)"

definition tp_size :: "BitReader \<Rightarrow> unit + (int \<times> int) \<times> BitReader" where
  "tp_size br =
     on_read tb_ReadUE br (\<lambda>_. Inl ()) (\<lambda>_ br.
     on_read tb_ReadBit br (\<lambda>_. Inl ()) (\<lambda>_ br.
     on_read tb_ReadUE br (\<lambda>_. Inl ()) (\<lambda>widthInMBs br.
       if widthInMBs > 511 then Inl ()
       else on_read tb_ReadUE br (\<lambda>_. Inl ()) (\<lambda>heightInMapUnits br.
         if heightInMapUnits > 511 then Inl ()
         else Inr ((uint (widthInMBs + 1) * 16, uint (heightInMapUnits + 1) * 16), br)))))"

definition tp_sub_chroma :: "u32 \<Rightarrow> u32 \<times> u32" where
  "tp_sub_chroma chromaArrayType =
     (if chromaArrayType = 0 then (1, 1) else if chromaArrayType = 1 then (2, 2) else if chromaArrayType = 2 then (2, 1)
      else if chromaArrayType = 3 then (1, 1) else (2, 2))"

text \<open>From here on width and height are known, and every return keeps what they are at that point.\<close>

definition tp_cropped :: "u32 \<Rightarrow> u32 \<Rightarrow> int \<times> int \<Rightarrow> u32 \<times> u32 \<times> u32 \<times> u32 \<Rightarrow> int \<times> int" where
  "tp_cropped chromaArrayType frameMBSOnlyFlag dims crop =
     (let (width, height) = dims; (cropLeft, cropRight, cropTop, cropBottom) = crop;
          (subWidthC, subHeightC) = tp_sub_chroma chromaArrayType;
          cropUnitX = subWidthC; cropUnitY = subHeightC * (2 - frameMBSOnlyFlag)
      in if cropLeft * cropUnitX \<ge> word_of_int width \<or> cropRight * cropUnitX \<ge> word_of_int width \<or>
            cropTop * cropUnitY \<ge> word_of_int height \<or> cropBottom * cropUnitY \<ge> word_of_int height
         then (width, height)
         else (width - uint (cropLeft * cropUnitX) - uint (cropRight * cropUnitX),
               height - uint (cropTop * cropUnitY) - uint (cropBottom * cropUnitY)))"

definition tp_crop :: "u32 \<Rightarrow> u32 \<Rightarrow> int \<times> int \<Rightarrow> BitReader \<Rightarrow> int \<times> int" where
  "tp_crop chromaArrayType frameMBSOnlyFlag dims br =
     on_read tb_ReadBit br (\<lambda>_. dims) (\<lambda>_ br.
     on_read tb_ReadBit br (\<lambda>_. dims) (\<lambda>frameCroppingFlag br.
       if frameCroppingFlag = 1 then
         on_read tb_ReadUE br (\<lambda>_. dims) (\<lambda>cropLeft br.
         on_read tb_ReadUE br (\<lambda>_. dims) (\<lambda>cropRight br.
         on_read tb_ReadUE br (\<lambda>_. dims) (\<lambda>cropTop br.
         on_read tb_ReadUE br (\<lambda>_. dims) (\<lambda>cropBottom br.
           tp_cropped chromaArrayType frameMBSOnlyFlag dims (cropLeft, cropRight, cropTop, cropBottom)))))
       else dims))"

definition tp_frame :: "u32 \<Rightarrow> int \<times> int \<Rightarrow> BitReader \<Rightarrow> int \<times> int" where
  "tp_frame chromaArrayType dims br =
     (let (width, height) = dims
      in if width < 16 \<or> height < 16 \<or> width > 8192 \<or> height > 8192 then (width, height)
         else on_read tb_ReadBit br (\<lambda>_. (width, height)) (\<lambda>frameMBSOnlyFlagBit br.
           let frameMBSOnlyFlag = ucast frameMBSOnlyFlagBit
           in if frameMBSOnlyFlag = 0
              then on_read tb_ReadBit br (\<lambda>_. (width, height * 2)) (\<lambda>_ br.
                     tp_crop chromaArrayType frameMBSOnlyFlag (width, height * 2) br)
              else tp_crop chromaArrayType frameMBSOnlyFlag (width, height) br))"

text \<open>The deferred function: store the size if there is one.\<close>

definition tp_store :: "int \<times> int \<Rightarrow> ParameterSet \<Rightarrow> ParameterSet" where
  "tp_store dims sps =
     (let (width, height) = dims
      in if width > 0 \<and> height > 0 then sps\<lparr>ps_Width := Some width, ps_Height := Some height\<rparr> else sps)"

definition parseResolutionFromSPS :: "BitReader \<Rightarrow> byte \<Rightarrow> ParameterSet \<Rightarrow> ParameterSet" where
  "parseResolutionFromSPS br profileIDC sps =
     (case tp_high profileIDC br of
        Inl _ \<Rightarrow> tp_store (0, 0) sps
      | Inr (chromaArrayType, br) \<Rightarrow>
          on_read tb_ReadUE br (\<lambda>_. tp_store (0, 0) sps) (\<lambda>log2MaxFrameNumMinus4 br.
            if log2MaxFrameNumMinus4 > 12 then tp_store (0, 0) sps
            else
              (let sps = sps\<lparr>ps_Log2MaxFrameNumMinus4 := Some (ucast log2MaxFrameNumMinus4)\<rparr>
               in case and_then (tp_poc br) tp_size of
                    Inl _ \<Rightarrow> tp_store (0, 0) sps
                  | Inr (dims, br) \<Rightarrow> tp_store (tp_frame chromaArrayType dims br) sps)))"

definition parseSPS :: "int \<Rightarrow> byte list \<Rightarrow> ps_error + ParameterSet" where
  "parseSPS lastUpdated data =
     (if length data < 2 then Inl (PSTooShort ''SPS'' (length data))
      else
        (let nalType = nal_type (data ! 0)
         in case (if nalType = 7 \<or> nalType = 15 then ExtractRBSPFromNALUnit data else ExtractRBSPFromPayload data) of
              Inl e \<Rightarrow> Inl (RBSPFailed e)
            | Inr rbspData \<Rightarrow>
                on_read (tb_ReadBits 8) (NewBitReader rbspData) (\<lambda>e. Inl (FieldFailed ''profile_idc'' e)) (\<lambda>profileIDC br.
                on_read (tb_ReadBits 8) br (\<lambda>e. Inl (FieldFailed ''constraint flags'' e)) (\<lambda>constraintFlags br.
                on_read (tb_ReadBits 8) br (\<lambda>e. Inl (FieldFailed ''level_idc'' e)) (\<lambda>levelIDC br.
                on_read tb_ReadUE br (\<lambda>e. Inl (FieldFailed ''sps_id'' e)) (\<lambda>spsID br.
                  if spsID > 31 then Inl (PSOutOfRange ''sps_id'' spsID)
                  else Inr (parseResolutionFromSPS br (ucast profileIDC)
                         ((empty_set_of (ucast spsID) data lastUpdated)
                            \<lparr>ps_ProfileIDC := Some (ucast profileIDC), ps_ConstraintFlags := Some (ucast constraintFlags),
                             ps_LevelIDC := Some (ucast levelIDC)\<rparr>))))))))"

section \<open>Picture parameter sets and slice headers\<close>

definition parsePPS :: "int \<Rightarrow> byte list \<Rightarrow> ps_error + PPSContext" where
  "parsePPS lastUpdated data =
     (if length data < 2 then Inl (PSTooShort ''PPS'' (length data))
      else
        case (if nal_type (data ! 0) = 8 then ExtractRBSPFromNALUnit data else ExtractRBSPFromPayload data) of
          Inl e \<Rightarrow> Inl (RBSPFailed e)
        | Inr rbspData \<Rightarrow>
            if length rbspData < 1 then Inl (PSTooShort ''PPS RBSP'' (length rbspData))
            else
              on_read tb_ReadUE (NewBitReader rbspData) (\<lambda>e. Inl (FieldFailed ''pps_id'' e)) (\<lambda>ppsID br.
                if ppsID > 255 then Inl (PSOutOfRange ''pps_id'' ppsID)
                else on_read tb_ReadUE br (\<lambda>e. Inl (FieldFailed ''sps_id'' e)) (\<lambda>spsID br.
                  if spsID > 31 then Inl (PSOutOfRange ''sps_id'' spsID)
                  else Inr \<lparr>pp_Set = empty_set_of (ucast ppsID) data lastUpdated, pp_ReferencedSPSID = ucast spsID\<rparr>)))"

text \<open>The slice header is read with the maps of the context at hand.\<close>

definition parseSliceHeader ::
  "(byte \<rightharpoonup> ParameterSet) \<Rightarrow> (byte \<rightharpoonup> PPSContext) \<Rightarrow> byte list \<Rightarrow> bool \<Rightarrow> ps_error + FrameDecodingRequirements" where
  "parseSliceHeader spsMap ppsMap data isIDR =
     (if length data < 2 then Inl (PSTooShort ''slice header'' (length data))
      else
        (let nalType = nal_type (data ! 0)
         in case (if nalType \<ge> 1 \<and> nalType \<le> 5 then ExtractRBSPFromNALUnit data
                  else if nalType > 5 \<and> nalType \<le> 23 then ExtractRBSPFromNALUnit data
                  else ExtractRBSPFromPayload data) of
              Inl e \<Rightarrow> Inl (RBSPFailed e)
            | Inr rbspData \<Rightarrow>
                on_read tb_ReadUE (NewBitReader rbspData) (\<lambda>e. Inl (FieldFailed ''first_mb_in_slice'' e)) (\<lambda>_ br.
                on_read tb_ReadUE br (\<lambda>e. Inl (FieldFailed ''slice_type'' e)) (\<lambda>sliceType br.
                  if sliceType > 9 then Inl (PSOutOfRange ''slice_type'' sliceType)
                  else on_read tb_ReadUE br (\<lambda>e. Inl (FieldFailed ''pps_id'' e)) (\<lambda>ppsID br.
                    if ppsID > 255 then Inl (PSOutOfRange ''pps_id'' ppsID)
                    else case ppsMap (ucast ppsID) of
                        None \<Rightarrow> Inl (UnknownPPS (ucast ppsID))
                      | Some pps \<Rightarrow>
                          let requirements = \<lparr>rq_PPSID = ucast ppsID, rq_SPSID = pp_ReferencedSPSID pps,
                                rq_SliceType = ucast sliceType, rq_IsIDR = isIDR, rq_FrameNum = 0, rq_HasFrameNum = False\<rparr>
                          in case spsMap (pp_ReferencedSPSID pps) of
                               None \<Rightarrow> Inr requirements
                             | Some sps \<Rightarrow>
                                 (case ps_Log2MaxFrameNumMinus4 sps of
                                    None \<Rightarrow> Inr requirements
                                  | Some l \<Rightarrow>
                                      on_read (tb_ReadBits (uint l + 4)) br (\<lambda>_. Inr requirements)
                                        (\<lambda>frameNum br. Inr (requirements\<lparr>rq_FrameNum := frameNum, rq_HasFrameNum := True\<rparr>))))))))"

section \<open>Validation\<close>

definition parsePPSIDs :: "byte list \<Rightarrow> ps_error + byte \<times> byte" where
  "parsePPSIDs rbspData =
     (if length rbspData < 1 then Inl (PSTooShort ''RBSP'' (length rbspData))
      else
        on_read tb_ReadUE (NewBitReader rbspData) (\<lambda>e. Inl (FieldFailed ''PPS ID'' e)) (\<lambda>ppsIDVal br.
          if ppsIDVal > 255 then Inl (PSOutOfRange ''PPS ID'' ppsIDVal)
          else on_read tb_ReadUE br (\<lambda>e. Inl (FieldFailed ''SPS ID'' e)) (\<lambda>spsIDVal br.
            if spsIDVal > 31 then Inl (PSOutOfRange ''SPS ID'' spsIDVal)
            else Inr (ucast ppsIDVal, ucast spsIDVal))))"

definition on_rbsp :: "rbsp_error + byte list \<Rightarrow> (byte list \<Rightarrow> ps_error + 'a) \<Rightarrow> ps_error + 'a" where
  "on_rbsp r f = (case r of Inl e \<Rightarrow> Inl (RBSPFailed e) | Inr rbspData \<Rightarrow> f rbspData)"

definition validateRawPPSData :: "byte list \<Rightarrow> ps_error + byte \<times> byte" where
  "validateRawPPSData data =
     (if length data < 1 then Inl (PSTooShort ''raw PPS'' (length data))
      else on_rbsp (ExtractRBSPFromPayload data) parsePPSIDs)"

definition ValidatePPSData :: "byte list \<Rightarrow> ps_error + byte \<times> byte" where
  "ValidatePPSData data =
     (if length data < 2 then Inl (PSTooShort ''PPS'' (length data))
      else
        (let nalHeader = data ! 0; nalType = nal_type nalHeader; forbiddenBit = (nalHeader AND 0x80 \<noteq> 0);
             isValidNALHeader = (\<not> forbiddenBit \<and> nalType > 0 \<and> nalType \<le> 31)
         in if nalType = 8 then on_rbsp (ExtractRBSPFromNALUnit data) parsePPSIDs
            else if nalType \<ge> 10 \<and> nalType \<le> 23 then validateRawPPSData data
            else if isValidNALHeader \<and> nalType \<noteq> 8 \<and> nalType \<noteq> 40 \<and> nalType \<in> {1, 5, 6, 7, 9}
            then Inl (InvalidNALType nalType)
            else case validateRawPPSData data of
                Inr ids \<Rightarrow> Inr ids
              | Inl rawErr \<Rightarrow>
                  if isValidNALHeader \<and> nalType \<noteq> 8 \<and> nalType \<noteq> 40 then Inl (InvalidNALType nalType) else Inl rawErr))"

definition parseSPSID :: "byte list \<Rightarrow> ps_error + byte" where
  "parseSPSID rbspData =
     (if length rbspData < 4 then Inl (PSTooShort ''RBSP'' (length rbspData))
      else if rbspData ! 0 = 0x27 \<and> rbspData ! 1 = 0x4f then Inl CorruptPattern
      else
        on_read (tb_ReadBits 8) (NewBitReader rbspData) (\<lambda>e. Inl (FieldFailed ''profile_idc'' e)) (\<lambda>_ br.
        on_read (tb_ReadBits 8) br (\<lambda>e. Inl (FieldFailed ''constraint flags'' e)) (\<lambda>_ br.
        on_read (tb_ReadBits 8) br (\<lambda>e. Inl (FieldFailed ''level_idc'' e)) (\<lambda>_ br.
        on_read tb_ReadUE br (\<lambda>e. Inl (FieldFailed ''SPS ID'' e)) (\<lambda>spsIDVal br.
          if spsIDVal > 31 then Inl (PSOutOfRange ''SPS ID'' spsIDVal) else Inr (ucast spsIDVal))))))"

definition parseSPSIDFromNALUnit :: "byte list \<Rightarrow> ps_error + byte" where
  "parseSPSIDFromNALUnit data =
     (if length data < 2 then Inl (PSTooShort ''SPS NAL unit'' (length data))
      else on_rbsp (ExtractRBSPFromNALUnit data) parseSPSID)"

definition parseSPSIDFromRawData :: "byte list \<Rightarrow> ps_error + byte" where
  "parseSPSIDFromRawData data =
     (if length data < 3 then Inl (PSTooShort ''raw SPS'' (length data))
      else on_rbsp (ExtractRBSPFromPayload data) parseSPSID)"

definition commonProfiles :: "byte set" where
  "commonProfiles = {66, 77, 88, 100, 110, 122, 244}"

definition ValidateSPSData :: "byte list \<Rightarrow> ps_error + byte" where
  "ValidateSPSData data =
     (if length data < 4 then Inl (PSTooShort ''SPS'' (length data))
      else
        (let nalHeader = data ! 0; nalType = nal_type nalHeader; isLikelyProfileIDC = (data ! 0 \<in> commonProfiles)
         in if isLikelyProfileIDC \<and> nalType \<noteq> 7 \<and> nalType \<noteq> 15 then parseSPSIDFromRawData data
            else if nalType = 7 \<or> nalType = 15 then parseSPSIDFromNALUnit data
            else case parseSPSIDFromRawData data of
                Inr spsID \<Rightarrow> Inr spsID
              | Inl err \<Rightarrow>
                  let forbiddenBit = (nalHeader AND 0x80 \<noteq> 0)
                  in if \<not> forbiddenBit \<and> nalType > 0 \<and> nalType \<le> 31 \<and> nalType \<noteq> 7 \<and> nalType \<noteq> 15
                     then Inl (InvalidNALType nalType) else Inl err))"

text \<open>The check of one expected type; other types are not looked at.\<close>

definition validate_as :: "byte \<Rightarrow> byte list \<Rightarrow> ps_error option" where
  "validate_as expectedType data =
     (if expectedType = 7 then (case ValidateSPSData data of Inl e \<Rightarrow> Some e | Inr _ \<Rightarrow> None)
      else if expectedType = 8 then (case ValidatePPSData data of Inl e \<Rightarrow> Some e | Inr _ \<Rightarrow> None)
      else None)"

definition ValidateAndFixNALUnit :: "byte list \<Rightarrow> byte \<Rightarrow> ps_error + byte list" where
  "ValidateAndFixNALUnit data expectedType =
     (if length data = 0 then Inl EmptyNALData
      else
        (let nalHeader = data ! 0; nalType = nal_type nalHeader
         in if nalType = expectedType
            then (case validate_as expectedType data of Some e \<Rightarrow> Inl e | None \<Rightarrow> Inr data)
            else
              (let forbiddenBit = (nalHeader AND 0x80 \<noteq> 0);
                   shouldTryFix =
                     (if expectedType = 7 then data ! 0 \<in> commonProfiles
                      else if expectedType = 8 then forbiddenBit \<or> nalType > 23 \<or> nalType = 0
                      else False)
               in if shouldTryFix
                  then (let fixed = (0x60 OR expectedType) # data
                        in case validate_as expectedType fixed of Some e \<Rightarrow> Inl e | None \<Rightarrow> Inr fixed)
                  else Inl (TypeMismatch expectedType nalType))))"

section \<open>Header repair\<close>

definition CleanNALHeader :: "byte \<Rightarrow> byte" where
  "CleanNALHeader header = header AND 0x7F"

definition CleanNALUnitData :: "byte list \<Rightarrow> byte list" where
  "CleanNALUnitData data = (if length data = 0 then data else data[0 := CleanNALHeader (data ! 0)])"

definition IsValidNALHeader :: "byte \<Rightarrow> bool" where
  "IsValidNALHeader header =
     (if header AND 0x80 \<noteq> 0 then False else if header AND 0x1F = 0 then False else True)"

end
