(* ===== verification/Parameter_Sets_Props.thy ===== *)
theory Parameter_Sets_Props
  imports Parameter_Sets H264_SPS_Props
begin

unbundle bit_operations_syntax

text \<open>
  The parameter set parser of the types package on conforming sequence parameter sets: its stages consume the
  syntax of \<open>H264_SPS_Props\<close>, and it stores the picture size of the standard, the size the parser of the
  resolution package reports.
\<close>

section \<open>The stages\<close>

lemma tp_scaling_lists_consumes:
  "lists_ok i ls \<Longrightarrow> reads br (syntax_bits (scaling_syntax ls) @ r) \<Longrightarrow>
   \<exists>br'. tp_scaling_lists i (length ls) br = Inr br' \<and> reads br' r"
proof (induction ls arbitrary: i br)
  case (Cons l ls)
  show ?case
  proof (cases l)
    case None
    then have "reads br (to_bits 1 0 @ (syntax_bits (scaling_syntax ls) @ r))" using Cons.prems(2) by simp
    then obtain br1 where "tb_ReadBit br = (br1, Inr 0)" "reads br1 (syntax_bits (scaling_syntax ls) @ r)"
      using tb_ReadBit_rest [of br] by (auto simp: reads_def)
    then show ?thesis using Cons by (simp add: on_read_def)
  next
    case (Some ds)
    then have "reads br (to_bits 1 1 @ (syntax_bits (map SE ds) @ syntax_bits (scaling_syntax ls) @ r))" using Cons.prems(2) by simp
    then obtain br1 where 1: "tb_ReadBit br = (br1, Inr 1)" "reads br1 (syntax_bits (map SE ds) @ syntax_bits (scaling_syntax ls) @ r)"
      using tb_ReadBit_rest [of br] by (auto simp: reads_def)
    have "deltas_ok (if i \<ge> 6 then 64 else 16) 8 ds" using Cons.prems(1) Some by simp
    from skipScalingList_consumes [OF se_readers(2) this 1(2)] show ?thesis
      using 1(1) Cons by (auto simp: on_read_def)
  qed
qed simp

lemma tp_ref_frames_consumes:
  assumes "reads br (syntax_bits (map SE ds) @ r)" and "list_all element_ok (map SE ds)"
  shows "\<exists>br'. tp_ref_frames (length ds) br = Inr br' \<and> reads br' r"
  using assms
proof (induction ds arbitrary: br)
  case (Cons d ds)
  obtain br1 where "tb_ReadSE br = (br1, Inr d)" "reads br1 (syntax_bits (map SE ds) @ r)"
    using reads_se [of br d "syntax_bits (map SE ds) @ r"] Cons.prems by auto
  then show ?case using Cons by (simp add: on_read_def)
qed simp

lemma u8_of_nat_eq:
  assumes "v < 256" and "c < 256"
  shows "of_nat v = (of_nat c :: byte) \<longleftrightarrow> v = c"
  using assms by (simp add: word_of_nat_eq_iff take_bit_nat_eq_self)

lemma ucast_of_nat_byte: "(ucast (of_nat n :: u32) :: byte) = of_nat n"
  by (rule bit_word_eqI) (simp add: bit_simps)

lemma ucast_profile_high:
  assumes "sx_profile_idc s < 256"
  shows "(ucast (of_nat (sx_profile_idc s) :: u32) :: byte) \<in> {100, 110, 122, 244, 44, 83, 86, 118, 128, 138} \<longleftrightarrow> sx_high s"
proof -
  have "(of_nat (sx_profile_idc s) :: byte) = numeral k \<longleftrightarrow> sx_profile_idc s = numeral k" if "numeral k < (256 :: nat)" for k
    using u8_of_nat_eq [OF assms that] by simp
  then show ?thesis by (simp add: sx_high_def ucast_of_nat_byte)
qed

lemma u32_le:
  assumes "v \<le> b" and "b < 2 ^ 32"
  shows "(of_nat b < (of_nat v :: u32)) = False"
  using assms by (simp add: word_less_nat_alt unsigned_of_nat take_bit_nat_eq_self)

lemma tp_high_consumes:
  assumes "reads br (syntax_bits (high_syntax s) @ r)" and "list_all element_ok (high_syntax s)" and "scaling_ok s"
    and "sx_profile_idc s < 256" and "sx_chroma_format_idc s \<le> 3"
    and "\<And>br'. reads br' r \<Longrightarrow> k (of_nat (sx_chroma_array_type s), br') = res"
  shows "and_then (tp_high (ucast (of_nat (sx_profile_idc s) :: u32)) br) k = res"
proof (cases "sx_high s")
  case False
  then show ?thesis using assms(1,6) ucast_profile_high [OF assms(4)] by (simp add: tp_high_def high_syntax_def sx_chroma_array_type_def)
next
  case True
  let ?c = "sx_chroma_format_idc s"
  have p: "ucast (of_nat (sx_profile_idc s) :: u32) \<in> {100, 110, 122, 244, 44, 83, 86, 118, 128, 138 :: byte}"
    using ucast_profile_high [OF assms(4)] True by blast
  have c: "?c < 2 ^ 32 - 1" using assms(2) True by (simp add: high_syntax_def)
  have c3: "of_nat ?c = (3 :: u32) \<longleftrightarrow> ?c = 3" using c by (intro u32_tests(3)) simp_all
  have range: "((3 :: u32) < of_nat ?c) = False" using u32_le [OF assms(5)] by simp
  have lists: "\<exists>br'. (if sx_scaling_lists s \<noteq> None then tp_scaling_lists 0 (if ?c = 3 then 12 else 8) br0 else Inr br0) = Inr br' \<and> reads br' r"
    if "reads br0 (syntax_bits (case sx_scaling_lists s of None \<Rightarrow> [] | Some ls \<Rightarrow> scaling_syntax ls) @ r)" for br0
  proof (cases "sx_scaling_lists s")
    case (Some ls)
    then have n: "length ls = (if ?c = 3 then 12 else 8)" and d: "lists_ok 0 ls" using assms(3) by (simp_all add: scaling_ok_def)
    show ?thesis using tp_scaling_lists_consumes [OF d, of br0 r] that Some unfolding n by simp
  qed (use that in simp)
  have rest: "and_then (if (of_bool ((1::nat) \<le> of_bool (sx_scaling_lists s \<noteq> None)) :: byte) = 1
        then tp_scaling_lists 0 n br0 else Inr br0) (\<lambda>br. k (t, br)) = res"
    if "reads br0 (syntax_bits (case sx_scaling_lists s of None \<Rightarrow> [] | Some ls \<Rightarrow> scaling_syntax ls) @ r)"
      "n = (if ?c = 3 then 12 else 8)" "t = of_nat (sx_chroma_array_type s)" for br0 t n
    using lists [OF that(1)] that(2,3) assms(6) True by (cases "sx_scaling_lists s") (auto split: if_splits)
  have ok: "sx_bit_depth_luma s < 2 ^ 32 - 1" "sx_bit_depth_chroma s < 2 ^ 32 - 1" using assms(2) True by (simp_all add: high_syntax_def)
  show ?thesis
  proof (cases "?c = 3")
    case c3': True
    then have c3'': "(of_nat ?c = (3 :: u32)) = True" by simp
    have "reads br (ue_code ?c @ to_bits 1 (of_bool (sx_separate_colour_plane s)) @ ue_code (sx_bit_depth_luma s) @
        ue_code (sx_bit_depth_chroma s) @ to_bits 1 (of_bool (sx_qpprime_bypass s)) @ to_bits 1 (of_bool (sx_scaling_lists s \<noteq> None)) @
        syntax_bits (case sx_scaling_lists s of None \<Rightarrow> [] | Some ls \<Rightarrow> scaling_syntax ls) @ r)"
      using assms(1) True c3' by (simp add: high_syntax_def del: to_bits.simps)
    then show ?thesis unfolding tp_high_def if_P [OF p] and_then_on_read
      apply (elim reads_rules)
      apply (rule c)
      apply (simp only: range c3'' if_True if_False and_then_on_read and_then_simps and_then_assoc prod.case)
      apply (elim reads_rules)
      by (rule ok | erule rest | simp add: c3' sx_chroma_array_type_def True)+
  next
    case c3': False
    then have c3'': "(of_nat ?c = (3 :: u32)) = False" using c3 by simp
    have "reads br (ue_code ?c @ ue_code (sx_bit_depth_luma s) @
        ue_code (sx_bit_depth_chroma s) @ to_bits 1 (of_bool (sx_qpprime_bypass s)) @ to_bits 1 (of_bool (sx_scaling_lists s \<noteq> None)) @
        syntax_bits (case sx_scaling_lists s of None \<Rightarrow> [] | Some ls \<Rightarrow> scaling_syntax ls) @ r)"
      using assms(1) True c3' by (simp add: high_syntax_def del: to_bits.simps)
    then show ?thesis unfolding tp_high_def if_P [OF p] and_then_on_read
      apply (elim reads_rules)
      apply (rule c)
      apply (simp only: range c3'' if_False and_then_on_read and_then_simps and_then_assoc prod.case)
      apply (elim reads_rules)
      by (rule ok | erule rest | simp add: c3' sx_chroma_array_type_def True)+
  qed
qed

lemma tp_poc_consumes:
  assumes "reads br (syntax_bits (poc_syntax s) @ r)" and "list_all element_ok (poc_syntax s)"
    and "sx_poc_type s \<le> 2" and "sx_log2_max_poc_lsb s \<le> 12" and "length (sx_ref_frame_offsets s) \<le> 255"
    and "\<And>br'. reads br' r \<Longrightarrow> k br' = res"
  shows "and_then (tp_poc br) k = res"
proof -
  let ?p = "sx_poc_type s" and ?n = "length (sx_ref_frame_offsets s)"
  have p: "?p < 2 ^ 32 - 1" and n: "?n < 2 ^ 32 - 1" and l: "sx_log2_max_poc_lsb s < 2 ^ 32 - 1" using assms(3-5) by auto
  have small: "((2 :: u32) < 0) = False" "((2 :: u32) < 1) = False" by simp_all
  have range: "((255 :: u32) < of_nat ?n) = False" "((12 :: u32) < of_nat (sx_log2_max_poc_lsb s)) = False"
    using u32_le [OF assms(4)] u32_le [OF assms(5)] by simp_all
  consider "?p = 0" | "?p = 1" | "?p = 2" using assms(3) by linarith
  then show ?thesis
  proof cases
    case 1
    have "reads br (ue_code ?p @ ue_code (sx_log2_max_poc_lsb s) @ r)" using assms(1) 1 by (simp add: poc_syntax_def)
    moreover have "of_nat ?p = (0 :: u32)" using 1 by simp
    ultimately show ?thesis unfolding tp_poc_def and_then_on_read
      apply (elim reads_rules)
      apply (rule p)
      apply (simp only: small simp_thms if_True if_False and_then_on_read and_then_simps)
      apply (elim reads_rules)
      apply (rule l)
      by (simp add: range assms(6))
  next
    case 2
    then have el: "\<bar>sx_offset_non_ref s\<bar> < 2 ^ 31" "\<bar>sx_offset_top_bottom s\<bar> < 2 ^ 31"
      "list_all element_ok (map SE (sx_ref_frame_offsets s))" using assms(2) by (simp_all add: poc_syntax_def)
    have "reads br (ue_code ?p @ to_bits 1 (of_bool (sx_delta_always_zero s)) @ ue_code (se_number (sx_offset_non_ref s)) @
       ue_code (se_number (sx_offset_top_bottom s)) @ ue_code ?n @ syntax_bits (map SE (sx_ref_frame_offsets s)) @ r)"
      using assms(1) 2 by (simp add: poc_syntax_def)
    moreover have "and_then (tp_ref_frames (unat (of_nat ?n :: u32)) br0) k = res"
      if "reads br0 (syntax_bits (map SE (sx_ref_frame_offsets s)) @ r)" for br0
      using tp_ref_frames_consumes [OF that el(3)] assms(6) u32_tests(4) [of ?n] n by auto
    moreover have "of_nat ?p = (1 :: u32)" using 2 by simp
    ultimately show ?thesis unfolding tp_poc_def and_then_on_read
      apply (elim reads_rules)
      apply (rule p)
      apply (simp only: small simp_thms if_True if_False and_then_on_read and_then_simps one_neq_zero and_then_assoc)
      apply (elim reads_rules)
      by (rule el n | simp add: range)+
  next
    case 3
    have "reads br (ue_code ?p @ r)" using assms(1) 3 by (simp add: poc_syntax_def)
    moreover have "of_nat ?p = (2 :: u32)" using 3 by simp
    ultimately show ?thesis unfolding tp_poc_def and_then_on_read
      by (elim reads_rules) (use p assms(6) in simp_all)
  qed
qed

lemma tp_size_consumes:
  assumes "reads br (ue_code m @ to_bits 1 g @ ue_code (w - 1) @ ue_code (h - 1) @ r)"
    and "m < 2 ^ 32 - 1" and "1 \<le> w" and "w \<le> 512" and "1 \<le> h" and "h \<le> 512"
    and "\<And>br'. reads br' r \<Longrightarrow> k ((int (16 * w), int (16 * h)), br') = res"
  shows "and_then (tp_size br) k = res"
proof -
  have lt: "w - 1 < 2 ^ 32 - 1" "h - 1 < 2 ^ 32 - 1" using assms(4,6) by simp_all
  have range: "((511 :: u32) < of_nat (w - 1)) = False" "((511 :: u32) < of_nat (h - 1)) = False"
    using u32_le [of "w - 1" 511] u32_le [of "h - 1" 511] assms(4,6) by simp_all
  have dims: "uint ((of_nat (w - 1) :: u32) + 1) * 16 = int (16 * w)" "uint ((of_nat (h - 1) :: u32) + 1) * 16 = int (16 * h)"
    using assms(3-6) by (simp_all add: minus_one_back uint_of_nat_small)
  show ?thesis using assms(1) unfolding tp_size_def and_then_on_read
    apply (elim reads_rules)
     apply (rule assms lt)+
    apply (simp only: range if_False and_then_on_read)
    apply (elim reads_rules)
     apply (rule lt)
    by (simp only: range if_False and_then_simps dims assms(7))
qed

lemma tp_sub_chroma_units:
  assumes "sx_chroma_format_idc s \<le> 3"
  shows "tp_sub_chroma (of_nat (sx_chroma_array_type s)) =
    (of_nat (sx_crop_unit_x s), of_nat (if sx_chroma_array_type s = 1 then 2 else 1))"
proof -
  have "sx_chroma_array_type s \<in> {0, 1, 2, 3}" using assms by (auto simp: sx_chroma_array_type_def)
  then show ?thesis by (auto simp: tp_sub_chroma_def sx_crop_unit_x_def)
qed

lemma word_le_small: "a < b \<Longrightarrow> b < 2 ^ 32 \<Longrightarrow> (of_nat b \<le> (of_nat a :: u32)) = False"
  by (simp add: word_le_nat_alt unsigned_of_nat take_bit_nat_eq_self)

lemma tp_cropped_standard:
  assumes "sps_ok s" and "sx_crop s = Some (l, r, t, b)"
  shows "tp_cropped (of_nat (sx_chroma_array_type s)) (of_bool (sx_frame_mbs_only s))
      (int (sx_frame_width s), int (sx_frame_height s)) (of_nat l, of_nat r, of_nat t, of_nat b) =
    (int (sx_frame_width s - sx_crop_x s), int (sx_frame_height s - sx_crop_y s))"
proof -
  let ?ux = "sx_crop_unit_x s" and ?uy = "sx_crop_unit_y s" and ?w = "sx_frame_width s" and ?h = "sx_frame_height s"
  have w: "?w < 2 ^ 32" "?h < 2 ^ 32" using assms(1) by (auto simp: sps_ok_def sx_frame_width_def sx_frame_height_def)
  have x: "l * ?ux + r * ?ux < ?w" "sx_crop_x s = l * ?ux + r * ?ux" and y: "t * ?uy + b * ?uy < ?h" "sx_crop_y s = t * ?uy + b * ?uy"
    using assms by (auto simp: sps_ok_def sx_crop_x_def sx_crop_y_def algebra_simps)
  have uy: "of_nat (if sx_chroma_array_type s = 1 then 2 else 1) * (2 - of_bool (sx_frame_mbs_only s)) = (of_nat ?uy :: u32)"
    by (simp add: sx_crop_unit_y_def)
  have lt: "l * ?ux < ?w" "r * ?ux < ?w" "t * ?uy < ?h" "b * ?uy < ?h" using x(1) y(1) by linarith+
  have le: "(of_nat ?w \<le> (of_nat (l * ?ux) :: u32)) = False" "(of_nat ?w \<le> (of_nat (r * ?ux) :: u32)) = False"
    "(of_nat ?h \<le> (of_nat (t * ?uy) :: u32)) = False" "(of_nat ?h \<le> (of_nat (b * ?uy) :: u32)) = False"
    using lt w by (intro word_le_small; simp)+
  have u: "uint (of_nat (l * ?ux) :: u32) = int (l * ?ux)" "uint (of_nat (r * ?ux) :: u32) = int (r * ?ux)"
    "uint (of_nat (t * ?uy) :: u32) = int (t * ?uy)" "uint (of_nat (b * ?uy) :: u32) = int (b * ?uy)"
    using lt w by (intro uint_of_nat_small; linarith)+
  have c: "sx_chroma_format_idc s \<le> 3" using assms(1) by (simp add: sps_ok_def)
  show ?thesis
    unfolding tp_cropped_def Let_def prod.case tp_sub_chroma_units [OF c] uy of_int_of_nat_eq
      of_nat_mult [symmetric, where 'a = "32 word"] le simp_thms if_False u x(2) y(2)
    using x(1) y(1) by (simp add: of_nat_diff)
qed

lemma tp_crop_standard:
  assumes "sps_ok s" and "reads br (to_bits 1 d @ syntax_bits (crop_syntax s) @ r)"
  shows "tp_crop (of_nat (sx_chroma_array_type s)) (of_bool (sx_frame_mbs_only s)) (int (sx_frame_width s), int (sx_frame_height s)) br =
    (int (sx_frame_width s - sx_crop_x s), int (sx_frame_height s - sx_crop_y s))"
proof (cases "sx_crop s")
  case None
  have "reads br (to_bits 1 d @ to_bits 1 0 @ r)" using assms(2) None by (simp add: crop_syntax_def)
  then show ?thesis unfolding tp_crop_def
    by (elim reads_rules) (simp add: sx_crop_x_def sx_crop_y_def None)
next
  case (Some c)
  obtain l rr t b where c: "c = (l, rr, t, b)" by (cases c)
  have "list_all element_ok (crop_syntax s)" using assms(1) by (simp add: sps_ok_def sps_syntax_def)
  then have ok: "l < 2 ^ 32 - 1" "rr < 2 ^ 32 - 1" "t < 2 ^ 32 - 1" "b < 2 ^ 32 - 1" using Some c by (simp_all add: crop_syntax_def)
  have "reads br (to_bits 1 d @ to_bits 1 1 @ ue_code l @ ue_code rr @ ue_code t @ ue_code b @ r)" using assms(2) Some c by (simp add: crop_syntax_def)
  then show ?thesis unfolding tp_crop_def
    apply (elim reads_rules)
    apply (simp only: of_bool_eq le_refl simp_thms if_True)
    apply (elim reads_rules)
        apply (rule ok)+
    by (rule tp_cropped_standard [OF assms(1)]) (simp add: Some c)
qed

lemma tp_frame_standard:
  assumes "sps_ok s" and "reads br (syntax_bits (FLAG (sx_frame_mbs_only s) #
      (if sx_frame_mbs_only s then [] else [FLAG (sx_mb_adaptive s)]) @ [FLAG (sx_direct_8x8 s)]) @ syntax_bits (crop_syntax s) @ r)"
  shows "tp_frame (of_nat (sx_chroma_array_type s)) (int (16 * sx_width_in_mbs s), int (16 * sx_height_in_map_units s)) br =
    (int (sx_frame_width s - sx_crop_x s), int (sx_frame_height s - sx_crop_y s))"
proof -
  have range: "(int (16 * sx_width_in_mbs s) < 16 \<or> int (16 * sx_height_in_map_units s) < 16 \<or>
      int (16 * sx_width_in_mbs s) > 8192 \<or> int (16 * sx_height_in_map_units s) > 8192) = False"
    using assms(1) by (auto simp: sps_ok_def)
  have fw: "sx_frame_width s = 16 * sx_width_in_mbs s" by (simp add: sx_frame_width_def)
  show ?thesis
  proof (cases "sx_frame_mbs_only s")
    case True
    have fh: "sx_frame_height s = 16 * sx_height_in_map_units s" using True by (simp add: sx_frame_height_def)
    have "reads br (to_bits 1 1 @ to_bits 1 (of_bool (sx_direct_8x8 s)) @ syntax_bits (crop_syntax s) @ r)" using assms(2) True by simp
    then show ?thesis unfolding tp_frame_def Let_def prod.case range if_False
      apply (elim on_tb_bit)
      using tp_crop_standard [OF assms(1)] True by (simp add: fw fh del: to_bits.simps)
  next
    case False
    have fh: "sx_frame_height s = 16 * sx_height_in_map_units s * 2" using False by (simp add: sx_frame_height_def)
    have "reads br (to_bits 1 0 @ to_bits 1 (of_bool (sx_mb_adaptive s)) @ to_bits 1 (of_bool (sx_direct_8x8 s)) @ syntax_bits (crop_syntax s) @ r)"
      using assms(2) False by simp
    then show ?thesis unfolding tp_frame_def Let_def prod.case range if_False
      apply (elim on_tb_bit)
      apply (simp only: of_bool_eq not_one_le_zero unsigned_0 simp_thms if_True)
      apply (elim on_tb_bit)
      using tp_crop_standard [OF assms(1)] False by (simp add: fw fh del: to_bits.simps)
  qed
qed

section \<open>The whole set\<close>

text \<open>What a conforming set stores.\<close>

definition standard_set :: "int \<Rightarrow> byte list \<Rightarrow> h264_syntax \<Rightarrow> ParameterSet" where
  "standard_set now data s =
     (empty_set_of (of_nat (sx_id s)) data now)
       \<lparr>ps_ProfileIDC := Some (of_nat (sx_profile_idc s)), ps_ConstraintFlags := Some (of_nat (sx_constraint_flags s)),
        ps_LevelIDC := Some (of_nat (sx_level_idc s)), ps_Log2MaxFrameNumMinus4 := Some (of_nat (sx_log2_max_frame_num s)),
        ps_Width := Some (res_Width (sx_resolution s)), ps_Height := Some (res_Height (sx_resolution s))\<rparr>"

lemma sps_ok_parts:
  assumes "sps_ok s"
  shows "list_all element_ok (head_syntax s)" "list_all element_ok (high_syntax s)" "list_all element_ok (poc_syntax s)"
    "list_all element_ok (size_syntax s)" "list_all element_ok (crop_syntax s)" "scaling_ok s" "sx_log2_max_frame_num s \<le> 12"
    "sx_profile_idc s < 256" "sx_id s \<le> 31" "sx_chroma_format_idc s \<le> 3" "sx_poc_type s \<le> 2" "sx_log2_max_poc_lsb s \<le> 12"
    "length (sx_ref_frame_offsets s) \<le> 255" "1 \<le> sx_width_in_mbs s" "sx_width_in_mbs s \<le> 512"
    "1 \<le> sx_height_in_map_units s" "sx_height_in_map_units s \<le> 512" "sx_max_num_ref_frames s < 2 ^ 32 - 1"
  using assms by (simp_all add: sps_ok_def sps_syntax_def head_syntax_def size_syntax_def)

lemma case_sum_and_then: "(case r of Inl e \<Rightarrow> f e | Inr (a, b) \<Rightarrow> g a b) = res"
  if "and_then r (\<lambda>(a, b). Inr (g a b)) = (Inr res :: 'e + 'c)"
  using that by (auto simp: and_then_def split: sum.splits prod.splits)

lemma tp_store_standard:
  assumes "sps_ok s"
  shows "tp_store (int (sx_frame_width s - sx_crop_x s), int (sx_frame_height s - sx_crop_y s)) sps =
    sps\<lparr>ps_Width := Some (res_Width (sx_resolution s)), ps_Height := Some (res_Height (sx_resolution s))\<rparr>"
  using assms by (auto simp: tp_store_def sx_resolution_def sps_ok_def)

lemma parseResolutionFromSPS_standard:
  assumes "sps_ok s" and "reads br (syntax_bits (high_syntax s) @ ue_code (sx_log2_max_frame_num s) @
      syntax_bits (poc_syntax s) @ syntax_bits (size_syntax s) @ syntax_bits (crop_syntax s) @ r)"
  shows "parseResolutionFromSPS br (ucast (of_nat (sx_profile_idc s) :: u32)) sps =
    sps\<lparr>ps_Log2MaxFrameNumMinus4 := Some (of_nat (sx_log2_max_frame_num s)),
        ps_Width := Some (res_Width (sx_resolution s)), ps_Height := Some (res_Height (sx_resolution s))\<rparr>"
proof -
  note ok = sps_ok_parts [OF assms(1)]
  have l: "sx_log2_max_frame_num s < 2 ^ 32 - 1" "((12 :: u32) < of_nat (sx_log2_max_frame_num s)) = False"
    using ok(7) u32_le [OF ok(7)] by simp_all
  define tail where "tail = FLAG (sx_frame_mbs_only s) #
      (if sx_frame_mbs_only s then [] else [FLAG (sx_mb_adaptive s)]) @ [FLAG (sx_direct_8x8 s)]"
  have sz: "syntax_bits (size_syntax s) = ue_code (sx_max_num_ref_frames s) @ to_bits 1 (of_bool (sx_gaps_allowed s)) @
      ue_code (sx_width_in_mbs s - 1) @ ue_code (sx_height_in_map_units s - 1) @ syntax_bits tail"
    by (simp add: size_syntax_def tail_def)
  note frame = tp_frame_standard [OF assms(1), folded tail_def]
  have size: "(case and_then (tp_poc br1) tp_size of Inl _ \<Rightarrow> tp_store (0, 0) x
        | Inr (dims, br) \<Rightarrow> tp_store (tp_frame (of_nat (sx_chroma_array_type s)) dims br) x) =
      x\<lparr>ps_Width := Some (res_Width (sx_resolution s)), ps_Height := Some (res_Height (sx_resolution s))\<rparr>"
    if "reads br1 (syntax_bits (poc_syntax s) @ syntax_bits (size_syntax s) @ syntax_bits (crop_syntax s) @ r)" for br1 x
    using that
    apply -
    apply (rule case_sum_and_then [where 'e = unit], unfold and_then_assoc)
    apply (elim tp_poc_consumes, (rule ok)+, unfold sz append_assoc)
    apply (elim tp_size_consumes, (rule ok)+)
    by (simp add: frame tp_store_standard [OF assms(1)] del: of_nat_mult)
  show ?thesis using assms(2) unfolding parseResolutionFromSPS_def
    apply -
    apply (rule case_sum_and_then [where 'e = unit])
    apply (elim tp_high_consumes, (rule ok)+, unfold prod.case, rule arg_cong [where f = Inr])
    apply (elim reads_rules)
     apply (rule l)
    by (simp add: l size ucast_of_nat_byte)
qed

lemma head_reads:
  assumes "reads br (syntax_bits (sps_syntax s) @ r)"
  shows "reads br (to_bits 8 (sx_profile_idc s) @ to_bits 8 (sx_constraint_flags s) @ to_bits 8 (sx_level_idc s) @
    ue_code (sx_id s) @ syntax_bits (high_syntax s) @ ue_code (sx_log2_max_frame_num s) @
    syntax_bits (poc_syntax s) @ syntax_bits (size_syntax s) @ syntax_bits (crop_syntax s) @ r)"
  using assms by (simp add: sps_syntax_def head_syntax_def)

lemma AddEmulation_unescape:
  "ExtractRBSPFromNALUnit (h # AddEmulationPreventionBytes payload) = Inr payload"
  "ExtractRBSPFromPayload (AddEmulationPreventionBytes payload) = Inr payload"
proof -
  have "RemoveEmulationPreventionBytes (AddEmulationPreventionBytes payload) = Inr payload" if "payload \<noteq> []"
    using that remove_add_loop [of 0 payload]
    by (cases payload) (auto simp: RemoveEmulationPreventionBytes_def AddEmulationPreventionBytes_def)
  moreover have "AddEmulationPreventionBytes payload = [] \<longleftrightarrow> payload = []"
    by (cases payload) (auto simp: AddEmulationPreventionBytes_def)
  ultimately show "ExtractRBSPFromNALUnit (h # AddEmulationPreventionBytes payload) = Inr payload"
    "ExtractRBSPFromPayload (AddEmulationPreventionBytes payload) = Inr payload"
    by (auto simp: ExtractRBSPFromNALUnit_def ExtractRBSPFromPayload_def)
qed

lemma parseSPS_rbsp:
  assumes "sps_ok s" and "bits_of payload = syntax_bits (sps_syntax s) @ rest" and "2 \<le> length data"
    and "(if nal_type (data ! 0) = 7 \<or> nal_type (data ! 0) = 15 then ExtractRBSPFromNALUnit data else ExtractRBSPFromPayload data)
      = Inr payload"
  shows "parseSPS now data = Inr (standard_set now data s)"
proof -
  note ok = sps_ok_parts [OF assms(1)]
  have hd: "sx_profile_idc s < 2 ^ 8" "sx_constraint_flags s < 2 ^ 8" "sx_level_idc s < 2 ^ 8" "sx_id s < 2 ^ 32 - 1"
    "((31 :: u32) < of_nat (sx_id s)) = False"
    using ok(1,9) u32_le [OF ok(9)] by (simp_all add: head_syntax_def)
  have len: "(length data < 2) = False" using assms(3) by simp
  have "reads (NewBitReader payload) (syntax_bits (sps_syntax s) @ rest)" using reads_New [of payload] assms(2) by simp
  from head_reads [OF this] show ?thesis
    unfolding parseSPS_def Let_def assms(4) sum.case len if_False
    apply (elim reads_rules)
             apply (simp_all only: hd)
        apply simp_all
    by (simp add: parseResolutionFromSPS_standard [OF assms(1), unfolded ucast_of_nat_byte] standard_set_def ucast_of_nat_byte)
qed

lemma nal_type_expected: "t \<le> 31 \<Longrightarrow> nal_type (0x60 OR t) = t"
  for t :: byte
proof -
  assume "t \<le> 31"
  then have "unat t < 2 ^ 5" by (simp add: word_le_nat_alt)
  then have "take_bit 5 t = t" by (simp add: word_unat_eq_iff unsigned_take_bit_eq take_bit_nat_eq_self)
  moreover have "(0x60 OR t) AND 0x1F = take_bit 5 (0x60 OR t)" by (simp add: take_bit_eq_mask mask_eq_exp_minus_1)
  ultimately show ?thesis by (simp add: nal_type_def take_bit_or)
qed

section \<open>Properties\<close>



text \<open>A unit that \<^verbatim>\<open>ValidateAndFixNALUnit\<close> hands back has the expected type and passes the validation for it; it is
  the given unit, or the given bytes behind a new header.\<close>

theorem fixed_nal_unit_valid:
  assumes "ValidateAndFixNALUnit data expectedType = Inr unit" and "expectedType \<le> 31"
  shows "unit \<noteq> [] \<and> nal_type (unit ! 0) = expectedType \<and> validate_as expectedType unit = None \<and>
    (unit = data \<or> unit = (0x60 OR expectedType) # data)"
  using assms(1) nal_type_expected [OF assms(2)]
  by (auto simp: ValidateAndFixNALUnit_def Let_def split: if_splits option.splits)

theorem fixed_nal_unit_valid_witness:
  "ValidateAndFixNALUnit [0xC0] 8 = Inr [0x68, 0xC0] \<and> validate_as 8 [0x68, 0xC0] = None"
proof -
  have "ValidateAndFixNALUnit [0xC0] 8 = Inr [0x68, 0xC0]" by code_simp
  moreover have "(8 :: byte) \<le> 31" by simp
  ultimately show ?thesis using fixed_nal_unit_valid [of "[0xC0]" 8 "[0x68, 0xC0]"] by blast
qed

end
