(* ===== verification/Parameter_Remap.thy ===== *)
theory Parameter_Remap
  imports Parameter_Sets_Props
begin

unbundle bit_operations_syntax

text \<open>
  Rewriting the identifiers inside parameter sets and slice headers,
  \<^verbatim>\<open>createRemappedSPS\<close>, \<^verbatim>\<open>createRemappedPPS\<close> and \<^verbatim>\<open>remapSliceHeaderPPSID\<close> of
  \<^verbatim>\<open>internal/ingestion/types/parameter_context.go\<close>: the bits before the identifier are copied, a new code is written,
  the bits after the old code are copied and the result is escaped again.
\<close>

section \<open>Operations\<close>

text \<open>The loop that copies a number of bits; \<open>None\<close> is its error return.\<close>

fun copy_prefix :: "nat \<Rightarrow> BitReader \<Rightarrow> BitWriter \<Rightarrow> (BitReader \<times> BitWriter) option" where
  "copy_prefix 0 br bw = Some (br, bw)"
| "copy_prefix (Suc n) br bw =
     (case tb_ReadBit br of (_, Inl e) \<Rightarrow> None | (br, Inr b) \<Rightarrow> copy_prefix n br (WriteBit b bw))"

text \<open>The loop that copies what is left.\<close>

function copy_rest :: "BitReader \<Rightarrow> BitWriter \<Rightarrow> BitWriter" where
  "copy_rest br bw =
     (if tb_HasMoreBits br
      then (case tb_ReadBit br of (_, Inl e) \<Rightarrow> bw | (br, Inr b) \<Rightarrow> copy_rest br (WriteBit b bw))
      else bw)"
  by pat_completeness auto
termination
  by (relation "measures [\<lambda>(br, bw). length (br_data br) - br_bytePos br, \<lambda>(br, bw). 8 - br_bitPos br]")
    (auto simp: tb_ReadBit_def tb_HasMoreBits_def Let_def split: if_splits)

declare copy_rest.simps [simp del]

definition rebuild_unit :: "byte \<Rightarrow> BitWriter \<Rightarrow> byte list" where
  "rebuild_unit header bw = header # AddEmulationPreventionBytes (GetBytes bw)"

definition createRemappedSPS :: "ParameterSet option \<Rightarrow> byte \<Rightarrow> byte list option" where
  "createRemappedSPS originalSPS newID =
     (case originalSPS of
        None \<Rightarrow> None
      | Some sps \<Rightarrow>
          (let newSPS = ps_Data sps; payload = drop 1 newSPS; original = Some (ps_Data sps)
           in if length newSPS < 5 then None
              else if newSPS ! 0 AND 0x1F \<noteq> 7 then None
              else if length payload < 4 then None
              else
                on_read (tb_ReadBits 8) (NewBitReader payload) (\<lambda>_. original) (\<lambda>_ br.
                on_read (tb_ReadBits 8) br (\<lambda>_. original) (\<lambda>_ br.
                on_read (tb_ReadBits 8) br (\<lambda>_. original) (\<lambda>_ br.
                  let startBitPos = tb_GetBitPosition br
                  in on_read tb_ReadUE br (\<lambda>_. original) (\<lambda>originalID br.
                       if originalID > 31 then original
                       else
                         (let endBitPos = tb_GetBitPosition br
                          in case copy_prefix startBitPos (NewBitReader payload) NewBitWriter of
                               None \<Rightarrow> original
                             | Some (originalBr, bw) \<Rightarrow>
                                 Some (rebuild_unit (newSPS ! 0)
                                   (copy_rest (tb_SeekToBit endBitPos originalBr) (WriteUE (ucast newID) bw))))))))))"

definition createRemappedPPS :: "PPSContext option \<Rightarrow> byte \<Rightarrow> byte \<Rightarrow> byte list option" where
  "createRemappedPPS originalPPS newID referencedSPSID =
     (case originalPPS of
        None \<Rightarrow> None
      | Some pps \<Rightarrow>
          (let newPPS = ps_Data (pp_Set pps); payload = drop 1 newPPS; original = Some (ps_Data (pp_Set pps))
           in if length newPPS < 3 then None
              else if newPPS ! 0 AND 0x1F \<noteq> 8 then None
              else if length payload < 2 then None
              else
                on_read tb_ReadUE (NewBitReader payload) (\<lambda>_. original) (\<lambda>originalPPSID br.
                  if originalPPSID > 255 then original
                  else on_read tb_ReadUE br (\<lambda>_. original) (\<lambda>originalSPSID br.
                    if originalSPSID > 31 then original
                    else
                      (let spsEndBit = tb_GetBitPosition br;
                           bw = WriteUE (ucast referencedSPSID) (WriteUE (ucast newID) NewBitWriter)
                       in Some (rebuild_unit (newPPS ! 0)
                            (copy_rest (tb_SeekToBit spsEndBit (NewBitReader payload)) bw)))))))"

definition remapSliceHeaderPPSID :: "byte list \<Rightarrow> byte \<Rightarrow> byte list" where
  "remapSliceHeaderPPSID originalSlice newPPSID =
     (if length originalSlice < 3 then originalSlice
      else
        (let nalType = originalSlice ! 0 AND 0x1F; payload = drop 1 originalSlice
         in if nalType < 1 \<or> nalType > 5 then originalSlice
            else if length payload < 2 then originalSlice
            else
              on_read tb_ReadUE (NewBitReader payload) (\<lambda>_. originalSlice) (\<lambda>_ br.
              on_read tb_ReadUE br (\<lambda>_. originalSlice) (\<lambda>_ br.
                let ppsIDStartBit = tb_GetBitPosition br
                in on_read tb_ReadUE br (\<lambda>_. originalSlice) (\<lambda>originalPPSID br.
                     if originalPPSID > 255 then originalSlice
                     else
                       (let ppsIDEndBit = tb_GetBitPosition br
                        in case copy_prefix ppsIDStartBit (NewBitReader payload) NewBitWriter of
                             None \<Rightarrow> originalSlice
                           | Some (originalBr, bw) \<Rightarrow>
                               rebuild_unit (originalSlice ! 0)
                                 (copy_rest (tb_SeekToBit ppsIDEndBit originalBr) (WriteUE (ucast newPPSID) bw))))))))"

section \<open>Copying bits\<close>

text \<open>A reader at a known place of its data.\<close>

definition reads_at :: "byte list \<Rightarrow> BitReader \<Rightarrow> bool list \<Rightarrow> bool" where
  "reads_at data br bs \<longleftrightarrow> reads br bs \<and> br_data br = data"

lemma reads_at_New: "reads_at data (NewBitReader data) (bits_of data)"
  using reads_New [of data] by (simp add: reads_at_def NewBitReader_def)

lemma tb_ReadBit_data [simp]: "br_data (fst (tb_ReadBit br)) = br_data br"
  by (simp add: tb_ReadBit_def Let_def)

lemma reads_at_bit:
  assumes "reads_at data br (b # r)"
  obtains br' where "tb_ReadBit br = (br', Inr (of_bool b))" and "reads_at data br' r"
proof -
  obtain br' where 1: "tb_ReadBit br = (br', Inr (of_bool b))" "reads br' r"
    using tb_ReadBit_rest [of br] assms by (auto simp: reads_at_def reads_def)
  moreover have "br_data br' = data" using tb_ReadBit_data [of br] 1(1) assms by (simp add: reads_at_def)
  ultimately show ?thesis using that by (simp add: reads_at_def)
qed

lemma tb_ReadBits_loop_data: "br_data (fst (tb_ReadBits_loop n v br)) = br_data br"
proof (induction n arbitrary: v br)
  case (Suc n)
  then show ?case using tb_ReadBit_data [of br] by (cases "tb_ReadBit br") (auto split: sum.splits)
qed simp

lemma tb_ReadBits_data [simp]: "br_data (fst (tb_ReadBits n br)) = br_data br"
  by (simp add: tb_ReadBits_def Let_def tb_ReadBits_loop_data)

lemma tb_leadingZeros_data: "br_data (fst (tb_leadingZeros z br)) = br_data br"
proof (induction z br rule: tb_leadingZeros.induct)
  case (1 z br)
  obtain br' r where r: "tb_ReadBit br = (br', r)" by (cases "tb_ReadBit br")
  have d: "br_data br' = br_data br" using tb_ReadBit_data [of br] r by simp
  show ?case
  proof (cases r)
    case (Inl e)
    then show ?thesis using r d by (subst tb_leadingZeros.simps) simp
  next
    case (Inr b)
    then show ?thesis using r d "1.IH" [OF r [symmetric] Inr] by (subst tb_leadingZeros.simps) simp
  qed
qed

lemma tb_ReadUE_data [simp]: "br_data (fst (tb_ReadUE br)) = br_data br"
proof -
  obtain br1 r where 1: "tb_leadingZeros 0 br = (br1, r)" by (cases "tb_leadingZeros 0 br")
  have d: "br_data br1 = br_data br" using tb_leadingZeros_data [of 0 br] 1 by simp
  have "br_data x = br_data br" if "tb_ReadBits n br1 = (x, y)" for n x y
    using d tb_ReadBits_data [of n br1] that by simp
  then show ?thesis using 1 d
    by (auto simp: tb_ReadUE_def Let_def split: sum.splits prod.splits)
qed

lemma reads_at_ue:
  assumes "reads_at data br (ue_code v @ r)" and "v < 2 ^ 32 - 1" and "\<And>br'. reads_at data br' r \<Longrightarrow> ok (of_nat v) br' = res"
  shows "on_read tb_ReadUE br fail ok = res"
proof -
  obtain br' where 1: "tb_ReadUE br = (br', Inr (of_nat v))" "reads br' r"
    using tb_ReadUE_code [of br v r] assms(1,2) by (auto simp: reads_at_def reads_def)
  then show ?thesis using assms(1,3) tb_ReadUE_data [of br] by (simp add: on_read_def reads_at_def)
qed

lemma reads_at_bits:
  assumes "reads_at data br (bs @ r)" and "length bs \<le> 32" and "m = int (length bs)"
    and "\<And>br'. reads_at data br' r \<Longrightarrow> ok (of_nat (bits_val bs)) br' = res"
  shows "on_read (tb_ReadBits m) br fail ok = res"
proof -
  obtain br' where 1: "tb_ReadBits m br = (br', Inr (of_nat (bits_val bs)))" "reads br' r"
    using tb_ReadBits_code [of br bs r] assms(1-3) by (auto simp: reads_at_def reads_def)
  then show ?thesis using assms(1,4) tb_ReadBits_data [of m br] by (simp add: on_read_def reads_at_def)
qed

lemma position_of:
  assumes "reads_at data br r" and "bits_of data = bs @ r"
  shows "tb_GetBitPosition br = length bs"
proof -
  have "length (br_rest br) = 8 * length data - tb_GetBitPosition br" "tb_GetBitPosition br \<le> 8 * length data"
    using assms(1) length_br_rest [of br] by (auto simp: reads_at_def reads_def br_inv_def tb_GetBitPosition_def algebra_simps)
  moreover have "8 * length data = length bs + length r" using arg_cong [OF assms(2), of length] by simp
  ultimately show ?thesis using assms(1) by (simp add: reads_at_def reads_def)
qed

lemma seek_reads:
  assumes "reads_at data br q" and "bits_of data = bs @ r"
  shows "reads_at data (tb_SeekToBit (length bs) br) r"
proof -
  have "length bs \<le> 8 * length data" using arg_cong [OF assms(2), of length] by simp
  then have "length bs div 8 < length data \<or> length bs div 8 = length data \<and> length bs mod 8 = 0" by presburger
  then have "br_inv (tb_SeekToBit (length bs) br)"
    using assms(1) by (simp add: br_inv_def tb_SeekToBit_def reads_at_def)
  moreover have "br_rest (tb_SeekToBit (length bs) br) = r"
    using assms by (simp add: br_rest_def tb_SeekToBit_def reads_at_def)
  ultimately show ?thesis using assms(1) by (simp add: reads_at_def reads_def tb_SeekToBit_def)
qed

lemma bit_of_bool_0: "bit (of_bool b :: byte) 0 = b"
  by simp

lemma copy_prefix_bits:
  "reads_at data br (bs @ r) \<Longrightarrow> bw_inv ws bw \<Longrightarrow>
   \<exists>br' bw'. copy_prefix (length bs) br bw = Some (br', bw') \<and> reads_at data br' r \<and> bw_inv (ws @ bs) bw'"
proof (induction bs arbitrary: br bw ws)
  case (Cons b bs)
  obtain br1 where 1: "tb_ReadBit br = (br1, Inr (of_bool b))" "reads_at data br1 (bs @ r)"
    using Cons.prems(1) by (auto elim: reads_at_bit)
  have "bw_inv (ws @ [b]) (WriteBit (of_bool b) bw)"
    using WriteBit_appends [OF Cons.prems(2), of "of_bool b"] unfolding bit_of_bool_0 .
  from Cons.IH [OF 1(2) this] show ?case using 1(1) by simp
qed simp

lemma HasMoreBits_iff: "reads_at data br r \<Longrightarrow> tb_HasMoreBits br \<longleftrightarrow> r \<noteq> []"
  using length_br_rest [of br] by (fastforce simp: reads_at_def reads_def tb_HasMoreBits_def br_inv_def)

lemma copy_rest_bits: "reads_at data br r \<Longrightarrow> bw_inv ws bw \<Longrightarrow> bw_inv (ws @ r) (copy_rest br bw)"
proof (induction r arbitrary: br bw ws)
  case Nil
  then show ?case using HasMoreBits_iff [OF Nil(1)] by (subst copy_rest.simps) simp
next
  case (Cons b r)
  obtain br1 where 1: "tb_ReadBit br = (br1, Inr (of_bool b))" "reads_at data br1 r"
    using Cons.prems(1) by (auto elim: reads_at_bit)
  have "bw_inv (ws @ [b]) (WriteBit (of_bool b) bw)"
    using WriteBit_appends [OF Cons.prems(2), of "of_bool b"] unfolding bit_of_bool_0 .
  from Cons.IH [OF 1(2) this] show ?case
    using 1(1) HasMoreBits_iff [OF Cons.prems(1)] by (subst copy_rest.simps) simp
qed

lemma rebuild_bits:
  assumes "bw_inv ws bw"
  shows "\<exists>payload n. rebuild_unit h bw = h # AddEmulationPreventionBytes payload \<and> bits_of payload = ws @ replicate n False \<and> n < 8"
  using GetBytes_bits [OF assms] by (auto simp: rebuild_unit_def)

lemma WriteUE_byte: "bw_inv ws bw \<Longrightarrow> bw_inv (ws @ ue_code (unat i)) (WriteUE (ucast i) bw)"
  for i :: byte
  using WriteUE_appends [of ws bw "ucast i"] unsigned_less [of i, where 'a = nat] by (simp add: unsigned_ucast_eq take_bit_nat_eq_self)

section \<open>What the rewriting does\<close>

lemma createRemappedSPS_bits:
  assumes "ps_Data sps = h # payload" and "nal_type h = 7" and "4 \<le> length payload"
    and "bits_of payload = p @ c @ l @ ue_code i @ post" and "length p = 8" and "length c = 8" and "length l = 8" and "i \<le> 31"
  shows "\<exists>payload' n. createRemappedSPS (Some sps) newID = Some (h # AddEmulationPreventionBytes payload') \<and>
    bits_of payload' = p @ c @ l @ ue_code (unat newID) @ post @ replicate n False"
proof -
  have start: "tb_GetBitPosition br = length (p @ c @ l)" if "reads_at payload br (ue_code i @ post)" for br
    using position_of [OF that, of "p @ c @ l"] assms(4) by simp
  have fin: "tb_GetBitPosition br = length (p @ c @ l @ ue_code i)" if "reads_at payload br post" for br
    using position_of [OF that, of "p @ c @ l @ ue_code i"] assms(4) by simp
  obtain br1 bw1 where cp: "copy_prefix (length (p @ c @ l)) (NewBitReader payload) NewBitWriter = Some (br1, bw1)"
      "reads_at payload br1 (ue_code i @ post)" "bw_inv (p @ c @ l) bw1"
    using copy_prefix_bits [of payload "NewBitReader payload" "p @ c @ l" "ue_code i @ post" "[]" NewBitWriter]
      reads_at_New [of payload] bw_inv_New assms(4) by auto
  let ?bw = "copy_rest (tb_SeekToBit (length (p @ c @ l @ ue_code i)) br1) (WriteUE (ucast newID) bw1)"
  have "bw_inv ((p @ c @ l) @ ue_code (unat newID) @ post) ?bw"
    using copy_rest_bits [OF seek_reads [OF cp(2), of "p @ c @ l @ ue_code i" post] WriteUE_byte [OF cp(3)]] assms(4) by simp
  from rebuild_bits [OF this, of h] obtain payload' n where
    r: "rebuild_unit h ?bw = h # AddEmulationPreventionBytes payload'"
    "bits_of payload' = p @ c @ l @ ue_code (unat newID) @ post @ replicate n False" by auto
  have small: "i < 2 ^ 32 - 1" "((31 :: u32) < of_nat i) = False" using assms(8) u32_le [of i 31] by simp_all
  have g: "(length (h # payload) < 5) = False" "(length payload < 4) = False" "(h AND 0x1F \<noteq> 7) = False"
    using assms(2,3) by (auto simp: nal_type_def)
  have "reads_at payload (NewBitReader payload) (p @ c @ l @ ue_code i @ post)" using reads_at_New [of payload] assms(4) by simp
  then have "createRemappedSPS (Some sps) newID = Some (rebuild_unit h ?bw)"
    unfolding createRemappedSPS_def option.case Let_def assms(1) drop_Suc_Cons drop0 One_nat_def nth_Cons_0 g if_False
    apply -
    apply (erule reads_at_bits, (simp add: assms(5-7))+)+
    apply (frule start)
    apply (erule reads_at_ue, rule small)
    apply (frule fin)
    by (simp only: small if_False cp(1) option.case prod.case) (simp add: assms(5-7))
  then show ?thesis using r by auto
qed

lemma createRemappedPPS_bits:
  assumes "ps_Data (pp_Set pps) = h # payload" and "nal_type h = 8" and "2 \<le> length payload"
    and "bits_of payload = ue_code i @ ue_code j @ post" and "i \<le> 255" and "j \<le> 31"
  shows "\<exists>payload' n. createRemappedPPS (Some pps) newID ref = Some (h # AddEmulationPreventionBytes payload') \<and>
    bits_of payload' = ue_code (unat newID) @ ue_code (unat ref) @ post @ replicate n False \<and> n < 8"
proof -
  have fin: "tb_GetBitPosition br = length (ue_code i @ ue_code j)" if "reads_at payload br post" for br
    using position_of [OF that, of "ue_code i @ ue_code j"] assms(4) by simp
  let ?bw = "copy_rest (tb_SeekToBit (length (ue_code i @ ue_code j)) (NewBitReader payload))
      (WriteUE (ucast ref) (WriteUE (ucast newID) NewBitWriter))"
  have w: "bw_inv (ue_code (unat newID) @ ue_code (unat ref)) (WriteUE (ucast ref) (WriteUE (ucast newID) NewBitWriter))"
    using WriteUE_byte [OF WriteUE_byte [OF bw_inv_New]] by simp
  have "reads_at payload (tb_SeekToBit (length (ue_code i @ ue_code j)) (NewBitReader payload)) post"
    using seek_reads [OF reads_at_New [of payload]] assms(4) by (metis append_assoc)
  from copy_rest_bits [OF this w] have "bw_inv (ue_code (unat newID) @ ue_code (unat ref) @ post) ?bw" by simp
  from rebuild_bits [OF this, of h] obtain payload' n where
    r: "rebuild_unit h ?bw = h # AddEmulationPreventionBytes payload'"
    "bits_of payload' = ue_code (unat newID) @ ue_code (unat ref) @ post @ replicate n False" "n < 8" by auto
  have small: "i < 2 ^ 32 - 1" "((255 :: u32) < of_nat i) = False" "j < 2 ^ 32 - 1" "((31 :: u32) < of_nat j) = False"
    using assms(5,6) u32_le [of i 255] u32_le [of j 31] by simp_all
  have g: "(length (h # payload) < 3) = False" "(length payload < 2) = False" "(h AND 0x1F \<noteq> 8) = False"
    using assms(2,3) by (auto simp: nal_type_def)
  have "reads_at payload (NewBitReader payload) (ue_code i @ ue_code j @ post)" using reads_at_New [of payload] assms(4) by simp
  then have "createRemappedPPS (Some pps) newID ref = Some (rebuild_unit h ?bw)"
    unfolding createRemappedPPS_def option.case Let_def assms(1) drop_Suc_Cons drop0 One_nat_def nth_Cons_0 g if_False
    apply -
    apply (erule reads_at_ue, rule small)
    apply (simp only: small if_False)
    apply (erule reads_at_ue, rule small)
    apply (frule fin)
    by (simp only: small if_False)
  then show ?thesis using r by auto
qed

lemma remapSliceHeaderPPSID_bits:
  assumes "unit = h # payload" and "1 \<le> nal_type h" and "nal_type h \<le> 5" and "2 \<le> length payload"
    and "bits_of payload = ue_code m @ ue_code t @ ue_code i @ post" and "m < 2 ^ 32 - 1" and "t < 2 ^ 32 - 1" and "i \<le> 255"
  shows "\<exists>payload' n. remapSliceHeaderPPSID unit newID = h # AddEmulationPreventionBytes payload' \<and>
    bits_of payload' = ue_code m @ ue_code t @ ue_code (unat newID) @ post @ replicate n False"
proof -
  let ?pre = "ue_code m @ ue_code t"
  have start: "tb_GetBitPosition br = length ?pre" if "reads_at payload br (ue_code i @ post)" for br
    using position_of [OF that, of ?pre] assms(5) by simp
  have fin: "tb_GetBitPosition br = length (?pre @ ue_code i)" if "reads_at payload br post" for br
    using position_of [OF that, of "?pre @ ue_code i"] assms(5) by simp
  obtain br1 bw1 where cp: "copy_prefix (length ?pre) (NewBitReader payload) NewBitWriter = Some (br1, bw1)"
      "reads_at payload br1 (ue_code i @ post)" "bw_inv ?pre bw1"
    using copy_prefix_bits [of payload "NewBitReader payload" ?pre "ue_code i @ post" "[]" NewBitWriter]
      reads_at_New [of payload] bw_inv_New assms(5) by auto
  let ?bw = "copy_rest (tb_SeekToBit (length (?pre @ ue_code i)) br1) (WriteUE (ucast newID) bw1)"
  have "bw_inv (?pre @ ue_code (unat newID) @ post) ?bw"
    using copy_rest_bits [OF seek_reads [OF cp(2), of "?pre @ ue_code i" post] WriteUE_byte [OF cp(3)]] assms(5) by simp
  from rebuild_bits [OF this, of h] obtain payload' n where
    r: "rebuild_unit h ?bw = h # AddEmulationPreventionBytes payload'"
    "bits_of payload' = ue_code m @ ue_code t @ ue_code (unat newID) @ post @ replicate n False" by auto
  have small: "i < 2 ^ 32 - 1" "((255 :: u32) < of_nat i) = False" using assms(8) u32_le [of i 255] by simp_all
  have g: "(length (h # payload) < 3) = False" "(length payload < 2) = False" "(h AND 0x1F < 1 \<or> 5 < h AND 0x1F) = False"
    using assms(2-4) by (auto simp: nal_type_def not_less)
  have "reads_at payload (NewBitReader payload) (ue_code m @ ue_code t @ ue_code i @ post)" using reads_at_New [of payload] assms(5) by simp
  then have "remapSliceHeaderPPSID unit newID = rebuild_unit h ?bw"
    unfolding remapSliceHeaderPPSID_def Let_def assms(1) drop_Suc_Cons drop0 One_nat_def nth_Cons_0 g if_False
    apply -
    apply (erule reads_at_ue, rule assms)+
    apply (frule start)
    apply (erule reads_at_ue, rule small)
    apply (frule fin)
    by (simp only: small if_False cp(1) option.case prod.case)
  then show ?thesis using r by auto
qed

section \<open>Properties\<close>

lemma new_id_keeps [simp]:
  "sx_high (s\<lparr>sx_id := n\<rparr>) = sx_high s" "high_syntax (s\<lparr>sx_id := n\<rparr>) = high_syntax s" "poc_syntax (s\<lparr>sx_id := n\<rparr>) = poc_syntax s"
  "size_syntax (s\<lparr>sx_id := n\<rparr>) = size_syntax s" "crop_syntax (s\<lparr>sx_id := n\<rparr>) = crop_syntax s"
  "scaling_ok (s\<lparr>sx_id := n\<rparr>) = scaling_ok s" "sx_chroma_array_type (s\<lparr>sx_id := n\<rparr>) = sx_chroma_array_type s"
  "sx_frame_width (s\<lparr>sx_id := n\<rparr>) = sx_frame_width s" "sx_frame_height (s\<lparr>sx_id := n\<rparr>) = sx_frame_height s"
  by (simp_all add: sx_high_def high_syntax_def poc_syntax_def size_syntax_def crop_syntax_def scaling_ok_def
      sx_chroma_array_type_def sx_frame_width_def sx_frame_height_def)

lemma new_id_keeps_units [simp]:
  "sx_crop_unit_x (s\<lparr>sx_id := n\<rparr>) = sx_crop_unit_x s" "sx_crop_unit_y (s\<lparr>sx_id := n\<rparr>) = sx_crop_unit_y s"
  by (simp_all add: sx_crop_unit_x_def sx_crop_unit_y_def)

lemma new_id_keeps_crop [simp]:
  "sx_crop_x (s\<lparr>sx_id := n\<rparr>) = sx_crop_x s" "sx_crop_y (s\<lparr>sx_id := n\<rparr>) = sx_crop_y s"
  by (simp_all add: sx_crop_x_def sx_crop_y_def split: option.split)

lemma sps_ok_new_id:
  assumes "sps_ok s" and "n \<le> 31"
  shows "sps_ok (s\<lparr>sx_id := n\<rparr>)"
proof -
  have "list_all element_ok (sps_syntax (s\<lparr>sx_id := n\<rparr>))"
    using assms by (simp add: sps_ok_def sps_syntax_def head_syntax_def)
  then show ?thesis using assms by (simp add: sps_ok_def)
qed

lemma sps_syntax_new_id:
  "syntax_bits (sps_syntax (s\<lparr>sx_id := n\<rparr>)) = to_bits 8 (sx_profile_idc s) @ to_bits 8 (sx_constraint_flags s) @
     to_bits 8 (sx_level_idc s) @ ue_code n @ syntax_bits (high_syntax s @ [UE (sx_log2_max_frame_num s)] @ poc_syntax s @ size_syntax s @ crop_syntax s)"
  by (simp add: sps_syntax_def head_syntax_def)

lemma ue_code_not_Nil [simp]: "ue_code v \<noteq> []"
  by (simp add: ue_code_def Let_def)

lemma unit_length: "bits_of payload = ue_code v @ r \<Longrightarrow> payload \<noteq> [] \<and> (length (h # AddEmulationPreventionBytes payload) < 2) = False"
  using AddEmulation_length [of payload] by (cases payload) (auto simp: bits_of_def)

lemma on_ue_holds:
  assumes "reads br (ue_code v @ r)" and "v < 2 ^ 32 - 1" and "\<And>br'. reads br' r \<Longrightarrow> P (ok (of_nat v) br')"
  shows "P (on_read tb_ReadUE br fail ok)"
proof -
  obtain br' where "tb_ReadUE br = (br', Inr (of_nat v))" "reads br' r"
    using tb_ReadUE_code [of br v r] assms(1,2) by (auto simp: reads_def)
  then show ?thesis using assms(3) by (simp add: on_read_def)
qed

text \<open>Rewriting the identifier of a conforming sequence parameter set changes the identifier and nothing else: the new
  unit parses to the same profile, level, frame number width and picture size under the new identifier.  The payload is
  taken without escape bytes, which is how the code reads it.\<close>

theorem remapped_sps_parses:
  assumes "sps_ok s" and "ps_Data sps = h # payload" and "nal_type h = 7" and "4 \<le> length payload"
    and "bits_of payload = syntax_bits (sps_syntax s) @ rest" and "newID \<le> 31"
  shows "\<exists>unit. createRemappedSPS (Some sps) newID = Some unit \<and>
    parseSPS now unit = Inr (standard_set now unit (s\<lparr>sx_id := unat newID\<rparr>))"
proof -
  let ?tail = "syntax_bits (high_syntax s @ [UE (sx_log2_max_frame_num s)] @ poc_syntax s @ size_syntax s @ crop_syntax s)"
  have "s\<lparr>sx_id := sx_id s\<rparr> = s" by simp
  then have bits: "bits_of payload = to_bits 8 (sx_profile_idc s) @ to_bits 8 (sx_constraint_flags s) @ to_bits 8 (sx_level_idc s) @
      ue_code (sx_id s) @ (?tail @ rest)"
    using assms(5) sps_syntax_new_id [where s = s and n = "sx_id s"] by simp
  have len: "length (to_bits 8 v) = 8" for v by simp
  have i: "sx_id s \<le> 31" using assms(1) by (simp add: sps_ok_def)
  obtain payload' n where 1: "createRemappedSPS (Some sps) newID = Some (h # AddEmulationPreventionBytes payload')"
    "bits_of payload' = syntax_bits (sps_syntax (s\<lparr>sx_id := unat newID\<rparr>)) @ (rest @ replicate n False)"
    using createRemappedSPS_bits [OF assms(2-4) bits len len len i, of newID] sps_syntax_new_id [where s = s and n = "unat newID"] by auto
  have "24 \<le> length (bits_of payload')" unfolding 1(2) sps_syntax_new_id by simp
  then have "payload' \<noteq> []" by (auto simp: bits_of_def)
  then have "2 \<le> length (h # AddEmulationPreventionBytes payload')" using AddEmulation_length [of payload'] by (cases payload') auto
  moreover have "unat newID \<le> 31" using assms(6) by (simp add: word_le_nat_alt)
  ultimately have "parseSPS now (h # AddEmulationPreventionBytes payload') =
      Inr (standard_set now (h # AddEmulationPreventionBytes payload') (s\<lparr>sx_id := unat newID\<rparr>))"
    using assms(3) by (intro parseSPS_rbsp [OF sps_ok_new_id [OF assms(1)] 1(2)]) (simp_all add: AddEmulation_unescape)
  then show ?thesis using 1(1) by auto
qed

theorem remapped_sps_parses_witness:
  "\<exists>unit. createRemappedSPS (Some (empty_set_of 0 [0x67, 66, 0, 40, 218, 1, 224, 8, 159, 149] 0)) 5 = Some unit \<and>
    (\<exists>sps. parseSPS 9 unit = Inr sps \<and> ps_ID sps = 5 \<and> ps_Width sps = Some 1920)"
proof -
  have n: "nal_type 0x67 = 7" "(4 :: nat) \<le> length [66, 0, 40, 218, 1, 224, 8, 159, 149 :: byte]" "(5 :: byte) \<le> 31"
    by (simp_all add: nal_type_def)
  have d: "ps_Data (empty_set_of 0 [0x67, 66, 0, 40, 218, 1, 224, 8, 159, 149] 0) = 0x67 # [66, 0, 40, 218, 1, 224, 8, 159, 149]"
    by (simp add: empty_set_of_def)
  have "res_Width (sx_resolution (sps_1080\<lparr>sx_id := 5\<rparr>)) = 1920" by (simp add: size_defs sps_1080_def)
  then show ?thesis using remapped_sps_parses [OF sps_1080_ok d n(1,2) sps_1080_bits n(3), of 9]
    by (auto simp: standard_set_def empty_set_of_def)
qed

lemma parsePPS_bits:
  assumes "bits_of payload = ue_code i @ ue_code j @ post" and "i \<le> 255" and "j \<le> 31" and "nal_type h = 8"
  shows "parsePPS now (h # AddEmulationPreventionBytes payload) =
    Inr \<lparr>pp_Set = empty_set_of (of_nat i) (h # AddEmulationPreventionBytes payload) now, pp_ReferencedSPSID = of_nat j\<rparr>"
proof -
  have len: "(length (h # AddEmulationPreventionBytes payload) < 2) = False" "(length payload < 1) = False"
    using unit_length [OF assms(1), of h] by auto
  have small: "i < 2 ^ 32 - 1" "((255 :: u32) < of_nat i) = False" "j < 2 ^ 32 - 1" "((31 :: u32) < of_nat j) = False"
    using assms(2,3) u32_le [of i 255] u32_le [of j 31] by simp_all
  have "reads (NewBitReader payload) (ue_code i @ ue_code j @ post)" using reads_New [of payload] assms(1) by simp
  then show ?thesis
    unfolding parsePPS_def nth_Cons_0 assms(4) simp_thms if_True len if_False AddEmulation_unescape sum.case
    apply -
    apply (erule on_ue, rule small)
    apply (simp only: small if_False)
    apply (erule on_ue, rule small)
    by (simp add: small ucast_of_nat_byte)
qed



lemma bits_of_inject: "bits_of xs = bits_of ys \<Longrightarrow> xs = ys"
proof (rule nth_equalityI)
  assume eq: "bits_of xs = bits_of ys"
  from arg_cong [OF this, of length] show len: "length xs = length ys" by simp
  fix i assume i: "i < length xs"
  show "xs ! i = ys ! i"
  proof (rule bit_word_eqI)
    fix n assume "n < LENGTH(8)"
    then have "n \<le> 7" by simp
    then obtain m where m: "m \<le> 7" "n = 7 - m" by (metis diff_diff_cancel diff_le_self)
    then have n: "(8 * i + m) div 8 = i" "(8 * i + m) mod 8 = m" "8 * i + m < 8 * length xs" using i by auto
    then have "bits_of xs ! (8 * i + m) = bit (xs ! i) n" "bits_of ys ! (8 * i + m) = bit (ys ! i) n"
      using nth_bits_of [of "8 * i + m"] len m by simp_all
    then show "bit (xs ! i) n = bit (ys ! i) n" using eq by simp
  qed
qed

text \<open>The payload is not unescaped before its bits are copied, but it is escaped again afterwards: rewriting a picture
  set to the identifiers it already has escapes the bytes of the unit a second time.  For a unit that contains
  an escape byte the decoder then sees that byte as data.\<close>

theorem remap_escapes_twice:
  assumes "ps_Data (pp_Set pps) = h # payload" and "nal_type h = 8" and "2 \<le> length payload"
    and "bits_of payload = ue_code (unat i) @ ue_code (unat j) @ post" and "j \<le> 31"
  shows "createRemappedPPS (Some pps) i j = Some (h # AddEmulationPreventionBytes payload) \<and>
    ExtractRBSPFromNALUnit (h # AddEmulationPreventionBytes payload) = Inr payload"
proof -
  have ij: "unat i \<le> 255" "unat j \<le> 31" using unsigned_less [of i, where 'a = nat] assms(5) by (simp_all add: word_le_nat_alt)
  obtain payload' n where 1: "createRemappedPPS (Some pps) i j = Some (h # AddEmulationPreventionBytes payload')"
    "bits_of payload' = bits_of payload @ replicate n False" "n < 8"
    using createRemappedPPS_bits [OF assms(1-4) ij, of i j] assms(4) by auto
  have "8 * length payload' = 8 * length payload + n" using arg_cong [OF 1(2), of length] by simp
  then have "n = 0" using 1(3) by presburger
  then have "payload' = payload" using 1(2) by (intro bits_of_inject) simp
  then show ?thesis using 1(1) AddEmulation_unescape by simp
qed

theorem remap_escapes_twice_witness:
  "ExtractRBSPFromNALUnit [0x68, 0xC0, 0, 0, 3, 1] = Inr [0xC0, 0, 0, 1] \<and>
   (\<exists>unit. createRemappedPPS (Some \<lparr>pp_Set = empty_set_of 0 [0x68, 0xC0, 0, 0, 3, 1] 0, pp_ReferencedSPSID = 0\<rparr>) 0 0 = Some unit \<and>
      ExtractRBSPFromNALUnit unit = Inr [0xC0, 0, 0, 3, 1])"
proof -
  have d: "ps_Data (pp_Set \<lparr>pp_Set = empty_set_of 0 [0x68, 0xC0, 0, 0, 3, 1] 0, pp_ReferencedSPSID = 0\<rparr>) = 0x68 # [0xC0, 0, 0, 3, 1]"
    by (simp add: empty_set_of_def)
  have n: "nal_type 0x68 = 8" "2 \<le> length [0xC0, 0, 0, 3, 1 :: byte]" "(0 :: byte) \<le> 31" by (simp_all add: nal_type_def)
  have b: "bits_of [0xC0, 0, 0, 3, 1] = ue_code (unat (0 :: byte)) @ ue_code (unat (0 :: byte)) @ drop 2 (bits_of [0xC0, 0, 0, 3, 1])"
    by code_simp
  have "ExtractRBSPFromNALUnit [0x68, 0xC0, 0, 0, 3, 1] = Inr [0xC0, 0, 0, 1]" by code_simp
  then show ?thesis using remap_escapes_twice [OF d n(1,2) b n(3)] by blast
qed

end
