(* ===== verification/Parameter_Validator.thy ===== *)
theory Parameter_Validator
  imports Parameter_Sets
begin

unbundle bit_operations_syntax

text \<open>
  The stateful validation of parameter sets, \<^verbatim>\<open>internal/ingestion/types/parameter_validator.go\<close>: checksums, rate limits,
  dependencies of picture sets on sequence sets; and the stateless checks of
  \<^verbatim>\<open>enhanced_parameter_validation.go\<close>.  The hexadecimal SHA-256 digest is the argument \<open>sha\<close>; nothing is assumed of it.
\<close>

section \<open>State\<close>

record ParameterSetValidator =
  pv_spsChecksums :: "byte \<rightharpoonup> string"
  pv_ppsChecksums :: "byte \<rightharpoonup> string"
  pv_lastSPSUpdate :: "byte \<rightharpoonup> nanos"
  pv_lastPPSUpdate :: "byte \<rightharpoonup> nanos"
  pv_spsUpdateCount :: "byte \<rightharpoonup> int"
  pv_ppsUpdateCount :: "byte \<rightharpoonup> int"
  pv_ppsDependencies :: "byte \<rightharpoonup> byte"
  pv_spsReferences :: "byte \<rightharpoonup> int"
  pv_maxUpdateRate :: nanos
  pv_maxUpdatesPerHour :: int
  pv_enforceConsistency :: bool
  pv_validationErrors :: int
  pv_rateLimitViolations :: int
  pv_checksumMismatches :: int
  pv_lastCleanup :: nanos

datatype pv_error =
    TooFrequent nanos | HourlyLimit int | SPSChecksumMismatch byte | BadSPSStructure ps_error
  | MissingSPSFor byte byte | DependencyChanged byte byte byte

text \<open>Reading a missing key yields zero.\<close>

definition count_of :: "(byte \<rightharpoonup> int) \<Rightarrow> byte \<Rightarrow> int" where
  "count_of m i = (case m i of None \<Rightarrow> 0 | Some n \<Rightarrow> n)"

definition NewParameterSetValidator :: "nanos \<Rightarrow> nanos \<Rightarrow> int \<Rightarrow> ParameterSetValidator" where
  "NewParameterSetValidator now maxUpdateRate maxUpdatesPerHour =
     \<lparr>pv_spsChecksums = Map.empty, pv_ppsChecksums = Map.empty, pv_lastSPSUpdate = Map.empty, pv_lastPPSUpdate = Map.empty,
      pv_spsUpdateCount = Map.empty, pv_ppsUpdateCount = Map.empty, pv_ppsDependencies = Map.empty,
      pv_spsReferences = Map.empty, pv_maxUpdateRate = maxUpdateRate, pv_maxUpdatesPerHour = maxUpdatesPerHour,
      pv_enforceConsistency = False, pv_validationErrors = 0, pv_rateLimitViolations = 0, pv_checksumMismatches = 0,
      pv_lastCleanup = now\<rparr>"

section \<open>Operations\<close>

definition hour :: nanos where
  "hour = 3600 * second"

definition checkRateLimit :: "nanos \<Rightarrow> byte \<Rightarrow> bool \<Rightarrow> ParameterSetValidator \<Rightarrow> pv_error option" where
  "checkRateLimit now i isSPS v =
     (let lastUpdate = (if isSPS then pv_lastSPSUpdate v i else pv_lastPPSUpdate v i);
          updateCount = (if isSPS then count_of (pv_spsUpdateCount v) i else count_of (pv_ppsUpdateCount v) i)
      in case lastUpdate of
           Some l \<Rightarrow>
             if now - l < pv_maxUpdateRate v then Some (TooFrequent (now - l))
             else if updateCount > pv_maxUpdatesPerHour v then Some (HourlyLimit updateCount) else None
         | None \<Rightarrow> if updateCount > pv_maxUpdatesPerHour v then Some (HourlyLimit updateCount) else None)"

definition validateSPSStructure :: "byte list \<Rightarrow> ps_error option" where
  "validateSPSStructure data =
     (if length data < 4 then Some (PSTooShort ''SPS'' (length data))
      else if data ! 0 AND 0x80 = 0 \<and> data ! 0 AND 0x1F \<noteq> 7 \<and> data ! 0 AND 0x1F \<noteq> 15
      then Some (InvalidNALType (data ! 0 AND 0x1F)) else None)"

definition reset_old :: "nanos \<Rightarrow> (byte \<rightharpoonup> nanos) \<Rightarrow> (byte \<rightharpoonup> int) \<Rightarrow> byte \<rightharpoonup> int" where
  "reset_old limit updated counts =
     (\<lambda>i. case counts i of
            None \<Rightarrow> None
          | Some n \<Rightarrow> (case updated i of None \<Rightarrow> Some 0 | Some t \<Rightarrow> if t < limit then Some 0 else Some n))"

definition cleanupIfNeeded :: "nanos \<Rightarrow> ParameterSetValidator \<Rightarrow> ParameterSetValidator" where
  "cleanupIfNeeded now v =
     (if now - pv_lastCleanup v < hour then v
      else v\<lparr>pv_lastCleanup := now,
             pv_spsUpdateCount := reset_old (now - hour) (pv_lastSPSUpdate v) (pv_spsUpdateCount v),
             pv_ppsUpdateCount := reset_old (now - hour) (pv_lastPPSUpdate v) (pv_ppsUpdateCount v)\<rparr>)"

definition validator_ValidateSPS ::
  "(byte list \<Rightarrow> string) \<Rightarrow> nanos \<Rightarrow> byte \<Rightarrow> byte list \<Rightarrow> ParameterSetValidator \<Rightarrow> ParameterSetValidator \<times> pv_error option" where
  "validator_ValidateSPS sha now spsID data v =
     (let checksum = sha data
      in if pv_spsChecksums v spsID = Some checksum then (v, None)
         else case checkRateLimit now spsID True v of
             Some e \<Rightarrow> (v\<lparr>pv_rateLimitViolations := pv_rateLimitViolations v + 1\<rparr>, Some e)
           | None \<Rightarrow>
               (let mismatch = (pv_spsChecksums v spsID \<noteq> None);
                    v = (if mismatch then v\<lparr>pv_checksumMismatches := pv_checksumMismatches v + 1\<rparr> else v)
                in if mismatch \<and> pv_enforceConsistency v then (v, Some (SPSChecksumMismatch spsID))
                   else case validateSPSStructure data of
                       Some e \<Rightarrow> (v\<lparr>pv_validationErrors := pv_validationErrors v + 1\<rparr>, Some (BadSPSStructure e))
                     | None \<Rightarrow>
                         (cleanupIfNeeded now
                           (v\<lparr>pv_spsChecksums := (pv_spsChecksums v)(spsID \<mapsto> checksum),
                              pv_lastSPSUpdate := (pv_lastSPSUpdate v)(spsID \<mapsto> now),
                              pv_spsUpdateCount := (pv_spsUpdateCount v)(spsID \<mapsto> count_of (pv_spsUpdateCount v) spsID + 1)\<rparr>),
                          None)))"

definition validator_ValidatePPS ::
  "(byte list \<Rightarrow> string) \<Rightarrow> nanos \<Rightarrow> byte \<Rightarrow> byte \<Rightarrow> byte list \<Rightarrow> ParameterSetValidator \<Rightarrow> ParameterSetValidator \<times> pv_error option" where
  "validator_ValidatePPS sha now ppsID spsID data v =
     (let checksum = sha data
      in if pv_ppsChecksums v ppsID = Some checksum then (v, None)
         else case checkRateLimit now ppsID False v of
             Some e \<Rightarrow> (v\<lparr>pv_rateLimitViolations := pv_rateLimitViolations v + 1\<rparr>, Some e)
           | None \<Rightarrow>
               if pv_spsChecksums v spsID = None \<and> pv_enforceConsistency v
               then (v\<lparr>pv_validationErrors := pv_validationErrors v + 1\<rparr>, Some (MissingSPSFor ppsID spsID))
               else if pv_ppsChecksums v ppsID \<noteq> None \<and> pv_ppsDependencies v ppsID \<notin> {None, Some spsID} \<and> pv_enforceConsistency v
               then (v\<lparr>pv_validationErrors := pv_validationErrors v + 1\<rparr>,
                     Some (DependencyChanged ppsID (the (pv_ppsDependencies v ppsID)) spsID))
               else
                 (let refs = (case pv_ppsDependencies v ppsID of
                                None \<Rightarrow> pv_spsReferences v
                              | Some oldSPSID \<Rightarrow>
                                  if oldSPSID \<noteq> spsID \<and> count_of (pv_spsReferences v) oldSPSID > 0
                                  then (pv_spsReferences v)(oldSPSID \<mapsto> count_of (pv_spsReferences v) oldSPSID - 1)
                                  else pv_spsReferences v)
                  in (v\<lparr>pv_ppsDependencies := (pv_ppsDependencies v)(ppsID \<mapsto> spsID),
                        pv_spsReferences := refs(spsID \<mapsto> count_of refs spsID + 1),
                        pv_ppsChecksums := (pv_ppsChecksums v)(ppsID \<mapsto> checksum),
                        pv_lastPPSUpdate := (pv_lastPPSUpdate v)(ppsID \<mapsto> now),
                        pv_ppsUpdateCount := (pv_ppsUpdateCount v)(ppsID \<mapsto> count_of (pv_ppsUpdateCount v) ppsID + 1)\<rparr>,
                      None)))"

text \<open>Whether the cross-references are in order.\<close>

definition all_bytes :: "byte list" where
  "all_bytes = map of_nat [0..<256]"

definition ValidateCrossReferences :: "ParameterSetValidator \<Rightarrow> bool" where
  "ValidateCrossReferences v =
     (\<forall>ppsID \<in> set all_bytes. case pv_ppsDependencies v ppsID of
        None \<Rightarrow> True | Some spsID \<Rightarrow> pv_spsChecksums v spsID \<noteq> None)"

definition GetDependencies :: "ParameterSetValidator \<Rightarrow> byte \<rightharpoonup> byte" where
  "GetDependencies v = pv_ppsDependencies v"

definition validator_Reset :: "ParameterSetValidator \<Rightarrow> ParameterSetValidator" where
  "validator_Reset v =
     v\<lparr>pv_spsChecksums := Map.empty, pv_ppsChecksums := Map.empty, pv_lastSPSUpdate := Map.empty,
       pv_lastPPSUpdate := Map.empty, pv_spsUpdateCount := Map.empty, pv_ppsUpdateCount := Map.empty,
       pv_ppsDependencies := Map.empty, pv_spsReferences := Map.empty, pv_validationErrors := 0,
       pv_rateLimitViolations := 0, pv_checksumMismatches := 0\<rparr>"

section \<open>Checks for the decoder\<close>

text \<open>Both functions index the first byte before they look at the length: empty data is a panic.\<close>

definition enhanced_high :: "u32 \<Rightarrow> BitReader \<Rightarrow> ps_error + BitReader option" where
  "enhanced_high profileIDC br =
     (if profileIDC \<in> high_profiles then
        on_read tb_ReadUE br (\<lambda>e. Inl (FieldFailed ''chroma_format_idc'' e)) (\<lambda>chromaFormatIDC br.
          if chromaFormatIDC > 3 then Inl (PSOutOfRange ''chroma_format_idc'' chromaFormatIDC)
          else
            and_then
              (if chromaFormatIDC = 3
               then on_read tb_ReadBit br (\<lambda>e. Inl (FieldFailed ''separate_colour_plane_flag'' e)) (\<lambda>_ br. Inr br)
               else Inr br) (\<lambda>br.
            on_read tb_ReadUE br (\<lambda>e. Inl (FieldFailed ''bit_depth_luma_minus8'' e)) (\<lambda>luma br.
              if luma > 6 then Inl (PSOutOfRange ''bit_depth_luma_minus8'' luma)
              else on_read tb_ReadUE br (\<lambda>e. Inl (FieldFailed ''bit_depth_chroma_minus8'' e)) (\<lambda>chroma br.
                if chroma > 6 then Inl (PSOutOfRange ''bit_depth_chroma_minus8'' chroma)
                else
                  on_read tb_ReadBit br (\<lambda>e. Inl (FieldFailed ''qpprime_y_zero_transform_bypass_flag'' e)) (\<lambda>_ br.
                  on_read tb_ReadBit br (\<lambda>e. Inl (FieldFailed ''seq_scaling_matrix_present_flag'' e)) (\<lambda>scaling br.
                    if scaling = 1 then Inr None else Inr (Some br)))))))
      else Inr (Some br))"

definition EnhancedSPSValidation :: "byte list \<Rightarrow> ps_error option outcome" where
  "EnhancedSPSValidation data =
     go_at data 0 (\<lambda>b0.
       let nalType = nal_type b0
       in Ret (case on_rbsp (if length data > 0 \<and> (nalType = 7 \<or> nalType = 15) then ExtractRBSPFromNALUnit data
                             else ExtractRBSPFromPayload data)
              (\<lambda>rbspData.
                on_read (tb_ReadBits 8) (NewBitReader rbspData) (\<lambda>e. Inl (FieldFailed ''profile_idc'' e)) (\<lambda>profileIDC br.
                on_read (tb_ReadBits 8) br (\<lambda>e. Inl (FieldFailed ''constraint flags'' e)) (\<lambda>_ br.
                on_read (tb_ReadBits 8) br (\<lambda>e. Inl (FieldFailed ''level_idc'' e)) (\<lambda>_ br.
                on_read tb_ReadUE br (\<lambda>e. Inl (FieldFailed ''sps_id'' e)) (\<lambda>spsID br.
                  if spsID > 31 then Inl (PSOutOfRange ''sps_id'' spsID)
                  else and_then (enhanced_high profileIDC br) (\<lambda>rest.
                    case rest of
                      None \<Rightarrow> Inr ()
                    | Some br \<Rightarrow>
                        on_read tb_ReadUE br (\<lambda>e. Inl (FieldFailed ''log2_max_frame_num_minus4'' e)) (\<lambda>log2MaxFrameNum br.
                          if log2MaxFrameNum > 12 then Inl (PSOutOfRange ''log2_max_frame_num_minus4'' log2MaxFrameNum)
                          else on_read tb_ReadUE br (\<lambda>e. Inl (FieldFailed ''pic_order_cnt_type'' e)) (\<lambda>pocType br.
                            if pocType > 2 then Inl (PSOutOfRange ''pic_order_cnt_type'' pocType) else Inr ()))))))))
              of Inl e \<Rightarrow> Some e | Inr _ \<Rightarrow> None))"

definition EnhancedPPSValidation :: "byte list \<Rightarrow> ps_error option outcome" where
  "EnhancedPPSValidation data =
     go_at data 0 (\<lambda>b0.
       Ret (case on_rbsp (if length data > 0 \<and> nal_type b0 = 8 then ExtractRBSPFromNALUnit data else ExtractRBSPFromPayload data)
              (\<lambda>rbspData.
                on_read tb_ReadUE (NewBitReader rbspData) (\<lambda>e. Inl (FieldFailed ''pps_id'' e)) (\<lambda>ppsID br.
                  if ppsID > 255 then Inl (PSOutOfRange ''pps_id'' ppsID)
                  else on_read tb_ReadUE br (\<lambda>e. Inl (FieldFailed ''sps_id'' e)) (\<lambda>spsID br.
                    if spsID > 31 then Inl (PSOutOfRange ''sps_id'' spsID)
                    else
                      on_read tb_ReadBit br (\<lambda>e. Inl (FieldFailed ''entropy_coding_mode_flag'' e)) (\<lambda>_ br.
                      on_read tb_ReadBit br (\<lambda>e. Inl (FieldFailed ''bottom_field_pic_order_in_frame_present_flag'' e)) (\<lambda>_ br.
                      on_read tb_ReadUE br (\<lambda>e. Inl (FieldFailed ''num_slice_groups_minus1'' e)) (\<lambda>groups br.
                        if groups > 0 then
                          if groups > 7 then Inl (PSOutOfRange ''num_slice_groups_minus1'' groups)
                          else on_read tb_ReadUE br (\<lambda>e. Inl (FieldFailed ''slice_group_map_type'' e)) (\<lambda>mapType br.
                            if mapType > 6 then Inl (PSOutOfRange ''slice_group_map_type'' mapType)
                            else Inl (PSOutOfRange ''FMO'' (groups + 1)))
                        else Inr ()))))))
              of Inl e \<Rightarrow> Some e | Inr _ \<Rightarrow> None))"

section \<open>Sequences of validations\<close>

datatype validator_call = CallSPS nanos byte "byte list" | CallPPS nanos byte byte "byte list" | CallReset

fun validator_step :: "(byte list \<Rightarrow> string) \<Rightarrow> validator_call \<Rightarrow> ParameterSetValidator \<Rightarrow> ParameterSetValidator" where
  "validator_step sha (CallSPS now i data) v = fst (validator_ValidateSPS sha now i data v)"
| "validator_step sha (CallPPS now p i data) v = fst (validator_ValidatePPS sha now p i data v)"
| "validator_step sha CallReset v = validator_Reset v"

text \<open>A call that stores a new sequence set: accepted, and not a repetition of the stored one.\<close>

fun stores_sps :: "(byte list \<Rightarrow> string) \<Rightarrow> validator_call \<Rightarrow> ParameterSetValidator \<Rightarrow> bool" where
  "stores_sps sha (CallSPS now i data) v \<longleftrightarrow>
     snd (validator_ValidateSPS sha now i data v) = None \<and> pv_spsChecksums v i \<noteq> Some (sha data)"
| "stores_sps sha _ v \<longleftrightarrow> False"

fun stored_updates :: "(byte list \<Rightarrow> string) \<Rightarrow> validator_call list \<Rightarrow> ParameterSetValidator \<Rightarrow> nat" where
  "stored_updates sha [] v = 0"
| "stored_updates sha (call # calls) v =
     (if stores_sps sha call v then 1 else 0) + stored_updates sha calls (validator_step sha call v)"

lemma hour_pos: "0 < hour"
  by (simp add: hour_def second_def)

text \<open>The counter of the sequence set just stored survives the hourly clean-up, which looks at the time of its last update.\<close>

lemma cleanup_keeps_count:
  assumes "pv_lastSPSUpdate v i = Some now"
  shows "pv_spsUpdateCount (cleanupIfNeeded now v) i = pv_spsUpdateCount v i"
  using assms hour_pos by (auto simp: cleanupIfNeeded_def reset_old_def split: option.splits)

lemma cleanup_keeps [simp]: "pv_maxUpdatesPerHour (cleanupIfNeeded now v) = pv_maxUpdatesPerHour v"
  "pv_ppsDependencies (cleanupIfNeeded now v) = pv_ppsDependencies v" "pv_spsReferences (cleanupIfNeeded now v) = pv_spsReferences v"
  by (simp_all add: cleanupIfNeeded_def)

lemma ValidateSPS_count:
  "count_of (pv_spsUpdateCount (fst (validator_ValidateSPS sha now i data v))) i =
     count_of (pv_spsUpdateCount v) i + (if stores_sps sha (CallSPS now i data) v then 1 else 0)"
  "stores_sps sha (CallSPS now i data) v \<Longrightarrow> count_of (pv_spsUpdateCount v) i \<le> pv_maxUpdatesPerHour v"
  "pv_maxUpdatesPerHour (fst (validator_ValidateSPS sha now i data v)) = pv_maxUpdatesPerHour v"
  by (auto simp: validator_ValidateSPS_def Let_def checkRateLimit_def count_of_def cleanup_keeps_count
      split: option.splits if_splits)

lemma ValidatePPS_keeps:
  "pv_spsUpdateCount (fst (validator_ValidatePPS sha now p i data v)) = pv_spsUpdateCount v"
  "pv_maxUpdatesPerHour (fst (validator_ValidatePPS sha now p i data v)) = pv_maxUpdatesPerHour v"
  by (auto simp: validator_ValidatePPS_def Let_def split: option.splits)

fun about_sps :: "byte \<Rightarrow> validator_call \<Rightarrow> bool" where
  "about_sps i (CallSPS now j data) \<longleftrightarrow> j = i"
| "about_sps i (CallPPS now p j data) \<longleftrightarrow> True"
| "about_sps i CallReset \<longleftrightarrow> False"

lemma stored_updates_bound:
  assumes "\<forall>call \<in> set calls. about_sps i call" and "count_of (pv_spsUpdateCount v) i \<le> pv_maxUpdatesPerHour v + 1"
  shows "count_of (pv_spsUpdateCount v) i + int (stored_updates sha calls v) \<le> pv_maxUpdatesPerHour v + 1"
  using assms
proof (induction calls arbitrary: v)
  case (Cons call calls)
  show ?case
  proof (cases call)
    case (CallSPS now j data)
    then have j: "j = i" using Cons.prems(1) by simp
    let ?v = "fst (validator_ValidateSPS sha now i data v)"
    note c = ValidateSPS_count [of sha now i data v]
    have "count_of (pv_spsUpdateCount ?v) i \<le> pv_maxUpdatesPerHour ?v + 1" using c Cons.prems(2) by (auto split: if_splits)
    from Cons.IH [OF _ this] Cons.prems(1) c show ?thesis using CallSPS j by (auto split: if_splits)
  next
    case (CallPPS now p j data)
    then show ?thesis using Cons.IH [of "fst (validator_ValidatePPS sha now p j data v)"] Cons.prems ValidatePPS_keeps by simp
  qed (use Cons.prems in simp)
qed simp

section \<open>Reference counts\<close>

definition dependents :: "byte \<Rightarrow> ParameterSetValidator \<Rightarrow> byte set" where
  "dependents s v = {p. pv_ppsDependencies v p = Some s}"

definition refs_cover :: "ParameterSetValidator \<Rightarrow> bool" where
  "refs_cover v \<longleftrightarrow> (\<forall>s. int (card (dependents s v)) \<le> count_of (pv_spsReferences v) s)"

lemma refs_cover_SPS: "refs_cover v \<Longrightarrow> refs_cover (fst (validator_ValidateSPS sha now i data v))"
  by (auto simp: validator_ValidateSPS_def Let_def refs_cover_def dependents_def split: option.splits)

lemma count_of_upd: "count_of (m(i \<mapsto> n)) j = (if j = i then n else count_of m j)"
  by (simp add: count_of_def)

lemma refs_cover_move:
  assumes "refs_cover v" and "refs = (case pv_ppsDependencies v p of None \<Rightarrow> pv_spsReferences v
      | Some old \<Rightarrow> if old \<noteq> s \<and> count_of (pv_spsReferences v) old > 0
          then (pv_spsReferences v)(old \<mapsto> count_of (pv_spsReferences v) old - 1) else pv_spsReferences v)"
  shows "int (card {q. ((pv_ppsDependencies v)(p \<mapsto> s)) q = Some t}) \<le> count_of (refs(s \<mapsto> count_of refs s + 1)) t"
proof -
  have cover: "int (card (dependents x v)) \<le> count_of (pv_spsReferences v) x" for x using assms(1) by (simp add: refs_cover_def)
  have new: "{q. ((pv_ppsDependencies v)(p \<mapsto> s)) q = Some t} = (if t = s then insert p (dependents t v) else dependents t v - {p})"
    by (auto simp: dependents_def)
  have le: "count_of (pv_spsReferences v) x \<le> count_of refs x" if "pv_ppsDependencies v p \<noteq> Some x \<or> x = s" for x
    using that assms(2) by (auto simp: count_of_upd split: option.splits if_splits)
  show ?thesis
  proof (cases "t = s")
    case True
    have "card (insert p (dependents s v)) \<le> card (dependents s v) + 1" by (simp add: card_insert_if)
    then show ?thesis using True new cover [of s] le [of s] by (simp add: count_of_upd)
  next
    case False
    show ?thesis
    proof (cases "pv_ppsDependencies v p = Some t")
      case True
      then have p: "p \<in> dependents t v" by (simp add: dependents_def)
      then have "card (dependents t v) > 0" by (auto simp: card_gt_0_iff)
      then have "count_of (pv_spsReferences v) t > 0" using cover [of t] by linarith
      then have "count_of refs t = count_of (pv_spsReferences v) t - 1" using True False assms(2) by (simp add: count_of_upd)
      moreover have "card (dependents t v - {p}) = card (dependents t v) - 1" using p by simp
      ultimately show ?thesis using False new cover [of t] \<open>card (dependents t v) > 0\<close> by (simp add: count_of_upd)
    next
      case False2: False
      then have "dependents t v - {p} = dependents t v" by (auto simp: dependents_def)
      then show ?thesis using False False2 new cover [of t] le [of t] by (simp add: count_of_upd)
    qed
  qed
qed

lemma refs_cover_PPS: "refs_cover v \<Longrightarrow> refs_cover (fst (validator_ValidatePPS sha now p i data v))"
proof -
  assume v: "refs_cover v"
  have "refs_cover (fst (validator_ValidatePPS sha now p i data v)) \<or> fst (validator_ValidatePPS sha now p i data v) = v"
  proof -
    note m = refs_cover_move [OF v refl, of p i]
    show ?thesis using v m
      by (auto simp: validator_ValidatePPS_def Let_def refs_cover_def dependents_def simp del: fun_upd_apply split: option.splits)
  qed
  then show ?thesis using v by auto
qed

lemma refs_cover_step: "refs_cover v \<Longrightarrow> refs_cover (validator_step sha call v)"
  by (cases call) (simp_all add: refs_cover_SPS refs_cover_PPS, simp add: refs_cover_def dependents_def validator_Reset_def count_of_def)

section \<open>Properties\<close>

text \<open>The limit on updates per hour is a limit on the updates of a stream's lifetime: whatever sequence of
  validations a stream with one sequence set identifier makes, at whatever times, no more than one above the configured
  number of new sequence sets is ever accepted.  The hourly reset does not apply to the identifier whose update triggers it.\<close>

theorem sps_updates_lifetime_limit:
  assumes "\<forall>call \<in> set calls. about_sps i call" and "-1 \<le> limit"
  shows "int (stored_updates sha calls (NewParameterSetValidator now0 rate limit)) \<le> limit + 1"
proof -
  have "count_of (pv_spsUpdateCount (NewParameterSetValidator now0 rate limit)) i = 0"
    "pv_maxUpdatesPerHour (NewParameterSetValidator now0 rate limit) = limit"
    by (simp_all add: NewParameterSetValidator_def count_of_def)
  then show ?thesis using stored_updates_bound [OF assms(1), of "NewParameterSetValidator now0 rate limit" sha] assms(2) by simp
qed

theorem sps_updates_lifetime_limit_witness:
  "stored_updates (\<lambda>data. map (\<lambda>b. char_of (unat b)) data)
     [CallSPS 0 0 [0x67, 1, 1, 1], CallSPS (9 * hour) 0 [0x67, 2, 2, 2]] (NewParameterSetValidator 0 1 0) = 1"
proof -
  let ?calls = "[CallSPS 0 0 [0x67, 1, 1, 1], CallSPS (9 * hour) 0 [0x67, 2, 2, 2]]"
  let ?sha = "\<lambda>data :: byte list. map (\<lambda>b. char_of (unat b) :: char) data"
  have "int (stored_updates ?sha ?calls (NewParameterSetValidator 0 1 0)) \<le> 0 + 1"
    using sps_updates_lifetime_limit [of ?calls 0 0 ?sha 0 1] by simp
  moreover have "stores_sps ?sha (CallSPS 0 0 [0x67, 1, 1, 1]) (NewParameterSetValidator 0 1 0)"
    by (simp add: validator_ValidateSPS_def NewParameterSetValidator_def Let_def checkRateLimit_def count_of_def validateSPSStructure_def)
  then have "1 \<le> stored_updates ?sha ?calls (NewParameterSetValidator 0 1 0)" unfolding stored_updates.simps by simp
  ultimately show ?thesis by linarith
qed

text \<open>A sequence set that picture sets depend on never looks orphaned: after every sequence of validations and resets,
  the recorded number of references to a sequence set is at least the number of picture sets that depend on it.  (It
  may be larger: an update of a picture set that keeps its sequence set counts again.)\<close>

theorem sps_references_cover:
  "int (card (dependents s (fold (validator_step sha) calls (NewParameterSetValidator now rate limit)))) \<le>
   count_of (pv_spsReferences (fold (validator_step sha) calls (NewParameterSetValidator now rate limit))) s"
proof -
  have "refs_cover (fold (validator_step sha) calls v)" if "refs_cover v" for v
    using that by (induction calls arbitrary: v) (simp_all add: refs_cover_step)
  moreover have "refs_cover (NewParameterSetValidator now rate limit)"
    by (simp add: refs_cover_def dependents_def NewParameterSetValidator_def count_of_def)
  ultimately show ?thesis by (simp add: refs_cover_def)
qed

end
