(* ===== verification/Parameter_Cache.thy ===== *)
theory Parameter_Cache
  imports Complex_Main Parameter_Sets
begin

text \<open>
  The parameter set cache of \<^verbatim>\<open>internal/ingestion/types/parameter_cache.go\<close>: a map beside a doubly linked list that keeps
  the items in order of use, with expiry times.  An element of the list is named by the key of the item it holds.
  The cache implements a bounded least-recently-used list with expiry, the specification below.
\<close>

section \<open>The cache\<close>

record cacheItem =
  ci_key :: string
  ci_value :: ParameterSet
  ci_expiresAt :: nanos
  ci_accessCount :: u64

record ParameterSetCache =
  ca_maxSize :: int
  ca_ttl :: nanos
  ca_order :: "string list"
  ca_items :: "string \<rightharpoonup> cacheItem"
  ca_hits :: u64
  ca_misses :: u64
  ca_evicted :: u64
  ca_expired :: u64
  ca_stopped :: bool

text \<open>\<^verbatim>\<open>time.NewTicker\<close> panics on a period that is not positive.\<close>

definition NewParameterSetCache :: "int \<Rightarrow> nanos \<Rightarrow> ParameterSetCache outcome" where
  "NewParameterSetCache maxSize ttl =
     (if ttl < 4 then Panic
      else Ret \<lparr>ca_maxSize = maxSize, ca_ttl = ttl, ca_order = [], ca_items = Map.empty, ca_hits = 0, ca_misses = 0,
             ca_evicted = 0, ca_expired = 0, ca_stopped = False\<rparr>)"

definition removeItem :: "cacheItem \<Rightarrow> ParameterSetCache \<Rightarrow> ParameterSetCache" where
  "removeItem item c =
     c\<lparr>ca_order := remove1 (ci_key item) (ca_order c), ca_items := (ca_items c)(ci_key item := None)\<rparr>"

definition moveToFront :: "string \<Rightarrow> string list \<Rightarrow> string list" where
  "moveToFront k order = k # remove1 k order"

definition evictLRU :: "ParameterSetCache \<Rightarrow> ParameterSetCache" where
  "evictLRU c =
     (if length (ca_order c) = 0 then c
      else case ca_items c (last (ca_order c)) of
          None \<Rightarrow> c
        | Some item \<Rightarrow> (removeItem item c)\<lparr>ca_evicted := ca_evicted c + 1\<rparr>)"

definition cache_Get :: "nanos \<Rightarrow> string \<Rightarrow> ParameterSetCache \<Rightarrow> ParameterSetCache \<times> ParameterSet option" where
  "cache_Get now key c =
     (case ca_items c key of
        None \<Rightarrow> (c\<lparr>ca_misses := ca_misses c + 1\<rparr>, None)
      | Some item \<Rightarrow>
          if now > ci_expiresAt item
          then ((removeItem item c)\<lparr>ca_expired := ca_expired c + 1, ca_misses := ca_misses c + 1\<rparr>, None)
          else (c\<lparr>ca_order := moveToFront key (ca_order c),
                  ca_items := (ca_items c)(key \<mapsto> item\<lparr>ci_accessCount := ci_accessCount item + 1\<rparr>),
                  ca_hits := ca_hits c + 1\<rparr>, Some (ci_value item)))"

definition cache_Put :: "nanos \<Rightarrow> string \<Rightarrow> ParameterSet \<Rightarrow> ParameterSetCache \<Rightarrow> ParameterSetCache" where
  "cache_Put now key v c =
     (case ca_items c key of
        Some item \<Rightarrow>
          c\<lparr>ca_order := moveToFront key (ca_order c),
            ca_items := (ca_items c)(key \<mapsto> item\<lparr>ci_value := v, ci_expiresAt := now + ca_ttl c\<rparr>)\<rparr>
      | None \<Rightarrow>
          (let item = \<lparr>ci_key = key, ci_value = v, ci_expiresAt = now + ca_ttl c, ci_accessCount = 1\<rparr>;
               c = c\<lparr>ca_order := key # ca_order c, ca_items := (ca_items c)(key \<mapsto> item)\<rparr>
           in if int (length (ca_order c)) > ca_maxSize c then evictLRU c else c))"

text \<open>One tick of the background clean-up: the walk from the back of the list.\<close>

fun cleanup_walk :: "nanos \<Rightarrow> string list \<Rightarrow> ParameterSetCache \<Rightarrow> ParameterSetCache" where
  "cleanup_walk now [] c = c"
| "cleanup_walk now (k # ks) c =
     (case ca_items c k of
        None \<Rightarrow> cleanup_walk now ks c
      | Some item \<Rightarrow>
          cleanup_walk now ks
            (if now > ci_expiresAt item then (removeItem item c)\<lparr>ca_expired := ca_expired c + 1\<rparr> else c))"

definition cleanupExpired_tick :: "nanos \<Rightarrow> ParameterSetCache \<Rightarrow> ParameterSetCache" where
  "cleanupExpired_tick now c = (if ca_stopped c then c else cleanup_walk now (rev (ca_order c)) c)"

definition cache_hitRate :: "ParameterSetCache \<Rightarrow> rat" where
  "cache_hitRate c =
     (if ca_hits c + ca_misses c > 0 then of_nat (unat (ca_hits c)) / of_nat (unat (ca_hits c + ca_misses c)) else 0)"

definition cache_Close :: "ParameterSetCache \<Rightarrow> ParameterSetCache" where
  "cache_Close c = c\<lparr>ca_stopped := True\<rparr>"

section \<open>The specification: a bounded list in order of use\<close>

text \<open>Entries are key, value and expiry time, most recently used first.\<close>

type_synonym entry = "string \<times> ParameterSet \<times> nanos"

definition without :: "string \<Rightarrow> entry list \<Rightarrow> entry list" where
  "without k xs = filter (\<lambda>(k', _). k' \<noteq> k) xs"

definition spec_get :: "nanos \<Rightarrow> string \<Rightarrow> entry list \<Rightarrow> entry list \<times> ParameterSet option" where
  "spec_get now k xs =
     (case map_of xs k of
        None \<Rightarrow> (xs, None)
      | Some (v, e) \<Rightarrow> if now > e then (without k xs, None) else ((k, v, e) # without k xs, Some v))"

definition spec_put :: "nat \<Rightarrow> nanos \<Rightarrow> string \<Rightarrow> ParameterSet \<Rightarrow> entry list \<Rightarrow> entry list" where
  "spec_put n expires k v xs = take n ((k, v, expires) # without k xs)"

definition spec_expire :: "nanos \<Rightarrow> entry list \<Rightarrow> entry list" where
  "spec_expire now xs = filter (\<lambda>(k, v, e). \<not> now > e) xs"

definition entry_of :: "ParameterSetCache \<Rightarrow> string \<Rightarrow> entry" where
  "entry_of c k = (k, ci_value (the (ca_items c k)), ci_expiresAt (the (ca_items c k)))"

definition entries :: "ParameterSetCache \<Rightarrow> entry list" where
  "entries c = map (entry_of c) (ca_order c)"

text \<open>List and map hold the same keys, each once, and the bound is kept.\<close>

definition cache_core :: "string list \<Rightarrow> (string \<rightharpoonup> cacheItem) \<Rightarrow> bool" where
  "cache_core order items \<longleftrightarrow> distinct order \<and> set order = dom items \<and>
     (\<forall>k item. items k = Some item \<longrightarrow> ci_key item = k)"

definition cache_inv :: "ParameterSetCache \<Rightarrow> bool" where
  "cache_inv c \<longleftrightarrow> cache_core (ca_order c) (ca_items c) \<and>
     0 \<le> ca_maxSize c \<and> int (length (ca_order c)) \<le> ca_maxSize c"

lemmas cache_defs = cache_inv_def cache_core_def

lemma cache_invD:
  assumes "cache_inv c"
  shows "distinct (ca_order c)" "set (ca_order c) = dom (ca_items c)" "ca_items c k = Some item \<Longrightarrow> ci_key item = k"
    "int (length (ca_order c)) \<le> ca_maxSize c" "0 \<le> ca_maxSize c"
  using assms by (auto simp: cache_defs)

lemma entries_keys: "map fst (entries c) = ca_order c"
  by (simp add: entries_def entry_of_def comp_def)

lemma map_of_entries:
  assumes "cache_inv c"
  shows "map_of (entries c) k = map_option (\<lambda>item. (ci_value item, ci_expiresAt item)) (ca_items c k)"
proof (cases "ca_items c k")
  case None
  then have "k \<notin> set (ca_order c)" using cache_invD(2) [OF assms] by auto
  then have "map_of (entries c) k = None" unfolding map_of_eq_None_iff using entries_keys [of c] by (metis list.set_map)
  then show ?thesis using None by simp
next
  case (Some item)
  then have "k \<in> set (ca_order c)" using cache_invD(2) [OF assms] by auto
  then have "(k, ci_value item, ci_expiresAt item) \<in> set (entries c)" using Some by (auto simp: entries_def entry_of_def)
  moreover have "distinct (map fst (entries c))" using cache_invD(1) [OF assms] by (simp add: entries_keys)
  ultimately show ?thesis using Some by simp
qed

lemma without_map: "distinct ks \<Longrightarrow> without k (map (entry_of c) ks) = map (entry_of c) (remove1 k ks)"
  by (simp add: without_def filter_map distinct_remove1_removeAll removeAll_filter_not_eq comp_def entry_of_def eq_commute)

lemma entry_of_update: "k \<notin> set ks \<Longrightarrow> map (entry_of (c\<lparr>ca_items := (ca_items c)(k := x)\<rparr>)) ks = map (entry_of c) ks"
  by (auto simp: entry_of_def)

lemma entry_of_cong: "ca_items c = ca_items c' \<Longrightarrow> entry_of c = entry_of c'"
  by (auto simp: entry_of_def fun_eq_iff)

lemma removeItem_refines:
  assumes "cache_inv c" and "ca_items c k = Some item"
  shows "cache_inv (removeItem item c) \<and> entries (removeItem item c) = without k (entries c)"
proof -
  note inv = cache_invD [OF assms(1)]
  have k: "ci_key item = k" using inv(3) assms(2) by simp
  have "length (remove1 k (ca_order c)) \<le> length (ca_order c)" by (simp add: length_remove1)
  then have "cache_inv (removeItem item c)"
    using assms(1) inv(1,2) k by (auto simp: cache_defs removeItem_def)
  moreover have "entry_of (removeItem item c) x = entry_of c x" if "x \<noteq> k" for x
    using that k by (simp add: entry_of_def removeItem_def)
  then have "entries (removeItem item c) = without k (entries c)"
    using inv(1) k unfolding entries_def without_map [OF inv(1)] by (auto simp: removeItem_def)
  ultimately show ?thesis by simp
qed

lemma entries_simps [simp]:
  "entries (c\<lparr>ca_hits := x\<rparr>) = entries c" "entries (c\<lparr>ca_misses := x\<rparr>) = entries c"
  "entries (c\<lparr>ca_evicted := x\<rparr>) = entries c" "entries (c\<lparr>ca_expired := x\<rparr>) = entries c"
  "cache_inv (c\<lparr>ca_hits := x\<rparr>) = cache_inv c" "cache_inv (c\<lparr>ca_misses := x\<rparr>) = cache_inv c"
  "cache_inv (c\<lparr>ca_evicted := x\<rparr>) = cache_inv c" "cache_inv (c\<lparr>ca_expired := x\<rparr>) = cache_inv c"
  by (simp_all add: entries_def cache_inv_def entry_of_def [abs_def])

text \<open>An item moved to the front with a new content.\<close>

lemma front_refines:
  assumes "cache_inv c" and "ca_items c k = Some item" and "ci_key item' = k"
  shows "cache_inv (c\<lparr>ca_order := moveToFront k (ca_order c), ca_items := (ca_items c)(k \<mapsto> item')\<rparr>) \<and>
    entries (c\<lparr>ca_order := moveToFront k (ca_order c), ca_items := (ca_items c)(k \<mapsto> item')\<rparr>) =
      (k, ci_value item', ci_expiresAt item') # without k (entries c)"
proof -
  note inv = cache_invD [OF assms(1)]
  have k: "k \<in> set (ca_order c)" using inv(2) assms(2) by auto
  have "length (moveToFront k (ca_order c)) = length (ca_order c)" "set (moveToFront k (ca_order c)) = set (ca_order c)"
    using k inv(1) length_pos_if_in_set [OF k] by (auto simp: moveToFront_def length_remove1)
  then have "cache_inv (c\<lparr>ca_order := moveToFront k (ca_order c), ca_items := (ca_items c)(k \<mapsto> item')\<rparr>)"
    using assms inv k by (auto simp: cache_defs moveToFront_def)
  moreover have "k \<notin> set (remove1 k (ca_order c))" using inv(1) by simp
  ultimately show ?thesis
    unfolding entries_def without_map [OF inv(1)] by (auto simp: moveToFront_def entry_of_def)
qed

lemma Get_refines:
  assumes "cache_inv c"
  shows "cache_inv (fst (cache_Get now k c)) \<and> entries (fst (cache_Get now k c)) = fst (spec_get now k (entries c)) \<and>
    snd (cache_Get now k c) = snd (spec_get now k (entries c))"
proof (cases "ca_items c k")
  case None
  then show ?thesis using assms map_of_entries [OF assms, of k] by (simp add: cache_Get_def spec_get_def)
next
  case (Some item)
  let ?item = "item\<lparr>ci_accessCount := ci_accessCount item + 1\<rparr>"
  have k: "ci_key ?item = k" using cache_invD(3) [OF assms Some] by simp
  show ?thesis
    using front_refines [OF assms Some k] removeItem_refines [OF assms Some] map_of_entries [OF assms, of k] Some
    by (auto simp: cache_Get_def spec_get_def)
qed

lemma without_absent: "k \<notin> set (map fst xs) \<Longrightarrow> without k xs = xs"
  by (force simp: without_def filter_id_conv)

lemma without_last: "distinct (map fst xs) \<Longrightarrow> xs \<noteq> [] \<Longrightarrow> without (fst (last xs)) xs = butlast xs"
proof (induction xs rule: rev_induct)
  case (snoc x xs)
  then have "without (fst x) xs = xs" by (intro without_absent) auto
  then show ?case by (auto simp: without_def split: prod.splits)
qed simp

lemma last_entries: "ca_order c \<noteq> [] \<Longrightarrow> fst (last (entries c)) = last (ca_order c)"
  by (simp add: entries_def last_map entry_of_def)

text \<open>The bound may be exceeded by one just before an eviction.\<close>

lemma evictLRU_refines:
  assumes "cache_inv (c\<lparr>ca_maxSize := ca_maxSize c + 1\<rparr>)" and "ca_order c \<noteq> []" and "0 \<le> ca_maxSize c"
  shows "cache_inv (evictLRU c) \<and> entries (evictLRU c) = butlast (entries c)"
proof -
  let ?d = "c\<lparr>ca_maxSize := ca_maxSize c + 1\<rparr>" and ?k = "last (ca_order c)"
  have d: "ca_items ?d = ca_items c" "ca_order ?d = ca_order c" "entries ?d = entries c"
    by (simp_all add: entries_def entry_of_def [abs_def])
  have "?k \<in> dom (ca_items c)" using cache_invD(2) [OF assms(1)] assms(2) by auto
  then obtain item where i: "ca_items c ?k = Some item" by auto
  have r: "cache_inv (removeItem item ?d)" "entries (removeItem item ?d) = without ?k (entries c)"
    using removeItem_refines [OF assms(1)] i d by auto
  have "length (remove1 (ci_key item) (ca_order c)) = length (ca_order c) - 1"
    using cache_invD(3) [OF assms(1)] i assms(2) by (simp add: length_remove1)
  moreover have "length (ca_order c) > 0" "int (length (ca_order c)) \<le> ca_maxSize c + 1"
    using assms(2) cache_invD(4) [OF assms(1)] by simp_all
  ultimately have "int (length (remove1 (ci_key item) (ca_order c))) \<le> ca_maxSize c" by linarith
  then have "cache_inv (removeItem item c)"
    using r(1) assms(3) unfolding cache_inv_def by (simp add: removeItem_def)
  moreover have "entries (removeItem item c) = butlast (entries c)"
  proof -
    have "entries (removeItem item c) = without ?k (entries c)" using r(2) by (simp add: entries_def removeItem_def entry_of_def [abs_def])
    moreover have "distinct (map fst (entries c))" using cache_invD(1) [OF assms(1)] by (simp add: entries_keys)
    ultimately show ?thesis using without_last [of "entries c"] last_entries [OF assms(2)] assms(2) by (simp add: entries_def)
  qed
  ultimately show ?thesis using assms(2) i by (simp add: evictLRU_def)
qed

lemma Put_refines:
  assumes "cache_inv c"
  shows "cache_inv (cache_Put now k v c) \<and>
    entries (cache_Put now k v c) = spec_put (nat (ca_maxSize c)) (now + ca_ttl c) k v (entries c) \<and>
    ca_maxSize (cache_Put now k v c) = ca_maxSize c \<and> ca_ttl (cache_Put now k v c) = ca_ttl c"
proof (cases "ca_items c k")
  case None
  note inv = cache_invD [OF assms]
  have k: "k \<notin> set (ca_order c)" using inv(2) None by auto
  let ?item = "\<lparr>ci_key = k, ci_value = v, ci_expiresAt = now + ca_ttl c, ci_accessCount = 1\<rparr>"
  let ?c = "c\<lparr>ca_order := k # ca_order c, ca_items := (ca_items c)(k \<mapsto> ?item)\<rparr>"
  have e: "entries ?c = (k, v, now + ca_ttl c) # entries c" using k by (auto simp: entries_def entry_of_def)
  have w: "without k (entries c) = entries c" using k by (intro without_absent) (simp add: entries_keys)
  have len: "length (entries c) = length (ca_order c)" by (simp add: entries_def)
  show ?thesis
  proof (cases "int (length (ca_order ?c)) > ca_maxSize c")
    case False
    then have "cache_inv ?c" using assms k by (auto simp: cache_defs)
    then show ?thesis using False None e w len by (simp add: cache_Put_def spec_put_def)
  next
    case True
    then have m: "ca_maxSize c = int (length (ca_order c))" using inv(4) by simp
    have "cache_inv (?c\<lparr>ca_maxSize := ca_maxSize ?c + 1\<rparr>)" using assms k m by (auto simp: cache_defs)
    from evictLRU_refines [OF this] have "cache_inv (evictLRU ?c)" "entries (evictLRU ?c) = butlast (entries ?c)" using inv(5) by auto
    moreover have "ca_maxSize (evictLRU ?c) = ca_maxSize c" "ca_ttl (evictLRU ?c) = ca_ttl c"
      by (simp_all add: evictLRU_def removeItem_def split: option.split)
    ultimately show ?thesis
      using True None e w len m by (simp add: cache_Put_def Let_def spec_put_def butlast_conv_take)
  qed
next
  case (Some item)
  let ?item = "item\<lparr>ci_value := v, ci_expiresAt := now + ca_ttl c\<rparr>"
  have k: "ci_key ?item = k" using cache_invD(3) [OF assms Some] by simp
  have f: "cache_inv (cache_Put now k v c)" "entries (cache_Put now k v c) = (k, v, now + ca_ttl c) # without k (entries c)"
    using front_refines [OF assms Some k] Some by (simp_all add: cache_Put_def)
  have "length (entries (cache_Put now k v c)) \<le> nat (ca_maxSize (cache_Put now k v c))"
    using cache_invD(4) [OF f(1)] by (simp add: entries_def)
  moreover have p: "ca_maxSize (cache_Put now k v c) = ca_maxSize c" "ca_ttl (cache_Put now k v c) = ca_ttl c"
    using Some by (simp_all add: cache_Put_def)
  ultimately show ?thesis using f by (simp add: spec_put_def)
qed

lemma cleanup_walk_refines:
  "cache_inv c \<Longrightarrow> distinct ks \<Longrightarrow>
   cache_inv (cleanup_walk now ks c) \<and>
   entries (cleanup_walk now ks c) = filter (\<lambda>(k, v, e). \<not> (k \<in> set ks \<and> now > e)) (entries c)"
proof (induction ks arbitrary: c)
  case (Cons k ks)
  show ?case
  proof (cases "ca_items c k")
    case None
    then have "k \<notin> fst ` set (entries c)"
      using cache_invD(2) [OF Cons.prems(1)] entries_keys [of c] by (metis domIff image_set)
    then have "filter (\<lambda>(k, v, e). \<not> (k \<in> set ks \<and> now > e)) (entries c) =
        filter (\<lambda>(j, v, e). \<not> (j \<in> set (k # ks) \<and> now > e)) (entries c)"
      by (intro filter_cong) force+
    then show ?thesis using Cons None by simp
  next
    case (Some item)
    define d where "d = (if now > ci_expiresAt item then (removeItem item c)\<lparr>ca_expired := ca_expired c + 1\<rparr> else c)"
    have m: "map_of (entries c) k = Some (ci_value item, ci_expiresAt item)" using map_of_entries [OF Cons.prems(1), of k] Some by simp
    have dk: "distinct (map fst (entries c))" using cache_invD(1) [OF Cons.prems(1)] by (simp add: entries_keys)
    have one: "e = ci_expiresAt item" if "(k, v, e) \<in> set (entries c)" for v e
      using that m dk by (metis Pair_inject map_of_is_SomeI option.inject)
    have d: "cache_inv d \<and> entries d = filter (\<lambda>(j, v, e). \<not> (j = k \<and> now > e)) (entries c)"
    proof (cases "now > ci_expiresAt item")
      case True
      have "without k (entries c) = filter (\<lambda>(j, v, e). \<not> (j = k \<and> now > e)) (entries c)"
        unfolding without_def using one True by (intro filter_cong) auto
      then show ?thesis using removeItem_refines [OF Cons.prems(1) Some] True by (simp add: d_def)
    next
      case False
      then show ?thesis using Cons.prems(1) one by (auto simp: d_def intro!: filter_id_conv [THEN iffD2, symmetric])
    qed
    have "cleanup_walk now (k # ks) c = cleanup_walk now ks d" using Some by (simp add: d_def)
    moreover have "filter (\<lambda>(j, v, e). \<not> (j \<in> set ks \<and> now > e)) (entries d) =
        filter (\<lambda>(j, v, e). \<not> (j \<in> set (k # ks) \<and> now > e)) (entries c)"
      using d by (simp add: conj_commute) (rule filter_cong, auto)
    ultimately show ?thesis using Cons.IH [of d] Cons.prems(2) d by simp
  qed
qed simp

lemma tick_refines:
  assumes "cache_inv c" and "\<not> ca_stopped c"
  shows "cache_inv (cleanupExpired_tick now c) \<and> entries (cleanupExpired_tick now c) = spec_expire now (entries c)"
proof -
  have "fst x \<in> set (ca_order c)" if "x \<in> set (entries c)" for x
    using that entries_keys [of c] by (metis image_eqI list.set_map)
  then have "filter (\<lambda>(k, v, e). \<not> (k \<in> set (rev (ca_order c)) \<and> now > e)) (entries c) = spec_expire now (entries c)"
    unfolding spec_expire_def by (intro filter_cong) force+
  then show ?thesis
    using cleanup_walk_refines [OF assms(1), of "rev (ca_order c)" now] cache_invD(1) [OF assms(1)] assms(2)
    by (simp add: cleanupExpired_tick_def)
qed

section \<open>The contract and its consequences\<close>

text \<open>A cache that behaves like the specification list.\<close>

locale expiring_cache =
  fixes get :: "nanos \<Rightarrow> string \<Rightarrow> 'c \<Rightarrow> 'c \<times> ParameterSet option"
    and put :: "nanos \<Rightarrow> string \<Rightarrow> ParameterSet \<Rightarrow> 'c \<Rightarrow> 'c"
    and view :: "'c \<Rightarrow> entry list"
    and valid :: "'c \<Rightarrow> bool"
    and bound :: "'c \<Rightarrow> nat"
    and life :: "'c \<Rightarrow> nanos"
  assumes get_spec: "valid c \<Longrightarrow> valid (fst (get now k c)) \<and> view (fst (get now k c)) = fst (spec_get now k (view c)) \<and>
      snd (get now k c) = snd (spec_get now k (view c))"
    and put_spec: "valid c \<Longrightarrow> valid (put now k v c) \<and> view (put now k v c) = spec_put (bound c) (now + life c) k v (view c) \<and>
      bound (put now k v c) = bound c \<and> life (put now k v c) = life c"
begin

lemma get_found:
  assumes "valid c" and "view c = pre @ (k, v, e) # post" and "k \<notin> set (map fst pre)" and "now \<le> e"
  shows "snd (get now k c) = Some v"
proof -
  have "map_of pre k = None" using assms(3) by (simp add: map_of_eq_None_iff)
  then have "map_of (view c) k = Some (v, e)" using assms(2) by (simp add: map_add_Some_iff)
  then show ?thesis using get_spec [OF assms(1)] assms(4) by (simp add: spec_get_def)
qed

text \<open>What a later insertion does to an entry: only distinct keys used since then can push it out.\<close>

lemma put_step:
  assumes "valid c" and "view c = pre @ (k, v, e) # post" and "distinct (map fst pre)" and "k \<notin> set (map fst pre)"
    and "j \<noteq> k" and "card (insert j (set (map fst pre))) < bound c"
  shows "\<exists>pre' post'. view (put now j w c) = pre' @ (k, v, e) # post' \<and> distinct (map fst pre') \<and>
    set (map fst pre') = insert j (set (map fst pre))"
proof -
  let ?pre = "(j, w, now + life c) # without j pre"
  have ks: "set (map fst ?pre) = insert j (set (map fst pre))" by (auto simp: without_def image_iff)
  have "map fst (without j pre) = filter (\<lambda>x. x \<noteq> j) (map fst pre)" by (induction pre) (auto simp: without_def)
  then have d: "distinct (map fst ?pre)" using assms(3) by simp
  have "length ?pre = card (set (map fst ?pre))" using distinct_card [OF d] by simp
  then have len: "length ?pre < bound c" using assms(6) unfolding ks by simp
  have "view (put now j w c) = take (bound c) (?pre @ (k, v, e) # without j post)"
    using put_spec [OF assms(1)] assms(2,5) by (simp add: spec_put_def without_def)
  also have "\<dots> = ?pre @ (k, v, e) # take (bound c - length ?pre - 1) (without j post)"
    unfolding take_append using len by (simp add: take_Cons')
  finally show ?thesis using d ks by blast
qed

lemma puts_keep:
  assumes "valid c" and "view c = pre @ (k, v, e) # post" and "distinct (map fst pre)" and "k \<notin> set (map fst pre)"
    and "k \<notin> set (map (\<lambda>(t, j, w). j) ps)" and "card (set (map fst pre) \<union> set (map (\<lambda>(t, j, w). j) ps)) < bound c"
  shows "\<exists>pre' post'. valid (fold (\<lambda>(t, j, w). put t j w) ps c) \<and>
    view (fold (\<lambda>(t, j, w). put t j w) ps c) = pre' @ (k, v, e) # post' \<and> k \<notin> set (map fst pre')"
  using assms
proof (induction ps arbitrary: c pre post)
  case (Cons p ps)
  obtain t j w where p: "p = (t, j, w)" by (cases p)
  have j: "j \<noteq> k" using Cons.prems(5) p by auto
  have "card (insert j (set (map fst pre))) \<le> card (set (map fst pre) \<union> set (map (\<lambda>(t, j, w). j) (p # ps)))"
    using p by (intro card_mono) auto
  then have "card (insert j (set (map fst pre))) < bound c" using Cons.prems(6) by simp
  from put_step [OF Cons.prems(1-4) j this, of t w] obtain pre' post' where
    1: "view (put t j w c) = pre' @ (k, v, e) # post'" "distinct (map fst pre')" "set (map fst pre') = insert j (set (map fst pre))"
    by blast
  have 2: "valid (put t j w c)" "bound (put t j w c) = bound c" using put_spec [OF Cons.prems(1)] by auto
  have "set (map fst pre') \<union> set (map (\<lambda>(t, j, w). j) ps) = set (map fst pre) \<union> set (map (\<lambda>(t, j, w). j) (p # ps))"
    using 1(3) p by auto
  then have "card (set (map fst pre') \<union> set (map (\<lambda>(t, j, w). j) ps)) < bound (put t j w c)" using Cons.prems(6) 2(2) by simp
  from Cons.IH [OF 2(1) 1(1,2) _ _ this] 1(3) j Cons.prems(4,5) show ?case by (auto simp: p)
qed auto

lemma recently_used_kept:
  assumes "valid c" and "k \<notin> set (map (\<lambda>(t, j, w). j) ps)" and "card (set (map (\<lambda>(t, j, w). j) ps)) < bound c"
    and "later \<le> now + life c"
  shows "snd (get later k (fold (\<lambda>(t, j, w). put t j w) ps (put now k v c))) = Some v"
proof -
  note p = put_spec [OF assms(1), of now k v]
  obtain m where "bound c = Suc m" using assms(3) by (cases "bound c") auto
  then have "view (put now k v c) = [] @ (k, v, now + life c) # take m (without k (view c))" using p by (simp add: spec_put_def)
  from puts_keep [OF _ this, of ps] assms(2,3) p obtain pre post where
    "valid (fold (\<lambda>(t, j, w). put t j w) ps (put now k v c))"
    "view (fold (\<lambda>(t, j, w). put t j w) ps (put now k v c)) = pre @ (k, v, now + life c) # post" "k \<notin> set (map fst pre)" by auto
  from get_found [OF this assms(4)] show ?thesis .
qed

lemma size_bounded: "valid c \<Longrightarrow> length (view (put now k v c)) \<le> bound c"
  using put_spec by (simp add: spec_put_def)

end

interpretation parameter_cache: expiring_cache cache_Get cache_Put entries cache_inv "\<lambda>c. nat (ca_maxSize c)" ca_ttl
  by unfold_locales (use Get_refines Put_refines in simp_all)

section \<open>Properties\<close>

text \<open>C11: The cache, a map beside a linked list, behaves like a bounded list in order of use: lookups (hits, misses and
  expired entries), insertions with their eviction and the clean-up tick have exactly the effect of the corresponding
  list operation, return what it returns, and keep list and map in step.\<close>

theorem cache_refines_lru:
  assumes "cache_inv c"
  shows "cache_inv (fst (cache_Get now k c)) \<and> entries (fst (cache_Get now k c)) = fst (spec_get now k (entries c)) \<and>
      snd (cache_Get now k c) = snd (spec_get now k (entries c)) \<and>
      cache_inv (cache_Put now k v c) \<and>
      entries (cache_Put now k v c) = spec_put (nat (ca_maxSize c)) (now + ca_ttl c) k v (entries c) \<and>
      (\<not> ca_stopped c \<longrightarrow> cache_inv (cleanupExpired_tick now c) \<and> entries (cleanupExpired_tick now c) = spec_expire now (entries c))"
  using Get_refines [OF assms] Put_refines [OF assms] tick_refines [OF assms] by blast

definition small_cache :: "int \<Rightarrow> ParameterSetCache" where
  "small_cache n = \<lparr>ca_maxSize = n, ca_ttl = 100, ca_order = [], ca_items = Map.empty, ca_hits = 0, ca_misses = 0,
     ca_evicted = 0, ca_expired = 0, ca_stopped = False\<rparr>"

lemma small_cache_inv: "0 \<le> n \<Longrightarrow> cache_inv (small_cache n)"
  by (simp add: cache_defs small_cache_def)

theorem cache_refines_lru_witness:
  "NewParameterSetCache 1 100 = Ret (small_cache 1) \<and>
   snd (cache_Get 7 ''a'' (cache_Put 5 ''b'' (empty_set_of 1 [] 0) (cache_Put 4 ''a'' (empty_set_of 1 [] 0) (small_cache 1)))) = None"
proof -
  have 1: "cache_inv (cache_Put 4 ''a'' (empty_set_of 1 [] 0) (small_cache 1))"
    "entries (cache_Put 4 ''a'' (empty_set_of 1 [] 0) (small_cache 1)) = [(''a'', empty_set_of 1 [] 0, 104)]"
    using cache_refines_lru [OF small_cache_inv [of 1], of 4 "''a''" "empty_set_of 1 [] 0"] by (simp_all add: spec_put_def small_cache_def without_def entries_def)
  have ms: "ca_maxSize (cache_Put 4 ''a'' (empty_set_of 1 [] 0) (small_cache 1)) = 1" "ca_ttl (cache_Put 4 ''a'' (empty_set_of 1 [] 0) (small_cache 1)) = 100"
    by (simp_all add: cache_Put_def small_cache_def evictLRU_def removeItem_def)
  have 2: "cache_inv (cache_Put 5 ''b'' (empty_set_of 1 [] 0) (cache_Put 4 ''a'' (empty_set_of 1 [] 0) (small_cache 1)))"
    "entries (cache_Put 5 ''b'' (empty_set_of 1 [] 0) (cache_Put 4 ''a'' (empty_set_of 1 [] 0) (small_cache 1))) = [(''b'', empty_set_of 1 [] 0, 105)]"
    using cache_refines_lru [OF 1(1), of 5 "''b''" "empty_set_of 1 [] 0"] 1(2) ms by (simp_all add: spec_put_def without_def)
  show ?thesis using cache_refines_lru [OF 2(1), of 7 "''a''"] 2(2) by (simp add: spec_get_def NewParameterSetCache_def small_cache_def)
qed

text \<open>The least-recently-used guarantee: an entry is still returned within its lifetime as long as fewer other
  keys than the capacity have been stored since, in whatever order and however often.\<close>

theorem cache_recently_used_kept:
  assumes "cache_inv c" and "k \<notin> set (map (\<lambda>(t, j, w). j) ps)"
    and "int (card (set (map (\<lambda>(t, j, w). j) ps))) < ca_maxSize c" and "later \<le> now + ca_ttl c"
  shows "snd (cache_Get later k (fold (\<lambda>(t, j, w). cache_Put t j w) ps (cache_Put now k v c))) = Some v"
  using assms by (intro parameter_cache.recently_used_kept) auto

theorem cache_recently_used_kept_witness:
  "snd (cache_Get 90 ''a'' (fold (\<lambda>(t, j, w). cache_Put t j w) [(2, ''b'', empty_set_of 1 [] 0), (3, ''b'', empty_set_of 2 [] 0), (4, ''b'', empty_set_of 1 [] 0)] (cache_Put 1 ''a'' (empty_set_of 3 [] 0) (small_cache 2)))) = Some (empty_set_of 3 [] 0)"
  by (rule cache_recently_used_kept) (simp_all add: small_cache_inv, simp_all add: small_cache_def)

end
