(* ===== verification/Encoder_Session.thy ===== *)
theory Encoder_Session
  imports Parameter_Cache
begin

text \<open>
  The encoder session manager of \<^verbatim>\<open>internal/ingestion/types/encoder_session.go\<close>: it follows the parameter set
  configuration of a stream from frame to frame, opens a new session when the configuration changes and decides
  whether the sets at hand allow a frame to be decoded.  The parameter sets of a call are given in the order in which
  the loop over the map visits them.  The hexadecimal SHA-256 digest is the argument \<open>sha\<close>; nothing is assumed of it.
\<close>

section \<open>State\<close>

record EncoderSession =
  es_ID :: string
  es_StartTime :: nanos
  es_EndTime :: "nanos option"
  es_ParameterSets :: "string \<rightharpoonup> ParameterSet"
  es_FrameCount :: u64
  es_ConfigHash :: string
  es_SuccessfulDecodes :: u64
  es_FailedDecodes :: u64

record ContextTransition =
  ct_Timestamp :: nanos
  ct_FromSession :: string
  ct_ToSession :: string
  ct_TriggerFrame :: u64
  ct_Reason :: string

record EncoderSessionManager =
  em_streamID :: string
  em_currentSession :: "EncoderSession option"
  em_sessionHistory :: "EncoderSession list"
  em_maxSessionHistory :: int
  em_parameterCache :: ParameterSetCache
  em_contextTransitions :: "ContextTransition list"
  em_sessionChangeCount :: u64
  em_totalFrames :: u64
  em_decodableFrames :: u64
  em_contextSwitches :: u64

record CacheConfig =
  cc_MaxParameterSets :: int
  cc_ParameterSetTTL :: nanos
  cc_MaxSessions :: int

record ParameterSetCompatibility =
  pc_IsDecodable :: bool
  pc_MissingParams :: "string list"
  pc_Quality :: rat
  pc_MatchedSets :: "string \<rightharpoonup> ParameterSet"

record ContextAnalysis =
  an_StreamID :: string
  an_FrameID :: u64
  an_SessionID :: string
  an_SessionChanged :: bool
  an_IsDecodable :: bool
  an_MissingParams :: "string list"
  an_MatchQuality :: rat
  an_MatchedSets :: "string \<rightharpoonup> ParameterSet"

definition NewEncoderSessionManager :: "string \<Rightarrow> CacheConfig \<Rightarrow> EncoderSessionManager outcome" where
  "NewEncoderSessionManager streamID config =
     outcome_bind (NewParameterSetCache (cc_MaxParameterSets config) (cc_ParameterSetTTL config)) (\<lambda>cache.
       Ret \<lparr>em_streamID = streamID, em_currentSession = None, em_sessionHistory = [],
            em_maxSessionHistory = cc_MaxSessions config, em_parameterCache = cache, em_contextTransitions = [],
            em_sessionChangeCount = 0, em_totalFrames = 0, em_decodableFrames = 0, em_contextSwitches = 0\<rparr>)"

section \<open>Operations\<close>

text \<open>Numbers in decimal.\<close>

fun dec_nat :: "nat \<Rightarrow> string" where
  "dec_nat n = (if n < 10 then [char_of (48 + n)] else dec_nat (n div 10) @ [char_of (48 + n mod 10)])"

declare dec_nat.simps [simp del]

definition dec_int :: "int \<Rightarrow> string" where
  "dec_int i = (if i < 0 then CHR ''-'' # dec_nat (nat (- i)) else dec_nat (nat i))"

definition bytes_of :: "string \<Rightarrow> byte list" where
  "bytes_of s = map of_char s"

definition hash_part :: "string \<Rightarrow> (string \<rightharpoonup> ParameterSet) \<Rightarrow> byte list" where
  "hash_part name sets =
     (case sets name of
        None \<Rightarrow> []
      | Some ps \<Rightarrow> bytes_of (name @ '':'') @ bytes_of (dec_nat (unat (ps_ID ps)) @ '':'') @ ps_Data ps)"

definition calculateConfigHash :: "(byte list \<Rightarrow> string) \<Rightarrow> (string \<rightharpoonup> ParameterSet) \<Rightarrow> string" where
  "calculateConfigHash sha sets = take 16 (sha (hash_part ''sps'' sets @ hash_part ''pps'' sets @ hash_part ''vps'' sets))"

fun cache_sets :: "nanos \<Rightarrow> string \<Rightarrow> (string \<times> ParameterSet) list \<Rightarrow> ParameterSetCache \<Rightarrow> ParameterSetCache" where
  "cache_sets now sessionID [] c = c"
| "cache_sets now sessionID ((name, ps) # rest) c =
     cache_sets now sessionID rest (cache_Put now (sessionID @ '':'' @ name @ '':'' @ dec_nat (unat (ps_ID ps))) ps c)"

definition handleSessionChange ::
  "nanos \<Rightarrow> string \<Rightarrow> (string \<times> ParameterSet) list \<Rightarrow> u64 \<Rightarrow> EncoderSessionManager \<Rightarrow> EncoderSessionManager" where
  "handleSessionChange now configHash paramSets triggerFrameID esm =
     (let previous = map_option (\<lambda>s. s\<lparr>es_EndTime := Some now\<rparr>) (em_currentSession esm);
          sessionID = em_streamID esm @ ''-'' @ dec_int (now div second);
          newSession = \<lparr>es_ID = sessionID, es_StartTime = now, es_EndTime = None, es_ParameterSets = map_of paramSets,
            es_FrameCount = 0, es_ConfigHash = configHash, es_SuccessfulDecodes = 0, es_FailedDecodes = 0\<rparr>;
          history = (case previous of
            None \<Rightarrow> em_sessionHistory esm
          | Some p \<Rightarrow>
              (let h = em_sessionHistory esm @ [p]
               in if int (length h) > em_maxSessionHistory esm then drop 1 h else h))
      in esm\<lparr>em_parameterCache := cache_sets now sessionID paramSets (em_parameterCache esm),
             em_contextTransitions := em_contextTransitions esm @ (case previous of
               None \<Rightarrow> []
             | Some p \<Rightarrow> [\<lparr>ct_Timestamp = now, ct_FromSession = es_ID p, ct_ToSession = sessionID,
                            ct_TriggerFrame = triggerFrameID, ct_Reason = ''parameter_set_change''\<rparr>]),
             em_currentSession := Some newSession, em_sessionHistory := history,
             em_sessionChangeCount := em_sessionChangeCount esm + 1,
             em_contextSwitches := em_contextSwitches esm + 1\<rparr>)"

definition evaluateParameterSetMatch :: "(string \<rightharpoonup> ParameterSet) \<Rightarrow> rat" where
  "evaluateParameterSetMatch sets =
     ((if sets ''sps'' \<noteq> None then 1 else 0) + (if sets ''pps'' \<noteq> None then 1 else 0)) / 2"

text \<open>The loop over the recent sessions, the latest first.\<close>

fun match_recent :: "EncoderSession list \<Rightarrow> ParameterSetCompatibility \<Rightarrow> ParameterSetCompatibility" where
  "match_recent [] best = best"
| "match_recent (session # rest) best =
     (let quality = evaluateParameterSetMatch (es_ParameterSets session)
      in if quality > pc_Quality best
         then (let best = best\<lparr>pc_Quality := quality, pc_MatchedSets := es_ParameterSets session\<rparr>
               in if quality \<ge> 1 then best\<lparr>pc_IsDecodable := True\<rparr> else match_recent rest best)
         else match_recent rest best)"

definition findBestParameterSetMatch :: "EncoderSessionManager \<Rightarrow> ParameterSetCompatibility" where
  "findBestParameterSetMatch esm =
     (let compatibility = \<lparr>pc_IsDecodable = False, pc_MissingParams = [], pc_Quality = 0, pc_MatchedSets = Map.empty\<rparr>;
          compatibility = (case em_currentSession esm of
            None \<Rightarrow> compatibility
          | Some s \<Rightarrow>
              (let quality = evaluateParameterSetMatch (es_ParameterSets s)
               in if quality > pc_Quality compatibility
                  then compatibility\<lparr>pc_Quality := quality, pc_MatchedSets := es_ParameterSets s,
                         pc_IsDecodable := (if quality \<ge> 1 then True else pc_IsDecodable compatibility)\<rparr>
                  else compatibility))
      in if \<not> pc_IsDecodable compatibility
         then match_recent (take 3 (rev (em_sessionHistory esm))) compatibility else compatibility)"

definition ProcessFrame ::
  "(byte list \<Rightarrow> string) \<Rightarrow> nanos \<Rightarrow> u64 \<Rightarrow> (string \<times> ParameterSet) list \<Rightarrow> EncoderSessionManager \<Rightarrow>
   EncoderSessionManager \<times> ContextAnalysis" where
  "ProcessFrame sha now frameID paramSets esm =
     (let esm = esm\<lparr>em_totalFrames := em_totalFrames esm + 1\<rparr>;
          configHash = calculateConfigHash sha (map_of paramSets);
          sessionChanged = (case em_currentSession esm of None \<Rightarrow> True | Some s \<Rightarrow> es_ConfigHash s \<noteq> configHash);
          esm = (if sessionChanged then handleSessionChange now configHash paramSets frameID esm else esm);
          session = the (em_currentSession esm);
          session = session\<lparr>es_FrameCount := es_FrameCount session + 1\<rparr>;
          esm = esm\<lparr>em_currentSession := Some session\<rparr>;
          compatibility = findBestParameterSetMatch esm;
          analysis = \<lparr>an_StreamID = em_streamID esm, an_FrameID = frameID, an_SessionID = es_ID session,
            an_SessionChanged = sessionChanged, an_IsDecodable = pc_IsDecodable compatibility,
            an_MissingParams = pc_MissingParams compatibility,
            an_MatchQuality = pc_Quality compatibility, an_MatchedSets = pc_MatchedSets compatibility\<rparr>;
          esm = (if an_IsDecodable analysis
                 then esm\<lparr>em_decodableFrames := em_decodableFrames esm + 1,
                          em_currentSession := Some (session\<lparr>es_SuccessfulDecodes := es_SuccessfulDecodes session + 1\<rparr>)\<rparr>
                 else esm\<lparr>em_currentSession := Some (session\<lparr>es_FailedDecodes := es_FailedDecodes session + 1\<rparr>)\<rparr>)
      in (esm, analysis))"

definition OnParameterSetChange :: "EncoderSessionManager \<Rightarrow> EncoderSessionManager" where
  "OnParameterSetChange esm = esm\<lparr>em_sessionChangeCount := em_sessionChangeCount esm + 1\<rparr>"

definition decodabilityRate :: "EncoderSessionManager \<Rightarrow> rat" where
  "decodabilityRate esm =
     (if em_totalFrames esm > 0 then of_nat (unat (em_decodableFrames esm)) / of_nat (unat (em_totalFrames esm)) else 0)"

definition session_Close :: "EncoderSessionManager \<Rightarrow> EncoderSessionManager" where
  "session_Close esm = esm\<lparr>em_parameterCache := cache_Close (em_parameterCache esm)\<rparr>"

section \<open>Invariant\<close>

text \<open>Every session has counted each of its frames as decoded or failed; the history is bounded; the cache is in order.\<close>

definition session_ok :: "EncoderSession \<Rightarrow> bool" where
  "session_ok s \<longleftrightarrow> es_FrameCount s = es_SuccessfulDecodes s + es_FailedDecodes s"

definition sessions_inv :: "EncoderSessionManager \<Rightarrow> bool" where
  "sessions_inv esm \<longleftrightarrow> (\<forall>s. em_currentSession esm = Some s \<longrightarrow> session_ok s) \<and>
     (\<forall>s \<in> set (em_sessionHistory esm). session_ok s \<and> es_EndTime s \<noteq> None) \<and>
     int (length (em_sessionHistory esm)) \<le> em_maxSessionHistory esm \<and> cache_inv (em_parameterCache esm)"

lemma cache_sets_inv: "cache_inv c \<Longrightarrow> cache_inv (cache_sets now i ps c)"
  by (induction now i ps c rule: cache_sets.induct) (use Put_refines in auto)

lemma handleSessionChange_inv:
  assumes "sessions_inv esm"
  shows "sessions_inv (handleSessionChange now h ps f esm)"
proof -
  have "int (length (em_sessionHistory esm)) \<le> em_maxSessionHistory esm" using assms by (simp add: sessions_inv_def)
  then have "0 \<le> em_maxSessionHistory esm" by linarith
  then show ?thesis using assms
    by (auto simp: sessions_inv_def handleSessionChange_def Let_def session_ok_def cache_sets_inv
        split: option.splits if_splits dest: in_set_dropD)
qed

lemma ProcessFrame_inv:
  assumes "sessions_inv esm"
  shows "sessions_inv (fst (ProcessFrame sha now f ps esm))"
proof -
  let ?e = "esm\<lparr>em_totalFrames := em_totalFrames esm + 1\<rparr>" and ?h = "calculateConfigHash sha (map_of ps)"
  define e where "e = (if (case em_currentSession ?e of None \<Rightarrow> True | Some s \<Rightarrow> es_ConfigHash s \<noteq> ?h)
      then handleSessionChange now ?h ps f ?e else ?e)"
  have "sessions_inv ?e" using assms by (simp add: sessions_inv_def)
  then have e: "sessions_inv e" using handleSessionChange_inv by (auto simp: e_def)
  have new: "em_currentSession (handleSessionChange now ?h ps f ?e) \<noteq> None" by (simp add: handleSessionChange_def Let_def)
  then have "em_currentSession e \<noteq> None" by (cases "em_currentSession esm") (auto simp: e_def)
  then obtain s where s: "em_currentSession e = Some s" by blast
  then have "session_ok s" using e by (simp add: sessions_inv_def)
  then show ?thesis using e s unfolding ProcessFrame_def Let_def e_def [symmetric]
    by (auto simp: sessions_inv_def session_ok_def)
qed

section \<open>Decodability\<close>

definition complete_sets :: "EncoderSession \<Rightarrow> bool" where
  "complete_sets s \<longleftrightarrow> es_ParameterSets s ''sps'' \<noteq> None \<and> es_ParameterSets s ''pps'' \<noteq> None"

lemma quality_one: "evaluateParameterSetMatch (es_ParameterSets s) \<ge> 1 \<longleftrightarrow> complete_sets s"
  "evaluateParameterSetMatch (es_ParameterSets s) \<le> 1"
  by (auto simp: evaluateParameterSetMatch_def complete_sets_def)

lemma match_recent_decodable:
  "pc_Quality best < 1 \<Longrightarrow> \<not> pc_IsDecodable best \<Longrightarrow>
   pc_IsDecodable (match_recent ss best) \<longleftrightarrow> (\<exists>s \<in> set ss. complete_sets s)"
proof (induction ss best rule: match_recent.induct)
  case (2 s ss best)
  let ?q = "evaluateParameterSetMatch (es_ParameterSets s)"
  show ?case
  proof (cases "?q > pc_Quality best")
    case True
    then show ?thesis using "2.IH"(1) [OF refl True refl] "2.prems" quality_one [of s] by (auto simp: Let_def)
  next
    case False
    then have "\<not> complete_sets s" using "2.prems"(1) quality_one(1) [of s] by auto
    then show ?thesis using "2.IH"(2) [OF refl False] "2.prems" False by (simp add: Let_def)
  qed
qed simp

section \<open>Properties\<close>

text \<open>A frame counts as decodable exactly if the current session or one of the three sessions before it has both a
  sequence and a picture parameter set.\<close>

theorem decodable_iff:
  "pc_IsDecodable (findBestParameterSetMatch esm) \<longleftrightarrow>
     (\<exists>s. (em_currentSession esm = Some s \<or> s \<in> set (take 3 (rev (em_sessionHistory esm)))) \<and> complete_sets s)"
proof (cases "em_currentSession esm")
  case None
  then show ?thesis by (auto simp: findBestParameterSetMatch_def match_recent_decodable)
next
  case (Some s)
  have "\<not> evaluateParameterSetMatch (es_ParameterSets s) > 0 \<Longrightarrow> \<not> complete_sets s" using quality_one(1) [of s] by auto
  then show ?thesis using Some quality_one [of s]
    by (auto simp: findBestParameterSetMatch_def Let_def match_recent_decodable not_le)
qed

text \<open>Over any sequence of frames and notifications the books of every session balance: each frame of a session is
  counted once, as decoded or as failed, in the current session and in every session of the history; closed
  sessions have an end time, the history stays within its bound and the cache stays in order.\<close>

theorem session_books_balance:
  assumes "NewEncoderSessionManager streamID config = Ret esm0" and "0 \<le> cc_MaxSessions config" and "0 \<le> cc_MaxParameterSets config"
  shows "sessions_inv (fold (\<lambda>(now, f, ps) esm. fst (ProcessFrame sha now f ps (OnParameterSetChange esm))) frames esm0)"
proof -
  have "sessions_inv esm0"
    using assms by (auto simp: NewEncoderSessionManager_def NewParameterSetCache_def sessions_inv_def cache_defs split: if_splits)
  moreover have "sessions_inv (OnParameterSetChange esm)" if "sessions_inv esm" for esm
    using that by (simp add: sessions_inv_def OnParameterSetChange_def)
  ultimately show ?thesis
  proof (induction frames arbitrary: esm0)
    case (Cons x frames)
    then show ?case using ProcessFrame_inv by (cases x) simp
  qed simp
qed

theorem session_books_balance_witness:
  "\<exists>esm0. NewEncoderSessionManager ''s'' \<lparr>cc_MaxParameterSets = 100, cc_ParameterSetTTL = 300 * second, cc_MaxSessions = 10\<rparr> = Ret esm0 \<and>
     sessions_inv (fold (\<lambda>(now, f, ps) esm. fst (ProcessFrame (\<lambda>data. ''h'') now f ps (OnParameterSetChange esm)))
       [(0, 1, [(''sps'', empty_set_of 0 [0x67] 0)]), (9, 2, [])] esm0)"
  using session_books_balance [of "''s''" "\<lparr>cc_MaxParameterSets = 100, cc_ParameterSetTTL = 300 * second, cc_MaxSessions = 10\<rparr>" _
      "\<lambda>data. ''h''" "[(0, 1, [(''sps'', empty_set_of 0 [0x67] 0)]), (9, 2, [])]"]
  by (simp add: NewEncoderSessionManager_def NewParameterSetCache_def second_def)

end
