(* ===== verification/Parameter_Versions.thy ===== *)
theory Parameter_Versions
  imports Parameter_Sets "HOL-Library.AList"
begin

text \<open>
  The version manager of \<^verbatim>\<open>internal/ingestion/types/parameter_set_versioning.go\<close>: numbered snapshots of the parameter sets
  of a context, kept up to a bound, with roll-back.  Maps keyed by an identifier are functions on bytes; the map of
  versions is an association list.  The hexadecimal SHA-256 digest is the argument \<open>sha\<close>; nothing is assumed of it.
\<close>

section \<open>State\<close>

record ParameterSnapshot =
  sn_SPSMap :: "byte \<rightharpoonup> ParameterSet"
  sn_PPSMap :: "byte \<rightharpoonup> PPSContext"
  sn_FrameCount :: u64

record ParameterSetVersion =
  pn_Version :: u64
  pn_Timestamp :: nanos
  pn_SPSSets :: "byte \<rightharpoonup> ParameterSet"
  pn_PPSSets :: "byte \<rightharpoonup> PPSContext"
  pn_Checksum :: string
  pn_StreamID :: string
  pn_FrameCount :: u64
  pn_IsValid :: bool
  pn_RollbackCount :: int

record ParameterSetVersionManager =
  vm_currentVersion :: u64
  vm_versions :: "(u64 \<times> ParameterSetVersion) list"
  vm_maxVersions :: int
  vm_streamID :: string
  vm_rollbackEnabled :: bool
  vm_totalVersions :: u64
  vm_totalRollbacks :: u64
  vm_lastRollback :: gotime

datatype vm_error = VersionNotFound u64 | VersionInvalid u64 | IntegrityFailed u64 | RollbackDisabled | VersioningDisabled

definition NewParameterSetVersionManager :: "string \<Rightarrow> int \<Rightarrow> ParameterSetVersionManager" where
  "NewParameterSetVersionManager streamID maxVersions =
     \<lparr>vm_currentVersion = 0, vm_versions = [], vm_maxVersions = maxVersions, vm_streamID = streamID,
      vm_rollbackEnabled = True, vm_totalVersions = 0, vm_totalRollbacks = 0, vm_lastRollback = None\<rparr>"

section \<open>Operations\<close>

text \<open>All keys of a map with byte keys, in ascending order.\<close>

definition byte_keys :: "(byte \<rightharpoonup> 'a) \<Rightarrow> byte list" where
  "byte_keys m = filter (\<lambda>i. m i \<noteq> None) (map of_nat [0..<256])"

text \<open>The copy carries over what the code copies: not the constraint flags and not the frame number width.\<close>

definition copyParameterSet :: "ParameterSet \<Rightarrow> ParameterSet" where
  "copyParameterSet ps =
     \<lparr>ps_ID = ps_ID ps, ps_Data = ps_Data ps, ps_ParsedAt = ps_ParsedAt ps, ps_Size = ps_Size ps, ps_Valid = ps_Valid ps,
      ps_ErrorReason = ps_ErrorReason ps, ps_ProfileIDC = ps_ProfileIDC ps, ps_ConstraintFlags = None,
      ps_LevelIDC = ps_LevelIDC ps, ps_Log2MaxFrameNumMinus4 = None, ps_Width = ps_Width ps, ps_Height = ps_Height ps\<rparr>"

definition copyPPSContext :: "PPSContext \<Rightarrow> PPSContext" where
  "copyPPSContext pps = \<lparr>pp_Set = copyParameterSet (pp_Set pps), pp_ReferencedSPSID = pp_ReferencedSPSID pps\<rparr>"

definition calculateVersionChecksum ::
  "(byte list \<Rightarrow> string) \<Rightarrow> (byte \<rightharpoonup> ParameterSet) \<Rightarrow> (byte \<rightharpoonup> PPSContext) \<Rightarrow> string" where
  "calculateVersionChecksum sha sps pps =
     sha (concat (map (\<lambda>i. case sps i of None \<Rightarrow> [] | Some s \<Rightarrow> i # ps_Data s) (byte_keys sps)) @
          concat (map (\<lambda>i. case pps i of None \<Rightarrow> [] | Some p \<Rightarrow> i # ps_Data (pp_Set p) @ [pp_ReferencedSPSID p]) (byte_keys pps)))"

fun oldest_version :: "u64 list \<Rightarrow> u64 \<Rightarrow> u64" where
  "oldest_version [] oldest = oldest"
| "oldest_version (v # vs) oldest = oldest_version vs (if oldest = 0 \<or> v < oldest then v else oldest)"

function drop_versions :: "u64 \<Rightarrow> ParameterSetVersionManager \<Rightarrow> ParameterSetVersionManager" where
  "drop_versions oldest vm =
     (if int (length (vm_versions vm)) > vm_maxVersions vm \<and> oldest < vm_currentVersion vm
      then drop_versions (oldest + 1) (vm\<lparr>vm_versions := AList.delete oldest (vm_versions vm)\<rparr>)
      else vm)"
  by pat_completeness auto
termination
proof (relation "measure (\<lambda>(oldest, vm). unat (vm_currentVersion vm) - unat oldest)")
  fix oldest vm
  assume "int (length (vm_versions vm)) > vm_maxVersions vm \<and> oldest < vm_currentVersion vm"
  then have "unat oldest < unat (vm_currentVersion vm)" by (simp add: word_less_nat_alt)
  moreover have "unat (oldest + 1) = unat oldest + 1"
    using calculation unsigned_less [of "vm_currentVersion vm", where 'a = nat] by (simp add: unat_word_ariths)
  ultimately show "((oldest + 1, vm\<lparr>vm_versions := AList.delete oldest (vm_versions vm)\<rparr>), oldest, vm) \<in>
      measure (\<lambda>(oldest, vm). unat (vm_currentVersion vm) - unat oldest)" by simp
qed simp

declare drop_versions.simps [simp del]

definition cleanupOldVersions :: "ParameterSetVersionManager \<Rightarrow> ParameterSetVersionManager" where
  "cleanupOldVersions vm =
     (if int (length (vm_versions vm)) \<le> vm_maxVersions vm then vm
      else drop_versions (oldest_version (map fst (vm_versions vm)) 0) vm)"

definition new_version ::
  "(byte list \<Rightarrow> string) \<Rightarrow> nanos \<Rightarrow> ParameterSnapshot \<Rightarrow> ParameterSetVersionManager \<Rightarrow> ParameterSetVersion" where
  "new_version sha now snapshot vm =
     (let spsCopy = map_option copyParameterSet \<circ> sn_SPSMap snapshot;
          ppsCopy = map_option copyPPSContext \<circ> sn_PPSMap snapshot
      in \<lparr>pn_Version = vm_currentVersion vm + 1, pn_Timestamp = now, pn_SPSSets = spsCopy, pn_PPSSets = ppsCopy,
          pn_Checksum = calculateVersionChecksum sha spsCopy ppsCopy, pn_StreamID = vm_streamID vm,
          pn_FrameCount = sn_FrameCount snapshot, pn_IsValid = True, pn_RollbackCount = 0\<rparr>)"

definition store_version :: "ParameterSetVersion \<Rightarrow> ParameterSetVersionManager \<Rightarrow> ParameterSetVersionManager" where
  "store_version version vm =
     vm\<lparr>vm_currentVersion := pn_Version version, vm_versions := AList.update (pn_Version version) version (vm_versions vm)\<rparr>"

text \<open>\<^verbatim>\<open>CreateVersionFromSnapshot\<close>; \<^verbatim>\<open>CreateVersion\<close> is the same with the context's maps as the snapshot, and calls the
  clean-up without testing the number of versions first, which the clean-up does itself.\<close>

definition CreateVersionFromSnapshot ::
  "(byte list \<Rightarrow> string) \<Rightarrow> nanos \<Rightarrow> ParameterSnapshot \<Rightarrow> ParameterSetVersionManager \<Rightarrow>
   ParameterSetVersionManager \<times> ParameterSetVersion" where
  "CreateVersionFromSnapshot sha now snapshot vm =
     (let version = new_version sha now snapshot vm;
          vm = (store_version version vm)\<lparr>vm_totalVersions := vm_totalVersions vm + 1\<rparr>;
          vm = (if int (length (vm_versions vm)) > vm_maxVersions vm then cleanupOldVersions vm else vm)
      in (vm, version))"

definition vm_CreateVersion ::
  "(byte list \<Rightarrow> string) \<Rightarrow> nanos \<Rightarrow> ParameterSnapshot \<Rightarrow> ParameterSetVersionManager \<Rightarrow>
   ParameterSetVersionManager \<times> ParameterSetVersion" where
  "vm_CreateVersion sha now current vm =
     (let version = new_version sha now current vm;
          vm = (store_version version vm)\<lparr>vm_totalVersions := vm_totalVersions vm + 1\<rparr>
      in (cleanupOldVersions vm, version))"

definition ValidateVersion :: "(byte list \<Rightarrow> string) \<Rightarrow> u64 \<Rightarrow> ParameterSetVersionManager \<Rightarrow> vm_error option" where
  "ValidateVersion sha version vm =
     (case map_of (vm_versions vm) version of
        None \<Rightarrow> Some (VersionNotFound version)
      | Some v \<Rightarrow>
          if \<not> pn_IsValid v then Some (VersionInvalid version)
          else if calculateVersionChecksum sha (pn_SPSSets v) (pn_PPSSets v) \<noteq> pn_Checksum v
          then Some (IntegrityFailed version) else None)"

definition createBackupVersion ::
  "(byte list \<Rightarrow> string) \<Rightarrow> nanos \<Rightarrow> ParameterSnapshot \<Rightarrow> ParameterSetVersionManager \<Rightarrow>
   ParameterSetVersionManager \<times> ParameterSetVersion" where
  "createBackupVersion sha now current vm =
     (let version = new_version sha now current vm in (store_version version vm, version))"

text \<open>\<^verbatim>\<open>Rollback\<close>: the result is the manager and the maps to install in the context, or an error and no change.\<close>

definition vm_Rollback ::
  "(byte list \<Rightarrow> string) \<Rightarrow> nanos \<Rightarrow> ParameterSnapshot \<Rightarrow> u64 \<Rightarrow> ParameterSetVersionManager \<Rightarrow>
   vm_error + ParameterSetVersionManager \<times> (byte \<rightharpoonup> ParameterSet) \<times> (byte \<rightharpoonup> PPSContext)" where
  "vm_Rollback sha now current target vm =
     (if \<not> vm_rollbackEnabled vm then Inl RollbackDisabled
      else case map_of (vm_versions vm) target of
          None \<Rightarrow> Inl (VersionNotFound target)
        | Some targetVer \<Rightarrow>
            if \<not> pn_IsValid targetVer then Inl (VersionInvalid target)
            else if calculateVersionChecksum sha (pn_SPSSets targetVer) (pn_PPSSets targetVer) \<noteq> pn_Checksum targetVer
            then Inl (IntegrityFailed target)
            else
              (let (vm, backup) = createBackupVersion sha now current vm;
                   vm = vm\<lparr>vm_totalRollbacks := vm_totalRollbacks vm + 1, vm_lastRollback := Some now,
                           vm_versions :=
                             AList.update (pn_Version backup) (backup\<lparr>pn_IsValid := False\<rparr>)
                               (AList.update target (targetVer\<lparr>pn_RollbackCount := pn_RollbackCount targetVer + 1\<rparr>)
                                 (vm_versions vm))\<rparr>
               in Inr (vm, map_option copyParameterSet \<circ> pn_SPSSets targetVer,
                       map_option copyPPSContext \<circ> pn_PPSSets targetVer)))"

definition vm_EnableRollback :: "bool \<Rightarrow> ParameterSetVersionManager \<Rightarrow> ParameterSetVersionManager" where
  "vm_EnableRollback enabled vm = vm\<lparr>vm_rollbackEnabled := enabled\<rparr>"

text \<open>The exchange sort of \<^verbatim>\<open>GetVersionHistory\<close> over the versions in the order they are met.\<close>

fun exchange_pass :: "ParameterSetVersion \<Rightarrow> ParameterSetVersion list \<Rightarrow> ParameterSetVersion \<times> ParameterSetVersion list" where
  "exchange_pass x [] = (x, [])"
| "exchange_pass x (y # ys) =
     (if pn_Version x > pn_Version y
      then (let (m, zs) = exchange_pass y ys in (m, x # zs))
      else (let (m, zs) = exchange_pass x ys in (m, y # zs)))"

lemma exchange_pass_length [simp]: "length (snd (exchange_pass x ys)) = length ys"
  by (induction x ys rule: exchange_pass.induct) (auto split: prod.splits)

function exchange_sort :: "ParameterSetVersion list \<Rightarrow> ParameterSetVersion list" where
  "exchange_sort [] = []"
| "exchange_sort (x # xs) = (let (m, rest) = exchange_pass x xs in m # exchange_sort rest)"
  by pat_completeness auto
termination
  by (relation "measure length") (auto, metis exchange_pass_length less_Suc_eq snd_conv)

definition GetVersionHistory :: "ParameterSetVersionManager \<Rightarrow> ParameterSetVersion list" where
  "GetVersionHistory vm = exchange_sort (map snd (vm_versions vm))"

section \<open>The stored versions are a range\<close>

definition versions_from :: "nat \<Rightarrow> ParameterSetVersionManager \<Rightarrow> bool" where
  "versions_from lo vm \<longleftrightarrow> 1 \<le> lo \<and> lo \<le> Suc (unat (vm_currentVersion vm)) \<and> distinct (map fst (vm_versions vm)) \<and>
     unat ` fst ` set (vm_versions vm) = {lo..unat (vm_currentVersion vm)} \<and>
     (\<forall>k v. map_of (vm_versions vm) k = Some v \<longrightarrow> pn_Version v = k)"

lemma versions_fromD:
  assumes "versions_from lo vm"
  shows "1 \<le> lo" "lo \<le> Suc (unat (vm_currentVersion vm))" "distinct (map fst (vm_versions vm))"
    "unat ` fst ` set (vm_versions vm) = {lo..unat (vm_currentVersion vm)}"
    "map_of (vm_versions vm) k = Some v \<Longrightarrow> pn_Version v = k"
  using assms by (auto simp: versions_from_def)

lemma inj_unat: "inj (unat :: u64 \<Rightarrow> nat)"
  by (rule injI) (simp add: word_unat_eq_iff)

lemma versions_length:
  assumes "versions_from lo vm"
  shows "length (vm_versions vm) = Suc (unat (vm_currentVersion vm)) - lo"
proof -
  have "inj_on unat (fst ` set (vm_versions vm))" using inj_unat by (rule inj_on_subset) simp
  then have "card (unat ` fst ` set (vm_versions vm)) = card (fst ` set (vm_versions vm))" by (rule card_image)
  also have "\<dots> = length (vm_versions vm)" using distinct_card [OF versions_fromD(3) [OF assms]] by simp
  finally show ?thesis using versions_fromD(4) [OF assms] by simp
qed

lemma versions_key:
  assumes "versions_from lo vm"
  shows "map_of (vm_versions vm) k \<noteq> None \<longleftrightarrow> lo \<le> unat k \<and> unat k \<le> unat (vm_currentVersion vm)"
proof -
  have "map_of (vm_versions vm) k \<noteq> None \<longleftrightarrow> k \<in> fst ` set (vm_versions vm)" by (metis map_of_eq_None_iff)
  also have "\<dots> \<longleftrightarrow> unat k \<in> unat ` fst ` set (vm_versions vm)" by (rule inj_image_mem_iff [OF inj_unat, symmetric])
  finally show ?thesis using versions_fromD(4) [OF assms] by simp
qed

lemma oldest_version_Min:
  assumes "0 \<notin> set vs" and "vs \<noteq> [] \<or> m \<noteq> 0"
  shows "oldest_version vs m = Min (set vs \<union> (if m = 0 then {} else {m}))"
  using assms
proof (induction vs m rule: oldest_version.induct)
  case (2 v vs m)
  let ?m = "if m = 0 \<or> v < m then v else m"
  have m: "?m \<noteq> 0" using "2.prems"(1) by auto
  have "oldest_version (v # vs) m = Min (set vs \<union> {?m})" using "2.IH" "2.prems"(1) m by simp
  also have "\<dots> = Min (insert ?m (set vs))" by simp
  also have "\<dots> = Min (set (v # vs) \<union> (if m = 0 then {} else {m}))"
  proof (cases "m = 0")
    case False
    have "Min (insert v (insert m (set vs))) = Min (insert (min v m) (set vs))"
      by (cases "vs = []") (simp_all add: min.assoc)
    then show ?thesis using False by (auto simp: min_def not_less insert_commute)
  qed simp
  finally show ?case .
qed simp

lemma oldest_is_first:
  assumes "versions_from lo vm" and "vm_versions vm \<noteq> []"
  shows "unat (oldest_version (map fst (vm_versions vm)) 0) = lo"
proof -
  let ?K = "fst ` set (vm_versions vm)"
  note d = versions_fromD [OF assms(1)]
  have ne: "?K \<noteq> {}" "finite ?K" using assms(2) by auto
  have "0 \<notin> ?K"
  proof
    assume "0 \<in> ?K"
    then have "unat (0 :: u64) \<in> unat ` ?K" by (rule imageI)
    then show False using d(1,4) by simp
  qed
  then have "oldest_version (map fst (vm_versions vm)) 0 = Min ?K" using oldest_version_Min [of "map fst (vm_versions vm)" 0] assms(2) by simp
  moreover have "unat (Min ?K) = Min (unat ` ?K)"
    using ne by (intro mono_Min_commute) (auto intro!: monoI simp: word_le_nat_alt)
  moreover have "unat ` ?K \<noteq> {}" using ne(1) by simp
  then have "{lo..unat (vm_currentVersion vm)} \<noteq> {}" unfolding d(4) .
  then have "Min {lo..unat (vm_currentVersion vm)} = lo" by (intro Min_eqI) auto
  ultimately show ?thesis using d(4) by simp
qed

section \<open>Creating versions\<close>

lemma keys_delete: "fst ` set (AList.delete k al) = fst ` set al - {k}"
proof -
  have "set (map fst (AList.delete k al)) = set (map fst al) - {k}" unfolding AList.delete_keys by simp
  then show ?thesis by simp
qed

lemma delete_first:
  assumes "versions_from lo vm" and "unat oldest = lo" and "lo < unat (vm_currentVersion vm)"
  shows "versions_from (Suc lo) (vm\<lparr>vm_versions := AList.delete oldest (vm_versions vm)\<rparr>)"
proof -
  note d = versions_fromD [OF assms(1)]
  have "unat ` (fst ` set (vm_versions vm) - {oldest}) = {Suc lo..unat (vm_currentVersion vm)}"
    unfolding image_set_diff [OF inj_unat] d(4) using assms(2) by auto
  then show ?thesis using d(1-3) d(5) assms by (auto simp: versions_from_def AList.distinct_delete AList.delete_conv' keys_delete split: if_splits)
qed

definition same_settings :: "ParameterSetVersionManager \<Rightarrow> ParameterSetVersionManager \<Rightarrow> bool" where
  "same_settings a b \<longleftrightarrow> vm_currentVersion a = vm_currentVersion b \<and> vm_maxVersions a = vm_maxVersions b \<and>
     vm_rollbackEnabled a = vm_rollbackEnabled b"

text \<open>What the clean-up leaves: the newest versions up to the bound, but never fewer than one.\<close>

lemma drop_versions_range:
  assumes "versions_from lo vm" and "unat oldest = lo" and "1 \<le> vm_maxVersions vm"
  shows "\<exists>lo'. versions_from lo' (drop_versions oldest vm) \<and> int (length (vm_versions (drop_versions oldest vm))) \<le> vm_maxVersions vm \<and>
     int lo' \<le> max (int lo) (int (unat (vm_currentVersion vm)) + 1 - vm_maxVersions vm) \<and>
     (\<forall>k. lo' \<le> unat k \<longrightarrow> map_of (vm_versions (drop_versions oldest vm)) k = map_of (vm_versions vm) k) \<and>
     same_settings (drop_versions oldest vm) vm"
  using assms
proof (induction oldest vm arbitrary: lo rule: drop_versions.induct)
  case (1 oldest vm)
  let ?n = "unat (vm_currentVersion vm)"
  have len: "length (vm_versions vm) = Suc ?n - lo" by (rule versions_length [OF "1.prems"(1)])
  show ?case
  proof (cases "int (length (vm_versions vm)) > vm_maxVersions vm \<and> oldest < vm_currentVersion vm")
    case False
    have "int (length (vm_versions vm)) \<le> vm_maxVersions vm"
    proof (rule ccontr)
      assume many: "\<not> int (length (vm_versions vm)) \<le> vm_maxVersions vm"
      then have "\<not> lo < ?n" using False "1.prems"(2) by (simp add: word_less_nat_alt)
      then have "length (vm_versions vm) \<le> 1" using len by simp
      then show False using many "1.prems"(3) by simp
    qed
    moreover have "drop_versions oldest vm = vm" unfolding drop_versions.simps [of oldest vm] using False by (rule if_not_P)
    ultimately show ?thesis using "1.prems"(1) by (intro exI [of _ lo]) (simp add: same_settings_def)
  next
    case True
    let ?vm = "vm\<lparr>vm_versions := AList.delete oldest (vm_versions vm)\<rparr>"
    have lt: "lo < ?n" using True "1.prems"(2) by (simp add: word_less_nat_alt)
    then have suc: "unat (oldest + 1) = Suc lo"
      using "1.prems"(2) unsigned_less [of "vm_currentVersion vm", where 'a = nat] by (simp add: unat_word_ariths)
    have step: "drop_versions oldest vm = drop_versions (oldest + 1) ?vm" unfolding drop_versions.simps [of oldest vm] using True by (rule if_P)
    obtain lo' where IH: "versions_from lo' (drop_versions (oldest + 1) ?vm)"
      "int (length (vm_versions (drop_versions (oldest + 1) ?vm))) \<le> vm_maxVersions ?vm"
      "int lo' \<le> max (int (Suc lo)) (int (unat (vm_currentVersion ?vm)) + 1 - vm_maxVersions ?vm)"
      "\<forall>k. lo' \<le> unat k \<longrightarrow> map_of (vm_versions (drop_versions (oldest + 1) ?vm)) k = map_of (vm_versions ?vm) k"
      "same_settings (drop_versions (oldest + 1) ?vm) ?vm"
      using "1.IH" [OF True delete_first [OF "1.prems"(1,2) lt] suc] "1.prems"(3) by auto
    have cur: "vm_currentVersion (drop_versions (oldest + 1) ?vm) = vm_currentVersion vm"
      using IH(5) by (simp add: same_settings_def)
    have low: "Suc lo \<le> lo'"
    proof (rule ccontr)
      assume n: "\<not> Suc lo \<le> lo'"
      have "unat oldest \<le> ?n" "lo' \<le> unat oldest" using lt n "1.prems"(2) by simp_all
      then have "map_of (vm_versions (drop_versions (oldest + 1) ?vm)) oldest \<noteq> None"
        using versions_key [OF IH(1), of oldest] cur by simp
      then show False using IH(4) \<open>lo' \<le> unat oldest\<close> by (simp add: AList.delete_conv')
    qed
    have "\<forall>k. lo' \<le> unat k \<longrightarrow> map_of (vm_versions (drop_versions (oldest + 1) ?vm)) k = map_of (vm_versions vm) k"
      using IH(4) low "1.prems"(2) by (auto simp: AList.delete_conv')
    moreover have "int lo' \<le> max (int lo) (int ?n + 1 - vm_maxVersions vm)" using IH(3) True len lt by auto
    moreover have "same_settings (drop_versions (oldest + 1) ?vm) vm" using IH(5) by (simp add: same_settings_def)
    ultimately show ?thesis unfolding step using IH(1,2) by auto
  qed
qed

lemma store_range:
  assumes "versions_from lo vm" and "unat (vm_currentVersion vm) + 1 < 2 ^ 64"
  shows "versions_from lo (store_version (new_version sha now snap vm) vm)"
    "unat (vm_currentVersion (store_version (new_version sha now snap vm) vm)) = unat (vm_currentVersion vm) + 1"
proof -
  let ?n = "vm_currentVersion vm"
  have n: "unat (?n + 1) = unat ?n + 1" using assms(2) by (simp add: unat_word_ariths)
  then show "unat (vm_currentVersion (store_version (new_version sha now snap vm) vm)) = unat ?n + 1"
    by (simp add: store_version_def new_version_def Let_def)
  note d = versions_fromD [OF assms(1)]
  have "unat ` ({?n + 1} \<union> fst ` set (vm_versions vm)) = {lo..unat ?n + 1}"
    unfolding image_Un d(4) using n d(2) by auto
  then show "versions_from lo (store_version (new_version sha now snap vm) vm)"
    using d(1-3) d(5) n by (auto simp: versions_from_def store_version_def new_version_def Let_def AList.distinct_update
        AList.update_conv' AList.dom_update split: if_splits)
qed

lemma cleanup_range:
  assumes "versions_from lo vm" and "1 \<le> vm_maxVersions vm"
  shows "\<exists>lo'. versions_from lo' (cleanupOldVersions vm) \<and> int (length (vm_versions (cleanupOldVersions vm))) \<le> vm_maxVersions vm \<and>
     int lo' \<le> max (int lo) (int (unat (vm_currentVersion vm)) + 1 - vm_maxVersions vm) \<and>
     (\<forall>k. lo' \<le> unat k \<longrightarrow> map_of (vm_versions (cleanupOldVersions vm)) k = map_of (vm_versions vm) k) \<and>
     same_settings (cleanupOldVersions vm) vm"
proof (cases "int (length (vm_versions vm)) \<le> vm_maxVersions vm")
  case True
  then show ?thesis using assms(1) by (intro exI [of _ lo]) (simp add: cleanupOldVersions_def same_settings_def)
next
  case False
  then have "vm_versions vm \<noteq> []" using assms(2) by auto
  from drop_versions_range [OF assms(1) oldest_is_first [OF assms(1) this] assms(2)] show ?thesis
    using False by (simp add: cleanupOldVersions_def)
qed

lemma versions_from_total [simp]: "versions_from lo (vm\<lparr>vm_totalVersions := x\<rparr>) = versions_from lo vm"
  by (simp add: versions_from_def)

lemma create_range:
  fixes sha now snap vm
  defines "vm1 \<equiv> fst (CreateVersionFromSnapshot sha now snap vm)" and "v \<equiv> new_version sha now snap vm"
  assumes "versions_from lo vm" and "unat (vm_currentVersion vm) + 1 < 2 ^ 64" and "1 \<le> vm_maxVersions vm"
  shows "\<exists>lo'. versions_from lo' vm1 \<and> int (length (vm_versions vm1)) \<le> vm_maxVersions vm \<and>
     (\<forall>k. int (unat k) \<ge> max (int lo) (int (unat (vm_currentVersion vm)) + 2 - vm_maxVersions vm) \<longrightarrow>
        map_of (vm_versions vm1) k = (if k = pn_Version v then Some v else map_of (vm_versions vm) k)) \<and>
     unat (vm_currentVersion vm1) = unat (vm_currentVersion vm) + 1 \<and> vm_maxVersions vm1 = vm_maxVersions vm \<and>
     vm_rollbackEnabled vm1 = vm_rollbackEnabled vm"
proof -
  let ?s = "(store_version v vm)\<lparr>vm_totalVersions := vm_totalVersions vm + 1\<rparr>"
  have s: "versions_from lo ?s" "unat (vm_currentVersion ?s) = unat (vm_currentVersion vm) + 1"
    using store_range [OF assms(3,4), of sha now snap] by (simp_all add: v_def)
  have s3: "vm_maxVersions ?s = vm_maxVersions vm" by (simp add: store_version_def)
  have vm1: "vm1 = cleanupOldVersions ?s" by (simp add: vm1_def v_def CreateVersionFromSnapshot_def Let_def cleanupOldVersions_def)
  have m: "map_of (vm_versions ?s) k = (if k = pn_Version v then Some v else map_of (vm_versions vm) k)" for k
    by (simp add: store_version_def AList.update_conv')
  have mx: "1 \<le> vm_maxVersions ?s" using assms(5) s3 by simp
  obtain lo' where lo': "versions_from lo' vm1" "int (length (vm_versions vm1)) \<le> vm_maxVersions ?s"
     "int lo' \<le> max (int lo) (int (unat (vm_currentVersion ?s)) + 1 - vm_maxVersions ?s)"
     "\<forall>k. lo' \<le> unat k \<longrightarrow> map_of (vm_versions vm1) k = map_of (vm_versions ?s) k"
     "same_settings vm1 ?s"
    using cleanup_range [OF s(1) mx, folded vm1] by blast
  have "vm_currentVersion vm1 = vm_currentVersion ?s" "vm_maxVersions vm1 = vm_maxVersions vm" "vm_rollbackEnabled vm1 = vm_rollbackEnabled vm"
    using lo'(5) by (simp_all add: same_settings_def store_version_def)
  moreover have "map_of (vm_versions vm1) k = (if k = pn_Version v then Some v else map_of (vm_versions vm) k)"
    if "max (int lo) (int (unat (vm_currentVersion vm)) + 2 - vm_maxVersions vm) \<le> int (unat k)" for k
  proof -
    have "lo' \<le> unat k" using that lo'(3) unfolding s(2) s3 by linarith
    then show ?thesis using lo'(4) m [of k] by simp
  qed
  ultimately show ?thesis using lo'(1,2) s(2) s3 by (intro exI [of _ lo']) simp
qed

section \<open>Sequences of operations\<close>

datatype vm_op = OpCreate nanos ParameterSnapshot | OpRollback nanos ParameterSnapshot u64

fun vm_step :: "(byte list \<Rightarrow> string) \<Rightarrow> vm_op \<Rightarrow> ParameterSetVersionManager \<Rightarrow> ParameterSetVersionManager" where
  "vm_step sha (OpCreate now snap) vm = fst (CreateVersionFromSnapshot sha now snap vm)"
| "vm_step sha (OpRollback now snap target) vm =
     (case vm_Rollback sha now snap target vm of Inl _ \<Rightarrow> vm | Inr (vm, _) \<Rightarrow> vm)"

definition holds_version ::
  "(byte list \<Rightarrow> string) \<Rightarrow> u64 \<Rightarrow> (byte \<rightharpoonup> ParameterSet) \<Rightarrow> (byte \<rightharpoonup> PPSContext) \<Rightarrow> ParameterSetVersionManager \<Rightarrow> bool" where
  "holds_version sha n S P vm \<longleftrightarrow> (\<exists>v. map_of (vm_versions vm) n = Some v \<and> pn_SPSSets v = S \<and> pn_PPSSets v = P \<and>
     pn_Checksum v = calculateVersionChecksum sha S P \<and> pn_IsValid v)"

lemma rollback_range:
  assumes "versions_from lo vm" and "unat (vm_currentVersion vm) + 1 < 2 ^ 64" and "holds_version sha n S P vm"
    and "vm_Rollback sha now cur target vm = Inr (vm', maps)"
  shows "versions_from lo vm' \<and> holds_version sha n S P vm' \<and> unat (vm_currentVersion vm') = unat (vm_currentVersion vm) + 1 \<and>
    vm_maxVersions vm' = vm_maxVersions vm \<and> vm_rollbackEnabled vm' = vm_rollbackEnabled vm"
proof -
  define b where "b = new_version sha now cur vm"
  obtain t where t: "map_of (vm_versions vm) target = Some t" and vm': "vm' = (store_version b vm)\<lparr>vm_totalRollbacks := vm_totalRollbacks vm + 1,
      vm_lastRollback := Some now, vm_versions := AList.update (pn_Version b) (b\<lparr>pn_IsValid := False\<rparr>)
        (AList.update target (t\<lparr>pn_RollbackCount := pn_RollbackCount t + 1\<rparr>) (vm_versions (store_version b vm)))\<rparr>"
    using assms(4) by (auto simp: vm_Rollback_def createBackupVersion_def Let_def b_def store_version_def split: if_splits option.splits)
  note s = store_range [OF assms(1,2), of sha now cur, folded b_def]
  have bv: "unat (pn_Version b) = unat (vm_currentVersion vm) + 1" using s(2) by (simp add: store_version_def)
  have fresh: "map_of (vm_versions vm) (pn_Version b) = None" using versions_key [OF assms(1), of "pn_Version b"] bv by auto
  then have nb: "n \<noteq> pn_Version b" "target \<noteq> pn_Version b" using assms(3) t by (auto simp: holds_version_def)
  let ?old = "vm_versions (store_version b vm)"
  have old: "?old = AList.update (pn_Version b) b (vm_versions vm)" by (simp add: store_version_def)
  have "target \<in> fst ` set (vm_versions vm)" using t by (metis map_of_SomeD image_eqI fst_conv)
  then have keys: "fst ` set (vm_versions vm') = fst ` set ?old" by (auto simp: vm' old AList.dom_update)
  have dist: "distinct (map fst (vm_versions vm'))" using versions_fromD(3) [OF s(1)] by (simp add: vm' AList.distinct_update)
  have num: "pn_Version v = k" if "map_of (vm_versions vm') k = Some v" for k v
    using that versions_fromD(5) [OF assms(1)] t by (auto simp: vm' old AList.update_conv' split: if_splits)
  have "vm_currentVersion vm' = vm_currentVersion (store_version b vm)" by (simp add: vm')
  then have "versions_from lo vm'" using versions_fromD(1,2,4) [OF s(1)] keys dist num by (simp add: versions_from_def)
  moreover have "holds_version sha n S P vm'"
    using assms(3) t nb by (auto simp: holds_version_def vm' old AList.update_conv')
  ultimately show ?thesis using s(2) by (simp add: vm' store_version_def)
qed

lemma step_range:
  assumes "versions_from lo vm" and "unat (vm_currentVersion vm) + 1 < 2 ^ 64" and "1 \<le> vm_maxVersions vm"
    and "holds_version sha n S P vm" and "int (unat (vm_currentVersion vm)) + 2 - vm_maxVersions vm \<le> int (unat n)"
  shows "\<exists>lo'. versions_from lo' (vm_step sha op vm) \<and> holds_version sha n S P (vm_step sha op vm) \<and>
    unat (vm_currentVersion (vm_step sha op vm)) \<le> unat (vm_currentVersion vm) + 1 \<and>
    vm_maxVersions (vm_step sha op vm) = vm_maxVersions vm \<and> vm_rollbackEnabled (vm_step sha op vm) = vm_rollbackEnabled vm"
proof (cases op)
  case (OpCreate now snap)
  have n: "lo \<le> unat n" "unat n \<le> unat (vm_currentVersion vm)"
    using versions_key [OF assms(1), of n] assms(4) by (auto simp: holds_version_def)
  let ?v = "new_version sha now snap vm"
  have "unat (pn_Version ?v) = unat (vm_currentVersion vm) + 1"
    using assms(2) by (simp add: new_version_def Let_def unat_word_ariths)
  then have ne: "n \<noteq> pn_Version ?v" using n(2) by auto
  have "max (int lo) (int (unat (vm_currentVersion vm)) + 2 - vm_maxVersions vm) \<le> int (unat n)"
    using n(1) assms(5) by (intro max.boundedI) linarith+
  then show ?thesis using create_range [OF assms(1-3), of sha now snap] assms(4) ne OpCreate by (force simp: holds_version_def)
next
  case (OpRollback now snap target)
  show ?thesis
  proof (cases "vm_Rollback sha now snap target vm")
    case (Inl e)
    then show ?thesis using assms OpRollback by auto
  next
    case (Inr r)
    obtain vm' maps where r: "r = (vm', maps)" by (cases r)
    then show ?thesis using rollback_range [OF assms(1,2,4), of now snap target vm' maps] Inr OpRollback by auto
  qed
qed

lemma steps_range:
  assumes "versions_from lo vm" and "unat (vm_currentVersion vm) + length ops < 2 ^ 64" and "1 \<le> vm_maxVersions vm"
    and "holds_version sha n S P vm"
    and "int (unat (vm_currentVersion vm)) + int (length ops) + 1 - vm_maxVersions vm \<le> int (unat n)"
  shows "holds_version sha n S P (fold (vm_step sha) ops vm) \<and> vm_rollbackEnabled (fold (vm_step sha) ops vm) = vm_rollbackEnabled vm"
  using assms
proof (induction ops arbitrary: vm lo)
  case (Cons op ops)
  from step_range [OF Cons.prems(1) _ Cons.prems(3,4), of op] Cons.prems(2,5)
  obtain lo' where st: "versions_from lo' (vm_step sha op vm)" "holds_version sha n S P (vm_step sha op vm)"
    "unat (vm_currentVersion (vm_step sha op vm)) \<le> unat (vm_currentVersion vm) + 1"
    "vm_maxVersions (vm_step sha op vm) = vm_maxVersions vm" "vm_rollbackEnabled (vm_step sha op vm) = vm_rollbackEnabled vm" by auto
  have "unat (vm_currentVersion (vm_step sha op vm)) + length ops < 2 ^ 64" using st(3) Cons.prems(2) by simp
  moreover have "1 \<le> vm_maxVersions (vm_step sha op vm)" using st(4) Cons.prems(3) by simp
  moreover have "int (unat (vm_currentVersion (vm_step sha op vm))) + int (length ops) + 1 - vm_maxVersions (vm_step sha op vm) \<le> int (unat n)"
    unfolding st(4) using st(3) Cons.prems(5) unfolding length_Cons of_nat_Suc by linarith
  ultimately show ?case using Cons.IH [OF st(1) _ _ st(2)] st(5) by simp
qed simp

lemma copy_twice [simp]: "copyParameterSet (copyParameterSet ps) = copyParameterSet ps" "copyPPSContext (copyPPSContext p) = copyPPSContext p"
  by (simp_all add: copyParameterSet_def copyPPSContext_def)

section \<open>Properties\<close>

text \<open>C23: Rolling back restores the snapshot: after a version was created, as long as fewer than the configured number of
  further versions and roll-backs have happened, whatever they were, a roll-back to it succeeds and yields the maps of
  the snapshot, every set copied field by field (without its constraint flags and frame number width, which the copy drops).\<close>

theorem rollback_restores_snapshot:
  assumes "versions_from lo vm" and "unat (vm_currentVersion vm) + length ops + 1 < 2 ^ 64"
    and "int (length ops) < vm_maxVersions vm" and "vm_rollbackEnabled vm"
  shows "\<exists>vm'. vm_Rollback sha later cur (vm_currentVersion vm + 1)
      (fold (vm_step sha) ops (fst (CreateVersionFromSnapshot sha now snap vm))) =
    Inr (vm', map_option copyParameterSet \<circ> sn_SPSMap snap, map_option copyPPSContext \<circ> sn_PPSMap snap)"
proof -
  define vm1 where "vm1 = fst (CreateVersionFromSnapshot sha now snap vm)"
  let ?v = "new_version sha now snap vm" and ?n = "vm_currentVersion vm + 1"
  have mx: "1 \<le> vm_maxVersions vm" and wrap: "unat (vm_currentVersion vm) + 1 < 2 ^ 64" using assms(2,3) by simp_all
  have n: "unat ?n = unat (vm_currentVersion vm) + 1" "pn_Version ?v = ?n"
    using wrap by (simp_all add: unat_word_ariths new_version_def Let_def)
  have ge: "max (int lo) (int (unat (vm_currentVersion vm)) + 2 - vm_maxVersions vm) \<le> int (unat ?n)"
    using n(1) mx versions_fromD(2) [OF assms(1)] by (intro max.boundedI) linarith+
  from create_range [OF assms(1) wrap mx, of sha now snap, folded vm1_def] obtain lo1 where
    c0: "versions_from lo1 vm1" "\<forall>k. max (int lo) (int (unat (vm_currentVersion vm)) + 2 - vm_maxVersions vm) \<le> int (unat k) \<longrightarrow>
      map_of (vm_versions vm1) k = (if k = pn_Version ?v then Some ?v else map_of (vm_versions vm) k)"
    "unat (vm_currentVersion vm1) = unat (vm_currentVersion vm) + 1"
    "vm_maxVersions vm1 = vm_maxVersions vm" "vm_rollbackEnabled vm1 = vm_rollbackEnabled vm" by blast
  have c: "versions_from lo1 vm1" "map_of (vm_versions vm1) ?n = Some ?v" "unat (vm_currentVersion vm1) = unat ?n"
    "vm_maxVersions vm1 = vm_maxVersions vm" "vm_rollbackEnabled vm1 = vm_rollbackEnabled vm"
    using c0(1) c0(2) [rule_format, OF ge] c0(3-5) n by simp_all
  have bounds: "unat (vm_currentVersion vm1) + length ops < 2 ^ 64" "1 \<le> vm_maxVersions vm1"
    "int (unat (vm_currentVersion vm1)) + int (length ops) + 1 - vm_maxVersions vm1 \<le> int (unat ?n)"
    unfolding c(3,4) n(1) using assms(2,3) mx by linarith+
  have "holds_version sha ?n (map_option copyParameterSet \<circ> sn_SPSMap snap) (map_option copyPPSContext \<circ> sn_PPSMap snap) vm1"
    using c(2) by (simp add: holds_version_def new_version_def Let_def)
  then have "holds_version sha ?n (map_option copyParameterSet \<circ> sn_SPSMap snap) (map_option copyPPSContext \<circ> sn_PPSMap snap)
        (fold (vm_step sha) ops vm1) \<and> vm_rollbackEnabled (fold (vm_step sha) ops vm1)"
    using steps_range [OF c(1) bounds(1,2) _ bounds(3)] c(5) assms(4) by simp
  then show ?thesis unfolding vm1_def [symmetric]
    by (auto simp: holds_version_def vm_Rollback_def createBackupVersion_def Let_def option.map_comp comp_def)
qed

theorem rollback_restores_snapshot_witness:
  "\<exists>vm'. vm_Rollback (\<lambda>d. ''x'') 9 \<lparr>sn_SPSMap = Map.empty, sn_PPSMap = Map.empty, sn_FrameCount = 7\<rparr> 1
      (fold (vm_step (\<lambda>d. ''x'')) [OpCreate 3 \<lparr>sn_SPSMap = Map.empty, sn_PPSMap = Map.empty, sn_FrameCount = 5\<rparr>]
        (fst (CreateVersionFromSnapshot (\<lambda>d. ''x'') 0 \<lparr>sn_SPSMap = [0 \<mapsto> empty_set_of 0 [0x67] 0], sn_PPSMap = Map.empty, sn_FrameCount = 0\<rparr>
          (NewParameterSetVersionManager ''s'' 20)))) =
    Inr (vm', map_option copyParameterSet \<circ> [0 \<mapsto> empty_set_of 0 [0x67] 0], map_option copyPPSContext \<circ> Map.empty)"
proof -
  have "versions_from 1 (NewParameterSetVersionManager ''s'' 20)" by (simp add: versions_from_def NewParameterSetVersionManager_def)
  from rollback_restores_snapshot [OF this,
      of "[OpCreate 3 \<lparr>sn_SPSMap = Map.empty, sn_PPSMap = Map.empty, sn_FrameCount = 5\<rparr>]" "\<lambda>d. ''x''" 9
        "\<lparr>sn_SPSMap = Map.empty, sn_PPSMap = Map.empty, sn_FrameCount = 7\<rparr>" 0
        "\<lparr>sn_SPSMap = [0 \<mapsto> empty_set_of 0 [0x67] 0], sn_PPSMap = Map.empty, sn_FrameCount = 0\<rparr>"]
  show ?thesis by (simp add: NewParameterSetVersionManager_def)
qed

end
