(* ===== verification/Parameter_Context.thy ===== *)
theory Parameter_Context
  imports Parameter_Remap Parameter_Validator Encoder_Session Parameter_Versions
begin

unbundle bit_operations_syntax

text \<open>
  The parameter set context of \<^verbatim>\<open>internal/ingestion/types/parameter_context.go\<close>: the sequence, picture and video
  parameter sets of a stream by identifier, their life cycle, and the generation of decodable streams.  Maps with byte
  keys are functions; a loop over a map visits its keys in the order the argument \<open>visit\<close> gives them (its first
  argument numbers the loops of an operation, so that each may use its own order).  The time of an operation is its
  argument \<open>now\<close>.
\<close>

section \<open>State\<close>

datatype CodecType =
    CodecUnknown | CodecH264 | CodecHEVC | CodecAV1 | CodecVP8 | CodecVP9 | CodecJPEGXS | CodecAAC | CodecOpus
  | CodecMP3 | CodecPCM | CodecG711 | CodecG722 | CodecL16 | CodecVorbis | CodecSpeex | CodecH261 | CodecH263
  | CodecJPEG | CodecMPV | CodecMP2T

record NALUnit =
  nu_Type :: byte
  nu_Data :: "byte list"

record ParameterSetContext =
  cx_codec :: CodecType
  cx_spsMap :: "byte \<rightharpoonup> ParameterSet"
  cx_ppsMap :: "byte \<rightharpoonup> PPSContext"
  cx_vpsMap :: "byte \<rightharpoonup> ParameterSet"
  cx_hevcSpsMap :: "byte \<rightharpoonup> ParameterSet"
  cx_hevcPpsMap :: "byte \<rightharpoonup> ParameterSet"
  cx_sessionManager :: "EncoderSessionManager option"
  cx_validator :: "ParameterSetValidator option"
  cx_versionManager :: "ParameterSetVersionManager option"
  cx_lastUpdated :: nanos
  cx_totalSets :: int
  cx_streamID :: string
  cx_sessionStartTime :: nanos
  cx_totalFramesProcessed :: u64
  cx_lastParameterSetUpdate :: nanos
  cx_lastCleanup :: nanos
  cx_cleanupEnabled :: bool

record ParameterSetContextConfig =
  cf_ValidatorUpdateRate :: nanos
  cf_ValidatorMaxUpdatesPerHour :: int
  cf_EnableVersioning :: bool
  cf_MaxVersions :: int

definition MaxParameterSetsPerSession :: int where
  "MaxParameterSetsPerSession = 1000"

definition ParameterSetCleanupInterval :: nanos where
  "ParameterSetCleanupInterval = hour"

definition MaxParameterSetAge :: nanos where
  "MaxParameterSetAge = 24 * hour"

definition ErrorCodeCriticalFailure :: int where
  "ErrorCodeCriticalFailure = -1000 - MaxParameterSetsPerSession"

definition ErrorCodeMemoryPressure :: int where
  "ErrorCodeMemoryPressure = -100 - MaxParameterSetsPerSession"

definition NewParameterSetContextWithConfig ::
  "nanos \<Rightarrow> CodecType \<Rightarrow> string \<Rightarrow> ParameterSetContextConfig \<Rightarrow> ParameterSetContext outcome" where
  "NewParameterSetContextWithConfig now codec streamID config =
     outcome_bind (NewEncoderSessionManager streamID
         \<lparr>cc_MaxParameterSets = 100, cc_ParameterSetTTL = 5 * 60 * second, cc_MaxSessions = 10\<rparr>) (\<lambda>sm.
       Ret \<lparr>cx_codec = codec, cx_spsMap = Map.empty, cx_ppsMap = Map.empty, cx_vpsMap = Map.empty,
            cx_hevcSpsMap = Map.empty, cx_hevcPpsMap = Map.empty, cx_sessionManager = Some sm,
            cx_validator = (if cf_ValidatorUpdateRate config > 0 \<and> cf_ValidatorMaxUpdatesPerHour config > 0
              then Some (NewParameterSetValidator now (cf_ValidatorUpdateRate config) (cf_ValidatorMaxUpdatesPerHour config)) else None),
            cx_versionManager = (if cf_EnableVersioning config
              then Some (NewParameterSetVersionManager streamID (if cf_MaxVersions config \<le> 0 then 10 else cf_MaxVersions config)) else None),
            cx_lastUpdated = now, cx_totalSets = 0, cx_streamID = streamID, cx_sessionStartTime = now,
            cx_totalFramesProcessed = 0, cx_lastParameterSetUpdate = now, cx_lastCleanup = now, cx_cleanupEnabled = True\<rparr>)"

definition NewParameterSetContext :: "nanos \<Rightarrow> CodecType \<Rightarrow> string \<Rightarrow> ParameterSetContext outcome" where
  "NewParameterSetContext now codec streamID =
     NewParameterSetContextWithConfig now codec streamID
       \<lparr>cf_ValidatorUpdateRate = 0, cf_ValidatorMaxUpdatesPerHour = 0, cf_EnableVersioning = True, cf_MaxVersions = 20\<rparr>"

section \<open>Cleaning up\<close>

definition map_size :: "(byte \<rightharpoonup> 'a) \<Rightarrow> int" where
  "map_size m = int (length (byte_keys m))"

definition total_sets :: "ParameterSetContext \<Rightarrow> int" where
  "total_sets ctx = map_size (cx_spsMap ctx) + map_size (cx_ppsMap ctx) + map_size (cx_vpsMap ctx) +
     map_size (cx_hevcSpsMap ctx) + map_size (cx_hevcPpsMap ctx)"

text \<open>The loops that delete entries older than an age, and their count.\<close>

definition drop_old :: "nanos \<Rightarrow> nanos \<Rightarrow> ('a \<Rightarrow> nanos) \<Rightarrow> (byte \<rightharpoonup> 'a) \<Rightarrow> byte \<rightharpoonup> 'a" where
  "drop_old now age parsed m = (\<lambda>i. case m i of None \<Rightarrow> None | Some x \<Rightarrow> if now - parsed x > age then None else Some x)"

definition count_old :: "nanos \<Rightarrow> nanos \<Rightarrow> ('a \<Rightarrow> nanos) \<Rightarrow> (byte \<rightharpoonup> 'a) \<Rightarrow> int" where
  "count_old now age parsed m = map_size m - map_size (drop_old now age parsed m)"

abbreviation pps_at :: "PPSContext \<Rightarrow> nanos" where
  "pps_at p \<equiv> ps_ParsedAt (pp_Set p)"

definition performCleanup :: "nanos \<Rightarrow> ParameterSetContext \<Rightarrow> ParameterSetContext" where
  "performCleanup now ctx =
     (let hevc = (cx_codec ctx = CodecHEVC); age = MaxParameterSetAge;
          cleaned = count_old now age ps_ParsedAt (cx_spsMap ctx) + count_old now age pps_at (cx_ppsMap ctx) +
            (if hevc then count_old now age ps_ParsedAt (cx_vpsMap ctx) + count_old now age ps_ParsedAt (cx_hevcSpsMap ctx) +
               count_old now age ps_ParsedAt (cx_hevcPpsMap ctx) else 0);
          ctx = ctx\<lparr>cx_spsMap := drop_old now age ps_ParsedAt (cx_spsMap ctx), cx_ppsMap := drop_old now age pps_at (cx_ppsMap ctx)\<rparr>;
          ctx = (if hevc then ctx\<lparr>cx_vpsMap := drop_old now age ps_ParsedAt (cx_vpsMap ctx),
                   cx_hevcSpsMap := drop_old now age ps_ParsedAt (cx_hevcSpsMap ctx),
                   cx_hevcPpsMap := drop_old now age ps_ParsedAt (cx_hevcPpsMap ctx)\<rparr> else ctx)
      in ctx\<lparr>cx_lastCleanup := now, cx_totalSets := (if cleaned > 0 then cx_totalSets ctx - cleaned else cx_totalSets ctx)\<rparr>)"

definition checkAndPerformCleanup :: "nanos \<Rightarrow> ParameterSetContext \<Rightarrow> ParameterSetContext" where
  "checkAndPerformCleanup now ctx =
     (if \<not> cx_cleanupEnabled ctx then ctx
      else if now - cx_lastCleanup ctx < ParameterSetCleanupInterval then ctx
      else if total_sets ctx > MaxParameterSetsPerSession then performCleanup now ctx
      else ctx\<lparr>cx_lastCleanup := now\<rparr>)"

section \<open>Adding sets\<close>

datatype ctx_error =
    WrongCodec | SPSIdInvalid byte | InvalidSPS ps_error | ZeroProfile | ZeroLevel | ValidatorRejected pv_error
  | EmptyPPS | RepeatedPPS byte | PPSValidationFailed ps_error | InvalidPPS ps_error | PPSIDMismatch byte byte
  | SPSRefMismatch byte byte | HEVCTooShort nat | TooShortAfterStart nat

definition differs :: "'a option \<Rightarrow> 'a option \<Rightarrow> bool" where
  "differs a b = (case (a, b) of (Some x, Some y) \<Rightarrow> x \<noteq> y | _ \<Rightarrow> False)"

definition sps_session_changed :: "ParameterSet option \<Rightarrow> ParameterSet \<Rightarrow> bool" where
  "sps_session_changed existing sps =
     (case existing of
        None \<Rightarrow> True
      | Some old \<Rightarrow> differs (ps_ProfileIDC old) (ps_ProfileIDC sps) \<or> differs (ps_LevelIDC old) (ps_LevelIDC sps) \<or>
          differs (ps_Width old) (ps_Width sps) \<or> differs (ps_Height old) (ps_Height sps))"

definition current_snapshot :: "ParameterSetContext \<Rightarrow> ParameterSnapshot" where
  "current_snapshot ctx =
     \<lparr>sn_SPSMap = cx_spsMap ctx, sn_PPSMap = cx_ppsMap ctx, sn_FrameCount = cx_totalFramesProcessed ctx\<rparr>"

text \<open>What \<^verbatim>\<open>AddSPS\<close> does with a parsed and accepted set.\<close>

definition install_sps :: "(byte list \<Rightarrow> string) \<Rightarrow> nanos \<Rightarrow> ParameterSet \<Rightarrow> ParameterSetContext \<Rightarrow> ParameterSetContext" where
  "install_sps sha now sps ctx =
     (let sessionChanged = sps_session_changed (cx_spsMap ctx (ps_ID sps)) sps;
          ctx = ctx\<lparr>cx_spsMap := (cx_spsMap ctx)(ps_ID sps \<mapsto> sps), cx_lastUpdated := now,
                    cx_lastParameterSetUpdate := now, cx_totalSets := cx_totalSets ctx + 1\<rparr>;
          ctx = (if sessionChanged then ctx\<lparr>cx_sessionManager := map_option OnParameterSetChange (cx_sessionManager ctx)\<rparr> else ctx);
          snapshot = current_snapshot ctx;
          ctx = checkAndPerformCleanup now ctx
      in case cx_versionManager ctx of
           Some vm \<Rightarrow> if sessionChanged then ctx\<lparr>cx_versionManager := Some (fst (CreateVersionFromSnapshot sha now snapshot vm))\<rparr> else ctx
         | None \<Rightarrow> ctx)"

definition AddSPS ::
  "(byte list \<Rightarrow> string) \<Rightarrow> nanos \<Rightarrow> byte list \<Rightarrow> ParameterSetContext \<Rightarrow> (ParameterSetContext \<times> ctx_error option) outcome" where
  "AddSPS sha now data ctx =
     (if cx_codec ctx \<noteq> CodecH264 then Ret (ctx, Some WrongCodec)
      else if (case ValidateSPSData data of Inl _ \<Rightarrow> False | Inr spsID \<Rightarrow> spsID > 31)
      then Ret (ctx, Some (SPSIdInvalid (case ValidateSPSData data of Inl _ \<Rightarrow> 0 | Inr spsID \<Rightarrow> spsID)))
      else outcome_bind (EnhancedSPSValidation data) (\<lambda>_.
        Ret (case parseSPS (cx_lastUpdated ctx) data of
               Inl e \<Rightarrow> (ctx, Some (InvalidSPS e))
             | Inr sps \<Rightarrow>
                 if ps_ProfileIDC sps \<in> {None, Some 0} then (ctx, Some ZeroProfile)
                 else if ps_LevelIDC sps \<in> {None, Some 0} then (ctx, Some ZeroLevel)
                 else case cx_validator ctx of
                     None \<Rightarrow> (install_sps sha now sps ctx, None)
                   | Some v \<Rightarrow>
                       (case validator_ValidateSPS sha now (ps_ID sps) data v of
                          (v, Some e) \<Rightarrow> (ctx\<lparr>cx_validator := Some v\<rparr>, Some (ValidatorRejected e))
                        | (v, None) \<Rightarrow> (install_sps sha now sps (ctx\<lparr>cx_validator := Some v\<rparr>), None)))))"

text \<open>The test for a picture set that is all ones or all zeros.\<close>

definition repeated_pps :: "byte list \<Rightarrow> bool" where
  "repeated_pps data \<longleftrightarrow> length data > 1 \<and> data ! 1 \<in> {0xFF, 0x00} \<and> list_all (\<lambda>b. b = data ! 1) (drop 2 (take 10 data))"

definition getSPSIDs :: "(byte list \<Rightarrow> byte list) \<Rightarrow> ParameterSetContext \<Rightarrow> byte list" where
  "getSPSIDs visit ctx = visit (byte_keys (cx_spsMap ctx))"

definition getPPSIDs :: "(byte list \<Rightarrow> byte list) \<Rightarrow> ParameterSetContext \<Rightarrow> byte list" where
  "getPPSIDs visit ctx = visit (byte_keys (cx_ppsMap ctx))"

definition install_pps :: "(nat \<Rightarrow> byte list \<Rightarrow> byte list) \<Rightarrow> nanos \<Rightarrow> PPSContext \<Rightarrow> ParameterSetContext \<Rightarrow> ParameterSetContext" where
  "install_pps visit now pps ctx =
     (let available = getSPSIDs (visit 0) ctx;
          pps = (if cx_spsMap ctx (pp_ReferencedSPSID pps) = None \<and> length available = 1 \<and> pp_ReferencedSPSID pps \<noteq> available ! 0
                 then pps\<lparr>pp_ReferencedSPSID := available ! 0\<rparr> else pps);
          ctx = ctx\<lparr>cx_ppsMap := (cx_ppsMap ctx)(ps_ID (pp_Set pps) \<mapsto> pps), cx_lastUpdated := now,
                    cx_lastParameterSetUpdate := now, cx_totalSets := cx_totalSets ctx + 1\<rparr>
      in checkAndPerformCleanup now ctx)"

definition AddPPS ::
  "(nat \<Rightarrow> byte list \<Rightarrow> byte list) \<Rightarrow> (byte list \<Rightarrow> string) \<Rightarrow> nanos \<Rightarrow> byte list \<Rightarrow> ParameterSetContext \<Rightarrow>
   (ParameterSetContext \<times> ctx_error option) outcome" where
  "AddPPS visit sha now data ctx =
     (if cx_codec ctx \<noteq> CodecH264 then Ret (ctx, Some WrongCodec)
      else if length data = 0 then Ret (ctx, Some EmptyPPS)
      else if repeated_pps data then Ret (ctx, Some (RepeatedPPS (data ! 1)))
      else case ValidatePPSData data of
          Inl e \<Rightarrow> Ret (ctx, Some (PPSValidationFailed e))
        | Inr (parsedPPSID, parsedSPSID) \<Rightarrow>
            outcome_bind (EnhancedPPSValidation data) (\<lambda>_.
              Ret (case parsePPS (cx_lastUpdated ctx) data of
                     Inl e \<Rightarrow> (ctx, Some (InvalidPPS e))
                   | Inr pps \<Rightarrow>
                       if ps_ID (pp_Set pps) \<noteq> parsedPPSID then (ctx, Some (PPSIDMismatch (ps_ID (pp_Set pps)) parsedPPSID))
                       else if pp_ReferencedSPSID pps \<noteq> parsedSPSID
                       then (ctx, Some (SPSRefMismatch (pp_ReferencedSPSID pps) parsedSPSID))
                       else case cx_validator ctx of
                           None \<Rightarrow> (install_pps visit now pps ctx, None)
                         | Some v \<Rightarrow>
                             (case validator_ValidatePPS sha now (ps_ID (pp_Set pps)) (pp_ReferencedSPSID pps) data v of
                                (v, Some e) \<Rightarrow> (ctx\<lparr>cx_validator := Some v\<rparr>, Some (ValidatorRejected e))
                              | (v, None) \<Rightarrow> (install_pps visit now pps (ctx\<lparr>cx_validator := Some v\<rparr>), None)))))"

text \<open>The start code in front of a HEVC unit, if there is one.\<close>

definition hevc_nal_start :: "byte list \<Rightarrow> nat" where
  "hevc_nal_start data =
     (if data ! 0 = 0 \<and> data ! 1 = 0 then
        if data ! 2 = 1 then 3 else if data ! 2 = 0 \<and> length data > 3 \<and> data ! 3 = 1 then 4 else 0
      else 0)"

definition AddVPS :: "nanos \<Rightarrow> byte list \<Rightarrow> ParameterSetContext \<Rightarrow> ParameterSetContext \<times> ctx_error option" where
  "AddVPS now data ctx =
     (if cx_codec ctx \<noteq> CodecHEVC then (ctx, Some WrongCodec)
      else if length data < 4 then (ctx, Some (HEVCTooShort (length data)))
      else
        (let nalStart = hevc_nal_start data
         in if nalStart + 2 \<ge> length data then (ctx, Some (TooShortAfterStart nalStart))
            else
              (let vpsID = drop_bit 4 (data ! (nalStart + 2)) AND 0x0F
               in (ctx\<lparr>cx_vpsMap := (cx_vpsMap ctx)(vpsID \<mapsto> empty_set_of vpsID data now),
                       cx_lastUpdated := now, cx_lastParameterSetUpdate := now\<rparr>, None))))"

text \<open>The identifier that \<^verbatim>\<open>AddHEVCSPS\<close> reads.  Results of reads are ignored where the code ignores them; the reader
  stays where the failed read left it.\<close>

definition hevc_sps_id :: "byte list \<Rightarrow> byte" where
  "hevc_sps_id rbspData =
     (let (br, _) = tb_ReadBits 4 (NewBitReader rbspData)
      in case tb_ReadBits 3 br of
           (_, Inl _) \<Rightarrow> 0
         | (br, Inr maxSubLayers) \<Rightarrow>
             (let (br, _) = tb_ReadBits 1 br; (br, _) = tb_ReadBits 96 br;
                  br = (if maxSubLayers > 1
                        then (let (br, _) = tb_ReadBits (uint (2 * (maxSubLayers - 1))) br
                              in if maxSubLayers < 8 then fst (tb_ReadBits (uint (2 * (8 - maxSubLayers))) br) else br)
                        else br)
              in case tb_ReadUE br of (_, Inr i) \<Rightarrow> if i \<le> 15 then ucast i else 0 | _ \<Rightarrow> 0))"

text \<open>The removal of escape bytes fails on empty data only, and then returns no bytes.\<close>

definition rbsp_or_empty :: "byte list \<Rightarrow> byte list" where
  "rbsp_or_empty data = (case RemoveEmulationPreventionBytes data of Inl _ \<Rightarrow> [] | Inr r \<Rightarrow> r)"

definition AddHEVCSPS :: "nanos \<Rightarrow> byte list \<Rightarrow> ParameterSetContext \<Rightarrow> ParameterSetContext \<times> ctx_error option" where
  "AddHEVCSPS now data ctx =
     (if cx_codec ctx \<noteq> CodecHEVC then (ctx, Some WrongCodec)
      else if length data < 4 then (ctx, Some (HEVCTooShort (length data)))
      else
        (let nalStart = hevc_nal_start data
         in if nalStart + 2 \<ge> length data then (ctx, Some (TooShortAfterStart nalStart))
            else
              (let spsID = hevc_sps_id (rbsp_or_empty (drop (nalStart + 2) data))
               in (ctx\<lparr>cx_hevcSpsMap := (cx_hevcSpsMap ctx)(spsID \<mapsto> empty_set_of spsID data now),
                       cx_lastUpdated := now, cx_lastParameterSetUpdate := now\<rparr>, None))))"

definition hevc_pps_id :: "byte list \<Rightarrow> byte" where
  "hevc_pps_id rbspData = (case tb_ReadUE (NewBitReader rbspData) of (_, Inr i) \<Rightarrow> if i \<le> 63 then ucast i else 0 | _ \<Rightarrow> 0)"

definition AddHEVCPPS :: "nanos \<Rightarrow> byte list \<Rightarrow> ParameterSetContext \<Rightarrow> ParameterSetContext \<times> ctx_error option" where
  "AddHEVCPPS now data ctx =
     (if cx_codec ctx \<noteq> CodecHEVC then (ctx, Some WrongCodec)
      else if length data < 4 then (ctx, Some (HEVCTooShort (length data)))
      else
        (let nalStart = hevc_nal_start data
         in if nalStart + 2 \<ge> length data then (ctx, Some (TooShortAfterStart nalStart))
            else
              (let ppsID = hevc_pps_id (rbsp_or_empty (drop (nalStart + 2) data))
               in (ctx\<lparr>cx_hevcPpsMap := (cx_hevcPpsMap ctx)(ppsID \<mapsto> empty_set_of ppsID data now),
                       cx_lastUpdated := now, cx_lastParameterSetUpdate := now\<rparr>, None))))"

section \<open>Streams for a decoder\<close>

definition unit_type :: "NALUnit \<Rightarrow> byte" where
  "unit_type u = (if nu_Type u = 0 \<and> length (nu_Data u) > 0 then nu_Data u ! 0 AND 0x1F else nu_Type u)"

datatype req_error = NoNALUnits | NoSlice | SliceHeader ps_error

fun first_slice :: "NALUnit list \<Rightarrow> NALUnit option" where
  "first_slice [] = None"
| "first_slice (u # us) = (if unit_type u \<ge> 1 \<and> unit_type u \<le> 5 then Some u else first_slice us)"

definition GetDecodingRequirements :: "NALUnit list \<Rightarrow> ParameterSetContext \<Rightarrow> req_error + FrameDecodingRequirements" where
  "GetDecodingRequirements units ctx =
     (if length units = 0 then Inl NoNALUnits
      else case first_slice units of
          None \<Rightarrow> Inl NoSlice
        | Some u \<Rightarrow>
            (case parseSliceHeader (cx_spsMap ctx) (cx_ppsMap ctx) (nu_Data u) (unit_type u = 5) of
               Inl e \<Rightarrow> Inl (SliceHeader e) | Inr r \<Rightarrow> Inr r))"

datatype cannot_decode =
    NoRequirements req_error | MissingPPS byte | MissingSPS byte byte | FallbackFailed byte byte
  | PPSMarkedInvalid byte string | SPSMarkedInvalid byte string

text \<open>\<^verbatim>\<open>canDecodeFrameWithRequirements\<close>; \<open>None\<close> means that the frame can be decoded.  A missing sequence set is replaced by
  the first available one.\<close>

definition canDecodeFrameWithRequirements ::
  "(nat \<Rightarrow> byte list \<Rightarrow> byte list) \<Rightarrow> NALUnit list \<Rightarrow> FrameDecodingRequirements option \<Rightarrow> ParameterSetContext \<Rightarrow> cannot_decode option" where
  "canDecodeFrameWithRequirements visit units cached ctx =
     (case (case cached of Some r \<Rightarrow> Inr r | None \<Rightarrow> GetDecodingRequirements units ctx) of
        Inl e \<Rightarrow> Some (NoRequirements e)
      | Inr req \<Rightarrow>
          (case cx_ppsMap ctx (rq_PPSID req) of
             None \<Rightarrow> Some (MissingPPS (rq_PPSID req))
           | Some pps \<Rightarrow>
               (let ref = pp_ReferencedSPSID pps; available = getSPSIDs (visit 0) ctx;
                    found = (case cx_spsMap ctx ref of
                               Some sps \<Rightarrow> Inr sps
                             | None \<Rightarrow>
                                 if length available > 0
                                 then (case cx_spsMap ctx (available ! 0) of
                                         None \<Rightarrow> Inl (FallbackFailed ref (rq_PPSID req)) | Some sps \<Rightarrow> Inr sps)
                                 else Inl (MissingSPS ref (rq_PPSID req)))
                in case found of
                     Inl e \<Rightarrow> Some e
                   | Inr sps \<Rightarrow>
                       if \<not> ps_Valid (pp_Set pps) then Some (PPSMarkedInvalid (rq_PPSID req) (ps_ErrorReason (pp_Set pps)))
                       else if \<not> ps_Valid sps then Some (SPSMarkedInvalid ref (ps_ErrorReason sps))
                       else None)))"

definition CanDecodeFrame :: "(nat \<Rightarrow> byte list \<Rightarrow> byte list) \<Rightarrow> NALUnit list \<Rightarrow> ParameterSetContext \<Rightarrow> bool" where
  "CanDecodeFrame visit units ctx = (canDecodeFrameWithRequirements visit units None ctx = None)"

definition startCode :: "byte list" where
  "startCode = [0x00, 0x00, 0x00, 0x01]"

datatype gen_error =
    GenRequirements req_error | GenCannotDecode cannot_decode | GenSPSInvalid ps_error | GenSPSMismatch byte byte
  | GenPPSInvalid ps_error | GenPPSMismatch byte byte | GenRefMismatch byte byte | GenNoSets

text \<open>The frame's units with start codes, as \<^verbatim>\<open>GenerateDecodableStream\<close> appends them.\<close>

definition frame_unit :: "NALUnit \<Rightarrow> byte list" where
  "frame_unit u =
     (let nalType = unit_type u
      in if nalType = 0 \<or> (length (nu_Data u) = 0 \<and> (nalType < 1 \<or> nalType > 31)) then []
         else startCode @
           (if length (nu_Data u) > 0 then CleanNALUnitData (nu_Data u)
            else if nalType \<ge> 1 \<and> nalType \<le> 31 then [nalType OR 0x60] else []))"

text \<open>Reading a field of a missing sequence set is a panic.\<close>

definition GenerateDecodableStream ::
  "(nat \<Rightarrow> byte list \<Rightarrow> byte list) \<Rightarrow> NALUnit list \<Rightarrow> ParameterSetContext \<Rightarrow> (gen_error + byte list) outcome" where
  "GenerateDecodableStream visit units ctx =
     (case GetDecodingRequirements units ctx of
        Inl e \<Rightarrow> Ret (Inl (GenRequirements e))
      | Inr req \<Rightarrow>
          (case canDecodeFrameWithRequirements visit units (Some req) ctx of
             Some reason \<Rightarrow> Ret (Inl (GenCannotDecode reason))
           | None \<Rightarrow>
               (let pps = the (cx_ppsMap ctx (rq_PPSID req))
                in case cx_spsMap ctx (pp_ReferencedSPSID pps) of
                     None \<Rightarrow> Panic
                   | Some sps \<Rightarrow>
                       Ret (case ValidateSPSData (ps_Data sps) of
                              Inl e \<Rightarrow> Inl (GenSPSInvalid e)
                            | Inr spsID \<Rightarrow>
                                if spsID \<noteq> ps_ID sps then Inl (GenSPSMismatch (ps_ID sps) spsID)
                                else case ValidatePPSData (ps_Data (pp_Set pps)) of
                                    Inl e \<Rightarrow> Inl (GenPPSInvalid e)
                                  | Inr (ppsID, spsRef) \<Rightarrow>
                                      if ppsID \<noteq> ps_ID (pp_Set pps) then Inl (GenPPSMismatch (ps_ID (pp_Set pps)) ppsID)
                                      else if spsRef \<noteq> pp_ReferencedSPSID pps then Inl (GenRefMismatch (pp_ReferencedSPSID pps) spsRef)
                                      else Inr (startCode @ CleanNALUnitData (ps_Data sps) @
                                             startCode @ CleanNALUnitData (ps_Data (pp_Set pps)) @ concat (map frame_unit units))))))"

definition findCompatibleParameterSetsWithRequirements ::
  "FrameDecodingRequirements \<Rightarrow> ParameterSetContext \<Rightarrow> (ParameterSet \<times> PPSContext) option" where
  "findCompatibleParameterSetsWithRequirements req ctx =
     (case cx_ppsMap ctx (rq_PPSID req) of
        None \<Rightarrow> None
      | Some pps \<Rightarrow>
          if \<not> ps_Valid (pp_Set pps) then None
          else case cx_spsMap ctx (pp_ReferencedSPSID pps) of
              None \<Rightarrow> None | Some sps \<Rightarrow> if \<not> ps_Valid sps then None else Some (sps, pps))"

text \<open>The searches for the most recently parsed set, over the keys in the order visited.\<close>

fun newest :: "('a \<Rightarrow> nanos) \<Rightarrow> 'a list \<Rightarrow> 'a option \<Rightarrow> 'a option" where
  "newest parsed [] best = best"
| "newest parsed (x # xs) best =
     newest parsed xs (case best of None \<Rightarrow> Some x | Some b \<Rightarrow> if parsed x > parsed b then Some x else best)"

definition map_values :: "(byte list \<Rightarrow> byte list) \<Rightarrow> (byte \<rightharpoonup> 'a) \<Rightarrow> 'a list" where
  "map_values visit m = map (the \<circ> m) (visit (byte_keys m))"

definition best_sets ::
  "(nat \<Rightarrow> byte list \<Rightarrow> byte list) \<Rightarrow> ParameterSetContext \<Rightarrow> (ParameterSet option \<times> PPSContext option)" where
  "best_sets visit ctx =
     (let ppss = map_values (visit 1) (cx_ppsMap ctx);
          spsWithPPS = (\<lambda>i. \<exists>p \<in> set ppss. ps_Valid (pp_Set p) \<and> pp_ReferencedSPSID p = i);
          bestSPS = newest ps_ParsedAt
            (filter (\<lambda>s. ps_Valid s \<and> spsWithPPS (ps_ID s) \<and> (case ValidateSPSData (ps_Data s) of Inl _ \<Rightarrow> False | Inr _ \<Rightarrow> True))
              (map_values (visit 2) (cx_spsMap ctx))) None;
          bestPPS = (case bestSPS of
            None \<Rightarrow> None
          | Some b \<Rightarrow>
              newest pps_at
                (filter (\<lambda>p. ps_Valid (pp_Set p) \<and> pp_ReferencedSPSID p = ps_ID b \<and>
                    (case ValidatePPSData (ps_Data (pp_Set p)) of Inl _ \<Rightarrow> False | Inr _ \<Rightarrow> True))
                  (map_values (visit 3) (cx_ppsMap ctx))) None)
      in case bestPPS of
           Some p \<Rightarrow> (bestSPS, Some p)
         | None \<Rightarrow>
             (let pair = newest (pps_at \<circ> snd)
                (concat (map (\<lambda>p. if \<not> ps_Valid (pp_Set p) then []
                    else case cx_spsMap ctx (pp_ReferencedSPSID p) of Some s \<Rightarrow> if ps_Valid s then [(s, p)] else [] | None \<Rightarrow> [])
                  (map_values (visit 4) (cx_ppsMap ctx)))) None
              in case pair of
                   Some (s, p) \<Rightarrow> (Some s, Some p)
                 | None \<Rightarrow> (bestSPS, newest pps_at (filter (\<lambda>p. ps_Valid (pp_Set p)) (map_values (visit 5) (cx_ppsMap ctx))) None)))"

definition with_start :: "byte list \<Rightarrow> byte list" where
  "with_start data = startCode @ CleanNALUnitData data"

text \<open>The units of the frame as the fallbacks append them.\<close>

definition plain_units :: "NALUnit list \<Rightarrow> byte list" where
  "plain_units units =
     concat (map (\<lambda>u. if length (nu_Data u) = 0 \<or> nu_Data u ! 0 AND 0x1F = 0 then [] else with_start (nu_Data u)) units)"

definition remapped_units :: "NALUnit list \<Rightarrow> byte list" where
  "remapped_units units =
     concat (map (\<lambda>u.
       if length (nu_Data u) = 0 \<or> unit_type u = 0 then []
       else if unit_type u \<ge> 1 \<and> unit_type u \<le> 5 then with_start (remapSliceHeaderPPSID (nu_Data u) 0)
       else with_start (nu_Data u)) units)"

definition GenerateBestEffortStream ::
  "(nat \<Rightarrow> byte list \<Rightarrow> byte list) \<Rightarrow> NALUnit list \<Rightarrow> ParameterSetContext \<Rightarrow> gen_error + byte list" where
  "GenerateBestEffortStream visit units ctx =
     (if length units = 0 then Inl (GenRequirements NoNALUnits)
      else case best_sets visit ctx of
          (Some bestSPS, Some bestPPS) \<Rightarrow>
            (case GetDecodingRequirements units ctx of
               Inl _ \<Rightarrow>
                 Inr (concat (map (\<lambda>s. if ps_Valid s then with_start (ps_Data s) else []) (map_values (visit 6) (cx_spsMap ctx))) @
                      concat (map (\<lambda>p. if ps_Valid (pp_Set p) then with_start (ps_Data (pp_Set p)) else []) (map_values (visit 7) (cx_ppsMap ctx))) @
                      plain_units units)
             | Inr req \<Rightarrow>
                 (case findCompatibleParameterSetsWithRequirements req ctx of
                    Some (sps, pps) \<Rightarrow> Inr (with_start (ps_Data sps) @ with_start (ps_Data (pp_Set pps)) @ plain_units units)
                  | None \<Rightarrow>
                      (case (createRemappedSPS (Some bestSPS) 0, createRemappedPPS (Some bestPPS) 0 0) of
                         (Some s, Some p) \<Rightarrow>
                           if ValidateSPSData s = Inr 0 \<and> ValidatePPSData p = Inr (0, 0)
                           then Inr (startCode @ s @ startCode @ p @ remapped_units units)
                           else Inr (with_start (ps_Data bestSPS) @ with_start (ps_Data (pp_Set bestPPS)) @ plain_units units)
                       | _ \<Rightarrow> Inr (with_start (ps_Data bestSPS) @ with_start (ps_Data (pp_Set bestPPS)) @ plain_units units))))
        | _ \<Rightarrow> Inl GenNoSets)"

section \<open>Copying, clearing and versions\<close>

definition calculateCoverage :: "ParameterSetContext \<Rightarrow> rat" where
  "calculateCoverage ctx =
     (if map_size (cx_spsMap ctx) = 0 then 0
      else if map_size (cx_ppsMap ctx) = 0 then 1 / 2
      else of_nat (length (filter (\<lambda>p. ps_Valid (pp_Set p) \<and>
               (case cx_spsMap ctx (pp_ReferencedSPSID p) of None \<Rightarrow> False | Some s \<Rightarrow> ps_Valid s))
             (map_values (\<lambda>ks. ks) (cx_ppsMap ctx)))) / of_int (map_size (cx_ppsMap ctx)))"

definition IncrementFrameCount :: "ParameterSetContext \<Rightarrow> ParameterSetContext" where
  "IncrementFrameCount ctx = ctx\<lparr>cx_totalFramesProcessed := cx_totalFramesProcessed ctx + 1\<rparr>"

definition ctx_Clear :: "nanos \<Rightarrow> ParameterSetContext \<Rightarrow> ParameterSetContext" where
  "ctx_Clear now ctx = ctx\<lparr>cx_spsMap := Map.empty, cx_ppsMap := Map.empty, cx_vpsMap := Map.empty, cx_hevcSpsMap := Map.empty,
     cx_hevcPpsMap := Map.empty, cx_totalSets := 0, cx_lastUpdated := now, cx_lastCleanup := now\<rparr>"

datatype set_kind = KindSPS | KindPPS | KindVPS | KindHevcSPS | KindHevcPPS

type_synonym aged = "set_kind \<times> byte \<times> nanos"

definition all_aged :: "(nat \<Rightarrow> byte list \<Rightarrow> byte list) \<Rightarrow> ParameterSetContext \<Rightarrow> aged list" where
  "all_aged visit ctx =
     map (\<lambda>i. (KindSPS, i, ps_ParsedAt (the (cx_spsMap ctx i)))) (visit 0 (byte_keys (cx_spsMap ctx))) @
     map (\<lambda>i. (KindPPS, i, pps_at (the (cx_ppsMap ctx i)))) (visit 1 (byte_keys (cx_ppsMap ctx))) @
     map (\<lambda>i. (KindVPS, i, ps_ParsedAt (the (cx_vpsMap ctx i)))) (visit 2 (byte_keys (cx_vpsMap ctx))) @
     map (\<lambda>i. (KindHevcSPS, i, ps_ParsedAt (the (cx_hevcSpsMap ctx i)))) (visit 3 (byte_keys (cx_hevcSpsMap ctx))) @
     map (\<lambda>i. (KindHevcPPS, i, ps_ParsedAt (the (cx_hevcPpsMap ctx i)))) (visit 4 (byte_keys (cx_hevcPpsMap ctx)))"

text \<open>The bubble sort: pass \<open>i\<close> compares neighbours up to position \<open>len - i - 1\<close>.\<close>

fun bubble_pass :: "nat \<Rightarrow> aged list \<Rightarrow> aged list" where
  "bubble_pass (Suc n) (x # y # xs) =
     (if snd (snd x) > snd (snd y) then y # bubble_pass n (x # xs) else x # bubble_pass n (y # xs))"
| "bubble_pass _ xs = xs"

fun bubble_passes :: "nat \<Rightarrow> aged list \<Rightarrow> aged list" where
  "bubble_passes 0 xs = xs"
| "bubble_passes (Suc n) xs = bubble_passes n (bubble_pass (Suc n) xs)"

definition bubble_sort :: "aged list \<Rightarrow> aged list" where
  "bubble_sort xs = bubble_passes (length xs - 1) xs"

definition remove_aged :: "aged \<Rightarrow> ParameterSetContext \<Rightarrow> ParameterSetContext" where
  "remove_aged a ctx =
     (case a of
        (KindSPS, i, _) \<Rightarrow> ctx\<lparr>cx_spsMap := (cx_spsMap ctx)(i := None)\<rparr>
      | (KindPPS, i, _) \<Rightarrow> ctx\<lparr>cx_ppsMap := (cx_ppsMap ctx)(i := None)\<rparr>
      | (KindVPS, i, _) \<Rightarrow> ctx\<lparr>cx_vpsMap := (cx_vpsMap ctx)(i := None)\<rparr>
      | (KindHevcSPS, i, _) \<Rightarrow> ctx\<lparr>cx_hevcSpsMap := (cx_hevcSpsMap ctx)(i := None)\<rparr>
      | (KindHevcPPS, i, _) \<Rightarrow> ctx\<lparr>cx_hevcPpsMap := (cx_hevcPpsMap ctx)(i := None)\<rparr>)"

definition clearOldestUnsafe ::
  "(nat \<Rightarrow> byte list \<Rightarrow> byte list) \<Rightarrow> int \<Rightarrow> ParameterSetContext \<Rightarrow> ParameterSetContext \<times> int" where
  "clearOldestUnsafe visit count ctx =
     (if count \<le> 0 then (ctx, 0)
      else
        (let oldest = take (nat count) (bubble_sort (all_aged visit ctx))
         in (fold remove_aged oldest ctx, int (length oldest))))"

definition ClearOldest ::
  "(nat \<Rightarrow> byte list \<Rightarrow> byte list) \<Rightarrow> nanos \<Rightarrow> int \<Rightarrow> ParameterSetContext \<Rightarrow> ParameterSetContext \<times> int" where
  "ClearOldest visit now count ctx =
     (if count \<le> 0 then (ctx, 0)
      else
        (let (ctx, removed) = clearOldestUnsafe visit count ctx
         in (ctx\<lparr>cx_totalSets := cx_totalSets ctx - removed, cx_lastCleanup := now\<rparr>, removed)))"

definition performEmergencyCleanupUnsafe ::
  "(nat \<Rightarrow> byte list \<Rightarrow> byte list) \<Rightarrow> nanos \<Rightarrow> ParameterSetContext \<Rightarrow> ParameterSetContext \<times> int" where
  "performEmergencyCleanupUnsafe visit now ctx =
     (let before = total_sets ctx;
          ctx = ctx\<lparr>cx_spsMap := drop_old now hour ps_ParsedAt (cx_spsMap ctx), cx_ppsMap := drop_old now hour pps_at (cx_ppsMap ctx),
                    cx_vpsMap := drop_old now hour ps_ParsedAt (cx_vpsMap ctx),
                    cx_hevcSpsMap := drop_old now hour ps_ParsedAt (cx_hevcSpsMap ctx),
                    cx_hevcPpsMap := drop_old now hour ps_ParsedAt (cx_hevcPpsMap ctx)\<rparr>;
          removed = before - total_sets ctx;
          currentTotal = total_sets ctx;
          (ctx, more) = (if currentTotal \<ge> MaxParameterSetsPerSession then clearOldestUnsafe visit (currentTotal div 2) ctx else (ctx, 0));
          removed = removed + more
      in (ctx\<lparr>cx_totalSets := cx_totalSets ctx - removed, cx_lastCleanup := now\<rparr>, removed))"

text \<open>One of the five copying loops: it stops with an error when the limit is reached before an entry is looked at.\<close>

fun copy_loop ::
  "int \<Rightarrow> ('a \<Rightarrow> bool) \<Rightarrow> ('a \<Rightarrow> 'a) \<Rightarrow> (byte \<rightharpoonup> 'a) \<Rightarrow> byte list \<Rightarrow> (byte \<rightharpoonup> 'a) \<Rightarrow> int \<Rightarrow> (byte \<rightharpoonup> 'a) \<times> int \<times> bool" where
  "copy_loop maxToCopy valid cp source [] dest copied = (dest, copied, True)"
| "copy_loop maxToCopy valid cp source (i # is) dest copied =
     (if copied \<ge> maxToCopy then (dest, copied, False)
      else case source i of
          None \<Rightarrow> copy_loop maxToCopy valid cp source is dest copied
        | Some x \<Rightarrow>
            if valid x then copy_loop maxToCopy valid cp source is (dest(i \<mapsto> cp x)) (copied + 1)
            else copy_loop maxToCopy valid cp source is dest copied)"

text \<open>The copy of a picture set and of the HEVC sets carries only the six basic fields.\<close>

definition basicCopy :: "ParameterSet \<Rightarrow> ParameterSet" where
  "basicCopy ps = (empty_set_of (ps_ID ps) (ps_Data ps) (ps_ParsedAt ps))
     \<lparr>ps_Size := ps_Size ps, ps_Valid := ps_Valid ps, ps_ErrorReason := ps_ErrorReason ps\<rparr>"

definition basicCopyPPS :: "PPSContext \<Rightarrow> PPSContext" where
  "basicCopyPPS p = \<lparr>pp_Set = basicCopy (pp_Set p), pp_ReferencedSPSID = pp_ReferencedSPSID p\<rparr>"

definition copy_sets ::
  "(nat \<Rightarrow> byte list \<Rightarrow> byte list) \<Rightarrow> nanos \<Rightarrow> int \<Rightarrow> ParameterSetContext \<Rightarrow> ParameterSetContext \<Rightarrow> ParameterSetContext \<times> int" where
  "copy_sets visit now maxToCopy source ctx =
     (let (m, n, ok) = copy_loop maxToCopy ps_Valid copyParameterSet (cx_spsMap source) (visit 5 (byte_keys (cx_spsMap source))) (cx_spsMap ctx) 0;
          ctx = ctx\<lparr>cx_spsMap := m\<rparr>
      in if \<not> ok then (ctx, - (n + 1)) else
      let (m, n, ok) = copy_loop maxToCopy (ps_Valid \<circ> pp_Set) basicCopyPPS (cx_ppsMap source) (visit 6 (byte_keys (cx_ppsMap source))) (cx_ppsMap ctx) n;
          ctx = ctx\<lparr>cx_ppsMap := m\<rparr>
      in if \<not> ok then (ctx, - (n + 1)) else
      let finish = (\<lambda>ctx n. (if n > 0 then ctx\<lparr>cx_lastUpdated := now, cx_totalSets := cx_totalSets ctx + n\<rparr> else ctx, n))
      in if cx_codec ctx \<noteq> CodecHEVC then finish ctx n else
      let (m, n, ok) = copy_loop maxToCopy ps_Valid basicCopy (cx_vpsMap source) (visit 7 (byte_keys (cx_vpsMap source))) (cx_vpsMap ctx) n;
          ctx = ctx\<lparr>cx_vpsMap := m\<rparr>
      in if \<not> ok then (ctx, - (n + 1)) else
      let (m, n, ok) = copy_loop maxToCopy ps_Valid basicCopy (cx_hevcSpsMap source) (visit 8 (byte_keys (cx_hevcSpsMap source))) (cx_hevcSpsMap ctx) n;
          ctx = ctx\<lparr>cx_hevcSpsMap := m\<rparr>
      in if \<not> ok then (ctx, - (n + 1)) else
      let (m, n, ok) = copy_loop maxToCopy ps_Valid basicCopy (cx_hevcPpsMap source) (visit 9 (byte_keys (cx_hevcPpsMap source))) (cx_hevcPpsMap ctx) n;
          ctx = ctx\<lparr>cx_hevcPpsMap := m\<rparr>
      in if \<not> ok then (ctx, - (n + 1)) else finish ctx n)"

text \<open>The source is another context; copying from a missing context or from itself does nothing and is not modelled.\<close>

definition CopyParameterSetsFrom ::
  "(nat \<Rightarrow> byte list \<Rightarrow> byte list) \<Rightarrow> nanos \<Rightarrow> ParameterSetContext \<Rightarrow> ParameterSetContext \<Rightarrow> ParameterSetContext \<times> int" where
  "CopyParameterSetsFrom visit now source ctx =
     (let currentTotal = total_sets ctx
      in if currentTotal \<ge> MaxParameterSetsPerSession
         then (let (ctx, cleaned) = performEmergencyCleanupUnsafe visit now ctx; currentTotal = total_sets ctx
               in if currentTotal \<ge> MaxParameterSetsPerSession then (ctx, ErrorCodeCriticalFailure - currentTotal)
                  else if cleaned = 0 then (ctx, ErrorCodeMemoryPressure - currentTotal)
                  else copy_sets visit now (MaxParameterSetsPerSession - currentTotal) source ctx)
         else copy_sets visit now (MaxParameterSetsPerSession - currentTotal) source ctx)"

definition valid_data :: "ParameterSet option \<Rightarrow> byte list option" where
  "valid_data m = (case m of Some ps \<Rightarrow> if ps_Valid ps then Some (ps_Data ps) else None | None \<Rightarrow> None)"

definition GetParameterSetData :: "string \<Rightarrow> byte \<Rightarrow> ParameterSetContext \<Rightarrow> byte list option" where
  "GetParameterSetData paramType i ctx =
     (if paramType = ''sps'' then valid_data (cx_spsMap ctx i)
      else if paramType = ''pps'' then valid_data (map_option pp_Set (cx_ppsMap ctx i))
      else if paramType = ''vps'' then valid_data (cx_vpsMap ctx i)
      else None)"

definition GetAllParameterSets :: "ParameterSetContext \<Rightarrow> string \<rightharpoonup> (byte \<rightharpoonup> byte list)" where
  "GetAllParameterSets ctx =
     (let section = (\<lambda>n m. if map_size m > 0 then [n \<mapsto> (\<lambda>i. valid_data (m i))] else Map.empty);
          h264 = section ''sps'' (cx_spsMap ctx) ++ section ''pps'' (map_option pp_Set \<circ> cx_ppsMap ctx)
      in if cx_codec ctx = CodecHEVC
         then h264 ++ section ''vps'' (cx_vpsMap ctx) ++ section ''hevc_sps'' (cx_hevcSpsMap ctx) ++ section ''hevc_pps'' (cx_hevcPpsMap ctx)
         else h264)"

definition ctx_CreateVersion ::
  "(byte list \<Rightarrow> string) \<Rightarrow> nanos \<Rightarrow> ParameterSetContext \<Rightarrow> ParameterSetContext \<times> (vm_error + ParameterSetVersion)" where
  "ctx_CreateVersion sha now ctx =
     (case cx_versionManager ctx of
        None \<Rightarrow> (ctx, Inl VersioningDisabled)
      | Some vm \<Rightarrow>
          (let (vm, version) = vm_CreateVersion sha now (current_snapshot ctx) vm
           in (ctx\<lparr>cx_versionManager := Some vm\<rparr>, Inr version)))"

definition RollbackToVersion ::
  "(byte list \<Rightarrow> string) \<Rightarrow> nanos \<Rightarrow> u64 \<Rightarrow> ParameterSetContext \<Rightarrow> ParameterSetContext \<times> vm_error option" where
  "RollbackToVersion sha now version ctx =
     (case cx_versionManager ctx of
        None \<Rightarrow> (ctx, Some VersioningDisabled)
      | Some vm \<Rightarrow>
          (case vm_Rollback sha now (current_snapshot ctx) version vm of
             Inl e \<Rightarrow> (ctx, Some e)
           | Inr (vm, spsMap, ppsMap) \<Rightarrow>
               (ctx\<lparr>cx_versionManager := Some vm, cx_spsMap := spsMap, cx_ppsMap := ppsMap\<rparr>, None)))"

definition ctx_Close :: "ParameterSetContext \<Rightarrow> ParameterSetContext" where
  "ctx_Close ctx = ctx\<lparr>cx_sessionManager := map_option session_Close (cx_sessionManager ctx)\<rparr>"

end
