(* ===== verification/Parameter_Context_Props.thy ===== *)
theory Parameter_Context_Props
  imports Parameter_Context "HOL-Library.Multiset"
begin

unbundle bit_operations_syntax

text \<open>
  What holds of a parameter set context in every state it can reach: its sets sit under their own identifiers, within the
  ranges of the standards, so that the limits on their number are never met and copying is complete; what the
  generated streams contain; and which calls panic.
\<close>

section \<open>Well-formed contexts\<close>

definition visit_ok :: "(nat \<Rightarrow> byte list \<Rightarrow> byte list) \<Rightarrow> bool" where
  "visit_ok visit \<longleftrightarrow> (\<forall>n ks. mset (visit n ks) = mset ks)"

lemma visit_set: "visit_ok visit \<Longrightarrow> set (visit n ks) = set ks"
  by (metis visit_ok_def set_mset_mset)

lemma visit_length: "visit_ok visit \<Longrightarrow> length (visit n ks) = length ks"
  by (metis visit_ok_def size_mset)

definition sets_wf :: "nat \<Rightarrow> (byte \<rightharpoonup> ParameterSet) \<Rightarrow> bool" where
  "sets_wf limit m \<longleftrightarrow> (\<forall>i s. m i = Some s \<longrightarrow> ps_ID s = i \<and> unat i \<le> limit)"

definition pps_wf :: "(byte \<rightharpoonup> PPSContext) \<Rightarrow> bool" where
  "pps_wf m \<longleftrightarrow> (\<forall>i p. m i = Some p \<longrightarrow> ps_ID (pp_Set p) = i \<and> unat (pp_ReferencedSPSID p) \<le> 31)"

definition versions_wf :: "ParameterSetVersionManager \<Rightarrow> bool" where
  "versions_wf vm \<longleftrightarrow> (\<forall>(k, v) \<in> set (vm_versions vm). sets_wf 31 (pn_SPSSets v) \<and> pps_wf (pn_PPSSets v))"

definition ctx_wf :: "ParameterSetContext \<Rightarrow> bool" where
  "ctx_wf ctx \<longleftrightarrow> sets_wf 31 (cx_spsMap ctx) \<and> pps_wf (cx_ppsMap ctx) \<and> sets_wf 15 (cx_vpsMap ctx) \<and>
     sets_wf 15 (cx_hevcSpsMap ctx) \<and> sets_wf 63 (cx_hevcPpsMap ctx) \<and>
     (\<forall>vm. cx_versionManager ctx = Some vm \<longrightarrow> versions_wf vm)"

lemma byte_keys_mem: "i \<in> set (byte_keys m) \<longleftrightarrow> m i \<noteq> None"
proof -
  have "i = of_nat (unat i)" "unat i < 256" using unsigned_less [of i, where 'a = nat] by simp_all
  then have "i \<in> set (map of_nat [0..<256])" by (metis atLeastLessThan_iff bot_nat_0.extremum imageI list.set_map set_upt)
  then show ?thesis by (simp add: byte_keys_def)
qed

lemma byte_keys_distinct: "distinct (byte_keys m)"
proof -
  have "inj_on (of_nat :: nat \<Rightarrow> byte) {0..<256}"
  proof (rule inj_onI)
    fix x y :: nat assume "x \<in> {0..<256}" "y \<in> {0..<256}" "(of_nat x :: byte) = of_nat y"
    then show "x = y" using u8_of_nat_eq [of x y] by simp
  qed
  then have "distinct (map (of_nat :: nat \<Rightarrow> byte) [0..<256])" by (simp add: distinct_map)
  then show ?thesis by (simp add: byte_keys_def)
qed

lemma map_size_card: "map_size m = int (card (dom m))"
proof -
  have "set (byte_keys m) = dom m" by (auto simp: byte_keys_mem)
  then show ?thesis using distinct_card [OF byte_keys_distinct, of m] by (simp add: map_size_def)
qed

lemma map_size_bound:
  assumes "\<And>i. m i \<noteq> None \<Longrightarrow> unat i \<le> n"
  shows "map_size m \<le> int n + 1"
proof -
  have "inj_on unat (dom m)" by (auto intro!: inj_onI simp: word_unat_eq_iff)
  then have "card (dom m) = card (unat ` dom m)" by (simp add: card_image)
  also have "\<dots> \<le> card {..n}" using assms by (intro card_mono) auto
  finally show ?thesis by (simp add: map_size_card)
qed

lemma sets_wf_size: "sets_wf n m \<Longrightarrow> map_size m \<le> int n + 1"
  by (rule map_size_bound) (auto simp: sets_wf_def)

lemma total_sets_bound:
  assumes "ctx_wf ctx"
  shows "total_sets ctx \<le> 384"
proof -
  have "map_size (cx_spsMap ctx) \<le> 32" "map_size (cx_vpsMap ctx) \<le> 16" "map_size (cx_hevcSpsMap ctx) \<le> 16" "map_size (cx_hevcPpsMap ctx) \<le> 64"
    using assms sets_wf_size unfolding ctx_wf_def by fastforce+
  moreover have "unat (i :: byte) \<le> 255" for i using unsigned_less [of i, where 'a = nat] by simp
  then have "map_size (cx_ppsMap ctx) \<le> 256" using map_size_bound [of "cx_ppsMap ctx" 255] by simp
  ultimately show ?thesis by (simp add: total_sets_def)
qed

section \<open>Parsed identifiers\<close>

lemma u32_small_byte:
  assumes "(i :: u32) \<le> of_nat n" and "n < 256"
  shows "unat (ucast i :: byte) \<le> n"
proof -
  have "unat i \<le> n" using assms by (simp add: word_le_nat_alt unsigned_of_nat take_bit_nat_eq_self)
  moreover have "unat (ucast i :: byte) = unat i" using calculation assms(2) by (simp add: unsigned_ucast_eq take_bit_nat_eq_self)
  ultimately show ?thesis by simp
qed

lemma on_read_Inr:
  assumes "on_read rd br (\<lambda>e. Inl (fail e)) ok = Inr x"
  obtains v br' where "rd br = (br', Inr v)" "ok v br' = Inr x"
  using assms by (auto simp: on_read_def split: prod.splits sum.splits)

lemma tp_store_id [simp]: "ps_ID (tp_store d s) = ps_ID s" "ps_Data (tp_store d s) = ps_Data s" "ps_Valid (tp_store d s) = ps_Valid s"
  "ps_LevelIDC (tp_store d s) = ps_LevelIDC s"
  by (simp_all add: tp_store_def split: prod.split)

lemma parseResolution_id [simp]:
  "ps_ID (parseResolutionFromSPS br p s) = ps_ID s" "ps_Data (parseResolutionFromSPS br p s) = ps_Data s"
  "ps_Valid (parseResolutionFromSPS br p s) = ps_Valid s"
  by (simp_all add: parseResolutionFromSPS_def on_read_def Let_def split: sum.splits prod.splits)

lemma parseSPS_id:
  assumes "parseSPS t data = Inr s"
  shows "unat (ps_ID s) \<le> 31 \<and> ps_Data s = data \<and> ps_Valid s"
  using assms u32_small_byte [of _ 31]
  by (auto simp: parseSPS_def on_read_def Let_def empty_set_of_def not_less split: if_splits sum.splits prod.splits)

lemma parsePPS_id:
  assumes "parsePPS t data = Inr p"
  shows "unat (pp_ReferencedSPSID p) \<le> 31 \<and> ps_Data (pp_Set p) = data \<and> ps_Valid (pp_Set p)"
  using assms u32_small_byte [of _ 31]
  by (auto simp: parsePPS_def on_read_def empty_set_of_def not_less split: if_splits sum.splits prod.splits)

lemma hevc_sps_id_range: "unat (hevc_sps_id d) \<le> 15"
  using u32_small_byte [of _ 15] by (auto simp: hevc_sps_id_def Let_def split: prod.splits sum.splits if_splits)

lemma hevc_pps_id_range: "unat (hevc_pps_id d) \<le> 63"
  using u32_small_byte [of _ 63] by (auto simp: hevc_pps_id_def split: prod.splits sum.splits)

section \<open>Every operation keeps the context well-formed\<close>

lemma sets_wf_upd: "sets_wf n m \<Longrightarrow> ps_ID s = i \<Longrightarrow> unat i \<le> n \<Longrightarrow> sets_wf n (m(i \<mapsto> s))"
  by (auto simp: sets_wf_def)

lemma sets_wf_del: "sets_wf n m \<Longrightarrow> sets_wf n (m(i := None))"
  by (auto simp: sets_wf_def)

lemma pps_wf_upd: "pps_wf m \<Longrightarrow> ps_ID (pp_Set p) = i \<Longrightarrow> unat (pp_ReferencedSPSID p) \<le> 31 \<Longrightarrow> pps_wf (m(i \<mapsto> p))"
  by (auto simp: pps_wf_def)

lemma pps_wf_del: "pps_wf m \<Longrightarrow> pps_wf (m(i := None))"
  by (auto simp: pps_wf_def)

lemma wf_empty [simp]: "sets_wf n Map.empty" "pps_wf Map.empty"
  by (simp_all add: sets_wf_def pps_wf_def)

lemma cleanup_trivial:
  assumes "total_sets ctx \<le> 384"
  shows "checkAndPerformCleanup now ctx = ctx \<or> checkAndPerformCleanup now ctx = ctx\<lparr>cx_lastCleanup := now\<rparr>"
  using assms by (auto simp: checkAndPerformCleanup_def MaxParameterSetsPerSession_def)

lemma cleanup_wf: "ctx_wf ctx \<Longrightarrow> ctx_wf (checkAndPerformCleanup now ctx)"
  using cleanup_trivial [OF total_sets_bound, of ctx now] by (auto simp: ctx_wf_def)

lemma copy_wf: "sets_wf n m \<Longrightarrow> sets_wf n (map_option copyParameterSet \<circ> m)" "pps_wf q \<Longrightarrow> pps_wf (map_option copyPPSContext \<circ> q)"
  by (auto simp: sets_wf_def pps_wf_def copyParameterSet_def copyPPSContext_def)

lemma drop_versions_subset: "set (vm_versions (drop_versions k vm)) \<subseteq> set (vm_versions vm)"
proof (induction k vm rule: drop_versions.induct)
  case (1 oldest vm)
  have "set (AList.delete oldest (vm_versions vm)) \<subseteq> set (vm_versions vm)" by (auto simp: AList.delete_eq)
  then show ?case using "1.IH" by (subst drop_versions.simps) auto
qed

lemma versions_wf_store:
  assumes "versions_wf vm" and "sets_wf 31 (sn_SPSMap snap)" and "pps_wf (sn_PPSMap snap)"
  shows "versions_wf (store_version (new_version sha now snap vm) vm)"
proof -
  have "set (AList.update k v al) \<subseteq> insert (k, v) (set al)" for k and v :: ParameterSetVersion and al
    by (induction al) auto
  then show ?thesis using assms copy_wf
    by (fastforce simp: versions_wf_def store_version_def new_version_def Let_def)
qed

lemma versions_wf_total [simp]: "versions_wf (vm\<lparr>vm_totalVersions := x\<rparr>) = versions_wf vm"
  by (simp add: versions_wf_def)

lemma versions_wf_create:
  assumes "versions_wf vm" and "sets_wf 31 (sn_SPSMap snap)" and "pps_wf (sn_PPSMap snap)"
  shows "versions_wf (fst (CreateVersionFromSnapshot sha now snap vm))" "versions_wf (fst (vm_CreateVersion sha now snap vm))"
proof -
  have c: "versions_wf (cleanupOldVersions vm)" if "versions_wf vm" for vm
    using that drop_versions_subset by (auto simp: versions_wf_def cleanupOldVersions_def)
  show "versions_wf (fst (CreateVersionFromSnapshot sha now snap vm))" "versions_wf (fst (vm_CreateVersion sha now snap vm))"
    using c versions_wf_store [OF assms] by (simp_all add: CreateVersionFromSnapshot_def vm_CreateVersion_def Let_def)
qed

lemma install_sps_wf:
  assumes "ctx_wf ctx" and "unat (ps_ID sps) \<le> 31"
  shows "ctx_wf (install_sps sha now sps ctx)"
proof -
  define c where "c = ctx\<lparr>cx_spsMap := (cx_spsMap ctx)(ps_ID sps \<mapsto> sps), cx_lastUpdated := now,
                    cx_lastParameterSetUpdate := now, cx_totalSets := cx_totalSets ctx + 1\<rparr>"
  define d where "d = (if sps_session_changed (cx_spsMap ctx (ps_ID sps)) sps
      then c\<lparr>cx_sessionManager := map_option OnParameterSetChange (cx_sessionManager c)\<rparr> else c)"
  have "ctx_wf c" using assms by (simp add: ctx_wf_def c_def sets_wf_upd)
  then have d: "ctx_wf d" by (simp add: d_def ctx_wf_def)
  then have "ctx_wf (checkAndPerformCleanup now d)" by (rule cleanup_wf)
  moreover have "sets_wf 31 (sn_SPSMap (current_snapshot d))" "pps_wf (sn_PPSMap (current_snapshot d))"
    using d by (simp_all add: current_snapshot_def ctx_wf_def)
  ultimately show ?thesis unfolding install_sps_def Let_def c_def [symmetric] d_def [symmetric]
    using versions_wf_create by (auto simp: ctx_wf_def split: option.split)
qed

lemma AddSPS_wf:
  assumes "ctx_wf ctx" and "AddSPS sha now data ctx = Ret (ctx', e)"
  shows "ctx_wf ctx'"
proof -
  have v: "ctx_wf (ctx\<lparr>cx_validator := x\<rparr>)" for x using assms(1) by (simp add: ctx_wf_def)
  obtain b where b: "EnhancedSPSValidation data = Ret b \<or> cx_codec ctx \<noteq> CodecH264 \<or> ctx' = ctx"
    using assms(2) by (cases "EnhancedSPSValidation data") (auto simp: AddSPS_def split: if_splits sum.splits)
  show ?thesis using assms v install_sps_wf parseSPS_id b
    by (auto simp: AddSPS_def split: if_splits sum.splits option.splits prod.splits)
qed

lemma install_pps_wf:
  assumes "ctx_wf ctx" and "visit_ok visit" and "unat (pp_ReferencedSPSID pps) \<le> 31"
  shows "ctx_wf (install_pps visit now pps ctx)"
proof -
  let ?av = "getSPSIDs (visit 0) ctx"
  have av: "unat (?av ! 0) \<le> 31" if "length ?av = 1"
  proof -
    have "?av ! 0 \<in> set ?av" using that by simp
    then have "cx_spsMap ctx (?av ! 0) \<noteq> None" by (simp add: getSPSIDs_def visit_set [OF assms(2)] byte_keys_mem)
    then show ?thesis using assms(1) by (auto simp: ctx_wf_def sets_wf_def)
  qed
  define q where "q = (if cx_spsMap ctx (pp_ReferencedSPSID pps) = None \<and> length ?av = 1 \<and> pp_ReferencedSPSID pps \<noteq> ?av ! 0
                 then pps\<lparr>pp_ReferencedSPSID := ?av ! 0\<rparr> else pps)"
  have "unat (pp_ReferencedSPSID q) \<le> 31" using av assms(3) by (auto simp: q_def)
  then show ?thesis unfolding install_pps_def Let_def q_def [symmetric]
    using assms(1) by (intro cleanup_wf) (simp add: ctx_wf_def pps_wf_upd)
qed

lemma AddPPS_wf:
  assumes "ctx_wf ctx" and "visit_ok visit" and "AddPPS visit sha now data ctx = Ret (ctx', e)"
  shows "ctx_wf ctx'"
proof -
  have v: "ctx_wf (ctx\<lparr>cx_validator := x\<rparr>)" for x using assms(1) by (simp add: ctx_wf_def)
  obtain b where b: "EnhancedPPSValidation data = Ret b \<or> ctx' = ctx"
    using assms(3) by (cases "EnhancedPPSValidation data") (auto simp: AddPPS_def split: if_splits sum.splits prod.splits)
  show ?thesis using assms v install_pps_wf [OF _ assms(2)] parsePPS_id b
    by (auto simp: AddPPS_def split: if_splits sum.splits option.splits prod.splits)
qed

lemma low_nibble: "unat (drop_bit 4 (b :: byte) AND 0x0F) \<le> 15"
proof -
  have "drop_bit 4 b AND 0x0F = take_bit 4 (drop_bit 4 b)" by (simp add: take_bit_eq_mask mask_eq_exp_minus_1)
  moreover have "unat (take_bit 4 (drop_bit 4 b)) < 2 ^ 4"
    unfolding unsigned_take_bit_eq using take_bit_nat_less_exp [of 4 "unat (drop_bit 4 b)"] by simp
  ultimately show ?thesis by simp
qed

lemma empty_set_ID [simp]: "ps_ID (empty_set_of i d t) = i"
  by (simp add: empty_set_of_def)

lemma AddHEVC_wf:
  assumes "ctx_wf ctx"
  shows "ctx_wf (fst (AddVPS now data ctx))" "ctx_wf (fst (AddHEVCSPS now data ctx))" "ctx_wf (fst (AddHEVCPPS now data ctx))"
  using assms hevc_sps_id_range hevc_pps_id_range low_nibble
  by (auto simp: AddVPS_def AddHEVCSPS_def AddHEVCPPS_def Let_def ctx_wf_def intro!: sets_wf_upd)

lemma fold_remove_wf: "ctx_wf ctx \<Longrightarrow> ctx_wf (fold remove_aged as ctx)"
proof (induction as arbitrary: ctx)
  case (Cons a as)
  have "ctx_wf (remove_aged a ctx)" using Cons.prems
    by (auto simp: remove_aged_def ctx_wf_def sets_wf_del pps_wf_del split: prod.split set_kind.split)
  then show ?case using Cons.IH by simp
qed simp

lemma ClearOldest_wf: "ctx_wf ctx \<Longrightarrow> ctx_wf (fst (ClearOldest visit now n ctx))"
proof -
  assume w: "ctx_wf ctx"
  have "ctx_wf (fst (clearOldestUnsafe visit n ctx))" using fold_remove_wf [OF w] w by (simp add: clearOldestUnsafe_def Let_def)
  then show ?thesis using w by (auto simp: ClearOldest_def ctx_wf_def split: prod.split)
qed

text \<open>The copying loops, when the limit is far enough away.\<close>

lemma copy_loop_complete:
  assumes "copied + int (length is) \<le> maxToCopy"
  shows "copy_loop maxToCopy valid cp source is dest copied =
    ((\<lambda>i. if i \<in> set is \<and> (case source i of Some x \<Rightarrow> valid x | None \<Rightarrow> False) then map_option cp (source i) else dest i),
     copied + int (length (filter (\<lambda>i. case source i of Some x \<Rightarrow> valid x | None \<Rightarrow> False) is)), True)"
  using assms
proof (induction "is" arbitrary: dest copied)
  case (Cons i "is")
  then show ?case by (auto simp: fun_eq_iff split: option.splits)
qed simp

definition merged :: "('a \<Rightarrow> bool) \<Rightarrow> ('a \<Rightarrow> 'a) \<Rightarrow> (byte \<rightharpoonup> 'a) \<Rightarrow> (byte \<rightharpoonup> 'a) \<Rightarrow> byte \<rightharpoonup> 'a" where
  "merged valid cp source dest =
     (\<lambda>i. case source i of Some x \<Rightarrow> if valid x then Some (cp x) else dest i | None \<Rightarrow> dest i)"

definition valid_count :: "('a \<Rightarrow> bool) \<Rightarrow> (byte \<rightharpoonup> 'a) \<Rightarrow> int" where
  "valid_count valid m = int (card {i. \<exists>x. m i = Some x \<and> valid x})"

lemma copy_loop_merged:
  assumes "copied + map_size source \<le> maxToCopy" and "visit_ok visit"
  shows "copy_loop maxToCopy valid cp source (visit n (byte_keys source)) dest copied =
    (merged valid cp source dest, copied + valid_count valid source, True)"
proof -
  let ?is = "visit n (byte_keys source)" and ?ok = "\<lambda>i. case source i of Some x \<Rightarrow> valid x | None \<Rightarrow> False"
  have len: "copied + int (length ?is) \<le> maxToCopy" using assms by (simp add: visit_length map_size_def)
  have set: "set ?is = dom source" using visit_set [OF assms(2)] by (auto simp: byte_keys_mem)
  have "mset ?is = mset (byte_keys source)" using assms(2) by (simp add: visit_ok_def)
  then have "distinct ?is" using byte_keys_distinct mset_eq_imp_distinct_iff by blast
  then have "length (filter ?ok ?is) = card (set (filter ?ok ?is))" by (metis distinct_card distinct_filter)
  also have "set (filter ?ok ?is) = {i. \<exists>x. source i = Some x \<and> valid x}" using set by (auto split: option.splits)
  finally have c: "int (length (filter ?ok ?is)) = valid_count valid source" by (simp add: valid_count_def)
  have m: "(\<lambda>i. if i \<in> set ?is \<and> ?ok i then map_option cp (source i) else dest i) = merged valid cp source dest"
    unfolding set by (auto simp: merged_def fun_eq_iff split: option.splits)
  show ?thesis unfolding copy_loop_complete [OF len] c m ..
qed

lemma merged_wf:
  "sets_wf n s \<Longrightarrow> sets_wf n d \<Longrightarrow> (\<And>x. ps_ID (cp x) = ps_ID x) \<Longrightarrow> sets_wf n (merged v cp s d)"
  "pps_wf s' \<Longrightarrow> pps_wf d' \<Longrightarrow> pps_wf (merged v' basicCopyPPS s' d')"
  by (auto simp: sets_wf_def pps_wf_def merged_def basicCopyPPS_def basicCopy_def split: option.splits if_splits)

text \<open>What copying between reachable contexts yields.\<close>

definition copied_context :: "nanos \<Rightarrow> ParameterSetContext \<Rightarrow> ParameterSetContext \<Rightarrow> ParameterSetContext \<times> int" where
  "copied_context now source ctx =
     (let n = valid_count ps_Valid (cx_spsMap source) + valid_count (ps_Valid \<circ> pp_Set) (cx_ppsMap source) +
            (if cx_codec ctx = CodecHEVC then valid_count ps_Valid (cx_vpsMap source) +
               valid_count ps_Valid (cx_hevcSpsMap source) + valid_count ps_Valid (cx_hevcPpsMap source) else 0);
          ctx = ctx\<lparr>cx_spsMap := merged ps_Valid copyParameterSet (cx_spsMap source) (cx_spsMap ctx),
                    cx_ppsMap := merged (ps_Valid \<circ> pp_Set) basicCopyPPS (cx_ppsMap source) (cx_ppsMap ctx)\<rparr>;
          ctx = (if cx_codec ctx = CodecHEVC
                 then ctx\<lparr>cx_vpsMap := merged ps_Valid basicCopy (cx_vpsMap source) (cx_vpsMap ctx),
                          cx_hevcSpsMap := merged ps_Valid basicCopy (cx_hevcSpsMap source) (cx_hevcSpsMap ctx),
                          cx_hevcPpsMap := merged ps_Valid basicCopy (cx_hevcPpsMap source) (cx_hevcPpsMap ctx)\<rparr> else ctx)
      in (if n > 0 then ctx\<lparr>cx_lastUpdated := now, cx_totalSets := cx_totalSets ctx + n\<rparr> else ctx, n))"

lemma valid_count_le: "valid_count v m \<le> map_size m"
  unfolding valid_count_def map_size_card by (simp add: card_mono) (rule card_mono, auto)

lemma map_size_nonneg: "0 \<le> map_size m"
  by (simp add: map_size_def)

lemma copy_sets_complete:
  assumes "total_sets source \<le> maxToCopy" and "visit_ok visit"
  shows "copy_sets visit now maxToCopy source ctx = copied_context now source ctx"
proof -
  note t = assms(1) [unfolded total_sets_def]
  have nn: "0 \<le> map_size (cx_spsMap source)" "0 \<le> map_size (cx_ppsMap source)" "0 \<le> map_size (cx_vpsMap source)"
    "0 \<le> map_size (cx_hevcSpsMap source)" "0 \<le> map_size (cx_hevcPpsMap source)" by (simp_all add: map_size_nonneg)
  note le = valid_count_le [of ps_Valid "cx_spsMap source"] valid_count_le [of "ps_Valid \<circ> pp_Set" "cx_ppsMap source"]
    valid_count_le [of ps_Valid "cx_vpsMap source"] valid_count_le [of ps_Valid "cx_hevcSpsMap source"]
  let ?a = "valid_count ps_Valid (cx_spsMap source)" and ?b = "valid_count (ps_Valid \<circ> pp_Set) (cx_ppsMap source)"
  let ?c = "valid_count ps_Valid (cx_vpsMap source)" and ?d = "valid_count ps_Valid (cx_hevcSpsMap source)"
  have 1: "0 + map_size (cx_spsMap source) \<le> maxToCopy" "0 + ?a + map_size (cx_ppsMap source) \<le> maxToCopy"
    "0 + ?a + ?b + map_size (cx_vpsMap source) \<le> maxToCopy" "0 + ?a + ?b + ?c + map_size (cx_hevcSpsMap source) \<le> maxToCopy"
    "0 + ?a + ?b + ?c + ?d + map_size (cx_hevcPpsMap source) \<le> maxToCopy" using t nn le by linarith+
  show ?thesis unfolding copy_sets_def copied_context_def
    by (simp only: copy_loop_merged [OF 1(1) assms(2)] copy_loop_merged [OF 1(2) assms(2)] copy_loop_merged [OF 1(3) assms(2)]
        copy_loop_merged [OF 1(4) assms(2)] copy_loop_merged [OF 1(5) assms(2)] Let_def prod.case simp_thms if_False)
      (simp add: algebra_simps)
qed

lemma copy_from_complete:
  assumes "ctx_wf source" and "ctx_wf ctx" and "visit_ok visit"
  shows "CopyParameterSetsFrom visit now source ctx = copied_context now source ctx"
proof -
  have "total_sets source \<le> 384" "total_sets ctx \<le> 384" using assms total_sets_bound by blast+
  then show ?thesis using copy_sets_complete [OF _ assms(3), of source "MaxParameterSetsPerSession - total_sets ctx" now ctx]
    by (simp add: CopyParameterSetsFrom_def Let_def MaxParameterSetsPerSession_def)
qed

lemma copied_context_wf: "ctx_wf source \<Longrightarrow> ctx_wf ctx \<Longrightarrow> ctx_wf (fst (copied_context now source ctx))"
  by (auto simp: copied_context_def Let_def ctx_wf_def intro!: merged_wf) (simp_all add: copyParameterSet_def basicCopy_def)

lemma rollback_wf:
  assumes "ctx_wf ctx"
  shows "ctx_wf (fst (RollbackToVersion sha now n ctx))"
proof (cases "cx_versionManager ctx")
  case None
  then show ?thesis using assms by (simp add: RollbackToVersion_def)
next
  case (Some vm)
  have w: "versions_wf vm" "sets_wf 31 (sn_SPSMap (current_snapshot ctx))" "pps_wf (sn_PPSMap (current_snapshot ctx))"
    using assms Some by (simp_all add: ctx_wf_def current_snapshot_def)
  have upd: "set (AList.update k v al) \<subseteq> insert (k, v) (set al)" for k and v :: ParameterSetVersion and al
    by (induction al) auto
  have "versions_wf vm' \<and> sets_wf 31 a \<and> pps_wf b" if r: "vm_Rollback sha now (current_snapshot ctx) n vm = Inr (vm', a, b)" for vm' a b
  proof -
    let ?s = "store_version (new_version sha now (current_snapshot ctx) vm) vm"
    obtain t where t: "map_of (vm_versions vm) n = Some t" "a = map_option copyParameterSet \<circ> pn_SPSSets t"
      "b = map_option copyPPSContext \<circ> pn_PPSSets t"
      "vm_versions vm' = AList.update (pn_Version (new_version sha now (current_snapshot ctx) vm))
        ((new_version sha now (current_snapshot ctx) vm)\<lparr>pn_IsValid := False\<rparr>)
        (AList.update n (t\<lparr>pn_RollbackCount := pn_RollbackCount t + 1\<rparr>) (vm_versions ?s))"
      using r by (auto simp: vm_Rollback_def createBackupVersion_def Let_def split: if_splits option.splits)
    have st: "sets_wf 31 (pn_SPSSets t)" "pps_wf (pn_PPSSets t)" using w(1) map_of_SomeD [OF t(1)] by (auto simp: versions_wf_def)
    have "versions_wf ?s" by (rule versions_wf_store [OF w])
    moreover have "sets_wf 31 (pn_SPSSets (new_version sha now (current_snapshot ctx) vm))"
      "pps_wf (pn_PPSSets (new_version sha now (current_snapshot ctx) vm))" using copy_wf w(2,3) by (simp_all add: new_version_def Let_def)
    moreover have "set (vm_versions vm') \<subseteq> insert (pn_Version (new_version sha now (current_snapshot ctx) vm),
        (new_version sha now (current_snapshot ctx) vm)\<lparr>pn_IsValid := False\<rparr>)
        (insert (n, t\<lparr>pn_RollbackCount := pn_RollbackCount t + 1\<rparr>) (set (vm_versions ?s)))"
      unfolding t(4) using upd by (meson insert_mono order_trans)
    ultimately show ?thesis using st copy_wf t(2,3) by (fastforce simp: versions_wf_def)
  qed
  then show ?thesis using assms Some by (auto simp: RollbackToVersion_def ctx_wf_def split: sum.split prod.split)
qed

section \<open>Reachable contexts\<close>

text \<open>A context reaches another by one of its operations; two contexts take part in copying.\<close>

inductive reachable :: "(byte list \<Rightarrow> string) \<Rightarrow> ParameterSetContext \<Rightarrow> bool" for sha where
  New: "NewParameterSetContextWithConfig now codec streamID config = Ret ctx \<Longrightarrow> reachable sha ctx"
| AddSPS: "reachable sha ctx \<Longrightarrow> AddSPS sha now data ctx = Ret (ctx', e) \<Longrightarrow> reachable sha ctx'"
| AddPPS: "reachable sha ctx \<Longrightarrow> visit_ok visit \<Longrightarrow> AddPPS visit sha now data ctx = Ret (ctx', e) \<Longrightarrow> reachable sha ctx'"
| AddVPS: "reachable sha ctx \<Longrightarrow> reachable sha (fst (AddVPS now data ctx))"
| AddHEVCSPS: "reachable sha ctx \<Longrightarrow> reachable sha (fst (AddHEVCSPS now data ctx))"
| AddHEVCPPS: "reachable sha ctx \<Longrightarrow> reachable sha (fst (AddHEVCPPS now data ctx))"
| Copy: "reachable sha ctx \<Longrightarrow> reachable sha source \<Longrightarrow> visit_ok visit \<Longrightarrow> reachable sha (fst (CopyParameterSetsFrom visit now source ctx))"
| Clear: "reachable sha ctx \<Longrightarrow> reachable sha (ctx_Clear now ctx)"
| ClearOldest: "reachable sha ctx \<Longrightarrow> visit_ok visit \<Longrightarrow> reachable sha (fst (ClearOldest visit now n ctx))"
| Frame: "reachable sha ctx \<Longrightarrow> reachable sha (IncrementFrameCount ctx)"
| CreateVersion: "reachable sha ctx \<Longrightarrow> reachable sha (fst (ctx_CreateVersion sha now ctx))"
| Rollback: "reachable sha ctx \<Longrightarrow> reachable sha (fst (RollbackToVersion sha now v ctx))"
| Close: "reachable sha ctx \<Longrightarrow> reachable sha (ctx_Close ctx)"

lemma reachable_wf: "reachable sha ctx \<Longrightarrow> ctx_wf ctx"
proof (induction rule: reachable.induct)
  case (New now codec streamID config ctx)
  then show ?case
    by (auto simp: NewParameterSetContextWithConfig_def ctx_wf_def versions_wf_def NewParameterSetVersionManager_def
        elim!: outcome_bind_Ret split: if_splits)
next
  case (Copy ctx source visit now)
  then show ?case using copy_from_complete [of source ctx visit now] copied_context_wf by simp
next
  case (CreateVersion ctx now)
  then show ?case using versions_wf_create(2)
    by (auto simp: ctx_CreateVersion_def ctx_wf_def current_snapshot_def split: option.split prod.split)
      (metis ParameterSnapshot.select_convs(1) ParameterSnapshot.select_convs(2) fst_conv)
next
  case (AddSPS ctx now data ctx' e)
  then show ?case by (blast intro: AddSPS_wf)
next
  case (AddPPS ctx visit now data ctx' e)
  then show ?case by (blast intro: AddPPS_wf)
qed (simp_all add: AddHEVC_wf ClearOldest_wf rollback_wf, simp_all add: ctx_wf_def ctx_Clear_def IncrementFrameCount_def ctx_Close_def)

section \<open>Which calls panic\<close>

lemma EnhancedSPS_panics: "EnhancedSPSValidation data = Panic \<longleftrightarrow> data = []"
  by (cases data) (simp_all add: EnhancedSPSValidation_def go_at_def Let_def)

lemma canDecode_None:
  "canDecodeFrameWithRequirements visit units (Some req) ctx = None \<longleftrightarrow>
     (\<exists>pps sps. cx_ppsMap ctx (rq_PPSID req) = Some pps \<and> ps_Valid (pp_Set pps) \<and> ps_Valid sps \<and>
        (cx_spsMap ctx (pp_ReferencedSPSID pps) = Some sps \<or>
         cx_spsMap ctx (pp_ReferencedSPSID pps) = None \<and> getSPSIDs (visit 0) ctx \<noteq> [] \<and>
         cx_spsMap ctx (getSPSIDs (visit 0) ctx ! 0) = Some sps))"
  by (auto simp: canDecodeFrameWithRequirements_def Let_def split: option.splits sum.splits if_splits)

section \<open>Clearing the oldest sets\<close>

lemma bubble_pass_mset: "mset (bubble_pass n xs) = mset xs"
  by (induction n xs rule: bubble_pass.induct) auto

lemma bubble_pass_length [simp]: "length (bubble_pass n xs) = length xs"
  by (metis bubble_pass_mset size_mset)

lemma bubble_passes_mset: "mset (bubble_passes n xs) = mset xs"
  by (induction n arbitrary: xs) (simp_all add: bubble_pass_mset)

abbreviation age_of :: "aged \<Rightarrow> nanos" where
  "age_of a \<equiv> snd (snd a)"

text \<open>A pass over the first \<open>n + 1\<close> elements moves their maximum to position \<open>n\<close> and leaves the rest.\<close>

lemma bubble_pass_drop: "n < length xs \<Longrightarrow> drop (Suc n) (bubble_pass n xs) = drop (Suc n) xs"
  by (induction n xs rule: bubble_pass.induct) auto

lemma bubble_pass_front:
  assumes "n < length xs"
  shows "set (take (Suc n) (bubble_pass n xs)) = set (take (Suc n) xs)"
proof -
  have split: "mset (take (Suc n) zs) + mset (drop (Suc n) zs) = mset zs" for zs :: "aged list" by (metis append_take_drop_id mset_append)
  have "mset (take (Suc n) (bubble_pass n xs)) = mset (take (Suc n) xs)"
    using split [of xs] split [of "bubble_pass n xs"] bubble_pass_mset [of n xs] bubble_pass_drop [OF assms] by (metis add_right_cancel)
  then show ?thesis by (metis set_mset_mset)
qed

lemma in_take: "x \<in> set (take m ys) \<Longrightarrow> \<exists>j < m. j < length ys \<and> ys ! j = x"
  by (auto simp: in_set_conv_nth)

lemma bubble_pass_max: "n < length xs \<Longrightarrow> i \<le> n \<Longrightarrow> age_of (bubble_pass n xs ! i) \<le> age_of (bubble_pass n xs ! n)"
proof (induction n xs arbitrary: i rule: bubble_pass.induct)
  case (1 n x y xs)
  let ?m = "if age_of x > age_of y then x else y" and ?l = "if age_of x > age_of y then y else x"
  have "bubble_pass (Suc n) (x # y # xs) = ?l # bubble_pass n (?m # xs)" by simp
  moreover have IH: "age_of (bubble_pass n (?m # xs) ! j) \<le> age_of (bubble_pass n (?m # xs) ! n)" if "j \<le> n" for j
    using that "1.IH" "1.prems"(1) by (cases "age_of x > age_of y") auto
  moreover have "age_of ?m \<le> age_of (bubble_pass n (?m # xs) ! n)"
  proof -
    have "n < length (?m # xs)" using "1.prems"(1) by simp
    from bubble_pass_front [OF this] have "?m \<in> set (take (Suc n) (bubble_pass n (?m # xs)))" by simp
    from in_take [OF this] obtain j where "j < Suc n" "bubble_pass n (?m # xs) ! j = ?m" by blast
    then show ?thesis using IH [of j] by simp
  qed
  ultimately show ?case using "1.prems" by (cases i) (auto split: if_splits)
qed (auto simp: le_Suc_eq)

definition settled :: "nat \<Rightarrow> aged list \<Rightarrow> bool" where
  "settled n xs \<longleftrightarrow> (\<forall>i j. i < j \<longrightarrow> j < length xs \<longrightarrow> n < j \<longrightarrow> age_of (xs ! i) \<le> age_of (xs ! j))"

lemma bubble_pass_prefix:
  assumes "n < length xs" and "i \<le> n"
  shows "\<exists>k \<le> n. bubble_pass n xs ! i = xs ! k"
proof -
  have "take (Suc n) (bubble_pass n xs) ! i \<in> set (take (Suc n) (bubble_pass n xs))" using assms by (intro nth_mem) simp
  then have "bubble_pass n xs ! i \<in> set (take (Suc n) xs)" using assms by (simp add: bubble_pass_front)
  from in_take [OF this] show ?thesis by (metis less_Suc_eq_le)
qed

lemma settled_step:
  assumes "settled (Suc n) xs" and "Suc n < length xs"
  shows "settled n (bubble_pass (Suc n) xs)"
  unfolding settled_def
proof (intro allI impI)
  let ?ys = "bubble_pass (Suc n) xs"
  fix i j assume ij: "i < j" "j < length ?ys" "n < j"
  have same: "?ys ! k = xs ! k" if "Suc n < k" "k < length xs" for k
  proof -
    have "k = Suc (Suc n) + (k - Suc (Suc n))" using that by simp
    then show ?thesis using arg_cong [OF bubble_pass_drop [OF assms(2)], of "\<lambda>zs. zs ! (k - Suc (Suc n))"] that assms(2) by simp
  qed
  show "age_of (?ys ! i) \<le> age_of (?ys ! j)"
  proof (cases "j = Suc n")
    case True
    then show ?thesis using bubble_pass_max [OF assms(2), of i] ij by simp
  next
    case False
    then have j: "Suc n < j" "j < length xs" using ij by simp_all
    show ?thesis
    proof (cases "Suc n < i")
      case True
      then show ?thesis using assms(1) ij j same by (simp add: settled_def)
    next
      case False
      then obtain k where "k \<le> Suc n" "?ys ! i = xs ! k" using bubble_pass_prefix [OF assms(2), of i] by auto
      then show ?thesis using assms(1) j same [OF j] by (simp add: settled_def)
    qed
  qed
qed

lemma bubble_passes_sorted:
  "settled n xs \<Longrightarrow> n < length xs \<Longrightarrow> sorted_wrt (\<lambda>a b. age_of a \<le> age_of b) (bubble_passes n xs)"
proof (induction n arbitrary: xs)
  case 0
  then show ?case by (simp add: sorted_wrt_iff_nth_less settled_def)
next
  case (Suc n)
  then show ?case using settled_step [OF Suc.prems] by simp
qed

lemma bubble_sort_sorted: "sorted_wrt (\<lambda>a b. age_of a \<le> age_of b) (bubble_sort xs)"
  using bubble_passes_sorted [of "length xs - 1" xs] by (cases xs) (auto simp: bubble_sort_def settled_def)

fun stored_at :: "ParameterSetContext \<Rightarrow> set_kind \<Rightarrow> byte \<Rightarrow> nanos option" where
  "stored_at ctx KindSPS i = map_option ps_ParsedAt (cx_spsMap ctx i)"
| "stored_at ctx KindPPS i = map_option pps_at (cx_ppsMap ctx i)"
| "stored_at ctx KindVPS i = map_option ps_ParsedAt (cx_vpsMap ctx i)"
| "stored_at ctx KindHevcSPS i = map_option ps_ParsedAt (cx_hevcSpsMap ctx i)"
| "stored_at ctx KindHevcPPS i = map_option ps_ParsedAt (cx_hevcPpsMap ctx i)"

definition stored_sets :: "ParameterSetContext \<Rightarrow> aged set" where
  "stored_sets ctx = {(k, i, t). stored_at ctx k i = Some t}"

lemma aged_part:
  assumes "visit_ok visit"
  shows "(k, i, t) \<in> set (map (\<lambda>i. (K, i, f (the (m i)))) (visit n (byte_keys m))) \<longleftrightarrow> k = K \<and> map_option f (m i) = Some t"
  by (auto simp: visit_set [OF assms] byte_keys_mem image_iff)

lemma all_aged_stored:
  assumes "visit_ok visit"
  shows "set (all_aged visit ctx) = stored_sets ctx"
proof (rule set_eqI)
  fix a :: aged
  obtain k i t where a: "a = (k, i, t)" by (cases a)
  show "a \<in> set (all_aged visit ctx) \<longleftrightarrow> a \<in> stored_sets ctx"
    unfolding a all_aged_def set_append Un_iff aged_part [OF assms] aged_part [OF assms, where f = pps_at] stored_sets_def
    by (cases k) simp_all
qed

lemma visit_distinct: "visit_ok visit \<Longrightarrow> distinct (visit n (byte_keys m))"
  using byte_keys_distinct mset_eq_imp_distinct_iff by (metis visit_ok_def)

lemma all_aged_distinct:
  assumes "visit_ok visit"
  shows "distinct (all_aged visit ctx)" "int (length (all_aged visit ctx)) = total_sets ctx"
proof -
  have d: "distinct (map (\<lambda>i. (K :: set_kind, i, g i :: nanos)) (visit n (byte_keys m)))" for K g n and m :: "byte \<rightharpoonup> 'a"
    using visit_distinct [OF assms] by (simp add: distinct_map inj_on_def)
  show "distinct (all_aged visit ctx)" unfolding all_aged_def distinct_append by (intro conjI d) auto
  show "int (length (all_aged visit ctx)) = total_sets ctx"
    unfolding all_aged_def length_append length_map visit_length [OF assms] total_sets_def map_size_def by simp
qed

lemma stored_at_remove:
  "stored_at (remove_aged (k, i, t) ctx) k' i' = (if k' = k \<and> i' = i then None else stored_at ctx k' i')"
  by (cases k; cases k') (simp_all add: remove_aged_def)

lemma stored_remove: "a \<in> stored_sets ctx \<Longrightarrow> stored_sets (remove_aged a ctx) = stored_sets ctx - {a}"
  by (cases a) (auto simp: stored_sets_def stored_at_remove split: if_splits)

lemma stored_fold:
  "set as \<subseteq> stored_sets ctx \<Longrightarrow> distinct as \<Longrightarrow> stored_sets (fold remove_aged as ctx) = stored_sets ctx - set as"
proof (induction as arbitrary: ctx)
  case (Cons a as)
  then have r: "stored_sets (remove_aged a ctx) = stored_sets ctx - {a}" by (intro stored_remove) simp
  then have "set as \<subseteq> stored_sets (remove_aged a ctx)" using Cons.prems by auto
  from Cons.IH [OF this] Cons.prems(2) show ?case unfolding fold_simps comp_def r by auto
qed simp

lemma sorted_aged:
  assumes "visit_ok visit"
  shows "set (bubble_sort (all_aged visit ctx)) = stored_sets ctx" "distinct (bubble_sort (all_aged visit ctx))"
    "int (length (bubble_sort (all_aged visit ctx))) = total_sets ctx"
proof -
  have m: "mset (bubble_sort (all_aged visit ctx)) = mset (all_aged visit ctx)" by (simp add: bubble_sort_def bubble_passes_mset)
  show "set (bubble_sort (all_aged visit ctx)) = stored_sets ctx" using m all_aged_stored [OF assms] by (metis set_mset_mset)
  show "distinct (bubble_sort (all_aged visit ctx))" using m all_aged_distinct(1) [OF assms] mset_eq_imp_distinct_iff by blast
  show "int (length (bubble_sort (all_aged visit ctx))) = total_sets ctx" using m all_aged_distinct(2) [OF assms] by (metis size_mset)
qed

lemma clear_stored:
  fixes ctx :: ParameterSetContext
  assumes "visit_ok visit" and "0 < n"
  defines "old \<equiv> take (nat n) (bubble_sort (all_aged visit ctx))"
  shows "stored_sets (fst (ClearOldest visit now n ctx)) = stored_sets ctx - set old"
    and "snd (ClearOldest visit now n ctx) = int (length old)"
proof -
  note s = sorted_aged [OF assms(1), of ctx]
  have "stored_sets (fold remove_aged old ctx) = stored_sets ctx - set old"
    unfolding old_def by (rule stored_fold) (use s set_take_subset in \<open>fastforce+\<close>)
  moreover have "stored_sets (c\<lparr>cx_totalSets := x, cx_lastCleanup := y\<rparr>) = stored_sets c" for c x y
  proof -
    have "stored_at (c\<lparr>cx_totalSets := x, cx_lastCleanup := y\<rparr>) k i = stored_at c k i" for k i by (cases k) simp_all
    then show ?thesis by (simp add: stored_sets_def)
  qed
  ultimately show "stored_sets (fst (ClearOldest visit now n ctx)) = stored_sets ctx - set old"
    "snd (ClearOldest visit now n ctx) = int (length old)"
    using assms(2) by (simp_all add: ClearOldest_def clearOldestUnsafe_def old_def Let_def)
qed

section \<open>Theorems\<close>

text \<open>C7: In every context that the operations reach, from any data and any interleaving of the operations, each set is stored
  under the identifier it carries; the identifiers of H.264 sequence sets and the references of picture sets are at most 31,
  those of HEVC video, sequence and picture sets at most 15, 15 and 63, in the stored versions too.  A context thus never
  holds more than 384 sets, and the periodic clean-up, which waits for 1000, never removes one.\<close>

theorem context_well_formed:
  assumes "reachable sha ctx"
  shows "ctx_wf ctx \<and> total_sets ctx \<le> 384 \<and>
    (checkAndPerformCleanup now ctx = ctx \<or> checkAndPerformCleanup now ctx = ctx\<lparr>cx_lastCleanup := now\<rparr>)"
  using reachable_wf [OF assms] total_sets_bound cleanup_trivial by blast

text \<open>Copying the sets of one reachable context into another is never cut short by the limit: every valid set of the source
  replaces the set of its identifier, the other sets stay, and the result is the number of sets copied.\<close>

theorem copy_never_truncated:
  assumes "reachable sha source" and "reachable sha ctx" and "visit_ok visit"
  shows "CopyParameterSetsFrom visit now source ctx = copied_context now source ctx"
  using copy_from_complete [OF reachable_wf [OF assms(1)] reachable_wf [OF assms(2)] assms(3)] .

text \<open>C10: A stream generated for a frame consists of the sequence set, the picture set and the units of the frame; the picture
  set is the one the first slice names, its bytes carry that identifier and name the sequence set that precedes it,
  whose bytes carry the identifier named.\<close>

theorem decodable_stream_consistent:
  assumes "reachable sha ctx" and "GenerateDecodableStream visit units ctx = Ret (Inr stream)"
  shows "\<exists>req sps pps. GetDecodingRequirements units ctx = Inr req \<and>
    cx_ppsMap ctx (rq_PPSID req) = Some pps \<and> cx_spsMap ctx (pp_ReferencedSPSID pps) = Some sps \<and>
    ps_Valid sps \<and> ps_Valid (pp_Set pps) \<and>
    ValidateSPSData (ps_Data sps) = Inr (pp_ReferencedSPSID pps) \<and>
    ValidatePPSData (ps_Data (pp_Set pps)) = Inr (rq_PPSID req, pp_ReferencedSPSID pps) \<and>
    stream = with_start (ps_Data sps) @ with_start (ps_Data (pp_Set pps)) @ concat (map frame_unit units)"
proof -
  obtain req where req: "GetDecodingRequirements units ctx = Inr req" "canDecodeFrameWithRequirements visit units (Some req) ctx = None"
    using assms(2) by (auto simp: GenerateDecodableStream_def split: sum.splits option.splits)
  from req(2) obtain pps where pps: "cx_ppsMap ctx (rq_PPSID req) = Some pps" "ps_Valid (pp_Set pps)" unfolding canDecode_None by blast
  from req pps assms(2) obtain sps where sps: "cx_spsMap ctx (pp_ReferencedSPSID pps) = Some sps"
    by (cases "cx_spsMap ctx (pp_ReferencedSPSID pps)") (auto simp: GenerateDecodableStream_def)
  have v: "ps_Valid sps" using req(2) pps sps unfolding canDecode_None by auto
  have "ps_ID sps = pp_ReferencedSPSID pps" "ps_ID (pp_Set pps) = rq_PPSID req"
    using reachable_wf [OF assms(1)] sps pps by (auto simp: ctx_wf_def sets_wf_def pps_wf_def)
  then show ?thesis using req pps sps v assms(2)
    by (auto simp: GenerateDecodableStream_def with_start_def split: sum.splits if_splits prod.splits)
qed

text \<open>Generating a stream panics exactly when the frame's picture set is present and valid, the sequence set it names is
  missing, and the first of the other sequence sets is valid: the test whether the frame can be decoded accepts such a
  substitute, which the generation then does not use.\<close>

theorem decodable_stream_panics_iff:
  "GenerateDecodableStream visit units ctx = Panic \<longleftrightarrow>
    (\<exists>req pps sps. GetDecodingRequirements units ctx = Inr req \<and> cx_ppsMap ctx (rq_PPSID req) = Some pps \<and>
       ps_Valid (pp_Set pps) \<and> cx_spsMap ctx (pp_ReferencedSPSID pps) = None \<and> getSPSIDs (visit 0) ctx \<noteq> [] \<and>
       cx_spsMap ctx (getSPSIDs (visit 0) ctx ! 0) = Some sps \<and> ps_Valid sps)"
proof (cases "GetDecodingRequirements units ctx")
  case (Inl e)
  then show ?thesis by (simp add: GenerateDecodableStream_def)
next
  case (Inr req)
  show ?thesis
  proof (cases "canDecodeFrameWithRequirements visit units (Some req) ctx")
    case None
    then show ?thesis using Inr None [unfolded canDecode_None] by (auto simp: GenerateDecodableStream_def)
  next
    case (Some e)
    then show ?thesis using Inr canDecode_None [of visit units req ctx] by (auto simp: GenerateDecodableStream_def)
  qed
qed

text \<open>Adding a sequence set never panics except for empty data, which the validation indexes before it tests its length.\<close>

theorem AddSPS_panics_iff:
  "AddSPS sha now data ctx = Panic \<longleftrightarrow> cx_codec ctx = CodecH264 \<and> data = []"
proof (cases data)
  case Nil
  then show ?thesis by (simp add: AddSPS_def EnhancedSPSValidation_def go_at_def ValidateSPSData_def Let_def)
next
  case (Cons b bs)
  then obtain r where "EnhancedSPSValidation data = Ret r" by (simp add: EnhancedSPSValidation_def go_at_def Let_def)
  then show ?thesis using Cons by (auto simp: AddSPS_def)
qed

text \<open>Clearing the \<open>n\<close> oldest sets, whatever the order in which the maps are visited, removes \<open>min n total\<close> of the sets stored, none of them parsed
  later than one that stays, and reports their number.\<close>

theorem ClearOldest_removes_oldest:
  assumes "visit_ok visit" and "0 < n"
  shows "let (ctx', removed) = ClearOldest visit now n ctx in
    stored_sets ctx' \<subseteq> stored_sets ctx \<and> removed = min n (total_sets ctx) \<and>
    int (card (stored_sets ctx - stored_sets ctx')) = removed \<and>
    (\<forall>(_, _, t) \<in> stored_sets ctx - stored_sets ctx'. \<forall>(_, _, t') \<in> stored_sets ctx'. t \<le> t')"
proof -
  let ?xs = "bubble_sort (all_aged visit ctx)"
  note xs = sorted_aged [OF assms(1), of ctx]
  note c = clear_stored [OF assms, of now ctx]
  have removed: "stored_sets ctx - (stored_sets ctx - set (take (nat n) ?xs)) = set (take (nat n) ?xs)"
    using xs(1) set_take_subset by fastforce
  have kept: "stored_sets ctx - set (take (nat n) ?xs) = set (drop (nat n) ?xs)"
  proof -
    have "set ?xs = set (take (nat n) ?xs) \<union> set (drop (nat n) ?xs)" by (metis append_take_drop_id set_append)
    moreover have "set (take (nat n) ?xs) \<inter> set (drop (nat n) ?xs) = {}" using xs(2) by (simp add: set_take_disj_set_drop_if_distinct)
    ultimately show ?thesis using xs(1) by blast
  qed
  have "sorted_wrt (\<lambda>a b. age_of a \<le> age_of b) (take (nat n) ?xs @ drop (nat n) ?xs)" using bubble_sort_sorted by simp
  then have le: "age_of a \<le> age_of b" if "a \<in> set (take (nat n) ?xs)" "b \<in> set (drop (nat n) ?xs)" for a b
    using that unfolding sorted_wrt_append by blast
  have card: "int (card (set (take (nat n) ?xs))) = min n (total_sets ctx)" "int (length (take (nat n) ?xs)) = min n (total_sets ctx)"
    using xs(2,3) assms(2) by (simp_all add: distinct_card)
  obtain ctx' removed where r: "ClearOldest visit now n ctx = (ctx', removed)" by (cases "ClearOldest visit now n ctx")
  have s: "stored_sets ctx' = set (drop (nat n) ?xs)" "stored_sets ctx - stored_sets ctx' = set (take (nat n) ?xs)"
    "removed = min n (total_sets ctx)" using c [unfolded r fst_conv snd_conv] kept removed card(2) by (simp_all only: )
  have "stored_sets ctx' \<subseteq> stored_sets ctx" unfolding s(1) xs(1) [symmetric] by (rule set_drop_subset)
  moreover have "\<forall>(_, _, t) \<in> set (take (nat n) ?xs). \<forall>(_, _, t') \<in> set (drop (nat n) ?xs). t \<le> t'"
    unfolding case_prod_unfold by (intro ballI) (rule le)
  ultimately show ?thesis unfolding r Let_def prod.case s(2) card(1) using s(1,3) by simp
qed

text \<open>When the only sequence set present does not bear the identifier that a new picture set names, the picture set is
  stored as if it named that sequence set; its bytes still name the other one, and no frame that uses the picture set is
  given a stream: every attempt is refused with an error.\<close>

theorem redirected_pps_refused:
  assumes "reachable sha ctx" and "visit_ok visit"
    and "AddPPS visit sha now data ctx = Ret (ctx', None)"
    and "ValidatePPSData data = Inr (i, r)" and "cx_spsMap ctx r = None" and "getSPSIDs (visit 0) ctx = [a]"
    and "GetDecodingRequirements units ctx' = Inr req" and "rq_PPSID req = i"
  shows "(\<exists>pps. cx_ppsMap ctx' i = Some pps \<and> pp_ReferencedSPSID pps = a) \<and> (\<exists>e. GenerateDecodableStream visit' units ctx' = Ret (Inl e))"
proof -
  have "a \<in> set (byte_keys (cx_spsMap ctx))" using assms(6) visit_set [OF assms(2), of 0] by (metis getSPSIDs_def list.set_intros(1))
  then have present: "cx_spsMap ctx a \<noteq> None" by (simp add: byte_keys_mem)
  then have ra: "r \<noteq> a" using assms(5) by auto
  obtain p ctx0 where p: "parsePPS (cx_lastUpdated ctx) data = Inr p" "ps_ID (pp_Set p) = i" "pp_ReferencedSPSID p = r"
    and c: "ctx' = install_pps visit now p ctx0" "cx_spsMap ctx0 = cx_spsMap ctx" "cx_ppsMap ctx0 = cx_ppsMap ctx"
      "reachable sha ctx'" "ctx_wf ctx0"
  proof -
    have "ctx_wf (ctx\<lparr>cx_validator := x\<rparr>)" for x using reachable_wf [OF assms(1)] by (simp add: ctx_wf_def)
    moreover have "ctx_wf ctx" "reachable sha ctx'" using reachable_wf reachable.AddPPS assms(1-3) by blast+
    ultimately show ?thesis using assms(3,4) that
      by (auto simp: AddPPS_def EnhancedPPSValidation_def split: if_splits sum.splits option.splits prod.splits elim!: outcome_bind_Ret)
  qed
  let ?q = "p\<lparr>pp_ReferencedSPSID := a\<rparr>"
  define d where "d = ctx0\<lparr>cx_ppsMap := (cx_ppsMap ctx0)(ps_ID (pp_Set ?q) \<mapsto> ?q), cx_lastUpdated := now,
                    cx_lastParameterSetUpdate := now, cx_totalSets := cx_totalSets ctx0 + 1\<rparr>"
  have "getSPSIDs (visit 0) ctx0 = [a]" using assms(6) c(2) by (simp add: getSPSIDs_def)
  then have cd: "ctx' = checkAndPerformCleanup now d"
    unfolding c(1) install_pps_def Let_def d_def using p assms(5) c(2) ra by simp
  have "unat a \<le> 31" using present reachable_wf [OF assms(1)] by (auto simp: ctx_wf_def sets_wf_def)
  then have "ctx_wf d" using c(5) by (auto simp: d_def ctx_wf_def intro!: pps_wf_upd)
  then have m: "cx_ppsMap ctx' i = Some ?q" "cx_spsMap ctx' = cx_spsMap ctx"
    using cleanup_trivial [OF total_sets_bound, of d now] p(2) c(2) unfolding cd by (auto simp: d_def)
  have data: "ps_Data (pp_Set p) = data" using parsePPS_id [OF p(1)] by blast
  have "\<exists>e. GenerateDecodableStream visit' units ctx' = Ret (Inl e)"
    using m data present assms(4,7,8) ra p(2) by (auto simp: GenerateDecodableStream_def Let_def split: option.split sum.split)
  then show ?thesis using m(1) by simp
qed

section \<open>The theorems at work\<close>

definition sample_sps :: ParameterSet where
  "sample_sps = \<lparr>ps_ID = 0, ps_Data = [103, 66, 0, 40, 218, 1, 224, 8, 159, 149], ps_ParsedAt = 0, ps_Size = 10, ps_Valid = True,
     ps_ErrorReason = [], ps_ProfileIDC = Some 66, ps_ConstraintFlags = Some 0, ps_LevelIDC = Some 40,
     ps_Log2MaxFrameNumMinus4 = Some 0, ps_Width = Some 1920, ps_Height = Some 1080\<rparr>"

definition sample_pps :: PPSContext where
  "sample_pps = \<lparr>pp_Set = empty_set_of 0 [104, 206, 56, 128] 1, pp_ReferencedSPSID = 0\<rparr>"

definition sample_config :: ParameterSetContextConfig where
  "sample_config = \<lparr>cf_ValidatorUpdateRate = 0, cf_ValidatorMaxUpdatesPerHour = 0, cf_EnableVersioning = False, cf_MaxVersions = 0\<rparr>"

lemma visit_id: "visit_ok (\<lambda>_ ks. ks)"
  by (simp add: visit_ok_def)

lemma fresh_context:
  obtains ctx where "reachable sha ctx" "cx_codec ctx = codec" "cx_spsMap ctx = Map.empty" "cx_ppsMap ctx = Map.empty"
    "cx_validator ctx = None" "cx_versionManager ctx = None" "cx_lastUpdated ctx = 0" "cx_lastCleanup ctx = 0"
proof -
  obtain sm where "NewEncoderSessionManager ''s'' \<lparr>cc_MaxParameterSets = 100, cc_ParameterSetTTL = 5 * 60 * second, cc_MaxSessions = 10\<rparr> = Ret sm"
    by (auto simp: NewEncoderSessionManager_def NewParameterSetCache_def second_def)
  then obtain ctx where "NewParameterSetContextWithConfig 0 codec ''s'' sample_config = Ret ctx" "cx_codec ctx = codec"
    "cx_spsMap ctx = Map.empty" "cx_ppsMap ctx = Map.empty" "cx_validator ctx = None" "cx_versionManager ctx = None"
    "cx_lastUpdated ctx = 0" "cx_lastCleanup ctx = 0"
    by (simp add: NewParameterSetContextWithConfig_def sample_config_def)
  then show ?thesis using that reachable.New by blast
qed

lemma one_sps_context:
  obtains ctx where "reachable sha ctx" "cx_codec ctx = CodecH264" "cx_spsMap ctx = [0 \<mapsto> sample_sps]" "cx_ppsMap ctx = Map.empty"
    "cx_validator ctx = None" "cx_lastUpdated ctx = 1" "cx_lastCleanup ctx = 0"
proof -
  obtain c where c: "reachable sha c" "cx_codec c = CodecH264" "cx_spsMap c = Map.empty" "cx_ppsMap c = Map.empty"
    "cx_validator c = None" "cx_versionManager c = None" "cx_lastUpdated c = 0" "cx_lastCleanup c = 0" by (rule fresh_context)
  let ?data = "[103, 66, 0, 40, 218, 1, 224, 8, 159, 149] :: byte list"
  have e: "ValidateSPSData ?data = Inr 0" "EnhancedSPSValidation ?data = Ret None" "parseSPS 0 ?data = Inr sample_sps" by code_simp+
  have s: "sps_session_changed None sample_sps" "ps_ID sample_sps = 0" "ps_ProfileIDC sample_sps = Some 66" "ps_LevelIDC sample_sps = Some 40"
    by (simp_all add: sps_session_changed_def sample_sps_def)
  have "AddSPS sha 1 ?data c = Ret (install_sps sha 1 sample_sps c, None)" using c e s by (simp add: AddSPS_def)
  moreover have "cx_codec (install_sps sha 1 sample_sps c) = CodecH264" "cx_spsMap (install_sps sha 1 sample_sps c) = [0 \<mapsto> sample_sps]"
    "cx_ppsMap (install_sps sha 1 sample_sps c) = Map.empty" "cx_validator (install_sps sha 1 sample_sps c) = None"
    "cx_lastUpdated (install_sps sha 1 sample_sps c) = 1" "cx_lastCleanup (install_sps sha 1 sample_sps c) = 0"
    using c s by (simp_all add: install_sps_def checkAndPerformCleanup_def ParameterSetCleanupInterval_def hour_def second_def Let_def)
  ultimately show ?thesis using that c(1) reachable.AddSPS by blast
qed

text \<open>A second context with a picture set, which names sequence set 0 or sequence set 1.\<close>

lemma two_set_context:
  assumes "r \<in> {0, 1}"
  defines "data \<equiv> (if r = 0 then [104, 206, 56, 128] else [104, 174, 56, 128] :: byte list)"
  shows "\<exists>ctx ctx'. reachable sha ctx \<and> getSPSIDs (\<lambda>ks. ks) ctx = [0] \<and> cx_spsMap ctx = [0 \<mapsto> sample_sps] \<and>
    AddPPS (\<lambda>_ ks. ks) sha 2 data ctx = Ret (ctx', None) \<and> ValidatePPSData data = Inr (0, r) \<and>
    cx_spsMap ctx' = [0 \<mapsto> sample_sps] \<and> cx_ppsMap ctx' = [0 \<mapsto> \<lparr>pp_Set = empty_set_of 0 data 1, pp_ReferencedSPSID = 0\<rparr>]"
proof -
  obtain c where c: "reachable sha c" "cx_codec c = CodecH264" "cx_spsMap c = [0 \<mapsto> sample_sps]" "cx_ppsMap c = Map.empty"
    "cx_validator c = None" "cx_lastUpdated c = 1" "cx_lastCleanup c = 0" by (rule one_sps_context)
  have "byte_keys (cx_spsMap c) = [0]" unfolding c(3) by code_simp
  then have ids: "getSPSIDs (\<lambda>ks. ks) c = [0]" by (simp add: getSPSIDs_def)
  let ?p = "\<lparr>pp_Set = empty_set_of 0 data 1, pp_ReferencedSPSID = r\<rparr>"
  have e: "\<not> repeated_pps data \<and> ValidatePPSData data = Inr (0, r) \<and> EnhancedPPSValidation data = Ret None \<and> parsePPS 1 data = Inr ?p"
  proof (cases "r = 0")
    case True
    show ?thesis unfolding True data_def by code_simp
  next
    case False
    then have r: "r = 1" using assms(1) by simp
    show ?thesis unfolding r data_def by code_simp
  qed
  let ?c = "install_pps (\<lambda>_ ks. ks) 2 ?p c"
  have "AddPPS (\<lambda>_ ks. ks) sha 2 data c = Ret (?c, None)" using c e by (auto simp: AddPPS_def data_def empty_set_of_def)
  moreover have "cx_spsMap ?c = [0 \<mapsto> sample_sps]" "cx_ppsMap ?c = [0 \<mapsto> \<lparr>pp_Set = empty_set_of 0 data 1, pp_ReferencedSPSID = 0\<rparr>]"
    using c(3,4,7) ids assms(1) by (auto simp: install_pps_def checkAndPerformCleanup_def ParameterSetCleanupInterval_def hour_def second_def Let_def)
  ultimately show ?thesis using c(1,3) ids e by blast
qed

definition sample_slice :: NALUnit where
  "sample_slice = \<lparr>nu_Type = 5, nu_Data = [101, 136, 132, 0, 16]\<rparr>"

lemma sample_requirements:
  assumes "cx_spsMap ctx = [0 \<mapsto> sample_sps]" and "cx_ppsMap ctx = [0 \<mapsto> p]" and "pp_ReferencedSPSID p = 0"
  obtains req where "GetDecodingRequirements [sample_slice] ctx = Inr req" "rq_PPSID req = 0"
proof -
  obtain q where p: "p = \<lparr>pp_Set = q, pp_ReferencedSPSID = 0\<rparr>" using assms(3) by (cases p) simp
  have "case parseSliceHeader [0 \<mapsto> sample_sps] [0 \<mapsto> p] [101, 136, 132, 0, 16] True of Inl _ \<Rightarrow> False | Inr r \<Rightarrow> rq_PPSID r = 0"
    unfolding p by code_simp
  then obtain r where r: "parseSliceHeader (cx_spsMap ctx) (cx_ppsMap ctx) [101, 136, 132, 0, 16] True = Inr r" "rq_PPSID r = 0"
    unfolding assms(1,2) by (auto split: sum.splits)
  then have "GetDecodingRequirements [sample_slice] ctx = Inr r"
    by (simp add: GetDecodingRequirements_def sample_slice_def unit_type_def)
  then show ?thesis using that r(2) by blast
qed

theorem context_well_formed_witness:
  "\<exists>ctx. cx_spsMap ctx = [0 \<mapsto> sample_sps] \<and> ctx_wf ctx \<and> total_sets ctx \<le> 384"
proof -
  obtain ctx where "reachable (\<lambda>_. []) ctx" "cx_spsMap ctx = [0 \<mapsto> sample_sps]" by (rule one_sps_context)
  then show ?thesis using context_well_formed [of "\<lambda>_. []" ctx 0] by blast
qed

theorem copy_never_truncated_witness:
  "\<exists>source ctx. cx_spsMap source = [0 \<mapsto> sample_sps] \<and> cx_spsMap ctx = Map.empty \<and>
     cx_spsMap (fst (CopyParameterSetsFrom (\<lambda>_ ks. ks) 7 source ctx)) = [0 \<mapsto> copyParameterSet sample_sps]"
proof -
  obtain source where s: "reachable (\<lambda>_. []) source" "cx_spsMap source = [0 \<mapsto> sample_sps]" by (rule one_sps_context)
  obtain ctx where c: "reachable (\<lambda>_. []) ctx" "cx_spsMap ctx = Map.empty" by (rule fresh_context)
  have "merged ps_Valid copyParameterSet [0 \<mapsto> sample_sps] Map.empty = [0 \<mapsto> copyParameterSet sample_sps]"
    by (auto simp: merged_def sample_sps_def fun_eq_iff)
  then have "cx_spsMap (fst (copied_context 7 source ctx)) = [0 \<mapsto> copyParameterSet sample_sps]"
    using s(2) c(2) by (simp add: copied_context_def Let_def)
  then show ?thesis using copy_never_truncated [OF s(1) c(1) visit_id, of 7] s(2) c(2) by metis
qed

lemma sample_stream:
  assumes "cx_spsMap ctx = [0 \<mapsto> sample_sps]" and "cx_ppsMap ctx = [0 \<mapsto> sample_pps]"
  shows "\<exists>stream. GenerateDecodableStream (\<lambda>_ ks. ks) [sample_slice] ctx = Ret (Inr stream)"
proof -
  obtain req where "GetDecodingRequirements [sample_slice] ctx = Inr req" "rq_PPSID req = 0"
    using sample_requirements [OF assms] by (auto simp: sample_pps_def)
  moreover have "ValidateSPSData (ps_Data sample_sps) = Inr 0" "ValidatePPSData (ps_Data (pp_Set sample_pps)) = Inr (0, 0)" by code_simp+
  moreover have "ps_Valid sample_sps" "ps_ID sample_sps = 0" "pp_ReferencedSPSID sample_pps = 0" "ps_Valid (pp_Set sample_pps)"
    "ps_ID (pp_Set sample_pps) = 0" by (simp_all add: sample_sps_def sample_pps_def empty_set_of_def)
  ultimately show ?thesis using assms by (simp add: GenerateDecodableStream_def canDecodeFrameWithRequirements_def)
qed

theorem decodable_stream_consistent_witness:
  "\<exists>ctx req stream. GenerateDecodableStream (\<lambda>_ ks. ks) [sample_slice] ctx = Ret (Inr stream) \<and>
     GetDecodingRequirements [sample_slice] ctx = Inr req \<and>
     stream = with_start (ps_Data sample_sps) @ with_start (ps_Data (pp_Set sample_pps)) @ concat (map frame_unit [sample_slice])"
proof -
  obtain ctx0 ctx where c: "reachable (\<lambda>_. []) ctx0" "AddPPS (\<lambda>_ ks. ks) (\<lambda>_. []) 2 [104, 206, 56, 128] ctx0 = Ret (ctx, None)"
    "cx_spsMap ctx = [0 \<mapsto> sample_sps]" "cx_ppsMap ctx = [0 \<mapsto> sample_pps]"
    using two_set_context [of 0 "\<lambda>_. []"] unfolding sample_pps_def by auto
  from reachable.AddPPS [OF c(1) visit_id c(2)] have r: "reachable (\<lambda>_. []) ctx" .
  obtain stream where st: "GenerateDecodableStream (\<lambda>_ ks. ks) [sample_slice] ctx = Ret (Inr stream)" using sample_stream [OF c(3,4)] by blast
  from decodable_stream_consistent [OF r st] show ?thesis using st c(3,4) by (auto simp: split: if_splits)
qed

theorem redirected_pps_refused_witness:
  "\<exists>ctx. cx_ppsMap ctx 0 = Some \<lparr>pp_Set = empty_set_of 0 [104, 174, 56, 128] 1, pp_ReferencedSPSID = 0\<rparr> \<and>
     (\<exists>e. GenerateDecodableStream (\<lambda>_ ks. ks) [sample_slice] ctx = Ret (Inl e))"
proof -
  obtain ctx0 ctx where c: "reachable (\<lambda>_. []) ctx0" "getSPSIDs (\<lambda>ks. ks) ctx0 = [0]" "cx_spsMap ctx0 = [0 \<mapsto> sample_sps]"
    "AddPPS (\<lambda>_ ks. ks) (\<lambda>_. []) 2 [104, 174, 56, 128] ctx0 = Ret (ctx, None)" "ValidatePPSData [104, 174, 56, 128] = Inr (0, 1)"
    "cx_spsMap ctx = [0 \<mapsto> sample_sps]" "cx_ppsMap ctx = [0 \<mapsto> \<lparr>pp_Set = empty_set_of 0 [104, 174, 56, 128] 1, pp_ReferencedSPSID = 0\<rparr>]"
    using two_set_context [of 1 "\<lambda>_. []"] by auto
  obtain req where q: "GetDecodingRequirements [sample_slice] ctx = Inr req" "rq_PPSID req = 0"
    using sample_requirements [OF c(6,7)] by auto
  have "cx_spsMap ctx0 1 = None" using c(3) by simp
  from redirected_pps_refused [OF c(1) visit_id c(4,5) this c(2) q, of "\<lambda>_ ks. ks"] show ?thesis
    using c(7) by (intro exI [of _ ctx]) simp
qed

theorem ClearOldest_removes_oldest_witness:
  "\<exists>ctx ctx'. total_sets ctx = 2 \<and> ClearOldest (\<lambda>_ ks. ks) 9 1 ctx = (ctx', 1) \<and> stored_sets ctx = {(KindSPS, 0, 0), (KindPPS, 0, 1)}"
proof -
  obtain ctx where c: "reachable (\<lambda>_. []) ctx" "cx_codec ctx = CodecH264" "cx_spsMap ctx = Map.empty" "cx_ppsMap ctx = Map.empty" by (rule fresh_context)
  let ?c = "ctx\<lparr>cx_spsMap := [0 \<mapsto> sample_sps], cx_ppsMap := [0 \<mapsto> sample_pps], cx_vpsMap := Map.empty, cx_hevcSpsMap := Map.empty, cx_hevcPpsMap := Map.empty\<rparr>"
  have t: "total_sets ?c = 2" by (simp add: total_sets_def map_size_card)
  have st: "stored_sets ?c = {(KindSPS, 0, 0), (KindPPS, 0, 1)}"
  proof -
    have "stored_at ?c k i = (if i = 0 then (case k of KindSPS \<Rightarrow> Some 0 | KindPPS \<Rightarrow> Some 1 | _ \<Rightarrow> None) else None)" for k i
      by (cases k) (auto simp: sample_sps_def sample_pps_def empty_set_of_def)
    then show ?thesis by (auto simp: stored_sets_def split: set_kind.splits if_splits)
  qed
  have "snd (ClearOldest (\<lambda>_ ks. ks) 9 1 ?c) = 1"
    using ClearOldest_removes_oldest [OF visit_id, of 1 9 ?c] t by (simp add: case_prod_unfold Let_def)
  then show ?thesis using t st by (metis prod.collapse)
qed

end
