(* ===== verification/GOP_Types.thy ===== *)
theory GOP_Types
  imports Media_Types Parameter_Context "HOL-Library.Signed_Division"
begin

unbundle bit_operations_syntax

text \<open>
  Groups of pictures: the frame helpers of \<^verbatim>\<open>types/frame.go\<close> and the operations of \<^verbatim>\<open>types/gop.go\<close>.  A group holds its frames by
  value; the floating-point quotient behind the bit rate is the argument \<open>rate\<close> (of the bytes and the duration), the average
  quantiser is a rational.  Byte and frame counts are unbounded, being sums of what memory holds.
\<close>

section \<open>Frames\<close>

definition FrameFlagKeyframe :: u16 where "FrameFlagKeyframe = 1"

definition FrameFlagReference :: u16 where "FrameFlagReference = 2"

definition FrameFlagCorrupted :: u16 where "FrameFlagCorrupted = 4"

definition FrameFlagDroppable :: u16 where "FrameFlagDroppable = 8"

text \<open>The further fields of a frame that the group code uses.\<close>

record Frame = VideoFrame +
  vf_NALUnits :: "NALUnit list"
  vf_Duration :: int
  vf_CompleteTime :: gotime
  vf_Flags :: u16
  vf_GOPId :: u64
  vf_GOPPosition :: nat
  vf_References :: "nat list"
  vf_QP :: int

definition HasFlag :: "u16 \<Rightarrow> Frame \<Rightarrow> bool" where
  "HasFlag flag f \<longleftrightarrow> vf_Flags f AND flag \<noteq> 0"

definition SetFlag :: "u16 \<Rightarrow> Frame \<Rightarrow> Frame" where
  "SetFlag flag f = f\<lparr>vf_Flags := vf_Flags f OR flag\<rparr>"

definition IsKeyframe :: "Frame \<Rightarrow> bool" where
  "IsKeyframe f \<longleftrightarrow> FrameType_IsKeyframe (vf_Type f) \<or> HasFlag FrameFlagKeyframe f"

definition IsReference :: "Frame \<Rightarrow> bool" where
  "IsReference f \<longleftrightarrow> FrameType_IsReference (vf_Type f) \<or> HasFlag FrameFlagReference f"

definition IsCorrupted :: "Frame \<Rightarrow> bool" where
  "IsCorrupted f \<longleftrightarrow> HasFlag FrameFlagCorrupted f"

definition frame_CanDrop :: "Frame \<Rightarrow> bool" where
  "frame_CanDrop f \<longleftrightarrow> FrameType_IsDiscardable (vf_Type f) \<or> HasFlag FrameFlagDroppable f"

definition GetNALUnitByType :: "byte \<Rightarrow> Frame \<Rightarrow> NALUnit option" where
  "GetNALUnitByType t f = List.find (\<lambda>u. nu_Type u = t) (vf_NALUnits f)"

definition HasNALUnitType :: "byte \<Rightarrow> Frame \<Rightarrow> bool" where
  "HasNALUnitType t f \<longleftrightarrow> GetNALUnitByType t f \<noteq> None"

fun FrameType_String :: "FrameType \<Rightarrow> string" where
  "FrameType_String FrameTypeI = ''I''"
| "FrameType_String FrameTypeP = ''P''"
| "FrameType_String FrameTypeB = ''B''"
| "FrameType_String FrameTypeIDR = ''IDR''"
| "FrameType_String FrameTypeSPS = ''SPS''"
| "FrameType_String FrameTypePPS = ''PPS''"
| "FrameType_String FrameTypeVPS = ''VPS''"
| "FrameType_String FrameTypeSEI = ''SEI''"
| "FrameType_String FrameTypeAUD = ''AUD''"
| "FrameType_String FrameTypeCRA = ''CRA''"
| "FrameType_String FrameTypeBLA = ''BLA''"

section \<open>Groups of pictures\<close>

record GOPStructure =
  gs_Pattern :: string
  gs_Size :: int
  gs_OpenGOP :: bool

record GOP =
  gop_ID :: u64
  gop_Frames :: "Frame list"
  gop_Keyframe :: "Frame option"
  gop_StartPTS :: int
  gop_EndPTS :: int
  gop_Duration :: int
  gop_StartTime :: gotime
  gop_EndTime :: gotime
  gop_Structure :: GOPStructure
  gop_Complete :: bool
  gop_Closed :: bool
  gop_TotalSize :: int
  gop_AvgFrameSize :: int
  gop_BitRate :: int
  gop_IFrameSize :: int
  gop_PFrameCount :: int
  gop_BFrameCount :: int
  gop_CorruptedFrames :: int
  gop_AvgQP :: rat
  gop_SceneChange :: bool

definition empty_GOP :: GOP where
  "empty_GOP = \<lparr>gop_ID = 0, gop_Frames = [], gop_Keyframe = None, gop_StartPTS = 0, gop_EndPTS = 0, gop_Duration = 0,
     gop_StartTime = None, gop_EndTime = None, gop_Structure = \<lparr>gs_Pattern = [], gs_Size = 0, gs_OpenGOP = False\<rparr>,
     gop_Complete = False, gop_Closed = False, gop_TotalSize = 0, gop_AvgFrameSize = 0, gop_BitRate = 0, gop_IFrameSize = 0,
     gop_PFrameCount = 0, gop_BFrameCount = 0, gop_CorruptedFrames = 0, gop_AvgQP = 0, gop_SceneChange = False\<rparr>"

definition count_type :: "FrameType \<Rightarrow> Frame \<Rightarrow> int \<Rightarrow> int" where
  "count_type t f n = (if vf_Type f = t then n + 1 else n)"

definition GOP_AddFrame :: "Frame \<Rightarrow> GOP \<Rightarrow> GOP" where
  "GOP_AddFrame frame g =
     (let frame = frame\<lparr>vf_GOPId := gop_ID g, vf_GOPPosition := length (gop_Frames g)\<rparr>;
          g = g\<lparr>gop_Frames := gop_Frames g @ [frame], gop_TotalSize := gop_TotalSize g + int (vf_TotalSize frame)\<rparr>;
          g = (if length (gop_Frames g) = 1
               then (let g = g\<lparr>gop_StartPTS := vf_PTS frame, gop_StartTime := vf_CaptureTime frame\<rparr>
                     in if FrameType_IsKeyframe (vf_Type frame)
                        then g\<lparr>gop_Keyframe := Some frame, gop_IFrameSize := int (vf_TotalSize frame)\<rparr> else g)
               else g)
      in g\<lparr>gop_EndPTS := vf_PTS frame, gop_EndTime := vf_CompleteTime frame,
           gop_PFrameCount := count_type FrameTypeP frame (gop_PFrameCount g),
           gop_BFrameCount := count_type FrameTypeB frame (gop_BFrameCount g),
           gop_CorruptedFrames := (if IsCorrupted frame then gop_CorruptedFrames g + 1 else gop_CorruptedFrames g)\<rparr>)"

definition generatePattern :: "GOP \<Rightarrow> string" where
  "generatePattern g = concat (map (FrameType_String \<circ> vf_Type) (gop_Frames g))"

text \<open>The duration up to the last frame and its own length.\<close>

definition with_last_duration :: "GOP \<Rightarrow> int" where
  "with_last_duration g =
     (let d = i64 (gop_EndPTS g - gop_StartPTS g); l = last (gop_Frames g)
      in if vf_Duration l > 0 then i64 (d + vf_Duration l) else d)"

definition CalculateStats :: "(int \<Rightarrow> int \<Rightarrow> int) \<Rightarrow> GOP \<Rightarrow> GOP" where
  "CalculateStats rate g =
     (if gop_Frames g = [] then g
      else
        (let g = g\<lparr>gop_AvgFrameSize := gop_TotalSize g sdiv int (length (gop_Frames g)), gop_Duration := with_last_duration g\<rparr>;
             g = (if gop_Duration g > 0 then g\<lparr>gop_BitRate := rate (gop_TotalSize g) (gop_Duration g)\<rparr> else g);
             qps = filter (\<lambda>q. q > 0) (map vf_QP (gop_Frames g));
             g = (if length qps > 0 then g\<lparr>gop_AvgQP := of_int (sum_list qps) / of_nat (length qps)\<rparr> else g)
         in g\<lparr>gop_Structure := (gop_Structure g)\<lparr>gs_Size := int (length (gop_Frames g)), gs_Pattern := generatePattern g\<rparr>\<rparr>))"

definition IsComplete :: "GOP \<Rightarrow> bool" where
  "IsComplete g \<longleftrightarrow> gop_Complete g \<and>
     \<not> (gs_Size (gop_Structure g) > 0 \<and> int (length (gop_Frames g)) \<noteq> gs_Size (gop_Structure g)) \<and> gop_Keyframe g \<noteq> None"

definition GOP_CanDrop :: "GOP \<Rightarrow> bool" where
  "GOP_CanDrop g \<longleftrightarrow> gop_Complete g \<and> \<not> gop_SceneChange g \<and> \<not> gs_OpenGOP (gop_Structure g)"

definition GetFrameByPosition :: "int \<Rightarrow> GOP \<Rightarrow> Frame option" where
  "GetFrameByPosition position g =
     (if position < 0 \<or> position \<ge> int (length (gop_Frames g)) then None else Some (gop_Frames g ! nat position))"

definition GetReferenceFrames :: "GOP \<Rightarrow> Frame list" where
  "GetReferenceFrames g = filter IsReference (gop_Frames g)"

definition HasCompleteReferences :: "GOP \<Rightarrow> GOP \<times> bool" where
  "HasCompleteReferences g =
     (if list_all (\<lambda>f. list_all (\<lambda>r. r \<in> vf_ID ` set (gop_Frames g)) (vf_References f)) (gop_Frames g)
      then (g\<lparr>gop_Closed := True\<rparr>, True)
      else (g\<lparr>gop_Structure := (gop_Structure g)\<lparr>gs_OpenGOP := True\<rparr>\<rparr>, False))"

text \<open>The loop over the frames behind a P frame.\<close>

fun no_B_before_reference :: "Frame list \<Rightarrow> bool" where
  "no_B_before_reference [] = True"
| "no_B_before_reference (f # fs) =
     (if vf_Type f = FrameTypeB then False
      else if vf_Type f = FrameTypeP \<or> IsKeyframe f then True else no_B_before_reference fs)"

definition CanDropFrame :: "int \<Rightarrow> GOP \<Rightarrow> bool" where
  "CanDropFrame position g =
     (if position < 0 \<or> position \<ge> int (length (gop_Frames g)) then False
      else
        (let frame = gop_Frames g ! nat position
         in if IsKeyframe frame then False
            else if vf_Type frame = FrameTypeB then True
            else if vf_Type frame = FrameTypeP then no_B_before_reference (drop (nat position + 1) (gop_Frames g))
            else False))"

definition UpdateDuration :: "(int \<Rightarrow> int \<Rightarrow> int) \<Rightarrow> GOP \<Rightarrow> GOP" where
  "UpdateDuration rate g =
     (if gop_Frames g = [] then g\<lparr>gop_Duration := 0, gop_StartPTS := 0, gop_EndPTS := 0\<rparr>
      else
        (let g = g\<lparr>gop_StartPTS := vf_PTS (hd (gop_Frames g)), gop_EndPTS := vf_PTS (last (gop_Frames g))\<rparr>;
             g = g\<lparr>gop_Duration := with_last_duration g\<rparr>
         in g\<lparr>gop_BitRate := (if gop_Duration g > 0 then rate (gop_TotalSize g) (gop_Duration g) else 0)\<rparr>))"

definition countIFrames :: "GOP \<Rightarrow> nat" where
  "countIFrames g = length (filter IsKeyframe (gop_Frames g))"

section \<open>The heap of groups\<close>

text \<open>Groups are shared by pointer between the detector and the buffer; a pointer is an address.\<close>

record Heap =
  hp_next :: nat
  hp_gop :: "nat \<Rightarrow> GOP"

definition heap_update :: "nat \<Rightarrow> (GOP \<Rightarrow> GOP) \<Rightarrow> Heap \<Rightarrow> Heap" where
  "heap_update a f h = h\<lparr>hp_gop := (hp_gop h)(a := f (hp_gop h a))\<rparr>"

definition heap_alloc :: "GOP \<Rightarrow> Heap \<Rightarrow> nat \<times> Heap" where
  "heap_alloc g h = (hp_next h, \<lparr>hp_next = hp_next h + 1, hp_gop = (hp_gop h)(hp_next h := g)\<rparr>)"

lemma heap_update_at [simp]: "hp_gop (heap_update a f h) b = (if b = a then f (hp_gop h a) else hp_gop h b)"
  by (simp add: heap_update_def)

lemma heap_update_next [simp]: "hp_next (heap_update a f h) = hp_next h"
  by (simp add: heap_update_def)

end
