(* ===== verification/GOP_Buffer.thy ===== *)
theory GOP_Buffer
  imports GOP_Types
begin

unbundle bit_operations_syntax

text \<open>
  The buffer of groups of pictures, \<^verbatim>\<open>gop/buffer.go\<close>: groups in order of arrival with an index by group and one by frame, limits
  on their number, bytes and time span, and the dropping of frames under pressure.  The callback before a group is dropped is
  recorded in \<open>gb_calls\<close>.  The loop that enforces the number of groups is a partial function, for it need not end.
\<close>

section \<open>State\<close>

record FrameLocation =
  fl_GOP :: nat
  fl_Position :: nat

record Buffer =
  gb_gops :: "nat list"
  gb_gopIndex :: "u64 \<rightharpoonup> nat"
  gb_maxGOPs :: int
  gb_maxBytes :: int
  gb_maxDuration :: nanos
  gb_currentBytes :: int
  gb_oldestTime :: gotime
  gb_newestTime :: gotime
  gb_frameIndex :: "nat \<rightharpoonup> FrameLocation"
  gb_parameterContext :: ParameterSetContext
  gb_onGOPDrop :: bool
  gb_calls :: "(GOP \<times> ParameterSetContext) list"
  gb_totalGOPs :: u64
  gb_droppedGOPs :: u64
  gb_droppedFrames :: u64

record BufferConfig =
  bc_MaxGOPs :: int
  bc_MaxBytes :: int
  bc_MaxDuration :: nanos
  bc_Codec :: CodecType

definition NewBuffer :: "nanos \<Rightarrow> string \<Rightarrow> BufferConfig \<Rightarrow> Buffer outcome" where
  "NewBuffer now streamID config =
     outcome_bind (NewParameterSetContext now (bc_Codec config) streamID) (\<lambda>ctx.
       Ret \<lparr>gb_gops = [], gb_gopIndex = Map.empty, gb_maxGOPs = bc_MaxGOPs config, gb_maxBytes = bc_MaxBytes config,
            gb_maxDuration = bc_MaxDuration config, gb_currentBytes = 0, gb_oldestTime = None, gb_newestTime = None,
            gb_frameIndex = Map.empty, gb_parameterContext = ctx, gb_onGOPDrop = False, gb_calls = [],
            gb_totalGOPs = 0, gb_droppedGOPs = 0, gb_droppedFrames = 0\<rparr>)"

definition SetGOPDropCallback :: "Buffer \<Rightarrow> Buffer" where
  "SetGOPDropCallback b = b\<lparr>gb_onGOPDrop := True\<rparr>"

text \<open>The zero time is the first of January of the year one.\<close>

definition time_ns :: "gotime \<Rightarrow> int" where
  "time_ns t = (case t of None \<Rightarrow> - 62135596800 * second | Some n \<Rightarrow> n)"

section \<open>Parameter sets of a group\<close>

definition ExtractNALTypeFromData :: "byte list \<Rightarrow> byte" where
  "ExtractNALTypeFromData data =
     (if length data = 0 then 0
      else
        (let offset = (if length data \<ge> 3 \<and> data ! 0 = 0 \<and> data ! 1 = 0 then
                         if data ! 2 = 1 then 3 else if length data \<ge> 4 \<and> data ! 2 = 0 \<and> data ! 3 = 1 then 4 else 0
                       else (0 :: nat))
         in if offset \<ge> length data then 0 else data ! offset AND 0x1F))"

text \<open>The context after the attempt, and whether the set was added.\<close>

definition ExtractParameterSetFromNAL ::
  "(nat \<Rightarrow> byte list \<Rightarrow> byte list) \<Rightarrow> (byte list \<Rightarrow> string) \<Rightarrow> nanos \<Rightarrow> NALUnit \<Rightarrow> byte \<Rightarrow> ParameterSetContext \<Rightarrow>
   (ParameterSetContext \<times> bool) outcome" where
  "ExtractParameterSetFromNAL visit sha now nalUnit nalType ctx =
     (let data = nu_Data nalUnit
      in if nalType = 7 then
           (let spsData = (if length data > 0 \<and> data ! 0 \<noteq> 0x67 then 0x67 # data else data)
            in outcome_bind (AddSPS sha now spsData ctx) (\<lambda>(ctx, e). Ret (ctx, e = None)))
         else if nalType = 8 then
           (if length data > 1 \<and> list_all (\<lambda>b. b = 0xFF) (drop 1 (take 10 data)) then Ret (ctx, False)
            else case ValidateAndFixNALUnit data 8 of
                Inl _ \<Rightarrow> Ret (ctx, False)
              | Inr ppsData \<Rightarrow>
                  (case ValidatePPSData ppsData of
                     Inl _ \<Rightarrow> Ret (ctx, False)
                   | Inr _ \<Rightarrow> outcome_bind (AddPPS visit sha now ppsData ctx) (\<lambda>(ctx, e). Ret (ctx, e = None))))
         else Ret (ctx, False))"

definition extract_unit ::
  "(nat \<Rightarrow> byte list \<Rightarrow> byte list) \<Rightarrow> (byte list \<Rightarrow> string) \<Rightarrow> nanos \<Rightarrow> NALUnit \<Rightarrow> ParameterSetContext \<Rightarrow> ParameterSetContext outcome" where
  "extract_unit visit sha now u ctx =
     (if length (nu_Data u) = 0 then Ret ctx
      else
        (let nalType = (if nu_Type u = 0 \<and> length (nu_Data u) > 0 then ExtractNALTypeFromData (nu_Data u) else nu_Type u)
         in if nalType = 7 \<or> nalType = 8
            then outcome_bind (ExtractParameterSetFromNAL visit sha now u nalType ctx) (\<lambda>(ctx, _). Ret ctx)
            else Ret ctx))"

fun extract_units ::
  "(nat \<Rightarrow> byte list \<Rightarrow> byte list) \<Rightarrow> (byte list \<Rightarrow> string) \<Rightarrow> nanos \<Rightarrow> NALUnit list \<Rightarrow> ParameterSetContext \<Rightarrow> ParameterSetContext outcome" where
  "extract_units visit sha now [] ctx = Ret ctx"
| "extract_units visit sha now (u # us) ctx = outcome_bind (extract_unit visit sha now u ctx) (extract_units visit sha now us)"

definition extractParameterSetsFromGOP ::
  "(nat \<Rightarrow> byte list \<Rightarrow> byte list) \<Rightarrow> (byte list \<Rightarrow> string) \<Rightarrow> nanos \<Rightarrow> GOP \<Rightarrow> ParameterSetContext \<Rightarrow> ParameterSetContext outcome" where
  "extractParameterSetsFromGOP visit sha now g ctx = extract_units visit sha now (concat (map vf_NALUnits (gop_Frames g))) ctx"

section \<open>Adding and removing groups\<close>

definition delete_frames :: "Frame list \<Rightarrow> (nat \<rightharpoonup> FrameLocation) \<Rightarrow> nat \<rightharpoonup> FrameLocation" where
  "delete_frames fs m = fold (\<lambda>f m. m(vf_ID f := None)) fs m"

definition removeOldestGOP :: "Heap \<Rightarrow> Buffer \<Rightarrow> Buffer" where
  "removeOldestGOP h b =
     (case gb_gops b of
        [] \<Rightarrow> b
      | a # rest \<Rightarrow>
          (let g = hp_gop h a
           in b\<lparr>gb_calls := (if gb_onGOPDrop b then gb_calls b @ [(g, gb_parameterContext b)] else gb_calls b),
                gb_gopIndex := (gb_gopIndex b)(gop_ID g := None),
                gb_frameIndex := delete_frames (gop_Frames g) (gb_frameIndex b),
                gb_currentBytes := gb_currentBytes b - gop_TotalSize g,
                gb_droppedGOPs := gb_droppedGOPs b + 1,
                gb_droppedFrames := gb_droppedFrames b + of_nat (length (gop_Frames g)),
                gb_gops := rest,
                gb_oldestTime := (case rest of [] \<Rightarrow> None | c # _ \<Rightarrow> gop_StartTime (hp_gop h c))\<rparr>))"

partial_function (option) limit_count :: "Heap \<Rightarrow> Buffer \<Rightarrow> Buffer option" where
  "limit_count h b =
     (if int (length (gb_gops b)) > gb_maxGOPs b then limit_count h (removeOldestGOP h b) else Some b)"

lemma remove_shorter: "gb_gops b \<noteq> [] \<Longrightarrow> length (gb_gops (removeOldestGOP h b)) < length (gb_gops b)"
  by (cases "gb_gops b") (simp_all add: removeOldestGOP_def Let_def)

function limit_bytes :: "Heap \<Rightarrow> Buffer \<Rightarrow> Buffer" where
  "limit_bytes h b =
     (if gb_currentBytes b > gb_maxBytes b \<and> length (gb_gops b) > 1 then limit_bytes h (removeOldestGOP h b) else b)"
  by pat_completeness auto
termination
  by (relation "measure (\<lambda>(h, b). length (gb_gops b))") (auto intro!: remove_shorter)

function limit_duration :: "Heap \<Rightarrow> int \<Rightarrow> Buffer \<Rightarrow> Buffer" where
  "limit_duration h cutoff b =
     (if gb_gops b = [] then b
      else if time_ns (gop_StartTime (hp_gop h (hd (gb_gops b)))) > cutoff then b
      else limit_duration h cutoff (removeOldestGOP h b))"
  by pat_completeness auto
termination
  by (relation "measure (\<lambda>(h, cutoff, b). length (gb_gops b))") (auto intro!: remove_shorter)

declare limit_bytes.simps [simp del] limit_duration.simps [simp del]

definition enforceBufferLimits :: "Heap \<Rightarrow> Buffer \<Rightarrow> Buffer option" where
  "enforceBufferLimits h b =
     map_option (\<lambda>b.
       let b = limit_bytes h b
       in if gb_maxDuration b > 0 \<and> length (gb_gops b) > 1
          then limit_duration h (time_ns (gb_newestTime b) - gb_maxDuration b) b else b)
     (limit_count h b)"

definition index_frames :: "nat \<Rightarrow> Frame list \<Rightarrow> (nat \<rightharpoonup> FrameLocation) \<Rightarrow> nat \<rightharpoonup> FrameLocation" where
  "index_frames a fs m = fold (\<lambda>(i, f) m. m(vf_ID f \<mapsto> \<lparr>fl_GOP = a, fl_Position = i\<rparr>)) (enumerate 0 fs) m"

text \<open>A call whose enforcement of the limits never ends is \<^const>\<open>Panic\<close>.\<close>

definition AddGOP ::
  "(nat \<Rightarrow> byte list \<Rightarrow> byte list) \<Rightarrow> (byte list \<Rightarrow> string) \<Rightarrow> nanos \<Rightarrow> nat \<Rightarrow> Heap \<Rightarrow> Buffer \<Rightarrow> Buffer outcome" where
  "AddGOP visit sha now a h b =
     (let g = hp_gop h a
      in if \<not> IsComplete g \<and> \<not> gop_Closed g then Ret b
         else
           (let b = b\<lparr>gb_gops := gb_gops b @ [a], gb_gopIndex := (gb_gopIndex b)(gop_ID g \<mapsto> a),
                      gb_frameIndex := index_frames a (gop_Frames g) (gb_frameIndex b)\<rparr>
            in outcome_bind (extractParameterSetsFromGOP visit sha now g (gb_parameterContext b)) (\<lambda>ctx.
                 let b = b\<lparr>gb_parameterContext := ctx, gb_currentBytes := gb_currentBytes b + gop_TotalSize g,
                           gb_totalGOPs := gb_totalGOPs b + 1,
                           gb_oldestTime := (if gb_oldestTime b = None \<or> time_ns (gop_StartTime g) < time_ns (gb_oldestTime b)
                                             then gop_StartTime g else gb_oldestTime b),
                           gb_newestTime := (if time_ns (gop_StartTime g) > time_ns (gb_newestTime b)
                                             then gop_StartTime g else gb_newestTime b)\<rparr>
                 in case enforceBufferLimits h b of None \<Rightarrow> Panic | Some b \<Rightarrow> Ret b)))"

section \<open>Looking up\<close>

definition GetGOP :: "u64 \<Rightarrow> Buffer \<Rightarrow> nat option" where
  "GetGOP gopID b = gb_gopIndex b gopID"

definition GetFrame :: "nat \<Rightarrow> Heap \<Rightarrow> Buffer \<Rightarrow> Frame option" where
  "GetFrame frameID h b =
     (case gb_frameIndex b frameID of
        None \<Rightarrow> None
      | Some loc \<Rightarrow>
          if fl_Position loc < length (gop_Frames (hp_gop h (fl_GOP loc)))
          then Some (gop_Frames (hp_gop h (fl_GOP loc)) ! fl_Position loc) else None)"

text \<open>The newest groups are collected and then reversed; a negative limit makes the allocation of the result panic.\<close>

definition GetRecentGOPs :: "int \<Rightarrow> Buffer \<Rightarrow> nat list outcome" where
  "GetRecentGOPs limit b = (if limit < 0 then Panic else Ret (rev (take (nat limit) (rev (gb_gops b)))))"

definition GetLatestIFrame :: "Heap \<Rightarrow> Buffer \<Rightarrow> Frame option" where
  "GetLatestIFrame h b = List.find IsKeyframe (concat (map (\<lambda>a. gop_Frames (hp_gop h a)) (rev (gb_gops b))))"

definition buffer_Clear :: "Buffer \<Rightarrow> Buffer" where
  "buffer_Clear b = b\<lparr>gb_gops := [], gb_gopIndex := Map.empty, gb_frameIndex := Map.empty, gb_currentBytes := 0,
     gb_oldestTime := None, gb_newestTime := None\<rparr>"

section \<open>Dropping frames\<close>

text \<open>The positions of the frames behind a removed one are corrected in the index.\<close>

definition updateFrameIndicesAfterRemoval :: "GOP \<Rightarrow> nat \<Rightarrow> (nat \<rightharpoonup> FrameLocation) \<Rightarrow> nat \<rightharpoonup> FrameLocation" where
  "updateFrameIndicesAfterRemoval g removedIndex m =
     fold (\<lambda>i m. case m (vf_ID (gop_Frames g ! i)) of None \<Rightarrow> m | Some loc \<Rightarrow> m(vf_ID (gop_Frames g ! i) \<mapsto> loc\<lparr>fl_Position := i\<rparr>))
       [removedIndex..<length (gop_Frames g)] m"

definition remove_frame :: "nat \<Rightarrow> nat \<Rightarrow> Heap \<times> Buffer \<Rightarrow> Heap \<times> Buffer" where
  "remove_frame a i s =
     (let (h, b) = s; g = hp_gop h a; frame = gop_Frames g ! i;
          m = (gb_frameIndex b)(vf_ID frame := None);
          g = g\<lparr>gop_Frames := take i (gop_Frames g) @ drop (i + 1) (gop_Frames g),
                gop_PFrameCount := (if vf_Type frame = FrameTypeP then gop_PFrameCount g - 1 else gop_PFrameCount g),
                gop_BFrameCount := (if vf_Type frame = FrameTypeB then gop_BFrameCount g - 1 else gop_BFrameCount g),
                gop_TotalSize := gop_TotalSize g - int (vf_TotalSize frame)\<rparr>
      in (heap_update a (\<lambda>_. g) h,
          b\<lparr>gb_currentBytes := gb_currentBytes b - int (vf_TotalSize frame), gb_frameIndex := updateFrameIndicesAfterRemoval g i m\<rparr>))"

text \<open>The B frames of a group, collected first and then removed from the highest index down.\<close>

fun remove_at :: "nat \<Rightarrow> nat list \<Rightarrow> Heap \<times> Buffer \<Rightarrow> (Heap \<times> Buffer) \<times> Frame list" where
  "remove_at a [] s = (s, [])"
| "remove_at a (i # is) s =
     (let frame = gop_Frames (hp_gop (fst s) a) ! i; (s, dropped) = remove_at a is (remove_frame a i s) in (s, frame # dropped))"

definition drop_B_in :: "(int \<Rightarrow> int \<Rightarrow> int) \<Rightarrow> nat \<Rightarrow> Heap \<times> Buffer \<Rightarrow> (Heap \<times> Buffer) \<times> Frame list" where
  "drop_B_in rate a s =
     (let fs = gop_Frames (hp_gop (fst s) a);
          bFramesToDrop = filter (\<lambda>i. vf_Type (fs ! i) = FrameTypeB) [0..<length fs];
          ((h, b), dropped) = remove_at a (rev bFramesToDrop) s
      in ((if bFramesToDrop = [] then h else heap_update a (UpdateDuration rate) h, b), dropped))"

fun drop_in_all ::
  "(nat \<Rightarrow> Heap \<times> Buffer \<Rightarrow> (Heap \<times> Buffer) \<times> Frame list) \<Rightarrow> nat list \<Rightarrow> Heap \<times> Buffer \<Rightarrow> (Heap \<times> Buffer) \<times> Frame list" where
  "drop_in_all f [] s = (s, [])"
| "drop_in_all f (a # as) s = (let (s, d) = f a s; (s, ds) = drop_in_all f as s in (s, d @ ds))"

definition dropBFrames :: "(int \<Rightarrow> int \<Rightarrow> int) \<Rightarrow> int \<Rightarrow> Heap \<times> Buffer \<Rightarrow> (Heap \<times> Buffer) \<times> Frame list" where
  "dropBFrames rate gopCount s =
     drop_in_all (drop_B_in rate) (if gopCount < 0 then gb_gops (snd s) else take (nat gopCount) (gb_gops (snd s))) s"

text \<open>The loop over the positions of a group from \<open>n - 1\<close> down.\<close>

fun drop_P_loop :: "nat \<Rightarrow> nat \<Rightarrow> Heap \<times> Buffer \<Rightarrow> (Heap \<times> Buffer) \<times> Frame list" where
  "drop_P_loop a 0 s = (s, [])"
| "drop_P_loop a (Suc i) s =
     (let g = hp_gop (fst s) a
      in if CanDropFrame (int i) g \<and> vf_Type (gop_Frames g ! i) = FrameTypeP
         then (let (s, dropped) = drop_P_loop a i (remove_frame a i s) in (s, gop_Frames g ! i # dropped))
         else drop_P_loop a i s)"

definition drop_P_in :: "(int \<Rightarrow> int \<Rightarrow> int) \<Rightarrow> nat \<Rightarrow> Heap \<times> Buffer \<Rightarrow> (Heap \<times> Buffer) \<times> Frame list" where
  "drop_P_in rate a s =
     (let ((h, b), dropped) = drop_P_loop a (length (gop_Frames (hp_gop (fst s) a))) s
      in ((heap_update a (UpdateDuration rate) h, b), dropped))"

definition dropPFrames :: "(int \<Rightarrow> int \<Rightarrow> int) \<Rightarrow> nat \<Rightarrow> Heap \<times> Buffer \<Rightarrow> (Heap \<times> Buffer) \<times> Frame list" where
  "dropPFrames rate gopCount s = drop_in_all (drop_P_in rate) (take gopCount (gb_gops (snd s))) s"

text \<open>A group reduced to its keyframes; \<open>index_all\<close> tells whether every one of them is entered in the index again, or the first.\<close>

definition keep_keyframes :: "bool \<Rightarrow> nat \<Rightarrow> Heap \<times> Buffer \<Rightarrow> (Heap \<times> Buffer) \<times> Frame list" where
  "keep_keyframes index_all a s =
     (let (h, b) = s; g = hp_gop h a;
          newFrames = filter IsKeyframe (gop_Frames g); dropped = filter (\<lambda>f. \<not> IsKeyframe f) (gop_Frames g);
          b = b\<lparr>gb_frameIndex := delete_frames dropped (gb_frameIndex b),
                gb_currentBytes := gb_currentBytes b - (\<Sum>f \<leftarrow> dropped. int (vf_TotalSize f))\<rparr>;
          g = g\<lparr>gop_Frames := newFrames, gop_PFrameCount := 0, gop_BFrameCount := 0,
                gop_TotalSize := (if newFrames = [] then 0 else int (vf_TotalSize (hd newFrames)))\<rparr>
      in ((heap_update a (\<lambda>_. g) h,
           b\<lparr>gb_frameIndex := index_frames a (if index_all then newFrames else take 1 newFrames) (gb_frameIndex b)\<rparr>), dropped))"

fun dropOldGOPs :: "nat \<Rightarrow> bool \<Rightarrow> Heap \<times> Buffer \<Rightarrow> (Heap \<times> Buffer) \<times> Frame list" where
  "dropOldGOPs 0 includeKeyframes s = (s, [])"
| "dropOldGOPs (Suc n) includeKeyframes s =
     (let (h, b) = s
      in if length (gb_gops b) > 1 then
           (let a = hd (gb_gops b);
                (s, dropped) = (if includeKeyframes then ((h, removeOldestGOP h b), gop_Frames (hp_gop h a)) else keep_keyframes False a s);
                (s, rest) = dropOldGOPs n includeKeyframes s
            in (s, dropped @ rest))
         else (s, []))"

definition dropAllNonKeyframes :: "Heap \<times> Buffer \<Rightarrow> (Heap \<times> Buffer) \<times> Frame list" where
  "dropAllNonKeyframes s = drop_in_all (keep_keyframes True) (gb_gops (snd s)) s"

text \<open>The thresholds are the 64-bit floating-point numbers nearest to 0.5, 0.7, 0.85 and 0.95.\<close>

definition pressure_70 :: rat where "pressure_70 = 3152519739159347 / 2 ^ 52"

definition pressure_85 :: rat where "pressure_85 = 7656119366529843 / 2 ^ 53"

definition pressure_95 :: rat where "pressure_95 = 8556839292003942 / 2 ^ 53"

definition DropFramesForPressure ::
  "(int \<Rightarrow> int \<Rightarrow> int) \<Rightarrow> rat \<Rightarrow> Heap \<times> Buffer \<Rightarrow> (Heap \<times> Buffer) \<times> Frame list" where
  "DropFramesForPressure rate pressure s =
     (if pressure < 1 / 2 then (s, [])
      else
        (let (s, dropped) =
           (if pressure < pressure_70 then dropBFrames rate 2 s
            else if pressure < pressure_85
            then (let (s, bs) = dropBFrames rate (- 1) s; (s, ps) = dropPFrames rate 1 s in (s, bs @ ps))
            else if pressure < pressure_95 then dropOldGOPs 1 False s
            else if length (gb_gops (snd s)) > 1 then dropOldGOPs 1 True s
            else dropAllNonKeyframes s)
         in ((fst s, (snd s)\<lparr>gb_droppedFrames := gb_droppedFrames (snd s) + of_nat (length dropped)\<rparr>), dropped)))"

definition DropFramesFromGOP :: "(int \<Rightarrow> int \<Rightarrow> int) \<Rightarrow> u64 \<Rightarrow> int \<Rightarrow> Heap \<times> Buffer \<Rightarrow> (Heap \<times> Buffer) \<times> Frame list" where
  "DropFramesFromGOP rate gopID startIndex s =
     (let (h, b) = s
      in case gb_gopIndex b gopID of
           None \<Rightarrow> (s, [])
         | Some a \<Rightarrow>
             (let g = hp_gop h a
              in if startIndex < 0 \<or> startIndex \<ge> int (length (gop_Frames g)) then (s, [])
                 else
                   (let dropped = drop (nat startIndex) (gop_Frames g); kept = take (nat startIndex) (gop_Frames g);
                        g = UpdateDuration rate (g\<lparr>gop_Frames := kept, gop_TotalSize := (\<Sum>f \<leftarrow> kept. int (vf_TotalSize f))\<rparr>);
                        g = g\<lparr>gop_PFrameCount := gop_PFrameCount g - int (length (filter (\<lambda>f. vf_Type f = FrameTypeP) dropped)),
                              gop_BFrameCount := gop_BFrameCount g - int (length (filter (\<lambda>f. vf_Type f = FrameTypeB) dropped))\<rparr>
                    in ((heap_update a (\<lambda>_. g) h,
                         b\<lparr>gb_frameIndex := index_frames a kept (delete_frames dropped (gb_frameIndex b)),
                           gb_currentBytes := gb_currentBytes b - (\<Sum>f \<leftarrow> dropped. int (vf_TotalSize f)),
                           gb_droppedFrames := gb_droppedFrames b + of_nat (length dropped)\<rparr>), dropped))))"

section \<open>Statistics\<close>

record BufferStatistics =
  bs_GOPCount :: nat
  bs_FrameCount :: nat
  bs_IFrames :: nat
  bs_PFrames :: int
  bs_BFrames :: int
  bs_TotalBytes :: int
  bs_Duration :: nanos

definition buffer_GetStatistics :: "Heap \<Rightarrow> Buffer \<Rightarrow> BufferStatistics" where
  "buffer_GetStatistics h b =
     (let gops = map (hp_gop h) (gb_gops b)
      in \<lparr>bs_GOPCount = length (gb_gops b), bs_FrameCount = (\<Sum>g \<leftarrow> gops. length (gop_Frames g)),
          bs_IFrames = (\<Sum>g \<leftarrow> gops. countIFrames g), bs_PFrames = (\<Sum>g \<leftarrow> gops. gop_PFrameCount g),
          bs_BFrames = (\<Sum>g \<leftarrow> gops. gop_BFrameCount g), bs_TotalBytes = gb_currentBytes b,
          bs_Duration = (case (gb_oldestTime b, gb_newestTime b) of (Some o', Some n) \<Rightarrow> n - o' | _ \<Rightarrow> 0)\<rparr>)"

end
