(* ===== verification/GOP_Detector.thy ===== *)
theory GOP_Detector
  imports GOP_Types
begin

text \<open>
  The detector of group boundaries, \<^verbatim>\<open>gop/detector.go\<close>: it cuts the stream of frames at the keyframes, keeps the last ten
  groups and their averages, and marks groups complete by duration or length.
\<close>

section \<open>The detector\<close>

record Detector =
  gd_currentGOP :: "nat option"
  gd_gopCounter :: u64
  gd_recentGOPs :: "nat list"
  gd_maxGOPs :: int
  gd_avgGOPSize :: rat
  gd_avgDuration :: nanos

definition NewDetector :: Detector where
  "NewDetector = \<lparr>gd_currentGOP = None, gd_gopCounter = 0, gd_recentGOPs = [], gd_maxGOPs = 10, gd_avgGOPSize = 0, gd_avgDuration = 0\<rparr>"

definition ptsDurationWithWrap :: "int \<Rightarrow> int \<Rightarrow> int" where
  "ptsDurationWithWrap endPTS startPTS = (let d = i64 (endPTS - startPTS) in if d < 0 then i64 (d + 2 ^ 33) else d)"

definition pts_nanos :: "int \<Rightarrow> nanos" where
  "pts_nanos d = i64 (d * 1000000) sdiv 90"

definition updateStatistics :: "Heap \<Rightarrow> Detector \<Rightarrow> Detector" where
  "updateStatistics h d =
     (if gd_recentGOPs d = [] then d
      else
        (let gops = map (hp_gop h) (gd_recentGOPs d); n = length gops;
             totalSize = (\<Sum>g \<leftarrow> gops. int (length (gop_Frames g)));
             totalDuration = fold (\<lambda>g t. i64 (t + pts_nanos (gop_Duration g))) gops 0
         in d\<lparr>gd_avgGOPSize := of_int totalSize / of_nat n, gd_avgDuration := totalDuration sdiv int n\<rparr>))"

definition closeCurrentGOP :: "int \<Rightarrow> Heap \<times> Detector \<Rightarrow> Heap \<times> Detector" where
  "closeCurrentGOP nextKeyframePTS s =
     (let (h, d) = s
      in case gd_currentGOP d of
           None \<Rightarrow> (h, d)
         | Some a \<Rightarrow>
             (let h = heap_update a (\<lambda>g. g\<lparr>gop_EndPTS := nextKeyframePTS,
                        gop_Duration := (if gop_Frames g \<noteq> [] then ptsDurationWithWrap nextKeyframePTS (gop_StartPTS g) else gop_Duration g),
                        gop_Closed := True, gop_Complete := True\<rparr>) h;
                  recent = gd_recentGOPs d @ [a];
                  recent = (if int (length recent) > gd_maxGOPs d then tl recent else recent)
              in (h, updateStatistics h (d\<lparr>gd_recentGOPs := recent\<rparr>))))"

definition checkGOPCompletion :: "GOP \<Rightarrow> GOP" where
  "checkGOPCompletion g =
     (let g = (if gop_Frames g \<noteq> []
          then (let ptsDuration = ptsDurationWithWrap (vf_PTS (last (gop_Frames g))) (vf_PTS (hd (gop_Frames g)));
                    temporalDuration = pts_nanos ptsDuration;
                    g = (if temporalDuration \<ge> second sdiv 2 then g\<lparr>gop_Complete := True, gop_Duration := ptsDuration\<rparr> else g)
                in if temporalDuration \<ge> 2 * second
                   then g\<lparr>gop_Complete := True, gop_Closed := True, gop_Duration := ptsDuration\<rparr> else g)
          else g);
          g = (if gs_Size (gop_Structure g) > 0 \<and> int (length (gop_Frames g)) \<ge> gs_Size (gop_Structure g)
               then g\<lparr>gop_Complete := True\<rparr> else g)
      in if length (gop_Frames g) \<ge> 120
         then (let g = g\<lparr>gop_Complete := True, gop_Closed := True\<rparr>
               in if gop_Duration g = 0 \<and> gop_Frames g \<noteq> []
                  then g\<lparr>gop_Duration := ptsDurationWithWrap (vf_PTS (last (gop_Frames g))) (vf_PTS (hd (gop_Frames g)))\<rparr> else g)
         else g)"

definition first_GOP :: "u64 \<Rightarrow> Frame \<Rightarrow> GOP" where
  "first_GOP i frame =
     (let frame = frame\<lparr>vf_GOPId := i, vf_GOPPosition := 0\<rparr>
      in empty_GOP\<lparr>gop_ID := i, gop_StartPTS := vf_PTS frame, gop_StartTime := vf_CaptureTime frame, gop_Keyframe := Some frame,
           gop_Frames := [frame]\<rparr>)"

definition append_frame :: "Frame \<Rightarrow> GOP \<Rightarrow> GOP" where
  "append_frame frame g =
     (let frame = frame\<lparr>vf_GOPId := gop_ID g, vf_GOPPosition := length (gop_Frames g)\<rparr>
      in g\<lparr>gop_Frames := gop_Frames g @ [frame],
           gop_PFrameCount := count_type FrameTypeP frame (gop_PFrameCount g),
           gop_BFrameCount := count_type FrameTypeB frame (gop_BFrameCount g),
           gop_TotalSize := gop_TotalSize g + int (vf_TotalSize frame)\<rparr>)"

definition detector_ProcessFrame :: "Frame \<Rightarrow> Heap \<times> Detector \<Rightarrow> (Heap \<times> Detector) \<times> nat option" where
  "detector_ProcessFrame frame s =
     (if IsKeyframe frame
      then
        (let closedGOP = gd_currentGOP (snd s);
             (h, d) = (case closedGOP of None \<Rightarrow> s | Some _ \<Rightarrow> closeCurrentGOP (vf_PTS frame) s);
             d = d\<lparr>gd_gopCounter := gd_gopCounter d + 1\<rparr>;
             (a, h) = heap_alloc (first_GOP (gd_gopCounter d) frame) h
         in ((h, d\<lparr>gd_currentGOP := Some a\<rparr>), closedGOP))
      else
        (let (h, d) = s
         in case gd_currentGOP d of
              None \<Rightarrow> (s, None)
            | Some a \<Rightarrow> ((heap_update a (checkGOPCompletion \<circ> append_frame frame) h, d), None)))"

section \<open>Running it\<close>

text \<open>The closed groups a sequence of frames yields, in order.\<close>

fun detect_all :: "Frame list \<Rightarrow> Heap \<times> Detector \<Rightarrow> (Heap \<times> Detector) \<times> nat list" where
  "detect_all [] s = (s, [])"
| "detect_all (f # fs) s =
     (let (s, closed) = detector_ProcessFrame f s; (s, rest) = detect_all fs s
      in (s, (case closed of None \<Rightarrow> rest | Some a \<Rightarrow> a # rest)))"

text \<open>A frame without the fields the detector writes.\<close>

definition unplaced :: "Frame \<Rightarrow> Frame" where
  "unplaced f = f\<lparr>vf_GOPId := 0, vf_GOPPosition := 0\<rparr>"

definition current_frames :: "Heap \<times> Detector \<Rightarrow> Frame list" where
  "current_frames s = (case gd_currentGOP (snd s) of None \<Rightarrow> [] | Some a \<Rightarrow> gop_Frames (hp_gop (fst s) a))"

text \<open>A group as the detector builds it: one keyframe, in front, the rest in their places, and the books of the rest.\<close>

definition detected_ok :: "GOP \<Rightarrow> bool" where
  "detected_ok g \<longleftrightarrow>
     (\<exists>k rest. gop_Frames g = k # rest \<and> IsKeyframe k \<and> (\<forall>f \<in> set rest. \<not> IsKeyframe f) \<and>
        (\<forall>i < length (gop_Frames g). vf_GOPId (gop_Frames g ! i) = gop_ID g \<and> vf_GOPPosition (gop_Frames g ! i) = i) \<and>
        gop_Keyframe g \<noteq> None \<and> gs_Size (gop_Structure g) = 0 \<and>
        gop_TotalSize g = (\<Sum>f \<leftarrow> rest. int (vf_TotalSize f)) \<and>
        gop_PFrameCount g = int (length (filter (\<lambda>f. vf_Type f = FrameTypeP) rest)) \<and>
        gop_BFrameCount g = int (length (filter (\<lambda>f. vf_Type f = FrameTypeB) rest)))"

lemma complete_keeps [simp]:
  "gop_Frames (checkGOPCompletion g) = gop_Frames g" "gop_ID (checkGOPCompletion g) = gop_ID g"
  "gop_Keyframe (checkGOPCompletion g) = gop_Keyframe g" "gop_Structure (checkGOPCompletion g) = gop_Structure g"
  "gop_TotalSize (checkGOPCompletion g) = gop_TotalSize g" "gop_PFrameCount (checkGOPCompletion g) = gop_PFrameCount g"
  "gop_BFrameCount (checkGOPCompletion g) = gop_BFrameCount g"
  by (simp_all add: checkGOPCompletion_def Let_def)

lemma keyframe_placed [simp]: "IsKeyframe (f\<lparr>vf_GOPId := i, vf_GOPPosition := n\<rparr>) = IsKeyframe f"
  by (simp add: IsKeyframe_def HasFlag_def)

lemma append_ok:
  assumes "detected_ok g" and "\<not> IsKeyframe f"
  shows "detected_ok (checkGOPCompletion (append_frame f g))"
proof -
  obtain k rest where "gop_Frames g = k # rest" using assms(1) by (auto simp: detected_ok_def)
  then show ?thesis using assms
    by (auto simp: detected_ok_def append_frame_def Let_def count_type_def nth_append nth_Cons' less_Suc_eq)
qed

lemma first_ok: "IsKeyframe f \<Longrightarrow> detected_ok (first_GOP i f)"
  by (simp add: detected_ok_def first_GOP_def empty_GOP_def Let_def)

section \<open>What it yields\<close>

text \<open>After the frames \<open>ps\<close>, with \<open>cs\<close> the groups returned so far, the first of them allocated at \<open>n0\<close>.\<close>

definition detector_inv :: "nat \<Rightarrow> nat list \<Rightarrow> Frame list \<Rightarrow> Heap \<times> Detector \<Rightarrow> bool" where
  "detector_inv n0 cs ps s \<longleftrightarrow>
     (let (h, d) = s; current = (case gd_currentGOP d of None \<Rightarrow> [] | Some a \<Rightarrow> [a])
      in [n0..<hp_next h] = cs @ current \<and> (current = [] \<longrightarrow> cs = []) \<and> n0 \<le> hp_next h \<and>
         (\<forall>a \<in> set (cs @ current). detected_ok (hp_gop h a) \<and> gop_ID (hp_gop h a) = of_nat (a + 1 - n0)) \<and>
         (\<forall>a \<in> set cs. gop_Complete (hp_gop h a) \<and> gop_Closed (hp_gop h a)) \<and>
         gd_gopCounter d = of_nat (length (cs @ current)) \<and> gd_maxGOPs d = 10 \<and> gd_recentGOPs d = drop (length cs - 10) cs \<and>
         map unplaced (concat (map (\<lambda>a. gop_Frames (hp_gop h a)) (cs @ current))) = map unplaced (dropWhile (\<lambda>f. \<not> IsKeyframe f) ps))"

lemma dropWhile_snoc: "dropWhile P (xs @ [x]) = (if dropWhile P xs = [] then if P x then [] else [x] else dropWhile P xs @ [x])"
  by (induction xs) auto

lemma unplaced_placed [simp]: "unplaced (f\<lparr>vf_GOPId := i, vf_GOPPosition := n\<rparr>) = unplaced f"
  by (simp add: unplaced_def)

lemma update_statistics_keeps [simp]:
  "gd_currentGOP (updateStatistics h d) = gd_currentGOP d" "gd_gopCounter (updateStatistics h d) = gd_gopCounter d"
  "gd_maxGOPs (updateStatistics h d) = gd_maxGOPs d" "gd_recentGOPs (updateStatistics h d) = gd_recentGOPs d"
  by (simp_all add: updateStatistics_def Let_def)

lemma detected_ok_close:
  "detected_ok (g\<lparr>gop_EndPTS := p, gop_Duration := t, gop_Closed := c, gop_Complete := b\<rparr>) = detected_ok g"
  by (simp add: detected_ok_def)

lemma recent_window:
  "(if int (length (drop (length cs - 10) cs @ [a])) > 10 then tl (drop (length cs - 10) cs @ [a]) else drop (length cs - 10) cs @ [a]) =
   drop (length (cs @ [a]) - 10) (cs @ [a])"
proof (cases "10 \<le> length cs")
  case True
  then have "drop (length cs - 10) cs \<noteq> []" by simp
  moreover have "tl (drop (length cs - 10) cs) = drop (length cs - 9) cs" using True by (simp add: tl_drop flip: drop_Suc Suc_diff_le)
  ultimately show ?thesis using True by simp
next
  case False
  then show ?thesis by simp
qed

lemma current_address:
  assumes "detector_inv n0 cs ps (h, d)" and "gd_currentGOP d = Some a"
  shows "Suc a = hp_next h" "n0 \<le> a" "length cs = a - n0" "a \<notin> set cs" "cs = [n0..<a]"
proof -
  have e: "[n0..<hp_next h] = cs @ [a]" and le: "n0 \<le> hp_next h" using assms by (simp_all add: detector_inv_def)
  have "n0 \<noteq> hp_next h" using e by auto
  then have "[n0..<hp_next h] = [n0..<hp_next h - 1] @ [hp_next h - 1]" using le upt_Suc_append [of n0 "hp_next h - 1"] by simp
  then have c: "cs = [n0..<hp_next h - 1]" "a = hp_next h - 1" unfolding e by simp_all
  then show "Suc a = hp_next h" "n0 \<le> a" using \<open>n0 \<noteq> hp_next h\<close> le by simp_all
  show "cs = [n0..<a]" using c by simp
  then show "length cs = a - n0" "a \<notin> set cs" by simp_all
qed

lemma detector_invD:
  assumes "detector_inv n0 cs ps (h, d)" and "gd_currentGOP d = Some a"
  shows "map unplaced (concat (map (\<lambda>b. gop_Frames (hp_gop h b)) cs)) @ map unplaced (gop_Frames (hp_gop h a)) =
      map unplaced (dropWhile (\<lambda>f. \<not> IsKeyframe f) ps)"
    and "gd_recentGOPs d = drop (length cs - 10) cs" "gd_maxGOPs d = 10" "gd_gopCounter d = of_nat (length cs + 1)"
    and "\<forall>b \<in> set (cs @ [a]). detected_ok (hp_gop h b) \<and> gop_ID (hp_gop h b) = of_nat (b + 1 - n0)"
    and "\<forall>b \<in> set cs. gop_Complete (hp_gop h b) \<and> gop_Closed (hp_gop h b)"
  using assms by (auto simp: detector_inv_def)

lemma detector_append:
  assumes "detector_inv n0 cs ps (h, d)" and "gd_currentGOP d = Some a" and "\<not> IsKeyframe f"
  shows "detector_inv n0 cs (ps @ [f]) (heap_update a (checkGOPCompletion \<circ> append_frame f) h, d)"
proof -
  note a = current_address [OF assms(1,2)]
  let ?h = "heap_update a (checkGOPCompletion \<circ> append_frame f) h"
  have ok: "detected_ok (hp_gop h a)" using assms(1,2) by (simp add: detector_inv_def)
  then obtain k rest where "gop_Frames (hp_gop h a) = k # rest" by (auto simp: detected_ok_def)
  then have "map unplaced (dropWhile (\<lambda>f. \<not> IsKeyframe f) ps) \<noteq> []" unfolding detector_invD(1) [OF assms(1,2), symmetric] by simp
  then have ne: "dropWhile (\<lambda>f. \<not> IsKeyframe f) ps \<noteq> []" by blast
  have old: "map (\<lambda>b. gop_Frames (hp_gop ?h b)) cs = map (\<lambda>b. gop_Frames (hp_gop h b)) cs" using a(4) by (auto intro!: map_cong)
  have "map unplaced (gop_Frames (hp_gop ?h a)) = map unplaced (gop_Frames (hp_gop h a)) @ [unplaced f]"
    by (simp add: append_frame_def Let_def)
  then have "map unplaced (concat (map (\<lambda>b. gop_Frames (hp_gop ?h b)) (cs @ [a]))) = map unplaced (dropWhile (\<lambda>f. \<not> IsKeyframe f) (ps @ [f]))"
    unfolding map_append concat_append old using ne detector_invD(1) [OF assms(1,2)] by (simp add: dropWhile_snoc)
  moreover have "\<forall>b \<in> set (cs @ [a]). detected_ok (hp_gop ?h b) \<and> gop_ID (hp_gop ?h b) = of_nat (b + 1 - n0)"
    using assms append_ok [OF ok assms(3)] a(4) by (auto simp: detector_inv_def append_frame_def Let_def)
  moreover have "\<forall>b \<in> set cs. gop_Complete (hp_gop ?h b) \<and> gop_Closed (hp_gop ?h b)"
    using assms a(4) by (auto simp: detector_inv_def)
  ultimately show ?thesis using assms(1,2) by (simp add: detector_inv_def Let_def)
qed

lemma detector_cut:
  assumes "detector_inv n0 cs ps (h, d)" and "gd_currentGOP d = Some a" and "IsKeyframe f"
  shows "detector_inv n0 (cs @ [a]) (ps @ [f]) (fst (detector_ProcessFrame f (h, d)))"
proof -
  note a = current_address [OF assms(1,2)]
  define h1 where "h1 = heap_update a (\<lambda>g. g\<lparr>gop_EndPTS := vf_PTS f,
      gop_Duration := (if gop_Frames g \<noteq> [] then ptsDurationWithWrap (vf_PTS f) (gop_StartPTS g) else gop_Duration g),
      gop_Closed := True, gop_Complete := True\<rparr>) h"
  define n where "n = hp_next h"
  define g where "g = first_GOP (gd_gopCounter d + 1) f"
  define d' where "d' = (snd (closeCurrentGOP (vf_PTS f) (h, d)))\<lparr>gd_gopCounter := gd_gopCounter d + 1, gd_currentGOP := Some n\<rparr>"
  let ?h = "\<lparr>hp_next = n + 1, hp_gop = (hp_gop h1)(n := g)\<rparr>"
  have r: "fst (detector_ProcessFrame f (h, d)) = (?h, d')"
    using assms(2,3) by (simp add: detector_ProcessFrame_def closeCurrentGOP_def heap_alloc_def Let_def h1_def d'_def n_def g_def)
  note d = detector_invD(2-4) [OF assms(1,2)]
  have d': "gd_maxGOPs d' = 10" "gd_currentGOP d' = Some n" "gd_gopCounter d' = of_nat (length (cs @ [a, n]))"
    using assms(2) d(2,3) by (simp_all add: d'_def closeCurrentGOP_def Let_def)
  have "gd_recentGOPs d' = (if int (length (gd_recentGOPs d @ [a])) > gd_maxGOPs d then tl (gd_recentGOPs d @ [a]) else gd_recentGOPs d @ [a])"
    using assms(2) by (simp add: d'_def closeCurrentGOP_def Let_def)
  then have rec: "gd_recentGOPs d' = drop (length (cs @ [a]) - 10) (cs @ [a])" unfolding d(1,2) recent_window .
  have fr: "gop_Frames (hp_gop h1 b) = gop_Frames (hp_gop h b)" "detected_ok (hp_gop h1 b) = detected_ok (hp_gop h b)"
    "gop_ID (hp_gop h1 b) = gop_ID (hp_gop h b)" for b by (simp_all add: h1_def detected_ok_close)
  have new: "n \<notin> set (cs @ [a])" "cs @ [a, n] = [n0..<n + 1]" "n + 1 - n0 = length (cs @ [a]) + 1"
    using a(2,3,4,5) unfolding n_def a(1) [symmetric] by simp_all
  have ids: "gop_ID g = of_nat (n + 1 - n0)" "detected_ok g"
    using d(3) new(3) first_ok assms(3) by (simp_all add: g_def) (simp add: first_GOP_def Let_def)
  have "\<forall>b \<in> set (cs @ [a, n]). detected_ok (hp_gop ?h b) \<and> gop_ID (hp_gop ?h b) = of_nat (b + 1 - n0)"
    using detector_invD(5) [OF assms(1,2)] fr new(1) ids by auto
  moreover have "\<forall>b \<in> set (cs @ [a]). gop_Complete (hp_gop ?h b) \<and> gop_Closed (hp_gop ?h b)"
    using detector_invD(6) [OF assms(1,2)] new(1) by (auto simp: h1_def)
  moreover have "map unplaced (concat (map (\<lambda>b. gop_Frames (hp_gop ?h b)) (cs @ [a, n]))) = map unplaced (dropWhile (\<lambda>f. \<not> IsKeyframe f) (ps @ [f]))"
  proof -
    have "map (\<lambda>b. gop_Frames (hp_gop ?h b)) (cs @ [a]) = map (\<lambda>b. gop_Frames (hp_gop h b)) (cs @ [a])" using new(1) fr by (auto intro!: map_cong)
    moreover have "map unplaced (gop_Frames g) = [unplaced f]" by (simp add: g_def first_GOP_def Let_def)
    moreover have "map unplaced (concat (map (\<lambda>b. gop_Frames (hp_gop h b)) (cs @ [a]))) = map unplaced (dropWhile (\<lambda>f. \<not> IsKeyframe f) ps)"
      using detector_invD(1) [OF assms(1,2)] by simp
    moreover have "map (\<lambda>b. gop_Frames (hp_gop ?h b)) (cs @ [a, n]) = map (\<lambda>b. gop_Frames (hp_gop ?h b)) (cs @ [a]) @ [gop_Frames g]" by simp
    moreover have "dropWhile (\<lambda>f. \<not> IsKeyframe f) (ps @ [f]) = dropWhile (\<lambda>f. \<not> IsKeyframe f) ps @ [f]"
      using assms(3) by (simp add: dropWhile_snoc)
    ultimately show ?thesis by (simp only: concat_append map_append concat.simps append_Nil2 list.map)
  qed
  moreover have "[n0..<hp_next ?h] = cs @ [a, n]" "n0 \<le> hp_next ?h" using new(2) a(1,2) by (simp_all add: n_def)
  ultimately show ?thesis unfolding r detector_inv_def Let_def prod.case d'(2) option.case append_assoc append_Cons append_Nil
    using d'(1,3) rec by blast
qed

lemma detector_keeps:
  assumes "detector_inv n0 cs ps s" and "detector_ProcessFrame f s = (s', r)"
  shows "detector_inv n0 (cs @ (case r of None \<Rightarrow> [] | Some a \<Rightarrow> [a])) (ps @ [f]) s'"
proof -
  obtain h d where s: "s = (h, d)" by (cases s)
  show ?thesis
  proof (cases "gd_currentGOP d")
    case None
    then have "cs = []" "n0 = hp_next h" "dropWhile (\<lambda>f. \<not> IsKeyframe f) ps = []" using assms(1) by (auto simp: detector_inv_def s)
    then show ?thesis using assms None first_ok [of f 1]
      by (auto simp: s detector_inv_def detector_ProcessFrame_def heap_alloc_def Let_def dropWhile_snoc first_GOP_def empty_GOP_def)
  next
    case (Some a)
    show ?thesis
    proof (cases "IsKeyframe f")
      case True
      then have "r = Some a" using assms(2) Some by (auto simp: s detector_ProcessFrame_def Let_def split: prod.splits)
      then show ?thesis using detector_cut [OF assms(1) [unfolded s] Some True] assms(2) by (simp add: s)
    next
      case False
      then show ?thesis using detector_append [OF assms(1) [unfolded s] Some False] assms(2) Some
        by (auto simp: s detector_ProcessFrame_def)
    qed
  qed
qed

lemma detect_all_keeps:
  "detector_inv n0 cs ps s \<Longrightarrow> detector_inv n0 (cs @ snd (detect_all fs s)) (ps @ fs) (fst (detect_all fs s))"
proof (induction fs arbitrary: cs ps s)
  case (Cons f fs)
  obtain s' r where p: "detector_ProcessFrame f s = (s', r)" by (cases "detector_ProcessFrame f s")
  from Cons.IH [OF detector_keeps [OF Cons.prems p]] show ?case by (auto simp: p case_prod_unfold Let_def split: option.split)
qed simp

lemma detector_inv_New: "detector_inv (hp_next h) [] [] (h, NewDetector)"
  by (simp add: detector_inv_def NewDetector_def)

text \<open>C16: The detector loses no frame and invents none: the frames of the groups it returned, in order, followed by those of the
  group under construction, are the frames it was given from the first keyframe on.  The returned groups are complete and
  closed, carry consecutive identifiers, begin with their only keyframe and number their frames; the recent groups are the
  last ten returned.  The size recorded for a group is that of its frames without the keyframe.\<close>

theorem gop_detector_partitions:
  "let (s, returned) = detect_all frames (h, NewDetector)
   in map unplaced (concat (map (\<lambda>a. gop_Frames (hp_gop (fst s) a)) returned) @ current_frames s) =
        map unplaced (dropWhile (\<lambda>f. \<not> IsKeyframe f) frames) \<and>
      list_all (\<lambda>a. detected_ok (hp_gop (fst s) a) \<and> IsComplete (hp_gop (fst s) a) \<and> gop_Closed (hp_gop (fst s) a)) returned \<and>
      map (\<lambda>a. gop_ID (hp_gop (fst s) a)) returned = map of_nat [1..<length returned + 1] \<and>
      gd_recentGOPs (snd s) = drop (length returned - 10) returned"
proof -
  obtain h' d returned where r: "detect_all frames (h, NewDetector) = ((h', d), returned)" by (metis prod.collapse)
  have inv: "detector_inv (hp_next h) returned frames (h', d)"
    using detect_all_keeps [OF detector_inv_New [of h], of frames] by (simp add: r)
  have upt: "returned = [hp_next h..<hp_next h + length returned]"
  proof (cases "gd_currentGOP d")
    case None
    then show ?thesis using inv by (auto simp: detector_inv_def)
  next
    case (Some a)
    from current_address(2,3,5) [OF inv Some] show ?thesis by simp
  qed
  have "map (\<lambda>a. gop_ID (hp_gop h' a)) returned = map (\<lambda>a. of_nat (a + 1 - hp_next h)) returned"
    using inv by (intro map_cong) (auto simp: detector_inv_def Let_def)
  also have "\<dots> = map of_nat [1..<length returned + 1]"
    by (subst (1) upt, intro nth_equalityI) (simp_all del: upt_Suc)
  finally have ids: "map (\<lambda>a. gop_ID (hp_gop h' a)) returned = map of_nat [1..<length returned + 1]" .
  have "list_all (\<lambda>a. detected_ok (hp_gop h' a) \<and> IsComplete (hp_gop h' a) \<and> gop_Closed (hp_gop h' a)) returned"
  proof -
    have "IsComplete g" if "detected_ok g" "gop_Complete g" for g using that by (auto simp: IsComplete_def detected_ok_def)
    moreover have "\<forall>a \<in> set returned. detected_ok (hp_gop h' a) \<and> gop_Complete (hp_gop h' a) \<and> gop_Closed (hp_gop h' a)"
      using inv by (auto simp: detector_inv_def Let_def)
    ultimately show ?thesis by (auto simp: list_all_iff)
  qed
  then show ?thesis using inv ids by (auto simp: r detector_inv_def current_frames_def Let_def split: option.splits)
qed

end
