(* ===== verification/GOP_Buffer_Props.thy ===== *)
theory GOP_Buffer_Props
  imports GOP_Buffer GOP_Detector
begin

text \<open>
  The books of the group buffer: after every operation the indices locate exactly the frames and groups held, the byte count
  is the sum of their sizes, and the limits hold; and what goes wrong with the groups the detector delivers.
\<close>

section \<open>The invariant\<close>

abbreviation frames_of :: "Heap \<Rightarrow> nat \<Rightarrow> Frame list" where
  "frames_of h a \<equiv> gop_Frames (hp_gop h a)"

abbreviation total_size :: "Frame list \<Rightarrow> int" where
  "total_size fs \<equiv> (\<Sum>f \<leftarrow> fs. int (vf_TotalSize f))"

text \<open>A group whose frame counts are those of its frames (and whose size too, if \<open>x\<close> is true), with distinct frame identifiers
  and at most one keyframe, which is neither of type P nor of type B.\<close>

definition gop_ok :: "bool \<Rightarrow> GOP \<Rightarrow> bool" where
  "gop_ok x g \<longleftrightarrow> (x \<longrightarrow> gop_TotalSize g = total_size (gop_Frames g)) \<and>
     gop_PFrameCount g = int (length (filter (\<lambda>f. vf_Type f = FrameTypeP) (gop_Frames g))) \<and>
     gop_BFrameCount g = int (length (filter (\<lambda>f. vf_Type f = FrameTypeB) (gop_Frames g))) \<and>
     length (filter IsKeyframe (gop_Frames g)) \<le> 1 \<and>
     list_all (\<lambda>f. IsKeyframe f \<longrightarrow> vf_Type f \<notin> {FrameTypeP, FrameTypeB}) (gop_Frames g) \<and> distinct (map vf_ID (gop_Frames g))"

definition located :: "Heap \<Rightarrow> Buffer \<Rightarrow> nat \<Rightarrow> FrameLocation \<Rightarrow> bool" where
  "located h b i loc \<longleftrightarrow> fl_GOP loc \<in> set (gb_gops b) \<and> fl_Position loc < length (frames_of h (fl_GOP loc)) \<and>
     vf_ID (frames_of h (fl_GOP loc) ! fl_Position loc) = i"

definition disjoint_frames :: "Heap \<Rightarrow> Buffer \<Rightarrow> bool" where
  "disjoint_frames h b \<longleftrightarrow> (\<forall>a \<in> set (gb_gops b). \<forall>c \<in> set (gb_gops b). a \<noteq> c \<longrightarrow>
     vf_ID ` set (frames_of h a) \<inter> vf_ID ` set (frames_of h c) = {})"

lemma disjoint_framesD:
  "disjoint_frames h b \<Longrightarrow> a \<in> set (gb_gops b) \<Longrightarrow> c \<in> set (gb_gops b) \<Longrightarrow>
   i \<in> vf_ID ` set (frames_of h a) \<Longrightarrow> i \<in> vf_ID ` set (frames_of h c) \<Longrightarrow> a = c"
  unfolding disjoint_frames_def by (metis disjoint_iff)

definition buffer_inv :: "bool \<Rightarrow> Heap \<times> Buffer \<Rightarrow> bool" where
  "buffer_inv x s \<longleftrightarrow>
     (let (h, b) = s
      in distinct (gb_gops b) \<and> distinct (map (\<lambda>a. gop_ID (hp_gop h a)) (gb_gops b)) \<and>
         (\<forall>a \<in> set (gb_gops b). gop_ok x (hp_gop h a)) \<and> disjoint_frames h b \<and>
         (\<forall>i loc. gb_frameIndex b i = Some loc \<longleftrightarrow> located h b i loc) \<and>
         (\<forall>i a. gb_gopIndex b i = Some a \<longleftrightarrow> a \<in> set (gb_gops b) \<and> gop_ID (hp_gop h a) = i) \<and>
         (x \<longrightarrow> gb_currentBytes b = (\<Sum>a \<leftarrow> gb_gops b. gop_TotalSize (hp_gop h a))))"

lemma buffer_invD:
  assumes "buffer_inv x (h, b)"
  shows "distinct (gb_gops b)" "distinct (map (\<lambda>a. gop_ID (hp_gop h a)) (gb_gops b))" "\<forall>a \<in> set (gb_gops b). gop_ok x (hp_gop h a)"
    "disjoint_frames h b" "gb_frameIndex b i = Some loc \<longleftrightarrow> located h b i loc"
    "gb_gopIndex b k = Some a \<longleftrightarrow> a \<in> set (gb_gops b) \<and> gop_ID (hp_gop h a) = k"
    "x \<Longrightarrow> gb_currentBytes b = (\<Sum>a \<leftarrow> gb_gops b. gop_TotalSize (hp_gop h a))"
  using assms by (auto simp: buffer_inv_def)

section \<open>The index operations\<close>

lemma delete_frames_at: "delete_frames fs m i = (if i \<in> vf_ID ` set fs then None else m i)"
  unfolding delete_frames_def by (induction fs arbitrary: m) auto

lemma index_frames_snoc: "index_frames a (fs @ [f]) m = (index_frames a fs m)(vf_ID f \<mapsto> \<lparr>fl_GOP = a, fl_Position = length fs\<rparr>)"
  by (simp add: index_frames_def enumerate_append_eq)

lemma index_frames_other: "i \<notin> vf_ID ` set fs \<Longrightarrow> index_frames a fs m i = m i"
  by (induction fs rule: rev_induct) (simp_all add: index_frames_snoc, simp add: index_frames_def)

lemma index_frames_at:
  "distinct (map vf_ID fs) \<Longrightarrow> j < length fs \<Longrightarrow> index_frames a fs m (vf_ID (fs ! j)) = Some \<lparr>fl_GOP = a, fl_Position = j\<rparr>"
proof (induction fs rule: rev_induct)
  case (snoc f fs)
  show ?case
  proof (cases "j = length fs")
    case False
    then have "j < length fs" using snoc.prems(2) by simp
    then have "vf_ID (fs ! j) \<in> vf_ID ` set fs" by simp
    then have "vf_ID (fs ! j) \<noteq> vf_ID f" using snoc.prems(1) by auto
    then show ?thesis using snoc False by (simp add: index_frames_snoc nth_append)
  qed (simp add: index_frames_snoc)
qed simp

text \<open>The index after the frames \<open>fs\<close> of a group have become \<open>fs'\<close>.\<close>

definition reindexed :: "nat \<Rightarrow> Frame list \<Rightarrow> Frame list \<Rightarrow> (nat \<rightharpoonup> FrameLocation) \<Rightarrow> (nat \<rightharpoonup> FrameLocation) \<Rightarrow> bool" where
  "reindexed a fs fs' m m' \<longleftrightarrow>
     (\<forall>j < length fs'. m' (vf_ID (fs' ! j)) = Some \<lparr>fl_GOP = a, fl_Position = j\<rparr>) \<and>
     (\<forall>i. i \<notin> vf_ID ` set fs' \<longrightarrow> m' i = (if i \<in> vf_ID ` set fs then None else m i))"

lemma reindexed_again:
  assumes "distinct (map vf_ID fs')" and "vf_ID ` set gone \<union> vf_ID ` set fs' = vf_ID ` set fs"
  shows "reindexed a fs fs' m (index_frames a fs' (delete_frames gone m))"
  using assms by (auto simp: reindexed_def index_frames_at index_frames_other delete_frames_at)

lemma sum_update:
  fixes t :: "nat \<Rightarrow> int"
  assumes "distinct as" and "a \<in> set as" and "\<forall>c \<in> set as. c \<noteq> a \<longrightarrow> t' c = t c"
  shows "(\<Sum>c \<leftarrow> as. t' c) = (\<Sum>c \<leftarrow> as. t c) - t a + t' a"
  using assms
proof (induction as)
  case (Cons x xs)
  then show ?case
  proof (cases "x = a")
    case True
    then have "(\<Sum>c \<leftarrow> xs. t' c) = (\<Sum>c \<leftarrow> xs. t c)" using Cons.prems by (auto intro!: arg_cong [of _ _ sum_list] map_cong)
    then show ?thesis using True by simp
  qed auto
qed simp

text \<open>Replacing the frames of one group by some of them.\<close>

lemma replace_inv:
  assumes "buffer_inv x (h, b)" and "a \<in> set (gb_gops b)"
    and "gop_ID g = gop_ID (hp_gop h a)" and "gop_ok x g" and "set (gop_Frames g) \<subseteq> set (frames_of h a)"
    and "gb_gops b' = gb_gops b" and "gb_gopIndex b' = gb_gopIndex b"
    and "gb_currentBytes b' = gb_currentBytes b - (total_size (frames_of h a) - total_size (gop_Frames g))"
    and "reindexed a (frames_of h a) (gop_Frames g) (gb_frameIndex b) (gb_frameIndex b')"
  shows "buffer_inv x (heap_update a (\<lambda>_. g) h, b')"
proof -
  note inv = buffer_invD [OF assms(1)]
  let ?h = "heap_update a (\<lambda>_. g) h"
  have ids: "gop_ID (hp_gop ?h c) = gop_ID (hp_gop h c)" for c using assms(3) by simp
  have sub: "vf_ID ` set (frames_of ?h c) \<subseteq> vf_ID ` set (frames_of h c)" for c using assms(5) by auto
  have disj: "disjoint_frames ?h b'" unfolding disjoint_frames_def assms(6)
  proof (intro ballI impI)
    fix c e assume "c \<in> set (gb_gops b)" "e \<in> set (gb_gops b)" "c \<noteq> e"
    then have "vf_ID ` set (frames_of h c) \<inter> vf_ID ` set (frames_of h e) = {}" using inv(4) unfolding disjoint_frames_def by simp
    then show "vf_ID ` set (frames_of ?h c) \<inter> vf_ID ` set (frames_of ?h e) = {}" using Int_mono [OF sub [of c] sub [of e]] by simp
  qed
  have ok: "\<forall>c \<in> set (gb_gops b). gop_ok x (hp_gop ?h c)" using inv(3) assms(4) by simp
  have old: "gop_TotalSize (hp_gop h a) = total_size (frames_of h a)" "gop_TotalSize g = total_size (gop_Frames g)" if x
    using inv(3) assms(2,4) that by (simp_all add: gop_ok_def)
  have bytes: "(\<Sum>c \<leftarrow> gb_gops b. gop_TotalSize (hp_gop ?h c)) = gb_currentBytes b'" if x
    using that sum_update [OF inv(1) assms(2), of "\<lambda>c. gop_TotalSize (hp_gop ?h c)" "\<lambda>c. gop_TotalSize (hp_gop h c)"] inv(7) assms(8) old
    by simp
  have index: "gb_frameIndex b' i = Some loc \<longleftrightarrow> located ?h b' i loc" for i loc
  proof (cases "i \<in> vf_ID ` set (gop_Frames g)")
    case True
    then obtain j where j: "j < length (gop_Frames g)" "vf_ID (gop_Frames g ! j) = i" by (auto simp: in_set_conv_nth)
    then have m: "gb_frameIndex b' i = Some \<lparr>fl_GOP = a, fl_Position = j\<rparr>" using assms(9) unfolding reindexed_def by blast
    have "located ?h b' i loc \<longleftrightarrow> fl_GOP loc = a \<and> fl_Position loc = j"
    proof
      assume l: "located ?h b' i loc"
      then have c: "fl_GOP loc \<in> set (gb_gops b)" "i \<in> vf_ID ` set (frames_of ?h (fl_GOP loc))"
        using assms(6) unfolding located_def by auto
      have "fl_GOP loc = a"
        by (rule disjoint_framesD [OF disj, of _ _ i]) (use c assms(2,6) True in simp_all)
      moreover have "fl_Position loc = j"
        using l calculation j assms(4) by (auto simp: located_def gop_ok_def distinct_conv_nth)
      ultimately show "fl_GOP loc = a \<and> fl_Position loc = j" by simp
    qed (use j assms(2,6) in \<open>auto simp: located_def\<close>)
    then show ?thesis using m by (cases loc) auto
  next
    case False
    then have m: "gb_frameIndex b' i = (if i \<in> vf_ID ` set (frames_of h a) then None else gb_frameIndex b i)"
      using assms(9) unfolding reindexed_def by blast
    show ?thesis
    proof (cases "fl_GOP loc = a")
      case True
      then have "gb_frameIndex b' i \<noteq> Some loc" using m inv(5) [of i loc] by (auto simp: located_def split: if_splits)
      moreover have "\<not> located ?h b' i loc" using True False by (auto simp: located_def)
      ultimately show ?thesis by simp
    next
      case other: False
      have "\<not> located h b i loc" if "i \<in> vf_ID ` set (frames_of h a)"
      proof
        assume "located h b i loc"
        then have "i \<in> vf_ID ` set (frames_of h (fl_GOP loc))" "fl_GOP loc \<in> set (gb_gops b)" by (auto simp: located_def)
        then show False using disjoint_framesD [OF inv(4) _ assms(2) _ that] other by blast
      qed
      moreover have "located ?h b' i loc = located h b i loc" using other assms(6) by (simp add: located_def)
      ultimately show ?thesis using m inv(5) [of i loc] by auto
    qed
  qed
  show ?thesis unfolding buffer_inv_def Let_def prod.case assms(6,7) ids
    using inv(1,2) inv(6) disj ok index bytes by simp
qed

text \<open>A change of a held group that touches none of the fields the books depend on.\<close>

lemma cosmetic_inv:
  assumes "buffer_inv x (h, b)"
    and "\<And>g. gop_Frames (f g) = gop_Frames g \<and> gop_ID (f g) = gop_ID g \<and> gop_TotalSize (f g) = gop_TotalSize g \<and>
          gop_PFrameCount (f g) = gop_PFrameCount g \<and> gop_BFrameCount (f g) = gop_BFrameCount g"
  shows "buffer_inv x (heap_update a f h, b)"
proof -
  have same: "frames_of (heap_update a f h) c = frames_of h c" "gop_ID (hp_gop (heap_update a f h) c) = gop_ID (hp_gop h c)"
    "gop_ok x (hp_gop (heap_update a f h) c) = gop_ok x (hp_gop h c)"
    "gop_TotalSize (hp_gop (heap_update a f h) c) = gop_TotalSize (hp_gop h c)" for c using assms(2) by (simp_all add: gop_ok_def)
  show ?thesis using assms(1) unfolding buffer_inv_def Let_def prod.case same located_def disjoint_frames_def .
qed

text \<open>A change of the heap elsewhere.\<close>

lemma elsewhere_inv:
  assumes "buffer_inv x (h, b)" and "\<forall>a \<in> set (gb_gops b). hp_gop h' a = hp_gop h a"
  shows "buffer_inv x (h', b)"
proof -
  have maps: "map (\<lambda>a. gop_ID (hp_gop h' a)) (gb_gops b) = map (\<lambda>a. gop_ID (hp_gop h a)) (gb_gops b)"
    "map (\<lambda>a. gop_TotalSize (hp_gop h' a)) (gb_gops b) = map (\<lambda>a. gop_TotalSize (hp_gop h a)) (gb_gops b)" using assms(2) by simp_all
  have preds: "\<And>i loc. located h' b i loc = located h b i loc" "disjoint_frames h' b = disjoint_frames h b"
    "\<And>a i. (a \<in> set (gb_gops b) \<and> gop_ID (hp_gop h' a) = i) = (a \<in> set (gb_gops b) \<and> gop_ID (hp_gop h a) = i)"
    "(\<forall>a \<in> set (gb_gops b). gop_ok x (hp_gop h' a)) = (\<forall>a \<in> set (gb_gops b). gop_ok x (hp_gop h a))"
    using assms(2) by (auto simp: located_def disjoint_frames_def)
  show ?thesis using assms(1) unfolding buffer_inv_def Let_def prod.case maps preds .
qed

lemma other_fields_inv:
  assumes "buffer_inv x (h, b)" and "gb_gops b' = gb_gops b" "gb_gopIndex b' = gb_gopIndex b" "gb_frameIndex b' = gb_frameIndex b"
    "gb_currentBytes b' = gb_currentBytes b"
  shows "buffer_inv x (h, b')"
  using assms by (simp add: buffer_inv_def located_def disjoint_frames_def)

section \<open>Removing one frame\<close>

lemma update_indices_at:
  assumes "distinct (map vf_ID (gop_Frames g))"
  shows "n \<le> j \<Longrightarrow> j < length (gop_Frames g) \<Longrightarrow>
      updateFrameIndicesAfterRemoval g n m (vf_ID (gop_Frames g ! j)) =
      map_option (\<lambda>loc. loc\<lparr>fl_Position := j\<rparr>) (m (vf_ID (gop_Frames g ! j)))"
    and "\<forall>j. n \<le> j \<and> j < length (gop_Frames g) \<longrightarrow> vf_ID (gop_Frames g ! j) \<noteq> i \<Longrightarrow> updateFrameIndicesAfterRemoval g n m i = m i"
proof -
  define fs where "fs = gop_Frames g"
  define step where "step = (\<lambda>i (m :: nat \<rightharpoonup> FrameLocation). case m (vf_ID (fs ! i)) of None \<Rightarrow> m | Some loc \<Rightarrow> m(vf_ID (fs ! i) \<mapsto> loc\<lparr>fl_Position := i\<rparr>))"
  have upd: "updateFrameIndicesAfterRemoval g n m = fold step [n..<length fs] m" for m
    unfolding updateFrameIndicesAfterRemoval_def step_def fs_def ..
  have other: "fold step [n..<k] m i = m i" if "\<forall>j. n \<le> j \<and> j < k \<longrightarrow> vf_ID (fs ! j) \<noteq> i" for k i m
    using that
  proof (induction k)
    case (Suc k)
    then show ?case by (cases "n \<le> k") (auto simp: upt_Suc_append step_def split: option.split)
  qed simp
  then show "\<forall>j. n \<le> j \<and> j < length (gop_Frames g) \<longrightarrow> vf_ID (gop_Frames g ! j) \<noteq> i \<Longrightarrow> updateFrameIndicesAfterRemoval g n m i = m i"
    unfolding upd by (simp add: fs_def)
  have "fold step [n..<k] m (vf_ID (fs ! j)) = map_option (\<lambda>loc. loc\<lparr>fl_Position := j\<rparr>) (m (vf_ID (fs ! j)))"
    if "n \<le> j" "j < k" "k \<le> length fs" for j k m
    using that
  proof (induction k)
    case (Suc k)
    have uniq: "vf_ID (fs ! i) \<noteq> vf_ID (fs ! k)" if "i < k" for i
      using assms that Suc.prems by (auto simp: distinct_conv_nth fs_def)
    show ?case
    proof (cases "j = k")
      case True
      then have "fold step [n..<k] m (vf_ID (fs ! k)) = m (vf_ID (fs ! k))" using uniq by (intro other) auto
      then show ?thesis using True Suc.prems by (simp add: upt_Suc_append step_def split: option.split)
    next
      case False
      then show ?thesis using Suc uniq [of j] by (auto simp: upt_Suc_append step_def split: option.split)
    qed
  qed simp
  then show "n \<le> j \<Longrightarrow> j < length (gop_Frames g) \<Longrightarrow> updateFrameIndicesAfterRemoval g n m (vf_ID (gop_Frames g ! j)) =
      map_option (\<lambda>loc. loc\<lparr>fl_Position := j\<rparr>) (m (vf_ID (gop_Frames g ! j)))" unfolding upd by (simp add: fs_def)
qed

lemma remove_frame_inv:
  assumes "buffer_inv x s" and "a \<in> set (gb_gops (snd s))" and "i < length (frames_of (fst s) a)"
    and "vf_Type (frames_of (fst s) a ! i) \<in> {FrameTypeP, FrameTypeB}"
  shows "buffer_inv x (remove_frame a i s)"
proof -
  obtain h b where s: "s = (h, b)" by (cases s)
  let ?fs = "frames_of h a"
  let ?f = "?fs ! i"
  define fs' where "fs' = take i ?fs @ drop (i + 1) ?fs"
  have i: "i < length ?fs" and a: "a \<in> set (gb_gops b)" using assms(2,3) by (simp_all add: s)
  have split: "?fs = take i ?fs @ ?f # drop (i + 1) ?fs" using i by (simp add: id_take_nth_drop)
  have okg: "gop_ok x (hp_gop h a)" using buffer_invD(3) [OF assms(1) [unfolded s]] a by simp
  then have dist: "distinct (map vf_ID ?fs)" by (simp add: gop_ok_def)
  have dist': "distinct (map vf_ID fs')" using dist unfolding fs'_def by (subst (asm) split) auto
  define g where "g = (hp_gop h a)\<lparr>gop_Frames := fs',
      gop_PFrameCount := (if vf_Type ?f = FrameTypeP then gop_PFrameCount (hp_gop h a) - 1 else gop_PFrameCount (hp_gop h a)),
      gop_BFrameCount := (if vf_Type ?f = FrameTypeB then gop_BFrameCount (hp_gop h a) - 1 else gop_BFrameCount (hp_gop h a)),
      gop_TotalSize := gop_TotalSize (hp_gop h a) - int (vf_TotalSize ?f)\<rparr>"
  have count: "length (filter P ?fs) = length (filter P fs') + (if P ?f then 1 else 0)" for P
    unfolding fs'_def by (subst split) simp
  have sum: "total_size ?fs = total_size fs' + int (vf_TotalSize ?f)" unfolding fs'_def by (subst split) simp
  have "set fs' \<subseteq> set ?fs" unfolding fs'_def by (auto dest: in_set_takeD in_set_dropD)
  then have okg': "gop_ok x g" using okg dist' count [of "\<lambda>f. vf_Type f = FrameTypeP"] count [of "\<lambda>f. vf_Type f = FrameTypeB"] count [of IsKeyframe] sum
    by (auto simp: gop_ok_def g_def list_all_iff split: if_splits)
  let ?m = "(gb_frameIndex b)(vf_ID ?f := None)"
  have old: "gb_frameIndex b (vf_ID (?fs ! j)) = Some \<lparr>fl_GOP = a, fl_Position = j\<rparr>" if "j < length ?fs" for j
    using buffer_invD(5) [OF assms(1) [unfolded s]] that a by (simp add: located_def)
  have nth: "fs' ! j = (if j < i then ?fs ! j else ?fs ! (j + 1))" if "j < length fs'" for j
    using that i by (auto simp: fs'_def nth_append)
  have len: "length fs' = length ?fs - 1" using i by (simp add: fs'_def)
  have uniq: "vf_ID (?fs ! j) \<noteq> vf_ID ?f" if "j < length ?fs" "j \<noteq> i" for j
    using dist that i by (auto simp: distinct_conv_nth)
  have ids: "vf_ID ` set ?fs = insert (vf_ID ?f) (vf_ID ` set fs')" unfolding fs'_def by (subst (1) split) auto
  have gf: "gop_Frames g = fs'" by (simp add: g_def)
  note upd = update_indices_at [of g, unfolded gf, OF dist']
  have re: "reindexed a ?fs fs' (gb_frameIndex b) (updateFrameIndicesAfterRemoval g i ?m)" unfolding reindexed_def
  proof (intro conjI allI impI)
    fix j assume j: "j < length fs'"
    show "updateFrameIndicesAfterRemoval g i ?m (vf_ID (fs' ! j)) = Some \<lparr>fl_GOP = a, fl_Position = j\<rparr>"
    proof (cases "i \<le> j")
      case True
      then show ?thesis using upd(1) [OF True j] nth [OF j] old [of "j + 1"] uniq [of "j + 1"] j len by simp
    next
      case False
      then have "\<forall>k. i \<le> k \<and> k < length fs' \<longrightarrow> vf_ID (fs' ! k) \<noteq> vf_ID (fs' ! j)"
        using dist' j by (auto simp: distinct_conv_nth)
      then show ?thesis using upd(2) [of i "vf_ID (fs' ! j)" ?m] nth [OF j] old [of j] uniq [of j] False j len i by simp
    qed
  next
    fix k assume k: "k \<notin> vf_ID ` set fs'"
    then have "\<forall>j. i \<le> j \<and> j < length fs' \<longrightarrow> vf_ID (fs' ! j) \<noteq> k" by auto
    then show "updateFrameIndicesAfterRemoval g i ?m k = (if k \<in> vf_ID ` set ?fs then None else gb_frameIndex b k)"
      using upd(2) [of i k ?m] k unfolding ids by auto
  qed
  have r: "remove_frame a i s = (heap_update a (\<lambda>_. g) h,
      b\<lparr>gb_currentBytes := gb_currentBytes b - int (vf_TotalSize ?f), gb_frameIndex := updateFrameIndicesAfterRemoval g i ?m\<rparr>)"
    by (simp add: remove_frame_def s g_def fs'_def Let_def)
  show ?thesis unfolding r
    by (rule replace_inv [OF assms(1) [unfolded s] a _ okg'])
      (use \<open>set fs' \<subseteq> set ?fs\<close> re sum in \<open>simp_all add: gf\<close>, simp add: g_def)
qed

lemma remove_frame_keeps [simp]:
  "gb_gops (snd (remove_frame a i s)) = gb_gops (snd s)"
  "frames_of (fst (remove_frame a i s)) a = take i (frames_of (fst s) a) @ drop (i + 1) (frames_of (fst s) a)"
  "c \<noteq> a \<Longrightarrow> hp_gop (fst (remove_frame a i s)) c = hp_gop (fst s) c"
  by (simp_all add: remove_frame_def Let_def split: prod.split)

section \<open>Dropping under pressure\<close>

lemma remove_at_inv:
  assumes "buffer_inv x s" and "a \<in> set (gb_gops (snd s))" and "sorted_wrt (>) is" and "\<forall>i \<in> set is. i < length (frames_of (fst s) a)"
    and "\<forall>i \<in> set is. vf_Type (frames_of (fst s) a ! i) = FrameTypeB"
  shows "buffer_inv x (fst (remove_at a is s)) \<and> gb_gops (snd (fst (remove_at a is s))) = gb_gops (snd s)"
  using assms
proof (induction "is" arbitrary: s)
  case (Cons i "is")
  let ?s = "remove_frame a i s"
  have inv: "buffer_inv x ?s" using remove_frame_inv Cons.prems by simp
  have "j < length (frames_of (fst ?s) a) \<and> frames_of (fst ?s) a ! j = frames_of (fst s) a ! j" if "j \<in> set is" for j
    using that Cons.prems(3,4) by (auto simp: nth_append)
  then show ?case using Cons.IH [OF inv] Cons.prems(2-5) by (auto simp: case_prod_unfold Let_def)
qed simp

lemma update_duration_fields [simp]:
  "gop_Frames (UpdateDuration rate g) = gop_Frames g" "gop_ID (UpdateDuration rate g) = gop_ID g"
  "gop_TotalSize (UpdateDuration rate g) = gop_TotalSize g" "gop_PFrameCount (UpdateDuration rate g) = gop_PFrameCount g"
  "gop_BFrameCount (UpdateDuration rate g) = gop_BFrameCount g"
  by (simp_all add: UpdateDuration_def Let_def)

text \<open>A dropping step keeps the books, and the list of groups.\<close>

definition keeps_books :: "bool \<Rightarrow> (nat \<Rightarrow> Heap \<times> Buffer \<Rightarrow> (Heap \<times> Buffer) \<times> Frame list) \<Rightarrow> bool" where
  "keeps_books x f \<longleftrightarrow> (\<forall>a s. buffer_inv x s \<and> a \<in> set (gb_gops (snd s)) \<longrightarrow>
     buffer_inv x (fst (f a s)) \<and> gb_gops (snd (fst (f a s))) = gb_gops (snd s))"

lemma drop_in_all_inv:
  assumes "keeps_books x f" and "buffer_inv x s" and "set as \<subseteq> set (gb_gops (snd s))"
  shows "buffer_inv x (fst (drop_in_all f as s)) \<and> gb_gops (snd (fst (drop_in_all f as s))) = gb_gops (snd s)"
  using assms(2,3)
proof (induction as arbitrary: s)
  case (Cons a as)
  have "buffer_inv x (fst (f a s)) \<and> gb_gops (snd (fst (f a s))) = gb_gops (snd s)" 
    using assms(1) Cons.prems unfolding keeps_books_def by (meson list.set_intros(1) subset_code(1))
  then show ?case using Cons.IH [of "fst (f a s)"] Cons.prems by (simp add: case_prod_unfold Let_def)
qed simp

lemma drop_B_keeps: "keeps_books x (drop_B_in rate)"
  unfolding keeps_books_def
proof (intro allI impI, elim conjE)
  fix a s assume inv: "buffer_inv x s" and a: "a \<in> set (gb_gops (snd s))"
  let ?fs = "frames_of (fst s) a"
  let ?is = "rev (filter (\<lambda>i. vf_Type (?fs ! i) = FrameTypeB) [0..<length ?fs])"
  have "sorted_wrt (>) ?is" unfolding sorted_wrt_rev by (rule sorted_wrt_filter) (rule sorted_wrt_upt)
  then have r: "buffer_inv x (fst (remove_at a ?is s)) \<and> gb_gops (snd (fst (remove_at a ?is s))) = gb_gops (snd s)"
    by (rule remove_at_inv [OF inv a]) simp_all
  define t where "t = fst (remove_at a ?is s)"
  have t: "buffer_inv x (fst t, snd t)" "gb_gops (snd t) = gb_gops (snd s)" using r by (simp_all add: t_def)
  have "fst (drop_B_in rate a s) = (fst t, snd t) \<or> fst (drop_B_in rate a s) = (heap_update a (UpdateDuration rate) (fst t), snd t)"
    by (simp add: drop_B_in_def t_def Let_def split: prod.split)
  then show "buffer_inv x (fst (drop_B_in rate a s)) \<and> gb_gops (snd (fst (drop_B_in rate a s))) = gb_gops (snd s)"
    using cosmetic_inv [OF t(1), of "UpdateDuration rate" a] t by auto
qed

lemma drop_P_loop_inv:
  "buffer_inv x s \<Longrightarrow> a \<in> set (gb_gops (snd s)) \<Longrightarrow>
   buffer_inv x (fst (drop_P_loop a n s)) \<and> gb_gops (snd (fst (drop_P_loop a n s))) = gb_gops (snd s)"
proof (induction n arbitrary: s)
  case (Suc n)
  show ?case
  proof (cases "CanDropFrame (int n) (hp_gop (fst s) a) \<and> vf_Type (frames_of (fst s) a ! n) = FrameTypeP")
    case True
    then have "n < length (frames_of (fst s) a)" by (auto simp: CanDropFrame_def split: if_splits)
    then have "buffer_inv x (remove_frame a n s)" using remove_frame_inv [OF Suc.prems] True by simp
    then show ?thesis using Suc.IH [of "remove_frame a n s"] Suc.prems True by (simp add: case_prod_unfold Let_def)
  next
    case False
    then have "drop_P_loop a (Suc n) s = drop_P_loop a n s" by (simp only: drop_P_loop.simps Let_def if_False simp_thms)
    then show ?thesis using Suc by simp
  qed
qed simp

lemma drop_P_keeps: "keeps_books x (drop_P_in rate)"
  unfolding keeps_books_def
proof (intro allI impI, elim conjE)
  fix a s assume inv: "buffer_inv x s" and a: "a \<in> set (gb_gops (snd s))"
  define t where "t = fst (drop_P_loop a (length (frames_of (fst s) a)) s)"
  have "buffer_inv x (fst t, snd t) \<and> gb_gops (snd t) = gb_gops (snd s)" using drop_P_loop_inv [OF inv a] by (simp add: t_def)
  moreover have "fst (drop_P_in rate a s) = (heap_update a (UpdateDuration rate) (fst t), snd t)"
    by (simp add: drop_P_in_def t_def split: prod.split)
  ultimately show "buffer_inv x (fst (drop_P_in rate a s)) \<and> gb_gops (snd (fst (drop_P_in rate a s))) = gb_gops (snd s)"
    using cosmetic_inv [of x "fst t" "snd t" "UpdateDuration rate" a] by simp
qed

lemma total_size_filter: "total_size fs = total_size (filter P fs) + total_size (filter (\<lambda>f. \<not> P f) fs)"
  by (induction fs) auto

lemma keyframes_keeps: "keeps_books x (keep_keyframes index_all)"
  unfolding keeps_books_def
proof (intro allI impI, elim conjE)
  fix a s assume inv: "buffer_inv x s" and a: "a \<in> set (gb_gops (snd s))"
  obtain h b where s: "s = (h, b)" by (cases s)
  let ?fs = "frames_of h a"
  let ?ks = "filter IsKeyframe ?fs" and ?ds = "filter (\<lambda>f. \<not> IsKeyframe f) ?fs"
  have ok: "gop_ok x (hp_gop h a)" using buffer_invD(3) inv a by (simp add: s)
  then have ks: "length ?ks \<le> 1" "distinct (map vf_ID ?ks)" by (auto simp: gop_ok_def distinct_map inj_on_def)
  then have one: "(if index_all then ?ks else take 1 ?ks) = ?ks" by simp
  note sum = total_size_filter [of ?fs IsKeyframe]
  define g where "g = (hp_gop h a)\<lparr>gop_Frames := ?ks, gop_PFrameCount := 0, gop_BFrameCount := 0,
      gop_TotalSize := (if ?ks = [] then 0 else int (vf_TotalSize (hd ?ks)))\<rparr>"
  have none: "filter (\<lambda>f. vf_Type f = t) ?ks = []" if "t \<in> {FrameTypeP, FrameTypeB}" for t
    using ok that by (auto simp: gop_ok_def list_all_iff filter_empty_conv)
  have "gop_TotalSize g = total_size ?ks" using ks(1) by (cases ?ks) (auto simp: g_def)
  then have okg: "gop_ok x g" using ok ks none [of FrameTypeP] none [of FrameTypeB] by (auto simp: gop_ok_def g_def list_all_iff)
  let ?b = "b\<lparr>gb_frameIndex := index_frames a ?ks (delete_frames ?ds (gb_frameIndex b)), gb_currentBytes := gb_currentBytes b - total_size ?ds\<rparr>"
  have r: "fst (keep_keyframes index_all a s) = (heap_update a (\<lambda>_. g) h, ?b)"
    unfolding keep_keyframes_def s Let_def prod.case one g_def by simp
  have "vf_ID ` set ?ds \<union> vf_ID ` set ?ks = vf_ID ` set ?fs" by auto
  from reindexed_again [OF ks(2) this, of a "gb_frameIndex b"]
  have "buffer_inv x (heap_update a (\<lambda>_. g) h, ?b)"
    by (intro replace_inv [OF inv [unfolded s] _ _ okg]) (use a sum in \<open>simp_all add: s g_def\<close>)
  then show "buffer_inv x (fst (keep_keyframes index_all a s)) \<and> gb_gops (snd (fst (keep_keyframes index_all a s))) = gb_gops (snd s)"
    unfolding r by (simp add: s)
qed

section \<open>Removing the oldest group\<close>

lemma remove_oldest_gops [simp]: "gb_gops (removeOldestGOP h b) = tl (gb_gops b)"
  by (cases "gb_gops b") (simp_all add: removeOldestGOP_def Let_def)

lemma remove_oldest_limits [simp]:
  "gb_maxGOPs (removeOldestGOP h b) = gb_maxGOPs b" "gb_maxBytes (removeOldestGOP h b) = gb_maxBytes b"
  "gb_maxDuration (removeOldestGOP h b) = gb_maxDuration b" "gb_newestTime (removeOldestGOP h b) = gb_newestTime b"
  by (simp_all add: removeOldestGOP_def Let_def split: list.split)

lemma remove_oldest_inv:
  assumes "buffer_inv x (h, b)"
  shows "buffer_inv x (h, removeOldestGOP h b)"
proof (cases "gb_gops b")
  case Nil
  then show ?thesis using assms by (simp add: removeOldestGOP_def)
next
  case (Cons a as)
  note inv = buffer_invD [OF assms]
  let ?b = "removeOldestGOP h b"
  have fields: "gb_gops ?b = as" "gb_frameIndex ?b = delete_frames (frames_of h a) (gb_frameIndex b)"
    "gb_gopIndex ?b = (gb_gopIndex b)(gop_ID (hp_gop h a) := None)" "gb_currentBytes ?b = gb_currentBytes b - gop_TotalSize (hp_gop h a)"
    using Cons by (simp_all add: removeOldestGOP_def Let_def)
  have new: "a \<notin> set as" "\<forall>c \<in> set as. gop_ID (hp_gop h c) \<noteq> gop_ID (hp_gop h a)"
    using inv(1,2) Cons by (auto simp: image_iff)
  have disj: "disjoint_frames h ?b" using inv(4) Cons by (simp add: disjoint_frames_def fields(1))
  have frames: "gb_frameIndex ?b i = Some loc \<longleftrightarrow> located h ?b i loc" for i loc
  proof (cases "i \<in> vf_ID ` set (frames_of h a)")
    case True
    have "\<not> located h ?b i loc"
    proof
      assume "located h ?b i loc"
      then have c: "fl_GOP loc \<in> set as" "i \<in> vf_ID ` set (frames_of h (fl_GOP loc))" using Cons by (auto simp: located_def)
      then have "fl_GOP loc = a" using disjoint_framesD [OF inv(4) _ _ c(2) True] Cons by simp
      then show False using c new by simp
    qed
    then show ?thesis using True by (simp add: fields(2) delete_frames_at)
  next
    case False
    have "located h b i loc \<longleftrightarrow> located h ?b i loc" using False Cons by (auto simp: located_def fields(1))
    then show ?thesis using False inv(5) [of i loc] by (simp add: fields(2) delete_frames_at)
  qed
  have gops: "gb_gopIndex ?b i = Some c \<longleftrightarrow> c \<in> set as \<and> gop_ID (hp_gop h c) = i" for i c
    using inv(6) [of i c] new Cons by (auto simp: fields(3))
  show ?thesis unfolding buffer_inv_def Let_def prod.case using inv(1-3,7) disj frames gops Cons by (simp add: fields)
qed

section \<open>The limits\<close>

lemma limit_count_returns: "0 \<le> gb_maxGOPs b \<Longrightarrow> \<exists>k. limit_count h b = Some ((removeOldestGOP h ^^ k) b)"
proof (induction "length (gb_gops b)" arbitrary: b rule: less_induct)
  case less
  show ?case
  proof (cases "int (length (gb_gops b)) > gb_maxGOPs b")
    case True
    then have "gb_gops b \<noteq> []" using less.prems by auto
    then obtain k where "limit_count h (removeOldestGOP h b) = Some ((removeOldestGOP h ^^ k) (removeOldestGOP h b))"
      using less.hyps [of "removeOldestGOP h b"] remove_shorter less.prems by auto
    then have "limit_count h b = Some ((removeOldestGOP h ^^ Suc k) b)"
      using True by (subst limit_count.simps) (simp add: funpow_swap1)
    then show ?thesis ..
  next
    case False
    then have "limit_count h b = Some ((removeOldestGOP h ^^ 0) b)" by (subst limit_count.simps) simp
    then show ?thesis ..
  qed
qed

lemma limit_count_diverges:
  assumes "limit_count h b = Some b'"
  shows "0 \<le> gb_maxGOPs b"
  by (rule limit_count.raw_induct [OF _ assms, of "\<lambda>h b b'. 0 \<le> gb_maxGOPs b"]) (fastforce split: if_splits)

lemma limit_count_bound:
  assumes "limit_count h b = Some b'"
  shows "int (length (gb_gops b')) \<le> gb_maxGOPs b'"
  by (rule limit_count.raw_induct [OF _ assms, of "\<lambda>h b b'. int (length (gb_gops b')) \<le> gb_maxGOPs b'"]) (auto split: if_splits)

text \<open>The two other loops remove some of the oldest groups.\<close>

lemma limit_bytes_removes: "\<exists>k. limit_bytes h b = (removeOldestGOP h ^^ k) b"
proof (induction h b rule: limit_bytes.induct)
  case (1 h b)
  show ?case
  proof (cases "gb_currentBytes b > gb_maxBytes b \<and> length (gb_gops b) > 1")
    case True
    then obtain k where "limit_bytes h (removeOldestGOP h b) = (removeOldestGOP h ^^ k) (removeOldestGOP h b)" using 1 by auto
    then have "limit_bytes h b = (removeOldestGOP h ^^ Suc k) b" using True by (subst limit_bytes.simps) (simp add: funpow_swap1)
    then show ?thesis ..
  next
    case False
    then have "limit_bytes h b = (removeOldestGOP h ^^ 0) b" by (subst limit_bytes.simps) auto
    then show ?thesis ..
  qed
qed

lemma limit_bytes_bound: "gb_currentBytes (limit_bytes h b) \<le> gb_maxBytes (limit_bytes h b) \<or> length (gb_gops (limit_bytes h b)) \<le> 1"
proof (induction h b rule: limit_bytes.induct)
  case (1 h b)
  then show ?case by (cases "gb_currentBytes b > gb_maxBytes b \<and> length (gb_gops b) > 1") (auto simp: limit_bytes.simps [of h b])
qed

lemma limit_duration_removes: "\<exists>k. limit_duration h cutoff b = (removeOldestGOP h ^^ k) b"
proof (induction h cutoff b rule: limit_duration.induct)
  case (1 h cutoff b)
  show ?case
  proof (cases "gb_gops b = [] \<or> time_ns (gop_StartTime (hp_gop h (hd (gb_gops b)))) > cutoff")
    case True
    then have "limit_duration h cutoff b = (removeOldestGOP h ^^ 0) b" by (subst limit_duration.simps) auto
    then show ?thesis ..
  next
    case False
    then obtain k where "limit_duration h cutoff (removeOldestGOP h b) = (removeOldestGOP h ^^ k) (removeOldestGOP h b)" using 1 by auto
    then have "limit_duration h cutoff b = (removeOldestGOP h ^^ Suc k) b"
      using False by (subst limit_duration.simps) (simp add: funpow_swap1)
    then show ?thesis ..
  qed
qed

lemma enforce_removes:
  assumes "enforceBufferLimits h b = Some b'"
  shows "\<exists>k. b' = (removeOldestGOP h ^^ k) b"
proof -
  obtain c where c: "limit_count h b = Some c" using assms by (auto simp: enforceBufferLimits_def)
  then obtain i where i: "c = (removeOldestGOP h ^^ i) b" using limit_count_returns [OF limit_count_diverges [OF c], of h] by auto
  obtain j where j: "limit_bytes h c = (removeOldestGOP h ^^ j) c" using limit_bytes_removes by blast
  have "b' = limit_bytes h c \<or> (\<exists>cutoff. b' = limit_duration h cutoff (limit_bytes h c))"
    using assms c by (auto simp: enforceBufferLimits_def Let_def split: if_splits)
  then obtain k where "b' = (removeOldestGOP h ^^ k) (limit_bytes h c)" using limit_duration_removes [of h] by (metis funpow_0)
  then have "b' = (removeOldestGOP h ^^ (k + j + i)) b" by (simp add: j i [symmetric] funpow_add)
  then show ?thesis ..
qed

lemma funpow_remove_inv: "buffer_inv x (h, b) \<Longrightarrow> buffer_inv x (h, (removeOldestGOP h ^^ k) b)"
  by (induction k) (simp_all add: remove_oldest_inv)

lemma funpow_remove_gops: "gb_gops ((removeOldestGOP h ^^ k) b) = drop k (gb_gops b)"
  by (induction k) (simp_all add: drop_Suc tl_drop)

lemma enforce_inv: "buffer_inv x (h, b) \<Longrightarrow> enforceBufferLimits h b = Some b' \<Longrightarrow> buffer_inv x (h, b')"
  using enforce_removes funpow_remove_inv by metis

section \<open>Adding a group\<close>

text \<open>A group that can be added: it is not held yet, its identifier and those of its frames are new.\<close>

definition addable :: "bool \<Rightarrow> nat \<Rightarrow> Heap \<Rightarrow> Buffer \<Rightarrow> bool" where
  "addable x a h b \<longleftrightarrow> gop_ok x (hp_gop h a) \<and> a \<notin> set (gb_gops b) \<and>
     (\<forall>c \<in> set (gb_gops b). gop_ID (hp_gop h c) \<noteq> gop_ID (hp_gop h a) \<and>
        vf_ID ` set (frames_of h c) \<inter> vf_ID ` set (frames_of h a) = {})"

lemma appended_inv:
  assumes "buffer_inv x (h, b)" and "addable x a h b"
    and "gb_gops b' = gb_gops b @ [a]" and "gb_gopIndex b' = (gb_gopIndex b)(gop_ID (hp_gop h a) \<mapsto> a)"
    and "gb_frameIndex b' = index_frames a (frames_of h a) (gb_frameIndex b)"
    and "gb_currentBytes b' = gb_currentBytes b + gop_TotalSize (hp_gop h a)"
  shows "buffer_inv x (h, b')"
proof -
  note inv = buffer_invD [OF assms(1)]
  have new: "gop_ok x (hp_gop h a)" "a \<notin> set (gb_gops b)"
    and ids: "\<And>c. c \<in> set (gb_gops b) \<Longrightarrow> gop_ID (hp_gop h c) \<noteq> gop_ID (hp_gop h a)"
    and apart: "\<And>c. c \<in> set (gb_gops b) \<Longrightarrow> vf_ID ` set (frames_of h c) \<inter> vf_ID ` set (frames_of h a) = {}"
    using assms(2) by (simp_all add: addable_def)
  have dist: "distinct (map vf_ID (frames_of h a))" using new(1) by (simp add: gop_ok_def)
  have disj: "disjoint_frames h b'" unfolding disjoint_frames_def assms(3)
  proof (intro ballI impI)
    fix c e assume "c \<in> set (gb_gops b @ [a])" "e \<in> set (gb_gops b @ [a])" "c \<noteq> e"
    then consider "c \<in> set (gb_gops b)" "e \<in> set (gb_gops b)" | "c \<in> set (gb_gops b)" "e = a" | "c = a" "e \<in> set (gb_gops b)" by auto
    then show "vf_ID ` set (frames_of h c) \<inter> vf_ID ` set (frames_of h e) = {}"
    proof cases
      case 1
      then show ?thesis using inv(4) \<open>c \<noteq> e\<close> unfolding disjoint_frames_def by simp
    next
      case 2
      then show ?thesis using apart by simp
    next
      case 3
      then show ?thesis using apart [of e] by (simp add: Int_commute)
    qed
  qed
  have frames: "gb_frameIndex b' i = Some loc \<longleftrightarrow> located h b' i loc" for i loc
  proof (cases "i \<in> vf_ID ` set (frames_of h a)")
    case True
    then obtain j where j: "j < length (frames_of h a)" "vf_ID (frames_of h a ! j) = i" by (auto simp: in_set_conv_nth)
    then have m: "gb_frameIndex b' i = Some \<lparr>fl_GOP = a, fl_Position = j\<rparr>" using index_frames_at [OF dist] by (auto simp: assms(5))
    have "located h b' i loc \<longleftrightarrow> fl_GOP loc = a \<and> fl_Position loc = j"
    proof
      assume l: "located h b' i loc"
      then have c: "fl_GOP loc \<in> set (gb_gops b')" "i \<in> vf_ID ` set (frames_of h (fl_GOP loc))" unfolding located_def by auto
      have "fl_GOP loc = a" by (rule disjoint_framesD [OF disj c(1) _ c(2) True]) (simp add: assms(3))
      moreover have "fl_Position loc = j" using l calculation j dist by (auto simp: located_def distinct_conv_nth)
      ultimately show "fl_GOP loc = a \<and> fl_Position loc = j" by simp
    qed (use j in \<open>auto simp: located_def assms(3)\<close>)
    then show ?thesis using m by (cases loc) auto
  next
    case False
    then have "located h b' i loc \<longleftrightarrow> located h b i loc" by (auto simp: located_def assms(3))
    then show ?thesis using False inv(5) [of i loc] by (simp add: assms(5) index_frames_other)
  qed
  have gops: "gb_gopIndex b' k = Some c \<longleftrightarrow> c \<in> set (gb_gops b') \<and> gop_ID (hp_gop h c) = k" for k c
    using inv(6) [of k c] ids by (auto simp: assms(3,4))
  have "gop_ID (hp_gop h a) \<notin> (\<lambda>a. gop_ID (hp_gop h a)) ` set (gb_gops b)" using ids by (metis (mono_tags, lifting) imageE)
  then show ?thesis unfolding buffer_inv_def Let_def prod.case
    using inv(1-3,7) new disj frames gops by (simp add: assms(3,6))
qed

text \<open>What an accepted group does: it is appended, and the limits are enforced.\<close>

lemma returned_Some: "(case r of None \<Rightarrow> Panic | Some b \<Rightarrow> Ret b) = Ret b' \<longleftrightarrow> r = Some b'"
  by (cases r) simp_all

lemma AddGOP_accepted:
  assumes "AddGOP visit sha now a h b = Ret b'" and "IsComplete (hp_gop h a) \<or> gop_Closed (hp_gop h a)"
  obtains c where "gb_gops c = gb_gops b @ [a]" "gb_gopIndex c = (gb_gopIndex b)(gop_ID (hp_gop h a) \<mapsto> a)"
    "gb_frameIndex c = index_frames a (frames_of h a) (gb_frameIndex b)"
    "gb_currentBytes c = gb_currentBytes b + gop_TotalSize (hp_gop h a)"
    "gb_maxGOPs c = gb_maxGOPs b" "gb_maxBytes c = gb_maxBytes b" "gb_maxDuration c = gb_maxDuration b"
    "enforceBufferLimits h c = Some b'"
proof -
  have acc: "\<not> (\<not> IsComplete (hp_gop h a) \<and> \<not> gop_Closed (hp_gop h a))" using assms(2) by simp
  obtain ctx where ctx: "extractParameterSetsFromGOP visit sha now (hp_gop h a) (gb_parameterContext b) = Ret ctx"
    using assms(1) acc by (cases "extractParameterSetsFromGOP visit sha now (hp_gop h a) (gb_parameterContext b)") (auto simp: AddGOP_def Let_def)
  let ?b = "b\<lparr>gb_gops := gb_gops b @ [a], gb_gopIndex := (gb_gopIndex b)(gop_ID (hp_gop h a) \<mapsto> a),
      gb_frameIndex := index_frames a (frames_of h a) (gb_frameIndex b)\<rparr>"
  have ctx': "extractParameterSetsFromGOP visit sha now (hp_gop h a) (gb_parameterContext ?b) = Ret ctx" using ctx by simp
  from assms(1) [unfolded AddGOP_def Let_def if_not_P [OF acc] ctx' outcome_bind.simps returned_Some] show ?thesis
    by (rule that [rotated 7]) simp_all
qed

lemma AddGOP_refused: "\<not> (IsComplete (hp_gop h a) \<or> gop_Closed (hp_gop h a)) \<Longrightarrow> AddGOP visit sha now a h b = Ret b"
  by (simp add: AddGOP_def)

lemma AddGOP_returns:
  assumes "0 \<le> gb_maxGOPs b" and "extractParameterSetsFromGOP visit sha now (hp_gop h a) (gb_parameterContext b) = Ret ctx"
  shows "\<exists>b'. AddGOP visit sha now a h b = Ret b'"
proof (cases "IsComplete (hp_gop h a) \<or> gop_Closed (hp_gop h a)")
  case True
  then have acc: "\<not> (\<not> IsComplete (hp_gop h a) \<and> \<not> gop_Closed (hp_gop h a))" by simp
  let ?b = "b\<lparr>gb_gops := gb_gops b @ [a], gb_gopIndex := (gb_gopIndex b)(gop_ID (hp_gop h a) \<mapsto> a),
      gb_frameIndex := index_frames a (frames_of h a) (gb_frameIndex b)\<rparr>"
  have ctx: "extractParameterSetsFromGOP visit sha now (hp_gop h a) (gb_parameterContext ?b) = Ret ctx" using assms(2) by simp
  have ret: "\<exists>b'. (case enforceBufferLimits h c of None \<Rightarrow> Panic | Some b \<Rightarrow> Ret b) = Ret b'" if "0 \<le> gb_maxGOPs c" for c
    using limit_count_returns [OF that, of h] by (auto simp: enforceBufferLimits_def)
  show ?thesis unfolding AddGOP_def Let_def if_not_P [OF acc] ctx outcome_bind.simps by (rule ret) (simp add: assms(1))
qed (simp add: AddGOP_refused)

lemma AddGOP_inv:
  assumes "buffer_inv x (h, b)" and "addable x a h b" and "AddGOP visit sha now a h b = Ret b'"
  shows "buffer_inv x (h, b')"
proof (cases "IsComplete (hp_gop h a) \<or> gop_Closed (hp_gop h a)")
  case True
  show ?thesis using AddGOP_accepted [OF assms(3) True] appended_inv [OF assms(1,2)] enforce_inv by metis
next
  case False
  then show ?thesis using assms AddGOP_refused by simp
qed

section \<open>Every operation keeps the books\<close>

lemma dropBFrames_inv: "buffer_inv x s \<Longrightarrow> buffer_inv x (fst (dropBFrames rate n s))"
  using drop_in_all_inv [OF drop_B_keeps] set_take_subset [of "nat n" "gb_gops (snd s)"] by (simp add: dropBFrames_def)

lemma dropPFrames_inv: "buffer_inv x s \<Longrightarrow> buffer_inv x (fst (dropPFrames rate n s))"
  using drop_in_all_inv [OF drop_P_keeps] set_take_subset [of n "gb_gops (snd s)"] by (simp add: dropPFrames_def)

lemma dropAllNonKeyframes_inv: "buffer_inv x s \<Longrightarrow> buffer_inv x (fst (dropAllNonKeyframes s))"
  using drop_in_all_inv [OF keyframes_keeps] by (simp add: dropAllNonKeyframes_def)

lemma dropOldGOPs_inv: "buffer_inv x s \<Longrightarrow> buffer_inv x (fst (dropOldGOPs n includeKeyframes s))"
proof (induction n arbitrary: s)
  case (Suc n)
  obtain h b where s: "s = (h, b)" by (cases s)
  define t where "t = (if includeKeyframes then ((h, removeOldestGOP h b), gop_Frames (hp_gop h (hd (gb_gops b))))
    else keep_keyframes False (hd (gb_gops b)) s)"
  show ?case
  proof (cases "length (gb_gops b) > 1")
    case True
    then have "hd (gb_gops b) \<in> set (gb_gops b)" by (intro hd_in_set) auto
    then have "buffer_inv x (fst t)"
      using Suc.prems remove_oldest_inv keyframes_keeps [of x False] unfolding t_def keeps_books_def by (simp add: s)
    then show ?thesis using Suc.IH [of "fst t"] True by (cases includeKeyframes) (simp_all add: s t_def case_prod_unfold Let_def)
  qed (use Suc.prems in \<open>simp add: s\<close>)
qed simp

lemma pressure_inv:
  assumes "buffer_inv x s"
  shows "buffer_inv x (fst (DropFramesForPressure rate p s))"
proof (cases "p < 1 / 2")
  case False
  define t where "t = (if p < pressure_70 then dropBFrames rate 2 s
            else if p < pressure_85
            then (let (s, bs) = dropBFrames rate (- 1) s; (s, ps) = dropPFrames rate 1 s in (s, bs @ ps))
            else if p < pressure_95 then dropOldGOPs 1 False s
            else if length (gb_gops (snd s)) > 1 then dropOldGOPs 1 True s
            else dropAllNonKeyframes s)"
  have "buffer_inv x (fst t)"
    using dropBFrames_inv [OF assms, of rate] dropPFrames_inv [OF dropBFrames_inv [OF assms], of rate 1 rate "- 1"] dropOldGOPs_inv [OF assms]
      dropAllNonKeyframes_inv [OF assms] unfolding t_def by (simp add: case_prod_unfold Let_def del: dropOldGOPs.simps)
  then have inv: "buffer_inv x (fst (fst t), snd (fst t))" by simp
  have "fst (DropFramesForPressure rate p s) =
      (fst (fst t), (snd (fst t))\<lparr>gb_droppedFrames := gb_droppedFrames (snd (fst t)) + of_nat (length (snd t))\<rparr>)"
    using False unfolding DropFramesForPressure_def t_def [symmetric] by (simp add: case_prod_unfold Let_def)
  then show ?thesis using other_fields_inv [OF inv] by simp
qed (use assms in \<open>simp add: DropFramesForPressure_def\<close>)

lemma from_GOP_inv:
  assumes "buffer_inv x s"
  shows "buffer_inv x (fst (DropFramesFromGOP rate gopID start s))"
proof -
  obtain h b where s: "s = (h, b)" by (cases s)
  note inv = buffer_invD [OF assms [unfolded s]]
  show ?thesis
  proof (cases "gb_gopIndex b gopID")
    case (Some a)
    then have a: "a \<in> set (gb_gops b)" using inv(6) by simp
    let ?fs = "frames_of h a"
    show ?thesis
    proof (cases "start < 0 \<or> start \<ge> int (length ?fs)")
      case False
      define kept where "kept = take (nat start) ?fs"
      define gone where "gone = drop (nat start) ?fs"
      have split: "?fs = kept @ gone" by (simp add: kept_def gone_def)
      let ?g = "UpdateDuration rate ((hp_gop h a)\<lparr>gop_Frames := kept, gop_TotalSize := total_size kept\<rparr>)"
      define g where "g = ?g\<lparr>gop_PFrameCount := gop_PFrameCount ?g - int (length (filter (\<lambda>f. vf_Type f = FrameTypeP) gone)),
          gop_BFrameCount := gop_BFrameCount ?g - int (length (filter (\<lambda>f. vf_Type f = FrameTypeB) gone))\<rparr>"
      have ok: "gop_ok x (hp_gop h a)" using inv(3) a by simp
      then have okg: "gop_ok x g" and dist: "distinct (map vf_ID kept)" by (simp_all add: gop_ok_def g_def split)
      let ?b = "b\<lparr>gb_frameIndex := index_frames a kept (delete_frames gone (gb_frameIndex b)),
          gb_currentBytes := gb_currentBytes b - total_size gone, gb_droppedFrames := gb_droppedFrames b + of_nat (length gone)\<rparr>"
      have "vf_ID ` set gone \<union> vf_ID ` set kept = vf_ID ` set ?fs" unfolding split by auto
      from reindexed_again [OF dist this, of a "gb_frameIndex b"]
      have "buffer_inv x (heap_update a (\<lambda>_. g) h, ?b)"
        by (intro replace_inv [OF assms [unfolded s] a _ okg]) (simp_all add: g_def split)
      moreover have "fst (DropFramesFromGOP rate gopID start s) = (heap_update a (\<lambda>_. g) h, ?b)"
        using Some False by (simp add: DropFramesFromGOP_def s Let_def g_def kept_def gone_def)
      ultimately show ?thesis by simp
    qed (use assms Some in \<open>simp add: DropFramesFromGOP_def s\<close>)
  qed (use assms in \<open>simp add: DropFramesFromGOP_def s\<close>)
qed

section \<open>Reachable buffers\<close>

text \<open>The groups of the detector can be added, but for their size.\<close>

lemma detected_group_ok:
  assumes "detected_ok g" and "distinct (map vf_ID (gop_Frames g))"
    and "list_all (\<lambda>f. IsKeyframe f \<longrightarrow> vf_Type f \<notin> {FrameTypeP, FrameTypeB}) (gop_Frames g)"
  shows "gop_ok False g"
proof -
  obtain k rest where g: "gop_Frames g = k # rest" "IsKeyframe k" "\<forall>f \<in> set rest. \<not> IsKeyframe f"
    "gop_PFrameCount g = int (length (filter (\<lambda>f. vf_Type f = FrameTypeP) rest))"
    "gop_BFrameCount g = int (length (filter (\<lambda>f. vf_Type f = FrameTypeB) rest))"
    using assms(1) unfolding detected_ok_def by blast
  have "filter IsKeyframe rest = []" using g(3) by (simp add: filter_empty_conv)
  then show ?thesis using assms(2,3) g by (simp add: gop_ok_def)
qed

text \<open>A buffer in use, with what happens to the heap elsewhere; \<open>x\<close> tells whether the recorded size of every added group is
  that of its frames.\<close>

inductive gop_reachable :: "bool \<Rightarrow> Heap \<times> Buffer \<Rightarrow> bool" for x where
  New: "NewBuffer now streamID config = Ret b \<Longrightarrow> gop_reachable x (h, b)"
| Add: "gop_reachable x (h, b) \<Longrightarrow> addable x a h b \<Longrightarrow> AddGOP visit sha now a h b = Ret b' \<Longrightarrow> gop_reachable x (h, b')"
| Pressure: "gop_reachable x s \<Longrightarrow> gop_reachable x (fst (DropFramesForPressure rate p s))"
| FromGOP: "gop_reachable x s \<Longrightarrow> gop_reachable x (fst (DropFramesFromGOP rate gopID start s))"
| Clear: "gop_reachable x (h, b) \<Longrightarrow> gop_reachable x (h, buffer_Clear b)"
| Callback: "gop_reachable x (h, b) \<Longrightarrow> gop_reachable x (h, SetGOPDropCallback b)"
| Elsewhere: "gop_reachable x (h, b) \<Longrightarrow> \<forall>a \<in> set (gb_gops b). hp_gop h' a = hp_gop h a \<Longrightarrow> gop_reachable x (h', b)"

lemma empty_inv:
  "gb_gops b = [] \<Longrightarrow> gb_gopIndex b = Map.empty \<Longrightarrow> gb_frameIndex b = Map.empty \<Longrightarrow> gb_currentBytes b = 0 \<Longrightarrow> buffer_inv x (h, b)"
  by (simp add: buffer_inv_def disjoint_frames_def located_def)

lemma NewBuffer_empty:
  assumes "NewBuffer now streamID config = Ret b"
  shows "gb_gops b = [] \<and> gb_gopIndex b = Map.empty \<and> gb_frameIndex b = Map.empty \<and> gb_currentBytes b = 0 \<and> gb_maxGOPs b = bc_MaxGOPs config"
  using assms by (auto simp: NewBuffer_def elim!: outcome_bind_Ret)

lemma gop_reachable_inv: "gop_reachable x s \<Longrightarrow> buffer_inv x s"
proof (induction rule: gop_reachable.induct)
  case (New now streamID config b h)
  then show ?case using NewBuffer_empty by (intro empty_inv) blast+
next
  case (Add h b a visit sha now b')
  then show ?case using AddGOP_inv by blast
next
  case (Callback h b)
  then show ?case by (auto simp: SetGOPDropCallback_def intro: other_fields_inv)
next
  case (Elsewhere h b h')
  then show ?case using elsewhere_inv by blast
qed (simp_all add: pressure_inv from_GOP_inv empty_inv buffer_Clear_def)

section \<open>The books\<close>

definition held_frames :: "Heap \<Rightarrow> Buffer \<Rightarrow> Frame list" where
  "held_frames h b = concat (map (frames_of h) (gb_gops b))"

lemma held_distinct:
  assumes "buffer_inv x (h, b)"
  shows "distinct (map vf_ID (held_frames h b))"
proof -
  have "distinct as \<Longrightarrow> set as \<subseteq> set (gb_gops b) \<Longrightarrow> distinct (map vf_ID (concat (map (frames_of h) as)))" for as
  proof (induction as)
    case (Cons a as)
    have "distinct (map vf_ID (frames_of h a))" using buffer_invD(3) [OF assms] Cons.prems by (simp add: gop_ok_def)
    moreover have "i \<notin> vf_ID ` set (concat (map (frames_of h) as))" if i: "i \<in> vf_ID ` set (frames_of h a)" for i
    proof
      assume "i \<in> vf_ID ` set (concat (map (frames_of h) as))"
      then obtain c where "c \<in> set as" "i \<in> vf_ID ` set (frames_of h c)" by auto
      then show False using disjoint_framesD [OF buffer_invD(4) [OF assms] _ _ i, of c] Cons.prems by auto
    qed
    ultimately show ?case using Cons by (auto simp: distinct_append)
  qed simp
  then show ?thesis unfolding held_frames_def using buffer_invD(1) [OF assms] by simp
qed

text \<open>Lookup by identifier in a list.\<close>

lemma find_unique:
  assumes "distinct (map f xs)" and "y \<in> set xs"
  shows "List.find (\<lambda>z. f z = f y) xs = Some y"
  using assms by (induction xs) auto

lemma find_none: "k \<notin> f ` set xs \<Longrightarrow> List.find (\<lambda>z. f z = k) xs = None"
  by (auto simp: find_None_iff)

lemma GetGOP_find:
  assumes "buffer_inv x (h, b)"
  shows "GetGOP k b = List.find (\<lambda>a. gop_ID (hp_gop h a) = k) (gb_gops b)"
proof (cases "gb_gopIndex b k")
  case None
  then have "\<forall>a. \<not> (a \<in> set (gb_gops b) \<and> gop_ID (hp_gop h a) = k)" using buffer_invD(6) [OF assms, of k] by (metis option.distinct(1))
  then show ?thesis using None by (auto simp: GetGOP_def find_None_iff [of _ "gb_gops b"] eq_commute [of None])
next
  case (Some a)
  then have "a \<in> set (gb_gops b)" "gop_ID (hp_gop h a) = k" using buffer_invD(6) [OF assms, of k a] by simp_all
  then show ?thesis using Some find_unique [OF buffer_invD(2) [OF assms], of a] by (simp add: GetGOP_def)
qed

lemma GetFrame_find:
  assumes "buffer_inv x (h, b)"
  shows "GetFrame i h b = List.find (\<lambda>f. vf_ID f = i) (held_frames h b)"
proof (cases "gb_frameIndex b i")
  case None
  have "i \<notin> vf_ID ` set (held_frames h b)"
  proof
    assume "i \<in> vf_ID ` set (held_frames h b)"
    then obtain a f where a: "a \<in> set (gb_gops b)" "f \<in> set (frames_of h a)" "vf_ID f = i" by (auto simp: held_frames_def)
    then obtain j where "j < length (frames_of h a)" "vf_ID (frames_of h a ! j) = i" by (auto simp: in_set_conv_nth)
    then have "located h b i \<lparr>fl_GOP = a, fl_Position = j\<rparr>" using a by (simp add: located_def)
    then show False using buffer_invD(5) [OF assms] None by (metis option.distinct(1))
  qed
  then show ?thesis using None find_none [of i vf_ID "held_frames h b"] by (simp add: GetFrame_def)
next
  case (Some loc)
  then have l: "located h b i loc" using buffer_invD(5) [OF assms] by simp
  let ?f = "frames_of h (fl_GOP loc) ! fl_Position loc"
  have "?f \<in> set (held_frames h b)" "vf_ID ?f = i"
    using l unfolding located_def held_frames_def set_concat set_map by (auto intro!: bexI [of _ "fl_GOP loc"] nth_mem)
  then have "List.find (\<lambda>f. vf_ID f = i) (held_frames h b) = Some ?f" using find_unique [OF held_distinct [OF assms], of ?f] by simp
  then show ?thesis using Some l by (simp add: GetFrame_def located_def)
qed

lemma counted_in_all:
  assumes "\<And>a. a \<in> set as \<Longrightarrow> t a = int (length (filter P (frames_of h a)))"
  shows "(\<Sum>a \<leftarrow> as. t a) = int (length (filter P (concat (map (frames_of h) as))))"
  using assms by (induction as) auto

lemma sized_in_all:
  assumes "\<And>a. a \<in> set as \<Longrightarrow> t a = total_size (frames_of h a)"
  shows "(\<Sum>a \<leftarrow> as. t a) = total_size (concat (map (frames_of h) as))"
  using assms by (induction as) auto

text \<open>C15: The books of the group buffer are right after any sequence of operations: a frame is found by its identifier exactly if
  a group holds it, a group exactly if it is in the list, no identifier is held twice, the statistics count the frames
  held, and if the recorded sizes of the added groups are right (\<open>x\<close>), the byte count is the size of the frames held.  Added
  groups need new identifiers and right frame counts, as the groups of the detector have; \<open>x\<close> is false for those.\<close>

theorem gop_buffer_books:
  assumes "gop_reachable x (h, b)"
  shows "GetFrame i h b = List.find (\<lambda>f. vf_ID f = i) (held_frames h b) \<and>
    GetGOP k b = List.find (\<lambda>a. gop_ID (hp_gop h a) = k) (gb_gops b) \<and>
    distinct (map vf_ID (held_frames h b)) \<and> distinct (map (\<lambda>a. gop_ID (hp_gop h a)) (gb_gops b)) \<and>
    bs_FrameCount (buffer_GetStatistics h b) = length (held_frames h b) \<and>
    bs_PFrames (buffer_GetStatistics h b) = int (length (filter (\<lambda>f. vf_Type f = FrameTypeP) (held_frames h b))) \<and>
    bs_BFrames (buffer_GetStatistics h b) = int (length (filter (\<lambda>f. vf_Type f = FrameTypeB) (held_frames h b))) \<and>
    (x \<longrightarrow> bs_TotalBytes (buffer_GetStatistics h b) = total_size (held_frames h b))"
proof -
  have inv: "buffer_inv x (h, b)" using gop_reachable_inv [OF assms] .
  have ok: "gop_ok x (hp_gop h a)" if "a \<in> set (gb_gops b)" for a using buffer_invD(3) [OF inv] that by simp
  have counts: "(\<Sum>a \<leftarrow> gb_gops b. gop_PFrameCount (hp_gop h a)) = int (length (filter (\<lambda>f. vf_Type f = FrameTypeP) (held_frames h b)))"
    "(\<Sum>a \<leftarrow> gb_gops b. gop_BFrameCount (hp_gop h a)) = int (length (filter (\<lambda>f. vf_Type f = FrameTypeB) (held_frames h b)))"
    unfolding held_frames_def by (rule counted_in_all, use ok in \<open>simp add: gop_ok_def\<close>)+
  have "(\<Sum>a \<leftarrow> gb_gops b. gop_TotalSize (hp_gop h a)) = total_size (held_frames h b)" if x
    unfolding held_frames_def by (rule sized_in_all) (use ok that in \<open>simp add: gop_ok_def\<close>)
  then have bytes: "gb_currentBytes b = total_size (held_frames h b)" if x using buffer_invD(7) [OF inv that] that by simp
  have "(\<Sum>a \<leftarrow> gb_gops b. length (frames_of h a)) = length (held_frames h b)" by (simp add: held_frames_def length_concat comp_def)
  then show ?thesis
    using GetFrame_find [OF inv] GetGOP_find [OF inv] held_distinct [OF inv] buffer_invD(2) [OF inv] counts bytes
    by (simp add: buffer_GetStatistics_def Let_def comp_def)
qed

text \<open>C19: Enforcing the limits of the buffer terminates exactly if the configured number of groups is not negative; with a
  negative number it removes from an empty list for ever.\<close>

theorem gop_limits_terminate: "enforceBufferLimits h b \<noteq> None \<longleftrightarrow> 0 \<le> gb_maxGOPs b"
  using limit_count_returns [of b h] limit_count_diverges [of h b] by (auto simp: enforceBufferLimits_def)

lemma total_size_nonneg: "0 \<le> total_size fs"
  by (induction fs) auto

lemma removal_frees:
  assumes "buffer_inv True (h, b)"
  shows "gb_currentBytes ((removeOldestGOP h ^^ k) b) \<le> gb_currentBytes b"
proof (induction k)
  case (Suc k)
  let ?b = "(removeOldestGOP h ^^ k) b"
  have "gb_currentBytes (removeOldestGOP h ?b) \<le> gb_currentBytes ?b"
  proof (cases "gb_gops ?b")
    case (Cons a as)
    then have "gop_ok True (hp_gop h a)" using buffer_invD(3) [OF funpow_remove_inv [OF assms], of k] by simp
    then have "0 \<le> gop_TotalSize (hp_gop h a)" by (simp add: gop_ok_def total_size_nonneg)
    then show ?thesis using Cons by (simp add: removeOldestGOP_def Let_def)
  qed (simp add: removeOldestGOP_def)
  then show ?case using Suc by simp
qed simp

lemma limit_duration_bound:
  "gb_gops (limit_duration h cutoff b) \<noteq> [] \<Longrightarrow> time_ns (gop_StartTime (hp_gop h (hd (gb_gops (limit_duration h cutoff b))))) > cutoff"
proof (induction h cutoff b rule: limit_duration.induct)
  case (1 h cutoff b)
  then show ?case
    by (cases "gb_gops b = [] \<or> time_ns (gop_StartTime (hp_gop h (hd (gb_gops b)))) > cutoff") (auto simp: limit_duration.simps [of h cutoff b])
qed

lemma funpow_remove_limits [simp]:
  "gb_maxGOPs ((removeOldestGOP h ^^ k) b) = gb_maxGOPs b" "gb_maxBytes ((removeOldestGOP h ^^ k) b) = gb_maxBytes b"
  "gb_maxDuration ((removeOldestGOP h ^^ k) b) = gb_maxDuration b" "gb_newestTime ((removeOldestGOP h ^^ k) b) = gb_newestTime b"
  by (induction k) simp_all

lemma enforce_bounds:
  assumes "enforceBufferLimits h b = Some b'" and "buffer_inv True (h, b)"
  shows "int (length (gb_gops b')) \<le> gb_maxGOPs b" "gb_currentBytes b' \<le> gb_maxBytes b \<or> length (gb_gops b') \<le> 1"
    "0 < gb_maxDuration b \<and> 1 < length (gb_gops b') \<longrightarrow>
       time_ns (gop_StartTime (hp_gop h (hd (gb_gops b')))) > time_ns (gb_newestTime b') - gb_maxDuration b"
proof -
  obtain c where c: "limit_count h b = Some c" using assms(1) by (auto simp: enforceBufferLimits_def)
  then obtain i where i: "c = (removeOldestGOP h ^^ i) b" using limit_count_returns [OF limit_count_diverges [OF c], of h] by auto
  obtain j where j: "limit_bytes h c = (removeOldestGOP h ^^ j) c" using limit_bytes_removes by blast
  define e where "e = limit_bytes h c"
  define cutoff where "cutoff = time_ns (gb_newestTime e) - gb_maxDuration e"
  have b': "b' = (if gb_maxDuration e > 0 \<and> length (gb_gops e) > 1 then limit_duration h cutoff e else e)"
    using assms(1) unfolding enforceBufferLimits_def c e_def cutoff_def by (auto simp: Let_def)
  obtain k where k: "b' = (removeOldestGOP h ^^ k) e" using limit_duration_removes [of h cutoff e] b' by (metis funpow_0)
  have "buffer_inv True (h, c)" using assms(2) funpow_remove_inv by (simp add: i)
  then have inv: "buffer_inv True (h, e)" using funpow_remove_inv by (simp add: e_def j)
  have "int (length (gb_gops c)) \<le> gb_maxGOPs b" using limit_count_bound [OF c] by (simp add: i)
  then show "int (length (gb_gops b')) \<le> gb_maxGOPs b" by (simp add: k e_def j funpow_remove_gops)
  have limits: "gb_maxBytes e = gb_maxBytes b" "gb_maxDuration e = gb_maxDuration b" unfolding e_def j unfolding i by simp_all
  have "gb_currentBytes e \<le> gb_maxBytes e \<or> length (gb_gops e) \<le> 1" unfolding e_def by (rule limit_bytes_bound)
  then show "gb_currentBytes b' \<le> gb_maxBytes b \<or> length (gb_gops b') \<le> 1"
    using removal_frees [OF inv, of k] limits by (auto simp: k funpow_remove_gops)
  show "0 < gb_maxDuration b \<and> 1 < length (gb_gops b') \<longrightarrow>
       time_ns (gop_StartTime (hp_gop h (hd (gb_gops b')))) > time_ns (gb_newestTime b') - gb_maxDuration b"
  proof (intro impI, elim conjE)
    assume pos: "0 < gb_maxDuration b" "1 < length (gb_gops b')"
    have "length (gb_gops b') \<le> length (gb_gops e)" by (simp add: k funpow_remove_gops)
    then have "1 < length (gb_gops e)" using pos(2) by linarith
    then have "b' = limit_duration h cutoff e" "gb_gops b' \<noteq> []" using b' limits pos by auto
    then have "time_ns (gop_StartTime (hp_gop h (hd (gb_gops b')))) > cutoff" using limit_duration_bound [of h cutoff e] by simp
    then show "time_ns (gop_StartTime (hp_gop h (hd (gb_gops b')))) > time_ns (gb_newestTime b') - gb_maxDuration b"
      using limits by (simp add: cutoff_def k)
  qed
qed


section \<open>Where the accounts go wrong\<close>

text \<open>Under extreme pressure the oldest group is dropped and its frames are counted twice as dropped.\<close>

theorem extreme_drop_counts_twice:
  assumes "pressure_95 \<le> p" and "1 < length (gb_gops b)"
  shows "let ((h', b'), dropped) = DropFramesForPressure rate p (h, b)
    in dropped = gop_Frames (hp_gop h (hd (gb_gops b))) \<and> gb_gops b' = tl (gb_gops b) \<and>
       gb_droppedFrames b' = gb_droppedFrames b + 2 * of_nat (length dropped)"
proof -
  have "\<not> p < 1 / 2" "\<not> p < pressure_70" "\<not> p < pressure_85" "\<not> p < pressure_95"
    using assms(1) by (auto simp: pressure_70_def pressure_85_def pressure_95_def)
  then show ?thesis using assms(2)
    by (cases "gb_gops b") (simp_all add: DropFramesForPressure_def removeOldestGOP_def Let_def)
qed

text \<open>A group of the detector does not count its keyframe in its size: reducing it to the keyframe and then removing it leaves
  the byte count short by the keyframe, below zero.\<close>

theorem keyframe_underflows_bytes:
  assumes "gb_gops b = [a]" and "gb_currentBytes b = gop_TotalSize (hp_gop h a)" and "gop_Frames (hp_gop h a) = k # fs" and "IsKeyframe k"
    and "list_all (\<lambda>f. \<not> IsKeyframe f) fs" and "gop_TotalSize (hp_gop h a) = (\<Sum>f \<leftarrow> fs. int (vf_TotalSize f))"
  shows "let (h', b') = fst (dropAllNonKeyframes (h, b)) in gb_currentBytes (removeOldestGOP h' b') = - int (vf_TotalSize k)"
proof -
  have "filter IsKeyframe fs = []" "filter (\<lambda>f. \<not> IsKeyframe f) fs = fs" using assms(5) by (simp_all add: list_all_iff filter_empty_conv)
  then show ?thesis using assms by (simp add: dropAllNonKeyframes_def keep_keyframes_def removeOldestGOP_def Let_def)
qed

section \<open>Instances\<close>

definition buffer_frame :: "nat \<Rightarrow> FrameType \<Rightarrow> nat \<Rightarrow> Frame" where
  "buffer_frame i t n = \<lparr>vf_ID = i, vf_TotalSize = n, vf_PTS = 3000 * int i, vf_DTS = 3000 * int i, vf_CaptureTime = Some 0, vf_Type = t,
     vf_NALUnits = [], vf_Duration = 0, vf_CompleteTime = None, vf_Flags = 0, vf_GOPId = 0, vf_GOPPosition = 0, vf_References = [], vf_QP = 0\<rparr>"

definition buffer_group :: "nat \<Rightarrow> GOP" where
  "buffer_group k = empty_GOP\<lparr>gop_ID := of_nat k, gop_Closed := True, gop_Complete := True, gop_TotalSize := 14, gop_PFrameCount := 1,
     gop_BFrameCount := 1, gop_StartTime := Some (int k * second),
     gop_Frames := [buffer_frame (3 * k) FrameTypeIDR 10, buffer_frame (3 * k + 1) FrameTypeP 3, buffer_frame (3 * k + 2) FrameTypeB 1]\<rparr>"

definition buffer_heap :: Heap where
  "buffer_heap = \<lparr>hp_next = 9, hp_gop = buffer_group\<rparr>"

lemma keyframe_types: "IsKeyframe (buffer_frame i t n) \<longleftrightarrow> FrameType_IsKeyframe t"
  by (simp add: IsKeyframe_def buffer_frame_def HasFlag_def)

lemma buffer_group_ok: "gop_ok x (buffer_group k)"
  by (simp add: gop_ok_def buffer_group_def keyframe_types) (simp add: buffer_frame_def FrameType_IsKeyframe_def)

lemma buffer_group_closed: "gop_Closed (hp_gop buffer_heap k)" "extractParameterSetsFromGOP visit sha now (hp_gop buffer_heap k) ctx = Ret ctx"
  by (simp_all add: buffer_heap_def buffer_group_def extractParameterSetsFromGOP_def buffer_frame_def)

lemma new_buffer:
  obtains b where "NewBuffer 0 ''s'' \<lparr>bc_MaxGOPs = 2, bc_MaxBytes = 1000, bc_MaxDuration = 0, bc_Codec = CodecH264\<rparr> = Ret b"
    "gb_gops b = []" "gb_maxGOPs b = 2" "gb_maxBytes b = 1000" "gb_maxDuration b = 0" "gb_currentBytes b = 0"
proof -
  obtain ctx where "NewParameterSetContext 0 CodecH264 ''s'' = Ret ctx"
    by (auto simp: NewParameterSetContext_def NewParameterSetContextWithConfig_def NewEncoderSessionManager_def NewParameterSetCache_def second_def)
  then show ?thesis using that by (simp add: NewBuffer_def)
qed

lemma add_sample:
  assumes "length (gb_gops b) < 2" "gb_maxGOPs b = 2" "gb_maxBytes b = 1000" "gb_maxDuration b = 0" "gb_currentBytes b \<le> 900"
  obtains b' where "AddGOP visit sha now a buffer_heap b = Ret b'" "gb_gops b' = gb_gops b @ [a]" "gb_maxGOPs b' = 2"
    "gb_maxBytes b' = 1000" "gb_maxDuration b' = 0" "gb_currentBytes b' = gb_currentBytes b + 14"
proof -
  have stay: "enforceBufferLimits buffer_heap c = Some c"
    if "length (gb_gops c) \<le> 2" "gb_maxGOPs c = 2" "gb_maxBytes c = 1000" "gb_maxDuration c = 0" "gb_currentBytes c \<le> 1000" for c
    using that by (simp add: enforceBufferLimits_def limit_count.simps [of _ c] limit_bytes.simps [of _ c] Let_def)
  have "gop_TotalSize (hp_gop buffer_heap a) = 14" by (simp add: buffer_heap_def buffer_group_def)
  then show ?thesis using that assms buffer_group_closed(1) [of a] buffer_group_closed(2) [of _ _ _ a] by (simp add: AddGOP_def Let_def stay)
qed

lemma sample_addable: "a \<notin> set (gb_gops b) \<Longrightarrow> set (gb_gops b) \<subseteq> {1, 2} \<Longrightarrow> a \<in> {1, 2, 3} \<Longrightarrow> addable True a buffer_heap b"
  unfolding addable_def by (auto simp: buffer_heap_def buffer_group_ok) (auto simp: buffer_group_def buffer_frame_def)

lemma sample_buffer:
  obtains b where "gop_reachable True (buffer_heap, b)" "gb_gops b = [1, 2]" "gb_maxGOPs b = 2" "gb_maxBytes b = 1000"
    "gb_maxDuration b = 0" "gb_currentBytes b = 28"
proof -
  obtain b0 where n: "NewBuffer 0 ''s'' \<lparr>bc_MaxGOPs = 2, bc_MaxBytes = 1000, bc_MaxDuration = 0, bc_Codec = CodecH264\<rparr> = Ret b0"
    and b0: "gb_gops b0 = []" "gb_maxGOPs b0 = 2" "gb_maxBytes b0 = 1000" "gb_maxDuration b0 = 0" "gb_currentBytes b0 = 0"
    by (rule new_buffer)
  have r0: "gop_reachable True (buffer_heap, b0)" using n by (rule gop_reachable.New)
  obtain b1 where a1: "AddGOP (\<lambda>_ ks. ks) (\<lambda>_. []) 0 1 buffer_heap b0 = Ret b1" and b1: "gb_gops b1 = [1]" "gb_maxGOPs b1 = 2"
    "gb_maxBytes b1 = 1000" "gb_maxDuration b1 = 0" "gb_currentBytes b1 = 14" 
    by (rule add_sample [of b0 "\<lambda>_ ks. ks" "\<lambda>_. []" 0 1]) (simp_all add: b0)
  have r1: "gop_reachable True (buffer_heap, b1)" using r0 sample_addable [of 1 b0] a1 b0 by (auto intro: gop_reachable.Add)
  obtain b2 where a2: "AddGOP (\<lambda>_ ks. ks) (\<lambda>_. []) 0 2 buffer_heap b1 = Ret b2" and b2: "gb_gops b2 = gb_gops b1 @ [2]" "gb_maxGOPs b2 = 2"
    "gb_maxBytes b2 = 1000" "gb_maxDuration b2 = 0" "gb_currentBytes b2 = gb_currentBytes b1 + 14" by (rule add_sample [of b1]) (simp_all add: b1)
  have "gop_reachable True (buffer_heap, b2)" using r1 sample_addable [of 2 b1] a2 b1 by (auto intro: gop_reachable.Add)
  then show ?thesis using that b1 b2 by simp
qed

theorem gop_buffer_books_witness:
  "\<exists>b. gb_gops b = [1, 2] \<and> GetFrame 4 buffer_heap b = Some (buffer_frame 4 FrameTypeP 3) \<and> GetFrame 9 buffer_heap b = None \<and>
     GetGOP 2 b = Some 2 \<and> bs_PFrames (buffer_GetStatistics buffer_heap b) = 2 \<and> bs_TotalBytes (buffer_GetStatistics buffer_heap b) = 28"
proof -
  obtain b where b: "gop_reachable True (buffer_heap, b)" "gb_gops b = [1, 2]" by (rule sample_buffer) (rule that)
  have held: "held_frames buffer_heap b = [buffer_frame 3 FrameTypeIDR 10, buffer_frame 4 FrameTypeP 3, buffer_frame 5 FrameTypeB 1,
      buffer_frame 6 FrameTypeIDR 10, buffer_frame 7 FrameTypeP 3, buffer_frame 8 FrameTypeB 1]"
    by (simp add: held_frames_def b(2) buffer_heap_def buffer_group_def)
  have "GetGOP 2 b = Some 2" using gop_buffer_books [OF b(1), of 0 2] b(2) by (simp add: buffer_heap_def buffer_group_def)
  then show ?thesis using gop_buffer_books [OF b(1), of 4] gop_buffer_books [OF b(1), of 9] b(2)
    by (intro exI [of _ b]) (simp add: held buffer_frame_def)
qed


theorem extreme_drop_counts_twice_witness:
  "\<exists>b. gb_gops b = [1, 2] \<and> gb_droppedFrames (snd (fst (DropFramesForPressure (\<lambda>_ _. 0) 1 (buffer_heap, b)))) = gb_droppedFrames b + 6"
proof -
  obtain b where b: "gop_reachable True (buffer_heap, b)" "gb_gops b = [1, 2]" by (rule sample_buffer) (rule that)
  have "pressure_95 \<le> 1" by (simp add: pressure_95_def)
  then show ?thesis using extreme_drop_counts_twice [of 1 b "\<lambda>_ _. 0" buffer_heap] b
    by (intro exI [of _ b]) (auto simp: case_prod_unfold Let_def buffer_heap_def buffer_group_def)
qed

theorem keyframe_underflows_bytes_witness:
  "\<exists>b h. gb_gops b = [1] \<and> gb_currentBytes b = 4 \<and>
     (let (h', b') = fst (dropAllNonKeyframes (h, b)) in gb_currentBytes (removeOldestGOP h' b')) = - 10"
proof -
  obtain b where "gop_reachable True (buffer_heap, b)" "gb_gops b = [1, 2]" by (rule sample_buffer) (rule that)
  define c where "c = b\<lparr>gb_gops := [1], gb_currentBytes := 4\<rparr>"
  define h where "h = heap_update 1 (\<lambda>g. g\<lparr>gop_TotalSize := 4\<rparr>) buffer_heap"
  have g: "gop_Frames (hp_gop h 1) = [buffer_frame 3 FrameTypeIDR 10, buffer_frame 4 FrameTypeP 3, buffer_frame 5 FrameTypeB 1]"
    "gop_TotalSize (hp_gop h 1) = 4" by (simp_all add: h_def buffer_heap_def buffer_group_def)
  have k: "IsKeyframe (buffer_frame 3 FrameTypeIDR 10)" "\<not> IsKeyframe (buffer_frame 4 FrameTypeP 3)" "\<not> IsKeyframe (buffer_frame 5 FrameTypeB 1)"
    by (simp_all add: keyframe_types FrameType_IsKeyframe_def)
  have "let (h', b') = fst (dropAllNonKeyframes (h, c)) in gb_currentBytes (removeOldestGOP h' b') = - int (vf_TotalSize (buffer_frame 3 FrameTypeIDR 10))"
    by (rule keyframe_underflows_bytes [OF _ _ g(1) k(1)]) (use g k in \<open>simp_all add: c_def buffer_frame_def\<close>)
  then show ?thesis by (intro exI [of _ c] exI [of _ h]) (simp add: c_def case_prod_unfold Let_def buffer_frame_def)
qed

end
