(* ===== verification/Packet_Types.thy ===== *)
theory Packet_Types
  imports Parameter_Context
begin

unbundle bit_operations_syntax

text \<open>
  Codecs and packets: the names, kinds and clock rates of \<^verbatim>\<open>types/codec.go\<close>, and the time-stamped packets of
  \<^verbatim>\<open>types/packet.go\<close> with the fields that the frame code reads.
\<close>

section \<open>Codecs\<close>

fun CodecType_String :: "CodecType \<Rightarrow> string" where
  "CodecType_String CodecH264 = ''h264''"
| "CodecType_String CodecHEVC = ''hevc''"
| "CodecType_String CodecAV1 = ''av1''"
| "CodecType_String CodecVP8 = ''vp8''"
| "CodecType_String CodecVP9 = ''vp9''"
| "CodecType_String CodecJPEGXS = ''jpegxs''"
| "CodecType_String CodecAAC = ''aac''"
| "CodecType_String CodecOpus = ''opus''"
| "CodecType_String CodecMP3 = ''mp3''"
| "CodecType_String CodecPCM = ''pcm''"
| "CodecType_String CodecG711 = ''g711''"
| "CodecType_String CodecG722 = ''g722''"
| "CodecType_String CodecL16 = ''l16''"
| "CodecType_String CodecVorbis = ''vorbis''"
| "CodecType_String CodecSpeex = ''speex''"
| "CodecType_String CodecH261 = ''h261''"
| "CodecType_String CodecH263 = ''h263''"
| "CodecType_String CodecJPEG = ''jpeg''"
| "CodecType_String CodecMPV = ''mpv''"
| "CodecType_String CodecMP2T = ''mp2t''"
| "CodecType_String CodecUnknown = ''unknown''"

definition IsVideo :: "CodecType \<Rightarrow> bool" where
  "IsVideo c \<longleftrightarrow> c \<in> {CodecH264, CodecHEVC, CodecAV1, CodecVP8, CodecVP9, CodecJPEGXS, CodecH261, CodecH263, CodecJPEG, CodecMPV}"

definition IsAudio :: "CodecType \<Rightarrow> bool" where
  "IsAudio c \<longleftrightarrow> c \<in> {CodecAAC, CodecOpus, CodecMP3, CodecPCM, CodecG711, CodecG722, CodecL16, CodecVorbis, CodecSpeex}"

definition GetClockRate :: "CodecType \<Rightarrow> u32" where
  "GetClockRate c =
     (if c \<in> {CodecAAC, CodecOpus, CodecPCM, CodecVorbis} then 48000
      else if c \<in> {CodecG711, CodecG722} then 8000
      else if c = CodecL16 then 44100
      else if c = CodecSpeex then 16000 else 90000)"

definition GetClockRateForPayloadType :: "byte \<Rightarrow> u32" where
  "GetClockRateForPayloadType pt =
     (if pt \<in> {0, 8, 3, 4, 5, 6, 7, 9, 12, 13, 15, 18} then 8000
      else if pt \<in> {10, 11} then 44100
      else if pt = 16 then 11025
      else if pt = 17 then 22050
      else if pt \<in> {14, 25, 26, 28, 31, 32, 33, 34} then 90000 else 0)"

section \<open>Packets\<close>

record TimestampedPacket =
  tk_Data :: "byte list"
  tk_CaptureTime :: gotime
  tk_PTS :: int
  tk_DTS :: int
  tk_Flags :: u16

definition PacketFlagKeyframe :: u16 where "PacketFlagKeyframe = 1"

definition PacketFlagFrameStart :: u16 where "PacketFlagFrameStart = 2"

definition PacketFlagFrameEnd :: u16 where "PacketFlagFrameEnd = 4"

definition PacketFlagDiscardable :: u16 where "PacketFlagDiscardable = 8"

definition packet_HasFlag :: "u16 \<Rightarrow> TimestampedPacket \<Rightarrow> bool" where
  "packet_HasFlag flag p \<longleftrightarrow> tk_Flags p AND flag \<noteq> 0"

definition packet_SetFlag :: "u16 \<Rightarrow> TimestampedPacket \<Rightarrow> TimestampedPacket" where
  "packet_SetFlag flag p = p\<lparr>tk_Flags := tk_Flags p OR flag\<rparr>"

definition packet_ClearFlag :: "u16 \<Rightarrow> TimestampedPacket \<Rightarrow> TimestampedPacket" where
  "packet_ClearFlag flag p = p\<lparr>tk_Flags := tk_Flags p AND NOT flag\<rparr>"

definition packet_IsKeyframe :: "TimestampedPacket \<Rightarrow> bool" where
  "packet_IsKeyframe p \<longleftrightarrow> packet_HasFlag PacketFlagKeyframe p"

definition IsFrameStart :: "TimestampedPacket \<Rightarrow> bool" where
  "IsFrameStart p \<longleftrightarrow> packet_HasFlag PacketFlagFrameStart p"

definition IsFrameEnd :: "TimestampedPacket \<Rightarrow> bool" where
  "IsFrameEnd p \<longleftrightarrow> packet_HasFlag PacketFlagFrameEnd p"

definition packet_IsDiscardable :: "TimestampedPacket \<Rightarrow> bool" where
  "packet_IsDiscardable p \<longleftrightarrow> packet_HasFlag PacketFlagDiscardable p"

end
