(* ===== verification/Annexb.thy ===== *)
theory Annexb
  imports Depacketizer RBSP
begin

text \<open>
  Cutting a byte stream at its start codes: the scanners of the frame detectors for H.264 and HEVC
  (\<^verbatim>\<open>frame/h264_detector.go\<close>, \<^verbatim>\<open>frame/hevc_detector.go\<close>) and of the frame assembler (\<^verbatim>\<open>frame/assembler.go\<close>).  A
  scanner works on the bytes from its index on; the three differ in how many bytes a start code needs behind it and in their
  limits.  The locale \<open>start_code_test\<close> states what a test for a start code has to do.
\<close>

section \<open>Start codes\<close>

text \<open>The length of the start code at the front of the bytes, or 0.\<close>

definition h264_code :: "byte list \<Rightarrow> nat" where
  "h264_code xs =
     (if 3 \<le> length xs \<and> xs ! 0 = 0 \<and> xs ! 1 = 0
      then (if xs ! 2 = 1 then 3 else if 4 \<le> length xs \<and> xs ! 2 = 0 \<and> xs ! 3 = 1 then 4 else 0) else 0)"

definition hevc_code :: "byte list \<Rightarrow> nat" where
  "hevc_code xs =
     (if 3 < length xs \<and> xs ! 0 = 0 \<and> xs ! 1 = 0
      then (if xs ! 2 = 1 then 3 else if xs ! 2 = 0 \<and> xs ! 3 = 1 then 4 else 0) else 0)"

definition assembler_code :: "byte list \<Rightarrow> nat" where
  "assembler_code xs =
     (if 3 < length xs \<and> xs ! 0 = 0 \<and> xs ! 1 = 0
      then (if xs ! 2 = 1 then 3 else if 4 < length xs \<and> xs ! 2 = 0 \<and> xs ! 3 = 1 then 4 else 0) else 0)"

definition hasStartCode :: "byte list \<Rightarrow> bool" where
  "hasStartCode data \<longleftrightarrow>
     (if length data \<ge> 3
      then data ! 0 = 0 \<and> data ! 1 = 0 \<and> (data ! 2 = 1 \<or> length data > 3 \<and> data ! 2 = 0 \<and> data ! 3 = 1) else False)"

section \<open>The scanners\<close>

text \<open>The number of bytes up to the next start code, or to the end.\<close>

fun unit_end :: "(byte list \<Rightarrow> nat) \<Rightarrow> byte list \<Rightarrow> nat" where
  "unit_end code [] = 0"
| "unit_end code (x # xs) = (if code (x # xs) > 0 then 0 else Suc (unit_end code xs))"

datatype scan_error = ScanUnitTooLarge nat nat | ScanTooManyUnits nat nat

text \<open>The loop of both detectors: \<open>outer\<close> finds a start code, \<open>inner\<close> the one behind its unit.\<close>

function find_units ::
  "(byte list \<Rightarrow> nat) \<Rightarrow> (byte list \<Rightarrow> nat) \<Rightarrow> byte list list \<Rightarrow> byte list \<Rightarrow> scan_error + byte list list" where
  "find_units outer inner nalUnits xs =
     (if xs = [] \<or> length nalUnits \<ge> MaxNALUnitsPerFrame then Inr nalUnits
      else
        (let startCodeLen = outer xs
         in if startCodeLen > 0 then
              (let rest = drop startCodeLen xs
               in if rest = [] then Inr nalUnits
                  else
                    (let nalSize = unit_end inner rest
                     in if nalSize > MaxNALUnitSize then Inl (ScanUnitTooLarge nalSize MaxNALUnitSize)
                        else find_units outer inner (if nalSize > 0 then nalUnits @ [take nalSize rest] else nalUnits) (drop nalSize rest)))
            else find_units outer inner nalUnits (tl xs)))"
  by pat_completeness auto
termination
  by (relation "measure (\<lambda>(outer, inner, nalUnits, xs). length xs)") auto

declare find_units.simps [simp del]

definition checked_units :: "scan_error + byte list list \<Rightarrow> scan_error + byte list list" where
  "checked_units r =
     (case r of
        Inl e \<Rightarrow> Inl e
      | Inr nalUnits \<Rightarrow>
          if length nalUnits \<ge> MaxNALUnitsPerFrame then Inl (ScanTooManyUnits (length nalUnits) MaxNALUnitsPerFrame) else Inr nalUnits)"

definition h264_findNALUnits :: "byte list \<Rightarrow> scan_error + byte list list" where
  "h264_findNALUnits data = (if length data < 3 then Inr [] else checked_units (find_units h264_code h264_code [] data))"

definition hevc_findNALUnits :: "byte list \<Rightarrow> scan_error + byte list list" where
  "hevc_findNALUnits data = (if length data < 4 then Inr [] else checked_units (find_units hevc_code h264_code [] data))"

function start_code_units :: "byte list \<Rightarrow> byte list list" where
  "start_code_units xs =
     (if length xs \<le> 3 then []
      else
        (let startCodeLen = assembler_code xs
         in if startCodeLen > 0 then
              (let rest = drop startCodeLen xs; n = unit_end assembler_code rest
               in (if n > 0 then [take n rest] else []) @ start_code_units (drop n rest))
            else start_code_units (tl xs)))"
  by pat_completeness auto
termination
  by (relation "measure length") auto

declare start_code_units.simps [simp del]

definition findStartCodeUnits :: "byte list \<Rightarrow> byte list list" where
  "findStartCodeUnits data = (let units = start_code_units data in if units = [] \<and> data \<noteq> [] then [data] else units)"

section \<open>Streams of units\<close>

text \<open>A unit that can be told from its neighbours: no start code inside, no zero byte at the end.\<close>

fun has_code :: "byte list \<Rightarrow> bool" where
  "has_code (a # b # c # rest) = (a = 0 \<and> b = 0 \<and> c = 1 \<or> has_code (b # c # rest))"
| "has_code xs = False"

definition clean :: "byte list \<Rightarrow> bool" where
  "clean u \<longleftrightarrow> u \<noteq> [] \<and> \<not> has_code u \<and> last u \<noteq> 0"

text \<open>Units behind start codes of three or four bytes.\<close>

definition annexb :: "(bool \<times> byte list) list \<Rightarrow> byte list" where
  "annexb us = concat (map (\<lambda>(long, u). (if long then [0, 0, 0, 1] else [0, 0, 1]) @ u) us)"

lemma annexb_simps [simp]: "annexb [] = []" "annexb ((long, u) # us) = (if long then [0, 0, 0, 1] else [0, 0, 1]) @ u @ annexb us"
  by (simp_all add: annexb_def)

locale start_code_test =
  fixes code :: "byte list \<Rightarrow> nat"
  assumes short: "u \<noteq> [] \<Longrightarrow> code (0 # 0 # 1 # u) = 3"
    and long: "u \<noteq> [] \<Longrightarrow> code (0 # 0 # 0 # 1 # u) = 4"
    and sound: "code xs > 0 \<Longrightarrow> \<exists>u. xs = 0 # 0 # 1 # u \<or> xs = 0 # 0 # 0 # 1 # u"
begin

lemma no_code_inside:
  assumes "x # u \<noteq> []" and "\<not> has_code (x # u)" and "last (x # u) \<noteq> 0"
  shows "code (x # u @ rest) = 0"
proof (rule ccontr)
  assume "code (x # u @ rest) \<noteq> 0"
  then obtain v where v: "x # u @ rest = 0 # 0 # 1 # v \<or> x # u @ rest = 0 # 0 # 0 # 1 # v" using sound by blast
  then have "x = 0" by auto
  then obtain y u1 where 1: "u = y # u1" using assms(3) by (cases u) auto
  then have "y = 0" using v by auto
  then obtain z u2 where 2: "u1 = z # u2" using assms(3) 1 by (cases u1) auto
  show False
  proof (cases "z = 1")
    case True
    then show ?thesis using assms(2) 1 2 \<open>x = 0\<close> \<open>y = 0\<close> by simp
  next
    case False
    then have "z = 0" using v 1 2 by auto
    then obtain w u3 where 3: "u2 = w # u3" using assms(3) 1 2 by (cases u2) auto
    then have "w = 1" using v 1 2 False by auto
    then show ?thesis using assms(2) 1 2 3 \<open>y = 0\<close> \<open>z = 0\<close> by simp
  qed
qed

lemma unit_end_clean:
  assumes "clean u" and "rest = [] \<or> code rest > 0"
  shows "unit_end code (u @ rest) = length u"
proof -
  have zero: "unit_end code rest = 0" using assms(2) by (cases rest) auto
  have "\<not> has_code u \<Longrightarrow> u = [] \<or> last u \<noteq> 0 \<Longrightarrow> unit_end code (u @ rest) = length u"
  proof (induction u)
    case (Cons x u)
    have "\<not> has_code u" using Cons.prems(1) by (cases "(x # u)" rule: has_code.cases) auto
    then show ?case using Cons no_code_inside [of x u rest] by (cases u) auto
  qed (simp add: zero)
  then show ?thesis using assms(1) by (simp add: clean_def)
qed

lemma code_annexb:
  assumes "u \<noteq> []"
  shows "code (annexb ((long, u) # us)) = (if long then 4 else 3)" "drop (code (annexb ((long, u) # us))) (annexb ((long, u) # us)) = u @ annexb us"
  using assms short long by simp_all

lemma unit_end_annexb:
  assumes "clean u" and "list_all (\<lambda>(long, u). clean u) us"
  shows "unit_end code (u @ annexb us) = length u"
proof (cases us)
  case Nil
  then show ?thesis using unit_end_clean [OF assms(1), of "[]"] by simp
next
  case (Cons p ps)
  obtain l w where p: "p = (l, w)" by (cases p)
  have "w \<noteq> []" using assms(2) Cons p by (simp add: clean_def)
  then have "code (annexb us) > 0" using code_annexb(1) [of w l ps] Cons p by simp
  then show ?thesis using unit_end_clean [OF assms(1)] by simp
qed

end

text \<open>A scanner with two such tests cuts the stream into its units.\<close>

locale unit_scanner = outer: start_code_test outer + inner: start_code_test inner
  for outer :: "byte list \<Rightarrow> nat" and inner :: "byte list \<Rightarrow> nat"
begin

lemma find_units_annexb:
  assumes "list_all (\<lambda>(long, u). clean u \<and> length u \<le> MaxNALUnitSize) us" and "length found + length us \<le> MaxNALUnitsPerFrame"
  shows "find_units outer inner found (annexb us) = Inr (found @ map snd us)"
  using assms
proof (induction us arbitrary: found)
  case (Cons p us)
  obtain long u where p: "p = (long, u)" by (cases p)
  have u: "clean u" "u \<noteq> []" "length u \<le> MaxNALUnitSize" using Cons.prems(1) by (auto simp: p clean_def)
  let ?xs = "annexb ((long, u) # us)"
  have rest: "drop (outer ?xs) ?xs = u @ annexb us" and pos: "outer ?xs > 0" using outer.code_annexb [OF u(2)] by (simp_all only: split: if_splits) simp_all
  have clean: "list_all (\<lambda>(long, u). clean u) us" using Cons.prems(1) by (auto simp: list_all_iff)
  have size: "unit_end inner (u @ annexb us) = length u" using inner.unit_end_annexb [OF u(1) clean] .
  have "?xs \<noteq> []" "length found < MaxNALUnitsPerFrame" using Cons.prems(2) by simp_all
  then have "find_units outer inner found ?xs = find_units outer inner (found @ [u]) (annexb us)"
    using pos u by (subst find_units.simps) (simp only: Let_def rest size, simp)
  then show ?case using Cons by (simp add: p)
qed (simp add: find_units.simps)

end

interpretation h264_scan: start_code_test h264_code
proof (unfold_locales, goal_cases)
  case (3 xs)
  then show ?case by (cases xs; cases "tl xs"; cases "tl (tl xs)"; cases "tl (tl (tl xs))") (auto simp: h264_code_def split: if_splits)
qed (auto simp: h264_code_def Suc_le_eq)

interpretation hevc_scan: start_code_test hevc_code
proof (unfold_locales, goal_cases)
  case (3 xs)
  then show ?case by (cases xs; cases "tl xs"; cases "tl (tl xs)"; cases "tl (tl (tl xs))") (auto simp: hevc_code_def split: if_splits)
qed (auto simp: hevc_code_def Suc_le_eq)

interpretation assembler_scan: start_code_test assembler_code
proof (unfold_locales, goal_cases)
  case (3 xs)
  then show ?case by (cases xs; cases "tl xs"; cases "tl (tl xs)"; cases "tl (tl (tl xs))") (auto simp: assembler_code_def split: if_splits)
qed (auto simp: assembler_code_def Suc_le_eq)


interpretation h264_units: unit_scanner h264_code h264_code
  by unfold_locales

interpretation hevc_units: unit_scanner hevc_code h264_code
  by unfold_locales

lemma annexb_length: "us \<noteq> [] \<Longrightarrow> list_all (\<lambda>(long, u). clean u) us \<Longrightarrow> 4 \<le> length (annexb us)"
  by (cases us) (auto simp: clean_def Suc_le_eq)

lemma start_code_units_annexb: "list_all (\<lambda>(long, u). clean u) us \<Longrightarrow> start_code_units (annexb us) = map snd us"
proof (induction us)
  case (Cons p us)
  obtain long u where p: "p = (long, u)" by (cases p)
  have u: "clean u" "u \<noteq> []" using Cons.prems by (auto simp: p clean_def)
  let ?xs = "annexb ((long, u) # us)"
  have rest: "drop (assembler_code ?xs) ?xs = u @ annexb us" and pos: "assembler_code ?xs > 0"
    using assembler_scan.code_annexb [OF u(2)] by (simp_all only: split: if_splits) simp_all
  have "3 < length ?xs" using annexb_length [of "p # us"] Cons.prems by (simp add: p)
  then have "start_code_units ?xs = u # start_code_units (annexb us)"
    using pos u assembler_scan.unit_end_annexb [OF u(1), of us] Cons.prems
    by (subst start_code_units.simps) (simp only: Let_def rest, simp)
  then show ?case using Cons by (simp add: p)
qed (simp add: start_code_units.simps)

text \<open>C13: The two detectors and the assembler cut a stream of units, each behind a start code of either length, into exactly
  those units, if no unit contains a start code or ends in a zero byte, and the limits on their size and number are kept.\<close>

theorem annexb_split_roundtrip:
  assumes "us \<noteq> []" and "list_all (\<lambda>(long, u). clean u \<and> length u \<le> MaxNALUnitSize) us" and "length us < MaxNALUnitsPerFrame"
  shows "h264_findNALUnits (annexb us) = Inr (map snd us) \<and> hevc_findNALUnits (annexb us) = Inr (map snd us) \<and>
    findStartCodeUnits (annexb us) = map snd us"
proof -
  have clean: "list_all (\<lambda>(long, u). clean u) us" using assms(2) by (auto simp: list_all_iff)
  have "4 \<le> length (annexb us)" using annexb_length [OF assms(1) clean] .
  then show ?thesis
    using h264_units.find_units_annexb [OF assms(2), of "[]"] hevc_units.find_units_annexb [OF assms(2), of "[]"]
      start_code_units_annexb [OF clean] assms(1,3)
    by (simp add: h264_findNALUnits_def hevc_findNALUnits_def checked_units_def findStartCodeUnits_def Let_def)
qed

theorem annexb_split_roundtrip_witness:
  "h264_findNALUnits [0, 0, 0, 1, 0x67, 66, 0, 40, 0, 0, 1, 0x68, 206] = Inr [[0x67, 66, 0, 40], [0x68, 206]] \<and>
   findStartCodeUnits [0, 0, 0, 1, 0x67, 66, 0, 40, 0, 0, 1, 0x68, 206] = [[0x67, 66, 0, 40], [0x68, 206]]"
  using annexb_split_roundtrip [of "[(True, [0x67, 66, 0, 40]), (False, [0x68, 206])]"]
  by (simp add: clean_def MaxNALUnitSize_def MaxNALUnitsPerFrame_def)

section \<open>Escaped payloads\<close>

text \<open>A unit whose payload went through emulation prevention is clean unless it ends in a zero byte.\<close>

lemma has_code_start_code: "has_code xs \<Longrightarrow> has_start_code xs"
  by (induction xs rule: has_code.induct) auto

lemma escaped_clean:
  assumes "header \<noteq> 0" and "AddEmulationPreventionBytes payload = data" and "data \<noteq> []" and "last data \<noteq> 0"
  shows "clean (header # data)"
proof -
  have "\<not> has_start_code data" using add_epb_no_start_code [of 0 payload] assms(2,3) by (simp add: AddEmulationPreventionBytes_def split: if_splits)
  then have "\<not> has_start_code (header # data)" using assms(1) by (simp add: start_code_nonzero1)
  then show ?thesis using has_code_start_code assms(3,4) by (auto simp: clean_def)
qed

text \<open>A zero byte at the end of a unit is lost: it is read as part of the next start code.\<close>

theorem trailing_zero_lost:
  assumes "clean u" and "clean v" and "length u \<le> MaxNALUnitSize" and "length v \<le> MaxNALUnitSize"
  shows "h264_findNALUnits (annexb [(False, u @ [0]), (False, v)]) = Inr [u, v]"
proof -
  have "annexb [(False, u @ [0]), (False, v)] = annexb [(False, u), (True, v)]" by simp
  then show ?thesis using h264_units.find_units_annexb [of "[(False, u), (True, v)]" "[]"] assms
      annexb_length [of "[(False, u), (True, v)]"]
    by (simp add: h264_findNALUnits_def checked_units_def MaxNALUnitsPerFrame_def)
qed

theorem trailing_zero_lost_witness: "h264_findNALUnits [0, 0, 1, 0x41, 5, 0, 0, 0, 1, 0x41, 7] = Inr [[0x41, 5], [0x41, 7]]"
  using trailing_zero_lost [of "[0x41, 5]" "[0x41, 7]"] by (simp add: clean_def MaxNALUnitSize_def)

end
