(* ===== verification/H264_Frame_Detector.thy ===== *)
theory H264_Frame_Detector
  imports Packet_Types Annexb Bit_Syntax Media_Types
begin

unbundle bit_operations_syntax

text \<open>
  The H.264 frame detector, \<^verbatim>\<open>frame/h264_detector.go\<close>: whether a packet starts or ends a frame, by the types of this unit and the
  last, and the type of a frame by its slice headers.  The fields \<^verbatim>\<open>inAccessUnit\<close> and \<^verbatim>\<open>nalBuffer\<close> are never used.
\<close>

section \<open>The detector\<close>

record H264Detector =
  hd_lastNALType :: byte
  hd_frameStarted :: bool

definition NewH264Detector :: H264Detector where
  "NewH264Detector = \<lparr>hd_lastNALType = 0, hd_frameStarted = False\<rparr>"

definition H264NALTypeIDR :: byte where "H264NALTypeIDR = 5"

definition H264NALTypeSEI :: byte where "H264NALTypeSEI = 6"

definition H264NALTypeSPS :: byte where "H264NALTypeSPS = 7"

definition H264NALTypePPS :: byte where "H264NALTypePPS = 8"

definition H264NALTypeAUD :: byte where "H264NALTypeAUD = 9"

definition H264NALTypeFUA :: byte where "H264NALTypeFUA = 28"

lemmas h264_types = H264NALTypeIDR_def H264NALTypeSEI_def H264NALTypeSPS_def H264NALTypePPS_def H264NALTypeAUD_def H264NALTypeFUA_def

definition h264_isVCLNAL :: "byte \<Rightarrow> bool" where
  "h264_isVCLNAL nalType \<longleftrightarrow> nalType \<ge> 1 \<and> nalType \<le> 5"

text \<open>The rules for a unit of type \<open>nalType\<close>: whether it starts and ends a frame, and the state without the last type.\<close>

definition h264_rules :: "byte \<Rightarrow> H264Detector \<Rightarrow> H264Detector \<times> bool \<times> bool" where
  "h264_rules nalType d =
     (let (d, isStart) = (if nalType \<in> {H264NALTypeAUD, H264NALTypeSPS, H264NALTypePPS, H264NALTypeIDR}
                          then (d\<lparr>hd_frameStarted := True\<rparr>, True) else (d, False));
          (d, isStart) = (if h264_isVCLNAL nalType \<and> \<not> h264_isVCLNAL (hd_lastNALType d) \<and> hd_lastNALType d \<noteq> 0
                          then (d\<lparr>hd_frameStarted := True\<rparr>, True) else (d, isStart))
      in if hd_frameStarted d \<and> h264_isVCLNAL (hd_lastNALType d) \<and>
            nalType \<in> {H264NALTypeSEI, H264NALTypeAUD, H264NALTypeSPS, H264NALTypePPS}
         then (d\<lparr>hd_frameStarted := True\<rparr>, True, True) else (d, isStart, False))"

definition h264_handleFUA :: "byte list \<Rightarrow> H264Detector \<Rightarrow> H264Detector \<times> bool \<times> bool" where
  "h264_handleFUA data d =
     (if length data < 2 then (d, False, False)
      else
        (let fuHeader = data ! 1; startBit = fuHeader AND 0x80 \<noteq> 0; endBit = fuHeader AND 0x40 \<noteq> 0;
             nalType = fuHeader AND 0x1F; rBit = fuHeader AND 0x20 \<noteq> 0
         in if rBit then (d, False, False)
            else
              (let (d, isStart, isEnd) = (if startBit then h264_rules nalType d else (d, False, False))
               in (if endBit \<or> startBit then d\<lparr>hd_lastNALType := nalType\<rparr> else d, isStart, isEnd))))"

text \<open>One unit of a packet with start codes; \<open>nalUnits\<close> are all the units of the packet.\<close>

definition h264_startcode_step :: "byte list list \<Rightarrow> byte list \<Rightarrow> H264Detector \<times> bool \<times> bool \<Rightarrow> H264Detector \<times> bool \<times> bool" where
  "h264_startcode_step nalUnits nalUnit s =
     (if nalUnit = [] then s
      else
        (let (d, isStart, isEnd) = s; nalType = nalUnit ! 0 AND 0x1F;
             (d, isStart) = (if nalType \<in> {H264NALTypeAUD, H264NALTypeIDR, H264NALTypeSPS, H264NALTypePPS}
                             then (d\<lparr>hd_frameStarted := True\<rparr>, True) else (d, isStart));
             (d, isEnd) = (if hd_frameStarted d
                           then (if nalType = H264NALTypeAUD then (d\<lparr>hd_frameStarted := False\<rparr>, True)
                                 else if nalType \<in> {H264NALTypeSPS, H264NALTypePPS, H264NALTypeIDR, 1} \<and> isStart then (d, True)
                                 else (d, isEnd))
                           else (d, isEnd));
             hasVCLNAL = list_ex (\<lambda>u. u \<noteq> [] \<and> h264_isVCLNAL (u ! 0 AND 0x1F)) nalUnits
         in (d, isStart, isEnd \<or> isStart \<and> hasVCLNAL)))"

definition h264_detectWithStartCode :: "byte list \<Rightarrow> H264Detector \<Rightarrow> H264Detector \<times> bool \<times> bool" where
  "h264_detectWithStartCode data d =
     (case h264_findNALUnits data of
        Inl _ \<Rightarrow> (d, False, False)
      | Inr nalUnits \<Rightarrow> fold (h264_startcode_step nalUnits) nalUnits (d, False, False))"

definition h264_DetectBoundaries :: "TimestampedPacket \<Rightarrow> H264Detector \<Rightarrow> H264Detector \<times> bool \<times> bool" where
  "h264_DetectBoundaries pkt d =
     (let data = tk_Data pkt
      in if data = [] then (d, False, False)
         else if hasStartCode data then h264_detectWithStartCode data d
         else
           (let nalType = data ! 0 AND 0x1F
            in if nalType = H264NALTypeFUA then h264_handleFUA data d
               else (let (d, isStart, isEnd) = h264_rules nalType d in (d\<lparr>hd_lastNALType := nalType\<rparr>, isStart, isEnd))))"

section \<open>Frame types\<close>

definition parseSliceTypeFromNAL :: "byte list \<Rightarrow> int" where
  "parseSliceTypeFromNAL nalData =
     (if length nalData < 2 then - 1
      else
        (let payload = drop 1 nalData;
             rbsp = (case RemoveEmulationPreventionBytes payload of Inl _ \<Rightarrow> payload | Inr r \<Rightarrow> if r = [] then payload else r);
             br = NewBitReader rbsp
         in case tb_ReadUE br of
              (_, Inl _) \<Rightarrow> - 1
            | (br, Inr _) \<Rightarrow>
                (case tb_ReadUE br of (_, Inl _) \<Rightarrow> - 1 | (_, Inr sliceType) \<Rightarrow> if sliceType > 9 then - 1 else uint sliceType)))"

record h264_scan =
  hs_hasIDR :: bool
  hs_hasValidIDRSlice :: bool
  hs_hasSPS :: bool
  hs_hasPPS :: bool
  hs_sliceType :: int

definition h264_scan_unit :: "NALUnit \<Rightarrow> h264_scan \<Rightarrow> h264_scan" where
  "h264_scan_unit nal s =
     (let data = nu_Data nal
      in if data = [] then s
         else
           (let nalType = data ! 0 AND 0x1F
            in if nalType = H264NALTypeIDR then
                 (let s = s\<lparr>hs_hasIDR := True\<rparr>
                  in if length data > 1
                     then (let parsed = parseSliceTypeFromNAL data;
                               s = (if parsed = 2 \<or> parsed = 7 then s\<lparr>hs_hasValidIDRSlice := True\<rparr> else s)
                           in if hs_sliceType s = - 1 then s\<lparr>hs_sliceType := parsed\<rparr> else s)
                     else if hs_sliceType s = - 1 then s\<lparr>hs_sliceType := 2\<rparr> else s)
               else if nalType = H264NALTypeSPS then s\<lparr>hs_hasSPS := True\<rparr>
               else if nalType = H264NALTypePPS then s\<lparr>hs_hasPPS := True\<rparr>
               else if h264_isVCLNAL nalType \<and> hs_sliceType s = - 1 \<and> length data > 1
               then s\<lparr>hs_sliceType := parseSliceTypeFromNAL data\<rparr>
               else s))"

definition slice_frame_type :: "int \<Rightarrow> FrameType" where
  "slice_frame_type sliceType =
     (if sliceType \<in> {0, 5} then FrameTypeP
      else if sliceType \<in> {1, 6} then FrameTypeB
      else if sliceType \<in> {2, 7} then FrameTypeI
      else if sliceType \<in> {3, 8} then FrameTypeP
      else if sliceType \<in> {4, 9} then FrameTypeI else FrameTypeP)"

definition h264_GetFrameType :: "NALUnit list \<Rightarrow> FrameType" where
  "h264_GetFrameType nalUnits =
     (let s = fold h264_scan_unit nalUnits
                \<lparr>hs_hasIDR = False, hs_hasValidIDRSlice = False, hs_hasSPS = False, hs_hasPPS = False, hs_sliceType = - 1\<rparr>
      in if hs_hasValidIDRSlice s then FrameTypeIDR
         else if hs_hasIDR s \<and> hs_sliceType s < 0 then FrameTypeI
         else if hs_sliceType s < 0 \<and> hs_hasSPS s then FrameTypeSPS
         else if hs_sliceType s < 0 \<and> hs_hasPPS s then FrameTypePPS
         else slice_frame_type (hs_sliceType s))"

definition h264_IsKeyframe :: "byte list \<Rightarrow> bool" where
  "h264_IsKeyframe data \<longleftrightarrow>
     (if length data > 0 \<and> data ! 0 AND 0x1F = H264NALTypeIDR then True
      else case h264_findNALUnits data of
          Inl _ \<Rightarrow> False
        | Inr nalUnits \<Rightarrow> list_ex (\<lambda>u. u \<noteq> [] \<and> u ! 0 AND 0x1F = H264NALTypeIDR) nalUnits)"

end
