(* ===== verification/HEVC_Frame_Detector.thy ===== *)
theory HEVC_Frame_Detector
  imports Packet_Types Annexb Media_Types
begin

unbundle bit_operations_syntax

text \<open>
  The frame detectors for HEVC and JPEG-XS, \<^verbatim>\<open>frame/hevc_detector.go\<close> and \<^verbatim>\<open>frame/jpegxs_detector.go\<close>.
\<close>

section \<open>HEVC\<close>

record HEVCDetector =
  vd_lastNALType :: byte
  vd_frameStarted :: bool

definition NewHEVCDetector :: HEVCDetector where
  "NewHEVCDetector = \<lparr>vd_lastNALType = 0, vd_frameStarted = False\<rparr>"

definition HEVCNALTypeVPS :: byte where "HEVCNALTypeVPS = 32"

definition HEVCNALTypeSPS :: byte where "HEVCNALTypeSPS = 33"

definition HEVCNALTypePPS :: byte where "HEVCNALTypePPS = 34"

definition HEVCNALTypeAUD :: byte where "HEVCNALTypeAUD = 35"

definition HEVCNALTypeFU :: byte where "HEVCNALTypeFU = 49"

lemmas hevc_types = HEVCNALTypeVPS_def HEVCNALTypeSPS_def HEVCNALTypePPS_def HEVCNALTypeAUD_def HEVCNALTypeFU_def

definition hevc_type :: "byte \<Rightarrow> byte" where
  "hevc_type b = drop_bit 1 b AND 0x3F"

definition hevc_isVCLNAL :: "byte \<Rightarrow> bool" where
  "hevc_isVCLNAL nalType \<longleftrightarrow> nalType \<le> 31"

definition isIRAPNAL :: "byte \<Rightarrow> bool" where
  "isIRAPNAL nalType \<longleftrightarrow> nalType \<ge> 16 \<and> nalType \<le> 23"

definition hevc_handleFU :: "byte list \<Rightarrow> HEVCDetector \<Rightarrow> HEVCDetector \<times> bool \<times> bool" where
  "hevc_handleFU data d =
     (if length data < 3 then (d, False, False)
      else
        (let fuHeader = data ! 2; startBit = fuHeader AND 0x80 \<noteq> 0; endBit = fuHeader AND 0x40 \<noteq> 0; nalType = fuHeader AND 0x3F;
             (d, isStart, isEnd) =
               (if startBit
                then
                  (let (d, isStart) = (if isIRAPNAL nalType \<or> nalType = HEVCNALTypeAUD \<or> hevc_isVCLNAL nalType
                                       then (d\<lparr>vd_frameStarted := True\<rparr>, True) else (d, False))
                   in if vd_frameStarted d \<and> hevc_isVCLNAL (vd_lastNALType d) \<and>
                         nalType \<in> {HEVCNALTypeAUD, HEVCNALTypeVPS, HEVCNALTypeSPS, HEVCNALTypePPS}
                      then (d\<lparr>vd_frameStarted := True\<rparr>, True, True) else (d, isStart, False))
                else (d, False, False))
         in (if endBit \<or> startBit then d\<lparr>vd_lastNALType := nalType\<rparr> else d, isStart, isEnd)))"

definition hevc_startcode_step :: "byte list \<Rightarrow> HEVCDetector \<times> bool \<times> bool \<Rightarrow> HEVCDetector \<times> bool \<times> bool" where
  "hevc_startcode_step nalUnit s =
     (if length nalUnit < 2 then s
      else
        (let (d, isStart, isEnd) = s; nalType = hevc_type (nalUnit ! 0);
             (d, isEnd) = (if vd_frameStarted d \<and> \<not> hevc_isVCLNAL nalType \<and>
                              nalType \<in> {HEVCNALTypeAUD, HEVCNALTypeVPS, HEVCNALTypeSPS, HEVCNALTypePPS}
                           then (d\<lparr>vd_frameStarted := False\<rparr>, True) else (d, isEnd));
             isStart = (if nalType = HEVCNALTypeAUD \<or> isIRAPNAL nalType \<or> nalType \<in> {HEVCNALTypeVPS, HEVCNALTypeSPS, HEVCNALTypePPS}
                        then True else isStart);
             d = (if hevc_isVCLNAL nalType then d\<lparr>vd_frameStarted := True\<rparr> else d)
         in (d\<lparr>vd_lastNALType := nalType\<rparr>, isStart, isEnd)))"

definition hevc_detectWithStartCode :: "byte list \<Rightarrow> HEVCDetector \<Rightarrow> HEVCDetector \<times> bool \<times> bool" where
  "hevc_detectWithStartCode data d =
     (case hevc_findNALUnits data of
        Inl _ \<Rightarrow> (d, False, False)
      | Inr nalUnits \<Rightarrow> fold hevc_startcode_step nalUnits (d, False, False))"

definition hevc_DetectBoundaries :: "TimestampedPacket \<Rightarrow> HEVCDetector \<Rightarrow> HEVCDetector \<times> bool \<times> bool" where
  "hevc_DetectBoundaries pkt d =
     (let data = tk_Data pkt
      in if length data < 2 then (d, False, False)
         else if hasStartCode data then hevc_detectWithStartCode data d
         else
           (let nalType = hevc_type (data ! 0)
            in if nalType = HEVCNALTypeFU then hevc_handleFU data d
               else
                 (let (d, isStart) = (if nalType = HEVCNALTypeAUD \<or> isIRAPNAL nalType \<or>
                                         nalType \<in> {HEVCNALTypeVPS, HEVCNALTypeSPS, HEVCNALTypePPS}
                                      then (d\<lparr>vd_frameStarted := True\<rparr>, True) else (d, False));
                      (d, isStart) = (if hevc_isVCLNAL nalType \<and> \<not> hevc_isVCLNAL (vd_lastNALType d) \<and> vd_lastNALType d \<noteq> 0
                                      then (d\<lparr>vd_frameStarted := True\<rparr>, True) else (d, isStart));
                      (d, isEnd) = (if vd_frameStarted d \<and> hevc_isVCLNAL (vd_lastNALType d) \<and> \<not> hevc_isVCLNAL nalType
                                    then (d\<lparr>vd_frameStarted := False\<rparr>, True) else (d, False))
                  in (d\<lparr>vd_lastNALType := nalType\<rparr>, isStart, isEnd))))"

record hevc_scan =
  hv_hasIRAP :: bool
  hv_hasSPS :: bool
  hv_hasPPS :: bool
  hv_isReference :: bool
  hv_irapFrameType :: FrameType

definition hevc_scan_unit :: "NALUnit \<Rightarrow> hevc_scan \<Rightarrow> hevc_scan" where
  "hevc_scan_unit nal s =
     (if length (nu_Data nal) < 2 then s
      else
        (let nalType = hevc_type (nu_Data nal ! 0);
             s = (if isIRAPNAL nalType
                  then s\<lparr>hv_hasIRAP := True,
                         hv_irapFrameType := (if nalType \<ge> 16 \<and> nalType \<le> 18 then FrameTypeBLA
                                              else if nalType \<ge> 19 \<and> nalType \<le> 20 then FrameTypeIDR
                                              else if nalType = 21 then FrameTypeCRA else hv_irapFrameType s)\<rparr>
                  else s)
         in if nalType = HEVCNALTypeSPS then s\<lparr>hv_hasSPS := True\<rparr>
            else if nalType = HEVCNALTypePPS then s\<lparr>hv_hasPPS := True\<rparr>
            else if nalType \<in> {1, 3, 5, 7, 9} then s\<lparr>hv_isReference := True\<rparr> else s))"

definition hevc_GetFrameType :: "NALUnit list \<Rightarrow> FrameType" where
  "hevc_GetFrameType nalUnits =
     (let s = fold hevc_scan_unit nalUnits
                \<lparr>hv_hasIRAP = False, hv_hasSPS = False, hv_hasPPS = False, hv_isReference = False, hv_irapFrameType = FrameTypeIDR\<rparr>
      in if hv_hasIRAP s then hv_irapFrameType s
         else if hv_hasSPS s then FrameTypeSPS
         else if hv_hasPPS s then FrameTypePPS
         else if hv_isReference s then FrameTypeP else FrameTypeB)"

definition hevc_IsKeyframe :: "byte list \<Rightarrow> bool" where
  "hevc_IsKeyframe data \<longleftrightarrow>
     (if length data \<ge> 2 \<and> isIRAPNAL (hevc_type (data ! 0)) then True
      else case hevc_findNALUnits data of
          Inl _ \<Rightarrow> False
        | Inr nalUnits \<Rightarrow> list_ex (\<lambda>u. length u \<ge> 2 \<and> isIRAPNAL (hevc_type (u ! 0))) nalUnits)"

section \<open>JPEG-XS\<close>

record JPEGXSDetector =
  xd_inFrame :: bool
  xd_frameStarted :: bool
  xd_lastMarker :: u16

definition NewJPEGXSDetector :: JPEGXSDetector where
  "NewJPEGXSDetector = \<lparr>xd_inFrame = False, xd_frameStarted = False, xd_lastMarker = 0\<rparr>"

definition JPEGXSMarkerSOI :: u16 where "JPEGXSMarkerSOI = 0xFF10"

definition JPEGXSMarkerEOI :: u16 where "JPEGXSMarkerEOI = 0xFF11"

definition JPEGXSMarkerPIH :: u16 where "JPEGXSMarkerPIH = 0xFF15"

text \<open>The markers from the current index on; the segment behind a marker is skipped by its length field.\<close>

function findMarkers :: "byte list \<Rightarrow> u16 list" where
  "findMarkers data =
     (if length data \<le> 1 then []
      else if data ! 0 = 0xFF \<and> data ! 1 \<ge> 0x10 \<and> data ! 1 \<le> 0x1F
      then
        (let markerByte = data ! 1; marker = 0xFF00 OR ucast markerByte
         in if 3 < length data \<and> markerByte \<noteq> 0x10 \<and> markerByte \<noteq> 0x11
            then (let n = push_bit 8 (ucast (data ! 2)) OR ucast (data ! 3) :: u16 in marker # findMarkers (drop (unat n + 2) data))
            else marker # findMarkers (drop 2 data))
      else findMarkers (drop 1 data))"
  by pat_completeness auto
termination
  by (relation "measure length") auto

declare findMarkers.simps [simp del]

definition jpegxs_marker_step :: "u16 \<Rightarrow> JPEGXSDetector \<times> bool \<times> bool \<Rightarrow> JPEGXSDetector \<times> bool \<times> bool" where
  "jpegxs_marker_step marker s =
     (let (d, isStart, isEnd) = s;
          (d, isStart, isEnd) =
            (if marker = JPEGXSMarkerSOI then (d\<lparr>xd_inFrame := True, xd_frameStarted := True\<rparr>, True, if xd_inFrame d then True else isEnd)
             else if marker = JPEGXSMarkerEOI
             then (if xd_inFrame d then (d\<lparr>xd_inFrame := False, xd_frameStarted := False\<rparr>, isStart, True) else (d, isStart, isEnd))
             else if marker = JPEGXSMarkerPIH
             then (if \<not> xd_inFrame d then (d\<lparr>xd_inFrame := True, xd_frameStarted := True\<rparr>, True, isEnd) else (d, isStart, isEnd))
             else (d, isStart, isEnd))
      in (d\<lparr>xd_lastMarker := marker\<rparr>, isStart, isEnd))"

definition jpegxs_DetectBoundaries :: "TimestampedPacket \<Rightarrow> JPEGXSDetector \<Rightarrow> JPEGXSDetector \<times> bool \<times> bool" where
  "jpegxs_DetectBoundaries pkt d =
     (if length (tk_Data pkt) < 2 then (d, False, False)
      else
        (let (d, isStart, isEnd) = fold jpegxs_marker_step (findMarkers (tk_Data pkt)) (d, False, False)
         in if packet_HasFlag PacketFlagFrameEnd pkt \<and> xd_inFrame d
            then (d\<lparr>xd_inFrame := False, xd_frameStarted := False\<rparr>, isStart, True) else (d, isStart, isEnd)))"

definition jpegxs_GetFrameType :: "NALUnit list \<Rightarrow> FrameType" where
  "jpegxs_GetFrameType nalUnits = FrameTypeI"

definition jpegxs_IsKeyframe :: "byte list \<Rightarrow> bool" where
  "jpegxs_IsKeyframe data \<longleftrightarrow>
     (let markers = findMarkers data in list_ex (\<lambda>m. m = JPEGXSMarkerSOI \<or> m = JPEGXSMarkerPIH) markers \<or> length markers > 0)"

text \<open>The picture header at the first index whose bytes are its marker and which has ten more bytes behind it.\<close>

fun parseJPEGXSHeader :: "byte list \<Rightarrow> nat \<times> nat \<times> string" where
  "parseJPEGXSHeader [] = (0, 0, [])"
| "parseJPEGXSHeader (b # rest) =
     (let data = b # rest
      in if length data \<le> 10 then (0, 0, [])
         else if data ! 0 = 0xFF \<and> data ! 1 = 0x15
         then (unat (data ! 6) * 256 + unat (data ! 7), unat (data ! 8) * 256 + unat (data ! 9),
               if data ! 5 = 0 then ''Light'' else if data ! 5 = 0x10 then ''Main'' else if data ! 5 = 0x20 then ''High'' else ''Unknown'')
         else parseJPEGXSHeader rest)"

end
