(* ===== verification/AV1_Frame_Detector.thy ===== *)
theory AV1_Frame_Detector
  imports Packet_Types Depacketizer LEB128 Media_Types
begin

unbundle bit_operations_syntax

text \<open>
  The AV1 frame detector, \<^verbatim>\<open>frame/av1_detector.go\<close>: parsing of a packet into open bitstream units, frame boundaries and types.
\<close>

section \<open>Open bitstream units\<close>

record OBU =
  ob_Type :: byte
  ob_Size :: nat
  ob_Data :: "byte list"
  ob_HasSize :: bool

definition MaxOBUsPerFrame :: nat where
  "MaxOBUsPerFrame = 500"

definition AV1OBUTypeSequenceHeader :: byte where "AV1OBUTypeSequenceHeader = 1"

definition AV1OBUTypeTemporalDelimiter :: byte where "AV1OBUTypeTemporalDelimiter = 2"

definition AV1OBUTypeFrameHeader :: byte where "AV1OBUTypeFrameHeader = 3"

definition AV1OBUTypeTileGroup :: byte where "AV1OBUTypeTileGroup = 4"

definition AV1OBUTypeFrame :: byte where "AV1OBUTypeFrame = 6"

definition AV1OBUTypePadding :: byte where "AV1OBUTypePadding = 15"

datatype obu_error = OBUForbiddenBit | OBUBadSize leb_error | OBUTooLarge nat nat | OBUTooMany nat nat

text \<open>The outcome of reading a size field: an error, the end of the loop, or the size and the rest of the data.\<close>

definition obu_size :: "bool \<Rightarrow> byte list \<Rightarrow> obu_error + (nat \<times> byte list) option" where
  "obu_size hasSize data =
     (if hasSize then
        (if data = [] then Inr None
         else case ReadLEB128 data of
             (_, _, Some e) \<Rightarrow> Inl (OBUBadSize e)
           | (n, bytesRead, None) \<Rightarrow>
               if bytesRead = 0 then Inr None
               else if unat n > MaxNALUnitSize then Inl (OBUTooLarge (unat n) MaxNALUnitSize)
               else Inr (Some (unat n, drop bytesRead data)))
      else if length data > MaxNALUnitSize then Inl (OBUTooLarge (length data) MaxNALUnitSize)
      else Inr (Some (length data, data)))"

lemma obu_size_shorter: "obu_size hasSize data = Inr (Some (n, rest)) \<Longrightarrow> length rest \<le> length data"
  by (auto simp: obu_size_def split: if_splits option.splits prod.splits)

function parse_obus :: "OBU list \<Rightarrow> byte list \<Rightarrow> obu_error + OBU list" where
  "parse_obus obus data =
     (if data = [] \<or> length obus \<ge> MaxOBUsPerFrame then Inr obus
      else
        (let header = data ! 0; data = drop 1 data
         in if header AND 0x80 \<noteq> 0 then Inl OBUForbiddenBit
            else if header AND 0x04 \<noteq> 0 \<and> data = [] then Inr obus
            else
              (let data = (if header AND 0x04 \<noteq> 0 then drop 1 data else data); hasSize = header AND 0x02 \<noteq> 0
               in case obu_size hasSize data of
                    Inl e \<Rightarrow> Inl e
                  | Inr None \<Rightarrow> Inr obus
                  | Inr (Some (n, data)) \<Rightarrow>
                      if n > length data then Inr obus
                      else
                        (let obu = \<lparr>ob_Type = drop_bit 3 header AND 0x0F, ob_Size = n, ob_Data = take n data, ob_HasSize = hasSize\<rparr>
                         in if ob_Type obu = AV1OBUTypePadding then Inr (obus @ [obu]) else parse_obus (obus @ [obu]) (drop n data)))))"
  by pat_completeness auto
termination
  by (relation "measure (\<lambda>(obus, data). length data)") (auto dest!: obu_size_shorter simp: Let_def simp flip: length_greater_0_conv split: if_splits)

declare parse_obus.simps [simp del]

definition parseOBUs :: "byte list \<Rightarrow> obu_error + OBU list" where
  "parseOBUs data =
     (case parse_obus [] data of
        Inl e \<Rightarrow> Inl e
      | Inr obus \<Rightarrow> if length obus \<ge> MaxOBUsPerFrame then Inl (OBUTooMany (length obus) MaxOBUsPerFrame) else Inr obus)"

text \<open>0 is a key frame, 1 an inter frame, 2 an intra-only frame, 3 a switch frame.\<close>

definition parseFrameType :: "byte list \<Rightarrow> byte" where
  "parseFrameType data =
     (if length data < 1 then 1
      else if data ! 0 AND 0x80 \<noteq> 0 then 1
      else drop_bit 5 (data ! 0) AND 0x03)"

section \<open>The detector\<close>

record AV1Detector =
  ad_frameStarted :: bool
  ad_lastOBUType :: byte
  ad_currentFrameType :: byte
  ad_seenFrameHeader :: bool

definition NewAV1Detector :: AV1Detector where
  "NewAV1Detector = \<lparr>ad_frameStarted = False, ad_lastOBUType = 0, ad_currentFrameType = 0, ad_seenFrameHeader = False\<rparr>"

definition av1_obu_step :: "OBU \<Rightarrow> AV1Detector \<times> bool \<times> bool \<Rightarrow> AV1Detector \<times> bool \<times> bool" where
  "av1_obu_step obu s =
     (let (d, isStart, isEnd) = s;
          (d, isStart, isEnd) =
            (if ob_Type obu = AV1OBUTypeTemporalDelimiter
             then (d\<lparr>ad_frameStarted := True, ad_seenFrameHeader := False\<rparr>, True, if ad_frameStarted d then True else isEnd)
             else (d, isStart, isEnd));
          (d, isStart, isEnd) =
            (if ob_Type obu = AV1OBUTypeSequenceHeader
             then (d\<lparr>ad_frameStarted := True\<rparr>, True, if ad_frameStarted d \<and> \<not> ad_seenFrameHeader d then True else isEnd)
             else (d, isStart, isEnd));
          (d, isStart) =
            (if ob_Type obu = AV1OBUTypeFrameHeader \<or> ob_Type obu = AV1OBUTypeFrame
             then
               (let (d, isStart) = (if \<not> ad_seenFrameHeader d
                                    then (d\<lparr>ad_frameStarted := True, ad_seenFrameHeader := True\<rparr>, True) else (d, isStart))
                in (if length (ob_Data obu) > 0 then d\<lparr>ad_currentFrameType := parseFrameType (ob_Data obu)\<rparr> else d, isStart))
             else (d, isStart));
          (d, isEnd) =
            (if ob_Type obu = AV1OBUTypeTileGroup \<and> ad_seenFrameHeader d
             then (d\<lparr>ad_frameStarted := False, ad_seenFrameHeader := False\<rparr>, True) else (d, isEnd));
          (d, isEnd) =
            (if ob_Type obu = AV1OBUTypeFrame
             then (d\<lparr>ad_frameStarted := False, ad_seenFrameHeader := False\<rparr>, True) else (d, isEnd))
      in (d\<lparr>ad_lastOBUType := ob_Type obu\<rparr>, isStart, isEnd))"

definition av1_DetectBoundaries :: "TimestampedPacket \<Rightarrow> AV1Detector \<Rightarrow> AV1Detector \<times> bool \<times> bool" where
  "av1_DetectBoundaries pkt d =
     (if tk_Data pkt = [] then (d, False, False)
      else case parseOBUs (tk_Data pkt) of Inl _ \<Rightarrow> (d, False, False) | Inr obus \<Rightarrow> fold av1_obu_step obus (d, False, False))"

fun av1_obus_type :: "OBU list \<Rightarrow> FrameType option" where
  "av1_obus_type [] = None"
| "av1_obus_type (obu # obus) =
     (if ob_Type obu = AV1OBUTypeFrameHeader \<or> ob_Type obu = AV1OBUTypeFrame
      then (let frameType = parseFrameType (ob_Data obu)
            in Some (if frameType = 0 then FrameTypeIDR else if frameType = 2 then FrameTypeI else FrameTypeP))
      else if ob_Type obu = AV1OBUTypeSequenceHeader then Some FrameTypeSPS
      else av1_obus_type obus)"

fun av1_GetFrameType :: "NALUnit list \<Rightarrow> FrameType" where
  "av1_GetFrameType [] = FrameTypeP"
| "av1_GetFrameType (nal # nals) =
     (case parseOBUs (nu_Data nal) of
        Inl _ \<Rightarrow> av1_GetFrameType nals
      | Inr obus \<Rightarrow> (case av1_obus_type obus of Some t \<Rightarrow> t | None \<Rightarrow> av1_GetFrameType nals))"

definition av1_IsKeyframe :: "byte list \<Rightarrow> bool" where
  "av1_IsKeyframe data \<longleftrightarrow>
     (case parseOBUs data of
        Inl _ \<Rightarrow> False
      | Inr obus \<Rightarrow>
          list_ex (\<lambda>obu. ob_Type obu = AV1OBUTypeSequenceHeader \<or>
            (ob_Type obu = AV1OBUTypeFrameHeader \<or> ob_Type obu = AV1OBUTypeFrame) \<and> parseFrameType (ob_Data obu) = 0) obus)"

section \<open>Writing and parsing units\<close>

text \<open>A unit with a size field, and an extension byte if \<open>ext\<close> is present.\<close>

definition write_obu :: "byte \<times> byte option \<times> byte list \<Rightarrow> byte list" where
  "write_obu u =
     (let (t, ext, data) = u
      in (push_bit 3 t OR (case ext of None \<Rightarrow> 0 | Some _ \<Rightarrow> 0x04) OR 0x02) # (case ext of None \<Rightarrow> [] | Some e \<Rightarrow> [e]) @
         WriteLEB128 (of_nat (length data)) @ data)"

definition parsed_obu :: "byte \<times> byte option \<times> byte list \<Rightarrow> OBU" where
  "parsed_obu u = (let (t, ext, data) = u in \<lparr>ob_Type = t, ob_Size = length data, ob_Data = data, ob_HasSize = True\<rparr>)"

definition plain_obu :: "byte \<times> byte option \<times> byte list \<Rightarrow> bool" where
  "plain_obu u \<longleftrightarrow> (let (t, ext, data) = u in t < 15 \<and> length data \<le> MaxNALUnitSize)"

lemma obu_header_table:
  "list_all (\<lambda>k. list_all (\<lambda>e. let h = push_bit 3 (of_nat k) OR e OR 0x02
     in h AND 0x80 = 0 \<and> h AND 0x02 \<noteq> 0 \<and> (h AND 0x04 \<noteq> 0) = (e = 0x04) \<and> drop_bit 3 h AND 0x0F = of_nat k) [0, 0x04 :: byte]) [0..<15]"
  by code_simp

lemma obu_header:
  fixes t :: byte
  assumes "t < 15" and "e = 0 \<or> e = 0x04"
  defines "h \<equiv> push_bit 3 t OR e OR 0x02"
  shows "h AND 0x80 = 0" "h AND 0x02 \<noteq> 0" "(h AND 0x04 \<noteq> 0) = (e = 0x04)" "drop_bit 3 h AND 0x0F = t"
proof -
  have "unat t < 15" using assms(1) by (simp add: word_less_nat_alt)
  then have "unat t \<in> set [0..<15]" "e \<in> set [0, 0x04]" "of_nat (unat t) = t" using assms(2) by auto
  then show "h AND 0x80 = 0" "h AND 0x02 \<noteq> 0" "(h AND 0x04 \<noteq> 0) = (e = 0x04)" "drop_bit 3 h AND 0x0F = t"
    using obu_header_table unfolding list_all_iff Let_def h_def by metis+
qed

lemma WriteLEB128_nonempty: "WriteLEB128 v \<noteq> []"
  by (subst WriteLEB128.simps) (simp add: Let_def)

lemma obu_size_Write:
  assumes "n \<le> MaxNALUnitSize"
  shows "obu_size True (WriteLEB128 (of_nat n) @ rest) = Inr (Some (n, rest))"
proof -
  have "unat (of_nat n :: u64) = n" using assms by (simp add: MaxNALUnitSize_def unat_of_nat)
  then show ?thesis using assms WriteLEB128_nonempty by (simp add: obu_size_def ReadLEB128_Write)
qed

lemma parse_obus_write:
  assumes "list_all plain_obu us" and "length found + length us \<le> MaxOBUsPerFrame"
  shows "parse_obus found (concat (map write_obu us)) = Inr (found @ map parsed_obu us)"
  using assms
proof (induction us arbitrary: found)
  case (Cons u us)
  obtain t ext data where u: "u = (t, ext, data)" by (cases u) auto
  have p: "t < 15" "length data \<le> MaxNALUnitSize" "t \<noteq> AV1OBUTypePadding" using Cons.prems(1) by (auto simp: u plain_obu_def AV1OBUTypePadding_def)
  let ?e = "(case ext of None \<Rightarrow> 0 | Some _ \<Rightarrow> 0x04) :: byte"
  let ?h = "push_bit 3 t OR ?e OR 0x02"
  let ?rest = "WriteLEB128 (of_nat (length data)) @ data @ concat (map write_obu us)"
  have e: "?e = 0 \<or> ?e = 0x04" by (cases ext) simp_all
  note h = obu_header [OF p(1) e]
  have xs: "concat (map write_obu (u # us)) = ?h # (case ext of None \<Rightarrow> [] | Some e \<Rightarrow> [e]) @ ?rest"
    by (simp add: write_obu_def u)
  have skip: "(if ?h AND 0x04 \<noteq> 0 then drop 1 ((case ext of None \<Rightarrow> [] | Some e \<Rightarrow> [e]) @ ?rest)
      else (case ext of None \<Rightarrow> [] | Some e \<Rightarrow> [e]) @ ?rest) = ?rest" using h(3) by (cases ext) simp_all
  have "\<not> (?h AND 0x04 \<noteq> 0 \<and> (case ext of None \<Rightarrow> [] | Some e \<Rightarrow> [e]) @ ?rest = [])" using WriteLEB128_nonempty by simp
  moreover have "length found < MaxOBUsPerFrame" using Cons.prems(2) by simp
  ultimately have "parse_obus found (concat (map write_obu (u # us))) = parse_obus (found @ [parsed_obu u]) (concat (map write_obu us))"
    unfolding xs using h(1,2,4) p obu_size_Write [OF p(2)]
    by (subst parse_obus.simps) (simp only: Let_def nth_Cons_0 drop_Suc_Cons drop_0 One_nat_def skip [unfolded One_nat_def], simp add: parsed_obu_def u)
  then show ?case using Cons by simp
qed (simp add: parse_obus.simps)



end
