(* ===== verification/Frame_Assembler.thy ===== *)
theory Frame_Assembler
  imports GOP_Buffer H264_Frame_Detector HEVC_Frame_Detector AV1_Frame_Detector
begin

unbundle bit_operations_syntax

text \<open>
  The frame assembler, \<^verbatim>\<open>frame/assembler.go\<close>, with the detector interface of \<^verbatim>\<open>frame/detector.go\<close>: packets are collected from
  the one that starts a frame to the one that ends it, cut into units, typed and sent to a channel.  The method that adds a
  packet looks for cancellation first and takes the lock afterwards, so that a stop may come in between: the two parts are
  two definitions.  The reference identifier of a unit, the presentation time and the frame number are written and never read
  by the modelled code; they are left out.
\<close>

section \<open>Detectors\<close>

datatype FrameDetector =
    Det_H264 H264Detector
  | Det_HEVC HEVCDetector
  | Det_AV1 AV1Detector
  | Det_JPEGXS JPEGXSDetector
  | Det_Generic

definition CreateDetector :: "CodecType \<Rightarrow> FrameDetector option" where
  "CreateDetector codec =
     (case codec of
        CodecH264 \<Rightarrow> Some (Det_H264 NewH264Detector)
      | CodecHEVC \<Rightarrow> Some (Det_HEVC NewHEVCDetector)
      | CodecAV1 \<Rightarrow> Some (Det_AV1 NewAV1Detector)
      | CodecJPEGXS \<Rightarrow> Some (Det_JPEGXS NewJPEGXSDetector)
      | _ \<Rightarrow> None)"

definition generic_DetectBoundaries :: "TimestampedPacket \<Rightarrow> bool \<times> bool" where
  "generic_DetectBoundaries pkt = (packet_HasFlag PacketFlagFrameStart pkt, packet_HasFlag PacketFlagFrameEnd pkt)"

fun DetectBoundaries :: "TimestampedPacket \<Rightarrow> FrameDetector \<Rightarrow> FrameDetector \<times> bool \<times> bool" where
  "DetectBoundaries pkt (Det_H264 d) = (let (d, r) = h264_DetectBoundaries pkt d in (Det_H264 d, r))"
| "DetectBoundaries pkt (Det_HEVC d) = (let (d, r) = hevc_DetectBoundaries pkt d in (Det_HEVC d, r))"
| "DetectBoundaries pkt (Det_AV1 d) = (let (d, r) = av1_DetectBoundaries pkt d in (Det_AV1 d, r))"
| "DetectBoundaries pkt (Det_JPEGXS d) = (let (d, r) = jpegxs_DetectBoundaries pkt d in (Det_JPEGXS d, r))"
| "DetectBoundaries pkt Det_Generic = (Det_Generic, generic_DetectBoundaries pkt)"

fun GetFrameType :: "FrameDetector \<Rightarrow> NALUnit list \<Rightarrow> FrameType" where
  "GetFrameType (Det_H264 _) us = h264_GetFrameType us"
| "GetFrameType (Det_HEVC _) us = hevc_GetFrameType us"
| "GetFrameType (Det_AV1 _) us = av1_GetFrameType us"
| "GetFrameType (Det_JPEGXS _) us = jpegxs_GetFrameType us"
| "GetFrameType Det_Generic us = FrameTypeP"

section \<open>The assembler\<close>

record Assembler =
  as_codec :: CodecType
  as_currentFrame :: "Frame option"
  as_framePackets :: "TimestampedPacket list"
  as_nalBuffer :: "byte list"
  as_frameTimeout :: nanos
  as_frameDetector :: FrameDetector
  as_output :: "Frame list"
  as_capacity :: nat
  as_cancelled :: bool
  as_closed :: bool
  as_framesAssembled :: u64
  as_framesDropped :: u64
  as_packetsReceived :: u64
  as_packetsDropped :: u64
  as_nextFrameID :: u64

datatype asm_error = ErrOutputBlocked | ErrCancelled

definition NewAssembler :: "CodecType \<Rightarrow> int \<Rightarrow> Assembler" where
  "NewAssembler codec outputBufferSize =
     \<lparr>as_codec = codec, as_currentFrame = None, as_framePackets = [], as_nalBuffer = [], as_frameTimeout = 200 * 1000000,
      as_frameDetector = (case CreateDetector codec of Some d \<Rightarrow> d | None \<Rightarrow> Det_Generic), as_output = [],
      as_capacity = nat (if outputBufferSize \<le> 0 then 100 else outputBufferSize), as_cancelled = False, as_closed = False,
      as_framesAssembled = 0, as_framesDropped = 0, as_packetsReceived = 0, as_packetsDropped = 0, as_nextFrameID = 1\<rparr>"

definition getNALType :: "CodecType \<Rightarrow> byte list \<Rightarrow> byte" where
  "getNALType codec data =
     (if data = [] then 0
      else case codec of CodecH264 \<Rightarrow> data ! 0 AND 0x1F | CodecHEVC \<Rightarrow> drop_bit 1 (data ! 0) AND 0x3F | _ \<Rightarrow> 0)"

definition asm_parseNALUnits :: "CodecType \<Rightarrow> byte list \<Rightarrow> NALUnit list" where
  "asm_parseNALUnits codec data =
     (if codec = CodecH264 \<or> codec = CodecHEVC
      then map (\<lambda>u. \<lparr>nu_Type = getNALType codec u, nu_Data = u\<rparr>) (filter (\<lambda>u. length u > 0) (findStartCodeUnits data))
      else if codec = CodecAV1 then [\<lparr>nu_Type = 0, nu_Data = data\<rparr>]
      else if length data > 0 then [\<lparr>nu_Type = 0, nu_Data = data\<rparr>] else [])"

text \<open>What happens around a send: which ready case the first \<^verbatim>\<open>select\<close> takes, and what ends the wait for a full channel: the
  consumer takes one frame and more, the timer fires, or the assembler is stopped.\<close>

datatype send_wait = Freed nat | TimerFired | StoppedMeanwhile

record send_env =
  se_pickOutput :: bool
  se_wait :: send_wait

definition sendFrameToOutput :: "send_env \<Rightarrow> Frame \<Rightarrow> Assembler \<Rightarrow> (Assembler \<times> asm_error option) outcome" where
  "sendFrameToOutput env frame a =
     (let canSend = as_closed a \<or> length (as_output a) < as_capacity a;
          sent = (\<lambda>out. Ret (a\<lparr>as_output := out @ [frame], as_framesAssembled := as_framesAssembled a + 1\<rparr>, None))
      in if canSend \<and> (as_cancelled a \<longrightarrow> se_pickOutput env) then (if as_closed a then Panic else sent (as_output a))
         else if as_cancelled a then Ret (a, Some ErrCancelled)
         else case se_wait env of
             Freed n \<Rightarrow> sent (drop (Suc n) (as_output a))
           | TimerFired \<Rightarrow> Ret (a\<lparr>as_framesDropped := as_framesDropped a + 1\<rparr>, Some ErrOutputBlocked)
           | StoppedMeanwhile \<Rightarrow> Ret (a\<lparr>as_cancelled := True, as_closed := True\<rparr>, Some ErrCancelled))"

definition finished_frame :: "nanos \<Rightarrow> Assembler \<Rightarrow> Frame \<Rightarrow> Frame" where
  "finished_frame now a frame =
     (let nalUnits = asm_parseNALUnits (as_codec a) (as_nalBuffer a); t = GetFrameType (as_frameDetector a) nalUnits;
          frame = frame\<lparr>vf_NALUnits := nalUnits, vf_Type := t\<rparr>;
          frame = (if FrameType_IsKeyframe t then SetFlag FrameFlagKeyframe frame else frame);
          frame = (if FrameType_IsReference t then SetFlag FrameFlagReference frame else frame)
      in frame\<lparr>vf_TotalSize := vf_TotalSize frame + (\<Sum>u \<leftarrow> nalUnits. length (nu_Data u)), vf_CompleteTime := Some now\<rparr>)"

definition completeFrame :: "send_env \<Rightarrow> nanos \<Rightarrow> Assembler \<Rightarrow> (Assembler \<times> asm_error option) outcome" where
  "completeFrame env now a =
     (case as_currentFrame a of
        None \<Rightarrow> Ret (a, None)
      | Some frame \<Rightarrow>
          outcome_bind (sendFrameToOutput env (finished_frame now a frame) a) (\<lambda>(a, e).
            Ret (a\<lparr>as_currentFrame := None, as_framePackets := [], as_nalBuffer := []\<rparr>, e)))"

definition new_frame :: "TimestampedPacket \<Rightarrow> Assembler \<Rightarrow> Frame" where
  "new_frame pkt a =
     \<lparr>vf_ID = unat (as_nextFrameID a), vf_TotalSize = 0, vf_PTS = tk_PTS pkt, vf_DTS = tk_DTS pkt, vf_CaptureTime = tk_CaptureTime pkt,
      vf_Type = FrameTypeI, vf_NALUnits = [], vf_Duration = 0, vf_CompleteTime = None,
      vf_Flags = (if packet_IsKeyframe pkt then FrameFlagKeyframe else 0), vf_GOPId = 0, vf_GOPPosition = 0, vf_References = [], vf_QP = 0\<rparr>"

definition start_frame :: "TimestampedPacket \<Rightarrow> Assembler \<Rightarrow> Assembler" where
  "start_frame pkt a =
     a\<lparr>as_currentFrame := Some (new_frame pkt a), as_nextFrameID := as_nextFrameID a + 1, as_framePackets := [pkt],
       as_nalBuffer := tk_Data pkt\<rparr>"

definition extend_frame :: "TimestampedPacket \<Rightarrow> Frame \<Rightarrow> Assembler \<Rightarrow> Assembler" where
  "extend_frame pkt frame a =
     a\<lparr>as_framePackets := as_framePackets a @ [pkt], as_nalBuffer := as_nalBuffer a @ tk_Data pkt,
       as_currentFrame := Some (if tk_PTS pkt > vf_PTS frame then frame\<lparr>vf_Duration := i64 (tk_PTS pkt - vf_PTS frame)\<rparr> else frame)\<rparr>"

text \<open>The time since an instant, at most the largest duration.\<close>

definition time_Since :: "nanos \<Rightarrow> gotime \<Rightarrow> nanos" where
  "time_Since now t = min (now - time_ns t) (2 ^ 63 - 1)"

text \<open>The end of the method: the frame ends with this packet, or its time is over.  A failed send on time-out is ignored.\<close>

definition finish_packet :: "send_env \<Rightarrow> nanos \<Rightarrow> bool \<Rightarrow> Assembler \<Rightarrow> (Assembler \<times> asm_error option) outcome" where
  "finish_packet env now isEnd a =
     (case as_currentFrame a of
        None \<Rightarrow> Ret (a, None)
      | Some frame \<Rightarrow>
          if isEnd then completeFrame env now a
          else if time_Since now (vf_CaptureTime frame) > as_frameTimeout a
          then outcome_bind (completeFrame env now (a\<lparr>as_currentFrame := Some (SetFlag FrameFlagCorrupted frame)\<rparr>)) (\<lambda>(a, _). Ret (a, None))
          else Ret (a, None))"

definition AddPacket_locked ::
  "send_env \<Rightarrow> send_env \<Rightarrow> nanos \<Rightarrow> TimestampedPacket \<Rightarrow> Assembler \<Rightarrow> (Assembler \<times> asm_error option) outcome" where
  "AddPacket_locked env1 env2 now pkt a =
     (let a = a\<lparr>as_packetsReceived := as_packetsReceived a + 1\<rparr>; (d, isStart, isEnd) = DetectBoundaries pkt (as_frameDetector a);
          a = a\<lparr>as_frameDetector := d\<rparr>
      in if isStart then
           outcome_bind (completeFrame env1 now a) (\<lambda>(a, _). finish_packet env2 now isEnd (start_frame pkt a))
         else case as_currentFrame a of
             Some frame \<Rightarrow> finish_packet env2 now isEnd (extend_frame pkt frame a)
           | None \<Rightarrow> Ret (a\<lparr>as_packetsDropped := as_packetsDropped a + 1\<rparr>, None))"

definition AddPacket ::
  "send_env \<Rightarrow> send_env \<Rightarrow> nanos \<Rightarrow> TimestampedPacket \<Rightarrow> Assembler \<Rightarrow> (Assembler \<times> asm_error option) outcome" where
  "AddPacket env1 env2 now pkt a = (if as_cancelled a then Ret (a, Some ErrCancelled) else AddPacket_locked env1 env2 now pkt a)"

definition assembler_Stop :: "Assembler \<Rightarrow> Assembler" where
  "assembler_Stop a = a\<lparr>as_cancelled := True, as_closed := True\<rparr>"

definition SetFrameTimeout :: "nanos \<Rightarrow> Assembler \<Rightarrow> Assembler" where
  "SetFrameTimeout timeout a = a\<lparr>as_frameTimeout := timeout\<rparr>"

text \<open>The consumer receives a frame.\<close>

definition receive_frame :: "Assembler \<Rightarrow> Assembler \<times> Frame option" where
  "receive_frame a = (case as_output a of [] \<Rightarrow> (a, None) | f # fs \<Rightarrow> (a\<lparr>as_output := fs\<rparr>, Some f))"

definition assembler_GetStats :: "Assembler \<Rightarrow> u64 \<times> u64 \<times> u64 \<times> u64" where
  "assembler_GetStats a = (as_framesAssembled a, as_framesDropped a, as_packetsReceived a, as_packetsDropped a)"

end
