(* ===== verification/Frame_Assembler_Props.thy ===== *)
theory Frame_Assembler_Props
  imports Frame_Assembler
begin

unbundle bit_operations_syntax

text \<open>
  What the frame assembler does: its books after every operation, the frames it delivers as a cut of the packet stream at the
  boundaries the detector reports, and where the H.264 boundaries are not those of the pictures.
\<close>

section \<open>Sending\<close>

lemma finished_fields [simp]:
  "vf_NALUnits (finished_frame now a f) = asm_parseNALUnits (as_codec a) (as_nalBuffer a)" "vf_PTS (finished_frame now a f) = vf_PTS f"
  "vf_ID (finished_frame now a f) = vf_ID f" "vf_CaptureTime (finished_frame now a f) = vf_CaptureTime f"
  by (simp_all add: finished_frame_def Let_def SetFlag_def)

text \<open>The channel and the counters after a send; the rest of the state is not touched.\<close>

definition asm_frame :: "Assembler \<Rightarrow> Assembler \<Rightarrow> bool" where
  "asm_frame a a' \<longleftrightarrow> as_codec a' = as_codec a \<and> as_frameTimeout a' = as_frameTimeout a \<and> as_frameDetector a' = as_frameDetector a \<and>
     as_capacity a' = as_capacity a \<and> as_nextFrameID a' = as_nextFrameID a \<and> as_packetsReceived a' = as_packetsReceived a \<and>
     as_packetsDropped a' = as_packetsDropped a \<and> (as_cancelled a \<longrightarrow> as_cancelled a')"

lemma send_keeps:
  assumes "sendFrameToOutput env f a = Ret (a', e)" and "1 \<le> as_capacity a" and "length (as_output a) \<le> as_capacity a"
  shows "asm_frame a a' \<and> length (as_output a') \<le> as_capacity a \<and>
    (\<not> as_cancelled a' \<longrightarrow> as_framesAssembled a' + as_framesDropped a' = as_framesAssembled a + as_framesDropped a + 1)"
  using assms by (auto simp: sendFrameToOutput_def asm_frame_def Let_def split: if_splits send_wait.splits)

lemma asm_complete_keeps:
  assumes "completeFrame env now a = Ret (a', e)" and "1 \<le> as_capacity a" and "length (as_output a) \<le> as_capacity a"
    and "as_currentFrame a = None \<longrightarrow> as_framePackets a = [] \<and> as_nalBuffer a = []"
  shows "asm_frame a a'" "length (as_output a') \<le> as_capacity a"
    "\<not> as_cancelled a' \<longrightarrow> as_framesAssembled a' + as_framesDropped a' =
       as_framesAssembled a + as_framesDropped a + (if as_currentFrame a = None then 0 else 1)"
    "as_currentFrame a' = None" "as_framePackets a' = []" "as_nalBuffer a' = []"
proof -
  have "asm_frame a a' \<and> length (as_output a') \<le> as_capacity a \<and>
    (\<not> as_cancelled a' \<longrightarrow> as_framesAssembled a' + as_framesDropped a' =
       as_framesAssembled a + as_framesDropped a + (if as_currentFrame a = None then 0 else 1)) \<and>
    as_currentFrame a' = None \<and> as_framePackets a' = [] \<and> as_nalBuffer a' = []"
  proof (cases "as_currentFrame a")
    case None
    then show ?thesis using assms by (auto simp: completeFrame_def asm_frame_def)
  next
    case (Some f)
    then obtain b where b: "sendFrameToOutput env (finished_frame now a f) a = Ret (b, e)"
      and a': "a' = b\<lparr>as_currentFrame := None, as_framePackets := [], as_nalBuffer := []\<rparr>"
      using assms(1) by (auto simp: completeFrame_def elim!: outcome_bind_Ret)
    then show ?thesis using send_keeps [OF b assms(2,3)] Some by (simp add: asm_frame_def)
  qed
  then show "asm_frame a a'" "length (as_output a') \<le> as_capacity a"
    "\<not> as_cancelled a' \<longrightarrow> as_framesAssembled a' + as_framesDropped a' =
       as_framesAssembled a + as_framesDropped a + (if as_currentFrame a = None then 0 else 1)"
    "as_currentFrame a' = None" "as_framePackets a' = []" "as_nalBuffer a' = []" by blast+
qed

section \<open>The books\<close>

definition asm_inv :: "Assembler \<Rightarrow> bool" where
  "asm_inv a \<longleftrightarrow>
     1 \<le> as_capacity a \<and> length (as_output a) \<le> as_capacity a \<and>
     as_nalBuffer a = concat (map tk_Data (as_framePackets a)) \<and>
     (case as_currentFrame a of
        None \<Rightarrow> as_framePackets a = []
      | Some f \<Rightarrow> as_framePackets a \<noteq> [] \<and> vf_ID f = unat (as_nextFrameID a - 1) \<and> vf_PTS f = tk_PTS (hd (as_framePackets a)) \<and>
          vf_CaptureTime f = tk_CaptureTime (hd (as_framePackets a))) \<and>
     (\<not> as_cancelled a \<longrightarrow> as_nextFrameID a =
        as_framesAssembled a + as_framesDropped a + (if as_currentFrame a = None then 0 else 1) + 1)"

lemma asm_inv_New: "asm_inv (NewAssembler codec n)"
  by (auto simp: asm_inv_def NewAssembler_def)

lemma complete_inv:
  assumes "asm_inv a" and "completeFrame env now a = Ret (a', e)"
  shows "asm_inv a' \<and> as_currentFrame a' = None \<and> asm_frame a a'"
proof -
  have pre: "1 \<le> as_capacity a" "length (as_output a) \<le> as_capacity a" "as_currentFrame a = None \<longrightarrow> as_framePackets a = [] \<and> as_nalBuffer a = []"
    using assms(1) by (auto simp: asm_inv_def)
  note c = asm_complete_keeps [OF assms(2) pre]
  have "\<not> as_cancelled a' \<longrightarrow> as_nextFrameID a' = as_framesAssembled a' + as_framesDropped a' + 1"
    using c(1,3) assms(1) by (auto simp: asm_inv_def asm_frame_def)
  then show ?thesis using c pre(1) by (simp add: asm_inv_def asm_frame_def)
qed

lemma finish_inv:
  assumes "asm_inv a" and "finish_packet env now isEnd a = Ret (a', e)"
  shows "asm_inv a'"
proof (cases "as_currentFrame a")
  case (Some f)
  have flagged: "asm_inv (a\<lparr>as_currentFrame := Some (SetFlag FrameFlagCorrupted f)\<rparr>)"
    using assms(1) Some by (simp add: asm_inv_def SetFlag_def)
  show ?thesis using assms Some complete_inv [OF assms(1)] complete_inv [OF flagged]
    by (auto simp: finish_packet_def split: if_splits elim!: outcome_bind_Ret)
qed (use assms in \<open>simp add: finish_packet_def\<close>)

lemma start_inv: "asm_inv a \<Longrightarrow> as_currentFrame a = None \<Longrightarrow> asm_inv (start_frame pkt a)"
  by (auto simp: asm_inv_def start_frame_def new_frame_def)

lemma extend_inv: "asm_inv a \<Longrightarrow> as_currentFrame a = Some f \<Longrightarrow> asm_inv (extend_frame pkt f a)"
  by (auto simp: asm_inv_def extend_frame_def hd_append)

lemma asm_inv_fields:
  "asm_inv (a\<lparr>as_packetsReceived := n\<rparr>) = asm_inv a" "asm_inv (a\<lparr>as_frameDetector := d\<rparr>) = asm_inv a" "asm_inv (a\<lparr>as_packetsDropped := n\<rparr>) = asm_inv a"
  "asm_inv (a\<lparr>as_frameTimeout := t\<rparr>) = asm_inv a"
  by (simp_all add: asm_inv_def split: option.split)

lemma AddPacket_inv:
  assumes "asm_inv a" and "AddPacket_locked env1 env2 now pkt a = Ret (a', e)"
  shows "asm_inv a'"
proof -
  obtain d isStart isEnd where d: "DetectBoundaries pkt (as_frameDetector a) = (d, isStart, isEnd)" by (metis prod.exhaust)
  let ?a = "a\<lparr>as_packetsReceived := as_packetsReceived a + 1, as_frameDetector := d\<rparr>"
  have inv: "asm_inv ?a" using assms(1) by (simp add: asm_inv_fields)
  show ?thesis
  proof (cases isStart)
    case True
    then obtain b e' where "completeFrame env1 now ?a = Ret (b, e')" "finish_packet env2 now isEnd (start_frame pkt b) = Ret (a', e)"
      using assms(2) d by (auto simp: AddPacket_locked_def Let_def elim!: outcome_bind_Ret)
    then show ?thesis using complete_inv [OF inv] start_inv finish_inv by blast
  next
    case False
    show ?thesis
    proof (cases "as_currentFrame a")
      case None
      then have "a' = ?a\<lparr>as_packetsDropped := as_packetsDropped a + 1\<rparr>" using assms(2) d False by (auto simp: AddPacket_locked_def Let_def)
      then show ?thesis using inv by (simp add: asm_inv_fields)
    next
      case (Some f)
      then have "finish_packet env2 now isEnd (extend_frame pkt f ?a) = Ret (a', e)" using assms(2) d False by (simp add: AddPacket_locked_def Let_def)
      then show ?thesis using finish_inv [OF extend_inv [OF inv, of f pkt], of env2 now isEnd a' e] Some by simp
    qed
  qed
qed

text \<open>Reachable assemblers: packets, the stop, which may come between the two parts of the method that adds a packet, the
  consumer, and a change of the time-out.\<close>

inductive asm_reachable :: "Assembler \<Rightarrow> bool" where
  New: "asm_reachable (NewAssembler codec n)"
| Packet: "asm_reachable a \<Longrightarrow> AddPacket_locked env1 env2 now pkt a = Ret (a', e) \<Longrightarrow> asm_reachable a'"
| Stop: "asm_reachable a \<Longrightarrow> asm_reachable (assembler_Stop a)"
| Receive: "asm_reachable a \<Longrightarrow> asm_reachable (fst (receive_frame a))"
| Timeout: "asm_reachable a \<Longrightarrow> asm_reachable (SetFrameTimeout t a)"

lemma asm_reachable_inv: "asm_reachable a \<Longrightarrow> asm_inv a"
proof (induction rule: asm_reachable.induct)
  case (Packet a env1 env2 now pkt a' e)
  then show ?case using AddPacket_inv by blast
next
  case (Receive a)
  then show ?case by (auto simp: receive_frame_def asm_inv_def split: list.split option.split)
next
  case (Stop a)
  then show ?case by (simp add: assembler_Stop_def asm_inv_def split: option.splits)
qed (simp_all add: asm_inv_New SetFrameTimeout_def asm_inv_fields)

text \<open>C17: The books of the assembler after any history of packets, time-outs, full channels, stops and receptions: the buffer
  holds the bytes of the packets of the frame under construction, which carries the time stamps of the first of them and the
  last identifier given out; the channel keeps its capacity; and while it runs, every frame begun has been delivered,
  counted as dropped, or is the one under construction.\<close>

theorem assembler_books:
  assumes "asm_reachable a"
  shows "as_nalBuffer a = concat (map tk_Data (as_framePackets a)) \<and> length (as_output a) \<le> as_capacity a \<and>
    (as_currentFrame a = None \<longleftrightarrow> as_framePackets a = []) \<and>
    (\<forall>f. as_currentFrame a = Some f \<longrightarrow> vf_ID f = unat (as_nextFrameID a - 1) \<and> vf_PTS f = tk_PTS (hd (as_framePackets a)) \<and>
       vf_CaptureTime f = tk_CaptureTime (hd (as_framePackets a))) \<and>
    (\<not> as_cancelled a \<longrightarrow> as_nextFrameID a - 1 =
       as_framesAssembled a + as_framesDropped a + (if as_currentFrame a = None then 0 else 1))"
  using asm_reachable_inv [OF assms] by (auto simp: asm_inv_def split: option.splits)

section \<open>The frames as a cut of the stream\<close>

text \<open>The specification: the groups of packets completed and the packets of the open group.\<close>

fun cut_step :: "bool \<times> bool \<times> TimestampedPacket \<Rightarrow> TimestampedPacket list list \<times> TimestampedPacket list \<Rightarrow>
    TimestampedPacket list list \<times> TimestampedPacket list" where
  "cut_step (isStart, isEnd, p) (gs, cur) =
     (let (gs, cur) = (if isStart then (if cur = [] then gs else gs @ [cur], [p]) else (gs, if cur = [] then [] else cur @ [p]))
      in if isEnd \<and> cur \<noteq> [] then (gs @ [cur], []) else (gs, cur))"

fun detected :: "FrameDetector \<Rightarrow> TimestampedPacket list \<Rightarrow> (bool \<times> bool \<times> TimestampedPacket) list" where
  "detected d [] = []"
| "detected d (p # ps) = (let (d, isStart, isEnd) = DetectBoundaries p d in (isStart, isEnd, p) # detected d ps)"

fun asm_run :: "(send_env \<times> send_env \<times> nanos \<times> TimestampedPacket) list \<Rightarrow> Assembler \<Rightarrow> Assembler outcome" where
  "asm_run [] a = Ret a"
| "asm_run ((env1, env2, now, p) # xs) a = outcome_bind (AddPacket env1 env2 now p a) (\<lambda>(a, _). asm_run xs a)"

definition frame_of_group :: "CodecType \<Rightarrow> Frame \<Rightarrow> TimestampedPacket list \<Rightarrow> bool" where
  "frame_of_group codec f g \<longleftrightarrow> vf_NALUnits f = asm_parseNALUnits codec (concat (map tk_Data g)) \<and> vf_PTS f = tk_PTS (hd g) \<and>
     vf_CaptureTime f = tk_CaptureTime (hd g)"

definition cut_rel :: "TimestampedPacket list list \<times> TimestampedPacket list \<Rightarrow> Assembler \<Rightarrow> bool" where
  "cut_rel s a \<longleftrightarrow>
     (let (gs, cur) = s
      in asm_inv a \<and> \<not> as_cancelled a \<and> \<not> as_closed a \<and> as_framePackets a = cur \<and> list_all2 (frame_of_group (as_codec a)) (as_output a) gs)"

lemma cut_relD:
  assumes "cut_rel (gs, cur) a"
  shows "asm_inv a" "\<not> as_cancelled a" "\<not> as_closed a" "as_framePackets a = cur" "list_all2 (frame_of_group (as_codec a)) (as_output a) gs"
  using assms by (simp_all add: cut_rel_def)

lemma complete_cut:
  assumes "cut_rel (gs, cur) a" and "length (as_output a) < as_capacity a"
  obtains a' e where "completeFrame env now a = Ret (a', e)" "cut_rel (if cur = [] then gs else gs @ [cur], []) a'"
    "length (as_output a') \<le> length (as_output a) + 1" "asm_frame a a'" "as_currentFrame a' = None"
proof (cases "as_currentFrame a")
  case None
  note r = cut_relD [OF assms(1)]
  have "cur = []" using r(1,4) None by (simp add: asm_inv_def)
  then show ?thesis using that [of a None] None assms(1) by (simp add: completeFrame_def asm_frame_def)
next
  case (Some f)
  note r = cut_relD [OF assms(1)]
  let ?f = "finished_frame now a f"
  let ?a = "a\<lparr>as_output := as_output a @ [?f], as_framesAssembled := as_framesAssembled a + 1, as_currentFrame := None,
      as_framePackets := [], as_nalBuffer := []\<rparr>"
  have c: "completeFrame env now a = Ret (?a, None)"
    using Some r(2,3) assms(2) by (simp add: completeFrame_def sendFrameToOutput_def Let_def)
  have "cur \<noteq> []" "frame_of_group (as_codec a) ?f cur" using r(1,4) Some by (auto simp: asm_inv_def frame_of_group_def)
  then have "cut_rel (if cur = [] then gs else gs @ [cur], []) ?a"
    using complete_inv [OF r(1) c] r by (simp add: cut_rel_def list_all2_appendI)
  then show ?thesis using that [OF c] by (simp add: asm_frame_def)
qed

text \<open>The packet does not come too late for the frame under construction.\<close>

definition in_time :: "nanos \<Rightarrow> TimestampedPacket set \<Rightarrow> nanos \<Rightarrow> bool" where
  "in_time timeout ps now \<longleftrightarrow> (\<forall>p \<in> ps. time_Since now (tk_CaptureTime p) \<le> timeout)"

lemma in_time_mono: "in_time timeout ps now \<Longrightarrow> qs \<subseteq> ps \<Longrightarrow> in_time timeout qs now"
  by (auto simp: in_time_def)

lemma finish_cut:
  assumes "cut_rel (gs, cur) a" and "length (as_output a) < as_capacity a" and "in_time (as_frameTimeout a) (set cur) now"
  obtains a' e where "finish_packet env now isEnd a = Ret (a', e)"
    "cut_rel (if isEnd \<and> cur \<noteq> [] then (gs @ [cur], []) else (gs, cur)) a'" "length (as_output a') \<le> length (as_output a) + 1" "asm_frame a a'"
proof (cases "as_currentFrame a")
  case None
  have "cur = []" using cut_relD(1,4) [OF assms(1)] None by (simp add: asm_inv_def)
  then show ?thesis using that [of a None] None assms(1) by (simp add: finish_packet_def asm_frame_def)
next
  case (Some f)
  have cur: "cur \<noteq> []" "vf_CaptureTime f = tk_CaptureTime (hd cur)" using cut_relD(1,4) [OF assms(1)] Some by (auto simp: asm_inv_def)
  then have late: "\<not> time_Since now (vf_CaptureTime f) > as_frameTimeout a" using assms(3) by (simp add: in_time_def not_less)
  show ?thesis
  proof (cases isEnd)
    case True
    obtain a' e where "completeFrame env now a = Ret (a', e)" "cut_rel (if cur = [] then gs else gs @ [cur], []) a'"
      "length (as_output a') \<le> length (as_output a) + 1" "asm_frame a a'" "as_currentFrame a' = None"
      by (rule complete_cut [OF assms(1,2)])
    then show ?thesis using that [of a' e] True Some cur(1) by (simp add: finish_packet_def)
  next
    case False
    then show ?thesis using that [of a None] late Some assms(1) by (simp add: finish_packet_def asm_frame_def)
  qed
qed

lemma cut_rel_fields:
  "cut_rel s (a\<lparr>as_packetsReceived := n\<rparr>) = cut_rel s a" "cut_rel s (a\<lparr>as_frameDetector := d\<rparr>) = cut_rel s a"
  "cut_rel s (a\<lparr>as_packetsDropped := n\<rparr>) = cut_rel s a"
  by (simp_all add: cut_rel_def asm_inv_fields)

lemma start_cut: "cut_rel (gs, []) a \<Longrightarrow> as_currentFrame a = None \<Longrightarrow> cut_rel (gs, [pkt]) (start_frame pkt a)"
  using start_inv [of a pkt] by (simp add: cut_rel_def) (simp add: start_frame_def)

lemma extend_cut: "cut_rel (gs, cur) a \<Longrightarrow> as_currentFrame a = Some f \<Longrightarrow> cut_rel (gs, cur @ [pkt]) (extend_frame pkt f a)"
  using extend_inv [of a f pkt] by (simp add: cut_rel_def) (simp add: extend_frame_def)

lemma open_frame: "cut_rel (gs, cur) a \<Longrightarrow> as_currentFrame a = None \<longleftrightarrow> cur = []"
  by (auto simp: cut_rel_def asm_inv_def split: option.splits)

lemma packet_cut:
  assumes "cut_rel (gs, cur) a" and "length (as_output a) + 1 < as_capacity a" and "in_time (as_frameTimeout a) (insert pkt (set cur)) now"
    and d: "DetectBoundaries pkt (as_frameDetector a) = (d, isStart, isEnd)"
  obtains a' e where "AddPacket env1 env2 now pkt a = Ret (a', e)" "cut_rel (cut_step (isStart, isEnd, pkt) (gs, cur)) a'"
    "as_frameDetector a' = d" "length (as_output a') \<le> length (as_output a) + 2" "as_codec a' = as_codec a" "as_capacity a' = as_capacity a"
    "as_frameTimeout a' = as_frameTimeout a"
proof -
  let ?a = "a\<lparr>as_packetsReceived := as_packetsReceived a + 1, as_frameDetector := d\<rparr>"
  have rel: "cut_rel (gs, cur) ?a" using assms(1) by (simp add: cut_rel_fields)
  have live: "AddPacket env1 env2 now pkt a = AddPacket_locked env1 env2 now pkt a" using cut_relD(2) [OF assms(1)] by (simp add: AddPacket_def)
  show ?thesis
  proof (cases isStart)
    case True
    let ?gs = "if cur = [] then gs else gs @ [cur]"
    obtain b e where b: "completeFrame env1 now ?a = Ret (b, e)" "cut_rel (?gs, []) b" "length (as_output b) \<le> length (as_output ?a) + 1" "asm_frame ?a b"
      "as_currentFrame b = None" by (rule complete_cut [OF rel]) (use assms(2) in simp)
    have s: "length (as_output (start_frame pkt b)) < as_capacity (start_frame pkt b)" "in_time (as_frameTimeout (start_frame pkt b)) (set [pkt]) now"
      "asm_frame ?a (start_frame pkt b) \<or> as_nextFrameID (start_frame pkt b) \<noteq> as_nextFrameID ?a"
      using b(3,4) assms(2,3) by (simp_all add: start_frame_def asm_frame_def in_time_def)
    obtain a' e' where f: "finish_packet env2 now isEnd (start_frame pkt b) = Ret (a', e')"
      "cut_rel (if isEnd \<and> [pkt] \<noteq> [] then (?gs @ [[pkt]], []) else (?gs, [pkt])) a'"
      "length (as_output a') \<le> length (as_output (start_frame pkt b)) + 1" "asm_frame (start_frame pkt b) a'"
      by (rule finish_cut [OF start_cut [OF b(2,5)] s(1,2)])
    have "AddPacket env1 env2 now pkt a = Ret (a', e')" unfolding live AddPacket_locked_def Let_def using d True b(1) f(1) by simp
    then show ?thesis using that f(2-4) b(3,4) True by (simp add: start_frame_def asm_frame_def Let_def)
  next
    case start: False
    show ?thesis
    proof (cases "as_currentFrame a")
      case None
      then have cur: "cur = []" using open_frame [OF assms(1)] by simp
      let ?b = "?a\<lparr>as_packetsDropped := as_packetsDropped a + 1\<rparr>"
      have "AddPacket env1 env2 now pkt a = Ret (?b, None)" unfolding live AddPacket_locked_def Let_def using d start None by simp
      then show ?thesis using that [of ?b None] rel start cur by (simp add: cut_rel_fields)
    next
      case (Some f)
      have cur: "cur \<noteq> []" using open_frame [OF assms(1)] Some by auto
      let ?b = "extend_frame pkt f ?a"
      have s: "length (as_output ?b) < as_capacity ?b" "in_time (as_frameTimeout ?b) (set (cur @ [pkt])) now"
        using assms(2,3) by (simp_all add: extend_frame_def in_time_def)
      have r: "cut_rel (gs, cur @ [pkt]) ?b" using extend_cut [OF rel] Some by simp
      obtain a' e' where f: "finish_packet env2 now isEnd ?b = Ret (a', e')"
        "cut_rel (if isEnd \<and> cur @ [pkt] \<noteq> [] then (gs @ [cur @ [pkt]], []) else (gs, cur @ [pkt])) a'"
        "length (as_output a') \<le> length (as_output ?b) + 1" "asm_frame ?b a'" by (rule finish_cut [OF r s])
      have "AddPacket env1 env2 now pkt a = Ret (a', e')" unfolding live AddPacket_locked_def Let_def using d start Some f(1) by simp
      then show ?thesis using that f(2-4) start cur by (simp add: extend_frame_def asm_frame_def Let_def)
    qed
  qed
qed

lemma cut_step_packets: "cut_step b (gs, cur) = (gs', cur') \<Longrightarrow> set cur' \<subseteq> insert (snd (snd b)) (set cur)"
  by (cases b) (auto simp: Let_def split: if_splits)

lemma run_cut:
  assumes "cut_rel (gs, cur) a" and "length (as_output a) + 2 * length xs \<le> as_capacity a"
    and "\<forall>x \<in> set xs. in_time (as_frameTimeout a) (set cur \<union> (\<lambda>(e1, e2, now, p). p) ` set xs) (fst (snd (snd x)))"
  shows "\<exists>a'. asm_run xs a = Ret a' \<and> as_codec a' = as_codec a \<and>
    cut_rel (fold cut_step (detected (as_frameDetector a) (map (\<lambda>(e1, e2, now, p). p) xs)) (gs, cur)) a'"
  using assms
proof (induction xs arbitrary: a gs cur)
  case (Cons x xs)
  obtain env1 env2 now p where x: "x = (env1, env2, now, p)" by (metis prod.exhaust)
  obtain d isStart isEnd where d: "DetectBoundaries p (as_frameDetector a) = (d, isStart, isEnd)" by (metis prod.exhaust)
  have early: "in_time (as_frameTimeout a) (insert p (set cur)) now" using Cons.prems(3) by (simp add: x in_time_def)
  obtain a' e where a': "AddPacket env1 env2 now p a = Ret (a', e)" "cut_rel (cut_step (isStart, isEnd, p) (gs, cur)) a'" "as_frameDetector a' = d"
    "length (as_output a') \<le> length (as_output a) + 2" "as_codec a' = as_codec a" "as_capacity a' = as_capacity a" "as_frameTimeout a' = as_frameTimeout a"
    by (rule packet_cut [OF Cons.prems(1) _ early d]) (use Cons.prems(2) in simp)
  obtain gs' cur' where g: "cut_step (isStart, isEnd, p) (gs, cur) = (gs', cur')" by (metis prod.exhaust)
  have "set cur' \<subseteq> insert p (set cur)" using cut_step_packets [OF g] by simp
  then have sub: "set cur' \<union> (\<lambda>(e1, e2, now, p). p) ` set xs \<subseteq> set cur \<union> (\<lambda>(e1, e2, now, p). p) ` set (x # xs)" by (simp add: x) blast
  have later: "\<forall>y \<in> set xs. in_time (as_frameTimeout a') (set cur' \<union> (\<lambda>(e1, e2, now, p). p) ` set xs) (fst (snd (snd y)))"
    using Cons.prems(3) in_time_mono [OF _ sub] unfolding a'(7) by simp
  have "\<exists>b. asm_run xs a' = Ret b \<and> as_codec b = as_codec a' \<and>
      cut_rel (fold cut_step (detected (as_frameDetector a') (map (\<lambda>(e1, e2, now, p). p) xs)) (gs', cur')) b"
    using Cons.IH [OF _ _ later] a' g Cons.prems(2) by simp
  then show ?case using a' d g by (auto simp: x Let_def)
qed simp


section \<open>H.264 boundaries\<close>

text \<open>A packet of the RTP path that holds one whole unit of the given type.\<close>

definition single_nal :: "byte \<Rightarrow> TimestampedPacket \<Rightarrow> bool" where
  "single_nal t p \<longleftrightarrow> tk_Data p \<noteq> [] \<and> \<not> hasStartCode (tk_Data p) \<and> tk_Data p ! 0 AND 0x1F = t"

lemma single_nal_detect:
  "single_nal t p \<Longrightarrow> t \<noteq> H264NALTypeFUA \<Longrightarrow>
   h264_DetectBoundaries p d = (let (d, isStart, isEnd) = h264_rules t d in (d\<lparr>hd_lastNALType := t\<rparr>, isStart, isEnd))"
  by (simp add: h264_DetectBoundaries_def single_nal_def)

text \<open>Slices of non-IDR pictures that follow one another are never separated: without delimiters between the pictures, their
  slices all go to the frame that is open, whatever their time stamps.\<close>

theorem h264_slices_merge:
  assumes "list_all (single_nal 1) ps" and "hd_lastNALType d = 1"
  shows "detected (Det_H264 d) ps = map (\<lambda>p. (False, False, p)) ps"
  using assms
proof (induction ps arbitrary: d)
  case (Cons p ps)
  have rules: "h264_rules 1 d = (d, False, False)" using Cons.prems(2) by (simp add: h264_rules_def h264_types h264_isVCLNAL_def)
  then have "h264_DetectBoundaries p d = (d, False, False)"
    using single_nal_detect [of 1 p d] Cons.prems by (simp add: h264_types)
  then show ?case using Cons by simp
qed simp

text \<open>A parameter set, delimiter or IDR slice always starts a frame, whatever came before it: the slices of an IDR picture of
  several slices, and its parameter sets, end up in frames of their own.\<close>

theorem h264_idr_slices_split:
  assumes "single_nal t p" and "t \<in> {H264NALTypeIDR, H264NALTypeSPS, H264NALTypePPS, H264NALTypeAUD}"
  shows "fst (snd (h264_DetectBoundaries p d))"
proof -
  have "t \<noteq> H264NALTypeFUA" using assms(2) by (auto simp: h264_types)
  then show ?thesis using single_nal_detect [OF assms(1), of d] assms(2) by (auto simp: h264_rules_def Let_def)
qed

text \<open>A packet that both ends a frame and starts the next is taken for the end of the new one: the SEI, delimiter or parameter
  set behind a picture becomes a frame by itself.\<close>

theorem h264_boundary_packet_alone:
  assumes "single_nal t p" and "t \<in> {H264NALTypeSEI, H264NALTypeAUD, H264NALTypeSPS, H264NALTypePPS}"
    and "hd_frameStarted d" and "h264_isVCLNAL (hd_lastNALType d)" and "cur \<noteq> []"
  shows "fold cut_step (detected (Det_H264 d) [p]) (gs, cur) = (gs @ [cur, [p]], [])"
proof -
  have "t \<noteq> H264NALTypeFUA" using assms(2) by (auto simp: h264_types)
  moreover have "\<not> h264_isVCLNAL t" using assms(2) by (auto simp: h264_types h264_isVCLNAL_def)
  ultimately have "snd (h264_DetectBoundaries p d) = (True, True)"
    using single_nal_detect [OF assms(1), of d] assms(2-4) by (auto simp: h264_rules_def Let_def)
  then obtain d' where "h264_DetectBoundaries p d = (d', True, True)" by (metis prod.collapse)
  then show ?thesis using assms(5) by simp
qed

text \<open>A stop that comes after a packet has passed the check for cancellation closes the channel under the frame that the
  packet completes.\<close>

theorem stop_during_add_panics:
  assumes "as_currentFrame a = Some f" and "DetectBoundaries pkt (as_frameDetector a) = (d, True, isEnd)" and "se_pickOutput env1"
  shows "AddPacket_locked env1 env2 now pkt (assembler_Stop a) = Panic"
  using assms by (simp add: AddPacket_locked_def assembler_Stop_def completeFrame_def sendFrameToOutput_def Let_def)

section \<open>Instances\<close>

definition sample_packet :: "byte list \<Rightarrow> TimestampedPacket" where
  "sample_packet data = \<lparr>tk_Data = data, tk_CaptureTime = Some 0, tk_PTS = 3000, tk_DTS = 3000, tk_Flags = 0\<rparr>"

definition calm :: send_env where
  "calm = \<lparr>se_pickOutput = True, se_wait = TimerFired\<rparr>"

text \<open>A delimiter and an IDR slice.\<close>

definition sample_input :: "(send_env \<times> send_env \<times> nanos \<times> TimestampedPacket) list" where
  "sample_input = [(calm, calm, 1, sample_packet [9, 16]), (calm, calm, 2, sample_packet [0x65, 0x88])]"

lemma sample_detected:
  "fold cut_step (detected (as_frameDetector (NewAssembler CodecH264 0)) (map (\<lambda>(e1, e2, now, p). p) sample_input)) ([], []) =
     ([[sample_packet [9, 16]]], [sample_packet [0x65, 0x88]])"
  "asm_parseNALUnits CodecH264 [9, 16] = [\<lparr>nu_Type = 9, nu_Data = [9, 16]\<rparr>]"
  by code_simp+


lemma sample_running: "\<exists>a e. AddPacket_locked calm calm 1 (sample_packet [9, 16]) (NewAssembler CodecH264 0) = Ret (a, e) \<and> as_currentFrame a \<noteq> None \<and>
    as_framePackets a = [sample_packet [9, 16]] \<and> as_frameDetector a = Det_H264 \<lparr>hd_lastNALType = 9, hd_frameStarted = True\<rparr>"
proof -
  have "DetectBoundaries (sample_packet [9, 16]) (Det_H264 NewH264Detector) = (Det_H264 \<lparr>hd_lastNALType = 9, hd_frameStarted = True\<rparr>, True, False)"
    by code_simp
  then show ?thesis by (simp add: AddPacket_locked_def NewAssembler_def CreateDetector_def completeFrame_def start_frame_def finish_packet_def
      new_frame_def sample_packet_def time_Since_def time_ns_def Let_def)
qed

theorem assembler_books_witness:
  "\<exists>a :: Assembler. as_framePackets a = [sample_packet [9, 16]] \<and> as_nalBuffer a = [9, 16] \<and> length (as_output a) \<le> as_capacity a"
proof -
  obtain a e where a: "AddPacket_locked calm calm 1 (sample_packet [9, 16]) (NewAssembler CodecH264 0) = Ret (a, e)"
    "as_framePackets a = [sample_packet [9, 16]]" using sample_running by blast
  have "asm_reachable a" using asm_reachable.Packet [OF asm_reachable.New a(1)] .
  from assembler_books [OF this] show ?thesis using a(2) by (intro exI [of _ a]) (simp add: sample_packet_def)
qed

theorem h264_slices_merge_witness:
  "detected (Det_H264 \<lparr>hd_lastNALType = 1, hd_frameStarted = True\<rparr>) [sample_packet [0x41, 1], (sample_packet [0x41, 2])\<lparr>tk_PTS := 6000\<rparr>] =
     [(False, False, sample_packet [0x41, 1]), (False, False, (sample_packet [0x41, 2])\<lparr>tk_PTS := 6000\<rparr>)]"
  using h264_slices_merge [of "[sample_packet [0x41, 1], (sample_packet [0x41, 2])\<lparr>tk_PTS := 6000\<rparr>]" "\<lparr>hd_lastNALType = 1, hd_frameStarted = True\<rparr>"]
  by (simp add: single_nal_def sample_packet_def hasStartCode_def)

theorem h264_idr_slices_split_witness:
  "fst (snd (h264_DetectBoundaries (sample_packet [0x65, 0x40]) \<lparr>hd_lastNALType = 5, hd_frameStarted = True\<rparr>))"
  using h264_idr_slices_split [of H264NALTypeIDR "sample_packet [0x65, 0x40]" "\<lparr>hd_lastNALType = 5, hd_frameStarted = True\<rparr>"]
  by (simp add: single_nal_def sample_packet_def hasStartCode_def h264_types)

theorem h264_boundary_packet_alone_witness:
  "fold cut_step (detected (Det_H264 \<lparr>hd_lastNALType = 1, hd_frameStarted = True\<rparr>) [sample_packet [6, 5]]) ([], [sample_packet [0x41, 1]]) =
     ([[sample_packet [0x41, 1]], [sample_packet [6, 5]]], [])"
  using h264_boundary_packet_alone [of H264NALTypeSEI "sample_packet [6, 5]" "\<lparr>hd_lastNALType = 1, hd_frameStarted = True\<rparr>"
      "[sample_packet [0x41, 1]]" "[]"]
  by (simp add: single_nal_def sample_packet_def hasStartCode_def h264_types h264_isVCLNAL_def)

theorem stop_during_add_panics_witness:
  "\<exists>a. as_framePackets a = [sample_packet [9, 16]] \<and> AddPacket_locked calm calm 2 (sample_packet [0x65, 0x88]) (assembler_Stop a) = Panic"
proof -
  obtain a :: Assembler and f where a: "as_currentFrame a = Some f" "as_framePackets a = [sample_packet [9, 16]]"
    "as_frameDetector a = Det_H264 \<lparr>hd_lastNALType = 9, hd_frameStarted = True\<rparr>" using sample_running by blast
  have "DetectBoundaries (sample_packet [0x65, 0x88]) (as_frameDetector a) = (Det_H264 \<lparr>hd_lastNALType = 5, hd_frameStarted = True\<rparr>, True, False)"
    unfolding a(3) by code_simp
  from stop_during_add_panics [OF a(1) this, of calm calm 2] show ?thesis using a(2) by (auto simp: calm_def)
qed

end
