(* ===== verification/H264_Frame_Props.thy ===== *)
theory H264_Frame_Props
  imports Frame_Assembler
begin

unbundle bit_operations_syntax

text \<open>
  The type of an H.264 frame from its bytes: start codes, emulation prevention, Exp-Golomb codes and the rules of the detector
  taken together.
\<close>

section \<open>Slice headers\<close>

lemma add_epb_nonempty: "bytes \<noteq> [] \<Longrightarrow> AddEmulationPreventionBytes bytes \<noteq> []"
  by (cases bytes) (auto simp: AddEmulationPreventionBytes_def)

lemma remove_add: "bytes \<noteq> [] \<Longrightarrow> RemoveEmulationPreventionBytes (AddEmulationPreventionBytes bytes) = Inr bytes"
  using add_epb_nonempty [of bytes] remove_add_loop [of 0 bytes]
  by (simp add: RemoveEmulationPreventionBytes_def AddEmulationPreventionBytes_def Suc_le_eq)

lemma slice_type_read:
  assumes "bits_of bytes = ue_code mb @ ue_code st @ rest" and "mb < 2 ^ 32 - 1" and "st \<le> 9" and "bytes \<noteq> []"
  shows "parseSliceTypeFromNAL (header # AddEmulationPreventionBytes bytes) = int st"
proof -
  have inv: "br_inv (NewBitReader bytes)" "br_rest (NewBitReader bytes) = ue_code mb @ ue_code st @ rest"
    using reads_New [of bytes] assms(1) by (simp_all add: reads_def)
  obtain br1 where 1: "tb_ReadUE (NewBitReader bytes) = (br1, Inr (of_nat mb))" "br_inv br1" "br_rest br1 = ue_code st @ rest"
    using tb_ReadUE_code [OF inv assms(2)] by blast
  obtain br2 where 2: "tb_ReadUE br1 = (br2, Inr (of_nat st))" using tb_ReadUE_code [OF 1(2,3)] assms(3) by auto
  have "unat (of_nat st :: u32) = st" using assms(3) by (simp add: unat_of_nat)
  then have st: "\<not> (of_nat st :: u32) > 9" "uint (of_nat st :: u32) = int st"
    using assms(3) by (simp_all add: word_less_nat_alt not_less uint_nat)
  show ?thesis using add_epb_nonempty [OF assms(4)] remove_add [OF assms(4)] assms(4) 1(1) 2 st
    by (simp add: parseSliceTypeFromNAL_def Let_def Suc_le_eq not_less)
qed

section \<open>The scan over the units\<close>

text \<open>A unit that is no slice.\<close>

definition non_vcl :: "byte list \<Rightarrow> bool" where
  "non_vcl data \<longleftrightarrow> (data \<noteq> [] \<longrightarrow> \<not> h264_isVCLNAL (data ! 0 AND 0x1F))"

lemma scan_non_vcl:
  assumes "\<forall>u \<in> set us. non_vcl (nu_Data u)"
  shows "hs_hasIDR (fold h264_scan_unit us s) = hs_hasIDR s \<and> hs_hasValidIDRSlice (fold h264_scan_unit us s) = hs_hasValidIDRSlice s \<and>
    hs_sliceType (fold h264_scan_unit us s) = hs_sliceType s"
  using assms
proof (induction us arbitrary: s)
  case (Cons u us)
  have "hs_hasIDR (h264_scan_unit u s) = hs_hasIDR s \<and> hs_hasValidIDRSlice (h264_scan_unit u s) = hs_hasValidIDRSlice s \<and>
      hs_sliceType (h264_scan_unit u s) = hs_sliceType s"
    using Cons.prems by (auto simp: h264_scan_unit_def Let_def non_vcl_def h264_isVCLNAL_def h264_types)
  then show ?case using Cons by simp
qed simp

lemma scan_no_idr:
  assumes "\<forall>u \<in> set us. nu_Data u \<noteq> [] \<longrightarrow> nu_Data u ! 0 AND 0x1F \<noteq> H264NALTypeIDR" and "hs_sliceType s \<noteq> - 1"
  shows "hs_hasIDR (fold h264_scan_unit us s) = hs_hasIDR s \<and> hs_hasValidIDRSlice (fold h264_scan_unit us s) = hs_hasValidIDRSlice s \<and>
    hs_sliceType (fold h264_scan_unit us s) = hs_sliceType s"
  using assms
proof (induction us arbitrary: s)
  case (Cons u us)
  have "hs_hasIDR (h264_scan_unit u s) = hs_hasIDR s \<and> hs_hasValidIDRSlice (h264_scan_unit u s) = hs_hasValidIDRSlice s \<and>
      hs_sliceType (h264_scan_unit u s) = hs_sliceType s"
    using Cons.prems by (auto simp: h264_scan_unit_def Let_def)
  then show ?case using Cons by simp
qed simp

lemma frame_type_units:
  assumes "\<forall>u \<in> set before. non_vcl (nu_Data u)" and "nu_Data u = header # payload" and "payload \<noteq> []"
    and "header AND 0x1F = 1 \<or> header AND 0x1F = 5" and "parseSliceTypeFromNAL (header # payload) = int st"
    and "\<forall>u \<in> set behind. nu_Data u \<noteq> [] \<longrightarrow> nu_Data u ! 0 AND 0x1F \<noteq> H264NALTypeIDR"
  shows "h264_GetFrameType (before @ u # behind) = (if header AND 0x1F = 5 \<and> st \<in> {2, 7} then FrameTypeIDR else slice_frame_type (int st))"
proof -
  define s0 where "s0 = \<lparr>hs_hasIDR = False, hs_hasValidIDRSlice = False, hs_hasSPS = False, hs_hasPPS = False, hs_sliceType = - 1\<rparr>"
  define s1 where "s1 = fold h264_scan_unit before s0"
  define s2 where "s2 = h264_scan_unit u s1"
  have 1: "\<not> hs_hasValidIDRSlice s1" "\<not> hs_hasIDR s1" "hs_sliceType s1 = - 1" using scan_non_vcl [OF assms(1), of s0] by (simp_all add: s1_def s0_def)
  have 2: "hs_sliceType s2 = int st" "hs_hasValidIDRSlice s2 = (header AND 0x1F = 5 \<and> st \<in> {2, 7})"
    using assms(2-5) 1 by (auto simp: s2_def h264_scan_unit_def Let_def h264_types h264_isVCLNAL_def)
  have "fold h264_scan_unit (before @ u # behind) s0 = fold h264_scan_unit behind s2" by (simp add: s1_def s2_def)
  then show ?thesis using scan_no_idr [OF assms(6), of s2] 2 unfolding h264_GetFrameType_def s0_def [symmetric] Let_def by auto
qed

section \<open>From bytes to the frame type\<close>

lemma parse_annexb:
  assumes "us \<noteq> []" and "list_all (\<lambda>(long, u). clean u) us"
  shows "map nu_Data (asm_parseNALUnits CodecH264 (annexb us)) = map snd us"
proof -
  have "findStartCodeUnits (annexb us) = map snd us"
    using start_code_units_annexb [OF assms(2)] assms(1) by (simp add: findStartCodeUnits_def Let_def)
  moreover have "filter (\<lambda>u. length u > 0) (map snd us) = map snd us"
    using assms(2) by (auto simp: filter_id_conv list_all_iff clean_def)
  ultimately show ?thesis by (simp add: asm_parseNALUnits_def comp_def)
qed



end
