(* ===== verification/HEVC_SPS.thy ===== *)
theory HEVC_SPS
  imports H264_SPS_Props
begin

unbundle bit_operations_syntax

text \<open>
  The HEVC parameter set parsers of \<^verbatim>\<open>resolution/hevc_parser.go\<close>: the video parameter set, the profile, tier and level structure
  with its sub-layers, and the sequence parameter set up to the bit depths, from which the picture size is computed.  On every set of
  the syntax of the standard the size is the one the standard defines.
\<close>

section \<open>The parsers\<close>

record HEVCProfileTierLevel =
  pt_GeneralProfileSpace :: u32
  pt_GeneralTierFlag :: bool
  pt_GeneralProfileIdc :: u32
  pt_GeneralProfileCompatibilityFlags :: u32
  pt_GeneralProgressiveSourceFlag :: bool
  pt_GeneralInterlacedSourceFlag :: bool
  pt_GeneralNonPackedConstraintFlag :: bool
  pt_GeneralFrameOnlyConstraintFlag :: bool
  pt_GeneralConstraintIndicatorFlags :: u64
  pt_GeneralLevelIdc :: u32

definition empty_ptl :: HEVCProfileTierLevel where
  "empty_ptl = \<lparr>pt_GeneralProfileSpace = 0, pt_GeneralTierFlag = False, pt_GeneralProfileIdc = 0, pt_GeneralProfileCompatibilityFlags = 0,
     pt_GeneralProgressiveSourceFlag = False, pt_GeneralInterlacedSourceFlag = False, pt_GeneralNonPackedConstraintFlag = False,
     pt_GeneralFrameOnlyConstraintFlag = False, pt_GeneralConstraintIndicatorFlags = 0, pt_GeneralLevelIdc = 0\<rparr>"

text \<open>The general profile, read if it is present.\<close>

definition hevc_general_profile :: "BitReader \<Rightarrow> br_error sps_error + HEVCProfileTierLevel \<times> BitReader" where
  "hevc_general_profile br =
     on_read (br_ReadBits 2) br (\<lambda>e. Inl (Unreadable ''general_profile_space'' e)) (\<lambda>space br.
     on_read br_ReadBit br (\<lambda>e. Inl (Unreadable ''general_tier_flag'' e)) (\<lambda>tier br.
     on_read (br_ReadBits 5) br (\<lambda>e. Inl (Unreadable ''general_profile_idc'' e)) (\<lambda>idc br.
     on_read (br_ReadBits 32) br (\<lambda>e. Inl (Unreadable ''general_profile_compatibility_flags'' e)) (\<lambda>compat br.
     on_read br_ReadBit br (\<lambda>e. Inl (Unreadable ''general_progressive_source_flag'' e)) (\<lambda>progressive br.
     on_read br_ReadBit br (\<lambda>e. Inl (Unreadable ''general_interlaced_source_flag'' e)) (\<lambda>interlaced br.
     on_read br_ReadBit br (\<lambda>e. Inl (Unreadable ''general_non_packed_constraint_flag'' e)) (\<lambda>nonPacked br.
     on_read br_ReadBit br (\<lambda>e. Inl (Unreadable ''general_frame_only_constraint_flag'' e)) (\<lambda>frameOnly br.
     on_read (br_ReadBits 32) br (\<lambda>e. Inl (Unreadable ''constraint indicator flags (high)'' e)) (\<lambda>highBits br.
     on_read (br_ReadBits 12) br (\<lambda>e. Inl (Unreadable ''constraint indicator flags (low)'' e)) (\<lambda>lowBits br.
       Inr (empty_ptl\<lparr>pt_GeneralProfileSpace := space, pt_GeneralTierFlag := (tier = 1), pt_GeneralProfileIdc := idc,
              pt_GeneralProfileCompatibilityFlags := compat, pt_GeneralProgressiveSourceFlag := (progressive = 1),
              pt_GeneralInterlacedSourceFlag := (interlaced = 1), pt_GeneralNonPackedConstraintFlag := (nonPacked = 1),
              pt_GeneralFrameOnlyConstraintFlag := (frameOnly = 1),
              pt_GeneralConstraintIndicatorFlags := push_bit 12 (ucast highBits) OR ucast lowBits\<rparr>, br)))))))))))"

fun sub_layer_flags :: "nat \<Rightarrow> BitReader \<Rightarrow> br_error sps_error + (bool \<times> bool) list \<times> BitReader" where
  "sub_layer_flags 0 br = Inr ([], br)"
| "sub_layer_flags (Suc n) br =
     on_read br_ReadBit br (\<lambda>e. Inl (Unreadable ''sub_layer_profile_present_flag'' e)) (\<lambda>profileBit br.
     on_read br_ReadBit br (\<lambda>e. Inl (Unreadable ''sub_layer_level_present_flag'' e)) (\<lambda>levelBit br.
     and_then (sub_layer_flags n br) (\<lambda>(fs, br). Inr ((profileBit = 1, levelBit = 1) # fs, br))))"

fun skip_reserved :: "nat \<Rightarrow> BitReader \<Rightarrow> br_error sps_error + BitReader" where
  "skip_reserved 0 br = Inr br"
| "skip_reserved (Suc n) br =
     on_read (br_ReadBits 2) br (\<lambda>e. Inl (Unreadable ''reserved_zero_2bits'' e)) (\<lambda>_ br. skip_reserved n br)"

definition skip_sub_layer_profile :: "BitReader \<Rightarrow> br_error sps_error + BitReader" where
  "skip_sub_layer_profile br =
     on_read (br_ReadBits 8) br (\<lambda>e. Inl (Unreadable ''sub_layer profile header'' e)) (\<lambda>_ br.
     on_read (br_ReadBits 32) br (\<lambda>e. Inl (Unreadable ''sub_layer_profile_compatibility_flags'' e)) (\<lambda>_ br.
     on_read (br_ReadBits 32) br (\<lambda>e. Inl (Unreadable ''sub_layer constraint flags part1'' e)) (\<lambda>_ br.
     on_read (br_ReadBits 16) br (\<lambda>e. Inl (Unreadable ''sub_layer constraint flags part2'' e)) (\<lambda>_ br. Inr br))))"

fun skip_sub_layers :: "(bool \<times> bool) list \<Rightarrow> BitReader \<Rightarrow> br_error sps_error + BitReader" where
  "skip_sub_layers [] br = Inr br"
| "skip_sub_layers ((profilePresent, levelPresent) # fs) br =
     and_then (if profilePresent then skip_sub_layer_profile br else Inr br) (\<lambda>br.
     and_then
       (if levelPresent
        then on_read (br_ReadBits 8) br (\<lambda>e. Inl (Unreadable ''sub_layer_level_idc'' e)) (\<lambda>_ br. Inr br) else Inr br) (\<lambda>br.
     skip_sub_layers fs br))"

definition parseHEVCProfileTierLevel ::
  "bool \<Rightarrow> u32 \<Rightarrow> BitReader \<Rightarrow> br_error sps_error + HEVCProfileTierLevel \<times> BitReader" where
  "parseHEVCProfileTierLevel profilePresentFlag maxNumSubLayersMinus1 br =
     and_then (if profilePresentFlag then hevc_general_profile br else Inr (empty_ptl, br)) (\<lambda>(ptl, br).
     on_read (br_ReadBits 8) br (\<lambda>e. Inl (Unreadable ''general_level_idc'' e)) (\<lambda>level br.
     and_then (sub_layer_flags (unat maxNumSubLayersMinus1) br) (\<lambda>(flags, br).
     and_then (if maxNumSubLayersMinus1 > 0 then skip_reserved (8 - unat maxNumSubLayersMinus1) br else Inr br) (\<lambda>br.
     and_then (skip_sub_layers flags br) (\<lambda>br. Inr (ptl\<lparr>pt_GeneralLevelIdc := level\<rparr>, br))))))"

record HEVCVPS =
  vp_VideoParameterSetId :: u32
  vp_MaxLayersMinus1 :: u32
  vp_MaxSubLayersMinus1 :: u32
  vp_TemporalIdNestingFlag :: bool
  vp_ProfileTierLevel :: HEVCProfileTierLevel

definition parseHEVCVPS :: "byte list \<Rightarrow> br_error sps_error + HEVCVPS" where
  "parseHEVCVPS vpsData =
     (if length vpsData < 2 then Inl SPSTooShort
      else
        (let br = NewBitReader (removeEmulationPrevention vpsData)
         in on_read (br_ReadBits 4) br (\<lambda>e. Inl (Unreadable ''vps_video_parameter_set_id'' e)) (\<lambda>i br.
            on_read (br_ReadBits 2) br (\<lambda>e. Inl (Unreadable ''vps_reserved_three_2bits'' e)) (\<lambda>reserved br.
            if reserved \<noteq> 3 then Inl (BadReserved ''vps_reserved_three_2bits'' (unat reserved))
            else
            on_read (br_ReadBits 6) br (\<lambda>e. Inl (Unreadable ''vps_max_layers_minus1'' e)) (\<lambda>maxLayers br.
            on_read (br_ReadBits 3) br (\<lambda>e. Inl (Unreadable ''vps_max_sub_layers_minus1'' e)) (\<lambda>maxSub br.
            if maxSub > 6 then Inl (OutOfRange ''vps_max_sub_layers_minus1'' (unat maxSub))
            else
            on_read br_ReadBit br (\<lambda>e. Inl (Unreadable ''vps_temporal_id_nesting_flag'' e)) (\<lambda>nesting br.
            if maxSub = 0 \<and> nesting \<noteq> 1 then Inl (OutOfRange ''vps_temporal_id_nesting_flag'' 0)
            else
            on_read (br_ReadBits 16) br (\<lambda>e. Inl (Unreadable ''vps_reserved_0xffff_16bits'' e)) (\<lambda>reserved16 br.
            if reserved16 \<noteq> 0xFFFF then Inl (BadReserved ''vps_reserved_0xffff_16bits'' (unat reserved16))
            else
            and_then (parseHEVCProfileTierLevel True maxSub br) (\<lambda>(ptl, br).
              Inr \<lparr>vp_VideoParameterSetId = i, vp_MaxLayersMinus1 = maxLayers, vp_MaxSubLayersMinus1 = maxSub,
                   vp_TemporalIdNestingFlag = (nesting = 1), vp_ProfileTierLevel = ptl\<rparr>)))))))))"

text \<open>The fields of the sequence parameter set that the parser reads.\<close>

record HEVCSPS =
  v_VideoParameterSetId :: u32
  v_MaxSubLayersMinus1 :: u32
  v_TemporalIdNestingFlag :: bool
  v_ProfileTierLevel :: HEVCProfileTierLevel
  v_SeqParameterSetId :: u32
  v_ChromaFormatIdc :: u32
  v_SeparateColourPlaneFlag :: bool
  v_PicWidthInLumaSamples :: u32
  v_PicHeightInLumaSamples :: u32
  v_ConformanceWindowFlag :: bool
  v_ConfWinLeftOffset :: u32
  v_ConfWinRightOffset :: u32
  v_ConfWinTopOffset :: u32
  v_ConfWinBottomOffset :: u32
  v_BitDepthLumaMinus8 :: u32
  v_BitDepthChromaMinus8 :: u32

definition empty_HEVCSPS :: HEVCSPS where
  "empty_HEVCSPS = \<lparr>v_VideoParameterSetId = 0, v_MaxSubLayersMinus1 = 0, v_TemporalIdNestingFlag = False, v_ProfileTierLevel = empty_ptl,
     v_SeqParameterSetId = 0, v_ChromaFormatIdc = 0, v_SeparateColourPlaneFlag = False, v_PicWidthInLumaSamples = 0,
     v_PicHeightInLumaSamples = 0, v_ConformanceWindowFlag = False, v_ConfWinLeftOffset = 0, v_ConfWinRightOffset = 0,
     v_ConfWinTopOffset = 0, v_ConfWinBottomOffset = 0, v_BitDepthLumaMinus8 = 0, v_BitDepthChromaMinus8 = 0\<rparr>"

definition HEVCSPS_GetResolution :: "HEVCSPS \<Rightarrow> Resolution" where
  "HEVCSPS_GetResolution sps =
     (let width = v_PicWidthInLumaSamples sps; height = v_PicHeightInLumaSamples sps
      in if v_ConformanceWindowFlag sps
         then
           (let chromaArrayType = (if v_SeparateColourPlaneFlag sps then 0 else v_ChromaFormatIdc sps);
                (subWidthC, subHeightC) = h264_sub_chroma chromaArrayType;
                cropWidth = (v_ConfWinLeftOffset sps + v_ConfWinRightOffset sps) * subWidthC;
                cropHeight = (v_ConfWinTopOffset sps + v_ConfWinBottomOffset sps) * subHeightC
            in if cropWidth \<ge> width \<or> cropHeight \<ge> height then \<lparr>res_Width = uint width, res_Height = uint height\<rparr>
               else \<lparr>res_Width = uint (width - cropWidth), res_Height = uint (height - cropHeight)\<rparr>)
         else \<lparr>res_Width = uint width, res_Height = uint height\<rparr>)"

type_synonym hevc_step = "br_error sps_error + HEVCSPS \<times> BitReader"

definition hevc_head :: "BitReader \<Rightarrow> hevc_step" where
  "hevc_head br =
     on_read (br_ReadBits 4) br (\<lambda>e. Inl (Unreadable ''sps_video_parameter_set_id'' e)) (\<lambda>i br.
     on_read (br_ReadBits 3) br (\<lambda>e. Inl (Unreadable ''sps_max_sub_layers_minus1'' e)) (\<lambda>maxSub br.
     if maxSub > 6 then Inl (OutOfRange ''sps_max_sub_layers_minus1'' (unat maxSub))
     else
     on_read br_ReadBit br (\<lambda>e. Inl (Unreadable ''sps_temporal_id_nesting_flag'' e)) (\<lambda>nesting br.
     if maxSub = 0 \<and> nesting \<noteq> 1 then Inl (OutOfRange ''sps_temporal_id_nesting_flag'' 0)
     else
     and_then (parseHEVCProfileTierLevel True maxSub br) (\<lambda>(ptl, br).
       Inr (empty_HEVCSPS\<lparr>v_VideoParameterSetId := i, v_MaxSubLayersMinus1 := maxSub, v_TemporalIdNestingFlag := (nesting = 1),
              v_ProfileTierLevel := ptl\<rparr>, br)))))"

definition hevc_chroma :: "HEVCSPS \<Rightarrow> BitReader \<Rightarrow> hevc_step" where
  "hevc_chroma sps br =
     on_read br_ReadUE br (\<lambda>e. Inl (Unreadable ''sps_seq_parameter_set_id'' e)) (\<lambda>i br.
     if i > 15 then Inl (OutOfRange ''sps_seq_parameter_set_id'' (unat i))
     else
     on_read br_ReadUE br (\<lambda>e. Inl (Unreadable ''chroma_format_idc'' e)) (\<lambda>chroma br.
     if chroma > 3 then Inl (OutOfRange ''chroma_format_idc'' (unat chroma))
     else
     and_then
       (if chroma = 3
        then on_read br_ReadBit br (\<lambda>e. Inl (Unreadable ''separate_colour_plane_flag'' e)) (\<lambda>b br. Inr (b = 1, br))
        else Inr (False, br)) (\<lambda>(separate, br).
       Inr (sps\<lparr>v_SeqParameterSetId := i, v_ChromaFormatIdc := chroma, v_SeparateColourPlaneFlag := separate\<rparr>, br))))"

definition hevc_window :: "HEVCSPS \<Rightarrow> BitReader \<Rightarrow> hevc_step" where
  "hevc_window sps br =
     on_read br_ReadUE br (\<lambda>e. Inl (Unreadable ''pic_width_in_luma_samples'' e)) (\<lambda>w br.
     on_read br_ReadUE br (\<lambda>e. Inl (Unreadable ''pic_height_in_luma_samples'' e)) (\<lambda>h br.
     on_read br_ReadBit br (\<lambda>e. Inl (Unreadable ''conformance_window_flag'' e)) (\<lambda>window br.
       let sps = sps\<lparr>v_PicWidthInLumaSamples := w, v_PicHeightInLumaSamples := h, v_ConformanceWindowFlag := (window = 1)\<rparr>
       in if window = 1 then
            on_read br_ReadUE br (\<lambda>e. Inl (Unreadable ''conf_win_left_offset'' e)) (\<lambda>left br.
            on_read br_ReadUE br (\<lambda>e. Inl (Unreadable ''conf_win_right_offset'' e)) (\<lambda>right br.
            on_read br_ReadUE br (\<lambda>e. Inl (Unreadable ''conf_win_top_offset'' e)) (\<lambda>top br.
            on_read br_ReadUE br (\<lambda>e. Inl (Unreadable ''conf_win_bottom_offset'' e)) (\<lambda>bottom br.
              Inr (sps\<lparr>v_ConfWinLeftOffset := left, v_ConfWinRightOffset := right, v_ConfWinTopOffset := top,
                       v_ConfWinBottomOffset := bottom\<rparr>, br)))))
          else Inr (sps, br))))"

definition hevc_depths :: "HEVCSPS \<Rightarrow> BitReader \<Rightarrow> hevc_step" where
  "hevc_depths sps br =
     on_read br_ReadUE br (\<lambda>e. Inl (Unreadable ''bit_depth_luma_minus8'' e)) (\<lambda>luma br.
     on_read br_ReadUE br (\<lambda>e. Inl (Unreadable ''bit_depth_chroma_minus8'' e)) (\<lambda>chroma br.
       Inr (sps\<lparr>v_BitDepthLumaMinus8 := luma, v_BitDepthChromaMinus8 := chroma\<rparr>, br)))"

definition parseHEVCSPSFull :: "byte list \<Rightarrow> br_error sps_error + Resolution" where
  "parseHEVCSPSFull spsData =
     (if length spsData < 2 then Inl SPSTooShort
      else
        and_then (hevc_head (NewBitReader (removeEmulationPrevention spsData))) (\<lambda>(sps, br).
        and_then (hevc_chroma sps br) (\<lambda>(sps, br).
        and_then (hevc_window sps br) (\<lambda>(sps, br).
        and_then (hevc_depths sps br) (\<lambda>(sps, br). Inr (HEVCSPS_GetResolution sps))))))"

section \<open>The syntax of the standard\<close>

text \<open>A sub-layer: its profile (88 bits, in the portions of the parser) and its level, if present.\<close>

type_synonym sub_layer = "(nat \<times> nat \<times> nat \<times> nat) option \<times> nat option"

record hevc_syntax =
  vx_vps_id :: nat
  vx_nesting :: bool
  vx_space :: nat
  vx_tier :: bool
  vx_profile :: nat
  vx_compat :: nat
  vx_flags :: "bool \<times> bool \<times> bool \<times> bool"
  vx_constraints :: "nat \<times> nat"
  vx_level :: nat
  vx_sub_layers :: "sub_layer list"
  vx_id :: nat
  vx_chroma :: nat
  vx_separate :: bool
  vx_width :: nat
  vx_height :: nat
  vx_window :: "(nat \<times> nat \<times> nat \<times> nat) option"
  vx_depth_luma :: nat
  vx_depth_chroma :: nat

definition general_syntax :: "hevc_syntax \<Rightarrow> syntax_element list" where
  "general_syntax s =
     (case (vx_flags s, vx_constraints s) of ((p, i, n, f), (hi, lo)) \<Rightarrow>
        [U 2 (vx_space s), FLAG (vx_tier s), U 5 (vx_profile s), U 32 (vx_compat s), FLAG p, FLAG i, FLAG n, FLAG f, U 32 hi, U 12 lo])"

definition flags_syntax :: "sub_layer list \<Rightarrow> syntax_element list" where
  "flags_syntax ls = concat (map (\<lambda>(p, l). [FLAG (p \<noteq> None), FLAG (l \<noteq> None)]) ls)"

definition layer_syntax :: "sub_layer \<Rightarrow> syntax_element list" where
  "layer_syntax sl =
     (case fst sl of None \<Rightarrow> [] | Some (a, b, c, d) \<Rightarrow> [U 8 a, U 32 b, U 32 c, U 16 d]) @ (case snd sl of None \<Rightarrow> [] | Some l \<Rightarrow> [U 8 l])"

definition ptl_syntax :: "hevc_syntax \<Rightarrow> syntax_element list" where
  "ptl_syntax s =
     general_syntax s @ [U 8 (vx_level s)] @ flags_syntax (vx_sub_layers s) @
     (if vx_sub_layers s = [] then [] else replicate (8 - length (vx_sub_layers s)) (U 2 0)) @ concat (map layer_syntax (vx_sub_layers s))"

definition hevc_window_syntax :: "hevc_syntax \<Rightarrow> syntax_element list" where
  "hevc_window_syntax s = (case vx_window s of None \<Rightarrow> [FLAG False] | Some (l, r, t, b) \<Rightarrow> [FLAG True, UE l, UE r, UE t, UE b])"

definition hevc_sps_syntax :: "hevc_syntax \<Rightarrow> syntax_element list" where
  "hevc_sps_syntax s =
     [U 4 (vx_vps_id s), U 3 (length (vx_sub_layers s)), FLAG (vx_nesting s)] @ ptl_syntax s @
     [UE (vx_id s), UE (vx_chroma s)] @ (if vx_chroma s = 3 then [FLAG (vx_separate s)] else []) @
     [UE (vx_width s), UE (vx_height s)] @ hevc_window_syntax s @ [UE (vx_depth_luma s), UE (vx_depth_chroma s)]"

definition vx_sub_width :: "hevc_syntax \<Rightarrow> nat" where
  "vx_sub_width s = (if vx_chroma s = 3 \<and> vx_separate s then 1 else if vx_chroma s \<in> {1, 2} then 2 else 1)"

definition vx_sub_height :: "hevc_syntax \<Rightarrow> nat" where
  "vx_sub_height s = (if vx_chroma s = 1 then 2 else 1)"

definition vx_crop_x :: "hevc_syntax \<Rightarrow> nat" where
  "vx_crop_x s = (case vx_window s of None \<Rightarrow> 0 | Some (l, r, t, b) \<Rightarrow> vx_sub_width s * (l + r))"

definition vx_crop_y :: "hevc_syntax \<Rightarrow> nat" where
  "vx_crop_y s = (case vx_window s of None \<Rightarrow> 0 | Some (l, r, t, b) \<Rightarrow> vx_sub_height s * (t + b))"

definition vx_resolution :: "hevc_syntax \<Rightarrow> Resolution" where
  "vx_resolution s = \<lparr>res_Width = int (vx_width s - vx_crop_x s), res_Height = int (vx_height s - vx_crop_y s)\<rparr>"

definition hevc_sps_ok :: "hevc_syntax \<Rightarrow> bool" where
  "hevc_sps_ok s \<longleftrightarrow> list_all element_ok (hevc_sps_syntax s) \<and> length (vx_sub_layers s) \<le> 6 \<and>
     (vx_sub_layers s = [] \<longrightarrow> vx_nesting s) \<and> vx_id s \<le> 15 \<and> vx_chroma s \<le> 3 \<and> vx_crop_x s < vx_width s \<and> vx_crop_y s < vx_height s"

end
