(* ===== verification/HEVC_SPS_Props.thy ===== *)
theory HEVC_SPS_Props
  imports HEVC_SPS
begin

unbundle bit_operations_syntax

text \<open>
  On every sequence parameter set of the HEVC syntax, with any sub-layers, the parser returns the size that the standard defines.
\<close>

section \<open>The steps of the parser consume their syntax\<close>

lemma general_consumes:
  assumes "reads br (syntax_bits (general_syntax s) @ r)" and "list_all element_ok (general_syntax s)"
    and "\<And>br' ptl. reads br' r \<Longrightarrow> k (ptl, br') = res"
  shows "and_then (hevc_general_profile br) k = res"
proof -
  obtain p i n f hi lo where fl: "vx_flags s = (p, i, n, f)" "vx_constraints s = (hi, lo)" by (metis prod.exhaust)
  have "reads br (to_bits 2 (vx_space s) @ to_bits 1 (of_bool (vx_tier s)) @ to_bits 5 (vx_profile s) @ to_bits 32 (vx_compat s) @
      to_bits 1 (of_bool p) @ to_bits 1 (of_bool i) @ to_bits 1 (of_bool n) @ to_bits 1 (of_bool f) @ to_bits 32 hi @ to_bits 12 lo @ r)"
    using assms(1) by (simp add: general_syntax_def fl)
  then show ?thesis using assms(2) unfolding hevc_general_profile_def and_then_on_read
    by (elim reads_rules; simp add: general_syntax_def fl assms(3))
qed

lemma flags_consumes:
  assumes "reads br (syntax_bits (flags_syntax ls) @ r)"
  shows "\<exists>br'. sub_layer_flags (length ls) br = Inr (map (\<lambda>(p, l). (p \<noteq> None, l \<noteq> None)) ls, br') \<and> reads br' r"
  using assms
proof (induction ls arbitrary: br)
  case (Cons sl ls)
  obtain p l where sl: "sl = (p, l)" by (cases sl)
  have "reads br (to_bits 1 (of_bool (p \<noteq> None)) @ to_bits 1 (of_bool (l \<noteq> None)) @ syntax_bits (flags_syntax ls) @ r)"
    using Cons.prems by (simp add: flags_syntax_def sl)
  then have "br_rest br = (p \<noteq> None) # (l \<noteq> None) # syntax_bits (flags_syntax ls) @ r" "br_inv br" by (simp_all add: reads_def)
  then obtain br1 where 1: "br_ReadBit br = (br1, Inr (of_bool (p \<noteq> None)))" "br_inv br1" "br_rest br1 = (l \<noteq> None) # syntax_bits (flags_syntax ls) @ r"
    by (auto elim: br_ReadBit_Cons)
  then obtain br2 where 2: "br_ReadBit br1 = (br2, Inr (of_bool (l \<noteq> None)))" "reads br2 (syntax_bits (flags_syntax ls) @ r)"
    by (auto simp: reads_def elim: br_ReadBit_Cons)
  obtain br3 where "sub_layer_flags (length ls) br2 = Inr (map (\<lambda>(p, l). (p \<noteq> None, l \<noteq> None)) ls, br3)" "reads br3 r" using Cons.IH [OF 2(2)] by blast
  then show ?case using 1(1) 2(1) by (simp add: on_read_def sl)
qed (simp add: flags_syntax_def)

lemma reserved_consumes:
  "reads br (syntax_bits (replicate n (U 2 0)) @ r) \<Longrightarrow> (\<And>br'. reads br' r \<Longrightarrow> k br' = res) \<Longrightarrow> and_then (skip_reserved n br) k = res"
proof (induction n arbitrary: br)
  case (Suc n)
  have "reads br (to_bits 2 0 @ syntax_bits (replicate n (U 2 0)) @ r)" using Suc.prems(1) by simp
  then show ?case unfolding skip_reserved.simps and_then_on_read by (rule on_bits(1)) (simp_all add: Suc)
qed simp

lemma layer_profile_consumes:
  assumes "reads br (syntax_bits [U 8 a, U 32 b, U 32 c, U 16 d] @ r)" and "list_all element_ok [U 8 a, U 32 b, U 32 c, U 16 d]"
    and "\<And>br'. reads br' r \<Longrightarrow> k br' = res"
  shows "and_then (skip_sub_layer_profile br) k = res"
proof -
  have "reads br (to_bits 8 a @ to_bits 32 b @ to_bits 32 c @ to_bits 16 d @ r)" using assms(1) by simp
  then show ?thesis using assms(2) unfolding skip_sub_layer_profile_def and_then_on_read by (elim reads_rules; simp add: assms(3))
qed

lemma layer_level_consumes:
  assumes "reads br (to_bits 8 l @ r)" and "l < 2 ^ 8" and "\<And>br'. reads br' r \<Longrightarrow> k br' = res"
  shows "and_then (on_read (br_ReadBits 8) br (\<lambda>e. Inl (Unreadable ''sub_layer_level_idc'' e)) (\<lambda>_ br. Inr br)) k = res"
  unfolding and_then_on_read by (rule on_bits(1) [OF assms(1)]) (use assms(2,3) in simp_all)

lemma layers_consumes:
  "reads br (syntax_bits (concat (map layer_syntax ls)) @ r) \<Longrightarrow> list_all element_ok (concat (map layer_syntax ls)) \<Longrightarrow>
   (\<And>br'. reads br' r \<Longrightarrow> k br' = res) \<Longrightarrow> and_then (skip_sub_layers (map (\<lambda>(p, l). (p \<noteq> None, l \<noteq> None)) ls) br) k = res"
proof (induction ls arbitrary: br)
  case (Cons sl ls)
  obtain p l where sl: "sl = (p, l)" by (cases sl)
  let ?r = "syntax_bits (concat (map layer_syntax ls)) @ r"
  have syn: "layer_syntax sl = (case p of None \<Rightarrow> [] | Some (a, b, c, d) \<Rightarrow> [U 8 a, U 32 b, U 32 c, U 16 d]) @ (case l of None \<Rightarrow> [] | Some l \<Rightarrow> [U 8 l])"
    by (simp add: layer_syntax_def sl)
  have ok: "list_all element_ok (layer_syntax sl)" "list_all element_ok (concat (map layer_syntax ls))" using Cons.prems(2) by simp_all
  have IH: "and_then (skip_sub_layers (map (\<lambda>(p, l). (p \<noteq> None, l \<noteq> None)) ls) br') k = res" if "reads br' ?r" for br'
    using Cons.IH [OF that ok(2) Cons.prems(3)] .
  have level: "and_then (if l \<noteq> None then on_read (br_ReadBits 8) br1 (\<lambda>e. Inl (Unreadable ''sub_layer_level_idc'' e)) (\<lambda>_ br. Inr br) else Inr br1)
      (\<lambda>br. and_then (skip_sub_layers (map (\<lambda>(p, l). (p \<noteq> None, l \<noteq> None)) ls) br) k) = res"
    if "reads br1 (syntax_bits (case l of None \<Rightarrow> [] | Some l \<Rightarrow> [U 8 l]) @ ?r)" for br1
  proof (cases l)
    case None
    then show ?thesis using that IH by simp
  next
    case (Some v)
    then have "reads br1 (to_bits 8 v @ ?r)" "v < 2 ^ 8" using that ok(1) by (simp_all add: syn)
    from layer_level_consumes [OF this IH] Some show ?thesis by simp
  qed
  show ?case
  proof (cases p)
    case None
    then have "reads br (syntax_bits (case l of None \<Rightarrow> [] | Some l \<Rightarrow> [U 8 l]) @ ?r)" using Cons.prems(1) syn by simp
    from level [OF this] None show ?thesis by (cases l) (simp_all add: sl and_then_on_read)
  next
    case (Some q)
    obtain a b c d where q: "q = (a, b, c, d)" by (metis prod.exhaust)
    have "reads br (syntax_bits [U 8 a, U 32 b, U 32 c, U 16 d] @ (syntax_bits (case l of None \<Rightarrow> [] | Some l \<Rightarrow> [U 8 l]) @ ?r))"
      using Cons.prems(1) by (simp add: syn Some q)
    moreover have "list_all element_ok [U 8 a, U 32 b, U 32 c, U 16 d]" using ok(1) by (simp add: syn Some q)
    ultimately show ?thesis using layer_profile_consumes [of br a b c d _ _ res] level by (cases l) (simp_all add: sl Some q and_then_on_read)
  qed
qed simp

lemma ptl_consumes:
  assumes "reads br (syntax_bits (ptl_syntax s) @ r)" and "list_all element_ok (ptl_syntax s)" and "length (vx_sub_layers s) \<le> 6"
    and "n = of_nat (length (vx_sub_layers s))" and "\<And>br' ptl. reads br' r \<Longrightarrow> k (ptl, br') = res"
  shows "and_then (parseHEVCProfileTierLevel True n br) k = res"
proof -
  let ?ls = "vx_sub_layers s"
  let ?r3 = "syntax_bits (concat (map layer_syntax ?ls)) @ r"
  let ?r2 = "syntax_bits (if ?ls = [] then [] else replicate (8 - length ?ls) (U 2 0)) @ ?r3"
  let ?r1 = "syntax_bits (flags_syntax ?ls) @ ?r2"
  have n: "unat n = length ?ls" using assms(3) by (simp add: assms(4) unat_of_nat)
  then have pos: "n > 0 \<longleftrightarrow> ?ls \<noteq> []" by (simp add: word_greater_zero_iff unat_eq_zero [symmetric])
  have ok: "list_all element_ok (general_syntax s)" "vx_level s < 2 ^ 8" "list_all element_ok (concat (map layer_syntax ?ls))"
    using assms(2) by (simp_all add: ptl_syntax_def)
  have "reads br (syntax_bits (general_syntax s) @ (to_bits 8 (vx_level s) @ ?r1))" using assms(1) by (simp add: ptl_syntax_def)
  then show ?thesis unfolding parseHEVCProfileTierLevel_def if_True and_then_assoc
  proof (rule general_consumes [OF _ ok(1)], unfold prod.case and_then_on_read, elim on_bits(1))
    fix br1 br2 ptl assume "reads br2 ?r1"
    then obtain br3 where 3: "sub_layer_flags (length ?ls) br2 = Inr (map (\<lambda>(p, l). (p \<noteq> None, l \<noteq> None)) ?ls, br3)" "reads br3 ?r2"
      using flags_consumes by blast
    have tail: "and_then (skip_sub_layers (map (\<lambda>(p, l). (p \<noteq> None, l \<noteq> None)) ?ls) br4)
        (\<lambda>br. k (ptl\<lparr>pt_GeneralLevelIdc := of_nat (vx_level s)\<rparr>, br)) = res" if "reads br4 ?r3" for br4
      by (rule layers_consumes [OF that ok(3)]) (rule assms(5))
    show "and_then (and_then (sub_layer_flags (unat n) br2) (\<lambda>(flags, br).
        and_then (if n > 0 then skip_reserved (8 - unat n) br else Inr br) (\<lambda>br.
        and_then (skip_sub_layers flags br) (\<lambda>br. Inr (ptl\<lparr>pt_GeneralLevelIdc := of_nat (vx_level s)\<rparr>, br))))) k = res"
    proof (cases "?ls = []")
      case True
      then show ?thesis using 3 tail pos n by simp
    next
      case False
      have "reads br3 (syntax_bits (replicate (8 - length ?ls) (U 2 0)) @ ?r3)" using 3(2) False by simp
      from reserved_consumes [OF this tail] show ?thesis using 3(1) False pos n by simp
    qed
  qed (use ok(2) in simp_all)
qed

lemma hevc_head_consumes:
  assumes "hevc_sps_ok s"
    and "reads br (to_bits 4 (vx_vps_id s) @ to_bits 3 (length (vx_sub_layers s)) @ to_bits 1 (of_bool (vx_nesting s)) @ syntax_bits (ptl_syntax s) @ r)"
    and "\<And>br' sps. reads br' r \<Longrightarrow> k (sps, br') = res"
  shows "and_then (hevc_head br) k = res"
proof -
  have ok: "vx_vps_id s < 2 ^ 4" "length (vx_sub_layers s) \<le> 6" "list_all element_ok (ptl_syntax s)" "vx_sub_layers s = [] \<longrightarrow> vx_nesting s"
    using assms(1) by (simp_all add: hevc_sps_ok_def hevc_sps_syntax_def)
  have n: "\<not> (of_nat (length (vx_sub_layers s)) :: u32) > 6" "(of_nat (length (vx_sub_layers s)) :: u32) = 0 \<longleftrightarrow> vx_sub_layers s = []"
    using ok(2) by (auto simp: word_less_nat_alt unat_of_nat word_unat_eq_iff)
  show ?thesis using assms(2) unfolding hevc_head_def and_then_on_read
    apply (elim on_bits(1))
    subgoal by simp
    subgoal by (rule ok)
    subgoal by simp
    subgoal by simp
    subgoal using ok(2) by simp
    subgoal by simp
    subgoal for br1 br2
      unfolding if_not_P [OF n(1)] and_then_on_read
      apply (elim reads_rules)
      subgoal for br3
        using ok(4) n(2) by (auto simp: ptl_consumes [OF _ ok(3,2) refl] assms(3) and_then_assoc and_then_split)
      done
    done
qed

lemma separate_consumes:
  assumes "reads br (syntax_bits (if c then [FLAG f] else []) @ r)" and "\<And>br'. reads br' r \<Longrightarrow> k (c \<and> f, br') = res"
  shows "and_then (if c then on_read br_ReadBit br (\<lambda>e. Inl (Unreadable ''separate_colour_plane_flag'' e)) (\<lambda>b br. Inr (b = 1, br))
                   else Inr (False, br)) k = res"
proof (cases c)
  case True
  then have "reads br (to_bits 1 (of_bool f) @ r)" using assms(1) by simp
  then show ?thesis unfolding if_P [OF True] and_then_on_read by (elim reads_rules) (use assms(2) True in \<open>cases f; simp\<close>)
qed (use assms in simp)

lemma hevc_chroma_consumes:
  assumes "reads br (ue_code (vx_id s) @ ue_code (vx_chroma s) @ syntax_bits (if vx_chroma s = 3 then [FLAG (vx_separate s)] else []) @ r)"
    and "vx_id s \<le> 15" and "vx_chroma s \<le> 3"
    and "\<And>br' sps'. reads br' r \<Longrightarrow> v_ChromaFormatIdc sps' = of_nat (vx_chroma s) \<Longrightarrow>
      v_SeparateColourPlaneFlag sps' = (vx_chroma s = 3 \<and> vx_separate s) \<Longrightarrow> k (sps', br') = res"
  shows "and_then (hevc_chroma sps br) k = res"
proof -
  have n: "\<not> (of_nat (vx_id s) :: u32) > 15" "\<not> (of_nat (vx_chroma s) :: u32) > 3" "(of_nat (vx_chroma s) :: u32) = 3 \<longleftrightarrow> vx_chroma s = 3"
    using assms(2,3) by (auto simp: word_less_nat_alt unat_of_nat word_unat_eq_iff)
  show ?thesis using assms(1) unfolding hevc_chroma_def and_then_on_read
    apply (elim on_ue(1))
    subgoal using assms(2) by simp
    subgoal for br1
      unfolding if_not_P [OF n(1)] and_then_on_read
      apply (elim on_ue(1))
      subgoal using assms(3) by simp
      subgoal for br2
        unfolding if_not_P [OF n(2)] n(3) and_then_assoc and_then_split
        by (elim separate_consumes) (simp add: assms(4))
      done
    done
qed

lemma hevc_window_consumes:
  assumes "reads br (ue_code (vx_width s) @ ue_code (vx_height s) @ syntax_bits (hevc_window_syntax s) @ r)"
    and "vx_width s < 2 ^ 32 - 1" and "vx_height s < 2 ^ 32 - 1" and "list_all element_ok (hevc_window_syntax s)"
    and "\<And>br' sps'. reads br' r \<Longrightarrow> v_ChromaFormatIdc sps' = v_ChromaFormatIdc sps \<Longrightarrow>
      v_SeparateColourPlaneFlag sps' = v_SeparateColourPlaneFlag sps \<Longrightarrow> v_PicWidthInLumaSamples sps' = of_nat (vx_width s) \<Longrightarrow>
      v_PicHeightInLumaSamples sps' = of_nat (vx_height s) \<Longrightarrow> v_ConformanceWindowFlag sps' = (vx_window s \<noteq> None) \<Longrightarrow>
      (case vx_window s of None \<Rightarrow> True
       | Some (l, r, t, b) \<Rightarrow> v_ConfWinLeftOffset sps' = of_nat l \<and> v_ConfWinRightOffset sps' = of_nat r \<and>
           v_ConfWinTopOffset sps' = of_nat t \<and> v_ConfWinBottomOffset sps' = of_nat b) \<Longrightarrow> k (sps', br') = res"
  shows "and_then (hevc_window sps br) k = res"
proof (cases "vx_window s")
  case None
  have "reads br (ue_code (vx_width s) @ ue_code (vx_height s) @ to_bits 1 0 @ r)" using assms(1) None by (simp add: hevc_window_syntax_def)
  then show ?thesis unfolding hevc_window_def and_then_on_read
    by (elim reads_rules) (use assms(2,3) in \<open>simp_all add: Let_def assms(5) None\<close>)
next
  case (Some c)
  obtain l rr t b where c: "c = (l, rr, t, b)" by (cases c)
  have ok: "l < 2 ^ 32 - 1" "rr < 2 ^ 32 - 1" "t < 2 ^ 32 - 1" "b < 2 ^ 32 - 1" using assms(4) Some c by (simp_all add: hevc_window_syntax_def)
  have "reads br (ue_code (vx_width s) @ ue_code (vx_height s) @ to_bits 1 1 @ ue_code l @ ue_code rr @ ue_code t @ ue_code b @ r)"
    using assms(1) Some c by (simp add: hevc_window_syntax_def)
  then show ?thesis unfolding hevc_window_def and_then_on_read
    apply (elim reads_rules)
    apply (rule assms)+
    apply (simp only: Let_def of_bool_eq le_refl simp_thms if_True and_then_on_read and_then_simps)
    apply (elim reads_rules)
    by (rule ok | rule assms(5) | simp add: Some c)+
qed

lemma resolution_ignores_depths:
  "HEVCSPS_GetResolution (sps\<lparr>v_BitDepthLumaMinus8 := x, v_BitDepthChromaMinus8 := y\<rparr>) = HEVCSPS_GetResolution sps"
  by (simp add: HEVCSPS_GetResolution_def Let_def)

lemma hevc_depths_consumes:
  assumes "reads br (ue_code (vx_depth_luma s) @ ue_code (vx_depth_chroma s) @ r)"
    and "vx_depth_luma s < 2 ^ 32 - 1" and "vx_depth_chroma s < 2 ^ 32 - 1"
    and "\<And>br' sps'. HEVCSPS_GetResolution sps' = HEVCSPS_GetResolution sps \<Longrightarrow> k (sps', br') = res"
  shows "and_then (hevc_depths sps br) k = res"
  using assms(1) unfolding hevc_depths_def and_then_on_read
  by (elim reads_rules) (rule assms(2,3) | unfold and_then_simps, rule assms(4) [OF resolution_ignores_depths])+

section \<open>The computed size\<close>

lemma sub_chroma_hevc:
  assumes "vx_chroma s \<le> 3"
  shows "h264_sub_chroma (if vx_chroma s = 3 \<and> vx_separate s then 0 else of_nat (vx_chroma s)) = (of_nat (vx_sub_width s), of_nat (vx_sub_height s))"
proof -
  have "vx_chroma s \<in> {0, 1, 2, 3}" using assms by auto
  then show ?thesis by (auto simp: h264_sub_chroma_def vx_sub_width_def vx_sub_height_def)
qed

lemma cropped_u32:
  fixes w c :: nat
  assumes "c < w" and "w < 2 ^ 32"
  shows "\<not> (of_nat w :: u32) \<le> of_nat c" and "uint (of_nat w - of_nat c :: u32) = int (w - c)"
proof -
  have "of_nat w - of_nat c = (of_nat (w - c) :: u32)" using assms by (simp add: of_nat_diff)
  then show "uint (of_nat w - of_nat c :: u32) = int (w - c)" using assms by (simp add: uint_of_nat_small del: of_nat_diff)
  show "\<not> (of_nat w :: u32) \<le> of_nat c" using assms by (simp add: word_le_nat_alt unat_of_nat take_bit_nat_eq_self)
qed

lemma HEVC_GetResolution_standard:
  assumes "hevc_sps_ok s" and "v_ChromaFormatIdc sps = of_nat (vx_chroma s)" and "v_SeparateColourPlaneFlag sps = (vx_chroma s = 3 \<and> vx_separate s)"
    and "v_PicWidthInLumaSamples sps = of_nat (vx_width s)" and "v_PicHeightInLumaSamples sps = of_nat (vx_height s)"
    and "v_ConformanceWindowFlag sps = (vx_window s \<noteq> None)"
    and "case vx_window s of None \<Rightarrow> True
       | Some (l, r, t, b) \<Rightarrow> v_ConfWinLeftOffset sps = of_nat l \<and> v_ConfWinRightOffset sps = of_nat r \<and>
           v_ConfWinTopOffset sps = of_nat t \<and> v_ConfWinBottomOffset sps = of_nat b"
  shows "HEVCSPS_GetResolution sps = vx_resolution s"
proof -
  have lt: "vx_width s < 2 ^ 32" "vx_height s < 2 ^ 32" and c: "vx_chroma s \<le> 3" "vx_crop_x s < vx_width s" "vx_crop_y s < vx_height s"
    using assms(1) by (auto simp: hevc_sps_ok_def hevc_sps_syntax_def)
  note crop = cropped_u32 [OF c(2) lt(1)] cropped_u32 [OF c(3) lt(2)]
  show ?thesis
  proof (cases "vx_window s")
    case None
    then show ?thesis using assms(6) lt by (simp add: HEVCSPS_GetResolution_def assms(4,5) uint_of_nat_small vx_resolution_def vx_crop_x_def vx_crop_y_def)
  next
    case (Some q)
    obtain l r t b where q: "q = (l, r, t, b)" by (cases q)
    have x: "(of_nat l + of_nat r) * of_nat (vx_sub_width s) = (of_nat (vx_crop_x s) :: u32)"
      "(of_nat t + of_nat b) * of_nat (vx_sub_height s) = (of_nat (vx_crop_y s) :: u32)"
      using Some q by (simp_all add: vx_crop_x_def vx_crop_y_def mult.commute)
    then show ?thesis using assms(6,7) Some q crop unfolding HEVCSPS_GetResolution_def Let_def assms(2-5) sub_chroma_hevc [OF c(1)] prod.case
      by (simp add: vx_resolution_def)
  qed
qed

lemma parseHEVCSPSFull_standard:
  assumes "hevc_sps_ok s" and "bits_of payload = syntax_bits (hevc_sps_syntax s) @ rest" and "2 \<le> length payload"
  shows "parseHEVCSPSFull (AddEmulationPreventionBytes payload) = Inr (vx_resolution s)"
proof -
  have ok: "vx_id s \<le> 15" "vx_chroma s \<le> 3" "vx_width s < 2 ^ 32 - 1" "vx_height s < 2 ^ 32 - 1" "list_all element_ok (hevc_window_syntax s)"
    "vx_depth_luma s < 2 ^ 32 - 1" "vx_depth_chroma s < 2 ^ 32 - 1"
    using assms(1) by (auto simp: hevc_sps_ok_def hevc_sps_syntax_def)
  have "reads (NewBitReader payload) (to_bits 4 (vx_vps_id s) @ to_bits 3 (length (vx_sub_layers s)) @ to_bits 1 (of_bool (vx_nesting s)) @
      syntax_bits (ptl_syntax s) @ ue_code (vx_id s) @ ue_code (vx_chroma s) @ syntax_bits (if vx_chroma s = 3 then [FLAG (vx_separate s)] else []) @
      ue_code (vx_width s) @ ue_code (vx_height s) @ syntax_bits (hevc_window_syntax s) @ ue_code (vx_depth_luma s) @ ue_code (vx_depth_chroma s) @ rest)"
    using reads_New [of payload] assms(2) by (simp add: hevc_sps_syntax_def)
  then have "and_then (hevc_head (NewBitReader payload)) (\<lambda>(sps, br).
        and_then (hevc_chroma sps br) (\<lambda>(sps, br).
        and_then (hevc_window sps br) (\<lambda>(sps, br).
        and_then (hevc_depths sps br) (\<lambda>(sps, br). Inr (HEVCSPS_GetResolution sps))))) = Inr (vx_resolution s)"
    apply -
    apply (elim hevc_head_consumes [OF assms(1)], unfold prod.case)
    apply (elim hevc_chroma_consumes, rule ok, rule ok, unfold prod.case)
    apply (elim hevc_window_consumes, rule ok, rule ok, rule ok, unfold prod.case)
    apply (elim hevc_depths_consumes, rule ok, rule ok, unfold prod.case)
    by (simp add: HEVC_GetResolution_standard [OF assms(1)])
  then show ?thesis using assms(3) AddEmulation_length [of payload] by (simp add: parseHEVCSPSFull_def removeEmulationPrevention_add)
qed

section \<open>Properties\<close>

text \<open>The HEVC parameter set parser computes the picture size of the standard: for every conforming sequence parameter set (any number
  of sub-layers, each with or without a profile and a level, any chroma format, with or without a conformance window), escaped into a
  NAL payload and followed by arbitrary further data, the result is the luma size less the conformance window; no crop computation wraps.\<close>

theorem hevc_sps_resolution:
  assumes "hevc_sps_ok s" and "bits_of payload = syntax_bits (hevc_sps_syntax s) @ rest" and "2 \<le> length payload"
  shows "parseHEVCSPSFull (AddEmulationPreventionBytes payload) = Inr (vx_resolution s)"
  by (rule parseHEVCSPSFull_standard [OF assms])

text \<open>A set for 1920 by 1080: Main profile, one sub-layer with a level of its own, eight lines cropped at the bottom.\<close>

definition hevc_1080 :: hevc_syntax where
  "hevc_1080 = \<lparr>vx_vps_id = 0, vx_nesting = True, vx_space = 0, vx_tier = False, vx_profile = 1, vx_compat = 0x60000000,
     vx_flags = (True, False, False, True), vx_constraints = (0, 0), vx_level = 120, vx_sub_layers = [(None, Some 90)], vx_id = 0, vx_chroma = 1,
     vx_separate = False, vx_width = 1920, vx_height = 1088, vx_window = Some (0, 0, 0, 4), vx_depth_luma = 0, vx_depth_chroma = 0\<rparr>"

lemmas hevc_syntax_defs = hevc_sps_syntax_def ptl_syntax_def general_syntax_def flags_syntax_def layer_syntax_def hevc_window_syntax_def

lemmas hevc_size_defs = vx_resolution_def vx_crop_x_def vx_crop_y_def vx_sub_width_def vx_sub_height_def

lemma to_bits_numeral [simp]:
  "to_bits (numeral k) v = (v \<ge> 2 ^ pred_numeral k) # to_bits (pred_numeral k) (v mod 2 ^ pred_numeral k)"
  by (simp add: numeral_eq_Suc)

lemma replicate_pred: "replicate (numeral k) x = x # replicate (pred_numeral k) x"
  by (simp add: numeral_eq_Suc)

lemma ue_1920: "ue_code 1920 = replicate 10 False @ True # to_bits 10 897"
  and ue_1088: "ue_code 1088 = replicate 10 False @ True # to_bits 10 65"
  and ue_small: "ue_code 0 = [True]" "ue_code (Suc 0) = [False, True, False]" "ue_code 4 = [False, False, True, False, True]"
proof -
  have "log2 1921 = 10" "log2 1089 = 10" "log2 (Suc 0) = 0" "log2 (Suc (Suc 0)) = 1" "log2 5 = 2" by (simp_all add: log2.simps)
  then show "ue_code 1920 = replicate 10 False @ True # to_bits 10 897" "ue_code 1088 = replicate 10 False @ True # to_bits 10 65"
    "ue_code 0 = [True]" "ue_code (Suc 0) = [False, True, False]" "ue_code 4 = [False, False, True, False, True]"
    by (simp_all add: ue_code_def replicate_pred)
qed

lemma hevc_1080_ok: "hevc_sps_ok hevc_1080"
  by (simp add: hevc_sps_ok_def hevc_syntax_defs hevc_size_defs hevc_1080_def replicate_pred)

lemma hevc_1080_bits: "bits_of [3, 1, 96, 0, 0, 0, 144, 0, 0, 0, 0, 0, 120, 64, 0, 90, 160, 3, 192, 128, 17, 7, 203, 192] = syntax_bits (hevc_sps_syntax hevc_1080) @ [True, False, False, False, False, False, False]"
proof -
  have "syntax_bits (hevc_sps_syntax hevc_1080) @ [True, False, False, False, False, False, False] = [False, False, False, False, False, False, True, True, False, False, False, False, False, False, False, True, False, True, True, False, False, False, False, False, False, False, False, False, False, False, False, False, False, False, False, False, False, False, False, False, False, False, False, False, False, False, False, False, True, False, False, True, False, False, False, False, False, False, False, False, False, False, False, False, False, False, False, False, False, False, False, False, False, False, False, False, False, False, False, False, False, False, False, False, False, False, False, False, False, False, False, False, False, False, False, False, False, True, True, True, True, False, False, False, False, True, False, False, False, False, False, False, False, False, False, False, False, False, False, False, False, True, False, True, True, False, True, False, True, False, True, False, False, False, False, False, False, False, False, False, False, False, True, True, True, True, False, False, False, False, False, False, True, False, False, False, False, False, False, False, False, False, False, True, False, False, False, True, False, False, False, False, False, True, True, True, True, True, False, False, True, False, True, True, True, True, False, False, False, False, False, False]"
    by (simp add: hevc_syntax_defs hevc_1080_def ue_1920 ue_1088 ue_small replicate_pred)
  moreover have "bits_of [3, 1, 96, 0, 0, 0, 144, 0, 0, 0, 0, 0, 120, 64, 0, 90, 160, 3, 192, 128, 17, 7, 203, 192] = [False, False, False, False, False, False, True, True, False, False, False, False, False, False, False, True, False, True, True, False, False, False, False, False, False, False, False, False, False, False, False, False, False, False, False, False, False, False, False, False, False, False, False, False, False, False, False, False, True, False, False, True, False, False, False, False, False, False, False, False, False, False, False, False, False, False, False, False, False, False, False, False, False, False, False, False, False, False, False, False, False, False, False, False, False, False, False, False, False, False, False, False, False, False, False, False, False, True, True, True, True, False, False, False, False, True, False, False, False, False, False, False, False, False, False, False, False, False, False, False, False, True, False, True, True, False, True, False, True, False, True, False, False, False, False, False, False, False, False, False, False, False, True, True, True, True, False, False, False, False, False, False, True, False, False, False, False, False, False, False, False, False, False, True, False, False, False, True, False, False, False, False, False, True, True, True, True, True, False, False, True, False, True, True, True, True, False, False, False, False, False, False]" by code_simp
  ultimately show ?thesis by simp
qed

theorem hevc_sps_resolution_witness:
  "parseHEVCSPSFull (AddEmulationPreventionBytes [3, 1, 96, 0, 0, 0, 144, 0, 0, 0, 0, 0, 120, 64, 0, 90, 160, 3, 192, 128, 17, 7, 203, 192]) = Inr \<lparr>res_Width = 1920, res_Height = 1080\<rparr>"
proof -
  have "vx_resolution hevc_1080 = \<lparr>res_Width = 1920, res_Height = 1080\<rparr>" by (simp add: hevc_size_defs hevc_1080_def)
  then show ?thesis using hevc_sps_resolution [OF hevc_1080_ok hevc_1080_bits] by simp
qed

end
