(* ===== verification/Resolution_Detector.thy ===== *)
theory Resolution_Detector
  imports Annexb HEVC_SPS_Props Parameter_Context
begin

unbundle bit_operations_syntax

text \<open>
  The resolution detector of \<^verbatim>\<open>resolution/detector.go\<close>: the cutting of a frame into units, the dispatch on codec and unit type, the
  parsers with their fallbacks on byte patterns, and the guesses for AV1 and JPEG XS.  No operation of it indexes out of range, so the
  deferred calls of \<^verbatim>\<open>recover\<close> have nothing to catch; the empty resolution stands for failure.
\<close>

section \<open>Resolutions\<close>

definition no_resolution :: Resolution where
  "no_resolution = \<lparr>res_Width = 0, res_Height = 0\<rparr>"

definition found_resolution :: "Resolution \<Rightarrow> bool" where
  "found_resolution res \<longleftrightarrow> res_Width res > 0 \<and> res_Height res > 0"

definition common_resolutions :: "Resolution list" where
  "common_resolutions = map (\<lambda>(w, h). \<lparr>res_Width = w, res_Height = h\<rparr>)
     [(1920, 1080), (1280, 720), (3840, 2160), (1920, 1200), (1600, 900), (1366, 768), (1024, 768), (1280, 1024),
      (1440, 900), (1680, 1050), (2560, 1440), (3440, 1440)]"

text \<open>\<^verbatim>\<open>bytes.Contains\<close>.\<close>

fun bytes_Contains :: "byte list \<Rightarrow> byte list \<Rightarrow> bool" where
  "bytes_Contains [] pat \<longleftrightarrow> pat = []"
| "bytes_Contains (x # xs) pat \<longleftrightarrow> take (length pat) (x # xs) = pat \<or> bytes_Contains xs pat"

section \<open>Cutting a frame into units\<close>

definition res_code :: "byte list \<Rightarrow> nat" where
  "res_code xs =
     (if 3 < length xs \<and> xs ! 0 = 0 \<and> xs ! 1 = 0 \<and> xs ! 2 = 0 \<and> xs ! 3 = 1 then 4
      else if 2 < length xs \<and> xs ! 0 = 0 \<and> xs ! 1 = 0 \<and> xs ! 2 = 1 then 3 else 0)"

definition res_next :: "byte list \<Rightarrow> nat" where
  "res_next xs =
     (if 2 < length xs \<and> xs ! 0 = 0 \<and> xs ! 1 = 0 \<and> (xs ! 2 = 1 \<or> 3 < length xs \<and> xs ! 2 = 0 \<and> xs ! 3 = 1)
      then (if xs ! 2 = 1 then 3 else 4) else 0)"

text \<open>The length of the unit behind a start code: its first byte is not searched.\<close>

definition res_unit_length :: "byte list \<Rightarrow> nat" where
  "res_unit_length xs = (case xs of [] \<Rightarrow> 0 | _ # xs \<Rightarrow> Suc (unit_end res_next xs))"

function extractAnnexBNALUnits :: "byte list \<Rightarrow> byte list list" where
  "extractAnnexBNALUnits xs =
     (if xs = [] then []
      else
        (let startCodeLen = res_code xs
         in if startCodeLen = 0 then extractAnnexBNALUnits (tl xs)
            else
              (let rest = drop startCodeLen xs; n = res_unit_length rest
               in (if n > 0 then [take n rest] else []) @ extractAnnexBNALUnits (drop n rest))))"
  by pat_completeness auto
termination
  by (relation "measure length") auto

declare extractAnnexBNALUnits.simps [simp del]

definition extractAV1OBUs :: "byte list \<Rightarrow> byte list list" where
  "extractAV1OBUs data = (if length data > 0 then [data] else [])"

definition extractNALUnits :: "byte list \<Rightarrow> CodecType \<Rightarrow> byte list list" where
  "extractNALUnits frameData codec =
     (case codec of
        CodecH264 \<Rightarrow> extractAnnexBNALUnits frameData
      | CodecHEVC \<Rightarrow> extractAnnexBNALUnits frameData
      | CodecAV1 \<Rightarrow> extractAV1OBUs frameData
      | CodecJPEGXS \<Rightarrow> [frameData]
      | _ \<Rightarrow> [])"

section \<open>H.264 and HEVC\<close>

definition parseH264SPSHeuristic :: "byte list \<Rightarrow> Resolution" where
  "parseH264SPSHeuristic spsData =
     (if length spsData < 10 then no_resolution
      else if length spsData \<ge> 20 then
        (if bytes_Contains spsData [0x07, 0x80] \<or> bytes_Contains spsData [0x78, 0x00] then \<lparr>res_Width = 1920, res_Height = 1080\<rparr>
         else if bytes_Contains spsData [0x05, 0x00] \<or> bytes_Contains spsData [0x50, 0x00] then \<lparr>res_Width = 1280, res_Height = 720\<rparr>
         else if bytes_Contains spsData [0x02, 0x80] then \<lparr>res_Width = 640, res_Height = 480\<rparr>
         else no_resolution)
      else no_resolution)"

definition parseHEVCSPSHeuristic :: "byte list \<Rightarrow> Resolution" where
  "parseHEVCSPSHeuristic spsData =
     (if length spsData < 10 then no_resolution
      else if length spsData \<ge> 20 then
        (if bytes_Contains spsData [0x07, 0x80] \<or> bytes_Contains spsData [0x78, 0x00] then \<lparr>res_Width = 1920, res_Height = 1080\<rparr>
         else if bytes_Contains spsData [0x05, 0x00] \<or> bytes_Contains spsData [0x50, 0x00] then \<lparr>res_Width = 1280, res_Height = 720\<rparr>
         else if bytes_Contains spsData [0x02, 0x80] then \<lparr>res_Width = 640, res_Height = 480\<rparr>
         else no_resolution)
      else no_resolution)"

definition detector_parseH264SPS :: "byte list \<Rightarrow> Resolution" where
  "detector_parseH264SPS spsData =
     (if length spsData < 4 then no_resolution
      else case parseH264SPSFull spsData of Inl err \<Rightarrow> parseH264SPSHeuristic spsData | Inr res \<Rightarrow> res)"

definition detector_parseHEVCSPS :: "byte list \<Rightarrow> Resolution" where
  "detector_parseHEVCSPS spsData =
     (if length spsData < 4 then no_resolution
      else case parseHEVCSPSFull spsData of Inl err \<Rightarrow> parseHEVCSPSHeuristic spsData | Inr res \<Rightarrow> res)"

definition parseHEVCVPSWrapper :: "byte list \<Rightarrow> Resolution" where
  "parseHEVCVPSWrapper vpsData =
     (if length vpsData < 4 then no_resolution
      else case parseHEVCVPS vpsData of Inl err \<Rightarrow> no_resolution | Inr vps \<Rightarrow> no_resolution)"

definition detectH264Resolution :: "byte list \<Rightarrow> Resolution" where
  "detectH264Resolution nalUnit =
     (if length nalUnit < 2 then no_resolution
      else if nalUnit ! 0 AND 0x1F \<noteq> 7 then no_resolution
      else detector_parseH264SPS (drop 1 nalUnit))"

definition detectHEVCResolution :: "byte list \<Rightarrow> Resolution" where
  "detectHEVCResolution nalUnit =
     (if length nalUnit < 2 then no_resolution
      else
        (let nalType = drop_bit 1 (nalUnit ! 0) AND 0x3F
         in if nalType = 32 then parseHEVCVPSWrapper (drop 2 nalUnit)
            else if nalType = 33 then detector_parseHEVCSPS (drop 2 nalUnit)
            else no_resolution))"

section \<open>AV1\<close>

definition parseAV1FrameSize :: "BitReader \<Rightarrow> Resolution" where
  "parseAV1FrameSize br =
     on_read (br_ReadBits 4) br (\<lambda>_. no_resolution) (\<lambda>frameWidthBitsMinus1 br.
     on_read (br_ReadBits 4) br (\<lambda>_. no_resolution) (\<lambda>frameHeightBitsMinus1 br.
     if frameWidthBitsMinus1 > 15 \<or> frameHeightBitsMinus1 > 15 then no_resolution
     else
     on_read (br_ReadBits (uint (frameWidthBitsMinus1 + 1))) br (\<lambda>_. no_resolution) (\<lambda>maxFrameWidthMinus1 br.
     on_read (br_ReadBits (uint (frameHeightBitsMinus1 + 1))) br (\<lambda>_. no_resolution) (\<lambda>maxFrameHeightMinus1 br.
       let width = maxFrameWidthMinus1 + 1; height = maxFrameHeightMinus1 + 1
       in if width > 0 \<and> width \<le> 7680 \<and> height > 0 \<and> height \<le> 4320
          then \<lparr>res_Width = uint width, res_Height = uint height\<rparr> else no_resolution))))"

definition parseAV1SequenceHeaderStandard :: "byte list \<Rightarrow> Resolution" where
  "parseAV1SequenceHeaderStandard data =
     (if length data < 4 then no_resolution
      else
        on_read (br_ReadBits 3) (NewBitReader data) (\<lambda>_. no_resolution) (\<lambda>_ br.
        on_read br_ReadBit br (\<lambda>_. no_resolution) (\<lambda>_ br.
        on_read br_ReadBit br (\<lambda>_. no_resolution) (\<lambda>reducedStillPictureHeader br.
          if reducedStillPictureHeader = 1 then parseAV1FrameSize br else no_resolution))))"

text \<open>Whether the bits at some alignment of the byte position hold the value; the reader is made anew for each.\<close>

definition av1_match_at :: "byte list \<Rightarrow> nat \<Rightarrow> int \<Rightarrow> u32 \<Rightarrow> int \<Rightarrow> bool" where
  "av1_match_at data offset totalBits expectedValue bitOffset =
     (case br_SkipBits bitOffset (NewBitReader (drop offset data)) of
        (br, Some err) \<Rightarrow> False
      | (br, None) \<Rightarrow> on_read (br_ReadBits totalBits) br (\<lambda>_. False) (\<lambda>v br. v = expectedValue))"

definition findAV1DimensionPattern :: "byte list \<Rightarrow> u32 \<Rightarrow> u32 \<Rightarrow> nat \<Rightarrow> nat \<Rightarrow> bool" where
  "findAV1DimensionPattern data width height widthBits heightBits =
     (if length data < 4 then False
      else
        (let totalBits = widthBits + heightBits
         in if totalBits > 32 \<or> totalBits < 16 then False
            else
              (let expectedValue = push_bit heightBits width OR height;
                   searchLimit = min (length data) 16
               in list_ex (\<lambda>offset. list_ex (\<lambda>bitOffset. av1_match_at data offset (int totalBits) expectedValue bitOffset \<and> offset < 8) [0, 1, 2, 3])
                    [0..<searchLimit - 3])))"

definition findAV1ResolutionPattern :: "byte list \<Rightarrow> Resolution" where
  "findAV1ResolutionPattern data =
     (if length data < 8 then no_resolution
      else
        (case find (\<lambda>res.
             let widthMinus1 = word_of_int (res_Width res - 1); heightMinus1 = word_of_int (res_Height res - 1)
             in list_ex (\<lambda>widthBits. list_ex (\<lambda>heightBits. findAV1DimensionPattern data widthMinus1 heightMinus1 widthBits heightBits) [8, 12, 16])
                  [8, 12, 16]) common_resolutions of
           Some res \<Rightarrow> res | None \<Rightarrow> no_resolution))"

definition parseAV1SequenceHeader :: "byte list \<Rightarrow> Resolution" where
  "parseAV1SequenceHeader data =
     (if length data < 4 then no_resolution
      else
        (let res = parseAV1SequenceHeaderStandard data
         in if found_resolution res then res else findAV1ResolutionPattern data))"

text \<open>The bytes behind a size field: all with the continuation bit, and one more.\<close>

definition skip_leb128 :: "byte list \<Rightarrow> byte list" where
  "skip_leb128 xs = drop 1 (dropWhile (\<lambda>b. b AND 0x80 \<noteq> 0) xs)"

definition detectAV1Resolution :: "byte list \<Rightarrow> Resolution" where
  "detectAV1Resolution obu =
     (if length obu < 2 then no_resolution
      else
        (let obuHeader = obu ! 0; obuType = drop_bit 3 obuHeader AND 0x0F; obuExtensionFlag = drop_bit 2 obuHeader AND 0x01;
             obuHasSizeField = drop_bit 1 obuHeader AND 0x01
         in if obuType \<noteq> 1 then no_resolution
            else
              (let rest = (if obuExtensionFlag = 1 then drop 2 obu else drop 1 obu);
                   payload = (if obuHasSizeField = 1 then skip_leb128 rest else rest)
               in if payload = [] then no_resolution else parseAV1SequenceHeader payload)))"

section \<open>JPEG XS\<close>

text \<open>The quotient of the sides is compared with \<^verbatim>\<open>0.25\<close> and \<^verbatim>\<open>4.0\<close>.  Both are exact in binary, and the sides are at most
  7680, so the comparison of the rounded quotient is that of the exact one: it is written out on integers.\<close>

definition isValidResolution :: "u32 \<Rightarrow> u32 \<Rightarrow> bool" where
  "isValidResolution width height =
     (if width < 64 \<or> width > 7680 \<or> height < 64 \<or> height > 4320 then False
      else if 4 * uint width < uint height \<or> uint width > 4 * uint height then False
      else if (width mod 8 = 0 \<or> width mod 16 = 0) \<and> (height mod 8 = 0 \<or> height mod 16 = 0) then True
      else (width, height) \<in> set [(1920, 1080), (1280, 720), (3840, 2160), (1920, 1200), (1600, 900), (1366, 768), (1024, 768), (1280, 1024),
             (1440, 900), (1680, 1050), (2560, 1440), (3440, 1440), (720, 480), (720, 576), (640, 480), (800, 600)])"

definition jxs_u16 :: "byte list \<Rightarrow> u32" where
  "jxs_u16 xs = push_bit 8 (ucast (xs ! 0)) OR ucast (xs ! 1)"

definition jxs_u32 :: "byte list \<Rightarrow> u32" where
  "jxs_u32 xs = push_bit 24 (ucast (xs ! 0)) OR push_bit 16 (ucast (xs ! 1)) OR push_bit 8 (ucast (xs ! 2)) OR ucast (xs ! 3)"

function jxs_pairs :: "byte list \<Rightarrow> Resolution" where
  "jxs_pairs xs =
     (if length xs \<le> 7 then no_resolution
      else
        (let width16 = jxs_u16 xs; height16 = jxs_u16 (drop 2 xs); width32 = jxs_u32 xs; height32 = jxs_u32 (drop 4 xs)
         in if isValidResolution width16 height16 then \<lparr>res_Width = uint width16, res_Height = uint height16\<rparr>
            else if isValidResolution width32 height32 then \<lparr>res_Width = uint width32, res_Height = uint height32\<rparr>
            else jxs_pairs (drop 2 xs)))"
  by pat_completeness auto
termination
  by (relation "measure length") auto

declare jxs_pairs.simps [simp del]

definition res_parseJPEGXSHeader :: "byte list \<Rightarrow> Resolution" where
  "res_parseJPEGXSHeader data = (if length data < 8 then no_resolution else jxs_pairs (drop 2 data))"

definition jxs_patterns :: "Resolution \<Rightarrow> byte list list" where
  "jxs_patterns res =
     (let w = res_Width res; h = res_Height res; hi = (\<lambda>v. word_of_int (drop_bit 8 v)); lo = (\<lambda>v. word_of_int v)
      in [[hi w, lo w, hi h, lo h], [lo w, hi w, lo h, hi h], [0, 0, hi w, lo w, 0, 0, hi h, lo h]])"

definition findJPEGXSResolutionPattern :: "byte list \<Rightarrow> Resolution" where
  "findJPEGXSResolutionPattern data =
     (if length data < 16 then no_resolution
      else
        (case find (\<lambda>res. list_ex (bytes_Contains data) (jxs_patterns res)) common_resolutions of
           Some res \<Rightarrow> res | None \<Rightarrow> no_resolution))"

function jxs_search :: "byte list \<Rightarrow> nat \<Rightarrow> Resolution" where
  "jxs_search frameData offset =
     (if offset + 3 < length frameData then
        (if frameData ! offset = 0xFF then
           (let markerType = frameData ! (offset + 1);
                res = (if markerType \<ge> 0x30 \<and> markerType \<le> 0x3F then res_parseJPEGXSHeader (drop offset frameData) else no_resolution)
            in if found_resolution res then res
               else
                 (let res = findJPEGXSResolutionPattern (drop offset frameData)
                  in if found_resolution res then res
                     else if offset + 2 > 1024 then no_resolution else jxs_search frameData (offset + 2)))
         else if offset + 1 > 1024 then no_resolution else jxs_search frameData (offset + 1))
      else no_resolution)"
  by pat_completeness auto
termination
  by (relation "measure (\<lambda>(frameData, offset). length frameData - offset)") auto

declare jxs_search.simps [simp del]

definition detectJPEGXSResolution :: "byte list \<Rightarrow> Resolution" where
  "detectJPEGXSResolution frameData =
     (if length frameData < 4 then no_resolution
      else if frameData ! 0 \<noteq> 0xFF \<or> frameData ! 1 \<noteq> 0x10 then no_resolution
      else jxs_search frameData 2)"

section \<open>The detector\<close>

definition detectFromSingleNAL :: "byte list \<Rightarrow> CodecType \<Rightarrow> Resolution" where
  "detectFromSingleNAL nalUnit codec =
     (if length nalUnit = 0 then no_resolution
      else case codec of
          CodecH264 \<Rightarrow> detectH264Resolution nalUnit
        | CodecHEVC \<Rightarrow> detectHEVCResolution nalUnit
        | CodecAV1 \<Rightarrow> detectAV1Resolution nalUnit
        | CodecJPEGXS \<Rightarrow> detectJPEGXSResolution nalUnit
        | _ \<Rightarrow> no_resolution)"

fun first_resolution :: "CodecType \<Rightarrow> byte list list \<Rightarrow> Resolution" where
  "first_resolution codec [] = no_resolution"
| "first_resolution codec (nalUnit # nalUnits) =
     (let res = detectFromSingleNAL nalUnit codec in if found_resolution res then res else first_resolution codec nalUnits)"

definition DetectFromNALUnits :: "byte list list \<Rightarrow> CodecType \<Rightarrow> Resolution" where
  "DetectFromNALUnits nalUnits codec = (if length nalUnits = 0 then no_resolution else first_resolution codec nalUnits)"

definition DetectFromFrame :: "byte list \<Rightarrow> CodecType \<Rightarrow> Resolution" where
  "DetectFromFrame frameData codec =
     (if length frameData = 0 then no_resolution else DetectFromNALUnits (extractNALUnits frameData codec) codec)"

section \<open>The units of a stream\<close>

interpretation res_scan: start_code_test res_code
proof (unfold_locales, goal_cases)
  case (3 xs)
  then show ?case by (cases xs; cases "tl xs"; cases "tl (tl xs)"; cases "tl (tl (tl xs))") (auto simp: res_code_def split: if_splits)
qed (auto simp: res_code_def)

interpretation res_scan_next: start_code_test res_next
proof (unfold_locales, goal_cases)
  case (3 xs)
  then show ?case by (cases xs; cases "tl xs"; cases "tl (tl xs)"; cases "tl (tl (tl xs))") (auto simp: res_next_def split: if_splits)
qed (auto simp: res_next_def)

lemma has_code_tl: "\<not> has_code (x # u) \<Longrightarrow> \<not> has_code u"
  by (cases "x # u" rule: has_code.cases) auto

lemma res_unit_length_annexb:
  assumes "clean u" and "list_all (\<lambda>(long, u). clean u) us"
  shows "res_unit_length (u @ annexb us) = length u"
proof -
  obtain x v where u: "u = x # v" using assms(1) by (cases u) (auto simp: clean_def)
  have "unit_end res_next (v @ annexb us) = length v"
  proof (cases "v = []")
    case True
    show ?thesis
    proof (cases us)
      case (Cons p ps)
      obtain l w where p: "p = (l, w)" by (cases p)
      have "w \<noteq> []" using assms(2) Cons p by (simp add: clean_def)
      then have "res_next (annexb us) > 0" using res_scan_next.code_annexb(1) [of w l ps] Cons p by simp
      then show ?thesis using True by (cases "annexb us") auto
    qed (simp add: True)
  next
    case False
    then have "clean v" using assms(1) has_code_tl u by (auto simp: clean_def)
    then show ?thesis using res_scan_next.unit_end_annexb assms(2) by blast
  qed
  then show ?thesis by (simp add: res_unit_length_def u)
qed

lemma extract_annexb: "list_all (\<lambda>(long, u). clean u) us \<Longrightarrow> extractAnnexBNALUnits (annexb us) = map snd us"
proof (induction us)
  case (Cons p us)
  obtain long u where p: "p = (long, u)" by (cases p)
  have u: "clean u" "u \<noteq> []" and us: "list_all (\<lambda>(long, u). clean u) us" using Cons.prems by (auto simp: p clean_def)
  let ?xs = "annexb ((long, u) # us)"
  have rest: "drop (res_code ?xs) ?xs = u @ annexb us" and pos: "res_code ?xs > 0" "?xs \<noteq> []"
    using res_scan.code_annexb [OF u(2)] by (simp_all only: split: if_splits) simp_all
  have "extractAnnexBNALUnits ?xs = u # extractAnnexBNALUnits (annexb us)"
    using pos u res_unit_length_annexb [OF u(1) us] by (subst extractAnnexBNALUnits.simps) (simp only: Let_def rest, simp)
  then show ?case using Cons us by (simp add: p)
qed (simp add: extractAnnexBNALUnits.simps)

section \<open>The first resolution of a stream\<close>

lemma not_found [simp]: "\<not> found_resolution no_resolution"
  by (simp add: found_resolution_def no_resolution_def)

lemma first_resolution_skips:
  assumes "\<And>u. u \<in> set pre \<Longrightarrow> detectFromSingleNAL u codec = no_resolution" and "detectFromSingleNAL unit codec = res" and "found_resolution res"
  shows "first_resolution codec (pre @ unit # post) = res"
  using assms by (induction pre) auto

lemma detect_in_stream:
  assumes "codec = CodecH264 \<or> codec = CodecHEVC" and "list_all (\<lambda>(long, u). clean u) (pre @ (long, unit) # post)"
    and "\<And>l u. (l, u) \<in> set pre \<Longrightarrow> detectFromSingleNAL u codec = no_resolution"
    and "detectFromSingleNAL unit codec = res" and "found_resolution res"
  shows "DetectFromFrame (annexb (pre @ (long, unit) # post)) codec = res"
proof -
  let ?us = "pre @ (long, unit) # post"
  have "length (annexb ?us) \<noteq> 0" using annexb_length [OF _ assms(2)] by fastforce
  moreover have "extractNALUnits (annexb ?us) codec = map snd pre @ unit # map snd post"
    using assms(1) extract_annexb [OF assms(2)] by (auto simp: extractNALUnits_def)
  moreover have "first_resolution codec (map snd pre @ unit # map snd post) = res"
    by (rule first_resolution_skips) (use assms(3-5) in auto)
  ultimately show ?thesis by (simp add: DetectFromFrame_def DetectFromNALUnits_def)
qed

lemma sx_resolution_found: "sps_ok s \<Longrightarrow> found_resolution (sx_resolution s)"
  by (simp add: sps_ok_def found_resolution_def sx_resolution_def)

lemma vx_resolution_found: "hevc_sps_ok s \<Longrightarrow> found_resolution (vx_resolution s)"
  by (simp add: hevc_sps_ok_def found_resolution_def vx_resolution_def)

lemma vps_no_resolution: "parseHEVCVPSWrapper data = no_resolution"
  by (simp add: parseHEVCVPSWrapper_def split: sum.split)

text \<open>C28: The size of an H.264 stream is found in its bytes: in a frame of units behind start codes, whatever units that are no sequence
  parameter set come first and whatever follows, the detector returns the size that the first set encodes, if that set is a conforming
  one in its escaped form.\<close>

theorem detects_h264_stream:
  assumes "list_all (\<lambda>(long, u). clean u) (pre @ (long, header # AddEmulationPreventionBytes payload) # post)"
    and "list_all (\<lambda>(long, u). u ! 0 AND 0x1F \<noteq> 7) pre" and "header AND 0x1F = 7"
    and "sps_ok s" and "bits_of payload = syntax_bits (sps_syntax s) @ rest" and "4 \<le> length payload"
  shows "DetectFromFrame (annexb (pre @ (long, header # AddEmulationPreventionBytes payload) # post)) CodecH264 = sx_resolution s"
proof (rule detect_in_stream [OF _ assms(1)])
  fix l u assume "(l, u) \<in> set pre"
  then have "u ! 0 AND 0x1F \<noteq> 7" using assms(2) by (auto simp: list_all_iff)
  then show "detectFromSingleNAL u CodecH264 = no_resolution" by (simp add: detectFromSingleNAL_def detectH264Resolution_def)
next
  have "4 \<le> length (AddEmulationPreventionBytes payload)" using AddEmulation_length [of payload] assms(6) by simp
  moreover have "parseH264SPSFull (AddEmulationPreventionBytes payload) = Inr (sx_resolution s)"
    using parseH264SPSFull_standard [OF assms(4,5)] assms(6) by simp
  ultimately show "detectFromSingleNAL (header # AddEmulationPreventionBytes payload) CodecH264 = sx_resolution s"
    using assms(3) by (auto simp: detectFromSingleNAL_def detectH264Resolution_def detector_parseH264SPS_def)
qed (use sx_resolution_found [OF assms(4)] in simp_all)

lemma sps_1080_escaped:
  "AddEmulationPreventionBytes [66, 0, 40, 218, 1, 224, 8, 159, 149] = [66, 0, 40, 218, 1, 224, 8, 159, 149]"
  by code_simp

theorem detects_h264_stream_witness:
  "DetectFromFrame ([0, 0, 0, 1, 9, 240] @ [0, 0, 0, 1, 0x67, 66, 0, 40, 218, 1, 224, 8, 159, 149] @ [0, 0, 1, 0x68, 206]) CodecH264 =
   \<lparr>res_Width = 1920, res_Height = 1080\<rparr>"
proof -
  have "sx_resolution sps_1080 = \<lparr>res_Width = 1920, res_Height = 1080\<rparr>" by (simp add: size_defs sps_1080_def)
  then show ?thesis using detects_h264_stream [OF _ _ _ sps_1080_ok sps_1080_bits,
      where pre = "[(True, [9, 240])]" and long = True and header = "0x67" and post = "[(False, [0x68, 206])]"]
    by (simp add: sps_1080_escaped clean_def)
qed

text \<open>C29: The same for HEVC, past the video parameter set and any other unit in front of the sequence parameter set.\<close>

theorem detects_hevc_stream:
  assumes "list_all (\<lambda>(long, u). clean u) (pre @ (long, h0 # h1 # AddEmulationPreventionBytes payload) # post)"
    and "list_all (\<lambda>(long, u). drop_bit 1 (u ! 0) AND 0x3F \<noteq> 33) pre" and "drop_bit 1 h0 AND 0x3F = 33"
    and "hevc_sps_ok s" and "bits_of payload = syntax_bits (hevc_sps_syntax s) @ rest" and "4 \<le> length payload"
  shows "DetectFromFrame (annexb (pre @ (long, h0 # h1 # AddEmulationPreventionBytes payload) # post)) CodecHEVC = vx_resolution s"
proof (rule detect_in_stream [OF _ assms(1)])
  fix l u assume "(l, u) \<in> set pre"
  then have "drop_bit 1 (u ! 0) AND 0x3F \<noteq> 33" using assms(2) by (auto simp: list_all_iff)
  then show "detectFromSingleNAL u CodecHEVC = no_resolution"
    by (simp add: detectFromSingleNAL_def detectHEVCResolution_def vps_no_resolution Let_def)
next
  have "4 \<le> length (AddEmulationPreventionBytes payload)" using AddEmulation_length [of payload] assms(6) by simp
  moreover have "parseHEVCSPSFull (AddEmulationPreventionBytes payload) = Inr (vx_resolution s)"
    using parseHEVCSPSFull_standard [OF assms(4,5)] assms(6) by simp
  ultimately show "detectFromSingleNAL (h0 # h1 # AddEmulationPreventionBytes payload) CodecHEVC = vx_resolution s"
    using assms(3) by (simp add: detectFromSingleNAL_def detectHEVCResolution_def detector_parseHEVCSPS_def)
qed (use vx_resolution_found [OF assms(4)] in simp_all)

lemma hevc_1080_escaped:
  "AddEmulationPreventionBytes [3, 1, 96, 0, 0, 0, 144, 0, 0, 0, 0, 0, 120, 64, 0, 90, 160, 3, 192, 128, 17, 7, 203, 192] =
   [3, 1, 96, 0, 0, 3, 0, 144, 0, 0, 3, 0, 0, 3, 0, 120, 64, 0, 90, 160, 3, 192, 128, 17, 7, 203, 192]"
  by code_simp

theorem detects_hevc_stream_witness:
  "DetectFromFrame ([0, 0, 0, 1, 0x40, 1, 12] @
     [0, 0, 0, 1, 0x42, 1, 3, 1, 96, 0, 0, 3, 0, 144, 0, 0, 3, 0, 0, 3, 0, 120, 64, 0, 90, 160, 3, 192, 128, 17, 7, 203, 192] @
     [0, 0, 1, 0x44, 1, 193]) CodecHEVC = \<lparr>res_Width = 1920, res_Height = 1080\<rparr>"
proof -
  have "vx_resolution hevc_1080 = \<lparr>res_Width = 1920, res_Height = 1080\<rparr>" by (simp add: hevc_size_defs hevc_1080_def)
  then show ?thesis
    using detects_hevc_stream [OF _ _ _ hevc_1080_ok hevc_1080_bits,
      where pre = "[(True, [0x40, 1, 12])]" and long = True and ?h0.0 = "0x42" and ?h1.0 = 1 and post = "[(False, [0x44, 1, 193])]"]
    by (simp add: hevc_1080_escaped clean_def)
qed

section \<open>What is guessed\<close>

text \<open>A reduced AV1 still picture header carries a level of five bits in front of the frame size.  The parser goes to the frame size
  directly: the header of a picture of 1920 by 1080 (level 4.0, eleven bits for each side) is read as 11 by 60.\<close>

theorem av1_still_header_misread: "detectAV1Resolution [0x08, 26, 42, 187, 252, 55, 0, 0, 0] = \<lparr>res_Width = 11, res_Height = 60\<rparr>"
  by code_simp

text \<open>A set that the parser refuses is not refused by the detector: with twenty bytes or more, it is searched for two bytes that occur
  in common sizes, and the size that they hint at is returned.\<close>

theorem refused_set_is_guessed:
  assumes "isl (parseH264SPSFull data)" and "20 \<le> length data" and "bytes_Contains data [0x78, 0x00]" and "header AND 0x1F = 7"
  shows "detectH264Resolution (header # data) = \<lparr>res_Width = 1920, res_Height = 1080\<rparr>"
  using assms by (auto simp: detectH264Resolution_def detector_parseH264SPS_def parseH264SPSHeuristic_def split: sum.split)

theorem refused_set_is_guessed_witness:
  "detectH264Resolution (0x67 # [66, 0, 40, 0x78, 0] @ replicate 15 0) = \<lparr>res_Width = 1920, res_Height = 1080\<rparr>"
proof -
  have "isl (parseH264SPSFull ([66, 0, 40, 0x78, 0] @ replicate 15 0))" by code_simp
  then show ?thesis using refused_set_is_guessed [of "[66, 0, 40, 0x78, 0] @ replicate 15 0" "0x67"] by (simp add: numeral_eq_Suc)
qed

end
