(* ===== verification/Reconnect.thy ===== *)
theory Reconnect
  imports Mirror_Prelude
begin

text \<open>
  Reconnection, \<^verbatim>\<open>reconnect/reconnect.go\<close>: the two back-off strategies, and the manager with the goroutines its starts leave
  behind.  The interface \<^verbatim>\<open>Strategy\<close> is the locale \<open>backoff\<close>.  The floating-point products of the exponential strategy, with
  the multiplier and with the random jitter, are the arguments \<open>scale\<close> and \<open>jitter\<close>.  \<^verbatim>\<open>calculateBackoff\<close> is used nowhere.
\<close>

section \<open>Strategies\<close>

record ExponentialBackoff =
  eb_InitialDelay :: nanos
  eb_MaxDelay :: nanos
  eb_MaxRetries :: int
  eb_currentDelay :: nanos
  eb_retryCount :: int

definition NewExponentialBackoff :: "nanos \<Rightarrow> nanos \<Rightarrow> int \<Rightarrow> ExponentialBackoff" where
  "NewExponentialBackoff initialDelay maxDelay maxRetries =
     \<lparr>eb_InitialDelay = initialDelay, eb_MaxDelay = maxDelay, eb_MaxRetries = maxRetries, eb_currentDelay = initialDelay, eb_retryCount = 0\<rparr>"

definition exp_NextDelay ::
  "(nanos \<Rightarrow> nanos) \<Rightarrow> (nanos \<Rightarrow> nanos) \<Rightarrow> ExponentialBackoff \<Rightarrow> ExponentialBackoff \<times> nanos \<times> bool" where
  "exp_NextDelay scale jitter e =
     (if eb_MaxRetries e > 0 \<and> eb_retryCount e \<ge> eb_MaxRetries e then (e, 0, False)
      else
        (let delay = jitter (eb_currentDelay e); d = scale (eb_currentDelay e)
         in (e\<lparr>eb_currentDelay := (if d > eb_MaxDelay e then eb_MaxDelay e else d), eb_retryCount := eb_retryCount e + 1\<rparr>, delay, True)))"

definition exp_Reset :: "ExponentialBackoff \<Rightarrow> ExponentialBackoff" where
  "exp_Reset e = e\<lparr>eb_currentDelay := eb_InitialDelay e, eb_retryCount := 0\<rparr>"

record LinearBackoff =
  lb_Delay :: nanos
  lb_MaxRetries :: int
  lb_retryCount :: int

definition NewLinearBackoff :: "nanos \<Rightarrow> int \<Rightarrow> LinearBackoff" where
  "NewLinearBackoff delay maxRetries = \<lparr>lb_Delay = delay, lb_MaxRetries = maxRetries, lb_retryCount = 0\<rparr>"

definition lin_NextDelay :: "LinearBackoff \<Rightarrow> LinearBackoff \<times> nanos \<times> bool" where
  "lin_NextDelay l =
     (if lb_MaxRetries l > 0 \<and> lb_retryCount l \<ge> lb_MaxRetries l then (l, 0, False)
      else (l\<lparr>lb_retryCount := lb_retryCount l + 1\<rparr>, lb_Delay l, True))"

definition lin_Reset :: "LinearBackoff \<Rightarrow> LinearBackoff" where
  "lin_Reset l = l\<lparr>lb_retryCount := 0\<rparr>"

section \<open>One reconnection loop\<close>

text \<open>What the surroundings do in one round: whether the context is done or the manager stopped at the check, what the
  connection attempt returns, and what ends the wait.\<close>

datatype wait_end = TimerExpired | ContextDone | StopClosed

record 'e round =
  rd_cancelled :: bool
  rd_connect :: "'e option"
  rd_wait :: wait_end

datatype 'e loop_result = Cancelled | Connected | GaveUp 'e | OutOfRounds

text \<open>The loop over the rounds: the strategy left, the delays waited, and how it ended.\<close>

fun reconnectLoop :: "('s \<Rightarrow> 's \<times> nanos \<times> bool) \<Rightarrow> ('s \<Rightarrow> 's) \<Rightarrow> 'e round list \<Rightarrow> 's \<Rightarrow> 's \<times> nanos list \<times> 'e loop_result" where
  "reconnectLoop nextDelay resetStrategy [] s = (s, [], OutOfRounds)"
| "reconnectLoop nextDelay resetStrategy (r # rs) s =
     (if rd_cancelled r then (s, [], Cancelled)
      else case rd_connect r of
          None \<Rightarrow> (resetStrategy s, [], Connected)
        | Some err \<Rightarrow>
            (let (s, delay, shouldRetry) = nextDelay s
             in if \<not> shouldRetry then (s, [], GaveUp err)
                else case rd_wait r of
                    TimerExpired \<Rightarrow> (let (s, ds, res) = reconnectLoop nextDelay resetStrategy rs s in (s, delay # ds, res))
                  | _ \<Rightarrow> (s, [delay], Cancelled)))"

text \<open>A strategy: it grants a number of retries after a reset (or without bound), and keeps every delay within its limits.\<close>

locale backoff =
  fixes nextDelay :: "'s \<Rightarrow> 's \<times> nanos \<times> bool"
    and resetStrategy :: "'s \<Rightarrow> 's"
    and left :: "'s \<Rightarrow> nat option"
    and invar :: "'s \<Rightarrow> bool"
    and delay_ok :: "nanos \<Rightarrow> bool"
  assumes inv_next: "invar s \<Longrightarrow> invar (fst (nextDelay s))"
    and refused: "invar s \<Longrightarrow> snd (snd (nextDelay s)) = False \<longleftrightarrow> left s = Some 0"
    and counted: "invar s \<Longrightarrow> left s \<noteq> Some 0 \<Longrightarrow> left (fst (nextDelay s)) = map_option (\<lambda>n. n - 1) (left s)"
    and delays: "invar s \<Longrightarrow> snd (snd (nextDelay s)) \<Longrightarrow> delay_ok (fst (snd (nextDelay s)))"
begin

text \<open>Rounds in which nothing but the timer interferes and every attempt fails.\<close>

lemma gives_up_after:
  assumes "invar s" and "left s = Some n" and "n < length rs"
    and "\<forall>r \<in> set rs. \<not> rd_cancelled r \<and> rd_connect r \<noteq> None \<and> rd_wait r = TimerExpired"
  shows "\<exists>s' ds. reconnectLoop nextDelay resetStrategy rs s = (s', ds, GaveUp (the (rd_connect (rs ! n)))) \<and> length ds = n \<and>
    (\<forall>d \<in> set ds. delay_ok d)"
  using assms
proof (induction rs arbitrary: s n)
  case (Cons r rs)
  obtain e where r: "\<not> rd_cancelled r" "rd_connect r = Some e" "rd_wait r = TimerExpired" using Cons.prems(4) by auto
  obtain s1 d ok where n1: "nextDelay s = (s1, d, ok)" by (metis prod.exhaust)
  show ?case
  proof (cases n)
    case 0
    then have "\<not> ok" using refused [OF Cons.prems(1)] Cons.prems(2) n1 by simp
    then show ?thesis using r n1 0 by simp
  next
    case (Suc m)
    then have ok: ok and 1: "left s1 = Some m" "invar s1" "delay_ok d"
      using refused [OF Cons.prems(1)] counted [OF Cons.prems(1)] inv_next [OF Cons.prems(1)] delays [OF Cons.prems(1)] Cons.prems(2) n1 by auto
    obtain s' ds where "reconnectLoop nextDelay resetStrategy rs s1 = (s', ds, GaveUp (the (rd_connect (rs ! m))))" "length ds = m"
      "\<forall>d \<in> set ds. delay_ok d" using Cons.IH [OF 1(2,1)] Cons.prems(3,4) Suc by auto
    then show ?thesis using r n1 ok 1(3) Suc by simp
  qed
qed simp

lemma never_gives_up:
  assumes "invar s" and "left s = None"
  shows "snd (snd (reconnectLoop nextDelay resetStrategy rs s)) \<noteq> GaveUp e"
  using assms
proof (induction rs arbitrary: s)
  case (Cons r rs)
  obtain s1 d ok where n1: "nextDelay s = (s1, d, ok)" by (metis prod.exhaust)
  have 1: ok "left s1 = None" "invar s1"
    using refused [OF Cons.prems(1)] counted [OF Cons.prems(1)] inv_next [OF Cons.prems(1)] Cons.prems(2) n1 by auto
  show ?case using Cons.IH [OF 1(3,2)] n1 1(1)
    by (auto simp: Let_def case_prod_unfold split: option.split wait_end.split)
qed simp

end

definition exp_left :: "ExponentialBackoff \<Rightarrow> nat option" where
  "exp_left e = (if eb_MaxRetries e > 0 then Some (nat (eb_MaxRetries e - eb_retryCount e)) else None)"

definition lin_left :: "LinearBackoff \<Rightarrow> nat option" where
  "lin_left l = (if lb_MaxRetries l > 0 then Some (nat (lb_MaxRetries l - lb_retryCount l)) else None)"

text \<open>The exponential strategy with given limits: the base of every delay is at most the larger of the two.\<close>

definition exp_invar :: "nanos \<Rightarrow> ExponentialBackoff \<Rightarrow> bool" where
  "exp_invar cap e \<longleftrightarrow> eb_currentDelay e \<le> cap \<and> eb_MaxDelay e \<le> cap \<and> eb_retryCount e \<ge> 0"

interpretation exp_backoff: backoff "exp_NextDelay scale jitter" exp_Reset exp_left "exp_invar cap" "\<lambda>d. \<exists>b \<le> cap. d = jitter b"
  for scale jitter cap
  by unfold_locales (auto simp: exp_NextDelay_def exp_left_def exp_invar_def Let_def)

interpretation lin_backoff: backoff lin_NextDelay lin_Reset lin_left "\<lambda>l. lb_retryCount l \<ge> 0 \<and> lb_Delay l = delay" "\<lambda>d. d = delay"
  for delay
  by unfold_locales (auto simp: lin_NextDelay_def lin_left_def Let_def)

text \<open>Against a peer that never answers, both strategies make one attempt more than the configured number of retries and then
  report the last error; every wait of the linear strategy is its delay, every wait of the exponential one the jitter of a
  base that is at most the larger of its two limits.\<close>

theorem reconnect_gives_up:
  assumes "0 < k" and "nat k < length rs" and "\<forall>r \<in> set rs. \<not> rd_cancelled r \<and> rd_connect r \<noteq> None \<and> rd_wait r = TimerExpired"
  shows "(\<exists>s ds. reconnectLoop (exp_NextDelay scale jitter) exp_Reset rs (NewExponentialBackoff initial maximum k) =
      (s, ds, GaveUp (the (rd_connect (rs ! nat k)))) \<and> length ds = nat k \<and> (\<forall>d \<in> set ds. \<exists>b \<le> max initial maximum. d = jitter b)) \<and>
    (\<exists>s ds. reconnectLoop lin_NextDelay lin_Reset rs (NewLinearBackoff delay k) =
      (s, ds, GaveUp (the (rd_connect (rs ! nat k)))) \<and> length ds = nat k \<and> (\<forall>d \<in> set ds. d = delay))"
proof (intro conjI)
  have "exp_invar (max initial maximum) (NewExponentialBackoff initial maximum k)" "exp_left (NewExponentialBackoff initial maximum k) = Some (nat k)"
    using assms(1) by (simp_all add: exp_invar_def exp_left_def NewExponentialBackoff_def)
  then show "\<exists>s ds. reconnectLoop (exp_NextDelay scale jitter) exp_Reset rs (NewExponentialBackoff initial maximum k) =
      (s, ds, GaveUp (the (rd_connect (rs ! nat k)))) \<and> length ds = nat k \<and> (\<forall>d \<in> set ds. \<exists>b \<le> max initial maximum. d = jitter b)"
    using exp_backoff.gives_up_after assms(2,3) by blast
  have "0 \<le> lb_retryCount (NewLinearBackoff delay k) \<and> lb_Delay (NewLinearBackoff delay k) = delay" "lin_left (NewLinearBackoff delay k) = Some (nat k)"
    using assms(1) by (simp_all add: lin_left_def NewLinearBackoff_def)
  then show "\<exists>s ds. reconnectLoop lin_NextDelay lin_Reset rs (NewLinearBackoff delay k) =
      (s, ds, GaveUp (the (rd_connect (rs ! nat k)))) \<and> length ds = nat k \<and> (\<forall>d \<in> set ds. d = delay)"
    using lin_backoff.gives_up_after assms(2,3) by blast
qed

theorem reconnect_gives_up_witness:
  "\<exists>s ds. reconnectLoop lin_NextDelay lin_Reset (replicate 4 \<lparr>rd_cancelled = False, rd_connect = Some (7 :: nat), rd_wait = TimerExpired\<rparr>)
     (NewLinearBackoff 5 2) = (s, ds, GaveUp 7) \<and> length ds = 2"
  using reconnect_gives_up [of 2 "replicate 4 \<lparr>rd_cancelled = False, rd_connect = Some (7 :: nat), rd_wait = TimerExpired\<rparr>" id id 1 1 5]
  by auto

section \<open>The manager and its goroutines\<close>

text \<open>Where a loop stands: before the check, in the connection attempt, in a wait on the stop channel it read, or behind the
  loop, with the deferred function to run; \<open>Gone\<close> afterwards.  Channels are numbers.\<close>

datatype loop_pc = AtCheck | Connecting | Waiting nat | Leaving | Gone

record RManager =
  rm_onConnect :: bool
  rm_running :: bool
  rm_stopCh :: nat
  rm_closed :: "nat list"
  rm_loops :: "loop_pc list"

datatype raction =
    RSetCallbacks bool
  | RStart
  | RStop
  | RCheck nat
  | RConnected nat
  | RFailed nat bool
  | RTimer nat
  | RStopSeen nat
  | RContextDone nat
  | RDefer nat

definition reconnect_NewManager :: RManager where
  "reconnect_NewManager = \<lparr>rm_onConnect = False, rm_running = False, rm_stopCh = 0, rm_closed = [], rm_loops = []\<rparr>"

definition pc_at :: "RManager \<Rightarrow> nat \<Rightarrow> loop_pc" where
  "pc_at m i = (if i < length (rm_loops m) then rm_loops m ! i else Gone)"

definition goto_pc :: "nat \<Rightarrow> loop_pc \<Rightarrow> RManager \<Rightarrow> RManager" where
  "goto_pc i pc m = m\<lparr>rm_loops := (rm_loops m)[i := pc]\<rparr>"

definition SetCallbacks :: "bool \<Rightarrow> RManager \<Rightarrow> RManager" where
  "SetCallbacks onConnect m = m\<lparr>rm_onConnect := onConnect\<rparr>"

definition manager_Start :: "RManager \<Rightarrow> RManager" where
  "manager_Start m =
     (if rm_running m then m
      else if \<not> rm_onConnect m then m
      else m\<lparr>rm_running := True, rm_stopCh := rm_stopCh m + 1, rm_loops := rm_loops m @ [AtCheck]\<rparr>)"

definition manager_Stop :: "RManager \<Rightarrow> RManager" where
  "manager_Stop m = (if \<not> rm_running m then m else m\<lparr>rm_running := False, rm_closed := rm_stopCh m # rm_closed m\<rparr>)"

text \<open>One step of the manager or of a loop, if it is possible.  Of the callbacks the model keeps whether there is one to connect with;
  if it is taken away while a loop runs, the next attempt of the loop panics and is no step.  \<open>RFailed\<close> carries the verdict of the
  strategy.\<close>

fun rstep :: "raction \<Rightarrow> RManager \<Rightarrow> RManager option" where
  "rstep (RSetCallbacks b) m = Some (SetCallbacks b m)"
| "rstep RStart m = Some (manager_Start m)"
| "rstep RStop m = Some (manager_Stop m)"
| "rstep (RCheck i) m =
     (if pc_at m i = AtCheck
      then (if rm_stopCh m \<in> set (rm_closed m) then Some (goto_pc i Leaving m)
            else if rm_onConnect m then Some (goto_pc i Connecting m) else None)
      else None)"
| "rstep (RConnected i) m = (if pc_at m i = Connecting then Some (goto_pc i Leaving m) else None)"
| "rstep (RFailed i retry) m =
     (if pc_at m i = Connecting then Some (goto_pc i (if retry then Waiting (rm_stopCh m) else Leaving) m) else None)"
| "rstep (RTimer i) m = (case pc_at m i of Waiting _ \<Rightarrow> Some (goto_pc i AtCheck m) | _ \<Rightarrow> None)"
| "rstep (RStopSeen i) m = (case pc_at m i of Waiting c \<Rightarrow> if c \<in> set (rm_closed m) then Some (goto_pc i Leaving m) else None | _ \<Rightarrow> None)"
| "rstep (RContextDone i) m = (case pc_at m i of Waiting _ \<Rightarrow> Some (goto_pc i Leaving m) | AtCheck \<Rightarrow> Some (goto_pc i Leaving m) | _ \<Rightarrow> None)"
| "rstep (RDefer i) m = (if pc_at m i = Leaving then Some ((goto_pc i Gone m)\<lparr>rm_running := False\<rparr>) else None)"

fun rrun :: "raction list \<Rightarrow> RManager \<Rightarrow> RManager option" where
  "rrun [] m = Some m"
| "rrun (x # xs) m = (case rstep x m of None \<Rightarrow> None | Some m \<Rightarrow> rrun xs m)"

definition idle :: "RManager \<Rightarrow> bool" where
  "idle m \<longleftrightarrow> list_all (\<lambda>pc. pc = Gone) (rm_loops m)"

text \<open>The manager is used with care if it is started only when no loop is left.\<close>

inductive careful :: "RManager \<Rightarrow> bool" where
  New: "careful reconnect_NewManager"
| Start: "careful m \<Longrightarrow> idle m \<Longrightarrow> careful (manager_Start m)"
| Other: "careful m \<Longrightarrow> x \<noteq> RStart \<Longrightarrow> rstep x m = Some m' \<Longrightarrow> careful m'"

definition one_loop :: "RManager \<Rightarrow> bool" where
  "one_loop m \<longleftrightarrow> (\<forall>i < length (rm_loops m) - 1. rm_loops m ! i = Gone) \<and> (\<forall>c \<in> set (rm_closed m). c \<le> rm_stopCh m) \<and>
     (rm_running m \<longleftrightarrow> rm_loops m \<noteq> [] \<and> last (rm_loops m) \<noteq> Gone \<and> rm_stopCh m \<notin> set (rm_closed m)) \<and>
     (\<forall>c. rm_loops m \<noteq> [] \<and> last (rm_loops m) = Waiting c \<longrightarrow> c = rm_stopCh m)"

lemma pc_last:
  assumes "one_loop m" and "pc_at m i \<noteq> Gone"
  shows "rm_loops m \<noteq> []" "i = length (rm_loops m) - 1" "pc_at m i = last (rm_loops m)"
proof -
  have i: "i < length (rm_loops m)" "rm_loops m ! i \<noteq> Gone" using assms(2) by (auto simp: pc_at_def split: if_splits)
  then show ne: "rm_loops m \<noteq> []" by auto
  have "\<not> i < length (rm_loops m) - 1" using assms(1) i(2) by (auto simp: one_loop_def)
  then show last: "i = length (rm_loops m) - 1" using i(1) by linarith
  show "pc_at m i = last (rm_loops m)" using i(1) ne by (simp add: pc_at_def last last_conv_nth)
qed

lemma goto_one_loop:
  assumes "one_loop m" and "pc_at m i \<noteq> Gone" and "pc \<noteq> Gone" and "\<And>c. pc = Waiting c \<Longrightarrow> c = rm_stopCh m"
  shows "one_loop (goto_pc i pc m)"
proof -
  have i: "rm_loops m \<noteq> []" "i = length (rm_loops m) - 1" "last (rm_loops m) \<noteq> Gone" using pc_last [OF assms(1,2)] assms(2) by simp_all
  then have "last ((rm_loops m)[i := pc]) = pc" by (simp add: last_list_update)
  then show ?thesis using assms i by (auto simp: one_loop_def goto_pc_def nth_list_update)
qed

lemma rstep_one_loop:
  assumes "one_loop m" and "x \<noteq> RStart" and "rstep x m = Some m'"
  shows "one_loop m'"
proof (cases x)
  case RStop
  then show ?thesis using assms by (auto simp: manager_Stop_def one_loop_def)
next
  case (RSetCallbacks b)
  then show ?thesis using assms by (auto simp: SetCallbacks_def one_loop_def)
next
  case (RDefer i)
  then have m': "m' = (goto_pc i Gone m)\<lparr>rm_running := False\<rparr>" and l: "pc_at m i = Leaving" using assms(3) by (auto split: if_splits)
  then have i: "rm_loops m \<noteq> []" "i = length (rm_loops m) - 1" using pc_last [OF assms(1), of i] by simp_all
  then have "last ((rm_loops m)[i := Gone]) = Gone" by (simp add: last_list_update)
  then show ?thesis using assms(1) i by (auto simp: m' one_loop_def goto_pc_def nth_list_update)
qed (use assms in \<open>auto intro!: goto_one_loop split: if_splits loop_pc.splits\<close>)

lemma careful_one_loop: "careful m \<Longrightarrow> one_loop m"
proof (induction rule: careful.induct)
  case (Start m)
  have "\<not> rm_running m" using Start by (auto simp: one_loop_def idle_def list_all_iff)
  moreover have "rm_stopCh m + 1 \<notin> set (rm_closed m)" using Start.IH by (auto simp: one_loop_def)
  ultimately show ?case using Start by (auto simp: manager_Start_def one_loop_def idle_def list_all_iff nth_append)
next
  case (Other m x m')
  then show ?case using rstep_one_loop by blast
qed (simp add: one_loop_def reconnect_NewManager_def)



text \<open>A stop followed by a start while a loop is in its connection attempt leaves two loops; when the first ends, it marks the
  manager as not running, and the second can no longer be stopped.\<close>

theorem reconnect_unstoppable:
  "\<exists>m. rrun [RSetCallbacks True, RStart, RCheck 0, RStop, RStart, RCheck 1, RFailed 1 True, RConnected 0, RDefer 0] reconnect_NewManager = Some m \<and>
     pc_at m 1 = Waiting (rm_stopCh m) \<and> manager_Stop m = m \<and> rm_stopCh m \<notin> set (rm_closed m)"
proof -
  let ?m = "\<lparr>rm_onConnect = True, rm_running = False, rm_stopCh = 2, rm_closed = [1], rm_loops = [Gone, Waiting 2]\<rparr>"
  have "rrun [RSetCallbacks True, RStart, RCheck 0, RStop, RStart, RCheck 1, RFailed 1 True, RConnected 0, RDefer 0] reconnect_NewManager = Some ?m" by code_simp
  moreover have "pc_at ?m 1 = Waiting (rm_stopCh ?m) \<and> manager_Stop ?m = ?m \<and> rm_stopCh ?m \<notin> set (rm_closed ?m)" by code_simp
  ultimately show ?thesis by blast
qed

end
