(* ===== verification/JPEGXS_Depacketizer.thy ===== *)
theory JPEGXS_Depacketizer
  imports Memory_Depacketizer
begin

unbundle bit_operations_syntax

text \<open>
  The JPEG XS depacketizer and its memory-accounting wrapper, \<^verbatim>\<open>codec/jpegxs_depacketizer.go\<close>.  The packets of a frame in
  sequence are put together; packets that come behind a loss are the tail of a frame that is delivered as if it were whole.
\<close>

section \<open>Profiles\<close>

definition ProfileLight :: byte where "ProfileLight = 0x1A"
definition ProfileMain :: byte where "ProfileMain = 0x2A"
definition ProfileHigh :: byte where "ProfileHigh = 0x3A"
definition ProfileHigh444_12 :: byte where "ProfileHigh444_12 = 0x4A"
definition ProfileLightSubline :: byte where "ProfileLightSubline = 0x1B"
definition ProfileMainSubline :: byte where "ProfileMainSubline = 0x2B"

definition hex_digit :: "byte \<Rightarrow> char" where
  "hex_digit d = ''0123456789ABCDEF'' ! unat d"

definition GetProfileName :: "byte \<Rightarrow> string" where
  "GetProfileName profile =
     (if profile = ProfileLight then ''Light''
      else if profile = ProfileMain then ''Main''
      else if profile = ProfileHigh then ''High''
      else if profile = ProfileHigh444_12 then ''High 4:4:4 12-bit''
      else if profile = ProfileLightSubline then ''Light Subline''
      else if profile = ProfileMainSubline then ''Main Subline''
      else ''Unknown(0x'' @ [hex_digit (drop_bit 4 profile), hex_digit (profile AND 0x0F)] @ '')'')"

definition ValidateProfile :: "byte \<Rightarrow> bool" where
  "ValidateProfile profile \<longleftrightarrow>
     profile \<in> set [ProfileLight, ProfileMain, ProfileHigh, ProfileHigh444_12, ProfileLightSubline, ProfileMainSubline]"

definition GetChromaFormatString :: "byte \<Rightarrow> string" where
  "GetChromaFormatString chromaFormat =
     (if chromaFormat = 0 then ''4:2:0'' else if chromaFormat = 1 then ''4:2:2'' else if chromaFormat = 2 then ''4:4:4'' else ''Unknown'')"

definition GetBitDepth :: "byte \<Rightarrow> int" where
  "GetBitDepth bitDepthCode = (if bitDepthCode = 0 then 8 else if bitDepthCode = 1 then 10 else if bitDepthCode = 2 then 12 else 0)"

section \<open>The depacketizer\<close>

record JPEGXSDepacketizer =
  jx_fragments :: "byte list list"
  jx_lastSeq :: u16
  jx_hasLastSeq :: bool
  jx_currentFrameID :: u32
  jx_expectedPackets :: u16
  jx_receivedPackets :: u16
  jx_frameComplete :: bool
  jx_profile :: byte

definition NewJPEGXSDepacketizer :: JPEGXSDepacketizer where
  "NewJPEGXSDepacketizer = \<lparr>jx_fragments = [], jx_lastSeq = 0, jx_hasLastSeq = False, jx_currentFrameID = 0, jx_expectedPackets = 0,
     jx_receivedPackets = 0, jx_frameComplete = False, jx_profile = 0\<rparr>"

datatype jxs_error = JxsTooShort | JxsHeaderTooShort | JxsNoData | JxsNoFragments | JxsFrameTooLarge nat nat

text \<open>The fields of the parsed header that the code sets; the others stay zero.\<close>

record jpegxsHeader =
  jh_FirstPacket :: bool
  jh_LastPacket :: bool
  jh_PacketMode :: byte
  jh_FieldID :: byte
  jh_FrameID :: u32
  jh_PacketID :: u16
  jh_HasExtended :: bool
  jh_Profile :: byte
  jh_Level :: byte
  jh_Interlaced :: bool

definition jx_FrameID :: "byte list \<Rightarrow> u32" where
  "jx_FrameID payload = push_bit 16 (ucast (payload ! 1)) OR push_bit 8 (ucast (payload ! 2)) OR ucast (payload ! 3)"

definition jx_parseHeader :: "byte list \<Rightarrow> JPEGXSDepacketizer \<Rightarrow> JPEGXSDepacketizer \<times> (jxs_error + jpegxsHeader \<times> nat)" where
  "jx_parseHeader payload d =
     (if length payload < 4 then (d, Inl JxsHeaderTooShort)
      else
        (let flags = payload ! 0; mode = drop_bit 4 flags AND 0x03;
             header = \<lparr>jh_FirstPacket = (flags AND 0x80 \<noteq> 0), jh_LastPacket = (flags AND 0x40 \<noteq> 0), jh_PacketMode = mode,
                jh_FieldID = drop_bit 3 flags AND 0x01, jh_FrameID = jx_FrameID payload, jh_PacketID = 0,
                jh_HasExtended = (flags AND 0x04 \<noteq> 0), jh_Profile = 0, jh_Level = 0, jh_Interlaced = (mode = 1)\<rparr>
         in if jh_HasExtended header then
              (if length payload < 8 then (d, Inl JxsHeaderTooShort)
               else
                 (d\<lparr>jx_profile := payload ! 6\<rparr>,
                  Inr (header\<lparr>jh_PacketID := push_bit 8 (ucast (payload ! 4)) OR ucast (payload ! 5), jh_Profile := payload ! 6,
                         jh_Level := payload ! 7\<rparr>, 8)))
            else (d, Inr (header, 4))))"

definition jx_resetFrame :: "JPEGXSDepacketizer \<Rightarrow> JPEGXSDepacketizer" where
  "jx_resetFrame d = d\<lparr>jx_fragments := [], jx_expectedPackets := 0, jx_receivedPackets := 0, jx_frameComplete := False\<rparr>"

definition jx_Reset :: "JPEGXSDepacketizer \<Rightarrow> JPEGXSDepacketizer" where
  "jx_Reset d = (jx_resetFrame d)\<lparr>jx_lastSeq := 0, jx_hasLastSeq := False, jx_currentFrameID := 0\<rparr>"

definition jx_assembleFrame :: "JPEGXSDepacketizer \<Rightarrow> jxs_error + byte list" where
  "jx_assembleFrame d =
     (if length (jx_fragments d) = 0 then Inl JxsNoFragments
      else
        (let totalSize = total_size (jx_fragments d)
         in if totalSize > MaxFrameSize then Inl (JxsFrameTooLarge totalSize MaxFrameSize) else Inr (concat (jx_fragments d))))"

text \<open>A frame left unfinished is dropped.\<close>

definition jx_discard :: "JPEGXSDepacketizer \<Rightarrow> JPEGXSDepacketizer" where
  "jx_discard d = (if \<not> jx_frameComplete d \<and> length (jx_fragments d) > 0 then jx_resetFrame d else d)"

definition jx_start :: "u32 \<Rightarrow> JPEGXSDepacketizer \<Rightarrow> JPEGXSDepacketizer" where
  "jx_start frameID d = (jx_discard d)\<lparr>jx_currentFrameID := frameID, jx_expectedPackets := 0, jx_receivedPackets := 0,
     jx_frameComplete := False, jx_fragments := []\<rparr>"

definition jx_add ::
  "byte list \<Rightarrow> bool \<Rightarrow> JPEGXSDepacketizer \<Rightarrow> JPEGXSDepacketizer \<times> (jxs_error + byte list list)" where
  "jx_add jpegData lastPacket d =
     (if length jpegData = 0 then (d, Inl JxsNoData)
      else
        (let d = d\<lparr>jx_fragments := jx_fragments d @ [jpegData], jx_receivedPackets := jx_receivedPackets d + 1\<rparr>
         in if lastPacket then
              (let d = d\<lparr>jx_expectedPackets := jx_receivedPackets d\<rparr>
               in case jx_assembleFrame d of
                    Inl err \<Rightarrow> (jx_resetFrame d, Inl err)
                  | Inr frame \<Rightarrow> (jx_resetFrame (d\<lparr>jx_frameComplete := True\<rparr>), Inr [frame]))
            else (d, Inr [])))"

definition jx_Depacketize :: "rtp_packet \<Rightarrow> JPEGXSDepacketizer \<Rightarrow> JPEGXSDepacketizer \<times> (jxs_error + byte list list)" where
  "jx_Depacketize packet d =
     (let payload = pk_Payload packet; sequenceNumber = pk_SequenceNumber packet
      in if length payload < 4 then (d, Inl JxsTooShort)
         else
           (case jx_parseHeader payload d of
              (d, Inl err) \<Rightarrow> (d, Inl err)
            | (d, Inr (header, headerSize)) \<Rightarrow>
                (let packetLossDetected = (jx_hasLastSeq d \<and> sequenceNumber \<noteq> jx_lastSeq d + 1);
                     d = (if packetLossDetected then jx_discard d else d);
                     d = d\<lparr>jx_lastSeq := sequenceNumber, jx_hasLastSeq := True\<rparr>
                 in if jh_FirstPacket header \<or> jh_FrameID header \<noteq> jx_currentFrameID d
                    then jx_add (drop headerSize payload) (jh_LastPacket header) (jx_start (jh_FrameID header) d)
                    else if packetLossDetected \<and> \<not> jh_FirstPacket header then (d, Inr [])
                    else jx_add (drop headerSize payload) (jh_LastPacket header) d)))"

definition GetProfile :: "JPEGXSDepacketizer \<Rightarrow> byte" where
  "GetProfile d = jx_profile d"

definition SetProfile :: "byte \<Rightarrow> JPEGXSDepacketizer \<Rightarrow> JPEGXSDepacketizer" where
  "SetProfile profile d = d\<lparr>jx_profile := profile\<rparr>"

section \<open>The memory wrapper\<close>

datatype jxm_error = JxInner jxs_error | JxRefused dm_error

definition NewJPEGXSDepacketizerWithMemory :: "string \<Rightarrow> int \<Rightarrow> JPEGXSDepacketizer DepacketizerWithMemory" where
  "NewJPEGXSDepacketizerWithMemory = NewDepacketizerWithMemory NewJPEGXSDepacketizer"

definition jxm_Depacketize ::
  "(int \<Rightarrow> int \<Rightarrow> bool) \<Rightarrow> nanos \<Rightarrow> rtp_packet \<Rightarrow> JPEGXSDepacketizer DepacketizerWithMemory \<Rightarrow> Controller \<Rightarrow>
   JPEGXSDepacketizer DepacketizerWithMemory \<times> Controller \<times> (jxm_error + byte list list)" where
  "jxm_Depacketize over now packet d c =
     (let estimatedSize = int (length (pk_Payload packet) * 2) in
      case dm_reserve over now estimatedSize d c of
        (d, c, Some e) \<Rightarrow> (d, c, Inl (JxRefused e))
      | (d, c, None) \<Rightarrow>
          (case jx_Depacketize packet (dm_inner d) of
             (inner, Inl e) \<Rightarrow>
               (d\<lparr>dm_inner := inner, dm_currentUsage := dm_currentUsage d - estimatedSize\<rparr>,
                mc_ReleaseMemory (dm_streamID d) estimatedSize c, Inl (JxInner e))
           | (inner, Inr frames) \<Rightarrow>
               (let d = d\<lparr>dm_inner := inner\<rparr>
                in if length frames > 0 then
                     (let actualSize = int (total_size frames);
                          c = (if dm_currentUsage d > actualSize
                               then mc_ReleaseMemory (dm_streamID d) (dm_currentUsage d - actualSize) c else c)
                      in (d\<lparr>dm_currentUsage := 0\<rparr>, c, Inr frames))
                   else (d, c, Inr frames))))"

definition jxm_Reset where
  "jxm_Reset = dm_Reset jx_Reset"

section \<open>Frames on the wire\<close>

text \<open>The payload of a packet: flags, frame identifier, the extended header or not, data.\<close>

record jxs_piece =
  jp_ext :: "(byte \<times> byte \<times> byte \<times> byte) option"
  jp_data :: "byte list"

definition jxs_payload :: "byte \<times> byte \<times> byte \<Rightarrow> bool \<Rightarrow> bool \<Rightarrow> jxs_piece \<Rightarrow> byte list" where
  "jxs_payload fid firstp lastp p =
     (case fid of (i, j, k) \<Rightarrow>
        [(if firstp then 0x80 else 0) OR (if lastp then 0x40 else 0) OR (if jp_ext p \<noteq> None then 0x04 else 0), i, j, k] @
        (case jp_ext p of None \<Rightarrow> [] | Some (a, b, c, e) \<Rightarrow> [a, b, c, e]) @ jp_data p)"

definition fid_value :: "byte \<times> byte \<times> byte \<Rightarrow> u32" where
  "fid_value fid = (case fid of (i, j, k) \<Rightarrow> push_bit 16 (ucast i) OR push_bit 8 (ucast j) OR ucast k)"

text \<open>The packets of the rest of a frame from a sequence number on; the last one carries the last flag.\<close>

fun jxs_rest :: "rtp_packet \<Rightarrow> byte \<times> byte \<times> byte \<Rightarrow> u16 \<Rightarrow> jxs_piece list \<Rightarrow> rtp_packet list" where
  "jxs_rest tpl fid s [] = []"
| "jxs_rest tpl fid s (p # ps) =
     tpl\<lparr>pk_SequenceNumber := s, pk_Payload := jxs_payload fid False (ps = []) p\<rparr> # jxs_rest tpl fid (s + 1) ps"

definition jxs_frame :: "rtp_packet \<Rightarrow> byte \<times> byte \<times> byte \<Rightarrow> u16 \<Rightarrow> jxs_piece list \<Rightarrow> rtp_packet list" where
  "jxs_frame tpl fid s ps =
     (case ps of [] \<Rightarrow> []
      | p # ps \<Rightarrow> tpl\<lparr>pk_SequenceNumber := s, pk_Payload := jxs_payload fid True (ps = []) p\<rparr> # jxs_rest tpl fid (s + 1) ps)"

fun jx_run :: "rtp_packet list \<Rightarrow> JPEGXSDepacketizer \<Rightarrow> JPEGXSDepacketizer \<times> byte list list" where
  "jx_run [] d = (d, [])"
| "jx_run (p # ps) d =
     (let (d, r) = jx_Depacketize p d; (d, frames) = jx_run ps d
      in (d, (case r of Inl _ \<Rightarrow> [] | Inr fs \<Rightarrow> fs) @ frames))"

lemma jxs_flag_bits:
  "((if f then 0x80 else 0) OR (if l then 0x40 else 0) OR (if e then 0x04 else 0) :: byte) AND 0x80 \<noteq> 0 \<longleftrightarrow> f"
  "((if f then 0x80 else 0) OR (if l then 0x40 else 0) OR (if e then 0x04 else 0) :: byte) AND 0x40 \<noteq> 0 \<longleftrightarrow> l"
  "((if f then 0x80 else 0) OR (if l then 0x40 else 0) OR (if e then 0x04 else 0) :: byte) AND 0x04 \<noteq> 0 \<longleftrightarrow> e"
  by (cases f; cases l; cases e; simp)+

lemma parse_payload:
  "\<exists>d' h n. jx_parseHeader (jxs_payload fid f l p) d = (d', Inr (h, n)) \<and> (\<exists>pr. d' = d\<lparr>jx_profile := pr\<rparr>) \<and>
     drop n (jxs_payload fid f l p) = jp_data p \<and> jh_FirstPacket h = f \<and> jh_LastPacket h = l \<and> jh_FrameID h = fid_value fid"
proof -
  obtain i j k where fid: "fid = (i, j, k)" by (cases fid)
  have profile: "d = d\<lparr>jx_profile := jx_profile d\<rparr>" by simp
  show ?thesis
  proof (cases "jp_ext p")
    case None
    have "jx_parseHeader (jxs_payload fid f l p) d = (d\<lparr>jx_profile := jx_profile d\<rparr>, snd (jx_parseHeader (jxs_payload fid f l p) d))"
      using jxs_flag_bits(3) [of f l False] None by (auto simp: jx_parseHeader_def jxs_payload_def fid Let_def)
    then show ?thesis using jxs_flag_bits [of f l False] None
      by (auto simp: jx_parseHeader_def jxs_payload_def fid Let_def jx_FrameID_def fid_value_def intro!: exI [of _ "jx_profile d"])
  next
    case (Some q)
    obtain a b c e where q: "q = (a, b, c, e)" by (cases q)
    show ?thesis using jxs_flag_bits [of f l True] Some q
      by (auto simp: jx_parseHeader_def jxs_payload_def fid Let_def jx_FrameID_def fid_value_def)
  qed
qed

section \<open>Reassembly\<close>

text \<open>The depacketizer has seen sequence number \<open>s\<close> and holds the given fragments of a frame.\<close>

definition in_frame :: "byte \<times> byte \<times> byte \<Rightarrow> u16 \<Rightarrow> byte list list \<Rightarrow> JPEGXSDepacketizer \<Rightarrow> bool" where
  "in_frame fid s frags d \<longleftrightarrow> jx_hasLastSeq d \<and> jx_lastSeq d = s \<and> jx_currentFrameID d = fid_value fid \<and> jx_fragments d = frags"

definition jx_outcome :: "byte \<times> byte \<times> byte \<Rightarrow> u16 \<Rightarrow> byte list list \<Rightarrow> bool \<Rightarrow> JPEGXSDepacketizer \<times> (jxs_error + byte list list) \<Rightarrow> bool" where
  "jx_outcome fid s frags lastp r \<longleftrightarrow>
     (if lastp then snd r = Inr [concat frags] \<and> in_frame fid s [] (fst r) else snd r = Inr [] \<and> in_frame fid s frags (fst r))"

lemma jx_add_outcome:
  assumes "in_frame fid s frags d" and "data \<noteq> []" and "total_size (frags @ [data]) \<le> MaxFrameSize"
  shows "jx_outcome fid s (frags @ [data]) l (jx_add data l d)"
  using assms by (simp add: jx_add_def jx_outcome_def in_frame_def jx_assembleFrame_def jx_resetFrame_def Let_def)

lemma jx_next:
  assumes "in_frame fid s frags d" and "jp_data p \<noteq> []" and "total_size (frags @ [jp_data p]) \<le> MaxFrameSize"
  shows "jx_outcome fid (s + 1) (frags @ [jp_data p]) l (jx_Depacketize (tpl\<lparr>pk_SequenceNumber := s + 1, pk_Payload := jxs_payload fid False l p\<rparr>) d)"
proof -
  obtain d' h n pr where h: "jx_parseHeader (jxs_payload fid False l p) d = (d', Inr (h, n))" "d' = d\<lparr>jx_profile := pr\<rparr>"
    "drop n (jxs_payload fid False l p) = jp_data p" "\<not> jh_FirstPacket h" "jh_LastPacket h = l" "jh_FrameID h = fid_value fid"
    using parse_payload [of fid False l p d] by auto
  let ?d = "d'\<lparr>jx_lastSeq := s + 1, jx_hasLastSeq := True\<rparr>"
  have "4 \<le> length (jxs_payload fid False l p)" by (cases fid) (simp add: jxs_payload_def)
  then have "jx_Depacketize (tpl\<lparr>pk_SequenceNumber := s + 1, pk_Payload := jxs_payload fid False l p\<rparr>) d = jx_add (jp_data p) l ?d"
    using assms(1) h by (simp add: jx_Depacketize_def in_frame_def)
  moreover have "in_frame fid (s + 1) frags ?d" using assms(1) h(2) by (simp add: in_frame_def)
  ultimately show ?thesis using jx_add_outcome [OF _ assms(2,3)] by simp
qed

lemma jx_first:
  assumes "f \<or> jx_currentFrameID d \<noteq> fid_value fid" and "jp_data p \<noteq> []" and "length (jp_data p) \<le> MaxFrameSize"
  shows "jx_outcome fid s [jp_data p] l (jx_Depacketize (tpl\<lparr>pk_SequenceNumber := s, pk_Payload := jxs_payload fid f l p\<rparr>) d)"
proof -
  obtain d' h n pr where h: "jx_parseHeader (jxs_payload fid f l p) d = (d', Inr (h, n))" "d' = d\<lparr>jx_profile := pr\<rparr>"
    "drop n (jxs_payload fid f l p) = jp_data p" "jh_FirstPacket h = f" "jh_LastPacket h = l" "jh_FrameID h = fid_value fid"
    using parse_payload [of fid f l p d] by auto
  let ?d = "(if jx_hasLastSeq d' \<and> s \<noteq> jx_lastSeq d' + 1 then jx_discard d' else d')\<lparr>jx_lastSeq := s, jx_hasLastSeq := True\<rparr>"
  have same: "jx_currentFrameID ?d = jx_currentFrameID d" using h(2) by (simp add: jx_discard_def jx_resetFrame_def)
  have "4 \<le> length (jxs_payload fid f l p)" by (cases fid) (simp add: jxs_payload_def)
  then have "jx_Depacketize (tpl\<lparr>pk_SequenceNumber := s, pk_Payload := jxs_payload fid f l p\<rparr>) d = jx_add (jp_data p) l (jx_start (fid_value fid) ?d)"
    using assms(1) h same unfolding jx_Depacketize_def by (auto simp: Let_def)
  moreover have "in_frame fid s [] (jx_start (fid_value fid) ?d)" by (simp add: in_frame_def jx_start_def jx_discard_def jx_resetFrame_def)
  ultimately show ?thesis using jx_add_outcome [of fid s "[]" _ "jp_data p" l] assms(2,3) by simp
qed

lemma jx_rest:
  assumes "in_frame fid s frags d" and "ps \<noteq> []" and "list_all (\<lambda>p. jp_data p \<noteq> []) ps" and "total_size (frags @ map jp_data ps) \<le> MaxFrameSize"
  shows "snd (jx_run (jxs_rest tpl fid (s + 1) ps) d) = [concat (frags @ map jp_data ps)] \<and>
    in_frame fid (s + of_nat (length ps)) [] (fst (jx_run (jxs_rest tpl fid (s + 1) ps) d))"
  using assms
proof (induction ps arbitrary: s frags d)
  case (Cons p ps)
  let ?r = "jx_Depacketize (tpl\<lparr>pk_SequenceNumber := s + 1, pk_Payload := jxs_payload fid False (ps = []) p\<rparr>) d"
  have "jx_outcome fid (s + 1) (frags @ [jp_data p]) (ps = []) ?r" using jx_next [OF Cons.prems(1)] Cons.prems(3,4) by simp
  moreover obtain d' r where r: "?r = (d', r)" by (cases ?r)
  ultimately have o: "jx_outcome fid (s + 1) (frags @ [jp_data p]) (ps = []) (d', r)" by simp
  show ?case
  proof (cases "ps = []")
    case True
    then show ?thesis using o r by (simp add: jx_outcome_def)
  next
    case False
    then have d': "in_frame fid (s + 1) (frags @ [jp_data p]) d'" "r = Inr []" using o by (simp_all add: jx_outcome_def)
    have "snd (jx_run (jxs_rest tpl fid (s + 1 + 1) ps) d') = [concat ((frags @ [jp_data p]) @ map jp_data ps)] \<and>
      in_frame fid (s + 1 + of_nat (length ps)) [] (fst (jx_run (jxs_rest tpl fid (s + 1 + 1) ps) d'))"
      using Cons.IH [OF d'(1) False] Cons.prems(3,4) by simp
    then show ?thesis using r d'(2) False by (simp add: case_prod_unfold Let_def add.assoc add.commute add.left_commute)
  qed
qed simp

lemma jx_run_first:
  assumes "f \<or> jx_currentFrameID d \<noteq> fid_value fid" and "list_all (\<lambda>p. jp_data p \<noteq> []) (p # ps)" and "total_size (map jp_data (p # ps)) \<le> MaxFrameSize"
  shows "snd (jx_run (tpl\<lparr>pk_SequenceNumber := s, pk_Payload := jxs_payload fid f (ps = []) p\<rparr> # jxs_rest tpl fid (s + 1) ps) d) =
    [concat (map jp_data (p # ps))]"
proof -
  let ?r = "jx_Depacketize (tpl\<lparr>pk_SequenceNumber := s, pk_Payload := jxs_payload fid f (ps = []) p\<rparr>) d"
  have "jx_outcome fid s [jp_data p] (ps = []) ?r" using jx_first [OF assms(1)] assms(2,3) by simp
  moreover obtain d' r where r: "?r = (d', r)" by (cases ?r)
  ultimately have o: "jx_outcome fid s [jp_data p] (ps = []) (d', r)" by simp
  show ?thesis
  proof (cases "ps = []")
    case True
    then show ?thesis using o r by (simp add: jx_outcome_def)
  next
    case False
    then have d': "in_frame fid s [jp_data p] d'" "r = Inr []" using o by (simp_all add: jx_outcome_def)
    then show ?thesis using jx_rest [OF d'(1) False] assms(2,3) r False by (simp add: case_prod_unfold Let_def)
  qed
qed

section \<open>Properties\<close>

text \<open>C27: A JPEG XS frame sent in pieces is put together again: from any state, packets with consecutive sequence numbers that carry
  the pieces of a frame, with or without extended headers, the first and the last marked, deliver exactly the concatenation of
  the pieces, if it keeps the limit on the size of a frame.\<close>

theorem jxs_frame_roundtrip:
  assumes "ps \<noteq> []" and "list_all (\<lambda>p. jp_data p \<noteq> []) ps" and "total_size (map jp_data ps) \<le> MaxFrameSize"
  shows "snd (jx_run (jxs_frame tpl fid s ps) d) = [concat (map jp_data ps)]"
proof -
  obtain q qs where ps: "ps = q # qs" using assms(1) by (cases ps) auto
  show ?thesis using jx_run_first [of True d fid q qs] assms(2,3) by (simp add: jxs_frame_def ps)
qed

theorem jxs_frame_roundtrip_witness:
  "snd (jx_run (jxs_frame packet0 (0, 0, 7) 0xFFFF [\<lparr>jp_ext = Some (0, 1, 0x2A, 4), jp_data = [1, 2]\<rparr>, \<lparr>jp_ext = None, jp_data = [3]\<rparr>])
     NewJPEGXSDepacketizer) = [[1, 2, 3]]"
  using jxs_frame_roundtrip [of "[\<lparr>jp_ext = Some (0, 1, 0x2A, 4), jp_data = [1, 2]\<rparr>, \<lparr>jp_ext = None, jp_data = [3]\<rparr>]" packet0 "(0, 0, 7)" "0xFFFF" NewJPEGXSDepacketizer]
  by (simp add: MaxFrameSize_def)

text \<open>A frame whose first packets were lost is delivered without them, as if it were whole: a packet of another frame than the
  current one starts a frame even if it is not marked as the first.\<close>

theorem jxs_lost_head_delivered:
  assumes "ps \<noteq> []" and "list_all (\<lambda>p. jp_data p \<noteq> []) ps" and "total_size (map jp_data ps) \<le> MaxFrameSize"
    and "jx_currentFrameID d \<noteq> fid_value fid"
  shows "snd (jx_run (jxs_rest tpl fid s ps) d) = [concat (map jp_data ps)]"
proof -
  obtain q qs where ps: "ps = q # qs" using assms(1) by (cases ps) auto
  show ?thesis using jx_run_first [of False d fid q qs] assms(2-4) by (simp add: ps)
qed

theorem jxs_lost_head_delivered_witness:
  "snd (jx_run (jxs_rest packet0 (0, 0, 7) 5 [\<lparr>jp_ext = None, jp_data = [3]\<rparr>]) NewJPEGXSDepacketizer) = [[3]]"
  using jxs_lost_head_delivered [of "[\<lparr>jp_ext = None, jp_data = [3]\<rparr>]" NewJPEGXSDepacketizer "(0, 0, 7)" packet0 5]
  by (simp add: MaxFrameSize_def NewJPEGXSDepacketizer_def fid_value_def)

text \<open>Behind a loss inside a frame one packet is refused and what was collected is dropped, but the packets after it are collected
  and delivered as a frame.\<close>

theorem jxs_tail_delivered:
  assumes "in_frame fid s0 frags d" and "\<not> jx_frameComplete d" and "s \<noteq> s0 + 1"
    and "ps \<noteq> []" and "list_all (\<lambda>p. jp_data p \<noteq> []) ps" and "total_size (map jp_data ps) \<le> MaxFrameSize"
  shows "snd (jx_run (tpl\<lparr>pk_SequenceNumber := s, pk_Payload := jxs_payload fid False False q\<rparr> # jxs_rest tpl fid (s + 1) ps) d) =
    [concat (map jp_data ps)]"
proof -
  obtain d' h n pr where h: "jx_parseHeader (jxs_payload fid False False q) d = (d', Inr (h, n))" "d' = d\<lparr>jx_profile := pr\<rparr>"
    "\<not> jh_FirstPacket h" "jh_FrameID h = fid_value fid"
    using parse_payload [of fid False False q d] by auto
  let ?d = "(jx_discard d')\<lparr>jx_lastSeq := s, jx_hasLastSeq := True\<rparr>"
  have id: "jx_currentFrameID ?d = fid_value fid" and frame: "in_frame fid s [] ?d"
    using assms(1,2) h(2) by (auto simp: in_frame_def jx_discard_def jx_resetFrame_def)
  have "4 \<le> length (jxs_payload fid False False q)" by (cases fid) (simp add: jxs_payload_def)
  then have "jx_Depacketize (tpl\<lparr>pk_SequenceNumber := s, pk_Payload := jxs_payload fid False False q\<rparr>) d = (?d, Inr [])"
    using assms(1,3) h id unfolding jx_Depacketize_def by (simp add: in_frame_def)
  then show ?thesis using jx_rest [OF frame assms(4,5), of tpl] assms(6) by (simp add: case_prod_unfold Let_def)
qed

theorem jxs_tail_delivered_witness:
  "snd (jx_run (packet0\<lparr>pk_SequenceNumber := 2, pk_Payload := jxs_payload (0, 0, 7) False False \<lparr>jp_ext = None, jp_data = [3]\<rparr>\<rparr> #
       jxs_rest packet0 (0, 0, 7) 3 [\<lparr>jp_ext = None, jp_data = [4]\<rparr>])
     (NewJPEGXSDepacketizer\<lparr>jx_fragments := [[1]], jx_hasLastSeq := True, jx_currentFrameID := 7, jx_receivedPackets := 1\<rparr>)) = [[4]]"
  using jxs_tail_delivered [of "(0, 0, 7)" 0 "[[1]]"
      "NewJPEGXSDepacketizer\<lparr>jx_fragments := [[1]], jx_hasLastSeq := True, jx_currentFrameID := 7, jx_receivedPackets := 1\<rparr>"
      2 "[\<lparr>jp_ext = None, jp_data = [4]\<rparr>]" "\<lparr>jp_ext = None, jp_data = [3]\<rparr>" packet0]
  by (simp add: MaxFrameSize_def NewJPEGXSDepacketizer_def fid_value_def in_frame_def)

end
