(* ===== verification/Codec_Detector.thy ===== *)
theory Codec_Detector
  imports JPEGXS_Depacketizer
begin

unbundle bit_operations_syntax

text \<open>
  Codec detection and the depacketizer factory, \<^verbatim>\<open>codec/types.go\<close>, \<^verbatim>\<open>codec/detector.go\<close> and \<^verbatim>\<open>codec/factory.go\<close>: codec types are
  strings, the session description is read line by line, and a payload type it announces decides how packets are taken.  Texts
  are ASCII.  Two results of floating-point work are kept apart: the text of the HEVC level is the argument \<open>level30\<close>, and a frame
  rate is kept as the text it is parsed from.
\<close>

section \<open>Strings\<close>

definition is_space :: "char \<Rightarrow> bool" where
  "is_space ch \<longleftrightarrow> of_char ch \<in> {9, 10, 11, 12, 13, 32 :: nat}"

definition TrimSpace :: "string \<Rightarrow> string" where
  "TrimSpace s = rev (dropWhile is_space (rev (dropWhile is_space s)))"

definition upper_char :: "char \<Rightarrow> char" where
  "upper_char ch = (let n = of_char ch :: nat in if 97 \<le> n \<and> n \<le> 122 then char_of (n - 32) else ch)"

definition lower_char :: "char \<Rightarrow> char" where
  "lower_char ch = (let n = of_char ch :: nat in if 65 \<le> n \<and> n \<le> 90 then char_of (n + 32) else ch)"

definition ToUpper :: "string \<Rightarrow> string" where
  "ToUpper = map upper_char"

definition ToLower :: "string \<Rightarrow> string" where
  "ToLower = map lower_char"

definition HasPrefix :: "string \<Rightarrow> string \<Rightarrow> bool" where
  "HasPrefix s p \<longleftrightarrow> take (length p) s = p"

fun strings_Split :: "char \<Rightarrow> string \<Rightarrow> string list" where
  "strings_Split sep [] = [[]]"
| "strings_Split sep (ch # s) =
     (if ch = sep then [] # strings_Split sep s else (case strings_Split sep s of [] \<Rightarrow> [[ch]] | w # ws \<Rightarrow> (ch # w) # ws))"

text \<open>\<^verbatim>\<open>strings.SplitN\<close> with a limit of two.\<close>

definition SplitN2 :: "char \<Rightarrow> string \<Rightarrow> string list" where
  "SplitN2 sep s = (let w = takeWhile (\<lambda>ch. ch \<noteq> sep) s in if length w < length s then [w, drop (Suc (length w)) s] else [s])"

definition is_digit :: "char \<Rightarrow> bool" where
  "is_digit ch \<longleftrightarrow> 48 \<le> (of_char ch :: nat) \<and> (of_char ch :: nat) \<le> 57"

definition digits_value :: "string \<Rightarrow> int" where
  "digits_value ds = fold (\<lambda>ch n. 10 * n + (int (of_char ch) - 48)) ds 0"

text \<open>The number that \<^verbatim>\<open>strconv.Atoi\<close> returns: zero for a text that is no number, the nearest \<^verbatim>\<open>int64\<close> for one out of range.\<close>

definition go_Atoi :: "string \<Rightarrow> int" where
  "go_Atoi s =
     (let (neg, ds) = (case s of [] \<Rightarrow> (False, []) | ch # r \<Rightarrow> if ch = CHR ''-'' then (True, r) else if ch = CHR ''+'' then (False, r) else (False, s))
      in if ds = [] \<or> \<not> list_all is_digit ds then 0
         else (let v = digits_value ds in if neg then max (- v) (- (2 ^ 63)) else min v (2 ^ 63 - 1)))"

definition hex_value :: "char \<Rightarrow> nat option" where
  "hex_value ch =
     (let n = of_char ch :: nat
      in if 48 \<le> n \<and> n \<le> 57 then Some (n - 48)
         else if 97 \<le> n \<and> n \<le> 102 then Some (n - 87) else if 65 \<le> n \<and> n \<le> 70 then Some (n - 55) else None)"

text \<open>\<^verbatim>\<open>strconv.ParseUint\<close> of two hexadecimal digits; zero for anything else.\<close>

definition hex_byte :: "string \<Rightarrow> nat" where
  "hex_byte s = (case map hex_value s of [Some a, Some b] \<Rightarrow> 16 * a + b | _ \<Rightarrow> 0)"

fun nat_text :: "nat \<Rightarrow> string" where
  "nat_text n = (if n < 10 then [char_of (48 + n)] else nat_text (n div 10) @ [char_of (48 + n mod 10)])"

declare nat_text.simps [simp del]

section \<open>Codec types\<close>

type_synonym codec_Type = string

definition TypeHEVC :: codec_Type where "TypeHEVC = ''HEVC''"
definition TypeH264 :: codec_Type where "TypeH264 = ''H264''"
definition TypeAV1 :: codec_Type where "TypeAV1 = ''AV1''"
definition TypeJPEGXS :: codec_Type where "TypeJPEGXS = ''JPEGXS''"
definition TypeUnknown :: codec_Type where "TypeUnknown = ''UNKNOWN''"

lemmas codec_types = TypeHEVC_def TypeH264_def TypeAV1_def TypeJPEGXS_def TypeUnknown_def

definition codec_IsValid :: "codec_Type \<Rightarrow> bool" where
  "codec_IsValid t \<longleftrightarrow> t \<in> set [TypeHEVC, TypeH264, TypeAV1, TypeJPEGXS]"

definition ParseType :: "string \<Rightarrow> codec_Type" where
  "ParseType s =
     (let u = ToUpper (TrimSpace s)
      in if u \<in> set [''HEVC'', ''H265'', ''H.265''] then TypeHEVC
         else if u \<in> set [''H264'', ''H.264'', ''AVC''] then TypeH264
         else if u = ''AV1'' then TypeAV1
         else if u \<in> set [''JPEGXS'', ''JXS'', ''JPEG-XS''] then TypeJPEGXS
         else TypeUnknown)"

record codec_Info =
  ci_Type :: codec_Type
  ci_Profile :: string
  ci_Level :: string
  ci_Width :: int
  ci_Height :: int
  ci_FrameRate :: "string option"
  ci_BitDepth :: int
  ci_ChromaFmt :: string
  ci_Parameters :: "string \<rightharpoonup> string"

definition empty_Info :: codec_Info where
  "empty_Info = \<lparr>ci_Type = [], ci_Profile = [], ci_Level = [], ci_Width = 0, ci_Height = 0, ci_FrameRate = None, ci_BitDepth = 0,
     ci_ChromaFmt = [], ci_Parameters = Map.empty\<rparr>"

datatype codec_error = InvalidCodecType string | InvalidProfile string | NoVideoCodec | UnknownCodec string | NoCodecInMetadata
  | PacketTooShort | CodecUndetected | UnsupportedCodecType string

definition profile_check :: "string list \<Rightarrow> codec_Info \<Rightarrow> codec_error option" where
  "profile_check profiles i = (if ci_Profile i \<noteq> [] \<and> ToLower (ci_Profile i) \<notin> set profiles then Some (InvalidProfile (ci_Profile i)) else None)"

definition validateH264 :: "codec_Info \<Rightarrow> codec_error option" where
  "validateH264 = profile_check [''baseline'', ''main'', ''high'', ''high10'', ''high422'', ''high444'']"

definition validateHEVC :: "codec_Info \<Rightarrow> codec_error option" where
  "validateHEVC = profile_check [''main'', ''main10'', ''main444'', ''mainsp'']"

definition validateAV1 :: "codec_Info \<Rightarrow> codec_error option" where
  "validateAV1 = profile_check [''0'', ''1'', ''2'', ''main'', ''high'', ''professional'']"

definition validateJPEGXS :: "codec_Info \<Rightarrow> codec_error option" where
  "validateJPEGXS = profile_check [''light'', ''main'', ''high'', ''high444.12'', ''light-subline'', ''main-subline'']"

definition info_Validate :: "codec_Info \<Rightarrow> codec_error option" where
  "info_Validate i =
     (if \<not> codec_IsValid (ci_Type i) then Some (InvalidCodecType (ci_Type i))
      else if ci_Type i = TypeH264 then validateH264 i
      else if ci_Type i = TypeHEVC then validateHEVC i
      else if ci_Type i = TypeAV1 then validateAV1 i
      else if ci_Type i = TypeJPEGXS then validateJPEGXS i
      else None)"

section \<open>Parameters of a codec\<close>

definition parseH264Params :: "string \<Rightarrow> string \<Rightarrow> codec_Info \<Rightarrow> codec_Info" where
  "parseH264Params key val info =
     (if key = ''profile-level-id'' then
        (let b = (if length val \<ge> 2 then hex_byte (take 2 val) else 0);
             info = (if length val \<ge> 2 then
                 (if b = 0x42 then info\<lparr>ci_Profile := ''baseline''\<rparr>
                  else if b = 0x4D then info\<lparr>ci_Profile := ''main''\<rparr>
                  else if b = 0x58 then info\<lparr>ci_Profile := ''extended''\<rparr>
                  else if b = 0x64 then info\<lparr>ci_Profile := ''high''\<rparr>
                  else if b = 0x6E then info\<lparr>ci_Profile := ''high10''\<rparr>
                  else if b = 0x7A then info\<lparr>ci_Profile := ''high422''\<rparr>
                  else if b = 0xF4 then info\<lparr>ci_Profile := ''high444''\<rparr>
                  else info)
               else info)
         in if length val \<ge> 6
            then (let l = hex_byte (take 2 (drop 4 val)) in info\<lparr>ci_Level := nat_text (l div 10) @ ''.'' @ nat_text (l mod 10)\<rparr>) else info)
      else info)"

definition parseHEVCParams :: "(int \<Rightarrow> string) \<Rightarrow> string \<Rightarrow> string \<Rightarrow> codec_Info \<Rightarrow> codec_Info" where
  "parseHEVCParams level30 key val info =
     (if key = ''profile-id'' then
        (if val = ''1'' then info\<lparr>ci_Profile := ''main''\<rparr>
         else if val = ''2'' then info\<lparr>ci_Profile := ''main10''\<rparr>
         else if val = ''3'' then info\<lparr>ci_Profile := ''mainsp''\<rparr>
         else if val = ''4'' then info\<lparr>ci_Profile := ''rext''\<rparr>
         else info)
      else if key = ''level-id'' then info\<lparr>ci_Level := level30 (go_Atoi val)\<rparr>
      else info)"

definition int_text :: "int \<Rightarrow> string" where
  "int_text n = (if n < 0 then ''-'' @ nat_text (nat (- n)) else nat_text (nat n))"

definition av1LevelFromIndex :: "int \<Rightarrow> string" where
  "av1LevelFromIndex idx =
     (let levels = [''2.0'', ''2.1'', ''2.2'', ''2.3'', ''3.0'', ''3.1'', ''3.2'', ''3.3'', ''4.0'', ''4.1'', ''4.2'', ''4.3'',
                    ''5.0'', ''5.1'', ''5.2'', ''5.3'', ''6.0'', ''6.1'', ''6.2'', ''6.3'', ''7.0'', ''7.1'', ''7.2'', ''7.3'']
      in if idx \<ge> 0 \<and> idx < int (length levels) then levels ! nat idx else ''unknown-'' @ int_text idx)"

definition parseAV1Params :: "string \<Rightarrow> string \<Rightarrow> codec_Info \<Rightarrow> codec_Info" where
  "parseAV1Params key val info =
     (if key = ''profile'' then info\<lparr>ci_Profile := val\<rparr>
      else if key = ''level-idx'' then info\<lparr>ci_Level := av1LevelFromIndex (go_Atoi val)\<rparr>
      else if key = ''tier'' then info\<lparr>ci_Parameters := (ci_Parameters info)(''tier'' \<mapsto> val)\<rparr>
      else info)"

definition parseJPEGXSParams :: "string \<Rightarrow> string \<Rightarrow> codec_Info \<Rightarrow> codec_Info" where
  "parseJPEGXSParams key val info =
     (if key = ''profile'' then info\<lparr>ci_Profile := val\<rparr>
      else if key = ''level'' then info\<lparr>ci_Level := val\<rparr>
      else if key = ''sublevel'' then info\<lparr>ci_Parameters := (ci_Parameters info)(''sublevel'' \<mapsto> val)\<rparr>
      else if key = ''depth'' then info\<lparr>ci_BitDepth := go_Atoi val\<rparr>
      else if key = ''sampling'' then info\<lparr>ci_ChromaFmt := val\<rparr>
      else info)"

definition fmtp_pair :: "(int \<Rightarrow> string) \<Rightarrow> codec_Type \<Rightarrow> string \<Rightarrow> codec_Info \<Rightarrow> codec_Info" where
  "fmtp_pair level30 codecType pair info =
     (let pair = TrimSpace pair
      in if pair = [] then info
         else
           (case SplitN2 (CHR ''='') pair of
              [k, v] \<Rightarrow>
                (let key = TrimSpace k; val = TrimSpace v;
                     info = (if codecType = TypeH264 then parseH264Params key val info
                             else if codecType = TypeHEVC then parseHEVCParams level30 key val info
                             else if codecType = TypeAV1 then parseAV1Params key val info
                             else if codecType = TypeJPEGXS then parseJPEGXSParams key val info
                             else info)
                 in info\<lparr>ci_Parameters := (ci_Parameters info)(key \<mapsto> val)\<rparr>)
            | _ \<Rightarrow> info))"

definition parseFmtpParams :: "(int \<Rightarrow> string) \<Rightarrow> codec_Type \<Rightarrow> string \<Rightarrow> codec_Info \<Rightarrow> codec_Info" where
  "parseFmtpParams level30 codecType params info = fold (fmtp_pair level30 codecType) (strings_Split (CHR '';'') params) info"

section \<open>The detector\<close>

type_synonym codec_Detector = "byte \<rightharpoonup> codec_Type"

definition NewCodecDetector :: codec_Detector where
  "NewCodecDetector = Map.empty"

definition codec_detector_Reset :: "codec_Detector \<Rightarrow> codec_Detector" where
  "codec_detector_Reset d = Map.empty"

text \<open>What the loop over the lines carries.\<close>

record sdp_state =
  sd_codecType :: codec_Type
  sd_info :: codec_Info
  sd_currentPayloadType :: byte
  sd_inVideoSection :: bool
  sd_payloadTypeMap :: codec_Detector

definition rtpmap_codec :: "string \<Rightarrow> codec_Type option" where
  "rtpmap_codec codecName =
     (if codecName \<in> set [''H264'', ''H.264''] then Some TypeH264
      else if codecName \<in> set [''H265'', ''H.265'', ''HEVC''] then Some TypeHEVC
      else if codecName = ''AV1'' then Some TypeAV1
      else if codecName \<in> set [''JXSV'', ''JPEG-XS'', ''JPEGXS''] then Some TypeJPEGXS
      else None)"

definition sdp_rtpmap :: "string \<Rightarrow> sdp_state \<Rightarrow> sdp_state" where
  "sdp_rtpmap arg st =
     (case strings_Split (CHR '' '') arg of
        ptText # codecText # _ \<Rightarrow>
          (let pt = word_of_int (go_Atoi ptText); st = st\<lparr>sd_currentPayloadType := pt\<rparr>
           in case strings_Split (CHR ''/'') codecText of
                [] \<Rightarrow> st
              | name # others \<Rightarrow>
                  (let st = (case rtpmap_codec (ToUpper name) of
                               Some t \<Rightarrow> st\<lparr>sd_codecType := t, sd_payloadTypeMap := (sd_payloadTypeMap st)(pt \<mapsto> t)\<rparr>
                             | None \<Rightarrow> st)
                   in case others of
                        rate # _ \<Rightarrow> st\<lparr>sd_info := (sd_info st)\<lparr>ci_Parameters := (ci_Parameters (sd_info st))(''clock_rate'' \<mapsto> rate)\<rparr>\<rparr>
                      | [] \<Rightarrow> st))
      | _ \<Rightarrow> st)"

definition sdp_fmtp :: "(int \<Rightarrow> string) \<Rightarrow> string \<Rightarrow> sdp_state \<Rightarrow> sdp_state" where
  "sdp_fmtp level30 arg st =
     (case SplitN2 (CHR '' '') arg of
        [ptText, params] \<Rightarrow>
          (if word_of_int (go_Atoi ptText) = sd_currentPayloadType st
           then st\<lparr>sd_info := parseFmtpParams level30 (sd_codecType st) params (sd_info st)\<rparr> else st)
      | _ \<Rightarrow> st)"

definition sdp_framesize :: "string \<Rightarrow> sdp_state \<Rightarrow> sdp_state" where
  "sdp_framesize arg st =
     (case strings_Split (CHR '' '') arg of
        [_, dims] \<Rightarrow>
          (case strings_Split (CHR ''-'') dims of
             [w, h] \<Rightarrow> st\<lparr>sd_info := (sd_info st)\<lparr>ci_Width := go_Atoi w, ci_Height := go_Atoi h\<rparr>\<rparr>
           | _ \<Rightarrow> st)
      | _ \<Rightarrow> st)"

definition sdp_framerate :: "string \<Rightarrow> sdp_state \<Rightarrow> sdp_state" where
  "sdp_framerate arg st =
     (case strings_Split (CHR '' '') arg of
        [_, fps] \<Rightarrow> st\<lparr>sd_info := (sd_info st)\<lparr>ci_FrameRate := Some fps\<rparr>\<rparr>
      | _ \<Rightarrow> st)"

definition sdp_line :: "(int \<Rightarrow> string) \<Rightarrow> string \<Rightarrow> sdp_state \<Rightarrow> sdp_state" where
  "sdp_line level30 line st =
     (let line = TrimSpace line
      in if HasPrefix line ''m=video'' then st\<lparr>sd_inVideoSection := True\<rparr>
         else if HasPrefix line ''m='' \<and> \<not> HasPrefix line ''m=video'' then st\<lparr>sd_inVideoSection := False\<rparr>
         else if \<not> sd_inVideoSection st then st
         else
           (let st = (if HasPrefix line ''a=rtpmap:'' then sdp_rtpmap (drop 9 line) st else st);
                st = (if HasPrefix line ''a=fmtp:'' \<and> sd_codecType st \<noteq> TypeUnknown then sdp_fmtp level30 (drop 7 line) st else st);
                st = (if HasPrefix line ''a=framesize:'' then sdp_framesize (drop 12 line) st else st)
            in if HasPrefix line ''a=framerate:'' then sdp_framerate (drop 12 line) st else st))"

definition sdp_start :: "codec_Detector \<Rightarrow> sdp_state" where
  "sdp_start d = \<lparr>sd_codecType = [], sd_info = empty_Info, sd_currentPayloadType = 0, sd_inVideoSection = False, sd_payloadTypeMap = d\<rparr>"

definition DetectFromSDP ::
  "(int \<Rightarrow> string) \<Rightarrow> string \<Rightarrow> codec_Detector \<Rightarrow> codec_Detector \<times> (codec_error + codec_Type \<times> codec_Info)" where
  "DetectFromSDP level30 sdp d =
     (let st = fold (sdp_line level30) (strings_Split (CHR 0x0A) sdp) (sdp_start d)
      in (sd_payloadTypeMap st,
          if sd_codecType st = TypeUnknown then Inl NoVideoCodec
          else Inr (sd_codecType st, (sd_info st)\<lparr>ci_Type := sd_codecType st\<rparr>)))"

definition DetectFromRTPPacket :: "rtp_packet \<Rightarrow> codec_Detector \<Rightarrow> codec_error + codec_Type" where
  "DetectFromRTPPacket packet d =
     (case d (pk_PayloadType packet) of
        Some codecType \<Rightarrow> Inr codecType
      | None \<Rightarrow>
          (let payload = pk_Payload packet
           in if length payload < 2 then Inl PacketTooShort
              else
                (let b = payload ! 0; forbiddenBit = drop_bit 7 b; hevcNalType = drop_bit 1 b AND 0x3F; tid = payload ! 1 AND 0x07;
                     nalType = b AND 0x1F; obuType = drop_bit 3 b AND 0x0F
                 in if forbiddenBit = 0 \<and> tid > 0 \<and> hevcNalType \<le> 49 \<and> hevcNalType \<ge> 32 then Inr TypeHEVC
                    else if forbiddenBit = 0 \<and> nalType \<ge> 1 \<and> nalType \<le> 23 then Inr TypeH264
                    else if forbiddenBit = 0 \<and> nalType \<ge> 24 \<and> nalType \<le> 29 then Inr TypeH264
                    else if length payload \<ge> 4 \<and> b AND 0x80 = 0 \<and> obuType \<ge> 1 \<and> obuType \<le> 8 then Inr TypeAV1
                    else Inl CodecUndetected)))"

definition set_if :: "(string \<rightharpoonup> string) \<Rightarrow> string \<Rightarrow> (string \<Rightarrow> codec_Info \<Rightarrow> codec_Info) \<Rightarrow> codec_Info \<Rightarrow> codec_Info" where
  "set_if metadata key f info = (case metadata key of Some v \<Rightarrow> f v info | None \<Rightarrow> info)"

definition DetectFromSRTMetadata :: "(string \<rightharpoonup> string) \<Rightarrow> codec_error + codec_Type \<times> codec_Info" where
  "DetectFromSRTMetadata metadata =
     (case (case metadata ''codec'' of Some c \<Rightarrow> Some c
            | None \<Rightarrow> (case metadata ''video_codec'' of Some c \<Rightarrow> Some c | None \<Rightarrow> metadata ''v_codec'')) of
        None \<Rightarrow> Inl NoCodecInMetadata
      | Some codecStr \<Rightarrow>
          (let t = ParseType codecStr
           in if t = TypeUnknown then Inl (UnknownCodec codecStr)
              else
                (let info = empty_Info\<lparr>ci_Type := t\<rparr>;
                     info = set_if metadata ''profile'' (\<lambda>v i. i\<lparr>ci_Profile := v\<rparr>) info;
                     info = set_if metadata ''level'' (\<lambda>v i. i\<lparr>ci_Level := v\<rparr>) info;
                     info = set_if metadata ''width'' (\<lambda>v i. i\<lparr>ci_Width := go_Atoi v\<rparr>) info;
                     info = set_if metadata ''height'' (\<lambda>v i. i\<lparr>ci_Height := go_Atoi v\<rparr>) info;
                     info = set_if metadata ''fps'' (\<lambda>v i. i\<lparr>ci_FrameRate := Some v\<rparr>) info;
                     info = set_if metadata ''bit_depth'' (\<lambda>v i. i\<lparr>ci_BitDepth := go_Atoi v\<rparr>) info;
                     info = set_if metadata ''chroma'' (\<lambda>v i. i\<lparr>ci_ChromaFmt := v\<rparr>) info
                 in Inr (t, info\<lparr>ci_Parameters := metadata\<rparr>))))"

section \<open>The factory\<close>

datatype depacketizer =
    D_H264 H264Depacketizer | D_HEVC HEVCDepacketizer | D_AV1 AV1Depacketizer | D_JPEGXS JPEGXSDepacketizer
  | M_H264 "H264Depacketizer DepacketizerWithMemory" | M_HEVC "HEVCDepacketizer DepacketizerWithMemory"
  | M_AV1 "AV1Depacketizer DepacketizerWithMemory" | M_JPEGXS "JPEGXSDepacketizer DepacketizerWithMemory"

definition NewH264Depacketizer :: H264Depacketizer where
  "NewH264Depacketizer = \<lparr>h4_fragments = [], h4_lastSeq = 0, h4_fuInProgress = False, h4_fragmentStartTime = None, h4_fragmentTimeout = 5 * second\<rparr>"

definition NewHEVCDepacketizer :: HEVCDepacketizer where
  "NewHEVCDepacketizer = \<lparr>h5_fragments = [], h5_lastSeq = 0, h5_fuInProgress = False\<rparr>"

definition NewAV1Depacketizer :: AV1Depacketizer where
  "NewAV1Depacketizer = \<lparr>a1_fragments = [], a1_lastSeq = 0, a1_fragmentedOBU = False, a1_obuType = 0, a1_temporalUnitBuf = []\<rparr>"

text \<open>Whether the factory has a memory controller; the limits are bytes.\<close>

record DepacketizerFactory =
  df_registry :: "codec_Type \<rightharpoonup> (string \<Rightarrow> depacketizer)"
  df_memController :: bool
  df_codecLimits :: "codec_Type \<rightharpoonup> int"

definition factory_Register :: "codec_Type \<Rightarrow> (string \<Rightarrow> depacketizer) \<Rightarrow> DepacketizerFactory \<Rightarrow> DepacketizerFactory" where
  "factory_Register codecType creator f = f\<lparr>df_registry := (df_registry f)(codecType \<mapsto> creator)\<rparr>"

definition limit_of :: "codec_Type \<Rightarrow> DepacketizerFactory \<Rightarrow> int" where
  "limit_of t f = (case df_codecLimits f t of Some n \<Rightarrow> n | None \<Rightarrow> 0)"

definition RegisterDefaults :: "DepacketizerFactory \<Rightarrow> DepacketizerFactory" where
  "RegisterDefaults f =
     (if \<not> df_memController f then
        factory_Register TypeJPEGXS (\<lambda>_. D_JPEGXS NewJPEGXSDepacketizer)
          (factory_Register TypeAV1 (\<lambda>_. D_AV1 NewAV1Depacketizer)
            (factory_Register TypeH264 (\<lambda>_. D_H264 NewH264Depacketizer)
              (factory_Register TypeHEVC (\<lambda>_. D_HEVC NewHEVCDepacketizer) f)))
      else
        factory_Register TypeJPEGXS (\<lambda>s. M_JPEGXS (NewJPEGXSDepacketizerWithMemory s (limit_of TypeJPEGXS f)))
          (factory_Register TypeAV1 (\<lambda>s. M_AV1 (NewAV1DepacketizerWithMemory s (limit_of TypeAV1 f)))
            (factory_Register TypeH264 (\<lambda>s. M_H264 (NewH264DepacketizerWithMemory s (limit_of TypeH264 f)))
              (factory_Register TypeHEVC (\<lambda>s. M_HEVC (NewHEVCDepacketizerWithMemory s (limit_of TypeHEVC f))) f))))"

definition NewDepacketizerFactory :: "bool \<Rightarrow> DepacketizerFactory" where
  "NewDepacketizerFactory memController =
     RegisterDefaults \<lparr>df_registry = Map.empty, df_memController = memController,
       df_codecLimits = [TypeH264 \<mapsto> 10 * 1024 * 1024, TypeHEVC \<mapsto> 15 * 1024 * 1024, TypeAV1 \<mapsto> 12 * 1024 * 1024, TypeJPEGXS \<mapsto> 5 * 1024 * 1024]\<rparr>"

definition factory_Create :: "codec_Type \<Rightarrow> string \<Rightarrow> DepacketizerFactory \<Rightarrow> codec_error + depacketizer" where
  "factory_Create codecType streamID f =
     (case df_registry f codecType of None \<Rightarrow> Inl (UnsupportedCodecType codecType) | Some creator \<Rightarrow> Inr (creator streamID))"

definition factory_IsSupported :: "codec_Type \<Rightarrow> DepacketizerFactory \<Rightarrow> bool" where
  "factory_IsSupported codecType f \<longleftrightarrow> df_registry f codecType \<noteq> None"

definition factory_Unregister :: "codec_Type \<Rightarrow> DepacketizerFactory \<Rightarrow> DepacketizerFactory" where
  "factory_Unregister codecType f = f\<lparr>df_registry := (df_registry f)(codecType := None)\<rparr>"

text \<open>The pool: taking from it creates, and what is put back is kept only for a codec that has a pool, which none ever gets.\<close>

definition pool_Get :: "codec_Type \<Rightarrow> string \<Rightarrow> DepacketizerFactory \<Rightarrow> codec_error + depacketizer" where
  "pool_Get codecType streamID f = factory_Create codecType streamID f"

section \<open>Reading a description\<close>

fun join_lines :: "string list \<Rightarrow> string" where
  "join_lines [] = []"
| "join_lines [l] = l"
| "join_lines (l # ls) = l @ CHR 0x0A # join_lines ls"

lemma split_word: "sep \<notin> set w \<Longrightarrow> strings_Split sep (w @ sep # s) = w # strings_Split sep s"
  by (induction w) auto

lemma split_last: "sep \<notin> set w \<Longrightarrow> strings_Split sep w = [w]"
  by (induction w) auto

lemma split_join: "ls \<noteq> [] \<Longrightarrow> list_all (\<lambda>l. CHR 0x0A \<notin> set l) ls \<Longrightarrow> strings_Split (CHR 0x0A) (join_lines ls) = ls"
  by (induction ls rule: join_lines.induct) (simp_all add: split_word split_last)

text \<open>Decimal numbers are read back.\<close>

lemma of_char_digit: "n < 10 \<Longrightarrow> (of_char (char_of (48 + n) :: char) :: nat) = 48 + n"
  by simp

lemma is_digit_char: "(n :: nat) < 10 \<Longrightarrow> is_digit (char_of (48 + n))"
  using of_char_digit [of n] by (simp only: is_digit_def) linarith

lemma nat_text_digits: "nat_text n \<noteq> [] \<and> list_all is_digit (nat_text n)"
proof (induction n rule: nat_text.induct)
  case (1 n)
  show ?case
  proof (cases "n < 10")
    case True
    then show ?thesis using is_digit_char [of n] by (simp add: nat_text.simps [of n])
  next
    case False
    then show ?thesis using 1 is_digit_char [of "n mod 10"] by (simp add: nat_text.simps [of n])
  qed
qed

lemma digits_value_text: "digits_value (nat_text n) = int n"
proof (induction n rule: nat_text.induct)
  case (1 n)
  have d: "int (of_char (char_of (48 + m) :: char)) = int m + 48" if "m < 10" for m :: nat using of_char_digit [OF that] by simp
  show ?case
  proof (cases "n < 10")
    case True
    then show ?thesis using d [of n] unfolding nat_text.simps [of n] digits_value_def by simp
  next
    case False
    then have "digits_value (nat_text n) = 10 * int (n div 10) + (int (of_char (char_of (48 + n mod 10) :: char)) - 48)"
      using 1 unfolding nat_text.simps [of n] digits_value_def by simp
    also have "\<dots> = 10 * int (n div 10) + int (n mod 10)" using d [of "n mod 10"] by simp
    finally show ?thesis by presburger
  qed
qed

lemma Atoi_text: "int n < 2 ^ 63 \<Longrightarrow> go_Atoi (nat_text n) = int n"
proof -
  assume n: "int n < 2 ^ 63"
  obtain ch r where t: "nat_text n = ch # r" and dig: "list_all is_digit (ch # r)" using nat_text_digits [of n] by (cases "nat_text n") auto
  then have "ch \<noteq> CHR ''-''" "ch \<noteq> CHR ''+''" by (auto simp: is_digit_def)
  then show ?thesis using n dig digits_value_text [of n] by (simp add: go_Atoi_def t)
qed

section \<open>The codec of a description\<close>

lemmas sdp_defs = sdp_fmtp_def sdp_framesize_def sdp_framerate_def

lemma other_attributes [simp]:
  "sd_codecType (sdp_fmtp lv a st) = sd_codecType st" "sd_codecType (sdp_framesize a st) = sd_codecType st"
  "sd_codecType (sdp_framerate a st) = sd_codecType st" "sd_payloadTypeMap (sdp_fmtp lv a st) = sd_payloadTypeMap st"
  "sd_payloadTypeMap (sdp_framesize a st) = sd_payloadTypeMap st" "sd_payloadTypeMap (sdp_framerate a st) = sd_payloadTypeMap st"
  "sd_inVideoSection (sdp_fmtp lv a st) = sd_inVideoSection st" "sd_inVideoSection (sdp_framesize a st) = sd_inVideoSection st"
  "sd_inVideoSection (sdp_framerate a st) = sd_inVideoSection st"
  by (auto simp: sdp_defs split: list.split)

lemma rtpmap_section [simp]: "sd_inVideoSection (sdp_rtpmap a st) = sd_inVideoSection st"
  by (auto simp: sdp_rtpmap_def Let_def split: list.split option.split)

lemma rtpmap_codec_known: "rtpmap_codec name = Some t \<Longrightarrow> t \<noteq> TypeUnknown"
  by (auto simp: rtpmap_codec_def codec_types split: if_splits)

lemma rtpmap_known: "sd_codecType st \<noteq> TypeUnknown \<Longrightarrow> sd_codecType (sdp_rtpmap a st) \<noteq> TypeUnknown"
  using rtpmap_codec_known by (auto simp: sdp_rtpmap_def Let_def split: list.split option.split)

lemma line_known: "sd_codecType st \<noteq> TypeUnknown \<Longrightarrow> sd_codecType (sdp_line lv l st) \<noteq> TypeUnknown"
  using rtpmap_known by (simp add: sdp_line_def Let_def)

lemma lines_known: "sd_codecType st \<noteq> TypeUnknown \<Longrightarrow> sd_codecType (fold (sdp_line lv) ls st) \<noteq> TypeUnknown"
  by (induction ls arbitrary: st) (simp_all add: line_known)

definition is_rtpmap :: "string \<Rightarrow> bool" where
  "is_rtpmap l \<longleftrightarrow> HasPrefix (TrimSpace l) ''a=rtpmap:''"

definition is_media :: "string \<Rightarrow> bool" where
  "is_media l \<longleftrightarrow> HasPrefix (TrimSpace l) ''m=''"

lemma lines_keep_codec:
  "list_all (\<lambda>l. \<not> is_rtpmap l) ls \<Longrightarrow> sd_codecType (fold (sdp_line lv) ls st) = sd_codecType st \<and>
   sd_payloadTypeMap (fold (sdp_line lv) ls st) = sd_payloadTypeMap st"
proof (induction ls arbitrary: st)
  case (Cons l ls)
  then have "sd_codecType (sdp_line lv l st) = sd_codecType st" "sd_payloadTypeMap (sdp_line lv l st) = sd_payloadTypeMap st"
    by (simp_all add: sdp_line_def is_rtpmap_def Let_def)
  then show ?case using Cons by simp
qed simp

lemma video_prefix: "HasPrefix s ''m=video'' \<Longrightarrow> HasPrefix s ''m=''"
  by (auto simp: HasPrefix_def take_Suc_conv_app_nth numeral_eq_Suc dest: arg_cong [where f = "take 2"])

lemma lines_keep_section:
  "list_all (\<lambda>l. \<not> is_media l) ls \<Longrightarrow> sd_inVideoSection (fold (sdp_line lv) ls st) = sd_inVideoSection st"
proof (induction ls arbitrary: st)
  case (Cons l ls)
  then have "sd_inVideoSection (sdp_line lv l st) = sd_inVideoSection st"
    using video_prefix [of "TrimSpace l"] by (auto simp: sdp_line_def is_media_def Let_def)
  then show ?case using Cons by simp
qed simp

definition rtpmap_line :: "nat \<Rightarrow> string \<Rightarrow> string \<Rightarrow> string" where
  "rtpmap_line pt name rate = ''a=rtpmap:'' @ nat_text pt @ '' '' @ name @ ''/'' @ rate"

lemma digit_not: "list_all is_digit ds \<Longrightarrow> \<not> is_digit ch \<Longrightarrow> ch \<notin> set ds"
  by (auto simp: list_all_iff)

lemma TrimSpace_id: "\<not> is_space (hd s) \<Longrightarrow> \<not> is_space (last s) \<Longrightarrow> TrimSpace s = s"
  using dropWhile_eq_self_iff [of is_space s] dropWhile_eq_self_iff [of is_space "rev s"] by (simp add: TrimSpace_def hd_rev)

lemma rtpmap_line_trimmed:
  assumes "rate \<noteq> []" and "list_all is_digit rate"
  shows "TrimSpace (rtpmap_line pt name rate) = rtpmap_line pt name rate"
proof (rule TrimSpace_id)
  have "is_digit (last rate)" using assms by (simp add: list_all_iff)
  then show "\<not> is_space (last (rtpmap_line pt name rate))" using assms(1) by (auto simp: is_digit_def is_space_def rtpmap_line_def)
qed (simp add: rtpmap_line_def is_space_def)

text \<open>The codec that a mapping in a video section announces is entered for its payload type.\<close>

lemma rtpmap_line_step:
  assumes "sd_inVideoSection st" and "pt < 256" and "rtpmap_codec (ToUpper name) = Some t" and "CHR '' '' \<notin> set name" and "CHR ''/'' \<notin> set name"
    and "rate \<noteq> []" and "list_all is_digit rate"
  shows "sd_codecType (sdp_line lv (rtpmap_line pt name rate) st) = t"
    and "sd_payloadTypeMap (sdp_line lv (rtpmap_line pt name rate) st) = (sd_payloadTypeMap st)(of_nat pt \<mapsto> t)"
proof -
  let ?arg = "nat_text pt @ CHR '' '' # name @ CHR ''/'' # rate"
  have space: "CHR '' '' \<notin> set (nat_text pt)" "CHR '' '' \<notin> set rate" "CHR ''/'' \<notin> set rate"
    using nat_text_digits [of pt] assms(7) by (auto simp: list_all_iff is_digit_def)
  then have "strings_Split (CHR '' '') ?arg = [nat_text pt, name @ CHR ''/'' # rate]" using assms(4) by (simp add: split_word split_last)
  moreover have "strings_Split (CHR ''/'') (name @ CHR ''/'' # rate) = [name, rate]" using assms(5) space by (simp add: split_word split_last)
  moreover have "word_of_int (go_Atoi (nat_text pt)) = (of_nat pt :: byte)" using assms(2) by (simp add: Atoi_text)
  ultimately have "sd_codecType (sdp_rtpmap ?arg st) = t" "sd_payloadTypeMap (sdp_rtpmap ?arg st) = (sd_payloadTypeMap st)(of_nat pt \<mapsto> t)"
    using assms(3) by (simp_all add: sdp_rtpmap_def Let_def)
  moreover have "sdp_line lv (rtpmap_line pt name rate) st = sdp_rtpmap ?arg st"
    using assms(1) rtpmap_line_trimmed [OF assms(6,7)] by (simp add: sdp_line_def HasPrefix_def Let_def) (simp add: rtpmap_line_def)
  ultimately show "sd_codecType (sdp_line lv (rtpmap_line pt name rate) st) = t"
    "sd_payloadTypeMap (sdp_line lv (rtpmap_line pt name rate) st) = (sd_payloadTypeMap st)(of_nat pt \<mapsto> t)" by simp_all
qed

section \<open>Properties\<close>

text \<open>C26: The session description decides how packets are taken: if the last mapping of a description stands in a video section and maps a
  payload type to a supported codec name, in any spelling, the detector returns that codec, and from then on takes every packet of
  that payload type for it, whatever its bytes; the factory has a depacketizer for it.\<close>

theorem sdp_decides_codec:
  assumes "lines = pre @ [video] @ mid @ [rtpmap_line pt name rate] @ post" and "list_all (\<lambda>l. CHR 0x0A \<notin> set l) lines"
    and "HasPrefix (TrimSpace video) ''m=video''" and "list_all (\<lambda>l. \<not> is_media l) mid" and "list_all (\<lambda>l. \<not> is_rtpmap l) post"
    and "pt < 256" and "rtpmap_codec (ToUpper name) = Some t" and "CHR '' '' \<notin> set name" and "CHR ''/'' \<notin> set name"
    and "rate \<noteq> []" and "list_all is_digit rate" and "pk_PayloadType packet = of_nat pt"
  shows "\<exists>d' info. DetectFromSDP lv (join_lines lines) d = (d', Inr (t, info)) \<and> ci_Type info = t \<and>
    DetectFromRTPPacket packet d' = Inr t \<and> factory_IsSupported t (NewDepacketizerFactory m)"
proof -
  let ?run = "fold (sdp_line lv)"
  define s1 where "s1 = ?run (pre @ [video]) (sdp_start d)"
  define s2 where "s2 = ?run mid s1"
  define s3 where "s3 = sdp_line lv (rtpmap_line pt name rate) s2"
  define s4 where "s4 = ?run post s3"
  have run: "?run lines (sdp_start d) = s4" by (simp add: s1_def s2_def s3_def s4_def assms(1))
  have "sd_inVideoSection s1" using assms(3) by (simp add: s1_def sdp_line_def Let_def)
  then have "sd_inVideoSection s2" using lines_keep_section [OF assms(4)] by (simp add: s2_def)
  note step = rtpmap_line_step [OF this assms(6-11), of lv, folded s3_def]
  have codec: "sd_codecType s4 = t" "sd_payloadTypeMap s4 (of_nat pt) = Some t"
    using lines_keep_codec [OF assms(5)] step by (simp_all add: s4_def)
  have "strings_Split (CHR 0x0A) (join_lines lines) = lines" using split_join [OF _ assms(2)] assms(1) by simp
  moreover have "t \<noteq> TypeUnknown" using rtpmap_codec_known [OF assms(7)] .
  moreover have "factory_IsSupported t (NewDepacketizerFactory m)"
    using assms(7) by (auto simp: rtpmap_codec_def factory_IsSupported_def NewDepacketizerFactory_def RegisterDefaults_def factory_Register_def
        codec_types split: if_splits)
  ultimately show ?thesis using codec run assms(12) by (simp add: DetectFromSDP_def DetectFromRTPPacket_def Let_def)
qed

theorem sdp_decides_codec_witness:
  "\<exists>d' info. DetectFromSDP (\<lambda>_. []) (join_lines [''v=0'', ''m=audio 0'', ''m=video 5004'', ''c=IN IP4'', rtpmap_line 96 ''h265'' ''90000'', ''a=fmtp:96 level-id=93''])
       NewCodecDetector = (d', Inr (''HEVC'', info)) \<and> DetectFromRTPPacket (packet0\<lparr>pk_Payload := [1, 2, 3]\<rparr>) d' = Inr ''HEVC''"
proof -
  have "rtpmap_codec (ToUpper ''h265'') = Some TypeHEVC" by code_simp
  moreover have "HasPrefix (TrimSpace ''m=video 5004'') ''m=video''" "\<not> is_media ''c=IN IP4''" "\<not> is_rtpmap ''a=fmtp:96 level-id=93''"
    "CHR 0x0A \<notin> set (rtpmap_line 96 ''h265'' ''90000'')" "list_all is_digit ''90000''" by code_simp+
  ultimately have "\<exists>d' info. DetectFromSDP (\<lambda>_. []) (join_lines ([''v=0'', ''m=audio 0''] @ [''m=video 5004''] @ [''c=IN IP4''] @ [rtpmap_line 96 ''h265'' ''90000''] @
      [''a=fmtp:96 level-id=93''])) NewCodecDetector = (d', Inr (TypeHEVC, info)) \<and> ci_Type info = TypeHEVC \<and>
      DetectFromRTPPacket (packet0\<lparr>pk_Payload := [1, 2, 3]\<rparr>) d' = Inr TypeHEVC \<and> factory_IsSupported TypeHEVC (NewDepacketizerFactory True)"
    by (intro sdp_decides_codec [OF refl]) (simp_all add: packet0_def)
  then show ?thesis unfolding append.simps TypeHEVC_def by blast
qed

text \<open>No description is ever refused: the check for a missing codec compares with the type \<^verbatim>\<open>UNKNOWN\<close>, but a variable that no mapping
  has set is the empty string.\<close>

theorem sdp_never_refused: "\<exists>t info. snd (DetectFromSDP lv sdp d) = Inr (t, info)"
proof -
  have "sd_codecType (sdp_start d) \<noteq> TypeUnknown" by (simp add: sdp_start_def TypeUnknown_def)
  from lines_known [OF this] show ?thesis by (simp add: DetectFromSDP_def Let_def)
qed

text \<open>Two profiles that the detector reports are refused by the validation of its own result.\<close>

theorem reported_profile_refused:
  "info_Validate (parseH264Params ''profile-level-id'' ''58001E'' (empty_Info\<lparr>ci_Type := TypeH264\<rparr>)) = Some (InvalidProfile ''extended'') \<and>
   info_Validate (parseHEVCParams lv ''profile-id'' ''4'' (empty_Info\<lparr>ci_Type := TypeHEVC\<rparr>)) = Some (InvalidProfile ''rext'')"
  by (rule conjI) code_simp+

end
