(* ===== verification/Checksum.thy ===== *)
theory Checksum
  imports Mirror_Prelude "HOL-Library.AList"
begin

unbundle bit_operations_syntax

text \<open>
  Checksums, \<^verbatim>\<open>integrity/checksum.go\<close>: the cached checksum of a block, the checksum of a block in pieces, and the running checksum
  of a stream.  CRC-32 is computed bit by bit with the reflected IEEE polynomial; MD5 is the argument \<open>md5\<close>, of which nothing is
  assumed.  The entry that a full cache gives up is the choice of Go's map iteration, the argument \<open>victim\<close>.
\<close>

section \<open>CRC-32\<close>

definition crc_bit :: "u32 \<Rightarrow> u32" where
  "crc_bit c = (if c AND 1 \<noteq> 0 then drop_bit 1 c XOR 0xEDB88320 else drop_bit 1 c)"

definition crc_byte :: "byte \<Rightarrow> u32 \<Rightarrow> u32" where
  "crc_byte b c = (crc_bit ^^ 8) (c XOR ucast b)"

definition crc32_Update :: "u32 \<Rightarrow> byte list \<Rightarrow> u32" where
  "crc32_Update crc data = NOT (fold crc_byte data (NOT crc))"

definition crc32_Checksum :: "byte list \<Rightarrow> u32" where
  "crc32_Checksum data = crc32_Update 0 data"

lemma crc_byte_steps: "crc_byte b c = crc_bit (crc_bit (crc_bit (crc_bit (crc_bit (crc_bit (crc_bit (crc_bit (c XOR ucast b))))))))"
  by (simp add: crc_byte_def numeral_eq_Suc)

lemma crc32_check_value: "crc32_Checksum [0x61, 0x62, 0x63] = 0x352441C2"
proof -
  have ones: "crc_bit (- 98) = crc_bit 4294967198" by (simp add: crc_bit_def)
  show ?thesis by (simp add: crc32_Checksum_def crc32_Update_def crc_byte_steps ones crc_bit_def [of "numeral n" for n])
qed

lemma crc32_Update_append: "crc32_Update (crc32_Update c xs) ys = crc32_Update c (xs @ ys)"
  by (simp add: crc32_Update_def)

lemma crc32_Update_chunks: "fold (\<lambda>chunk c. crc32_Update c chunk) chunks c = crc32_Update c (concat chunks)"
proof (induction chunks arbitrary: c)
  case Nil
  show ?case by (simp add: crc32_Update_def)
qed (simp add: crc32_Update_append)

section \<open>The checksummer\<close>

datatype ChecksumType = ChecksumCRC32 | ChecksumMD5 | ChecksumXXHash

record Checksummer =
  ck_checksumType :: ChecksumType
  ck_cache :: "(byte list \<times> u32) list"
  ck_cacheSize :: nat

definition NewChecksummer :: Checksummer where
  "NewChecksummer = \<lparr>ck_checksumType = ChecksumCRC32, ck_cache = [], ck_cacheSize = 1000\<rparr>"

definition be64 :: "nat \<Rightarrow> byte list" where
  "be64 n = map (\<lambda>i. word_of_nat (n div 256 ^ (7 - i))) [0..<8]"

definition cacheKey :: "byte list \<Rightarrow> byte list" where
  "cacheKey data = (if length data < 8 then data else be64 (length data) @ take 4 data @ drop (length data - 4) data)"

definition getFromCache :: "byte list \<Rightarrow> Checksummer \<Rightarrow> u32 option" where
  "getFromCache key c = map_of (ck_cache c) key"

definition addToCache :: "((byte list \<times> u32) list \<Rightarrow> byte list) \<Rightarrow> byte list \<Rightarrow> u32 \<Rightarrow> Checksummer \<Rightarrow> Checksummer" where
  "addToCache victim key checksum c =
     (let cache = (if length (ck_cache c) \<ge> ck_cacheSize c \<and> ck_cache c \<noteq> [] then AList.delete (victim (ck_cache c)) (ck_cache c) else ck_cache c)
      in c\<lparr>ck_cache := AList.update key checksum cache\<rparr>)"

definition clearCache :: "Checksummer \<Rightarrow> Checksummer" where
  "clearCache c = c\<lparr>ck_cache := []\<rparr>"

definition SetType :: "ChecksumType \<Rightarrow> Checksummer \<Rightarrow> Checksummer" where
  "SetType t c = clearCache (c\<lparr>ck_checksumType := t\<rparr>)"

definition checksum_of :: "(byte list \<Rightarrow> u32) \<Rightarrow> ChecksumType \<Rightarrow> byte list \<Rightarrow> u32" where
  "checksum_of md5 t data = (case t of ChecksumCRC32 \<Rightarrow> crc32_Checksum data | ChecksumMD5 \<Rightarrow> md5 data | _ \<Rightarrow> crc32_Checksum data)"

definition Calculate ::
  "(byte list \<Rightarrow> u32) \<Rightarrow> ((byte list \<times> u32) list \<Rightarrow> byte list) \<Rightarrow> byte list \<Rightarrow> Checksummer \<Rightarrow> Checksummer \<times> u32" where
  "Calculate md5 victim data c =
     (if length data = 0 then (c, 0)
      else
        (let key = cacheKey data
         in case getFromCache key c of
              Some cached \<Rightarrow> (c, cached)
            | None \<Rightarrow>
                (let checksum = checksum_of md5 (ck_checksumType c) data in (addToCache victim key checksum c, checksum))))"

definition checksum_Verify ::
  "(byte list \<Rightarrow> u32) \<Rightarrow> ((byte list \<times> u32) list \<Rightarrow> byte list) \<Rightarrow> byte list \<Rightarrow> u32 \<Rightarrow> Checksummer \<Rightarrow> Checksummer \<times> bool" where
  "checksum_Verify md5 victim data expected c = (let (c, actual) = Calculate md5 victim data c in (c, actual = expected))"

definition CalculateIncremental :: "byte list list \<Rightarrow> u32" where
  "CalculateIncremental chunks = (if length chunks = 0 then 0 else fold (\<lambda>chunk h. crc32_Update h chunk) chunks 0)"

record StreamChecksum =
  sc_h :: u32
  sc_size :: u64

definition NewStreamChecksum :: StreamChecksum where
  "NewStreamChecksum = \<lparr>sc_h = 0, sc_size = 0\<rparr>"

definition stream_Update :: "byte list \<Rightarrow> StreamChecksum \<Rightarrow> StreamChecksum" where
  "stream_Update data sc = sc\<lparr>sc_h := crc32_Update (sc_h sc) data, sc_size := sc_size sc + of_nat (length data)\<rparr>"

definition stream_Sum :: "StreamChecksum \<Rightarrow> u32" where
  "stream_Sum sc = sc_h sc"

definition stream_Reset :: "StreamChecksum \<Rightarrow> StreamChecksum" where
  "stream_Reset sc = sc\<lparr>sc_h := 0, sc_size := 0\<rparr>"

definition stream_Size :: "StreamChecksum \<Rightarrow> u64" where
  "stream_Size sc = sc_size sc"

section \<open>The cache\<close>

text \<open>The states of a checksummer in use.\<close>

inductive ck_reachable :: "(byte list \<Rightarrow> u32) \<Rightarrow> Checksummer \<Rightarrow> bool" for md5 where
  New: "ck_reachable md5 NewChecksummer"
| Calc: "ck_reachable md5 c \<Longrightarrow> ck_reachable md5 (fst (Calculate md5 victim data c))"
| Type: "ck_reachable md5 c \<Longrightarrow> ck_reachable md5 (SetType t c)"

text \<open>Every entry is the checksum of some block with that key.\<close>

definition ck_inv :: "(byte list \<Rightarrow> u32) \<Rightarrow> Checksummer \<Rightarrow> bool" where
  "ck_inv md5 c \<longleftrightarrow> (\<forall>key s. map_of (ck_cache c) key = Some s \<longrightarrow> (\<exists>data. cacheKey data = key \<and> s = checksum_of md5 (ck_checksumType c) data)) \<and>
     distinct (map fst (ck_cache c))"

lemma addToCache_inv:
  assumes "ck_inv md5 c"
  shows "ck_inv md5 (addToCache victim (cacheKey data) (checksum_of md5 (ck_checksumType c) data) c)"
proof -
  let ?m = "\<lambda>xs. \<forall>key s. map_of xs key = Some s \<longrightarrow> (\<exists>data. cacheKey data = key \<and> s = checksum_of md5 (ck_checksumType c) data)"
  define xs where "xs = (if length (ck_cache c) \<ge> ck_cacheSize c \<and> ck_cache c \<noteq> [] then AList.delete (victim (ck_cache c)) (ck_cache c) else ck_cache c)"
  have "?m xs" using assms by (auto simp: xs_def ck_inv_def delete_conv split: if_splits)
  moreover have "distinct (map fst xs)" using assms by (auto simp: xs_def ck_inv_def distinct_delete)
  ultimately show ?thesis
    by (auto simp: addToCache_def ck_inv_def update_conv distinct_update simp flip: xs_def split: if_splits)
qed

lemma reachable_inv: "ck_reachable md5 c \<Longrightarrow> ck_inv md5 c"
proof (induction rule: ck_reachable.induct)
  case (Calc c victim data)
  then show ?case using addToCache_inv by (auto simp: Calculate_def Let_def split: option.split)
qed (auto simp: ck_inv_def NewChecksummer_def SetType_def clearCache_def)

lemma short_key: "length data < 8 \<Longrightarrow> cacheKey d = cacheKey data \<Longrightarrow> d = data"
  by (cases "length d < 8") (auto simp: cacheKey_def be64_def dest: arg_cong [where f = length])

section \<open>Properties\<close>

text \<open>Checksums in pieces are checksums of the whole: however a block is cut, the incremental calculation and the running checksum
  of a stream both give its CRC-32, and the stream counts its bytes.\<close>

theorem checksum_pieces_agree:
  "CalculateIncremental chunks = crc32_Checksum (concat chunks) \<and>
   stream_Sum (fold stream_Update chunks NewStreamChecksum) = crc32_Checksum (concat chunks) \<and>
   stream_Size (fold stream_Update chunks NewStreamChecksum) = of_nat (length (concat chunks))"
proof -
  have "fold stream_Update chunks sc = sc\<lparr>sc_h := crc32_Update (sc_h sc) (concat chunks), sc_size := sc_size sc + of_nat (length (concat chunks))\<rparr>" for sc
  proof (induction chunks arbitrary: sc)
    case Nil
    show ?case by (simp add: crc32_Update_def)
  qed (simp add: stream_Update_def crc32_Update_append algebra_simps)
  moreover have "crc32_Checksum [] = 0" by (simp add: crc32_Checksum_def crc32_Update_def)
  ultimately show ?thesis
    by (simp add: CalculateIncremental_def crc32_Update_chunks stream_Sum_def stream_Size_def NewStreamChecksum_def flip: crc32_Checksum_def)
qed

text \<open>The cache is right for blocks of less than eight bytes: in every state of a checksummer, whatever was calculated before, the
  result is the checksum of the current type.\<close>

theorem short_checksums_exact:
  assumes "ck_reachable md5 c" and "0 < length data" and "length data < 8"
  shows "snd (Calculate md5 victim data c) = checksum_of md5 (ck_checksumType c) data"
proof (cases "map_of (ck_cache c) (cacheKey data)")
  case (Some s)
  then obtain d where "cacheKey d = cacheKey data" "s = checksum_of md5 (ck_checksumType c) d" using reachable_inv [OF assms(1)] unfolding ck_inv_def by blast
  moreover from this have "d = data" using short_key [OF assms(3)] by blast
  ultimately show ?thesis using Some assms(2) by (simp add: Calculate_def getFromCache_def)
qed (use assms(2) in \<open>simp add: Calculate_def getFromCache_def Let_def\<close>)

theorem short_checksums_exact_witness:
  "snd (Calculate (\<lambda>_. 0) (\<lambda>_. []) [1] (fst (Calculate (\<lambda>_. 0) (\<lambda>_. []) [1, 2] NewChecksummer))) = crc32_Checksum [1]"
  using short_checksums_exact [OF ck_reachable.Calc [OF ck_reachable.New [of "\<lambda>_. 0"], of "\<lambda>_. []" "[1, 2]"], of "[1]" "\<lambda>_. []"]
  by (simp add: Calculate_def NewChecksummer_def checksum_of_def getFromCache_def addToCache_def Let_def)

text \<open>For longer blocks it is not: the key holds the length and the first and last four bytes only.  Once a block has been
  calculated, any block that differs from it in between is verified against its checksum with success.\<close>

theorem altered_block_verifies:
  assumes "8 \<le> length data" and "length data' = length data" and "take 4 data' = take 4 data"
    and "drop (length data - 4) data' = drop (length data - 4) data"
  shows "let (c1, s) = Calculate md5 victim data c in snd (checksum_Verify md5 victim data' s c1)"
proof -
  have "cacheKey data' = cacheKey data" using assms by (simp add: cacheKey_def)
  then show ?thesis using assms
    by (auto simp: checksum_Verify_def Calculate_def Let_def getFromCache_def addToCache_def update_conv split: option.split)
qed

theorem altered_block_verifies_witness:
  "let (c1, s) = Calculate (\<lambda>_. 0) (\<lambda>_. []) [1, 2, 3, 4, 5, 6, 7, 8, 9] NewChecksummer
   in snd (checksum_Verify (\<lambda>_. 0) (\<lambda>_. []) [1, 2, 3, 4, 99, 6, 7, 8, 9] s c1)"
  by (rule altered_block_verifies) simp_all

end
