(* ===== verification/Spec2Isabelle.thy ===== *)
theory Spec2Isabelle
  imports LEB128 Ring_Buffer Sized_Buffer Bit_Reader RBSP Memory_Depacketizer AV1_Depacketizer
    Jitter_Buffer Packet_Loss TS_Validation_Props TS_Alignment MPEGTS_Props
    Hybrid_Queue AV_Sync BFrame_Reorderer Rate_Limit RTP_Validator
    H264_SPS_Props Parameter_Context_Props GOP_Buffer_Props Frame_Assembler_Props H264_Frame_Props Resolution_Detector Reconnect Codec_Detector Checksum
begin

text \<open>
  A verification development for the ingestion side of the Mirror video server
  (\<^verbatim>\<open>src/internal/ingestion\<close> and \<^verbatim>\<open>src/internal/queue\<close>).

  \<^bold>\<open>The program.\<close>  Mirror takes live video over RTP and SRT.  RTP packets pass a validator and a loss
  tracker, wait in a jitter buffer, and are reassembled by a depacketizer per codec (H.264, HEVC, AV1, JPEG XS) into
  NAL units or OBUs; SRT payloads are MPEG transport streams that the alignment validator cuts into packets and
  the parser demultiplexes into PES packets.  Detectors find the frame boundaries and the assembler puts frames together.  Time stamps are unwrapped and mapped to one clock, frames are put
  into decode order, and the audio and video tracks are kept together by the synchroniser.  Bytes wait in ring
  buffers and in a queue that overflows to disk; the parameter sets of a stream are parsed, cached, versioned and put in
  front of the frames a decoder gets, which are held in groups of pictures; a memory controller books what every stream holds and evicts
  streams under pressure; rate limiters guard the inputs.

  \<^bold>\<open>How the code is read.\<close>  A struct is a record whose fields carry a short prefix (\<open>rb_\<close> for
  \<^verbatim>\<open>RingBuffer\<close>), an operation is a function from the state to the new state and its results.  A mutex held
  for a whole method makes the method one step; goroutines that interleave are a step relation (\<open>hq_step\<close>).
  Errors are values of a datatype per component, a Go panic is the outcome \<open>Panic\<close>, waiting is \<open>Block\<close>.
  \<^verbatim>\<open>int64\<close> arithmetic wraps through \<open>i64\<close>; the narrower integers are words.  Maps whose sums matter are
  association lists (\<open>Account_Maps\<close>), other maps are HOL maps.  The clock readings of a call are its arguments,
  as are the choice a \<^verbatim>\<open>select\<close> makes and the verdict of a library rate limiter.  Log output is left out.

  \<^bold>\<open>The theories.\<close>
    \<^item> \<open>Mirror_Prelude\<close>: Go integers, slices, outcomes, the collections the component proofs use.
    \<^item> \<open>LEB128\<close> (\<^verbatim>\<open>security/leb128.go\<close>), \<open>Bit_Reader\<close> (\<^verbatim>\<open>resolution/golomb.go\<close>), \<open>RBSP\<close> (\<^verbatim>\<open>types/rbsp.go\<close>): codes and
      their round trips, the exact set of accepted inputs, emulation prevention.
    \<^item> \<open>Circular_Buffer\<close>, \<open>Byte_Fifo\<close>, \<open>Ring_Buffer\<close>, \<open>Sized_Buffer\<close> (\<^verbatim>\<open>buffer/ring.go\<close>, \<^verbatim>\<open>buffer/sized.go\<close>): both buffers
      implement the locale \<open>byte_fifo\<close>, so that any sequence of writes and reads behaves like a bounded list.
    \<^item> \<open>Account_Maps\<close>, \<open>Eviction\<close>, \<open>Memory_Controller\<close> (\<^verbatim>\<open>memory\<close>): the booked total is the sum of the stream accounts; the
      strategies meet the locale \<open>eviction_strategy\<close> for every sort that meets \<open>go_sort\<close>.
    \<^item> \<open>Depacketizer\<close> with \<open>H264_Depacketizer\<close>, \<open>HEVC_Depacketizer\<close>, \<open>AV1_Depacketizer\<close>, \<open>Memory_Depacketizer\<close> (\<^verbatim>\<open>codec\<close>): the
      locales \<open>annexb_depacketizer\<close> and \<open>fu_reassembler\<close> state once that a reassembled unit has no hole; the memory
      wrappers compose the depacketizers with the controller.  \<open>JPEGXS_Depacketizer\<close>: frames of JPEG XS; \<open>Codec_Detector\<close>: the codec of a
      session description or packet, and the factory of depacketizers.
    \<^item> \<open>Go_Heap\<close> (\<^verbatim>\<open>container/heap\<close>) with the locale \<open>heap_order\<close>; \<open>Jitter_Buffer\<close>, \<open>Packet_Loss\<close>, \<open>RTP_Validator\<close> (\<^verbatim>\<open>rtp\<close>,
      \<^verbatim>\<open>validation/fragment.go\<close>); \<open>Media_Types\<close>, \<open>BFrame_Reorderer\<close> (\<^verbatim>\<open>types/frame.go\<close>, \<^verbatim>\<open>frame/bframe_reorderer.go\<close>).
    \<^item> \<open>TS_Validation\<close>, \<open>TS_Validation_Props\<close>, \<open>TS_Alignment\<close> (\<^verbatim>\<open>validation\<close>), \<open>MPEGTS_Parser\<close>, \<open>MPEGTS_Props\<close> (\<^verbatim>\<open>mpegts\<close>):
      the transport stream from bytes to elementary streams.
    \<^item> \<open>Track_Timing\<close> (\<^verbatim>\<open>timestamp\<close>, \<^verbatim>\<open>sync/track_sync.go\<close>, \<^verbatim>\<open>sync/pts_wraparound.go\<close>), \<open>AV_Sync\<close> (\<^verbatim>\<open>sync/manager.go\<close>).
    \<^item> \<open>Hybrid_Queue\<close> (\<^verbatim>\<open>queue/hybrid_queue.go\<close>), \<open>Rate_Limit\<close> (\<^verbatim>\<open>ratelimit\<close>), \<open>Reconnect\<close> (\<^verbatim>\<open>reconnect\<close>): the
      strategies meet the locale \<open>backoff\<close>; the manager and the goroutines it starts are a step relation (\<open>rstep\<close>); \<open>Checksum\<close> (\<^verbatim>\<open>integrity/checksum.go\<close>): CRC-32 in
      pieces, and what the cache of checksums gets right and wrong.
    \<^item> \<open>Bit_Writer\<close>, \<open>Bit_Syntax\<close> (\<^verbatim>\<open>types/h264_parser.go\<close>), \<open>H264_SPS\<close>, \<open>H264_SPS_Props\<close> (\<^verbatim>\<open>resolution/h264_parser.go\<close>): the second
      bit reader and the writer, Exp-Golomb codes written and read back, the resolution of a sequence parameter set given
      by a grammar of the standard.
    \<^item> \<open>HEVC_SPS\<close>, \<open>HEVC_SPS_Props\<close>, \<open>Resolution_Detector\<close> (\<^verbatim>\<open>resolution/hevc_parser.go\<close>, \<^verbatim>\<open>resolution/detector.go\<close>): the same for
      HEVC, and the detector that finds the first parameter set in the bytes of a frame and returns the size it encodes.
    \<^item> \<open>Parameter_Sets\<close>, \<open>Parameter_Sets_Props\<close>, \<open>Parameter_Remap\<close> (\<^verbatim>\<open>types/h264_parser.go\<close>, \<^verbatim>\<open>types/parameter_validation.go\<close>):
      parsing agrees with the resolution parser on the sets of that grammar; rewritten identifiers are read back.
    \<^item> \<open>Parameter_Cache\<close>, \<open>Parameter_Validator\<close>, \<open>Encoder_Session\<close>, \<open>Parameter_Versions\<close>: the helpers of the context; the cache
      implements the locale \<open>expiring_cache\<close>.
    \<^item> \<open>Parameter_Context\<close>, \<open>Parameter_Context_Props\<close> (\<^verbatim>\<open>types/parameter_context.go\<close>): the context composed of them, its
      reachable states, and the streams it generates.
    \<^item> \<open>Packet_Types\<close> (\<^verbatim>\<open>types/packet.go\<close>, \<^verbatim>\<open>types/codec.go\<close>), \<open>Annexb\<close>, \<open>H264_Frame_Detector\<close>, \<open>HEVC_Frame_Detector\<close>, \<open>AV1_Frame_Detector\<close>,
      \<open>Frame_Assembler\<close>, \<open>Frame_Assembler_Props\<close>, \<open>H264_Frame_Props\<close> (\<^verbatim>\<open>frame\<close>): start codes (the locales \<open>start_code_test\<close> and
      \<open>unit_scanner\<close>, met by the scanners of the detectors, the assembler and the resolution detector), frame boundaries and types, the assembler as a cut of the packet stream.
    \<^item> \<open>GOP_Types\<close>, \<open>GOP_Detector\<close>, \<open>GOP_Buffer\<close>, \<open>GOP_Buffer_Props\<close> (\<^verbatim>\<open>types/gop.go\<close>, \<^verbatim>\<open>gop\<close>): groups of pictures on an explicit heap; the
      detector partitions the frames, the buffer keeps its indices and byte count right under every dropping strategy.

  \<^bold>\<open>Parameters.\<close>  \<^verbatim>\<open>sort.Slice\<close> is a function \<open>srt\<close> of which only \<open>sort_slice_spec\<close> is assumed; the order in which
  Go visits a map is a function \<open>visit\<close>; the floating-point products in the hybrid eviction score (\<open>score\<close>), the token
  accrual (\<open>earn\<close>, with \<open>earns_fairly\<close>), the drift correction (\<open>sc_scale\<close>), the bit rate of a group (\<open>rate\<close>) and the back-off products (\<open>scale\<close>, \<open>jitter\<close>) are functions, as are SHA-256 (\<open>sha\<close>) and MD5 (\<open>md5\<close>), of which nothing is
  assumed.  Every theorem with such
  a hypothesis has a witness at a concrete function.

  \<^bold>\<open>Loops.\<close>  The loops of the modelled code are total functions with a measure, but for the one that limits the number of
  groups (\<open>limit_count\<close>), a partial function that is proved to return exactly if the limit is not negative; where the code waits for an
  event, the events are a list that the call consumes.

  \<^bold>\<open>Not modelled.\<close>  Sockets, the SRT and Redis clients, HTTP handlers, logging and metrics: their behaviour is that
  of libraries outside the repository.  The health scores, quality adaptation, backpressure rates, statistics of keyframe intervals and
  time base conversion are floating-point heuristics.  The stream handler, the pipelines, the manager and the recovery loops wire
  goroutines over the parts above.  The injection, probing, migration and fallbacks of parameter sets, the configuration and the
  in-memory registry for tests are left out.
\<close>

end
